(* ===== verification/Runtime_Base.thy ===== *)
theory Runtime_Base
  imports Main
begin

text \<open>
  Shared ground of the development: the Python exceptions the modelled code raises, the two
  shapes of computation the components use (a result that may be an exception, and a stateful
  computation that keeps the mutated state even when it raises), Python's integer helpers and
  insertion-ordered dictionaries, and the generic lemmas on them.
\<close>

named_theorems res_simps \<open>unfolding the result and state-and-result combinators\<close>

subsection \<open>Exceptions and results\<close>

text \<open>
  An exception is its class; the message text is left out, as no caller in the modelled code
  inspects it.
\<close>

datatype exc =
    ValueError
  | AssertionError
  | RuntimeError
  | NotImplementedError
  | KeyError
  | IndexError
  | OverflowError
  | ZeroDivisionError
  | TypeError
  | FileNotFoundError
  | StopIteration
  | AttributeError
  | OSError

type_synonym 'a res = "exc + 'a"

definition rbind :: "'a res \<Rightarrow> ('a \<Rightarrow> 'b res) \<Rightarrow> 'b res" where
  "rbind m f = (case m of Inl e \<Rightarrow> Inl e | Inr x \<Rightarrow> f x)"

lemma rbind_simps [simp]:
  "rbind (Inl e) f = Inl e"
  "rbind (Inr x) f = f x"
  by (simp_all add: rbind_def)

lemma rbind_Inr_iff [res_simps]:
  "rbind m f = Inr y \<longleftrightarrow> (\<exists>x. m = Inr x \<and> f x = Inr y)"
  by (cases m) auto

lemma rbind_cong [fundef_cong]:
  "m = m' \<Longrightarrow> (\<And>x. m' = Inr x \<Longrightarrow> f x = f' x) \<Longrightarrow> rbind m f = rbind m' f'"
  by (cases m') auto

definition rassert :: "bool \<Rightarrow> unit res" where
  "rassert b = (if b then Inr () else Inl AssertionError)"

lemma rassert_Inr_iff [res_simps]: "rassert b = Inr u \<longleftrightarrow> b"
  by (simp add: rassert_def)

lemma rassert_simps [simp]: "rassert True = Inr ()" "rassert False = Inl AssertionError"
  by (simp_all add: rassert_def)

text \<open>The value of an option, or an exception.\<close>

definition some_or :: "exc \<Rightarrow> 'a option \<Rightarrow> 'a res" where
  "some_or e x = (case x of None \<Rightarrow> Inl e | Some y \<Rightarrow> Inr y)"

lemma some_or_Inr_iff [res_simps]: "some_or e x = Inr y \<longleftrightarrow> x = Some y"
  by (simp add: some_or_def split: option.split)

lemma some_or_simps [simp]: "some_or e None = Inl e" "some_or e (Some y) = Inr y"
  by (simp_all add: some_or_def)

text \<open>A comprehension whose element expression may raise: left to right, first error wins.\<close>

fun rmap :: "('a \<Rightarrow> 'b res) \<Rightarrow> 'a list \<Rightarrow> 'b list res" where
  "rmap f [] = Inr []"
| "rmap f (x # xs) = rbind (f x) (\<lambda>y. rbind (rmap f xs) (\<lambda>ys. Inr (y # ys)))"

lemma rmap_cong [fundef_cong]:
  "xs = ys \<Longrightarrow> (\<And>x. x \<in> set ys \<Longrightarrow> f x = g x) \<Longrightarrow> rmap f xs = rmap g ys"
  by (induction xs arbitrary: ys) auto

lemma rmap_Inr_iff:
  "rmap f xs = Inr ys \<longleftrightarrow> list_all2 (\<lambda>x y. f x = Inr y) xs ys"
  by (induction xs arbitrary: ys) (auto simp: rbind_Inr_iff list_all2_Cons1)

lemma rmap_length: "rmap f xs = Inr ys \<Longrightarrow> length ys = length xs"
  by (simp add: rmap_Inr_iff list_all2_lengthD)

lemma rmap_nth: "rmap f xs = Inr ys \<Longrightarrow> i < length xs \<Longrightarrow> f (xs ! i) = Inr (ys ! i)"
  by (simp add: rmap_Inr_iff list_all2_conv_all_nth)

lemma rmap_pure [simp]: "rmap (\<lambda>x. Inr (f x)) xs = Inr (map f xs)"
  by (induction xs) auto

text \<open>
  Where an operation mutates state before it raises, the state it leaves behind is observable:
  such operations return the pair of their outcome and the state.
\<close>

type_synonym ('s, 'a) outcome = "'a res \<times> 's"

subsection \<open>Bytes\<close>

text \<open>Python's \<open>bytes\<close>: a list of numbers below 256.\<close>

type_synonym bytes = "nat list"

subsection \<open>Lists\<close>

lemma in_set_tl: "x \<in> set (tl xs) \<Longrightarrow> x \<in> set xs"
  by (cases xs) auto

subsection \<open>Dictionaries\<close>

text \<open>
  A Python dictionary is an association list in insertion order with distinct keys: reading raises
  \<open>KeyError\<close>, assignment keeps the place of a key that is there and appends a new one.
\<close>

type_synonym ('k, 'v) dict = "('k \<times> 'v) list"

definition dict_get :: "('k, 'v) dict \<Rightarrow> 'k \<Rightarrow> 'v res" where
  "dict_get d k = (case map_of d k of None \<Rightarrow> Inl KeyError | Some v \<Rightarrow> Inr v)"

fun dict_set :: "'k \<Rightarrow> 'v \<Rightarrow> ('k, 'v) dict \<Rightarrow> ('k, 'v) dict" where
  "dict_set k v [] = [(k, v)]"
| "dict_set k v ((k', v') # d) = (if k' = k then (k, v) # d else (k', v') # dict_set k v d)"

text \<open>\<open>d[k].append(x)\<close> on a \<open>defaultdict(list)\<close>.\<close>

fun dict_push :: "'k \<Rightarrow> 'v \<Rightarrow> ('k, 'v list) dict \<Rightarrow> ('k, 'v list) dict" where
  "dict_push k x [] = [(k, [x])]"
| "dict_push k x ((k', xs) # d) = (if k' = k then (k, xs @ [x]) # d else (k', xs) # dict_push k x d)"

definition dict_ok :: "('k, 'v) dict \<Rightarrow> bool" where
  "dict_ok d \<longleftrightarrow> distinct (map fst d)"

lemma dict_get_Inr_iff [res_simps]: "dict_get d k = Inr v \<longleftrightarrow> map_of d k = Some v"
  by (simp add: dict_get_def split: option.split)

lemma dict_get_member:
  assumes "dict_ok d" and "(k, v) \<in> set d"
  shows "dict_get d k = Inr v"
  using assms by (simp add: dict_ok_def dict_get_Inr_iff)

lemma map_of_dict_set: "map_of (dict_set k v d) = (map_of d)(k \<mapsto> v)"
  by (induction d) (auto simp: fun_eq_iff)

lemma keys_dict_set: "map fst (dict_set k v d) = (if k \<in> fst ` set d then map fst d else map fst d @ [k])"
  by (induction d) force+

lemma dict_ok_set [simp]: "dict_ok d \<Longrightarrow> dict_ok (dict_set k v d)"
  by (auto simp: dict_ok_def keys_dict_set)

lemma keys_dict_push: "map fst (dict_push k x d) = (if k \<in> fst ` set d then map fst d else map fst d @ [k])"
  by (induction d) force+

lemma dict_ok_push [simp]: "dict_ok d \<Longrightarrow> dict_ok (dict_push k x d)"
  by (auto simp: dict_ok_def keys_dict_push)

subsection \<open>Integers\<close>

text \<open>Python's integers are unbounded, and its floor division and remainder are \<open>div\<close> and \<open>mod\<close>.\<close>

definition cdiv :: "int \<Rightarrow> int \<Rightarrow> int" where
  "cdiv a b = - ((- a) div b)"

lemma cdiv_bounds:
  assumes "0 < b"
  shows "a \<le> cdiv a b * b" and "cdiv a b * b < a + b"
proof -
  have "(- a) div b * b = - a - (- a) mod b"
    by (simp add: minus_mod_eq_div_mult)
  moreover have "0 \<le> (- a) mod b" and "(- a) mod b < b"
    using assms by simp_all
  ultimately show "a \<le> cdiv a b * b" and "cdiv a b * b < a + b"
    by (simp_all add: cdiv_def)
qed

lemma cdiv_le_iff: "0 < b \<Longrightarrow> cdiv a b \<le> k \<longleftrightarrow> a \<le> k * b"
proof -
  assume b: "0 < b"
  have "cdiv a b \<le> k" if "a \<le> k * b"
  proof (rule ccontr)
    assume "\<not> cdiv a b \<le> k"
    then have "(k + 1) * b \<le> cdiv a b * b" using b by (intro mult_right_mono) auto
    with cdiv_bounds(2)[OF b, of a] that show False by (simp add: algebra_simps)
  qed
  moreover have "a \<le> k * b" if "cdiv a b \<le> k"
    using cdiv_bounds(1)[OF b, of a] mult_right_mono[OF that, of b] b by linarith
  ultimately show ?thesis by blast
qed

lemma cdiv_mono: "0 < b \<Longrightarrow> a \<le> a' \<Longrightarrow> cdiv a b \<le> cdiv a' b"
  by (meson cdiv_le_iff order.refl order.trans)

lemma cdiv_nonneg: "0 < b \<Longrightarrow> 0 \<le> a \<Longrightarrow> 0 \<le> cdiv a b"
  by (simp add: cdiv_def neg_imp_zdiv_nonneg_iff div_nonpos_pos_le0)

lemma cdiv_pos: "0 < b \<Longrightarrow> 0 < a \<Longrightarrow> 0 < cdiv a b"
  using cdiv_le_iff[of b a 0] by (simp add: not_le[symmetric])

lemma le_div_iff_int: "0 < (b::int) \<Longrightarrow> k \<le> a div b \<longleftrightarrow> k * b \<le> a"
proof -
  assume b: "0 < b"
  have "k \<le> a div b" if "k * b \<le> a"
    using zdiv_mono1[OF that b] b by simp
  moreover have "k * b \<le> a" if "k \<le> a div b"
  proof -
    have "k * b \<le> a div b * b" using that b by (intro mult_right_mono) auto
    also have "\<dots> \<le> a" using b by (simp add: minus_mod_eq_div_mult[symmetric])
    finally show ?thesis .
  qed
  ultimately show ?thesis by blast
qed

text \<open>The same with its exception, and \<open>//\<close> with its.\<close>

definition py_cdiv :: "int \<Rightarrow> int \<Rightarrow> int res" where
  "py_cdiv a b = (if b = 0 then Inl ZeroDivisionError else Inr (cdiv a b))"

definition py_div :: "int \<Rightarrow> int \<Rightarrow> int res" where
  "py_div a b = (if b = 0 then Inl ZeroDivisionError else Inr (a div b))"

definition py_mod :: "int \<Rightarrow> int \<Rightarrow> int res" where
  "py_mod a b = (if b = 0 then Inl ZeroDivisionError else Inr (a mod b))"

text \<open>\<open>math.gcd(*xs)\<close>, \<open>math.lcm(*xs)\<close> and \<open>max(xs)\<close>.\<close>

definition py_gcd :: "int list \<Rightarrow> int" where
  "py_gcd xs = foldr gcd xs 0"

definition py_lcm :: "int list \<Rightarrow> int" where
  "py_lcm xs = foldr lcm xs 1"

definition py_max :: "int list \<Rightarrow> int res" where
  "py_max xs = (case xs of [] \<Rightarrow> Inl ValueError | x # ys \<Rightarrow> Inr (foldl max x ys))"

definition py_min :: "int list \<Rightarrow> int res" where
  "py_min xs = (case xs of [] \<Rightarrow> Inl ValueError | x # ys \<Rightarrow> Inr (foldl min x ys))"

lemma py_gcd_dvd: "x \<in> set xs \<Longrightarrow> py_gcd xs dvd x"
  by (induction xs) (auto simp: py_gcd_def intro: dvd_trans)

lemma py_gcd_greatest: "(\<And>x. x \<in> set xs \<Longrightarrow> d dvd x) \<Longrightarrow> d dvd py_gcd xs"
  by (induction xs) (auto simp: py_gcd_def)

lemma dvd_py_lcm: "x \<in> set xs \<Longrightarrow> x dvd py_lcm xs"
  by (induction xs) (auto simp: py_lcm_def intro: dvd_trans)

lemma py_lcm_least: "(\<And>x. x \<in> set xs \<Longrightarrow> x dvd m) \<Longrightarrow> py_lcm xs dvd m"
  by (induction xs) (auto simp: py_lcm_def)

lemma foldl_max: "foldl max x ys \<in> set (x # ys) \<and> (\<forall>y \<in> set (x # ys). y \<le> foldl max x (ys :: int list))"
proof (induction ys arbitrary: x)
  case (Cons y ys)
  then show ?case using Cons.IH[of "max x y"] max_def[of x y] by fastforce
qed simp

lemma foldl_min: "foldl min x ys \<in> set (x # ys) \<and> (\<forall>y \<in> set (x # ys). foldl min x (ys :: int list) \<le> y)"
proof (induction ys arbitrary: x)
  case (Cons y ys)
  then show ?case using Cons.IH[of "min x y"] min_def[of x y] by fastforce
qed simp

lemma py_max_Inr: "py_max xs = Inr m \<Longrightarrow> m \<in> set xs \<and> (\<forall>x \<in> set xs. x \<le> m)"
  using foldl_max by (auto simp: py_max_def split: list.splits)

lemma py_min_Inr: "py_min xs = Inr m \<Longrightarrow> m \<in> set xs \<and> (\<forall>x \<in> set xs. m \<le> x)"
  using foldl_min by (auto simp: py_min_def split: list.splits)

end
