(* ===== verification/Py_Text.thy ===== *)
theory Py_Text
  imports Runtime_Base
begin

text \<open>
  Python's string methods, as far as the programs that read settings, pin files and command output use
  them. A character is a code point below 256.
\<close>

definition blank :: "char \<Rightarrow> bool" where
  "blank c \<longleftrightarrow> of_char c \<in> {9, 10, 11, 12, 13, 28, 29, 30, 31, 32, 133, 160 :: nat}"

definition lstrip :: "string \<Rightarrow> string" where
  "lstrip s = dropWhile blank s"

definition rstrip :: "string \<Rightarrow> string" where
  "rstrip s = rev (dropWhile blank (rev s))"

definition strip :: "string \<Rightarrow> string" where
  "strip s = rstrip (lstrip s)"

text \<open>\<open>s.split()\<close>: the maximal runs of characters that are not blank.\<close>

function split_blank :: "string \<Rightarrow> string list" where
  "split_blank s =
     (let t = dropWhile blank s in
      if t = [] then [] else takeWhile (\<lambda>c. \<not> blank c) t # split_blank (dropWhile (\<lambda>c. \<not> blank c) t))"
  by pat_completeness auto
termination
proof (relation "measure length")
  fix s t :: string
  assume t: "t = dropWhile blank s" and "t \<noteq> []"
  then obtain c u where c: "t = c # u" "\<not> blank c" by (cases t) (metis hd_dropWhile list.sel(1) list.simps(3))+
  then have "length (dropWhile (\<lambda>c. \<not> blank c) t) < length t" by (simp add: le_imp_less_Suc length_dropWhile_le)
  also have "length t \<le> length s" by (simp add: t length_dropWhile_le)
  finally show "(dropWhile (\<lambda>c. \<not> blank c) t, s) \<in> measure length" by simp
qed simp

declare split_blank.simps [simp del]

text \<open>\<open>s.split(sep)\<close> for a separator of one character.\<close>

fun split_on :: "char \<Rightarrow> string \<Rightarrow> string list" where
  "split_on sep [] = [[]]"
| "split_on sep (c # s) =
     (if c = sep then [] # split_on sep s
      else case split_on sep s of [] \<Rightarrow> [[c]] | w # ws \<Rightarrow> (c # w) # ws)"

text \<open>\<open>s.splitlines()\<close>; a carriage return and a line feed together end one line.\<close>

definition line_end :: "char \<Rightarrow> bool" where
  "line_end c \<longleftrightarrow> of_char c \<in> {10, 11, 12, 13, 28, 29, 30, 133 :: nat}"

fun splitlines_from :: "string \<Rightarrow> string \<Rightarrow> string list" where
  "splitlines_from acc [] = (if acc = [] then [] else [rev acc])"
| "splitlines_from acc (c # s) =
     (if line_end c
      then rev acc # splitlines_from [] (if c = CHR 0x0D \<and> s \<noteq> [] \<and> hd s = CHR 0x0A then tl s else s)
      else splitlines_from (c # acc) s)"

definition splitlines :: "string \<Rightarrow> string list" where
  "splitlines s = splitlines_from [] s"

text \<open>What \<open>read_text\<close> makes of the line ends of a file.\<close>

fun universal_newlines :: "string \<Rightarrow> string" where
  "universal_newlines [] = []"
| "universal_newlines [c] = [if c = CHR 0x0D then CHR 0x0A else c]"
| "universal_newlines (c # d # s) =
     (if c = CHR 0x0D then (if d = CHR 0x0A then CHR 0x0A # universal_newlines s else CHR 0x0A # universal_newlines (d # s))
      else c # universal_newlines (d # s))"

definition starts_with :: "string \<Rightarrow> string \<Rightarrow> bool" where
  "starts_with p s \<longleftrightarrow> take (length p) s = p"

definition ends_with :: "string \<Rightarrow> string \<Rightarrow> bool" where
  "ends_with p s \<longleftrightarrow> drop (length s - length p) s = p"

text \<open>\<open>p in s\<close> for strings.\<close>

fun occurs_in :: "string \<Rightarrow> string \<Rightarrow> bool" where
  "occurs_in p [] = (p = [])"
| "occurs_in p (c # s) = (starts_with p (c # s) \<or> occurs_in p s)"

definition lower_char :: "char \<Rightarrow> char" where
  "lower_char c = (let n = of_char c :: nat in
     if (65 \<le> n \<and> n \<le> 90) \<or> (192 \<le> n \<and> n \<le> 222 \<and> n \<noteq> 215) then char_of (n + 32) else c)"

definition lower :: "string \<Rightarrow> string" where
  "lower s = map lower_char s"

text \<open>\<open>sep.join(...)\<close>.\<close>

fun join_with :: "string \<Rightarrow> string list \<Rightarrow> string" where
  "join_with sep [] = []"
| "join_with sep [x] = x"
| "join_with sep (x # y # xs) = x @ sep @ join_with sep (y # xs)"

text \<open>\<open>int(s)\<close>: surrounding blanks, a sign, digits with single underscores between them.\<close>

fun int_digits :: "nat \<Rightarrow> bool \<Rightarrow> string \<Rightarrow> nat option" where
  "int_digits acc after_digit [] = (if after_digit then Some acc else None)"
| "int_digits acc after_digit (c # s) =
     (if c \<in> set ''0123456789'' then int_digits (acc * 10 + (of_char c - 48)) True s
      else if c = CHR ''_'' \<and> after_digit \<and> s \<noteq> [] then int_digits acc False s
      else None)"

definition py_int :: "string \<Rightarrow> int res" where
  "py_int s =
     (let t = strip s;
          (neg, ds) = (case t of
              [] \<Rightarrow> (False, [])
            | c # ds \<Rightarrow> if c = CHR ''-'' then (True, ds) else if c = CHR ''+'' then (False, ds) else (False, t))
      in case int_digits 0 False ds of
           None \<Rightarrow> Inl ValueError
         | Some n \<Rightarrow> Inr (if neg then - int n else int n))"

definition env_or :: "(string \<Rightarrow> string option) \<Rightarrow> string \<Rightarrow> string \<Rightarrow> string" where
  "env_or env name default_value = (case env name of None \<Rightarrow> default_value | Some v \<Rightarrow> v)"

text \<open>\<open>int(os.environ.get(name, default))\<close>, and the same for a float, which \<open>py_float\<close> parses.\<close>

definition env_int :: "(string \<Rightarrow> string option) \<Rightarrow> string \<Rightarrow> int \<Rightarrow> int res" where
  "env_int env name default_value = (case env name of None \<Rightarrow> Inr default_value | Some v \<Rightarrow> py_int v)"

text \<open>A distribution's name, compared without regard to case and to the runs of dashes, dots and
  underscores in it: \<open>re.sub(r"[-_.]+", "-", name).lower()\<close>.\<close>

fun collapse :: "bool \<Rightarrow> string \<Rightarrow> string" where
  "collapse in_run [] = []"
| "collapse in_run (c # s) =
     (if c \<in> set ''-_.'' then (if in_run then collapse True s else CHR ''-'' # collapse True s)
      else c # collapse False s)"

definition norm_name :: "string \<Rightarrow> string" where
  "norm_name name = lower (collapse False name)"

lemma split_blank_nil [simp]: "split_blank [] = []"
  by (simp add: split_blank.simps)

lemma split_blank_words: "w \<in> set (split_blank s) \<Longrightarrow> w \<noteq> [] \<and> list_all (\<lambda>c. \<not> blank c) w"
proof (induction s rule: split_blank.induct)
  case (1 s)
  define t where "t = dropWhile blank s"
  show ?case
  proof (cases "t = []")
    case True then show ?thesis using 1(2) by (simp add: split_blank.simps[of s] t_def)
  next
    case False
    then have hd: "\<not> blank (hd t)" unfolding t_def by (rule hd_dropWhile)
    have "split_blank s = takeWhile (\<lambda>c. \<not> blank c) t # split_blank (dropWhile (\<lambda>c. \<not> blank c) t)"
      using False by (simp add: split_blank.simps[of s] Let_def t_def)
    then consider "w = takeWhile (\<lambda>c. \<not> blank c) t" | "w \<in> set (split_blank (dropWhile (\<lambda>c. \<not> blank c) t))"
      using 1(2) by auto
    then show ?thesis
    proof cases
      case 1
      have "takeWhile (\<lambda>c. \<not> blank c) t \<noteq> []" using hd False by (cases t) simp_all
      moreover have "list_all (\<lambda>c. \<not> blank c) (takeWhile (\<lambda>c. \<not> blank c) t)"
        by (simp add: list_all_iff) (metis set_takeWhileD)
      ultimately show ?thesis by (simp add: 1)
    next
      case 2 then show ?thesis using 1(1)[OF t_def False] by blast
    qed
  qed
qed

lemma split_on_nonempty [simp]: "split_on sep s \<noteq> []"
  by (cases s) (auto split: list.split)

lemma split_on_no_sep: "sep \<notin> set w \<Longrightarrow> split_on sep (w @ sep # s) = w # split_on sep s"
  by (induction w) (auto split: list.split)

lemma split_on_only: "sep \<notin> set w \<Longrightarrow> split_on sep w = [w]"
  by (induction w) auto

end
