(* ===== verification/Weight_Files.thy ===== *)
theory Weight_Files
  imports Py_Text "HOL-Library.Char_ord" "HOL-Library.List_Lexorder" "HOL-Library.Multiset"
begin

text \<open>
  The files of a checkpoint (\<open>patches/weight_utils.py\<close>): which of them are loaded and in which order, on which
  file system they are and who prefetches them, and the names their tensors get.
\<close>

subsection \<open>The natural order\<close>

text \<open>
  A key is the basename cut at its runs of digits: texts at even places, numbers at odd ones. Python
  compares such lists element by element and never a text with a number; the order between the two kinds
  is only there to make the keys an instance.
\<close>

datatype key_part = Key_text string | Key_num nat

instantiation key_part :: linorder
begin

fun less_eq_key_part :: "key_part \<Rightarrow> key_part \<Rightarrow> bool" where
  "less_eq_key_part (Key_text a) (Key_text b) = (a \<le> b)"
| "less_eq_key_part (Key_num m) (Key_num n) = (m \<le> n)"
| "less_eq_key_part (Key_text a) (Key_num n) = True"
| "less_eq_key_part (Key_num m) (Key_text b) = False"

definition less_key_part :: "key_part \<Rightarrow> key_part \<Rightarrow> bool" where
  "less_key_part a b \<longleftrightarrow> a \<le> b \<and> \<not> b \<le> a"

instance
proof
  fix x y z :: key_part
  show "x < y \<longleftrightarrow> x \<le> y \<and> \<not> y \<le> x" by (rule less_key_part_def)
  show "x \<le> x" by (cases x) simp_all
  show "x \<le> y \<Longrightarrow> y \<le> z \<Longrightarrow> x \<le> z" by (cases x; cases y; cases z) auto
  show "x \<le> y \<Longrightarrow> y \<le> x \<Longrightarrow> x = y" by (cases x; cases y) auto
  show "x \<le> y \<or> y \<le> x" by (cases x; cases y) auto
qed

end

definition digit :: "char \<Rightarrow> bool" where
  "digit c \<longleftrightarrow> c \<in> set ''0123456789''"

definition digits_value :: "string \<Rightarrow> nat" where
  "digits_value ds = fold (\<lambda>c n. n * 10 + (of_char c - 48)) ds 0"

function natural_parts :: "string \<Rightarrow> key_part list" where
  "natural_parts s =
     (let t = takeWhile (\<lambda>c. \<not> digit c) s; r = dropWhile (\<lambda>c. \<not> digit c) s
      in if r = [] then [Key_text t]
         else Key_text t # Key_num (digits_value (takeWhile digit r)) # natural_parts (dropWhile digit r))"
  by pat_completeness auto
termination
proof (relation "measure length")
  fix s :: string and t r
  assume "r = dropWhile (\<lambda>c. \<not> digit c) s" and "r \<noteq> []"
  then have "digit (hd r)" using hd_dropWhile[of "\<lambda>c. \<not> digit c" s] by simp
  then have "length (dropWhile digit r) < length r" using \<open>r \<noteq> []\<close> by (cases r) (simp_all add: length_dropWhile_le less_Suc_eq_le)
  also have "length r \<le> length s" using \<open>r = dropWhile (\<lambda>c. \<not> digit c) s\<close> by (simp add: length_dropWhile_le)
  finally show "(dropWhile digit r, s) \<in> measure length" by simp
qed simp

declare natural_parts.simps [simp del]

definition basename :: "string \<Rightarrow> string" where
  "basename path = last (split_on (CHR ''/'') path)"

definition natural_sort_key :: "string \<Rightarrow> key_part list" where
  "natural_sort_key path = natural_parts (basename path)"

definition sorted_files :: "string list \<Rightarrow> string list" where
  "sorted_files files = sort_key natural_sort_key files"

subsection \<open>Which files\<close>

definition join_path :: "string \<Rightarrow> string \<Rightarrow> string" where
  "join_path folder name =
     (if starts_with ''/'' name then name
      else if folder = [] \<or> ends_with ''/'' folder then folder @ name else folder @ ''/'' @ name)"

text \<open>\<open>index\<close> is the weight map of the index file, None where there is no such file.\<close>

definition filter_duplicate_safetensors_files :: "string list \<Rightarrow> string \<Rightarrow> (string, string) dict option \<Rightarrow> string list res" where
  "filter_duplicate_safetensors_files files folder index = (case index of
       None \<Rightarrow> Inr files
     | Some weight_map \<Rightarrow>
         let in_index = map (\<lambda>(name, file). join_path folder file) weight_map
         in if list_ex (\<lambda>f. f \<notin> set files) in_index then Inl FileNotFoundError
            else Inr (filter (\<lambda>f. f \<in> set in_index) files))"

definition NOT_FOR_INFERENCE :: "string list" where
  "NOT_FOR_INFERENCE = [''training_args.bin'', ''optimizer.bin'', ''optimizer.pt'', ''scheduler.pt'', ''scaler.pt'']"

definition filter_files_not_needed_for_inference :: "string list \<Rightarrow> string list" where
  "filter_files_not_needed_for_inference files = filter (\<lambda>f. \<not> list_ex (\<lambda>x. ends_with x f) NOT_FOR_INFERENCE) files"

subsection \<open>The file system\<close>

text \<open>
  \<open>mounts\<close> are the lines of \<open>/proc/mounts\<close>, None where reading them fails, and \<open>realpath\<close> may fail, too. The
  first mount point of the greatest length that holds the file wins.
\<close>

definition mount_entry :: "string \<Rightarrow> (string \<times> string) option" where
  "mount_entry line = (case split_blank line of dev # point # type # rest \<Rightarrow> Some (point, type) | _ \<Rightarrow> None)"

definition holds_path :: "string \<Rightarrow> string \<Rightarrow> bool" where
  "holds_path resolved point \<longleftrightarrow> resolved = point \<or> starts_with (if ends_with ''/'' point then point else point @ ''/'') resolved"

definition better_mount :: "string \<Rightarrow> string \<times> string \<Rightarrow> string \<times> string \<Rightarrow> string \<times> string" where
  "better_mount resolved entry best = (if holds_path resolved (fst entry) \<and> length (fst entry) > length (fst best) then entry else best)"

definition get_fs_type :: "(string \<Rightarrow> string option) \<Rightarrow> string list option \<Rightarrow> string list \<Rightarrow> string" where
  "get_fs_type realpath mounts files = (case files of
       [] \<Rightarrow> []
     | f # _ \<Rightarrow>
         (case (realpath f, mounts) of
            (Some resolved, Some lines) \<Rightarrow> snd (fold (better_mount resolved) (List.map_filter mount_entry lines) ([], []))
          | _ \<Rightarrow> []))"

text \<open>The memory that is left, under the limits of a control group.\<close>

definition available_ram :: "int \<Rightarrow> int option \<times> int option \<Rightarrow> int" where
  "available_ram host_available cgroup = (case cgroup of
       (None, _) \<Rightarrow> host_available
     | (Some limit, None) \<Rightarrow> min host_available limit
     | (Some limit, Some usage) \<Rightarrow> min host_available (max 0 (limit - usage)))"

text \<open>
  Whether the files are prefetched: asked for, or by default from a network file system when they fit in 90
  percent of the memory, compared here without the rounding of \<open>0.9\<close>.
\<close>

definition should_prefetch :: "string option \<Rightarrow> string \<Rightarrow> int \<Rightarrow> int \<Rightarrow> bool" where
  "should_prefetch strategy fs_type total_bytes avail_bytes = (case strategy of
       None \<Rightarrow> fs_type \<in> {''nfs'', ''nfs4'', ''lustre''} \<and> 100 * total_bytes \<le> 90 * avail_bytes
     | Some s \<Rightarrow> s = ''prefetch'')"

text \<open>\<open>sorted_files[rank::world_size]\<close>, the files that a rank prefetches.\<close>

definition stride :: "nat \<Rightarrow> nat \<Rightarrow> 'a list \<Rightarrow> 'a list" where
  "stride rank world_size xs = map (\<lambda>k. xs ! (rank + k * world_size)) [0 ..< (length xs - rank + world_size - 1) div world_size]"

definition prefetch_files :: "int \<Rightarrow> int \<Rightarrow> (nat \<times> nat) option \<Rightarrow> string list \<Rightarrow> string list res" where
  "prefetch_files num_threads block_size dist files =
     (if num_threads < 1 then Inl ValueError
      else if block_size < 1 then Inl ValueError
      else Inr (case dist of None \<Rightarrow> stride 0 1 files | Some (rank, world_size) \<Rightarrow> stride rank world_size files))"

subsection \<open>Names of scales\<close>

text \<open>
  Each pattern is anchored at the end of the name and has one length, so that it matches a suffix: the
  suffix with the letters of its groups, and what it is replaced by.
\<close>

definition letters_of :: "string \<Rightarrow> string list" where
  "letters_of cs = map (\<lambda>c. [c]) cs"

definition scale_suffixes :: "string \<Rightarrow> (string \<times> string) list" where
  "scale_suffixes attn_str =
     concat (map (\<lambda>c. map (\<lambda>d. (''.self_attn.'' @ c @ ''_proj.'' @ d @ ''_scale'', ''.self_attn.'' @ attn_str @ ''.'' @ d @ ''_scale''))
       (letters_of ''kv'')) (letters_of ''kv'')) @
     map (\<lambda>c. (''.self_attn.qkv_proj.'' @ c @ ''_scale'', ''.self_attn.attn.'' @ c @ ''_scale'')) (letters_of ''kv'') @
     map (\<lambda>c. (''.self_attn.qkqkv_proj.'' @ c @ ''_scale'', ''.self_attn.attn.'' @ c @ ''_scale'')) (letters_of ''kv'') @
     concat (map (\<lambda>d. map (\<lambda>c. (''.mixer.'' @ d @ ''_proj.'' @ c @ ''_scale'', ''.mixer.attn.'' @ c @ ''_scale'')) (letters_of ''kv'')) (letters_of ''kv'')) @
     [(''.self_attn.q.scale'', ''.self_attn.attn.q_scale'')] @
     map (\<lambda>c. (''.self_attn.'' @ c @ ''_cache.scale'', ''.self_attn.attn.'' @ c @ ''_scale'')) (letters_of ''kv'') @
     map (\<lambda>c. (''.'' @ c @ ''_scale'', ''.attn.'' @ c @ ''_scale'')) (letters_of ''qkv'') @
     map (\<lambda>c. (''.'' @ c @ ''_zero_point'', ''.attn.'' @ c @ ''_zero_point'')) (letters_of ''qkv'')"

definition SCALE_ENDINGS :: "string list" where
  "SCALE_ENDINGS = [''.k_scale'', ''.v_scale'', ''.q_scale'', ''.k_zero_point'', ''.v_zero_point'', ''.q_zero_point'',
     ''.q.scale'', ''.k_cache.scale'', ''.v_cache.scale'']"

text \<open>\<open>name.replace(old, new)\<close> of all occurrences, from the left.\<close>

function replace_all :: "string \<Rightarrow> string \<Rightarrow> string \<Rightarrow> string" where
  "replace_all old new [] = []"
| "replace_all old new (c # s) =
     (if old \<noteq> [] \<and> starts_with old (c # s) then new @ replace_all old new (drop (length old) (c # s))
      else c # replace_all old new s)"
  by pat_completeness auto
termination by (relation "measure (\<lambda>(old, new, s). length s)") auto

definition maybe_remap_kv_scale_name :: "string \<Rightarrow> string list \<Rightarrow> string option" where
  "maybe_remap_kv_scale_name name params =
     (if name \<in> set params then Some name
      else if ends_with ''.kv_scale'' name then
        let remapped = replace_all ''.kv_scale'' ''.attn.k_scale'' name
        in if remapped \<in> set params then Some remapped else None
      else
        let attn_str = (if list_ex (occurs_in ''mla_attn'') params then ''mla_attn.mla_attn'' else ''attn'')
        in if list_ex (\<lambda>e. ends_with e name) SCALE_ENDINGS then
             case filter (\<lambda>(suffix, new). ends_with suffix name) (scale_suffixes attn_str) of
               (suffix, new) # _ \<Rightarrow>
                 let remapped = take (length name - length suffix) name @ new
                 in if remapped \<in> set params then Some remapped else None
             | [] \<Rightarrow> Some name
           else Some name)"

subsection \<open>Names of experts\<close>

definition EXPERT_PARAM_SUFFIXES :: "string list" where
  "EXPERT_PARAM_SUFFIXES = [''w13_weight'', ''w2_weight'', ''w13_weight_scale'', ''w2_weight_scale'', ''w13_input_scale'', ''w2_input_scale'',
     ''w13_bias'', ''w2_bias'', ''w13_scale'', ''w2_scale'', ''w13_g_idx'', ''w2_g_idx'', ''w13_qweight'', ''w2_qweight'',
     ''w13_qzeros'', ''w2_qzeros'', ''w13_weight_shape'', ''w2_weight_shape'']"

fun replace_first :: "string \<Rightarrow> string \<Rightarrow> string \<Rightarrow> string" where
  "replace_first old new [] = []"
| "replace_first old new (c # s) =
     (if starts_with old (c # s) then new @ drop (length old) (c # s) else c # replace_first old new s)"

definition maybe_remap_moe_expert_param_name :: "string \<Rightarrow> string list \<Rightarrow> string" where
  "maybe_remap_moe_expert_param_name name params =
     (if \<not> occurs_in ''.experts.'' name then name
      else if occurs_in ''.experts.routed_experts.'' name then name
      else if \<not> list_ex (\<lambda>suffix. occurs_in (CHR ''.'' # suffix) name \<or> ends_with suffix name) EXPERT_PARAM_SUFFIXES then name
      else
        let new_name = replace_first ''.experts.'' ''.experts.routed_experts.'' name
        in if new_name \<in> set params then new_name else name)"

definition remap_moe_expert_weights :: "(string \<times> 'w) list \<Rightarrow> string list \<Rightarrow> (string \<times> 'w) list" where
  "remap_moe_expert_weights weights params = map (\<lambda>(name, w). (maybe_remap_moe_expert_param_name name params, w)) weights"

section \<open>The order of the shards\<close>

lemma less_key_num: "Key_num m < Key_num n \<longleftrightarrow> m < n"
  by (auto simp: less_key_part_def)

lemma basename_app: "CHR ''/'' \<notin> set name \<Longrightarrow> basename (folder @ ''/'' @ name) = name"
proof -
  assume name: "CHR ''/'' \<notin> set name"
  have "last (split_on (CHR ''/'') (folder @ CHR ''/'' # name)) = name"
  proof (induction folder)
    case Nil
    then show ?case using split_on_only[OF name] by simp
  next
    case (Cons c folder)
    have "tl (split_on (CHR ''/'') (folder @ CHR ''/'' # name)) \<noteq> []" by (induction folder) (auto split: list.split)
    with Cons show ?case by (auto split: list.split)
  qed
  then show ?thesis by (simp add: basename_def)
qed

lemma natural_parts_number:
  assumes "list_all (\<lambda>c. \<not> digit c) t" and "ds \<noteq> []" and "list_all digit ds" and "q = [] \<or> \<not> digit (hd q)"
  shows "natural_parts (t @ ds @ q) = Key_text t # Key_num (digits_value ds) # natural_parts q"
proof -
  have "takeWhile (\<lambda>c. \<not> digit c) (ds @ q) = []" and drop: "dropWhile (\<lambda>c. \<not> digit c) (ds @ q) = ds @ q"
    using assms(2,3) by (cases ds; simp)+
  moreover have "\<And>c. c \<in> set t \<Longrightarrow> \<not> digit c" "\<And>c. c \<in> set ds \<Longrightarrow> digit c" using assms(1,3) by (simp_all add: list_all_iff)
  moreover have "takeWhile digit q = []" "dropWhile digit q = q" using assms(4) by (cases q; simp)+
  ultimately show ?thesis using assms(2)
    by (subst natural_parts.simps) (simp add: takeWhile_append2 dropWhile_append2)
qed

text \<open>A shard's name: a stem, a number in decimal digits, and what follows it.\<close>

definition shard_name :: "string \<Rightarrow> string \<Rightarrow> string \<Rightarrow> string \<Rightarrow> string" where
  "shard_name folder stem number tail = folder @ ''/'' @ stem @ number @ tail"

definition numeral_ok :: "nat \<Rightarrow> string \<Rightarrow> bool" where
  "numeral_ok i number \<longleftrightarrow> number \<noteq> [] \<and> list_all digit number \<and> digits_value number = i"

lemma natural_sort_key_shard:
  assumes "numeral_ok i number" and "list_all (\<lambda>c. \<not> digit c \<and> c \<noteq> CHR ''/'') stem"
    and "list_all (\<lambda>c. c \<noteq> CHR ''/'') rest" and "rest = [] \<or> \<not> digit (hd rest)"
  shows "natural_sort_key (shard_name folder stem number rest) = Key_text stem # Key_num i # natural_parts rest"
proof -
  have "\<not> digit (CHR ''/'')" by (simp add: digit_def)
  then have "CHR ''/'' \<notin> set (stem @ number @ rest)"
    using assms by (auto simp: numeral_ok_def list_all_iff)
  then show ?thesis
    using assms natural_parts_number[of stem number rest]
    by (simp add: natural_sort_key_def shard_name_def basename_app[unfolded append_Cons append_Nil] numeral_ok_def list_all_iff)
qed

text \<open>
  Shards are loaded in the order of their numbers, however the numbers are padded and in whatever order
  the directory lists them: \<open>model-9\<close> before \<open>model-10\<close>.
\<close>

lemma shards_load_in_number_order:
  assumes "\<And>i. i \<in> set ns \<Longrightarrow> numeral_ok i (num i)"
    and "list_all (\<lambda>c. \<not> digit c \<and> c \<noteq> CHR ''/'') stem"
    and "list_all (\<lambda>c. c \<noteq> CHR ''/'') rest" and "rest = [] \<or> \<not> digit (hd rest)"
    and "sorted ns" and "mset files = mset (map (\<lambda>i. shard_name folder stem (num i) rest) ns)"
  shows "sorted_files files = map (\<lambda>i. shard_name folder stem (num i) rest) ns"
proof -
  define shard where "shard i = shard_name folder stem (num i) rest" for i
  have key: "natural_sort_key (shard i) = Key_text stem # Key_num i # natural_parts rest" if "i \<in> set ns" for i
    using natural_sort_key_shard[OF assms(1)[OF that] assms(2,3,4)] by (simp add: shard_def)
  have files: "mset files = mset (map shard ns)" using assms(6) by (simp add: shard_def[abs_def])
  have "sort_key natural_sort_key files = map shard ns"
  proof (rule sort_key_inj_key_eq[OF files])
    have "set files = shard ` set ns" using mset_eq_setD[OF files] by simp
    then show "inj_on natural_sort_key (set files)" using key by (auto intro!: inj_onI)
    have "map natural_sort_key (map shard ns) = map (\<lambda>i. Key_text stem # Key_num i # natural_parts rest) ns"
      using key by simp
    moreover have "sorted (map (\<lambda>i. Key_text stem # Key_num i # natural_parts rest) ns)"
      using assms(5) by (induction ns) (auto simp: less_key_num order_le_less)
    ultimately show "sorted (map natural_sort_key (map shard ns))" by (simp only:)
  qed
  then show ?thesis by (simp add: sorted_files_def shard_def[abs_def])
qed

definition demo_number :: "nat \<Rightarrow> string" where
  "demo_number i = (if i = 2 then ''00002'' else if i = 9 then ''9'' else ''10'')"

theorem shards_load_in_number_order_witness:
  "sorted_files [''m/model-10.bin'', ''m/model-00002.bin'', ''m/model-9.bin''] = [''m/model-00002.bin'', ''m/model-9.bin'', ''m/model-10.bin'']"
proof -
  have "numeral_ok i (demo_number i)" if "i \<in> set [2, 9, 10]" for i
    using that by (auto simp: numeral_ok_def demo_number_def digit_def digits_value_def)
  from shards_load_in_number_order[of "[2, 9, 10]" demo_number "''model-''" "''.bin''"
      "[''m/model-10.bin'', ''m/model-00002.bin'', ''m/model-9.bin'']" "''m''", OF this]
  show ?thesis by (simp add: demo_number_def shard_name_def digit_def)
qed

section \<open>The file system of the checkpoint\<close>

lemma fold_better_mount_keeps:
  "(\<And>e. e \<in> set es \<Longrightarrow> holds_path r (fst e) \<Longrightarrow> length (fst e) \<le> length (fst best)) \<Longrightarrow> fold (better_mount r) es best = best"
proof (induction es)
  case (Cons e es)
  have "better_mount r e best = best" using Cons.prems[of e] by (auto simp: better_mount_def not_less)
  with Cons show ?case by simp
qed simp

lemma fold_better_mount_shorter:
  "(\<And>e. e \<in> set es \<Longrightarrow> holds_path r (fst e) \<Longrightarrow> length (fst e) < n) \<Longrightarrow> length (fst best) < n \<Longrightarrow>
   length (fst (fold (better_mount r) es best)) < n"
  by (induction es arbitrary: best) (auto simp: better_mount_def)

text \<open>
  The type that is reported is the one of the longest mount point that holds the file and, where several
  mounts are stacked on that point, of the first of them.
\<close>

lemma get_fs_type_longest_first:
  assumes "realpath f = Some r" and "List.map_filter mount_entry lines = pre @ (point, type) # post"
    and "holds_path r point" and "point \<noteq> []"
    and "\<And>e. e \<in> set pre \<Longrightarrow> holds_path r (fst e) \<Longrightarrow> length (fst e) < length point"
    and "\<And>e. e \<in> set post \<Longrightarrow> holds_path r (fst e) \<Longrightarrow> length (fst e) \<le> length point"
  shows "get_fs_type realpath (Some lines) (f # fs) = type"
proof -
  define best where "best = fold (better_mount r) pre ([], [])"
  have "length (fst best) < length point"
    unfolding best_def using assms(4,5) by (intro fold_better_mount_shorter) auto
  then have "better_mount r (point, type) best = (point, type)" using assms(3) by (simp add: better_mount_def)
  moreover have "fold (better_mount r) post (point, type) = (point, type)"
    using assms(6) by (intro fold_better_mount_keeps) auto
  ultimately show ?thesis
    using assms(1,2) by (simp add: get_fs_type_def best_def[symmetric])
qed

text \<open>An NFS mount over an automounter's mount point is the second of two on that point, and is missed.\<close>

lemma stacked_mount_is_missed:
  assumes "realpath f = Some r" and "List.map_filter mount_entry lines = [(point, automounter), (point, network)]"
    and "holds_path r point" and "point \<noteq> []"
  shows "get_fs_type realpath (Some lines) (f # fs) = automounter"
  by (rule get_fs_type_longest_first[where pre = "[]" and post = "[(point, network)]"]) (use assms in auto)

section \<open>Prefetching\<close>

lemma mset_filter_disjoint:
  "(\<And>x. x \<in> set xs \<Longrightarrow> \<not> (P x \<and> Q x)) \<Longrightarrow> mset (filter P xs) + mset (filter Q xs) = mset (filter (\<lambda>x. P x \<or> Q x) xs)"
  by (induction xs) auto

lemma mset_classes:
  "mset (concat (map (\<lambda>r. filter (\<lambda>i. g i = r) xs) [0 ..< w])) = mset (filter (\<lambda>i. g i < (w :: nat)) xs)"
proof (induction w)
  case (Suc w)
  have "mset (filter (\<lambda>i. g i < w) xs) + mset (filter (\<lambda>i. g i = w) xs) = mset (filter (\<lambda>i. g i < w \<or> g i = w) xs)"
    by (rule mset_filter_disjoint) simp
  with Suc show ?case by (simp add: less_Suc_eq)
qed simp

lemma stride_indices:
  assumes "r < w"
  shows "map (\<lambda>k. r + k * w) [0 ..< (n - r + w - 1) div w] = filter (\<lambda>i. i mod w = r) [0 ..< n]"
proof (rule sorted_distinct_set_unique)
  have w: "0 < w" using assms by simp
  show "sorted (map (\<lambda>k. r + k * w) [0 ..< (n - r + w - 1) div w])"
    by (auto simp: sorted_map intro!: sorted_wrt_mono_rel[OF _ sorted_upt[unfolded sorted_wrt_iff_nth_less[symmetric]]] mult_right_mono)
  show "distinct (map (\<lambda>k. r + k * w) [0 ..< (n - r + w - 1) div w])" using w by (simp add: distinct_map inj_on_def)
  show "sorted (filter (\<lambda>i. i mod w = r) [0 ..< n])" by (simp add: sorted_wrt_filter)
  show "distinct (filter (\<lambda>i. i mod w = r) [0 ..< n])" by simp
  have bound: "k < (n - r + w - 1) div w \<longleftrightarrow> r + k * w < n" for k
  proof -
    have "k < (n - r + w - 1) div w \<longleftrightarrow> Suc k * w \<le> n - r + w - 1"
      using less_eq_div_iff_mult_less_eq[OF w, of "Suc k" "n - r + w - 1"] by (simp add: less_eq_Suc_le)
    also have "\<dots> \<longleftrightarrow> k * w < n - r" using w by simp linarith
    finally show ?thesis by (simp add: less_diff_conv add.commute)
  qed
  show "set (map (\<lambda>k. r + k * w) [0 ..< (n - r + w - 1) div w]) = set (filter (\<lambda>i. i mod w = r) [0 ..< n])" (is "?A = ?B")
  proof
    show "?A \<subseteq> ?B"
    proof
      fix i
      assume "i \<in> ?A"
      then obtain k where "k < (n - r + w - 1) div w" and i: "i = r + k * w" unfolding set_map set_upt by auto
      then show "i \<in> ?B" using bound[of k] assms by simp
    qed
    show "?B \<subseteq> ?A"
    proof
      fix i
      assume "i \<in> ?B"
      then have i: "i mod w = r" "i < n" by simp_all
      then have eq: "i = r + i div w * w" using div_mult_mod_eq[of i w] by simp
      then have "i div w < (n - r + w - 1) div w" using bound[of "i div w"] i(2) by simp
      with eq show "i \<in> ?A" by (auto simp: image_iff)
    qed
  qed
qed

lemma strides_partition: "0 < w \<Longrightarrow> mset (concat (map (\<lambda>r. stride r w xs) [0 ..< w])) = mset xs"
proof -
  assume w: "0 < w"
  have "stride r w xs = map ((!) xs) (filter (\<lambda>i. i mod w = r) [0 ..< length xs])" if "r < w" for r
    using arg_cong[OF stride_indices[OF that, of "length xs"], of "map ((!) xs)"] by (simp add: stride_def comp_def)
  then have "concat (map (\<lambda>r. stride r w xs) [0 ..< w]) = map ((!) xs) (concat (map (\<lambda>r. filter (\<lambda>i. i mod w = r) [0 ..< length xs]) [0 ..< w]))"
    unfolding map_concat map_map comp_def by (intro arg_cong[of _ _ concat] map_cong) auto
  then have "mset (concat (map (\<lambda>r. stride r w xs) [0 ..< w])) = image_mset ((!) xs) (mset (filter (\<lambda>i. i mod w < w) [0 ..< length xs]))"
    by (simp only: mset_map mset_classes)
  also have "\<dots> = mset (map ((!) xs) [0 ..< length xs])" using w by simp
  finally show ?thesis by (simp only: map_nth)
qed

text \<open>Every file is prefetched by exactly one rank.\<close>

lemma ranks_prefetch_each_file_once:
  assumes "0 < w" and "1 \<le> threads" and "1 \<le> block"
    and "\<And>r. r < w \<Longrightarrow> prefetch_files threads block (Some (r, w)) files = Inr (part r)"
  shows "mset (concat (map part [0 ..< w])) = mset files"
proof -
  have "part r = stride r w files" if "r < w" for r
    using assms(2,3) assms(4)[OF that] by (simp add: prefetch_files_def)
  then have "map part [0 ..< w] = map (\<lambda>r. stride r w files) [0 ..< w]" by simp
  then show ?thesis using strides_partition[OF assms(1), of files] by (simp only:)
qed

section \<open>The names of the weights\<close>

lemma plain_endings:
  "e \<in> set (take 6 SCALE_ENDINGS) \<Longrightarrow> \<exists>c \<in> set (letters_of ''qkv''). e = ''.'' @ c @ ''_scale'' \<or> e = ''.'' @ c @ ''_zero_point''"
  unfolding SCALE_ENDINGS_def letters_of_def by simp (elim disjE, simp_all)

lemma in_last_of_eight:
  "x \<in> set g \<Longrightarrow> x \<in> set (a @ b @ c @ d @ e @ f @ g @ h)" "x \<in> set h \<Longrightarrow> x \<in> set (a @ b @ c @ d @ e @ f @ g @ h)"
  by simp_all

lemma default_scales_listed:
  assumes c: "c \<in> set (letters_of ''qkv'')"
  shows "(''.'' @ c @ ''_scale'', ''.attn.'' @ c @ ''_scale'') \<in> set (scale_suffixes attn_str)"
    and "(''.'' @ c @ ''_zero_point'', ''.attn.'' @ c @ ''_zero_point'') \<in> set (scale_suffixes attn_str)"
proof -
  show "(''.'' @ c @ ''_scale'', ''.attn.'' @ c @ ''_scale'') \<in> set (scale_suffixes attn_str)"
    unfolding scale_suffixes_def by (rule in_last_of_eight(1), unfold set_map, rule image_eqI[OF _ c], rule refl)
  show "(''.'' @ c @ ''_zero_point'', ''.attn.'' @ c @ ''_zero_point'') \<in> set (scale_suffixes attn_str)"
    unfolding scale_suffixes_def by (rule in_last_of_eight(2), unfold set_map, rule image_eqI[OF _ c], rule refl)
qed

lemma plain_scales_match: "e \<in> set (take 6 SCALE_ENDINGS) \<Longrightarrow> \<exists>new. (e, new) \<in> set (scale_suffixes attn_str)"
proof -
  assume "e \<in> set (take 6 SCALE_ENDINGS)"
  then obtain c where c: "c \<in> set (letters_of ''qkv'')" and e: "e = ''.'' @ c @ ''_scale'' \<or> e = ''.'' @ c @ ''_zero_point''"
    using plain_endings by meson
  show ?thesis using e
  proof
    assume "e = ''.'' @ c @ ''_scale''"
    then show ?thesis by (rule ssubst) (rule exI, rule default_scales_listed(1)[OF c])
  next
    assume "e = ''.'' @ c @ ''_zero_point''"
    then show ?thesis by (rule ssubst) (rule exI, rule default_scales_listed(2)[OF c])
  qed
qed

text \<open>
  A scale of the checkpoint comes back under a name that is a parameter of the model; a name that is
  none comes back only where it is not one of the scales, and unchanged. Renaming the result again changes
  nothing: no prefix is added twice.
\<close>

lemma scales_come_back_known:
  assumes "maybe_remap_kv_scale_name name params = Some n"
  shows "maybe_remap_kv_scale_name n params = Some n \<and>
    (n \<in> set params \<or>
     n = name \<and> \<not> ends_with ''.kv_scale'' name \<and> (\<nexists>e. e \<in> set (take 6 SCALE_ENDINGS) \<and> ends_with e name))"
proof (cases "n \<in> set params")
  case True
  then show ?thesis by (simp add: maybe_remap_kv_scale_name_def)
next
  case False
  have old: "name \<notin> set params" using assms False by (auto simp: maybe_remap_kv_scale_name_def split: if_splits)
  have kv: "\<not> ends_with ''.kv_scale'' name"
    using assms False old by (auto simp: maybe_remap_kv_scale_name_def Let_def split: if_splits)
  define attn_str where "attn_str = (if list_ex (occurs_in ''mla_attn'') params then ''mla_attn.mla_attn'' else ''attn'')"
  define hits where "hits = filter (\<lambda>(suffix, new). ends_with suffix name) (scale_suffixes attn_str)"
  define scale where "scale \<longleftrightarrow> list_ex (\<lambda>e. ends_with e name) SCALE_ENDINGS"
  have remap: "maybe_remap_kv_scale_name name params =
      (if scale then case hits of
         (suffix, new) # _ \<Rightarrow>
           (if take (length name - length suffix) name @ new \<in> set params then Some (take (length name - length suffix) name @ new) else None)
       | [] \<Rightarrow> Some name
       else Some name)"
    unfolding maybe_remap_kv_scale_name_def if_not_P[OF old] if_not_P[OF kv] attn_str_def hits_def scale_def Let_def ..
  have n: "n = name" and nil: "scale \<longrightarrow> hits = []"
    using assms False unfolding remap by (auto split: if_splits list.splits)
  have "\<nexists>e. e \<in> set (take 6 SCALE_ENDINGS) \<and> ends_with e name"
  proof
    assume "\<exists>e. e \<in> set (take 6 SCALE_ENDINGS) \<and> ends_with e name"
    then obtain e where e: "e \<in> set (take 6 SCALE_ENDINGS)" "ends_with e name" by blast
    have "scale" using e(2) in_set_takeD[OF e(1)] by (auto simp: scale_def list_ex_iff)
    moreover obtain new where "(e, new) \<in> set (scale_suffixes attn_str)" using plain_scales_match[OF e(1)] by blast
    then have "hits \<noteq> []" using e(2) by (auto simp: hits_def filter_empty_conv)
    ultimately show False using nil by simp
  qed
  with n kv assms show ?thesis by simp
qed

lemma scales_come_back_known_witness:
  "maybe_remap_kv_scale_name ''l.0.self_attn.k_proj.k_scale'' [''l.0.self_attn.attn.k_scale''] = Some ''l.0.self_attn.attn.k_scale'' \<and>
   maybe_remap_kv_scale_name ''l.0.self_attn.attn.k_scale'' [''l.0.self_attn.attn.k_scale''] = Some ''l.0.self_attn.attn.k_scale''"
proof -
  have "maybe_remap_kv_scale_name ''l.0.self_attn.k_proj.k_scale'' [''l.0.self_attn.attn.k_scale''] = Some ''l.0.self_attn.attn.k_scale''"
    by code_simp
  with scales_come_back_known[OF this] show ?thesis by simp
qed

text \<open>An expert's parameter is renamed only to a name of the model, once, and other weights keep their order.\<close>

lemma moe_name_known: "maybe_remap_moe_expert_param_name name params \<in> insert name (set params)"
  by (simp add: maybe_remap_moe_expert_param_name_def Let_def)

lemma remap_moe_expert_weights_keeps: "map snd (remap_moe_expert_weights weights params) = map snd weights"
  by (auto simp: remap_moe_expert_weights_def)

text \<open>The files of an index: all of them must be there, and no others are loaded.\<close>

lemma indexed_files_are_loaded:
  assumes "filter_duplicate_safetensors_files files folder (Some weight_map) = Inr kept"
  shows "set kept = (\<lambda>(name, file). join_path folder file) ` set weight_map" and "mset kept \<subseteq># mset files"
proof -
  define in_index where "in_index = map (\<lambda>(name, file). join_path folder file) weight_map"
  have kept: "kept = filter (\<lambda>f. f \<in> set in_index) files" and all: "set in_index \<subseteq> set files"
    using assms by (auto simp: filter_duplicate_safetensors_files_def Let_def in_index_def[symmetric] list_ex_iff split: if_splits)
  then have "set kept = set in_index" by auto
  then show "set kept = (\<lambda>(name, file). join_path folder file) ` set weight_map" by (simp add: in_index_def)
  show "mset kept \<subseteq># mset files" by (simp add: kept)
qed

end
