(* ===== verification/Weight_Streams.thy ===== *)
theory Weight_Streams
  imports Weight_Files
begin

text \<open>
  How the weights of a checkpoint reach the model (\<open>patches/weight_utils.py\<close>): the generators that read
  the files, the files that are written on the way, and the loaders that copy a weight into a parameter.
\<close>

section \<open>Generators\<close>

text \<open>What a generator yields, and the exception it ends with, if any.\<close>

type_synonym 'w stream = "(string \<times> 'w) list \<times> exc option"

definition then_stream :: "'w stream \<Rightarrow> 'w stream \<Rightarrow> 'w stream" where
  "then_stream s t = (case snd s of Some e \<Rightarrow> s | None \<Rightarrow> (fst s @ fst t, snd t))"

fun each_file :: "('f \<Rightarrow> 'w stream) \<Rightarrow> 'f list \<Rightarrow> 'w stream" where
  "each_file g [] = ([], None)"
| "each_file g (f # fs) = then_stream (g f) (each_file g fs)"

text \<open>\<open>yield from d.items()\<close> of what a call returned, and the tensors of an open file, read one by one.\<close>

definition yield_items :: "(string, 'w) dict res \<Rightarrow> 'w stream" where
  "yield_items d = (case d of Inl e \<Rightarrow> ([], Some e) | Inr items \<Rightarrow> (items, None))"

fun get_tensors :: "(string \<times> 'w res) list \<Rightarrow> 'w stream" where
  "get_tensors [] = ([], None)"
| "get_tensors ((name, tensor) # rest) = (case tensor of
     Inl e \<Rightarrow> ([], Some e)
   | Inr w \<Rightarrow> then_stream ([(name, w)], None) (get_tensors rest))"

text \<open>
  What the iterator is told: the strategy, the names to skip (\<open>should_skip_weight\<close> of the expert filter of
  vLLM), \<open>DSV41_ENGRAM_DISK\<close> and the settings of the prefetcher.
\<close>

record settings =
  strategy :: "string option"
  skipped :: "string \<Rightarrow> bool"
  engram_disk :: bool
  prefetch_threads :: int
  prefetch_block :: int
  ranks :: "(nat \<times> nat) option"

text \<open>
  What it reads: the file system, the memory, and the files, opened by \<open>safe_open\<close> or read whole by \<open>load\<close>.
\<close>

record 'w disk =
  real_path :: "string \<Rightarrow> string option"
  mounts :: "string list option"
  file_size :: "string \<Rightarrow> int res"
  ram :: int
  cgroup :: "int option \<times> int option"
  safe_open :: "string \<Rightarrow> (string \<times> 'w res) list res"
  load_all :: "string \<Rightarrow> (string, 'w) dict res"

definition engram_table :: "string \<Rightarrow> bool" where
  "engram_table name \<longleftrightarrow> ends_with ''.engram.embed.weight'' name \<or> ends_with ''.engram.embed.scale'' name"

definition eager_file :: "settings \<Rightarrow> 'w disk \<Rightarrow> string \<Rightarrow> 'w stream" where
  "eager_file cfg disk st_file = (case load_all disk st_file of
       Inl e \<Rightarrow> ([], Some e)
     | Inr state_dict \<Rightarrow> (filter (\<lambda>(name, param). \<not> skipped cfg name) state_dict, None))"

definition lazy_file :: "settings \<Rightarrow> 'w disk \<Rightarrow> string \<Rightarrow> 'w stream" where
  "lazy_file cfg disk st_file = (case safe_open disk st_file of
       Inl e \<Rightarrow> ([], Some e)
     | Inr f \<Rightarrow> get_tensors (filter (\<lambda>(name, tensor). \<not> skipped cfg name \<and> \<not> (engram_disk cfg \<and> engram_table name)) f))"

text \<open>
  The \<open>torchao\<close> strategy hands what a file lacks on to the next one; \<open>unflatten\<close> is
  \<open>unflatten_tensor_state_dict\<close> with the metadata of the file, \<open>new_enough\<close> the check of its version.
\<close>

definition dict_update :: "('k, 'v) dict \<Rightarrow> ('k, 'v) dict \<Rightarrow> ('k, 'v) dict" where
  "dict_update d e = fold (\<lambda>(k, v). dict_set k v) e d"

fun torchao_files ::
  "bool \<Rightarrow> (string \<Rightarrow> (string, 'w) dict \<Rightarrow> ((string, 'w) dict \<times> (string, 'w) dict) res) \<Rightarrow> settings \<Rightarrow> 'w disk \<Rightarrow>
   (string, 'w) dict \<Rightarrow> string list \<Rightarrow> 'w stream" where
  "torchao_files new_enough unflatten cfg disk leftover [] = ([], None)"
| "torchao_files new_enough unflatten cfg disk leftover (st_file # files) =
     (if \<not> new_enough then ([], Some ValueError)
      else case safe_open disk st_file of
        Inl e \<Rightarrow> ([], Some e)
      | Inr f \<Rightarrow>
          (case get_tensors (filter (\<lambda>(name, tensor). \<not> skipped cfg name) f) of
             (tensors, Some e) \<Rightarrow> ([], Some e)
           | (tensors, None) \<Rightarrow>
               (case unflatten st_file (dict_update tensors leftover) of
                  Inl e \<Rightarrow> ([], Some e)
                | Inr (unflattened, leftover') \<Rightarrow>
                    then_stream (unflattened, None) (torchao_files new_enough unflatten cfg disk leftover' files))))"

definition checkpoint_size :: "'w disk \<Rightarrow> string list \<Rightarrow> int res" where
  "checkpoint_size disk files = rbind (rmap (file_size disk) files) (\<lambda>sizes. Inr (sum_list sizes))"

definition weights_of_files ::
  "bool \<Rightarrow> (string \<Rightarrow> (string, 'w) dict \<Rightarrow> ((string, 'w) dict \<times> (string, 'w) dict) res) \<Rightarrow> settings \<Rightarrow> 'w disk \<Rightarrow> string list \<Rightarrow> 'w stream" where
  "weights_of_files new_enough unflatten cfg disk files =
     (if strategy cfg = Some ''eager'' then each_file (eager_file cfg disk) files
      else if strategy cfg = Some ''torchao'' then torchao_files new_enough unflatten cfg disk [] files
      else each_file (lazy_file cfg disk) files)"

text \<open>The files this rank prefetches come with the stream.\<close>

definition safetensors_weights_iterator ::
  "bool \<Rightarrow> (string \<Rightarrow> (string, 'w) dict \<Rightarrow> ((string, 'w) dict \<times> (string, 'w) dict) res) \<Rightarrow> settings \<Rightarrow> 'w disk \<Rightarrow> string list \<Rightarrow>
   string list \<times> 'w stream" where
  "safetensors_weights_iterator new_enough unflatten cfg disk hf_weights_files =
     (let files = sorted_files hf_weights_files;
          fs_type = get_fs_type (real_path disk) (mounts disk) files
      in case checkpoint_size disk files of
           Inl e \<Rightarrow> ([], [], Some e)
         | Inr total_bytes \<Rightarrow>
             if should_prefetch (strategy cfg) fs_type total_bytes (available_ram (ram disk) (cgroup disk))
             then (case prefetch_files (prefetch_threads cfg) (prefetch_block cfg) (ranks cfg) files of
                     Inl e \<Rightarrow> ([], [], Some e)
                   | Inr fetched \<Rightarrow> (fetched, weights_of_files new_enough unflatten cfg disk files))
             else ([], weights_of_files new_enough unflatten cfg disk files))"

subsection \<open>The other generators\<close>

text \<open>
  The threads' files come in the order \<open>completed\<close> in which their reads end; \<open>pt_weights_iterator\<close> takes
  them in the order of the list.
\<close>

definition multi_thread_safetensors_weights_iterator :: "(string \<Rightarrow> (string, 'w) dict res) \<Rightarrow> string list \<Rightarrow> 'w stream" where
  "multi_thread_safetensors_weights_iterator load_file completed = each_file (\<lambda>f. yield_items (load_file f)) completed"

definition pt_weights_iterator :: "(string \<Rightarrow> (string, 'w) dict res) \<Rightarrow> string list \<Rightarrow> 'w stream" where
  "pt_weights_iterator torch_load files = each_file (\<lambda>f. yield_items (torch_load f)) files"

definition multi_thread_pt_weights_iterator :: "(string \<Rightarrow> (string, 'w) dict res) \<Rightarrow> string list \<Rightarrow> 'w stream" where
  "multi_thread_pt_weights_iterator torch_load completed = each_file (\<lambda>f. yield_items (torch_load f)) completed"

text \<open>
  \<open>fastsafetensors\<close>: \<open>attempt nogds\<close> is what a parallel loader made with that flag does: it fails at once, or
  it yields tensors until it ends or fails.
\<close>

datatype fast_error = Runtime_error string | Other_error exc

datatype 'w fast_event = Opened bool | Yielded string 'w | Closed bool

type_synonym 'w attempt = "bool \<Rightarrow> fast_error + ((string \<times> 'w) list \<times> fast_error option)"

definition yields :: "(string \<times> 'w) list \<Rightarrow> 'w fast_event list" where
  "yields tensors = map (\<lambda>(name, tensor). Yielded name tensor) tensors"

definition gives_up :: "bool \<Rightarrow> bool \<Rightarrow> fast_error \<Rightarrow> bool" where
  "gives_up nogds yielded e = (case e of Runtime_error msg \<Rightarrow> nogds \<or> yielded \<or> \<not> occurs_in ''gds'' msg | Other_error _ \<Rightarrow> True)"

text \<open>The second loader; \<open>closing\<close> is what \<open>finally\<close> does while \<open>pl\<close> is still the first one.\<close>

definition second_attempt :: "'w attempt \<Rightarrow> 'w fast_event list \<Rightarrow> 'w fast_event list \<times> fast_error option" where
  "second_attempt attempt closing = (case attempt True of
       Inl e \<Rightarrow> (closing, Some e)
     | Inr (tensors, err) \<Rightarrow> ([Opened True] @ yields tensors @ [Closed True], err))"

definition fastsafetensors_weights_iterator :: "'w attempt \<Rightarrow> nat \<Rightarrow> 'w fast_event list \<times> fast_error option" where
  "fastsafetensors_weights_iterator attempt pg_size =
     (let nogds = pg_size > 1
      in case attempt nogds of
           Inl e \<Rightarrow> if gives_up nogds False e then ([], Some e) else second_attempt attempt []
         | Inr (tensors, None) \<Rightarrow> ([Opened nogds] @ yields tensors @ [Closed nogds], None)
         | Inr (tensors, Some e) \<Rightarrow>
             let begun = [Opened nogds] @ yields tensors @ [Closed nogds]
             in if gives_up nogds (tensors \<noteq> []) e then (begun, Some e)
                else let (events, err) = second_attempt attempt [Closed nogds] in (begun @ events, err))"

section \<open>The numpy cache\<close>

text \<open>
  The folder's files: arrays, and the list of names. \<open>to_numpy\<close> may refuse a tensor, in which case the arrays
  written so far stay, with an empty file for the tensor, and the list is not there. What numpy raises for a
  file that is no array is \<open>ValueError\<close> here.
\<close>

datatype 'n np_file = Np_array 'n | Np_names "string list" | Np_empty

type_synonym 'n np_folder = "string \<Rightarrow> 'n np_file option"

definition names_file :: string where
  "names_file = ''weight_names.json''"

fun dump_state :: "('w \<Rightarrow> 'n res) \<Rightarrow> (string \<times> 'w) list \<Rightarrow> string list \<Rightarrow> 'n np_folder \<Rightarrow> ('n np_folder, string list) outcome" where
  "dump_state to_numpy [] names folder = (Inr names, folder)"
| "dump_state to_numpy ((name, param) # items) names folder = (case to_numpy param of
     Inl e \<Rightarrow> (Inl e, folder(name \<mapsto> Np_empty))
   | Inr a \<Rightarrow> dump_state to_numpy items (names @ [name]) (folder(name \<mapsto> Np_array a)))"

fun dump_files ::
  "('w \<Rightarrow> 'n res) \<Rightarrow> (string \<Rightarrow> (string, 'w) dict res) \<Rightarrow> string list \<Rightarrow> string list \<Rightarrow> 'n np_folder \<Rightarrow> ('n np_folder, string list) outcome" where
  "dump_files to_numpy torch_load [] names folder = (Inr names, folder)"
| "dump_files to_numpy torch_load (bin_file # files) names folder = (case torch_load bin_file of
     Inl e \<Rightarrow> (Inl e, folder)
   | Inr state \<Rightarrow>
       (case dump_state to_numpy state names folder of
          (Inl e, folder') \<Rightarrow> (Inl e, folder')
        | (Inr names', folder') \<Rightarrow> dump_files to_numpy torch_load files names' folder'))"

definition fill_cache :: "('w \<Rightarrow> 'n res) \<Rightarrow> (string \<Rightarrow> (string, 'w) dict res) \<Rightarrow> string list \<Rightarrow> 'n np_folder \<Rightarrow> ('n np_folder, unit) outcome" where
  "fill_cache to_numpy torch_load files folder =
     (if folder names_file \<noteq> None then (Inr (), folder)
      else case dump_files to_numpy torch_load files [] folder of
        (Inl e, folder') \<Rightarrow> (Inl e, folder')
      | (Inr names, folder') \<Rightarrow> (Inr (), folder'(names_file \<mapsto> Np_names names)))"

definition cached_tensor :: "('n \<Rightarrow> 'w) \<Rightarrow> 'n np_folder \<Rightarrow> string \<Rightarrow> 'w res" where
  "cached_tensor from_numpy folder name = (case folder name of
       None \<Rightarrow> Inl FileNotFoundError
     | Some (Np_array a) \<Rightarrow> Inr (from_numpy a)
     | Some _ \<Rightarrow> Inl ValueError)"

definition np_cache_weights_iterator ::
  "('w \<Rightarrow> 'n res) \<Rightarrow> ('n \<Rightarrow> 'w) \<Rightarrow> (string \<Rightarrow> (string, 'w) dict res) \<Rightarrow> string list \<Rightarrow> 'n np_folder \<Rightarrow> 'w stream \<times> 'n np_folder" where
  "np_cache_weights_iterator to_numpy from_numpy torch_load files folder =
     (case fill_cache to_numpy torch_load files folder of
        (Inl e, folder') \<Rightarrow> (([], Some e), folder')
      | (Inr _, folder') \<Rightarrow>
          (case folder' names_file of
             Some (Np_names names) \<Rightarrow> (get_tensors (map (\<lambda>name. (name, cached_tensor from_numpy folder' name)) names), folder')
           | _ \<Rightarrow> (([], Some ValueError), folder')))"

section \<open>Files that are written\<close>

text \<open>
  \<open>atomic_writer\<close>: the states of the file system, in order, while the body writes \<open>chunks\<close> and ends or
  raises; \<open>temp\<close> is the path that \<open>mkstemp\<close> makes, \<open>replaced\<close> the error of \<open>os.replace\<close>, if any.
\<close>

type_synonym store = "string \<Rightarrow> string option"

fun write_chunks :: "string \<Rightarrow> string list \<Rightarrow> store \<Rightarrow> store list" where
  "write_chunks temp [] fs = []"
| "write_chunks temp (c # cs) fs =
     (let fs' = fs(temp \<mapsto> (case fs temp of None \<Rightarrow> [] | Some s \<Rightarrow> s) @ c) in fs' # write_chunks temp cs fs')"

definition atomic_writer :: "string \<Rightarrow> string \<Rightarrow> string list \<Rightarrow> exc option \<Rightarrow> exc option \<Rightarrow> store \<Rightarrow> (unit res \<times> store list)" where
  "atomic_writer filepath temp chunks raised replaced fs =
     (let made = fs(temp \<mapsto> []);
          states = made # write_chunks temp chunks made;
          written = last states
      in case raised of
           Some e \<Rightarrow> (Inl e, states @ [written(temp := None)])
         | None \<Rightarrow>
             (case replaced of
                Some e \<Rightarrow> (Inl e, states @ [written(temp := None)])
              | None \<Rightarrow> (Inr (), states @ [written(filepath := written temp, temp := None)])))"

text \<open>Tensors that share their memory: all names but the first are dropped before a file is converted.\<close>

definition shared_pointers :: "('w \<Rightarrow> nat) \<Rightarrow> (string, 'w) dict \<Rightarrow> string list list" where
  "shared_pointers data_ptr tensors =
     filter (\<lambda>names. length names > 1) (map snd (fold (\<lambda>(k, v) ptrs. dict_push (data_ptr v) k ptrs) tensors []))"

definition drop_shared :: "('w \<Rightarrow> nat) \<Rightarrow> (string, 'w) dict \<Rightarrow> (string, 'w) dict" where
  "drop_shared data_ptr loaded =
     filter (\<lambda>(k, v). k \<notin> set (concat (map tl (shared_pointers data_ptr loaded)))) loaded"

text \<open>
  The checks after the conversion: the new file is at most one percent larger (compared here without
  rounding) and holds the same tensors.
\<close>

definition converted_ok :: "int \<Rightarrow> int \<Rightarrow> (string, 'w) dict \<Rightarrow> (string, 'w) dict \<Rightarrow> unit res" where
  "converted_ok sf_size pt_size loaded reloaded =
     (if pt_size = 0 then Inl ZeroDivisionError
      else if 100 * (sf_size - pt_size) > pt_size then Inl RuntimeError
      else rbind (rmap (\<lambda>(k, v). rbind (dict_get reloaded k) (\<lambda>w. if w = v then Inr () else Inl RuntimeError)) loaded) (\<lambda>_. Inr ()))"

section \<open>Loaders\<close>

text \<open>A tensor: its dimensions, and its element at an index.\<close>

record 'v tensor =
  dims :: "nat list"
  at :: "nat list \<Rightarrow> 'v"

definition numel :: "'v tensor \<Rightarrow> nat" where
  "numel t = prod_list (dims t)"

text \<open>One element has one place: \<open>view\<close> reads it at index zero.\<close>

definition default_weight_loader :: "'v tensor \<Rightarrow> 'v tensor \<Rightarrow> 'v tensor res" where
  "default_weight_loader param loaded_weight =
     (if numel param = 1 \<and> numel loaded_weight = 1 then
        Inr (param\<lparr>at := \<lambda>_. at loaded_weight (replicate (length (dims loaded_weight)) 0)\<rparr>)
      else if dims param \<noteq> dims loaded_weight then Inl AssertionError
      else Inr (param\<lparr>at := at loaded_weight\<rparr>))"

definition narrow_dim :: "nat \<Rightarrow> nat \<Rightarrow> nat \<Rightarrow> 'v tensor \<Rightarrow> 'v tensor res" where
  "narrow_dim d start n t =
     (if dims t = [] then Inl RuntimeError
      else if length (dims t) \<le> d then Inl IndexError
      else if dims t ! d < start + n then Inl RuntimeError
      else Inr \<lparr>dims = (dims t)[d := n], at = \<lambda>ix. at t (ix[d := ix ! d + start])\<rparr>)"

text \<open>The axis is counted from the front.\<close>

definition sharded_weight_loader :: "nat \<Rightarrow> nat \<Rightarrow> 'v tensor \<Rightarrow> 'v tensor \<Rightarrow> 'v tensor res" where
  "sharded_weight_loader tp_rank shard_axis param loaded_weight =
     (if length (dims param) \<le> shard_axis then Inl IndexError
      else let shard_size = dims param ! shard_axis
           in rbind (narrow_dim shard_axis (tp_rank * shard_size) shard_size loaded_weight) (default_weight_loader param))"

definition row_parallel_weight_loader :: "nat \<Rightarrow> 'v tensor \<Rightarrow> 'v tensor \<Rightarrow> 'v tensor res" where
  "row_parallel_weight_loader tp_rank param loaded_weight =
     (if length (dims param) \<noteq> 1 then sharded_weight_loader tp_rank 0 param loaded_weight
      else default_weight_loader param loaded_weight)"

section \<open>What the generators yield\<close>

lemma then_stream_ok [simp]: "then_stream (xs, None) (ys, e) = (xs @ ys, e)"
  by (simp add: then_stream_def)

lemma each_file_ok: "(\<And>f. f \<in> set fs \<Longrightarrow> g f = (ws f, None)) \<Longrightarrow> each_file g fs = (concat (map ws fs), None)"
  by (induction fs) simp_all

lemma get_tensors_ok:
  "(\<And>n t. (n, t) \<in> set f \<Longrightarrow> t = Inr (w n)) \<Longrightarrow> get_tensors f = (map (\<lambda>(n, t). (n, w n)) f, None)"
proof (induction f)
  case (Cons nt f)
  obtain n t where nt: "nt = (n, t)" by (cases nt)
  have "get_tensors f = (map (\<lambda>(n, t). (n, w n)) f, None)" by (rule Cons.IH) (use Cons.prems in auto)
  moreover have "t = Inr (w n)" using Cons.prems[of n t] nt by simp
  ultimately show ?case by (simp add: nt)
qed simp

lemma lazy_file_ok:
  assumes "safe_open disk f = Inr content"
    and "\<And>n t. (n, t) \<in> set content \<Longrightarrow> \<not> skipped cfg n \<Longrightarrow> \<not> (engram_disk cfg \<and> engram_table n) \<Longrightarrow> t = Inr (w n)"
  shows "lazy_file cfg disk f =
    (map (\<lambda>(n, t). (n, w n)) (filter (\<lambda>(n, t). \<not> skipped cfg n \<and> \<not> (engram_disk cfg \<and> engram_table n)) content), None)"
  unfolding lazy_file_def assms(1) sum.case by (rule get_tensors_ok) (use assms(2) in auto)

lemma set_sorted_files [simp]: "set (sorted_files files) = set files"
  by (simp add: sorted_files_def)

text \<open>
  C36. With \<open>DSV41_ENGRAM_DISK=1\<close> the default strategies yield every tensor that is not skipped, file by file in
  the natural order, but the Engram tables, which are not read at all: a table whose data cannot be read does
  not stop the load.
\<close>

theorem engram_tables_stay_on_disk:
  assumes "engram_disk cfg" and "strategy cfg \<noteq> Some ''eager''" and "strategy cfg \<noteq> Some ''torchao''"
    and "1 \<le> prefetch_threads cfg" and "1 \<le> prefetch_block cfg"
    and "\<And>f. f \<in> set files \<Longrightarrow> file_size disk f = Inr (bytes f)"
    and "\<And>f. f \<in> set files \<Longrightarrow> safe_open disk f = Inr (content f)"
    and "\<And>f n t. f \<in> set files \<Longrightarrow> (n, t) \<in> set (content f) \<Longrightarrow> \<not> skipped cfg n \<Longrightarrow> \<not> engram_table n \<Longrightarrow> t = Inr (weight f n)"
  shows "snd (safetensors_weights_iterator new_enough unflatten cfg disk files) =
    (concat (map (\<lambda>f. map (\<lambda>(n, t). (n, weight f n)) (filter (\<lambda>(n, t). \<not> skipped cfg n \<and> \<not> engram_table n) (content f)))
       (sorted_files files)), None)"
proof -
  have "lazy_file cfg disk f = (map (\<lambda>(n, t). (n, weight f n)) (filter (\<lambda>(n, t). \<not> skipped cfg n \<and> \<not> engram_table n) (content f)), None)"
    if "f \<in> set (sorted_files files)" for f
    using lazy_file_ok[of disk f "content f" cfg "weight f"] assms(1,7,8) that by simp
  then have stream: "weights_of_files new_enough unflatten cfg disk (sorted_files files) =
      (concat (map (\<lambda>f. map (\<lambda>(n, t). (n, weight f n)) (filter (\<lambda>(n, t). \<not> skipped cfg n \<and> \<not> engram_table n) (content f)))
         (sorted_files files)), None)"
    using assms(2,3) each_file_ok[of "sorted_files files" "lazy_file cfg disk"] by (simp add: weights_of_files_def)
  have "rmap (file_size disk) (sorted_files files) = Inr (map bytes (sorted_files files))"
    using assms(6) rmap_pure[of bytes "sorted_files files"] rmap_cong[of "sorted_files files" "sorted_files files" "file_size disk"]
    by simp
  then show ?thesis
    using assms(4,5) stream by (simp add: safetensors_weights_iterator_def checkpoint_size_def prefetch_files_def Let_def)
qed

definition demo_settings :: settings where
  "demo_settings = \<lparr>strategy = None, skipped = (\<lambda>n. False), engram_disk = True, prefetch_threads = 1, prefetch_block = 1, ranks = None\<rparr>"

definition demo_disk :: "nat disk" where
  "demo_disk = \<lparr>real_path = Some, mounts = None, file_size = (\<lambda>f. Inr 10), ram = 100, cgroup = (None, None),
     safe_open = (\<lambda>f. Inr [(''l.engram.embed.weight'', Inl OSError), (''l.wq'', Inr 7)]), load_all = (\<lambda>f. Inl OSError)\<rparr>"

theorem engram_tables_stay_on_disk_witness:
  "snd (safetensors_weights_iterator True (\<lambda>f d. Inr (d, [])) demo_settings demo_disk [''m'']) = ([(''l.wq'', 7)], None)"
proof -
  have table: "engram_table ''l.engram.embed.weight''" "\<not> engram_table ''l.wq''" by (simp_all add: engram_table_def ends_with_def)
  have ok: "t = Inr 7" if "(n, t) \<in> set [(''l.engram.embed.weight'', Inl OSError), (''l.wq'', Inr 7)]" "\<not> engram_table n"
    for n and t :: "nat res" using that table by auto
  have "snd (safetensors_weights_iterator True (\<lambda>f d. Inr (d, [])) demo_settings demo_disk [''m'']) =
    (concat (map (\<lambda>f. map (\<lambda>(n, t). (n, 7)) (filter (\<lambda>(n, t). \<not> skipped demo_settings n \<and> \<not> engram_table n)
       [(''l.engram.embed.weight'', Inl OSError), (''l.wq'', Inr 7 :: nat res)])) (sorted_files [''m''])), None)"
    by (rule engram_tables_stay_on_disk[where bytes = "\<lambda>f. 10"]) (use ok in \<open>simp_all add: demo_settings_def demo_disk_def\<close>)
  then show ?thesis using table by (simp add: sorted_files_def demo_settings_def)
qed

text \<open>The other strategies do load them.\<close>

lemma eager_loads_engram_tables:
  assumes "strategy cfg = Some ''eager''" and "load_all disk f = Inr d" and "(n, w) \<in> set d" and "\<not> skipped cfg n"
  shows "(n, w) \<in> set (fst (weights_of_files new_enough unflatten cfg disk (f # files)))"
  using assms by (auto simp: weights_of_files_def eager_file_def then_stream_def)

text \<open>The order in which threads finish changes the order of the weights only.\<close>

lemma threads_yield_the_same:
  assumes "mset completed = mset files" and "\<And>f. f \<in> set files \<Longrightarrow> load f = Inr (content f)"
  shows "snd (multi_thread_pt_weights_iterator load completed) = None"
    and "mset (fst (multi_thread_pt_weights_iterator load completed)) = mset (fst (pt_weights_iterator load files))"
proof -
  have stream: "each_file (\<lambda>f. yield_items (load f)) fs = (concat (map content fs), None)" if "set fs \<subseteq> set files" for fs
    by (rule each_file_ok) (use that assms(2) in \<open>auto simp: yield_items_def\<close>)
  have "set completed \<subseteq> set files" using mset_eq_setD[OF assms(1)] by simp
  note streams = stream[OF this] stream[OF subset_refl]
  show "snd (multi_thread_pt_weights_iterator load completed) = None" by (simp add: multi_thread_pt_weights_iterator_def streams)
  have "mset (concat (map content completed)) = mset (concat (map content files))"
    using assms(1) by (simp only: mset_concat mset_map flip: sum_mset_sum_list)
  then show "mset (fst (multi_thread_pt_weights_iterator load completed)) = mset (fst (pt_weights_iterator load files))"
    by (simp add: multi_thread_pt_weights_iterator_def pt_weights_iterator_def streams)
qed

subsection \<open>The fallback of the fast loader\<close>

fun yielded_by :: "'w fast_event list \<Rightarrow> (string \<times> 'w) list" where
  "yielded_by [] = []"
| "yielded_by (Yielded n w # es) = (n, w) # yielded_by es"
| "yielded_by (e # es) = yielded_by es"

lemma yielded_by_append [simp]: "yielded_by (xs @ ys) = yielded_by xs @ yielded_by ys"
  by (induction xs rule: yielded_by.induct) simp_all

lemma yielded_by_yields [simp]: "yielded_by (yields ws) = ws"
  by (induction ws) (auto simp: yields_def)

lemma second_attempt_yields:
  assumes "second_attempt attempt closing = (events, err)" and "yielded_by closing = []"
    and "yielded_by events \<noteq> [] \<or> err = None"
  shows "attempt True = Inr (yielded_by events, err)"
  using assms by (auto simp: second_attempt_def split: sum.splits)

text \<open>
  What is yielded is what one parallel loader yields, from its first tensor to its end or its failure: the
  second one is only asked while nothing was yielded, so that no tensor comes twice.
\<close>

lemma fast_stream_is_one_attempt:
  assumes "fastsafetensors_weights_iterator attempt pg_size = (events, err)"
    and "yielded_by events \<noteq> [] \<or> err = None"
  shows "\<exists>nogds. attempt nogds = Inr (yielded_by events, err)"
proof (cases "attempt (pg_size > 1)")
  case (Inl e)
  then show ?thesis
    using assms second_attempt_yields[of attempt "[]" events err]
    by (auto simp: fastsafetensors_weights_iterator_def Let_def split: if_splits)
next
  case (Inr r)
  obtain tensors e where r: "r = (tensors, e)" by (cases r)
  show ?thesis
  proof (cases e)
    case None
    then have "yielded_by events = tensors" "err = None"
      using assms(1) Inr r by (auto simp: fastsafetensors_weights_iterator_def Let_def)
    then show ?thesis using Inr r None by blast
  next
    case (Some x)
    show ?thesis
    proof (cases "gives_up (pg_size > 1) (tensors \<noteq> []) x")
      case True
      then have "yielded_by events = tensors" "err = Some x"
        using assms(1) Inr r Some by (auto simp: fastsafetensors_weights_iterator_def Let_def)
      then show ?thesis using Inr r Some by blast
    next
      case False
      then have none: "tensors = []" by (auto simp: gives_up_def split: fast_error.splits)
      obtain events' err' where second: "second_attempt attempt [Closed (pg_size > 1)] = (events', err')"
        by (cases "second_attempt attempt [Closed (pg_size > 1)]")
      have "yielded_by events = yielded_by events'" "err = err'"
        using assms(1) Inr r Some False none second by (auto simp: fastsafetensors_weights_iterator_def Let_def yields_def)
      then show ?thesis using second_attempt_yields[OF second] assms(2) by auto
    qed
  qed
qed

section \<open>The cache round trip\<close>

lemma dump_state_append:
  "dump_state f (xs @ ys) names d = (case dump_state f xs names d of
     (Inl e, d') \<Rightarrow> (Inl e, d') | (Inr names', d') \<Rightarrow> dump_state f ys names' d')"
  by (induction xs arbitrary: names d) (auto split: sum.split)

lemma dump_files_state:
  "(\<And>f. f \<in> set files \<Longrightarrow> load f = Inr (content f)) \<Longrightarrow>
   dump_files to_numpy load files names d = dump_state to_numpy (concat (map content files)) names d"
  by (induction files arbitrary: names d) (auto simp: dump_state_append split: sum.split prod.split)

lemma dump_state_ok:
  "(\<And>n w. (n, w) \<in> set items \<Longrightarrow> to_numpy w = Inr (enc w)) \<Longrightarrow> distinct (map fst items) \<Longrightarrow>
   dump_state to_numpy items names d = (Inr (names @ map fst items), d ++ map_of (map (\<lambda>(n, w). (n, Np_array (enc w))) items))"
proof (induction items arbitrary: names d)
  case (Cons item items)
  obtain n w where item: "item = (n, w)" by (cases item)
  have "to_numpy w = Inr (enc w)" using Cons.prems(1)[of n w] item by simp
  moreover have "map_of (map (\<lambda>(n, w). (n, Np_array (enc w))) items) n = None"
    using Cons.prems(2) item by (force simp: map_of_eq_None_iff)
  then have "(d(n \<mapsto> Np_array (enc w))) ++ map_of (map (\<lambda>(n, w). (n, Np_array (enc w))) items) =
      d ++ (map_of (map (\<lambda>(n, w). (n, Np_array (enc w))) items))(n \<mapsto> Np_array (enc w))"
    by (auto simp: fun_eq_iff map_add_def split: option.split)
  moreover have "dump_state to_numpy items (names @ [n]) (d(n \<mapsto> Np_array (enc w))) =
      (Inr ((names @ [n]) @ map fst items), d(n \<mapsto> Np_array (enc w)) ++ map_of (map (\<lambda>(n, w). (n, Np_array (enc w))) items))"
    by (rule Cons.IH) (use Cons.prems in auto)
  ultimately show ?case by (simp add: item fun_upd_def)
qed simp

lemma cached_stream:
  assumes "\<And>n w. (n, w) \<in> set items \<Longrightarrow> folder n = Some (Np_array (enc w)) \<and> from_numpy (enc w) = w"
  shows "get_tensors (map (\<lambda>n. (n, cached_tensor from_numpy folder n)) (map fst items)) = (items, None)"
  using assms
proof (induction items)
  case (Cons item items)
  obtain n w where item: "item = (n, w)" by (cases item)
  have "cached_tensor from_numpy folder n = Inr w" using Cons.prems[of n w] item by (simp add: cached_tensor_def)
  moreover have "get_tensors (map (\<lambda>n. (n, cached_tensor from_numpy folder n)) (map fst items)) = (items, None)"
    by (rule Cons.IH) (use Cons.prems in auto)
  ultimately show ?case by (simp add: item)
qed simp

text \<open>
  The first pass over a checkpoint writes the cache and yields the tensors of its files; a later pass yields
  the same tensors from the cache, whatever has become of the files.
\<close>

lemma cache_yields_the_checkpoint:
  assumes "folder names_file = None"
    and "\<And>f. f \<in> set files \<Longrightarrow> torch_load f = Inr (content f)"
    and "\<And>n w. (n, w) \<in> set (concat (map content files)) \<Longrightarrow> to_numpy w = Inr (enc w) \<and> from_numpy (enc w) = w"
    and "distinct (map fst (concat (map content files)))" and "names_file \<notin> set (map fst (concat (map content files)))"
    and "np_cache_weights_iterator to_numpy from_numpy torch_load files folder = (stream, folder')"
  shows "stream = (concat (map content files), None) \<and>
    np_cache_weights_iterator to_numpy from_numpy torch_load' files' folder' = (stream, folder')"
proof -
  define items where "items = concat (map content files)"
  define arrays where "arrays = map_of (map (\<lambda>(n, w). (n, Np_array (enc w))) items)"
  define cache where "cache = (folder ++ arrays)(names_file \<mapsto> Np_names (map fst items))"
  have "dump_state to_numpy items [] folder = (Inr (map fst items), folder ++ arrays)"
    using dump_state_ok[of items to_numpy enc "[]" folder] assms(3,4) by (simp add: items_def arrays_def)
  then have "dump_files to_numpy torch_load files [] folder = (Inr (map fst items), folder ++ arrays)"
    using dump_files_state[of files torch_load content to_numpy, OF assms(2)] by (simp add: items_def)
  then have fill: "fill_cache to_numpy torch_load files folder = (Inr (), cache)"
    using assms(1) by (simp add: fill_cache_def cache_def)
  have cached: "cache n = Some (Np_array (enc w)) \<and> from_numpy (enc w) = w" if "(n, w) \<in> set items" for n w
  proof -
    have "distinct (map fst (map (\<lambda>(n, w). (n, Np_array (enc w))) items))"
      using assms(4) by (simp add: items_def comp_def case_prod_beta)
    moreover have "(n, Np_array (enc w)) \<in> set (map (\<lambda>(n, w). (n, Np_array (enc w))) items)" using that by force
    ultimately have "arrays n = Some (Np_array (enc w))" unfolding arrays_def by simp
    moreover have "n \<noteq> names_file" using assms(5) that by (force simp: items_def)
    ultimately show ?thesis using assms(3) that by (simp add: cache_def items_def)
  qed
  have tensors: "get_tensors (map (\<lambda>n. (n, cached_tensor from_numpy cache n)) (map fst items)) = (items, None)"
    by (rule cached_stream) (rule cached)
  have names: "cache names_file = Some (Np_names (map fst items))" by (simp add: cache_def)
  have again: "fill_cache to_numpy torch_load' files' cache = (Inr (), cache)" by (simp add: fill_cache_def names)
  have run: "np_cache_weights_iterator to_numpy from_numpy torch_load files folder = ((items, None), cache)"
    by (simp only: np_cache_weights_iterator_def fill names tensors prod.case sum.case option.case np_file.case)
  have rerun: "np_cache_weights_iterator to_numpy from_numpy torch_load' files' cache = ((items, None), cache)"
    by (simp only: np_cache_weights_iterator_def again names tensors prod.case sum.case option.case np_file.case)
  have "stream = (items, None)" "folder' = cache" using assms(6) run by simp_all
  then show ?thesis using rerun by (simp add: items_def)
qed

lemma cache_yields_the_checkpoint_witness:
  "np_cache_weights_iterator (\<lambda>w. Inr (Suc w)) (\<lambda>n. n - 1) (\<lambda>f. Inl FileNotFoundError) [] (snd (np_cache_weights_iterator
     (\<lambda>w. Inr (Suc w)) (\<lambda>n. n - 1) (\<lambda>f. Inr [(''a'', 5), (''b'', 6)]) [''bin''] (\<lambda>n. None))) =
   (([(''a'', 5), (''b'', 6)], None), snd (np_cache_weights_iterator
     (\<lambda>w. Inr (Suc w)) (\<lambda>n. n - 1) (\<lambda>f. Inr [(''a'', 5), (''b'', 6)]) [''bin''] (\<lambda>n. None)))"
  using cache_yields_the_checkpoint[of "\<lambda>n. None" "[''bin'']" "\<lambda>f. Inr [(''a'', 5), (''b'', 6)]" "\<lambda>f. [(''a'', 5), (''b'', 6)]"
      "\<lambda>w. Inr (Suc w)" Suc "\<lambda>n. n - 1"
      "fst (np_cache_weights_iterator (\<lambda>w. Inr (Suc w)) (\<lambda>n. n - 1) (\<lambda>f. Inr [(''a'', 5), (''b'', 6)]) [''bin''] (\<lambda>n. None))"
      "snd (np_cache_weights_iterator (\<lambda>w. Inr (Suc w)) (\<lambda>n. n - 1) (\<lambda>f. Inr [(''a'', 5), (''b'', 6)]) [''bin''] (\<lambda>n. None))"
      "\<lambda>f. Inl FileNotFoundError" "[]"]
  by (simp add: names_file_def prod_eq_iff)

text \<open>A pass that fails leaves no list of names behind: the next pass starts over.\<close>

lemma dump_state_no_list:
  "names_file \<notin> set (map fst items) \<Longrightarrow> snd (dump_state to_numpy items names d) names_file = d names_file"
  by (induction items arbitrary: names d) (auto split: sum.split)

lemma dump_files_no_list:
  assumes "\<And>f items. f \<in> set files \<Longrightarrow> torch_load f = Inr items \<Longrightarrow> names_file \<notin> set (map fst items)"
  shows "snd (dump_files to_numpy torch_load files names d) names_file = d names_file"
  using assms
proof (induction files arbitrary: names d)
  case (Cons f files)
  show ?case
  proof (cases "torch_load f")
    case (Inr items)
    obtain r d' where dump: "dump_state to_numpy items names d = (r, d')" by (cases "dump_state to_numpy items names d")
    have "d' names_file = d names_file"
      using dump_state_no_list[of items to_numpy names d] Cons.prems[of f items] Inr dump by simp
    moreover have "snd (dump_files to_numpy torch_load files names' d') names_file = d' names_file" for names'
      by (rule Cons.IH) (use Cons.prems in auto)
    ultimately show ?thesis using Inr dump by (cases r) simp_all
  qed simp
qed simp

lemma failed_dump_starts_over:
  assumes "folder names_file = None" and "fill_cache to_numpy torch_load files folder = (Inl e, folder')"
    and "\<And>f items. f \<in> set files \<Longrightarrow> torch_load f = Inr items \<Longrightarrow> names_file \<notin> set (map fst items)"
  shows "folder' names_file = None"
proof -
  have "snd (dump_files to_numpy torch_load files [] folder) = folder'"
    using assms(1,2) by (auto simp: fill_cache_def split: prod.splits sum.splits)
  moreover have "snd (dump_files to_numpy torch_load files [] folder) names_file = folder names_file"
    by (rule dump_files_no_list) (rule assms(3))
  ultimately show ?thesis using assms(1) by simp
qed

section \<open>Atomic writes\<close>

lemma write_chunks_frame: "s \<in> set (write_chunks temp cs fs) \<Longrightarrow> p \<noteq> temp \<Longrightarrow> s p = fs p"
  by (induction cs arbitrary: fs) (auto simp: Let_def)

lemma write_chunks_last:
  "fs temp = Some old \<Longrightarrow> last (fs # write_chunks temp cs fs) = fs(temp \<mapsto> old @ concat cs)"
proof (induction cs arbitrary: fs old)
  case (Cons c cs)
  have "last (fs(temp \<mapsto> old @ c) # write_chunks temp cs (fs(temp \<mapsto> old @ c))) = (fs(temp \<mapsto> old @ c))(temp \<mapsto> (old @ c) @ concat cs)"
    by (rule Cons.IH) simp
  then show ?case using Cons.prems by (simp add: Let_def)
qed (simp add: fun_upd_idem)

text \<open>
  At every moment of a write the file has its old content or, where nothing failed, the whole new one, never
  a part of it; and when the writer is left the file system is as it was but for the new content of that file.
\<close>

lemma atomic_write_is_all_or_nothing:
  assumes "atomic_writer filepath temp chunks raised replaced fs = (result, states)"
    and "temp \<noteq> filepath" and "fs temp = None" and "s \<in> set states"
  shows "(s filepath = fs filepath \<or> s filepath = Some (concat chunks) \<and> result = Inr ()) \<and>
    last states = (if result = Inr () then fs(filepath \<mapsto> concat chunks) else fs)"
proof -
  define made where "made = fs(temp \<mapsto> [])"
  define writing where "writing = made # write_chunks temp chunks made"
  have last: "last writing = fs(temp \<mapsto> concat chunks)"
    using write_chunks_last[of made temp "[]" chunks] by (simp add: writing_def made_def)
  have old: "x filepath = fs filepath" if "x \<in> set writing" for x
    using that write_chunks_frame[of x temp chunks made filepath] assms(2) by (auto simp: writing_def made_def)
  have run: "(result, states) = (case raised of
      Some e \<Rightarrow> (Inl e, writing @ [(last writing)(temp := None)])
    | None \<Rightarrow> (case replaced of
        Some e \<Rightarrow> (Inl e, writing @ [(last writing)(temp := None)])
      | None \<Rightarrow> (Inr (), writing @ [(last writing)(filepath := last writing temp, temp := None)])))"
    using assms(1) unfolding atomic_writer_def Let_def made_def writing_def by (rule sym)
  show ?thesis
  proof (cases "raised = None \<and> replaced = None")
    case True
    then have "result = Inr ()" and states: "states = writing @ [(last writing)(filepath := last writing temp, temp := None)]"
      using run by simp_all
    moreover have "(last writing)(filepath := last writing temp, temp := None) = fs(filepath \<mapsto> concat chunks)"
      using assms(2,3) by (auto simp: last fun_eq_iff)
    ultimately show ?thesis using old assms(4) by auto
  next
    case False
    then have "result \<noteq> Inr ()" and states: "states = writing @ [(last writing)(temp := None)]"
      using run by (auto split: option.splits)
    moreover have "(last writing)(temp := None) = fs" using assms(3) by (auto simp: last fun_eq_iff)
    ultimately show ?thesis using old assms(4) by auto
  qed
qed

lemma atomic_write_is_all_or_nothing_witness:
  "last (snd (atomic_writer ''f'' ''t'' [''a'', ''b''] None (Some OSError) [''f'' \<mapsto> ''old''])) = [''f'' \<mapsto> ''old'']"
proof -
  obtain states where states: "atomic_writer ''f'' ''t'' [''a'', ''b''] None (Some OSError) [''f'' \<mapsto> ''old''] = (Inl OSError, states)"
    and some: "last states \<in> set states"
    by (simp add: atomic_writer_def Let_def)
  from atomic_write_is_all_or_nothing[OF states _ _ some] show ?thesis by (simp add: states)
qed

section \<open>Shared tensors\<close>

definition pointer_groups :: "('w \<Rightarrow> nat) \<Rightarrow> (string, 'w) dict \<Rightarrow> (nat, string list) dict" where
  "pointer_groups data_ptr tensors = fold (\<lambda>(k, v) ptrs. dict_push (data_ptr v) k ptrs) tensors []"

lemma map_of_pushed:
  "map_of (dict_push k x d) = (map_of d)(k \<mapsto> (case map_of d k of None \<Rightarrow> [] | Some xs \<Rightarrow> xs) @ [x])"
  by (induction d) (auto simp: fun_eq_iff)

definition names_at :: "('w \<Rightarrow> nat) \<Rightarrow> (string, 'w) dict \<Rightarrow> nat \<Rightarrow> string list" where
  "names_at data_ptr tensors p = map fst (filter (\<lambda>(k, v). data_ptr v = p) tensors)"

lemma pointer_groups:
  "dict_ok (pointer_groups data_ptr tensors) \<and>
   map_of (pointer_groups data_ptr tensors) p = (if names_at data_ptr tensors p = [] then None else Some (names_at data_ptr tensors p))"
proof (induction tensors rule: rev_induct)
  case (snoc kv tensors)
  then show ?case
    by (cases kv) (auto simp: pointer_groups_def names_at_def map_of_pushed)
qed (simp add: pointer_groups_def names_at_def dict_ok_def)

text \<open>A name is dropped where an earlier one has the same memory.\<close>

lemma dropped_names:
  "k \<in> set (concat (map tl (shared_pointers data_ptr tensors))) \<longleftrightarrow> (\<exists>p. k \<in> set (tl (names_at data_ptr tensors p)))"
proof -
  have groups: "names \<in> snd ` set (pointer_groups data_ptr tensors) \<longleftrightarrow> (\<exists>p. names_at data_ptr tensors p = names \<and> names \<noteq> [])" for names
  proof -
    have "(p, names) \<in> set (pointer_groups data_ptr tensors) \<longleftrightarrow> names_at data_ptr tensors p = names \<and> names \<noteq> []" for p
      using pointer_groups[of data_ptr tensors p] map_of_eq_Some_iff[of "pointer_groups data_ptr tensors" p names]
      by (auto simp: dict_ok_def split: if_splits)
    then show ?thesis by (force simp: image_iff)
  qed
  have long: "1 < length names \<and> names \<noteq> []" if "k \<in> set (tl names)" for names :: "string list"
    using that by (cases names; cases "tl names") auto
  show ?thesis
  proof
    assume "k \<in> set (concat (map tl (shared_pointers data_ptr tensors)))"
    then show "\<exists>p. k \<in> set (tl (names_at data_ptr tensors p))"
      using groups by (auto simp: shared_pointers_def pointer_groups_def[symmetric])
  next
    assume "\<exists>p. k \<in> set (tl (names_at data_ptr tensors p))"
    then obtain p where p: "k \<in> set (tl (names_at data_ptr tensors p))" ..
    have "names_at data_ptr tensors p \<in> snd ` set (pointer_groups data_ptr tensors)" using groups long[OF p] by blast
    then show "k \<in> set (concat (map tl (shared_pointers data_ptr tensors)))"
      using p long[OF p]
      by (auto simp: shared_pointers_def pointer_groups_def[symmetric] intro!: bexI[of _ "(_, names_at data_ptr tensors p)"])
  qed
qed

text \<open>What is saved: one tensor for each piece of memory of the file that was loaded, the first that names it.\<close>

lemma saved_tensors_own_their_memory:
  assumes "dict_ok loaded" and "(k, v) \<in> set loaded"
  shows "(k, v) \<in> set (drop_shared data_ptr loaded) \<longleftrightarrow> hd (names_at data_ptr loaded (data_ptr v)) = k"
proof -
  define names where "names = names_at data_ptr loaded (data_ptr v)"
  have "distinct names"
    using assms(1) distinct_map_filter[of fst loaded "\<lambda>(k, u). data_ptr u = data_ptr v"] by (simp add: names_def names_at_def dict_ok_def)
  moreover have k: "k \<in> set names" using assms(2) by (force simp: names_def names_at_def)
  ultimately have hd: "hd names = k \<longleftrightarrow> k \<notin> set (tl names)" by (cases names) auto
  have "k \<in> set (tl (names_at data_ptr loaded p)) \<longleftrightarrow> p = data_ptr v \<and> k \<in> set (tl names)" for p
  proof -
    have "u = v" if "(k, u) \<in> set loaded" for u
      using assms that eq_key_imp_eq_value[of loaded k v u] by (simp add: dict_ok_def)
    then have "p = data_ptr v" if "k \<in> set (tl (names_at data_ptr loaded p))"
      using in_set_tl[OF that] by (auto simp: names_at_def)
    then show ?thesis by (auto simp: names_def)
  qed
  then show ?thesis using assms(2) hd dropped_names[of k data_ptr loaded] by (auto simp: drop_shared_def names_def[symmetric])
qed

section \<open>What the loaders copy\<close>

text \<open>A rank's parameter is its slice of the weight along the axis, element by element.\<close>

lemma sharded_parameter_is_its_slice:
  assumes "sharded_weight_loader tp_rank axis param w = Inr p" and "numel param \<noteq> 1"
  shows "dims p = dims param" and "dims param = (dims w)[axis := dims param ! axis]"
    and "tp_rank * dims param ! axis + dims param ! axis \<le> dims w ! axis"
    and "at p ix = at w (ix[axis := ix ! axis + tp_rank * dims param ! axis])"
proof -
  define n where "n = dims param ! axis"
  define part where "part = \<lparr>dims = (dims w)[axis := n], at = \<lambda>ix. at w (ix[axis := ix ! axis + tp_rank * n])\<rparr>"
  have load: "default_weight_loader param part = Inr p" and bound: "tp_rank * n + n \<le> dims w ! axis"
    using assms(1) by (auto simp: sharded_weight_loader_def narrow_dim_def Let_def n_def[symmetric] part_def[symmetric] rbind_Inr_iff split: if_splits)
  have same: "dims param = dims part" and p: "p = param\<lparr>at := at part\<rparr>"
    using load assms(2) by (auto simp: default_weight_loader_def split: if_splits)
  show "dims p = dims param" by (simp add: p)
  show "dims param = (dims w)[axis := dims param ! axis]" using same unfolding part_def n_def tensor.simps .
  show "tp_rank * dims param ! axis + dims param ! axis \<le> dims w ! axis" using bound by (simp add: n_def)
  show "at p ix = at w (ix[axis := ix ! axis + tp_rank * dims param ! axis])" by (simp add: p part_def n_def)
qed

end
