(* ===== verification/Virtual_Heads.thy ===== *)
theory Virtual_Heads
  imports Weight_Streams
begin

text \<open>
  Virtual heads (\<open>patches/virtual_heads.py\<close>): the attention's weights of the checkpoint are padded with whole
  groups of heads while they are loaded, so that the groups divide by the number of tensor-parallel ranks.
\<close>

section \<open>Padding\<close>

text \<open>
  Elements are raw: the byte of a type of one byte, which is viewed as \<open>uint8\<close> while it is padded, and the
  number itself of a wider one. The byte 127 of \<open>float8_e8m0fnu\<close> is the scale 1.
\<close>

datatype dtype = E8m0 | One_byte | Wide

text \<open>\<open>torch.cat\<close> of two tensors along a dimension.\<close>

definition cat2 :: "nat \<Rightarrow> 'v tensor \<Rightarrow> 'v tensor \<Rightarrow> 'v tensor" where
  "cat2 d s t = \<lparr>dims = (dims s)[d := dims s ! d + dims t ! d],
     at = \<lambda>ix. if ix ! d < dims s ! d then at s ix else at t (ix[d := ix ! d - dims s ! d])\<rparr>"

definition pad_tensor :: "dtype \<Rightarrow> int tensor \<Rightarrow> nat \<Rightarrow> int \<Rightarrow> string \<Rightarrow> int tensor res" where
  "pad_tensor dt t dim full mode =
     (if length (dims t) \<le> dim then Inl IndexError
      else
        let real = dims t ! dim; n = full - int real
        in if n \<le> 0 then Inr t
           else if mode = ''dup'' then
             if n > int real then Inl ValueError
             else rbind (narrow_dim dim (nat (int real - n)) (nat n) t) (\<lambda>pad. Inr (cat2 dim t pad))
           else if mode = ''zero'' then
             Inr (cat2 dim t \<lparr>dims = (dims t)[dim := nat n], at = \<lambda>ix. if dt = E8m0 then 127 else 0\<rparr>)
           else Inl ValueError)"

section \<open>The loaders\<close>

text \<open>\<open>virtual_heads_from\<close> of the configuration or, where that is missing or empty, of its text part.\<close>

record config =
  own_from :: "(string, int) dict option"
  text_from :: "(string, int) dict option"

definition virtual_from :: "config option \<Rightarrow> (string, int) dict option" where
  "virtual_from c = (case c of
       None \<Rightarrow> None
     | Some cfg \<Rightarrow>
         (case own_from cfg of
            Some (e # es) \<Rightarrow> Some (e # es)
          | _ \<Rightarrow> (case text_from cfg of Some (e # es) \<Rightarrow> Some (e # es) | _ \<Rightarrow> None)))"

definition padding_loader ::
  "dtype \<Rightarrow> nat \<Rightarrow> int \<Rightarrow> int \<Rightarrow> string \<Rightarrow> (int tensor \<Rightarrow> int tensor \<Rightarrow> int tensor res) \<Rightarrow> int tensor \<Rightarrow> int tensor \<Rightarrow> int tensor res" where
  "padding_loader dt dim real_g pad_g mode orig p loaded_weight =
     (if length (dims loaded_weight) > dim
      then rbind (py_mod (int (dims loaded_weight ! dim)) real_g) (\<lambda>m.
        if m = 0
        then rbind (pad_tensor dt loaded_weight dim (int (dims loaded_weight ! dim) div real_g * pad_g) mode) (orig p)
        else orig p loaded_weight)
      else orig p loaded_weight)"

text \<open>A parameter as \<open>wrap_attention\<close> sees it, and what its loader is wrapped with.\<close>

record attn_param =
  has_loader :: bool
  output_dim :: "nat option"
  input_dim :: "nat option"

record attention =
  wq_b :: "attn_param list"
  wo_a :: "attn_param list"
  wo_b :: "attn_param list"
  n_groups :: int

type_synonym wrapping = "(nat \<times> int \<times> int \<times> string) option"

definition wrap_param :: "nat \<Rightarrow> int \<Rightarrow> int \<Rightarrow> string \<Rightarrow> attn_param \<Rightarrow> wrapping" where
  "wrap_param dim real_g pad_g mode p = (if has_loader p then Some (dim, real_g, pad_g, mode) else None)"

definition dim_or :: "nat \<Rightarrow> nat option \<Rightarrow> nat" where
  "dim_or default_dim d = (case d of None \<Rightarrow> default_dim | Some k \<Rightarrow> k)"

text \<open>The number of wrapped parameters, and the wrappings of those of \<open>wq_b\<close>, \<open>wo_a\<close> and \<open>wo_b\<close>.\<close>

definition no_wrappings :: "attention \<Rightarrow> wrapping list \<times> wrapping list \<times> wrapping list" where
  "no_wrappings attn = (map (\<lambda>p. None) (wq_b attn), map (\<lambda>p. None) (wo_a attn), map (\<lambda>p. None) (wo_b attn))"

definition wrapped_count :: "wrapping list \<Rightarrow> int" where
  "wrapped_count ws = int (length (filter (\<lambda>w. w \<noteq> None) ws))"

definition wrap_attention :: "attention \<Rightarrow> int \<Rightarrow> config option \<Rightarrow> (int \<times> wrapping list \<times> wrapping list \<times> wrapping list) res" where
  "wrap_attention attn tp_size c = (case virtual_from c of
       None \<Rightarrow> Inr (0, no_wrappings attn)
     | Some src \<Rightarrow>
         if tp_size \<le> 1 then Inr (0, no_wrappings attn)
         else rbind (dict_get src ''o_groups'') (\<lambda>real_g.
           let pad_g = n_groups attn
           in if pad_g \<le> real_g then Inr (0, no_wrappings attn)
              else
                let q = map (\<lambda>p. wrap_param (dim_or 0 (output_dim p)) real_g pad_g ''dup'' p) (wq_b attn);
                    a = map (\<lambda>p. wrap_param (dim_or 0 (output_dim p)) real_g pad_g ''dup'' p) (wo_a attn);
                    b = map (\<lambda>p. wrap_param (dim_or 1 (input_dim p)) real_g pad_g ''zero'' p) (wo_b attn)
                in Inr (wrapped_count q + wrapped_count a + wrapped_count b, q, a, b)))"

section \<open>What padding keeps\<close>

lemma pad_tensor_shape:
  assumes "pad_tensor dt t dim full mode = Inr u" and "int (dims t ! dim) \<le> full"
  shows "dims u = (dims t)[dim := nat full]"
proof -
  have len: "dim < length (dims t)" using assms(1) by (auto simp: pad_tensor_def split: if_splits)
  show ?thesis
  proof (cases "full = int (dims t ! dim)")
    case True
    then show ?thesis using assms(1) by (auto simp: pad_tensor_def split: if_splits)
  next
    case False
    then have "nat full = dims t ! dim + nat (full - int (dims t ! dim))" using assms(2) by linarith
    then show ?thesis using assms len False
      by (auto simp: pad_tensor_def Let_def cat2_def narrow_dim_def rbind_Inr_iff split: if_splits)
  qed
qed

text \<open>The checkpoint's elements stay where they are.\<close>

lemma pad_tensor_real:
  assumes "pad_tensor dt t dim full mode = Inr u" and "ix ! dim < dims t ! dim"
  shows "at u ix = at t ix"
  using assms by (auto simp: pad_tensor_def Let_def cat2_def rbind_Inr_iff split: if_splits)

text \<open>Rows are repeated from the end: with whole groups, the last ones of the checkpoint.\<close>

lemma pad_tensor_dup:
  assumes "pad_tensor dt t dim full ''dup'' = Inr u" and "dims t ! dim \<le> ix ! dim" and "int (ix ! dim) < full"
    and "dim < length ix"
  shows "at u ix = at t (ix[dim := 2 * dims t ! dim + ix ! dim - dims t ! dim - nat full])"
proof -
  define real where "real = dims t ! dim"
  have bounds: "0 < full - int real" "full - int real \<le> int real"
    using assms by (auto simp: pad_tensor_def Let_def real_def split: if_splits)
  then have "at u ix = at t (ix[dim := ix ! dim - real + nat (int real - (full - int real))])"
    using assms by (auto simp: pad_tensor_def Let_def cat2_def narrow_dim_def rbind_Inr_iff real_def[symmetric] split: if_splits)
  moreover have "ix ! dim - real + nat (int real - (full - int real)) = 2 * real + ix ! dim - real - nat full"
    using bounds assms(2,3) unfolding real_def[symmetric] by linarith
  ultimately show ?thesis by (simp add: real_def)
qed

lemma pad_tensor_zero:
  assumes "pad_tensor dt t dim full ''zero'' = Inr u" and "dims t ! dim \<le> ix ! dim" and "int (ix ! dim) < full" and "dt \<noteq> E8m0"
  shows "at u ix = 0"
  using assms by (auto simp: pad_tensor_def Let_def cat2_def split: if_splits)

section \<open>The output projection\<close>

lemma sum_of_slices:
  fixes f :: "nat \<Rightarrow> 'a :: comm_monoid_add"
  shows "(\<Sum>r<R. \<Sum>j<s. f (r * s + j)) = (\<Sum>m<R * s. f m)"
proof -
  have "(\<Sum>j<s. f (r * s + j)) = sum f {r * s ..< r * s + s}" for r
    using sum.atLeastLessThan_shift_0[of f "r * s" "r * s + s"] by (simp add: atLeast0LessThan comp_def)
  then show ?thesis by (simp add: sum.nat_group)
qed

lemma padding_loader_slice:
  assumes "padding_loader dt 1 (int real_g) (int pad_g) ''zero'' (sharded_weight_loader r 1) param w = Inr p"
    and "dims w = [rows, real_g * k]" and "0 < real_g" and "real_g \<le> pad_g" and "dims param = [rows, s]" and "rows * s \<noteq> 1"
    and "dt \<noteq> E8m0" and "j < s" and "r * s + s \<le> pad_g * k"
  shows "at p [i, j] = (if r * s + j < real_g * k then at w [i, r * s + j] else 0)"
proof -
  have full: "int (real_g * k) div int real_g * int pad_g = int (pad_g * k)" using assms(3) by simp
  obtain u where pad: "pad_tensor dt w 1 (int (pad_g * k)) ''zero'' = Inr u" and load: "sharded_weight_loader r 1 param u = Inr p"
    using assms(1,2,3) full by (auto simp: padding_loader_def py_mod_def rbind_Inr_iff mult.commute)
  have "numel param \<noteq> 1" using assms(5,6) by (simp add: numel_def)
  then have "at p [i, j] = at u [i, r * s + j]"
    using sharded_parameter_is_its_slice(4)[OF load, of "[i, j]"] assms(5) by (simp add: add.commute)
  moreover have "at u [i, r * s + j] = at w [i, r * s + j]" if "r * s + j < real_g * k"
    using pad_tensor_real[OF pad, of "[i, r * s + j]"] that assms(2) by simp
  moreover have "at u [i, r * s + j] = 0" if "\<not> r * s + j < real_g * k"
  proof -
    have "[i, r * s + j] ! 1 < pad_g * k" using assms(8,9) by simp
    then have "int ([i, r * s + j] ! 1) < int (pad_g * k)" by (simp only: of_nat_less_iff)
    then show ?thesis using pad_tensor_zero[OF pad _ _ assms(7)] that assms(2) by simp
  qed
  ultimately show ?thesis by simp
qed

text \<open>
  C37. Padding the columns of \<open>wo_b\<close> with zero weights removes the padded groups from the output: whatever
  activations \<open>y\<close> the padded heads have, the partial products of the ranks, each with its slice of the padded
  weight, add up to the product with the checkpoint's weight.
\<close>

theorem padded_ranks_add_up_to_the_projection:
  fixes y :: "nat \<Rightarrow> 'a :: comm_ring"
  assumes "\<And>r. r < R \<Longrightarrow> padding_loader dt 1 (int real_g) (int pad_g) ''zero'' (sharded_weight_loader r 1) (param r) w = Inr (p r)"
    and "\<And>r. r < R \<Longrightarrow> dims (param r) = [rows, s]"
    and "dims w = [rows, real_g * k]" and "0 < real_g" and "real_g \<le> pad_g" and "rows * s \<noteq> 1" and "R * s = pad_g * k"
    and "dt \<noteq> E8m0" and "val 0 = 0"
  shows "(\<Sum>r<R. \<Sum>j<s. val (at (p r) [i, j]) * y (r * s + j)) = (\<Sum>j<real_g * k. val (at w [i, j]) * y j)"
proof -
  define f where "f m = (if m < real_g * k then val (at w [i, m]) * y m else 0)" for m
  have "val (at (p r) [i, j]) * y (r * s + j) = f (r * s + j)" if "r < R" and "j < s" for r j
  proof -
    have "r * s + s \<le> R * s" using mult_le_mono1[of "Suc r" R s] that(1) by simp
    then show ?thesis
      using padding_loader_slice[OF assms(1)[OF that(1)] assms(3,4,5) assms(2)[OF that(1)] assms(6,8) that(2)] assms(7,9)
      by (simp add: f_def)
  qed
  then have "(\<Sum>r<R. \<Sum>j<s. val (at (p r) [i, j]) * y (r * s + j)) = (\<Sum>m<R * s. f m)"
    by (simp add: sum_of_slices[symmetric])
  also have "\<dots> = (\<Sum>m<real_g * k. f m)"
  proof (rule sum.mono_neutral_right)
    show "{..<real_g * k} \<subseteq> {..<R * s}" using assms(5,7) by (auto intro: order.strict_trans2)
  qed (auto simp: f_def)
  also have "\<dots> = (\<Sum>j<real_g * k. val (at w [i, j]) * y j)" by (simp add: f_def)
  finally show ?thesis .
qed

definition demo_weight :: "int tensor" where
  "demo_weight = \<lparr>dims = [1, 2], at = \<lambda>ix. 5 + int (ix ! 1)\<rparr>"

definition demo_param :: "nat \<Rightarrow> int tensor" where
  "demo_param r = \<lparr>dims = [1, 2], at = \<lambda>ix. 0\<rparr>"

definition demo_loaded :: "nat \<Rightarrow> int tensor" where
  "demo_loaded r = (case padding_loader Wide 1 2 4 ''zero'' (sharded_weight_loader r 1) (demo_param r) demo_weight of Inr p \<Rightarrow> p | Inl e \<Rightarrow> demo_param r)"

theorem padded_ranks_add_up_to_the_projection_witness:
  "(\<Sum>r<2. \<Sum>j<2. at (demo_loaded r) [0, j] * (100 + int (r * 2 + j))) = (\<Sum>j<2. at demo_weight [0, j] * (100 + int j))"
proof -
  have "padding_loader Wide 1 2 4 ''zero'' (sharded_weight_loader r 1) (demo_param r) demo_weight = Inr (demo_loaded r)" if "r < 2" for r
  proof -
    from that consider "r = 0" | "r = 1" by linarith
    then show ?thesis
      by cases (simp_all add: demo_loaded_def padding_loader_def py_mod_def demo_weight_def demo_param_def pad_tensor_def cat2_def
          sharded_weight_loader_def narrow_dim_def default_weight_loader_def numel_def)
  qed
  then show ?thesis
    using padded_ranks_add_up_to_the_projection[of 2 Wide 2 4 demo_param demo_weight demo_loaded 1 2 1 "\<lambda>v. v" 0 "\<lambda>m. 100 + int m"]
    by (simp add: demo_param_def demo_weight_def)
qed

section \<open>Where it is inert\<close>

lemma no_padding_without_virtual_heads:
  assumes "wrap_attention attn tp_size c = Inr (n, ws)"
    and "virtual_from c = None \<or> tp_size \<le> 1 \<or> (\<exists>src real_g. virtual_from c = Some src \<and> dict_get src ''o_groups'' = Inr real_g \<and> n_groups attn \<le> real_g)"
  shows "n = 0" and "ws = no_wrappings attn"
  using assms by (auto simp: wrap_attention_def rbind_Inr_iff Let_def split: option.splits if_splits)

text \<open>Where heads are padded, all three projections are wrapped with the same groups, and only \<open>wo_b\<close> with zeros.\<close>

lemma wrappings_agree:
  assumes "wrap_attention attn tp_size c = Inr (n, q, a, b)" and "n \<noteq> 0"
  obtains src real_g where "virtual_from c = Some src" and "dict_get src ''o_groups'' = Inr real_g" and "real_g < n_groups attn"
    and "\<And>d g h m. Some (d, g, h, m) \<in> set (q @ a) \<Longrightarrow> g = real_g \<and> h = n_groups attn \<and> m = ''dup''"
    and "\<And>d g h m. Some (d, g, h, m) \<in> set b \<Longrightarrow> g = real_g \<and> h = n_groups attn \<and> m = ''zero''"
proof -
  obtain src where src: "virtual_from c = Some src" using assms by (auto simp: wrap_attention_def split: option.splits)
  then obtain real_g where real_g: "dict_get src ''o_groups'' = Inr real_g"
    using assms by (auto simp: wrap_attention_def rbind_Inr_iff split: if_splits)
  have more: "real_g < n_groups attn"
    and q: "q = map (\<lambda>p. wrap_param (dim_or 0 (output_dim p)) real_g (n_groups attn) ''dup'' p) (wq_b attn)"
    and a: "a = map (\<lambda>p. wrap_param (dim_or 0 (output_dim p)) real_g (n_groups attn) ''dup'' p) (wo_a attn)"
    and b: "b = map (\<lambda>p. wrap_param (dim_or 1 (input_dim p)) real_g (n_groups attn) ''zero'' p) (wo_b attn)"
    using assms src real_g by (auto simp: wrap_attention_def Let_def split: if_splits)
  show ?thesis
    by (rule that[OF src real_g more]) (auto simp: q a b wrap_param_def split: if_splits)
qed

end
