(* ===== verification/Indexer_Workspace.thy ===== *)
theory Indexer_Workspace
  imports Runtime_Base
begin

text \<open>
  The prefill workspace of the sparse indexer (\<open>overlay/patch_indexer_workspace.py\<close>): the helpers that the patch
  writes into vLLM, the sizing and the check of the builder around them, and the splitter that fills the
  workspace.
\<close>

section \<open>Sizing\<close>

text \<open>\<open>index_kpool\<close> of the model's configuration: absent, a number, or something \<open>int\<close> refuses.\<close>

datatype kpool_value = Kpool_none | Kpool int | Kpool_unreadable

record vllm_config =
  max_model_len :: int
  index_kpool :: kpool_value
  num_speculative_tokens :: "int option"
  max_num_seqs :: int
  max_num_batched_tokens :: int

definition workspace_mode :: "string option \<Rightarrow> string res" where
  "workspace_mode env = (case env of
       None \<Rightarrow> Inr ''stock''
     | Some raw \<Rightarrow> if raw = ''stock'' \<or> raw = ''rightsize'' then Inr raw else Inl ValueError)"

definition stock_workspace_entries :: "int \<Rightarrow> int" where
  "stock_workspace_entries len = len * 40"

definition indexer_compress_ratio :: "vllm_config \<Rightarrow> int" where
  "indexer_compress_ratio cfg = (case index_kpool cfg of
       Kpool_none \<Rightarrow> 1
     | Kpool_unreadable \<Rightarrow> 1
     | Kpool n \<Rightarrow> let ratio = (if n = 0 then 1 else n) in if ratio > 1 then ratio else 1)"

definition num_spec :: "vllm_config \<Rightarrow> int" where
  "num_spec cfg = (case num_speculative_tokens cfg of None \<Rightarrow> 0 | Some n \<Rightarrow> n)"

definition rightsized_workspace_entries :: "vllm_config \<Rightarrow> int" where
  "rightsized_workspace_entries cfg =
     (let stock = stock_workspace_entries (max_model_len cfg); ratio = indexer_compress_ratio cfg
      in if ratio \<le> 1 then stock
         else
           let max_prefill_reqs = max 1 (min (max_num_seqs cfg) (max_num_batched_tokens cfg));
               span = max_model_len cfg + max 0 (num_spec cfg);
               per_req = - ((- span) div ratio)
           in min (per_req * max_prefill_reqs) stock)"

definition get_max_prefill_buffer_size :: "string option \<Rightarrow> vllm_config \<Rightarrow> int res" where
  "get_max_prefill_buffer_size env cfg =
     (let stock = stock_workspace_entries (max_model_len cfg)
      in rbind (workspace_mode env) (\<lambda>mode.
        if mode \<noteq> ''rightsize'' then Inr stock
        else
          let entries = rightsized_workspace_entries cfg
          in if entries \<ge> stock then Inr stock else Inr entries))"

text \<open>The check in the metadata builder, which knows the ratio the runtime divides by.\<close>

definition builder_check :: "string option \<Rightarrow> vllm_config \<Rightarrow> int \<Rightarrow> int \<Rightarrow> unit res" where
  "builder_check env cfg compress_ratio max_prefill_buffer_size =
     rbind (workspace_mode env) (\<lambda>mode.
       if mode = ''rightsize'' then
         if indexer_compress_ratio cfg \<noteq> compress_ratio then Inl ValueError
         else
           let need = rightsized_workspace_entries cfg; stock = stock_workspace_entries (max_model_len cfg)
           in if max_prefill_buffer_size < min need stock then Inl ValueError else Inr ()
       else Inr ())"

section \<open>The splitter\<close>

text \<open>
  A batch is a list of rows: its query length and its (compressed) sequence length. The requests that still
  fit a chunk, with the sums of both and their number.
\<close>

fun take_chunk :: "int \<Rightarrow> int \<Rightarrow> int \<Rightarrow> int \<Rightarrow> (int \<times> int) list \<Rightarrow> int \<times> int \<times> nat" where
  "take_chunk workspace_size max_logits_elems chunk_m chunk_n [] = (chunk_m, chunk_n, 0)"
| "take_chunk workspace_size max_logits_elems chunk_m chunk_n ((q, s) # rows) =
     (let new_m = chunk_m + q; new_n = chunk_n + s
      in if new_n \<le> workspace_size \<and> new_m * new_n \<le> max_logits_elems
         then (let (m, n, k) = take_chunk workspace_size max_logits_elems new_m new_n rows in (m, n, Suc k))
         else (chunk_m, chunk_n, 0))"

text \<open>The offsets \<open>range(0, chunk_m, max_q)\<close>, each with its end.\<close>

definition query_slices :: "int \<Rightarrow> int \<Rightarrow> int \<Rightarrow> (int \<times> int) list" where
  "query_slices max_logits_elems chunk_m chunk_n =
     (let max_q = (if chunk_n > 0 then max 1 (max_logits_elems div chunk_n) else max 1 chunk_m)
      in map (\<lambda>i. let q_off = int i * max_q in (q_off, q_off + min max_q (chunk_m - q_off))) [0 ..< nat (cdiv chunk_m max_q)])"

type_synonym chunk = "(nat \<times> nat) \<times> (int \<times> int)"

text \<open>A row that does not fit is a chunk of its own.\<close>

definition first_chunk :: "int \<Rightarrow> int \<Rightarrow> int \<times> int \<Rightarrow> (int \<times> int) list \<Rightarrow> int \<times> int \<times> nat" where
  "first_chunk workspace_size max_logits_elems row rows =
     (let (m, n, k) = take_chunk workspace_size max_logits_elems 0 0 (row # rows)
      in if k = 0 then (fst row, snd row, 1) else (m, n, k))"

lemma first_chunk_used: "first_chunk w l row rows = (m, n, used) \<Longrightarrow> 1 \<le> used"
  by (auto simp: first_chunk_def Let_def split: prod.splits if_splits)

function split_from :: "int \<Rightarrow> int \<Rightarrow> nat \<Rightarrow> (int \<times> int) list \<Rightarrow> chunk list" where
  "split_from workspace_size max_logits_elems start [] = []"
| "split_from workspace_size max_logits_elems start (row # rows) =
     (case first_chunk workspace_size max_logits_elems row rows of
        (chunk_m, chunk_n, used) \<Rightarrow>
          map (\<lambda>slice. ((start, start + used), slice)) (query_slices max_logits_elems chunk_m chunk_n) @
          split_from workspace_size max_logits_elems (start + used) (drop used (row # rows)))"
  by pat_completeness auto
termination
proof (relation "measure (\<lambda>(w, l, start, rows). length rows)")
  fix w l :: int and start row rows m y n used
  assume "(m, y) = first_chunk w l row rows" and "(n, used) = y"
  then have "1 \<le> used" using first_chunk_used[of w l row rows m n used] by simp
  then show "((w, l, start + used, drop used (row # rows)), (w, l, start, row # rows)) \<in> measure (\<lambda>(w, l, start, rows). length rows)"
    by simp
qed simp

definition split_prefill_chunks :: "(int \<times> int) list \<Rightarrow> int \<Rightarrow> int \<Rightarrow> chunk list" where
  "split_prefill_chunks rows workspace_size max_logits_bytes = split_from workspace_size (max_logits_bytes div 4) 0 rows"

text \<open>The builder compresses the sequence lengths before it splits.\<close>

definition compressed :: "int \<Rightarrow> (int \<times> int) list \<Rightarrow> (int \<times> int) list" where
  "compressed compress_ratio rows = map (\<lambda>(q, len). (q, len div compress_ratio)) rows"

section \<open>The right size changes no chunk\<close>

lemma take_chunk_same:
  "(\<And>q s. (q, s) \<in> set rows \<Longrightarrow> 0 \<le> s) \<Longrightarrow> n + sum_list (map snd rows) \<le> w \<Longrightarrow> n + sum_list (map snd rows) \<le> w' \<Longrightarrow>
   take_chunk w l m n rows = take_chunk w' l m n rows"
proof (induction rows arbitrary: m n)
  case (Cons row rows)
  obtain q s where row: "row = (q, s)" by (cases row)
  have "0 \<le> snd x" if "x \<in> set rows" for x using Cons.prems(1)[of "fst x" "snd x"] that by simp
  then have nonneg: "0 \<le> sum_list (map snd rows)" by (intro sum_list_nonneg) auto
  have "take_chunk w l (m + q) (n + s) rows = take_chunk w' l (m + q) (n + s) rows"
    by (rule Cons.IH) (use Cons.prems row in \<open>auto simp: algebra_simps\<close>)
  moreover have "n + s \<le> w" "n + s \<le> w'" using Cons.prems(2,3) nonneg row by auto
  ultimately show ?case by (simp add: row Let_def)
qed simp

lemma sum_drop_le:
  assumes "\<And>q s. (q, s) \<in> set rows \<Longrightarrow> (0 :: int) \<le> s"
  shows "sum_list (map snd (drop k rows)) \<le> sum_list (map snd rows)"
proof -
  have "0 \<le> sum_list (map snd (take k rows))"
  proof (rule sum_list_nonneg)
    fix s
    assume "s \<in> set (map snd (take k rows))"
    then obtain q where "(q, s) \<in> set (take k rows)" by auto
    then show "0 \<le> s" using assms in_set_takeD by fast
  qed
  moreover have "sum_list (map snd rows) = sum_list (map snd (take k rows)) + sum_list (map snd (drop k rows))"
    by (simp flip: sum_list_append map_append)
  ultimately show ?thesis by simp
qed

lemma split_from_same:
  "(\<And>q s. (q, s) \<in> set rows \<Longrightarrow> 0 \<le> s) \<Longrightarrow> sum_list (map snd rows) \<le> w \<Longrightarrow> sum_list (map snd rows) \<le> w' \<Longrightarrow>
   split_from w l start rows = split_from w' l start rows"
proof (induction w l start rows rule: split_from.induct)
  case (2 w l start row rows)
  obtain m n used where chunk: "first_chunk w l row rows = (m, n, used)" by (cases "first_chunk w l row rows")
  then have chunk': "first_chunk w' l row rows = (m, n, used)"
    using take_chunk_same[of "row # rows" 0 w w' l 0] "2.prems" by (simp add: first_chunk_def)
  have sums: "sum_list (map snd (drop used (row # rows))) \<le> sum_list (map snd (row # rows))"
    by (rule sum_drop_le) (rule "2.prems"(1))
  have "split_from w l (start + used) (drop used (row # rows)) = split_from w' l (start + used) (drop used (row # rows))"
  proof (rule "2.IH"[OF chunk[symmetric] refl])
    show "0 \<le> s" if "(q, s) \<in> set (drop used (row # rows))" for q s
      using "2.prems"(1) in_set_dropD[OF that] by blast
    show "sum_list (map snd (drop used (row # rows))) \<le> w" using sums "2.prems"(2) by linarith
    show "sum_list (map snd (drop used (row # rows))) \<le> w'" using sums "2.prems"(3) by linarith
  qed
  then show ?case by (simp add: chunk chunk')
qed simp

lemma compressed_sum:
  assumes "\<And>q len. (q, len) \<in> set rows \<Longrightarrow> 0 \<le> len \<and> len \<le> span" and "0 < r"
  shows "sum_list (map snd (compressed r rows)) \<le> int (length rows) * cdiv span r"
  using assms(1)
proof (induction rows)
  case (Cons row rows)
  obtain q len where row: "row = (q, len)" by (cases row)
  have "len div r \<le> cdiv span r"
  proof -
    have "len div r * r \<le> cdiv span r * r"
    proof -
      have "len \<le> span" using Cons.prems[of q len] row by simp
      moreover have "span \<le> cdiv span r * r" by (rule cdiv_bounds(1)[OF assms(2)])
      moreover have "len div r * r \<le> len"
        using minus_mod_eq_div_mult[of len r] pos_mod_sign[OF assms(2), of len] by linarith
      ultimately show ?thesis by linarith
    qed
    then show ?thesis using assms(2) by simp
  qed
  moreover have "sum_list (map snd (compressed r rows)) \<le> int (length rows) * cdiv span r"
  proof (rule Cons.IH)
    show "0 \<le> k \<and> k \<le> span" if "(p, k) \<in> set rows" for p k using Cons.prems[of p k] that by simp
  qed
  ultimately show ?case by (simp add: compressed_def row algebra_simps)
qed (simp add: compressed_def)

text \<open>
  C38. With \<open>GLM53_INDEXER_WORKSPACE=rightsize\<close> the workspace is never larger than the stock one, and for every
  batch the scheduler can form (at most \<open>max_num_seqs\<close> rows of at least one query token each, at most
  \<open>max_num_batched_tokens\<close> tokens, sequences of at most the model length and the draft) the splitter makes the
  chunks it makes with the stock workspace.
\<close>

theorem chunking_is_identical_to_stock:
  assumes "get_max_prefill_buffer_size (Some ''rightsize'') cfg = Inr ws"
    and "builder_check (Some ''rightsize'') cfg compress_ratio ws = Inr ()"
    and rows: "\<And>q len. (q, len) \<in> set rows \<Longrightarrow> 1 \<le> q \<and> 0 \<le> len \<and> len \<le> max_model_len cfg + max 0 (num_spec cfg)"
    and "int (length rows) \<le> max_num_seqs cfg" and "sum_list (map fst rows) \<le> max_num_batched_tokens cfg"
  shows "ws \<le> stock_workspace_entries (max_model_len cfg) \<and>
    split_prefill_chunks (compressed compress_ratio rows) ws logits =
    split_prefill_chunks (compressed compress_ratio rows) (stock_workspace_entries (max_model_len cfg)) logits"
proof -
  define stock where "stock = stock_workspace_entries (max_model_len cfg)"
  define span where "span = max_model_len cfg + max 0 (num_spec cfg)"
  define reqs where "reqs = max 1 (min (max_num_seqs cfg) (max_num_batched_tokens cfg))"
  have ratio: "compress_ratio = indexer_compress_ratio cfg"
    using assms(2) by (auto simp: builder_check_def workspace_mode_def split: if_splits)
  have ws: "ws = min (rightsized_workspace_entries cfg) stock"
    using assms(1) by (auto simp: get_max_prefill_buffer_size_def workspace_mode_def Let_def stock_def split: if_splits)
  show ?thesis
  proof (cases "compress_ratio \<le> 1")
    case True
    then have "ws = stock" using ws ratio by (simp add: rightsized_workspace_entries_def stock_def)
    then show ?thesis by (simp add: stock_def)
  next
    case False
    have entries: "ws = min (cdiv span compress_ratio * reqs) stock"
      using ws False ratio by (simp add: rightsized_workspace_entries_def Let_def span_def reqs_def cdiv_def stock_def)
    have "int (length rows) \<le> sum_list (map fst rows)"
      using rows by (induction rows) fastforce+
    then have few: "int (length rows) \<le> reqs" using assms(4,5) by (simp add: reqs_def)
    have sum: "sum_list (map snd (compressed compress_ratio rows)) \<le> int (length rows) * cdiv span compress_ratio"
      by (rule compressed_sum) (use rows False in \<open>auto simp: span_def\<close>)
    show ?thesis
    proof (cases "rows = []")
      case True
      then show ?thesis using entries by (simp add: compressed_def split_prefill_chunks_def stock_def)
    next
      case nonempty: False
      then obtain q len where "(q, len) \<in> set rows" by (metis list.set_sel(1) surj_pair)
      then have "0 \<le> span" using rows[of q len] by (simp add: span_def)
      then have "0 \<le> cdiv span compress_ratio" using False by (intro cdiv_nonneg) auto
      then have "int (length rows) * cdiv span compress_ratio \<le> cdiv span compress_ratio * reqs"
        using few by (metis mult.commute mult_left_mono)
      then have fits: "sum_list (map snd (compressed compress_ratio rows)) \<le> cdiv span compress_ratio * reqs" using sum by linarith
      show ?thesis
      proof (cases "cdiv span compress_ratio * reqs \<le> stock")
        case True
        have "split_prefill_chunks (compressed compress_ratio rows) ws logits = split_prefill_chunks (compressed compress_ratio rows) stock logits"
          unfolding split_prefill_chunks_def
        proof (rule split_from_same)
          show "0 \<le> s" if "(p, s) \<in> set (compressed compress_ratio rows)" for p s
            using that rows False by (auto simp: compressed_def pos_imp_zdiv_nonneg_iff)
        qed (use fits True entries in auto)
        then show ?thesis using entries by (simp add: stock_def)
      next
        case False
        then show ?thesis using entries by (simp add: stock_def)
      qed
    qed
  qed
qed

definition demo_config :: vllm_config where
  "demo_config = \<lparr>max_model_len = 100, index_kpool = Kpool 4, num_speculative_tokens = Some 7, max_num_seqs = 4, max_num_batched_tokens = 64\<rparr>"

theorem chunking_is_identical_to_stock_witness:
  "split_prefill_chunks [(8, 25), (1, 10), (40, 12)] 108 4000 = split_prefill_chunks [(8, 25), (1, 10), (40, 12)] 4000 4000"
proof -
  have size: "get_max_prefill_buffer_size (Some ''rightsize'') demo_config = Inr 108"
    and check: "builder_check (Some ''rightsize'') demo_config 4 108 = Inr ()"
    by (simp_all add: get_max_prefill_buffer_size_def builder_check_def workspace_mode_def rightsized_workspace_entries_def
        stock_workspace_entries_def indexer_compress_ratio_def num_spec_def demo_config_def Let_def)
  have rows: "1 \<le> q \<and> 0 \<le> len \<and> len \<le> max_model_len demo_config + max 0 (num_spec demo_config)"
    if "(q, len) \<in> set [(8, 100), (1, 43), (40, 50)]"
    for q len :: int using that by (auto simp: demo_config_def num_spec_def)
  show ?thesis
    using chunking_is_identical_to_stock[OF size check, where rows = "[(8, 100), (1, 43), (40, 50)]" and logits = 4000, OF rows]
    by (simp add: demo_config_def compressed_def stock_workspace_entries_def)
qed

end
