(* ===== verification/Text_Patches.thy ===== *)
theory Text_Patches
  imports Weight_Files
begin

text \<open>
  How the GLM image edits the installed sources (\<open>overlay/patch_*.py\<close>): pinned anchors that must occur exactly
  once, marks that tell a patched file from a pristine one, and a check of the result before it is written.
\<close>

section \<open>Counting and replacing\<close>

text \<open>\<open>s.count(p)\<close>, without overlaps, for a pattern that is not empty.\<close>

function occurrences :: "string \<Rightarrow> string \<Rightarrow> nat" where
  "occurrences p [] = 0"
| "occurrences p (c # s) =
     (if p \<noteq> [] \<and> starts_with p (c # s) then Suc (occurrences p (drop (length p) (c # s))) else occurrences p s)"
  by pat_completeness auto
termination by (relation "measure (\<lambda>(p, s). length s)") auto

definition replace_once :: "string \<Rightarrow> string \<Rightarrow> string \<Rightarrow> string res" where
  "replace_once text old new = (if occurrences old text \<noteq> 1 then Inl ValueError else Inr (replace_first old new text))"

section \<open>Sites\<close>

text \<open>\<open>SITES\<close> of \<open>patch_indexer_workspace.py\<close>: a mark, the anchor it replaces and what it puts there.\<close>

record site =
  mark :: string
  anchor :: string
  patched :: string

definition site_done :: "string \<Rightarrow> site \<Rightarrow> bool" where
  "site_done text s \<longleftrightarrow> occurrences (mark s) text = 1 \<and> occurrences (patched s) text = 1 \<and>
     occurrences (anchor s) text = occurrences (anchor s) (patched s)"

definition verified_state :: "site list \<Rightarrow> string \<Rightarrow> bool" where
  "verified_state sites text \<longleftrightarrow> list_all (site_done text) sites"

fun apply_sites :: "site list \<Rightarrow> string \<Rightarrow> string res" where
  "apply_sites [] text = Inr text"
| "apply_sites (s # sites) text =
     (if occurrences (anchor s) text \<noteq> 1 then Inl ValueError
      else apply_sites sites (replace_first (anchor s) (patched s) text))"

definition prepare :: "site list \<Rightarrow> string \<Rightarrow> (string \<times> string) res" where
  "prepare sites source =
     (let marks = sum_list (map (\<lambda>s. occurrences (mark s) source) sites)
      in if marks \<noteq> 0 then
           if marks \<noteq> length sites \<or> \<not> verified_state sites source then Inl ValueError
           else Inr (source, ''already present'')
         else rbind (apply_sites sites source) (\<lambda>out.
           if \<not> verified_state sites out then Inl ValueError else Inr (out, ''patched'')))"

text \<open>
  The pool-tail patch has one site and a pinned clamp besides: a file that is in the final state is accepted
  without its mark, and a clamp without the anchor is refused.
\<close>

definition kpool_verified :: "string \<Rightarrow> site \<Rightarrow> string \<Rightarrow> bool" where
  "kpool_verified clamp s text \<longleftrightarrow> occurrences (anchor s) text = 0 \<and> occurrences (patched s) text = 1 \<and>
     occurrences (mark s) text = 1 \<and> occurs_in clamp text"

definition kpool_prepare :: "string \<Rightarrow> site \<Rightarrow> string \<Rightarrow> (string \<times> string) res" where
  "kpool_prepare clamp s source =
     (let marker_count = occurrences (mark s) source
      in if marker_count \<noteq> 0 then
           if marker_count \<noteq> 1 \<or> \<not> kpool_verified clamp s source then Inl ValueError else Inr (source, ''already present'')
         else if kpool_verified clamp s source then Inr (source, ''already patched'')
         else if occurrences (anchor s) source \<noteq> 1 then Inl ValueError
         else if occurs_in clamp source then Inl ValueError
         else
           let out = replace_first (anchor s) (patched s) source
           in if \<not> kpool_verified clamp s out then Inl ValueError else Inr (out, ''patched''))"

text \<open>
  \<open>main\<close>: the file is read, prepared, compiled by \<open>compiles\<close> and written only where it changed; nothing is
  written in a preflight. Exit codes and messages are left out: an error is an exception.
\<close>

definition patch_main ::
  "(string \<Rightarrow> bool) \<Rightarrow> (string \<Rightarrow> (string \<times> string) res) \<Rightarrow> bool \<Rightarrow> string option \<Rightarrow> (string option, string) outcome" where
  "patch_main compiles prep preflight_only target = (case target of
       None \<Rightarrow> (Inl FileNotFoundError, target)
     | Some source \<Rightarrow>
         (case prep source of
            Inl e \<Rightarrow> (Inl e, target)
          | Inr (out, action) \<Rightarrow>
              if \<not> compiles out then (Inl ValueError, target)
              else if preflight_only then (Inr action, target)
              else (Inr action, Some out)))"

section \<open>The spin window\<close>

definition only_digits :: "string \<Rightarrow> bool" where
  "only_digits s \<longleftrightarrow> s \<noteq> [] \<and> list_all digit s"

definition parse_spinwait_ms :: "string option \<Rightarrow> nat option res" where
  "parse_spinwait_ms raw = (case raw of
       None \<Rightarrow> Inr None
     | Some r \<Rightarrow>
         if r = ''stock'' then Inr None
         else if \<not> only_digits r then Inl ValueError
         else if 1 \<le> digits_value r \<and> digits_value r \<le> 1000 then Inr (Some (digits_value r))
         else Inl ValueError)"

definition digit_char :: "nat \<Rightarrow> char" where
  "digit_char n = char_of (48 + n mod 10)"

text \<open>\<open>f"0.{milliseconds:03d}".rstrip("0")\<close>.\<close>

definition seconds_literal :: "nat \<Rightarrow> string" where
  "seconds_literal ms =
     (if ms = 1000 then ''1''
      else rev (dropWhile (\<lambda>c. c = CHR ''0'') (rev (''0.'' @ [digit_char (ms div 100), digit_char (ms div 10), digit_char ms]))))"

definition configured_line :: "nat \<Rightarrow> string" where
  "configured_line ms = ''        busy_loop_s: float = '' @ seconds_literal ms @ '','' @ [CHR 0x0A]"

definition STOCK_LINE :: string where
  "STOCK_LINE = ''        busy_loop_s: float = 1,'' @ [CHR 0x0A]"

definition spin_prepare :: "string \<Rightarrow> nat option \<Rightarrow> (string \<times> string) res" where
  "spin_prepare source milliseconds =
     (let stock_count = occurrences STOCK_LINE source
      in case milliseconds of
           None \<Rightarrow> if stock_count \<noteq> 1 then Inl ValueError else Inr (source, ''stock'')
         | Some ms \<Rightarrow>
             let new_line = configured_line ms
             in if new_line = STOCK_LINE then
                  if stock_count \<noteq> 1 then Inl ValueError else Inr (source, ''already stock-equivalent (1000 ms)'')
                else
                  let replacement_count = occurrences new_line source
                  in if stock_count = 1 \<and> replacement_count = 0 then Inr (replace_first STOCK_LINE new_line source, ''patched'')
                     else if stock_count = 0 \<and> replacement_count = 1 then Inr (source, ''already present'')
                     else Inl ValueError)"

section \<open>A patched file stays as it is\<close>

lemma verified_marks: "verified_state sites text \<Longrightarrow> sum_list (map (\<lambda>s. occurrences (mark s) text) sites) = length sites"
  by (induction sites) (simp_all add: verified_state_def site_done_def)

text \<open>
  What a patch makes is verified, and a second run recognises it and leaves it as it is; a file with some of
  the marks only is refused.
\<close>

lemma prepared_text_is_stable:
  assumes "sites \<noteq> []" and "prepare sites source = Inr (out, action)"
  shows "verified_state sites out" and "prepare sites out = Inr (out, ''already present'')"
proof -
  show ok: "verified_state sites out"
    using assms(2) by (auto simp: prepare_def Let_def rbind_Inr_iff split: if_splits)
  then show "prepare sites out = Inr (out, ''already present'')"
    using assms(1) verified_marks[OF ok] by (simp add: prepare_def Let_def)
qed

lemma half_patched_is_refused:
  assumes "sum_list (map (\<lambda>s. occurrences (mark s) source) sites) = k" and "0 < k" and "k < length sites"
  shows "prepare sites source = Inl ValueError"
  using assms by (simp add: prepare_def Let_def)

lemma kpool_text_is_stable:
  assumes "kpool_prepare clamp s source = Inr (out, action)"
  shows "kpool_prepare clamp s out = Inr (out, ''already present'')"
proof -
  have "kpool_verified clamp s out"
    using assms by (auto simp: kpool_prepare_def Let_def split: if_splits)
  then show ?thesis by (simp add: kpool_prepare_def kpool_verified_def)
qed

text \<open>A run of a patch that raises leaves the file as it was.\<close>

lemma failed_patch_changes_nothing: "patch_main compiles prep preflight_only target = (Inl e, target') \<Longrightarrow> target' = target"
  by (auto simp: patch_main_def split: option.splits sum.splits if_splits)

text \<open>The literal that is written denotes the window: its digits after the point, read as thousandths.\<close>

definition thousandths :: "string \<Rightarrow> nat" where
  "thousandths s = (if s = ''1'' then 1000 else digits_value (take 3 (drop 2 s @ ''000'')))"

lemma digit_char_value: "of_char (digit_char n) - 48 = n mod 10"
  by (simp add: digit_char_def of_char_of)

lemma digit_char_zero: "digit_char n = CHR ''0'' \<longleftrightarrow> n mod 10 = 0"
proof -
  have "of_char (digit_char n) = (48 + n mod 10 :: nat)" by (simp add: digit_char_def of_char_of)
  moreover have "of_char (CHR ''0'') = (48 :: nat)" by simp
  ultimately show ?thesis by (metis add_cancel_left_right of_char_eq_iff)
qed

lemma literal_of_digits:
  "digits_value [digit_char a, digit_char b, digit_char c] = (a mod 10) * 100 + (b mod 10) * 10 + c mod 10"
  by (simp add: digits_value_def digit_char_value)

lemma trailing_zeros:
  assumes "x \<noteq> zero \<or> y \<noteq> zero \<or> z \<noteq> zero"
  shows "take 3 (drop 2 (rev (dropWhile (\<lambda>c. c = zero) (rev [p, q, x, y, z]))) @ [zero, zero, zero]) = [x, y, z]"
    and "2 < length (rev (dropWhile (\<lambda>c. c = zero) (rev [p, q, x, y, z])))"
  using assms by (cases "z = zero"; cases "y = zero"; simp)+

lemma seconds_literal_denotes:
  assumes "1 \<le> ms" and "ms \<le> 1000"
  shows "thousandths (seconds_literal ms) = ms"
proof (cases "ms = 1000")
  case True
  then show ?thesis by (simp add: seconds_literal_def thousandths_def)
next
  case False
  have "ms div 100 = ms div 10 div 10" by (simp add: div_mult2_eq[symmetric])
  moreover have "ms div 100 mod 10 = ms div 100" using assms False by simp
  ultimately have digits: "(ms div 100 mod 10) * 100 + (ms div 10 mod 10) * 10 + ms mod 10 = ms"
    using div_mult_mod_eq[of ms 10] div_mult_mod_eq[of "ms div 10" 10] by linarith
  then have "ms div 100 mod 10 \<noteq> 0 \<or> ms div 10 mod 10 \<noteq> 0 \<or> ms mod 10 \<noteq> 0" using assms(1) by (metis add_0 mult_0 not_one_le_zero)
  then have nonzero: "digit_char (ms div 100) \<noteq> CHR ''0'' \<or> digit_char (ms div 10) \<noteq> CHR ''0'' \<or> digit_char ms \<noteq> CHR ''0''"
    by (simp only: digit_char_zero not_False_eq_True)
  have literal: "seconds_literal ms = rev (dropWhile (\<lambda>c. c = CHR ''0'') (rev [CHR ''0'', CHR ''.'', digit_char (ms div 100), digit_char (ms div 10), digit_char ms]))"
    unfolding seconds_literal_def if_not_P[OF False] append_Cons append_Nil ..
  have "length (seconds_literal ms) \<noteq> length ''1''" using trailing_zeros(2)[OF nonzero] unfolding literal by simp
  then have "seconds_literal ms \<noteq> ''1''" by metis
  then show ?thesis
    unfolding thousandths_def by (simp only: if_False literal trailing_zeros(1)[OF nonzero] literal_of_digits digits)
qed

end
