(* ===== verification/Grammar_Backport.thy ===== *)
theory Grammar_Backport
  imports Text_Patches
begin

text \<open>
  The grammar backports (\<open>overlay/patch_xgrammar_termination.py\<close>): the methods that the patch looks for and those
  that it writes in their place, with the matcher of the xgrammar library as an argument, and the patch itself.
\<close>

section \<open>The grammar\<close>

text \<open>
  What the backend uses of a matcher: \<open>accept_token\<close>, which tells whether it took the token, \<open>is_terminated\<close>,
  \<open>rollback\<close> and \<open>reset\<close>.
\<close>

record 'm matcher_ops =
  accept_token :: "nat \<Rightarrow> 'm \<Rightarrow> bool \<times> 'm"
  is_terminated :: "'m \<Rightarrow> bool"
  rollback :: "nat \<Rightarrow> 'm \<Rightarrow> 'm"
  reset_matcher :: "'m \<Rightarrow> 'm"

record 'm grammar =
  matcher :: 'm
  num_processed_tokens :: nat
  terminated :: bool

text \<open>\<open>accept_tokens\<close> of the pinned version: the flag is only read from the matcher after the whole batch.\<close>

fun accept_old_loop :: "'m matcher_ops \<Rightarrow> nat list \<Rightarrow> 'm grammar \<Rightarrow> bool \<times> 'm grammar" where
  "accept_old_loop ops [] g = (True, g\<lparr>terminated := is_terminated ops (matcher g)\<rparr>)"
| "accept_old_loop ops (t # tokens) g = (case accept_token ops t (matcher g) of
     (False, m) \<Rightarrow> (False, g\<lparr>matcher := m\<rparr>)
   | (True, m) \<Rightarrow> accept_old_loop ops tokens (g\<lparr>matcher := m, num_processed_tokens := Suc (num_processed_tokens g)\<rparr>))"

definition accept_tokens_old :: "'m matcher_ops \<Rightarrow> nat list \<Rightarrow> 'm grammar \<Rightarrow> bool \<times> 'm grammar" where
  "accept_tokens_old ops tokens g = (if terminated g then (False, g) else accept_old_loop ops tokens g)"

text \<open>The backport reads it after every token and stops there.\<close>

definition advanced :: "'m matcher_ops \<Rightarrow> 'm \<Rightarrow> 'm grammar \<Rightarrow> 'm grammar" where
  "advanced ops m g = g\<lparr>matcher := m, num_processed_tokens := Suc (num_processed_tokens g), terminated := is_terminated ops m\<rparr>"

fun accept_loop :: "'m matcher_ops \<Rightarrow> nat list \<Rightarrow> 'm grammar \<Rightarrow> bool \<times> 'm grammar" where
  "accept_loop ops [] g = (True, g)"
| "accept_loop ops (t # tokens) g = (case accept_token ops t (matcher g) of
     (False, m) \<Rightarrow> (False, g\<lparr>matcher := m\<rparr>)
   | (True, m) \<Rightarrow>
       if terminated (advanced ops m g) then (True, advanced ops m g) else accept_loop ops tokens (advanced ops m g))"

definition accept_tokens :: "'m matcher_ops \<Rightarrow> nat list \<Rightarrow> 'm grammar \<Rightarrow> bool \<times> 'm grammar" where
  "accept_tokens ops tokens g = (if terminated g then (True, g) else accept_loop ops tokens g)"

text \<open>\<open>validate_tokens\<close>: the tokens that the matcher takes, which is rolled back afterwards.\<close>

fun validate_old_loop :: "'m matcher_ops \<Rightarrow> nat list \<Rightarrow> 'm \<Rightarrow> nat list \<times> 'm" where
  "validate_old_loop ops [] m = ([], m)"
| "validate_old_loop ops (t # tokens) m = (case accept_token ops t m of
     (False, m') \<Rightarrow> ([], m')
   | (True, m') \<Rightarrow> (let (accepted, m'') = validate_old_loop ops tokens m' in (t # accepted, m'')))"

fun validate_loop :: "'m matcher_ops \<Rightarrow> nat list \<Rightarrow> 'm \<Rightarrow> nat list \<times> 'm" where
  "validate_loop ops [] m = ([], m)"
| "validate_loop ops (t # tokens) m = (case accept_token ops t m of
     (False, m') \<Rightarrow> ([], m')
   | (True, m') \<Rightarrow>
       if is_terminated ops m' then ([t], m')
       else (let (accepted, m'') = validate_loop ops tokens m' in (t # accepted, m'')))"

definition rolled_back :: "'m matcher_ops \<Rightarrow> nat list \<times> 'm \<Rightarrow> 'm grammar \<Rightarrow> nat list \<times> 'm grammar" where
  "rolled_back ops result g = (case result of (accepted, m) \<Rightarrow>
     (accepted, g\<lparr>matcher := (if length accepted > 0 then rollback ops (length accepted) m else m)\<rparr>))"

definition validate_tokens_old :: "'m matcher_ops \<Rightarrow> nat list \<Rightarrow> 'm grammar \<Rightarrow> nat list \<times> 'm grammar" where
  "validate_tokens_old ops tokens g = rolled_back ops (validate_old_loop ops tokens (matcher g)) g"

definition validate_tokens :: "'m matcher_ops \<Rightarrow> nat list \<Rightarrow> 'm grammar \<Rightarrow> nat list \<times> 'm grammar" where
  "validate_tokens ops tokens g = (if terminated g then ([], g) else rolled_back ops (validate_loop ops tokens (matcher g)) g)"

definition reset_old :: "'m matcher_ops \<Rightarrow> 'm grammar \<Rightarrow> 'm grammar" where
  "reset_old ops g = g\<lparr>num_processed_tokens := 0, matcher := reset_matcher ops (matcher g)\<rparr>"

definition reset_grammar :: "'m matcher_ops \<Rightarrow> 'm grammar \<Rightarrow> 'm grammar" where
  "reset_grammar ops g = g\<lparr>matcher := reset_matcher ops (matcher g), num_processed_tokens := 0, terminated := False\<rparr>"

text \<open>
  One step of the manager over a speculative window: the grammar and the number of state advancements;
  a rejected token is an error but after the end of a reasoning part.
\<close>

definition count_advancement :: "bool \<Rightarrow> bool \<Rightarrow> nat \<Rightarrow> nat res" where
  "count_advancement accepted post_reasoning_end n =
     (if accepted then Inr (Suc n) else if \<not> post_reasoning_end then Inl AssertionError else Inr n)"

definition manager_step_old :: "'m matcher_ops \<Rightarrow> bool \<Rightarrow> bool \<Rightarrow> nat \<Rightarrow> 'm grammar \<Rightarrow> nat \<Rightarrow> ('m grammar, nat) outcome" where
  "manager_step_old ops advance_grammar post_reasoning_end token g n =
     (if advance_grammar \<and> \<not> terminated g then
        (case accept_tokens_old ops [token] g of (accepted, g') \<Rightarrow> (count_advancement accepted post_reasoning_end n, g'))
      else (Inr n, g))"

definition manager_step :: "'m matcher_ops \<Rightarrow> bool \<Rightarrow> bool \<Rightarrow> nat \<Rightarrow> 'm grammar \<Rightarrow> nat \<Rightarrow> ('m grammar, nat) outcome" where
  "manager_step ops advance_grammar post_reasoning_end token g n =
     (if advance_grammar \<and> \<not> terminated g then
        (if post_reasoning_end then
           (case validate_tokens ops [token] g of (valid, g') \<Rightarrow>
              if valid \<noteq> [] then
                (case accept_tokens ops [token] g' of (accepted, g'') \<Rightarrow> (count_advancement accepted post_reasoning_end n, g''))
              else (count_advancement False post_reasoning_end n, g'))
         else
           (case accept_tokens ops [token] g of (accepted, g') \<Rightarrow> (count_advancement accepted post_reasoning_end n, g')))
      else (Inr n, g))"

section \<open>The patch\<close>

text \<open>
  The backend has three sites and one mark, in front of the first; a file without the mark that has all three
  new texts is accepted as upstream's.
\<close>

definition backend_counts :: "(string \<times> string) list \<Rightarrow> string \<Rightarrow> nat list \<times> nat list" where
  "backend_counts sites text = (map (\<lambda>(old, new). occurrences old text) sites, map (\<lambda>(old, new). occurrences new text) sites)"

definition verified_backend_state :: "(string \<times> string) list \<Rightarrow> string \<Rightarrow> bool" where
  "verified_backend_state sites text \<longleftrightarrow> backend_counts sites text = (map (\<lambda>s. 0) sites, map (\<lambda>s. 1) sites)"

fun replace_sites :: "(string \<times> string) list \<Rightarrow> string \<Rightarrow> string" where
  "replace_sites [] text = text"
| "replace_sites ((old, new) # sites) text = replace_sites sites (replace_first old new text)"

definition marked :: "string \<Rightarrow> (string \<times> string) list \<Rightarrow> (string \<times> string) list" where
  "marked mk sites = (case sites of [] \<Rightarrow> [] | (old, new) # rest \<Rightarrow> (old, mk @ new) # rest)"

definition prepare_backend :: "string \<Rightarrow> (string \<times> string) list \<Rightarrow> string \<Rightarrow> (string \<times> string) res" where
  "prepare_backend mk sites source =
     (let marker_count = occurrences mk source
      in if marker_count \<noteq> 0 then
           if marker_count \<noteq> 1 \<or> \<not> verified_backend_state sites source then Inl ValueError else Inr (source, ''already present'')
         else if verified_backend_state sites source then Inr (source, ''already upstream'')
         else if backend_counts sites source \<noteq> (map (\<lambda>s. 1) sites, map (\<lambda>s. 0) sites) then Inl ValueError
         else
           let out = replace_sites (marked mk sites) source
           in if \<not> verified_backend_state sites out \<or> occurrences mk out \<noteq> 1 then Inl ValueError else Inr (out, ''patched''))"

text \<open>Both files are prepared and compiled before either is written.\<close>

definition backport_main ::
  "(string \<Rightarrow> bool) \<Rightarrow> (string \<Rightarrow> (string \<times> string) res) \<Rightarrow> (string \<Rightarrow> (string \<times> string) res) \<Rightarrow>
   string option \<times> string option \<Rightarrow> (string option \<times> string option, string \<times> string) outcome" where
  "backport_main compiles prep_backend prep_manager files = (case files of
       (Some backend, Some manager) \<Rightarrow>
         (case rbind (prep_backend backend) (\<lambda>b. rbind (prep_manager manager) (\<lambda>m. Inr (b, m))) of
            Inl e \<Rightarrow> (Inl e, files)
          | Inr ((backend', action), (manager', action')) \<Rightarrow>
              if \<not> compiles backend' then (Inl ValueError, files)
              else if \<not> compiles manager' then (Inl ValueError, files)
              else (Inr (action, action'), (Some backend', Some manager')))
     | _ \<Rightarrow> (Inl FileNotFoundError, files))"

section \<open>What a matcher promises\<close>

text \<open>
  A rejected token leaves the matcher as it was, and rolling back as many tokens as were accepted restores it.
\<close>

fun accepts_all :: "'m matcher_ops \<Rightarrow> nat list \<Rightarrow> 'm \<Rightarrow> 'm option" where
  "accepts_all ops [] m = Some m"
| "accepts_all ops (t # tokens) m = (case accept_token ops t m of (False, _) \<Rightarrow> None | (True, m') \<Rightarrow> accepts_all ops tokens m')"

definition matcher_ok :: "'m matcher_ops \<Rightarrow> bool" where
  "matcher_ok ops \<longleftrightarrow> (\<forall>t m m'. accept_token ops t m = (False, m') \<longrightarrow> m' = m) \<and>
     (\<forall>tokens m m'. accepts_all ops tokens m = Some m' \<longrightarrow> rollback ops (length tokens) m' = m)"

text \<open>The flag is what the matcher says.\<close>

definition in_step :: "'m matcher_ops \<Rightarrow> 'm grammar \<Rightarrow> bool" where
  "in_step ops g \<longleftrightarrow> terminated g = is_terminated ops (matcher g)"

lemma matcher_okD:
  assumes "matcher_ok ops"
  shows "accept_token ops t m = (False, m') \<Longrightarrow> m' = m"
    and "accepts_all ops tokens m = Some m' \<Longrightarrow> rollback ops (length tokens) m' = m"
  using assms by (auto simp: matcher_ok_def)

lemma accepts_all_append:
  "accepts_all ops (xs @ ys) m = (case accepts_all ops xs m of None \<Rightarrow> None | Some m' \<Rightarrow> accepts_all ops ys m')"
  by (induction xs arbitrary: m) (auto split: prod.split bool.split)

section \<open>The flag and the batches\<close>

lemma advanced_simps [simp]:
  "matcher (advanced ops m g) = m" "terminated (advanced ops m g) = is_terminated ops m"
  "num_processed_tokens (advanced ops m g) = Suc (num_processed_tokens g)" "in_step ops (advanced ops m g)"
  by (simp_all add: advanced_def in_step_def)

lemma accept_loop_in_step:
  assumes "matcher_ok ops"
  shows "in_step ops g \<Longrightarrow> accept_loop ops tokens g = (ok, g') \<Longrightarrow> in_step ops g'"
proof (induction tokens arbitrary: g)
  case (Cons t tokens)
  obtain taken m where t: "accept_token ops t (matcher g) = (taken, m)" by (cases "accept_token ops t (matcher g)")
  show ?case
  proof (cases taken)
    case True
    then show ?thesis using Cons.prems(2) Cons.IH[of "advanced ops m g"] t by (auto split: if_splits)
  next
    case False
    then show ?thesis using Cons.prems matcher_okD(1)[OF assms, of t "matcher g" m] t by (auto simp: in_step_def)
  qed
qed simp

lemma accept_loop_append:
  "accept_loop ops (xs @ ys) g = (case accept_loop ops xs g of
     (False, g') \<Rightarrow> (False, g')
   | (True, g') \<Rightarrow> if xs \<noteq> [] \<and> terminated g' then (True, g') else accept_loop ops ys g')"
proof (induction xs arbitrary: g)
  case (Cons t xs)
  obtain taken m where t: "accept_token ops t (matcher g) = (taken, m)" by (cases "accept_token ops t (matcher g)")
  show ?case
  proof (cases "taken \<and> \<not> is_terminated ops m")
    case True
    then have "accept_loop ops ((t # xs) @ ys) g = accept_loop ops (xs @ ys) (advanced ops m g)"
      and step: "accept_loop ops (t # xs) g = accept_loop ops xs (advanced ops m g)" using t by simp_all
    then show ?thesis using Cons.IH[of "advanced ops m g"] True
      by (cases xs) (simp_all only: step accept_loop.simps prod.case bool.case advanced_simps append_Nil simp_thms if_False list.distinct(2) not_False_eq_True)
  next
    case False
    then show ?thesis using t by (cases taken) simp_all
  qed
qed simp


text \<open>A matcher of one string: it takes the tokens of the string in order and ends with the last of them.\<close>

definition string_matcher :: "nat list \<Rightarrow> nat matcher_ops" where
  "string_matcher word = \<lparr>accept_token = (\<lambda>t k. if k < length word \<and> word ! k = t then (True, Suc k) else (False, k)),
     is_terminated = (\<lambda>k. length word \<le> k), rollback = (\<lambda>n k. k - n), reset_matcher = (\<lambda>k. 0)\<rparr>"

lemma string_matcher_ok: "matcher_ok (string_matcher word)"
proof -
  have "m' = m + length tokens" if "accepts_all (string_matcher word) tokens m = Some m'" for tokens m m'
    using that
  proof (induction tokens arbitrary: m)
    case (Cons t tokens)
    have "accepts_all (string_matcher word) tokens (Suc m) = Some m'"
      using Cons.prems by (simp add: string_matcher_def split: if_splits)
    then show ?case using Cons.IH[of "Suc m"] by simp
  qed simp
  then show ?thesis by (fastforce simp: matcher_ok_def string_matcher_def split: if_splits)
qed


text \<open>The pinned version fails on the token after the end, and leaves the flag behind the matcher.\<close>

lemma trailing_token_fails_before_the_backport:
  "accept_tokens_old (string_matcher [5]) [5, 9] \<lparr>matcher = 0, num_processed_tokens = 0, terminated = False\<rparr> =
   (False, \<lparr>matcher = 1, num_processed_tokens = 1, terminated = False\<rparr>)"
  by (simp add: accept_tokens_old_def string_matcher_def)

section \<open>Validation\<close>

lemma validate_loop_accepts:
  assumes "matcher_ok ops"
  shows "validate_loop ops tokens m = (accepted, m') \<Longrightarrow> accepts_all ops accepted m = Some m'"
proof (induction tokens arbitrary: m accepted)
  case (Cons t tokens)
  then show ?case
    using matcher_okD(1)[OF assms] by (fastforce split: prod.splits bool.splits if_splits)
qed simp

lemma validate_tokens_keeps:
  assumes "matcher_ok ops"
  shows "snd (validate_tokens ops tokens g) = g"
proof -
  obtain accepted m where v: "validate_loop ops tokens (matcher g) = (accepted, m)" by (cases "validate_loop ops tokens (matcher g)")
  have "accepts_all ops accepted (matcher g) = Some m" by (rule validate_loop_accepts[OF assms v])
  then have "rollback ops (length accepted) m = matcher g" and "accepted = [] \<Longrightarrow> m = matcher g"
    using matcher_okD(2)[OF assms] by auto
  then show ?thesis by (auto simp: validate_tokens_def rolled_back_def v)
qed

lemma validate_is_accept:
  "accept_loop ops tokens g = (ok, g') \<Longrightarrow> validate_loop ops tokens (matcher g) = (accepted, m) \<Longrightarrow>
   num_processed_tokens g' = num_processed_tokens g + length accepted"
proof (induction tokens arbitrary: g accepted)
  case (Cons t tokens)
  obtain taken m1 where t: "accept_token ops t (matcher g) = (taken, m1)" by (cases "accept_token ops t (matcher g)")
  show ?case
  proof (cases "taken \<and> \<not> is_terminated ops m1")
    case True
    obtain rest where "validate_loop ops tokens (matcher (advanced ops m1 g)) = (rest, m)" and "accepted = t # rest"
      using Cons.prems(2) t True by (auto split: prod.splits)
    moreover have "accept_loop ops tokens (advanced ops m1 g) = (ok, g')" using Cons.prems(1) t True by simp
    ultimately show ?thesis using Cons.IH[of "advanced ops m1 g" rest] by simp
  next
    case False
    then show ?thesis using Cons.prems t by (cases taken) auto
  qed
qed simp

text \<open>
  After a reasoning part ends inside a window, a draft that the grammar refuses is dropped without an attempt
  to advance on it: the step leaves the grammar as it was and counts nothing.
\<close>

lemma refused_drafts_are_dropped:
  assumes "matcher_ok ops" and "fst (accept_token ops token (matcher g)) = False" and "\<not> terminated g"
  shows "manager_step ops True True token g n = (Inr n, g)"
proof -
  have "fst (validate_tokens ops [token] g) = []"
    using assms(2,3) by (auto simp: validate_tokens_def rolled_back_def split: prod.splits)
  moreover have "snd (validate_tokens ops [token] g) = g" by (rule validate_tokens_keeps[OF assms(1)])
  ultimately have "validate_tokens ops [token] g = ([], g)" by (simp add: prod_eq_iff)
  then show ?thesis using assms(3) by (simp add: manager_step_def count_advancement_def)
qed

text \<open>A reset after the end makes the grammar usable again; before the backport the flag stayed set.\<close>

lemma reset_in_step: "\<not> is_terminated ops (reset_matcher ops (matcher g)) \<Longrightarrow> in_step ops (reset_grammar ops g)"
  by (simp add: in_step_def reset_grammar_def)

lemma reset_old_keeps_the_flag: "terminated (reset_old ops g) = terminated g"
  by (simp add: reset_old_def)

lemma backend_text_is_stable:
  assumes "prepare_backend mk sites source = Inr (out, action)" and "action \<noteq> ''already upstream''"
  shows "prepare_backend mk sites out = Inr (out, ''already present'')"
  using assms by (auto simp: prepare_backend_def Let_def split: if_splits)

lemma failed_backport_writes_neither: "backport_main compiles pb pm files = (Inl e, files') \<Longrightarrow> files' = files"
  by (auto simp: backport_main_def split: prod.splits option.splits sum.splits if_splits)

end
