(* ===== verification/Overlay_Rules.thy ===== *)
theory Overlay_Rules
  imports Text_Patches
begin

text \<open>
  Rules that the GLM overlay writes into vLLM: the pages of the draft model's layers
  (\<open>overlay/patch_glm5_drafter_group.py\<close>), the slots of the pool's tail
  (\<open>overlay/patch_kpool_tail_slotmap.py\<close>) and the share of a step that a prefill gets beside a decode
  (\<open>overlay/patch_scheduler_decode_floor.py\<close>).
\<close>

section \<open>The drafter's pages\<close>

text \<open>
  A sliding-window spec of the draft model: its block and its padding. \<open>page_size_bytes\<close> is a property of
  vLLM's class and an argument, \<open>page\<close>.
\<close>

record swa_spec =
  block_size :: int
  page_size_padded :: "int option"

definition fit_block :: "int \<Rightarrow> int \<Rightarrow> int res" where
  "fit_block mla_page draft_bytes =
     rbind (py_mod mla_page draft_bytes) (\<lambda>rest. if rest = 0 then py_div mla_page draft_bytes else Inr 0)"

text \<open>The test short-circuits: a fit of zero is never divided by.\<close>

definition exact_fit :: "int \<Rightarrow> int \<Rightarrow> nat \<Rightarrow> nat \<Rightarrow> bool res" where
  "exact_fit fit mla_block num_drafts num_mla =
     (if fit = 0 \<or> fit mod 64 \<noteq> 0 then Inr False
      else rbind (py_mod fit mla_block) (\<lambda>rest.
        Inr ((rest = 0 \<or> mla_block mod fit = 0) \<and> num_drafts \<le> num_mla)))"

definition plan_drafts :: "(swa_spec \<Rightarrow> int) \<Rightarrow> int \<Rightarrow> int \<Rightarrow> nat \<Rightarrow> (string, swa_spec) dict \<Rightarrow> (string, swa_spec) dict res" where
  "plan_drafts page mla_page mla_block num_mla draft_specs = (case draft_specs of
       [] \<Rightarrow> Inr []
     | (name, any_draft) # _ \<Rightarrow>
         rbind (rassert (list_all (\<lambda>(n, s). s = any_draft) draft_specs)) (\<lambda>_.
         rbind (py_div (page any_draft) (block_size any_draft)) (\<lambda>draft_bytes.
         rbind (fit_block mla_page draft_bytes) (\<lambda>fit.
         rbind (exact_fit fit mla_block (length draft_specs) num_mla) (\<lambda>exact.
           Inr (map (\<lambda>(n, s). (n, if exact then s\<lparr>block_size := fit\<rparr> else s\<lparr>block_size := 64, page_size_padded := Some mla_page\<rparr>))
             draft_specs))))))"

text \<open>
  The layout's checks: None where it refuses the drafter (the model then leaves the fast path), otherwise
  whether the drafter shares the tensors of the main layers.
\<close>

definition draft_layout :: "(swa_spec \<Rightarrow> int) \<Rightarrow> int \<Rightarrow> nat \<Rightarrow> (string, swa_spec) dict \<Rightarrow> bool option" where
  "draft_layout page mla_page num_mla drafts =
     (let pages = remdups (map (page \<circ> snd) drafts)
      in case pages of
           [draft_page] \<Rightarrow>
             if list_ex (\<lambda>(n, s). page_size_padded s \<noteq> None) drafts \<and>
                list_ex (\<lambda>(n, s). block_size s \<noteq> 64 \<or> page_size_padded s \<noteq> Some mla_page) drafts then None
             else if draft_page = mla_page \<and> length drafts > num_mla then None
             else Some (draft_page = mla_page)
         | _ \<Rightarrow> None)"

text \<open>
  The bytes of one block id, and the tensors: the names that share each of the main layers' tensors, and the
  tensors of a drafter that stands alone.
\<close>

definition pool_bytes_per_block :: "nat \<Rightarrow> int \<Rightarrow> nat \<Rightarrow> int \<Rightarrow> (nat \<times> int) option \<Rightarrow> int" where
  "pool_bytes_per_block num_mla mla_page num_idx idx_page draft =
     (let per_block = int num_mla * mla_page + int num_idx * idx_page
      in case draft of
           None \<Rightarrow> per_block
         | Some (num_drafts, draft_page) \<Rightarrow> if draft_page \<noteq> mla_page then per_block + int num_drafts * draft_page else per_block)"

definition mla_shared_by :: "bool \<Rightarrow> string list \<Rightarrow> string list list \<Rightarrow> string list \<Rightarrow> string list list" where
  "mla_shared_by draft_shared mla_names mamba_groups draft_names =
     map (\<lambda>i. [mla_names ! i] @ concat (map (\<lambda>g. if i < length g then [g ! i] else []) mamba_groups) @
        (if draft_shared \<and> i < length draft_names then [draft_names ! i] else [])) [0 ..< length mla_names]"

definition standalone_tensors :: "bool \<Rightarrow> string list \<Rightarrow> string list list" where
  "standalone_tensors draft_shared draft_names = map (\<lambda>n. [n]) (if draft_shared then [] else draft_names)"

text \<open>The memory of one request: \<open>blocks\<close> ids of the other groups, a tail of one, and the drafter's window.\<close>

definition glm5_memory :: "int \<Rightarrow> bool \<Rightarrow> int \<Rightarrow> (nat \<times> int \<times> int) option \<Rightarrow> int \<Rightarrow> int" where
  "glm5_memory blocks has_tail per_block draft mla_page =
     (let blocks_needed = (if has_tail then blocks + 1 else blocks)
      in case draft of
           None \<Rightarrow> blocks_needed * per_block
         | Some (num_drafts, draft_page, draft_pages) \<Rightarrow>
             (blocks_needed + draft_pages) * (if draft_page \<noteq> mla_page then per_block + int num_drafts * draft_page else per_block))"

text \<open>What vLLM documents of the page: the padding where there is one, otherwise the block's tokens.\<close>

definition swa_pages :: "int \<Rightarrow> (swa_spec \<Rightarrow> int) \<Rightarrow> bool" where
  "swa_pages token_bytes page \<longleftrightarrow>
     (\<forall>s. page s = (case page_size_padded s of None \<Rightarrow> block_size s * token_bytes | Some p \<Rightarrow> p))"

lemma remdups_const: "xs \<noteq> [] \<Longrightarrow> (\<And>x. x \<in> set xs \<Longrightarrow> x = c) \<Longrightarrow> remdups xs = [c]"
proof (induction xs)
  case (Cons x xs)
  have x: "x = c" using Cons.prems(2) by simp
  show ?case
  proof (cases xs)
    case Nil
    then show ?thesis using x by simp
  next
    case (Cons y ys)
    then have "c \<in> set xs" using Cons.prems(2)[of y] by simp
    moreover have "remdups xs = [c]" by (rule Cons.IH) (use Cons Cons.prems(2) in auto)
    ultimately show ?thesis using x by simp
  qed
qed simp

lemma plan_drafts_pages:
  assumes pages: "swa_pages token_bytes page" and plan: "plan_drafts page mla_page mla_block num_mla drafts = Inr planned"
    and plain: "\<And>n s. (n, s) \<in> set drafts \<Longrightarrow> page_size_padded s = None \<and> block_size s \<noteq> 0"
  shows "length planned = length drafts" and "map fst planned = map fst drafts"
    and "\<And>n s. (n, s) \<in> set planned \<Longrightarrow> page s = mla_page \<and>
      (page_size_padded s = None \<and> length drafts \<le> num_mla \<or> page_size_padded s = Some mla_page \<and> block_size s = 64)"
proof -
  have "length planned = length drafts \<and> map fst planned = map fst drafts \<and> (\<forall>n s. (n, s) \<in> set planned \<longrightarrow> page s = mla_page \<and>
      (page_size_padded s = None \<and> length drafts \<le> num_mla \<or> page_size_padded s = Some mla_page \<and> block_size s = 64))"
  proof (cases drafts)
    case Nil
    then show ?thesis using plan by (simp add: plan_drafts_def)
  next
    case (Cons d ds)
    obtain name any_draft where d: "d = (name, any_draft)" by (cases d)
    have any: "page_size_padded any_draft = None" "block_size any_draft \<noteq> 0" using plain[of name any_draft] Cons d by auto
    obtain fit exact where fit: "fit_block mla_page token_bytes = Inr fit"
      and exact: "exact_fit fit mla_block (length drafts) num_mla = Inr exact"
      and planned: "planned = map (\<lambda>(n, s). (n, if exact then s\<lparr>block_size := fit\<rparr> else s\<lparr>block_size := 64, page_size_padded := Some mla_page\<rparr>)) drafts"
      using plan any pages by (auto simp: plan_drafts_def Cons d rbind_Inr_iff py_div_def swa_pages_def)
    have "fit * token_bytes = mla_page" if "exact"
    proof -
      have "fit \<noteq> 0" using exact that by (auto simp: exact_fit_def split: if_splits)
      then show ?thesis using fit by (auto simp: fit_block_def rbind_Inr_iff py_mod_def py_div_def split: if_splits)
    qed
    moreover have "length drafts \<le> num_mla" if "exact"
      using exact that by (auto simp: exact_fit_def rbind_Inr_iff split: if_splits)
    ultimately show ?thesis using pages plain
      by (auto simp: planned swa_pages_def split: if_splits)
  qed
  then show "length planned = length drafts" and "map fst planned = map fst drafts"
    and "\<And>n s. (n, s) \<in> set planned \<Longrightarrow> page s = mla_page \<and>
      (page_size_padded s = None \<and> length drafts \<le> num_mla \<or> page_size_padded s = Some mla_page \<and> block_size s = 64)"
    by blast+
qed

text \<open>
  C40. The drafter's layers share the tensors of the main layers wherever the layout accepts them, and it accepts
  them where there are no more of them than main layers: the tensors of their own that the patch announces for
  more layers are never made, and such a model leaves the fast path.
\<close>

theorem drafter_never_stands_alone:
  assumes "swa_pages token_bytes page" and "plan_drafts page mla_page mla_block num_mla drafts = Inr planned"
    and "\<And>n s. (n, s) \<in> set drafts \<Longrightarrow> page_size_padded s = None \<and> block_size s \<noteq> 0" and "drafts \<noteq> []"
  shows "draft_layout page mla_page num_mla planned = (if length drafts \<le> num_mla then Some True else None)"
proof -
  note planned = plan_drafts_pages[OF assms(1,2,3)]
  have nonempty: "planned \<noteq> []" using planned(1) assms(4) by auto
  have one: "remdups (map (page \<circ> snd) planned) = [mla_page]"
    by (rule remdups_const) (use nonempty planned(3) in auto)
  show ?thesis
  proof (cases "length drafts \<le> num_mla")
    case True
    have "plan_drafts page mla_page mla_block num_mla drafts = Inr planned" by (rule assms(2))
    then obtain exact fit where shape: "planned = map (\<lambda>(n, s). (n, if exact then s\<lparr>block_size := fit\<rparr> else s\<lparr>block_size := 64, page_size_padded := Some mla_page\<rparr>)) drafts"
      using assms(4) by (cases drafts) (auto simp: plan_drafts_def rbind_Inr_iff split: prod.splits)
    have "\<not> (list_ex (\<lambda>(n, s). page_size_padded s \<noteq> None) planned \<and>
        list_ex (\<lambda>(n, s). block_size s \<noteq> 64 \<or> page_size_padded s \<noteq> Some mla_page) planned)"
      using assms(3) by (cases exact) (auto simp: shape list_ex_iff)
    then show ?thesis using True planned(1) by (simp add: draft_layout_def one)
  next
    case False
    then show ?thesis using planned(1) by (simp add: draft_layout_def one)
  qed
qed

definition demo_page :: "swa_spec \<Rightarrow> int" where
  "demo_page s = (case page_size_padded s of None \<Rightarrow> block_size s * 4096 | Some p \<Rightarrow> p)"

definition demo_drafts :: "(string, swa_spec) dict" where
  "demo_drafts = map (\<lambda>n. (n, \<lparr>block_size = 2304, page_size_padded = None\<rparr>)) [''d0'', ''d1'']"

definition demo_planned :: "(string, swa_spec) dict" where
  "demo_planned = map (\<lambda>n. (n, \<lparr>block_size = 64, page_size_padded = Some 2351104\<rparr>)) [''d0'', ''d1'']"

theorem drafter_never_stands_alone_witness:
  "draft_layout demo_page 2351104 1 demo_planned = None"
proof -
  have pages: "swa_pages 4096 demo_page" by (simp add: swa_pages_def demo_page_def)
  have plan: "plan_drafts demo_page 2351104 3584 1 demo_drafts = Inr demo_planned"
    by (simp add: plan_drafts_def demo_drafts_def demo_planned_def demo_page_def fit_block_def exact_fit_def py_div_def py_mod_def rassert_def)
  have plain: "page_size_padded s = None \<and> block_size s \<noteq> 0" if "(n, s) \<in> set demo_drafts" for n s
    using that by (auto simp: demo_drafts_def)
  from drafter_never_stands_alone[OF pages plan plain] show ?thesis by (simp add: demo_drafts_def)
qed

text \<open>Where they share, each draft layer is in the tensor of its number, once, and no block costs more.\<close>

lemma shared_draft_layers:
  assumes "length draft_names \<le> length mla_names" and "i < length draft_names"
  shows "mla_shared_by True mla_names mamba_groups draft_names ! i =
    [mla_names ! i] @ concat (map (\<lambda>g. if i < length g then [g ! i] else []) mamba_groups) @ [draft_names ! i]"
proof -
  have i: "i < length mla_names" using assms by simp
  then have nth: "[0 ..< length mla_names] ! i = i" using nth_upt[of 0 i "length mla_names"] by simp
  show ?thesis using assms i by (simp add: mla_shared_by_def nth cong: if_cong)
qed

lemma shared_drafter_is_free: "pool_bytes_per_block a mla_page b idx_page (Some (n, mla_page)) = pool_bytes_per_block a mla_page b idx_page None"
  by (simp add: pool_bytes_per_block_def)

section \<open>The tail's slots\<close>

text \<open>Positions are token positions; \<open>clamp\<close> is whether the patch is there.\<close>

definition count_overruns :: "nat list \<Rightarrow> int \<Rightarrow> int \<Rightarrow> nat res" where
  "count_overruns positions block stride_len =
     (if block < 1 \<or> stride_len < 1 then Inl ValueError
      else Inr (length (filter (\<lambda>pos. int pos div block \<ge> stride_len) positions)))"

definition slot_id :: "nat list \<Rightarrow> nat \<Rightarrow> bool \<Rightarrow> nat \<Rightarrow> nat res" where
  "slot_id row block clamp pos =
     (if block = 0 then Inl ZeroDivisionError
      else
        let idx = pos div block; idx' = (if clamp then min idx (length row - 1) else idx)
        in if \<not> clamp \<and> idx \<ge> length row then Inl IndexError else Inr (row ! idx' * block + pos mod block))"

definition circular_slot_ids :: "nat list \<Rightarrow> nat list \<Rightarrow> nat \<Rightarrow> bool \<Rightarrow> nat list res" where
  "circular_slot_ids positions row block clamp = (if row = [] then Inl ValueError else rmap (slot_id row block clamp) positions)"

text \<open>
  The clamp keeps every slot inside a block of the request's row, changes nothing where the row was long
  enough, and makes a row of one entry circular.
\<close>

lemma clamped_slots_in_row:
  assumes "circular_slot_ids positions row block True = Inr slots" and "slot \<in> set slots"
  obtains b where "b \<in> set row" and "b * block \<le> slot" and "slot < b * block + block"
proof -
  obtain pos where "slot_id row block True pos = Inr slot"
    using assms by (auto simp: circular_slot_ids_def rmap_Inr_iff list_all2_conv_all_nth in_set_conv_nth split: if_splits)
  then have block: "0 < block" and slot: "slot = row ! min (pos div block) (length row - 1) * block + pos mod block"
    by (auto simp: slot_id_def Let_def split: if_splits)
  have "row \<noteq> []" using assms(1) by (auto simp: circular_slot_ids_def split: if_splits)
  then have "min (pos div block) (length row - 1) < length row" by (cases row) auto
  then show ?thesis using that[of "row ! min (pos div block) (length row - 1)"] slot block by simp
qed

lemma clamp_is_identity_in_range:
  "circular_slot_ids positions row block False = Inr slots \<Longrightarrow> circular_slot_ids positions row block True = Inr slots"
  by (auto simp: circular_slot_ids_def rmap_Inr_iff slot_id_def Let_def min_def split: if_splits elim!: list_all2_mono)

lemma one_entry_is_circular:
  "0 < block \<Longrightarrow> circular_slot_ids positions [b] block True = Inr (map (\<lambda>pos. b * block + pos mod block) positions)"
  by (simp add: circular_slot_ids_def slot_id_def[abs_def])

section \<open>Prefill beside decode\<close>

record sched_request =
  request_id :: string
  num_computed_tokens :: int
  num_prompt_tokens :: int

definition mixed_prefill_cap :: "string option \<Rightarrow> int option" where
  "mixed_prefill_cap env =
     (let raw = lower (strip (case env of None \<Rightarrow> ''skip'' | Some v \<Rightarrow> v))
      in if raw \<in> {''0'', ''off'', ''no''} then None
         else if raw \<in> {''skip'', ''-1''} then Some 0
         else
           let cap = (case py_int raw of Inl e \<Rightarrow> 0 | Inr n \<Rightarrow> n)
           in if cap \<le> 0 then None else Some cap)"

definition mixed_prefill_policy :: "string option \<Rightarrow> sched_request list \<Rightarrow> sched_request \<Rightarrow> int option" where
  "mixed_prefill_policy env running current = (case mixed_prefill_cap env of
       None \<Rightarrow> None
     | Some cap \<Rightarrow>
         if list_ex (\<lambda>r. request_id r \<noteq> request_id current \<and> num_computed_tokens r \<ge> num_prompt_tokens r) running
         then Some cap else None)"

text \<open>The tokens of a running request after the policy, and of a waiting one, None where it is put back.\<close>

definition running_tokens :: "string option \<Rightarrow> sched_request list \<Rightarrow> sched_request \<Rightarrow> int \<Rightarrow> int" where
  "running_tokens env running request num_new_tokens = (case mixed_prefill_policy env running request of
       None \<Rightarrow> num_new_tokens
     | Some cap \<Rightarrow> if num_computed_tokens request < num_prompt_tokens request then min num_new_tokens cap else num_new_tokens)"

definition waiting_tokens :: "string option \<Rightarrow> sched_request list \<Rightarrow> sched_request \<Rightarrow> int \<Rightarrow> int \<Rightarrow> int option" where
  "waiting_tokens env running request num_computed num_new_tokens = (case mixed_prefill_policy env running request of
       None \<Rightarrow> Some num_new_tokens
     | Some cap \<Rightarrow>
         if num_computed < num_prompt_tokens request then (if cap \<le> 0 then None else Some (min num_new_tokens cap))
         else Some num_new_tokens)"

text \<open>A request that decodes keeps its tokens, and so does a prefill that runs alone.\<close>

lemma decode_keeps_its_tokens:
  "num_prompt_tokens r \<le> num_computed_tokens r \<Longrightarrow> running_tokens env running r n = n"
  by (simp add: running_tokens_def split: option.split)

lemma lone_prefill_keeps_its_tokens:
  "(\<And>p. p \<in> set running \<Longrightarrow> request_id p \<noteq> request_id r \<Longrightarrow> num_computed_tokens p < num_prompt_tokens p) \<Longrightarrow>
   running_tokens env running r n = n \<and> waiting_tokens env running r k n = Some n"
  by (fastforce simp: running_tokens_def waiting_tokens_def mixed_prefill_policy_def list_ex_iff split: option.split)

text \<open>By default a prefill gets no token in a step in which another request decodes.\<close>

lemma default_skips_prefill:
  assumes "p \<in> set running" and "request_id p \<noteq> request_id r" and "num_prompt_tokens p \<le> num_computed_tokens p"
    and "num_computed_tokens r < num_prompt_tokens r" and "0 \<le> n"
  shows "running_tokens None running r n = 0" and "k < num_prompt_tokens r \<Longrightarrow> waiting_tokens None running r k n = None"
proof -
  have "mixed_prefill_cap None = Some 0" by code_simp
  then have "mixed_prefill_policy None running r = Some 0" using assms(1-3) by (auto simp: mixed_prefill_policy_def list_ex_iff)
  then show "running_tokens None running r n = 0" and "k < num_prompt_tokens r \<Longrightarrow> waiting_tokens None running r k n = None"
    using assms(4,5) by (simp_all add: running_tokens_def waiting_tokens_def)
qed

end
