(* ===== verification/Exl3_Names.thy ===== *)
theory Exl3_Names
  imports Py_Text Runtime_Base
begin

text \<open>
  The quantization configuration of the DeepSeek V4.1 image (\<open>patches/exl3_config.py\<close>): reading the table of
  quantized tensors, finding the tensors that back a module of the model, and choosing the method of a
  layer. Files, the Hub, the registry of vllm's formats and the formats themselves are arguments; a
  log line is nothing.
\<close>

subsection \<open>Names\<close>

text \<open>\<open>name.rpartition(".")\<close>, without the separator.\<close>

definition rpartition :: "string \<Rightarrow> string \<times> string" where
  "rpartition name = (let parts = split_on (CHR ''.'') name in (join_with ''.'' (butlast parts), last parts))"

definition WRAPPER_SEGMENTS :: "string list" where
  "WRAPPER_SEGMENTS = [''model'', ''language_model'']"

definition normalize_name :: "string \<Rightarrow> string" where
  "normalize_name name = join_with ''.'' (filter (\<lambda>p. p \<notin> set WRAPPER_SEGMENTS) (split_on (CHR ''.'') name))"

definition is_shared_expert :: "string \<Rightarrow> bool" where
  "is_shared_expert prefix \<longleftrightarrow> ''shared_experts'' \<in> set (split_on (CHR ''.'') prefix)"

definition EXPERT_PROJ_TRIPLES :: "(string \<times> string \<times> string) list" where
  "EXPERT_PROJ_TRIPLES = [(''gate_proj'', ''up_proj'', ''down_proj''), (''w1'', ''w3'', ''w2'')]"

definition ROUTED_EXPERTS_SUFFIX :: string where
  "ROUTED_EXPERTS_SUFFIX = ''.routed_experts''"

definition ONLINE_EXCLUDE :: "string list" where
  "ONLINE_EXCLUDE = [''lm_head'', ''gate'', ''router'', ''e_score_correction'', ''shared_head'']"

definition is_online_excluded :: "string \<Rightarrow> bool" where
  "is_online_excluded prefix \<longleftrightarrow>
     (let end = snd (rpartition prefix)
      in list_ex (\<lambda>e. end = e \<or> starts_with e end) ONLINE_EXCLUDE \<or> occurs_in ''lm_head'' prefix)"

subsection \<open>The configuration file\<close>

datatype codebook_id = CB_3INST | CB_MCG | CB_MUL1

record module_info =
  info_name :: string
  info_in :: nat
  info_out :: nat
  info_bits :: nat
  info_cb :: codebook_id
  info_mult :: int
  info_bias :: bool

text \<open>Values of JSON as far as the code looks at them; \<open>JOther\<close> tells whether it counts as true.\<close>

datatype jval = JStr string | JNum int | JList "jval list" | JObj "(string \<times> jval) list" | JOther bool

fun truthy :: "jval \<Rightarrow> bool" where
  "truthy (JStr s) = (s \<noteq> [])"
| "truthy (JNum n) = (n \<noteq> 0)"
| "truthy (JList xs) = (xs \<noteq> [])"
| "truthy (JObj d) = (d \<noteq> [])"
| "truthy (JOther b) = b"

text \<open>An entry of the table: the shapes of its stored tensors by name.\<close>

record storage_entry =
  quant_format :: "string option"
  stored_tensors :: "(string \<times> nat list) list"
  mul1_multiplier :: "int option"
  mcg_multiplier :: "int option"

record full_config =
  tensor_storage :: "(string \<times> storage_entry) list"
  packed_mapping :: "jval option"
  ignored_key :: "jval option"
  not_convert_key :: "jval option"
  original_key :: "jval option"
  file_key :: "string option"

text \<open>\<open>_parse_module\<close>; a trellis whose shape has not three numbers does not unpack.\<close>

definition parse_module :: "string \<Rightarrow> storage_entry \<Rightarrow> module_info option res" where
  "parse_module name entry =
     (if quant_format entry \<noteq> Some ''exl3'' then Inr None
      else case map_of (stored_tensors entry) (name @ ''.trellis'') of
          None \<Rightarrow> Inr None
        | Some [k_tiles, n_tiles, packed_words] \<Rightarrow>
            (let has = (\<lambda>leaf. map_of (stored_tensors entry) (name @ leaf) \<noteq> None);
                 (cb, mult) = (if has ''.mul1'' then (CB_MUL1, case mul1_multiplier entry of None \<Rightarrow> 0 | Some m \<Rightarrow> m)
                   else if has ''.mcg'' then (CB_MCG, case mcg_multiplier entry of None \<Rightarrow> 0 | Some m \<Rightarrow> m)
                   else (CB_3INST, 0))
             in Inr (Some \<lparr>info_name = name, info_in = k_tiles * 16, info_out = n_tiles * 16, info_bits = packed_words div 16,
                  info_cb = cb, info_mult = mult, info_bias = has ''.bias''\<rparr>))
        | Some _ \<Rightarrow> Inl ValueError)"

fun parse_modules :: "(string \<times> storage_entry) list \<Rightarrow> (string, module_info) dict \<Rightarrow> (string, module_info) dict res" where
  "parse_modules [] acc = Inr acc"
| "parse_modules ((name, entry) # storage) acc =
     rbind (parse_module name entry) (\<lambda>info. parse_modules storage (case info of None \<Rightarrow> acc | Some i \<Rightarrow> dict_set name i acc))"

text \<open>
  The index by normalized name. A second module of the same normal name turns the entry into None; a
  third one then reads the name of that None.
\<close>

fun index_modules :: "(string \<times> module_info) list \<Rightarrow> (string, module_info option) dict \<Rightarrow> (string, module_info option) dict res" where
  "index_modules [] acc = Inr acc"
| "index_modules ((name, info) # modules) acc =
     (let key = normalize_name name
      in case map_of acc key of
           None \<Rightarrow> index_modules modules (dict_set key (Some info) acc)
         | Some (Some _) \<Rightarrow> index_modules modules (dict_set key None acc)
         | Some None \<Rightarrow> Inl AttributeError)"

subsection \<open>The world outside\<close>

text \<open>
  Environment, files and Hub: \<open>read_config\<close> and \<open>hub_config\<close> give None where the code catches an
  exception; so do \<open>weight_index\<close>, \<open>single_keys\<close> and \<open>header_shape\<close>, the index file, the keys of a
  single weight file and a shape of a file's header. \<open>loads\<close> is \<open>json.loads\<close> of the mapping variable.
\<close>

record ckpt_world =
  getenv :: "string \<Rightarrow> string option"
  loads :: "string \<Rightarrow> jval option"
  is_file_at :: "string \<Rightarrow> bool"
  is_dir_at :: "string \<Rightarrow> bool"
  path_exists :: "string \<Rightarrow> bool"
  read_config :: "string \<Rightarrow> full_config option"
  hub_config :: "string \<Rightarrow> full_config option"
  weight_index :: "string \<Rightarrow> (string \<times> string) list option"
  single_keys :: "string \<Rightarrow> string list option"
  header_shape :: "string \<Rightarrow> string \<Rightarrow> nat list option"

definition join_file :: "string \<Rightarrow> string \<Rightarrow> string" where
  "join_file dir file = (if dir = [] then file else if last dir = CHR ''/'' then dir @ file else dir @ ''/'' @ file)"

text \<open>\<open>os.path.dirname\<close>: up to the last slash, without the slashes at its end unless it is only slashes.\<close>

definition dirname :: "string \<Rightarrow> string" where
  "dirname p =
     (let head = rev (dropWhile (\<lambda>c. c \<noteq> CHR ''/'') (rev p)); stripped = rev (dropWhile (\<lambda>c. c = CHR ''/'') (rev head))
      in if stripped = [] then head else stripped)"

definition load_config_file :: "ckpt_world \<Rightarrow> string option \<Rightarrow> full_config option" where
  "load_config_file w model_path =
     (case model_path of
        None \<Rightarrow> None
      | Some p \<Rightarrow>
          if p = [] then None
          else if is_file_at w p then read_config w p
          else if is_dir_at w p then
            (let path = join_file p ''quantization_config.json''
             in if path_exists w path then read_config w path else None)
          else hub_config w p)"

text \<open>\<open>a or b\<close> for optional texts.\<close>

definition text_or :: "string option \<Rightarrow> string option \<Rightarrow> string option" where
  "text_or a b = (case a of None \<Rightarrow> b | Some s \<Rightarrow> if s = [] then b else a)"

definition key_or :: "'a option \<Rightarrow> 'a option \<Rightarrow> 'a option" where
  "key_or a b = (case a of None \<Rightarrow> b | Some x \<Rightarrow> Some x)"

text \<open>\<open>_merge_tensor_storage\<close>, with the path hint of the class before and after.\<close>

definition merge_tensor_storage :: "ckpt_world \<Rightarrow> string option \<Rightarrow> full_config \<Rightarrow> full_config \<times> string option" where
  "merge_tensor_storage w model_path_hint config =
     (let hint = text_or model_path_hint (text_or (getenv w ''CUDA_EXL3_MODEL_PATH'') (file_key config))
      in case load_config_file w hint of
           None \<Rightarrow> (config, model_path_hint)
         | Some raw \<Rightarrow>
             (config\<lparr>tensor_storage := tensor_storage raw, packed_mapping := key_or (packed_mapping config) (packed_mapping raw),
                ignored_key := key_or (ignored_key config) (ignored_key raw),
                not_convert_key := key_or (not_convert_key config) (not_convert_key raw),
                original_key := key_or (original_key config) (original_key raw), file_key := key_or (file_key config) (file_key raw)\<rparr>,
              (if text_or model_path_hint None = None
               then map_option (\<lambda>h. if is_dir_at w h then h else dirname h) (text_or hint None)
               else model_path_hint)))"

subsection \<open>Recovering modules from the weights\<close>

definition LEAVES :: "string list" where
  "LEAVES = [''trellis'', ''suh'', ''svh'', ''mcg'', ''mul1'', ''bias'']"

text \<open>The leaves of every module, modules in the order of their first tensor.\<close>

fun leaves_by_module :: "string list \<Rightarrow> (string, string list) dict \<Rightarrow> (string, string list) dict" where
  "leaves_by_module [] acc = acc"
| "leaves_by_module (key # keys) acc =
     (let (module, leaf) = rpartition key
      in leaves_by_module keys (if leaf \<in> set LEAVES then dict_push module leaf acc else acc))"

type_synonym tables = "(string, module_info) dict \<times> (string, module_info option) dict"

definition dict_setdefault :: "'k \<Rightarrow> 'v \<Rightarrow> ('k, 'v) dict \<Rightarrow> ('k, 'v) dict" where
  "dict_setdefault k v d = (if map_of d k = None then dict_set k v d else d)"

definition recovered_info :: "(string, string list) dict \<Rightarrow> string \<Rightarrow> nat \<Rightarrow> nat \<Rightarrow> nat \<Rightarrow> module_info" where
  "recovered_info leaves module k_tiles n_tiles packed_words =
     (let ls = (case map_of leaves module of None \<Rightarrow> [] | Some ls \<Rightarrow> ls);
          cb = (if ''mul1'' \<in> set ls then CB_MUL1 else if ''mcg'' \<in> set ls then CB_MCG else CB_3INST)
      in \<lparr>info_name = module, info_in = k_tiles * 16, info_out = n_tiles * 16, info_bits = packed_words div 16,
          info_cb = cb, info_mult = 0, info_bias = (''bias'' \<in> set ls)\<rparr>)"

text \<open>
  The loop over the missing modules; an exception ends it with what it has added so far and the count 0.
\<close>

fun recover :: "ckpt_world \<Rightarrow> string \<Rightarrow> (string \<times> string) list \<Rightarrow> (string, string list) dict \<Rightarrow> string list \<Rightarrow> tables \<Rightarrow> nat \<Rightarrow> nat \<times> tables" where
  "recover w path weight_map leaves [] t added = (added, t)"
| "recover w path weight_map leaves (module # missing) t added =
     (case map_of weight_map (module @ ''.trellis'') of
        None \<Rightarrow> (0, t)
      | Some file \<Rightarrow>
          (case header_shape w (join_file path file) (module @ ''.trellis'') of
             None \<Rightarrow> (0, t)
           | Some [k_tiles, n_tiles, packed_words] \<Rightarrow>
               (let info = recovered_info leaves module k_tiles n_tiles packed_words;
                    key = normalize_name module;
                    (modules, norm) = t
                in recover w path weight_map leaves missing
                     (dict_set module info modules, dict_setdefault key (Some info) norm) (added + 1))
           | Some _ \<Rightarrow> recover w path weight_map leaves missing t added))"

definition augment_from_checkpoint :: "ckpt_world \<Rightarrow> string option \<Rightarrow> tables \<Rightarrow> nat \<times> tables" where
  "augment_from_checkpoint w hint t =
     (case text_or hint None of
        None \<Rightarrow> (0, t)
      | Some path \<Rightarrow>
          if \<not> is_dir_at w path then (0, t)
          else
            let index_path = join_file path ''model.safetensors.index.json''; single = join_file path ''model.safetensors'';
                weight_map = (if path_exists w index_path then weight_index w index_path
                  else if path_exists w single then map_option (map (\<lambda>k. (k, ''model.safetensors''))) (single_keys w single)
                  else None)
            in case weight_map of
                 None \<Rightarrow> (0, t)
               | Some wm \<Rightarrow>
                   (let leaves = leaves_by_module (map fst wm) [];
                        missing = filter (\<lambda>m. ''trellis'' \<in> set (the (map_of leaves m)) \<and> map_of (fst t) m = None) (map fst leaves)
                    in recover w path wm leaves missing t 0))"

subsection \<open>The configuration object\<close>

text \<open>
  \<open>'b\<close> is the type of the base format's configuration, and \<open>vllm\<close> what the code asks of vllm: the class
  registered under a name, the configuration a class makes of its block, the method it gives a layer,
  the test for skipped layers.
\<close>

record 'l vllm_layer =
  class_name :: string
  linear_base :: bool
  vocab_embedding :: bool
  ckpt_names :: "string option \<times> string option \<times> string option"
  layer_limit :: 'l
  moe_limit :: 'l
  input_size :: "nat option"
  output_sizes :: "nat list"

record ('b, 'l, 'm) vllm =
  find_class :: "string \<Rightarrow> string option"
  make_base :: "string \<Rightarrow> (string \<times> jval) list \<Rightarrow> 'b res"
  base_method :: "'b \<Rightarrow> 'l vllm_layer \<Rightarrow> string \<Rightarrow> 'm option"
  layer_skipped :: "string \<Rightarrow> string list \<Rightarrow> (string \<times> string list) list \<Rightarrow> bool"
  online_bits :: "nat option"
  shape_supported :: "nat \<Rightarrow> nat \<Rightarrow> bool"

record 'b exl3_quant =
  extra_packed_mapping :: "(string, string list) dict"
  modules :: "(string, module_info) dict"
  modules_norm :: "(string, module_info option) dict"
  ignored_layers :: "string list"
  base_quant_config :: "'b option"
  packed_modules_mapping :: "(string, string list) dict"

text \<open>The checkpoint's own fusions: entries of the right form, the variable's over the file's.\<close>

fun all_texts :: "jval list \<Rightarrow> string list option" where
  "all_texts [] = Some []"
| "all_texts (v # vs) = (case (v, all_texts vs) of (JStr s, Some ss) \<Rightarrow> Some (s # ss) | _ \<Rightarrow> None)"

definition dict_merge :: "('k, 'v) dict \<Rightarrow> ('k, 'v) dict \<Rightarrow> ('k, 'v) dict" where
  "dict_merge d e = foldl (\<lambda>d (k, v). dict_set k v d) d e"

definition raw_mapping :: "ckpt_world \<Rightarrow> full_config \<Rightarrow> jval option" where
  "raw_mapping w cfg =
     (case text_or (getenv w ''CUDA_EXL3_PACKED_MAPPING'') None of
        None \<Rightarrow> packed_mapping cfg
      | Some text \<Rightarrow>
          (case loads w text of
             Some (JObj parsed) \<Rightarrow>
               Some (JObj (dict_merge (case packed_mapping cfg of Some (JObj d) \<Rightarrow> d | _ \<Rightarrow> []) parsed))
           | _ \<Rightarrow> packed_mapping cfg))"

definition read_mapping :: "jval option \<Rightarrow> (string, string list) dict" where
  "read_mapping raw =
     (case raw of
        Some (JObj d) \<Rightarrow> foldl (\<lambda>acc (k, v). case v of
            JList xs \<Rightarrow> (case all_texts xs of Some ss \<Rightarrow> dict_set k ss acc | None \<Rightarrow> acc)
          | _ \<Rightarrow> acc) [] d
      | _ \<Rightarrow> [])"

text \<open>What iterating over a value gives, and the strings of a list.\<close>

fun texts_of :: "jval list \<Rightarrow> string list" where
  "texts_of [] = []"
| "texts_of (JStr s # vs) = s # texts_of vs"
| "texts_of (v # vs) = texts_of vs"

definition value_or :: "jval option \<Rightarrow> jval option \<Rightarrow> jval option" where
  "value_or a b = (case a of Some v \<Rightarrow> if truthy v then a else b | None \<Rightarrow> b)"

definition listed :: "jval option \<Rightarrow> jval list res" where
  "listed v = (case v of
       None \<Rightarrow> Inr []
     | Some v \<Rightarrow> if \<not> truthy v then Inr []
         else case v of
             JList xs \<Rightarrow> Inr xs
           | JStr s \<Rightarrow> Inr (map (\<lambda>c. JStr [c]) s)
           | JObj d \<Rightarrow> Inr (map (JStr \<circ> fst) d)
           | _ \<Rightarrow> Inl TypeError)"

subsubsection \<open>The base format\<close>

definition BASE_QUANT_OFF :: "string list" where
  "BASE_QUANT_OFF = ['''', ''0'', ''none'', ''off'', ''false'']"

definition DEEPSEEK_V4_FP8_DEFAULT :: "(string \<times> jval) list" where
  "DEEPSEEK_V4_FP8_DEFAULT =
     [(''quant_method'', JStr ''fp8''), (''activation_scheme'', JStr ''dynamic''),
      (''weight_block_size'', JList [JNum 32, JNum 32]), (''scale_fmt'', JStr ''ue8m0''), (''expert_dtype'', JStr ''fp4'')]"

definition original_block :: "full_config \<Rightarrow> (string \<times> jval) list option" where
  "original_block cfg = (case original_key cfg of Some (JObj d) \<Rightarrow> Some d | _ \<Rightarrow> None)"

definition base_quant_name :: "ckpt_world \<Rightarrow> full_config \<Rightarrow> string option" where
  "base_quant_name w cfg =
     (case getenv w ''CUDA_EXL3_BASE_QUANT'' of
        Some e \<Rightarrow> (let e = lower (strip e) in if e \<in> set BASE_QUANT_OFF then None else Some e)
      | None \<Rightarrow>
          (case original_block cfg of
             None \<Rightarrow> None
           | Some d \<Rightarrow> (case map_of d ''quant_method'' of
                 Some (JStr s) \<Rightarrow> if s = [] then None else Some (lower s)
               | _ \<Rightarrow> None)))"

definition set_default :: "string \<Rightarrow> jval \<Rightarrow> (string \<times> jval) list \<Rightarrow> (string \<times> jval) list" where
  "set_default k v d = (if map_of d k = None then d @ [(k, v)] else d)"

definition base_config_class :: "('b, 'l, 'm) vllm \<Rightarrow> string \<Rightarrow> string res" where
  "base_config_class v name = some_or ValueError (find_class v name)"

definition build_base_quant_config ::
    "ckpt_world \<Rightarrow> ('b, 'l, 'm) vllm \<Rightarrow> full_config \<Rightarrow> string list \<Rightarrow> 'b option res" where
  "build_base_quant_config w v cfg ignored =
     (case base_quant_name w cfg of
        None \<Rightarrow> Inr None
      | Some name \<Rightarrow>
          (let orig = (case original_block cfg of None \<Rightarrow> [] | Some d \<Rightarrow> d);
               fp8 = (name \<in> {''fp8'', ''deepseek_v4_fp8''})
           in if \<not> fp8 \<and> orig = [] then Inl ValueError
              else
                rbind (base_config_class v (if fp8 then ''deepseek_v4_fp8'' else name)) (\<lambda>cls.
                let orig = (if fp8
                      then set_default ''activation_scheme'' (JStr ''dynamic'')
                        (set_default ''quant_method'' (JStr ''fp8'') (if orig = [] then DEEPSEEK_V4_FP8_DEFAULT else orig))
                      else orig)
                in rbind (if ignored = [] then Inr orig
                     else rbind (listed (value_or (map_of orig ''ignored_layers'') (map_of orig ''modules_to_not_convert''))) (\<lambda>own.
                       Inr (dict_set ''ignored_layers'' (JList (own @ filter (\<lambda>x. x \<notin> set own) (map JStr ignored))) orig))) (\<lambda>orig.
                   rbind (make_base v cls orig) (\<lambda>b. Inr (Some b))))))"

subsubsection \<open>The constructor\<close>

definition exl3_config_init ::
    "ckpt_world \<Rightarrow> ('b, 'l, 'm) vllm \<Rightarrow> string option \<Rightarrow> full_config \<Rightarrow> ('b exl3_quant \<times> string option) res" where
  "exl3_config_init w v hint cfg0 =
     (let extra = read_mapping (raw_mapping w cfg0);
          (cfg, hint) = (if tensor_storage cfg0 = [] then merge_tensor_storage w hint cfg0 else (cfg0, hint))
      in if tensor_storage cfg = [] then Inl ValueError
      else
        rbind (parse_modules (tensor_storage cfg) []) (\<lambda>mods.
        rbind (index_modules mods []) (\<lambda>norm.
        let (recovered, mods, norm) = augment_from_checkpoint w hint (mods, norm)
        in if list_ex is_shared_expert (map fst mods) then Inl ValueError
        else
          rbind (listed (value_or (ignored_key cfg) (not_convert_key cfg))) (\<lambda>ignored.
          let ignored = texts_of ignored
          in rbind (build_base_quant_config w v cfg ignored) (\<lambda>b.
          Inr (\<lparr>extra_packed_mapping = extra, modules = mods, modules_norm = norm, ignored_layers = ignored,
                base_quant_config = b, packed_modules_mapping = []\<rparr>, hint))))))"

text \<open>
  What vllm sets on the finished configuration: the fusions, mirrored in the base format, the names of its
  own modules, and the model at hand (\<open>old_update\<close> where the base format takes no \<open>revision\<close>).
\<close>

definition set_packed_mapping ::
    "('b \<Rightarrow> (string, string list) dict \<Rightarrow> 'b) \<Rightarrow> (string, string list) dict \<Rightarrow> 'b exl3_quant \<Rightarrow> 'b exl3_quant" where
  "set_packed_mapping assign fusions q =
     q\<lparr>packed_modules_mapping := fusions, base_quant_config := map_option (\<lambda>b. assign b fusions) (base_quant_config q)\<rparr>"

lemma packed_tables [simp]:
  "modules (set_packed_mapping assign fusions q) = modules q"
  "modules_norm (set_packed_mapping assign fusions q) = modules_norm q"
  by (simp_all add: set_packed_mapping_def)

definition apply_vllm_mapper :: "(string list \<Rightarrow> string list) \<Rightarrow> ('b \<Rightarrow> 'b) \<Rightarrow> 'b exl3_quant \<Rightarrow> 'b exl3_quant" where
  "apply_vllm_mapper apply_list base_mapper q =
     q\<lparr>ignored_layers := (if ignored_layers q \<noteq> [] then apply_list (ignored_layers q) else ignored_layers q),
       base_quant_config := map_option base_mapper (base_quant_config q)\<rparr>"

definition maybe_update_config :: "('b \<Rightarrow> 'b res) \<Rightarrow> ('b \<Rightarrow> 'b res) \<Rightarrow> 'b exl3_quant \<Rightarrow> 'b exl3_quant res" where
  "maybe_update_config new_update old_update q = (case base_quant_config q of
       None \<Rightarrow> Inr q
     | Some b \<Rightarrow> rbind (if new_update b = Inl TypeError then old_update b else new_update b)
         (\<lambda>b'. Inr (q\<lparr>base_quant_config := Some b'\<rparr>)))"

text \<open>\<open>override_quantization_method\<close> overrides nothing, and remembers where the model is.\<close>

definition override_hint :: "string option \<Rightarrow> string option \<Rightarrow> string option" where
  "override_hint name_or_path hint = text_or name_or_path hint"

text \<open>\<open>__getattr__\<close>: an attribute the object lacks is looked up in the base format, by the argument \<open>attribute\<close>.\<close>

definition getattr_base :: "('b \<Rightarrow> string \<Rightarrow> 'a res) \<Rightarrow> 'b exl3_quant \<Rightarrow> string \<Rightarrow> 'a res" where
  "getattr_base attribute q name =
     (if starts_with ''_'' name then Inl AttributeError
      else case base_quant_config q of None \<Rightarrow> Inl AttributeError | Some b \<Rightarrow> attribute b name)"

subsection \<open>Finding the tensors of a module\<close>

definition candidate_names :: "'b exl3_quant \<Rightarrow> string \<Rightarrow> string list list" where
  "candidate_names q prefix =
     (let (base, last_name) = rpartition prefix;
          merged = dict_merge (extra_packed_mapping q) (packed_modules_mapping q);
          out = [prefix] # map (\<lambda>(packed_name, subs). map (\<lambda>s. if base = [] then s else base @ ''.'' @ s) subs)
            (filter (\<lambda>(packed_name, subs). last_name = packed_name) merged);
          extra = map (\<lambda>names. if list_all (starts_with ''model.'') names then map (drop (length ''model.'')) names
            else map (\<lambda>g. ''model.'' @ g) names) out
      in out @ extra)"

fun first_some :: "('a \<Rightarrow> 'b option) \<Rightarrow> 'a list \<Rightarrow> 'b option" where
  "first_some f [] = None"
| "first_some f (x # xs) = (case f x of None \<Rightarrow> first_some f xs | Some y \<Rightarrow> Some y)"

fun all_some :: "('a \<Rightarrow> 'b option) \<Rightarrow> 'a list \<Rightarrow> 'b list option" where
  "all_some f [] = Some []"
| "all_some f (x # xs) = (case f x of None \<Rightarrow> None | Some y \<Rightarrow> map_option ((#) y) (all_some f xs))"

definition norm_lookup :: "'b exl3_quant \<Rightarrow> string \<Rightarrow> module_info option" where
  "norm_lookup q name = (case map_of (modules_norm q) (normalize_name name) of None \<Rightarrow> None | Some i \<Rightarrow> i)"

definition resolve_name :: "'b exl3_quant \<Rightarrow> string \<Rightarrow> module_info list option" where
  "resolve_name q prefix =
     (let names = candidate_names q prefix
      in case first_some (all_some (map_of (modules q))) names of
           Some infos \<Rightarrow> Some infos
         | None \<Rightarrow> first_some (all_some (norm_lookup q)) names)"

definition resolve_moe ::
    "'b exl3_quant \<Rightarrow> string \<Rightarrow> (string \<times> string \<times> string) option \<Rightarrow> (module_info \<times> module_info \<times> module_info) option" where
  "resolve_moe q prefix names =
     (let prefixes = prefix # (if ends_with ROUTED_EXPERTS_SUFFIX prefix
            then [take (length prefix - length ROUTED_EXPERTS_SUFFIX) prefix] else []);
          triples = (case names of
              Some (g, u, d) \<Rightarrow> if g \<noteq> [] \<and> u \<noteq> [] \<and> d \<noteq> [] then [(g, u, d)] else []
            | None \<Rightarrow> []);
          triples = triples @ filter (\<lambda>t. t \<notin> set triples) EXPERT_PROJ_TRIPLES;
          one = (\<lambda>p proj. case resolve_name q (p @ ''.0.'' @ proj) of Some [i] \<Rightarrow> Some i | _ \<Rightarrow> None)
      in first_some (\<lambda>(p, g, u, d).
            case (one p g, one p u, one p d) of (Some a, Some b, Some c) \<Rightarrow> Some (a, b, c) | _ \<Rightarrow> None)
          (concat (map (\<lambda>p. map (\<lambda>t. (p, t)) triples) prefixes)))"

definition layer_ckpt_names :: "'l vllm_layer \<Rightarrow> (string \<times> string \<times> string) option" where
  "layer_ckpt_names layer = (case ckpt_names layer of
       (Some g, Some u, Some d) \<Rightarrow> if g \<noteq> [] \<and> u \<noteq> [] \<and> d \<noteq> [] then Some (g, u, d) else None
     | _ \<Rightarrow> None)"

text \<open>An attribute that is missing or None, that \<open>float\<close> does not take, or a number.\<close>

datatype 'n attr = Missing | Not_a_number | Num 'n

fun swiglu_from :: "'n::linordered_idom attr list \<Rightarrow> 'n option" where
  "swiglu_from [] = None"
| "swiglu_from (Num v # rest) = (if 0 < v then Some v else None)"
| "swiglu_from (a # rest) = swiglu_from rest"

definition layer_swiglu_limit :: "'n::linordered_idom attr vllm_layer \<Rightarrow> 'n option" where
  "layer_swiglu_limit layer = swiglu_from [layer_limit layer, moe_limit layer]"

definition has_exl3_under :: "'b exl3_quant \<Rightarrow> string \<Rightarrow> bool" where
  "has_exl3_under q prefix \<longleftrightarrow> list_ex (starts_with (normalize_name prefix @ ''.'')) (map fst (modules_norm q))"

subsection \<open>Choosing the method of a layer\<close>

datatype ('m, 'n) layer_method =
    Exl3_linear "module_info list"
  | Exl3_moe_method module_info module_info module_info "'n option"
  | Exl3_online nat
  | Unquantized
  | Base_method 'm

definition delegate ::
    "('b, 'n attr, 'm) vllm \<Rightarrow> 'b exl3_quant \<Rightarrow> 'n attr vllm_layer \<Rightarrow> string \<Rightarrow> ('m, 'n) layer_method option" where
  "delegate v q layer prefix = (case base_quant_config q of
       None \<Rightarrow> None
     | Some b \<Rightarrow> map_option Base_method (base_method v b layer prefix))"

definition is_moe_layer :: "'l vllm_layer \<Rightarrow> bool" where
  "is_moe_layer layer \<longleftrightarrow> class_name layer \<in> {''RoutedExperts'', ''FusedMoE'', ''SharedFusedMoE''} \<or>
     (occurs_in ''MoE'' (class_name layer) \<and> \<not> occurs_in ''Method'' (class_name layer))"

definition is_ignored :: "('b, 'l, 'm) vllm \<Rightarrow> 'b exl3_quant \<Rightarrow> string \<Rightarrow> bool" where
  "is_ignored v q prefix \<longleftrightarrow> ignored_layers q \<noteq> [] \<and> layer_skipped v prefix (ignored_layers q) (packed_modules_mapping q)"

definition online_method :: "('b, 'l, 'm) vllm \<Rightarrow> 'l vllm_layer \<Rightarrow> string \<Rightarrow> nat option" where
  "online_method v layer prefix =
     (case online_bits v of
        None \<Rightarrow> None
      | Some bits \<Rightarrow>
          if is_online_excluded prefix then None
          else case input_size layer of
              None \<Rightarrow> None
            | Some k \<Rightarrow> if k \<noteq> 0 \<and> sum_list (output_sizes layer) \<noteq> 0 \<and> shape_supported v k (sum_list (output_sizes layer))
                then Some bits else None)"

definition get_quant_method ::
    "('b, 'n::linordered_idom attr, 'm) vllm \<Rightarrow> 'b exl3_quant \<Rightarrow> 'n attr vllm_layer \<Rightarrow> string \<Rightarrow> ('m, 'n) layer_method option res" where
  "get_quant_method v q layer prefix =
     (if is_shared_expert prefix then
        (if base_quant_config q \<noteq> None then Inr (delegate v q layer prefix)
         else Inr (if linear_base layer then Some Unquantized else None))
      else
        let infos = resolve_name q prefix
        in if is_moe_layer layer then
             case resolve_moe q prefix (layer_ckpt_names layer) of
               Some (g, u, d) \<Rightarrow> Inr (Some (Exl3_moe_method g u d (layer_swiglu_limit layer)))
             | None \<Rightarrow>
                 if infos \<noteq> None \<or> has_exl3_under q prefix then Inl NotImplementedError
                 else Inr (delegate v q layer prefix)
           else if linear_base layer \<or> vocab_embedding layer then
             case infos of
               Some is \<Rightarrow> Inr (Some (Exl3_linear is))
             | None \<Rightarrow>
                 if base_quant_config q \<noteq> None then Inr (delegate v q layer prefix)
                 else if linear_base layer \<and> is_ignored v q prefix then Inr (Some Unquantized)
                 else if linear_base layer then
                   (case online_method v layer prefix of
                      Some bits \<Rightarrow> Inr (Some (Exl3_online bits))
                    | None \<Rightarrow> Inr (Some Unquantized))
                 else Inr None
           else Inr (delegate v q layer prefix))"

subsection \<open>What a name resolves to\<close>

lemma first_some_Some: "first_some f xs = Some y \<Longrightarrow> \<exists>x \<in> set xs. f x = Some y"
  by (induction xs) (auto split: option.splits)

lemma all_some_Some: "all_some f xs = Some ys \<Longrightarrow> list_all2 (\<lambda>x y. f x = Some y) xs ys"
  by (induction xs arbitrary: ys) (auto split: option.splits)

lemma map_of_dict_push: "map_of (dict_push k x d) k' = (if k' = k then Some ((case map_of d k of None \<Rightarrow> [] | Some xs \<Rightarrow> xs) @ [x]) else map_of d k')"
  by (induction d) auto

text \<open>The tables name their entries: a module is under its own name, and in the index under its normal name.\<close>

definition named :: "(string, module_info) dict \<Rightarrow> bool" where
  "named mods \<longleftrightarrow> (\<forall>name i. map_of mods name = Some i \<longrightarrow> info_name i = name)"

definition indexed :: "(string, module_info) dict \<Rightarrow> (string, module_info option) dict \<Rightarrow> bool" where
  "indexed mods norm \<longleftrightarrow> (\<forall>key i. map_of norm key = Some (Some i) \<longrightarrow>
     normalize_name (info_name i) = key \<and> map_of mods (info_name i) = Some i)"

lemma named_set: "named mods \<Longrightarrow> info_name i = name \<Longrightarrow> named (dict_set name i mods)"
  by (simp add: named_def map_of_dict_set)

lemma indexed_none: "indexed mods norm \<Longrightarrow> indexed mods (dict_set key None norm)"
  by (simp add: indexed_def map_of_dict_set)

lemma indexed_some:
  "indexed mods norm \<Longrightarrow> map_of mods (info_name i) = Some i \<Longrightarrow> normalize_name (info_name i) = key \<Longrightarrow>
   indexed mods (dict_set key (Some i) norm)"
  by (simp add: indexed_def map_of_dict_set)

lemma indexed_more: "indexed mods norm \<Longrightarrow> map_of mods name = None \<Longrightarrow> indexed (dict_set name i mods) norm"
  by (auto simp: indexed_def map_of_dict_set)

lemma parse_module_name: "parse_module name entry = Inr (Some i) \<Longrightarrow> info_name i = name"
  by (auto simp: parse_module_def Let_def split: if_splits option.splits list.splits)

lemma parse_modules_named: "parse_modules storage acc = Inr mods \<Longrightarrow> named acc \<Longrightarrow> dict_ok acc \<Longrightarrow> named mods \<and> dict_ok mods"
proof (induction storage arbitrary: acc)
  case (Cons p storage)
  obtain name entry where p: "p = (name, entry)" by (cases p)
  then obtain info where info: "parse_module name entry = Inr info"
    and rest: "parse_modules storage (case info of None \<Rightarrow> acc | Some i \<Rightarrow> dict_set name i acc) = Inr mods"
    using Cons.prems(1) by (auto simp: rbind_Inr_iff)
  have "named (case info of None \<Rightarrow> acc | Some i \<Rightarrow> dict_set name i acc)"
    using Cons.prems(2) parse_module_name info by (cases info) (simp_all add: named_set)
  moreover have "dict_ok (case info of None \<Rightarrow> acc | Some i \<Rightarrow> dict_set name i acc)"
    using Cons.prems(3) by (cases info) simp_all
  ultimately show ?case using Cons.IH[OF rest] by simp
qed simp

lemma index_modules_indexed:
  assumes "index_modules ms acc = Inr norm" and "indexed mods acc"
    and "\<And>name i. (name, i) \<in> set ms \<Longrightarrow> info_name i = name \<and> map_of mods name = Some i"
  shows "indexed mods norm"
  using assms
proof (induction ms arbitrary: acc)
  case (Cons m ms)
  obtain name info where m: "m = (name, info)" by (cases m)
  have info: "info_name info = name" "map_of mods name = Some info" using Cons.prems(3)[of name info] by (simp_all add: m)
  have rest: "\<And>name i. (name, i) \<in> set ms \<Longrightarrow> info_name i = name \<and> map_of mods name = Some i"
    using Cons.prems(3) by (meson list.set_intros(2))
  show ?case
  proof (cases "map_of acc (normalize_name name)")
    case None
    then have "index_modules ms (dict_set (normalize_name name) (Some info) acc) = Inr norm"
      using Cons.prems(1) by (simp add: m Let_def)
    then show ?thesis by (rule Cons.IH[OF _ indexed_some[OF Cons.prems(2)] rest]) (simp_all add: info)
  next
    case (Some old)
    then have "index_modules ms (dict_set (normalize_name name) None acc) = Inr norm"
      using Cons.prems(1) by (cases old) (simp_all add: m Let_def)
    then show ?thesis by (rule Cons.IH[OF _ indexed_none[OF Cons.prems(2)] rest])
  qed
qed simp

lemma recover_ok:
  assumes "recover w path wm leaves missing (mods, norm) n = (k, mods', norm')" and "named mods" and "indexed mods norm"
    and "\<And>m. m \<in> set missing \<Longrightarrow> map_of mods m = None" and "distinct missing"
  shows "named mods' \<and> indexed mods' norm'"
  using assms
proof (induction missing arbitrary: mods norm n)
  case (Cons m missing)
  show ?case
  proof (cases "map_of wm (m @ ''.trellis'')")
    case None
    then show ?thesis using Cons.prems by simp
  next
    case (Some fname)
    show ?thesis
    proof (cases "header_shape w (join_file path fname) (m @ ''.trellis'')")
      case None
      then show ?thesis using Cons.prems Some by simp
    next
      case (Some sh)
      note shape = this
      show ?thesis
      proof (cases "\<exists>a b c. sh = [a, b, c]")
        case False
        then have "recover w path wm leaves missing (mods, norm) n = (k, mods', norm')"
          using Cons.prems(1) \<open>map_of wm (m @ ''.trellis'') = Some fname\<close> shape by (auto split: list.splits)
        then show ?thesis by (rule Cons.IH) (use Cons.prems in auto)
      next
        case True
        then obtain a b c where sh: "sh = [a, b, c]" by blast
        define info where "info = recovered_info leaves m a b c"
        define norm1 where "norm1 = dict_setdefault (normalize_name m) (Some info) norm"
        have step: "recover w path wm leaves missing (dict_set m info mods, norm1) (n + 1) = (k, mods', norm')"
          using Cons.prems(1) \<open>map_of wm (m @ ''.trellis'') = Some fname\<close> shape
          by (simp add: sh Let_def info_def norm1_def)
        have name: "info_name info = m" by (simp add: info_def recovered_info_def Let_def)
        have "indexed (dict_set m info mods) norm" using Cons.prems(3,4) by (intro indexed_more) simp_all
        then have "indexed (dict_set m info mods) norm1"
          by (simp add: norm1_def dict_setdefault_def indexed_some name map_of_dict_set)
        then show ?thesis
          using Cons.prems(4,5)
          by (intro Cons.IH[OF step named_set[OF Cons.prems(2) name]]) (auto simp: map_of_dict_set)
      qed
    qed
  qed
qed simp

lemma leaves_dict_ok: "dict_ok acc \<Longrightarrow> dict_ok (leaves_by_module keys acc)"
  by (induction keys arbitrary: acc) (auto simp: case_prod_beta Let_def)

lemma augment_ok:
  assumes "augment_from_checkpoint w hint (mods, norm) = (k, mods', norm')" and "named mods" and "indexed mods norm"
  shows "named mods' \<and> indexed mods' norm'"
proof (cases "(mods', norm') = (mods, norm)")
  case True
  then show ?thesis using assms(2,3) by simp
next
  case False
  define leaves where "leaves wm = leaves_by_module (map fst wm) []" for wm :: "(string \<times> string) list"
  have ok: "dict_ok (leaves wm)" for wm unfolding leaves_def by (rule leaves_dict_ok) (simp add: dict_ok_def)
  obtain path wm where "recover w path wm (leaves wm)
      (filter (\<lambda>m. ''trellis'' \<in> set (the (map_of (leaves wm) m)) \<and> map_of mods m = None) (map fst (leaves wm))) (mods, norm) 0 = (k, mods', norm')"
    using assms(1) False
    by (auto simp: augment_from_checkpoint_def Let_def leaves_def[symmetric] split: option.splits if_splits)
  from recover_ok[OF this assms(2,3)] show ?thesis using ok[of wm] by (simp add: dict_ok_def distinct_filter)
qed

text \<open>What a configuration that was built promises of its tables.\<close>

lemma config_tables:
  assumes "exl3_config_init w v hint cfg = Inr (q, hint')"
  shows "named (modules q)" and "indexed (modules q) (modules_norm q)" and "\<not> list_ex is_shared_expert (map fst (modules q))"
proof -
  define c where "c = (if tensor_storage cfg = [] then merge_tensor_storage w hint cfg else (cfg, hint))"
  obtain mods where parse: "parse_modules (tensor_storage (fst c)) [] = Inr mods"
    using assms unfolding exl3_config_init_def c_def[symmetric] Let_def case_prod_beta
    by (cases "parse_modules (tensor_storage (fst c)) []") (auto split: if_splits)
  obtain norm where index: "index_modules mods [] = Inr norm"
    using assms parse unfolding exl3_config_init_def c_def[symmetric] Let_def case_prod_beta
    by (cases "index_modules mods []") (auto split: if_splits)
  define a where "a = augment_from_checkpoint w (snd c) (mods, norm)"
  have augment: "augment_from_checkpoint w (snd c) (mods, norm) = (fst a, modules q, modules_norm q)"
    and shared: "\<not> list_ex is_shared_expert (map fst (modules q))"
    using assms unfolding exl3_config_init_def c_def[symmetric] Let_def case_prod_beta prod.sel parse rbind_simps index a_def[symmetric]
    by (auto simp: rbind_Inr_iff prod_eq_iff split: if_splits)
  have named: "named mods" "dict_ok mods"
    using parse_modules_named[OF parse] by (simp_all add: named_def dict_ok_def)
  have own: "info_name i = name \<and> map_of mods name = Some i" if "(name, i) \<in> set mods" for name i
    using that named map_of_is_SomeI[of mods name i] by (auto simp: dict_ok_def named_def)
  have "indexed mods norm" by (rule index_modules_indexed[OF index _ own]) (simp_all add: indexed_def)
  from augment_ok[OF augment named(1) this] show "named (modules q)" "indexed (modules q) (modules_norm q)" by simp_all
  show "\<not> list_ex is_shared_expert (map fst (modules q))" by (rule shared)
qed

lemma resolve_name_group:
  assumes "named (modules q)" and "indexed (modules q) (modules_norm q)" and "resolve_name q prefix = Some infos"
  shows "\<exists>names \<in> set (candidate_names q prefix). list_all2 (\<lambda>n i. map_of (modules q) (info_name i) = Some i \<and>
    normalize_name (info_name i) = normalize_name n) names infos"
proof -
  consider (exact) "first_some (all_some (map_of (modules q))) (candidate_names q prefix) = Some infos"
    | (norm) "first_some (all_some (norm_lookup q)) (candidate_names q prefix) = Some infos"
    using assms(3) by (auto simp: resolve_name_def Let_def split: option.splits)
  then show ?thesis
  proof cases
    case exact
    from first_some_Some[OF exact] obtain names where names: "names \<in> set (candidate_names q prefix)"
      "all_some (map_of (modules q)) names = Some infos" by blast
    have "list_all2 (\<lambda>n i. map_of (modules q) (info_name i) = Some i \<and> normalize_name (info_name i) = normalize_name n) names infos"
      using all_some_Some[OF names(2)] by (rule list_all2_mono) (use assms(1) in \<open>auto simp: named_def\<close>)
    then show ?thesis using names(1) by blast
  next
    case norm
    from first_some_Some[OF norm] obtain names where names: "names \<in> set (candidate_names q prefix)"
      "all_some (norm_lookup q) names = Some infos" by blast
    have "list_all2 (\<lambda>n i. map_of (modules q) (info_name i) = Some i \<and> normalize_name (info_name i) = normalize_name n) names infos"
      using all_some_Some[OF names(2)]
      by (rule list_all2_mono) (use assms(2) in \<open>auto simp: indexed_def norm_lookup_def split: option.splits\<close>)
    then show ?thesis using names(1) by blast
  qed
qed

text \<open>
  C31. What a layer gets is what its name says: in a configuration that was built, a module prefix resolves to
  tensors that are in the table under their own names, and that are, one by one and up to the wrapper
  segments \<open>model\<close> and \<open>language_model\<close>, those of one of its candidate groups: the prefix itself, or the
  parts of a fusion that the model or the checkpoint declares.
\<close>

theorem resolved_modules_are_named:
  assumes "exl3_config_init w v hint cfg = Inr (q, hint')" and "resolve_name (set_packed_mapping assign fusions q) prefix = Some infos"
  shows "\<exists>names \<in> set (candidate_names (set_packed_mapping assign fusions q) prefix).
    list_all2 (\<lambda>n i. map_of (modules q) (info_name i) = Some i \<and> normalize_name (info_name i) = normalize_name n) names infos"
  using resolve_name_group[OF _ _ assms(2)] config_tables(1,2)[OF assms(1)] by simp

text \<open>The methods of this package, the online one included, and the stored tensors they are given.\<close>

fun exl3_method :: "('m, 'n) layer_method \<Rightarrow> bool" where
  "exl3_method (Exl3_linear is) = True"
| "exl3_method (Exl3_moe_method g u d limit) = True"
| "exl3_method (Exl3_online bits) = True"
| "exl3_method Unquantized = False"
| "exl3_method (Base_method m) = False"

fun method_infos :: "('m, 'n) layer_method \<Rightarrow> module_info list" where
  "method_infos (Exl3_linear is) = is"
| "method_infos (Exl3_moe_method g u d limit) = [g, u, d]"
| "method_infos m = []"

lemma delegate_not_exl3: "delegate v q layer prefix = Some m \<Longrightarrow> \<not> exl3_method m"
  by (auto simp: delegate_def split: option.splits)

text \<open>Where the code hands a shared expert's layer to.\<close>

definition base_choice ::
    "('b, 'n attr, 'm) vllm \<Rightarrow> 'b option \<Rightarrow> 'n attr vllm_layer \<Rightarrow> string \<Rightarrow> ('m, 'n) layer_method option" where
  "base_choice v base layer prefix =
     (case base of
        Some b \<Rightarrow> map_option Base_method (base_method v b layer prefix)
      | None \<Rightarrow> if linear_base layer then Some Unquantized else None)"

lemma keys_of_set: "fst ` set (dict_set k v d) = insert k (fst ` set d)"
  using arg_cong[OF keys_dict_set[of k v d], of set] by (auto split: if_splits)

lemma parse_modules_keys:
  "parse_modules storage acc = Inr mods \<Longrightarrow> fst ` set acc \<subseteq> fst ` set mods \<and>
     (\<forall>(name, entry) \<in> set storage. parse_module name entry = Inr None \<or> name \<in> fst ` set mods)"
proof (induction storage arbitrary: acc)
  case (Cons p storage)
  obtain name entry where p: "p = (name, entry)" by (cases p)
  then obtain info where info: "parse_module name entry = Inr info"
    and rest: "parse_modules storage (case info of None \<Rightarrow> acc | Some i \<Rightarrow> dict_set name i acc) = Inr mods"
    using Cons.prems(1) by (auto simp: rbind_Inr_iff)
  from Cons.IH[OF rest] info show ?case by (cases info) (auto simp: p keys_of_set)
qed simp

lemma recover_keys:
  "recover w path wm leaves missing (mods, norm) n = (k, mods', norm') \<Longrightarrow> fst ` set mods \<subseteq> fst ` set mods'"
proof (induction missing arbitrary: mods norm n)
  case (Cons m missing)
  consider "map_of wm (m @ ''.trellis'') = None" | f where "map_of wm (m @ ''.trellis'') = Some f"
      "header_shape w (join_file path f) (m @ ''.trellis'') = None"
    | f sh where "map_of wm (m @ ''.trellis'') = Some f" "header_shape w (join_file path f) (m @ ''.trellis'') = Some sh"
    by (metis option.exhaust)
  then show ?case
  proof cases
    case (3 f sh)
    show ?thesis
    proof (cases "\<exists>a b c. sh = [a, b, c]")
      case False
      then have "recover w path wm leaves missing (mods, norm) n = (k, mods', norm')"
        using Cons.prems 3 by (auto split: list.splits)
      then show ?thesis by (rule Cons.IH)
    next
      case True
      then obtain a b c where sh: "sh = [a, b, c]" by blast
      have "recover w path wm leaves missing (dict_set m (recovered_info leaves m a b c) mods,
          dict_setdefault (normalize_name m) (Some (recovered_info leaves m a b c)) norm) (n + 1) = (k, mods', norm')"
        using Cons.prems 3 by (simp add: sh Let_def)
      from Cons.IH[OF this] show ?thesis by (simp add: keys_of_set)
    qed
  qed (use Cons.prems in simp_all)
qed simp

lemma augment_keys:
  "augment_from_checkpoint w hint (mods, norm) = (k, mods', norm') \<Longrightarrow> fst ` set mods \<subseteq> fst ` set mods'"
  by (auto simp: augment_from_checkpoint_def Let_def split: option.splits if_splits dest!: recover_keys)

text \<open>The constructor refuses an EXL3 tensor of a shared expert.\<close>

lemma shared_tensor_refused:
  assumes "(name, entry) \<in> set (tensor_storage cfg)" and "is_shared_expert name" and "parse_module name entry \<noteq> Inr None"
  shows "isl (exl3_config_init w v hint cfg)"
proof (rule ccontr)
  assume "\<not> isl (exl3_config_init w v hint cfg)"
  then obtain q hint' where init: "exl3_config_init w v hint cfg = Inr (q, hint')"
    by (cases "exl3_config_init w v hint cfg") auto
  have given: "tensor_storage cfg \<noteq> []" using assms(1) by auto
  note run = init[unfolded exl3_config_init_def Let_def, simplified given if_False case_prod_conv]
  obtain mods where parse: "parse_modules (tensor_storage cfg) [] = Inr mods"
    using run by (cases "parse_modules (tensor_storage cfg) []") (auto simp: given)
  obtain norm where index: "index_modules mods [] = Inr norm"
    using run parse by (cases "index_modules mods []") (auto simp: given)
  obtain k mods' norm' where augment: "augment_from_checkpoint w hint (mods, norm) = (k, mods', norm')"
    by (metis prod_cases3)
  have "\<not> list_ex is_shared_expert (map fst mods')"
    using run parse index augment by (auto simp: given split: if_splits)
  moreover have "name \<in> fst ` set mods" using parse_modules_keys[OF parse] assms(1,3) by auto
  then have "name \<in> fst ` set mods'" using augment_keys[OF augment] by auto
  ultimately show False using assms(2) by (auto simp: list_ex_iff)
qed

lemma resolve_moe_parts:
  assumes "resolve_moe q prefix names = Some (g, u, d)"
  shows "\<exists>a b c. resolve_name q a = Some [g] \<and> resolve_name q b = Some [u] \<and> resolve_name q c = Some [d]"
  using first_some_Some[OF assms[unfolded resolve_moe_def Let_def]]
  by (auto split: option.splits list.splits)

lemma resolve_moe_member:
  "resolve_moe q prefix names = Some (g, u, d) \<Longrightarrow> i = g \<or> i = u \<or> i = d \<Longrightarrow> \<exists>p infos. resolve_name q p = Some infos \<and> i \<in> set infos"
  using resolve_moe_parts[of q prefix names g u d] by force

lemma resolved_in_table:
  assumes "named (modules q)" and "indexed (modules q) (modules_norm q)" and "resolve_name q prefix = Some infos" and "i \<in> set infos"
  shows "map_of (modules q) (info_name i) = Some i"
proof -
  obtain names where "list_all2 (\<lambda>n i. map_of (modules q) (info_name i) = Some i \<and> normalize_name (info_name i) = normalize_name n) names infos"
    using resolve_name_group[OF assms(1-3)] by blast
  then show ?thesis using assms(4) by (auto simp: list_all2_conv_all_nth in_set_conv_nth)
qed


text \<open>
  Quantized experts never fall through: for a layer of routed experts, outside the shared ones, whose
  prefix has EXL3 tensors under it, the method is the EXL3 one, with gate, up and down found under one
  naming, or building the model stops; it is never left to the base format or to no method.
\<close>

lemma quantized_experts_never_fall_through:
  assumes "is_moe_layer layer" and "\<not> is_shared_expert prefix" and "has_exl3_under q prefix"
  shows "get_quant_method v q layer prefix = Inl NotImplementedError \<or>
    (\<exists>g u d. resolve_moe q prefix (layer_ckpt_names layer) = Some (g, u, d) \<and>
      get_quant_method v q layer prefix = Inr (Some (Exl3_moe_method g u d (layer_swiglu_limit layer))))"
  using assms by (auto simp: get_quant_method_def Let_def split: option.split)

text \<open>
  Three tensors with one normal name cannot be loaded: the third one found after a collision reads the
  name of the entry that the collision has set to None.
\<close>

lemma third_collision_raises:
  assumes "normalize_name a = normalize_name b" and "normalize_name b = normalize_name c"
    and "index_modules before [] = Inr norm" and "map_of norm (normalize_name a) = None"
  shows "index_modules (before @ [(a, x), (b, y), (c, z)]) [] = Inl AttributeError"
proof -
  have "index_modules (before @ rest) acc = rbind (index_modules before acc) (index_modules rest)" for rest acc
    by (induction before acc rule: index_modules.induct) (auto simp: Let_def split: option.split)
  then show ?thesis using assms by (simp add: Let_def map_of_dict_set)
qed

text \<open>A fused projection counts as a router: its last segment starts with \<open>gate\<close>.\<close>

lemma gate_up_is_excluded: "is_online_excluded ''model.layers.0.mlp.gate_up_proj''"
  by code_simp

subsection \<open>A small checkpoint\<close>

definition names_world :: ckpt_world where
  "names_world = \<lparr>getenv = (\<lambda>v. None), loads = (\<lambda>t. None), is_file_at = (\<lambda>p. False), is_dir_at = (\<lambda>p. False),
     path_exists = (\<lambda>p. False), read_config = (\<lambda>p. None), hub_config = (\<lambda>p. None), weight_index = (\<lambda>p. None),
     single_keys = (\<lambda>p. None), header_shape = (\<lambda>p k. None)\<rparr>"

definition names_vllm :: "(unit, int attr, nat) vllm" where
  "names_vllm = \<lparr>find_class = (\<lambda>n. Some n), make_base = (\<lambda>c d. Inr ()), base_method = (\<lambda>b l p. Some 0),
     layer_skipped = (\<lambda>p ig m. False), online_bits = Some 4, shape_supported = (\<lambda>k n. True)\<rparr>"

definition names_info :: "string \<Rightarrow> module_info" where
  "names_info name = \<lparr>info_name = name, info_in = 128, info_out = 64, info_bits = 4, info_cb = CB_MCG, info_mult = 7, info_bias = False\<rparr>"

definition names_entry :: "string \<Rightarrow> storage_entry" where
  "names_entry name = \<lparr>quant_format = Some ''exl3'', stored_tensors = [(name @ ''.trellis'', [8, 4, 64]), (name @ ''.mcg'', [])],
     mul1_multiplier = None, mcg_multiplier = Some 7\<rparr>"

definition names_cfg :: full_config where
  "names_cfg = \<lparr>tensor_storage = map (\<lambda>n. (n, names_entry n))
       [''model.layers.0.mlp.experts.0.w1'', ''model.layers.0.mlp.experts.0.w3'', ''model.layers.0.mlp.experts.0.w2'',
        ''model.layers.0.attn.q_proj''],
     packed_mapping = None, ignored_key = None, not_convert_key = None,
     original_key = Some (JObj [(''quant_method'', JStr ''fp8'')]), file_key = None\<rparr>"

definition names_q :: "unit exl3_quant" where
  "names_q = fst (projr (exl3_config_init names_world names_vllm None names_cfg))"

lemma names_built: "exl3_config_init names_world names_vllm None names_cfg = Inr (names_q, None)"
proof -
  have "\<not> isl (exl3_config_init names_world names_vllm None names_cfg)"
    "snd (projr (exl3_config_init names_world names_vllm None names_cfg)) = None"
    by code_simp+
  then show ?thesis unfolding names_q_def by (cases "exl3_config_init names_world names_vllm None names_cfg") (auto simp: prod_eq_iff)
qed

definition names_layer :: "string \<Rightarrow> int attr vllm_layer" where
  "names_layer cls = \<lparr>class_name = cls, linear_base = (cls = ''Linear''), vocab_embedding = False, ckpt_names = (None, None, None),
     layer_limit = Num 10, moe_limit = Missing, input_size = Some 128, output_sizes = [64]\<rparr>"

lemma resolved_modules_are_named_witness:
  "\<exists>names \<in> set (candidate_names (set_packed_mapping (\<lambda>b f. b) [] names_q) ''language_model.model.layers.0.attn.q_proj'').
     list_all2 (\<lambda>n i. map_of (modules names_q) (info_name i) = Some i \<and> normalize_name (info_name i) = normalize_name n)
       names [the (map_of (modules names_q) ''model.layers.0.attn.q_proj'')]"
  by (rule resolved_modules_are_named[OF names_built]) (unfold names_q_def, code_simp)

text \<open>The same checkpoint with a tensor of a shared expert.\<close>

definition shared_name :: string where
  "shared_name = ''model.layers.0.mlp.shared_experts.up_proj''"

definition shared_cfg :: full_config where
  "shared_cfg = names_cfg\<lparr>tensor_storage := [(shared_name, names_entry shared_name)]\<rparr>"


lemma third_collision_raises_witness:
  "index_modules ([] @ [(''model.layers.0.q'', names_info ''model.layers.0.q''), (''language_model.layers.0.q'', names_info ''language_model.layers.0.q''),
     (''layers.0.q'', names_info ''layers.0.q'')]) [] = Inl AttributeError"
  by (rule third_collision_raises[where norm = "[]"]) code_simp+

lemma quantized_experts_never_fall_through_witness:
  "get_quant_method names_vllm names_q (names_layer ''RoutedExperts'') ''model.layers.0.mlp.experts'' = Inl NotImplementedError \<or>
   (\<exists>g u d. resolve_moe names_q ''model.layers.0.mlp.experts'' (layer_ckpt_names (names_layer ''RoutedExperts'')) = Some (g, u, d) \<and>
      get_quant_method names_vllm names_q (names_layer ''RoutedExperts'') ''model.layers.0.mlp.experts''
        = Inr (Some (Exl3_moe_method g u d (layer_swiglu_limit (names_layer ''RoutedExperts'')))))"
  by (rule quantized_experts_never_fall_through) (unfold names_q_def, code_simp+)

end
