(* ===== verification/Packed_Tensors.thy ===== *)
theory Packed_Tensors
  imports Runtime_Base
begin

text \<open>
  The packed tensors of a quantized expert, as the loaders of the two images see them: their shapes, the
  slices a tensor-parallel rank takes, and \<open>copy_\<close> between tensors, with its broadcasting.
\<close>

text \<open>A tensor of the checkpoint: a trellis of three dimensions, scales or a marker of one.\<close>

datatype ('t, 'v) packed = Trellis "'t list list list" | Scales "'v list" | Marker "int list"

definition width_of :: "'a list list \<Rightarrow> nat" where
  "width_of rows = (case rows of [] \<Rightarrow> 0 | r # _ \<Rightarrow> length r)"

fun shape :: "('t, 'v) packed \<Rightarrow> nat list" where
  "shape (Trellis t) = [length t, width_of t, width_of (concat t)]"
| "shape (Scales v) = [length v]"
| "shape (Marker m) = [length m]"

text \<open>The elements of a slice, of a list or of one dimension.\<close>

definition narrow :: "nat \<Rightarrow> nat \<Rightarrow> 'a list \<Rightarrow> 'a list" where
  "narrow start n xs = take n (drop start xs)"

definition update_at :: "nat \<Rightarrow> ('a \<Rightarrow> 'a res) \<Rightarrow> 'a list \<Rightarrow> 'a list res" where
  "update_at i f xs = (if i < length xs then rbind (f (xs ! i)) (\<lambda>x. Inr (xs[i := x])) else Inl IndexError)"

lemma update_at_Inr: "update_at i f xs = Inr ys \<longleftrightarrow> i < length xs \<and> (\<exists>y. f (xs ! i) = Inr y \<and> ys = xs[i := y])"
  by (auto simp: update_at_def rbind_Inr_iff)

lemma length_narrow: "a + n \<le> length xs \<Longrightarrow> length (narrow a n xs) = n"
  by (simp add: narrow_def)

text \<open>Slices that follow each other are the list.\<close>

lemma narrow_append: "narrow a m xs @ narrow (a + m) n xs = narrow a (m + n) xs"
  by (simp add: narrow_def take_add add.commute)

lemma narrow_chain:
  assumes "\<And>r. r < n \<Longrightarrow> off (Suc r) = off r + width r" and "off 0 = 0"
  shows "concat (map (\<lambda>r. narrow (off r) (width r) xs) [0 ..< n]) = take (off n) xs"
  using assms(1)
proof (induction n)
  case 0
  then show ?case by (simp add: assms(2))
next
  case (Suc n)
  then have "concat (map (\<lambda>r. narrow (off r) (width r) xs) [0 ..< n]) = take (off n) xs" by simp
  then show ?case using Suc.prems[of n] by (simp add: narrow_def take_add)
qed

lemma narrow_tiles: "length xs = k * n \<Longrightarrow> concat (map (\<lambda>r. narrow (k * r) k xs) [0 ..< n]) = xs"
  using narrow_chain[of n "\<lambda>r. k * r" "\<lambda>r. k" xs] by simp

text \<open>\<open>narrow\<close> of torch, which refuses a slice outside the dimension, and \<open>copy_\<close> along one dimension.\<close>

definition slice :: "nat \<Rightarrow> nat \<Rightarrow> 'a list \<Rightarrow> 'a list res" where
  "slice start n xs = (if start + n \<le> length xs then Inr (narrow start n xs) else Inl RuntimeError)"

definition broadcast :: "nat \<Rightarrow> 'a list \<Rightarrow> 'a list res" where
  "broadcast n xs = (if length xs = n then Inr xs else if length xs = 1 then Inr (replicate n (hd xs)) else Inl RuntimeError)"

definition broadcast3 :: "nat \<Rightarrow> nat \<Rightarrow> nat \<Rightarrow> 'a list list list \<Rightarrow> 'a list list list res" where
  "broadcast3 a b c t = rbind (broadcast a t) (rmap (\<lambda>row. rbind (broadcast b row) (rmap (broadcast c))))"

lemma slice_Inr [res_simps]: "slice a n xs = Inr ys \<longleftrightarrow> a + n \<le> length xs \<and> ys = narrow a n xs"
  by (auto simp: slice_def)

lemma broadcast_same [simp]: "length xs = n \<Longrightarrow> broadcast n xs = Inr xs"
  by (simp add: broadcast_def)

lemma rmap_all: "(\<And>x. x \<in> set xs \<Longrightarrow> f x = Inr (g x)) \<Longrightarrow> rmap f xs = Inr (map g xs)"
  by (induction xs) auto

text \<open>A trellis with one shape: rows of tiles, and tiles of words.\<close>

definition tiles :: "nat \<Rightarrow> nat \<Rightarrow> nat \<Rightarrow> 't list list list \<Rightarrow> bool" where
  "tiles a b c t \<longleftrightarrow> length t = a \<and> list_all (\<lambda>row. length row = b \<and> list_all (\<lambda>tile. length tile = c) row) t"

lemma tilesD: "tiles a b c t \<Longrightarrow> length t = a" "tiles a b c t \<Longrightarrow> row \<in> set t \<Longrightarrow> length row = b"
  "tiles a b c t \<Longrightarrow> row \<in> set t \<Longrightarrow> tile \<in> set row \<Longrightarrow> length tile = c"
  by (auto simp: tiles_def list_all_iff)

lemma broadcast3_same: "tiles a b c t \<Longrightarrow> broadcast3 a b c t = Inr t"
proof -
  assume t: "tiles a b c t"
  have "rmap (broadcast c) row = Inr row" if "row \<in> set t" for row
    using rmap_all[of row "broadcast c" "\<lambda>x. x"] tilesD(3)[OF t that] by simp
  then have "rmap (\<lambda>row. rbind (broadcast b row) (rmap (broadcast c))) t = Inr t"
    using rmap_all[of t "\<lambda>row. rbind (broadcast b row) (rmap (broadcast c))" "\<lambda>x. x"] tilesD(2)[OF t] by simp
  then show ?thesis using tilesD(1)[OF t] by (simp add: broadcast3_def)
qed

end
