(* ===== verification/Moe_Load.thy ===== *)
theory Moe_Load
  imports Exl3_Names Packed_Tensors
begin

text \<open>
  The routed experts of the DeepSeek V4.1 image (\<open>patches/exl3_moe.py\<close>): the method of a layer, the uneven
  split of the intermediate dimension over tensor-parallel ranks, the parameters of a rank, the two
  protocols that load them and the row block of the GEMM.
\<close>

definition TILE :: nat where
  "TILE = 16"

subsection \<open>The method\<close>

text \<open>
  \<open>tp_size\<close> and \<open>tp_rank\<close> are attributes of vllm's configuration that may be missing. \<open>code_int\<close> and
  \<open>scale_int\<close> are \<open>int()\<close> of an element.
\<close>

record ('t, 'v) moe_method =
  tp_size_attr :: "nat option"
  tp_rank_attr :: "nat option"
  method_limit :: "'v option"
  w13_bits :: nat
  w2_bits :: nat
  moe_cb :: codebook_id
  code_int :: "'t \<Rightarrow> int"
  scale_int :: "'v \<Rightarrow> int"

definition cb_name :: "('t, 'v) moe_method \<Rightarrow> string option" where
  "cb_name m = (case moe_cb m of CB_3INST \<Rightarrow> None | CB_MCG \<Rightarrow> Some ''mcg'' | CB_MUL1 \<Rightarrow> Some ''mul1'')"

definition moe_init ::
    "nat option \<Rightarrow> nat option \<Rightarrow> ('t \<Rightarrow> int) \<Rightarrow> ('v \<Rightarrow> int) \<Rightarrow> module_info \<Rightarrow> module_info \<Rightarrow> module_info \<Rightarrow>
     'v::linordered_idom option \<Rightarrow> ('t, 'v) moe_method res" where
  "moe_init sz rk ci si gate up down limit =
     (if info_bits gate \<noteq> info_bits up then Inl ValueError
      else if \<not> (info_cb gate = info_cb up \<and> info_cb up = info_cb down) then Inl ValueError
      else Inr \<lparr>tp_size_attr = sz, tp_rank_attr = rk,
        method_limit = (case limit of None \<Rightarrow> None | Some l \<Rightarrow> if l > 0 then Some l else None),
        w13_bits = info_bits gate, w2_bits = info_bits down, moe_cb = info_cb gate, code_int = ci, scale_int = si\<rparr>)"

text \<open>\<open>getattr(moe, "tp_size", 1) or 1\<close>; without a rank, more than one shard is an error.\<close>

definition tp_size :: "('t, 'v) moe_method \<Rightarrow> nat" where
  "tp_size m = (case tp_size_attr m of None \<Rightarrow> 1 | Some n \<Rightarrow> if n = 0 then 1 else n)"

definition tp_rank :: "('t, 'v) moe_method \<Rightarrow> nat res" where
  "tp_rank m = (case tp_rank_attr m of None \<Rightarrow> if tp_size m > 1 then Inl RuntimeError else Inr 0 | Some r \<Rightarrow> Inr r)"

text \<open>The blocks of each rank: the remainder goes one by one to the ranks from 1.\<close>

definition block_counts :: "nat \<Rightarrow> nat \<Rightarrow> nat list" where
  "block_counts nblk tp =
     fold (\<lambda>i counts. counts[1 + i := counts ! (1 + i) + 1]) [0 ..< nblk mod tp] (replicate tp (nblk div tp))"

text \<open>The width of this rank and its column offset; a rank out of range would read past the counts.\<close>

definition tp_split :: "('t, 'v) moe_method \<Rightarrow> nat \<Rightarrow> (nat \<times> nat) res" where
  "tp_split m I_even =
     (let tp = tp_size m in
      rbind (tp_rank m) (\<lambda>r.
      let all_cols = I_even * tp
      in if tp \<le> 1 \<or> I_even mod 128 = 0 \<or> all_cols mod 128 \<noteq> 0 then Inr (I_even, r * I_even)
         else
           let counts = block_counts (all_cols div 128) tp;
               off = sum_list (take r counts) * 128
           in if r < length counts then Inr (counts ! r * 128, off) else Inl IndexError))"

subsection \<open>The parameters of a layer\<close>

text \<open>
  The entries of one expert in the stacked parameters. The two multipliers exist when the codebook has a
  name; \<open>torch.empty\<close> leaves whatever the memory held: \<open>ft\<close>, \<open>fv\<close> and \<open>fm\<close> stand for it.
\<close>

record ('t, 'v) moe_params =
  w13_trellis :: "'t list list list"
  w2_trellis :: "'t list list list"
  w13_suh :: "'v list list"
  w2_suh :: "'v list"
  w13_svh :: "'v list"
  w2_svh :: "'v list"
  w13_mult :: "int list"
  w2_mult :: "int list"

record ('t, 'v) moe_layer =
  moe_experts :: "('t, 'v) moe_params list"
  exl3_inter :: nat
  exl3_inter_off :: "nat option"
  expert_map :: "int list option"

definition create_moe_weights ::
    "('t, 'v) moe_method \<Rightarrow> 't \<Rightarrow> 'v \<Rightarrow> int \<Rightarrow> int list option \<Rightarrow> nat \<Rightarrow> nat \<Rightarrow> nat \<Rightarrow> ('t, 'v) moe_layer res" where
  "create_moe_weights m ft fv fm emap E H I_even =
     rbind (tp_split m I_even) (\<lambda>(I, I_off). Inr
       \<lparr>moe_experts = replicate E
          \<lparr>w13_trellis = replicate (H div TILE) (replicate (2 * I div TILE) (replicate (TILE * w13_bits m) ft)),
           w2_trellis = replicate (I div TILE) (replicate (H div TILE) (replicate (TILE * w2_bits m) ft)),
           w13_suh = [replicate H fv, replicate H fv], w2_suh = replicate I fv,
           w13_svh = replicate (2 * I) fv, w2_svh = replicate H fv,
           w13_mult = [fm, fm], w2_mult = [fm]\<rparr>,
        exl3_inter = I, exl3_inter_off = Some I_off, expert_map = emap\<rparr>)"

subsection \<open>Placing a tensor\<close>

text \<open>\<open>emap[expert_id]\<close> takes a negative id from the end; without a map the id is local.\<close>

definition local_expert :: "int list option \<Rightarrow> int \<Rightarrow> int res" where
  "local_expert emap_attr expert_id = (case emap_attr of
       None \<Rightarrow> Inr expert_id
     | Some emap \<Rightarrow>
         if expert_id < int (length emap)
         then (if 0 \<le> expert_id then Inr (emap ! nat expert_id)
               else if 0 \<le> expert_id + int (length emap) then Inr (emap ! nat (expert_id + int (length emap)))
               else Inl IndexError)
         else Inr (- 1))"

text \<open>\<open>int(w.reshape(-1)[0])\<close>.\<close>

definition first_int :: "('t, 'v) moe_method \<Rightarrow> ('t, 'v) packed \<Rightarrow> int res" where
  "first_int m w = (case w of
       Marker (x # _) \<Rightarrow> Inr x
     | Scales (x # _) \<Rightarrow> Inr (scale_int m x)
     | Trellis t \<Rightarrow> (case concat (concat t) of [] \<Rightarrow> Inl IndexError | x # _ \<Rightarrow> Inr (code_int m x))
     | _ \<Rightarrow> Inl IndexError)"

text \<open>
  The slices and copies of the three kinds of destination, of columns of tiles, of rows of tiles and of
  scales. A tensor whose kind is not that of its suffix counts as one of another shape.
\<close>

definition take_cols :: "nat \<Rightarrow> nat \<Rightarrow> nat \<Rightarrow> nat \<Rightarrow> ('t, 'v) packed \<Rightarrow> 't list list list res" where
  "take_cols start n rows words w = (case w of
       Trellis t \<Rightarrow> rbind (rmap (slice start n) t) (broadcast3 rows n words)
     | _ \<Rightarrow> Inl RuntimeError)"

definition take_rows :: "nat \<Rightarrow> nat \<Rightarrow> nat \<Rightarrow> nat \<Rightarrow> ('t, 'v) packed \<Rightarrow> 't list list list res" where
  "take_rows start n cols words w = (case w of
       Trellis t \<Rightarrow> rbind (slice start n t) (broadcast3 n cols words)
     | _ \<Rightarrow> Inl RuntimeError)"

definition take_scales :: "nat \<Rightarrow> nat \<Rightarrow> ('t, 'v) packed \<Rightarrow> 'v list res" where
  "take_scales start n w = (case w of
       Scales v \<Rightarrow> rbind (slice start n v) (broadcast n)
     | _ \<Rightarrow> Inl RuntimeError)"

definition copy_scales :: "nat \<Rightarrow> ('t, 'v) packed \<Rightarrow> 'v list res" where
  "copy_scales n w = (case w of Scales v \<Rightarrow> broadcast n v | _ \<Rightarrow> Inl RuntimeError)"

text \<open>The columns of \<open>dest.narrow(dim, start, n)\<close> replaced.\<close>

definition put_slice :: "nat \<Rightarrow> 'a list \<Rightarrow> 'a list \<Rightarrow> 'a list" where
  "put_slice start xs dest = take start dest @ xs @ drop (start + length xs) dest"

definition words_of :: "'t list list list \<Rightarrow> nat" where
  "words_of t = width_of (concat t)"

definition place_expert ::
    "('t, 'v) moe_method \<Rightarrow> nat \<Rightarrow> string \<Rightarrow> string \<Rightarrow> ('t, 'v) packed \<Rightarrow> ('t, 'v) moe_params \<Rightarrow> ('t, 'v) moe_params res" where
  "place_expert m off proj suffix w p =
     (if proj = ''down_proj'' then
        (if suffix = ''trellis'' then
           rbind (take_rows (off div TILE) (length (w2_trellis p)) (width_of (w2_trellis p)) (words_of (w2_trellis p)) w)
             (\<lambda>t. Inr (p\<lparr>w2_trellis := t\<rparr>))
         else if suffix = ''suh'' then rbind (take_scales off (length (w2_suh p)) w) (\<lambda>v. Inr (p\<lparr>w2_suh := v\<rparr>))
         else if suffix = ''svh'' then rbind (copy_scales (length (w2_svh p)) w) (\<lambda>v. Inr (p\<lparr>w2_svh := v\<rparr>))
         else rbind (first_int m w) (\<lambda>x. Inr (p\<lparr>w2_mult := (w2_mult p)[0 := x]\<rparr>)))
      else
        let half = (if proj = ''gate_proj'' then 0 else 1)
        in if suffix = ''trellis'' then
             let part = width_of (w13_trellis p) div 2
             in rbind (take_cols (off div TILE) part (length (w13_trellis p)) (words_of (w13_trellis p)) w)
                  (\<lambda>t. Inr (p\<lparr>w13_trellis := map2 (put_slice (half * part)) t (w13_trellis p)\<rparr>))
           else if suffix = ''suh'' then
             rbind (copy_scales (width_of (w13_suh p)) w) (\<lambda>v. Inr (p\<lparr>w13_suh := (w13_suh p)[half := v]\<rparr>))
           else if suffix = ''svh'' then
             let part = length (w13_svh p) div 2
             in rbind (take_scales off part w) (\<lambda>v. Inr (p\<lparr>w13_svh := put_slice (half * part) v (w13_svh p)\<rparr>))
           else rbind (first_int m w) (\<lambda>x. Inr (p\<lparr>w13_mult := (w13_mult p)[half := x]\<rparr>)))"

text \<open>The parameter a tensor goes to; none for a multiplier that the codebook does not have.\<close>

definition param_name :: "('t, 'v) moe_method \<Rightarrow> string \<Rightarrow> string \<Rightarrow> string option" where
  "param_name m proj suffix =
     (let stem = (if proj = ''down_proj'' then ''w2_'' else ''w13_'')
      in if suffix \<in> {''trellis'', ''suh'', ''svh''} then Some (stem @ suffix) else map_option ((@) stem) (cb_name m))"

definition place ::
    "('t, 'v) moe_method \<Rightarrow> nat \<Rightarrow> string \<Rightarrow> string \<Rightarrow> ('t, 'v) packed \<Rightarrow> ('t, 'v) moe_layer \<Rightarrow> (string option \<times> ('t, 'v) moe_layer) res" where
  "place m e proj suffix w layer =
     rbind (tp_rank m) (\<lambda>r.
     let off = (case exl3_inter_off layer of None \<Rightarrow> r * exl3_inter layer | Some off \<Rightarrow> off)
     in case param_name m proj suffix of
          None \<Rightarrow> Inr (None, layer)
        | Some name \<Rightarrow>
            rbind (update_at e (place_expert m off proj suffix w) (moe_experts layer)) (\<lambda>ps.
              Inr (Some name, layer\<lparr>moe_experts := ps\<rparr>)))"

subsection \<open>The two protocols\<close>

definition SHARD_TO_PROJ :: "(string \<times> string) list" where
  "SHARD_TO_PROJ = [(''w1'', ''gate_proj''), (''w3'', ''up_proj''), (''w2'', ''down_proj'')]"

text \<open>The tensors of the experts, all at once: anything that is not \<open><id>.<projection>...<suffix>\<close> is left.\<close>

definition is_digits :: "string \<Rightarrow> bool" where
  "is_digits s \<longleftrightarrow> s \<noteq> [] \<and> list_all (\<lambda>c. c \<in> set ''0123456789'') s"

definition expert_part :: "string \<Rightarrow> (int \<times> string \<times> string) option res" where
  "expert_part name =
     (let parts = split_on (CHR ''.'') name
      in if length parts < 3 \<or> \<not> is_digits (parts ! 0) then Inr None
         else rbind (py_int (parts ! 0)) (\<lambda>e.
           Inr (Some (e, case map_of SHARD_TO_PROJ (parts ! 1) of None \<Rightarrow> parts ! 1 | Some proj \<Rightarrow> proj, last parts))))"

fun load_weights ::
    "('t, 'v) moe_method \<Rightarrow> (string \<times> ('t, 'v) packed) list \<Rightarrow> string list \<times> ('t, 'v) moe_layer \<Rightarrow> (string list \<times> ('t, 'v) moe_layer) res" where
  "load_weights m [] (loaded, layer) = Inr (loaded, layer)"
| "load_weights m ((name, w) # weights) (loaded, layer) =
     rbind (expert_part name) (\<lambda>part. case part of
         None \<Rightarrow> load_weights m weights (loaded, layer)
       | Some (e, proj, suffix) \<Rightarrow>
           rbind (local_expert (expert_map layer) e) (\<lambda>l.
           if l < 0 then load_weights m weights (loaded, layer)
           else
             rbind (place m (nat l) proj suffix w layer) (\<lambda>(pname, layer).
             load_weights m weights (case pname of None \<Rightarrow> loaded | Some n \<Rightarrow> List.insert n loaded, layer))))"

text \<open>
  One parameter's tensor, by vllm's newer protocol: declined without a shard or an expert, for a shard that
  is not an expert's, and for an expert of another rank.
\<close>

definition param_tail :: "string option \<Rightarrow> string" where
  "param_tail weight_name =
     (let name = (case weight_name of None \<Rightarrow> [] | Some n \<Rightarrow> n);
          tail = last (split_on (CHR ''.'') (rev (dropWhile (\<lambda>c. c = CHR ''.'') (rev name))))
      in if starts_with ''w13_'' tail then drop 4 tail
         else if starts_with ''w2_'' tail then drop 3 tail
         else tail)"

definition moe_weight_loader ::
    "('t, 'v) moe_method \<Rightarrow> ('t, 'v) packed \<Rightarrow> string option \<Rightarrow> string option \<Rightarrow> int option \<Rightarrow> bool \<Rightarrow> ('t, 'v) moe_layer \<Rightarrow>
     (bool option \<times> ('t, 'v) moe_layer) res" where
  "moe_weight_loader m w weight_name shard_id expert_id return_success layer =
     (let answer = (\<lambda>ok. if return_success then Some ok else None)
      in case (shard_id, expert_id) of
           (Some s, Some e) \<Rightarrow>
             (case map_of SHARD_TO_PROJ s of
                None \<Rightarrow> Inr (answer False, layer)
              | Some proj \<Rightarrow>
                  rbind (local_expert (expert_map layer) e) (\<lambda>l.
                  if l < 0 then Inr (answer False, layer)
                  else rbind (place m (nat l) proj (param_tail weight_name) w layer) (\<lambda>(pname, layer).
                    Inr (answer (pname \<noteq> None), layer))))
         | _ \<Rightarrow> Inr (answer False, layer))"

subsection \<open>After loading, and the row block\<close>

text \<open>
  The workspace of the split GEMM, claimed before graphs are captured: \<open>acc_cap\<close> and \<open>reserve\<close> are the
  two operations of the extension, and nothing they raise gets out. The result is what was reserved.
\<close>

definition reserve_accumulator :: "int res \<Rightarrow> (int \<Rightarrow> unit res) \<Rightarrow> int option" where
  "reserve_accumulator acc_cap reserve = (case acc_cap of
       Inl e \<Rightarrow> None
     | Inr cap \<Rightarrow> if cap \<le> 0 then None else case reserve cap of Inl e \<Rightarrow> None | Inr _ \<Rightarrow> Some cap)"

text \<open>The tier of \<open>rows / max(num_experts, 1)\<close>, compared without the division.\<close>

definition block_m :: "(string \<Rightarrow> string option) \<Rightarrow> nat \<Rightarrow> nat \<Rightarrow> int res" where
  "block_m env rows num_experts = (case env ''CUDA_EXL3_MOE_BLOCK_M'' of
       Some (c # cs) \<Rightarrow> py_int (c # cs)
     | _ \<Rightarrow>
         let n = max num_experts 1
         in Inr (if rows < 16 * n then 16 else if rows < 48 * n then 32 else if rows < 96 * n then 64 else 128))"

text \<open>The clamped SwiGLU of a row, with \<open>silu\<close> as an argument.\<close>

definition clamped_swiglu_reference :: "('v::linordered_idom \<Rightarrow> 'v) \<Rightarrow> 'v list \<Rightarrow> 'v option \<Rightarrow> 'v list" where
  "clamped_swiglu_reference silu row limit =
     (let I = length row div 2;
          clamp_g = (\<lambda>g. case limit of Some l \<Rightarrow> if l > 0 then min g l else g | None \<Rightarrow> g);
          clamp_u = (\<lambda>u. case limit of Some l \<Rightarrow> if l > 0 then max (- l) (min u l) else u | None \<Rightarrow> u)
      in map2 (\<lambda>g u. silu (clamp_g g) * clamp_u u) (take I row) (drop I row))"

subsection \<open>The split\<close>

lemma block_counts_fold:
  "k < tp \<Longrightarrow> fold (\<lambda>i counts. counts[1 + i := counts ! (1 + i) + 1]) [0 ..< k] (replicate tp b)
     = map (\<lambda>i. if 1 \<le> i \<and> i \<le> k then b + 1 else b) [0 ..< tp]"
proof (induction k)
  case 0
  then show ?case by (simp add: list_eq_iff_nth_eq)
next
  case (Suc k)
  then show ?case by (auto simp: list_eq_iff_nth_eq nth_list_update)
qed

lemma block_counts_map:
  "0 < tp \<Longrightarrow> block_counts n tp = map (\<lambda>i. if 1 \<le> i \<and> i \<le> n mod tp then n div tp + 1 else n div tp) [0 ..< tp]"
  using block_counts_fold[of "n mod tp" tp "n div tp"] by (simp add: block_counts_def)

lemma length_block_counts [simp]: "0 < tp \<Longrightarrow> length (block_counts n tp) = tp"
  by (simp add: block_counts_map)

lemma sum_bounded: "sum_list (map (\<lambda>i. if 1 \<le> i \<and> i \<le> k then b + 1 else b) [0 ..< n]) = (n * b + min k (n - 1) :: nat)"
  by (induction n) auto

lemma sum_block_counts:
  assumes "0 < tp"
  shows "sum_list (block_counts n tp) = n"
proof -
  have "n mod tp \<le> tp - 1" using assms mod_less_divisor[of tp n] by linarith
  then have "min (n mod tp) (tp - 1) = n mod tp" by simp
  then have "sum_list (block_counts n tp) = tp * (n div tp) + n mod tp"
    by (simp only: block_counts_map[OF assms] sum_bounded)
  then show ?thesis by simp
qed

definition on_rank :: "('t, 'v) moe_method \<Rightarrow> nat \<Rightarrow> nat \<Rightarrow> ('t, 'v) moe_method" where
  "on_rank m tp r = m\<lparr>tp_size_attr := Some tp, tp_rank_attr := Some r\<rparr>"

lemma on_rank_simps [simp]:
  "0 < tp \<Longrightarrow> tp_size (on_rank m tp r) = tp" "tp_rank (on_rank m tp r) = Inr r" "cb_name (on_rank m tp r) = cb_name m"
  "w13_bits (on_rank m tp r) = w13_bits m" "w2_bits (on_rank m tp r) = w2_bits m"
  by (simp_all add: on_rank_def tp_size_def tp_rank_def cb_name_def)

definition cols_tiled :: "('t, 'v) moe_method \<Rightarrow> nat \<Rightarrow> nat \<Rightarrow> (nat \<Rightarrow> nat) \<Rightarrow> (nat \<Rightarrow> nat) \<Rightarrow> bool" where
  "cols_tiled m tp I_even width off \<longleftrightarrow> (\<forall>r < tp. tp_split (on_rank m tp r) I_even = Inr (width r, off r)) \<and>
    off 0 = 0 \<and> (\<forall>r < tp. off (Suc r) = off r + width r) \<and> off tp = I_even * tp"

lemma split_tiled:
  assumes "0 < tp"
  shows "\<exists>width off. cols_tiled m tp I_even width off \<and>
    (128 dvd I_even * tp \<longrightarrow> (\<forall>r < tp. 128 dvd width r \<and> 128 dvd off r \<and> width 0 \<le> width r \<and> width r \<le> width 0 + 128)) \<and>
    (16 dvd I_even \<longrightarrow> (\<forall>r < tp. 16 dvd width r \<and> 16 dvd off r))"
proof (cases "tp \<le> 1 \<or> I_even mod 128 = 0 \<or> I_even * tp mod 128 \<noteq> 0")
  case True
  have "128 dvd I_even" if "128 dvd I_even * tp" using True that assms by (cases "tp = 1") auto
  with True assms show ?thesis
    by (intro exI[of _ "\<lambda>r. I_even"] exI[of _ "\<lambda>r. r * I_even"]) (auto simp: tp_split_def Let_def cols_tiled_def)
next
  case False
  define counts where "counts = block_counts (I_even * tp div 128) tp"
  have len: "length counts = tp" using assms by (simp add: counts_def)
  have all_cols: "sum_list counts * 128 = I_even * tp"
    using False sum_block_counts[OF assms] by (simp add: counts_def dvd_div_mult_self mod_eq_0_iff_dvd)
  have split: "tp_split (on_rank m tp r) I_even = Inr (counts ! r * 128, sum_list (take r counts) * 128)" if "r < tp" for r
    using False that len assms by (simp add: tp_split_def Let_def counts_def)
  have next_off: "sum_list (take (Suc r) counts) * 128 = sum_list (take r counts) * 128 + counts ! r * 128" if "r < tp" for r
    using that len by (simp add: take_Suc_conv_app_nth)
  have "counts ! 0 \<le> counts ! r \<and> counts ! r \<le> counts ! 0 + 1" if "r < tp" for r
    using that assms by (simp add: counts_def block_counts_map)
  then have near: "counts ! 0 * 128 \<le> counts ! r * 128 \<and> counts ! r * 128 \<le> counts ! 0 * 128 + 128" if "r < tp" for r
    using that by fastforce
  have "(16 :: nat) dvd 128" by simp
  then show ?thesis
    using split next_off near all_cols len
    by (intro exI[of _ "\<lambda>r. counts ! r * 128"] exI[of _ "\<lambda>r. sum_list (take r counts) * 128"]) (simp add: cols_tiled_def)
qed

text \<open>
  The ranks tile the intermediate dimension: every rank gets a width and an offset, the first offset
  is 0, each rank starts where the one before it ends and the last ends at the full width; when the full
  width is whole blocks of 128 columns, so is every width and offset, no rank has more than one block
  above another, and none has less than rank 0.
\<close>

lemma ranks_tile_the_columns:
  assumes "0 < tp" and "128 dvd I_even * tp"
  shows "\<exists>width off. list_all (\<lambda>r. tp_split (on_rank m tp r) I_even = Inr (width r, off r) \<and> off (Suc r) = off r + width r \<and>
      128 dvd width r \<and> 128 dvd off r \<and> width 0 \<le> width r \<and> width r \<le> width 0 + 128) [0 ..< tp] \<and>
    off 0 = 0 \<and> off tp = I_even * tp"
proof -
  obtain width off where "cols_tiled m tp I_even width off"
    "\<forall>r < tp. 128 dvd width r \<and> 128 dvd off r \<and> width 0 \<le> width r \<and> width r \<le> width 0 + 128"
    using split_tiled[OF assms(1), of m I_even] assms(2) by blast
  then show ?thesis by (intro exI[of _ width] exI[of _ off]) (simp add: list_all_iff cols_tiled_def)
qed

lemma split_aligned:
  assumes "0 < tp" and "16 dvd I_even \<or> 128 dvd I_even * tp"
  shows "\<exists>width off. (\<forall>r < tp. tp_split (on_rank m tp r) I_even = Inr (width r, off r)) \<and>
    (\<forall>r < tp. off (Suc r) = off r + width r) \<and> off 0 = 0 \<and> off tp = I_even * tp \<and> (\<forall>r < tp. 16 dvd width r \<and> 16 dvd off r)"
proof -
  have "16 dvd n" if "128 dvd n" for n :: nat using dvd_trans[of 16 128 n] that by simp
  then show ?thesis using split_tiled[OF assms(1), of m I_even] assms(2) unfolding cols_tiled_def by metis
qed

subsection \<open>What a load leaves in the parameters\<close>

text \<open>
  Where a tensor of a projection is in the parameters of its expert: the halves of the fused stacks for
  gate and up. Any projection but gate and down counts as up, and any suffix but three as the multiplier.
\<close>

definition half_of :: "string \<Rightarrow> nat" where
  "half_of proj = (if proj = ''gate_proj'' then 0 else 1)"

definition stored :: "('t, 'v) moe_params \<Rightarrow> string \<times> string \<Rightarrow> ('t, 'v) packed" where
  "stored p key = (case key of (proj, suffix) \<Rightarrow>
     if proj = ''down_proj'' then
       (if suffix = ''trellis'' then Trellis (w2_trellis p) else if suffix = ''suh'' then Scales (w2_suh p)
        else if suffix = ''svh'' then Scales (w2_svh p) else Marker (w2_mult p))
     else
       (if suffix = ''trellis'' then Trellis (map (\<lambda>row. narrow (half_of proj * (length row div 2)) (length row div 2) row) (w13_trellis p))
        else if suffix = ''suh'' then Scales (w13_suh p ! half_of proj)
        else if suffix = ''svh'' then
          Scales (narrow (half_of proj * (length (w13_svh p) div 2)) (length (w13_svh p) div 2) (w13_svh p))
        else Marker [w13_mult p ! half_of proj]))"

definition known_place :: "string \<times> string \<Rightarrow> bool" where
  "known_place key \<longleftrightarrow> fst key \<in> {''gate_proj'', ''up_proj'', ''down_proj''} \<and> snd key \<in> {''trellis'', ''suh'', ''svh'', ''mult''}"

definition place_of :: "string \<Rightarrow> string \<Rightarrow> string \<times> string" where
  "place_of proj suffix =
     (if proj \<in> {''gate_proj'', ''down_proj''} then proj else ''up_proj'',
      if suffix \<in> {''trellis'', ''suh'', ''svh''} then suffix else ''mult'')"

text \<open>The slice of a rank, and the tensors of the checkpoint that have the shape of the layer.\<close>

definition rank_part :: "('t, 'v) moe_method \<Rightarrow> nat \<Rightarrow> nat \<Rightarrow> string \<times> string \<Rightarrow> ('t, 'v) packed \<Rightarrow> ('t, 'v) packed" where
  "rank_part m off I key w = (case key of (proj, suffix) \<Rightarrow>
     if suffix = ''trellis'' then (case w of
         Trellis t \<Rightarrow> Trellis (if proj = ''down_proj'' then narrow (off div 16) (I div 16) t else map (narrow (off div 16) (I div 16)) t)
       | _ \<Rightarrow> w)
     else if suffix = ''suh'' \<and> proj = ''down_proj'' \<or> suffix = ''svh'' \<and> proj \<noteq> ''down_proj'' then (case w of
         Scales v \<Rightarrow> Scales (narrow off I v) | _ \<Rightarrow> w)
     else if suffix = ''mult'' then Marker [projr (first_int m w)]
     else w)"

definition fits :: "('t, 'v) moe_method \<Rightarrow> nat \<Rightarrow> nat \<Rightarrow> string \<times> string \<Rightarrow> ('t, 'v) packed \<Rightarrow> bool" where
  "fits m H cols key w = (case key of (proj, suffix) \<Rightarrow>
     if suffix = ''trellis'' then (case w of
         Trellis t \<Rightarrow> if proj = ''down_proj'' then tiles (cols div 16) (H div 16) (16 * w2_bits m) t
                      else tiles (H div 16) (cols div 16) (16 * w13_bits m) t
       | _ \<Rightarrow> False)
     else if suffix = ''suh'' then (case w of Scales v \<Rightarrow> length v = (if proj = ''down_proj'' then cols else H) | _ \<Rightarrow> False)
     else if suffix = ''svh'' then (case w of Scales v \<Rightarrow> length v = (if proj = ''down_proj'' then H else cols) | _ \<Rightarrow> False)
     else first_int m w \<noteq> Inl IndexError)"

definition params_ok :: "('t, 'v) moe_method \<Rightarrow> nat \<Rightarrow> nat \<Rightarrow> ('t, 'v) moe_params \<Rightarrow> bool" where
  "params_ok m H I p \<longleftrightarrow> tiles (H div 16) (2 * (I div 16)) (16 * w13_bits m) (w13_trellis p) \<and>
     tiles (I div 16) (H div 16) (16 * w2_bits m) (w2_trellis p) \<and>
     length (w13_suh p) = 2 \<and> list_all (\<lambda>v. length v = H) (w13_suh p) \<and> length (w2_suh p) = I \<and>
     length (w13_svh p) = 2 * I \<and> length (w2_svh p) = H \<and> length (w13_mult p) = 2 \<and> length (w2_mult p) = 1"

lemma first_int_cases: "first_int m w = Inl IndexError \<or> (\<exists>x. first_int m w = Inr x)"
  by (auto simp: first_int_def split: packed.split list.split)

lemma put_slice_half:
  "length xs = n \<Longrightarrow> length dest = 2 * n \<Longrightarrow> h < 2 \<Longrightarrow> h' < 2 \<Longrightarrow>
    length (put_slice (h * n) xs dest) = 2 * n \<and> narrow (h' * n) n (put_slice (h * n) xs dest) = (if h' = h then xs else narrow (h' * n) n dest)"
  by (auto simp: put_slice_def narrow_def less_2_cases_iff)

lemma half_of_simps [simp]: "half_of ''gate_proj'' = 0" "half_of ''up_proj'' = 1" "half_of p < 2"
  by (simp_all add: half_of_def)

lemma width_of_tiles: "tiles a b c t \<Longrightarrow> 0 < a \<Longrightarrow> width_of t = b"
  by (cases t) (auto simp: tiles_def width_of_def)

lemma words_of_tiles: "tiles a b c t \<Longrightarrow> 0 < a \<Longrightarrow> 0 < b \<Longrightarrow> words_of t = c"
  by (cases t; cases "hd t") (auto simp: tiles_def words_of_def width_of_def)

lemma tiles_narrow_rows: "tiles a b c t \<Longrightarrow> s + n \<le> a \<Longrightarrow> tiles n b c (narrow s n t)"
  by (auto simp: tiles_def list_all_iff narrow_def dest!: in_set_takeD in_set_dropD)

lemma tiles_narrow_cols: "tiles a b c t \<Longrightarrow> s + n \<le> b \<Longrightarrow> tiles a n c (map (narrow s n) t)"
  by (auto simp: tiles_def list_all_iff narrow_def dest!: in_set_takeD in_set_dropD)

lemma broadcast3_empty_cols:
  assumes "length t = a" and "list_all (\<lambda>row. row = []) t"
  shows "broadcast3 a 0 c t = Inr t"
proof -
  have "rmap (\<lambda>row. rbind (broadcast 0 row) (rmap (broadcast c))) t = Inr (map (\<lambda>x. x) t)"
    by (rule rmap_all) (use assms(2) in \<open>auto simp: list_all_iff\<close>)
  then show ?thesis using assms(1) by (simp add: broadcast3_def)
qed

lemma take_cols_fits:
  assumes "tiles a b c t" and "s + n \<le> b" and "n = 0 \<or> words = c"
  shows "take_cols s n a words (Trellis t) = Inr (map (narrow s n) t)"
proof -
  have "rmap (slice s n) t = Inr (map (narrow s n) t)"
    by (rule rmap_all) (use assms(1,2) in \<open>auto simp: slice_def tilesD(2)\<close>)
  moreover have "broadcast3 a n words (map (narrow s n) t) = Inr (map (narrow s n) t)"
    using assms(3) broadcast3_same[OF tiles_narrow_cols[OF assms(1,2)]]
      broadcast3_empty_cols[of "map (narrow s n) t" a words] tilesD(1)[OF assms(1)]
    by (auto simp: narrow_def list_all_iff)
  ultimately show ?thesis by (simp add: take_cols_def)
qed

lemma take_rows_fits:
  assumes "tiles a b c t" and "s + n \<le> a" and "n = 0 \<or> cols = b \<and> words = c"
  shows "take_rows s n cols words (Trellis t) = Inr (narrow s n t)"
proof -
  have "slice s n t = Inr (narrow s n t)" using assms(1,2) by (simp add: slice_def tilesD(1))
  moreover have "broadcast3 n cols words (narrow s n t) = Inr (narrow s n t)"
    using assms(3) broadcast3_same[OF tiles_narrow_rows[OF assms(1,2)]] by (auto simp: narrow_def broadcast3_def)
  ultimately show ?thesis by (simp add: take_rows_def)
qed

lemma place_of_known: "known_place (place_of proj suffix)"
  by (simp add: known_place_def place_of_def)

lemma tiles_put_cols:
  assumes "tiles a n c t" and "tiles a (2 * n) c d" and "h < 2"
  shows "tiles a (2 * n) c (map2 (put_slice (h * n)) t d)"
proof -
  have len: "length (put_slice (h * n) x y) = 2 * n" if "x \<in> set t" "y \<in> set d" for x y
    using put_slice_half[of x n y h 0] tilesD(2)[OF assms(1) that(1)] tilesD(2)[OF assms(2) that(2)] assms(3) by simp
  have elems: "set (put_slice (h * n) x y) \<subseteq> set x \<union> set y" for x y :: "'a list list"
    by (auto simp: put_slice_def dest: in_set_takeD in_set_dropD)
  have "length row = 2 * n \<and> (\<forall>tile \<in> set row. length tile = c)" if row: "row \<in> set (map2 (put_slice (h * n)) t d)" for row
  proof -
    obtain x y where xy: "row = put_slice (h * n) x y" "x \<in> set t" "y \<in> set d"
      using row by (auto dest: set_zip_leftD set_zip_rightD)
    show ?thesis using len[OF xy(2,3)] elems[of x y] tilesD(3)[OF assms(1) xy(2)] tilesD(3)[OF assms(2) xy(3)] xy(1) by blast
  qed
  then show ?thesis using tilesD(1)[OF assms(1)] tilesD(1)[OF assms(2)] by (simp add: tiles_def list_all_iff)
qed

lemma put_cols_halves:
  assumes "tiles a n c t" and "tiles a (2 * n) c d" and "h < 2" and "h' < 2"
  shows "map (\<lambda>row. narrow (h' * (length row div 2)) (length row div 2) row) (map2 (put_slice (h * n)) t d) =
    (if h' = h then t else map (\<lambda>row. narrow (h' * (length row div 2)) (length row div 2) row) d)"
proof (rule nth_equalityI)
  show "length (map (\<lambda>row. narrow (h' * (length row div 2)) (length row div 2) row) (map2 (put_slice (h * n)) t d)) =
    length (if h' = h then t else map (\<lambda>row. narrow (h' * (length row div 2)) (length row div 2) row) d)"
    using tilesD(1)[OF assms(1)] tilesD(1)[OF assms(2)] by simp
next
  fix i assume "i < length (map (\<lambda>row. narrow (h' * (length row div 2)) (length row div 2) row) (map2 (put_slice (h * n)) t d))"
  then have i: "i < length t" "i < length d" by simp_all
  have "length (t ! i) = n" "length (d ! i) = 2 * n"
    using tilesD(2)[OF assms(1) nth_mem[OF i(1)]] tilesD(2)[OF assms(2) nth_mem[OF i(2)]] by simp_all
  from put_slice_half[OF this assms(3,4)] this
  show "map (\<lambda>row. narrow (h' * (length row div 2)) (length row div 2) row) (map2 (put_slice (h * n)) t d) ! i =
    (if h' = h then t else map (\<lambda>row. narrow (h' * (length row div 2)) (length row div 2) row) d) ! i"
    using i by simp
qed

definition placed ::
    "('t, 'v) moe_method \<Rightarrow> nat \<Rightarrow> nat \<Rightarrow> nat \<Rightarrow> string \<times> string \<Rightarrow> ('t, 'v) packed \<Rightarrow> ('t, 'v) moe_params \<Rightarrow> ('t, 'v) moe_params \<Rightarrow> bool" where
  "placed m H I off key w p p' \<longleftrightarrow> stored p' key = rank_part m off I key w \<and> params_ok m H I p' \<and>
     (\<forall>k. known_place k \<longrightarrow> k \<noteq> key \<longrightarrow> stored p' k = stored p k)"

lemma place_down:
  assumes ok: "params_ok m H I p" and fit: "fits m H cols (''down_proj'', snd (place_of proj suffix)) w" and proj: "proj = ''down_proj''"
    and bounds: "off + I \<le> cols" "16 dvd off" "16 dvd I" "0 < H div 16"
  shows "\<exists>p'. place_expert m off proj suffix w p = Inr p' \<and> placed m H I off (place_of proj suffix) w p p'"
proof -
  have tiles2: "tiles (I div 16) (H div 16) (16 * w2_bits m) (w2_trellis p)" using ok by (simp add: params_ok_def)
  have cut_ok: "off div 16 + I div 16 \<le> cols div 16"
    using bounds(1-3) div_le_mono[of "off + I" cols 16] by (auto elim!: dvdE)
  consider "suffix = ''trellis''" | "suffix = ''suh''" | "suffix = ''svh''" | "suffix \<notin> {''trellis'', ''suh'', ''svh''}" by blast
  then show ?thesis
  proof cases
    case 1
    obtain t where w: "w = Trellis t" and t: "tiles (cols div 16) (H div 16) (16 * w2_bits m) t"
      using fit 1 by (cases w) (simp_all add: fits_def place_of_def)
    have "I div 16 = 0 \<or> width_of (w2_trellis p) = H div 16 \<and> words_of (w2_trellis p) = 16 * w2_bits m"
      using width_of_tiles[OF tiles2] words_of_tiles[OF tiles2] bounds(4) by blast
    then have "take_rows (off div TILE) (length (w2_trellis p)) (width_of (w2_trellis p)) (words_of (w2_trellis p)) w
        = Inr (narrow (off div 16) (I div 16) t)"
      using take_rows_fits[OF t cut_ok] tilesD(1)[OF tiles2] by (simp add: w TILE_def)
    then show ?thesis
      using ok tiles_narrow_rows[OF t cut_ok] 1
      by (auto simp: place_expert_def proj placed_def place_of_def stored_def rank_part_def w params_ok_def known_place_def split: if_splits)
  next
    case 2
    obtain v where w: "w = Scales v" and v: "length v = cols"
      using fit 2 by (cases w) (simp_all add: fits_def place_of_def)
    have "take_scales off (length (w2_suh p)) w = Inr (narrow off I v)"
      using ok bounds(1) v by (simp add: w take_scales_def slice_def params_ok_def length_narrow)
    then show ?thesis
      using ok bounds(1) v 2
      by (auto simp: place_expert_def proj placed_def place_of_def stored_def rank_part_def w params_ok_def known_place_def length_narrow split: if_splits)
  next
    case 3
    obtain v where w: "w = Scales v" and v: "length v = H"
      using fit 3 by (cases w) (simp_all add: fits_def place_of_def)
    have "copy_scales (length (w2_svh p)) w = Inr v"
      using ok v by (simp add: w copy_scales_def params_ok_def)
    then show ?thesis
      using ok v 3
      by (auto simp: place_expert_def proj placed_def place_of_def stored_def rank_part_def w params_ok_def known_place_def split: if_splits)
  next
    case 4
    obtain x where x: "first_int m w = Inr x"
      using fit 4 first_int_cases[of m w] by (auto simp: fits_def place_of_def)
    have "(w2_mult p)[0 := x] = [x]" using ok by (cases "w2_mult p") (auto simp: params_ok_def)
    then show ?thesis
      using ok x 4
      by (auto simp: place_expert_def proj placed_def place_of_def stored_def rank_part_def params_ok_def known_place_def split: if_splits)
  qed
qed

lemma stored_half:
  "proj \<noteq> ''down_proj'' \<Longrightarrow> stored p (proj, ''trellis'') =
     Trellis (map (\<lambda>row. narrow (half_of proj * (length row div 2)) (length row div 2) row) (w13_trellis p))"
  "proj \<noteq> ''down_proj'' \<Longrightarrow> stored p (proj, ''suh'') = Scales (w13_suh p ! half_of proj)"
  "proj \<noteq> ''down_proj'' \<Longrightarrow> stored p (proj, ''svh'') =
     Scales (narrow (half_of proj * (length (w13_svh p) div 2)) (length (w13_svh p) div 2) (w13_svh p))"
  "proj \<noteq> ''down_proj'' \<Longrightarrow> stored p (proj, ''mult'') = Marker [w13_mult p ! half_of proj]"
  by (simp_all add: stored_def)


lemma placedI:
  assumes "stored p' key = rank_part m off I key w" and "params_ok m H I p'"
    and "\<And>suffix. suffix \<in> {''trellis'', ''suh'', ''svh'', ''mult''} \<Longrightarrow> (''down_proj'', suffix) \<noteq> key \<Longrightarrow>
      stored p' (''down_proj'', suffix) = stored p (''down_proj'', suffix)"
    and "\<And>proj suffix. proj \<in> {''gate_proj'', ''up_proj''} \<Longrightarrow> suffix \<in> {''trellis'', ''suh'', ''svh'', ''mult''} \<Longrightarrow>
      (proj, suffix) \<noteq> key \<Longrightarrow> stored p' (proj, suffix) = stored p (proj, suffix)"
  shows "placed m H I off key w p p'"
  unfolding placed_def
proof (intro conjI allI impI)
  fix k assume k: "known_place k" "k \<noteq> key"
  obtain proj suffix where eq: "k = (proj, suffix)" by (cases k)
  have suffix: "suffix \<in> {''trellis'', ''suh'', ''svh'', ''mult''}" and proj: "proj \<in> {''gate_proj'', ''up_proj''} \<or> proj = ''down_proj''"
    using k(1) by (auto simp: known_place_def eq)
  from proj show "stored p' k = stored p k"
    using assms(3)[OF suffix] assms(4)[OF _ suffix] k(2) unfolding eq by (elim disjE) blast+
qed (rule assms(1,2))+

lemma placed_fused:
  assumes "proj \<noteq> ''down_proj''" and "q = fst (place_of proj suffix)" and "params_ok m H I p'" and "x = rank_part m off I (q, s) w"
    and new: "\<And>proj'. proj' \<noteq> ''down_proj'' \<Longrightarrow> stored p' (proj', s) = (if half_of proj' = half_of proj then x else stored p (proj', s))"
    and old: "\<And>proj' s'. s' \<in> {''trellis'', ''suh'', ''svh'', ''mult''} \<Longrightarrow> proj' = ''down_proj'' \<or> s' \<noteq> s \<Longrightarrow> stored p' (proj', s') = stored p (proj', s')"
  shows "placed m H I off (q, s) w p p'"
proof (rule placedI)
  have q: "q \<noteq> ''down_proj''" "half_of q = half_of proj"
    using assms(1,2) by (simp_all add: place_of_def half_of_def)
  show "stored p' (q, s) = rank_part m off I (q, s) w" using new[OF q(1)] q(2) assms(4) by simp
  fix proj' s' assume proj': "proj' \<in> {''gate_proj'', ''up_proj''}" and s': "s' \<in> {''trellis'', ''suh'', ''svh'', ''mult''}"
    and ne: "(proj', s') \<noteq> (q, s)"
  have down: "proj' \<noteq> ''down_proj''" using proj' by auto
  have half: "half_of proj' \<noteq> half_of proj" if "proj' \<noteq> q"
    using proj' that assms(1,2) by (auto simp: half_of_def place_of_def split: if_splits)
  show "stored p' (proj', s') = stored p (proj', s')"
  proof (cases "s' = s")
    case True
    then show ?thesis using new[OF down] half ne by auto
  next
    case False
    then show ?thesis using old[OF s'] by blast
  qed
qed (use old assms(3) in blast)+

lemma place_fused:
  assumes ok: "params_ok m H I p" and fit: "fits m H cols (place_of proj suffix) w" and proj: "proj \<noteq> ''down_proj''"
    and bounds: "off + I \<le> cols" "16 dvd off" "16 dvd I" "0 < H div 16"
  shows "\<exists>p'. place_expert m off proj suffix w p = Inr p' \<and> placed m H I off (place_of proj suffix) w p p'"
proof -
  define q where "q = fst (place_of proj suffix)"
  have q: "q \<noteq> ''down_proj''" "half_of q = half_of proj" "q \<in> {''gate_proj'', ''up_proj''}"
    using proj by (auto simp: q_def place_of_def half_of_def)
  have half: "(if proj = ''gate_proj'' then 0 else 1) = half_of proj" by (simp add: half_of_def)
  have tiles13: "tiles (H div 16) (2 * (I div 16)) (16 * w13_bits m) (w13_trellis p)" using ok by (simp add: params_ok_def)
  have part: "width_of (w13_trellis p) div 2 = I div 16" using width_of_tiles[OF tiles13 bounds(4)] by simp
  have cut_ok: "off div 16 + I div 16 \<le> cols div 16"
    using bounds(1-3) div_le_mono[of "off + I" cols 16] by (auto elim!: dvdE)
  consider "suffix = ''trellis''" | "suffix = ''suh''" | "suffix = ''svh''" | "suffix \<notin> {''trellis'', ''suh'', ''svh''}" by blast
  then show ?thesis
  proof cases
    case 1
    have key: "place_of proj suffix = (q, ''trellis'')" using 1 by (simp add: q_def place_of_def)
    obtain t where w: "w = Trellis t" and t: "tiles (H div 16) (cols div 16) (16 * w13_bits m) t"
      using fit key q(1) by (cases w) (simp_all add: fits_def)
    define t' where "t' = map (narrow (off div 16) (I div 16)) t"
    have t': "tiles (H div 16) (I div 16) (16 * w13_bits m) t'" using tiles_narrow_cols[OF t cut_ok] by (simp add: t'_def)
    have "I div 16 = 0 \<or> words_of (w13_trellis p) = 16 * w13_bits m"
      using words_of_tiles[OF tiles13 bounds(4)] by fastforce
    then have "take_cols (off div TILE) (I div 16) (length (w13_trellis p)) (words_of (w13_trellis p)) w = Inr t'"
      using take_cols_fits[OF t cut_ok] tilesD(1)[OF tiles13] by (simp add: w TILE_def t'_def)
    then have "place_expert m off proj suffix w p = Inr (p\<lparr>w13_trellis := map2 (put_slice (half_of proj * (I div 16))) t' (w13_trellis p)\<rparr>)"
      using 1 by (simp add: place_expert_def proj half part)
    moreover have "placed m H I off (q, ''trellis'') w p (p\<lparr>w13_trellis := map2 (put_slice (half_of proj * (I div 16))) t' (w13_trellis p)\<rparr>)"
    proof (rule placed_fused[OF proj q_def])
      show "params_ok m H I (p\<lparr>w13_trellis := map2 (put_slice (half_of proj * (I div 16))) t' (w13_trellis p)\<rparr>)"
        using ok tiles_put_cols[OF t' tiles13 half_of_simps(3)] by (simp add: params_ok_def)
      show "Trellis t' = rank_part m off I (q, ''trellis'') w" using q(1) by (simp add: rank_part_def w t'_def)
      fix proj' assume ne: "proj' \<noteq> ''down_proj''"
      show "stored (p\<lparr>w13_trellis := map2 (put_slice (half_of proj * (I div 16))) t' (w13_trellis p)\<rparr>) (proj', ''trellis'') =
          (if half_of proj' = half_of proj then Trellis t' else stored p (proj', ''trellis''))"
        using put_cols_halves[OF t' tiles13 half_of_simps(3)[of proj] half_of_simps(3)[of proj']] by (simp add: stored_half(1)[OF ne])
    qed (auto simp: stored_def)
    ultimately show ?thesis using key by simp
  next
    case 2
    have key: "place_of proj suffix = (q, ''suh'')" using 2 by (simp add: q_def place_of_def)
    obtain v where w: "w = Scales v" and v: "length v = H"
      using fit key q(1) by (cases w) (simp_all add: fits_def)
    have two: "length (w13_suh p) = 2" "list_all (\<lambda>v. length v = H) (w13_suh p)" using ok by (simp_all add: params_ok_def)
    then have "copy_scales (width_of (w13_suh p)) w = Inr v"
      using v by (cases "w13_suh p") (simp_all add: w copy_scales_def width_of_def)
    then have "place_expert m off proj suffix w p = Inr (p\<lparr>w13_suh := (w13_suh p)[half_of proj := v]\<rparr>)"
      using 2 by (simp add: place_expert_def proj half)
    moreover have "placed m H I off (q, ''suh'') w p (p\<lparr>w13_suh := (w13_suh p)[half_of proj := v]\<rparr>)"
    proof (rule placed_fused[OF proj q_def])
      show "params_ok m H I (p\<lparr>w13_suh := (w13_suh p)[half_of proj := v]\<rparr>)"
        using ok v set_update_subset_insert[of "w13_suh p" "half_of proj" v] by (auto simp: params_ok_def list_all_iff)
      show "Scales v = rank_part m off I (q, ''suh'') w" using q(1) by (simp add: rank_part_def w)
      fix proj' assume ne: "proj' \<noteq> ''down_proj''"
      show "stored (p\<lparr>w13_suh := (w13_suh p)[half_of proj := v]\<rparr>) (proj', ''suh'') =
          (if half_of proj' = half_of proj then Scales v else stored p (proj', ''suh''))"
        using two(1) by (simp add: stored_half(2)[OF ne] nth_list_update)
    qed (auto simp: stored_def)
    ultimately show ?thesis using key by simp
  next
    case 3
    have key: "place_of proj suffix = (q, ''svh'')" using 3 by (simp add: q_def place_of_def)
    obtain v where w: "w = Scales v" and v: "length v = cols"
      using fit key q(1) by (cases w) (simp_all add: fits_def)
    have len: "length (w13_svh p) = 2 * I" using ok by (simp add: params_ok_def)
    have v': "length (narrow off I v) = I" using v bounds(1) by (simp add: length_narrow)
    have "take_scales off I w = Inr (narrow off I v)"
      using bounds(1) v v' by (simp add: w take_scales_def slice_def)
    then have "place_expert m off proj suffix w p = Inr (p\<lparr>w13_svh := put_slice (half_of proj * I) (narrow off I v) (w13_svh p)\<rparr>)"
      using 3 by (simp add: place_expert_def proj half len)
    moreover have "placed m H I off (q, ''svh'') w p (p\<lparr>w13_svh := put_slice (half_of proj * I) (narrow off I v) (w13_svh p)\<rparr>)"
    proof (rule placed_fused[OF proj q_def])
      show "params_ok m H I (p\<lparr>w13_svh := put_slice (half_of proj * I) (narrow off I v) (w13_svh p)\<rparr>)"
        using ok put_slice_half[OF v' len half_of_simps(3)[of proj] half_of_simps(3)] by (simp add: params_ok_def)
      show "Scales (narrow off I v) = rank_part m off I (q, ''svh'') w" using q(1) by (simp add: rank_part_def w)
      fix proj' assume ne: "proj' \<noteq> ''down_proj''"
      show "stored (p\<lparr>w13_svh := put_slice (half_of proj * I) (narrow off I v) (w13_svh p)\<rparr>) (proj', ''svh'') =
          (if half_of proj' = half_of proj then Scales (narrow off I v) else stored p (proj', ''svh''))"
        using put_slice_half[OF v' len half_of_simps(3)[of proj] half_of_simps(3)[of proj']] len by (simp add: stored_half(3)[OF ne])
    qed (auto simp: stored_def)
    ultimately show ?thesis using key by simp
  next
    case 4
    have key: "place_of proj suffix = (q, ''mult'')" using 4 by (simp add: q_def place_of_def)
    obtain x where x: "first_int m w = Inr x"
      using fit key first_int_cases[of m w] by (auto simp: fits_def)
    have "place_expert m off proj suffix w p = Inr (p\<lparr>w13_mult := (w13_mult p)[half_of proj := x]\<rparr>)"
      using 4 x by (simp add: place_expert_def proj half)
    moreover have "placed m H I off (q, ''mult'') w p (p\<lparr>w13_mult := (w13_mult p)[half_of proj := x]\<rparr>)"
    proof (rule placed_fused[OF proj q_def])
      show "params_ok m H I (p\<lparr>w13_mult := (w13_mult p)[half_of proj := x]\<rparr>)"
        using ok by (simp add: params_ok_def)
      show "Marker [x] = rank_part m off I (q, ''mult'') w" using q(1) x by (simp add: rank_part_def)
      fix proj' assume ne: "proj' \<noteq> ''down_proj''"
      show "stored (p\<lparr>w13_mult := (w13_mult p)[half_of proj := x]\<rparr>) (proj', ''mult'') =
          (if half_of proj' = half_of proj then Marker [x] else stored p (proj', ''mult''))"
        using ok by (simp add: stored_half(4)[OF ne] params_ok_def nth_list_update)
    qed (auto simp: stored_def)
    ultimately show ?thesis using key by simp
  qed
qed

definition layer_ok :: "('t, 'v) moe_method \<Rightarrow> nat \<Rightarrow> nat \<Rightarrow> nat \<Rightarrow> nat \<Rightarrow> int list option \<Rightarrow> ('t, 'v) moe_layer \<Rightarrow> bool" where
  "layer_ok m E H I off emap layer \<longleftrightarrow> length (moe_experts layer) = E \<and> list_all (params_ok m H I) (moe_experts layer) \<and>
     exl3_inter_off layer = Some off \<and> expert_map layer = emap"

text \<open>The place a tensor of the checkpoint goes to on a rank, if it goes anywhere, and the tensors a load takes.\<close>

definition item_slot :: "('t, 'v) moe_method \<Rightarrow> int list option \<Rightarrow> string \<Rightarrow> (nat \<times> string \<times> string) option" where
  "item_slot m emap name = (case expert_part name of
       Inr (Some (e, proj, suffix)) \<Rightarrow>
         (case local_expert emap e of
            Inr l \<Rightarrow> if l < 0 \<or> param_name m proj suffix = None then None else Some (nat l, place_of proj suffix)
          | Inl err \<Rightarrow> None)
     | _ \<Rightarrow> None)"

definition item_ok :: "('t, 'v) moe_method \<Rightarrow> nat \<Rightarrow> nat \<Rightarrow> nat \<Rightarrow> int list option \<Rightarrow> string \<times> ('t, 'v) packed \<Rightarrow> bool" where
  "item_ok m E H cols emap item \<longleftrightarrow>
     (case expert_part (fst item) of
        Inl err \<Rightarrow> False
      | Inr None \<Rightarrow> True
      | Inr (Some (e, proj, suffix)) \<Rightarrow> \<not> isl (local_expert emap e)) \<and>
     (case item_slot m emap (fst item) of None \<Rightarrow> True | Some (l, key) \<Rightarrow> l < E \<and> fits m H cols key (snd item))"

lemma item_slot_known: "item_slot m emap name = Some (l, key) \<Longrightarrow> known_place key"
  using place_of_known by (auto simp: item_slot_def simp del: prod.inject split: sum.splits option.splits prod.splits if_splits)

lemma place_ok:
  assumes ok: "layer_ok m E H I off emap layer" and rank: "tp_rank m = Inr r" and l: "l < E"
    and fit: "fits m H cols (place_of proj suffix) w" and name: "param_name m proj suffix = Some pname"
    and bounds: "off + I \<le> cols" "16 dvd off" "16 dvd I" "0 < H div 16"
  shows "\<exists>p'. place m l proj suffix w layer = Inr (Some pname, layer\<lparr>moe_experts := (moe_experts layer)[l := p']\<rparr>) \<and>
    placed m H I off (place_of proj suffix) w (moe_experts layer ! l) p' \<and> layer_ok m E H I off emap (layer\<lparr>moe_experts := (moe_experts layer)[l := p']\<rparr>)"
proof -
  have p: "params_ok m H I (moe_experts layer ! l)" using ok l by (simp add: layer_ok_def list_all_length)
  obtain p' where p': "place_expert m off proj suffix w (moe_experts layer ! l) = Inr p'"
    "placed m H I off (place_of proj suffix) w (moe_experts layer ! l) p'"
  proof (cases "proj = ''down_proj''")
    case True
    then have "place_of proj suffix = (''down_proj'', snd (place_of proj suffix))" by (simp add: place_of_def)
    then show ?thesis using place_down[OF p _ True bounds, of suffix w] fit that by metis
  next
    case False
    then show ?thesis using place_fused[OF p fit False bounds] that by blast
  qed
  have "place m l proj suffix w layer = Inr (Some pname, layer\<lparr>moe_experts := (moe_experts layer)[l := p']\<rparr>)"
    using p' ok rank name l by (simp add: place_def layer_ok_def update_at_def)
  moreover have "layer_ok m E H I off emap (layer\<lparr>moe_experts := (moe_experts layer)[l := p']\<rparr>)"
    using ok p'(2) set_update_subset_insert[of "moe_experts layer" l p'] by (auto simp: layer_ok_def list_all_iff placed_def)
  ultimately show ?thesis using p'(2) by blast
qed

lemma load_weights_stored:
  assumes rank: "tp_rank m = Inr r" and bounds: "off + I \<le> cols" "16 dvd off" "16 dvd I" "0 < H div 16"
    and "layer_ok m E H I off emap layer" and "list_all (item_ok m E H cols emap) ws"
  shows "\<exists>loaded' layer'. load_weights m ws (loaded, layer) = Inr (loaded', layer') \<and> layer_ok m E H I off emap layer' \<and>
    (\<forall>l < E. \<forall>k w. known_place k \<longrightarrow> (\<forall>i \<in> set ws. item_slot m emap (fst i) = Some (l, k) \<longrightarrow> snd i = w) \<longrightarrow>
       (\<exists>i \<in> set ws. item_slot m emap (fst i) = Some (l, k)) \<or> stored (moe_experts layer ! l) k = rank_part m off I k w \<longrightarrow>
       stored (moe_experts layer' ! l) k = rank_part m off I k w)"
  using assms(6,7)
proof (induction ws arbitrary: loaded layer)
  case Nil
  then show ?case by auto
next
  case (Cons item ws)
  obtain name w where item: "item = (name, w)" by (cases item)
  obtain part where part: "expert_part name = Inr part"
    using Cons.prems(2) by (cases "expert_part name") (simp_all add: item item_ok_def)
  have emap: "expert_map layer = emap" using Cons.prems(1) by (simp add: layer_ok_def)
  show ?case
  proof (cases "item_slot m emap name")
    case None
    then have "load_weights m (item # ws) (loaded, layer) = load_weights m ws (loaded, layer)"
      using Cons.prems(2) part emap rank
      by (auto simp: item item_ok_def item_slot_def place_def split: option.splits if_splits sum.splits)
    with Cons.IH[OF Cons.prems(1), of loaded] Cons.prems(2) None show ?thesis by (simp add: item)
  next
    case (Some slot)
    obtain e proj suffix l0 where slot: "part = Some (e, proj, suffix)" "local_expert emap e = Inr l0" "\<not> l0 < 0"
      "param_name m proj suffix \<noteq> None" "slot = (nat l0, place_of proj suffix)"
      using Some part by (auto simp: item_slot_def split: option.splits sum.splits if_splits)
    obtain pname where pname: "param_name m proj suffix = Some pname" using slot(4) by blast
    have fit: "nat l0 < E" "fits m H cols (place_of proj suffix) w"
      using Cons.prems(2) Some slot by (simp_all add: item item_ok_def)
    obtain p' where p': "place m (nat l0) proj suffix w layer = Inr (Some pname, layer\<lparr>moe_experts := (moe_experts layer)[nat l0 := p']\<rparr>)"
      "placed m H I off (place_of proj suffix) w (moe_experts layer ! nat l0) p'"
      "layer_ok m E H I off emap (layer\<lparr>moe_experts := (moe_experts layer)[nat l0 := p']\<rparr>)"
      using place_ok[OF Cons.prems(1) rank fit pname bounds] by blast
    define layer1 where "layer1 = layer\<lparr>moe_experts := (moe_experts layer)[nat l0 := p']\<rparr>"
    have step: "load_weights m (item # ws) (loaded, layer) = load_weights m ws (List.insert pname loaded, layer1)"
      using part slot p'(1) emap by (simp add: item layer1_def)
    have others: "list_all (item_ok m E H cols emap) ws" using Cons.prems(2) by simp
    obtain loaded' layer' where rest: "load_weights m ws (List.insert pname loaded, layer1) = Inr (loaded', layer')"
      "layer_ok m E H I off emap layer'"
      "\<forall>l < E. \<forall>k w. known_place k \<longrightarrow> (\<forall>i \<in> set ws. item_slot m emap (fst i) = Some (l, k) \<longrightarrow> snd i = w) \<longrightarrow>
         (\<exists>i \<in> set ws. item_slot m emap (fst i) = Some (l, k)) \<or> stored (moe_experts layer1 ! l) k = rank_part m off I k w \<longrightarrow>
         stored (moe_experts layer' ! l) k = rank_part m off I k w"
      using Cons.IH[OF p'(3)[folded layer1_def] others, of "List.insert pname loaded"] by blast
    have len: "nat l0 < length (moe_experts layer)" using fit(1) Cons.prems(1) by (simp add: layer_ok_def)
    have now: "stored (moe_experts layer1 ! l) k = (if (l, k) = (nat l0, place_of proj suffix) then rank_part m off I k w
        else stored (moe_experts layer ! l) k)" if "known_place k" for l k
      using p'(2) that len by (cases k) (auto simp: placed_def layer1_def nth_list_update)
    show ?thesis
    proof (intro exI conjI)
      show "load_weights m (item # ws) (loaded, layer) = Inr (loaded', layer')" using step rest(1) by simp
      show "layer_ok m E H I off emap layer'" by (rule rest(2))
      show "\<forall>l < E. \<forall>k w. known_place k \<longrightarrow> (\<forall>i \<in> set (item # ws). item_slot m emap (fst i) = Some (l, k) \<longrightarrow> snd i = w) \<longrightarrow>
         (\<exists>i \<in> set (item # ws). item_slot m emap (fst i) = Some (l, k)) \<or> stored (moe_experts layer ! l) k = rank_part m off I k w \<longrightarrow>
         stored (moe_experts layer' ! l) k = rank_part m off I k w"
      proof (intro allI impI)
        fix l k w' assume l: "l < E" and k: "known_place k"
          and same: "\<forall>i \<in> set (item # ws). item_slot m emap (fst i) = Some (l, k) \<longrightarrow> snd i = w'"
          and have_it: "(\<exists>i \<in> set (item # ws). item_slot m emap (fst i) = Some (l, k)) \<or> stored (moe_experts layer ! l) k = rank_part m off I k w'"
        have first: "(l, k) = (nat l0, place_of proj suffix) \<Longrightarrow> w = w'" using same Some slot(5) by (simp add: item)
        have "(\<exists>i \<in> set ws. item_slot m emap (fst i) = Some (l, k)) \<or> stored (moe_experts layer1 ! l) k = rank_part m off I k w'"
          using have_it now[OF k, of l] first Some slot(5) by (auto simp: item)
        then show "stored (moe_experts layer' ! l) k = rank_part m off I k w'"
          by (rule rest(3)[rule_format, OF l k, rotated]) (use same in simp)
      qed
    qed
  qed
qed

lemma created_layer_ok:
  assumes "tp_split m I_even = Inr (I, off)" and "16 dvd I"
  shows "\<exists>layer. create_moe_weights m ft fv fm emap E H I_even = Inr layer \<and> layer_ok m E H I off emap layer"
  using assms by (auto simp: create_moe_weights_def layer_ok_def params_ok_def tiles_def TILE_def list_all_iff elim!: dvdE)

text \<open>
  What the ranks hold together is the tensor \<open>w\<close>: a split one is the ranks' parts one after the other, and of
  a scale that is not split every rank has the whole.
\<close>

definition codes :: "('t, 'v) packed \<Rightarrow> 't list list list" where
  "codes w = (case w of Trellis t \<Rightarrow> t | _ \<Rightarrow> [])"

definition scales :: "('t, 'v) packed \<Rightarrow> 'v list" where
  "scales w = (case w of Scales v \<Rightarrow> v | _ \<Rightarrow> [])"

definition hold_together :: "string \<times> string \<Rightarrow> ('t, 'v) packed list \<Rightarrow> ('t, 'v) packed \<Rightarrow> bool" where
  "hold_together key parts w \<longleftrightarrow> (case key of (proj, suffix) \<Rightarrow>
     if suffix = ''trellis'' then
       w = Trellis (if proj = ''down_proj'' then concat (map codes parts)
                    else map (\<lambda>i. concat (map (\<lambda>part. codes part ! i) parts)) [0 ..< length (codes (hd parts))])
     else if suffix = ''suh'' \<and> proj = ''down_proj'' \<or> suffix = ''svh'' \<and> proj \<noteq> ''down_proj'' then
       w = Scales (concat (map scales parts))
     else list_all (\<lambda>part. part = w) parts)"

lemma parts_hold_together:
  assumes "fits m H cols key w" and "snd key \<in> {''trellis'', ''suh'', ''svh''}" and "0 < tp"
    and next_off: "\<And>r. r < tp \<Longrightarrow> off (Suc r) = off r + width r" and "off 0 = 0" and "off tp = cols"
    and dvd: "\<And>r. r < tp \<Longrightarrow> 16 dvd off r" "\<And>r. r < tp \<Longrightarrow> 16 dvd width r"
  shows "hold_together key (map (\<lambda>r. rank_part m (off r) (width r) key w) [0 ..< tp]) w"
proof -
  obtain proj suffix where key: "key = (proj, suffix)" by (cases key)
  have hd: "[0 ..< tp] = 0 # [1 ..< tp]" using assms(3) by (simp add: upt_conv_Cons)
  have div16: "off (Suc r) div 16 = off r div 16 + width r div 16" if "r < tp" for r
    using next_off[OF that] dvd[OF that] by (auto elim!: dvdE)
  have chain: "concat (map (\<lambda>r. narrow (off r) (width r) xs) [0 ..< tp]) = take (off tp) xs" for xs :: "'b list"
    by (rule narrow_chain) (use next_off assms(5) in auto)
  have chain16: "concat (map (\<lambda>r. narrow (off r div 16) (width r div 16) xs) [0 ..< tp]) = take (off tp div 16) xs" for xs :: "'c list"
    using narrow_chain[of tp "\<lambda>r. off r div 16" "\<lambda>r. width r div 16" xs] div16 assms(5) by simp
  consider "suffix = ''trellis''" "proj = ''down_proj''" | "suffix = ''trellis''" "proj \<noteq> ''down_proj''"
    | "suffix = ''suh'' \<and> proj = ''down_proj'' \<or> suffix = ''svh'' \<and> proj \<noteq> ''down_proj''"
    | "suffix = ''suh'' \<and> proj \<noteq> ''down_proj'' \<or> suffix = ''svh'' \<and> proj = ''down_proj''"
    using assms(2) key by auto
  then show ?thesis
  proof cases
    case 1
    then obtain t where w: "w = Trellis t" and t: "tiles (cols div 16) (H div 16) (16 * w2_bits m) t"
      using assms(1) key by (cases w) (simp_all add: fits_def)
    show ?thesis
      using 1 chain16[of t] tilesD(1)[OF t] assms(6)
      by (simp add: key w hold_together_def rank_part_def codes_def o_def)
  next
    case 2
    then obtain t where w: "w = Trellis t" and t: "tiles (H div 16) (cols div 16) (16 * w13_bits m) t"
      using assms(1) key by (cases w) (simp_all add: fits_def)
    have "map (\<lambda>i. concat (map (\<lambda>r. map (narrow (off r div 16) (width r div 16)) t ! i) [0 ..< tp])) [0 ..< length t] = t"
      by (rule nth_equalityI) (simp_all add: chain16 assms(6) tilesD(2)[OF t])
    then show ?thesis
      using 2 by (simp add: key w hold_together_def rank_part_def codes_def o_def hd)
  next
    case 3
    then obtain v where w: "w = Scales v" and v: "length v = cols"
      using assms(1) key by (cases w) (auto simp: fits_def)
    show ?thesis
      using 3 chain[of v] v assms(6) by (auto simp: key w hold_together_def rank_part_def scales_def o_def)
  next
    case 4
    then show ?thesis by (auto simp: key hold_together_def rank_part_def list_all_iff)
  qed
qed

lemma on_rank_same [simp]:
  "fits (on_rank m tp r) = fits m" "item_slot (on_rank m tp r) = item_slot m" "item_ok (on_rank m tp r) = item_ok m"
  "rank_part (on_rank m tp r) = rank_part m"
proof -
  have "code_int (on_rank m tp r) = code_int m" "scale_int (on_rank m tp r) = scale_int m" by (simp_all add: on_rank_def)
  then have first: "first_int (on_rank m tp r) = first_int m" by (intro ext) (simp only: first_int_def)
  show fits: "fits (on_rank m tp r) = fits m" by (intro ext) (simp only: fits_def first on_rank_simps)
  have "param_name (on_rank m tp r) = param_name m" by (intro ext) (simp only: param_name_def on_rank_simps)
  then show slot: "item_slot (on_rank m tp r) = item_slot m" by (intro ext) (simp only: item_slot_def)
  show "item_ok (on_rank m tp r) = item_ok m" by (intro ext) (simp only: item_ok_def fits slot)
  show "rank_part (on_rank m tp r) = rank_part m" by (intro ext) (simp only: rank_part_def first)
qed

text \<open>
  C33. The ranks hold the checkpoint: when 16 divides the intermediate dimension of a rank, or 128 the whole
  one, and the hidden dimension is at least 16, every rank that allocates its layer and loads a list of
  tensors of the layer's shape succeeds, whatever the memory held before. For a trellis or a vector of
  scales of a projection of an expert that is in the list, always with the same content, what the ranks then
  hold is together that tensor: columns of gate and up, rows of down and the scales of the split dimension
  one rank after the other, and of the other scales the whole vector on every rank; also where the
  intermediate dimension is split unevenly.
\<close>

theorem ranks_hold_the_checkpoint:
  fixes ws :: "(string \<times> ('t, 'v) packed) list"
  assumes "0 < tp" and "16 dvd I_even \<or> 128 dvd I_even * tp" and "16 \<le> H"
    and "list_all (item_ok m E H (I_even * tp) emap) ws"
    and "(name, w) \<in> set ws" and "item_slot m emap name = Some (l, proj, suffix)" and "suffix \<in> {''trellis'', ''suh'', ''svh''}"
    and "list_all (\<lambda>(n, w'). item_slot m emap n = Some (l, proj, suffix) \<longrightarrow> w' = w) ws"
  shows "\<exists>layers. list_all (\<lambda>r. \<exists>layer loaded. create_moe_weights (on_rank m tp r) ft fv fm emap E H I_even = Inr layer \<and>
        load_weights (on_rank m tp r) ws ([], layer) = Inr (loaded, layers r)) [0 ..< tp] \<and>
      hold_together (proj, suffix) (map (\<lambda>r. stored (moe_experts (layers r) ! l) (proj, suffix)) [0 ..< tp]) w"
proof -
  obtain width off where split: "\<forall>r < tp. tp_split (on_rank m tp r) I_even = Inr (width r, off r)"
    and next_off: "\<forall>r < tp. off (Suc r) = off r + width r" and ends: "off 0 = 0" "off tp = I_even * tp"
    and dvd: "\<forall>r < tp. 16 dvd width r \<and> 16 dvd off r"
    using split_aligned[OF assms(1,2), of m] by blast
  have mono: "off r + width r \<le> off tp" if "r < tp" for r
  proof -
    have "off (Suc r) \<le> off n" if "Suc r \<le> n" "n \<le> tp" for n
      using that by (induction rule: dec_induct) (use next_off in fastforce)+
    then show ?thesis using that next_off by (metis Suc_leI order_refl)
  qed
  have known: "known_place (proj, suffix)" by (rule item_slot_known[OF assms(6)])
  have "item_ok m E H (I_even * tp) emap (name, w)" using assms(4,5) by (simp add: list_all_iff)
  then have l: "l < E" and fit: "fits m H (I_even * tp) (proj, suffix) w" using assms(6) by (simp_all add: item_ok_def)
  have "\<exists>layer loaded layer'. create_moe_weights (on_rank m tp r) ft fv fm emap E H I_even = Inr layer \<and>
      load_weights (on_rank m tp r) ws ([], layer) = Inr (loaded, layer') \<and>
      stored (moe_experts layer' ! l) (proj, suffix) = rank_part m (off r) (width r) (proj, suffix) w" if r: "r < tp" for r
  proof -
    obtain layer where layer: "create_moe_weights (on_rank m tp r) ft fv fm emap E H I_even = Inr layer"
      "layer_ok (on_rank m tp r) E H (width r) (off r) emap layer"
      using created_layer_ok[of "on_rank m tp r" I_even "width r" "off r"] split dvd r by blast
    have same: "\<forall>i \<in> set ws. item_slot m emap (fst i) = Some (l, proj, suffix) \<longrightarrow> snd i = w"
      "\<exists>i \<in> set ws. item_slot m emap (fst i) = Some (l, proj, suffix)"
      using assms(5,6,8) by (force simp: list_all_iff)+
    have "off r + width r \<le> I_even * tp" "16 dvd off r" "16 dvd width r" "0 < H div 16"
      using mono[OF r] ends dvd r assms(3) by simp_all
    from load_weights_stored[OF on_rank_simps(2) this layer(2), of ws "[]"] assms(4)
    obtain loaded layer' where load: "load_weights (on_rank m tp r) ws ([], layer) = Inr (loaded, layer')"
      and after: "\<forall>l < E. \<forall>k w. known_place k \<longrightarrow> (\<forall>i \<in> set ws. item_slot m emap (fst i) = Some (l, k) \<longrightarrow> snd i = w) \<longrightarrow>
         (\<exists>i \<in> set ws. item_slot m emap (fst i) = Some (l, k)) \<or> stored (moe_experts layer ! l) k = rank_part m (off r) (width r) k w \<longrightarrow>
         stored (moe_experts layer' ! l) k = rank_part m (off r) (width r) k w"
      unfolding on_rank_same by blast
    from after[rule_format, OF l known, of w] same
    have "stored (moe_experts layer' ! l) (proj, suffix) = rank_part m (off r) (width r) (proj, suffix) w" by blast
    then show ?thesis using layer(1) load by blast
  qed
  then obtain layers where layers: "\<forall>r < tp. \<exists>layer loaded. create_moe_weights (on_rank m tp r) ft fv fm emap E H I_even = Inr layer \<and>
      load_weights (on_rank m tp r) ws ([], layer) = Inr (loaded, layers r) \<and>
      stored (moe_experts (layers r) ! l) (proj, suffix) = rank_part m (off r) (width r) (proj, suffix) w"
    by metis
  then have "map (\<lambda>r. stored (moe_experts (layers r) ! l) (proj, suffix)) [0 ..< tp] =
      map (\<lambda>r. rank_part m (off r) (width r) (proj, suffix) w) [0 ..< tp]" by auto
  moreover have "hold_together (proj, suffix) (map (\<lambda>r. rank_part m (off r) (width r) (proj, suffix) w) [0 ..< tp]) w"
    by (rule parts_hold_together[OF fit]) (use assms(1,7) next_off ends dvd in auto)
  ultimately have "hold_together (proj, suffix) (map (\<lambda>r. stored (moe_experts (layers r) ! l) (proj, suffix)) [0 ..< tp]) w"
    by (simp only:)
  moreover have "list_all (\<lambda>r. \<exists>layer loaded. create_moe_weights (on_rank m tp r) ft fv fm emap E H I_even = Inr layer \<and>
      load_weights (on_rank m tp r) ws ([], layer) = Inr (loaded, layers r)) [0 ..< tp]"
    using layers by (auto simp: list_all_iff)
  ultimately show ?thesis by blast
qed

text \<open>
  The two protocols do the same: the tensor of a checkpoint's name, and the same tensor with the name of
  its parameter, its shard and its expert.
\<close>

lemma loaders_agree:
  assumes "expert_part name = Inr (Some (e, proj, suffix))" and "map_of SHARD_TO_PROJ shard = Some proj" and "param_tail weight_name = suffix"
  shows "rbind (load_weights m [(name, w)] (loaded, layer)) (\<lambda>(loaded', layer'). Inr layer') =
    rbind (moe_weight_loader m w weight_name (Some shard) (Some e) success layer) (\<lambda>(ok, layer'). Inr layer')"
  using assms by (auto simp: moe_weight_loader_def rbind_def Let_def split: sum.splits prod.splits)

lemma parameter_tail: "param_tail (Some ''layers.3.experts.w13_trellis'') = ''trellis''" "param_tail (Some ''w2_suh'') = ''suh''"
  by code_simp+

subsection \<open>A small layer\<close>

definition demo_moe :: "(int, int) moe_method" where
  "demo_moe = \<lparr>tp_size_attr = None, tp_rank_attr = None, method_limit = None, w13_bits = 1, w2_bits = 1, moe_cb = CB_MCG,
     code_int = (\<lambda>x. x), scale_int = (\<lambda>x. x)\<rparr>"

definition demo_scales :: "(int, int) packed" where
  "demo_scales = Scales (map int [0 ..< 384])"

lemma ranks_tile_the_columns_witness:
  "\<exists>width off. list_all (\<lambda>r. tp_split (on_rank demo_moe 4 r) 576 = Inr (width r, off r) \<and> off (Suc r) = off r + width r \<and>
      128 dvd width r \<and> 128 dvd off r \<and> width 0 \<le> width r \<and> width r \<le> width 0 + 128) [0 ..< 4] \<and>
    off 0 = 0 \<and> off 4 = (576 * 4 :: nat)"
  by (rule ranks_tile_the_columns) simp_all

lemma ranks_hold_the_checkpoint_witness:
  "\<exists>layers. list_all (\<lambda>r. \<exists>layer loaded. create_moe_weights (on_rank demo_moe 2 r) 0 0 0 None 1 16 192 = Inr layer \<and>
      load_weights (on_rank demo_moe 2 r) [(''0.w1.svh'', demo_scales)] ([], layer) = Inr (loaded, layers r)) [0 ..< 2] \<and>
    hold_together (''gate_proj'', ''svh'') (map (\<lambda>r. stored (moe_experts (layers r) ! 0) (''gate_proj'', ''svh'')) [0 ..< 2]) demo_scales"
proof (rule ranks_hold_the_checkpoint[where name = "''0.w1.svh''"])
  show "list_all (item_ok demo_moe 1 16 (192 * 2) None) [(''0.w1.svh'', demo_scales)]" by code_simp
  show "item_slot demo_moe None ''0.w1.svh'' = Some (0, ''gate_proj'', ''svh'')" by code_simp
qed simp_all

lemma uneven_split: "map (\<lambda>r. tp_split (on_rank demo_moe 4 r) 576) [0 ..< 4] =
    [Inr (512, 0), Inr (640, 512), Inr (640, 1152), Inr (512, 1792)]"
  by code_simp

end
