(* ===== verification/Swa_Indices.thy ===== *)
theory Swa_Indices
  imports Runtime_Base
begin

text \<open>
  The sliding-window metadata of a step (\<open>patches/sparse_swa.py\<close>): the kernels that write, for every token of
  the batch, the cache slots it may attend to, the visibility of image tokens, and the plan that cuts the
  prefills into chunks. A kernel is the programs of its grid, one after the other; positions and slots
  are integers, as a model's lengths stay far below the 31 bits the kernels have.
\<close>

subsection \<open>The batch\<close>

text \<open>
  What a kernel reads: the queries of request r are the tokens from \<open>query_start_loc ! r\<close>, the last of the
  \<open>seq_lens ! r\<close> tokens of the request, whose pages are \<open>block_table ! r\<close>.
\<close>

record swa_batch =
  query_start_loc :: "int list"
  seq_lens :: "int list"
  token_to_req :: "nat list"
  is_valid_token :: "bool list"
  block_table :: "int list list"

definition query_length :: "swa_batch \<Rightarrow> nat \<Rightarrow> int" where
  "query_length b req = query_start_loc b ! (req + 1) - query_start_loc b ! req"

definition token_pos :: "swa_batch \<Rightarrow> nat \<Rightarrow> int" where
  "token_pos b token_idx =
     (let req = token_to_req b ! token_idx
      in seq_lens b ! req - query_length b req + int token_idx - query_start_loc b ! req)"

definition slot_at :: "swa_batch \<Rightarrow> int \<Rightarrow> nat \<Rightarrow> int \<Rightarrow> int" where
  "slot_at b block_size req p = block_table b ! req ! nat (p div block_size) * block_size + p mod block_size"

subsection \<open>The stores of a row\<close>

text \<open>A row is written in tiles of 1024 lanes; the lanes at or after the width are masked.\<close>

definition TRITON_BLOCK_SIZE :: nat where
  "TRITON_BLOCK_SIZE = 1024"

definition store_tiles :: "nat \<Rightarrow> (nat \<Rightarrow> int) \<Rightarrow> int list \<Rightarrow> int list" where
  "store_tiles width f row =
     fold (\<lambda>i. fold (\<lambda>offset row. if offset < width then row[offset := f offset] else row) [i ..< i + TRITON_BLOCK_SIZE])
       (map (\<lambda>k. k * TRITON_BLOCK_SIZE) [0 ..< (width + TRITON_BLOCK_SIZE - 1) div TRITON_BLOCK_SIZE]) row"

text \<open>
  One program of \<open>_compute_swa_indices_and_lens_kernel\<close>. \<open>visible\<close> holds the counts to the left and right of
  every token for the variant with images. A lane at or after the end reads no page and stores -1.
\<close>

type_synonym swa_rows = "int list list \<times> int list"

definition swa_program ::
    "int \<Rightarrow> nat \<Rightarrow> (int list \<times> int list) option \<Rightarrow> swa_batch \<Rightarrow> int \<Rightarrow> nat \<Rightarrow> nat \<Rightarrow> swa_rows \<Rightarrow> swa_rows" where
  "swa_program window_size index_width visible b block_size token_offset pid rl =
     (case rl of (rows, lens) \<Rightarrow>
      let token_idx = pid + token_offset
      in if \<not> is_valid_token b ! token_idx then
           (rows[pid := store_tiles index_width (\<lambda>offset. - 1) (rows ! pid)], lens[pid := 0])
         else
           let req_idx = token_to_req b ! token_idx;
               pos = token_pos b token_idx;
               (left, right) = (case visible of None \<Rightarrow> (0, 0) | Some (ls, rs) \<Rightarrow> (ls ! token_idx, rs ! token_idx));
               left_add = max (left - (window_size - 1)) 0;
               start_pos = max (pos - (window_size - 1) - left_add) 0;
               end_pos = pos + right + 1;
               swa_len = end_pos - start_pos
           in (rows[pid := store_tiles index_width
                 (\<lambda>offset. if int offset < swa_len then slot_at b block_size req_idx (start_pos + int offset) else - 1) (rows ! pid)],
               lens[pid := swa_len]))"

definition swa_kernel ::
    "nat \<Rightarrow> int \<Rightarrow> nat \<Rightarrow> (int list \<times> int list) option \<Rightarrow> swa_batch \<Rightarrow> int \<Rightarrow> nat \<Rightarrow> swa_rows \<Rightarrow> swa_rows" where
  "swa_kernel num_tokens window_size index_width visible b block_size token_offset =
     fold (swa_program window_size index_width visible b block_size token_offset) [0 ..< num_tokens]"

text \<open>One program of the DSpark kernel: the window before the block, and the whole block.\<close>

definition noncausal_program ::
    "int \<Rightarrow> nat \<Rightarrow> swa_batch \<Rightarrow> int \<Rightarrow> nat \<Rightarrow> nat \<Rightarrow> swa_rows \<Rightarrow> swa_rows" where
  "noncausal_program window_size index_width b block_size token_offset pid rl =
     (case rl of (rows, lens) \<Rightarrow>
      let token_idx = pid + token_offset
      in if \<not> is_valid_token b ! token_idx then
           (rows[pid := store_tiles index_width (\<lambda>offset. - 1) (rows ! pid)], lens[pid := 0])
         else
           let req_idx = token_to_req b ! token_idx;
               seq_len = seq_lens b ! req_idx;
               prefix_len = seq_len - query_length b req_idx;
               start_pos = max (prefix_len - window_size) 0;
               swa_len = seq_len - start_pos
           in (rows[pid := store_tiles index_width
                 (\<lambda>offset. if int offset < swa_len then slot_at b block_size req_idx (start_pos + int offset) else - 1) (rows ! pid)],
               lens[pid := swa_len]))"

definition noncausal_kernel :: "nat \<Rightarrow> int \<Rightarrow> nat \<Rightarrow> swa_batch \<Rightarrow> int \<Rightarrow> nat \<Rightarrow> swa_rows \<Rightarrow> swa_rows" where
  "noncausal_kernel num_tokens window_size index_width b block_size token_offset =
     fold (noncausal_program window_size index_width b block_size token_offset) [0 ..< num_tokens]"

subsection \<open>Image spans\<close>

text \<open>The spans of all requests one after the other, and where those of each request are.\<close>

definition span_table :: "nat \<Rightarrow> (nat, (int \<times> int) list) dict \<Rightarrow> nat list \<times> int list \<times> int list" where
  "span_table num_reqs mm_ranges =
     fold (\<lambda>req (indptr, starts, ends).
         let spans = (case map_of mm_ranges req of None \<Rightarrow> [] | Some s \<Rightarrow> s);
             starts = starts @ map fst spans; ends = ends @ map snd spans
         in (indptr[req + 1 := length starts], starts, ends))
       [0 ..< num_reqs] (replicate (num_reqs + 1) 0, [], [])"

text \<open>One program of \<open>_compute_image_visibility_kernel\<close>: the last span that holds the token counts.\<close>

definition visibility_program ::
    "nat list \<Rightarrow> int list \<Rightarrow> int list \<Rightarrow> swa_batch \<Rightarrow> int \<Rightarrow> nat \<Rightarrow> nat \<Rightarrow> int list \<times> int list \<Rightarrow> int list \<times> int list" where
  "visibility_program indptr starts ends b max_image_tokens token_offset pid lr =
     (case lr of (lefts, rights) \<Rightarrow>
      let token_idx = pid + token_offset;
          req_idx = token_to_req b ! token_idx;
          pos = token_pos b token_idx;
          (left, right) =
            fold (\<lambda>i (left, right).
                let span_start = starts ! i; span_end = ends ! i; in_span = (pos \<ge> span_start \<and> pos \<le> span_end)
                in (if in_span then min (pos - span_start) (max_image_tokens - 1) else left,
                    if in_span then min (span_end - pos) max_image_tokens else right))
              [indptr ! req_idx ..< indptr ! (req_idx + 1)] (0, 0)
      in (lefts[token_idx := left], rights[token_idx := right]))"

definition visibility_kernel ::
    "nat \<Rightarrow> nat list \<Rightarrow> int list \<Rightarrow> int list \<Rightarrow> swa_batch \<Rightarrow> int \<Rightarrow> nat \<Rightarrow> int list \<times> int list \<Rightarrow> int list \<times> int list" where
  "visibility_kernel num_tokens indptr starts ends b max_image_tokens token_offset =
     fold (visibility_program indptr starts ends b max_image_tokens token_offset) [0 ..< num_tokens]"

text \<open>
  \<open>_build_image_visibility\<close>. The span buffers keep what they held after the new spans; the kernel reads
  the new ones only.
\<close>

record span_buffers =
  span_indptr :: "nat list"
  span_starts :: "int list"
  span_ends :: "int list"
  left_visible :: "int list"
  right_visible :: "int list"

definition upload :: "'a list \<Rightarrow> 'a list \<Rightarrow> 'a list" where
  "upload xs buffer = xs @ drop (length xs) buffer"

definition build_image_visibility ::
    "int \<Rightarrow> nat \<Rightarrow> (nat, (int \<times> int) list) dict \<Rightarrow> nat \<Rightarrow> nat \<Rightarrow> swa_batch \<Rightarrow> span_buffers \<Rightarrow>
     ((int list \<times> int list) \<times> span_buffers) res" where
  "build_image_visibility max_image_tokens num_reqs mm_ranges num_decode_tokens num_prefill_tokens b s =
     (case span_table num_reqs mm_ranges of (indptr, starts, ends) \<Rightarrow>
      rbind (rassert (length starts \<le> length (span_starts s))) (\<lambda>_.
      if length (span_indptr s) < num_reqs + 1 then Inl RuntimeError
      else
      let s = s\<lparr>span_indptr := upload indptr (span_indptr s), span_starts := upload starts (span_starts s),
                span_ends := upload ends (span_ends s)\<rparr>;
          (lefts, rights) = visibility_kernel num_prefill_tokens (span_indptr s) (span_starts s) (span_ends s) b
            max_image_tokens num_decode_tokens (left_visible s, right_visible s);
          last = num_decode_tokens + num_prefill_tokens
      in Inr ((take last lefts, take last rights), s\<lparr>left_visible := lefts, right_visible := rights\<rparr>)))"

subsection \<open>What the stores leave\<close>

lemma fold_store:
  "length (fold (\<lambda>offset row. if offset < width then row[offset := f offset] else row) xs row) = length row"
  "j < length row \<Longrightarrow> fold (\<lambda>offset row. if offset < width then row[offset := f offset] else row) xs row ! j =
     (if j \<in> set xs \<and> j < width then f j else row ! j)"
  by (induction xs arbitrary: row) (simp_all add: nth_list_update)

lemma fold_fold: "fold (\<lambda>i. fold g (h i)) is row = fold g (concat (map h is)) row"
  by (induction "is" arbitrary: row) simp_all

lemma blocks_cover: "0 < n \<Longrightarrow> (\<exists>k < (width + n - 1) div n. j \<in> {k * n ..< k * n + n}) \<longleftrightarrow> j < (width + n - 1) div n * (n :: nat)"
proof
  assume "0 < n" and "j < (width + n - 1) div n * n"
  then have "j div n < (width + n - 1) div n" by (simp add: less_mult_imp_div_less)
  moreover have "j \<in> {j div n * n ..< j div n * n + n}"
    using dividend_less_div_times[OF \<open>0 < n\<close>, of j] by (simp add: add.commute)
  ultimately show "\<exists>k < (width + n - 1) div n. j \<in> {k * n ..< k * n + n}" by blast
next
  assume "0 < n" and "\<exists>k < (width + n - 1) div n. j \<in> {k * n ..< k * n + n}"
  then obtain k where k: "Suc k \<le> (width + n - 1) div n" "j < k * n + n" by (auto simp: Suc_le_eq)
  then show "j < (width + n - 1) div n * n" using mult_le_mono1[OF k(1), of n] by simp
qed

lemma store_tiles_map:
  assumes "width \<le> length row"
  shows "store_tiles width f row = map f [0 ..< width] @ drop width row"
proof (rule nth_equalityI)
  let ?n = TRITON_BLOCK_SIZE
  have n: "0 < ?n" by (simp add: TRITON_BLOCK_SIZE_def)
  have eq: "store_tiles width f row = fold (\<lambda>offset row. if offset < width then row[offset := f offset] else row)
      (concat (map (\<lambda>i. [i ..< i + ?n]) (map (\<lambda>k. k * ?n) [0 ..< (width + ?n - 1) div ?n]))) row"
    unfolding store_tiles_def by (rule fold_fold)
  show "length (store_tiles width f row) = length (map f [0 ..< width] @ drop width row)"
    using assms by (simp add: eq fold_store(1))
  fix j assume "j < length (store_tiles width f row)"
  then have j: "j < length row" by (simp add: eq fold_store(1))
  have enough: "width \<le> (width + ?n - 1) div ?n * ?n"
    using n by (simp add: TRITON_BLOCK_SIZE_def)
  have "j \<in> set (concat (map (\<lambda>i. [i ..< i + ?n]) (map (\<lambda>k. k * ?n) [0 ..< (width + ?n - 1) div ?n]))) \<longleftrightarrow>
      j < (width + ?n - 1) div ?n * ?n"
    using blocks_cover[OF n, of width j] by auto
  then show "store_tiles width f row ! j = (map f [0 ..< width] @ drop width row) ! j"
    using assms j enough by (auto simp: eq fold_store(2)[OF j] nth_append simp del: set_concat)
qed

lemma store_tiles_code [code]:
  "store_tiles width f row = (if width \<le> length row then map f [0 ..< width] @ drop width row
     else fold (\<lambda>i. fold (\<lambda>offset row. if offset < width then row[offset := f offset] else row) [i ..< i + TRITON_BLOCK_SIZE])
       (map (\<lambda>k. k * TRITON_BLOCK_SIZE) [0 ..< (width + TRITON_BLOCK_SIZE - 1) div TRITON_BLOCK_SIZE]) row)"
  by (cases "width \<le> length row") (simp add: store_tiles_map, simp add: store_tiles_def)

text \<open>The programs of a grid write a row each.\<close>

lemma fold_programs:
  assumes "\<And>pid rows lens. program pid (rows, lens) = (rows[pid := new_row pid (rows ! pid)], lens[pid := new_len pid])"
    and "fold program [0 ..< n] (rows, lens) = (rows', lens')" and "n \<le> length rows" and "n \<le> length lens"
  shows "length rows' = length rows \<and> length lens' = length lens \<and>
    (\<forall>i < length rows. rows' ! i = (if i < n then new_row i (rows ! i) else rows ! i)) \<and>
    (\<forall>i < length lens. lens' ! i = (if i < n then new_len i else lens ! i))"
  using assms(2-4)
proof (induction n arbitrary: rows' lens')
  case (Suc n)
  obtain r l where before: "fold program [0 ..< n] (rows, lens) = (r, l)" by fastforce
  then have after: "rows' = r[n := new_row n (r ! n)]" "lens' = l[n := new_len n]"
    using Suc.prems(1) by (simp_all add: assms(1))
  have IH: "length r = length rows" "length l = length lens"
    "\<And>i. i < length rows \<Longrightarrow> r ! i = (if i < n then new_row i (rows ! i) else rows ! i)"
    "\<And>i. i < length lens \<Longrightarrow> l ! i = (if i < n then new_len i else lens ! i)"
    using Suc.IH[OF before] Suc.prems(2,3) by simp_all
  show ?case
    using Suc.prems(2,3) by (simp add: after IH nth_list_update less_Suc_eq)
qed simp

lemma fold_programs_front:
  assumes "\<And>pid rows lens. program pid (rows, lens) = (rows[pid := new_row pid (rows ! pid)], lens[pid := new_len pid])"
    and "fold program [0 ..< n] (rows, lens) = (rows', lens')" and "n \<le> length rows" and "n \<le> length lens"
  shows "take n rows' = map (\<lambda>i. new_row i (rows ! i)) [0 ..< n] \<and> drop n rows' = drop n rows \<and>
    take n lens' = map new_len [0 ..< n] \<and> drop n lens' = drop n lens"
proof -
  note at = fold_programs[OF assms]
  show ?thesis using at assms(3,4) by (intro conjI nth_equalityI) auto
qed

definition window_start :: "int \<Rightarrow> (int list \<times> int list) option \<Rightarrow> swa_batch \<Rightarrow> nat \<Rightarrow> int" where
  "window_start w visible b t =
     max (token_pos b t - (w - 1) - max ((case visible of None \<Rightarrow> 0 | Some (ls, rs) \<Rightarrow> ls ! t) - (w - 1)) 0) 0"

definition window_len :: "int \<Rightarrow> (int list \<times> int list) option \<Rightarrow> swa_batch \<Rightarrow> nat \<Rightarrow> int" where
  "window_len w visible b t = token_pos b t + (case visible of None \<Rightarrow> 0 | Some (ls, rs) \<Rightarrow> rs ! t) + 1 - window_start w visible b t"

definition slots_row :: "nat \<Rightarrow> (int \<Rightarrow> int) \<Rightarrow> int \<Rightarrow> int \<Rightarrow> int list" where
  "slots_row width slot start len = map (\<lambda>offset. if int offset < len then slot (start + int offset) else - 1) [0 ..< width]"

lemma swa_program_writes:
  "swa_program w width visible b bs off pid (rows, lens) =
    (rows[pid := store_tiles width (\<lambda>offset. if is_valid_token b ! (pid + off) \<and> int offset < window_len w visible b (pid + off)
          then slot_at b bs (token_to_req b ! (pid + off)) (window_start w visible b (pid + off) + int offset) else - 1) (rows ! pid)],
     lens[pid := (if is_valid_token b ! (pid + off) then window_len w visible b (pid + off) else 0)])"
proof (cases "is_valid_token b ! (pid + off)")
  case True
  then show ?thesis
    by (cases visible) (simp_all add: swa_program_def Let_def window_len_def window_start_def split_beta cong: if_cong)
next
  case False
  then show ?thesis by (simp add: swa_program_def)
qed

lemma swa_kernel_rows:
  assumes "swa_kernel num_tokens w width visible b bs off (rows, lens) = (rows', lens')"
    and "num_tokens \<le> length rows" and "num_tokens \<le> length lens" and "list_all (\<lambda>row. length row = width) rows" and "i < num_tokens"
  shows "rows' ! i = (if is_valid_token b ! (i + off)
      then slots_row width (slot_at b bs (token_to_req b ! (i + off))) (window_start w visible b (i + off)) (window_len w visible b (i + off))
      else replicate width (- 1))"
    and "lens' ! i = (if is_valid_token b ! (i + off) then window_len w visible b (i + off) else 0)"
proof -
  have row: "length (rows ! i) = width" using assms(2,4,5) by (simp add: list_all_length)
  note kernel = fold_programs[OF swa_program_writes assms(1)[unfolded swa_kernel_def] assms(2,3)]
  show "rows' ! i = (if is_valid_token b ! (i + off)
      then slots_row width (slot_at b bs (token_to_req b ! (i + off))) (window_start w visible b (i + off)) (window_len w visible b (i + off))
      else replicate width (- 1))"
    using kernel assms(2,5) row by (simp add: store_tiles_map slots_row_def map_replicate_const)
  show "lens' ! i = (if is_valid_token b ! (i + off) then window_len w visible b (i + off) else 0)"
    using kernel assms(3,5) by simp
qed

text \<open>A row whose length is within its width is the slots of an interval of positions, in order, and padding.\<close>

lemma slots_row_interval:
  assumes "0 \<le> len" and "len \<le> int width"
  shows "slots_row width slot start len = map slot [start .. start + len - 1] @ replicate (width - nat len) (- 1)"
proof (rule nth_equalityI)
  show "length (slots_row width slot start len) = length (map slot [start .. start + len - 1] @ replicate (width - nat len) (- 1))"
    using assms by (simp add: slots_row_def)
  fix i assume "i < length (slots_row width slot start len)"
  then show "slots_row width slot start len ! i = (map slot [start .. start + len - 1] @ replicate (width - nat len) (- 1)) ! i"
    using assms by (auto simp: slots_row_def nth_append)
qed

subsection \<open>What a token sees\<close>

definition spans_of :: "(nat, (int \<times> int) list) dict \<Rightarrow> nat \<Rightarrow> (int \<times> int) list" where
  "spans_of mm_ranges req = (case map_of mm_ranges req of None \<Rightarrow> [] | Some s \<Rightarrow> s)"

lemma span_table_prefix:
  assumes "n \<le> num_reqs"
  shows "fold (\<lambda>req (indptr, starts, ends).
         let spans = (case map_of mm_ranges req of None \<Rightarrow> [] | Some s \<Rightarrow> s);
             starts = starts @ map fst spans; ends = ends @ map snd spans
         in (indptr[req + 1 := length starts], starts, ends))
       [0 ..< n] (replicate (num_reqs + 1) 0, [], []) =
    (map (\<lambda>r. if r \<le> n then length (concat (map (spans_of mm_ranges) [0 ..< r])) else 0) [0 ..< num_reqs + 1],
     map fst (concat (map (spans_of mm_ranges) [0 ..< n])), map snd (concat (map (spans_of mm_ranges) [0 ..< n])))"
  using assms
proof (induction n)
  case 0
  have "replicate (num_reqs + 1) 0 = map (\<lambda>r. if r \<le> 0 then length (concat (map (spans_of mm_ranges) [0 ..< r])) else 0) [0 ..< num_reqs + 1]"
    by (rule nth_equalityI) (simp_all add: nth_replicate del: upt_Suc replicate_Suc replicate.simps)
  then show ?case by (simp del: upt_Suc replicate_Suc replicate.simps)
next
  case (Suc n)
  then have IH: "fold (\<lambda>req (indptr, starts, ends).
         let spans = (case map_of mm_ranges req of None \<Rightarrow> [] | Some s \<Rightarrow> s);
             starts = starts @ map fst spans; ends = ends @ map snd spans
         in (indptr[req + 1 := length starts], starts, ends))
       [0 ..< n] (replicate (num_reqs + 1) 0, [], []) =
    (map (\<lambda>r. if r \<le> n then length (concat (map (spans_of mm_ranges) [0 ..< r])) else 0) [0 ..< num_reqs + 1],
     map fst (concat (map (spans_of mm_ranges) [0 ..< n])), map snd (concat (map (spans_of mm_ranges) [0 ..< n])))"
    by simp
  have "(map (\<lambda>r. if r \<le> n then length (concat (map (spans_of mm_ranges) [0 ..< r])) else 0) [0 ..< num_reqs + 1])
        [n + 1 := length (concat (map (spans_of mm_ranges) [0 ..< Suc n]))] =
      map (\<lambda>r. if r \<le> Suc n then length (concat (map (spans_of mm_ranges) [0 ..< r])) else 0) [0 ..< num_reqs + 1]"
    by (rule nth_equalityI) (use Suc.prems in \<open>auto simp: nth_list_update le_Suc_eq simp del: upt_Suc\<close>)
  then show ?case
    unfolding upt_Suc_append[OF zero_le] fold_append comp_def IH by (simp add: Let_def spans_of_def[symmetric] del: upt_Suc)
qed

lemma span_table_spans:
  assumes "span_table num_reqs mm_ranges = (indptr, starts, ends)" and "req < num_reqs"
  shows "map (\<lambda>i. (starts ! i, ends ! i)) [indptr ! req ..< indptr ! (req + 1)] = spans_of mm_ranges req"
    and "length indptr = num_reqs + 1" and "indptr ! (req + 1) \<le> length starts" and "length ends = length starts"
proof -
  let ?all = "\<lambda>n. concat (map (spans_of mm_ranges) [0 ..< n])"
  have tab: "indptr = map (\<lambda>r. if r \<le> num_reqs then length (?all r) else 0) [0 ..< num_reqs + 1]"
    "starts = map fst (?all num_reqs)" "ends = map snd (?all num_reqs)"
    using assms(1) span_table_prefix[OF order_refl, of mm_ranges num_reqs] unfolding span_table_def by simp_all
  have at: "indptr ! req = length (?all req)" "indptr ! (req + 1) = length (?all req) + length (spans_of mm_ranges req)"
  proof -
    have "length (?all (Suc req)) = length (?all req) + length (spans_of mm_ranges req)" by simp
    then show "indptr ! req = length (?all req)" "indptr ! (req + 1) = length (?all req) + length (spans_of mm_ranges req)"
      using assms(2) by (simp_all add: tab del: upt_Suc)
  qed
  have split: "[0 ..< num_reqs] = [0 ..< req] @ req # [req + 1 ..< num_reqs]"
    using assms(2) by (metis add.commute add_0 le_add1 less_imp_le_nat plus_1_eq_Suc upt_add_eq_append upt_conv_Cons le_add_diff_inverse)
  have all: "?all num_reqs = ?all req @ spans_of mm_ranges req @ concat (map (spans_of mm_ranges) [req + 1 ..< num_reqs])"
    by (simp add: split)
  show "map (\<lambda>i. (starts ! i, ends ! i)) [indptr ! req ..< indptr ! (req + 1)] = spans_of mm_ranges req"
    by (rule nth_equalityI) (simp_all add: at[simplified] tab(2,3) all nth_append)
  show "length indptr = num_reqs + 1" by (simp add: tab(1))
  show "indptr ! (req + 1) \<le> length starts" by (simp add: at[simplified] tab(2) all)
  show "length ends = length starts" by (simp add: tab(2,3))
qed

lemma span_table_lengths:
  assumes "span_table num_reqs mm_ranges = (indptr, starts, ends)"
  shows "length ends = length starts"
  using trans[OF sym[OF span_table_prefix[OF order_refl, of mm_ranges num_reqs]] assms[unfolded span_table_def]] by (simp del: upt_Suc) auto

text \<open>What the visibility kernel computes for a position: with one span at most that holds it, that span's.\<close>

definition span_step :: "int \<Rightarrow> int \<Rightarrow> int \<times> int \<Rightarrow> int \<times> int \<Rightarrow> int \<times> int" where
  "span_step m pos span lr =
     (if fst span \<le> pos \<and> pos \<le> snd span then (min (pos - fst span) (m - 1), min (snd span - pos) m) else lr)"

lemma visibility_fold:
  "fold (\<lambda>i (left, right).
      let span_start = starts ! i; span_end = ends ! i; in_span = (pos \<ge> span_start \<and> pos \<le> span_end)
      in (if in_span then min (pos - span_start) (m - 1) else left, if in_span then min (span_end - pos) m else right)) is lr =
    fold (span_step m pos) (map (\<lambda>i. (starts ! i, ends ! i)) is) lr"
  by (induction "is" arbitrary: lr) (simp_all add: span_step_def Let_def split_beta)

definition holds_pos :: "int \<Rightarrow> int \<times> int \<Rightarrow> bool" where
  "holds_pos pos span \<longleftrightarrow> fst span \<le> pos \<and> pos \<le> snd span"

lemma span_step_other: "list_all (\<lambda>s. \<not> holds_pos pos s) spans \<Longrightarrow> fold (span_step m pos) spans lr = lr"
  by (induction spans) (auto simp: span_step_def holds_pos_def)

lemma span_step_one:
  assumes "filter (holds_pos pos) spans = [s]"
  shows "fold (span_step m pos) spans lr = (min (pos - fst s) (m - 1), min (snd s - pos) m)"
  using assms
proof (induction spans arbitrary: lr)
  case (Cons a spans)
  show ?case
  proof (cases "holds_pos pos a")
    case True
    then have "a = s" "list_all (\<lambda>s. \<not> holds_pos pos s) spans"
      using Cons.prems by (auto simp: filter_empty_conv list_all_iff)
    moreover have "span_step m pos a lr = (min (pos - fst a) (m - 1), min (snd a - pos) m)"
      using True by (simp add: span_step_def holds_pos_def)
    ultimately show ?thesis using span_step_other[of pos spans m] by simp
  next
    case False
    then have "span_step m pos a lr = lr" by (auto simp: span_step_def holds_pos_def)
    then show ?thesis using Cons False by simp
  qed
qed simp

lemma fold_writes:
  assumes "\<And>pid l r. program pid (l, r) = (l[pid + off := x pid], r[pid + off := y pid])"
    and "fold program [0 ..< n] (l, r) = (l', r')" and "n + off \<le> length l" and "n + off \<le> length r"
  shows "length l' = length l \<and> length r' = length r \<and> (\<forall>i < n. l' ! (i + off) = x i \<and> r' ! (i + off) = y i)"
  using assms(2-4)
proof (induction n arbitrary: l' r')
  case (Suc n)
  obtain p q where before: "fold program [0 ..< n] (l, r) = (p, q)" by fastforce
  then have "l' = p[n + off := x n]" "r' = q[n + off := y n]" using Suc.prems(1) by (simp_all add: assms(1))
  then show ?case using Suc.IH[OF before] Suc.prems(2,3) by (auto simp: nth_list_update less_Suc_eq)
qed simp

lemma visibility_program_writes:
  "visibility_program indptr starts ends b m off pid (l, r) =
    (let lr = fold (span_step m (token_pos b (pid + off)))
        (map (\<lambda>i. (starts ! i, ends ! i)) [indptr ! (token_to_req b ! (pid + off)) ..< indptr ! (token_to_req b ! (pid + off) + 1)]) (0, 0)
     in (l[pid + off := fst lr], r[pid + off := snd lr]))"
  unfolding visibility_program_def Let_def by (simp add: visibility_fold[unfolded Let_def] split_beta)

lemma upload_prefix: "length xs \<le> length buffer \<Longrightarrow> i < length xs \<Longrightarrow> upload xs buffer ! i = xs ! i"
  by (simp add: upload_def nth_append)

lemma visible_counts:
  assumes "build_image_visibility m num_reqs mm_ranges nd np b s = Inr ((ls, rs), s')"
    and "nd + np \<le> length (left_visible s)" and "nd + np \<le> length (right_visible s)" and "length (span_ends s) = length (span_starts s)"
    and "i < np" and "token_to_req b ! (i + nd) < num_reqs"
  shows "(ls ! (i + nd), rs ! (i + nd)) =
    fold (span_step m (token_pos b (i + nd))) (spans_of mm_ranges (token_to_req b ! (i + nd))) (0, 0)"
proof -
  obtain indptr starts ends where tab: "span_table num_reqs mm_ranges = (indptr, starts, ends)" by (metis prod_cases3)
  let ?req = "token_to_req b ! (i + nd)"
  note spans = span_table_spans[OF tab]
  define indptr' starts' ends' where upl: "indptr' = upload indptr (span_indptr s)" "starts' = upload starts (span_starts s)"
    "ends' = upload ends (span_ends s)"
  obtain l r where kernel: "visibility_kernel np indptr' starts' ends' b m nd (left_visible s, right_visible s) = (l, r)" by fastforce
  have out: "ls = take (nd + np) l" "rs = take (nd + np) r" and room: "length starts \<le> length (span_starts s)" "num_reqs + 1 \<le> length (span_indptr s)"
    using assms(1) kernel unfolding build_image_visibility_def tab upl
    by (auto simp: rbind_Inr_iff rassert_Inr_iff Let_def split: if_splits)
  have at: "(l ! (i + nd), r ! (i + nd)) = fold (span_step m (token_pos b (i + nd)))
      (map (\<lambda>k. (starts' ! k, ends' ! k)) [indptr' ! ?req ..< indptr' ! (?req + 1)]) (0, 0)"
    using fold_writes[OF visibility_program_writes[unfolded Let_def] kernel[unfolded visibility_kernel_def]] assms(2,3,5)
    by (simp add: add.commute)
  have "indptr' ! ?req = indptr ! ?req" "indptr' ! (?req + 1) = indptr ! (?req + 1)"
    using spans(2)[OF assms(6)] room(2) assms(6) by (simp_all add: upl upload_prefix)
  moreover have "starts' ! k = starts ! k" "ends' ! k = ends ! k" if "k < indptr ! (?req + 1)" for k
    using that spans(3,4)[OF assms(6)] room(1) assms(4) by (simp_all add: upl upload_prefix)
  then have "map (\<lambda>k. (starts' ! k, ends' ! k)) [indptr ! ?req ..< indptr ! (?req + 1)] =
      map (\<lambda>k. (starts ! k, ends ! k)) [indptr ! ?req ..< indptr ! (?req + 1)]" by auto
  ultimately have "(l ! (i + nd), r ! (i + nd)) = fold (span_step m (token_pos b (i + nd))) (spans_of mm_ranges ?req) (0, 0)"
    using at by (simp only: spans(1)[OF assms(6)])
  then show ?thesis using assms(5) by (simp add: out)
qed

definition seen :: "int \<Rightarrow> (int \<times> int) list \<Rightarrow> int \<Rightarrow> int set" where
  "seen w spans pos = {p. 0 \<le> p \<and> pos - w < p \<and> p \<le> pos} \<union> {p. \<exists>span \<in> set spans. holds_pos pos span \<and> holds_pos p span}"

lemma interval_list: "sorted_list_of_set {a .. c} = [a .. c :: int]"
  by (metis set_upto distinct_upto sorted_list_of_set.idem_if_sorted_distinct sorted_upto)

lemma seen_window:
  assumes "1 \<le> w" and "1 \<le> m" and "0 \<le> pos" and "list_all (\<lambda>(a, e). 0 \<le> a \<and> e - a < m) spans"
    and "length (filter (holds_pos pos) spans) \<le> 1" and "(left, right) = fold (span_step m pos) spans (0, 0)"
    and "start = max (pos - (w - 1) - max (left - (w - 1)) 0) 0" and "len = pos + right + 1 - start"
  shows "seen w spans pos = {start .. start + len - 1}" and "0 \<le> len" and "len < w + m"
proof -
  have *: "seen w spans pos = {start .. start + len - 1} \<and> 0 \<le> len \<and> len < w + m"
  proof (cases "filter (holds_pos pos) spans")
    case Nil
    then have none: "list_all (\<lambda>s. \<not> holds_pos pos s) spans" by (auto simp: filter_empty_conv list_all_iff)
    then have "left = 0" "right = 0" using assms(6) span_step_other[OF none] by simp_all
    then have start: "start = max (pos - (w - 1)) 0" using assms(1,7) by simp
    have "seen w spans pos = {p. 0 \<le> p \<and> pos - w < p \<and> p \<le> pos}" using none by (auto simp: seen_def list_all_iff)
    also have "\<dots> = {start .. start + len - 1}" using start assms(8) \<open>right = 0\<close> by auto
    finally show ?thesis using start assms(1-3,8) \<open>right = 0\<close> by (cases "pos - (w - 1) \<le> 0") simp_all
  next
    case (Cons span rest)
    with assms(5) have one: "filter (holds_pos pos) spans = [span]" by simp
    have "set (filter (holds_pos pos) spans) = {span}" by (simp only: one list.simps)
    then have mem: "span \<in> set spans" "holds_pos pos span" and only: "\<And>x. x \<in> set spans \<Longrightarrow> holds_pos pos x \<Longrightarrow> x = span"
      by auto
    have len_ok: "0 \<le> fst span" "snd span - fst span < m" using assms(4) mem(1) by (auto simp: list_all_iff split_beta)
    have "left = min (pos - fst span) (m - 1)" "right = min (snd span - pos) m"
      using assms(6) span_step_one[OF one] by simp_all
    then have lr: "left = pos - fst span" "right = snd span - pos"
      using mem(2) len_ok(2) by (auto simp: holds_pos_def)
    have "{p. \<exists>s \<in> set spans. holds_pos pos s \<and> holds_pos p s} = {p. holds_pos p span}" using only mem by blast
    also have "\<dots> = {fst span .. snd span}" by (auto simp: holds_pos_def)
    finally have "seen w spans pos = {p. 0 \<le> p \<and> pos - w < p \<and> p \<le> pos} \<union> {fst span .. snd span}"
      by (simp only: seen_def)
    moreover have start: "start = (if pos - fst span > w - 1 then fst span else max (pos - (w - 1)) 0)"
    proof (cases "pos - fst span > w - 1")
      case True
      then have "max (pos - fst span - (w - 1)) 0 = pos - fst span - (w - 1)" by simp
      then show ?thesis using True len_ok(1) by (simp only: assms(7) lr(1)) simp
    next
      case False
      then have "max (pos - fst span - (w - 1)) 0 = 0" by simp
      then show ?thesis using False by (simp only: assms(7) lr(1)) simp
    qed
    have ends: "start + len - 1 = snd span" using assms(8) lr(2) by simp
    have near: "fst span \<le> pos" "pos \<le> snd span" using mem(2) by (simp_all add: holds_pos_def)
    have "{p. 0 \<le> p \<and> pos - w < p \<and> p \<le> pos} \<union> {fst span .. snd span} = {start .. snd span}"
      using near len_ok(1) assms(3) by (cases "pos - fst span > w - 1") (auto simp: start)
    moreover have "0 \<le> len \<and> len < w + m"
    proof (cases "pos - fst span > w - 1")
      case True
      then have "start = fst span" by (simp add: start)
      then show ?thesis using ends near len_ok(2) assms(1) by linarith
    next
      case False
      then have "start = max (pos - (w - 1)) 0" by (simp add: start)
      then have "pos - (w - 1) \<le> start" "start \<le> pos" using assms(1,3) by simp_all
      then show ?thesis using ends near len_ok(2) False by linarith
    qed
    ultimately show ?thesis using ends by simp
  qed
  show "seen w spans pos = {start .. start + len - 1}" "0 \<le> len" "len < w + m" using * by blast+
qed

text \<open>
  A prefill token is given what it may see: with image spans of at most \<open>m\<close> tokens, of which at most one
  holds the token, its row is, in order, the slots of the positions of its causal window and of its own
  image, then padding, and its length is their number, which fits the row of \<open>w + m\<close> entries.
\<close>

lemma image_rows:
  assumes "build_image_visibility m num_reqs mm_ranges nd np b s = Inr (visible, s')"
    and "swa_kernel np w (nat (w + m)) (Some visible) b bs nd (rows, lens) = (rows', lens')"
    and "1 \<le> w" and "1 \<le> m"
    and "np \<le> length rows" and "np \<le> length lens" and "list_all (\<lambda>row. length row = nat (w + m)) rows"
    and "nd + np \<le> length (left_visible s)" and "nd + np \<le> length (right_visible s)" and "length (span_ends s) = length (span_starts s)"
    and "i < np" and "is_valid_token b ! (i + nd)" and "token_to_req b ! (i + nd) = req" and "req < num_reqs"
    and "token_pos b (i + nd) = pos" and "0 \<le> pos"
    and "list_all (\<lambda>(a, e). 0 \<le> a \<and> e - a < m) (spans_of mm_ranges req)" and "length (filter (holds_pos pos) (spans_of mm_ranges req)) \<le> 1"
  shows "rows' ! i = map (slot_at b bs req) (sorted_list_of_set (seen w (spans_of mm_ranges req) pos)) @
      replicate (nat (w + m) - card (seen w (spans_of mm_ranges req) pos)) (- 1) \<and>
    lens' ! i = int (card (seen w (spans_of mm_ranges req) pos)) \<and> card (seen w (spans_of mm_ranges req) pos) < nat (w + m)"
proof -
  obtain ls rs where visible: "visible = (ls, rs)" by (cases visible)
  let ?t = "i + nd"
  let ?start = "window_start w (Some visible) b ?t" and ?len = "window_len w (Some visible) b ?t"
  have lr: "(ls ! ?t, rs ! ?t) = fold (span_step m pos) (spans_of mm_ranges req) (0, 0)"
    using visible_counts[OF assms(1)[unfolded visible] assms(8,9,10,11)] assms(13-15) by simp
  have start: "?start = max (pos - (w - 1) - max (ls ! ?t - (w - 1)) 0) 0" and len: "?len = pos + rs ! ?t + 1 - ?start"
    using assms(15) by (simp_all add: window_start_def window_len_def visible)
  note window = seen_window[OF assms(3,4,16,17,18) lr start len]
  have card: "int (card (seen w (spans_of mm_ranges req) pos)) = ?len" using window(1,2) by simp
  have row: "rows' ! i = slots_row (nat (w + m)) (slot_at b bs req) ?start ?len" "lens' ! i = ?len"
    using swa_kernel_rows[OF assms(2,5,6,7,11)] assms(12,13) by simp_all
  have "?len \<le> int (nat (w + m))" using window(3) assms(3,4) by simp
  note interval = slots_row_interval[OF window(2) this, of "slot_at b bs req" ?start]
  show ?thesis
    using row card window(3) interval assms(3,4) by (simp add: window(1) interval_list)
qed

text \<open>Without images: the causal window of the token.\<close>

lemma seen_none: "1 \<le> w \<Longrightarrow> 0 \<le> pos \<Longrightarrow> seen w [] pos = {max (pos - (w - 1)) 0 .. pos}"
  by (auto simp: seen_def)

lemma window_rows:
  assumes "swa_kernel n w width None b bs off (rows, lens) = (rows', lens')" and "1 \<le> w" and "w \<le> int width"
    and "n \<le> length rows" and "n \<le> length lens" and "list_all (\<lambda>row. length row = width) rows"
    and "i < n" and "is_valid_token b ! (i + off)" and "token_to_req b ! (i + off) = req"
    and "token_pos b (i + off) = pos" and "0 \<le> pos"
  shows "rows' ! i = map (slot_at b bs req) (sorted_list_of_set (seen w [] pos)) @ replicate (width - card (seen w [] pos)) (- 1) \<and>
    lens' ! i = int (card (seen w [] pos)) \<and> card (seen w [] pos) \<le> width"
proof -
  define st where "st = max (pos - (w - 1)) 0"
  have start: "window_start w None b (i + off) = st" using assms(2,10) by (simp add: window_start_def st_def)
  then have len: "window_len w None b (i + off) = pos + 1 - st" using assms(10) by (simp add: window_len_def)
  have "st \<le> pos" "pos - (w - 1) \<le> st" using assms(2,11) by (simp_all add: st_def)
  then have bounds: "0 \<le> pos + 1 - st" "pos + 1 - st \<le> int width" using assms(3) by linarith+
  have set: "seen w [] pos = {st .. pos}" unfolding st_def by (rule seen_none[OF assms(2,11)])
  have card: "int (card (seen w [] pos)) = pos + 1 - st" using bounds(1) by (simp add: set)
  have row: "rows' ! i = slots_row width (slot_at b bs req) st (pos + 1 - st)" "lens' ! i = pos + 1 - st"
    using swa_kernel_rows[OF assms(1,4,5,6,7)] assms(8,9) start len by simp_all
  have nat_len: "nat (pos + 1 - st) = card (seen w [] pos)" using card by simp
  show ?thesis
  proof (intro conjI)
    show "rows' ! i = map (slot_at b bs req) (sorted_list_of_set (seen w [] pos)) @ replicate (width - card (seen w [] pos)) (- 1)"
      using slots_row_interval[OF bounds, of "slot_at b bs req" st] by (simp only: row nat_len[symmetric] set interval_list) simp
    show "lens' ! i = int (card (seen w [] pos))" using row(2) card by simp
    show "card (seen w [] pos) \<le> width" using card bounds(2) by linarith
  qed
qed

subsection \<open>The shape of the buffers\<close>

definition rows_shape :: "nat \<Rightarrow> nat \<Rightarrow> int list list \<Rightarrow> bool" where
  "rows_shape n width rows \<longleftrightarrow> length rows = n \<and> list_all (\<lambda>row. length row = width) rows"

lemma length_store_tiles [simp]: "length (store_tiles width f row) = length row"
  unfolding store_tiles_def fold_fold by (simp add: fold_store(1))

lemma rows_shape_update: "rows_shape n width rows \<Longrightarrow> length row = length (rows ! i) \<Longrightarrow> rows_shape n width (rows[i := row])"
proof -
  assume shape: "rows_shape n width rows" and len: "length row = length (rows ! i)"
  show ?thesis
  proof (cases "i < length rows")
    case True
    then have "length row = width" using shape len by (simp add: rows_shape_def list_all_length)
    then show ?thesis using shape set_update_subset_insert[of rows i row] by (auto simp: rows_shape_def list_all_iff)
  qed (use shape in \<open>simp add: list_update_beyond\<close>)
qed

lemma fold_programs_shape:
  assumes "\<And>pid rows lens. \<exists>row len. program pid (rows, lens) = (rows[pid := row], lens[pid := len]) \<and> length row = length (rows ! pid)"
  shows "fold program pids (rows, lens) = (rows', lens') \<Longrightarrow> rows_shape n width rows \<Longrightarrow> rows_shape n width rows' \<and> length lens' = length lens"
proof (induction pids arbitrary: rows lens)
  case (Cons pid pids)
  obtain row len where step: "program pid (rows, lens) = (rows[pid := row], lens[pid := len])" "length row = length (rows ! pid)"
    using assms by blast
  show ?case
    using Cons.IH[OF Cons.prems(1)[simplified step(1) fold_Cons comp_def] rows_shape_update[OF Cons.prems(2) step(2)]] by simp
qed simp

lemma swa_kernel_shape:
  "swa_kernel n w width visible b bs off (rows, lens) = (rows', lens') \<Longrightarrow> rows_shape k width' rows \<Longrightarrow>
    rows_shape k width' rows' \<and> length lens' = length lens"
  unfolding swa_kernel_def by (rule fold_programs_shape) (auto simp: swa_program_writes)

lemma noncausal_kernel_shape:
  "noncausal_kernel n w width b bs off (rows, lens) = (rows', lens') \<Longrightarrow> rows_shape k width' rows \<Longrightarrow>
    rows_shape k width' rows' \<and> length lens' = length lens"
  unfolding noncausal_kernel_def by (rule fold_programs_shape) (auto simp: noncausal_program_def Let_def)

end
