(* ===== verification/Swa_Chunks.thy ===== *)
theory Swa_Chunks
  imports Runtime_Base
begin

text \<open>
  The plan that cuts the prefills of a step into chunks whose gathered keys fit the workspace
  (\<open>get_prefill_chunk_plan\<close> of \<open>patches/sparse_swa.py\<close>), and the lengths that go into it.
\<close>

subsection \<open>The plan\<close>

record prefill_lens =
  num_prefills :: nat
  prefill_seq_lens_cpu :: "int list option"
  prefill_query_lens_cpu :: "int list option"
  prefill_window_size :: int
  prefill_max_model_len :: int
  prefill_max_num_batched_tokens :: int

text \<open>The inner loop: the chunk grows while the rectangle of its requests fits the area.\<close>

function extend_chunk :: "int \<Rightarrow> int list \<Rightarrow> int list \<Rightarrow> nat \<Rightarrow> nat \<Rightarrow> nat \<Rightarrow> int \<Rightarrow> int \<Rightarrow> nat \<times> int \<times> int" where
  "extend_chunk area cs gs n chunk_start chunk_end max_c max_g =
     (if chunk_end < n then
        let cand_c = max max_c (cs ! chunk_end);
            cand_g = max max_g (gs ! chunk_end)
        in if int (chunk_end - chunk_start + 1) * (cand_c + cand_g) > area then (chunk_end, max_c, max_g)
           else extend_chunk area cs gs n chunk_start (chunk_end + 1) cand_c cand_g
      else (chunk_end, max_c, max_g))"
  by pat_completeness auto
termination by (relation "measure (\<lambda>(area, cs, gs, n, s, e, c, g). n - e)") auto

declare extend_chunk.simps [simp del]

lemma extend_chunk_end: "extend_chunk area cs gs n s e c g = (e', c', g') \<Longrightarrow> e \<le> e' \<and> (e \<le> n \<longrightarrow> e' \<le> n)"
proof (induction area cs gs n s e c g arbitrary: e' c' g' rule: extend_chunk.induct)
  case (1 area cs gs n s e c g)
  show ?case
  proof (cases "e < n \<and> \<not> int (e - s + 1) * (max c (cs ! e) + max g (gs ! e)) > area")
    case True
    then have "extend_chunk area cs gs n s (e + 1) (max c (cs ! e)) (max g (gs ! e)) = (e', c', g')"
      using "1.prems" by (simp add: extend_chunk.simps[of area cs gs n s e c g] Let_def)
    then show ?thesis using "1.IH"[OF _ refl refl] True by simp
  next
    case False
    then have "e' = e" using "1.prems" by (auto simp: extend_chunk.simps[of area cs gs n s e c g] Let_def split: if_splits)
    then show ?thesis by simp
  qed
qed

function chunk_loop :: "int \<Rightarrow> int list \<Rightarrow> int list \<Rightarrow> nat \<Rightarrow> nat \<Rightarrow> (nat \<times> nat \<times> int \<times> int) list" where
  "chunk_loop area cs gs n chunk_start =
     (if chunk_start < n then
        case extend_chunk area cs gs n chunk_start (chunk_start + 1) (cs ! chunk_start) (gs ! chunk_start) of
          (chunk_end, max_c, max_g) \<Rightarrow> (chunk_start, chunk_end, max_c, max_c + max_g) # chunk_loop area cs gs n chunk_end
      else [])"
  by pat_completeness auto
termination
  by (relation "measure (\<lambda>(area, cs, gs, n, s). n - s)") (auto dest!: extend_chunk_end[OF sym])

declare chunk_loop.simps [simp del]

definition gather_len :: "int \<Rightarrow> int \<Rightarrow> int \<Rightarrow> int" where
  "gather_len window seq_len query_len = query_len + min (max (seq_len - query_len) 0) (window - 1)"

definition cdiv_int :: "int \<Rightarrow> int \<Rightarrow> int res" where
  "cdiv_int a b = (if b = 0 then Inl ZeroDivisionError else Inr (cdiv a b))"

definition max_workspace_area :: "prefill_lens \<Rightarrow> int \<Rightarrow> int \<Rightarrow> bool \<Rightarrow> int res" where
  "max_workspace_area p ratio chunk_size compressed =
     rbind (if compressed then cdiv_int (prefill_max_model_len p) ratio else Inr 0) (\<lambda>pool.
       Inr (chunk_size * (pool + prefill_window_size p + prefill_max_num_batched_tokens p)))"

definition get_prefill_chunk_plan ::
    "prefill_lens \<Rightarrow> int \<Rightarrow> int \<Rightarrow> bool option \<Rightarrow> (nat \<times> nat \<times> int \<times> int) list res" where
  "get_prefill_chunk_plan p ratio chunk_size has_compressed =
     (if num_prefills p = 0 then Inr []
      else
        rbind (some_or AssertionError (prefill_seq_lens_cpu p)) (\<lambda>seqs.
        rbind (some_or AssertionError (prefill_query_lens_cpu p)) (\<lambda>queries.
        let compressed = (case has_compressed of None \<Rightarrow> ratio > 1 | Some c \<Rightarrow> c)
        in rbind (max_workspace_area p ratio chunk_size compressed) (\<lambda>area.
           let gathers = map2 (gather_len (prefill_window_size p)) seqs queries;
               compressed_lens = map (\<lambda>s. if compressed then s div ratio else 0) seqs
           in Inr (chunk_loop area compressed_lens gathers (num_prefills p) 0)))))"

text \<open>\<open>ComputePrefillMetadataKernel\<close> writes the same lengths, for the requests after the decodes.\<close>

definition prefill_gather_kernel :: "int list \<Rightarrow> int list \<Rightarrow> nat \<Rightarrow> nat \<Rightarrow> int \<Rightarrow> int list" where
  "prefill_gather_kernel seq_lens query_start_loc n_prefills n_decodes window_size =
     map (\<lambda>offset.
         let seq_len = seq_lens ! (n_decodes + offset);
             query_len = query_start_loc ! (n_decodes + offset + 1) - query_start_loc ! (n_decodes + offset)
         in query_len + min (seq_len - query_len) (window_size - 1)) [0 ..< n_prefills]"

lemma kernel_gathers:
  assumes "0 \<le> seq_lens ! (d + i) - (qsl ! (d + i + 1) - qsl ! (d + i))" and "i < n"
  shows "prefill_gather_kernel seq_lens qsl n d w ! i = gather_len w (seq_lens ! (d + i)) (qsl ! (d + i + 1) - qsl ! (d + i))"
  using assms by (simp add: prefill_gather_kernel_def gather_len_def Let_def)

subsection \<open>What a chunk holds\<close>

text \<open>
  A chunk of a plan: not empty, its two numbers are the largest of its requests, its rectangle fits the
  area unless it is of one request, and it could not have held the next request.
\<close>

definition chunk_ok :: "int \<Rightarrow> int list \<Rightarrow> int list \<Rightarrow> nat \<Rightarrow> nat \<times> nat \<times> int \<times> int \<Rightarrow> bool" where
  "chunk_ok area cs gs n chunk = (case chunk of (s, e, c, width) \<Rightarrow>
     s < e \<and> e \<le> n \<and> c = Max (set (map ((!) cs) [s ..< e])) \<and> width - c = Max (set (map ((!) gs) [s ..< e])) \<and>
     (int (e - s) * width \<le> area \<or> e = s + 1) \<and>
     (e < n \<longrightarrow> int (e - s + 1) * (max c (cs ! e) + max (width - c) (gs ! e)) > area))"

lemma Max_range_Suc: "s < e \<Longrightarrow> Max (set (map f [s ..< Suc e])) = max (Max (set (map f [s ..< e]))) (f e)" for f :: "nat \<Rightarrow> int"
proof -
  assume "s < e"
  then have "set (map f [s ..< Suc e]) = insert (f e) (set (map f [s ..< e]))" and "set (map f [s ..< e]) \<noteq> {}" by auto
  then show ?thesis by (simp add: max.commute)
qed

lemma extend_chunk_ok:
  assumes "extend_chunk area cs gs n s e c g = (e', c', g')" and "s < e" and "e \<le> n"
    and "c = Max (set (map ((!) cs) [s ..< e]))" and "g = Max (set (map ((!) gs) [s ..< e]))"
    and "int (e - s) * (c + g) \<le> area \<or> e = s + 1"
  shows "chunk_ok area cs gs n (s, e', c', c' + g')"
  using assms
proof (induction area cs gs n s e c g arbitrary: e' c' g' rule: extend_chunk.induct)
  case (1 area cs gs n s e c g)
  let ?c = "max c (cs ! e)" and ?g = "max g (gs ! e)"
  show ?case
  proof (cases "e < n")
    case False
    then have "e' = e" "c' = c" "g' = g" using "1.prems"(1) by (simp_all add: extend_chunk.simps[of area cs gs n s e c g])
    then show ?thesis using False "1.prems"(2-6) by (simp add: chunk_ok_def)
  next
    case True
    show ?thesis
    proof (cases "int (e - s + 1) * (?c + ?g) > area")
      case stop: True
      then have "e' = e" "c' = c" "g' = g"
        using True "1.prems"(1) by (simp_all add: extend_chunk.simps[of area cs gs n s e c g] Let_def)
      then show ?thesis using stop True "1.prems"(2-6) by (simp add: chunk_ok_def)
    next
      case False
      have next_chunk: "extend_chunk area cs gs n s (e + 1) ?c ?g = (e', c', g')"
        using True False "1.prems"(1) by (simp add: extend_chunk.simps[of area cs gs n s e c g] Let_def)
      have "?c = Max (set (map ((!) cs) [s ..< e + 1]))" "?g = Max (set (map ((!) gs) [s ..< e + 1]))"
        using "1.prems"(2,4,5) by (simp_all only: Max_range_Suc Suc_eq_plus1[symmetric])
      moreover have "int (e + 1 - s) * (?c + ?g) \<le> area" using False "1.prems"(2) by (simp add: Suc_diff_le)
      ultimately show ?thesis
        using "1.IH"[OF True refl refl _ next_chunk] False "1.prems"(2) True by simp
    qed
  qed
qed

text \<open>The chunks follow each other.\<close>

fun consecutive :: "nat \<Rightarrow> (nat \<times> nat \<times> 'a) list \<Rightarrow> nat \<Rightarrow> bool" where
  "consecutive a [] b \<longleftrightarrow> a = b"
| "consecutive a ((s, e, x) # chunks) b \<longleftrightarrow> s = a \<and> consecutive e chunks b"

lemma chunk_loop_ok: "s \<le> n \<Longrightarrow> consecutive s (chunk_loop area cs gs n s) n \<and> list_all (chunk_ok area cs gs n) (chunk_loop area cs gs n s)"
proof (induction area cs gs n s rule: chunk_loop.induct)
  case (1 area cs gs n s)
  show ?case
  proof (cases "s < n")
    case True
    obtain e c g where ext: "extend_chunk area cs gs n s (s + 1) (cs ! s) (gs ! s) = (e, c, g)" by (metis prod_cases3)
    have "chunk_ok area cs gs n (s, e, c, c + g)"
      by (rule extend_chunk_ok[OF ext]) (use True in simp_all)
    moreover have "e \<le> n" using extend_chunk_end[OF ext] True by simp
    ultimately show ?thesis
      using "1.IH"[OF True ext[symmetric] refl] True ext by (simp add: chunk_loop.simps[of area cs gs n s])
  next
    case False
    then have "chunk_loop area cs gs n s = []" by (simp add: chunk_loop.simps[of area cs gs n s])
    then show ?thesis using False "1.prems" by simp
  qed
qed

text \<open>The lengths a plan is made of.\<close>

definition compressed_len :: "bool \<Rightarrow> int \<Rightarrow> int \<Rightarrow> int" where
  "compressed_len compressed ratio seq_len = (if compressed then seq_len div ratio else 0)"

lemma div_le_cdiv: "0 < r \<Longrightarrow> s \<le> l \<Longrightarrow> s div r \<le> cdiv l r" for r :: int
proof -
  assume "0 < r" and "s \<le> l"
  then have "s \<le> cdiv l r * r" using cdiv_bounds(1)[of r l] by simp
  then have "s div r \<le> (cdiv l r * r) div r" using zdiv_mono1[of s "cdiv l r * r" r] \<open>0 < r\<close> by simp
  then show ?thesis using \<open>0 < r\<close> by simp
qed

text \<open>
  The chunks of a plan are the prefills, once each and in order, and every chunk fits the workspace: for
  lengths within the limits of the model and the scheduler, a rectangle of the chunk's requests by its width
  is within the area that \<open>prefill_chunk_size\<close> requests of the largest width have, and the width holds the
  compressed and the gathered keys of each of its requests.
\<close>

lemma prefill_chunks_fit:
  assumes "get_prefill_chunk_plan p ratio chunk_size has_compressed = Inr plan"
    and "max_workspace_area p ratio chunk_size compressed = Inr area"
    and "compressed = (case has_compressed of None \<Rightarrow> ratio > 1 | Some c \<Rightarrow> c)"
    and "prefill_seq_lens_cpu p = Some seqs" and "prefill_query_lens_cpu p = Some queries"
    and "length seqs = num_prefills p" and "length queries = num_prefills p"
    and "list_all2 (\<lambda>s q. 0 \<le> q \<and> q \<le> s \<and> s \<le> prefill_max_model_len p \<and> q \<le> prefill_max_num_batched_tokens p) seqs queries"
    and "1 \<le> ratio" and "1 \<le> chunk_size" and "1 \<le> prefill_window_size p"
  shows "consecutive 0 plan (num_prefills p) \<and>
    list_all (\<lambda>(s, e, c, width). s < e \<and> int (e - s) * width \<le> area \<and>
      list_all (\<lambda>i. compressed_len compressed ratio (seqs ! i) \<le> c \<and>
        compressed_len compressed ratio (seqs ! i) + gather_len (prefill_window_size p) (seqs ! i) (queries ! i) \<le> width) [s ..< e]) plan"
proof -
  let ?n = "num_prefills p" and ?w = "prefill_window_size p"
  define cs where "cs = map (compressed_len compressed ratio) seqs"
  define gs where "gs = map2 (gather_len ?w) seqs queries"
  have plan: "plan = (if ?n = 0 then [] else chunk_loop area cs gs ?n 0)"
    using assms(1,2,4,5) by (auto simp: get_prefill_chunk_plan_def assms(3)[symmetric] cs_def gs_def compressed_len_def[abs_def] Let_def)
  have loop: "consecutive 0 plan ?n" "list_all (chunk_ok area cs gs ?n) plan"
    using chunk_loop_ok[of 0 ?n area cs gs] by (auto simp: plan)
  define pool where "pool = (if compressed then cdiv (prefill_max_model_len p) ratio else 0)"
  have area: "area = chunk_size * (pool + ?w + prefill_max_num_batched_tokens p)"
    using assms(2,9) by (auto simp: max_workspace_area_def cdiv_int_def pool_def split: if_splits)
  have bounds: "cs ! i \<le> pool" "gs ! i \<le> prefill_max_num_batched_tokens p + ?w" "0 \<le> cs ! i" "0 \<le> gs ! i" if i: "i < ?n" for i
  proof -
    have lens: "0 \<le> queries ! i" "queries ! i \<le> seqs ! i" "seqs ! i \<le> prefill_max_model_len p" "queries ! i \<le> prefill_max_num_batched_tokens p"
      using assms(6,8) i by (simp_all add: list_all2_conv_all_nth)
    show "cs ! i \<le> pool" "0 \<le> cs ! i"
      using lens assms(6,9) i div_le_cdiv[of ratio "seqs ! i" "prefill_max_model_len p"]
      by (simp_all add: cs_def compressed_len_def pool_def pos_imp_zdiv_nonneg_iff)
    show "gs ! i \<le> prefill_max_num_batched_tokens p + ?w" "0 \<le> gs ! i"
      using lens assms(6,7,11) i by (simp_all add: gs_def gather_len_def)
  qed
  have fits: "s < e \<and> int (e - s) * width \<le> area \<and>
      list_all (\<lambda>i. compressed_len compressed ratio (seqs ! i) \<le> c \<and>
        compressed_len compressed ratio (seqs ! i) + gather_len ?w (seqs ! i) (queries ! i) \<le> width) [s ..< e]"
    if "(s, e, c, width) \<in> set plan" for s e c width
  proof -
    have ok: "s < e" "e \<le> ?n" "c = Max (set (map ((!) cs) [s ..< e]))" "width - c = Max (set (map ((!) gs) [s ..< e]))"
      "int (e - s) * width \<le> area \<or> e = s + 1"
      using loop(2) that by (auto simp: list_all_iff chunk_ok_def)
    have above: "cs ! i \<le> c \<and> gs ! i \<le> width - c" if "s \<le> i" "i < e" for i
    proof
      show "cs ! i \<le> c" using that by (simp only: ok(3)) auto
      show "gs ! i \<le> width - c" using that by (simp only: ok(4)) auto
    qed
    have "int (e - s) * width \<le> area"
    proof (cases "e = s + 1")
      case True
      then have "c = cs ! s" "width - c = gs ! s" using ok(3,4) by simp_all
      then have "width \<le> pool + ?w + prefill_max_num_batched_tokens p" "0 \<le> width"
        using bounds[of s] ok(1,2) by auto
      moreover have "pool + ?w + prefill_max_num_batched_tokens p \<le> area"
        using calculation assms(10) mult_right_mono[of 1 chunk_size "pool + ?w + prefill_max_num_batched_tokens p"] by (simp add: area)
      ultimately show ?thesis using True by simp
    qed (use ok(5) in simp)
    moreover have "list_all (\<lambda>i. compressed_len compressed ratio (seqs ! i) \<le> c \<and>
        compressed_len compressed ratio (seqs ! i) + gather_len ?w (seqs ! i) (queries ! i) \<le> width) [s ..< e]"
      using above ok(2) assms(6,7) by (fastforce simp: list_all_iff cs_def gs_def)
    ultimately show ?thesis using ok(1) by blast
  qed
  then show ?thesis using loop(1) by (auto simp: list_all_iff)
qed

definition demo_lens :: prefill_lens where
  "demo_lens = \<lparr>num_prefills = 3, prefill_seq_lens_cpu = Some [100, 300, 20], prefill_query_lens_cpu = Some [40, 50, 20],
     prefill_window_size = 16, prefill_max_model_len = 400, prefill_max_num_batched_tokens = 128\<rparr>"

lemma prefill_chunks_fit_witness:
  "consecutive 0 [(0 :: nat, 1 :: nat, 25 :: int, 80 :: int), (1, 2, 75, 140), (2, 3, 5, 25)] (num_prefills demo_lens) \<and>
    list_all (\<lambda>(s, e, c, width). s < e \<and> int (e - s) * width \<le> 244 \<and>
      list_all (\<lambda>i. compressed_len True 4 ([100, 300, 20] ! i) \<le> c \<and>
        compressed_len True 4 ([100, 300, 20] ! i) + gather_len (prefill_window_size demo_lens) ([100, 300, 20] ! i) ([40, 50, 20] ! i) \<le> width) [s ..< e])
      [(0, 1, 25, 80), (1, 2, 75, 140), (2, 3, 5, 25)]"
proof (rule prefill_chunks_fit[where ratio = 4 and chunk_size = 1 and has_compressed = None])
  show "get_prefill_chunk_plan demo_lens 4 1 None = Inr [(0, 1, 25, 80), (1, 2, 75, 140), (2, 3, 5, 25)]" by code_simp
  show "max_workspace_area demo_lens 4 1 True = Inr 244" by code_simp
qed (simp_all add: demo_lens_def)

end
