(* ===== verification/Swa_Build.thy ===== *)
theory Swa_Build
  imports Swa_Indices Swa_Chunks
begin

text \<open>
  The builder of the sliding-window metadata (\<open>patches/sparse_swa.py\<close>): what it allocates, a build for a batch of
  decodes and prefills, and the update between the steps of a draft. The split of the batch and the map from
  tokens to requests are vllm's, and arguments. A prefill row holds what its token sees, and builds write the
  allocated buffers in place and return nothing of earlier steps.
\<close>

subsection \<open>Layer types\<close>

definition layer_type_for :: "int \<Rightarrow> string res" where
  "layer_type_for compress_ratio =
     (if compress_ratio \<le> 1 then Inr ''swaonly''
      else if compress_ratio = 2 then Inr ''c2a''
      else if compress_ratio = 4 then Inr ''c4a''
      else if compress_ratio = 128 then Inr ''c128a''
      else Inl ValueError)"

text \<open>
  One plan holder for each layer type the model has, \<open>new_meta\<close>; none without decode tokens or on a
  platform with its own decode kernels.
\<close>

definition build_tile_scheduler :: "'m \<Rightarrow> bool \<Rightarrow> string list \<Rightarrow> nat \<Rightarrow> (string, 'm option) dict" where
  "build_tile_scheduler new_meta own_kernels layer_types num_decode_tokens =
     (let out = map (\<lambda>t. (t, None)) [''swaonly'', ''c4a'', ''c128a'', ''c1a'', ''c2a'']
      in if num_decode_tokens = 0 \<or> own_kernels then out
         else fold (\<lambda>t. dict_set t (Some new_meta)) layer_types out)"

subsection \<open>The builder\<close>

record spec_settings =
  num_spec_tokens :: nat
  parallel_drafting :: bool
  use_dspark :: bool

record swa_settings =
  hf_sliding_window :: int
  vision_max_n_token :: "int option"
  vision_n_layers :: "int option"
  compress_ratios :: "int list option"
  max_num_batched_tokens :: nat
  max_num_seqs :: nat
  model_len :: int
  spec_config :: "spec_settings option"
  spec_block_size :: int

record swa_builder =
  window_size :: int
  max_image_tokens :: int
  page_size :: int
  decode_threshold :: nat
  layer_types :: "string list"
  builder_max_tokens :: nat
  builder_model_len :: int
  noncausal_index_width :: nat
  is_dspark :: bool
  decode_rows :: "int list list"
  decode_lens :: "int list"
  prefill_rows :: "int list list"
  prefill_row_lens :: "int list"
  noncausal_rows :: "int list list option"
  spans :: span_buffers

definition prefill_index_width :: "swa_builder \<Rightarrow> nat" where
  "prefill_index_width u = nat (window_size u + max_image_tokens u)"

definition zero_rows :: "nat \<Rightarrow> nat \<Rightarrow> int list list" where
  "zero_rows n width = replicate n (replicate width 0)"

text \<open>\<open>dspark_width\<close> is vllm's width of the rows of a draft block, from the window and the drafted tokens.\<close>

definition swa_builder_init :: "(int \<Rightarrow> nat \<Rightarrow> nat) \<Rightarrow> swa_settings \<Rightarrow> swa_builder res" where
  "swa_builder_init dspark_width c =
     (let spec_tokens = (case spec_config c of None \<Rightarrow> 0 | Some s \<Rightarrow> num_spec_tokens s);
          spec_mult = (case spec_config c of Some s \<Rightarrow> if parallel_drafting s then 2 else 1 | None \<Rightarrow> 1);
          w = hf_sliding_window c;
          images = (if (case vision_n_layers c of None \<Rightarrow> 0 | Some n \<Rightarrow> n) > 0
                    then (case vision_max_n_token c of None \<Rightarrow> 0 | Some n \<Rightarrow> n) else 0);
          ratios = (case compress_ratios c of None \<Rightarrow> [1] | Some [] \<Rightarrow> [1] | Some (r # rs) \<Rightarrow> r # rs);
          n = max_num_batched_tokens c;
          dspark = (case spec_config c of None \<Rightarrow> False | Some s \<Rightarrow> use_dspark s);
          zeros = replicate n 0
      in rbind (rmap layer_type_for ratios) (\<lambda>types.
         Inr \<lparr>window_size = w, max_image_tokens = images, page_size = spec_block_size c,
              decode_threshold = 1 + spec_mult * spec_tokens, layer_types = remdups types,
              builder_max_tokens = n, builder_model_len = model_len c,
              noncausal_index_width = (if dspark then dspark_width w spec_tokens else 0), is_dspark = dspark,
              decode_rows = zero_rows n (nat w), decode_lens = zeros,
              prefill_rows = zero_rows n (nat (w + images)), prefill_row_lens = zeros, noncausal_rows = None,
              spans = (if images > 0
                then \<lparr>span_indptr = replicate (max_num_seqs c + 1) 0, span_starts = zeros, span_ends = zeros,
                      left_visible = zeros, right_visible = zeros\<rparr>
                else \<lparr>span_indptr = [], span_starts = [], span_ends = [], left_visible = [], right_visible = []\<rparr>)\<rparr>))"

subsection \<open>A build\<close>

record step_batch =
  s_query_start_loc :: "int list"
  s_seq_lens :: "int list"
  s_seq_lens_cpu :: "int list option"
  s_block_table :: "int list list"
  s_slot_mapping :: "int list"
  s_causal :: bool
  s_num_reqs :: nat
  s_max_query_len :: nat
  s_mm_ranges :: "(nat, (int \<times> int) list) dict option"

text \<open>The metadata, without the fields that repeat the batch.\<close>

record 'm swa_metadata =
  m_batch :: swa_batch
  m_decode_rows :: "int list list"
  m_decode_lens :: "int list"
  m_decode_width :: nat
  m_prefill_rows :: "int list list option"
  m_prefill_lens :: "int list option"
  m_visible :: "(int list \<times> int list) option"
  m_num_decodes :: nat
  m_num_decode_tokens :: nat
  m_num_prefill_tokens :: nat
  m_max_decode_query_len :: nat
  m_prefill :: prefill_lens
  m_gather_lens :: "int list option"
  m_tile_sched :: "(string, 'm option) dict"
  m_index_cache :: "string list"

text \<open>\<open>_build_deepseek_v4_metadata\<close>; without prefills the fields keep their defaults.\<close>

definition build_prefill_metadata :: "swa_builder \<Rightarrow> nat \<Rightarrow> nat \<Rightarrow> step_batch \<Rightarrow> (prefill_lens \<times> int list option) res" where
  "build_prefill_metadata u n_decodes n_prefills st =
     (if n_prefills = 0 then
        Inr (\<lparr>num_prefills = 0, prefill_seq_lens_cpu = None, prefill_query_lens_cpu = None, prefill_window_size = 0,
              prefill_max_model_len = 0, prefill_max_num_batched_tokens = 0\<rparr>, None)
      else
        rbind (some_or AssertionError (s_seq_lens_cpu st)) (\<lambda>lens_cpu.
        let qsl = s_query_start_loc st
        in Inr (\<lparr>num_prefills = n_prefills, prefill_seq_lens_cpu = Some (drop n_decodes lens_cpu),
                 prefill_query_lens_cpu = Some (map2 (-) (take n_prefills (drop (n_decodes + 1) qsl)) (take n_prefills (drop n_decodes qsl))),
                 prefill_window_size = window_size u, prefill_max_model_len = builder_model_len u,
                 prefill_max_num_batched_tokens = int (builder_max_tokens u)\<rparr>,
                Some (prefill_gather_kernel (s_seq_lens st) qsl n_prefills n_decodes (window_size u)))))"

text \<open>The decode part: the rows are those of the draft block when the batch is not causal.\<close>

definition build_decode_rows :: "swa_builder \<Rightarrow> swa_batch \<Rightarrow> bool \<Rightarrow> nat \<Rightarrow> (int list list \<times> swa_builder) res" where
  "build_decode_rows u b causal n_tokens =
     (if n_tokens = 0 then Inr (decode_rows u, u)
      else
        let lens = take n_tokens (decode_lens u) @ replicate (length (decode_lens u) - n_tokens) 0
        in if causal then
             case swa_kernel n_tokens (window_size u) (nat (window_size u)) None b (page_size u) 0 (decode_rows u, lens) of
               (rows, lens) \<Rightarrow> Inr (rows, u\<lparr>decode_rows := rows, decode_lens := lens\<rparr>)
           else
             rbind (rassert (is_dspark u)) (\<lambda>_.
             let rows = (case noncausal_rows u of None \<Rightarrow> zero_rows (builder_max_tokens u) (noncausal_index_width u) | Some rows \<Rightarrow> rows)
             in case noncausal_kernel n_tokens (window_size u) (noncausal_index_width u) b (page_size u) 0 (rows, lens) of
                  (rows, lens) \<Rightarrow> Inr (rows, u\<lparr>noncausal_rows := Some rows, decode_lens := lens\<rparr>)))"

text \<open>The prefill part, with the visibility of images where the batch has spans.\<close>

definition wants_images :: "swa_builder \<Rightarrow> nat \<Rightarrow> (nat, (int \<times> int) list) dict option \<Rightarrow> bool" where
  "wants_images u n_tokens mm \<longleftrightarrow> max_image_tokens u > 0 \<and> n_tokens > 0 \<and>
     (case mm of None \<Rightarrow> False | Some d \<Rightarrow> list_ex (\<lambda>(r, s). s \<noteq> []) d)"

definition write_prefill_rows :: "swa_batch \<Rightarrow> nat \<Rightarrow> nat \<Rightarrow> (int list \<times> int list) option \<Rightarrow> swa_builder \<Rightarrow> swa_builder" where
  "write_prefill_rows b n_decode_tokens n_tokens visible u =
     (if n_tokens = 0 then u
      else
        case swa_kernel n_tokens (window_size u) (prefill_index_width u) visible b (page_size u) n_decode_tokens
            (take n_tokens (prefill_rows u), take n_tokens (prefill_row_lens u)) of
          (rows, lens) \<Rightarrow> u\<lparr>prefill_rows := upload rows (prefill_rows u), prefill_row_lens := upload lens (prefill_row_lens u)\<rparr>)"

definition build_prefill_rows ::
    "swa_builder \<Rightarrow> swa_batch \<Rightarrow> nat \<Rightarrow> (nat, (int \<times> int) list) dict option \<Rightarrow> nat \<Rightarrow> nat \<Rightarrow>
     ((int list \<times> int list) option \<times> swa_builder) res" where
  "build_prefill_rows u b n_reqs mm n_decode_tokens n_tokens =
     (if wants_images u n_tokens mm then
        rbind (build_image_visibility (max_image_tokens u) n_reqs (the mm) n_decode_tokens n_tokens b (spans u)) (\<lambda>(visible, s).
        Inr (Some visible, write_prefill_rows b n_decode_tokens n_tokens (Some visible) (u\<lparr>spans := s\<rparr>)))
      else Inr (None, write_prefill_rows b n_decode_tokens n_tokens None u))"

definition build ::
    "'m \<Rightarrow> bool \<Rightarrow> (nat \<Rightarrow> step_batch \<Rightarrow> nat \<times> nat \<times> nat \<times> nat) \<Rightarrow> (step_batch \<Rightarrow> nat list) \<Rightarrow> swa_builder \<Rightarrow> step_batch \<Rightarrow>
     ('m swa_metadata \<times> swa_builder) res" where
  "build new_meta own_kernels split_batch req_of u st =
     (case split_batch (decode_threshold u) st of (n_decodes, n_prefills, n_decode_tokens, n_prefill_tokens) \<Rightarrow>
      let b = \<lparr>query_start_loc = s_query_start_loc st, seq_lens = s_seq_lens st, token_to_req = req_of st,
               is_valid_token = map (\<lambda>slot. slot \<ge> 0) (s_slot_mapping st), block_table = s_block_table st\<rparr>
      in rbind (build_decode_rows u b (s_causal st) n_decode_tokens) (\<lambda>(rows, u).
         rbind (build_prefill_rows u b (s_num_reqs st) (s_mm_ranges st) n_decode_tokens n_prefill_tokens) (\<lambda>(visible, u).
         rbind (build_prefill_metadata u n_decodes n_prefills st) (\<lambda>(pre, gathers).
         Inr (\<lparr>m_batch = b, m_decode_rows = take n_decode_tokens rows, m_decode_lens = take n_decode_tokens (decode_lens u),
               m_decode_width = (if s_causal st then nat (window_size u) else noncausal_index_width u),
               m_prefill_rows = (if n_prefill_tokens > 0 then Some (take n_prefill_tokens (prefill_rows u)) else None),
               m_prefill_lens = (if n_prefill_tokens > 0 then Some (take n_prefill_tokens (prefill_row_lens u)) else None),
               m_visible = visible, m_num_decodes = n_decodes, m_num_decode_tokens = n_decode_tokens,
               m_num_prefill_tokens = n_prefill_tokens,
               m_max_decode_query_len = min (s_max_query_len st) (decode_threshold u), m_prefill = pre, m_gather_lens = gathers,
               m_tile_sched = build_tile_scheduler new_meta own_kernels (layer_types u) n_decode_tokens, m_index_cache = []\<rparr>, u)))))"

text \<open>
  Between two steps of a draft: the rows of the decodes again, with the width of the rows as the window, new
  plan holders and an empty index cache. The rows are views of the builder's, which the model returns apart.
\<close>

definition update_draft_decode_metadata :: "'m \<Rightarrow> bool \<Rightarrow> swa_builder \<Rightarrow> 'm swa_metadata \<Rightarrow> 'm swa_metadata" where
  "update_draft_decode_metadata new_meta own_kernels u m =
     (if m_num_decode_tokens m = 0 then m
      else
        let width = m_decode_width m;
            (rows, lens) = swa_kernel (m_num_decode_tokens m) (int width) width None (m_batch m) (page_size u) 0
              (m_decode_rows m, m_decode_lens m)
        in m\<lparr>m_decode_rows := rows, m_decode_lens := lens,
             m_tile_sched := build_tile_scheduler new_meta own_kernels (layer_types u) (m_num_decode_tokens m),
             m_index_cache := []\<rparr>)"

subsection \<open>The buffers of a builder\<close>

definition option_shape :: "nat \<Rightarrow> nat \<Rightarrow> int list list option \<Rightarrow> bool" where
  "option_shape n width rows \<longleftrightarrow> (case rows of None \<Rightarrow> True | Some r \<Rightarrow> rows_shape n width r)"

lemma option_shape_simps [simp]: "option_shape n width None" "option_shape n width (Some r) = rows_shape n width r"
  by (simp_all add: option_shape_def)

definition builder_ok :: "swa_builder \<Rightarrow> bool" where
  "builder_ok u \<longleftrightarrow> 1 \<le> window_size u \<and> 0 \<le> max_image_tokens u \<and>
     rows_shape (builder_max_tokens u) (nat (window_size u)) (decode_rows u) \<and> length (decode_lens u) = builder_max_tokens u \<and>
     rows_shape (builder_max_tokens u) (prefill_index_width u) (prefill_rows u) \<and> length (prefill_row_lens u) = builder_max_tokens u \<and>
     option_shape (builder_max_tokens u) (noncausal_index_width u) (noncausal_rows u) \<and>
     (max_image_tokens u > 0 \<longrightarrow> length (span_starts (spans u)) = builder_max_tokens u \<and> length (span_ends (spans u)) = builder_max_tokens u \<and>
        length (left_visible (spans u)) = builder_max_tokens u \<and> length (right_visible (spans u)) = builder_max_tokens u)"

definition same_settings :: "swa_builder \<Rightarrow> swa_builder \<Rightarrow> bool" where
  "same_settings u u' \<longleftrightarrow> window_size u' = window_size u \<and> max_image_tokens u' = max_image_tokens u \<and> page_size u' = page_size u \<and>
     decode_threshold u' = decode_threshold u \<and> layer_types u' = layer_types u \<and> builder_max_tokens u' = builder_max_tokens u \<and>
     builder_model_len u' = builder_model_len u \<and> noncausal_index_width u' = noncausal_index_width u \<and> is_dspark u' = is_dspark u"

lemma zero_rows_shape [simp]: "rows_shape n width (zero_rows n width)"
  by (simp add: rows_shape_def zero_rows_def list_all_iff)

lemma init_ok:
  assumes "swa_builder_init dspark_width c = Inr u" and "1 \<le> hf_sliding_window c"
    and "0 \<le> (case vision_max_n_token c of None \<Rightarrow> 0 | Some n \<Rightarrow> n)"
  shows "builder_ok u"
  using assms by (auto simp: swa_builder_init_def Let_def rbind_Inr_iff builder_ok_def prefill_index_width_def)

lemma length_upload [simp]: "length xs \<le> length buffer \<Longrightarrow> length (upload xs buffer) = length buffer"
  by (simp add: upload_def)

lemma decode_keeps:
  assumes "build_decode_rows u b causal n = Inr (rows, u')" and "builder_ok u"
  shows "builder_ok u' \<and> same_settings u u' \<and> prefill_rows u' = prefill_rows u \<and> spans u' = spans u \<and>
    (causal \<longrightarrow> rows = decode_rows u')"
proof (cases "n = 0")
  case True
  then have "rows = decode_rows u" "u' = u" using assms(1) by (auto simp: build_decode_rows_def)
  then show ?thesis using assms(2) by (simp add: same_settings_def)
next
  case n: False
  define lens where "lens = take n (decode_lens u) @ replicate (length (decode_lens u) - n) 0"
  have len: "length lens = builder_max_tokens u" using assms(2) by (simp add: lens_def builder_ok_def min_def)
  show ?thesis
  proof (cases causal)
    case True
    obtain r l where kernel: "swa_kernel n (window_size u) (nat (window_size u)) None b (page_size u) 0 (decode_rows u, lens) = (r, l)" by fastforce
    have "rows = r" "u' = u\<lparr>decode_rows := r, decode_lens := l\<rparr>"
      using assms(1) n True kernel by (auto simp: build_decode_rows_def lens_def Let_def)
    then show ?thesis
      using swa_kernel_shape[OF kernel, of "builder_max_tokens u" "nat (window_size u)"] assms(2) len
      by (simp add: builder_ok_def same_settings_def prefill_index_width_def)
  next
    case False
    define r0 where "r0 = (case noncausal_rows u of None \<Rightarrow> zero_rows (builder_max_tokens u) (noncausal_index_width u) | Some rows \<Rightarrow> rows)"
    have r0: "rows_shape (builder_max_tokens u) (noncausal_index_width u) r0"
      using assms(2) by (cases "noncausal_rows u") (simp_all add: r0_def builder_ok_def)
    obtain r l where kernel: "noncausal_kernel n (window_size u) (noncausal_index_width u) b (page_size u) 0 (r0, lens) = (r, l)" by fastforce
    have "u' = u\<lparr>noncausal_rows := Some r, decode_lens := l\<rparr>"
      using assms(1) n False kernel by (auto simp: build_decode_rows_def lens_def r0_def Let_def rbind_Inr_iff)
    then show ?thesis
      using noncausal_kernel_shape[OF kernel r0] assms(2) len False
      by (simp add: builder_ok_def same_settings_def prefill_index_width_def)
  qed
qed

lemma visibility_lengths:
  "fold (visibility_program indptr starts ends b m off) pids (l, r) = (l', r') \<Longrightarrow> length l' = length l \<and> length r' = length r"
proof (induction pids arbitrary: l r)
  case (Cons pid pids)
  then show ?case by (fastforce simp: visibility_program_writes Let_def)
qed simp

lemma image_buffers_keep:
  assumes "build_image_visibility m n_reqs mm nd np b s = Inr (visible, s')"
    and "length (span_starts s) = n" and "length (span_ends s) = n" and "length (left_visible s) = n" and "length (right_visible s) = n"
  shows "length (span_starts s') = n \<and> length (span_ends s') = n \<and> length (left_visible s') = n \<and> length (right_visible s') = n"
proof -
  obtain indptr starts ends where tab: "span_table n_reqs mm = (indptr, starts, ends)" by (metis prod_cases3)
  have same: "length ends = length starts"
    by (rule span_table_lengths[OF tab])
  show ?thesis
    using assms tab same visibility_lengths
    by (auto simp: build_image_visibility_def visibility_kernel_def Let_def rbind_Inr_iff rassert_Inr_iff split: if_splits prod.splits)
qed

lemma write_keeps:
  assumes "builder_ok u"
  shows "builder_ok (write_prefill_rows b nd np visible u) \<and> same_settings u (write_prefill_rows b nd np visible u) \<and>
    decode_rows (write_prefill_rows b nd np visible u) = decode_rows u \<and> decode_lens (write_prefill_rows b nd np visible u) = decode_lens u"
proof (cases "np = 0")
  case True
  then show ?thesis using assms by (simp add: write_prefill_rows_def same_settings_def)
next
  case False
  obtain r l where kernel: "swa_kernel np (window_size u) (prefill_index_width u) visible b (page_size u) nd
      (take np (prefill_rows u), take np (prefill_row_lens u)) = (r, l)" by fastforce
  have shape: "rows_shape (min np (builder_max_tokens u)) (prefill_index_width u) (take np (prefill_rows u))"
    using assms by (auto simp: builder_ok_def rows_shape_def list_all_iff min_def dest: in_set_takeD)
  have "rows_shape (builder_max_tokens u) (prefill_index_width u) (upload r (prefill_rows u))"
    using swa_kernel_shape[OF kernel shape] assms
    by (auto simp: builder_ok_def rows_shape_def upload_def list_all_iff dest: in_set_dropD)
  moreover have "length l \<le> length (prefill_row_lens u)" using swa_kernel_shape[OF kernel shape] by simp
  ultimately show ?thesis
    using assms False kernel by (simp add: write_prefill_rows_def builder_ok_def same_settings_def prefill_index_width_def)
qed

lemma prefill_keeps:
  assumes "build_prefill_rows u b n_reqs mm nd np = Inr (visible, u')" and "builder_ok u"
  shows "builder_ok u' \<and> same_settings u u' \<and> decode_rows u' = decode_rows u \<and> decode_lens u' = decode_lens u"
proof (cases "wants_images u np mm")
  case True
  then obtain v s where image: "build_image_visibility (max_image_tokens u) n_reqs (the mm) nd np b (spans u) = Inr (v, s)"
    and u': "u' = write_prefill_rows b nd np (Some v) (u\<lparr>spans := s\<rparr>)"
    using assms(1) by (auto simp: build_prefill_rows_def rbind_Inr_iff)
  have "builder_ok (u\<lparr>spans := s\<rparr>)"
    using assms(2) image_buffers_keep[OF image] by (auto simp: builder_ok_def prefill_index_width_def)
  from write_keeps[OF this] show ?thesis by (simp add: u' same_settings_def)
next
  case False
  then show ?thesis using assms write_keeps[OF assms(2)] by (auto simp: build_prefill_rows_def)
qed

subsection \<open>The rows of a build\<close>

lemma write_rows_at:
  assumes "builder_ok u" and "nd + np \<le> builder_max_tokens u" and "i < np" and "u' = write_prefill_rows b nd np visible u"
  obtains r l where "swa_kernel np (window_size u) (prefill_index_width u) visible b (page_size u) nd
      (take np (prefill_rows u), take np (prefill_row_lens u)) = (r, l)"
    and "take np (prefill_rows u') = r" and "take np (prefill_row_lens u') = l"
    and "length (take np (prefill_rows u)) = np" and "length (take np (prefill_row_lens u)) = np"
    and "list_all (\<lambda>row. length row = prefill_index_width u) (take np (prefill_rows u))"
proof -
  obtain r l where kernel: "swa_kernel np (window_size u) (prefill_index_width u) visible b (page_size u) nd
      (take np (prefill_rows u), take np (prefill_row_lens u)) = (r, l)" by fastforce
  have shape: "rows_shape np (prefill_index_width u) (take np (prefill_rows u))" and len: "length (take np (prefill_row_lens u)) = np"
    using assms(1,2) by (auto simp: builder_ok_def rows_shape_def list_all_iff dest: in_set_takeD)
  have "length r = np" "length l = np" using swa_kernel_shape[OF kernel shape] len by (simp_all add: rows_shape_def)
  then show ?thesis
    using that[OF kernel] assms(3,4) kernel shape len by (simp add: write_prefill_rows_def upload_def rows_shape_def)
qed

lemma build_parts:
  assumes "build new_meta own_kernels split_batch req_of u st = Inr (meta, u')" and "builder_ok u"
    and "split_batch (decode_threshold u) st = (nds, nps, nd, np)"
  obtains rows u1 visible where "build_decode_rows u (m_batch meta) (s_causal st) nd = Inr (rows, u1)"
    and "build_prefill_rows u1 (m_batch meta) (s_num_reqs st) (s_mm_ranges st) nd np = Inr (visible, u')"
    and "m_decode_rows meta = take nd rows" and "m_decode_lens meta = take nd (decode_lens u')"
    and "0 < np \<Longrightarrow> m_prefill_rows meta = Some (take np (prefill_rows u'))"
    and "0 < np \<Longrightarrow> m_prefill_lens meta = Some (take np (prefill_row_lens u'))"
    and "builder_ok u1" and "same_settings u u1" and "spans u1 = spans u" and "same_settings u1 u'" and "decode_lens u' = decode_lens u1"
proof -
  define b where "b = \<lparr>query_start_loc = s_query_start_loc st, seq_lens = s_seq_lens st, token_to_req = req_of st,
      is_valid_token = map (\<lambda>slot. slot \<ge> 0) (s_slot_mapping st), block_table = s_block_table st\<rparr>"
  obtain rows u1 visible where steps: "build_decode_rows u b (s_causal st) nd = Inr (rows, u1)"
    "build_prefill_rows u1 b (s_num_reqs st) (s_mm_ranges st) nd np = Inr (visible, u')"
    and meta: "m_batch meta = b" "m_decode_rows meta = take nd rows" "m_decode_lens meta = take nd (decode_lens u')"
      "0 < np \<longrightarrow> m_prefill_rows meta = Some (take np (prefill_rows u'))" "0 < np \<longrightarrow> m_prefill_lens meta = Some (take np (prefill_row_lens u'))"
    using assms(1,3) by (auto simp: build_def b_def rbind_Inr_iff Let_def)
  show ?thesis
    by (rule that[of rows u1 visible])
      (use steps meta decode_keeps[OF steps(1) assms(2)] prefill_keeps[OF steps(2)] in auto)
qed

text \<open>
  C34. A prefill token is given what it may see: in a build, with image spans of at most \<open>max_image_tokens\<close>
  tokens of which at most one holds the token, its row is, in order, the slots of the positions of its causal
  window and of its own image, then padding, and its length is their number, which the row has room for.
  Without images it is the causal window alone.
\<close>

theorem prefill_rows_are_what_tokens_see:
  assumes "build new_meta own_kernels split_batch req_of u st = Inr (meta, u')" and "builder_ok u"
    and "split_batch (decode_threshold u) st = (nds, nps, nd, np)" and "nd + np \<le> builder_max_tokens u"
    and "i < np" and "is_valid_token (m_batch meta) ! (i + nd)"
    and "token_to_req (m_batch meta) ! (i + nd) = req" and "req < s_num_reqs st"
    and "token_pos (m_batch meta) (i + nd) = pos" and "0 \<le> pos"
    and "images = (if wants_images u np (s_mm_ranges st) then spans_of (the (s_mm_ranges st)) req else [])"
    and "list_all (\<lambda>(a, e). 0 \<le> a \<and> e - a < max_image_tokens u) images" and "length (filter (holds_pos pos) images) \<le> 1"
  shows "\<exists>rows lens. m_prefill_rows meta = Some rows \<and> m_prefill_lens meta = Some lens \<and>
    rows ! i = map (slot_at (m_batch meta) (page_size u) req) (sorted_list_of_set (seen (window_size u) images pos)) @
      replicate (prefill_index_width u - card (seen (window_size u) images pos)) (- 1) \<and>
    lens ! i = int (card (seen (window_size u) images pos)) \<and> card (seen (window_size u) images pos) \<le> prefill_index_width u"
proof -
  obtain rows u1 visible where parts: "build_prefill_rows u1 (m_batch meta) (s_num_reqs st) (s_mm_ranges st) nd np = Inr (visible, u')"
      "m_prefill_rows meta = Some (take np (prefill_rows u'))" "m_prefill_lens meta = Some (take np (prefill_row_lens u'))"
    and u1: "builder_ok u1" "same_settings u u1"
    using build_parts[OF assms(1-3)] assms(5) by (metis gr_implies_not0 not_gr0)
  have same: "window_size u1 = window_size u" "max_image_tokens u1 = max_image_tokens u" "page_size u1 = page_size u"
    "builder_max_tokens u1 = builder_max_tokens u" "prefill_index_width u1 = prefill_index_width u"
    "wants_images u1 = wants_images u"
    using u1(2) by (simp_all add: same_settings_def prefill_index_width_def wants_images_def fun_eq_iff)
  have window: "1 \<le> window_size u" "0 \<le> max_image_tokens u" using assms(2) by (simp_all add: builder_ok_def)
  show ?thesis
  proof (cases "wants_images u np (s_mm_ranges st)")
    case True
    then obtain v s where image: "build_image_visibility (max_image_tokens u) (s_num_reqs st) (the (s_mm_ranges st)) nd np (m_batch meta) (spans u1) = Inr (v, s)"
      and u': "u' = write_prefill_rows (m_batch meta) nd np (Some v) (u1\<lparr>spans := s\<rparr>)"
      using parts(1) same by (auto simp: build_prefill_rows_def rbind_Inr_iff)
    have pos_images: "1 \<le> max_image_tokens u" using True by (simp add: wants_images_def)
    have buffers: "length (span_starts (spans u1)) = builder_max_tokens u" "length (span_ends (spans u1)) = builder_max_tokens u"
        "length (left_visible (spans u1)) = builder_max_tokens u" "length (right_visible (spans u1)) = builder_max_tokens u"
      using u1(1) pos_images same by (simp_all add: builder_ok_def)
    have ok: "builder_ok (u1\<lparr>spans := s\<rparr>)"
      using u1(1) image_buffers_keep[OF image buffers] same by (auto simp: builder_ok_def prefill_index_width_def)
    have room: "nd + np \<le> builder_max_tokens (u1\<lparr>spans := s\<rparr>)" using assms(4) same by simp
    define u2 where "u2 = u1\<lparr>spans := s\<rparr>"
    have same2: "window_size u2 = window_size u" "prefill_index_width u2 = nat (window_size u + max_image_tokens u)" "page_size u2 = page_size u"
      "prefill_rows u2 = prefill_rows u1" "prefill_row_lens u2 = prefill_row_lens u1"
      using same by (simp_all add: u2_def prefill_index_width_def)
    obtain r l where kernel: "swa_kernel np (window_size u2) (prefill_index_width u2) (Some v) (m_batch meta) (page_size u2) nd
        (take np (prefill_rows u2), take np (prefill_row_lens u2)) = (r, l)"
      and out: "take np (prefill_rows u') = r" "take np (prefill_row_lens u') = l"
        "length (take np (prefill_rows u2)) = np" "length (take np (prefill_row_lens u2)) = np"
        "list_all (\<lambda>row. length row = prefill_index_width u2) (take np (prefill_rows u2))"
      by (rule write_rows_at[OF ok[folded u2_def] room[folded u2_def] assms(5) u'[folded u2_def]])
    note kernel = kernel[unfolded same2] and out = out[unfolded same2]
    have "spans_of (the (s_mm_ranges st)) req = images" using True assms(11) by simp
    have room_rows: "np \<le> length (take np (prefill_rows u1))" "np \<le> length (take np (prefill_row_lens u1))" using out(3,4) by simp_all
    have room_images: "nd + np \<le> length (left_visible (spans u1))" "nd + np \<le> length (right_visible (spans u1))"
        "length (span_ends (spans u1)) = length (span_starts (spans u1))"
      using buffers assms(4) by simp_all
    note spans_ok = assms(12,13)[folded \<open>spans_of (the (s_mm_ranges st)) req = images\<close>]
    from image_rows[OF image kernel window(1) pos_images room_rows out(5) room_images assms(5-10) spans_ok]
    have "r ! i = map (slot_at (m_batch meta) (page_size u) req) (sorted_list_of_set (seen (window_size u) images pos)) @
        replicate (prefill_index_width u - card (seen (window_size u) images pos)) (- 1) \<and>
      l ! i = int (card (seen (window_size u) images pos)) \<and> card (seen (window_size u) images pos) \<le> prefill_index_width u"
      unfolding \<open>spans_of (the (s_mm_ranges st)) req = images\<close> prefill_index_width_def by simp
    then show ?thesis using parts(2,3) unfolding out(1,2) by blast
  next
    case False
    then have images: "images = []" and u': "u' = write_prefill_rows (m_batch meta) nd np None u1"
      using assms(11) parts(1) same by (auto simp: build_prefill_rows_def)
    have room: "nd + np \<le> builder_max_tokens u1" using assms(4) same by simp
    obtain r l where kernel: "swa_kernel np (window_size u) (prefill_index_width u) None (m_batch meta) (page_size u) nd
        (take np (prefill_rows u1), take np (prefill_row_lens u1)) = (r, l)"
      and out: "take np (prefill_rows u') = r" "take np (prefill_row_lens u') = l"
        "length (take np (prefill_rows u1)) = np" "length (take np (prefill_row_lens u1)) = np"
        "list_all (\<lambda>row. length row = prefill_index_width u) (take np (prefill_rows u1))"
      using write_rows_at[OF u1(1) room assms(5) u'] same by metis
    have "window_size u \<le> int (prefill_index_width u)" using window by (simp add: prefill_index_width_def)
    moreover have "np \<le> length (take np (prefill_rows u1))" "np \<le> length (take np (prefill_row_lens u1))" using out(3,4) by simp_all
    ultimately have "r ! i = map (slot_at (m_batch meta) (page_size u) req) (sorted_list_of_set (seen (window_size u) [] pos)) @
        replicate (prefill_index_width u - card (seen (window_size u) [] pos)) (- 1) \<and>
      l ! i = int (card (seen (window_size u) [] pos)) \<and> card (seen (window_size u) [] pos) \<le> prefill_index_width u"
      by (intro window_rows[OF kernel window(1) _ _ _ out(5) assms(5-7,9,10)])
    then show ?thesis using parts(2,3) unfolding out(1,2) images by blast
  qed
qed

lemma decode_rows_are_the_window:
  assumes "build new_meta own_kernels split_batch req_of u st = Inr (meta, u')" and "builder_ok u"
    and "split_batch (decode_threshold u) st = (nds, nps, nd, np)" and "nd \<le> builder_max_tokens u" and "s_causal st"
    and "i < nd" and "is_valid_token (m_batch meta) ! i" and "token_to_req (m_batch meta) ! i = req"
    and "token_pos (m_batch meta) i = pos" and "0 \<le> pos"
  shows "m_decode_rows meta ! i = map (slot_at (m_batch meta) (page_size u) req) (sorted_list_of_set (seen (window_size u) [] pos)) @
      replicate (nat (window_size u) - card (seen (window_size u) [] pos)) (- 1) \<and>
    m_decode_lens meta ! i = int (card (seen (window_size u) [] pos))"
proof -
  obtain rows u1 where parts: "build_decode_rows u (m_batch meta) True nd = Inr (rows, u1)"
      "m_decode_rows meta = take nd rows" "m_decode_lens meta = take nd (decode_lens u1)"
    using build_parts[OF assms(1-3)] assms(5) by metis
  define lens where "lens = take nd (decode_lens u) @ replicate (length (decode_lens u) - nd) 0"
  obtain r l where kernel: "swa_kernel nd (window_size u) (nat (window_size u)) None (m_batch meta) (page_size u) 0 (decode_rows u, lens) = (r, l)"
    by fastforce
  have out: "rows = r" "decode_lens u1 = l"
    using parts(1) assms(6) kernel by (auto simp: build_decode_rows_def lens_def Let_def)
  have shape: "list_all (\<lambda>row. length row = nat (window_size u)) (decode_rows u)" "nd \<le> length (decode_rows u)" "nd \<le> length lens" "1 \<le> window_size u"
    using assms(2,4) by (simp_all add: builder_ok_def rows_shape_def lens_def)
  have "window_size u \<le> int (nat (window_size u))" by simp
  from window_rows[OF kernel shape(4) this shape(2,3,1) assms(6), of req pos] assms(6-10)
  show ?thesis using parts(2,3) out by simp
qed

text \<open>The rows of a draft block: the window before the block and all of the block, the same for each of its tokens.\<close>

lemma noncausal_program_writes:
  "noncausal_program w width b bs off pid (rows, lens) =
    (let req = token_to_req b ! (pid + off); valid = is_valid_token b ! (pid + off);
         start = max (seq_lens b ! req - query_length b req - w) 0; len = seq_lens b ! req - start
     in (rows[pid := store_tiles width (\<lambda>offset. if valid \<and> int offset < len then slot_at b bs req (start + int offset) else - 1) (rows ! pid)],
         lens[pid := (if valid then len else 0)]))"
  by (cases "is_valid_token b ! (pid + off)") (simp_all add: noncausal_program_def Let_def)

lemma noncausal_rows_are_the_block:
  assumes "noncausal_kernel n w width b bs off (rows, lens) = (rows', lens')" and "n \<le> length rows" and "n \<le> length lens"
    and "list_all (\<lambda>row. length row = width) rows" and "i < n" and "is_valid_token b ! (i + off)"
    and "start = max (seq_lens b ! (token_to_req b ! (i + off)) - query_length b (token_to_req b ! (i + off)) - w) 0"
    and "seq_lens b ! (token_to_req b ! (i + off)) - start \<le> int width" and "start \<le> seq_lens b ! (token_to_req b ! (i + off))"
  shows "rows' ! i = map (slot_at b bs (token_to_req b ! (i + off))) [start .. seq_lens b ! (token_to_req b ! (i + off)) - 1] @
      replicate (width - nat (seq_lens b ! (token_to_req b ! (i + off)) - start)) (- 1)"
proof -
  have row: "length (rows ! i) = width" using assms(2,4,5) by (simp add: list_all_length)
  note kernel = fold_programs[OF noncausal_program_writes[unfolded Let_def] assms(1)[unfolded noncausal_kernel_def] assms(2,3)]
  have "rows' ! i = slots_row width (slot_at b bs (token_to_req b ! (i + off))) start (seq_lens b ! (token_to_req b ! (i + off)) - start)"
    using kernel assms(2,5,6,7) row by (simp add: store_tiles_map slots_row_def)
  then show ?thesis using slots_row_interval[of "seq_lens b ! (token_to_req b ! (i + off)) - start" width] assms(8,9) by simp
qed

subsection \<open>What earlier builds left\<close>

definition swa_row :: "int \<Rightarrow> nat \<Rightarrow> (int list \<times> int list) option \<Rightarrow> swa_batch \<Rightarrow> int \<Rightarrow> nat \<Rightarrow> int list" where
  "swa_row w width visible b bs t = map (\<lambda>offset. if is_valid_token b ! t \<and> int offset < window_len w visible b t
     then slot_at b bs (token_to_req b ! t) (window_start w visible b t + int offset) else - 1) [0 ..< width]"

lemma swa_kernel_front:
  assumes "swa_kernel n w width visible b bs off (rows, lens) = (rows', lens')"
    and "n \<le> length rows" and "n \<le> length lens" and "list_all (\<lambda>row. length row = width) rows"
  shows "take n rows' = map (\<lambda>i. swa_row w width visible b bs (i + off)) [0 ..< n]" and "drop n rows' = drop n rows"
    and "take n lens' = map (\<lambda>i. if is_valid_token b ! (i + off) then window_len w visible b (i + off) else 0) [0 ..< n]"
    and "drop n lens' = drop n lens"
proof -
  note front = fold_programs_front[OF swa_program_writes assms(1)[unfolded swa_kernel_def] assms(2,3)]
  have "length (rows ! i) = width" if "i < n" for i using that assms(2,4) by (simp add: list_all_length)
  then show "take n rows' = map (\<lambda>i. swa_row w width visible b bs (i + off)) [0 ..< n]"
    using front by (auto simp: swa_row_def store_tiles_map)
  show "drop n rows' = drop n rows" "drop n lens' = drop n lens"
    "take n lens' = map (\<lambda>i. if is_valid_token b ! (i + off) then window_len w visible b (i + off) else 0) [0 ..< n]"
    using front by simp_all
qed

lemma noncausal_kernel_front:
  assumes "noncausal_kernel n w width b bs off (rows, lens) = (rows', lens')"
    and "noncausal_kernel n w width b bs off (rows0, lens0) = (rows0', lens0')"
    and "n \<le> length rows" and "n \<le> length lens" and "list_all (\<lambda>row. length row = width) rows"
    and "n \<le> length rows0" and "n \<le> length lens0" and "list_all (\<lambda>row. length row = width) rows0"
  shows "take n rows' = take n rows0' \<and> take n lens' = take n lens0' \<and> drop n rows' = drop n rows \<and> drop n lens' = drop n lens"
proof -
  note front = fold_programs_front[OF noncausal_program_writes[unfolded Let_def] assms(1)[unfolded noncausal_kernel_def] assms(3,4)]
    and front0 = fold_programs_front[OF noncausal_program_writes[unfolded Let_def] assms(2)[unfolded noncausal_kernel_def] assms(6,7)]
  have "length (rows ! i) = width" "length (rows0 ! i) = width" if "i < n" for i
    using that assms(3,5,6,8) by (simp_all add: list_all_length)
  then show ?thesis using front front0 by (auto simp: store_tiles_map)
qed

text \<open>Two builders with the same settings and buffers of the same shape.\<close>

definition same_buffers :: "swa_builder \<Rightarrow> swa_builder \<Rightarrow> bool" where
  "same_buffers u u' \<longleftrightarrow> same_settings u u' \<and> builder_ok u \<and> builder_ok u' \<and>
     length (span_indptr (spans u')) = length (span_indptr (spans u))"

lemma same_buffers_refl: "builder_ok u \<Longrightarrow> same_buffers u u"
  by (simp add: same_buffers_def same_settings_def)

lemma same_buffers_trans: "same_buffers u v \<Longrightarrow> same_buffers v x \<Longrightarrow> same_buffers u x"
  by (simp add: same_buffers_def same_settings_def)

lemma decode_agrees:
  assumes same: "same_buffers u0 u" and n: "n \<le> builder_max_tokens u"
  shows "case build_decode_rows u b causal n of
      Inl e \<Rightarrow> build_decode_rows u0 b causal n = Inl e
    | Inr (rows, u') \<Rightarrow> \<exists>rows0 u0'. build_decode_rows u0 b causal n = Inr (rows0, u0') \<and>
        take n rows0 = take n rows \<and> take n (decode_lens u0') = take n (decode_lens u')"
proof (cases "n = 0")
  case True
  then show ?thesis by (simp add: build_decode_rows_def)
next
  case pos: False
  have set: "window_size u0 = window_size u" "page_size u0 = page_size u" "is_dspark u0 = is_dspark u"
    "builder_max_tokens u0 = builder_max_tokens u" "noncausal_index_width u0 = noncausal_index_width u"
    using same by (simp_all add: same_buffers_def same_settings_def)
  have ok: "builder_ok u0" "builder_ok u" using same by (simp_all add: same_buffers_def)
  define lens where "lens v = take n (decode_lens v) @ replicate (length (decode_lens v) - n) 0" for v :: swa_builder
  have room: "n \<le> length (lens u0)" "n \<le> length (lens u)" "n \<le> length (decode_rows u0)" "n \<le> length (decode_rows u)"
    "list_all (\<lambda>row. length row = nat (window_size u)) (decode_rows u0)" "list_all (\<lambda>row. length row = nat (window_size u)) (decode_rows u)"
    using ok n set by (simp_all add: builder_ok_def rows_shape_def lens_def)
  show ?thesis
  proof (cases causal)
    case True
    obtain r l where kernel: "swa_kernel n (window_size u) (nat (window_size u)) None b (page_size u) 0 (decode_rows u, lens u) = (r, l)"
      by fastforce
    obtain r0 l0 where kernel0: "swa_kernel n (window_size u) (nat (window_size u)) None b (page_size u) 0 (decode_rows u0, lens u0) = (r0, l0)"
      by fastforce
    have "take n r0 = take n r" "take n l0 = take n l"
      using swa_kernel_front[OF kernel room(4,2,6)] swa_kernel_front[OF kernel0 room(3,1,5)] by simp_all
    then show ?thesis using pos True kernel kernel0 by (simp add: build_decode_rows_def set lens_def[symmetric])
  next
    case False
    define rows where "rows v = (case noncausal_rows v of None \<Rightarrow> zero_rows (builder_max_tokens v) (noncausal_index_width v) | Some rows \<Rightarrow> rows)" for v :: swa_builder
    have shape: "rows_shape (builder_max_tokens v) (noncausal_index_width v) (rows v)" if "builder_ok v" for v
      using that by (cases "noncausal_rows v") (simp_all add: rows_def builder_ok_def)
    have rows: "n \<le> length (rows u0)" "list_all (\<lambda>row. length row = noncausal_index_width u) (rows u0)"
      "n \<le> length (rows u)" "list_all (\<lambda>row. length row = noncausal_index_width u) (rows u)"
      using shape[OF ok(1)] shape[OF ok(2)] n set by (simp_all add: rows_shape_def)
    obtain r l where kernel: "noncausal_kernel n (window_size u) (noncausal_index_width u) b (page_size u) 0 (rows u, lens u) = (r, l)"
      by fastforce
    obtain r0 l0 where kernel0: "noncausal_kernel n (window_size u) (noncausal_index_width u) b (page_size u) 0 (rows u0, lens u0) = (r0, l0)"
      by fastforce
    have "take n r0 = take n r" "take n l0 = take n l"
      using noncausal_kernel_front[OF kernel kernel0 rows(3) room(2) rows(4,1) room(1) rows(2)] by simp_all
    then show ?thesis using pos False kernel kernel0
      by (simp add: build_decode_rows_def set lens_def[symmetric] rows_def[symmetric] rassert_def)
  qed
qed

text \<open>The rows and lengths at and after the written ones are as they were.\<close>

lemma decode_in_place:
  assumes "build_decode_rows u b causal n = Inr (rows, u')" and "builder_ok u" and "n \<le> builder_max_tokens u"
  shows "prefill_row_lens u' = prefill_row_lens u" and "drop n (decode_rows u') = drop n (decode_rows u)"
    and "if causal \<or> n = 0 then noncausal_rows u' = noncausal_rows u
      else noncausal_rows u' = Some rows \<and> drop n rows = drop n (case noncausal_rows u of None \<Rightarrow> zero_rows (builder_max_tokens u) (noncausal_index_width u) | Some r \<Rightarrow> r)"
    and "0 < n \<Longrightarrow> list_all (\<lambda>len. len = 0) (drop n (decode_lens u'))"
proof -
  define lens where "lens = take n (decode_lens u) @ replicate (length (decode_lens u) - n) 0"
  define rows0 where "rows0 = (case noncausal_rows u of None \<Rightarrow> zero_rows (builder_max_tokens u) (noncausal_index_width u) | Some r \<Rightarrow> r)"
  have "rows_shape (builder_max_tokens u) (noncausal_index_width u) rows0"
    using assms(2) by (cases "noncausal_rows u") (simp_all add: rows0_def builder_ok_def)
  then have rows0: "n \<le> length rows0" "list_all (\<lambda>row. length row = noncausal_index_width u) rows0"
    using assms(3) by (simp_all add: rows_shape_def)
  have room: "n \<le> length lens" "n \<le> length (decode_rows u)" "list_all (\<lambda>row. length row = nat (window_size u)) (decode_rows u)"
    using assms(2,3) by (simp_all add: builder_ok_def rows_shape_def lens_def)
  have tail: "list_all (\<lambda>len. len = 0) (drop n lens)" by (simp add: lens_def list_all_iff)
  consider "n = 0" | "n \<noteq> 0" causal | "n \<noteq> 0" "\<not> causal" by blast
  then have "prefill_row_lens u' = prefill_row_lens u \<and> drop n (decode_rows u') = drop n (decode_rows u) \<and>
     (if causal \<or> n = 0 then noncausal_rows u' = noncausal_rows u else noncausal_rows u' = Some rows \<and> drop n rows = drop n rows0) \<and>
     (0 < n \<longrightarrow> list_all (\<lambda>len. len = 0) (drop n (decode_lens u')))"
  proof cases
    case 1
    then show ?thesis using assms(1) by (simp add: build_decode_rows_def)
  next
    case 2
    obtain r l where kernel: "swa_kernel n (window_size u) (nat (window_size u)) None b (page_size u) 0 (decode_rows u, lens) = (r, l)"
      by fastforce
    then show ?thesis using assms(1) 2 swa_kernel_front(2,4)[OF kernel room(2,1,3)] tail
      by (auto simp: build_decode_rows_def lens_def[symmetric])
  next
    case 3
    obtain r l where kernel: "noncausal_kernel n (window_size u) (noncausal_index_width u) b (page_size u) 0 (rows0, lens) = (r, l)"
      by fastforce
    then show ?thesis using assms(1) 3 noncausal_kernel_front[OF kernel kernel rows0(1) room(1) rows0(2,1) room(1) rows0(2)] tail
      by (auto simp: build_decode_rows_def lens_def[symmetric] rows0_def[symmetric] rbind_Inr_iff)
  qed
  then show "prefill_row_lens u' = prefill_row_lens u" "drop n (decode_rows u') = drop n (decode_rows u)"
    "if causal \<or> n = 0 then noncausal_rows u' = noncausal_rows u
      else noncausal_rows u' = Some rows \<and> drop n rows = drop n (case noncausal_rows u of None \<Rightarrow> zero_rows (builder_max_tokens u) (noncausal_index_width u) | Some r \<Rightarrow> r)"
    "0 < n \<Longrightarrow> list_all (\<lambda>len. len = 0) (drop n (decode_lens u'))"
    by (auto simp: rows0_def split: if_splits)
qed

lemma visible_lengths:
  assumes "build_image_visibility m n_reqs mm nd np b s = Inr ((l, r), s')"
  shows "length l = min (nd + np) (length (left_visible s)) \<and> length r = min (nd + np) (length (right_visible s))"
proof -
  obtain indptr starts ends where tab: "span_table n_reqs mm = (indptr, starts, ends)" by (metis prod_cases3)
  show ?thesis
    using assms visibility_lengths
    by (auto simp: build_image_visibility_def tab visibility_kernel_def Let_def rbind_Inr_iff rassert_Inr_iff min.commute split: if_splits prod.splits)
qed

lemma visible_indptr:
  assumes "build_image_visibility m n_reqs mm nd np b s = Inr ((l, r), s')"
  shows "length (span_indptr s') = length (span_indptr s)"
proof -
  obtain indptr starts ends where tab: "span_table n_reqs mm = (indptr, starts, ends)" by (metis prod_cases3)
  have "length indptr = n_reqs + 1"
    using span_table_prefix[OF order_refl, of mm n_reqs] tab unfolding span_table_def by (auto simp del: upt_Suc)
  then show ?thesis
    using assms by (auto simp: build_image_visibility_def tab Let_def rbind_Inr_iff rassert_Inr_iff split: if_splits prod.splits)
qed

text \<open>The visibility of the prefill tokens is that of their requests' spans, whatever the buffers hold.\<close>

lemma visibility_agrees:
  assumes "length (span_starts s0) = n" and "length (span_ends s0) = n" and "length (left_visible s0) = n" and "length (right_visible s0) = n"
    and "length (span_starts s) = n" and "length (span_ends s) = n" and "length (left_visible s) = n" and "length (right_visible s) = n"
    and "length (span_indptr s) = length (span_indptr s0)" and "nd + np \<le> n"
    and "list_all (\<lambda>t. token_to_req b ! t < n_reqs) [nd ..< nd + np]"
  shows "case build_image_visibility m n_reqs mm nd np b s of
      Inl e \<Rightarrow> build_image_visibility m n_reqs mm nd np b s0 = Inl e
    | Inr ((l, r), s') \<Rightarrow> length (span_indptr s') = length (span_indptr s) \<and>
        (\<exists>l0 r0 s0'. build_image_visibility m n_reqs mm nd np b s0 = Inr ((l0, r0), s0') \<and> drop nd l0 = drop nd l \<and> drop nd r0 = drop nd r)"
proof (cases "build_image_visibility m n_reqs mm nd np b s")
  case (Inl e)
  obtain indptr starts ends where tab: "span_table n_reqs mm = (indptr, starts, ends)" by (metis prod_cases3)
  then show ?thesis using Inl assms(1,5,9)
    by (auto simp: build_image_visibility_def rassert_def Let_def split: if_splits prod.splits)
next
  case (Inr out)
  obtain l r s' where out: "out = ((l, r), s')" by (metis prod.exhaust)
  obtain indptr starts ends where tab: "span_table n_reqs mm = (indptr, starts, ends)" by (metis prod_cases3)
  have same: "length ends = length starts" by (rule span_table_lengths[OF tab])
  have guard: "length starts \<le> n" "n_reqs + 1 \<le> length (span_indptr s)"
    using Inr assms(5) by (auto simp: build_image_visibility_def tab rbind_Inr_iff rassert_Inr_iff split: if_splits)
  have "\<exists>out0. build_image_visibility m n_reqs mm nd np b s0 = Inr out0"
    using guard assms(1,9) by (auto simp: build_image_visibility_def tab rassert_def Let_def split: prod.splits)
  then obtain l0 r0 s0' where run0: "build_image_visibility m n_reqs mm nd np b s0 = Inr ((l0, r0), s0')" by (metis prod.exhaust)
  note run = Inr[unfolded out]
  have len: "length l = nd + np" "length r = nd + np" "length l0 = nd + np" "length r0 = nd + np"
    using visible_lengths[OF run] visible_lengths[OF run0] assms(3,4,7,8,10) by simp_all
  have at: "l0 ! (nd + i) = l ! (nd + i) \<and> r0 ! (nd + i) = r ! (nd + i)" if i: "i < np" for i
  proof -
    have req: "token_to_req b ! (i + nd) < n_reqs" using assms(11) i by (simp add: list_all_iff)
    have "(l0 ! (i + nd), r0 ! (i + nd)) = (l ! (i + nd), r ! (i + nd))"
      using visible_counts[OF run _ _ _ i req] visible_counts[OF run0 _ _ _ i req] assms(1-8,10) by simp
    then show ?thesis by (simp add: add.commute)
  qed
  have "drop nd l0 = drop nd l" "drop nd r0 = drop nd r"
    by (rule nth_equalityI, simp add: len, use at len in simp)+
  moreover have "length (span_indptr s') = length (span_indptr s)"
    by (rule visible_indptr[OF run])
  ultimately show ?thesis using Inr out run0 by auto
qed

lemma write_front:
  assumes "builder_ok u" and "nd + np \<le> builder_max_tokens u"
  shows "take np (prefill_rows (write_prefill_rows b nd np visible u)) =
      map (\<lambda>i. swa_row (window_size u) (prefill_index_width u) visible b (page_size u) (i + nd)) [0 ..< np]"
    and "take np (prefill_row_lens (write_prefill_rows b nd np visible u)) =
      map (\<lambda>i. if is_valid_token b ! (i + nd) then window_len (window_size u) visible b (i + nd) else 0) [0 ..< np]"
    and "drop np (prefill_rows (write_prefill_rows b nd np visible u)) = drop np (prefill_rows u)"
    and "drop np (prefill_row_lens (write_prefill_rows b nd np visible u)) = drop np (prefill_row_lens u)"
    and "noncausal_rows (write_prefill_rows b nd np visible u) = noncausal_rows u"
    and "spans (write_prefill_rows b nd np visible u) = spans u"
proof -
  let ?u = "write_prefill_rows b nd np visible u"
  obtain r l where kernel: "swa_kernel np (window_size u) (prefill_index_width u) visible b (page_size u) nd
      (take np (prefill_rows u), take np (prefill_row_lens u)) = (r, l)" by fastforce
  have shape: "rows_shape np (prefill_index_width u) (take np (prefill_rows u))" and len: "length (take np (prefill_row_lens u)) = np"
    using assms by (auto simp: builder_ok_def rows_shape_def list_all_iff dest: in_set_takeD)
  have out: "length r = np" "length l = np" using swa_kernel_shape[OF kernel shape] len by (simp_all add: rows_shape_def)
  have wrote: "np \<noteq> 0 \<Longrightarrow> ?u = u\<lparr>prefill_rows := upload r (prefill_rows u), prefill_row_lens := upload l (prefill_row_lens u)\<rparr>"
    using kernel by (simp add: write_prefill_rows_def)
  have none: "np = 0 \<Longrightarrow> ?u = u" by (simp add: write_prefill_rows_def)
  have rows: "np \<le> length (take np (prefill_rows u))" "np \<le> length (take np (prefill_row_lens u))"
    "list_all (\<lambda>row. length row = prefill_index_width u) (take np (prefill_rows u))"
    using shape len by (simp_all add: rows_shape_def)
  note front = swa_kernel_front[OF kernel rows]
  show "take np (prefill_rows ?u) = map (\<lambda>i. swa_row (window_size u) (prefill_index_width u) visible b (page_size u) (i + nd)) [0 ..< np]"
    using front(1) out wrote by (cases "np = 0") (simp_all add: upload_def)
  show "take np (prefill_row_lens ?u) =
      map (\<lambda>i. if is_valid_token b ! (i + nd) then window_len (window_size u) visible b (i + nd) else 0) [0 ..< np]"
    using front(3) out wrote by (cases "np = 0") (simp_all add: upload_def)
  show "drop np (prefill_rows ?u) = drop np (prefill_rows u)" "drop np (prefill_row_lens ?u) = drop np (prefill_row_lens u)"
    "noncausal_rows ?u = noncausal_rows u" "spans ?u = spans u"
    unfolding write_prefill_rows_def kernel by (simp_all add: upload_def out)
qed

definition visible_agree :: "nat \<Rightarrow> nat \<Rightarrow> (int list \<times> int list) option \<Rightarrow> (int list \<times> int list) option \<Rightarrow> bool" where
  "visible_agree nd np v v0 \<longleftrightarrow> v = None \<and> v0 = None \<or>
     (\<exists>l r l0 r0. v = Some (l, r) \<and> v0 = Some (l0, r0) \<and> drop nd l0 = drop nd l \<and> drop nd r0 = drop nd r \<and>
        length l = nd + np \<and> length r = nd + np \<and> length l0 = nd + np \<and> length r0 = nd + np)"

lemma agree_windows:
  assumes "visible_agree nd np v v0" and "i < np"
  shows "window_start w v0 b (i + nd) = window_start w v b (i + nd)" and "window_len w v0 b (i + nd) = window_len w v b (i + nd)"
proof -
  have at: "xs ! (i + nd) = ys ! (i + nd)" if "drop nd xs = drop nd ys" "length xs = nd + np" "length ys = nd + np" for xs ys :: "int list"
    using arg_cong[OF that(1), of "\<lambda>zs. zs ! i"] that(2,3) assms(2) by (simp add: add.commute)
  consider "v = None" "v0 = None"
    | l r l0 r0 where "v = Some (l, r)" "v0 = Some (l0, r0)" "l0 ! (i + nd) = l ! (i + nd)" "r0 ! (i + nd) = r ! (i + nd)"
    using assms(1) at unfolding visible_agree_def by (elim disjE exE conjE) metis+
  then have both: "window_start w v0 b (i + nd) = window_start w v b (i + nd) \<and> window_len w v0 b (i + nd) = window_len w v b (i + nd)"
    by cases (simp_all add: window_start_def window_len_def)
  then show "window_start w v0 b (i + nd) = window_start w v b (i + nd)" "window_len w v0 b (i + nd) = window_len w v b (i + nd)"
    by simp_all
qed

lemma write_agrees:
  assumes "same_buffers u0 u" and "nd + np \<le> builder_max_tokens u" and "visible_agree nd np v v0"
  shows "take np (prefill_rows (write_prefill_rows b nd np v0 u0)) = take np (prefill_rows (write_prefill_rows b nd np v u)) \<and>
    take np (prefill_row_lens (write_prefill_rows b nd np v0 u0)) = take np (prefill_row_lens (write_prefill_rows b nd np v u))"
proof -
  have set: "window_size u0 = window_size u" "page_size u0 = page_size u" "prefill_index_width u0 = prefill_index_width u"
    "builder_max_tokens u0 = builder_max_tokens u" and ok: "builder_ok u0" "builder_ok u"
    using assms(1) by (simp_all add: same_buffers_def same_settings_def prefill_index_width_def)
  have room: "nd + np \<le> builder_max_tokens u0" using assms(2) set by simp
  show ?thesis
    using agree_windows[OF assms(3)]
    by (auto simp: write_front(1,2)[OF ok(1) room] write_front(1,2)[OF ok(2) assms(2)] set swa_row_def)
qed

lemma prefill_agrees:
  assumes same: "same_buffers u0 u" and room: "nd + np \<le> builder_max_tokens u"
    and reqs: "list_all (\<lambda>t. token_to_req b ! t < n_reqs) [nd ..< nd + np]"
  shows "case build_prefill_rows u b n_reqs mm nd np of
      Inl e \<Rightarrow> build_prefill_rows u0 b n_reqs mm nd np = Inl e
    | Inr (v, u') \<Rightarrow> \<exists>v0 u0'. build_prefill_rows u0 b n_reqs mm nd np = Inr (v0, u0') \<and> visible_agree nd np v v0 \<and>
        take np (prefill_rows u0') = take np (prefill_rows u') \<and> take np (prefill_row_lens u0') = take np (prefill_row_lens u')"
proof -
  have set: "max_image_tokens u0 = max_image_tokens u" "wants_images u0 = wants_images u" and ok: "builder_ok u0" "builder_ok u"
    and indptr: "length (span_indptr (spans u)) = length (span_indptr (spans u0))" and max: "builder_max_tokens u0 = builder_max_tokens u"
    using same by (simp_all add: same_buffers_def same_settings_def wants_images_def fun_eq_iff)
  show ?thesis
  proof (cases "wants_images u np mm")
    case False
    then show ?thesis using write_agrees[OF same room, of None None b] by (simp add: build_prefill_rows_def set visible_agree_def)
  next
    case True
    then have images: "0 < max_image_tokens u" by (simp add: wants_images_def)
    have len: "length (span_starts (spans v)) = builder_max_tokens u" "length (span_ends (spans v)) = builder_max_tokens u"
        "length (left_visible (spans v)) = builder_max_tokens u" "length (right_visible (spans v)) = builder_max_tokens u"
      if "v = u0 \<or> v = u" for v
      using that ok images set max by (auto simp: builder_ok_def)
    note agrees = visibility_agrees[OF len[OF disjI1[OF refl]] len[OF disjI2[OF refl]] indptr room reqs, of "max_image_tokens u" "the mm"]
    show ?thesis
    proof (cases "build_image_visibility (max_image_tokens u) n_reqs (the mm) nd np b (spans u)")
      case (Inl e)
      then show ?thesis using agrees True by (simp add: build_prefill_rows_def set)
    next
      case (Inr out)
      obtain l r s where out: "out = ((l, r), s)" by (metis prod.exhaust)
      note run = Inr[unfolded out]
      obtain l0 r0 s0 where run0: "build_image_visibility (max_image_tokens u) n_reqs (the mm) nd np b (spans u0) = Inr ((l0, r0), s0)"
        and drops: "drop nd l0 = drop nd l" "drop nd r0 = drop nd r"
        using agrees run by auto
      have visible: "visible_agree nd np (Some (l, r)) (Some (l0, r0))"
        using drops visible_lengths[OF run] visible_lengths[OF run0] len room by (simp add: visible_agree_def)
      have "builder_ok (u\<lparr>spans := s\<rparr>)"
        using ok(2) image_buffers_keep[OF run] len images by (auto simp: builder_ok_def prefill_index_width_def)
      moreover have "builder_ok (u0\<lparr>spans := s0\<rparr>)"
        using ok(1) image_buffers_keep[OF run0] len images set max by (auto simp: builder_ok_def prefill_index_width_def)
      ultimately have "same_buffers (u0\<lparr>spans := s0\<rparr>) (u\<lparr>spans := s\<rparr>)"
        using same visible_indptr[OF run] visible_indptr[OF run0] by (simp add: same_buffers_def same_settings_def)
      from write_agrees[OF this _ visible, of b] show ?thesis
        using run run0 True visible room by (simp add: build_prefill_rows_def set)
    qed
  qed
qed

lemma prefill_in_place:
  assumes "build_prefill_rows u b n_reqs mm nd np = Inr (v, u')" and "builder_ok u" and "nd + np \<le> builder_max_tokens u"
  shows "drop np (prefill_rows u') = drop np (prefill_rows u) \<and> drop np (prefill_row_lens u') = drop np (prefill_row_lens u) \<and>
    noncausal_rows u' = noncausal_rows u"
proof (cases "wants_images u np mm")
  case False
  then show ?thesis using assms(1) write_front(3-5)[OF assms(2,3)] by (auto simp: build_prefill_rows_def)
next
  case True
  then obtain x s where image: "build_image_visibility (max_image_tokens u) n_reqs (the mm) nd np b (spans u) = Inr (x, s)"
    and u': "u' = write_prefill_rows b nd np (Some x) (u\<lparr>spans := s\<rparr>)"
    using assms(1) by (auto simp: build_prefill_rows_def rbind_Inr_iff)
  have "builder_ok (u\<lparr>spans := s\<rparr>)"
    using assms(2) image_buffers_keep[OF image] by (auto simp: builder_ok_def prefill_index_width_def)
  from write_front(3-5)[OF this, of nd np] show ?thesis using assms(3) by (simp add: u')
qed

lemma write_spans: "spans (write_prefill_rows b nd np visible u) = spans u"
  by (simp add: write_prefill_rows_def split: prod.split)

lemma prefill_indptr:
  assumes "build_prefill_rows u b n_reqs mm nd np = Inr (v, u')"
  shows "length (span_indptr (spans u')) = length (span_indptr (spans u))"
  using assms visible_indptr by (auto simp: build_prefill_rows_def rbind_Inr_iff write_spans split: if_splits)

lemma build_keeps:
  assumes "build new_meta own_kernels split_batch req_of u st = Inr (meta, u')" and "builder_ok u"
  shows "same_buffers u u'"
proof -
  obtain nds nps nd np where split: "split_batch (decode_threshold u) st = (nds, nps, nd, np)" by (metis prod_cases4)
  from build_parts[OF assms split] obtain rows u1 visible where
    prefill: "build_prefill_rows u1 (m_batch meta) (s_num_reqs st) (s_mm_ranges st) nd np = Inr (visible, u')"
    and u1: "builder_ok u1" "same_settings u u1" "spans u1 = spans u" "same_settings u1 u'" by metis
  show ?thesis
    using prefill_keeps[OF prefill u1(1)] prefill_indptr[OF prefill] u1(2-4) assms(2) by (simp add: same_buffers_def same_settings_def)
qed

text \<open>The steps of a server: a build each, on the builder that the one before left.\<close>

fun run_builds ::
    "'m \<Rightarrow> bool \<Rightarrow> (nat \<Rightarrow> step_batch \<Rightarrow> nat \<times> nat \<times> nat \<times> nat) \<Rightarrow> (step_batch \<Rightarrow> nat list) \<Rightarrow> swa_builder \<Rightarrow> step_batch list \<Rightarrow>
     swa_builder res" where
  "run_builds new_meta own_kernels split_batch req_of u [] = Inr u"
| "run_builds new_meta own_kernels split_batch req_of u (st # steps) =
     rbind (build new_meta own_kernels split_batch req_of u st) (\<lambda>(meta, u). run_builds new_meta own_kernels split_batch req_of u steps)"

lemma run_keeps:
  "run_builds new_meta own_kernels split_batch req_of u steps = Inr u' \<Longrightarrow> builder_ok u \<Longrightarrow> same_buffers u u'"
proof (induction steps arbitrary: u)
  case Nil
  then show ?case by (simp add: same_buffers_refl)
next
  case (Cons st steps)
  from Cons.prems(1) obtain meta u1 where first: "build new_meta own_kernels split_batch req_of u st = Inr (meta, u1)"
    and rest: "run_builds new_meta own_kernels split_batch req_of u1 steps = Inr u'"
    by (auto simp: rbind_Inr_iff)
  have "same_buffers u u1" by (rule build_keeps[OF first Cons.prems(2)])
  moreover have "same_buffers u1 u'" using Cons.IH[OF rest] calculation by (simp add: same_buffers_def)
  ultimately show ?case by (rule same_buffers_trans)
qed

text \<open>
  The metadata without the visibility counts of the decode tokens, which no build writes; and a build that
  writes in place: what it returns are the fronts of the buffers, and behind them nothing changes but the
  lengths of the decodes, which are cleared.
\<close>

definition prefill_counts :: "nat \<Rightarrow> 'm swa_metadata \<Rightarrow> 'm swa_metadata" where
  "prefill_counts nd meta = meta\<lparr>m_visible := map_option (\<lambda>(l, r). (drop nd l, drop nd r)) (m_visible meta)\<rparr>"

definition draft_rows :: "swa_builder \<Rightarrow> int list list" where
  "draft_rows u = (case noncausal_rows u of None \<Rightarrow> zero_rows (builder_max_tokens u) (noncausal_index_width u) | Some rows \<Rightarrow> rows)"

definition written_in_place :: "nat \<Rightarrow> nat \<Rightarrow> bool \<Rightarrow> 'm swa_metadata \<Rightarrow> swa_builder \<Rightarrow> swa_builder \<Rightarrow> bool" where
  "written_in_place nd np causal meta u u' \<longleftrightarrow>
     m_decode_rows meta = take nd (if causal then decode_rows u' else draft_rows u') \<and>
     m_decode_lens meta = take nd (decode_lens u') \<and>
     m_prefill_rows meta = (if np > 0 then Some (take np (prefill_rows u')) else None) \<and>
     m_prefill_lens meta = (if np > 0 then Some (take np (prefill_row_lens u')) else None) \<and>
     drop nd (decode_rows u') = drop nd (decode_rows u) \<and> drop nd (draft_rows u') = drop nd (draft_rows u) \<and>
     drop np (prefill_rows u') = drop np (prefill_rows u) \<and> drop np (prefill_row_lens u') = drop np (prefill_row_lens u) \<and>
     (if nd = 0 then decode_lens u' = decode_lens u else list_all (\<lambda>len. len = 0) (drop nd (decode_lens u')))"

lemma build_in_place:
  assumes "build new_meta own_kernels split_batch req_of u st = Inr (meta, u')" and "builder_ok u"
    and "split_batch (decode_threshold u) st = (nds, nps, nd, np)" and "nd + np \<le> builder_max_tokens u"
  shows "written_in_place nd np (s_causal st) meta u u'"
proof -
  obtain b rows u1 visible where steps: "build_decode_rows u b (s_causal st) nd = Inr (rows, u1)"
    "build_prefill_rows u1 b (s_num_reqs st) (s_mm_ranges st) nd np = Inr (visible, u')"
    and meta: "m_decode_rows meta = take nd rows" "m_decode_lens meta = take nd (decode_lens u')"
      "m_prefill_rows meta = (if np > 0 then Some (take np (prefill_rows u')) else None)"
      "m_prefill_lens meta = (if np > 0 then Some (take np (prefill_row_lens u')) else None)"
    using assms(1,3) by (auto simp: build_def rbind_Inr_iff Let_def)
  note keeps = decode_keeps[OF steps(1) assms(2)]
  have room: "nd \<le> builder_max_tokens u" "nd + np \<le> builder_max_tokens u1"
    using assms(4) keeps by (simp_all add: same_settings_def)
  have u1: "builder_ok u1" using keeps by simp
  note decode = decode_in_place[OF steps(1) assms(2) room(1)] and prefill = prefill_in_place[OF steps(2) u1 room(2)]
  note kept = prefill_keeps[OF steps(2) u1]
  have drafts: "draft_rows u' = draft_rows u1"
    using prefill kept by (cases "noncausal_rows u1") (simp_all add: draft_rows_def same_settings_def)
  have "take nd rows = take nd (if s_causal st then decode_rows u' else draft_rows u')"
    using keeps kept decode(3) drafts by (cases "nd = 0") (auto simp: draft_rows_def split: if_splits)
  moreover have "drop nd (draft_rows u1) = drop nd (draft_rows u)"
    using decode(3) keeps by (auto simp: draft_rows_def same_settings_def cong: option.case_cong split: if_splits)
  moreover have "nd = 0 \<Longrightarrow> decode_lens u1 = decode_lens u" using steps(1) by (simp add: build_decode_rows_def)
  ultimately show ?thesis
    using decode(1,2,4) prefill kept keeps drafts meta by (simp add: written_in_place_def)
qed

lemma build_agrees:
  assumes same: "same_buffers u0 u" and split: "split_batch (decode_threshold u) st = (nds, nps, nd, np)"
    and room: "nd + np \<le> builder_max_tokens u" and reqs: "list_all (\<lambda>t. req_of st ! t < s_num_reqs st) [nd ..< nd + np]"
  shows "case build new_meta own_kernels split_batch req_of u st of
      Inl e \<Rightarrow> build new_meta own_kernels split_batch req_of u0 st = Inl e
    | Inr (meta, u') \<Rightarrow> \<exists>meta0 u0'. build new_meta own_kernels split_batch req_of u0 st = Inr (meta0, u0') \<and>
        prefill_counts nd meta0 = prefill_counts nd meta"
proof -
  define b where "b = \<lparr>query_start_loc = s_query_start_loc st, seq_lens = s_seq_lens st, token_to_req = req_of st,
      is_valid_token = map (\<lambda>slot. slot \<ge> 0) (s_slot_mapping st), block_table = s_block_table st\<rparr>"
  have set: "decode_threshold u0 = decode_threshold u" "window_size u0 = window_size u" "layer_types u0 = layer_types u"
    "noncausal_index_width u0 = noncausal_index_width u" and ok: "builder_ok u0" "builder_ok u"
    using same by (simp_all add: same_buffers_def same_settings_def)
  have nd: "nd \<le> builder_max_tokens u" using room by simp
  note decode = decode_agrees[OF same nd, of b "s_causal st"]
  show ?thesis
  proof (cases "build_decode_rows u b (s_causal st) nd")
    case (Inl e)
    then show ?thesis using decode by (simp add: build_def split set b_def)
  next
    case (Inr out)
    then obtain rows u1 where run: "build_decode_rows u b (s_causal st) nd = Inr (rows, u1)" by (metis prod.exhaust)
    then obtain rows0 u01 where run0: "build_decode_rows u0 b (s_causal st) nd = Inr (rows0, u01)"
      and front: "take nd rows0 = take nd rows" "take nd (decode_lens u01) = take nd (decode_lens u1)"
      using decode by auto
    note keeps = decode_keeps[OF run ok(2)] and keeps0 = decode_keeps[OF run0 ok(1)]
    have same1: "same_buffers u01 u1" using keeps keeps0 same by (simp add: same_buffers_def same_settings_def)
    have room1: "nd + np \<le> builder_max_tokens u1" using keeps room by (simp add: same_settings_def)
    have "list_all (\<lambda>t. token_to_req b ! t < s_num_reqs st) [nd ..< nd + np]" using reqs by (simp add: b_def)
    note prefill = prefill_agrees[OF same1 room1 this, of "s_mm_ranges st"]
    show ?thesis
    proof (cases "build_prefill_rows u1 b (s_num_reqs st) (s_mm_ranges st) nd np")
      case (Inl e)
      then show ?thesis using prefill run run0 by (simp add: build_def split set b_def)
    next
      case (Inr out)
      then obtain v u2 where run2: "build_prefill_rows u1 b (s_num_reqs st) (s_mm_ranges st) nd np = Inr (v, u2)" by (metis prod.exhaust)
      then obtain v0 u02 where run02: "build_prefill_rows u01 b (s_num_reqs st) (s_mm_ranges st) nd np = Inr (v0, u02)"
        and visible: "visible_agree nd np v v0"
        and rows: "take np (prefill_rows u02) = take np (prefill_rows u2)" "take np (prefill_row_lens u02) = take np (prefill_row_lens u2)"
        using prefill by auto
      note kept = prefill_keeps[OF run2] and kept0 = prefill_keeps[OF run02]
      have "builder_ok u1" "builder_ok u01" using keeps keeps0 by simp_all
      then have set2: "window_size u2 = window_size u" "layer_types u2 = layer_types u" "noncausal_index_width u2 = noncausal_index_width u"
        "builder_model_len u2 = builder_model_len u" "builder_max_tokens u2 = builder_max_tokens u"
        "window_size u02 = window_size u" "layer_types u02 = layer_types u" "noncausal_index_width u02 = noncausal_index_width u"
        "builder_model_len u02 = builder_model_len u" "builder_max_tokens u02 = builder_max_tokens u"
        "decode_threshold u2 = decode_threshold u" "decode_threshold u02 = decode_threshold u"
        "decode_lens u2 = decode_lens u1" "decode_lens u02 = decode_lens u01"
        using kept kept0 keeps keeps0 same by (simp_all add: same_buffers_def same_settings_def)
      have counts: "map_option (\<lambda>(l, r). (drop nd l, drop nd r)) v0 = map_option (\<lambda>(l, r). (drop nd l, drop nd r)) v"
        using visible by (auto simp: visible_agree_def)
      have pre: "build_prefill_metadata u02 nds nps st = build_prefill_metadata u2 nds nps st"
        by (simp add: build_prefill_metadata_def set2)
      note runs = run[unfolded b_def] run0[unfolded b_def] run2[unfolded b_def] run02[unfolded b_def]
      have outcome: "(\<exists>e. build_prefill_metadata u2 nds nps st = Inl e) \<or> (\<exists>lens gathers. build_prefill_metadata u2 nds nps st = Inr (lens, gathers))"
        by (cases "build_prefill_metadata u2 nds nps st") auto
      then show ?thesis
        by (elim disjE exE)
          (simp_all add: build_def split set runs Let_def pre set2 prefill_counts_def front rows counts cong: if_cong split del: if_split)
    qed
  qed
qed

text \<open>
  C35. The buffers of a builder are written in place, and what earlier steps left in them never shows. After
  any steps on a builder that the constructor made with a window of at least 1 token and no negative
  number of image tokens, its buffers have the shape they were allocated with, the span table included. A
  build of a step then, of at most \<open>max_num_batched_tokens\<close> tokens whose requests are the batch's, raises what
  it would raise on the new builder; or it returns the metadata it would return there, but for the image counts of
  the decode tokens, which the kernel does not write; and the rows and lengths it returns are the fronts of the
  builder's buffers, behind which every row is as it was and the lengths of the decodes, when there are decodes, are 0.
\<close>

theorem builds_write_in_place:
  assumes "swa_builder_init dspark_width c = Inr u0" and "1 \<le> hf_sliding_window c"
    and "0 \<le> (case vision_max_n_token c of None \<Rightarrow> 0 | Some n \<Rightarrow> n)"
    and "run_builds new_meta own_kernels split_batch req_of u0 steps = Inr u"
    and "split_batch (decode_threshold u0) st = (nds, nps, nd, np)" and "nd + np \<le> max_num_batched_tokens c"
    and "list_all (\<lambda>t. req_of st ! t < s_num_reqs st) [nd ..< nd + np]"
  shows "same_buffers u0 u \<and>
    (case build new_meta own_kernels split_batch req_of u st of
       Inl e \<Rightarrow> build new_meta own_kernels split_batch req_of u0 st = Inl e
     | Inr (meta, u') \<Rightarrow> same_buffers u0 u' \<and> written_in_place nd np (s_causal st) meta u u' \<and>
         (\<exists>meta0 u0'. build new_meta own_kernels split_batch req_of u0 st = Inr (meta0, u0') \<and>
            prefill_counts nd meta0 = prefill_counts nd meta))"
proof -
  have ok: "builder_ok u0" by (rule init_ok[OF assms(1-3)])
  have max: "builder_max_tokens u0 = max_num_batched_tokens c"
    using assms(1) by (auto simp: swa_builder_init_def Let_def rbind_Inr_iff)
  have same: "same_buffers u0 u" by (rule run_keeps[OF assms(4) ok])
  then have u: "builder_ok u" "split_batch (decode_threshold u) st = (nds, nps, nd, np)" "nd + np \<le> builder_max_tokens u"
    using assms(5,6) max by (simp_all add: same_buffers_def same_settings_def)
  note agrees = build_agrees[where req_of = req_of and st = st and split_batch = split_batch and new_meta = new_meta
      and own_kernels = own_kernels, OF same u(2,3) assms(7)]
  show ?thesis
  proof (cases "build new_meta own_kernels split_batch req_of u st")
    case (Inl e)
    then show ?thesis using agrees same by simp
  next
    case (Inr out)
    then obtain meta u' where run: "build new_meta own_kernels split_batch req_of u st = Inr (meta, u')" by (metis prod.exhaust)
    note after = build_keeps[OF run u(1)]
    show ?thesis
      using agrees build_in_place[OF run u] same_buffers_trans[OF same after] same run
      by simp
  qed
qed

subsection \<open>A small batch\<close>

text \<open>A decode at position 4, and a prefill of four tokens whose last three are an image.\<close>

definition demo_settings :: swa_settings where
  "demo_settings = \<lparr>hf_sliding_window = 2, vision_max_n_token = Some 3, vision_n_layers = Some 1, compress_ratios = Some [1, 4, 128],
     max_num_batched_tokens = 8, max_num_seqs = 2, model_len = 64, spec_config = None, spec_block_size = 4\<rparr>"

definition demo_step :: step_batch where
  "demo_step = \<lparr>s_query_start_loc = [0, 1, 5], s_seq_lens = [5, 4], s_seq_lens_cpu = Some [5, 4], s_block_table = [[0, 1], [2, 3]],
     s_slot_mapping = [4, 8, 9, 10, 11], s_causal = True, s_num_reqs = 2, s_max_query_len = 4, s_mm_ranges = Some [(1, [(1, 3)])]\<rparr>"

definition demo_swa :: swa_builder where
  "demo_swa = projr (swa_builder_init (\<lambda>w n. nat w + n) demo_settings)"

definition demo_split :: "nat \<Rightarrow> step_batch \<Rightarrow> nat \<times> nat \<times> nat \<times> nat" where
  "demo_split threshold st = (1, 1, 1, 4)"

definition demo_reqs :: "step_batch \<Rightarrow> nat list" where
  "demo_reqs st = [0, 1, 1, 1, 1]"

definition demo_build :: "(unit swa_metadata \<times> swa_builder) res" where
  "demo_build = build () False demo_split demo_reqs demo_swa demo_step"

lemma demo_swa_ok: "builder_ok demo_swa"
  by (rule init_ok[of "\<lambda>w n. nat w + n" demo_settings]) (simp_all add: demo_swa_def demo_settings_def, code_simp)

lemma demo_build_ok: "build () False demo_split demo_reqs demo_swa demo_step = Inr (projr demo_build)"
proof -
  have "\<not> isl demo_build" by code_simp
  then show ?thesis by (cases demo_build) (simp_all add: demo_build_def)
qed

lemma demo_swa_built: "swa_builder_init (\<lambda>w n. nat w + n) demo_settings = Inr demo_swa"
proof -
  have "\<not> isl (swa_builder_init (\<lambda>w n. nat w + n) demo_settings)" by code_simp
  then show ?thesis unfolding demo_swa_def by (cases "swa_builder_init (\<lambda>w n. nat w + n) demo_settings") simp_all
qed

text \<open>The step again, on the builder it left.\<close>

lemma builds_write_in_place_witness:
  "same_buffers demo_swa (snd (projr demo_build)) \<and>
    (case build () False demo_split demo_reqs (snd (projr demo_build)) demo_step of
       Inl e \<Rightarrow> build () False demo_split demo_reqs demo_swa demo_step = Inl e
     | Inr (meta, u') \<Rightarrow> same_buffers demo_swa u' \<and> written_in_place 1 4 (s_causal demo_step) meta (snd (projr demo_build)) u' \<and>
         (\<exists>meta0 u0'. build () False demo_split demo_reqs demo_swa demo_step = Inr (meta0, u0') \<and>
            prefill_counts 1 meta0 = prefill_counts 1 meta))"
proof (rule builds_write_in_place[OF demo_swa_built, where steps = "[demo_step]" and nds = 1 and nps = 1])
  show "run_builds () False demo_split demo_reqs demo_swa [demo_step] = Inr (snd (projr demo_build))"
    by (simp add: demo_build_ok split_beta)
  show "list_all (\<lambda>t. demo_reqs demo_step ! t < s_num_reqs demo_step) [1 ..< 1 + 4]" by code_simp
qed (simp_all add: demo_settings_def demo_split_def)

lemma prefill_rows_are_what_tokens_see_witness:
  "\<exists>rows lens. m_prefill_rows (fst (projr demo_build)) = Some rows \<and> m_prefill_lens (fst (projr demo_build)) = Some lens \<and>
    rows ! 1 = map (slot_at (m_batch (fst (projr demo_build))) (page_size demo_swa) 1) (sorted_list_of_set (seen (window_size demo_swa) [(1, 3)] 1)) @
      replicate (prefill_index_width demo_swa - card (seen (window_size demo_swa) [(1, 3)] 1)) (- 1) \<and>
    lens ! 1 = int (card (seen (window_size demo_swa) [(1, 3)] 1)) \<and> card (seen (window_size demo_swa) [(1, 3)] 1) \<le> prefill_index_width demo_swa"
proof (rule prefill_rows_are_what_tokens_see[OF _ demo_swa_ok, where nds = 1 and nps = 1 and nd = 1 and np = 4 and i = 1 and req = 1 and pos = 1])
  show "build () False demo_split demo_reqs demo_swa demo_step = Inr (fst (projr demo_build), snd (projr demo_build))"
    by (simp add: demo_build_ok)
  show "demo_split (decode_threshold demo_swa) demo_step = (1, 1, 1, 4)" by (simp add: demo_split_def)
qed code_simp+

lemma demo_rows: "m_prefill_rows (fst (projr demo_build)) = Some [[8, -1, -1, -1, -1], [8, 9, 10, 11, -1], [9, 10, 11, -1, -1], [9, 10, 11, -1, -1]]"
  by code_simp

end
