(* ===== verification/Expert_Tiers.thy ===== *)
theory Expert_Tiers
  imports Py_Text
begin

text \<open>
  The fat-expert tiers of the GLM-5.3-Flash image (\<open>overlay/exl3.py\<close>): which of the five ways of
  running an expert with many rows the environment asks for, what the image and the checkpoint can
  run, and the diagnostics the module keeps while it does. The compiled extensions and the GPU are
  described by an argument, the \<open>image\<close>; an attribute that was never set reads as 0, False or empty.
\<close>

subsection \<open>The packed experts of a layer\<close>

text \<open>
  One packed matrix: the trellis is indexed by input tile, output tile and word, the scales by
  input and output feature.
\<close>

record ('t, 'v) exl3_linear =
  in_features :: int
  out_features :: int
  trellis :: "'t list list list"
  suh :: "'v list"
  svh :: "'v list"
  codes_K :: int
  is_mcg :: bool
  is_mul1 :: bool

record ('t, 'v) expert_pack =
  gate :: "('t, 'v) exl3_linear"
  up :: "('t, 'v) exl3_linear"
  down :: "('t, 'v) exl3_linear"

type_synonym gpu = "string \<times> int"

subsection \<open>Tiers and reasons\<close>

text \<open>The reasons stand for the strings the code writes into its diagnostics.\<close>

datatype fat_tier = Grouped | Kernel | Batched | Sorted_slices | Legacy

datatype eligibility =
    Eligible
  | Bad_bits int
  | Bad_words int
  | No_inners
  | Bad_K int
  | Not_mcg
  | Has_mul1
  | Shared_suh_missing
  | Bad_hidden int
  | Bad_intermediate int
  | Bad_device string
  | Device_mismatch string
  | Bad_capability int int

datatype fat_reason =
    Unresolved
  | None_requested
  | Shared_suh_absent
  | Tier_ok fat_tier
  | Fallback_ok eligibility fat_tier
  | Degraded_shared_suh
  | Legacy_default
  | Thin_only
  | Row_tile_preempts
  | No_fat_experts

text \<open>\<open>layer._exl3_last_fat_fallback\<close>.\<close>

datatype fat_path = No_path | Row_tile | Tier_path fat_tier

record ('t, 'v) moe_layer =
  layer_bits :: int
  layer_words :: int
  inners :: "('t, 'v) expert_pack list"
  shared_w13_suh :: bool
  layer_hidden :: int
  layer_intermediate :: int
  w13_device :: gpu
  packed_devices :: "(string \<times> gpu) list"
  grouped_eligible :: eligibility
  effective_tier :: "fat_tier option"
  tier_reason :: fat_reason
  last_fallback :: fat_path
  last_reason :: fat_reason
  pointers_built :: bool
  temp_rows :: "nat option"
  last_apply_fused :: "bool option"
  fused_concurrency :: int

subsection \<open>The environment\<close>

type_synonym env = "string \<Rightarrow> string option"

definition env_on :: "env \<Rightarrow> string \<Rightarrow> string \<Rightarrow> bool" where
  "env_on env name default_value \<longleftrightarrow> env_or env name default_value \<noteq> ''0''"

definition fused_moe_row_tile_enabled :: "env \<Rightarrow> bool" where
  "fused_moe_row_tile_enabled env = env_on env ''EXL3_MOE_ROW_TILE'' ''0''"

definition sorted_fat_fallback_enabled :: "env \<Rightarrow> bool" where
  "sorted_fat_fallback_enabled env = env_on env ''EXL3_FAT_SORTED'' ''0''"

definition batched_fat_fallback_enabled :: "env \<Rightarrow> bool" where
  "batched_fat_fallback_enabled env = env_on env ''EXL3_FAT_BATCHED'' ''0''"

definition fat_kernel_enabled :: "env \<Rightarrow> bool" where
  "fat_kernel_enabled env = env_on env ''EXL3_FAT_KERNEL'' ''0''"

definition grouped_fat_enabled :: "env \<Rightarrow> bool" where
  "grouped_fat_enabled env = env_on env ''EXL3_FAT_GROUPED'' ''0''"

definition fused_moe_enabled :: "env \<Rightarrow> bool" where
  "fused_moe_enabled env = env_on env ''EXL3_FUSED_MOE'' ''1''"

definition fat_expert_log_enabled :: "env \<Rightarrow> bool" where
  "fat_expert_log_enabled env =
     env_on env ''EXL3_FAT_EXPERT_LOG'' (if grouped_fat_enabled env then ''0'' else ''1'')"

definition TEMP_ROWS_FUSED :: int where
  "TEMP_ROWS_FUSED = 128"

definition temp_rows_fused :: "env \<Rightarrow> int res" where
  "temp_rows_fused env =
     (let raw = strip (env_or env ''EXL3_TEMP_ROWS_FUSED'' '''') in
      if raw = [] then Inr TEMP_ROWS_FUSED else rbind (py_int raw) (\<lambda>n. Inr (max 1 n)))"

definition configured_fat_tier :: "env \<Rightarrow> fat_tier" where
  "configured_fat_tier env =
     (if grouped_fat_enabled env then Grouped
      else if fat_kernel_enabled env then Kernel
      else if batched_fat_fallback_enabled env then Batched
      else if sorted_fat_fallback_enabled env then Sorted_slices
      else Legacy)"

subsection \<open>What the image can run\<close>

text \<open>
  \<open>exllamav3_ext\<close> and \<open>exl3_fat_moe_ext\<close> are given by the names they define, or None where the import
  fails; the capability is the device's, or (-1, -1) without a GPU; \<open>stream_capturing\<close> tells that the
  current stream records a CUDA graph.
\<close>

record image =
  exllamav3_ext :: "string list option"
  exl3_fat_moe_ext :: "string list option"
  capability :: "int \<times> int"
  tp_identity :: "int \<times> int"
  stream_capturing :: bool

definition exl3_fat_symbols :: "image \<Rightarrow> bool \<times> bool \<times> bool" where
  "exl3_fat_symbols img = (case exllamav3_ext img of
       None \<Rightarrow> (False, False, False)
     | Some ext \<Rightarrow> (''exl3_moe'' \<in> set ext, ''exl3_fat_gemm'' \<in> set ext, ''exl3_fat_gemm_scatter'' \<in> set ext))"

definition EXL3_FAT_MOE_SYMBOLS :: "string list" where
  "EXL3_FAT_MOE_SYMBOLS =
     [''exl3_fat_moe_gather'', ''exl3_fat_moe_gateup'', ''exl3_fat_moe_down'',
      ''exl3_fat_moe_tile_rows_gateup'', ''exl3_fat_moe_tile_rows_down'']"

definition has_all :: "string list option \<Rightarrow> bool" where
  "has_all ext = (case ext of None \<Rightarrow> False | Some names \<Rightarrow> list_all (\<lambda>n. n \<in> set names) EXL3_FAT_MOE_SYMBOLS)"

datatype moe_ext = In_exllamav3 | In_fat_moe

definition load_fat_moe_ext :: "image \<Rightarrow> moe_ext option" where
  "load_fat_moe_ext img =
     (if has_all (exllamav3_ext img) then Some In_exllamav3
      else if has_all (exl3_fat_moe_ext img) then Some In_fat_moe
      else None)"

definition exl3_fat_moe_symbols :: "image \<Rightarrow> bool" where
  "exl3_fat_moe_symbols img \<longleftrightarrow> load_fat_moe_ext img \<noteq> None"

definition EXL3_FAT_MOE_MIN_CAPABILITY :: "int \<times> int" where
  "EXL3_FAT_MOE_MIN_CAPABILITY = (9, 0)"

text \<open>Python's order on pairs.\<close>

definition pair_less :: "int \<times> int \<Rightarrow> int \<times> int \<Rightarrow> bool" where
  "pair_less a b \<longleftrightarrow> fst a < fst b \<or> (fst a = fst b \<and> snd a < snd b)"

text \<open>The first matrix, in the order gate, up, down, whose codes the grouped kernels cannot read.\<close>

definition linear_eligibility :: "('t, 'v) exl3_linear \<Rightarrow> eligibility" where
  "linear_eligibility l =
     (if codes_K l \<noteq> 4 then Bad_K (codes_K l)
      else if \<not> is_mcg l then Not_mcg
      else if is_mul1 l then Has_mul1
      else Eligible)"

fun first_ineligible :: "eligibility list \<Rightarrow> eligibility" where
  "first_ineligible [] = Eligible"
| "first_ineligible (e # es) = (if e = Eligible then first_ineligible es else e)"

definition packs_eligibility :: "('t, 'v) expert_pack list \<Rightarrow> eligibility" where
  "packs_eligibility packs =
     first_ineligible (concat (map (\<lambda>p. map linear_eligibility [gate p, up p, down p]) packs))"

definition devices_eligibility :: "gpu \<Rightarrow> (string \<times> gpu) list \<Rightarrow> eligibility" where
  "devices_eligibility dev devs =
     first_ineligible (map (\<lambda>(name, d). if d \<noteq> dev then Device_mismatch name else Eligible) devs)"

definition grouped_fat_eligibility :: "image \<Rightarrow> ('t, 'v) moe_layer \<Rightarrow> eligibility" where
  "grouped_fat_eligibility img layer =
     (if layer_bits layer \<noteq> 4 then Bad_bits (layer_bits layer)
      else if layer_words layer \<noteq> 64 then Bad_words (layer_words layer)
      else if inners layer = [] then No_inners
      else if packs_eligibility (inners layer) \<noteq> Eligible then packs_eligibility (inners layer)
      else if \<not> shared_w13_suh layer then Shared_suh_missing
      else if layer_hidden layer \<le> 0 \<or> layer_hidden layer mod 256 \<noteq> 0 then Bad_hidden (layer_hidden layer)
      else if layer_intermediate layer \<le> 0 \<or> layer_intermediate layer mod 128 \<noteq> 0
        then Bad_intermediate (layer_intermediate layer)
      else if fst (w13_device layer) \<noteq> ''cuda'' then Bad_device (fst (w13_device layer))
      else if devices_eligibility (w13_device layer) (packed_devices layer) \<noteq> Eligible
        then devices_eligibility (w13_device layer) (packed_devices layer)
      else if pair_less (capability img) EXL3_FAT_MOE_MIN_CAPABILITY
        then Bad_capability (fst (capability img)) (snd (capability img))
      else Eligible)"

text \<open>
  \<open>resolve_exl3_fat_tier\<close>: the symbols are looked up in the image (its optional arguments for them are
  used by the tests only). A tier whose kernels are missing is a \<open>RuntimeError\<close>.
\<close>

definition kernel_symbols_present :: "image \<Rightarrow> bool" where
  "kernel_symbols_present img \<longleftrightarrow> (let (_, gemm, scatter) = exl3_fat_symbols img in gemm \<and> scatter)"

definition resolve_exl3_fat_tier :: "env \<Rightarrow> image \<Rightarrow> bool \<Rightarrow> eligibility \<Rightarrow> (fat_tier \<times> fat_reason) res" where
  "resolve_exl3_fat_tier env img shared_suh eligible =
     (let configured = configured_fat_tier env in
      if configured = Legacy then Inr (Legacy, None_requested)
      else if \<not> shared_suh \<and> configured \<in> {Grouped, Kernel, Batched} then Inr (Sorted_slices, Shared_suh_absent)
      else if configured = Grouped then
        if \<not> exl3_fat_moe_symbols img then Inl RuntimeError
        else if eligible = Eligible then Inr (Grouped, Tier_ok Grouped)
        else if \<not> kernel_symbols_present img then Inl RuntimeError
        else Inr (Kernel, Fallback_ok eligible Kernel)
      else if configured = Kernel \<and> \<not> kernel_symbols_present img then Inl RuntimeError
      else Inr (configured, Tier_ok configured))"

subsection \<open>Diagnostics\<close>

text \<open>
  The module's dictionaries \<open>_EXL3_FAT_DIAG\<close> and \<open>_FAT_STATS\<close> as one record, with the scratch caches
  next to them: a cache entry is its key with the number of rows and of bytes of its buffers. The
  keys of the two scratch caches are the device with the dimensions of the expert.
\<close>

record fat_stats =
  stat_layers :: nat
  stat_fat_layers :: nat
  stat_fat_experts :: nat
  stat_max_rows :: int
  stat_sum_max_rows :: int
  stat_hist :: "nat list"

record scratch =
  scratch_rows :: int
  scratch_bytes :: int

type_synonym fat_key = "gpu \<times> int \<times> int \<times> int \<times> int"
type_synonym grouped_key = "gpu \<times> int \<times> int"
type_synonym fused_key = "gpu \<times> int \<times> int \<times> int \<times> int"

record fat_state =
  diag_configured :: fat_tier
  diag_effective :: fat_tier
  diag_reason :: fat_reason
  diag_shared_suh :: bool
  shared_suh_layers :: nat
  moe_layers_loaded :: nat
  sym_exl3_moe :: bool
  sym_fat_gemm :: bool
  sym_fat_gemm_scatter :: bool
  sym_fat_moe :: bool
  diag_grouped_eligible :: bool
  diag_cap :: "int \<times> int"
  cap_ok :: bool
  diag_tp :: "int \<times> int"
  tier_logged :: bool
  prefill_layer_calls :: nat
  thin_calls :: nat
  row_tile_calls :: nat
  fallback_calls :: "fat_tier \<Rightarrow> nat"
  fallback_reasons :: "(fat_reason, nat) dict"
  fat_expert_runs :: nat
  direct_calls :: nat
  scatter_calls :: nat
  grouped_calls :: nat
  fat_scratch_allocs :: nat
  fat_scratch_bytes :: int
  fat_scratch_peak_bytes :: int
  grouped_scratch_bytes :: int
  fat_scratch_cache :: "(fat_key, scratch) dict"
  grouped_scratch_cache :: "(grouped_key, scratch) dict"
  fused_temps_allocs :: nat
  fused_temps_bytes :: int
  fused_temp_cache :: "(fused_key, int) dict"
  stats :: fat_stats

definition FAT_BUCKET_EDGES :: "int list" where
  "FAT_BUCKET_EDGES = [16, 32, 64, 128, 256, 512, 1024, 2048]"

definition empty_stats :: fat_stats where
  "empty_stats = \<lparr>stat_layers = 0, stat_fat_layers = 0, stat_fat_experts = 0, stat_max_rows = 0,
     stat_sum_max_rows = 0, stat_hist = replicate (length FAT_BUCKET_EDGES + 1) 0\<rparr>"

definition initial_fat_state :: fat_state where
  "initial_fat_state = \<lparr>diag_configured = Legacy, diag_effective = Legacy, diag_reason = Unresolved,
     diag_shared_suh = False, shared_suh_layers = 0, moe_layers_loaded = 0, sym_exl3_moe = False,
     sym_fat_gemm = False, sym_fat_gemm_scatter = False, sym_fat_moe = False,
     diag_grouped_eligible = False, diag_cap = (-1, -1), cap_ok = False, diag_tp = (-1, 1),
     tier_logged = False, prefill_layer_calls = 0, thin_calls = 0, row_tile_calls = 0,
     fallback_calls = (\<lambda>t. 0), fallback_reasons = [], fat_expert_runs = 0, direct_calls = 0,
     scatter_calls = 0, grouped_calls = 0, fat_scratch_allocs = 0, fat_scratch_bytes = 0,
     fat_scratch_peak_bytes = 0, grouped_scratch_bytes = 0, fat_scratch_cache = [],
     grouped_scratch_cache = [], fused_temps_allocs = 0, fused_temps_bytes = 0, fused_temp_cache = [], stats = empty_stats\<rparr>"

definition record_fat_reason :: "fat_reason \<Rightarrow> fat_state \<Rightarrow> fat_state" where
  "record_fat_reason reason st =
     (let n = (case map_of (fallback_reasons st) reason of None \<Rightarrow> 0 | Some n \<Rightarrow> n) in
      st\<lparr>fallback_reasons := dict_set reason (n + 1) (fallback_reasons st)\<rparr>)"

definition record_fat_tier ::
    "fat_tier \<Rightarrow> fat_reason \<Rightarrow> ('t, 'v) moe_layer \<Rightarrow> fat_state \<Rightarrow> ('t, 'v) moe_layer \<times> fat_state" where
  "record_fat_tier tier reason layer st =
     (layer\<lparr>last_fallback := Tier_path tier, last_reason := reason\<rparr>,
      record_fat_reason reason
        (st\<lparr>fallback_calls := (fallback_calls st)(tier := fallback_calls st tier + 1)\<rparr>))"

text \<open>
  \<open>_record_exl3_fat_resolution\<close>, once per layer at weight load; the log lines it writes are left out,
  the flag that it has written one is kept. A resolution that raises leaves the state as it is.
\<close>

definition record_fat_resolution ::
    "env \<Rightarrow> image \<Rightarrow> ('t, 'v) moe_layer \<Rightarrow> fat_state \<Rightarrow> (('t, 'v) moe_layer \<times> fat_state) res" where
  "record_fat_resolution env img layer st =
     (let shared = shared_w13_suh layer;
          eligible = grouped_fat_eligibility img layer;
          layer = layer\<lparr>grouped_eligible := eligible\<rparr>
      in rbind (resolve_exl3_fat_tier env img shared eligible) (\<lambda>(tier, reason).
        let layer = layer\<lparr>effective_tier := Some tier, tier_reason := reason\<rparr>;
            (moe, gemm, scatter) = exl3_fat_symbols img;
            loaded = moe_layers_loaded st + 1;
            suh_layers = (if shared then shared_suh_layers st + 1 else shared_suh_layers st);
            st = st\<lparr>moe_layers_loaded := loaded, shared_suh_layers := suh_layers,
              diag_shared_suh := (suh_layers = loaded), diag_configured := configured_fat_tier env,
              sym_exl3_moe := moe, sym_fat_gemm := gemm, sym_fat_gemm_scatter := scatter,
              sym_fat_moe := exl3_fat_moe_symbols img, diag_grouped_eligible := (eligible = Eligible),
              diag_cap := capability img, cap_ok := (\<not> pair_less (capability img) (8, 0)),
              diag_tp := tp_identity img\<rparr>;
            st = (if diag_reason st = Unresolved \<or> diag_effective st \<noteq> tier
                  then st\<lparr>diag_effective := tier, diag_reason := reason\<rparr> else st)
        in Inr (layer, st\<lparr>tier_logged := True\<rparr>)))"

definition reset_fat_diag_counters :: "fat_state \<Rightarrow> fat_state" where
  "reset_fat_diag_counters st =
     (let bytes = sum_list (map (scratch_bytes \<circ> snd) (fat_scratch_cache st)) in
      st\<lparr>prefill_layer_calls := 0, thin_calls := 0, row_tile_calls := 0, fat_expert_runs := 0,
        direct_calls := 0, scatter_calls := 0, fat_scratch_allocs := 0, grouped_calls := 0,
        fallback_calls := (\<lambda>t. 0), fallback_reasons := [], fat_scratch_bytes := bytes,
        fat_scratch_peak_bytes := bytes,
        grouped_scratch_bytes := sum_list (map (scratch_bytes \<circ> snd) (grouped_scratch_cache st))\<rparr>)"

definition reset_fat_expert_stats :: "fat_state \<Rightarrow> fat_state" where
  "reset_fat_expert_stats st = st\<lparr>stats := empty_stats\<rparr>"

fun bucket_from :: "int list \<Rightarrow> nat \<Rightarrow> int \<Rightarrow> nat" where
  "bucket_from [] i n = i"
| "bucket_from (edge # es) i n = (if n \<le> edge then i else bucket_from es (i + 1) n)"

definition fat_bucket :: "int \<Rightarrow> nat" where
  "fat_bucket n = bucket_from FAT_BUCKET_EDGES 0 n"

text \<open>
  \<open>record_exl3_fat_expert_stats\<close> for the counts of one layer; the host copy and the device tensor hold
  the same counts. Its summary lines in the log are left out.
\<close>

definition stats_step :: "int \<Rightarrow> int list \<Rightarrow> int \<Rightarrow> fat_stats \<Rightarrow> fat_stats" where
  "stats_step cap counts max_rows s =
     (let n_fat = length (filter (\<lambda>n. cap < n) counts);
          b = fat_bucket max_rows;
          s = s\<lparr>stat_layers := stat_layers s + 1,
                stat_sum_max_rows := stat_sum_max_rows s + max_rows,
                stat_hist := (stat_hist s)[b := stat_hist s ! b + 1],
                stat_max_rows := max (stat_max_rows s) max_rows\<rparr>
      in if n_fat \<noteq> 0
         then s\<lparr>stat_fat_layers := stat_fat_layers s + 1, stat_fat_experts := stat_fat_experts s + n_fat\<rparr>
         else s)"

definition record_fat_expert_stats :: "env \<Rightarrow> int list \<Rightarrow> int \<Rightarrow> fat_state \<Rightarrow> fat_state res" where
  "record_fat_expert_stats env counts max_rows st =
     rbind (temp_rows_fused env) (\<lambda>cap. Inr (st\<lparr>stats := stats_step cap counts max_rows (stats st)\<rparr>))"

subsection \<open>What a resolved tier can rely on\<close>

definition tier_rank :: "fat_tier \<Rightarrow> nat" where
  "tier_rank t = (case t of Legacy \<Rightarrow> 0 | Sorted_slices \<Rightarrow> 1 | Batched \<Rightarrow> 2 | Kernel \<Rightarrow> 3 | Grouped \<Rightarrow> 4)"

lemma first_ineligible_iff: "first_ineligible es = Eligible \<longleftrightarrow> (\<forall>e \<in> set es. e = Eligible)"
  by (induction es) auto

lemma linear_eligibility_iff:
  "linear_eligibility l = Eligible \<longleftrightarrow> codes_K l = 4 \<and> is_mcg l \<and> \<not> is_mul1 l"
  by (simp add: linear_eligibility_def)

lemma packs_eligibility_iff:
  "packs_eligibility packs = Eligible \<longleftrightarrow>
     (\<forall>p \<in> set packs. \<forall>l \<in> {gate p, up p, down p}. codes_K l = 4 \<and> is_mcg l \<and> \<not> is_mul1 l)"
  by (auto simp: packs_eligibility_def first_ineligible_iff linear_eligibility_iff)

text \<open>
  The tier of a layer is never above the one the environment asks for, and its kernels are there: the
  tiers that share one input Hadamard between gate and up run only on a checkpoint whose scales are
  shared, the fat kernels only in an image that has them, the grouped kernels only on K4/MCG experts.
\<close>

lemma resolved_tier_runs:
  assumes "resolve_exl3_fat_tier env img (shared_w13_suh layer) (grouped_fat_eligibility img layer)
      = Inr (tier, reason)"
  shows "tier_rank tier \<le> tier_rank (configured_fat_tier env)"
    and "tier \<in> {Grouped, Kernel, Batched} \<Longrightarrow> shared_w13_suh layer"
    and "tier = Kernel \<Longrightarrow> kernel_symbols_present img"
    and "tier = Grouped \<Longrightarrow> exl3_fat_moe_symbols img"
    and "tier = Grouped \<Longrightarrow> p \<in> set (inners layer) \<Longrightarrow> l \<in> {gate p, up p, down p} \<Longrightarrow> codes_K l = 4 \<and> is_mcg l \<and> \<not> is_mul1 l"
  using assms
  by (auto simp: resolve_exl3_fat_tier_def Let_def tier_rank_def grouped_fat_eligibility_def
      packs_eligibility_iff split: if_splits)

lemma bucket_from_bound: "bucket_from es i n \<le> i + length es"
  by (induction es arbitrary: i) (auto, metis add_Suc)

end
