(* ===== verification/Expert_Routing.thy ===== *)
theory Expert_Routing
  imports Expert_Tiers "HOL-Library.Multiset"
begin

text \<open>
  Routed experts in the GLM-5.3-Flash image (\<open>overlay/exl3.py\<close>): a token's row goes through each of its
  experts and the results, scaled by the routing weights, are added up. This theory has the plain
  loop over the experts, the routing buffer sorted by expert, and the loop over its slices.

  Values are elements of an ordered ring: sums are exact, so a theorem about them speaks of the fp32
  accumulation up to the order of its roundings. The rounding to fp16 is an operation of the model.
\<close>

subsection \<open>Numbers and rows\<close>

text \<open>
  What the code calls of torch on single values, and of the compiled extension on single rows:
  \<open>LinearEXL3.forward\<close>, the Hadamard transform with scales on its input or its output (\<open>had_r_128\<close>), the
  weights a trellis stands for (\<open>reconstruct\<close>, of the trellis, K and the two codebook flags) and the
  product of a row with them (\<open>hgemm\<close>).
\<close>

record ('t, 'v) torch_ops =
  to_half :: "'v \<Rightarrow> 'v"
  silu :: "'v \<Rightarrow> 'v"
  sigmoid :: "'v \<Rightarrow> 'v"
  forward :: "('t, 'v) exl3_linear \<Rightarrow> 'v list \<Rightarrow> 'v list"
  had_in :: "'v list \<Rightarrow> 'v list \<Rightarrow> 'v list"
  had_out :: "'v list \<Rightarrow> 'v list \<Rightarrow> 'v list"
  reconstruct :: "'t list list list \<Rightarrow> int \<Rightarrow> bool \<Rightarrow> bool \<Rightarrow> 'v list list"
  hgemm :: "'v list \<Rightarrow> 'v list list \<Rightarrow> 'v list"

definition clamp_max :: "'v::linordered_idom \<Rightarrow> 'v \<Rightarrow> 'v" where
  "clamp_max limit x = min x limit"

definition clamp :: "'v::linordered_idom \<Rightarrow> 'v \<Rightarrow> 'v \<Rightarrow> 'v" where
  "clamp lo hi x = min (max x lo) hi"

definition half_row :: "('t, 'v) torch_ops \<Rightarrow> 'v list \<Rightarrow> 'v list" where
  "half_row ops row = map (to_half ops) row"

definition add_row :: "'v::plus list \<Rightarrow> 'v list \<Rightarrow> 'v list" where
  "add_row a b = map2 (+) a b"

definition scale_row :: "'v::times \<Rightarrow> 'v list \<Rightarrow> 'v list" where
  "scale_row w row = map (\<lambda>x. x * w) row"

text \<open>\<open>out.index_add_(0, token_idx, rows)\<close>.\<close>

definition add_at :: "nat \<times> 'v::plus list \<Rightarrow> 'v list list \<Rightarrow> 'v list list" where
  "add_at p out = out[fst p := add_row (out ! fst p) (snd p)]"

definition index_add :: "'v::plus list list \<Rightarrow> (nat \<times> 'v list) list \<Rightarrow> 'v list list" where
  "index_add out ps = fold add_at ps out"

text \<open>The rows of one expert: gate and up, the clamped product, down.\<close>

definition expert_row ::
    "('t, 'v::linordered_idom) torch_ops \<Rightarrow> 'v \<Rightarrow> ('t, 'v) expert_pack \<Rightarrow> 'v list \<Rightarrow> 'v list" where
  "expert_row ops limit pack h =
     (let g = forward ops (gate pack) h;
          u = forward ops (up pack) h;
          act = map2 (*) (map (silu ops) (map (clamp_max limit) g)) (map (clamp (- limit) limit) u)
      in forward ops (down pack) (half_row ops act))"

subsection \<open>The loop over the experts\<close>

text \<open>The expert of this rank that a routed id names, as the loop finds it: \<open>expert_map\<close> holds -1 for an
  expert of another rank.\<close>

definition loop_expert :: "int list option \<Rightarrow> nat \<Rightarrow> int \<Rightarrow> nat option" where
  "loop_expert emap n raw =
     (if raw < 0 then None
      else
        let e = (case emap of
            None \<Rightarrow> raw
          | Some m \<Rightarrow> if raw < int (length m) then m ! nat raw else raw)
        in if e < 0 \<or> int n \<le> e then None else Some (nat e))"

text \<open>\<open>(ids == raw).nonzero()\<close>, row by row.\<close>

definition slots :: "'a list list \<Rightarrow> (nat \<times> nat) list" where
  "slots ids = concat (map (\<lambda>t. map (\<lambda>k. (t, k)) [0 ..< length (ids ! t)]) [0 ..< length ids])"

definition slots_of :: "int list list \<Rightarrow> int \<Rightarrow> (nat \<times> nat) list" where
  "slots_of ids raw = filter (\<lambda>(t, k). ids ! t ! k = raw) (slots ids)"

definition apply_exl3_python_loop ::
    "('t, 'v::linordered_idom) torch_ops \<Rightarrow> 'v list list \<Rightarrow> int list list \<Rightarrow> 'v list list \<Rightarrow>
     ('t, 'v) expert_pack list \<Rightarrow> int list option \<Rightarrow> 'v \<Rightarrow> nat set option \<Rightarrow> 'v list list \<Rightarrow> 'v list list" where
  "apply_exl3_python_loop ops x2d ids weights packs emap limit only out =
     fold (\<lambda>raw out. case loop_expert emap (length packs) raw of
         None \<Rightarrow> out
       | Some e \<Rightarrow>
           if (case only of None \<Rightarrow> True | Some es \<Rightarrow> e \<in> es)
           then index_add out
             (map (\<lambda>(t, k). (t, scale_row (weights ! t ! k) (expert_row ops limit (packs ! e) (half_row ops (x2d ! t)))))
               (slots_of ids raw))
           else out)
       (sort (remdups (concat ids))) out"

definition zero_rows :: "nat \<Rightarrow> nat \<Rightarrow> 'v::zero list list" where
  "zero_rows tokens hidden = replicate tokens (replicate hidden 0)"

subsection \<open>Sorting the routed slots by expert\<close>

text \<open>\<open>map_topk_to_local\<close>: an id that is no expert of this rank becomes the sentinel \<open>n_local\<close>.\<close>

definition map_topk_to_local :: "int list list \<Rightarrow> nat \<Rightarrow> int list option \<Rightarrow> nat list" where
  "map_topk_to_local ids n_local emap =
     (let flat = concat ids in
      case emap of
        None \<Rightarrow> map (\<lambda>i. if i < 0 \<or> int n_local \<le> i then n_local else nat i) flat
      | Some m \<Rightarrow>
          let n_global = int (length m);
              at = (\<lambda>i. if n_global \<noteq> 0 then m ! nat (min (max i 0) (max (n_global - 1) 0)) else int n_local)
          in map (\<lambda>i. if i < 0 \<or> n_global \<le> i \<or> at i < 0 \<or> int n_local \<le> at i then n_local else nat (at i)) flat)"

text \<open>\<open>torch.arange(tokens).repeat_interleave(topk)\<close>, the flattened weights, and the counts by
  \<open>scatter_add_\<close> of ones.\<close>

definition flat_tokens :: "int list list \<Rightarrow> nat list" where
  "flat_tokens ids = map fst (slots ids)"

definition scatter_counts :: "nat \<Rightarrow> nat list \<Rightarrow> nat list" where
  "scatter_counts n local = foldl (\<lambda>c e. c[e := c ! e + 1]) (replicate n 0) local"

text \<open>The result of \<open>argsort\<close>, which need not be stable: some permutation that sorts.\<close>

definition is_argsort :: "nat list \<Rightarrow> nat list \<Rightarrow> bool" where
  "is_argsort keys order \<longleftrightarrow>
     mset order = mset [0 ..< length keys] \<and> sorted (map (\<lambda>j. keys ! j) order)"

text \<open>
  \<open>apply_exl3_sorted_fat\<close>: the experts with more than \<open>cap\<close> rows, each on its slice of the sorted buffers;
  the second result counts the experts that ran.
\<close>

fun sorted_slices ::
    "(nat \<Rightarrow> nat list \<Rightarrow> 'v list \<Rightarrow> (nat \<times> 'v list) list) \<Rightarrow> nat \<Rightarrow> nat list \<Rightarrow> 'v list \<Rightarrow> nat \<Rightarrow> nat \<Rightarrow> nat list \<Rightarrow>
     'v::plus list list \<Rightarrow> nat \<Rightarrow> 'v list list \<times> nat" where
  "sorted_slices run cap token_sorted weight_sorted e offset [] out runs = (out, runs)"
| "sorted_slices run cap token_sorted weight_sorted e offset (n_rows # counts) out runs =
     (if n_rows \<le> cap
      then sorted_slices run cap token_sorted weight_sorted (e + 1) (offset + n_rows) counts out runs
      else sorted_slices run cap token_sorted weight_sorted (e + 1) (offset + n_rows) counts
        (index_add out (run e (take n_rows (drop offset token_sorted)) (take n_rows (drop offset weight_sorted))))
        (runs + 1))"

definition slice_rows ::
    "('t, 'v::linordered_idom) torch_ops \<Rightarrow> 'v \<Rightarrow> ('t, 'v) expert_pack list \<Rightarrow> 'v list list \<Rightarrow>
     nat \<Rightarrow> nat list \<Rightarrow> 'v list \<Rightarrow> (nat \<times> 'v list) list" where
  "slice_rows ops limit packs xh e token_idx scale =
     map2 (\<lambda>t w. (t, scale_row w (expert_row ops limit (packs ! e) (xh ! t)))) token_idx scale"

definition apply_exl3_sorted_fat ::
    "('t, 'v::linordered_idom) torch_ops \<Rightarrow> 'v list list \<Rightarrow> nat list \<Rightarrow> 'v list \<Rightarrow> nat list \<Rightarrow>
     ('t, 'v) expert_pack list \<Rightarrow> 'v \<Rightarrow> nat \<Rightarrow> 'v list list \<Rightarrow> fat_state \<Rightarrow> 'v list list \<times> fat_state" where
  "apply_exl3_sorted_fat ops xh token_sorted weight_sorted counts packs limit cap out st =
     (let (out, runs) = sorted_slices (slice_rows ops limit packs xh) cap token_sorted weight_sorted 0 0 counts out 0
      in (out, st\<lparr>fat_expert_runs := fat_expert_runs st + runs\<rparr>))"

subsection \<open>What the routing computes\<close>

text \<open>
  The reference: the expert of this rank that owns a routed id, and for every token the sum of its
  experts' rows, each scaled by its routing weight.
\<close>

definition owned_expert :: "int list option \<Rightarrow> nat \<Rightarrow> int \<Rightarrow> nat option" where
  "owned_expert emap n raw =
     (case emap of
        None \<Rightarrow> if 0 \<le> raw \<and> raw < int n then Some (nat raw) else None
      | Some m \<Rightarrow>
          if 0 \<le> raw \<and> raw < int (length m) \<and> 0 \<le> m ! nat raw \<and> m ! nat raw < int n
          then Some (nat (m ! nat raw)) else None)"

definition token_terms ::
    "('t, 'v::linordered_idom) torch_ops \<Rightarrow> 'v \<Rightarrow> ('t, 'v) expert_pack list \<Rightarrow> int list option \<Rightarrow>
     'v list \<Rightarrow> int list \<Rightarrow> 'v list \<Rightarrow> 'v list list" where
  "token_terms ops limit packs emap x ids weights =
     concat (map (\<lambda>k. case owned_expert emap (length packs) (ids ! k) of
         None \<Rightarrow> []
       | Some e \<Rightarrow> [scale_row (weights ! k) (expert_row ops limit (packs ! e) (half_row ops x))])
       [0 ..< length ids])"

definition routed_output ::
    "('t, 'v::linordered_idom) torch_ops \<Rightarrow> 'v \<Rightarrow> ('t, 'v) expert_pack list \<Rightarrow> int list option \<Rightarrow> nat \<Rightarrow>
     'v list list \<Rightarrow> int list list \<Rightarrow> 'v list list \<Rightarrow> 'v list list" where
  "routed_output ops limit packs emap hidden x2d ids weights =
     map (\<lambda>t. fold add_row (token_terms ops limit packs emap (x2d ! t) (ids ! t) (weights ! t)) (replicate hidden 0))
       [0 ..< length ids]"

subsubsection \<open>Accumulation does not depend on the order\<close>

lemma add_row_ac:
  fixes a :: "'v::linordered_idom list"
  shows "add_row a b = add_row b a" and "add_row (add_row a b) c = add_row a (add_row b c)"
  by (auto simp: add_row_def list_eq_iff_nth_eq ac_simps)

lemma add_row_swap: "add_row (add_row a b) c = add_row (add_row a c) (b :: 'v::linordered_idom list)"
  by (simp add: add_row_ac(2) add_row_ac(1)[of b c])

lemma length_add_at [simp]: "length (add_at p out) = length out"
  by (simp add: add_at_def)

lemma add_at_commute:
  "add_at p \<circ> add_at q = add_at q \<circ> (add_at p :: 'v::linordered_idom list list \<Rightarrow> _)"
proof
  fix out :: "'v list list"
  show "(add_at p \<circ> add_at q) out = (add_at q \<circ> add_at p) out"
    by (cases "fst p = fst q"; cases "fst p < length out")
      (auto simp: add_at_def list_update_swap nth_list_update add_row_swap list_update_beyond)
qed

lemma index_add_mset:
  assumes "mset ps = mset qs"
  shows "index_add (out :: 'v::linordered_idom list list) ps = index_add out qs"
  unfolding index_add_def using assms by (intro fun_cong[OF fold_multiset_equiv] add_at_commute) auto

lemma index_add_append: "index_add (index_add out ps) qs = index_add out (ps @ qs)"
  by (simp add: index_add_def)

lemma length_index_add [simp]: "length (index_add out ps) = length out"
  unfolding index_add_def by (induction ps arbitrary: out) simp_all

lemma index_add_nth:
  "t < length out \<Longrightarrow> index_add out ps ! t = fold (\<lambda>r a. add_row a r) (map snd (filter (\<lambda>p. fst p = t) ps)) (out ! t)"
  unfolding index_add_def by (induction ps arbitrary: out) (auto simp: add_at_def nth_list_update)

subsubsection \<open>Slices of a buffer sorted by a key\<close>

lemma sorted_slice:
  fixes f :: "'a \<Rightarrow> nat"
  assumes "sorted (map f xs)"
  shows "take (length (filter (\<lambda>x. f x = e) xs)) (drop (length (filter (\<lambda>x. f x < e) xs)) xs)
    = filter (\<lambda>x. f x = e) xs"
  using assms
proof (induction xs)
  case (Cons x xs)
  consider "f x < e" | "f x = e" | "e < f x" by linarith
  then show ?case
  proof cases
    case 1 then show ?thesis using Cons by simp
  next
    case 2
    then have "filter (\<lambda>x. f x < e) xs = []" using Cons.prems by (auto simp: filter_empty_conv not_less)
    then show ?thesis using Cons 2 by simp
  next
    case 3
    then have "filter (\<lambda>x. f x < e) (x # xs) = []" "filter (\<lambda>x. f x = e) (x # xs) = []"
      using Cons.prems by (auto simp: filter_empty_conv)
    then show ?thesis by (simp only: list.size take_0)
  qed
qed simp

lemma mset_by_key:
  assumes "distinct es"
  shows "mset (concat (map (\<lambda>e. map (F e) (filter (\<lambda>x. f x = e) xs)) es))
    = mset (map (\<lambda>x. F (f x) x) (filter (\<lambda>x. f x \<in> set es) xs))"
  using assms
proof (induction es)
  case (Cons e es)
  have "mset (map (\<lambda>x. F (f x) x) (filter (\<lambda>x. f x \<in> set (e # es)) xs))
      = mset (map (\<lambda>x. F (f x) x) (filter (\<lambda>x. f x = e) xs)) + mset (map (\<lambda>x. F (f x) x) (filter (\<lambda>x. f x \<in> set es) xs))"
    using Cons.prems by (induction xs) auto
  moreover have "map (\<lambda>x. F (f x) x) (filter (\<lambda>x. f x = e) xs) = map (F e) (filter (\<lambda>x. f x = e) xs)"
    by simp
  ultimately show ?case using Cons by simp
qed simp

text \<open>The counts, and the slices they cut.\<close>

lemma scatter_counts_fold:
  "foldl (\<lambda>c e. c[e := Suc (c ! e)]) c0 local ! i = c0 ! i + count_list local i" if "i < length c0"
  using that
proof (induction local arbitrary: c0)
  case (Cons e local)
  then show ?case using Cons.IH[of "c0[e := Suc (c0 ! e)]"] by (auto simp: nth_list_update)
qed simp

lemma length_scatter_fold: "length (foldl (\<lambda>c e. c[e := Suc (c ! e)]) c0 local) = length c0"
  by (induction local arbitrary: c0) simp_all

lemma scatter_counts_eq: "scatter_counts n local = map (count_list local) [0 ..< n]"
  by (rule nth_equalityI) (simp_all add: scatter_counts_def scatter_counts_fold length_scatter_fold)

lemma count_list_filter: "count_list xs e = length (filter (\<lambda>x. x = e) xs)"
  by (induction xs) auto

lemma counts_before: "sum_list (map (count_list local) [0 ..< e]) = length (filter (\<lambda>x. x < e) local)"
proof (induction e)
  case (Suc e)
  have "length (filter (\<lambda>x. x < Suc e) local) = length (filter (\<lambda>x. x < e) local) + length (filter (\<lambda>x. x = e) local)"
    by (induction local) auto
  then show ?case using Suc by (simp add: count_list_filter)
qed simp

lemma argsort_key_counts:
  assumes "is_argsort local order"
  shows "length (filter (\<lambda>j. P (local ! j)) order) = length (filter P local)"
proof -
  have "mset (filter (\<lambda>j. P (local ! j)) order) = mset (filter (\<lambda>j. P (local ! j)) [0 ..< length local])"
    using assms by (simp add: is_argsort_def mset_filter del: mset_upt)
  then have "length (filter (\<lambda>j. P (local ! j)) order) = length (filter P (map ((!) local) [0 ..< length local]))"
    by (simp add: filter_map o_def size_mset[symmetric] del: size_mset mset_upt)
  then show ?thesis by (simp add: map_nth)
qed

lemma expert_slice:
  assumes "is_argsort local order"
  shows "take (count_list local e) (drop (sum_list (map (count_list local) [0 ..< e])) (map f order))
    = map f (filter (\<lambda>j. local ! j = e) order)"
proof -
  have "take (length (filter (\<lambda>j. local ! j = e) order)) (drop (length (filter (\<lambda>j. local ! j < e) order)) order)
      = filter (\<lambda>j. local ! j = e) order"
    using assms by (intro sorted_slice) (simp add: is_argsort_def)
  then show ?thesis
    by (simp add: counts_before count_list_filter argsort_key_counts[OF assms, of "\<lambda>x. x = e"]
        argsort_key_counts[OF assms, of "\<lambda>x. x < e"] take_map drop_map)
qed

subsubsection \<open>The loop over slices\<close>

text \<open>The pairs of the slices whose count satisfies \<open>P\<close>.\<close>

definition slices_from ::
    "(nat \<Rightarrow> nat list \<Rightarrow> 'v list \<Rightarrow> (nat \<times> 'v list) list) \<Rightarrow> (nat \<Rightarrow> bool) \<Rightarrow> nat list \<Rightarrow> 'v list \<Rightarrow> nat \<Rightarrow> nat \<Rightarrow> nat list \<Rightarrow>
     (nat \<times> 'v list) list" where
  "slices_from run P ts ws e offset counts =
     concat (map (\<lambda>i. if P (counts ! i)
         then run (e + i) (take (counts ! i) (drop (offset + sum_list (take i counts)) ts))
                (take (counts ! i) (drop (offset + sum_list (take i counts)) ws))
         else [])
       [0 ..< length counts])"

lemma slices_from_Cons:
  "slices_from run P ts ws e offset (n # counts) =
     (if P n then run e (take n (drop offset ts)) (take n (drop offset ws)) else [])
     @ slices_from run P ts ws (e + 1) (offset + n) counts"
  unfolding slices_from_def
  by (simp add: upt_conv_Cons map_Suc_upt[symmetric] o_def add_ac cong: if_cong del: upt_Suc)

lemma sorted_slices_eq:
  "sorted_slices run cap ts ws e offset counts out runs =
     (index_add out (slices_from run ((<) cap) ts ws e offset counts), runs + length (filter (\<lambda>n. cap < n) counts))"
proof (induction counts arbitrary: e offset out runs)
  case Nil then show ?case by (simp add: slices_from_def index_add_def)
next
  case (Cons n counts)
  then show ?case by (simp add: slices_from_Cons index_add_append)
qed

subsubsection \<open>The routed pairs\<close>

text \<open>The rows the routed slots contribute, of those whose expert satisfies \<open>P\<close>, token by token.\<close>

definition slot_pair ::
    "('t, 'v::linordered_idom) torch_ops \<Rightarrow> 'v \<Rightarrow> ('t, 'v) expert_pack list \<Rightarrow> 'v list list \<Rightarrow> 'v list list \<Rightarrow>
     nat \<Rightarrow> nat \<times> nat \<Rightarrow> nat \<times> 'v list" where
  "slot_pair ops limit packs x2d weights e tk =
     (fst tk, scale_row (weights ! fst tk ! snd tk) (expert_row ops limit (packs ! e) (half_row ops (x2d ! fst tk))))"

definition slot_expert :: "int list option \<Rightarrow> nat \<Rightarrow> int list list \<Rightarrow> nat \<times> nat \<Rightarrow> nat" where
  "slot_expert emap n ids tk = (case owned_expert emap n (ids ! fst tk ! snd tk) of None \<Rightarrow> n | Some e \<Rightarrow> e)"

definition routed_pairs ::
    "('t, 'v::linordered_idom) torch_ops \<Rightarrow> 'v \<Rightarrow> ('t, 'v) expert_pack list \<Rightarrow> int list option \<Rightarrow>
     'v list list \<Rightarrow> int list list \<Rightarrow> 'v list list \<Rightarrow> (nat \<Rightarrow> bool) \<Rightarrow> (nat \<times> 'v list) list" where
  "routed_pairs ops limit packs emap x2d ids weights P =
     map (\<lambda>tk. slot_pair ops limit packs x2d weights (slot_expert emap (length packs) ids tk) tk)
       (filter (\<lambda>tk. slot_expert emap (length packs) ids tk < length packs \<and> P (slot_expert emap (length packs) ids tk))
          (slots ids))"

lemma owned_expert_less: "owned_expert emap n raw = Some e \<Longrightarrow> e < n"
  by (auto simp: owned_expert_def split: option.splits if_splits)

lemma slot_expert_less:
  "slot_expert emap n ids tk < n \<longleftrightarrow> owned_expert emap n (ids ! fst tk ! snd tk) \<noteq> None"
  by (auto simp: slot_expert_def dest: owned_expert_less split: option.split)

lemma slots_cong: "map length xs = map length ys \<Longrightarrow> slots xs = slots ys"
proof -
  assume eq: "map length xs = map length ys"
  then have len: "length xs = length ys" by (rule map_eq_imp_length_eq)
  have "length (xs ! t) = length (ys ! t)" if "t < length xs" for t
    using arg_cong[OF eq, of "\<lambda>l. l ! t"] that len by simp
  then have "map (\<lambda>t. map (\<lambda>k. (t, k)) [0 ..< length (xs ! t)]) [0 ..< length xs]
      = map (\<lambda>t. map (\<lambda>k. (t, k)) [0 ..< length (ys ! t)]) [0 ..< length xs]"
    by (intro map_cong refl) simp
  then show ?thesis unfolding slots_def len by (rule arg_cong[of _ _ concat])
qed

lemma concat_slots: "concat xs = map (\<lambda>tk. xs ! fst tk ! snd tk) (slots xs)"
proof -
  have "map (\<lambda>tk. xs ! fst tk ! snd tk) (slots xs) = concat (map (\<lambda>t. map (\<lambda>k. xs ! t ! k) [0 ..< length (xs ! t)]) [0 ..< length xs])"
    by (simp add: slots_def map_concat o_def)
  also have "\<dots> = concat (map ((!) xs) [0 ..< length xs])" by (simp add: map_nth)
  finally show ?thesis by (simp add: map_nth)
qed

lemma concat_map_if: "concat (map (\<lambda>x. if P x then f x else []) xs) = concat (map f (filter P xs))"
  by (induction xs) auto

lemma map_filter_nth: "map f (filter P xs) = map (\<lambda>j. f (xs ! j)) (filter (\<lambda>j. P (xs ! j)) [0 ..< length xs])"
proof -
  have "map f (filter P (map ((!) xs) [0 ..< length xs])) = map (\<lambda>j. f (xs ! j)) (filter (\<lambda>j. P (xs ! j)) [0 ..< length xs])"
    by (simp add: filter_map o_def)
  then show ?thesis by (simp add: map_nth)
qed

lemma concat_no_hit: "t \<notin> set us \<Longrightarrow> concat (map (\<lambda>u. if u = t then A else []) us) = []"
  by (induction us) auto

lemma slots_at: "t < length xs \<Longrightarrow> filter (\<lambda>tk. fst tk = t) (slots xs) = map (\<lambda>k. (t, k)) [0 ..< length (xs ! t)]"
proof -
  assume t: "t < length xs"
  have "filter (\<lambda>tk. fst tk = t) (slots xs)
      = concat (map (\<lambda>u. if u = t then map (\<lambda>k. (t, k)) [0 ..< length (xs ! t)] else []) [0 ..< length xs])"
    by (auto simp: slots_def filter_concat filter_map o_def intro!: arg_cong[of _ _ concat])
  also have "[0 ..< length xs] = [0 ..< t] @ t # [Suc t ..< length xs]"
    using t by (metis le_add_same_cancel1 less_imp_add_positive upt_add_eq_append upt_conv_Cons zero_le)
  also have "concat (map (\<lambda>u. if u = t then map (\<lambda>k. (t, k)) [0 ..< length (xs ! t)] else []) ([0 ..< t] @ t # [Suc t ..< length xs]))
      = map (\<lambda>k. (t, k)) [0 ..< length (xs ! t)]"
    by (simp add: concat_no_hit)
  finally show ?thesis .
qed

lemma set_slots: "(t, k) \<in> set (slots xs) \<longleftrightarrow> t < length xs \<and> k < length (xs ! t)"
  by (force simp: slots_def)

lemma token_terms_filter:
  "map (\<lambda>tk. snd (slot_pair ops limit packs x2d weights (slot_expert emap (length packs) ids tk) tk))
     (filter (\<lambda>tk. slot_expert emap (length packs) ids tk < length packs) (map (\<lambda>k. (t, k)) ks))
   = concat (map (\<lambda>k. case owned_expert emap (length packs) (ids ! t ! k) of
         None \<Rightarrow> []
       | Some e \<Rightarrow> [scale_row (weights ! t ! k) (expert_row ops limit (packs ! e) (half_row ops (x2d ! t)))]) ks)"
proof (induction ks)
  case (Cons k ks)
  then show ?case
    by (cases "owned_expert emap (length packs) (ids ! t ! k)")
      (auto simp: slot_expert_less slot_pair_def slot_expert_def dest: owned_expert_less)
qed simp

lemma routed_pairs_sum:
  fixes ops :: "('t, 'v::linordered_idom) torch_ops"
  shows "index_add (zero_rows (length ids) hidden) (routed_pairs ops limit packs emap x2d ids weights (\<lambda>e. True))
     = routed_output ops limit packs emap hidden x2d ids weights"
proof (rule nth_equalityI)
  fix t assume "t < length (index_add (zero_rows (length ids) hidden)
      (routed_pairs ops limit packs emap x2d ids weights (\<lambda>e. True)))"
  then have t: "t < length ids" by (simp add: zero_rows_def)
  have "map snd (filter (\<lambda>p. fst p = t) (routed_pairs ops limit packs emap x2d ids weights (\<lambda>e. True)))
      = map (\<lambda>tk. snd (slot_pair ops limit packs x2d weights (slot_expert emap (length packs) ids tk) tk))
          (filter (\<lambda>tk. slot_expert emap (length packs) ids tk < length packs) (filter (\<lambda>tk. fst tk = t) (slots ids)))"
    by (simp add: routed_pairs_def filter_map o_def slot_pair_def conj_commute)
  also have "\<dots> = token_terms ops limit packs emap (x2d ! t) (ids ! t) (weights ! t)"
    by (simp only: slots_at[OF t] token_terms_filter token_terms_def)
  finally show "index_add (zero_rows (length ids) hidden)
      (routed_pairs ops limit packs emap x2d ids weights (\<lambda>e. True)) ! t
    = routed_output ops limit packs emap hidden x2d ids weights ! t"
    using t by (simp add: index_add_nth routed_output_def zero_rows_def add_row_ac(1))
qed (simp add: routed_output_def zero_rows_def)

subsubsection \<open>The two loops run the routed pairs\<close>

definition ids_in_map :: "int list option \<Rightarrow> int list list \<Rightarrow> bool" where
  "ids_in_map emap ids \<longleftrightarrow>
     (case emap of None \<Rightarrow> True | Some m \<Rightarrow> \<forall>row \<in> set ids. \<forall>raw \<in> set row. raw < int (length m))"

lemma loop_expert_owned:
  "(case emap of None \<Rightarrow> True | Some m \<Rightarrow> raw < int (length m)) \<Longrightarrow> loop_expert emap n raw = owned_expert emap n raw"
  by (auto simp: loop_expert_def owned_expert_def Let_def split: option.splits)

lemma fold_index_add:
  "fold (\<lambda>x out. if P x then index_add out (f x) else out) xs out = index_add out (concat (map f (filter P xs)))"
proof (induction xs arbitrary: out)
  case Nil then show ?case by (simp add: index_add_def)
qed (simp add: index_add_append)

lemma mset_filter_map_cong:
  "(\<And>x. x \<in> set xs \<Longrightarrow> P x = Q x) \<Longrightarrow> (\<And>x. x \<in> set xs \<Longrightarrow> Q x \<Longrightarrow> f x = g x) \<Longrightarrow>
   mset (map f (filter P xs)) = mset (map g (filter Q xs))"
  by (induction xs) auto

text \<open>Ids within the expert map are routed alike by the loop and by the sorted buffers.\<close>

lemma python_loop_pairs:
  fixes out :: "'v::linordered_idom list list"
  assumes "ids_in_map emap ids"
  shows "apply_exl3_python_loop ops x2d ids weights packs emap limit only out
    = index_add out (routed_pairs ops limit packs emap x2d ids weights (\<lambda>e. case only of None \<Rightarrow> True | Some es \<Rightarrow> e \<in> es))"
proof -
  define n where "n = length packs"
  define wanted where "wanted e \<longleftrightarrow> (case only of None \<Rightarrow> True | Some es \<Rightarrow> e \<in> es)" for e
  define raw_of where "raw_of tk = ids ! fst tk ! snd tk" for tk
  define F where "F raw tk = slot_pair ops limit packs x2d weights (the (owned_expert emap n raw)) tk" for raw tk
  define G where "G raw \<longleftrightarrow> (case owned_expert emap n raw of None \<Rightarrow> False | Some e \<Rightarrow> wanted e)" for raw
  define raws where "raws = sort (remdups (concat ids))"
  have inside: "case emap of None \<Rightarrow> True | Some m \<Rightarrow> raw < int (length m)" if "raw \<in> set raws" for raw
    using assms that by (auto simp: ids_in_map_def raws_def split: option.split)
  have body: "map (\<lambda>(t, k). (t, scale_row (weights ! t ! k) (expert_row ops limit (packs ! e) (half_row ops (x2d ! t))))) (slots_of ids raw)
      = map (F raw) (filter (\<lambda>tk. raw_of tk = raw) (slots ids))" if "owned_expert emap n raw = Some e" for raw e
    using that by (simp add: slots_of_def raw_of_def F_def slot_pair_def split_beta')
  have "apply_exl3_python_loop ops x2d ids weights packs emap limit only out
      = fold (\<lambda>raw out. if G raw then index_add out (map (F raw) (filter (\<lambda>tk. raw_of tk = raw) (slots ids))) else out) raws out"
    unfolding apply_exl3_python_loop_def raws_def[symmetric] n_def[symmetric]
  proof (rule fold_cong)
    fix raw assume "raw \<in> set raws"
    then show "(\<lambda>out. case loop_expert emap n raw of None \<Rightarrow> out
        | Some e \<Rightarrow> if case only of None \<Rightarrow> True | Some es \<Rightarrow> e \<in> es
            then index_add out (map (\<lambda>(t, k). (t, scale_row (weights ! t ! k) (expert_row ops limit (packs ! e) (half_row ops (x2d ! t))))) (slots_of ids raw))
            else out)
      = (\<lambda>out. if G raw then index_add out (map (F raw) (filter (\<lambda>tk. raw_of tk = raw) (slots ids))) else out)"
      by (cases "owned_expert emap n raw")
        (simp_all add: loop_expert_owned[OF inside] G_def wanted_def body cong: if_cong)
  qed simp_all
  also have "\<dots> = index_add out (concat (map (\<lambda>raw. map (F raw) (filter (\<lambda>tk. raw_of tk = raw) (slots ids))) (filter G raws)))"
    by (rule fold_index_add)
  also have "\<dots> = index_add out (routed_pairs ops limit packs emap x2d ids weights wanted)"
  proof (rule index_add_mset)
    have member: "raw_of tk \<in> set raws" if "tk \<in> set (slots ids)" for tk
    proof -
      have "set raws = raw_of ` set (slots ids)"
        unfolding raws_def set_sort set_remdups by (subst concat_slots) (simp add: raw_of_def[abs_def])
      then show ?thesis using that by simp
    qed
    have "mset (concat (map (\<lambda>raw. map (F raw) (filter (\<lambda>tk. raw_of tk = raw) (slots ids))) (filter G raws)))
        = mset (map (\<lambda>tk. F (raw_of tk) tk) (filter (\<lambda>tk. raw_of tk \<in> set (filter G raws)) (slots ids)))"
      by (rule mset_by_key) (simp add: raws_def)
    also have "\<dots> = mset (routed_pairs ops limit packs emap x2d ids weights wanted)"
      unfolding routed_pairs_def n_def[symmetric]
      by (rule mset_filter_map_cong)
        (auto simp: member[unfolded raw_of_def] G_def F_def slot_expert_def raw_of_def dest: owned_expert_less split: option.splits)
    finally show "mset (concat (map (\<lambda>raw. map (F raw) (filter (\<lambda>tk. raw_of tk = raw) (slots ids))) (filter G raws)))
      = mset (routed_pairs ops limit packs emap x2d ids weights wanted)" .
  qed
  finally show ?thesis by (simp add: wanted_def[abs_def])
qed

lemma map_topk_owned:
  "map_topk_to_local ids n emap
    = map (\<lambda>raw. case owned_expert emap n raw of None \<Rightarrow> n | Some e \<Rightarrow> e) (concat ids)"
proof (cases emap)
  case None
  then show ?thesis by (auto simp: map_topk_to_local_def owned_expert_def Let_def)
next
  case (Some m)
  then show ?thesis
    by (auto simp: map_topk_to_local_def owned_expert_def Let_def min_def max_def nat_le_eq_zle)
qed

lemma map_topk_slots: "map_topk_to_local ids n emap = map (slot_expert emap n ids) (slots ids)"
  unfolding map_topk_owned by (subst concat_slots) (simp add: slot_expert_def o_def)

text \<open>What the sorted buffers hold, with the routing weights rounded by \<open>r\<close>.\<close>

lemma sorted_slices_pairs:
  fixes ops :: "('t, 'v::linordered_idom) torch_ops"
  assumes local: "local = map_topk_to_local ids (length packs) emap"
    and order: "is_argsort local order"
    and shape: "map length weights = map length ids"
    and xh: "xh = map (half_row ops) x2d" and tokens: "length x2d = length ids"
  shows "mset (slices_from (slice_rows ops limit packs xh) P
      (map (\<lambda>j. flat_tokens ids ! j) order) (map (\<lambda>j. map r (concat weights) ! j) order) 0 0
      (map (count_list local) [0 ..< length packs]))
    = mset (routed_pairs ops limit packs emap x2d ids (map (map r) weights) (\<lambda>e. P (count_list local e)))"
proof -
  define n where "n = length packs"
  define N where "N = length (slots ids)"
  define F where "F e j = (flat_tokens ids ! j, scale_row (map r (concat weights) ! j) (expert_row ops limit (packs ! e) (xh ! (flat_tokens ids ! j))))" for e j
  have N: "length local = N" by (simp add: local map_topk_slots N_def)
  have "slices_from (slice_rows ops limit packs xh) P
      (map (\<lambda>j. flat_tokens ids ! j) order) (map (\<lambda>j. map r (concat weights) ! j) order) 0 0
      (map (count_list local) [0 ..< n])
    = concat (map (\<lambda>e. if P (count_list local e) then map (F e) (filter (\<lambda>j. local ! j = e) order) else []) [0 ..< n])"
    unfolding slices_from_def length_map length_upt
    by (rule arg_cong[of _ _ concat], rule map_cong)
      (simp_all add: take_map expert_slice[OF order] slice_rows_def F_def zip_map1 zip_map2 zip_same_conv_map o_def not_le)
  also have "\<dots> = concat (map (\<lambda>e. map (F e) (filter (\<lambda>j. local ! j = e) order)) (filter (\<lambda>e. P (count_list local e)) [0 ..< n]))"
    by (rule concat_map_if)
  finally have "mset (slices_from (slice_rows ops limit packs xh) P
      (map (\<lambda>j. flat_tokens ids ! j) order) (map (\<lambda>j. map r (concat weights) ! j) order) 0 0
      (map (count_list local) [0 ..< n]))
    = mset (map (\<lambda>j. F (local ! j) j) (filter (\<lambda>j. local ! j \<in> set (filter (\<lambda>e. P (count_list local e)) [0 ..< n])) order))"
    by (simp only: mset_by_key distinct_filter distinct_upt)
  also have "\<dots> = mset (map (\<lambda>j. F (local ! j) j) (filter (\<lambda>j. local ! j < n \<and> P (count_list local (local ! j))) [0 ..< N]))"
    using order by (simp add: is_argsort_def N mset_filter del: mset_upt)
  also have "\<dots> = mset (routed_pairs ops limit packs emap x2d ids (map (map r) weights) (\<lambda>e. P (count_list local e)))"
  proof -
    have slots: "slots ids ! j \<in> set (slots ids)" if "j < N" for j using that by (simp add: N_def)
    have local_j: "local ! j = slot_expert emap n ids (slots ids ! j)" if "j < N" for j
      using that by (simp add: local map_topk_slots N_def n_def)
    have F_j: "F e j = slot_pair ops limit packs x2d (map (map r) weights) e (slots ids ! j)" if "j < N" for e j
    proof -
      obtain t k where tk: "slots ids ! j = (t, k)" by fastforce
      then have t: "t < length ids" "k < length (ids ! t)" using slots[OF that] by (simp_all add: set_slots)
      have len: "length weights = length ids" using shape by (rule map_eq_imp_length_eq)
      have k: "k < length (weights ! t)" using arg_cong[OF shape, of "\<lambda>l. l ! t"] t len by simp
      have "concat weights = map (\<lambda>tk. weights ! fst tk ! snd tk) (slots ids)"
        by (subst concat_slots) (simp add: slots_cong[OF shape])
      then have "map r (concat weights) ! j = map (map r) weights ! t ! k"
        using that t k len by (simp add: N_def tk)
      then show ?thesis
        using that t k len tokens by (simp add: F_def slot_pair_def flat_tokens_def N_def tk xh)
    qed
    have "routed_pairs ops limit packs emap x2d ids (map (map r) weights) (\<lambda>e. P (count_list local e))
        = map (\<lambda>j. slot_pair ops limit packs x2d (map (map r) weights) (slot_expert emap n ids (slots ids ! j)) (slots ids ! j))
            (filter (\<lambda>j. slot_expert emap n ids (slots ids ! j) < n \<and> P (count_list local (slot_expert emap n ids (slots ids ! j)))) [0 ..< N])"
      unfolding routed_pairs_def n_def[symmetric] N_def
      by (rule map_filter_nth)
    then show ?thesis by (simp only:) (rule mset_filter_map_cong; simp add: local_j F_j)
  qed
  finally show ?thesis by (simp add: n_def)
qed

end
