(* ===== verification/Expert_Tables.thy ===== *)
theory Expert_Tables
  imports Expert_Routing
begin

text \<open>
  The device-side tables of the grouped kernels and of the row tiles (\<open>build_grouped_fat_tables\<close> and
  \<open>_exl3_moe_row_tiles\<close> of \<open>overlay/exl3.py\<close>): which row of which expert each position of a buffer holds,
  found by searching cumulative sums. The numbers are natural: no subtraction of the tables goes
  below zero (\<open>locate_offset\<close>), except where the code clamps it at zero, as \<open>nat\<close> does.
\<close>

subsection \<open>Cumulative sums and the search in them\<close>

definition inclusive_sums :: "nat list \<Rightarrow> nat list" where
  "inclusive_sums xs = map (\<lambda>i. sum_list (take (Suc i) xs)) [0 ..< length xs]"

definition excl_cumsum :: "nat list \<Rightarrow> nat list \<times> nat list" where
  "excl_cumsum xs = (map2 (-) (inclusive_sums xs) xs, inclusive_sums xs)"

text \<open>\<open>torch.searchsorted(cum, v, right=True)\<close> on an ascending sequence.\<close>

definition searchsorted_right :: "nat list \<Rightarrow> nat \<Rightarrow> nat" where
  "searchsorted_right cum v = length (takeWhile (\<lambda>c. c \<le> v) cum)"

subsection \<open>The tables of the grouped kernels\<close>

record 'v fat_tables =
  seg_expert :: "nat list"
  seg_row0 :: "nat list"
  seg_rows :: "nat list"
  num_segs :: nat
  num_rows :: nat
  row_expert :: "nat list"
  row_token :: "nat list"
  row_weight :: "'v list"

definition build_grouped_fat_tables ::
    "nat list \<Rightarrow> nat \<Rightarrow> nat list \<Rightarrow> 'v list \<Rightarrow> nat \<Rightarrow> nat \<Rightarrow> 'v fat_tables" where
  "build_grouped_fat_tables counts cap token_sorted weight_sorted rows_cap tile_rows =
     (let n_exp = length counts;
          fat_rows = map (\<lambda>c. if cap < c then c else 0) counts;
          (row_off, row_cum) = excl_cumsum fat_rows;
          (sorted_off, _) = excl_cumsum counts;
          tiles = map (\<lambda>f. (f + (tile_rows - 1)) div tile_rows) fat_rows;
          (tile_off, tile_cum) = excl_cumsum tiles;
          max_segs = (rows_cap + tile_rows - 1) div tile_rows + n_exp;
          e = map (\<lambda>s. min (searchsorted_right tile_cum s) (n_exp - 1)) [0 ..< max_segs];
          local_tile = map (\<lambda>s. s - tile_off ! (e ! s)) [0 ..< max_segs];
          re = map (\<lambda>r. min (searchsorted_right row_cum r) (n_exp - 1)) [0 ..< rows_cap];
          src = map (\<lambda>r. min (sorted_off ! (re ! r) + (r - row_off ! (re ! r))) (rows_cap - 1)) [0 ..< rows_cap]
      in \<lparr>seg_expert = e,
          seg_row0 = map (\<lambda>s. row_off ! (e ! s) + local_tile ! s * tile_rows) [0 ..< max_segs],
          seg_rows = map (\<lambda>s. min (fat_rows ! (e ! s) - local_tile ! s * tile_rows) tile_rows) [0 ..< max_segs],
          num_segs = last tile_cum,
          num_rows = last row_cum,
          row_expert = re,
          row_token = map (\<lambda>j. token_sorted ! j) src,
          row_weight = map (\<lambda>j. weight_sorted ! j) src\<rparr>)"

subsection \<open>Locating a position\<close>

text \<open>The run of a list of run lengths that a position falls in.\<close>

definition locate :: "nat list \<Rightarrow> nat \<Rightarrow> nat" where
  "locate lens r = searchsorted_right (inclusive_sums lens) r"

lemma length_inclusive_sums [simp]: "length (inclusive_sums xs) = length xs"
  by (simp add: inclusive_sums_def)

lemma inclusive_sums_Cons: "inclusive_sums (x # xs) = x # map ((+) x) (inclusive_sums xs)"
  by (simp add: inclusive_sums_def upt_conv_Cons map_Suc_upt[symmetric] o_def del: upt_Suc)

lemma inclusive_sums_nth: "i < length xs \<Longrightarrow> inclusive_sums xs ! i = sum_list (take (Suc i) xs)"
  by (simp add: inclusive_sums_def)

lemma last_inclusive_sums: "xs \<noteq> [] \<Longrightarrow> last (inclusive_sums xs) = sum_list xs"
  by (simp add: last_conv_nth inclusive_sums_nth flip: length_greater_0_conv)

lemma excl_offset: "i < length xs \<Longrightarrow> fst (excl_cumsum xs) ! i = sum_list (take i xs)"
  by (simp add: excl_cumsum_def inclusive_sums_nth take_Suc_conv_app_nth)

lemma snd_excl_cumsum [simp]: "snd (excl_cumsum xs) = inclusive_sums xs"
  by (simp add: excl_cumsum_def)

lemma locate_Cons: "locate (x # xs) r = (if r < x then 0 else Suc (locate xs (r - x)))"
proof -
  have "takeWhile (\<lambda>c. c \<le> r) (map ((+) x) (inclusive_sums xs)) = map ((+) x) (takeWhile (\<lambda>c. c \<le> r - x) (inclusive_sums xs))"
    if "x \<le> r"
    using that by (simp add: takeWhile_map o_def le_diff_conv2 add.commute)
  then show ?thesis by (auto simp: locate_def searchsorted_right_def inclusive_sums_Cons)
qed

lemma locate_less: "r < sum_list lens \<Longrightarrow> locate lens r < length lens"
proof (induction lens arbitrary: r)
  case (Cons x xs)
  then show ?case by (auto simp: locate_Cons)
qed simp

lemma locate_offset:
  "r < sum_list lens \<Longrightarrow> sum_list (take (locate lens r) lens) \<le> r \<and> r < sum_list (take (locate lens r) lens) + lens ! locate lens r"
proof (induction lens arbitrary: r)
  case (Cons x xs)
  show ?case
  proof (cases "r < x")
    case False
    then have "r - x < sum_list xs" using Cons.prems by simp
    from Cons.IH[OF this] show ?thesis using False by (simp add: locate_Cons) linarith
  qed (simp add: locate_Cons)
qed simp

text \<open>Reading all positions in order goes through the runs in order.\<close>

lemma locate_expand:
  "map (\<lambda>r. h (locate lens r) (r - sum_list (take (locate lens r) lens))) [0 ..< sum_list lens]
    = concat (map (\<lambda>e. map (h e) [0 ..< lens ! e]) [0 ..< length lens])"
proof (induction lens arbitrary: h)
  case (Cons x xs)
  let ?f = "\<lambda>r. h (locate (x # xs) r) (r - sum_list (take (locate (x # xs) r) (x # xs)))"
  have "map ?f [0 ..< x + sum_list xs] = map ?f [0 ..< x] @ map ?f [x ..< x + sum_list xs]"
    using upt_add_eq_append[of 0 x "sum_list xs"] by (simp only: map_append zero_le)
  also have "map ?f [0 ..< x] = map (h 0) [0 ..< x]"
    by (rule map_cong) (simp_all add: locate_Cons)
  also have "[x ..< x + sum_list xs] = map (\<lambda>r. r + x) [0 ..< sum_list xs]"
    by (simp add: map_add_upt add.commute)
  also have "map ?f (map (\<lambda>r. r + x) [0 ..< sum_list xs])
      = map (\<lambda>r. h (Suc (locate xs r)) (r - sum_list (take (locate xs r) xs))) [0 ..< sum_list xs]"
    by (simp add: locate_Cons)
  also have "\<dots> = concat (map (\<lambda>e. map (h (Suc e)) [0 ..< xs ! e]) [0 ..< length xs])"
    by (rule Cons.IH)
  finally show ?case
    by (simp add: upt_conv_Cons map_Suc_upt[symmetric] o_def del: upt_Suc)
qed simp

text \<open>The tiles of one run cover it.\<close>

lemma tiles_cover:
  assumes "0 < t"
  shows "concat (map (\<lambda>l. map g [b + l * t ..< b + l * t + min (f - l * t) t]) [0 ..< (f + (t - 1)) div t]) = map g [b ..< b + f]"
  using assms
proof (induction f arbitrary: b rule: less_induct)
  case (less f)
  show ?case
  proof (cases "f \<le> t")
    case True
    then have "(f + (t - 1)) div t = (if f = 0 then 0 else 1)"
      using less.prems by (auto simp: div_nat_eqI)
    then show ?thesis using True by simp
  next
    case False
    define k where "k = (f - t + (t - 1)) div t"
    have split: "f + (t - 1) = f - t + (t - 1) + t" using False by simp
    have k: "(f + (t - 1)) div t = Suc k"
      unfolding split k_def using less.prems by (subst div_add_self2) simp_all
    have "concat (map (\<lambda>l. map g [b + l * t ..< b + l * t + min (f - l * t) t]) [0 ..< Suc k])
        = map g [b ..< b + t] @ concat (map (\<lambda>l. map g [b + t + l * t ..< b + t + l * t + min (f - t - l * t) t]) [0 ..< k])"
    proof -
      have u: "[0 ..< Suc k] = 0 # map Suc [0 ..< k]"
        by (simp only: map_Suc_upt upt_conv_Cons[OF zero_less_Suc])
      have "[b + Suc l * t ..< b + Suc l * t + min (f - Suc l * t) t]
          = [b + t + l * t ..< b + t + l * t + min (f - t - l * t) t]" for l
        by (simp add: ac_simps)
      moreover have "min f t = t" using False by simp
      ultimately show ?thesis by (simp only: u list.map concat.simps map_map o_def mult_0 add_0_right diff_zero)
    qed
    also have "\<dots> = map g [b ..< b + t] @ map g [b + t ..< b + t + (f - t)]"
      unfolding k_def using False less.prems by (subst less.IH) simp_all
    also have "\<dots> = map g [b ..< b + f]"
    proof -
      have "[b ..< b + f] = [b ..< b + t] @ [b + t ..< b + f]"
        using False upt_add_eq_append[of b "b + t" "f - t"] by simp
      then show ?thesis using False by simp
    qed
    finally show ?thesis by (simp only: k)
  qed
qed

subsection \<open>The tables list the fat rows\<close>

definition fat_rows_of :: "nat \<Rightarrow> nat list \<Rightarrow> nat list" where
  "fat_rows_of cap counts = map (\<lambda>c. if cap < c then c else 0) counts"

text \<open>The positions of the fat-row buffer: expert, token and weight, slice by slice of the sorted buffers.\<close>

definition fat_listing :: "nat \<Rightarrow> nat list \<Rightarrow> nat list \<Rightarrow> 'v list \<Rightarrow> (nat \<times> nat \<times> 'v) list" where
  "fat_listing cap counts ts ws =
     concat (map (\<lambda>e. if counts ! e \<le> cap then []
         else map2 (\<lambda>t w. (e, t, w)) (take (counts ! e) (drop (sum_list (take e counts)) ts))
                (take (counts ! e) (drop (sum_list (take e counts)) ws)))
       [0 ..< length counts])"

lemma length_fat_rows [simp]: "length (fat_rows_of cap counts) = length counts"
  by (simp add: fat_rows_of_def)

lemma fat_rows_nth: "e < length counts \<Longrightarrow> fat_rows_of cap counts ! e = (if cap < counts ! e then counts ! e else 0)"
  by (simp add: fat_rows_of_def)

lemma sum_fat_rows_le: "sum_list (fat_rows_of cap counts) \<le> sum_list counts"
  unfolding fat_rows_of_def by (induction counts) auto

lemma min_locate: "r < sum_list lens \<Longrightarrow> min (locate lens r) (length lens - 1) = locate lens r"
  using locate_less[of r lens] by simp

lemma sum_take_bound: "e < length counts \<Longrightarrow> sum_list (take e counts) + counts ! e \<le> sum_list (counts :: nat list)"
proof -
  assume "e < length counts"
  then have "sum_list (take (Suc e) counts) + sum_list (drop (Suc e) counts) = sum_list counts"
    by (metis append_take_drop_id sum_list_append)
  with \<open>e < length counts\<close> show ?thesis by (simp add: take_Suc_conv_app_nth)
qed

lemma slice_as_map:
  "b + n \<le> length xs \<Longrightarrow> take n (drop b xs) = map (\<lambda>i. xs ! (b + i)) [0 ..< n]"
  by (rule nth_equalityI) simp_all

lemma sum_tiles_le: "0 < t \<Longrightarrow> sum_list (map (\<lambda>f. (f + (t - 1)) div t) fs) \<le> sum_list fs div t + length fs"
proof (induction fs)
  case (Cons f fs)
  have "(f + (t - 1)) div t \<le> (f + t) div t" using Cons.prems by (intro div_le_mono) simp
  also have "\<dots> = f div t + 1" using Cons.prems by (simp add: div_add_self2)
  finally have "(f + (t - 1)) div t \<le> f div t + 1" .
  moreover have "f div t + sum_list fs div t \<le> (f + sum_list fs) div t"
    by (simp add: div_add1_eq[of f "sum_list fs" t])
  ultimately show ?case using Cons by simp
qed simp

text \<open>The fields of the tables at their live positions.\<close>

lemma table_fields:
  fixes ws :: "'v list" and counts ts :: "nat list" and cap tile_rows rows_cap s r :: nat
  assumes "counts \<noteq> []"
  defines "fat \<equiv> fat_rows_of cap counts"
  defines "tiles \<equiv> map (\<lambda>f. (f + (tile_rows - 1)) div tile_rows) fat"
  defines "T \<equiv> build_grouped_fat_tables counts cap ts ws rows_cap tile_rows"
  shows "num_rows T = sum_list fat" and "num_segs T = sum_list tiles"
    and "length (seg_expert T) = (rows_cap + tile_rows - 1) div tile_rows + length counts"
    and "s < length (seg_expert T) \<Longrightarrow> s < sum_list tiles \<Longrightarrow> seg_expert T ! s = locate tiles s \<and>
        seg_row0 T ! s = sum_list (take (locate tiles s) fat) + (s - sum_list (take (locate tiles s) tiles)) * tile_rows \<and>
        seg_rows T ! s = min (fat ! locate tiles s - (s - sum_list (take (locate tiles s) tiles)) * tile_rows) tile_rows"
    and "r < rows_cap \<Longrightarrow> r < sum_list fat \<Longrightarrow> row_expert T ! r = locate fat r \<and>
        row_token T ! r = ts ! min (sum_list (take (locate fat r) counts) + (r - sum_list (take (locate fat r) fat))) (rows_cap - 1) \<and>
        row_weight T ! r = ws ! min (sum_list (take (locate fat r) counts) + (r - sum_list (take (locate fat r) fat))) (rows_cap - 1)"
proof -
  have nonempty: "fat \<noteq> []" "tiles \<noteq> []" using assms(1) by (simp_all add: fat_def tiles_def fat_rows_of_def)
  have len: "length counts = length fat" "length counts = length tiles" by (simp_all add: fat_def tiles_def)
  note unfold = T_def build_grouped_fat_tables_def Let_def case_prod_beta fat_rows_of_def[symmetric] fat_def[symmetric]
    tiles_def[symmetric] snd_excl_cumsum locate_def[symmetric]
  show "num_rows T = sum_list fat" and "num_segs T = sum_list tiles"
    and "length (seg_expert T) = (rows_cap + tile_rows - 1) div tile_rows + length counts"
    unfolding unfold using nonempty by (simp_all add: last_inclusive_sums)
  show "seg_expert T ! s = locate tiles s \<and>
        seg_row0 T ! s = sum_list (take (locate tiles s) fat) + (s - sum_list (take (locate tiles s) tiles)) * tile_rows \<and>
        seg_rows T ! s = min (fat ! locate tiles s - (s - sum_list (take (locate tiles s) tiles)) * tile_rows) tile_rows"
    if "s < length (seg_expert T)" "s < sum_list tiles"
    using that locate_less[OF that(2)] min_locate[OF that(2)] unfolding unfold
    by (simp add: excl_offset len flip: len(2))
  show "row_expert T ! r = locate fat r \<and>
        row_token T ! r = ts ! min (sum_list (take (locate fat r) counts) + (r - sum_list (take (locate fat r) fat))) (rows_cap - 1) \<and>
        row_weight T ! r = ws ! min (sum_list (take (locate fat r) counts) + (r - sum_list (take (locate fat r) fat))) (rows_cap - 1)"
    if "r < rows_cap" "r < sum_list fat"
    using that locate_less[OF that(2)] min_locate[OF that(2)] unfolding unfold
    by (simp add: excl_offset len)
qed

text \<open>
  The tables for buffers of \<open>rows_cap\<close> entries that hold all counted slots: the live rows are the slices
  of the fat experts back to back, and the live segments cut them into tiles of one expert each.
\<close>

lemma table_rows_listing:
  fixes ws :: "'v list" and counts ts :: "nat list" and cap tile_rows rows_cap :: nat
  assumes counts: "counts \<noteq> []"
    and ts: "length ts = rows_cap" and ws: "length ws = rows_cap" and fits: "sum_list counts \<le> rows_cap"
  defines "T \<equiv> build_grouped_fat_tables counts cap ts ws rows_cap tile_rows"
  shows "num_rows T \<le> rows_cap"
    and "map (\<lambda>r. (row_expert T ! r, row_token T ! r, row_weight T ! r)) [0 ..< num_rows T] = fat_listing cap counts ts ws"
proof -
  define fat where "fat = fat_rows_of cap counts"
  define H where "H e i = (e, ts ! (sum_list (take e counts) + i), ws ! (sum_list (take e counts) + i))" for e i
  have len: "length fat = length counts" by (simp add: fat_def)
  note fields = table_fields[OF counts, where cap = cap and tile_rows = tile_rows and ts = ts and ws = ws and rows_cap = rows_cap, folded T_def fat_def]
  have total: "sum_list fat \<le> rows_cap" using sum_fat_rows_le[of cap counts] fits by (simp add: fat_def)
  then show "num_rows T \<le> rows_cap" by (simp add: fields(1))
  have "map (\<lambda>r. (row_expert T ! r, row_token T ! r, row_weight T ! r)) [0 ..< num_rows T]
      = map (\<lambda>r. H (locate fat r) (r - sum_list (take (locate fat r) fat))) [0 ..< sum_list fat]"
    unfolding fields(1)
  proof (rule map_cong[OF refl])
    fix r assume "r \<in> set [0 ..< sum_list fat]"
    then have r: "r < sum_list fat" "r < rows_cap" using total by auto
    define e where "e = locate fat r"
    have e: "e < length counts" using locate_less[OF r(1)] by (simp add: e_def len)
    have off: "sum_list (take e fat) \<le> r" "r < sum_list (take e fat) + fat ! e"
      using locate_offset[OF r(1)] by (simp_all add: e_def)
    then have "fat ! e = counts ! e" using e by (auto simp: fat_def fat_rows_nth split: if_splits)
    then have "sum_list (take e counts) + (r - sum_list (take e fat)) < rows_cap"
      using off sum_take_bound[OF e] fits by linarith
    then show "(row_expert T ! r, row_token T ! r, row_weight T ! r) = H (locate fat r) (r - sum_list (take (locate fat r) fat))"
      using fields(5)[OF r(2,1)] by (simp add: H_def flip: e_def)
  qed
  also have "\<dots> = concat (map (\<lambda>e. map (H e) [0 ..< fat ! e]) [0 ..< length fat])"
    by (rule locate_expand)
  also have "\<dots> = fat_listing cap counts ts ws"
    unfolding fat_listing_def len
  proof (rule arg_cong[of _ _ concat], rule map_cong[OF refl])
    fix e assume "e \<in> set [0 ..< length counts]"
    then have e: "e < length counts" by simp
    have "sum_list (take e counts) + counts ! e \<le> rows_cap" using sum_take_bound[OF e] fits by linarith
    then show "map (H e) [0 ..< fat ! e] = (if counts ! e \<le> cap then []
         else map2 (\<lambda>t w. (e, t, w)) (take (counts ! e) (drop (sum_list (take e counts)) ts))
                (take (counts ! e) (drop (sum_list (take e counts)) ws)))"
      using e by (simp add: fat_def fat_rows_nth slice_as_map ts ws H_def zip_map1 zip_map2 zip_same_conv_map o_def)
  qed
  finally show "map (\<lambda>r. (row_expert T ! r, row_token T ! r, row_weight T ! r)) [0 ..< num_rows T] = fat_listing cap counts ts ws" .
qed

lemma concat_twice: "concat (concat xs) = concat (map concat xs)"
  by (induction xs) simp_all

lemma table_segments:
  fixes ws :: "'v list" and counts ts :: "nat list" and cap tile_rows rows_cap :: nat
  assumes counts: "counts \<noteq> []" and tile: "0 < tile_rows" and fits: "sum_list counts \<le> rows_cap"
  defines "T \<equiv> build_grouped_fat_tables counts cap ts ws rows_cap tile_rows"
  shows "num_segs T \<le> length (seg_expert T)"
    and "s < num_segs T \<Longrightarrow> seg_rows T ! s \<le> tile_rows"
    and "concat (map (\<lambda>s. map (\<lambda>r. (seg_expert T ! s, r)) [seg_row0 T ! s ..< seg_row0 T ! s + seg_rows T ! s]) [0 ..< num_segs T])
      = map (\<lambda>r. (row_expert T ! r, r)) [0 ..< num_rows T]"
proof -
  define fat where "fat = fat_rows_of cap counts"
  define tiles where "tiles = map (\<lambda>f. (f + (tile_rows - 1)) div tile_rows) fat"
  define off where "off e = sum_list (take e fat)" for e
  define K where "K e l = map (\<lambda>r. (e, r)) [off e + l * tile_rows ..< off e + l * tile_rows + min (fat ! e - l * tile_rows) tile_rows]" for e l
  note fields = table_fields[OF counts, where cap = cap and tile_rows = tile_rows and ts = ts and ws = ws and rows_cap = rows_cap, folded T_def fat_def, folded tiles_def]
  have total: "sum_list fat \<le> rows_cap" using sum_fat_rows_le[of cap counts] fits by (simp add: fat_def)
  have lenf: "length fat = length counts" by (simp add: fat_def)
  have "sum_list tiles \<le> sum_list fat div tile_rows + length fat"
    unfolding tiles_def by (rule sum_tiles_le[OF tile])
  also have "sum_list fat div tile_rows \<le> (rows_cap + tile_rows - 1) div tile_rows"
    using total tile by (intro div_le_mono) simp
  finally show segs: "num_segs T \<le> length (seg_expert T)" by (simp add: fields(2,3) lenf)
  have seg: "seg_expert T ! s = locate tiles s" "seg_row0 T ! s = off (locate tiles s) + (s - sum_list (take (locate tiles s) tiles)) * tile_rows"
    "seg_rows T ! s = min (fat ! locate tiles s - (s - sum_list (take (locate tiles s) tiles)) * tile_rows) tile_rows"
    if "s < sum_list tiles" for s
    using fields(4)[of s] that segs by (simp_all add: fields(2) off_def)
  show "seg_rows T ! s \<le> tile_rows" if "s < num_segs T" for s
    using seg(3)[of s] that by (simp add: fields(2))
  have "concat (map (\<lambda>s. map (\<lambda>r. (seg_expert T ! s, r)) [seg_row0 T ! s ..< seg_row0 T ! s + seg_rows T ! s]) [0 ..< num_segs T])
      = concat (map (\<lambda>s. K (locate tiles s) (s - sum_list (take (locate tiles s) tiles))) [0 ..< sum_list tiles])"
    unfolding fields(2) by (rule arg_cong[of _ _ concat], rule map_cong) (simp_all add: seg K_def)
  also have "\<dots> = concat (map (\<lambda>e. concat (map (K e) [0 ..< tiles ! e])) [0 ..< length tiles])"
    unfolding locate_expand concat_twice by (simp add: o_def)
  also have "\<dots> = concat (map (\<lambda>e. map (\<lambda>i. (e, off e + i)) [0 ..< fat ! e]) [0 ..< length fat])"
  proof (rule arg_cong[of _ _ concat], rule map_cong)
    fix e assume "e \<in> set [0 ..< length fat]"
    then have "tiles ! e = (fat ! e + (tile_rows - 1)) div tile_rows" by (simp add: tiles_def)
    then have "concat (map (K e) [0 ..< tiles ! e]) = map (Pair e) [off e ..< off e + fat ! e]"
      unfolding K_def by (simp only: tiles_cover[OF tile])
    also have "[off e ..< off e + fat ! e] = map (\<lambda>i. off e + i) [0 ..< fat ! e]"
      by (simp add: map_add_upt add.commute)
    finally show "concat (map (K e) [0 ..< tiles ! e]) = map (\<lambda>i. (e, off e + i)) [0 ..< fat ! e]"
      by (simp add: o_def)
  qed (simp add: tiles_def)
  also have "\<dots> = map (\<lambda>r. (locate fat r, off (locate fat r) + (r - sum_list (take (locate fat r) fat)))) [0 ..< sum_list fat]"
    by (rule locate_expand[symmetric, of "\<lambda>e i. (e, off e + i)"])
  also have "\<dots> = map (\<lambda>r. (row_expert T ! r, r)) [0 ..< num_rows T]"
    unfolding fields(1) using total
    by (intro map_cong refl) (auto simp: fields(5) off_def dest: locate_offset)
  finally show "concat (map (\<lambda>s. map (\<lambda>r. (seg_expert T ! s, r)) [seg_row0 T ! s ..< seg_row0 T ! s + seg_rows T ! s]) [0 ..< num_segs T])
      = map (\<lambda>r. (row_expert T ! r, r)) [0 ..< num_rows T]" .
qed

end
