(* ===== verification/Expert_Apply.thy ===== *)
theory Expert_Apply
  imports Expert_Tables
begin

text \<open>
  Running the routed experts of a layer (\<open>apply_exl3_fused_moe\<close> and what it calls in \<open>overlay/exl3.py\<close>): the
  fused kernel for the experts whose rows fit its buffers, and for the others the row tiles or one of
  the tiers of \<open>Expert_Tiers\<close>.
\<close>

subsection \<open>Scratch buffers\<close>

fun bit_length :: "nat \<Rightarrow> nat" where
  "bit_length n = (if n = 0 then 0 else bit_length (n div 2) + 1)"

declare bit_length.simps [simp del]

text \<open>\<open>int(os.environ.get("EXL3_FAT_SCRATCH_ROWS", os.environ.get("MAX_NUM_BATCHED_TOKENS", "0")) or 0)\<close>.\<close>

definition or_zero :: "string \<Rightarrow> string \<Rightarrow> int res" where
  "or_zero default_value s = (if s = [] then py_int default_value else py_int s)"

definition configured_rows :: "env \<Rightarrow> int res" where
  "configured_rows env = or_zero ''0'' (env_or env ''EXL3_FAT_SCRATCH_ROWS'' (env_or env ''MAX_NUM_BATCHED_TOKENS'' ''0''))"

text \<open>
  \<open>_fat_scratch\<close>: the entry of the cache, or a new one of a power of two rows. Its buffers are written
  before they are read, so only their sizes are kept.
\<close>

definition tile_shape :: "'t list list list \<Rightarrow> int \<times> int \<times> int" where
  "tile_shape t = (int (length t), int (length (hd t)), int (length (hd (hd t))))"

definition fat_scratch_size :: "int \<Rightarrow> int \<Rightarrow> int \<times> int \<times> int \<Rightarrow> int \<Rightarrow> int" where
  "fat_scratch_size hidden width shape rows =
     (case shape of (in_tiles, out_tiles, words) \<Rightarrow>
        2 * (in_tiles * (2 * out_tiles) * words) + 2 * (2 * width) + 2 * (hidden * (2 * width)) + 2 * (width * hidden)
        + 2 * (rows * hidden) + 2 * (rows * hidden) + 4 * (rows * (2 * width)) + 4 * (rows * width)
        + 2 * (rows * width) + 2 * (rows * width) + 4 * (rows * hidden))"

definition fat_scratch :: "env \<Rightarrow> gpu \<Rightarrow> int \<Rightarrow> ('t, 'v) exl3_linear \<Rightarrow> fat_state \<Rightarrow> (scratch \<times> fat_state) res" where
  "fat_scratch env dev rows g st =
     rbind (configured_rows env) (\<lambda>configured.
     let needed = max 256 (max rows configured);
         capacity = 2 ^ bit_length (nat (needed - 1));
         shape = tile_shape (trellis g);
         key = (dev, in_features g, out_features g, codes_K g, snd (snd shape))
     in case map_of (fat_scratch_cache st) key of
          Some s \<Rightarrow> if rows \<le> scratch_rows s then Inr (s, st) else
            (let s = \<lparr>scratch_rows = capacity, scratch_bytes = fat_scratch_size (in_features g) (out_features g) shape capacity\<rparr>;
                 cache = dict_set key s (fat_scratch_cache st);
                 bytes = sum_list (map (scratch_bytes \<circ> snd) cache)
             in Inr (s, st\<lparr>fat_scratch_cache := cache, fat_scratch_allocs := fat_scratch_allocs st + 1,
                  fat_scratch_bytes := bytes, fat_scratch_peak_bytes := max (fat_scratch_peak_bytes st) bytes\<rparr>))
        | None \<Rightarrow>
            (let s = \<lparr>scratch_rows = capacity, scratch_bytes = fat_scratch_size (in_features g) (out_features g) shape capacity\<rparr>;
                 cache = dict_set key s (fat_scratch_cache st);
                 bytes = sum_list (map (scratch_bytes \<circ> snd) cache)
             in Inr (s, st\<lparr>fat_scratch_cache := cache, fat_scratch_allocs := fat_scratch_allocs st + 1,
                  fat_scratch_bytes := bytes, fat_scratch_peak_bytes := max (fat_scratch_peak_bytes st) bytes\<rparr>)))"

text \<open>\<open>_grouped_scratch\<close>; it cannot grow while a CUDA graph is captured.\<close>

definition grouped_scratch :: "env \<Rightarrow> image \<Rightarrow> gpu \<Rightarrow> int \<Rightarrow> int \<Rightarrow> int \<Rightarrow> fat_state \<Rightarrow> (scratch \<times> fat_state) res" where
  "grouped_scratch env img dev rows hidden width st =
     rbind (configured_rows env) (\<lambda>configured.
     rbind (or_zero ''8'' (env_or env ''EXL3_FAT_GROUPED_TOPK'' ''8'')) (\<lambda>topk.
     let needed = max 256 rows;
         key = (dev, hidden, width);
         capacity = max needed (configured * topk);
         s = \<lparr>scratch_rows = capacity, scratch_bytes = 2 * (capacity * hidden) + 2 * (capacity * width)\<rparr>;
         cache = dict_set key s (grouped_scratch_cache st);
         grown = (if stream_capturing img then Inl RuntimeError
           else Inr (s, st\<lparr>grouped_scratch_cache := cache,
             grouped_scratch_bytes := sum_list (map (scratch_bytes \<circ> snd) cache)\<rparr>))
     in case map_of (grouped_scratch_cache st) key of
          Some s \<Rightarrow> if needed \<le> scratch_rows s then Inr (s, st) else grown
        | None \<Rightarrow> grown))"

subsection \<open>Batched experts\<close>

text \<open>The fat GEMM of \<open>exl3_fat_gemm.cu\<close>: it takes K4/MCG codes only, and whole blocks of 128 columns.\<close>

definition fat_gemm_accepts :: "'t list list list \<Rightarrow> 'v list \<Rightarrow> int \<Rightarrow> bool \<Rightarrow> bool \<Rightarrow> bool" where
  "fat_gemm_accepts packed scales K mcg mul1 \<longleftrightarrow>
     K = 4 \<and> mcg \<and> \<not> mul1 \<and> length scales mod 128 = 0 \<and> snd (snd (tile_shape packed)) = 64"

definition linear_row ::
    "('t, 'v) torch_ops \<Rightarrow> 't list list list \<Rightarrow> 'v list \<Rightarrow> int \<Rightarrow> bool \<Rightarrow> bool \<Rightarrow> 'v list \<Rightarrow> 'v list" where
  "linear_row ops packed scales K mcg mul1 h = had_out ops scales (hgemm ops h (reconstruct ops packed K mcg mul1))"

definition packed13 :: "('t, 'v) expert_pack \<Rightarrow> 't list list list" where
  "packed13 p = map2 (@) (trellis (gate p)) (trellis (up p))"

definition svh13 :: "('t, 'v) expert_pack \<Rightarrow> 'v list" where
  "svh13 p = svh (gate p) @ svh (up p)"

text \<open>One row: gate and up from one product with the joined codes, the activation, down.\<close>

definition swiglu_row :: "('t, 'v::linordered_idom) torch_ops \<Rightarrow> 'v \<Rightarrow> 'v list \<Rightarrow> 'v list \<Rightarrow> 'v list" where
  "swiglu_row ops limit g u =
     (let g = map (clamp_max limit) g; u = map (clamp (- limit) limit) u
      in map2 (*) (map2 (*) (map (sigmoid ops) g) g) u)"

definition batched_row ::
    "('t, 'v::linordered_idom) torch_ops \<Rightarrow> 'v \<Rightarrow> ('t, 'v) expert_pack \<Rightarrow> 'v list \<Rightarrow> 'v list" where
  "batched_row ops limit p h =
     (let h13 = had_in ops (suh (gate p)) h;
          width = nat (out_features (gate p));
          gate_up = linear_row ops (packed13 p) (svh13 p) (codes_K (gate p)) (is_mcg (gate p)) (is_mul1 (gate p)) h13;
          act = swiglu_row ops limit (take width gate_up) (drop width gate_up);
          h2 = had_in ops (suh (down p)) (half_row ops act)
      in linear_row ops (trellis (down p)) (svh (down p)) (codes_K (down p)) (is_mcg (down p)) (is_mul1 (down p)) h2)"

definition batched_pairs ::
    "('t, 'v::linordered_idom) torch_ops \<Rightarrow> 'v \<Rightarrow> ('t, 'v) expert_pack list \<Rightarrow> 'v list list \<Rightarrow>
     nat \<Rightarrow> nat list \<Rightarrow> 'v list \<Rightarrow> (nat \<times> 'v list) list" where
  "batched_pairs ops limit packs xh e token_idx scale =
     map2 (\<lambda>t w. (t, scale_row w (batched_row ops limit (packs ! e) (xh ! t)))) token_idx scale"

text \<open>
  \<open>apply_exl3_batched_fat\<close>; with \<open>use_kernel\<close> the two products are the fat GEMMs, which the extension must
  have and which check the codes they are given.
\<close>

fun batched_loop ::
    "env \<Rightarrow> image \<Rightarrow> ('t, 'v::linordered_idom) torch_ops \<Rightarrow> gpu \<Rightarrow> 'v \<Rightarrow> ('t, 'v) expert_pack list \<Rightarrow> 'v list list \<Rightarrow> bool \<Rightarrow>
     nat \<Rightarrow> nat list \<Rightarrow> 'v list \<Rightarrow> nat \<Rightarrow> nat \<Rightarrow> nat list \<Rightarrow> 'v list list \<Rightarrow> fat_state \<Rightarrow> (fat_state, 'v list list) outcome" where
  "batched_loop env img ops dev limit packs xh use_kernel cap ts ws e offset [] out st = (Inr out, st)"
| "batched_loop env img ops dev limit packs xh use_kernel cap ts ws e offset (n # counts) out st =
     (if n \<le> cap
      then batched_loop env img ops dev limit packs xh use_kernel cap ts ws (e + 1) (offset + n) counts out st
      else
        let st = st\<lparr>fat_expert_runs := fat_expert_runs st + 1\<rparr>; p = packs ! e
        in case fat_scratch env dev (int n) (gate p) st of
             Inl err \<Rightarrow> (Inl err, st)
           | Inr (_, st) \<Rightarrow>
               if use_kernel \<and> \<not> (fst (snd (exl3_fat_symbols img))
                    \<and> fat_gemm_accepts (packed13 p) (svh13 p) (codes_K (gate p)) (is_mcg (gate p)) (is_mul1 (gate p)))
               then (Inl RuntimeError, st)
               else
                 let st = (if use_kernel then st\<lparr>direct_calls := direct_calls st + 1\<rparr> else st)
                 in if use_kernel \<and> \<not> (snd (snd (exl3_fat_symbols img))
                      \<and> fat_gemm_accepts (trellis (down p)) (svh (down p)) (codes_K (down p)) (is_mcg (down p)) (is_mul1 (down p)))
                    then (Inl RuntimeError, st)
                    else
                      let st = (if use_kernel then st\<lparr>scatter_calls := scatter_calls st + 1\<rparr> else st)
                      in batched_loop env img ops dev limit packs xh use_kernel cap ts ws (e + 1) (offset + n) counts
                           (index_add out (batched_pairs ops limit packs xh e (take n (drop offset ts)) (take n (drop offset ws))))
                           st)"

definition apply_exl3_batched_fat ::
    "env \<Rightarrow> image \<Rightarrow> ('t, 'v::linordered_idom) torch_ops \<Rightarrow> gpu \<Rightarrow> 'v list list \<Rightarrow> nat list \<Rightarrow> 'v list \<Rightarrow> nat list \<Rightarrow>
     ('t, 'v) expert_pack list \<Rightarrow> 'v \<Rightarrow> nat \<Rightarrow> 'v list list \<Rightarrow> bool \<Rightarrow> fat_state \<Rightarrow> (fat_state, 'v list list) outcome" where
  "apply_exl3_batched_fat env img ops dev xh ts ws counts packs limit cap out use_kernel st =
     batched_loop env img ops dev limit packs xh use_kernel cap ts ws 0 0 counts out st"

subsection \<open>Grouped experts\<close>

text \<open>
  The three kernels of \<open>exl3_fat_moe.cu\<close>, on the rows their loops visit: the gather fills the live rows of
  its buffer, the other two go through the live segments, at most 64 rows of each.
\<close>

definition tile_rows_gateup :: nat where
  "tile_rows_gateup = 4 * 16"

definition tile_rows_down :: nat where
  "tile_rows_down = 4 * 16"

definition fm_gather ::
    "('t, 'v) torch_ops \<Rightarrow> ('t, 'v) expert_pack list \<Rightarrow> 'v list list \<Rightarrow> 'v fat_tables \<Rightarrow> 'v list list \<Rightarrow> 'v list list" where
  "fm_gather ops packs xh T h13 =
     fold (\<lambda>r h13. h13[r := had_in ops (suh (gate (packs ! (row_expert T ! r)))) (xh ! (row_token T ! r))])
       [0 ..< num_rows T] h13"

definition segment_rows :: "nat \<Rightarrow> 'v fat_tables \<Rightarrow> (nat \<times> nat) list" where
  "segment_rows tile T =
     concat (map (\<lambda>s. map (\<lambda>r. (seg_expert T ! s, r)) [seg_row0 T ! s ..< seg_row0 T ! s + min (seg_rows T ! s) tile])
       [0 ..< num_segs T])"

definition gateup_row ::
    "('t, 'v::linordered_idom) torch_ops \<Rightarrow> 'v \<Rightarrow> ('t, 'v) expert_pack \<Rightarrow> 'v list \<Rightarrow> 'v list" where
  "gateup_row ops limit p v =
     (let g = linear_row ops (trellis (gate p)) (svh (gate p)) 4 True False v;
          u = linear_row ops (trellis (up p)) (svh (up p)) 4 True False v
      in had_in ops (suh (down p)) (half_row ops (swiglu_row ops limit g u)))"

definition fm_gateup ::
    "('t, 'v::linordered_idom) torch_ops \<Rightarrow> 'v \<Rightarrow> ('t, 'v) expert_pack list \<Rightarrow> 'v list list \<Rightarrow> 'v fat_tables \<Rightarrow>
     'v list list \<Rightarrow> 'v list list" where
  "fm_gateup ops limit packs h13 T h2 =
     fold (\<lambda>(e, r) h2. h2[r := gateup_row ops limit (packs ! e) (h13 ! r)]) (segment_rows tile_rows_gateup T) h2"

definition fm_down ::
    "('t, 'v::linordered_idom) torch_ops \<Rightarrow> ('t, 'v) expert_pack list \<Rightarrow> 'v list list \<Rightarrow> 'v fat_tables \<Rightarrow>
     'v list list \<Rightarrow> 'v list list" where
  "fm_down ops packs h2 T out =
     index_add out (map (\<lambda>(e, r). (row_token T ! r, scale_row (row_weight T ! r)
         (linear_row ops (trellis (down (packs ! e))) (svh (down (packs ! e))) 4 True False (h2 ! r))))
       (segment_rows tile_rows_down T))"

text \<open>
  \<open>apply_exl3_grouped_fat\<close>; its buffers come from \<open>torch.empty\<close> and hold nothing yet. The checks that the
  operands are contiguous and of the right type hold of what \<open>apply_exl3_fused_moe\<close> passes.
\<close>

definition apply_exl3_grouped_fat ::
    "env \<Rightarrow> image \<Rightarrow> ('t, 'v::linordered_idom) torch_ops \<Rightarrow> gpu \<Rightarrow> 'v list list \<Rightarrow> 'v list list \<Rightarrow> nat list \<Rightarrow> nat list \<Rightarrow>
     'v list \<Rightarrow> ('t, 'v) moe_layer \<Rightarrow> nat \<Rightarrow> 'v \<Rightarrow> fat_state \<Rightarrow> (fat_state, 'v list list) outcome" where
  "apply_exl3_grouped_fat env img ops x_device xh out counts ts ws layer cap limit st =
     (if load_fat_moe_ext img = None then (Inl RuntimeError, st)
      else if x_device \<noteq> w13_device layer then (Inl RuntimeError, st)
      else
        let hidden = (if xh = [] then 0 else int (length (hd xh)));
            rows_cap = length ts
        in case grouped_scratch env img (w13_device layer) (int rows_cap) hidden (layer_intermediate layer) st of
             Inl err \<Rightarrow> (Inl err, st)
           | Inr (_, st) \<Rightarrow>
               let packs = inners layer;
                   tg = build_grouped_fat_tables counts cap ts ws rows_cap tile_rows_gateup;
                   td = (if tile_rows_down = tile_rows_gateup then tg
                         else build_grouped_fat_tables counts cap ts ws rows_cap tile_rows_down);
                   h13 = fm_gather ops packs xh tg (replicate rows_cap []);
                   h2 = fm_gateup ops limit packs h13 tg (replicate rows_cap [])
               in (Inr (fm_down ops packs h2 td out), st\<lparr>grouped_calls := grouped_calls st + 1\<rparr>))"

subsection \<open>Row tiles\<close>

text \<open>
  \<open>exllamav3_ext.exl3_moe\<close> is an argument: it takes the activations, the output, the counts (the last one
  of the slots of no expert here), the sorted buffers, the rows of its own buffers, the experts its
  pointer tables name and the limit.
\<close>

type_synonym ('t, 'v) moe_kernel =
  "'v list list \<Rightarrow> 'v list list \<Rightarrow> nat list \<Rightarrow> nat list \<Rightarrow> 'v list \<Rightarrow> nat \<Rightarrow> ('t, 'v) expert_pack list \<Rightarrow> 'v \<Rightarrow> 'v list list"

definition row_tile ::
    "('t, 'v) moe_kernel \<Rightarrow> 'v list list \<Rightarrow> nat list \<Rightarrow> nat list \<Rightarrow> 'v list \<Rightarrow> nat \<Rightarrow> ('t, 'v) expert_pack list \<Rightarrow> 'v \<Rightarrow>
     nat \<Rightarrow> 'v list list \<Rightarrow> 'v list list" where
  "row_tile moe xh counts ts ws tile packs limit t out =
     (let row0 = t * tile;
          tile_counts = map (\<lambda>c. min (c - row0) tile) counts;
          n_tile = sum_list tile_counts;
          cum = inclusive_sums tile_counts;
          expert_id = map (searchsorted_right cum) [0 ..< n_tile];
          local_row = map (\<lambda>i. i - (cum ! (expert_id ! i) - tile_counts ! (expert_id ! i))) [0 ..< n_tile];
          src = map (\<lambda>i. fst (excl_cumsum counts) ! (expert_id ! i) + row0 + local_row ! i) [0 ..< n_tile]
      in if n_tile = 0 then out
         else moe xh out (tile_counts @ [0]) (map (\<lambda>j. ts ! j) src) (map (\<lambda>j. ws ! j) src) tile packs limit)"

definition exl3_moe_row_tiles ::
    "('t, 'v) moe_kernel \<Rightarrow> 'v list list \<Rightarrow> 'v list list \<Rightarrow> nat list \<Rightarrow> nat list \<Rightarrow> 'v list \<Rightarrow> nat \<Rightarrow>
     ('t, 'v) expert_pack list \<Rightarrow> 'v \<Rightarrow> nat \<Rightarrow> 'v list list" where
  "exl3_moe_row_tiles moe xh out counts ts ws tile packs limit max_rows =
     fold (row_tile moe xh counts ts ws tile packs limit) [0 ..< (max_rows + tile - 1) div tile] out"

subsection \<open>The fused apply\<close>

definition max_count :: "nat list \<Rightarrow> nat" where
  "max_count counts = foldr max counts 0"

type_synonym ('t, 'v, 'a) layer_outcome = "'a res \<times> ('t, 'v) moe_layer \<times> fat_state"

text \<open>The statistics of a call, when the environment asks for them.\<close>

definition maybe_stats :: "env \<Rightarrow> nat list \<Rightarrow> fat_state \<Rightarrow> fat_state res" where
  "maybe_stats env counts st =
     (if fat_expert_log_enabled env then record_fat_expert_stats env (map int counts) (int (max_count counts)) st
      else Inr st)"

text \<open>The slots of a call sorted by expert: tokens, weights in fp16 and counts, the last of which is that of
  the slots of no expert here.\<close>

definition routed_buffers ::
    "('t, 'v) torch_ops \<Rightarrow> (nat list \<Rightarrow> nat list) \<Rightarrow> int list list \<Rightarrow> 'v list list \<Rightarrow> nat \<Rightarrow> int list option \<Rightarrow>
     nat list \<times> 'v list \<times> nat list" where
  "routed_buffers ops argsort ids weights n emap =
     (let local = map_topk_to_local ids n emap;
          order = argsort local;
          flat_weight = map (to_half ops) (concat weights)
      in (map (\<lambda>j. flat_tokens ids ! j) order, map (\<lambda>j. flat_weight ! j) order, scatter_counts (n + 1) local))"

text \<open>After the thin experts: the experts with more rows than the buffers, by the highest tier enabled.\<close>

definition run_fat_experts ::
    "env \<Rightarrow> image \<Rightarrow> ('t, 'v::linordered_idom) torch_ops \<Rightarrow> 'v list list \<Rightarrow> int list list \<Rightarrow> 'v list list \<Rightarrow>
     int list option \<Rightarrow> 'v \<Rightarrow> nat \<Rightarrow> nat list \<Rightarrow> nat list \<Rightarrow> 'v list \<Rightarrow> 'v list list \<Rightarrow>
     ('t, 'v) moe_layer \<Rightarrow> fat_state \<Rightarrow> ('t, 'v, 'v list list) layer_outcome" where
  "run_fat_experts env img ops x2d ids weights emap limit cap counts ts ws out layer st =
     (let packs = inners layer;
          xh = map (half_row ops) x2d;
          want_kernel = (fat_kernel_enabled env \<or> grouped_fat_enabled env);
          want_batched = (batched_fat_fallback_enabled env \<or> want_kernel);
          use_sorted = (sorted_fat_fallback_enabled env \<or> want_batched);
          use_batched = (want_batched \<and> shared_w13_suh layer);
          use_kernel = (use_batched \<and> want_kernel)
      in if use_batched then
           let tier = (if use_kernel then Kernel else Batched);
               (layer, st) = record_fat_tier tier (Tier_ok tier) layer st;
               (r, st) = apply_exl3_batched_fat env img ops (w13_device layer) xh ts ws counts packs limit cap out use_kernel st
           in (r, layer, st)
         else if use_sorted then
           let (layer, st) = record_fat_tier Sorted_slices
                 (if want_batched then Degraded_shared_suh else Tier_ok Sorted_slices) layer st;
               (out, st) = apply_exl3_sorted_fat ops xh ts ws counts packs limit cap out st
           in (Inr out, layer, st)
         else
           let (layer, st) = record_fat_tier Legacy Legacy_default layer st;
               fat = filter (\<lambda>e. cap < counts ! e) [0 ..< length counts]
           in if fat = [] then (Inr out, layer, st)
              else (Inr (apply_exl3_python_loop ops x2d ids weights packs emap limit (Some (set fat)) out),
                    layer, st\<lparr>fat_expert_runs := fat_expert_runs st + length fat\<rparr>))"

definition apply_exl3_fused_moe ::
    "env \<Rightarrow> image \<Rightarrow> ('t, 'v::linordered_idom) torch_ops \<Rightarrow> ('t, 'v) moe_kernel \<Rightarrow> (nat list \<Rightarrow> nat list) \<Rightarrow> gpu \<Rightarrow> nat \<Rightarrow>
     'v list list \<Rightarrow> int list list \<Rightarrow> 'v list list \<Rightarrow> int list option \<Rightarrow> 'v \<Rightarrow>
     ('t, 'v) moe_layer \<Rightarrow> fat_state \<Rightarrow> ('t, 'v, 'v list list) layer_outcome" where
  "apply_exl3_fused_moe env img ops moe argsort x_device hidden x2d ids weights emap limit layer st =
     (case (pointers_built layer, temp_rows layer) of
        (True, Some cap) \<Rightarrow>
          (let packs = inners layer;
               n = length packs;
               (ts, ws, expert_count) = routed_buffers ops argsort ids weights n emap;
               counts = take n expert_count;
               xh = map (half_row ops) x2d;
               launch = (\<lambda>out. moe xh out expert_count ts ws cap packs limit);
               out = zero_rows (length x2d) hidden;
               layer = layer\<lparr>last_fallback := No_path, last_reason := No_fat_experts\<rparr>;
               use_row_tiles = fused_moe_row_tile_enabled env;
               max_rows = max_count counts
           in if length x2d \<le> cap then (Inr (launch out), layer, st)
              else
                let st = st\<lparr>prefill_layer_calls := prefill_layer_calls st + 1\<rparr>
                in if grouped_fat_enabled env \<and> \<not> use_row_tiles \<and> effective_tier layer = Some Grouped then
                     case apply_exl3_grouped_fat env img ops x_device xh (launch out) counts ts ws layer cap limit st of
                       (Inl err, st) \<Rightarrow> (Inl err, layer, st)
                     | (Inr out, st) \<Rightarrow>
                         (let (layer, st) = record_fat_tier Grouped (Tier_ok Grouped) layer st
                          in case maybe_stats env counts st of
                               Inl err \<Rightarrow> (Inl err, layer, st)
                             | Inr st \<Rightarrow> (Inr out, layer, st))
                   else
                     case maybe_stats env counts st of
                       Inl err \<Rightarrow> (Inl err, layer, st)
                     | Inr st \<Rightarrow>
                         if max_rows \<le> cap then
                           (Inr (launch out), layer, record_fat_reason Thin_only (st\<lparr>thin_calls := thin_calls st + 1\<rparr>))
                         else if use_row_tiles then
                           (Inr (exl3_moe_row_tiles moe xh out counts ts ws cap packs limit max_rows),
                            layer\<lparr>last_fallback := Row_tile, last_reason := Row_tile_preempts\<rparr>,
                            record_fat_reason Row_tile_preempts (st\<lparr>row_tile_calls := row_tile_calls st + 1\<rparr>))
                         else run_fat_experts env img ops x2d ids weights emap limit cap counts ts ws (launch out) layer st)
      | _ \<Rightarrow> (Inl RuntimeError, layer, st))"

text \<open>
  \<open>apply_exl3_experts\<close>; \<open>to_dtype\<close> rounds the sums to the type of the activations, and \<open>fused\<close> is the
  argument by which a caller asks for one of the two paths.
\<close>

definition apply_exl3_experts ::
    "env \<Rightarrow> image \<Rightarrow> ('t, 'v::linordered_idom) torch_ops \<Rightarrow> ('t, 'v) moe_kernel \<Rightarrow> (nat list \<Rightarrow> nat list) \<Rightarrow> ('v \<Rightarrow> 'v) \<Rightarrow> gpu \<Rightarrow> nat \<Rightarrow>
     'v list list \<Rightarrow> int list list \<Rightarrow> 'v list list \<Rightarrow> int list option \<Rightarrow> 'v \<Rightarrow> bool option \<Rightarrow>
     ('t, 'v) moe_layer \<Rightarrow> fat_state \<Rightarrow> ('t, 'v, 'v list list) layer_outcome" where
  "apply_exl3_experts env img ops moe argsort to_dtype x_device hidden x ids weights emap limit fused layer st =
     (if inners layer = [] then (Inl RuntimeError, layer, st)
      else if fused = Some True \<and> \<not> pointers_built layer then (Inl RuntimeError, layer, st)
      else
        let wanted = (case fused of None \<Rightarrow> fused_moe_enabled env | Some b \<Rightarrow> b);
            use_fused = (wanted \<and> pointers_built layer \<and> fst (exl3_fat_symbols img))
        in if use_fused then
             case apply_exl3_fused_moe env img ops moe argsort x_device hidden x ids weights emap limit layer st of
               (Inl err, layer, st) \<Rightarrow> (Inl err, layer, st)
             | (Inr out, layer, st) \<Rightarrow> (Inr (map (map to_dtype) out), layer\<lparr>last_apply_fused := Some True\<rparr>, st)
           else
             (Inr (map (map to_dtype)
                 (apply_exl3_python_loop ops x ids weights (inners layer) emap limit None (zero_rows (length x) hidden))),
              layer\<lparr>last_apply_fused := Some False\<rparr>, st))"

subsection \<open>What the extension promises\<close>

text \<open>
  \<open>exl3_moe\<close> runs the experts whose rows fit its buffers, each on its slice of the sorted buffers, and
  skips the others.
\<close>

definition moe_kernel_law :: "('t, 'v::linordered_idom) torch_ops \<Rightarrow> ('t, 'v) moe_kernel \<Rightarrow> bool" where
  "moe_kernel_law ops moe \<longleftrightarrow>
     (\<forall>xh out ec ts ws rows packs limit.
        length ts = sum_list ec \<and> length ws = sum_list ec \<and> length ec = length packs + 1 \<longrightarrow>
        moe xh out ec ts ws rows packs limit
          = index_add out (slices_from (slice_rows ops limit packs xh) (\<lambda>n. n \<le> rows) ts ws 0 0 (take (length packs) ec)))"

text \<open>
  A packed matrix acts on a row as its transform on the input, the product with its weights and the
  transform on the output; side by side, two of them act as each does alone; SiLU is the product
  with the sigmoid.
\<close>

definition linear_law :: "('t, 'v) torch_ops \<Rightarrow> ('t, 'v) exl3_linear \<Rightarrow> bool" where
  "linear_law ops l \<longleftrightarrow>
     (\<forall>h. forward ops l h = linear_row ops (trellis l) (svh l) (codes_K l) (is_mcg l) (is_mul1 l) (had_in ops (suh l) h))"

definition joined_law :: "('t, 'v) torch_ops \<Rightarrow> ('t, 'v) expert_pack \<Rightarrow> bool" where
  "joined_law ops p \<longleftrightarrow>
     (\<forall>K mcg mul1 h. linear_row ops (packed13 p) (svh13 p) K mcg mul1 h
        = linear_row ops (trellis (gate p)) (svh (gate p)) K mcg mul1 h @ linear_row ops (trellis (up p)) (svh (up p)) K mcg mul1 h
      \<and> length (linear_row ops (trellis (gate p)) (svh (gate p)) K mcg mul1 h) = nat (out_features (gate p)))"

definition ext_laws :: "('t, 'v::linordered_idom) torch_ops \<Rightarrow> ('t, 'v) expert_pack list \<Rightarrow> bool" where
  "ext_laws ops packs \<longleftrightarrow>
     (\<forall>x. silu ops x = sigmoid ops x * x) \<and>
     (\<forall>p \<in> set packs. linear_law ops (gate p) \<and> linear_law ops (up p) \<and> linear_law ops (down p) \<and> joined_law ops p)"

text \<open>Gate and up share the scales of their input, and the codes are those the fat kernels read.\<close>

definition shared_suh :: "('t, 'v) expert_pack \<Rightarrow> bool" where
  "shared_suh p \<longleftrightarrow> suh (gate p) = suh (up p)"

definition k4_mcg :: "('t, 'v) exl3_linear \<Rightarrow> bool" where
  "k4_mcg l \<longleftrightarrow> codes_K l = 4 \<and> is_mcg l \<and> \<not> is_mul1 l"

definition fat_kernel_fits :: "('t, 'v) expert_pack \<Rightarrow> bool" where
  "fat_kernel_fits p \<longleftrightarrow>
     fat_gemm_accepts (packed13 p) (svh13 p) (codes_K (gate p)) (is_mcg (gate p)) (is_mul1 (gate p)) \<and>
     fat_gemm_accepts (trellis (down p)) (svh (down p)) (codes_K (down p)) (is_mcg (down p)) (is_mul1 (down p))"

subsection \<open>Every path computes the rows of the loop\<close>

lemma swiglu_silu:
  assumes "\<forall>x. silu ops x = sigmoid ops x * x"
  shows "swiglu_row ops limit g u = map2 (*) (map (silu ops) (map (clamp_max limit) g)) (map (clamp (- limit) limit) u)"
  using assms by (auto simp: swiglu_row_def Let_def list_eq_iff_nth_eq)

lemma batched_row_eq:
  assumes "ext_laws ops packs" and "p \<in> set packs" and "shared_suh p"
    and "codes_K (gate p) = codes_K (up p)" "is_mcg (gate p) = is_mcg (up p)" "is_mul1 (gate p) = is_mul1 (up p)"
  shows "batched_row ops limit p h = expert_row ops limit p h"
proof -
  from assms(1,2) have "linear_law ops (gate p)" "linear_law ops (up p)" "linear_law ops (down p)" "joined_law ops p"
    and s: "\<forall>x. silu ops x = sigmoid ops x * x"
    by (simp_all add: ext_laws_def)
  then show ?thesis
    using assms(3-6)
    by (simp add: batched_row_def expert_row_def Let_def swiglu_silu linear_law_def joined_law_def shared_suh_def)
qed

lemma gateup_down_row:
  assumes "ext_laws ops packs" and "p \<in> set packs" and "shared_suh p"
    and "k4_mcg (gate p)" "k4_mcg (up p)" "k4_mcg (down p)"
  shows "linear_row ops (trellis (down p)) (svh (down p)) 4 True False (gateup_row ops limit p (had_in ops (suh (gate p)) h))
    = expert_row ops limit p h"
proof -
  from assms(1,2) have "linear_law ops (gate p)" "linear_law ops (up p)" "linear_law ops (down p)"
    and s: "\<forall>x. silu ops x = sigmoid ops x * x"
    by (simp_all add: ext_laws_def)
  then show ?thesis
    using assms(3-6)
    by (simp add: gateup_row_def expert_row_def Let_def swiglu_silu linear_law_def shared_suh_def k4_mcg_def)
qed

lemma slices_from_cong:
  assumes "\<And>i ts' ws'. i < length counts \<Longrightarrow> P (counts ! i) \<Longrightarrow> run (e + i) ts' ws' = run' (e + i) ts' ws'"
  shows "slices_from run P ts ws e offset counts = slices_from run' P ts ws e offset counts"
  unfolding slices_from_def using assms by (intro arg_cong[of _ _ concat] map_cong) auto

text \<open>The batched loop.\<close>

definition scratch_ready :: "env \<Rightarrow> bool" where
  "scratch_ready env \<longleftrightarrow> \<not> isl (configured_rows env)"

lemma fat_scratch_returns: "scratch_ready env \<Longrightarrow> \<exists>s st'. fat_scratch env dev rows g st = Inr (s, st')"
  by (cases "configured_rows env") (auto simp: scratch_ready_def fat_scratch_def Let_def split: option.split)

lemma batched_loop_pairs:
  assumes "scratch_ready env"
    and "use_kernel \<Longrightarrow> kernel_symbols_present img \<and> (\<forall>i < length counts. fat_kernel_fits (packs ! (e + i)))"
  shows "fst (batched_loop env img ops dev limit packs xh use_kernel cap ts ws e offset counts out st)
    = Inr (index_add out (slices_from (batched_pairs ops limit packs xh) ((<) cap) ts ws e offset counts))"
  using assms(2)
proof (induction counts arbitrary: e offset out st)
  case Nil then show ?case by (simp add: slices_from_def index_add_def)
next
  case (Cons n counts)
  have rest: "use_kernel \<Longrightarrow> kernel_symbols_present img \<and> (\<forall>i < length counts. fat_kernel_fits (packs ! (e + 1 + i)))"
    using Cons.prems by force
  have fits: "use_kernel \<Longrightarrow> kernel_symbols_present img \<and> fat_kernel_fits (packs ! e)"
    using Cons.prems by force
  show ?case
  proof (cases "n \<le> cap")
    case True
    then show ?thesis using Cons.IH[OF rest] by (simp add: slices_from_Cons)
  next
    case False
    obtain s st' where scratch: "fat_scratch env dev (int n) (gate (packs ! e)) (st\<lparr>fat_expert_runs := fat_expert_runs st + 1\<rparr>) = Inr (s, st')"
      using fat_scratch_returns[OF assms(1)] by blast
    show ?thesis
      using False Cons.IH[OF rest] fits scratch
      by (cases use_kernel)
        (simp_all add: slices_from_Cons index_add_append kernel_symbols_present_def fat_kernel_fits_def case_prod_beta Let_def)
  qed
qed

end
