(* ===== verification/Expert_Agree.thy ===== *)
theory Expert_Agree
  imports Expert_Apply
begin

text \<open>
  Every way of running the routed experts computes the same sums: the rows of the fused kernel together
  with those of the grouped kernels, of the batched or sorted loops, of the plain loop or of the row
  tiles are the rows of \<open>routed_output\<close>, in some order.
\<close>

subsection \<open>The grouped kernels\<close>

lemma fold_update_nth:
  "n \<le> length h \<Longrightarrow> r < n \<Longrightarrow> fold (\<lambda>r h. h[r := F r]) [0 ..< n] h ! r = F r"
proof -
  have len: "length (fold (\<lambda>r h. h[r := F r]) rs h) = length h" for rs h
    by (induction rs arbitrary: h) simp_all
  show "n \<le> length h \<Longrightarrow> r < n \<Longrightarrow> fold (\<lambda>r h. h[r := F r]) [0 ..< n] h ! r = F r"
    by (induction n) (auto simp: nth_list_update len)
qed

lemma segment_rows_map:
  fixes ws :: "'v list" and counts ts :: "nat list" and cap tile rows_cap :: nat
  assumes "counts \<noteq> []" and "0 < tile" and "sum_list counts \<le> rows_cap"
  defines "T \<equiv> build_grouped_fat_tables counts cap ts ws rows_cap tile"
  shows "segment_rows tile T = map (\<lambda>r. (row_expert T ! r, r)) [0 ..< num_rows T]"
proof -
  note segments = table_segments[OF assms(1-3), where cap = cap and ts = ts and ws = ws, folded T_def]
  have "segment_rows tile T
      = concat (map (\<lambda>s. map (\<lambda>r. (seg_expert T ! s, r)) [seg_row0 T ! s ..< seg_row0 T ! s + seg_rows T ! s]) [0 ..< num_segs T])"
    unfolding segment_rows_def
    by (rule arg_cong[of _ _ concat], rule map_cong) (simp_all add: min_absorb1 segments(2))
  then show ?thesis by (simp only: segments(3))
qed

text \<open>The rows that the grouped kernels add to the output.\<close>

definition row_pair ::
    "('t, 'v::linordered_idom) torch_ops \<Rightarrow> 'v \<Rightarrow> ('t, 'v) expert_pack list \<Rightarrow> 'v list list \<Rightarrow> nat \<times> nat \<times> 'v \<Rightarrow> nat \<times> 'v list" where
  "row_pair ops limit packs xh p =
     (case p of (e, t, w) \<Rightarrow> (t, scale_row w (expert_row ops limit (packs ! e) (xh ! t))))"

lemma slices_listing:
  "slices_from (slice_rows ops limit packs xh) ((<) cap) ts ws 0 0 counts
    = map (row_pair ops limit packs xh) (fat_listing cap counts ts ws)"
  unfolding slices_from_def fat_listing_def map_concat map_map
  by (rule arg_cong[of _ _ concat], rule map_cong)
    (auto simp: slice_rows_def row_pair_def zip_map1 zip_map2 o_def case_prod_beta not_less)

lemma fat_listing_expert: "(e, t, w) \<in> set (fat_listing cap counts ts ws) \<Longrightarrow> e < length counts"
  by (auto simp: fat_listing_def split: if_splits)

definition grouped_ready :: "('t, 'v) expert_pack \<Rightarrow> bool" where
  "grouped_ready p \<longleftrightarrow> shared_suh p \<and> k4_mcg (gate p) \<and> k4_mcg (up p) \<and> k4_mcg (down p)"

lemma grouped_pairs:
  fixes ops :: "('t, 'v::linordered_idom) torch_ops" and ws :: "'v list" and counts ts :: "nat list"
    and packs :: "('t, 'v) expert_pack list" and limit :: 'v and xh :: "'v list list" and cap rows_cap :: nat
  assumes laws: "ext_laws ops packs" and ready: "\<forall>p \<in> set packs. grouped_ready p"
    and counts: "length counts = length packs" "packs \<noteq> []"
    and ts: "length ts = rows_cap" and ws: "length ws = rows_cap" and fits: "sum_list counts \<le> rows_cap"
  defines "T \<equiv> build_grouped_fat_tables counts cap ts ws rows_cap tile_rows_gateup"
  defines "h13 \<equiv> fm_gather ops packs xh T (replicate rows_cap [])"
  defines "h2 \<equiv> fm_gateup ops limit packs h13 T (replicate rows_cap [])"
  shows "fm_down ops packs h2 T out
    = index_add out (slices_from (slice_rows ops limit packs xh) ((<) cap) ts ws 0 0 counts)"
proof -
  have ne: "counts \<noteq> []" using counts by auto
  have tile: "0 < tile_rows_gateup" "tile_rows_down = tile_rows_gateup"
    by (simp_all add: tile_rows_gateup_def tile_rows_down_def)
  note rows = table_rows_listing[OF ne ts ws fits, where cap = cap and tile_rows = tile_rows_gateup, folded T_def]
  have segs: "segment_rows tile_rows_gateup T = map (\<lambda>r. (row_expert T ! r, r)) [0 ..< num_rows T]"
    unfolding T_def by (rule segment_rows_map[OF ne tile(1) fits])
  have h13: "h13 ! r = had_in ops (suh (gate (packs ! (row_expert T ! r)))) (xh ! (row_token T ! r))" if "r < num_rows T" for r
    unfolding h13_def fm_gather_def using that rows(1) by (intro fold_update_nth) simp_all
  have h2: "h2 ! r = gateup_row ops limit (packs ! (row_expert T ! r)) (h13 ! r)" if "r < num_rows T" for r
    unfolding h2_def fm_gateup_def segs fold_map o_def case_prod_conv
    using that rows(1) by (intro fold_update_nth) simp_all
  have expert: "row_expert T ! r < length packs" if "r < num_rows T" for r
  proof -
    have "(row_expert T ! r, row_token T ! r, row_weight T ! r)
        \<in> set (map (\<lambda>r. (row_expert T ! r, row_token T ! r, row_weight T ! r)) [0 ..< num_rows T])"
      using that by simp
    then show ?thesis unfolding rows(2) using fat_listing_expert counts(1) by metis
  qed
  have row: "linear_row ops (trellis (down (packs ! (row_expert T ! r)))) (svh (down (packs ! (row_expert T ! r)))) 4 True False (h2 ! r)
      = expert_row ops limit (packs ! (row_expert T ! r)) (xh ! (row_token T ! r))" if r: "r < num_rows T" for r
  proof -
    have p: "packs ! (row_expert T ! r) \<in> set packs" using expert[OF r] by (rule nth_mem)
    with ready show ?thesis
      by (simp add: h2[OF r] h13[OF r] grouped_ready_def gateup_down_row[OF laws])
  qed
  have "map (\<lambda>(e, r). (row_token T ! r, scale_row (row_weight T ! r)
         (linear_row ops (trellis (down (packs ! e))) (svh (down (packs ! e))) 4 True False (h2 ! r)))) (segment_rows tile_rows_down T)
      = map (row_pair ops limit packs xh) (map (\<lambda>r. (row_expert T ! r, row_token T ! r, row_weight T ! r)) [0 ..< num_rows T])"
    unfolding tile(2) segs map_map by (rule map_cong) (simp_all add: row_pair_def row)
  then show ?thesis
    unfolding fm_down_def slices_listing rows(2) by (rule arg_cong)
qed

lemma grouped_scratch_returns:
  assumes "scratch_ready env" and "\<not> isl (or_zero ''8'' (env_or env ''EXL3_FAT_GROUPED_TOPK'' ''8''))"
    and "\<not> stream_capturing img"
  shows "\<exists>s st'. grouped_scratch env img dev rows hidden width st = Inr (s, st')"
  using assms
  by (cases "configured_rows env"; cases "or_zero ''8'' (env_or env ''EXL3_FAT_GROUPED_TOPK'' ''8'')")
    (auto simp: scratch_ready_def grouped_scratch_def Let_def split: option.split)

subsection \<open>The row tiles\<close>

lemma locate_at: "e < length lens \<Longrightarrow> l < lens ! e \<Longrightarrow> locate lens (sum_list (take e lens) + l) = e"
proof (induction lens arbitrary: e)
  case (Cons x xs)
  then show ?case by (cases e) (simp_all add: locate_Cons add.assoc)
qed simp

lemma slices_all_map:
  assumes "sum_list counts \<le> length ts" "length ws = length ts"
    and "\<And>c. c \<in> set counts \<Longrightarrow> P c"
  shows "slices_from (slice_rows ops limit packs xh) P ts ws 0 0 counts
    = concat (map (\<lambda>e. map (\<lambda>l. row_pair ops limit packs xh (e, ts ! (sum_list (take e counts) + l), ws ! (sum_list (take e counts) + l)))
        [0 ..< counts ! e]) [0 ..< length counts])"
  unfolding slices_from_def
proof (rule arg_cong[of _ _ concat], rule map_cong[OF refl])
  fix e assume "e \<in> set [0 ..< length counts]"
  then have e: "e < length counts" by simp
  have "sum_list (take e counts) + counts ! e \<le> length ts" using sum_take_bound[OF e] assms(1) by linarith
  then show "(if P (counts ! e) then slice_rows ops limit packs xh (0 + e)
       (take (counts ! e) (drop (0 + sum_list (take e counts)) ts)) (take (counts ! e) (drop (0 + sum_list (take e counts)) ws)) else [])
     = map (\<lambda>l. row_pair ops limit packs xh (e, ts ! (sum_list (take e counts) + l), ws ! (sum_list (take e counts) + l))) [0 ..< counts ! e]"
    using e assms(2,3) by (simp add: slice_as_map slice_rows_def row_pair_def zip_map1 zip_map2 zip_same_conv_map o_def)
qed

lemma row_tile_pairs:
  fixes ops :: "('t, 'v::linordered_idom) torch_ops" and ws :: "'v list" and counts ts :: "nat list" and t tile :: nat
  assumes law: "moe_kernel_law ops moe" and counts: "length counts = length packs"
    and ts: "sum_list counts \<le> length ts"
  defines "tc \<equiv> map (\<lambda>c. min (c - t * tile) tile) counts"
  shows "row_tile moe xh counts ts ws tile packs limit t out
    = index_add out (concat (map (\<lambda>e. map (\<lambda>j. row_pair ops limit packs xh (e, ts ! j, ws ! j))
        [sum_list (take e counts) + t * tile ..< sum_list (take e counts) + t * tile + tc ! e]) [0 ..< length counts]))"
proof -
  define src where "src = map (\<lambda>i. fst (excl_cumsum counts) ! locate tc i + t * tile
      + (i - (inclusive_sums tc ! locate tc i - tc ! locate tc i))) [0 ..< sum_list tc]"
  have lens: "length tc = length counts" by (simp add: tc_def)
  have src_at: "src ! (sum_list (take e tc) + l) = sum_list (take e counts) + t * tile + l"
    if "e < length counts" "l < tc ! e" for e l
  proof -
    have "sum_list (take e tc) + l < sum_list tc" using sum_take_bound[of e tc] that lens by simp
    then show ?thesis
      using that lens by (simp add: src_def locate_at excl_offset inclusive_sums_nth take_Suc_conv_app_nth)
  qed
  have pairs: "slices_from (slice_rows ops limit packs xh) (\<lambda>n. n \<le> tile) (map (\<lambda>j. ts ! j) src) (map (\<lambda>j. ws ! j) src) 0 0 tc
    = concat (map (\<lambda>e. map (\<lambda>j. row_pair ops limit packs xh (e, ts ! j, ws ! j))
        [sum_list (take e counts) + t * tile ..< sum_list (take e counts) + t * tile + tc ! e]) [0 ..< length counts])"
    (is "?L = concat (map ?R _)")
  proof -
    have "?L = concat (map (\<lambda>e. map (\<lambda>l. row_pair ops limit packs xh (e, map (\<lambda>j. ts ! j) src ! (sum_list (take e tc) + l),
          map (\<lambda>j. ws ! j) src ! (sum_list (take e tc) + l))) [0 ..< tc ! e]) [0 ..< length tc])"
      by (rule slices_all_map) (auto simp: src_def tc_def)
    also have "\<dots> = concat (map ?R [0 ..< length counts])"
      unfolding lens
    proof (rule arg_cong[of _ _ concat], rule map_cong[OF refl])
      fix e assume "e \<in> set [0 ..< length counts]"
      then have e: "e < length counts" by simp
      have inside: "sum_list (take e tc) + l < length src" if "l < tc ! e" for l
        using sum_take_bound[of e tc] that e lens by (simp add: src_def)
      have "[sum_list (take e counts) + t * tile ..< sum_list (take e counts) + t * tile + tc ! e]
          = map (\<lambda>l. sum_list (take e counts) + t * tile + l) [0 ..< tc ! e]"
        by (simp add: map_add_upt add.commute)
      then show "map (\<lambda>l. row_pair ops limit packs xh (e, map (\<lambda>j. ts ! j) src ! (sum_list (take e tc) + l),
          map (\<lambda>j. ws ! j) src ! (sum_list (take e tc) + l))) [0 ..< tc ! e] = ?R e"
        using e by (simp add: inside src_at)
    qed
    finally show ?thesis .
  qed
  show ?thesis
  proof (cases "sum_list tc = 0")
    case True
    then have "row_tile moe xh counts ts ws tile packs limit t out = out"
      by (simp add: row_tile_def Let_def tc_def)
    moreover have "tc ! e = 0" if "e < length counts" for e
      using True that lens by (metis elem_le_sum_list le_zero_eq)
    then have "concat (map (\<lambda>e. map (\<lambda>j. row_pair ops limit packs xh (e, ts ! j, ws ! j))
        [sum_list (take e counts) + t * tile ..< sum_list (take e counts) + t * tile + tc ! e]) [0 ..< length counts]) = []"
      by simp
    ultimately show ?thesis by (simp only: index_add_def fold_Nil id_apply)
  next
    case False
    have "row_tile moe xh counts ts ws tile packs limit t out
        = moe xh out (tc @ [0]) (map (\<lambda>j. ts ! j) src) (map (\<lambda>j. ws ! j) src) tile packs limit"
    proof -
      have map_src: "map (\<lambda>i. f (map (searchsorted_right (inclusive_sums tc)) [0 ..< sum_list tc] ! i) i) [0 ..< sum_list tc]
          = map (\<lambda>i. f (locate tc i) i) [0 ..< sum_list tc]" for f :: "nat \<Rightarrow> nat \<Rightarrow> nat"
        by (rule map_cong) (simp_all add: locate_def)
      show ?thesis
        using False unfolding row_tile_def Let_def tc_def[symmetric] src_def
        by (auto simp: locate_def intro!: arg_cong2[of _ _ _ _ "\<lambda>a b. moe xh out (tc @ [0]) a b tile packs limit"])
    qed
    also have "\<dots> = index_add out (slices_from (slice_rows ops limit packs xh) (\<lambda>n. n \<le> tile)
        (map (\<lambda>j. ts ! j) src) (map (\<lambda>j. ws ! j) src) 0 0 tc)"
      using law counts lens by (simp add: moe_kernel_law_def src_def)
    finally show ?thesis unfolding pairs .
  qed
qed

lemma mset_concat_swap:
  "mset (concat (map (\<lambda>t. concat (map (\<lambda>e. f t e) es)) ts)) = mset (concat (map (\<lambda>e. concat (map (\<lambda>t. f t e) ts)) es))"
proof (induction ts)
  case (Cons t ts)
  have "mset (concat (map (\<lambda>e. f t e @ concat (map (\<lambda>t. f t e) ts)) es))
      = mset (concat (map (\<lambda>e. f t e) es)) + mset (concat (map (\<lambda>e. concat (map (\<lambda>t. f t e) ts)) es))"
    by (induction es) simp_all
  with Cons show ?case by simp
qed (induction es, simp_all)

text \<open>More tiles than a run needs are empty.\<close>

lemma tiles_cover_more:
  assumes "0 < t" and "(f + (t - 1)) div t \<le> k"
  shows "concat (map (\<lambda>l. map g [b + l * t ..< b + l * t + min (f - l * t) t]) [0 ..< k]) = map g [b ..< b + f]"
proof -
  define m where "m = (f + (t - 1)) div t"
  have "f \<le> m * t"
  proof -
    have "f + (t - 1) < Suc m * t" unfolding m_def using dividend_less_div_times[OF assms(1), of "f + (t - 1)"] by simp
    then show ?thesis using assms(1) by simp
  qed
  then have empty: "min (f - l * t) t = 0" if "m \<le> l" for l
  proof -
    have "f \<le> l * t" using \<open>f \<le> m * t\<close> mult_le_mono1[OF that, of t] by (rule order_trans)
    then show ?thesis by simp
  qed
  have "[0 ..< k] = [0 ..< m] @ [m ..< k]"
    using assms(2) upt_add_eq_append[of 0 m "k - m"] by (simp add: m_def)
  moreover have "concat (map (\<lambda>l. map g [b + l * t ..< b + l * t + min (f - l * t) t]) [m ..< k]) = []"
    by (simp add: empty)
  moreover have "concat (map (\<lambda>l. map g [b + l * t ..< b + l * t + min (f - l * t) t]) [0 ..< m]) = map g [b ..< b + f]"
    unfolding m_def by (rule tiles_cover[OF assms(1)])
  ultimately show ?thesis by simp
qed

lemma max_count_upper: "c \<in> set counts \<Longrightarrow> c \<le> max_count counts"
  unfolding max_count_def by (induction counts) auto

lemma row_tiles_pairs:
  fixes ops :: "('t, 'v::linordered_idom) torch_ops"
  assumes law: "moe_kernel_law ops moe" and counts: "length counts = length packs"
    and ts: "sum_list counts \<le> length ts" and ws: "length ws = length ts" and tile: "0 < tile"
  shows "exl3_moe_row_tiles moe xh out counts ts ws tile packs limit (max_count counts)
    = index_add out (slices_from (slice_rows ops limit packs xh) (\<lambda>n. True) ts ws 0 0 counts)"
proof -
  define k where "k = (max_count counts + tile - 1) div tile"
  define pairs where "pairs t = concat (map (\<lambda>e. map (\<lambda>j. row_pair ops limit packs xh (e, ts ! j, ws ! j))
        [sum_list (take e counts) + t * tile ..< sum_list (take e counts) + t * tile + min (counts ! e - t * tile) tile])
        [0 ..< length counts])" for t
  have tile_step: "row_tile moe xh counts ts ws tile packs limit = (\<lambda>t out. index_add out (pairs t))"
  proof (intro ext)
    fix t out
    show "row_tile moe xh counts ts ws tile packs limit t out = index_add out (pairs t)"
      unfolding row_tile_pairs[OF law counts ts] pairs_def
      by (intro arg_cong[of _ _ "index_add out"] arg_cong[of _ _ concat] map_cong refl) simp
  qed
  have "exl3_moe_row_tiles moe xh out counts ts ws tile packs limit (max_count counts)
      = fold (\<lambda>t out. index_add out (pairs t)) [0 ..< k] out"
    unfolding exl3_moe_row_tiles_def k_def by (simp only: tile_step)
  also have "\<dots> = index_add out (concat (map pairs [0 ..< k]))"
    using fold_index_add[of "\<lambda>t. True" pairs "[0 ..< k]" out] by simp
  also have "\<dots> = index_add out (slices_from (slice_rows ops limit packs xh) (\<lambda>n. True) ts ws 0 0 counts)"
  proof (rule index_add_mset)
    have "mset (concat (map pairs [0 ..< k]))
        = mset (concat (map (\<lambda>e. concat (map (\<lambda>t. map (\<lambda>j. row_pair ops limit packs xh (e, ts ! j, ws ! j))
            [sum_list (take e counts) + t * tile ..< sum_list (take e counts) + t * tile + min (counts ! e - t * tile) tile]) [0 ..< k]))
            [0 ..< length counts]))"
      unfolding pairs_def by (rule mset_concat_swap)
    also have "\<dots> = mset (concat (map (\<lambda>e. map (\<lambda>j. row_pair ops limit packs xh (e, ts ! j, ws ! j))
            [sum_list (take e counts) ..< sum_list (take e counts) + counts ! e]) [0 ..< length counts]))"
    proof (rule arg_cong[of _ _ "\<lambda>l. mset (concat l)"], rule map_cong[OF refl])
      fix e assume "e \<in> set [0 ..< length counts]"
      then have "counts ! e \<le> max_count counts" by (simp add: max_count_upper)
      then have "(counts ! e + (tile - 1)) div tile \<le> k"
        unfolding k_def using tile by (intro div_le_mono) simp
      then show "concat (map (\<lambda>t. map (\<lambda>j. row_pair ops limit packs xh (e, ts ! j, ws ! j))
            [sum_list (take e counts) + t * tile ..< sum_list (take e counts) + t * tile + min (counts ! e - t * tile) tile]) [0 ..< k])
          = map (\<lambda>j. row_pair ops limit packs xh (e, ts ! j, ws ! j)) [sum_list (take e counts) ..< sum_list (take e counts) + counts ! e]"
        by (rule tiles_cover_more[OF tile])
    qed
    also have "\<dots> = mset (slices_from (slice_rows ops limit packs xh) (\<lambda>n. True) ts ws 0 0 counts)"
    proof -
      have shift: "map f [b ..< b + n] = map (\<lambda>l. f (b + l)) [0 ..< n]" for f :: "nat \<Rightarrow> nat \<times> 'v list" and b n
        by (rule nth_equalityI) simp_all
      show ?thesis
        by (simp only: slices_all_map[OF ts ws] shift)
    qed
    finally show "mset (concat (map pairs [0 ..< k]))
        = mset (slices_from (slice_rows ops limit packs xh) (\<lambda>n. True) ts ws 0 0 counts)" .
  qed
  finally show ?thesis .
qed


subsection \<open>All paths agree\<close>

text \<open>
  A call that nothing stops: the pointer tables are built for buffers of \<open>cap\<close> rows, the numbers of the
  environment parse, no CUDA graph is captured, and the activations are on the device of the experts.
\<close>

definition call_ready :: "env \<Rightarrow> image \<Rightarrow> gpu \<Rightarrow> nat \<Rightarrow> ('t, 'v) moe_layer \<Rightarrow> bool" where
  "call_ready env img x_device cap layer \<longleftrightarrow>
     pointers_built layer \<and> temp_rows layer = Some cap \<and> temp_rows_fused env = Inr (int cap) \<and>
     scratch_ready env \<and> \<not> isl (or_zero ''8'' (env_or env ''EXL3_FAT_GROUPED_TOPK'' ''8'')) \<and>
     \<not> stream_capturing img \<and> x_device = w13_device layer \<and> inners layer \<noteq> []"

text \<open>The tier of the layer is the one resolved at load, in the same image and environment.\<close>

definition layer_resolved :: "env \<Rightarrow> image \<Rightarrow> ('t, 'v) moe_layer \<Rightarrow> bool" where
  "layer_resolved env img layer \<longleftrightarrow>
     (case resolve_exl3_fat_tier env img (shared_w13_suh layer) (grouped_fat_eligibility img layer) of
        Inl err \<Rightarrow> False
      | Inr (tier, reason) \<Rightarrow> effective_tier layer = Some tier)"

text \<open>
  The experts are what the layer's flag says of them, and where the fat GEMMs will run their codes are
  those these take (nothing at load checks this, see \<open>kernel_fallback_can_fail\<close>).
\<close>

definition same_codes :: "('t, 'v) expert_pack \<Rightarrow> bool" where
  "same_codes p \<longleftrightarrow> codes_K (gate p) = codes_K (up p) \<and> is_mcg (gate p) = is_mcg (up p) \<and> is_mul1 (gate p) = is_mul1 (up p)"

definition experts_fit :: "('t, 'v) moe_layer \<Rightarrow> bool" where
  "experts_fit layer \<longleftrightarrow>
     (shared_w13_suh layer \<longrightarrow> list_all (\<lambda>p. shared_suh p \<and> same_codes p) (inners layer)) \<and>
     (effective_tier layer = Some Kernel \<longrightarrow> list_all fat_kernel_fits (inners layer))"

text \<open>The router gives a token each expert at most once, and its weights are fp16 numbers.\<close>

definition routing_ok :: "('t, 'v) torch_ops \<Rightarrow> int list option \<Rightarrow> nat \<Rightarrow> int list list \<Rightarrow> 'v list list \<Rightarrow> bool" where
  "routing_ok ops emap n ids weights \<longleftrightarrow>
     ids_in_map emap ids \<and> map length weights = map length ids \<and>
     list_all (\<lambda>row. distinct (filter (\<lambda>e. e \<noteq> None) (map (owned_expert emap n) row))) ids \<and>
     list_all (list_all (\<lambda>w. to_half ops w = w)) weights"

lemma half_weights: "routing_ok ops emap n ids weights \<Longrightarrow> map (map (to_half ops)) weights = weights"
  by (auto simp: routing_ok_def list_all_iff intro!: map_idI)

lemma routed_buffers_facts:
  fixes ops :: "('t, 'v::linordered_idom) torch_ops"
  assumes argsort: "\<And>keys. is_argsort keys (argsort keys)"
    and routing: "routing_ok ops emap (length packs) ids weights"
    and tokens: "length x2d = length ids" and xh: "xh = map (half_row ops) x2d"
    and bufs: "routed_buffers ops argsort ids weights (length packs) emap = (ts, ws, ec)"
  shows "length ec = length packs + 1" and "length ts = sum_list ec" and "length ws = sum_list ec"
    and "sum_list (take (length packs) ec) \<le> sum_list ec"
    and "mset (slices_from (slice_rows ops limit packs xh) P ts ws 0 0 (take (length packs) ec))
      = mset (routed_pairs ops limit packs emap x2d ids weights (\<lambda>e. P (ec ! e)))"
    and "ec ! e = count_list (map_topk_to_local ids (length packs) emap) e \<or> length packs < e"
proof -
  define n where "n = length packs"
  define local where "local = map_topk_to_local ids n emap"
  have shape: "map length weights = map length ids" using routing by (simp add: routing_ok_def)
  have order: "is_argsort local (argsort local)" by (rule argsort)
  have ts: "ts = map (\<lambda>j. flat_tokens ids ! j) (argsort local)"
    and ws: "ws = map (\<lambda>j. map (to_half ops) (concat weights) ! j) (argsort local)"
    and ec: "ec = map (count_list local) [0 ..< n + 1]"
    using bufs unfolding routed_buffers_def Let_def n_def[symmetric] local_def[symmetric] scatter_counts_eq by auto
  have len: "length (argsort local) = length local"
    using order by (metis is_argsort_def length_upt minus_nat.diff_0 size_mset)
  have below: "\<forall>x \<in> set local. x < n + 1"
    unfolding local_def map_topk_slots slot_expert_def by (auto dest: owned_expert_less split: option.split)
  have total: "sum_list ec = length local"
    unfolding ec counts_before using below by (simp cong: filter_cong)
  have take: "take n ec = map (count_list local) [0 ..< n]" by (simp add: ec take_map)
  show "length ec = length packs + 1" by (simp add: ec n_def)
  show "length ts = sum_list ec" "length ws = sum_list ec" by (simp_all add: ts ws len total)
  show "sum_list (take (length packs) ec) \<le> sum_list ec"
    unfolding n_def[symmetric] take total counts_before by simp
  show "ec ! e = count_list (map_topk_to_local ids (length packs) emap) e \<or> length packs < e"
    unfolding n_def[symmetric] local_def[symmetric] ec
    by (cases "e < n + 1") (simp_all del: upt_Suc)
  have "mset (slices_from (slice_rows ops limit packs xh) P ts ws 0 0 (take n ec))
      = mset (routed_pairs ops limit packs emap x2d ids (map (map (to_half ops)) weights) (\<lambda>e. P (count_list local e)))"
    unfolding take ts ws
    by (rule sorted_slices_pairs[OF local_def[unfolded n_def] order shape xh tokens, folded n_def])
  also have "\<dots> = mset (routed_pairs ops limit packs emap x2d ids weights (\<lambda>e. P (ec ! e)))"
    unfolding half_weights[OF routing] routed_pairs_def n_def[symmetric]
    by (rule mset_filter_map_cong) (auto simp: ec simp del: upt_Suc)
  finally show "mset (slices_from (slice_rows ops limit packs xh) P ts ws 0 0 (take (length packs) ec))
      = mset (routed_pairs ops limit packs emap x2d ids weights (\<lambda>e. P (ec ! e)))"
    unfolding n_def .
qed

text \<open>The slices up to a bound and those above it are all the slices.\<close>

lemma slices_split:
  "mset (slices_from run (\<lambda>n. n \<le> cap) ts ws e offset counts @ slices_from run ((<) cap) ts ws e offset counts)
    = mset (slices_from run (\<lambda>n. True) ts ws e offset counts)"
proof (induction counts arbitrary: e offset)
  case (Cons n counts)
  from Cons[of "e + 1" "offset + n"] show ?case
    by (auto simp: slices_from_Cons not_le ac_simps)
qed (simp add: slices_from_def)

lemma slices_below:
  "(\<And>n. n \<in> set counts \<Longrightarrow> n \<le> cap) \<Longrightarrow>
   slices_from run (\<lambda>n. n \<le> cap) ts ws e offset counts = slices_from run (\<lambda>n. True) ts ws e offset counts"
  unfolding slices_from_def by (intro arg_cong[of _ _ concat] map_cong) simp_all


lemma maybe_stats_returns: "temp_rows_fused env = Inr c \<Longrightarrow> \<exists>st'. maybe_stats env counts st = Inr st'"
  by (simp add: maybe_stats_def record_fat_expert_stats_def Let_def)

text \<open>The kernel tier at run time is the resolved one, or the one the grouped tier falls back to.\<close>

lemma kernel_run_resolved:
  assumes "layer_resolved env img layer" and "shared_w13_suh layer"
    and "fat_kernel_enabled env \<or> grouped_fat_enabled env" and "effective_tier layer \<noteq> Some Grouped"
  shows "effective_tier layer = Some Kernel \<and> kernel_symbols_present img"
  using assms
  by (auto simp: layer_resolved_def resolve_exl3_fat_tier_def configured_fat_tier_def Let_def split: if_splits)

lemma grouped_run_resolved:
  assumes "layer_resolved env img layer" and "effective_tier layer = Some Grouped" and "experts_fit layer"
  shows "load_fat_moe_ext img \<noteq> None" and "\<forall>p \<in> set (inners layer). grouped_ready p"
  using assms
  by (auto simp: layer_resolved_def resolve_exl3_fat_tier_def configured_fat_tier_def Let_def exl3_fat_moe_symbols_def
      grouped_fat_eligibility_def packs_eligibility_iff experts_fit_def list_all_iff grouped_ready_def k4_mcg_def
      split: if_splits)

lemma batched_slices:
  assumes laws: "ext_laws ops packs" and fit: "list_all (\<lambda>p. shared_suh p \<and> same_codes p) packs"
    and "length counts = length packs"
  shows "slices_from (batched_pairs ops limit packs xh) P ts ws 0 0 counts
    = slices_from (slice_rows ops limit packs xh) P ts ws 0 0 counts"
proof (rule slices_from_cong)
  fix i ts' ws' assume "i < length counts"
  then have p: "packs ! i \<in> set packs" using assms(3) by simp
  then have "shared_suh (packs ! i)" "same_codes (packs ! i)" using fit by (simp_all add: list_all_iff)
  then have "batched_row ops limit (packs ! i) h = expert_row ops limit (packs ! i) h" for h
    by (intro batched_row_eq[OF laws p]) (simp_all add: same_codes_def)
  then show "batched_pairs ops limit packs xh (0 + i) ts' ws' = slice_rows ops limit packs xh (0 + i) ts' ws'"
    by (simp add: batched_pairs_def slice_rows_def)
qed

lemma run_fat_experts_adds:
  fixes ops :: "('t, 'v::linordered_idom) torch_ops"
  assumes laws: "ext_laws ops (inners layer)" and resolved: "layer_resolved env img layer"
    and fit: "experts_fit layer" and scratch: "scratch_ready env"
    and not_grouped: "grouped_fat_enabled env \<Longrightarrow> effective_tier layer \<noteq> Some Grouped"
    and counts: "length counts = length (inners layer)"
    and ids: "ids_in_map emap ids"
    and pairs: "mset (slices_from (slice_rows ops limit (inners layer) (map (half_row ops) x2d)) ((<) cap) ts ws 0 0 counts)
      = mset (routed_pairs ops limit (inners layer) emap x2d ids weights (\<lambda>e. cap < counts ! e))"
  shows "fst (run_fat_experts env img ops x2d ids weights emap limit cap counts ts ws out layer st)
    = Inr (index_add out (slices_from (slice_rows ops limit (inners layer) (map (half_row ops) x2d)) ((<) cap) ts ws 0 0 counts))"
proof -
  define packs where "packs = inners layer"
  define S where "S = slices_from (slice_rows ops limit packs (map (half_row ops) x2d)) ((<) cap) ts ws 0 0 counts"
  note len = counts[folded packs_def]
  show ?thesis
  proof (cases "(batched_fat_fallback_enabled env \<or> fat_kernel_enabled env \<or> grouped_fat_enabled env) \<and> shared_w13_suh layer")
    case True
    then have shared: "list_all (\<lambda>p. shared_suh p \<and> same_codes p) packs"
      using fit by (simp add: experts_fit_def packs_def)
    have "kernel_symbols_present img \<and> (\<forall>i < length counts. fat_kernel_fits (packs ! (0 + i)))"
      if "fat_kernel_enabled env \<or> grouped_fat_enabled env"
    proof -
      have "effective_tier layer \<noteq> Some Grouped"
        using resolved not_grouped that
        by (auto simp: layer_resolved_def resolve_exl3_fat_tier_def configured_fat_tier_def Let_def split: if_splits)
      then have "effective_tier layer = Some Kernel \<and> kernel_symbols_present img"
        using kernel_run_resolved[OF resolved] True that by simp
      then show ?thesis using fit len by (simp add: experts_fit_def packs_def list_all_length)
    qed
    note loop = batched_loop_pairs[OF scratch, where use_kernel = "fat_kernel_enabled env \<or> grouped_fat_enabled env"
        and packs = packs and e = 0 and counts = counts and img = img, OF this]
    show ?thesis
      using True
      by (simp add: run_fat_experts_def Let_def case_prod_beta apply_exl3_batched_fat_def packs_def[symmetric] loop
          batched_slices[OF laws[folded packs_def] shared len])
  next
    case False
    note not_batched = this
    show ?thesis
    proof (cases "sorted_fat_fallback_enabled env \<or> batched_fat_fallback_enabled env \<or> fat_kernel_enabled env \<or> grouped_fat_enabled env")
      case True
      with not_batched show ?thesis
        by (auto simp: run_fat_experts_def Let_def case_prod_beta apply_exl3_sorted_fat_def sorted_slices_eq)
    next
      case False
      define fat where "fat = filter (\<lambda>e. cap < counts ! e) [0 ..< length counts]"
      have "index_add out S = index_add out (routed_pairs ops limit packs emap x2d ids weights (\<lambda>e. cap < counts ! e))"
        by (rule index_add_mset) (simp add: S_def packs_def pairs)
      also have "\<dots> = index_add out (routed_pairs ops limit packs emap x2d ids weights (\<lambda>e. e \<in> set fat))"
        by (rule arg_cong[of _ _ "index_add out"])
          (auto simp: routed_pairs_def fat_def len intro!: map_cong filter_cong)
      finally have S: "index_add out S = index_add out (routed_pairs ops limit packs emap x2d ids weights (\<lambda>e. e \<in> set fat))" .
      have "fat = [] \<Longrightarrow> index_add out S = out"
        unfolding S by (simp add: routed_pairs_def index_add_def)
      with False show ?thesis
        by (auto simp: run_fat_experts_def Let_def case_prod_beta fat_def[symmetric] packs_def[symmetric] S_def[symmetric]
            python_loop_pairs[OF ids] S)
    qed
  qed
qed


text \<open>An expert has at most one row of each token.\<close>

lemma count_distinct: "distinct xs \<Longrightarrow> count_list xs x \<le> 1"
  by (induction xs) (auto simp: count_list_0_iff)

lemma count_owned_row:
  assumes "distinct (filter (\<lambda>e. e \<noteq> None) (map (owned_expert emap n) row))" and "e < n"
  shows "count_list (map (\<lambda>raw. case owned_expert emap n raw of None \<Rightarrow> n | Some e \<Rightarrow> e) row) e \<le> 1"
proof -
  have "count_list (map (\<lambda>raw. case owned_expert emap n raw of None \<Rightarrow> n | Some e \<Rightarrow> e) row) e
      = count_list (filter (\<lambda>e. e \<noteq> None) (map (owned_expert emap n) row)) (Some e)"
    using assms(2) by (induction row) (auto split: option.splits)
  also have "\<dots> \<le> 1"
    using assms(1) by (rule count_distinct)
  finally show ?thesis .
qed

lemma count_owned_tokens:
  assumes "routing_ok ops emap n ids weights" and "e < n"
  shows "count_list (map_topk_to_local ids n emap) e \<le> length ids"
proof -
  have rows: "\<forall>row \<in> set ids. distinct (filter (\<lambda>e. e \<noteq> None) (map (owned_expert emap n) row))"
    using assms(1) by (simp add: routing_ok_def list_all_iff)
  have "count_list (map (\<lambda>raw. case owned_expert emap n raw of None \<Rightarrow> n | Some e \<Rightarrow> e) (concat rs)) e \<le> length rs"
    if "set rs \<subseteq> set ids" for rs
    using that
  proof (induction rs)
    case (Cons r rs)
    then have "count_list (map (\<lambda>raw. case owned_expert emap n raw of None \<Rightarrow> n | Some e \<Rightarrow> e) r) e \<le> 1"
      using rows assms(2) by (intro count_owned_row) auto
    with Cons show ?case by (simp add: count_list_append)
  qed simp
  from this[of ids] show ?thesis by (simp add: map_topk_owned)
qed

lemma max_count_less: "max_count counts \<le> cap \<Longrightarrow> c \<in> set counts \<Longrightarrow> c \<le> cap"
  using max_count_upper by (rule order_trans)

lemma fused_moe_routed:
  fixes ops :: "('t, 'v::linordered_idom) torch_ops"
  assumes kernel: "moe_kernel_law ops moe" and laws: "ext_laws ops (inners layer)"
    and argsort: "\<And>keys. is_argsort keys (argsort keys)"
    and routing: "routing_ok ops emap (length (inners layer)) ids weights" and tokens: "length x2d = length ids"
    and ready: "call_ready env img x_device cap layer" and resolved: "layer_resolved env img layer"
    and fit: "experts_fit layer" and cap: "0 < cap"
  shows "fst (apply_exl3_fused_moe env img ops moe argsort x_device hidden x2d ids weights emap limit layer st)
    = Inr (routed_output ops limit (inners layer) emap hidden x2d ids weights)"
proof -
  define packs where "packs = inners layer"
  define n where "n = length packs"
  define xh where "xh = map (half_row ops) x2d"
  obtain ts ws ec where bufs: "routed_buffers ops argsort ids weights n emap = (ts, ws, ec)"
    by (metis prod_cases3)
  define counts where "counts = take n ec"
  define zero where "zero = (zero_rows (length x2d) hidden :: 'v list list)"
  define S where "S P = slices_from (slice_rows ops limit packs xh) P ts ws 0 0 counts" for P
  note facts = routed_buffers_facts[OF argsort routing tokens refl bufs[unfolded n_def packs_def], folded packs_def, folded n_def xh_def, folded counts_def]
  have lens: "length counts = length packs" "length ts = length ws" "sum_list counts \<le> length ts"
    using facts(1-4) by (simp_all add: counts_def n_def)
  have counts_nth: "counts ! e = ec ! e" if "e < n" for e using that by (simp add: counts_def)
  have ids: "ids_in_map emap ids" using routing by (simp add: routing_ok_def)
  have all: "index_add zero (S (\<lambda>n. True)) = routed_output ops limit packs emap hidden x2d ids weights"
  proof -
    have "index_add zero (S (\<lambda>n. True)) = index_add zero (routed_pairs ops limit packs emap x2d ids weights (\<lambda>e. True))"
      by (rule index_add_mset) (simp add: S_def facts(5))
    then show ?thesis by (simp add: zero_def tokens routed_pairs_sum)
  qed
  have launch: "moe xh out ec ts ws cap packs limit = index_add out (S (\<lambda>n. n \<le> cap))" for out
    using kernel facts(1-3) by (simp add: moe_kernel_law_def S_def counts_def n_def)
  have thin: "index_add zero (S (\<lambda>n. n \<le> cap)) = routed_output ops limit packs emap hidden x2d ids weights"
    if "\<And>c. c \<in> set counts \<Longrightarrow> c \<le> cap"
    using that by (simp add: S_def slices_below flip: all)
  have rest: "index_add (index_add zero (S (\<lambda>n. n \<le> cap))) (S ((<) cap)) = routed_output ops limit packs emap hidden x2d ids weights"
    unfolding index_add_append all[symmetric] S_def by (rule index_add_mset) (rule slices_split)
  have few: "c \<le> cap" if few_prems: "length x2d \<le> cap" "c \<in> set counts" for c
  proof -
    obtain e where e: "e < n" "c = ec ! e"
      using few_prems(2) lens(1) counts_nth by (metis in_set_conv_nth n_def)
    then have "c = count_list (map_topk_to_local ids n emap) e"
      using facts(6)[of e] by simp
    also have "\<dots> \<le> length ids"
      by (rule count_owned_tokens[OF routing[folded packs_def, folded n_def] e(1)])
    finally show ?thesis using few_prems(1) tokens by simp
  qed
  have fat: "fst (run_fat_experts env img ops x2d ids weights emap limit cap counts ts ws out (layer\<lparr>last_fallback := No_path, last_reason := No_fat_experts\<rparr>) st')
      = Inr (index_add out (S ((<) cap)))" if "grouped_fat_enabled env \<Longrightarrow> effective_tier layer \<noteq> Some Grouped" for out st'
  proof -
    let ?l = "layer\<lparr>last_fallback := No_path, last_reason := No_fat_experts\<rparr>"
    have keep: "effective_tier ?l = effective_tier layer" "shared_w13_suh ?l = shared_w13_suh layer"
      "grouped_fat_eligibility img ?l = grouped_fat_eligibility img layer"
      by (simp_all add: grouped_fat_eligibility_def cong: if_cong)
    have same: "inners ?l = packs" "layer_resolved env img ?l = layer_resolved env img layer"
      "experts_fit ?l = experts_fit layer"
      unfolding layer_resolved_def keep by (simp_all add: packs_def experts_fit_def)
    have "mset (S ((<) cap)) = mset (routed_pairs ops limit packs emap x2d ids weights (\<lambda>e. cap < counts ! e))"
      unfolding S_def facts(5) routed_pairs_def n_def[symmetric]
      by (rule mset_filter_map_cong) (auto simp: counts_nth)
    then show ?thesis
      using that ready lens laws resolved fit ids
      by (subst run_fat_experts_adds) (simp_all add: same keep S_def xh_def call_ready_def packs_def)
  qed
  have grouped: "fst (apply_exl3_grouped_fat env img ops x_device xh out counts ts ws (layer\<lparr>last_fallback := No_path, last_reason := No_fat_experts\<rparr>) cap limit st')
      = Inr (index_add out (S ((<) cap)))" if "effective_tier layer = Some Grouped" for out st'
  proof -
    note run = grouped_run_resolved[OF resolved that fit, folded packs_def]
    obtain s st'' where "grouped_scratch env img (w13_device layer) (int (length ts)) (if xh = [] then 0 else int (length (hd xh)))
        (layer_intermediate layer) st' = Inr (s, st'')"
      using grouped_scratch_returns ready by (metis call_ready_def)
    then show ?thesis
      using run(1) ready
      unfolding S_def
      by (subst grouped_pairs[OF laws[folded packs_def] run(2) lens(1) _ refl lens(2)[symmetric] lens(3), symmetric])
        (auto simp: apply_exl3_grouped_fat_def Let_def call_ready_def packs_def tile_rows_gateup_def tile_rows_down_def)
  qed
  obtain stats where stats: "maybe_stats env counts st' = Inr (stats st')" for st'
    using maybe_stats_returns[of env "int cap" counts] ready unfolding call_ready_def by metis
  have tiles: "exl3_moe_row_tiles moe xh zero counts ts ws cap packs limit (max_count counts) = index_add zero (S (\<lambda>n. True))"
    unfolding S_def by (rule row_tiles_pairs[OF kernel lens(1,3) lens(2)[symmetric] cap])
  have max: "max_count counts \<le> cap \<Longrightarrow> index_add zero (S (\<lambda>n. n \<le> cap)) = routed_output ops limit packs emap hidden x2d ids weights"
    using max_count_less by (intro thin)
  define g where "g out st' = snd (apply_exl3_grouped_fat env img ops x_device xh out counts ts ws
      (layer\<lparr>last_fallback := No_path, last_reason := No_fat_experts\<rparr>) cap limit st')" for out st'
  have grouped_pair: "apply_exl3_grouped_fat env img ops x_device xh out counts ts ws
      (layer\<lparr>last_fallback := No_path, last_reason := No_fat_experts\<rparr>) cap limit st' = (Inr (index_add out (S ((<) cap))), g out st')"
    if "effective_tier layer = Some Grouped" for out st'
    using grouped[OF that] by (simp add: prod_eq_iff g_def)
  have few_thin: "length x2d \<le> cap \<Longrightarrow> index_add zero (S (\<lambda>n. n \<le> cap)) = routed_output ops limit packs emap hidden x2d ids weights"
    using few by (intro thin)
  have built: "pointers_built layer" "temp_rows layer = Some cap" using ready by (simp_all add: call_ready_def)
  have "fst (apply_exl3_fused_moe env img ops moe argsort x_device hidden x2d ids weights emap limit layer st)
      = Inr (routed_output ops limit packs emap hidden x2d ids weights)"
    unfolding apply_exl3_fused_moe_def Let_def packs_def[symmetric] n_def[symmetric] bufs xh_def[symmetric] case_prod_conv
      counts_def[symmetric] zero_def[symmetric] launch stats tiles built
    by (simp add: grouped_pair fat rest all record_fat_tier_def stats launch built few_thin max tiles)
  then show ?thesis by (simp only: packs_def)
qed

end
