(* ===== verification/Exl3_Load.thy ===== *)
theory Exl3_Load
  imports Expert_Agree Packed_Tensors
begin

text \<open>
  Loading the packed experts of a GLM-5.3-Flash checkpoint (\<open>overlay/exl3.py\<close>): the quantization config, the
  parameters a layer allocates, the tensor-parallel loader, and what is set up after loading. The
  device is one, and the words of the trellis have any type.
\<close>

subsection \<open>The configuration\<close>

datatype cfg_value = Cfg_int int | Cfg_str string

definition cfg_int :: "cfg_value \<Rightarrow> int res" where
  "cfg_int v = (case v of Cfg_int n \<Rightarrow> Inr n | Cfg_str s \<Rightarrow> py_int s)"

text \<open>\<open>str\<close> of a number is compared with nothing, so it is kept as a string of no letters.\<close>

definition cfg_str :: "cfg_value \<Rightarrow> string" where
  "cfg_str v = (case v of Cfg_int n \<Rightarrow> [] | Cfg_str s \<Rightarrow> s)"

record exl3_config =
  cfg_bits :: int
  codebook :: string
  raw_config :: "(string \<times> cfg_value) list"

definition exl3_init :: "int \<Rightarrow> string \<Rightarrow> (string \<times> cfg_value) list \<Rightarrow> exl3_config res" where
  "exl3_init b book rest =
     (if book \<noteq> ''mcg'' then Inl ValueError
      else if b \<notin> {3, 4, 5, 6} then Inl ValueError
      else Inr \<lparr>cfg_bits = b, codebook = book, raw_config = rest\<rparr>)"

definition cfg_get :: "(string \<times> cfg_value) list \<Rightarrow> string \<Rightarrow> cfg_value \<Rightarrow> cfg_value" where
  "cfg_get cfg k d = (case map_of cfg k of None \<Rightarrow> d | Some v \<Rightarrow> v)"

definition from_config :: "(string \<times> cfg_value) list \<Rightarrow> exl3_config res" where
  "from_config cfg =
     rbind (cfg_int (cfg_get cfg ''bits'' (Cfg_int 4))) (\<lambda>b.
       exl3_init b (cfg_str (cfg_get cfg ''codebook'' (Cfg_str ''mcg'')))
         (filter (\<lambda>(k, v). k \<notin> {''bits'', ''codebook'', ''scope'', ''quant_method'', ''tensor_storage''}) cfg))"

definition override_quantization_method :: "(string \<times> cfg_value) list \<Rightarrow> string option" where
  "override_quantization_method cfg =
     (if lower (cfg_str (cfg_get cfg ''quant_method'' (Cfg_str ''''))) = ''exl3'' then Some ''exl3'' else None)"

datatype layer_kind = Routed_experts | Linear_base | Other_layer
datatype quant_method = Exl3_moe | Unquantized_linear

definition get_quant_method :: "layer_kind \<Rightarrow> quant_method option" where
  "get_quant_method kind = (case kind of
       Routed_experts \<Rightarrow> Some Exl3_moe
     | Linear_base \<Rightarrow> Some Unquantized_linear
     | Other_layer \<Rightarrow> None)"

subsection \<open>Names and shards\<close>

definition EXL3_SUFFIXES :: "string list" where
  "EXL3_SUFFIXES = [''trellis'', ''suh'', ''svh'', ''mcg'']"

text \<open>\<open>weight_name.rsplit(".", 1)[-1]\<close>, and the first suffix that it is or ends with.\<close>

definition last_dotted :: "string \<Rightarrow> string" where
  "last_dotted name = last (split_on (CHR ''.'') name)"

definition suffix_from_mapped_name :: "string \<Rightarrow> string res" where
  "suffix_from_mapped_name name =
     (case filter (\<lambda>s. last_dotted name = s \<or> ends_with (CHR ''_'' # s) (last_dotted name)) EXL3_SUFFIXES of
        [] \<Rightarrow> Inl ValueError
      | s # _ \<Rightarrow> Inr s)"

text \<open>\<open>_narrow_tp\<close>, with the slice along its dimension as an argument.\<close>

definition narrow_tp :: "nat \<Rightarrow> nat \<Rightarrow> nat \<Rightarrow> (nat \<Rightarrow> nat \<Rightarrow> 'b) \<Rightarrow> 'b \<Rightarrow> 'b res" where
  "narrow_tp dim_size tp_rank tp_size part whole =
     (if tp_size \<le> 1 then Inr whole
      else if dim_size mod tp_size \<noteq> 0 then Inl ValueError
      else Inr (part (dim_size div tp_size * tp_rank) (dim_size div tp_size)))"

text \<open>A suffix that the loader takes tells the kind of the tensor; another kind has another rank and fails.\<close>

definition shard_exl3_col :: "('t, 'v) packed \<Rightarrow> string \<Rightarrow> nat \<Rightarrow> nat \<Rightarrow> ('t, 'v) packed res" where
  "shard_exl3_col loaded suffix tp_rank tp_size =
     (if suffix = ''trellis'' then (case loaded of
          Trellis t \<Rightarrow> narrow_tp (width_of t) tp_rank tp_size (\<lambda>a n. Trellis (map (narrow a n) t)) loaded
        | _ \<Rightarrow> if tp_size \<le> 1 then Inr loaded else Inl IndexError)
      else if suffix = ''svh'' then (case loaded of
          Trellis t \<Rightarrow> narrow_tp (length t) tp_rank tp_size (\<lambda>a n. Trellis (narrow a n t)) loaded
        | Scales v \<Rightarrow> narrow_tp (length v) tp_rank tp_size (\<lambda>a n. Scales (narrow a n v)) loaded
        | Marker m \<Rightarrow> narrow_tp (length m) tp_rank tp_size (\<lambda>a n. Marker (narrow a n m)) loaded)
      else Inr loaded)"

definition shard_exl3_row :: "('t, 'v) packed \<Rightarrow> string \<Rightarrow> nat \<Rightarrow> nat \<Rightarrow> ('t, 'v) packed res" where
  "shard_exl3_row loaded suffix tp_rank tp_size =
     (if suffix = ''trellis'' \<or> suffix = ''suh'' then (case loaded of
          Trellis t \<Rightarrow> narrow_tp (length t) tp_rank tp_size (\<lambda>a n. Trellis (narrow a n t)) loaded
        | Scales v \<Rightarrow> narrow_tp (length v) tp_rank tp_size (\<lambda>a n. Scales (narrow a n v)) loaded
        | Marker m \<Rightarrow> narrow_tp (length m) tp_rank tp_size (\<lambda>a n. Marker (narrow a n m)) loaded)
      else Inr loaded)"

subsection \<open>The parameters of a layer\<close>

text \<open>
  The eight stacked parameters, read expert by expert: the slots of gate (w1) and up (w3) are the two
  entries of the w13 stacks, that of down those of the w2 stacks.
\<close>

record ('t, 'v) exl3_slot =
  slot_trellis :: "'t list list list"
  slot_suh :: "'v list"
  slot_svh :: "'v list"
  slot_mcg :: "int list"

record ('t, 'v) expert_params =
  w1_slot :: "('t, 'v) exl3_slot"
  w3_slot :: "('t, 'v) exl3_slot"
  w2_slot :: "('t, 'v) exl3_slot"

text \<open>\<open>torch.empty\<close> leaves whatever the memory held: \<open>ft\<close>, \<open>fv\<close> and \<open>fm\<close> stand for it.\<close>

definition empty_slot :: "'t \<Rightarrow> 'v \<Rightarrow> int \<Rightarrow> nat \<Rightarrow> nat \<Rightarrow> nat \<Rightarrow> ('t, 'v) exl3_slot" where
  "empty_slot ft fv fm ins outs k_words =
     \<lparr>slot_trellis = replicate (ins div 16) (replicate (outs div 16) (replicate k_words ft)),
      slot_suh = replicate ins fv, slot_svh = replicate outs fv, slot_mcg = [fm]\<rparr>"

definition create_weights ::
    "'t \<Rightarrow> 'v \<Rightarrow> int \<Rightarrow> nat \<Rightarrow> nat \<Rightarrow> nat \<Rightarrow> nat \<Rightarrow> ('t, 'v) expert_params list res" where
  "create_weights ft fv fm b num_experts hidden width =
     (if hidden mod 16 \<noteq> 0 \<or> width mod 16 \<noteq> 0 then Inl ValueError
      else
        let k_words = b * 16
        in Inr (replicate num_experts
             \<lparr>w1_slot = empty_slot ft fv fm hidden width k_words,
              w3_slot = empty_slot ft fv fm hidden width k_words,
              w2_slot = empty_slot ft fv fm width hidden k_words\<rparr>))"

text \<open>
  \<open>dest.copy_\<close> into the tensor of a slot, when the shapes are the same. A tensor of another kind than the
  suffix of its name says counts as one of another shape: \<open>copy_\<close> between number types is left out.
\<close>

definition slot_put :: "string \<Rightarrow> ('t, 'v) packed \<Rightarrow> ('t, 'v) exl3_slot \<Rightarrow> ('t, 'v) exl3_slot res" where
  "slot_put suffix p s = (case p of
       Trellis t \<Rightarrow> if suffix = ''trellis'' \<and> shape (Trellis (slot_trellis s) :: ('t, 'v) packed) = shape p
         then Inr (s\<lparr>slot_trellis := t\<rparr>) else Inl RuntimeError
     | Scales v \<Rightarrow> if suffix = ''suh'' \<and> length (slot_suh s) = length v then Inr (s\<lparr>slot_suh := v\<rparr>)
         else if suffix = ''svh'' \<and> length (slot_svh s) = length v then Inr (s\<lparr>slot_svh := v\<rparr>)
         else Inl RuntimeError
     | Marker m \<Rightarrow> if suffix = ''mcg'' \<and> length (slot_mcg s) = length m then Inr (s\<lparr>slot_mcg := m\<rparr>) else Inl RuntimeError)"

text \<open>
  \<open>_load_exl3\<close>: the parameter is the one of the shard and of the name's suffix, as the mapping of names to
  parameters gives it; \<open>local_of\<close> is the owner's map of expert ids, -1 for an expert of another rank. The
  boolean tells that the tensor was taken.
\<close>

definition shards :: "string set" where
  "shards = {''w1'', ''w2'', ''w3''}"

definition slot_of :: "string \<Rightarrow> ('t, 'v) expert_params \<Rightarrow> ('t, 'v) exl3_slot" where
  "slot_of shard_id p = (if shard_id = ''w1'' then w1_slot p else if shard_id = ''w3'' then w3_slot p else w2_slot p)"

definition shard_tensor :: "nat \<Rightarrow> nat \<Rightarrow> string \<Rightarrow> ('t, 'v) packed \<Rightarrow> string \<Rightarrow> ('t, 'v) packed res" where
  "shard_tensor tp_rank tp_size shard_id loaded suffix =
     (if shard_id = ''w2'' then shard_exl3_row loaded suffix tp_rank tp_size
      else shard_exl3_col loaded suffix tp_rank tp_size)"

definition slot_put_at :: "string \<Rightarrow> string \<Rightarrow> ('t, 'v) packed \<Rightarrow> ('t, 'v) expert_params \<Rightarrow> ('t, 'v) expert_params res" where
  "slot_put_at shard_id suffix p e =
     rbind (slot_put suffix p (slot_of shard_id e)) (\<lambda>s.
       Inr (if shard_id = ''w1'' then e\<lparr>w1_slot := s\<rparr> else if shard_id = ''w3'' then e\<lparr>w3_slot := s\<rparr> else e\<lparr>w2_slot := s\<rparr>))"

definition load_exl3 ::
    "nat \<Rightarrow> nat \<Rightarrow> (int \<Rightarrow> int) \<Rightarrow> ('t, 'v) packed \<Rightarrow> string \<Rightarrow> string \<Rightarrow> int \<Rightarrow> ('t, 'v) expert_params list \<Rightarrow>
     (bool \<times> ('t, 'v) expert_params list) res" where
  "load_exl3 tp_rank tp_size local_of loaded weight_name shard_id expert_id params =
     (let local_id = local_of expert_id
      in if local_id = - 1 then Inr (False, params)
      else
        rbind (suffix_from_mapped_name weight_name) (\<lambda>suffix.
        if shard_id \<notin> shards then Inl ValueError
        else
          rbind (shard_tensor tp_rank tp_size shard_id loaded suffix) (\<lambda>sharded.
          rbind (update_at (nat local_id) (slot_put_at shard_id suffix sharded) params) (\<lambda>params.
          Inr (True, params)))))"

subsection \<open>After loading\<close>

definition MCG_MARKER_SIGNED_INT32 :: int where
  "MCG_MARKER_SIGNED_INT32 = - 877912083"

text \<open>
  \<open>make_linear_exl3\<close>; exllamav3 reads K off the words of the trellis, by the argument \<open>K_of_words\<close>, and takes
  the codebook from the marker it is given.
\<close>

definition make_linear_exl3 :: "(nat \<Rightarrow> int) \<Rightarrow> ('t, 'v) exl3_slot \<Rightarrow> ('t, 'v) exl3_linear" where
  "make_linear_exl3 K_of_words s =
     \<lparr>in_features = int (length (slot_suh s)), out_features = int (length (slot_svh s)), trellis = slot_trellis s,
      suh = slot_suh s, svh = slot_svh s, codes_K = K_of_words (width_of (concat (slot_trellis s))),
      is_mcg = True, is_mul1 = False\<rparr>"

definition make_pack :: "(nat \<Rightarrow> int) \<Rightarrow> ('t, 'v) expert_params \<Rightarrow> ('t, 'v) expert_pack" where
  "make_pack K_of_words p =
     \<lparr>gate = make_linear_exl3 K_of_words (w1_slot p), up = make_linear_exl3 K_of_words (w3_slot p),
      down = make_linear_exl3 K_of_words (w2_slot p)\<rparr>"

text \<open>
  \<open>build_exl3_fused_state\<close>: the pointer tables are those of the packs, the temporaries are shared by the
  layers of the same key. \<open>max_concurrency\<close> is what the extension reports.
\<close>

definition build_exl3_fused_state ::
    "env \<Rightarrow> int \<Rightarrow> ('t, 'v) moe_layer \<Rightarrow> fat_state \<Rightarrow> (('t, 'v) moe_layer \<times> fat_state) res" where
  "build_exl3_fused_state env max_concurrency layer st =
     (let hidden = layer_hidden layer; width = layer_intermediate layer; concurrency = max 1 max_concurrency
      in rbind (temp_rows_fused env) (\<lambda>rows.
        let key = (w13_device layer, hidden, width, concurrency, rows);
            layer = layer\<lparr>pointers_built := True, temp_rows := Some (nat rows), fused_concurrency := concurrency\<rparr>
        in case map_of (fused_temp_cache st) key of
             Some bytes \<Rightarrow> Inr (layer, st\<lparr>fused_temps_bytes := bytes\<rparr>)
           | None \<Rightarrow>
               (let bytes = 2 * (concurrency * rows * hidden) + 2 * (concurrency * rows * hidden)
                    + 2 * (concurrency * rows * width) + 2 * (concurrency * rows * width)
                in Inr (layer, st\<lparr>fused_temp_cache := dict_set key bytes (fused_temp_cache st),
                     fused_temps_allocs := fused_temps_allocs st + 1, fused_temps_bytes := bytes\<rparr>))))"

text \<open>
  \<open>process_weights_after_loading\<close>, for a layer that has the packed parameters: an exception of the fused
  state is caught and leaves the plain loop. The log line is left out.
\<close>

definition process_weights_after_loading ::
    "env \<Rightarrow> image \<Rightarrow> (nat \<Rightarrow> int) \<Rightarrow> int \<Rightarrow> ('t, 'v) expert_params list \<Rightarrow> ('t, 'v) moe_layer \<Rightarrow> fat_state \<Rightarrow>
     (('t, 'v) moe_layer \<times> fat_state) res" where
  "process_weights_after_loading env img K_of_words max_concurrency params layer st =
     (if \<not> list_all (\<lambda>p. list_all (\<lambda>s. list_all (\<lambda>m. m = MCG_MARKER_SIGNED_INT32) (slot_mcg s))
            [w1_slot p, w3_slot p, w2_slot p]) params
      then Inl RuntimeError
      else
        let layer = layer\<lparr>shared_w13_suh := list_all (\<lambda>p. slot_suh (w1_slot p) = slot_suh (w3_slot p)) params,
              inners := map (make_pack K_of_words) params\<rparr>
        in rbind (record_fat_resolution env img layer st) (\<lambda>(layer, st).
          if fused_moe_enabled env \<and> fst (exl3_fat_symbols img) then
            case build_exl3_fused_state env max_concurrency layer st of
              Inl err \<Rightarrow> Inr (layer\<lparr>pointers_built := False\<rparr>, st)
            | Inr r \<Rightarrow> Inr r
          else Inr (layer, st)))"

text \<open>\<open>Exl3MoEMethod.apply\<close>: a limit that is missing or zero is the default.\<close>

definition SWIGLU_LIMIT_DEFAULT :: "'v::linordered_idom" where
  "SWIGLU_LIMIT_DEFAULT = 10"

definition swiglu_limit :: "'v::linordered_idom option \<Rightarrow> 'v" where
  "swiglu_limit configured = (case configured of None \<Rightarrow> SWIGLU_LIMIT_DEFAULT | Some l \<Rightarrow> if l = 0 then SWIGLU_LIMIT_DEFAULT else l)"


subsection \<open>The shards of a tensor\<close>

lemma narrow_tp_all:
  assumes "0 < tp" and "k * tp = dim_size" and "tp = 1 \<Longrightarrow> part 0 dim_size = whole"
  shows "rmap (\<lambda>r. narrow_tp dim_size r tp part whole) [0 ..< tp] = Inr (map (\<lambda>r. part (k * r) k) [0 ..< tp])"
proof (cases "tp = 1")
  case True
  then show ?thesis using assms by (simp add: narrow_tp_def)
next
  case False
  then have "narrow_tp dim_size r tp part whole = Inr (part (k * r) k)" for r
    using assms(1,2) by (auto simp: narrow_tp_def)
  then have "rmap (\<lambda>r. narrow_tp dim_size r tp part whole) rs = Inr (map (\<lambda>r. part (k * r) k) rs)" for rs
    by (induction rs) simp_all
  then show ?thesis .
qed

text \<open>
  The shards of the ranks are the tensor: for a size that divides, every rank gets its shard, the
  columns of a gate or up trellis and the entries of its output scales come one rank after the other,
  and so do the rows of a down trellis and the entries of its input scales; the other tensors are whole
  on every rank.
\<close>

lemma shards_are_the_tensor:
  fixes t :: "'t list list list" and v :: "'v list"
  assumes "0 < tp"
    and "\<forall>row \<in> set t. length row = kc * tp" and "t \<noteq> []" and "length t = kr * tp" and "length v = kv * tp"
  shows "(\<exists>parts. rmap (\<lambda>r. shard_exl3_col (Trellis t :: ('t, 'v) packed) ''trellis'' r tp) [0 ..< tp] = Inr (map Trellis parts) \<and>
        map (\<lambda>i. concat (map (\<lambda>p. p ! i) parts)) [0 ..< length t] = t) \<and>
    (\<exists>parts. rmap (\<lambda>r. shard_exl3_row (Trellis t :: ('t, 'v) packed) ''trellis'' r tp) [0 ..< tp] = Inr (map Trellis parts) \<and> concat parts = t) \<and>
    (\<exists>parts. rmap (\<lambda>r. shard_exl3_col (Scales v :: ('t, 'v) packed) ''svh'' r tp) [0 ..< tp] = Inr (map Scales parts) \<and> concat parts = v) \<and>
    (\<exists>parts. rmap (\<lambda>r. shard_exl3_row (Scales v :: ('t, 'v) packed) ''suh'' r tp) [0 ..< tp] = Inr (map Scales parts) \<and> concat parts = v) \<and>
    shard_exl3_col (Scales v :: ('t, 'v) packed) ''suh'' r tp = Inr (Scales v) \<and> shard_exl3_row (Scales v :: ('t, 'v) packed) ''svh'' r tp = Inr (Scales v)"
proof (intro conjI)
  have width: "width_of t = kc * tp" using assms(2,3) by (cases t) (simp_all add: width_of_def)
  have whole: "map (narrow 0 (kc * tp)) t = t" using assms(2) by (intro map_idI) (simp add: narrow_def)
  then have whole: "Trellis (map (narrow 0 (kc * tp)) t) = (Trellis t :: ('t, 'v) packed)" by simp
  let ?parts = "map (\<lambda>r. map (narrow (kc * r) kc) t) [0 ..< tp]"
  have "rmap (\<lambda>r. shard_exl3_col (Trellis t :: ('t, 'v) packed) ''trellis'' r tp) [0 ..< tp] = Inr (map Trellis ?parts)"
    using narrow_tp_all[OF assms(1) refl, of "\<lambda>a n. Trellis (map (narrow a n) t)" kc "Trellis t :: ('t, 'v) packed", OF whole]
    by (simp add: shard_exl3_col_def width o_def)
  moreover have "map (\<lambda>i. concat (map (\<lambda>p. p ! i) ?parts)) [0 ..< length t] = t"
    by (rule nth_equalityI) (simp_all add: o_def narrow_tiles assms(2))
  ultimately show "\<exists>parts. rmap (\<lambda>r. shard_exl3_col (Trellis t :: ('t, 'v) packed) ''trellis'' r tp) [0 ..< tp] = Inr (map Trellis parts) \<and>
        map (\<lambda>i. concat (map (\<lambda>p. p ! i) parts)) [0 ..< length t] = t"
    by blast
  show "\<exists>parts. rmap (\<lambda>r. shard_exl3_row (Trellis t :: ('t, 'v) packed) ''trellis'' r tp) [0 ..< tp] = Inr (map Trellis parts) \<and> concat parts = t"
    using narrow_tp_all[OF assms(1) assms(4)[symmetric], of "\<lambda>a n. Trellis (narrow a n t)" "Trellis t :: ('t, 'v) packed"]
    by (intro exI[of _ "map (\<lambda>r. narrow (kr * r) kr t) [0 ..< tp]"])
      (simp add: shard_exl3_row_def assms(4) narrow_def[of 0] o_def narrow_tiles[OF assms(4)])
  have scales: "rmap (\<lambda>r. narrow_tp (length v) r tp (\<lambda>a n. Scales (narrow a n v)) (Scales v :: ('t, 'v) packed)) [0 ..< tp]
      = Inr (map Scales (map (\<lambda>r. narrow (kv * r) kv v) [0 ..< tp]))"
    using narrow_tp_all[OF assms(1) assms(5)[symmetric], of "\<lambda>a n. Scales (narrow a n v)" "Scales v :: ('t, 'v) packed"]
    by (simp add: narrow_def[of 0] o_def)
  show "\<exists>parts. rmap (\<lambda>r. shard_exl3_col (Scales v :: ('t, 'v) packed) ''svh'' r tp) [0 ..< tp] = Inr (map Scales parts) \<and> concat parts = v"
    using scales narrow_tiles[OF assms(5)] by (intro exI[of _ "map (\<lambda>r. narrow (kv * r) kv v) [0 ..< tp]"]) (simp add: shard_exl3_col_def)
  show "\<exists>parts. rmap (\<lambda>r. shard_exl3_row (Scales v :: ('t, 'v) packed) ''suh'' r tp) [0 ..< tp] = Inr (map Scales parts) \<and> concat parts = v"
    using scales narrow_tiles[OF assms(5)] by (intro exI[of _ "map (\<lambda>r. narrow (kv * r) kv v) [0 ..< tp]"]) (simp add: shard_exl3_row_def)
qed (simp_all add: shard_exl3_col_def shard_exl3_row_def)

lemma shards_are_the_tensor_witness:
  "\<exists>parts. rmap (\<lambda>r. shard_exl3_col (Trellis [[[1::int], [2]], [[3], [4]]] :: (int, int) packed) ''trellis'' r 2) [0 ..< 2]
      = Inr (map Trellis parts) \<and> map (\<lambda>i. concat (map (\<lambda>p. p ! i) parts)) [0 ..< length [[[1::int], [2]], [[3], [4]]]] = [[[1], [2]], [[3], [4]]]"
  by (rule conjunct1[OF shards_are_the_tensor[of 2 "[[[1], [2]], [[3], [4]]]" 1 1 "[5, 6]" 1 0]]) simp_all


subsection \<open>What a load leaves in the parameters\<close>

text \<open>The loader over the tensors of a checkpoint, each with its mapped name, shard and expert.\<close>

type_synonym ('t, 'v) item = "('t, 'v) packed \<times> string \<times> string \<times> int"

fun load_all ::
    "nat \<Rightarrow> nat \<Rightarrow> (int \<Rightarrow> int) \<Rightarrow> ('t, 'v) item list \<Rightarrow> ('t, 'v) expert_params list \<Rightarrow> ('t, 'v) expert_params list res" where
  "load_all tp_rank tp_size local_of [] params = Inr params"
| "load_all tp_rank tp_size local_of ((loaded, name, shard_id, expert_id) # items) params =
     rbind (load_exl3 tp_rank tp_size local_of loaded name shard_id expert_id params) (\<lambda>(_, params).
       load_all tp_rank tp_size local_of items params)"

definition slot_get :: "('t, 'v) exl3_slot \<Rightarrow> string \<Rightarrow> ('t, 'v) packed" where
  "slot_get s suffix =
     (if suffix = ''trellis'' then Trellis (slot_trellis s)
      else if suffix = ''suh'' then Scales (slot_suh s)
      else if suffix = ''svh'' then Scales (slot_svh s)
      else Marker (slot_mcg s))"

definition tensor_at :: "('t, 'v) expert_params list \<Rightarrow> nat \<times> string \<times> string \<Rightarrow> ('t, 'v) packed" where
  "tensor_at params k = (case k of (e, shard_id, suffix) \<Rightarrow> slot_get (slot_of shard_id (params ! e)) suffix)"

lemma suffix_known: "suffix_from_mapped_name name = Inr s \<Longrightarrow> s \<in> set EXL3_SUFFIXES"
  unfolding suffix_from_mapped_name_def
  by (auto split: list.splits) (metis filter_is_subset list.set_intros(1) subset_iff)

lemma slot_put_effect:
  assumes "slot_put suffix p s = Inr s'" and "other \<in> set EXL3_SUFFIXES"
  shows "slot_get s' suffix = p \<and> (other \<noteq> suffix \<longrightarrow> slot_get s' other = slot_get s other) \<and>
    shape (slot_get s' other) = shape (slot_get s other)"
proof -
  have other: "other = ''trellis'' \<or> other = ''suh'' \<or> other = ''svh'' \<or> other = ''mcg''"
    using assms(2) by (auto simp: EXL3_SUFFIXES_def)
  show ?thesis
  proof (cases p)
    case (Trellis t)
    then have "suffix = ''trellis''" "s' = s\<lparr>slot_trellis := t\<rparr>" "shape (Trellis (slot_trellis s) :: ('a, 'b) packed) = shape p"
      using assms(1) by (auto simp: slot_put_def split: if_splits)
    then show ?thesis using other Trellis by (elim disjE) (simp_all add: slot_get_def)
  next
    case (Scales v)
    then have "(suffix = ''suh'' \<and> s' = s\<lparr>slot_suh := v\<rparr> \<and> length (slot_suh s) = length v)
        \<or> (suffix = ''svh'' \<and> s' = s\<lparr>slot_svh := v\<rparr> \<and> length (slot_svh s) = length v)"
      using assms(1) by (auto simp: slot_put_def split: if_splits)
    then show ?thesis using other Scales by (elim disjE conjE) (simp_all add: slot_get_def)
  next
    case (Marker m)
    then have "suffix = ''mcg''" "s' = s\<lparr>slot_mcg := m\<rparr>" "length (slot_mcg s) = length m"
      using assms(1) by (auto simp: slot_put_def split: if_splits)
    then show ?thesis using other Marker by (elim disjE) (simp_all add: slot_get_def)
  qed
qed

lemma slot_put_at_effect:
  assumes "slot_put_at shard_id suffix p e = Inr e'" and "shard_id \<in> shards" and "sh \<in> shards"
  shows "slot_put suffix p (slot_of shard_id e) = Inr (slot_of shard_id e') \<and> (sh \<noteq> shard_id \<longrightarrow> slot_of sh e' = slot_of sh e)"
proof -
  obtain s where s: "slot_put suffix p (slot_of shard_id e) = Inr s"
    and e': "e' = (if shard_id = ''w1'' then e\<lparr>w1_slot := s\<rparr> else if shard_id = ''w3'' then e\<lparr>w3_slot := s\<rparr> else e\<lparr>w2_slot := s\<rparr>)"
    using assms(1) by (auto simp: slot_put_at_def rbind_Inr_iff)
  show ?thesis
    using assms(2,3) unfolding s e' shards_def by (elim insertE emptyE) (simp_all add: slot_of_def)
qed

lemma load_exl3_cases:
  assumes "load_exl3 tp_rank tp_size local_of loaded name shard_id expert_id params = Inr (taken, params')"
    and "local_of expert_id \<noteq> - 1"
  shows "\<exists>suffix sharded p. suffix_from_mapped_name name = Inr suffix \<and> shard_id \<in> shards \<and>
    shard_tensor tp_rank tp_size shard_id loaded suffix = Inr sharded \<and> nat (local_of expert_id) < length params \<and>
    slot_put_at shard_id suffix sharded (params ! nat (local_of expert_id)) = Inr p \<and>
    params' = params[nat (local_of expert_id) := p]"
  using assms by (auto simp: load_exl3_def Let_def rbind_Inr_iff update_at_Inr split: if_splits)

definition known_key :: "nat \<times> string \<times> string \<Rightarrow> bool" where
  "known_key k \<longleftrightarrow> fst (snd k) \<in> shards \<and> snd (snd k) \<in> set EXL3_SUFFIXES"

text \<open>One load writes one tensor and keeps every shape.\<close>

lemma load_exl3_effect:
  assumes "load_exl3 tp_rank tp_size local_of loaded name shard_id expert_id params = Inr (taken, params')"
    and "local_of expert_id \<noteq> - 1" and "suffix_from_mapped_name name = Inr suffix" and "known_key k"
  shows "shard_tensor tp_rank tp_size shard_id loaded suffix = Inr (tensor_at params' (nat (local_of expert_id), shard_id, suffix))"
    and "k \<noteq> (nat (local_of expert_id), shard_id, suffix) \<Longrightarrow> tensor_at params' k = tensor_at params k"
    and "shape (tensor_at params' k) = shape (tensor_at params k)" and "length params' = length params"
    and "known_key (nat (local_of expert_id), shard_id, suffix)"
proof -
  obtain sharded p where load: "shard_id \<in> shards" "shard_tensor tp_rank tp_size shard_id loaded suffix = Inr sharded"
    "nat (local_of expert_id) < length params" "slot_put_at shard_id suffix sharded (params ! nat (local_of expert_id)) = Inr p"
    "params' = params[nat (local_of expert_id) := p]"
    using load_exl3_cases[OF assms(1,2)] assms(3) by auto
  obtain e sh sf where k: "k = (e, sh, sf)" by (cases k)
  then have known: "sh \<in> shards" "sf \<in> set EXL3_SUFFIXES" using assms(4) by (simp_all add: known_key_def)
  note put_at = slot_put_at_effect[OF load(4,1) known(1)]
  note put = slot_put_effect[OF conjunct1[OF put_at] known(2)]
  show "shard_tensor tp_rank tp_size shard_id loaded suffix = Inr (tensor_at params' (nat (local_of expert_id), shard_id, suffix))"
    using load(2,3,5) put by (simp add: tensor_at_def)
  show "k \<noteq> (nat (local_of expert_id), shard_id, suffix) \<Longrightarrow> tensor_at params' k = tensor_at params k"
    using load(3,5) put put_at
    by (cases "e = nat (local_of expert_id)"; cases "sh = shard_id") (auto simp: tensor_at_def k)
  show "shape (tensor_at params' k) = shape (tensor_at params k)"
    using load(3,5) put put_at
    by (cases "e = nat (local_of expert_id)"; cases "sh = shard_id") (auto simp: tensor_at_def k)
  show "length params' = length params" using load(5) by simp
  show "known_key (nat (local_of expert_id), shard_id, suffix)"
    using load(1) suffix_known[OF assms(3)] by (simp add: known_key_def)
qed

text \<open>A tensor of another rank's expert changes nothing.\<close>

lemma load_exl3_skips:
  "local_of expert_id = - 1 \<Longrightarrow> load_exl3 tp_rank tp_size local_of loaded name shard_id expert_id params = Inr (False, params)"
  by (simp add: load_exl3_def)

lemma load_exl3_suffix:
  "load_exl3 tp_rank tp_size local_of loaded name shard_id expert_id params = Inr r \<Longrightarrow> local_of expert_id \<noteq> - 1 \<Longrightarrow>
   \<exists>suffix. suffix_from_mapped_name name = Inr suffix"
  by (auto simp: load_exl3_def Let_def rbind_Inr_iff)

definition item_key :: "(int \<Rightarrow> int) \<Rightarrow> ('t, 'v) item \<Rightarrow> (nat \<times> string \<times> string) option" where
  "item_key local_of item = (case item of (loaded, name, shard_id, expert_id) \<Rightarrow>
     if local_of expert_id = - 1 then None
     else case suffix_from_mapped_name name of Inl err \<Rightarrow> None | Inr suffix \<Rightarrow> Some (nat (local_of expert_id), shard_id, suffix))"

lemma load_all_keeps:
  assumes "load_all tp_rank tp_size local_of items params = Inr params'" and "known_key k"
  shows "length params' = length params \<and> shape (tensor_at params' k) = shape (tensor_at params k) \<and>
    (Some k \<notin> item_key local_of ` set items \<longrightarrow> tensor_at params' k = tensor_at params k)"
  using assms(1)
proof (induction items arbitrary: params)
  case (Cons item items)
  obtain loaded name shard_id expert_id where item: "item = (loaded, name, shard_id, expert_id)" by (cases item)
  obtain taken params1 where step: "load_exl3 tp_rank tp_size local_of loaded name shard_id expert_id params = Inr (taken, params1)"
    and rest: "load_all tp_rank tp_size local_of items params1 = Inr params'"
    using Cons.prems item by (auto simp: rbind_Inr_iff)
  note IH = Cons.IH[OF rest]
  show ?case
  proof (cases "local_of expert_id = - 1")
    case True
    then have "item_key local_of item = None" "params1 = params"
      using step by (simp_all add: item_key_def item load_exl3_skips)
    with IH show ?thesis by auto
  next
    case False
    obtain suffix where suffix: "suffix_from_mapped_name name = Inr suffix"
      using load_exl3_suffix[OF step False] by blast
    note effect = load_exl3_effect[OF step False suffix assms(2)]
    have "item_key local_of item = Some (nat (local_of expert_id), shard_id, suffix)"
      using False suffix by (simp add: item_key_def item)
    with IH effect show ?thesis by auto
  qed
qed simp

lemma load_exl3_known:
  assumes "load_exl3 tp_rank tp_size local_of loaded name shard_id expert_id params = Inr r" and "local_of expert_id \<noteq> - 1"
  shows "\<exists>suffix. suffix_from_mapped_name name = Inr suffix \<and> known_key (nat (local_of expert_id), shard_id, suffix)"
proof -
  obtain suffix where suffix: "suffix_from_mapped_name name = Inr suffix"
    using load_exl3_suffix[OF assms] by blast
  have "shard_id \<in> shards"
    using assms by (auto simp: load_exl3_def Let_def rbind_Inr_iff shards_def split: if_splits)
  then show ?thesis using suffix suffix_known[OF suffix] by (simp add: known_key_def)
qed

lemma load_all_known:
  assumes "load_all tp_rank tp_size local_of items params = Inr params'"
    and "(loaded, name, shard_id, expert_id) \<in> set items" and "local_of expert_id \<noteq> - 1"
  shows "\<exists>suffix. suffix_from_mapped_name name = Inr suffix \<and> known_key (nat (local_of expert_id), shard_id, suffix)"
  using assms(1,2)
proof (induction items arbitrary: params)
  case (Cons item items)
  then show ?case
    using load_exl3_known[of tp_rank tp_size local_of loaded name shard_id expert_id params] assms(3)
    by (cases item) (auto simp: rbind_Inr_iff)
qed simp

lemma load_exl3_shapes:
  assumes "load_exl3 tp_rank tp_size local_of loaded name shard_id expert_id params = Inr (taken, params')" and "known_key k"
  shows "shape (tensor_at params' k) = shape (tensor_at params k) \<and> length params' = length params"
proof (cases "local_of expert_id = - 1")
  case True
  then show ?thesis using assms(1) by (simp add: load_exl3_skips)
next
  case False
  obtain suffix where suffix: "suffix_from_mapped_name name = Inr suffix"
    using load_exl3_suffix[OF assms(1) False] by blast
  show ?thesis using load_exl3_effect(3,4)[OF assms(1) False suffix assms(2)] by simp
qed

text \<open>
  Every tensor of a checkpoint that loads ends in its own place: when no two of the tensors that a rank
  takes have the same expert, shard and suffix, each of them is found after the load, cut for the rank,
  under its expert, shard and suffix, and its shape is the one that was allocated.
\<close>

lemma loaded_tensors_in_place:
  assumes "load_all tp_rank tp_size local_of items params = Inr params'"
    and "distinct (filter (\<lambda>k. k \<noteq> None) (map (item_key local_of) items))"
    and "(loaded, name, shard_id, expert_id) \<in> set items" and "local_of expert_id \<noteq> - 1"
  shows "\<exists>suffix. suffix_from_mapped_name name = Inr suffix \<and>
    shard_tensor tp_rank tp_size shard_id loaded suffix = Inr (tensor_at params' (nat (local_of expert_id), shard_id, suffix)) \<and>
    shape (tensor_at params' (nat (local_of expert_id), shard_id, suffix)) = shape (tensor_at params (nat (local_of expert_id), shard_id, suffix))"
  using assms(1-3)
proof (induction items arbitrary: params)
  case (Cons item items)
  obtain l n sh e where item: "item = (l, n, sh, e)" by (cases item)
  obtain taken params1 where step: "load_exl3 tp_rank tp_size local_of l n sh e params = Inr (taken, params1)"
    and rest: "load_all tp_rank tp_size local_of items params1 = Inr params'"
    using Cons.prems(1) item by (auto simp: rbind_Inr_iff)
  have distinct: "distinct (filter (\<lambda>k. k \<noteq> None) (map (item_key local_of) items))"
    using Cons.prems(2) by (auto split: if_splits)
  show ?case
  proof (cases "(loaded, name, shard_id, expert_id) = item")
    case True
    then have same: "l = loaded" "n = name" "sh = shard_id" "e = expert_id" by (simp_all add: item)
    obtain suffix where suffix: "suffix_from_mapped_name name = Inr suffix"
      using load_exl3_suffix[OF step] assms(4) same by auto
    define k where "k = (nat (local_of expert_id), shard_id, suffix)"
    note step' = step[unfolded same]
    have known: "known_key k"
      using load_exl3_known[OF step' assms(4)] suffix unfolding k_def by auto
    note effect = load_exl3_effect[OF step' assms(4) suffix known]
    have "Some k \<notin> item_key local_of ` set items"
    proof
      assume "Some k \<in> item_key local_of ` set items"
      moreover have "item_key local_of item = Some k" using assms(4) suffix by (simp add: item_key_def item same k_def)
      ultimately have "Some k \<in> set (map (item_key local_of) items)" "distinct (Some k # filter (\<lambda>k. k \<noteq> None) (map (item_key local_of) items))"
        using Cons.prems(2) by (simp_all del: not_None_eq split_paired_Ex)
      then show False by (simp del: not_None_eq split_paired_Ex)
    qed
    then show ?thesis
      using load_all_keeps[OF rest known] effect suffix by (auto simp: k_def)
  next
    case False
    then have inside: "(loaded, name, shard_id, expert_id) \<in> set items" using Cons.prems(3) by simp
    from Cons.IH[OF rest distinct inside]
    obtain suffix where IH: "suffix_from_mapped_name name = Inr suffix"
      "shard_tensor tp_rank tp_size shard_id loaded suffix = Inr (tensor_at params' (nat (local_of expert_id), shard_id, suffix))"
      "shape (tensor_at params' (nat (local_of expert_id), shard_id, suffix)) = shape (tensor_at params1 (nat (local_of expert_id), shard_id, suffix))"
      by blast
    have "known_key (nat (local_of expert_id), shard_id, suffix)"
      using load_all_known[OF rest inside assms(4)] IH(1) by auto
    then show ?thesis using load_exl3_shapes[OF step] IH by auto
  qed
qed simp


lemma loaded_tensors_in_place_witness:
  "\<exists>params'. load_all 1 2 (\<lambda>e. e - 4)
      [(Scales [1, 2, 3, 4], ''layers.0.experts.4.w13_suh'', ''w1'', 4), (Scales [5, 6], ''layers.0.experts.4.w2_suh'', ''w2'', 4),
       (Scales [9], ''layers.0.experts.3.w2_svh'', ''w2'', 3)]
      [\<lparr>w1_slot = empty_slot (0 :: int) (0 :: int) 0 4 1 16, w3_slot = empty_slot 0 0 0 4 1 16, w2_slot = empty_slot 0 0 0 1 4 16\<rparr>]
      = Inr params' \<and> tensor_at params' (0, ''w1'', ''suh'') = Scales [1, 2, 3, 4] \<and> tensor_at params' (0, ''w2'', ''suh'') = Scales [6]"
  (is "\<exists>params'. load_all 1 2 ?local ?items ?params = Inr params' \<and> _")
proof -
  have "\<not> isl (load_all 1 2 ?local ?items ?params)" by code_simp
  then obtain params' where load: "load_all 1 2 ?local ?items ?params = Inr params'" by (cases "load_all 1 2 ?local ?items ?params") auto
  have keys: "map (item_key ?local) ?items = [Some (0, ''w1'', ''suh''), Some (0, ''w2'', ''suh''), None]" by code_simp
  have distinct: "distinct (filter (\<lambda>k. k \<noteq> None) (map (item_key ?local) ?items))" unfolding keys by simp
  have suffixes: "suffix_from_mapped_name ''layers.0.experts.4.w13_suh'' = Inr ''suh''" "suffix_from_mapped_name ''layers.0.experts.4.w2_suh'' = Inr ''suh''"
    by code_simp+
  have parts: "shard_tensor 1 2 ''w1'' (Scales [1, 2, 3, 4] :: (int, int) packed) ''suh'' = Inr (Scales [1, 2, 3, 4])"
    "shard_tensor 1 2 ''w2'' (Scales [5, 6] :: (int, int) packed) ''suh'' = Inr (Scales [6])"
    by code_simp+
  show ?thesis
    using load loaded_tensors_in_place[OF load distinct, of "Scales [1, 2, 3, 4]" "''layers.0.experts.4.w13_suh''" "''w1''" 4]
      loaded_tensors_in_place[OF load distinct, of "Scales [5, 6]" "''layers.0.experts.4.w2_suh''" "''w2''" 4]
    by (simp add: suffixes parts[unfolded One_nat_def])
qed

subsection \<open>A layer that is loaded\<close>

text \<open>What the set-up after loading leaves in the layer.\<close>

lemma resolution_layer:
  assumes "record_fat_resolution env img layer st = Inr (layer', st')"
  shows "\<exists>tier reason. resolve_exl3_fat_tier env img (shared_w13_suh layer) (grouped_fat_eligibility img layer) = Inr (tier, reason) \<and>
    layer' = layer\<lparr>grouped_eligible := grouped_fat_eligibility img layer, effective_tier := Some tier, tier_reason := reason\<rparr>"
  using assms by (cases "resolve_exl3_fat_tier env img (shared_w13_suh layer) (grouped_fat_eligibility img layer)")
    (auto simp: record_fat_resolution_def Let_def case_prod_beta)

lemma fused_state_layer:
  assumes "build_exl3_fused_state env c layer st = Inr (layer', st')"
  shows "\<exists>rows. temp_rows_fused env = Inr rows \<and>
    layer' = layer\<lparr>pointers_built := True, temp_rows := Some (nat rows), fused_concurrency := max 1 c\<rparr>"
  using assms by (cases "temp_rows_fused env") (auto simp: build_exl3_fused_state_def Let_def split: option.splits)

lemma eligibility_pointers [simp]:
  "grouped_fat_eligibility img (layer\<lparr>pointers_built := b, temp_rows := r, fused_concurrency := c\<rparr>) = grouped_fat_eligibility img layer"
  "grouped_fat_eligibility img (layer\<lparr>pointers_built := b\<rparr>) = grouped_fat_eligibility img layer"
  "grouped_fat_eligibility img (layer\<lparr>grouped_eligible := g, effective_tier := t, tier_reason := x\<rparr>) = grouped_fat_eligibility img layer"
  by (simp_all add: grouped_fat_eligibility_def cong: if_cong)

definition markers_ok :: "('t, 'v) expert_params list \<Rightarrow> bool" where
  "markers_ok params \<longleftrightarrow> list_all (\<lambda>p. list_all (\<lambda>s. list_all (\<lambda>m. m = MCG_MARKER_SIGNED_INT32) (slot_mcg s))
     [w1_slot p, w3_slot p, w2_slot p]) params"

lemma rbind_pair: "rbind m (\<lambda>(a, b). f a b) = Inr y \<Longrightarrow> \<exists>a b. m = Inr (a, b) \<and> f a b = Inr y"
  by (cases m) auto

lemma process_result:
  assumes "process_weights_after_loading env img K_of_words c params layer st = Inr (layer', st')"
  shows "markers_ok params \<and> inners layer' = map (make_pack K_of_words) params \<and>
    shared_w13_suh layer' = list_all (\<lambda>p. slot_suh (w1_slot p) = slot_suh (w3_slot p)) params \<and>
    (\<exists>tier reason. resolve_exl3_fat_tier env img (shared_w13_suh layer') (grouped_fat_eligibility img layer') = Inr (tier, reason) \<and>
       effective_tier layer' = Some tier)"
proof -
  define layer0 where "layer0 = layer\<lparr>shared_w13_suh := list_all (\<lambda>p. slot_suh (w1_slot p) = slot_suh (w3_slot p)) params,
    inners := map (make_pack K_of_words) params\<rparr>"
  have markers: "markers_ok params"
    using assms by (auto simp: process_weights_after_loading_def markers_ok_def split: if_splits)
  then have "rbind (record_fat_resolution env img layer0 st) (\<lambda>(layer1, st1). if fused_moe_enabled env \<and> fst (exl3_fat_symbols img) then
            case build_exl3_fused_state env c layer1 st1 of
              Inl err \<Rightarrow> Inr (layer1\<lparr>pointers_built := False\<rparr>, st1)
            | Inr r \<Rightarrow> Inr r
          else Inr (layer1, st1)) = Inr (layer', st')"
    using assms unfolding process_weights_after_loading_def Let_def layer0_def[symmetric] markers_ok_def[symmetric] by simp
  from rbind_pair[OF this] obtain layer1 st1 where resolution: "record_fat_resolution env img layer0 st = Inr (layer1, st1)"
    and rest: "(if fused_moe_enabled env \<and> fst (exl3_fat_symbols img) then
            case build_exl3_fused_state env c layer1 st1 of
              Inl err \<Rightarrow> Inr (layer1\<lparr>pointers_built := False\<rparr>, st1)
            | Inr r \<Rightarrow> Inr r
          else Inr (layer1, st1)) = (Inr (layer', st') :: (_ \<times> fat_state) res)"
    by blast
  obtain tier reason where tier: "resolve_exl3_fat_tier env img (shared_w13_suh layer0) (grouped_fat_eligibility img layer0) = Inr (tier, reason)"
    and layer1: "layer1 = layer0\<lparr>grouped_eligible := grouped_fat_eligibility img layer0, effective_tier := Some tier, tier_reason := reason\<rparr>"
    using resolution_layer[OF resolution] by blast
  have "layer' = layer1 \<or> layer' = layer1\<lparr>pointers_built := False\<rparr> \<or>
      (\<exists>r c. layer' = layer1\<lparr>pointers_built := True, temp_rows := r, fused_concurrency := c\<rparr>)"
    using rest fused_state_layer[of env c layer1 st1]
    by (cases "build_exl3_fused_state env c layer1 st1") (auto split: if_splits)
  then have "shared_w13_suh layer' = shared_w13_suh layer0 \<and> inners layer' = inners layer0 \<and> effective_tier layer' = Some tier \<and>
      grouped_fat_eligibility img layer' = grouped_fat_eligibility img layer0"
    unfolding layer1 by (elim disjE exE) simp_all
  then show ?thesis using markers tier by (simp add: layer0_def)
qed

text \<open>The shapes that are allocated, and kept by the loads.\<close>

definition slot_shape :: "nat \<Rightarrow> nat \<Rightarrow> nat \<Rightarrow> ('t, 'v) exl3_slot \<Rightarrow> bool" where
  "slot_shape ins outs words s \<longleftrightarrow>
     shape (Trellis (slot_trellis s) :: ('t, 'v) packed) = [ins div 16, outs div 16, words] \<and>
     length (slot_suh s) = ins \<and> length (slot_svh s) = outs"

lemma width_of_replicate [simp]: "0 < n \<Longrightarrow> width_of (replicate n xs) = length xs"
  by (cases n) (simp_all add: width_of_def)

lemma width_of_concat: "xs \<noteq> [] \<Longrightarrow> hd xs \<noteq> [] \<Longrightarrow> width_of (concat xs) = length (hd (hd xs))"
  by (cases xs; cases "hd xs") (simp_all add: width_of_def)

lemma empty_slot_shape:
  "16 \<le> ins \<Longrightarrow> 16 \<le> outs \<Longrightarrow> slot_shape ins outs words (empty_slot ft fv fm ins outs words)"
proof -
  assume "16 \<le> ins" "16 \<le> outs"
  then have pos: "0 < ins div 16" "0 < outs div 16" by linarith+
  then show ?thesis
    by (simp add: slot_shape_def empty_slot_def width_of_concat)
qed

lemma slot_put_shape: "slot_put suffix p s = Inr s' \<Longrightarrow> slot_shape ins outs words s \<Longrightarrow> slot_shape ins outs words s'"
  by (auto simp: slot_put_def slot_shape_def split: packed.splits if_splits)

definition expert_shape :: "nat \<Rightarrow> nat \<Rightarrow> nat \<Rightarrow> ('t, 'v) expert_params \<Rightarrow> bool" where
  "expert_shape hidden width words p \<longleftrightarrow> slot_shape hidden width words (w1_slot p) \<and> slot_shape hidden width words (w3_slot p) \<and>
     slot_shape width hidden words (w2_slot p)"

lemma created_shape:
  assumes "create_weights ft fv fm b n hidden width = Inr params" and "16 \<le> hidden" and "16 \<le> width"
  shows "list_all (expert_shape hidden width (b * 16)) params"
  using assms by (auto simp: create_weights_def Let_def expert_shape_def list_all_iff empty_slot_shape split: if_splits)

lemma slot_put_at_shape:
  assumes "slot_put_at shard_id suffix p e = Inr e'" and "shard_id \<in> shards" and "expert_shape hidden width words e"
  shows "expert_shape hidden width words e'"
proof -
  obtain s where s: "slot_put suffix p (slot_of shard_id e) = Inr s"
    and e': "e' = (if shard_id = ''w1'' then e\<lparr>w1_slot := s\<rparr> else if shard_id = ''w3'' then e\<lparr>w3_slot := s\<rparr> else e\<lparr>w2_slot := s\<rparr>)"
    using assms(1) by (auto simp: slot_put_at_def rbind_Inr_iff)
  note keep = slot_put_shape[OF s]
  show ?thesis
    using assms(2,3) keep unfolding e' shards_def
    by (elim insertE emptyE) (simp_all add: expert_shape_def slot_of_def)
qed

lemma load_all_shape:
  "load_all tp_rank tp_size local_of items params = Inr params' \<Longrightarrow> list_all (expert_shape hidden width words) params \<Longrightarrow>
   list_all (expert_shape hidden width words) params'"
proof (induction items arbitrary: params)
  case (Cons item items)
  obtain loaded name shard_id expert_id where item: "item = (loaded, name, shard_id, expert_id)" by (cases item)
  obtain taken params1 where step: "load_exl3 tp_rank tp_size local_of loaded name shard_id expert_id params = Inr (taken, params1)"
    and rest: "load_all tp_rank tp_size local_of items params1 = Inr params'"
    using Cons.prems item by (auto simp: rbind_Inr_iff)
  have "list_all (expert_shape hidden width words) params1"
  proof (cases "local_of expert_id = - 1")
    case True
    then show ?thesis using step Cons.prems(2) by (simp add: load_exl3_skips)
  next
    case False
    from load_exl3_cases[OF step False] obtain suffix sharded p where load: "shard_id \<in> shards" "nat (local_of expert_id) < length params"
      "slot_put_at shard_id suffix sharded (params ! nat (local_of expert_id)) = Inr p" "params1 = params[nat (local_of expert_id) := p]"
      by blast
    have "expert_shape hidden width words (params ! nat (local_of expert_id))"
      using Cons.prems(2) load(2) by (simp add: list_all_length)
    from slot_put_at_shape[OF load(3,1) this] show ?thesis
      using Cons.prems(2) load(2,4) by (auto simp: list_all_iff dest!: set_update_subset_insert[THEN subsetD])
  qed
  then show ?case using Cons.IH[OF rest] by simp
qed simp

text \<open>
  A checkpoint of K4 codes that loads gives a layer whose set-up holds: its tier is the one resolved for
  it in this image and environment, and its experts are what the layer's flag and its tier need, provided
  the hidden size and the experts' width fill the column blocks of the fat kernels.
\<close>

lemma loaded_layer:
  assumes "create_weights ft fv fm 4 n hidden width = Inr params" and "load_all tp_rank tp_size local_of items params = Inr params'"
    and "process_weights_after_loading env img K_of_words c params' layer st = Inr (layer', st')"
    and "K_of_words 64 = 4" and "0 < hidden" "hidden mod 128 = 0" and "0 < width" "width mod 64 = 0"
  shows "layer_resolved env img layer' \<and> experts_fit layer' \<and> inners layer' = map (make_pack K_of_words) params'"
proof -
  have dims: "16 \<le> hidden" "16 \<le> width" "hidden div 16 \<noteq> 0" "width div 16 \<noteq> 0"
    using assms(5-8) by (auto simp: mod_eq_0_iff_dvd elim!: dvdE)
  have shaped: "list_all (expert_shape hidden width 64) params'"
    using load_all_shape[OF assms(2) created_shape[OF assms(1) dims(1,2)]] by simp
  note result = process_result[OF assms(3)]
  define L where "L s = make_linear_exl3 K_of_words s" for s :: "('a, 'b) exl3_slot"
  have tiles: "slot_trellis s \<noteq> [] \<and> hd (slot_trellis s) \<noteq> [] \<and> width_of (concat (slot_trellis s)) = 64 \<and> length (hd (hd (slot_trellis s))) = 64"
    if "slot_shape ins outs 64 s" "ins div 16 \<noteq> 0" "outs div 16 \<noteq> 0" for s :: "('a, 'b) exl3_slot" and ins outs
  proof -
    have "slot_trellis s \<noteq> []" "width_of (slot_trellis s) \<noteq> 0" "width_of (concat (slot_trellis s)) = 64"
      using that by (auto simp: slot_shape_def)
    moreover from this have "hd (slot_trellis s) \<noteq> []" by (cases "slot_trellis s") (auto simp: width_of_def)
    ultimately show ?thesis using width_of_concat[of "slot_trellis s"] by simp
  qed
  have expert: "same_codes (make_pack K_of_words p) \<and> fat_kernel_fits (make_pack K_of_words p)" if "p \<in> set params'" for p
  proof -
    have p: "slot_shape hidden width 64 (w1_slot p)" "slot_shape hidden width 64 (w3_slot p)" "slot_shape width hidden 64 (w2_slot p)"
      using shaped that by (simp_all add: list_all_iff expert_shape_def)
    note t = tiles[OF p(1) dims(3,4)] tiles[OF p(2) dims(3,4)] tiles[OF p(3) dims(4,3)]
    have "hd (map2 (@) (slot_trellis (w1_slot p)) (slot_trellis (w3_slot p))) = hd (slot_trellis (w1_slot p)) @ hd (slot_trellis (w3_slot p))"
      using t by (cases "slot_trellis (w1_slot p)"; cases "slot_trellis (w3_slot p)") simp_all
    then have "length (hd (hd (map2 (@) (slot_trellis (w1_slot p)) (slot_trellis (w3_slot p))))) = 64"
      using t by simp
    moreover have "(width + width) mod 128 = 0" using assms(8) by (auto simp: mod_eq_0_iff_dvd elim!: dvdE)
    ultimately show ?thesis
      using t p assms(4,6)
      by (simp add: same_codes_def fat_kernel_fits_def fat_gemm_accepts_def make_pack_def make_linear_exl3_def packed13_def svh13_def
          tile_shape_def slot_shape_def)
  qed
  have "experts_fit layer'"
    using result expert by (auto simp: experts_fit_def list_all_iff shared_suh_def make_pack_def make_linear_exl3_def)
  then show ?thesis using result by (auto simp: layer_resolved_def)
qed

end
