(* ===== verification/Expert_Demo.thy ===== *)
theory Expert_Demo
  imports Exl3_Load
begin

text \<open>
  A small layer for the witnesses: integer weights, two experts of two inputs and one hidden unit, an
  image with all the kernels and buffers of one row.
\<close>

definition demo_argsort :: "nat list \<Rightarrow> nat list" where
  "demo_argsort keys = sort_key (\<lambda>j. keys ! j) [0 ..< length keys]"

lemma demo_argsort_ok: "is_argsort keys (demo_argsort keys)"
  by (simp add: is_argsort_def demo_argsort_def del: mset_upt)

definition demo_product :: "int list \<Rightarrow> int list list \<Rightarrow> int list" where
  "demo_product h cols = map (\<lambda>col. sum_list (map2 (*) h col)) cols"

definition demo_forward :: "(int, int) exl3_linear \<Rightarrow> int list \<Rightarrow> int list" where
  "demo_forward l h = map2 (*) (svh l) (demo_product (map2 (*) (suh l) h) (hd (trellis l)))"

definition demo_ops :: "(int, int) torch_ops" where
  "demo_ops = \<lparr>to_half = id, silu = (\<lambda>x. (if 0 < x then 1 else 0) * x), sigmoid = (\<lambda>x. if 0 < x then 1 else 0),
     forward = demo_forward, had_in = map2 (*), had_out = map2 (*), reconstruct = (\<lambda>packed K mcg mul1. hd packed),
     hgemm = demo_product\<rparr>"

text \<open>Its kernel does what \<open>moe_kernel_law\<close> says.\<close>

definition demo_moe :: "(int, int) moe_kernel" where
  "demo_moe xh out ec ts ws rows packs limit =
     index_add out (slices_from (slice_rows demo_ops limit packs xh) (\<lambda>n. n \<le> rows) ts ws 0 0 (take (length packs) ec))"

lemma demo_moe_law: "moe_kernel_law demo_ops demo_moe"
  by (simp add: moe_kernel_law_def demo_moe_def)

definition demo_linear :: "int \<Rightarrow> int \<Rightarrow> int list list \<Rightarrow> int list \<Rightarrow> int list \<Rightarrow> (int, int) exl3_linear" where
  "demo_linear K outs cols ins scales =
     \<lparr>in_features = int (length ins), out_features = outs, trellis = [cols], suh = ins, svh = scales,
      codes_K = K, is_mcg = True, is_mul1 = False\<rparr>"

definition demo_pack :: "int \<Rightarrow> int \<Rightarrow> (int, int) expert_pack" where
  "demo_pack K a = \<lparr>gate = demo_linear K 1 [[1, a]] [1, 1] [1], up = demo_linear K 1 [[a, 2]] [1, 1] [1],
     down = demo_linear K 2 [[1], [a]] [1] [1, 1]\<rparr>"

definition demo_moe_layer :: "int \<Rightarrow> fat_tier \<Rightarrow> (int, int) moe_layer" where
  "demo_moe_layer K tier =
     \<lparr>layer_bits = 4, layer_words = 64, inners = [demo_pack K 1, demo_pack K 3], shared_w13_suh = True,
      layer_hidden = 256, layer_intermediate = 128, w13_device = (''cuda'', 0), packed_devices = [],
      grouped_eligible = Eligible, effective_tier = Some tier, tier_reason = Tier_ok tier, last_fallback = No_path,
      last_reason = No_fat_experts, pointers_built = True, temp_rows = Some 1, last_apply_fused = None, fused_concurrency = 1\<rparr>"

definition demo_image :: image where
  "demo_image = \<lparr>exllamav3_ext = Some [''exl3_moe'', ''exl3_fat_gemm'', ''exl3_fat_gemm_scatter''],
     exl3_fat_moe_ext = Some EXL3_FAT_MOE_SYMBOLS, capability = (12, 1), tp_identity = (0, 1), stream_capturing = False\<rparr>"

definition demo_env :: env where
  "demo_env = [''EXL3_FAT_GROUPED'' \<mapsto> ''1'', ''EXL3_TEMP_ROWS_FUSED'' \<mapsto> ''1'']"

definition demo_x :: "int list list" where
  "demo_x = [[1, 1], [2, 0], [0, 3]]"

definition demo_routes :: "int list list" where
  "demo_routes = [[0, 1], [0, - 1], [0, 2]]"

definition demo_weights :: "int list list" where
  "demo_weights = [[1, 2], [1, 1], [3, 1]]"

lemma demo_laws: "ext_laws demo_ops (inners (demo_moe_layer K tier))"
  by (auto simp: ext_laws_def demo_moe_layer_def demo_pack_def demo_linear_def demo_ops_def linear_law_def joined_law_def
      linear_row_def demo_forward_def demo_product_def packed13_def svh13_def)

lemma demo_routing: "routing_ok demo_ops None 2 demo_routes demo_weights"
  by (simp add: routing_ok_def ids_in_map_def demo_routes_def demo_weights_def demo_ops_def owned_expert_def)

lemma demo_tokens: "length demo_x = length demo_routes"
  by (simp add: demo_x_def demo_routes_def)

lemma demo_ready: "call_ready demo_env demo_image (''cuda'', 0) 1 (demo_moe_layer 4 Grouped)"
  by code_simp

lemma demo_resolved: "layer_resolved demo_env demo_image (demo_moe_layer 4 Grouped)"
  by code_simp

lemma demo_fit: "experts_fit (demo_moe_layer 4 Grouped)"
  by (simp add: experts_fit_def demo_moe_layer_def demo_pack_def demo_linear_def shared_suh_def same_codes_def)

text \<open>A call of the layer, evaluated.\<close>

definition demo_call :: "int \<Rightarrow> fat_tier \<Rightarrow> (int, int, int list list) layer_outcome" where
  "demo_call K tier = apply_exl3_experts demo_env demo_image demo_ops demo_moe demo_argsort id (''cuda'', 0) 2 demo_x demo_routes
     demo_weights None 10 None (demo_moe_layer K tier) initial_fat_state"

lemma demo_call_returns: "fst (demo_call 4 Grouped) = Inr [[46, 126], [4, 4], [54, 54]]"
  by code_simp

lemma demo_call_counts: "prefill_layer_calls (snd (snd (demo_call 4 Grouped))) = 1"
  by code_simp

subsection \<open>A layer from a checkpoint\<close>

text \<open>
  One expert of 128 inputs and 64 hidden units, whose matrices send every row to their output scales,
  and the twelve tensors of its checkpoint.
\<close>

definition flat_ops :: "(int, int) torch_ops" where
  "flat_ops = \<lparr>to_half = id, silu = (\<lambda>x. x * x), sigmoid = id, forward = (\<lambda>l h. svh l), had_in = (\<lambda>s h. h),
     had_out = (\<lambda>s h. s), reconstruct = (\<lambda>packed K mcg mul1. []), hgemm = (\<lambda>h m. [])\<rparr>"

definition flat_params :: "nat \<Rightarrow> (int, int) expert_params list" where
  "flat_params b = replicate 1 \<lparr>w1_slot = empty_slot 0 1 MCG_MARKER_SIGNED_INT32 128 64 (b * 16),
     w3_slot = empty_slot 0 1 MCG_MARKER_SIGNED_INT32 128 64 (b * 16),
     w2_slot = empty_slot 0 1 MCG_MARKER_SIGNED_INT32 64 128 (b * 16)\<rparr>"

definition flat_moe :: "(int, int) moe_kernel" where
  "flat_moe xh out ec ts ws rows packs limit =
     index_add out (slices_from (slice_rows flat_ops limit packs xh) (\<lambda>n. n \<le> rows) ts ws 0 0 (take (length packs) ec))"

lemma flat_moe_law: "moe_kernel_law flat_ops flat_moe"
  by (simp add: moe_kernel_law_def flat_moe_def)

definition words_div :: "nat \<Rightarrow> int" where
  "words_div w = int (w div 16)"

lemma flat_created: "create_weights 0 1 MCG_MARKER_SIGNED_INT32 b 1 128 64 = Inr (flat_params b)"
  by (simp add: create_weights_def flat_params_def Let_def)

definition flat_matrix :: "nat \<Rightarrow> nat \<Rightarrow> nat \<Rightarrow> int \<Rightarrow> (int, int) exl3_slot" where
  "flat_matrix ins outs b a =
     \<lparr>slot_trellis = replicate (ins div 16) (replicate (outs div 16) (replicate (b * 16) 7)),
      slot_suh = replicate ins 2, slot_svh = replicate outs a, slot_mcg = [MCG_MARKER_SIGNED_INT32]\<rparr>"

definition flat_full :: "nat \<Rightarrow> (int, int) expert_params list" where
  "flat_full b = [\<lparr>w1_slot = flat_matrix 128 64 b 3, w3_slot = flat_matrix 128 64 b 5, w2_slot = flat_matrix 64 128 b 6\<rparr>]"

definition matrix_items :: "string \<Rightarrow> string \<Rightarrow> (int, int) exl3_slot \<Rightarrow> (int, int) item list" where
  "matrix_items param shard_id s =
     [(Trellis (slot_trellis s), param @ ''trellis'', shard_id, 0), (Scales (slot_suh s), param @ ''suh'', shard_id, 0),
      (Scales (slot_svh s), param @ ''svh'', shard_id, 0), (Marker (slot_mcg s), param @ ''mcg'', shard_id, 0)]"

definition flat_items :: "nat \<Rightarrow> (int, int) item list" where
  "flat_items b = matrix_items ''experts.w13_'' ''w1'' (flat_matrix 128 64 b 3) @
     matrix_items ''experts.w13_'' ''w3'' (flat_matrix 128 64 b 5) @ matrix_items ''experts.w2_'' ''w2'' (flat_matrix 64 128 b 6)"

lemma flat_items_load: "load_all 0 1 id (flat_items 4) (flat_params 4) = Inr (flat_full 4)"
  "load_all 0 1 id (flat_items 3) (flat_params 3) = Inr (flat_full 3)"
  by code_simp+

lemma flat_keys: "distinct (filter (\<lambda>k. k \<noteq> None) (map (item_key id) (flat_items 4)))"
proof -
  have "map (item_key id) (flat_items 4) =
    [Some (0, ''w1'', ''trellis''), Some (0, ''w1'', ''suh''), Some (0, ''w1'', ''svh''), Some (0, ''w1'', ''mcg''),
     Some (0, ''w3'', ''trellis''), Some (0, ''w3'', ''suh''), Some (0, ''w3'', ''svh''), Some (0, ''w3'', ''mcg''),
     Some (0, ''w2'', ''trellis''), Some (0, ''w2'', ''suh''), Some (0, ''w2'', ''svh''), Some (0, ''w2'', ''mcg'')]"
    by code_simp
  then show ?thesis by simp
qed

lemma flat_laws: "ext_laws flat_ops (map (make_pack words_div) (flat_full b))"
  by (simp add: ext_laws_def flat_full_def make_pack_def make_linear_exl3_def flat_ops_def linear_law_def joined_law_def
      linear_row_def svh13_def flat_matrix_def)

lemma flat_routing: "routing_ok flat_ops None 1 [[0], [0]] [[1], [2]]"
  by (simp add: routing_ok_def ids_in_map_def flat_ops_def owned_expert_def)

definition flat_layer :: "nat \<Rightarrow> (int, int) moe_layer" where
  "flat_layer b = (demo_moe_layer 4 Legacy)\<lparr>layer_bits := int b, layer_words := int (16 * b), layer_hidden := 128,
     layer_intermediate := 64, pointers_built := False, temp_rows := None\<rparr>"

definition flat_loaded :: "nat \<Rightarrow> ((int, int) moe_layer \<times> fat_state) res" where
  "flat_loaded b = process_weights_after_loading demo_env demo_image words_div 4 (flat_full b) (flat_layer b) initial_fat_state"

lemma flat_loads: "\<not> isl (flat_loaded 4)" "\<not> isl (flat_loaded 3)"
  by code_simp+

end
