(* ===== verification/Expert_Layer.thy ===== *)
theory Expert_Layer
  imports Exl3_Load Expert_Demo
begin

text \<open>
  What a layer of routed experts promises its callers: the output, the tier it reports, the errors of
  the fat kernels, and the balance of the counters that the diagnostics are read from.
\<close>

subsection \<open>The output\<close>

lemma experts_fst:
  assumes "call_ready env img x_device cap layer"
    and "fst (apply_exl3_fused_moe env img ops moe argsort x_device hidden x ids weights emap limit layer st) = Inr out"
    and "apply_exl3_python_loop ops x ids weights (inners layer) emap limit None (zero_rows (length x) hidden) = out"
  shows "fst (apply_exl3_experts env img ops moe argsort to_dtype x_device hidden x ids weights emap limit fused layer st)
    = Inr (map (map to_dtype) out)"
proof -
  have "inners layer \<noteq> []" "pointers_built layer" using assms(1) by (simp_all add: call_ready_def)
  then show ?thesis
    using assms(2,3) by (auto simp: apply_exl3_experts_def Let_def fst_def split: prod.splits sum.splits)
qed

lemma loop_routed:
  assumes "routing_ok ops emap (length packs) ids weights" and "length x = length ids"
  shows "apply_exl3_python_loop ops x ids weights packs emap limit None (zero_rows (length x) hidden)
    = routed_output ops limit packs emap hidden x ids weights"
  using assms by (simp add: python_loop_pairs routing_ok_def routed_pairs_sum)

text \<open>
  C26. Whichever path \<open>apply_exl3_experts\<close> takes (the plain loop, the fused kernel alone, its row tiles, the
  grouped kernels, the batched experts with or without the fat GEMM, the sorted slices or the loop over
  the fat experts), the layer returns for every token the sum of the rows of its routed experts of this
  rank, each scaled by its routing weight and in the type of the activations. This is under the
  conditions the code leaves to its callers: the routing weights are fp16 numbers, no token names an
  expert twice, and every expert id is within the expert map; the pointer tables are built for buffers
  of at least one row, the environment's numbers parse, no CUDA graph is captured and the
  activations are on the experts' device; the layer's tier is the one resolved for it in this environment
  and image; where its flag says so gate and up share their input scales and codes, and where its tier
  is the fat GEMM its codes are K4 ones the GEMM takes; and the extension's kernels keep their contracts.
\<close>

theorem experts_routed:
  fixes ops :: "('t, 'v::linordered_idom) torch_ops"
  assumes "moe_kernel_law ops moe" and "ext_laws ops (inners layer)"
    and "\<And>keys. is_argsort keys (argsort keys)"
    and "routing_ok ops emap (length (inners layer)) ids weights" and "length x = length ids"
    and "call_ready env img x_device cap layer" and "layer_resolved env img layer"
    and "experts_fit layer" and "0 < cap"
  shows "fst (apply_exl3_experts env img ops moe argsort to_dtype x_device hidden x ids weights emap limit fused layer st)
    = Inr (map (map to_dtype) (routed_output ops limit (inners layer) emap hidden x ids weights))"
  using assms(6) fused_moe_routed[OF assms] loop_routed[OF assms(4,5)] by (rule experts_fst)

lemma experts_routed_witness: "fst (demo_call 4 Grouped) = Inr [[46, 126], [4, 4], [54, 54]]"
proof -
  have "length (inners (demo_moe_layer 4 Grouped)) = 2" by (simp add: demo_moe_layer_def)
  moreover have "map (map id) (routed_output demo_ops 10 (inners (demo_moe_layer 4 Grouped)) None 2 demo_x demo_routes demo_weights)
      = [[46, 126], [4, 4], [54, 54]]"
    by code_simp
  ultimately show ?thesis
    unfolding demo_call_def
    by (subst experts_routed[OF demo_moe_law demo_laws demo_argsort_ok _ _ demo_ready demo_resolved demo_fit])
      (simp_all add: demo_routing demo_tokens)
qed

subsection \<open>The tier that is reported\<close>

lemma configured_flags:
  "configured_fat_tier env = Grouped \<longleftrightarrow> grouped_fat_enabled env"
  "configured_fat_tier env = Kernel \<longleftrightarrow> \<not> grouped_fat_enabled env \<and> fat_kernel_enabled env"
  "configured_fat_tier env = Batched \<longleftrightarrow> \<not> grouped_fat_enabled env \<and> \<not> fat_kernel_enabled env \<and> batched_fat_fallback_enabled env"
  by (simp_all add: configured_fat_tier_def)

text \<open>The tier of a layer as resolved at load.\<close>

lemma layer_resolvedD:
  assumes "layer_resolved env img layer"
  shows "\<exists>tier reason. resolve_exl3_fat_tier env img (shared_w13_suh layer) (grouped_fat_eligibility img layer) = Inr (tier, reason)
    \<and> effective_tier layer = Some tier"
  using assms by (auto simp: layer_resolved_def split: sum.splits prod.splits)

lemma run_fat_experts_tier:
  assumes resolved: "layer_resolved env img layer"
    and not_grouped: "grouped_fat_enabled env \<Longrightarrow> effective_tier layer \<noteq> Some Grouped"
  shows "\<exists>tier. effective_tier layer = Some tier \<and>
    last_fallback (fst (snd (run_fat_experts env img ops x2d ids weights emap limit cap counts ts ws out layer st))) = Tier_path tier"
proof -
  obtain tier reason where
      r: "resolve_exl3_fat_tier env img (shared_w13_suh layer) (grouped_fat_eligibility img layer) = Inr (tier, reason)"
      and t: "effective_tier layer = Some tier"
    using layer_resolvedD[OF resolved] by blast
  have "last_fallback (fst (snd (run_fat_experts env img ops x2d ids weights emap limit cap counts ts ws out layer st))) = Tier_path tier"
    using r not_grouped
    by (auto simp: run_fat_experts_def resolve_exl3_fat_tier_def configured_fat_tier_def record_fat_tier_def
        Let_def case_prod_beta t split: if_splits)
  then show ?thesis using t by blast
qed

text \<open>
  C28. A layer reports the tier it was resolved to: a successful call of more tokens than the buffers hold,
  with an expert that has more rows than they hold and no row tiles asked for, leaves in
  \<open>_exl3_last_fat_fallback\<close> the tier that was resolved when the weights were loaded.
\<close>

theorem fat_tier_reported:
  assumes "apply_exl3_fused_moe env img ops moe argsort x_device hidden x2d ids weights emap limit layer st = (Inr out, layer', st')"
    and "layer_resolved env img layer" and "temp_rows layer = Some cap" and "cap < length x2d"
    and "\<not> fused_moe_row_tile_enabled env"
    and "routed_buffers ops argsort ids weights (length (inners layer)) emap = (ts, ws, ec)"
    and "cap < max_count (take (length (inners layer)) ec)"
  shows "effective_tier layer = Some tier \<longleftrightarrow> last_fallback layer' = Tier_path tier"
proof -
  define l where "l = layer\<lparr>last_fallback := No_path, last_reason := No_fat_experts\<rparr>"
  have keep: "effective_tier l = effective_tier layer" "shared_w13_suh l = shared_w13_suh layer"
    "grouped_fat_eligibility img l = grouped_fat_eligibility img layer" "inners l = inners layer"
    by (simp_all add: l_def grouped_fat_eligibility_def cong: if_cong)
  have resolved: "layer_resolved env img l" using assms(2) unfolding layer_resolved_def keep .
  have built: "pointers_built layer"
    using assms(1) by (auto simp: apply_exl3_fused_moe_def split: bool.splits)
  show ?thesis
  proof (cases "grouped_fat_enabled env \<and> effective_tier layer = Some Grouped")
    case True
    then have "last_fallback layer' = Tier_path Grouped"
      using assms(1,3,4,5) built
      by (auto simp: apply_exl3_fused_moe_def Let_def assms(6) keep l_def[symmetric] record_fat_tier_def
          split: prod.splits sum.splits)
    with True show ?thesis by auto
  next
    case False
    obtain st1 out1 where "run_fat_experts env img ops x2d ids weights emap limit cap (take (length (inners layer)) ec) ts ws out1 l st1
        = (Inr out, layer', st')"
      using assms(1,3,4,5,7) built False
      by (auto simp: apply_exl3_fused_moe_def Let_def assms(6) keep l_def[symmetric] split: sum.splits)
    then show ?thesis
      using run_fat_experts_tier[OF resolved, of ops x2d ids weights emap limit cap "take (length (inners layer)) ec" ts ws out1 st1] False
      by (auto simp: keep)
  qed
qed

lemma fat_tier_reported_witness:
  "last_fallback (fst (snd (apply_exl3_fused_moe demo_env demo_image demo_ops demo_moe demo_argsort (''cuda'', 0) 2 demo_x demo_routes
      demo_weights None 10 (demo_moe_layer 4 Grouped) initial_fat_state))) = Tier_path Grouped"
proof -
  define run where "run = apply_exl3_fused_moe demo_env demo_image demo_ops demo_moe demo_argsort (''cuda'', 0) 2 demo_x demo_routes
      demo_weights None 10 (demo_moe_layer 4 Grouped) initial_fat_state"
  have "fst run = Inr [[46, 126], [4, 4], [54, 54]]" unfolding run_def by code_simp
  then have run: "run = (Inr [[46, 126], [4, 4], [54, 54]], fst (snd run), snd (snd run))" by (cases run) simp
  have bufs: "routed_buffers demo_ops demo_argsort demo_routes demo_weights (length (inners (demo_moe_layer 4 Grouped))) None
      = ([0, 1, 2, 0, 1, 2], [1, 1, 3, 2, 1, 1], [3, 1, 2])"
    by code_simp
  have "effective_tier (demo_moe_layer 4 Grouped) = Some Grouped \<longleftrightarrow> last_fallback (fst (snd run)) = Tier_path Grouped"
    by (rule fat_tier_reported[OF trans[OF run_def[symmetric] run] demo_resolved _ _ _ bufs, where cap = 1])
      (simp_all add: demo_moe_layer_def demo_x_def max_count_def fused_moe_row_tile_enabled_def env_on_def env_or_def demo_env_def)
  then show ?thesis by (simp add: run_def demo_moe_layer_def)
qed

subsection \<open>The tier that is resolved\<close>

text \<open>
  A resolved tier is never above the one the environment asks for, and can run: the tiers that share
  one input transform between gate and up need a checkpoint with shared scales, the fat GEMMs and the
  grouped kernels an image that has them, and the grouped kernels K4/MCG codes throughout.
\<close>

lemma resolved_tier_safe:
  assumes "resolve_exl3_fat_tier env img (shared_w13_suh layer) (grouped_fat_eligibility img layer) = Inr (tier, reason)"
  shows "tier_rank tier \<le> tier_rank (configured_fat_tier env) \<and>
    (tier \<notin> {Grouped, Kernel, Batched} \<or> shared_w13_suh layer) \<and>
    (tier \<noteq> Kernel \<or> kernel_symbols_present img) \<and>
    (tier \<noteq> Grouped \<or> (exl3_fat_moe_symbols img \<and> packs_eligibility (inners layer) = Eligible))"
  using assms
  by (auto simp: resolve_exl3_fat_tier_def Let_def tier_rank_def grouped_fat_eligibility_def split: if_splits)

lemma resolved_tier_safe_witness:
  "tier_rank Kernel \<le> tier_rank (configured_fat_tier demo_env) \<and> shared_w13_suh (demo_moe_layer 5 Kernel) \<and> kernel_symbols_present demo_image"
proof -
  have "resolve_exl3_fat_tier demo_env demo_image (shared_w13_suh (demo_moe_layer 5 Kernel)) (grouped_fat_eligibility demo_image (demo_moe_layer 5 Kernel))
      = Inr (Kernel, Fallback_ok (Bad_K 5) Kernel)"
    by code_simp
  from resolved_tier_safe[OF this] show ?thesis by simp
qed

subsection \<open>The size of the buffers\<close>

lemma bit_length_bound: "n < 2 ^ bit_length n"
proof (induction n rule: bit_length.induct)
  case (1 n)
  show ?case
  proof (cases "n = 0")
    case False
    then have "n div 2 < 2 ^ bit_length (n div 2)" by (rule 1)
    then have "n < 2 * 2 ^ bit_length (n div 2)" by linarith
    then show ?thesis using False by (simp add: bit_length.simps[of n])
  qed simp
qed

lemma dict_set_member: "(k, s) \<in> set (dict_set k s d)"
  by (induction d) auto

text \<open>
  A scratch buffer that \<open>_fat_scratch\<close> or \<open>_grouped_scratch\<close> hands out has the rows that were asked for,
  whether it comes from the cache or is new, and it stays in the cache for the next call.
\<close>

lemma scratch_holds_rows:
  "(case fat_scratch env dev rows g st of Inl err \<Rightarrow> True
      | Inr (s, st') \<Rightarrow> rows \<le> scratch_rows s \<and> s \<in> snd ` set (fat_scratch_cache st')) \<and>
   (case grouped_scratch env img dev rows hidden width st of Inl err \<Rightarrow> True
      | Inr (s, st') \<Rightarrow> rows \<le> scratch_rows s \<and> s \<in> snd ` set (grouped_scratch_cache st'))"
proof
  have power: "rows \<le> 2 ^ bit_length (nat (max 256 (max rows c) - 1))" for c
  proof -
    have "nat (max 256 (max rows c) - 1) < 2 ^ bit_length (nat (max 256 (max rows c) - 1))" by (rule bit_length_bound)
    then have "max 256 (max rows c) - 1 < 2 ^ bit_length (nat (max 256 (max rows c) - 1))"
      by (simp add: nat_less_iff)
    then show ?thesis by (simp add: max_def split: if_splits)
  qed
  show "case fat_scratch env dev rows g st of Inl err \<Rightarrow> True
      | Inr (s, st') \<Rightarrow> rows \<le> scratch_rows s \<and> s \<in> snd ` set (fat_scratch_cache st')"
    by (cases "configured_rows env")
      (auto simp: fat_scratch_def Let_def power dest!: map_of_SomeD intro: rev_image_eqI dict_set_member split: option.splits)
  show "case grouped_scratch env img dev rows hidden width st of Inl err \<Rightarrow> True
      | Inr (s, st') \<Rightarrow> rows \<le> scratch_rows s \<and> s \<in> snd ` set (grouped_scratch_cache st')"
    by (cases "configured_rows env"; cases "or_zero ''8'' (env_or env ''EXL3_FAT_GROUPED_TOPK'' ''8'')")
      (auto simp: grouped_scratch_def Let_def dest!: map_of_SomeD intro: rev_image_eqI dict_set_member split: option.splits)
qed

subsection \<open>The errors of the fat kernels\<close>

text \<open>
  The batched loop with the fat GEMM stops at an expert whose codes this does not take, if the kernel's
  scratch and the experts before it do not stop it first.
\<close>

lemma batched_loop_refuses:
  assumes "i < length counts" "cap < counts ! i" "\<not> fat_kernel_fits (packs ! (e + i))"
  shows "isl (fst (batched_loop env img ops dev limit packs xh True cap ts ws e offset counts out st))"
  using assms
proof (induction counts arbitrary: i e offset out st)
  case (Cons n counts)
  show ?case
  proof (cases i)
    case 0
    with Cons.prems show ?thesis
      by (auto simp: fat_kernel_fits_def Let_def split: sum.split prod.split)
  next
    case (Suc j)
    with Cons.prems have "j < length counts" "cap < counts ! j" "\<not> fat_kernel_fits (packs ! (e + 1 + j))" by simp_all
    from Cons.IH[OF this] show ?thesis
      by (auto simp: Let_def split: sum.split prod.split)
  qed
qed simp

lemma kernel_fallback_fails:
  assumes "shared_w13_suh layer" and "fat_kernel_enabled env \<or> grouped_fat_enabled env"
    and "i < length counts" "cap < counts ! i" "\<not> fat_kernel_fits (inners layer ! i)"
  shows "isl (fst (run_fat_experts env img ops x2d ids weights emap limit cap counts ts ws out layer st))"
proof -
  have "isl (fst (apply_exl3_batched_fat env img ops dev xh ts ws counts (inners layer) limit cap out True st'))" for dev xh st'
    unfolding apply_exl3_batched_fat_def using assms(3-5) by (intro batched_loop_refuses) simp_all
  then show ?thesis
    using assms(1,2) by (auto simp: run_fat_experts_def Let_def case_prod_beta)
qed

text \<open>So does the fused call of the layer, in a prefill with such an expert.\<close>

lemma fused_moe_kernel_fails:
  assumes "shared_w13_suh layer" and "fat_kernel_enabled env \<or> grouped_fat_enabled env"
    and "effective_tier layer = Some Kernel" and "\<not> fused_moe_row_tile_enabled env"
    and "pointers_built layer" and "temp_rows layer = Some cap" and "cap < length x2d"
    and "routed_buffers ops argsort ids weights (length (inners layer)) emap = (ts, ws, ec)"
    and "i < length (inners layer)" and "i < length ec" and "cap < ec ! i" and "\<not> fat_kernel_fits (inners layer ! i)"
  shows "isl (fst (apply_exl3_fused_moe env img ops moe argsort x_device hidden x2d ids weights emap limit layer st))"
proof -
  define l where "l = layer\<lparr>last_fallback := No_path, last_reason := No_fat_experts\<rparr>"
  define counts where "counts = take (length (inners layer)) ec"
  have i: "i < length counts" "cap < counts ! i" using assms(9-11) by (simp_all add: counts_def)
  then have "counts ! i \<le> max_count counts" by (intro max_count_upper) simp
  with i(2) have fat: "\<not> max_count counts \<le> cap" by linarith
  have fails: "isl (fst (run_fat_experts env img ops x2d ids weights emap limit cap counts ts ws out l st'))" for out st'
    by (rule kernel_fallback_fails[OF _ assms(2) i]) (use assms(1,12) in \<open>simp_all add: l_def\<close>)
  have "effective_tier l = Some Kernel" using assms(3) by (simp add: l_def)
  then show ?thesis
    using assms(4-8) fails fat
    by (simp add: apply_exl3_fused_moe_def Let_def l_def[symmetric] counts_def[symmetric] split: sum.split)
qed

text \<open>
  C29. The promise of the tier resolution, to fail when the weights are loaded and not in a prefill, is not
  kept for codes of another width than four bits. A checkpoint of three, five or six bits, which the
  configuration accepts, with shared scales and the fat GEMMs or the grouped kernels asked for, loads
  with the fat GEMM as its tier. Then, with the fused path wanted and there (\<open>EXL3_FUSED_MOE\<close> not turned
  off, or the caller's argument, and the pointer tables built) and without row tiles
  (\<open>EXL3_MOE_ROW_TILE\<close> off), every call of the layer with more tokens than the buffers hold raises as
  soon as one expert has more rows than they hold, since the GEMM takes K4 codes only.
\<close>

theorem other_bits_fail_in_prefill:
  assumes "b \<in> {3, 5, 6}" and "create_weights ft fv fm b n hidden width = Inr params" and "16 \<le> hidden" and "16 \<le> width"
    and "load_all tp_rank tp_size local_of items params = Inr params'" and "K_of_words (16 * b) = int b"
    and "process_weights_after_loading env img K_of_words c params' layer st = Inr (layer', st')"
    and "shared_w13_suh layer'" and "fat_kernel_enabled env \<or> grouped_fat_enabled env"
    and "fused = Some True \<or> fused = None \<and> fused_moe_enabled env" and "fst (exl3_fat_symbols img)"
    and "\<not> fused_moe_row_tile_enabled env"
    and "pointers_built layer'" and "temp_rows layer' = Some cap" and "cap < length x"
    and "routed_buffers ops argsort ids weights (length params') emap = (ts, ws, ec)"
    and "i < length params'" and "i < length ec" and "cap < ec ! i"
  shows "exl3_init (int b) ''mcg'' [] \<noteq> Inl ValueError \<and> effective_tier layer' = Some Kernel \<and>
    isl (fst (apply_exl3_experts env img ops moe argsort to_dtype x_device cols x ids weights emap limit fused layer' st''))"
proof (intro conjI)
  have shaped: "list_all (expert_shape hidden width (b * 16)) params'"
    by (rule load_all_shape[OF assms(5) created_shape[OF assms(2-4)]])
  note result = process_result[OF assms(7)]
  have K: "codes_K (gate p) \<noteq> 4" if p: "p \<in> set (inners layer')" for p
  proof -
    obtain e where e: "e \<in> set params'" "p = make_pack K_of_words e" using p result by auto
    then have "width_of (concat (slot_trellis (w1_slot e))) = b * 16"
      using shaped by (simp add: list_all_iff expert_shape_def slot_shape_def)
    then have "codes_K (gate p) = int b" using e(2) assms(6) by (simp add: make_pack_def make_linear_exl3_def mult.commute)
    then show ?thesis using assms(1) by auto
  qed
  have member: "inners layer' ! i \<in> set (inners layer')" using assms(17) result by simp
  show "exl3_init (int b) ''mcg'' [] \<noteq> Inl ValueError" using assms(1) by (auto simp: exl3_init_def)
  have "grouped_fat_eligibility img layer' \<noteq> Eligible"
    using K[OF member] member by (auto simp: grouped_fat_eligibility_def packs_eligibility_iff)
  then show kernel: "effective_tier layer' = Some Kernel"
    using result assms(8,9)
    by (auto simp: resolve_exl3_fat_tier_def configured_fat_tier_def Let_def split: if_splits)
  have unfit: "\<not> fat_kernel_fits (inners layer' ! i)"
    using K[OF member] by (simp add: fat_kernel_fits_def fat_gemm_accepts_def)
  have "isl (fst (apply_exl3_fused_moe env img ops moe argsort x_device cols x ids weights emap limit layer' st''))"
    by (rule fused_moe_kernel_fails[OF assms(8,9) _ assms(12-15) _ _ assms(18,19) unfit])
      (use kernel result assms(16,17) in simp_all)
  moreover have "inners layer' \<noteq> []" using member by auto
  ultimately show "isl (fst (apply_exl3_experts env img ops moe argsort to_dtype x_device cols x ids weights emap limit fused layer' st''))"
    using assms(10,11,13) by (auto simp: apply_exl3_experts_def Let_def split: prod.splits sum.splits)
qed

subsection \<open>From the checkpoint to the output\<close>

text \<open>
  C27. A layer of K4 experts, loaded from a checkpoint, computes what its packed weights say. When its
  parameters are allocated for four bits (64 words of a tile read as K4), a hidden size that is a multiple
  of 128 and an expert width that is a multiple of 64, the rank's loader takes the tensors and the set-up
  after loading succeeds, whatever tier the environment and the image lead to: every call for which
  \<open>call_ready\<close> holds (see C26), with fp16 weights, no expert twice for a token, ids within the map and
  kernels that keep their contracts, returns for each token the sum of the rows of its routed experts,
  computed with the tensors the loader put into their slots; and when no two tensors the rank takes have the
  same expert, shard and suffix, each of them is in its slot, cut for the rank.
\<close>

theorem loaded_experts_routed:
  fixes ops :: "('t, 'v::linordered_idom) torch_ops"
  assumes "create_weights ft fv fm 4 n hidden width = Inr params" and "load_all tp_rank tp_size local_of items params = Inr params'"
    and "process_weights_after_loading env img K_of_words c params' layer st = Inr (layer', st')"
    and "K_of_words 64 = 4" and "0 < hidden" "hidden mod 128 = 0" and "0 < width" "width mod 64 = 0"
    and "moe_kernel_law ops moe" and "ext_laws ops (map (make_pack K_of_words) params')"
    and "\<And>keys. is_argsort keys (argsort keys)"
    and "routing_ok ops emap (length params') ids weights" and "length x = length ids"
    and "call_ready env img x_device cap layer'" and "0 < cap"
  shows "fst (apply_exl3_experts env img ops moe argsort to_dtype x_device hidden x ids weights emap limit fused layer' st'')
      = Inr (map (map to_dtype) (routed_output ops limit (map (make_pack K_of_words) params') emap hidden x ids weights)) \<and>
    (distinct (filter (\<lambda>k. k \<noteq> None) (map (item_key local_of) items)) \<longrightarrow>
      (\<forall>(loaded, name, shard_id, expert_id) \<in> set items. local_of expert_id \<noteq> - 1 \<longrightarrow>
        (\<exists>suffix. suffix_from_mapped_name name = Inr suffix \<and>
          shard_tensor tp_rank tp_size shard_id loaded suffix =
            Inr (tensor_at params' (nat (local_of expert_id), shard_id, suffix)))))"
proof
  have layer: "layer_resolved env img layer' \<and> experts_fit layer' \<and> inners layer' = map (make_pack K_of_words) params'"
    by (rule loaded_layer[OF assms(1-8)])
  then show "fst (apply_exl3_experts env img ops moe argsort to_dtype x_device hidden x ids weights emap limit fused layer' st'')
      = Inr (map (map to_dtype) (routed_output ops limit (map (make_pack K_of_words) params') emap hidden x ids weights))"
    using assms(10,12) experts_fst[OF assms(14) fused_moe_routed[OF assms(9) _ assms(11) _ assms(13,14) _ _ assms(15)]
        loop_routed[OF _ assms(13)]]
    by simp
  show "distinct (filter (\<lambda>k. k \<noteq> None) (map (item_key local_of) items)) \<longrightarrow>
      (\<forall>(loaded, name, shard_id, expert_id) \<in> set items. local_of expert_id \<noteq> - 1 \<longrightarrow>
        (\<exists>suffix. suffix_from_mapped_name name = Inr suffix \<and>
          shard_tensor tp_rank tp_size shard_id loaded suffix =
            Inr (tensor_at params' (nat (local_of expert_id), shard_id, suffix))))"
    using loaded_tensors_in_place[OF assms(2)] by blast
qed

lemma loaded_experts_routed_witness:
  "\<exists>layer' st'. flat_loaded 4 = Inr (layer', st') \<and>
    fst (apply_exl3_experts demo_env demo_image flat_ops flat_moe demo_argsort id (''cuda'', 0) 128 [[1], [2]] [[0], [0]] [[1], [2]]
      None 10 None layer' st')
    = Inr (map (map id) (routed_output flat_ops 10 (map (make_pack words_div) (flat_full 4)) None 128 [[1], [2]] [[0], [0]] [[1], [2]])) \<and>
    (\<exists>suffix. suffix_from_mapped_name ''experts.w2_svh'' = Inr suffix \<and>
      tensor_at (flat_full 4) (0, ''w2'', suffix) = Scales (replicate 128 6))"
proof -
  obtain layer' st' where loaded: "flat_loaded 4 = Inr (layer', st')" using flat_loads(1) by (cases "flat_loaded 4") auto
  have "call_ready demo_env demo_image (''cuda'', 0) 1 (fst (projr (flat_loaded 4)))" by code_simp
  then have ready: "call_ready demo_env demo_image (''cuda'', 0) 1 layer'" by (simp add: loaded)
  have one: "length (flat_full 4) = 1" by (simp add: flat_full_def)
  note result = loaded_experts_routed[OF flat_created flat_items_load(1) loaded[unfolded flat_loaded_def] _ _ _ _ _ flat_moe_law
        flat_laws demo_argsort_ok flat_routing[folded one] _ ready, where x = "[[1], [2]]" and to_dtype = id and limit = 10
        and fused = None and st'' = st']
  have "fst (apply_exl3_experts demo_env demo_image flat_ops flat_moe demo_argsort id (''cuda'', 0) 128 [[1], [2]] [[0], [0]] [[1], [2]]
      None 10 None layer' st')
    = Inr (map (map id) (routed_output flat_ops 10 (map (make_pack words_div) (flat_full 4)) None 128 [[1], [2]] [[0], [0]] [[1], [2]]))"
    by (rule result[THEN conjunct1]) (simp_all add: words_div_def)
  moreover have "(Scales (replicate 128 6), ''experts.w2_svh'', ''w2'', 0) \<in> set (flat_items 4)"
    by (simp add: flat_items_def matrix_items_def flat_matrix_def)
  with result[THEN conjunct2] flat_keys have "\<exists>suffix. suffix_from_mapped_name ''experts.w2_svh'' = Inr suffix \<and>
      shard_tensor 0 1 ''w2'' (Scales (replicate 128 6)) suffix = Inr (tensor_at (flat_full 4) (0, ''w2'', suffix))"
    by (fastforce simp: words_div_def)
  then have "\<exists>suffix. suffix_from_mapped_name ''experts.w2_svh'' = Inr suffix \<and>
      tensor_at (flat_full 4) (0, ''w2'', suffix) = Scales (replicate 128 6)"
    by (auto simp: shard_tensor_def shard_exl3_row_def narrow_tp_def split: if_splits)
  ultimately show ?thesis using loaded by blast
qed

lemma other_bits_fail_in_prefill_witness:
  "\<exists>layer' st'. flat_loaded 3 = Inr (layer', st') \<and> effective_tier layer' = Some Kernel \<and>
    isl (fst (apply_exl3_experts demo_env demo_image flat_ops flat_moe demo_argsort id (''cuda'', 0) 128 [[1], [2]] [[0], [0]] [[1], [2]]
      None 10 None layer' st'))"
proof -
  obtain layer' st' where loaded: "flat_loaded 3 = Inr (layer', st')" using flat_loads(2) by (cases "flat_loaded 3") auto
  have "shared_w13_suh (fst (projr (flat_loaded 3)))" "pointers_built (fst (projr (flat_loaded 3)))"
    "temp_rows (fst (projr (flat_loaded 3))) = Some 1" by code_simp+
  then have layer: "shared_w13_suh layer'" "pointers_built layer'" "temp_rows layer' = Some 1" by (simp_all add: loaded)
  have env: "fat_kernel_enabled demo_env \<or> grouped_fat_enabled demo_env" "fused_moe_enabled demo_env"
    "fst (exl3_fat_symbols demo_image)" "\<not> fused_moe_row_tile_enabled demo_env" by code_simp+
  have bufs: "routed_buffers flat_ops demo_argsort [[0], [0]] [[1], [2]] (length (flat_full 3)) None = ([0, 1], [1, 2], [2, 0])"
    by code_simp
  have "effective_tier layer' = Some Kernel \<and>
    isl (fst (apply_exl3_experts demo_env demo_image flat_ops flat_moe demo_argsort id (''cuda'', 0) 128 [[1], [2]] [[0], [0]] [[1], [2]]
      None 10 None layer' st'))"
    by (rule other_bits_fail_in_prefill[OF _ flat_created[of 3] _ _ flat_items_load(2) _ loaded[unfolded flat_loaded_def]
        layer(1) env(1) _ env(3,4) layer(2,3) _ bufs, where i = 0, THEN conjunct2])
      (simp_all add: words_div_def flat_full_def env(2))
  then show ?thesis using loaded by blast
qed

end
