(* ===== verification/Expert_Counters.thy ===== *)
theory Expert_Counters
  imports Expert_Layer
begin

text \<open>
  The process behind the diagnostics of the experts: layers are resolved at load, calls run, and the two
  sets of counters are reset. Its reachable states keep the counters in balance.
\<close>

subsection \<open>The operations as steps\<close>

text \<open>The flag tells that no call has raised since the counters were last reset.\<close>

inductive fat_reachable :: "('t, 'v::linordered_idom) torch_ops \<Rightarrow> bool \<Rightarrow> fat_state \<Rightarrow> bool" for ops where
  start: "fat_reachable ops True initial_fat_state"
| load: "fat_reachable ops clean st \<Longrightarrow>
    process_weights_after_loading env img K_of_words c (params :: ('t, 'v) expert_params list) layer st = Inr (layer', st') \<Longrightarrow>
    fat_reachable ops clean st'"
| apply_layer: "fat_reachable ops clean st \<Longrightarrow>
    apply_exl3_experts env img ops moe argsort to_dtype x_device hidden x ids weights emap limit fused layer st = (r, layer', st') \<Longrightarrow>
    fat_reachable ops (clean \<and> \<not> isl r) st'"
| reset_counters: "fat_reachable ops clean st \<Longrightarrow> fat_reachable ops True (reset_fat_diag_counters st)"
| reset_stats: "fat_reachable ops clean st \<Longrightarrow> fat_reachable ops clean (reset_fat_expert_stats st)"

subsection \<open>The balance of the counters\<close>

definition served :: "fat_state \<Rightarrow> nat" where
  "served st = thin_calls st + row_tile_calls st
     + sum_list (map (fallback_calls st) [Legacy, Sorted_slices, Batched, Kernel, Grouped])"

definition reasons_total :: "fat_state \<Rightarrow> nat" where
  "reasons_total st = sum_list (map snd (fallback_reasons st))"

text \<open>
  The calls of more tokens than the buffers hold, each under one path and one reason; the calls of the two
  fat GEMMs, one pair for each expert they run; and the sizes of the scratch buffers.
\<close>

definition calls_ok :: "fat_state \<Rightarrow> bool" where
  "calls_ok st \<longleftrightarrow> served st \<le> prefill_layer_calls st \<and> reasons_total st = served st \<and>
     grouped_calls st = fallback_calls st Grouped"

definition runs_ok :: "fat_state \<Rightarrow> bool" where
  "runs_ok st \<longleftrightarrow> scatter_calls st \<le> direct_calls st \<and> direct_calls st \<le> fat_expert_runs st"

definition scratch_ok :: "fat_state \<Rightarrow> bool" where
  "scratch_ok st \<longleftrightarrow>
     fat_scratch_bytes st = sum_list (map (scratch_bytes \<circ> snd) (fat_scratch_cache st)) \<and>
     fat_scratch_bytes st \<le> fat_scratch_peak_bytes st \<and>
     grouped_scratch_bytes st = sum_list (map (scratch_bytes \<circ> snd) (grouped_scratch_cache st))"

definition stats_ok :: "fat_state \<Rightarrow> bool" where
  "stats_ok st \<longleftrightarrow>
     length (stat_hist (stats st)) = length FAT_BUCKET_EDGES + 1 \<and>
     sum_list (stat_hist (stats st)) = stat_layers (stats st) \<and>
     stat_fat_layers (stats st) \<le> stat_layers (stats st) \<and>
     stat_fat_layers (stats st) \<le> stat_fat_experts (stats st)"

definition fat_inv :: "fat_state \<Rightarrow> bool" where
  "fat_inv st \<longleftrightarrow> calls_ok st \<and> runs_ok st \<and> scratch_ok st \<and> stats_ok st"

lemma sum_dict_set:
  "sum_list (map snd (dict_set k v d)) + (case map_of d k of None \<Rightarrow> 0 | Some n \<Rightarrow> n) = sum_list (map snd d) + (v :: nat)"
  by (induction d) auto

lemma reasons_record [simp]: "reasons_total (record_fat_reason reason st) = reasons_total st + 1"
proof -
  define n where "n = (case map_of (fallback_reasons st) reason of None \<Rightarrow> 0 | Some n \<Rightarrow> n)"
  show ?thesis
    using sum_dict_set[of reason "n + 1" "fallback_reasons st"]
    by (simp add: record_fat_reason_def reasons_total_def Let_def n_def[symmetric] split: option.splits)
qed

text \<open>What a recorded reason leaves alone.\<close>

lemma record_reason_keeps [simp]:
  "prefill_layer_calls (record_fat_reason reason st) = prefill_layer_calls st"
  "served (record_fat_reason reason st) = served st"
  "grouped_calls (record_fat_reason reason st) = grouped_calls st"
  "fallback_calls (record_fat_reason reason st) = fallback_calls st"
  "runs_ok (record_fat_reason reason st) = runs_ok st"
  "scratch_ok (record_fat_reason reason st) = scratch_ok st"
  "stats_ok (record_fat_reason reason st) = stats_ok st"
  by (simp_all add: record_fat_reason_def Let_def served_def runs_ok_def scratch_ok_def stats_ok_def)

text \<open>A tier that is recorded is one more served call, of one reason.\<close>

lemma served_tier: "served (st\<lparr>fallback_calls := (fallback_calls st)(tier := fallback_calls st tier + 1)\<rparr>) = served st + 1"
  by (cases tier) (simp_all add: served_def)

lemma record_tier_effect:
  "prefill_layer_calls (snd (record_fat_tier tier reason layer st)) = prefill_layer_calls st"
  "served (snd (record_fat_tier tier reason layer st)) = served st + 1"
  "reasons_total (snd (record_fat_tier tier reason layer st)) = reasons_total st + 1"
  "grouped_calls (snd (record_fat_tier tier reason layer st)) = grouped_calls st"
  "fallback_calls (snd (record_fat_tier tier reason layer st)) Grouped = fallback_calls st Grouped + (if tier = Grouped then 1 else 0)"
  unfolding record_fat_tier_def snd_conv record_reason_keeps reasons_record served_tier
  by (simp_all add: reasons_total_def)

lemma record_tier_ok:
  "runs_ok (snd (record_fat_tier tier reason layer st)) = runs_ok st"
  "scratch_ok (snd (record_fat_tier tier reason layer st)) = scratch_ok st"
  "stats_ok (snd (record_fat_tier tier reason layer st)) = stats_ok st"
  unfolding record_fat_tier_def snd_conv record_reason_keeps
  by (simp_all add: runs_ok_def scratch_ok_def stats_ok_def)

text \<open>The shapes of the states the scratch buffers leave.\<close>

definition fat_scratch_state :: "(fat_key, scratch) dict \<Rightarrow> fat_state \<Rightarrow> fat_state" where
  "fat_scratch_state cache st =
     (let bytes = sum_list (map (scratch_bytes \<circ> snd) cache) in
      st\<lparr>fat_scratch_cache := cache, fat_scratch_allocs := fat_scratch_allocs st + 1,
        fat_scratch_bytes := bytes, fat_scratch_peak_bytes := max (fat_scratch_peak_bytes st) bytes\<rparr>)"

lemma fat_scratch_shape:
  "fat_scratch env dev rows g st = Inr (s, st') \<Longrightarrow> st' = st \<or> (\<exists>cache. st' = fat_scratch_state cache st)"
  unfolding fat_scratch_def Let_def fat_scratch_state_def[unfolded Let_def, symmetric]
  by (cases "configured_rows env") (auto split: option.splits if_splits)

definition grouped_scratch_state :: "(grouped_key, scratch) dict \<Rightarrow> fat_state \<Rightarrow> fat_state" where
  "grouped_scratch_state cache st =
     st\<lparr>grouped_scratch_cache := cache, grouped_scratch_bytes := sum_list (map (scratch_bytes \<circ> snd) cache)\<rparr>"

lemma grouped_scratch_shape:
  "grouped_scratch env img dev rows hidden width st = Inr (s, st') \<Longrightarrow> st' = st \<or> (\<exists>cache. st' = grouped_scratch_state cache st)"
  unfolding grouped_scratch_def Let_def grouped_scratch_state_def[symmetric]
  by (cases "configured_rows env"; cases "or_zero ''8'' (env_or env ''EXL3_FAT_GROUPED_TOPK'' ''8'')")
    (auto split: option.splits if_splits)


text \<open>
  The calls, the statistics and the other scratch buffers are left alone by the buffers, the batched loop
  and the grouped kernels.
\<close>

definition same_calls :: "fat_state \<Rightarrow> fat_state \<Rightarrow> bool" where
  "same_calls st st' \<longleftrightarrow>
     prefill_layer_calls st' = prefill_layer_calls st \<and> served st' = served st \<and>
     reasons_total st' = reasons_total st \<and> fallback_calls st' = fallback_calls st \<and>
     (stats_ok st \<longrightarrow> stats_ok st') \<and> (scratch_ok st \<longrightarrow> scratch_ok st')"

lemma same_calls_refl [simp]: "same_calls st st"
  by (simp add: same_calls_def)

lemma same_calls_trans: "same_calls a b \<Longrightarrow> same_calls b c \<Longrightarrow> same_calls a c"
  by (simp add: same_calls_def)

lemma fat_scratch_state_keeps:
  "same_calls st (fat_scratch_state cache st)"
  "grouped_calls (fat_scratch_state cache st) = grouped_calls st"
  "fat_expert_runs (fat_scratch_state cache st) = fat_expert_runs st"
  "direct_calls (fat_scratch_state cache st) = direct_calls st"
  "scatter_calls (fat_scratch_state cache st) = scatter_calls st"
  by (simp_all add: fat_scratch_state_def Let_def same_calls_def served_def reasons_total_def stats_ok_def scratch_ok_def)

lemma grouped_scratch_state_keeps:
  "same_calls st (grouped_scratch_state cache st)"
  "grouped_calls (grouped_scratch_state cache st) = grouped_calls st"
  "runs_ok (grouped_scratch_state cache st) = runs_ok st"
  by (simp_all add: grouped_scratch_state_def same_calls_def served_def reasons_total_def stats_ok_def scratch_ok_def runs_ok_def)

lemma run_counters_keep:
  "same_calls st (st\<lparr>fat_expert_runs := a\<rparr>)"
  "same_calls st (st\<lparr>direct_calls := a\<rparr>)"
  "same_calls st (st\<lparr>scatter_calls := a\<rparr>)"
  "same_calls st (st\<lparr>grouped_calls := a\<rparr>)"
  by (simp_all add: same_calls_def served_def reasons_total_def stats_ok_def scratch_ok_def)

text \<open>One expert of the batched loop: its scratch, and the two products.\<close>

definition batched_ok :: "fat_state \<Rightarrow> fat_state \<Rightarrow> bool" where
  "batched_ok st st' \<longleftrightarrow> same_calls st st' \<and> grouped_calls st' = grouped_calls st \<and> (runs_ok st \<longrightarrow> runs_ok st')"

lemma batched_ok_refl [simp]: "batched_ok st st"
  by (simp add: batched_ok_def)

lemma batched_ok_trans: "batched_ok a b \<Longrightarrow> batched_ok b c \<Longrightarrow> batched_ok a c"
  by (auto simp: batched_ok_def intro: same_calls_trans)

lemma batched_ok_run: "batched_ok st (st\<lparr>fat_expert_runs := fat_expert_runs st + 1\<rparr>)"
  by (simp add: batched_ok_def run_counters_keep runs_ok_def)

lemma batched_ok_step:
  assumes scratch: "fat_scratch env dev rows g (st\<lparr>fat_expert_runs := fat_expert_runs st + 1\<rparr>) = Inr (s, st')"
  defines "st1 \<equiv> st'\<lparr>direct_calls := direct_calls st' + 1\<rparr>"
  defines "st2 \<equiv> st1\<lparr>scatter_calls := scatter_calls st1 + 1\<rparr>"
  shows "batched_ok st st'" and "batched_ok st st1" and "batched_ok st st2"
proof -
  have eqs: "same_calls st st'" "grouped_calls st' = grouped_calls st" "fat_expert_runs st' = fat_expert_runs st + 1"
    "direct_calls st' = direct_calls st" "scatter_calls st' = scatter_calls st"
    using fat_scratch_shape[OF scratch] same_calls_trans[OF run_counters_keep(1) fat_scratch_state_keeps(1)]
    by (auto simp: fat_scratch_state_keeps run_counters_keep)
  show "batched_ok st st'" using eqs by (simp add: batched_ok_def runs_ok_def)
  show "batched_ok st st1" using eqs same_calls_trans[OF eqs(1) run_counters_keep(2)]
    by (simp add: batched_ok_def runs_ok_def st1_def)
  show "batched_ok st st2"
    using eqs same_calls_trans[OF same_calls_trans[OF eqs(1) run_counters_keep(2)] run_counters_keep(3)]
    by (simp add: batched_ok_def runs_ok_def st1_def st2_def)
qed

lemma batched_loop_ok:
  "batched_ok st (snd (batched_loop env img ops dev limit packs xh use_kernel cap ts ws e offset counts out st))"
proof (induction counts arbitrary: e offset out st)
  case (Cons n counts)
  show ?case
  proof (cases "n \<le> cap")
    case False
    show ?thesis
    proof (cases "fat_scratch env dev (int n) (gate (packs ! e)) (st\<lparr>fat_expert_runs := fat_expert_runs st + 1\<rparr>)")
      case (Inl err)
      then show ?thesis using False batched_ok_run[of st] by (simp add: Let_def)
    next
      case (Inr r)
      then obtain s st' where scratch: "fat_scratch env dev (int n) (gate (packs ! e)) (st\<lparr>fat_expert_runs := fat_expert_runs st + 1\<rparr>) = Inr (s, st')"
        by (cases r) simp
      note step = batched_ok_step[OF scratch]
      show ?thesis
        using False step Cons.IH[THEN batched_ok_trans[OF step(1)]] Cons.IH[THEN batched_ok_trans[OF step(2)]]
          Cons.IH[THEN batched_ok_trans[OF step(3)]]
        unfolding batched_loop.simps Let_def scratch
        by (cases use_kernel) simp_all
    qed
  qed (simp add: Cons.IH)
qed simp


lemma grouped_fat_ok:
  assumes "apply_exl3_grouped_fat env img ops dev xh out counts ts ws layer cap limit st = (r, st')"
  shows "same_calls st st'" and "runs_ok st' = runs_ok st"
    and "grouped_calls st' = grouped_calls st + (if isl r then 0 else 1)"
proof -
  define hidden where "hidden = (if xh = [] then 0 else int (length (hd xh)))"
  define res where "res = grouped_scratch env img (w13_device layer) (int (length ts)) hidden (layer_intermediate layer) st"
  have "(isl r \<and> st' = st) \<or> (\<not> isl r \<and> (\<exists>s st1. res = Inr (s, st1) \<and> st' = st1\<lparr>grouped_calls := grouped_calls st1 + 1\<rparr>))"
    using assms unfolding apply_exl3_grouped_fat_def Let_def hidden_def[symmetric] res_def[symmetric]
    by (cases res) (auto split: if_splits)
  then show "same_calls st st'" and "runs_ok st' = runs_ok st"
    and "grouped_calls st' = grouped_calls st + (if isl r then 0 else 1)"
    using grouped_scratch_shape[of env img "w13_device layer" "int (length ts)" hidden "layer_intermediate layer" st, folded res_def]
      same_calls_trans[OF grouped_scratch_state_keeps(1) run_counters_keep(4)]
    by (auto simp: grouped_scratch_state_keeps run_counters_keep runs_ok_def grouped_scratch_state_def)
qed

lemma hist_step:
  "length h = 9 \<Longrightarrow> sum_list (h[fat_bucket n := h ! fat_bucket n + 1]) = sum_list h + (1 :: nat)"
proof -
  assume "length h = 9"
  then have "fat_bucket n < length h"
    using bucket_from_bound[of FAT_BUCKET_EDGES 0 n] by (simp add: fat_bucket_def FAT_BUCKET_EDGES_def)
  then show ?thesis by (simp add: sum_list_update elem_le_sum_list)
qed

lemma maybe_stats_ok: "maybe_stats env counts st = Inr st' \<Longrightarrow> same_calls st st' \<and> grouped_calls st' = grouped_calls st \<and> runs_ok st' = runs_ok st"
proof -
  assume stats: "maybe_stats env counts st = Inr st'"
  have "st' = st \<or> (\<exists>cap c m. st' = st\<lparr>stats := stats_step cap c m (stats st)\<rparr>)"
    using stats by (cases "temp_rows_fused env") (auto simp: maybe_stats_def record_fat_expert_stats_def split: if_splits)
  moreover have "stats_ok (st\<lparr>stats := stats_step cap c m (stats st)\<rparr>)" if "stats_ok st" for cap c m
    using that hist_step[of "stat_hist (stats st)" m]
    by (cases "filter ((<) cap) c") (simp_all add: stats_ok_def stats_step_def Let_def FAT_BUCKET_EDGES_def)
  ultimately show ?thesis
    by (auto simp: same_calls_def served_def reasons_total_def scratch_ok_def runs_ok_def)
qed


subsection \<open>The effect of a call\<close>

text \<open>\<open>p\<close> calls counted as prefill, \<open>k\<close> of them served; the other parts of the invariant are kept.\<close>

definition fat_delta :: "nat \<Rightarrow> nat \<Rightarrow> fat_state \<Rightarrow> fat_state \<Rightarrow> bool" where
  "fat_delta p k st st' \<longleftrightarrow>
     prefill_layer_calls st' = prefill_layer_calls st + p \<and> served st' = served st + k \<and>
     reasons_total st' = reasons_total st + k \<and>
     (grouped_calls st = fallback_calls st Grouped \<longrightarrow> grouped_calls st' = fallback_calls st' Grouped) \<and>
     (runs_ok st \<longrightarrow> runs_ok st') \<and> (scratch_ok st \<longrightarrow> scratch_ok st') \<and> (stats_ok st \<longrightarrow> stats_ok st')"

lemma fat_delta_refl: "fat_delta 0 0 st st"
  by (simp add: fat_delta_def)

lemma fat_delta_trans: "fat_delta p k a b \<Longrightarrow> fat_delta q l b c \<Longrightarrow> fat_delta (p + q) (k + l) a c"
  by (simp add: fat_delta_def)

lemma fat_delta_inv:
  assumes "fat_delta p k st st'" and "k \<le> p" and "fat_inv st"
  shows "fat_inv st'"
  using assms by (simp add: fat_delta_def fat_inv_def calls_ok_def)

lemma batched_delta: "batched_ok st st' \<Longrightarrow> fat_delta 0 0 st st'"
  by (simp add: batched_ok_def same_calls_def fat_delta_def)

lemma tier_delta: "tier \<noteq> Grouped \<Longrightarrow> fat_delta 0 1 st (snd (record_fat_tier tier reason layer st))"
  by (simp add: fat_delta_def record_tier_effect record_tier_ok)

lemma prefill_delta: "fat_delta 1 0 st (st\<lparr>prefill_layer_calls := prefill_layer_calls st + 1\<rparr>)"
  by (simp add: fat_delta_def served_def reasons_total_def runs_ok_def scratch_ok_def stats_ok_def)

lemma thin_delta: "fat_delta 0 1 st (record_fat_reason Thin_only (st\<lparr>thin_calls := thin_calls st + 1\<rparr>))"
  by (simp add: fat_delta_def) (simp add: served_def reasons_total_def runs_ok_def scratch_ok_def stats_ok_def)

lemma row_tile_delta: "fat_delta 0 1 st (record_fat_reason Row_tile_preempts (st\<lparr>row_tile_calls := row_tile_calls st + 1\<rparr>))"
  by (simp add: fat_delta_def) (simp add: served_def reasons_total_def runs_ok_def scratch_ok_def stats_ok_def)

lemma stats_delta: "maybe_stats env counts st = Inr st' \<Longrightarrow> fat_delta 0 0 st st'"
  by (drule maybe_stats_ok) (simp add: fat_delta_def same_calls_def)

lemma runs_delta: "fat_delta 0 0 st (st\<lparr>fat_expert_runs := fat_expert_runs st + n\<rparr>)"
  by (simp add: fat_delta_def served_def reasons_total_def runs_ok_def scratch_ok_def stats_ok_def)

lemma grouped_delta:
  assumes "apply_exl3_grouped_fat env img ops dev xh out counts ts ws layer cap limit st = (r, st')"
  shows "isl r \<Longrightarrow> fat_delta 0 0 st st'"
    and "\<not> isl r \<Longrightarrow> fat_delta 0 1 st (snd (record_fat_tier Grouped reason layer' st'))"
  using grouped_fat_ok[OF assms]
  by (simp_all add: fat_delta_def same_calls_def record_tier_effect record_tier_ok)

lemma run_fat_delta:
  assumes "run_fat_experts env img ops x2d ids weights emap limit cap counts ts ws out layer st = (r, layer', st')"
  shows "fat_delta 0 1 st st'"
proof -
  define S where "S tier reason = snd (record_fat_tier tier reason layer st)" for tier reason
  have S: "fat_delta 0 1 st (S tier reason)" if "tier \<noteq> Grouped" for tier reason
    unfolding S_def using that by (rule tier_delta)
  have batched: "fat_delta 0 1 st (snd (apply_exl3_batched_fat env img ops dev xh ts ws counts packs limit cap out use_kernel (S tier reason)))"
    if "tier \<noteq> Grouped" for dev xh packs use_kernel tier reason
    using fat_delta_trans[OF S[OF that] batched_delta[OF batched_loop_ok]] unfolding apply_exl3_batched_fat_def by simp
  have sorted: "fat_delta 0 1 st (snd (apply_exl3_sorted_fat ops xh ts ws counts packs limit cap out (S Sorted_slices reason)))"
    for xh packs reason
    using fat_delta_trans[OF S[of Sorted_slices] runs_delta] unfolding apply_exl3_sorted_fat_def
    by (simp add: case_prod_beta Let_def)
  have legacy: "fat_delta 0 1 st ((S Legacy reason)\<lparr>fat_expert_runs := fat_expert_runs (S Legacy reason) + n\<rparr>)" for reason n
    using fat_delta_trans[OF S[of Legacy] runs_delta] by simp
  show ?thesis
    using assms
    by (auto simp: run_fat_experts_def Let_def case_prod_beta S_def[symmetric] simp del: One_nat_def split: if_splits
        intro!: batched sorted legacy S)
qed

text \<open>
  A call counts at most once as prefill, and if it does and returns, then under one path.
\<close>

lemma fused_delta:
  assumes "apply_exl3_fused_moe env img ops moe argsort x_device hidden x2d ids weights emap limit layer st = (r, layer', st')"
  shows "\<exists>p k. fat_delta p k st st' \<and> k \<le> p \<and> (\<not> isl r \<longrightarrow> k = p)"
proof (cases "pointers_built layer \<and> temp_rows layer \<noteq> None")
  case False
  then have "isl r" "st' = st" using assms by (auto simp: apply_exl3_fused_moe_def split: bool.splits option.splits)
  then show ?thesis using fat_delta_refl by blast
next
  case True
  then obtain cap where cap: "pointers_built layer" "temp_rows layer = Some cap" by auto
  obtain ts ws ec where bufs: "routed_buffers ops argsort ids weights (length (inners layer)) emap = (ts, ws, ec)"
    by (metis prod_cases3)
  define counts where "counts = take (length (inners layer)) ec"
  define l where "l = layer\<lparr>last_fallback := No_path, last_reason := No_fat_experts\<rparr>"
  define st1 where "st1 = st\<lparr>prefill_layer_calls := prefill_layer_calls st + 1\<rparr>"
  note unfolded = assms[unfolded apply_exl3_fused_moe_def Let_def cap bufs case_prod_conv option.case bool.case
      counts_def[symmetric] l_def[symmetric] st1_def[symmetric]]
  have st1: "fat_delta 1 0 st st1" unfolding st1_def by (rule prefill_delta)
  consider (few) "length x2d \<le> cap"
    | (grouped) "\<not> length x2d \<le> cap" "grouped_fat_enabled env \<and> \<not> fused_moe_row_tile_enabled env \<and> effective_tier l = Some Grouped"
    | (other) "\<not> length x2d \<le> cap" "\<not> (grouped_fat_enabled env \<and> \<not> fused_moe_row_tile_enabled env \<and> effective_tier l = Some Grouped)"
    by blast
  then show ?thesis
  proof cases
    case few
    with unfolded cap have "st' = st" by simp
    then show ?thesis using fat_delta_refl by blast
  next
    case grouped
    define out where "out = moe (map (half_row ops) x2d) (zero_rows (length x2d) hidden) ec ts ws cap (inners layer) limit"
    obtain g st2 where g: "apply_exl3_grouped_fat env img ops x_device (map (half_row ops) x2d) out counts ts ws l cap limit st1 = (g, st2)"
      by fastforce
    note run = unfolded[folded out_def]
    show ?thesis
    proof (cases g)
      case (Inl err)
      then have "isl r" "st' = st2" using run grouped g cap by auto
      moreover have "fat_delta 1 0 st st2" using fat_delta_trans[OF st1 grouped_delta(1)[OF g]] Inl by simp
      ultimately show ?thesis by (intro exI[of _ 1] exI[of _ 0]) simp
    next
      case (Inr out')
      define st3 where "st3 = snd (record_fat_tier Grouped (Tier_ok Grouped) l st2)"
      have st3: "fat_delta 1 1 st st3"
        using fat_delta_trans[OF st1 grouped_delta(2)[OF g]] Inr unfolding st3_def by simp
      have "st' = st3 \<or> maybe_stats env counts st3 = Inr st'"
        using run grouped g cap Inr by (auto simp: case_prod_beta st3_def split: sum.splits)
      then have "fat_delta 1 1 st st'" using st3 fat_delta_trans[OF st3 stats_delta] by auto
      then show ?thesis by (intro exI[of _ 1]) simp
    qed
  next
    case other
    show ?thesis
    proof (cases "maybe_stats env counts st1")
      case (Inl err)
      then have "isl r" "st' = st1" using unfolded other cap by auto
      then show ?thesis using st1 by (intro exI[of _ 1] exI[of _ 0]) simp
    next
      case (Inr st2)
      have st2: "fat_delta 1 0 st st2" using fat_delta_trans[OF st1 stats_delta[OF Inr]] by simp
      have "fat_delta 0 1 st2 st'"
        using unfolded other cap Inr thin_delta row_tile_delta run_fat_delta
        by (auto split: if_splits)
      then have "fat_delta 1 1 st st'" using fat_delta_trans[OF st2] by fastforce
      then show ?thesis by (intro exI[of _ 1]) simp
    qed
  qed
qed


lemma experts_delta:
  assumes "apply_exl3_experts env img ops moe argsort to_dtype x_device hidden x ids weights emap limit fused layer st = (r, layer', st')"
  shows "\<exists>p k. fat_delta p k st st' \<and> k \<le> p \<and> (\<not> isl r \<longrightarrow> k = p)"
proof -
  obtain rf lf sf where f: "apply_exl3_fused_moe env img ops moe argsort x_device hidden x ids weights emap limit layer st = (rf, lf, sf)"
    by (metis prod_cases3)
  have "st' = st \<or> (st' = sf \<and> isl r = isl rf)"
    using assms by (auto simp: apply_exl3_experts_def Let_def f split: if_splits sum.splits)
  then show ?thesis
    using fused_delta[OF f] fat_delta_refl by auto
qed

subsection \<open>The two products of an expert\<close>

text \<open>As many products of the one kind as of the other.\<close>

definition paired :: "fat_state \<Rightarrow> fat_state \<Rightarrow> bool" where
  "paired st st' \<longleftrightarrow> direct_calls st' + scatter_calls st = direct_calls st + scatter_calls st'"

lemma paired_refl [simp]: "paired st st"
  by (simp add: paired_def)

lemma paired_trans: "paired a b \<Longrightarrow> paired b c \<Longrightarrow> paired a c"
  by (simp add: paired_def)

lemma batched_loop_paired:
  "batched_loop env img ops dev limit packs xh use_kernel cap ts ws e offset counts out st = (Inr out', st') \<Longrightarrow> paired st st'"
proof (induction counts arbitrary: e offset out st)
  case (Cons n counts)
  show ?case
  proof (cases "n \<le> cap")
    case True
    then show ?thesis using Cons by simp
  next
    case False
    let ?st = "st\<lparr>fat_expert_runs := fat_expert_runs st + 1\<rparr>"
    obtain s st1 where scratch: "fat_scratch env dev (int n) (gate (packs ! e)) ?st = Inr (s, st1)"
      using Cons.prems False by (cases "fat_scratch env dev (int n) (gate (packs ! e)) ?st") (auto simp: Let_def)
    have same: "direct_calls st1 = direct_calls st" "scatter_calls st1 = scatter_calls st"
      using fat_scratch_shape[OF scratch] by (auto simp: fat_scratch_state_keeps)
    define st2 where "st2 = (if use_kernel then st1\<lparr>direct_calls := direct_calls st1 + 1\<rparr> else st1)"
    define st3 where "st3 = (if use_kernel then st2\<lparr>scatter_calls := scatter_calls st2 + 1\<rparr> else st2)"
    have "\<exists>out1. batched_loop env img ops dev limit packs xh use_kernel cap ts ws (e + 1) (offset + n) counts out1 st3 = (Inr out', st')"
      using Cons.prems False unfolding batched_loop.simps Let_def scratch st3_def st2_def
      by (auto split: if_split_asm)
    then have "paired st3 st'" using Cons.IH by blast
    moreover have "paired st st3" by (simp add: paired_def st3_def st2_def same)
    ultimately show ?thesis by (rule paired_trans[rotated])
  qed
qed simp

lemma batched_fat_paired:
  assumes "fst (apply_exl3_batched_fat env img ops dev xh ts ws counts packs limit cap out use_kernel st) = Inr out'"
  shows "paired st (snd (apply_exl3_batched_fat env img ops dev xh ts ws counts packs limit cap out use_kernel st))"
proof -
  define run where "run = batched_loop env img ops dev limit packs xh use_kernel cap ts ws 0 0 counts out st"
  have "run = (Inr out', snd run)" using assms by (simp add: run_def apply_exl3_batched_fat_def prod_eq_iff)
  from batched_loop_paired[OF this[unfolded run_def]] show ?thesis by (simp add: apply_exl3_batched_fat_def)
qed

lemma record_paired [simp]:
  "paired st (record_fat_reason reason st')= paired st st'"
  "paired st (snd (record_fat_tier tier reason layer st')) = paired st st'"
  by (simp_all add: paired_def record_fat_tier_def record_fat_reason_def Let_def)

lemma run_fat_paired:
  assumes "run_fat_experts env img ops x2d ids weights emap limit cap counts ts ws out layer st = (Inr out', layer', st')"
  shows "paired st st'"
proof -
  define S where "S tier reason = snd (record_fat_tier tier reason layer st)" for tier reason
  have S: "paired st (S tier reason)" for tier reason unfolding S_def by simp
  have batched: "paired st (snd (apply_exl3_batched_fat env img ops dev xh ts ws counts packs limit cap out use_kernel (S tier reason)))"
    if "fst (apply_exl3_batched_fat env img ops dev xh ts ws counts packs limit cap out use_kernel (S tier reason)) = Inr out'"
    for dev xh packs use_kernel tier reason
    by (rule paired_trans[OF S batched_fat_paired[OF that]])
  have sorted: "paired st (snd (apply_exl3_sorted_fat ops xh ts ws counts packs limit cap out (S tier reason)))" for xh packs tier reason
    using S[of tier reason] by (simp add: apply_exl3_sorted_fat_def case_prod_beta Let_def paired_def)
  have legacy: "paired st ((S tier reason)\<lparr>fat_expert_runs := n\<rparr>)" for tier reason n
    using S[of tier reason] by (simp add: paired_def)
  show ?thesis
    using assms
    by (auto simp: run_fat_experts_def Let_def case_prod_beta S_def[symmetric] split: if_splits
        intro!: batched sorted legacy S)
qed

lemma stats_paired: "maybe_stats env counts st = Inr st' \<Longrightarrow> paired st st'"
  by (cases "temp_rows_fused env") (auto simp: maybe_stats_def record_fat_expert_stats_def paired_def split: if_splits)

lemma grouped_paired:
  "apply_exl3_grouped_fat env img ops dev xh out counts ts ws layer cap limit st = (r, st') \<Longrightarrow> paired st st'"
  by (auto simp: apply_exl3_grouped_fat_def Let_def grouped_scratch_state_def paired_def
      dest!: grouped_scratch_shape split: if_split_asm sum.split_asm)

lemma fused_paired:
  assumes "apply_exl3_fused_moe env img ops moe argsort x_device hidden x2d ids weights emap limit layer st = (Inr out, layer', st')"
  shows "paired st st'"
proof -
  obtain cap where cap: "pointers_built layer" "temp_rows layer = Some cap"
    using assms by (auto simp: apply_exl3_fused_moe_def split: bool.splits option.splits)
  obtain ts ws ec where bufs: "routed_buffers ops argsort ids weights (length (inners layer)) emap = (ts, ws, ec)"
    by (metis prod_cases3)
  define counts where "counts = take (length (inners layer)) ec"
  define l where "l = layer\<lparr>last_fallback := No_path, last_reason := No_fat_experts\<rparr>"
  define st1 where "st1 = st\<lparr>prefill_layer_calls := prefill_layer_calls st + 1\<rparr>"
  have st1: "paired st x = paired st1 x" for x by (simp add: paired_def st1_def)
  note run = assms[unfolded apply_exl3_fused_moe_def Let_def cap bufs case_prod_conv option.case bool.case
      counts_def[symmetric] l_def[symmetric] st1_def[symmetric]]
  have rest: "paired st st'" if "maybe_stats env counts st1 = Inr st2" "paired st2 st'" for st2
    unfolding st1 using paired_trans[OF stats_paired[OF that(1)] that(2)] .
  show ?thesis
  proof (cases "length x2d \<le> cap")
    case True
    then show ?thesis using run cap by simp
  next
    case large: False
    show ?thesis
    proof (cases "grouped_fat_enabled env \<and> \<not> fused_moe_row_tile_enabled env \<and> effective_tier l = Some Grouped")
      case True
      obtain g st2 where g: "apply_exl3_grouped_fat env img ops x_device (map (half_row ops) x2d)
          (moe (map (half_row ops) x2d) (zero_rows (length x2d) hidden) ec ts ws cap (inners layer) limit) counts ts ws l cap limit st1 = (g, st2)"
        by fastforce
      then have "maybe_stats env counts (snd (record_fat_tier Grouped (Tier_ok Grouped) l st2)) = Inr st'"
        using run large cap True by (auto simp: case_prod_beta split: sum.split_asm)
      from stats_paired[OF this] have "paired st2 st'"
        by (simp add: paired_def record_fat_tier_def record_fat_reason_def Let_def)
      then show ?thesis unfolding st1 using paired_trans[OF grouped_paired[OF g]] by blast
    next
      case False
      then obtain st2 where st2: "maybe_stats env counts st1 = Inr st2" using run large cap by (cases "maybe_stats env counts st1") auto
      have "paired st2 st'"
        using run large cap False st2
        by (auto simp: record_fat_reason_def Let_def paired_def split: if_split_asm dest!: run_fat_paired)
      then show ?thesis by (rule rest[OF st2])
    qed
  qed
qed

lemma experts_paired:
  assumes "apply_exl3_experts env img ops moe argsort to_dtype x_device hidden x ids weights emap limit fused layer st = (Inr out, layer', st')"
  shows "paired st st'"
  using assms by (auto simp: apply_exl3_experts_def Let_def split: if_split_asm prod.split_asm sum.split_asm dest: fused_paired)

subsection \<open>Reachable states\<close>

lemma initial_fat_inv: "fat_inv initial_fat_state"
  by (simp add: fat_inv_def calls_ok_def runs_ok_def scratch_ok_def stats_ok_def initial_fat_state_def served_def
      reasons_total_def empty_stats_def FAT_BUCKET_EDGES_def)

lemma initial_served: "served initial_fat_state = 0"
  by (simp add: served_def initial_fat_state_def)

lemma reset_counters_inv: "fat_inv st \<Longrightarrow> fat_inv (reset_fat_diag_counters st)"
  by (simp add: fat_inv_def calls_ok_def runs_ok_def scratch_ok_def stats_ok_def reset_fat_diag_counters_def Let_def
      served_def reasons_total_def)

lemma reset_stats_inv: "fat_inv st \<Longrightarrow> fat_inv (reset_fat_expert_stats st)"
  by (simp add: fat_inv_def calls_ok_def runs_ok_def scratch_ok_def stats_ok_def reset_fat_expert_stats_def
      served_def reasons_total_def empty_stats_def FAT_BUCKET_EDGES_def)

text \<open>Resolving a layer touches none of the counters.\<close>

definition resolution_state ::
    "fat_tier \<Rightarrow> fat_tier \<Rightarrow> fat_reason \<Rightarrow> bool \<Rightarrow> nat \<Rightarrow> nat \<Rightarrow> bool \<Rightarrow> bool \<Rightarrow> bool \<Rightarrow> bool \<Rightarrow> bool \<Rightarrow>
     int \<times> int \<Rightarrow> bool \<Rightarrow> int \<times> int \<Rightarrow> bool \<Rightarrow> fat_state \<Rightarrow> fat_state" where
  "resolution_state c e r shared suhs loaded moe gemm scat fm elig cap ok tp logged st =
     st\<lparr>diag_configured := c, diag_effective := e, diag_reason := r, diag_shared_suh := shared, shared_suh_layers := suhs,
       moe_layers_loaded := loaded, sym_exl3_moe := moe, sym_fat_gemm := gemm, sym_fat_gemm_scatter := scat,
       sym_fat_moe := fm, diag_grouped_eligible := elig, diag_cap := cap, cap_ok := ok, diag_tp := tp, tier_logged := logged\<rparr>"

lemma resolution_inv: "fat_inv (resolution_state c e r shared suhs loaded moe gemm scat fm elig cap ok tp logged st) = fat_inv st"
  by (simp add: resolution_state_def fat_inv_def calls_ok_def runs_ok_def scratch_ok_def stats_ok_def served_def reasons_total_def)


lemma resolve_state:
  assumes "record_fat_resolution env img layer st = Inr (layer', st')"
  shows "\<exists>c e r shared suhs loaded moe gemm scat fm elig cap ok tp.
    st' = resolution_state c e r shared suhs loaded moe gemm scat fm elig cap ok tp True st"
proof -
  obtain tier reason where r: "resolve_exl3_fat_tier env img (shared_w13_suh layer) (grouped_fat_eligibility img layer) = Inr (tier, reason)"
    using assms(1) by (auto simp: record_fat_resolution_def Let_def rbind_Inr_iff)
  define e where "e = (if diag_reason st = Unresolved \<or> diag_effective st \<noteq> tier then (tier, reason) else (diag_effective st, diag_reason st))"
  define suhs where "suhs = (if shared_w13_suh layer then shared_suh_layers st + 1 else shared_suh_layers st)"
  have "st' = resolution_state (configured_fat_tier env) (fst e) (snd e) (suhs = moe_layers_loaded st + 1) suhs (moe_layers_loaded st + 1)
      (fst (exl3_fat_symbols img)) (fst (snd (exl3_fat_symbols img))) (snd (snd (exl3_fat_symbols img))) (exl3_fat_moe_symbols img)
      (grouped_fat_eligibility img layer = Eligible) (capability img) (\<not> pair_less (capability img) (8, 0)) (tp_identity img) True st"
    using assms(1)
    by (auto simp: record_fat_resolution_def Let_def r case_prod_beta resolution_state_def e_def suhs_def)
  then show ?thesis by blast
qed

lemma resolve_inv:
  "record_fat_resolution env img layer st = Inr (layer', st') \<Longrightarrow> fat_inv st \<Longrightarrow> fat_inv st'"
  using resolve_state[of env img layer st layer' st'] by (auto simp: resolution_inv)

lemma build_state:
  assumes "build_exl3_fused_state env c layer st = Inr (layer', st')"
  shows "\<exists>cache n bytes. st' = st\<lparr>fused_temp_cache := cache, fused_temps_allocs := n, fused_temps_bytes := bytes\<rparr>"
proof (cases "temp_rows_fused env")
  case (Inr rows)
  show ?thesis
  proof (cases "map_of (fused_temp_cache st) (w13_device layer, layer_hidden layer, layer_intermediate layer, max 1 c, rows)")
    case None
    then show ?thesis using assms Inr by (auto simp: build_exl3_fused_state_def Let_def)
  next
    case (Some bytes)
    then have "st' = st\<lparr>fused_temp_cache := fused_temp_cache st, fused_temps_allocs := fused_temps_allocs st, fused_temps_bytes := bytes\<rparr>"
      using assms Inr by (simp add: build_exl3_fused_state_def Let_def)
    then show ?thesis by blast
  qed
qed (use assms in \<open>simp add: build_exl3_fused_state_def Let_def\<close>)

lemma build_inv:
  "build_exl3_fused_state env c layer st = Inr (layer', st') \<Longrightarrow> fat_inv st \<Longrightarrow> fat_inv st'"
  using build_state[of env c layer st layer' st']
  by (auto simp: fat_inv_def calls_ok_def runs_ok_def scratch_ok_def stats_ok_def served_def reasons_total_def)

lemma load_inv:
  assumes "process_weights_after_loading env img K_of_words c params layer st = Inr (layer', st')" and "fat_inv st"
  shows "fat_inv st'"
  using assms
  by (auto simp: process_weights_after_loading_def Let_def dest!: rbind_pair split: if_splits sum.splits
      intro: resolve_inv build_inv[OF _ resolve_inv])

text \<open>The counters when no call has raised: nothing is missing.\<close>

definition clean_ok :: "bool \<Rightarrow> fat_state \<Rightarrow> bool" where
  "clean_ok clean st \<longleftrightarrow> (clean \<longrightarrow> served st = prefill_layer_calls st \<and> direct_calls st = scatter_calls st)"

lemma counters_after_load:
  assumes "process_weights_after_loading env img K_of_words c params layer st = Inr (layer', st')"
  shows "clean_ok clean st' = clean_ok clean st"
proof -
  have resolve: "clean_ok clean st' = clean_ok clean st" if "record_fat_resolution env img layer st = Inr (layer', st')"
    for layer layer' :: "('a, 'b) moe_layer" and st st'
    using resolve_state[OF that] by (auto simp: clean_ok_def served_def resolution_state_def)
  have build: "clean_ok clean st' = clean_ok clean st" if "build_exl3_fused_state env c layer st = Inr (layer', st')"
    for layer layer' :: "('a, 'b) moe_layer" and st st'
    using build_state[OF that] by (auto simp: clean_ok_def served_def)
  show ?thesis
    using assms
    by (auto simp: process_weights_after_loading_def Let_def dest!: rbind_pair resolve build split: if_splits sum.splits)
qed

lemma reachable_fat_inv: "fat_reachable ops clean st \<Longrightarrow> fat_inv st \<and> clean_ok clean st"
proof (induction rule: fat_reachable.induct)
  case start
  show ?case using initial_fat_inv by (simp add: clean_ok_def initial_fat_state_def served_def)
next
  case load
  then show ?case using counters_after_load load_inv by blast
next
  case (apply_layer clean st env img moe argsort to_dtype x_device hidden x ids weights emap limit fused layer r layer' st')
  obtain p k where d: "fat_delta p k st st'" "k \<le> p" "\<not> isl r \<longrightarrow> k = p"
    using experts_delta[OF apply_layer(2)] by blast
  have "fat_inv st'" using fat_delta_inv[OF d(1,2)] apply_layer(3) by blast
  moreover have "clean_ok (clean \<and> \<not> isl r) st'"
  proof (cases r)
    case (Inr out)
    from experts_paired[OF apply_layer(2)[unfolded Inr]] show ?thesis
      using d apply_layer(3) Inr by (auto simp: clean_ok_def fat_delta_def paired_def)
  qed (simp add: clean_ok_def)
  ultimately show ?case by blast
next
  case reset_counters
  then show ?case
    by (simp add: reset_counters_inv) (simp add: clean_ok_def reset_fat_diag_counters_def Let_def served_def)
next
  case reset_stats
  then show ?case
    by (simp add: reset_stats_inv) (simp add: clean_ok_def reset_fat_expert_stats_def served_def)
qed

text \<open>
  C30. The diagnostics balance in every reachable state. The calls counted as prefill of which a path is
  recorded are recorded under one path and one reason each, the grouped kernels ran once for each call
  recorded for them, the second product of an expert never without the first, and no more first products
  than experts run; the bytes reported are those of the buffers held, and the histogram has every layer
  of the statistics once. And as long as no call has raised since the counters were last reset, none is
  missing: every call counted as prefill is recorded under a path, and every expert whose first product the fat
  GEMM computed had its second one too.
\<close>

theorem fat_counters_balance:
  assumes "fat_reachable ops clean st"
  shows "served st \<le> prefill_layer_calls st \<and> reasons_total st = served st \<and> grouped_calls st = fallback_calls st Grouped \<and>
    scatter_calls st \<le> direct_calls st \<and> direct_calls st \<le> fat_expert_runs st \<and>
    fat_scratch_bytes st = sum_list (map (scratch_bytes \<circ> snd) (fat_scratch_cache st)) \<and>
    fat_scratch_bytes st \<le> fat_scratch_peak_bytes st \<and> sum_list (stat_hist (stats st)) = stat_layers (stats st) \<and>
    (clean \<longrightarrow> served st = prefill_layer_calls st \<and> reasons_total st = prefill_layer_calls st \<and>
      direct_calls st = scatter_calls st)"
  using reachable_fat_inv[OF assms]
  by (simp add: fat_inv_def calls_ok_def runs_ok_def scratch_ok_def stats_ok_def clean_ok_def)

lemma fat_counters_balance_witness:
  "served (snd (snd (demo_call 4 Grouped))) = 1 \<and> reasons_total (snd (snd (demo_call 4 Grouped))) = 1 \<and>
   direct_calls (snd (snd (demo_call 4 Grouped))) = scatter_calls (snd (snd (demo_call 4 Grouped))) \<and>
   sum_list (stat_hist (stats (snd (snd (demo_call 4 Grouped))))) = stat_layers (stats (snd (snd (demo_call 4 Grouped))))"
proof -
  have "fat_reachable demo_ops (True \<and> \<not> isl (fst (demo_call 4 Grouped))) (snd (snd (demo_call 4 Grouped)))"
    by (rule fat_reachable.apply_layer[OF fat_reachable.start, where layer' = "fst (snd (demo_call 4 Grouped))"])
      (unfold prod.collapse, rule demo_call_def[symmetric])
  from fat_counters_balance[OF this] show ?thesis by (simp add: demo_call_counts demo_call_returns)
qed

text \<open>
  A call of a layer counts at most once as prefill, and when it returns it is counted as served by as
  many paths as it was counted: no call that returns is lost in the diagnostics or reported twice.
\<close>

lemma call_served_once:
  assumes "apply_exl3_experts env img ops moe argsort to_dtype x_device hidden x ids weights emap limit fused layer st = (Inr out, layer', st')"
  shows "served st' + prefill_layer_calls st = served st + prefill_layer_calls st'"
  using experts_delta[OF assms] by (auto simp: fat_delta_def)

lemma call_served_once_witness: "served (snd (snd (demo_call 4 Grouped))) = 1"
proof -
  have "demo_call 4 Grouped = (Inr [[46, 126], [4, 4], [54, 54]], fst (snd (demo_call 4 Grouped)), snd (snd (demo_call 4 Grouped)))"
    using demo_call_returns by (cases "demo_call 4 Grouped") simp
  from call_served_once[OF trans[OF demo_call_def[symmetric] this]]
  show ?thesis by (simp add: demo_call_counts initial_served) (simp add: initial_fat_state_def)
qed

end
