(* ===== verification/Kv_Block_Queue.thy ===== *)
theory Kv_Block_Queue
  imports Runtime_Base
begin

text \<open>
  The free-block queue of the KV cache manager
  (\<^verbatim>\<open>cuda-gb10-vllm-dsv41-exl3/patches/kv_cache_utils.py\<close>, classes \<open>KVCacheBlock\<close> and
  \<open>FreeKVCacheBlockQueue\<close>): a doubly linked list threaded through mutable block objects, with a
  fake head and a fake tail. Block objects live in a store, so aliasing is explicit: an operation
  that is handed a block handed out before sees and changes the same object. Each operation is
  the source's sequence of reads and writes, and returns the store it leaves also when it raises.
  The theory proves that, on a well-formed queue, every operation implements the corresponding
  operation on a plain list of blocks, and states that contract as the locale \<open>eviction_queue\<close>,
  inside which the eviction order promised by the class comment is proved once.
\<close>

section \<open>Block objects\<close>

text \<open>Identities of the objects: the two sentinels the constructor makes, and the pool's blocks.\<close>

datatype addr = FakeHead | FakeTail | Blk nat


record kv_block =
  block_id :: int
  ref_cnt :: int
  block_hash :: "bytes option"
  block_hash_num_tokens :: "int option"
  prev_free_block :: "addr option"
  next_free_block :: "addr option"
  is_null :: bool

definition KVCacheBlock :: "int \<Rightarrow> kv_block" where
  "KVCacheBlock i = \<lparr>block_id = i, ref_cnt = 0, block_hash = None, block_hash_num_tokens = None,
     prev_free_block = None, next_free_block = None, is_null = False\<rparr>"

definition set_block_hash :: "bytes \<Rightarrow> int option \<Rightarrow> kv_block \<Rightarrow> kv_block res" where
  "set_block_hash h n b =
     (if block_hash b = None \<and> block_hash_num_tokens b = None
      then Inr (b\<lparr>block_hash := Some h, block_hash_num_tokens := n\<rparr>)
      else Inl AssertionError)"

definition reset_hash :: "kv_block \<Rightarrow> kv_block" where
  "reset_hash b = b\<lparr>block_hash := None, block_hash_num_tokens := None\<rparr>"

type_synonym store = "addr \<Rightarrow> kv_block"

definition set_prev :: "addr \<Rightarrow> addr option \<Rightarrow> store \<Rightarrow> store" where
  "set_prev a p s = s(a := (s a)\<lparr>prev_free_block := p\<rparr>)"

definition set_next :: "addr \<Rightarrow> addr option \<Rightarrow> store \<Rightarrow> store" where
  "set_next a n s = s(a := (s a)\<lparr>next_free_block := n\<rparr>)"

lemma links_set [simp]:
  "prev_free_block (set_prev a p s b) = (if b = a then p else prev_free_block (s b))"
  "next_free_block (set_prev a p s b) = next_free_block (s b)"
  "prev_free_block (set_next a p s b) = prev_free_block (s b)"
  "next_free_block (set_next a p s b) = (if b = a then p else next_free_block (s b))"
  by (simp_all add: set_prev_def set_next_def)

text \<open>The payload of a block: everything but its two links, which is all the queue may change.\<close>

definition payload :: "kv_block \<Rightarrow> kv_block" where
  "payload b = b\<lparr>prev_free_block := None, next_free_block := None\<rparr>"

lemma payload_set [simp]:
  "payload (set_prev a p s b) = payload (s b)"
  "payload (set_next a p s b) = payload (s b)"
  by (simp_all add: set_prev_def set_next_def payload_def)

section \<open>The queue and its operations\<close>

record free_queue =
  num_free_blocks :: int
  blocks_store :: store

abbreviation on_store :: "(store \<Rightarrow> store) \<Rightarrow> free_queue \<Rightarrow> free_queue" where
  "on_store f q \<equiv> q\<lparr>blocks_store := f (blocks_store q)\<rparr>"

text \<open>
  The constructor. The loop over \<open>range(len(blocks))\<close> links each block to its neighbours, then the
  sentinels are created and attached.
\<close>

fun link_blocks :: "addr list \<Rightarrow> nat \<Rightarrow> nat \<Rightarrow> store \<Rightarrow> store" where
  "link_blocks bs i 0 s = s"
| "link_blocks bs i (Suc k) s =
     (let s = (if i > 0 then set_prev (bs ! i) (Some (bs ! (i - 1))) s else s);
          s = (if i < length bs - 1 then set_next (bs ! i) (Some (bs ! (i + 1))) s else s)
      in link_blocks bs (Suc i) k s)"

definition init_queue :: "addr list \<Rightarrow> store \<Rightarrow> free_queue" where
  "init_queue bs s =
     (let s = link_blocks bs 0 (length bs) s;
          s = s(FakeHead := KVCacheBlock (-1), FakeTail := KVCacheBlock (-1));
          s = (if length bs > 0 then
                 set_next (last bs) (Some FakeTail)
                  (set_prev FakeTail (Some (last bs))
                   (set_prev (hd bs) (Some FakeHead)
                    (set_next FakeHead (Some (hd bs)) s)))
               else
                 set_prev FakeTail (Some FakeHead) (set_next FakeHead (Some FakeTail) s))
      in \<lparr>num_free_blocks = int (length bs), blocks_store = s\<rparr>)"

definition popleft :: "free_queue \<Rightarrow> (free_queue, addr) outcome" where
  "popleft q =
     (let s = blocks_store q in
      case next_free_block (s FakeHead) of
        None \<Rightarrow> (Inl (if num_free_blocks q = 0 then ValueError else AssertionError), q)
      | Some first \<Rightarrow>
          if first = FakeTail
          then (Inl (if num_free_blocks q = 0 then ValueError else AssertionError), q)
          else (case next_free_block (s first) of
                  None \<Rightarrow> (Inl RuntimeError, q)
                | Some _ \<Rightarrow>
                    let s = set_next FakeHead (next_free_block (s first)) s;
                        s = (case next_free_block (s first) of
                               None \<Rightarrow> s
                             | Some second \<Rightarrow> set_prev second (Some FakeHead) s);
                        s = set_next first None (set_prev first None s)
                    in (Inr first,
                        q\<lparr>num_free_blocks := num_free_blocks q - 1, blocks_store := s\<rparr>)))"

fun pop_loop :: "nat \<Rightarrow> addr option \<Rightarrow> addr list \<Rightarrow> store \<Rightarrow> (addr list \<times> addr option) res \<times> store" where
  "pop_loop 0 cur ret s = (Inr (ret, cur), s)"
| "pop_loop (Suc k) None ret s = (Inl AssertionError, s)"
| "pop_loop (Suc k) (Some b) ret s =
     (let cur = next_free_block (s b)
      in pop_loop k cur (ret @ [b]) (set_next b None (set_prev b None s)))"

definition popleft_n :: "int \<Rightarrow> free_queue \<Rightarrow> (free_queue, addr list) outcome" where
  "popleft_n n q =
     (if n = 0 then (Inr [], q)
      else if \<not> num_free_blocks q \<ge> n then (Inl AssertionError, q)
      else
        let q = q\<lparr>num_free_blocks := num_free_blocks q - n\<rparr>;
            s = blocks_store q;
            (r, s) = pop_loop (nat n) (next_free_block (s FakeHead)) [] s
        in case r of
             Inl e \<Rightarrow> (Inl e, q\<lparr>blocks_store := s\<rparr>)
           | Inr (ret, None) \<Rightarrow> (Inr ret, q\<lparr>blocks_store := s\<rparr>)
           | Inr (ret, Some cur) \<Rightarrow>
               (Inr ret, q\<lparr>blocks_store :=
                  set_prev cur (Some FakeHead) (set_next FakeHead (Some cur) s)\<rparr>))"

definition remove :: "addr \<Rightarrow> free_queue \<Rightarrow> (free_queue, unit) outcome" where
  "remove b q =
     (let s = blocks_store q in
      case prev_free_block (s b) of
        None \<Rightarrow> (Inl RuntimeError, q)
      | Some p \<Rightarrow>
          (case next_free_block (s b) of
             None \<Rightarrow> (Inl RuntimeError, q)
           | Some n \<Rightarrow>
               let s = set_next p (Some n) s;
                   s = (case next_free_block (s b) of
                          None \<Rightarrow> s
                        | Some n \<Rightarrow> set_prev n (prev_free_block (s b)) s);
                   s = set_next b None (set_prev b None s)
               in (Inr (), q\<lparr>blocks_store := s, num_free_blocks := num_free_blocks q - 1\<rparr>)))"

definition append_block :: "addr \<Rightarrow> free_queue \<Rightarrow> (free_queue, unit) outcome" where
  "append_block b q =
     (let s = blocks_store q in
      case prev_free_block (s FakeTail) of
        None \<Rightarrow> (Inl RuntimeError, q)
      | Some l \<Rightarrow>
          let s = set_next l (Some b) s;
              s = set_prev b (Some l) s;
              s = set_next b (Some FakeTail) s;
              s = set_prev FakeTail (Some b) s
          in (Inr (), q\<lparr>blocks_store := s, num_free_blocks := num_free_blocks q + 1\<rparr>))"

fun chain_blocks :: "addr \<Rightarrow> addr list \<Rightarrow> store \<Rightarrow> addr \<times> store" where
  "chain_blocks p [] s = (p, s)"
| "chain_blocks p (b # bs) s = chain_blocks b bs (set_next p (Some b) (set_prev b (Some p) s))"

definition prepend_n :: "addr list \<Rightarrow> free_queue \<Rightarrow> (free_queue, unit) outcome" where
  "prepend_n bs q =
     (if length bs = 0 then (Inr (), q)
      else let s = blocks_store q in
        case next_free_block (s FakeHead) of
          None \<Rightarrow> (Inl AssertionError, q)
        | Some first \<Rightarrow>
            let (p, s) = chain_blocks FakeHead bs s;
                s = set_next p (Some first) s;
                s = set_prev first (Some p) s
            in (Inr (), q\<lparr>blocks_store := s,
                           num_free_blocks := num_free_blocks q + int (length bs)\<rparr>))"

definition append_n :: "addr list \<Rightarrow> free_queue \<Rightarrow> (free_queue, unit) outcome" where
  "append_n bs q =
     (if length bs = 0 then (Inr (), q)
      else let s = blocks_store q in
        case prev_free_block (s FakeTail) of
          None \<Rightarrow> (Inl AssertionError, q)
        | Some l \<Rightarrow>
            let (l, s) = chain_blocks l bs s;
                s = set_next l (Some FakeTail) s;
                s = set_prev FakeTail (Some l) s
            in (Inr (), q\<lparr>blocks_store := s,
                           num_free_blocks := num_free_blocks q + int (length bs)\<rparr>))"

text \<open>
  The two traversals follow \<open>next_free_block\<close> until it runs out: on a cyclic store they do not
  return, which is \<open>None\<close>.
\<close>

partial_function (option) free_blocks_loop :: "store \<Rightarrow> addr \<Rightarrow> addr list \<Rightarrow> addr list option" where
  "free_blocks_loop s cur ret =
     (case next_free_block (s cur) of
        None \<Rightarrow> Some ret
      | Some n \<Rightarrow> free_blocks_loop s n (ret @ [cur]))"

definition get_all_free_blocks :: "free_queue \<Rightarrow> addr list res option" where
  "get_all_free_blocks q =
     (case next_free_block (blocks_store q FakeHead) of
        None \<Rightarrow> Some (Inl RuntimeError)
      | Some c \<Rightarrow> map_option Inr (free_blocks_loop (blocks_store q) c []))"

partial_function (option) iter_loop :: "store \<Rightarrow> addr option \<Rightarrow> addr list \<Rightarrow> addr list option" where
  "iter_loop s cur ret =
     (case cur of
        None \<Rightarrow> Some ret
      | Some c \<Rightarrow> if c = FakeTail then Some ret
                  else iter_loop s (next_free_block (s c)) (ret @ [c]))"

definition iter_blocks_after :: "addr option \<Rightarrow> free_queue \<Rightarrow> addr list option" where
  "iter_blocks_after cursor q =
     (let s = blocks_store q;
          cur = (case cursor of None \<Rightarrow> next_free_block (s FakeHead)
                  | Some c \<Rightarrow> next_free_block (s c))
      in iter_loop s cur [])"

section \<open>Well-formed queues\<close>

text \<open>
  \<open>linked s ns\<close>: consecutive objects of \<open>ns\<close> point at each other. Both sentinels belong to the
  chain of a queue; \<open>queue_of q xs\<close> says that \<open>q\<close> holds exactly the blocks \<open>xs\<close>, in order, and that
  every other block is detached (the caller's blocks carry no links).
\<close>

fun linked :: "store \<Rightarrow> addr list \<Rightarrow> bool" where
  "linked s (a # b # ns) \<longleftrightarrow>
     next_free_block (s a) = Some b \<and> prev_free_block (s b) = Some a \<and> linked s (b # ns)"
| "linked s _ \<longleftrightarrow> True"

definition sentinels :: "addr set" where
  "sentinels = {FakeHead, FakeTail}"

definition chain :: "addr list \<Rightarrow> addr list" where
  "chain xs = FakeHead # xs @ [FakeTail]"

definition queue_of :: "free_queue \<Rightarrow> addr list \<Rightarrow> bool" where
  "queue_of q xs \<longleftrightarrow>
     distinct xs \<and> set xs \<inter> sentinels = {} \<and>
     linked (blocks_store q) (chain xs) \<and>
     prev_free_block (blocks_store q FakeHead) = None \<and>
     next_free_block (blocks_store q FakeTail) = None \<and>
     (\<forall>b. b \<notin> set xs \<longrightarrow> b \<notin> sentinels \<longrightarrow>
        prev_free_block (blocks_store q b) = None \<and> next_free_block (blocks_store q b) = None) \<and>
     num_free_blocks q = int (length xs)"

lemma linked_append:
  "linked s (as @ b # cs) \<longleftrightarrow> linked s (as @ [b]) \<and> linked s (b # cs)"
proof (induction as)
  case (Cons a as)
  then show ?case by (cases as) auto
qed (cases cs; simp)

lemma linked_set_next:
  "a \<notin> set (butlast ns) \<Longrightarrow> linked (set_next a v s) ns = linked s ns"
  by (induction s ns rule: linked.induct) (auto split: if_splits)

lemma linked_set_prev:
  "a \<notin> set (tl ns) \<Longrightarrow> linked (set_prev a v s) ns = linked s ns"
proof (induction s ns rule: linked.induct)
  case (1 s x y ns)
  then show ?case by (cases ns) auto
qed auto

lemma linked_next_nth:
  "linked s ns \<Longrightarrow> Suc i < length ns \<Longrightarrow> next_free_block (s (ns ! i)) = Some (ns ! Suc i)"
proof (induction s ns arbitrary: i rule: linked.induct)
  case (1 s a b ns)
  then show ?case by (cases i) auto
qed auto

lemma queue_ofD:
  assumes "queue_of q xs"
  shows "distinct xs" "FakeHead \<notin> set xs" "FakeTail \<notin> set xs"
    "linked (blocks_store q) (FakeHead # xs @ [FakeTail])"
    "prev_free_block (blocks_store q FakeHead) = None"
    "next_free_block (blocks_store q FakeTail) = None"
    "num_free_blocks q = int (length xs)"
    "b \<notin> set xs \<Longrightarrow> b \<notin> sentinels \<Longrightarrow>
       prev_free_block (blocks_store q b) = None \<and> next_free_block (blocks_store q b) = None"
  using assms by (auto simp: queue_of_def sentinels_def chain_def)

lemma queue_of_head:
  "queue_of q xs \<Longrightarrow> next_free_block (blocks_store q FakeHead) = Some (hd (xs @ [FakeTail]))"
  using queue_ofD(4)[of q xs] by (cases xs) auto

lemma linked_snoc_last: "linked s (a # xs @ [z]) \<Longrightarrow> prev_free_block (s z) = Some (last (a # xs))"
  by (induction xs arbitrary: a) auto

lemma queue_of_tail:
  "queue_of q xs \<Longrightarrow> prev_free_block (blocks_store q FakeTail) = Some (last (FakeHead # xs))"
  by (drule queue_ofD(4)) (rule linked_snoc_last)

text \<open>A well-formed queue has exactly one content: the relation is a function on stores.\<close>

lemma linked_unique:
  assumes "linked s (a # xs @ [FakeTail])" "linked s (a # ys @ [FakeTail])"
    and "next_free_block (s FakeTail) = None"
  shows "xs = ys"
  using assms
proof (induction xs arbitrary: a ys)
  case Nil
  then show ?case by (cases ys; cases "tl ys") auto
next
  case (Cons x xs)
  then show ?case
  proof (cases ys)
    case Nil
    with Cons.prems have "x = FakeTail" by simp
    with Cons.prems show ?thesis by (cases xs) auto
  next
    case (Cons y zs)
    with Cons.prems Cons.IH[of x zs] show ?thesis by auto
  qed
qed

lemma queue_of_unique: "queue_of q xs \<Longrightarrow> queue_of q ys \<Longrightarrow> xs = ys"
  by (meson linked_unique queue_ofD(4,6))

section \<open>Operations refine lists\<close>

definition same_payload :: "free_queue \<Rightarrow> free_queue \<Rightarrow> bool" where
  "same_payload q q' \<longleftrightarrow> (\<forall>b. payload (blocks_store q' b) = payload (blocks_store q b))"

lemma same_payload_refl [simp]: "same_payload q q"
  by (simp add: same_payload_def)

lemma popleft_Cons:
  assumes "queue_of q (x # xs)"
  shows "\<exists>q'. popleft q = (Inr x, q') \<and> queue_of q' xs \<and> same_payload q q'"
proof -
  define s where "s = blocks_store q"
  define y where "y = hd (xs @ [FakeTail])"
  define s' where "s' = set_next x None (set_prev x None
      (set_prev y (Some FakeHead) (set_next FakeHead (Some y) s)))"
  note q = queue_ofD[OF assms, folded s_def]
  have x: "x \<noteq> FakeHead" "x \<noteq> FakeTail" "x \<notin> set xs" "FakeHead \<notin> set xs" "FakeTail \<notin> set xs"
    using q(1-3) by auto
  have nx: "next_free_block (s x) = Some y"
    using q(4) by (cases xs) (auto simp: y_def)
  have nh: "next_free_block (s FakeHead) = Some x" using q(4) by auto
  have xy: "y \<noteq> x" "y \<noteq> FakeHead" using x by (cases xs; auto simp: y_def)+
  have "popleft q = (Inr x, q\<lparr>num_free_blocks := num_free_blocks q - 1, blocks_store := s'\<rparr>)"
    using nx nh x xy by (simp add: popleft_def Let_def s_def[symmetric] s'_def)
  moreover have "linked s' (FakeHead # xs @ [FakeTail])"
    using q(1,4) x xy
    by (cases xs) (auto simp: s'_def y_def linked_set_next linked_set_prev butlast_append)
  then have "queue_of (q\<lparr>num_free_blocks := num_free_blocks q - 1, blocks_store := s'\<rparr>) xs"
    using q x xy by (auto simp: queue_of_def chain_def sentinels_def s'_def y_def)
      (cases xs; auto)+
  moreover have "same_payload q (q\<lparr>num_free_blocks := num_free_blocks q - 1, blocks_store := s'\<rparr>)"
    by (simp add: same_payload_def s'_def s_def)
  ultimately show ?thesis by blast
qed

lemma popleft_Nil: "queue_of q [] \<Longrightarrow> popleft q = (Inl ValueError, q)"
  using queue_of_head[of q "[]"] queue_ofD(7)[of q "[]"] by (simp add: popleft_def Let_def)


lemma linked_cong:
  assumes "\<And>a. a \<in> set (butlast ns) \<Longrightarrow> next_free_block (s a) = next_free_block (s' a)"
    and "\<And>a. a \<in> set (tl ns) \<Longrightarrow> prev_free_block (s a) = prev_free_block (s' a)"
  shows "linked s ns = linked s' ns"
  using assms
proof (induction s ns rule: linked.induct)
  case (1 s a b ns)
  then have "linked s (b # ns) = linked s' (b # ns)" by (cases ns) auto
  with 1 show ?case by auto
qed auto

definition detach_all :: "addr list \<Rightarrow> store \<Rightarrow> store" where
  "detach_all bs s = fold (\<lambda>b s. set_next b None (set_prev b None s)) bs s"

lemma detach_all_links [simp]:
  "prev_free_block (detach_all bs s a) = (if a \<in> set bs then None else prev_free_block (s a))"
  "next_free_block (detach_all bs s a) = (if a \<in> set bs then None else next_free_block (s a))"
  "payload (detach_all bs s a) = payload (s a)"
  unfolding detach_all_def by (induction bs arbitrary: s) auto

lemma linked_detach:
  "set bs \<inter> set ns = {} \<Longrightarrow> linked (detach_all bs s) ns = linked s ns"
  by (rule linked_cong) (auto dest: in_set_butlastD in_set_tl)

lemma linked_off [simp]:
  "b \<notin> set ns \<Longrightarrow> linked (set_next b v (set_prev b w s)) ns = linked s ns"
  by (rule linked_cong) (auto dest: in_set_butlastD in_set_tl)

lemma linked_set_off [simp]:
  "b \<notin> set ns \<Longrightarrow> linked (set_next b v s) ns = linked s ns"
  "b \<notin> set ns \<Longrightarrow> linked (set_prev b v s) ns = linked s ns"
  by (meson in_set_butlastD in_set_tl linked_set_next linked_set_prev)+

lemma pop_loop_linked:
  assumes "linked s (bs @ [c])" and "distinct (bs @ [c])"
  shows "pop_loop (length bs) (Some (hd (bs @ [c]))) ret s = (Inr (ret @ bs, Some c), detach_all bs s)"
  using assms
proof (induction bs arbitrary: s ret)
  case (Cons b bs)
  let ?s = "set_next b None (set_prev b None s)"
  have nb: "next_free_block (s b) = Some (hd (bs @ [c]))" and l: "linked s (bs @ [c])"
    using Cons.prems(1) by (cases bs; auto)+
  from l have "linked ?s (bs @ [c])" using Cons.prems(2) by simp
  from Cons.IH[OF this] Cons.prems(2) nb show ?case by (simp add: detach_all_def)
qed (simp add: detach_all_def)

lemma popleft_n_take:
  assumes "queue_of q xs" and "0 \<le> n" and "n \<le> int (length xs)"
  shows "\<exists>q'. popleft_n n q = (Inr (take (nat n) xs), q') \<and> queue_of q' (drop (nat n) xs)
            \<and> same_payload q q'"
proof (cases "n = 0")
  case True
  with assms show ?thesis by (simp add: popleft_n_def)
next
  case False
  define k where "k = nat n"
  have k: "0 < k" "k \<le> length xs" "n = int k" using assms False by (auto simp: k_def)
  define bs cs where "bs = take k xs" and "cs = drop k xs"
  define c where "c = hd (cs @ [FakeTail])"
  define s where "s = blocks_store q"
  note q = queue_ofD[OF assms(1), folded s_def]
  have xs: "xs = bs @ cs" "length bs = k" using k by (auto simp: bs_def cs_def)
  have d: "distinct (bs @ [c])" "FakeHead \<notin> set (bs @ [c])" "FakeTail \<notin> set bs"
    using q(1-3) xs by (cases cs; auto simp: c_def)+
  obtain ds where ds: "cs @ [FakeTail] = c # ds"
    by (cases cs) (auto simp: c_def)
  have l: "linked s (FakeHead # bs @ c # ds)" using q(4) ds by (simp add: xs)
  then have l1: "linked s (bs @ [c])" and l2: "linked s (c # ds)"
    using linked_append[of s "FakeHead # bs" c ds] by (cases bs; auto)+
  have nh: "next_free_block (s FakeHead) = Some (hd (bs @ [c]))"
    using queue_of_head[OF assms(1)] xs by (cases bs) (auto simp: s_def c_def)
  define s' where "s' = set_prev c (Some FakeHead) (set_next FakeHead (Some c) (detach_all bs s))"
  have loop: "pop_loop k (Some (hd (bs @ [c]))) [] s = (Inr (bs, Some c), detach_all bs s)"
    using pop_loop_linked[OF l1 d(1), of "[]"] xs by simp
  define q' where "q' = q\<lparr>num_free_blocks := num_free_blocks q - n, blocks_store := s'\<rparr>"
  have run: "popleft_n n q = (Inr bs, q')"
    using False k q(7) nh loop
    by (simp add: popleft_n_def Let_def s_def[symmetric] s'_def q'_def)
  have dc: "c \<notin> set ds" "FakeHead \<notin> set (c # ds)" "set bs \<inter> set (c # ds) = {}"
  proof -
    have "distinct (FakeHead # bs @ cs @ [FakeTail])" using q(1-3) xs by auto
    then have "distinct (FakeHead # bs @ c # ds)" by (simp only: ds)
    then show "c \<notin> set ds" "FakeHead \<notin> set (c # ds)" "set bs \<inter> set (c # ds) = {}" by auto
  qed
  have "linked s' (FakeHead # c # ds)"
    using l2 dc by (auto simp: s'_def linked_set_next linked_set_prev linked_detach
        dest: in_set_butlastD)
  then have ln: "linked (blocks_store q') (FakeHead # cs @ [FakeTail])"
    by (simp only: ds q'_def) simp
  have "c \<noteq> FakeHead" "c \<in> set cs \<union> {FakeTail}" using d(2) ds by (cases cs; auto)+
  then have "queue_of q' cs"
    using q xs ln d k unfolding queue_of_def chain_def sentinels_def
    by (auto simp: q'_def s'_def)
  moreover have "same_payload q q'"
    by (simp add: same_payload_def q'_def s'_def s_def)
  ultimately show ?thesis using run by (auto simp: bs_def cs_def k_def)
qed

lemma popleft_n_short:
  "queue_of q xs \<Longrightarrow> int (length xs) < n \<Longrightarrow> popleft_n n q = (Inl AssertionError, q)"
  using queue_ofD(7)[of q xs] by (auto simp: popleft_n_def)


lemma linked_set_prev_hd [simp]:
  "a \<notin> set ns \<Longrightarrow> linked (set_prev a v s) (a # ns) = linked s (a # ns)"
  by (simp add: linked_set_prev)

lemma remove_mid:
  assumes "queue_of q (as @ b # cs)"
  shows "\<exists>q'. remove b q = (Inr (), q') \<and> queue_of q' (as @ cs) \<and> same_payload q q'"
proof -
  define s where "s = blocks_store q"
  note q = queue_ofD[OF assms, folded s_def]
  obtain as' p where as': "FakeHead # as = as' @ [p]" by (metis append_butlast_last_id list.distinct(1))
  obtain n cs' where cs': "cs @ [FakeTail] = n # cs'" by (cases cs) auto
  have l: "linked s (as' @ p # b # n # cs')"
    using q(4) as' cs' by (metis append.assoc append_Cons append_Nil)
  have d: "distinct (as' @ p # b # n # cs')"
  proof -
    have "distinct ((FakeHead # as) @ b # cs @ [FakeTail])" using q(1-3) by auto
    then show ?thesis by (simp only: as' cs') simp
  qed
  have l1: "linked s (as' @ [p])" and l2: "linked s (p # b # n # cs')"
    using l linked_append[of s as' p "b # n # cs'"] by auto
  define s' where "s' = set_next b None (set_prev b None (set_prev n (Some p) (set_next p (Some n) s)))"
  define q' where "q' = q\<lparr>blocks_store := s', num_free_blocks := num_free_blocks q - 1\<rparr>"
  have run: "remove b q = (Inr (), q')"
    using l2 d by (auto simp: remove_def Let_def s_def[symmetric] s'_def q'_def)
  have "linked s' (as' @ [p])" and "linked s' (p # n # cs')"
    using l1 l2 d by (auto simp: s'_def linked_set_next)
  then have "linked s' ((FakeHead # as) @ cs @ [FakeTail])"
    using linked_append[of s' as' p "n # cs'"] by (simp only: as' cs') simp
  moreover have "n = hd (cs @ [FakeTail])" "p = last (FakeHead # as)" using as' cs' by auto
  then have "n \<in> set cs \<union> {FakeTail}" "p \<in> set as \<union> {FakeHead}"
    by (metis cs' Un_iff list.set_intros(1) set_append list.simps(15) empty_set,
        metis Un_iff empty_iff empty_set insert_iff last_in_set list.distinct(1) list.set(2))
  ultimately have "queue_of q' (as @ cs)"
    using q d unfolding queue_of_def chain_def sentinels_def by (auto simp: q'_def s'_def)
  moreover have "same_payload q q'" by (simp add: same_payload_def q'_def s'_def s_def)
  ultimately show ?thesis using run by blast
qed

lemma remove_absent:
  "queue_of q xs \<Longrightarrow> b \<notin> set xs \<Longrightarrow> b \<notin> sentinels \<Longrightarrow> remove b q = (Inl RuntimeError, q)"
  using queue_ofD(8)[of q xs b] by (simp add: remove_def Let_def)

lemma chain_blocks_spec:
  assumes "chain_blocks p bs s = (l, s')" and "distinct (p # bs)"
  shows "l = last (p # bs)" and "linked s' (p # bs)"
    and "\<And>a. a \<notin> set (butlast (p # bs)) \<Longrightarrow> next_free_block (s' a) = next_free_block (s a)"
    and "\<And>a. a \<notin> set bs \<Longrightarrow> prev_free_block (s' a) = prev_free_block (s a)"
    and "\<And>a. payload (s' a) = payload (s a)"
proof -
  have "l = last (p # bs) \<and> linked s' (p # bs)
    \<and> (\<forall>a. a \<notin> set (butlast (p # bs)) \<longrightarrow> next_free_block (s' a) = next_free_block (s a))
    \<and> (\<forall>a. a \<notin> set bs \<longrightarrow> prev_free_block (s' a) = prev_free_block (s a))
    \<and> (\<forall>a. payload (s' a) = payload (s a))"
    using assms
  proof (induction bs arbitrary: p s)
    case (Cons b bs)
    define s1 where "s1 = set_next p (Some b) (set_prev b (Some p) s)"
    have run: "chain_blocks b bs s1 = (l, s')" using Cons.prems(1) by (simp add: s1_def)
    note IH = Cons.IH[OF run]
    have "p \<notin> set (butlast (b # bs))" "b \<notin> set bs"
      using Cons.prems(2) by (auto dest: in_set_butlastD)
    with IH Cons.prems(2) show ?case by (auto simp: s1_def split: if_splits)
  qed simp
  then show "l = last (p # bs)" "linked s' (p # bs)"
    "\<And>a. a \<notin> set (butlast (p # bs)) \<Longrightarrow> next_free_block (s' a) = next_free_block (s a)"
    "\<And>a. a \<notin> set bs \<Longrightarrow> prev_free_block (s' a) = prev_free_block (s a)"
    "\<And>a. payload (s' a) = payload (s a)" by auto
qed

text \<open>
  Splicing a fresh chain \<open>bs\<close> between two neighbours \<open>p\<close> and \<open>n\<close> of a queue, which is what
  \<open>append\<close>, \<open>append_n\<close> and \<open>prepend_n\<close> do.
\<close>

lemma splice_linked:
  assumes l: "linked s (as @ p # n # cs)" and d: "distinct (as @ p # bs @ n # cs)"
    and c: "chain_blocks p bs s = (e, s1)"
  shows "linked (set_prev n (Some e) (set_next e (Some n) s1)) (as @ p # bs @ n # cs)"
proof -
  let ?s = "set_prev n (Some e) (set_next e (Some n) s1)"
  have dp: "distinct (p # bs)" using d by auto
  note ch = chain_blocks_spec[OF c dp]
  have l1: "linked s (as @ [p])" and l2: "linked s (n # cs)"
    using l linked_append[of s as p "n # cs"] by auto
  have e: "e \<in> set (p # bs)" unfolding ch(1) by (rule last_in_set) simp
  have off: "next_free_block (?s a) = next_free_block (s a)" if "a \<notin> set (p # bs)" for a
    using that ch(3)[of a] e in_set_butlastD[of a "p # bs"] by (auto simp del: butlast.simps)
  have "linked ?s (as @ [p])"
  proof -
    have "linked s (as @ [p]) = linked ?s (as @ [p])"
    proof (rule linked_cong)
      fix a assume "a \<in> set (butlast (as @ [p]))"
      then have a: "a \<in> set as" by simp
      then have "a \<notin> set (p # bs)" using d by auto
      then show "next_free_block (s a) = next_free_block (?s a)" by (rule off[symmetric])
    next
      fix a assume "a \<in> set (tl (as @ [p]))"
      then have "a \<in> set (as @ [p])" by (rule in_set_tl)
      then have "a \<notin> set bs" "a \<noteq> n" using d by auto
      then show "prev_free_block (s a) = prev_free_block (?s a)" using ch(4)[of a] by auto
    qed
    with l1 show ?thesis by simp
  qed
  moreover have "linked ?s (p # bs @ n # cs)"
  proof -
    have "linked ?s (n # cs)"
    proof -
      have "linked s (n # cs) = linked ?s (n # cs)"
      proof (rule linked_cong)
        fix a assume "a \<in> set (butlast (n # cs))"
        then have "a \<in> set (n # cs)" by (rule in_set_butlastD)
        then have "a \<notin> set (p # bs)" using d by auto
        then show "next_free_block (s a) = next_free_block (?s a)" by (rule off[symmetric])
      next
        fix a assume "a \<in> set (tl (n # cs))"
        then have "a \<notin> set bs" "a \<noteq> n" using d by auto
        then show "prev_free_block (s a) = prev_free_block (?s a)" using ch(4)[of a] by auto
      qed
      with l2 show ?thesis by simp
    qed
    moreover have "linked ?s (butlast (p # bs) @ [e])"
    proof -
      have pb: "butlast (p # bs) @ [e] = p # bs" unfolding ch(1) by simp
      have "e \<notin> set (butlast (p # bs))" using dp pb by (metis distinct_append distinct_singleton
          Int_iff disjoint_iff list.set_intros(1))
      moreover have "n \<notin> set (p # bs)" using d by auto
      ultimately show ?thesis using ch(2) unfolding pb by (simp add: linked_set_next del: butlast.simps)
    qed
    moreover have eq: "p # bs @ n # cs = butlast (p # bs) @ e # n # cs"
      unfolding ch(1) by (metis append.assoc append_Cons append_Nil append_butlast_last_id list.distinct(1))
    moreover have "linked ?s (e # n # cs)"
      using calculation(1) d e by simp
    ultimately show ?thesis
      unfolding eq using linked_append[of ?s "butlast (p # bs)" e "n # cs"] by (simp del: butlast.simps)
  qed
  ultimately show ?thesis using linked_append[of ?s as p "bs @ n # cs"] by auto
qed

lemma append_n_snoc:
  assumes "queue_of q xs" and "distinct bs" and "set bs \<inter> set xs = {}" and "set bs \<inter> sentinels = {}"
  shows "\<exists>q'. append_n bs q = (Inr (), q') \<and> queue_of q' (xs @ bs) \<and> same_payload q q'"
proof (cases "bs = []")
  case True
  with assms(1) show ?thesis by (simp add: append_n_def)
next
  case False
  define s where "s = blocks_store q"
  note q = queue_ofD[OF assms(1), folded s_def]
  obtain as p where as: "FakeHead # xs = as @ [p]" by (metis append_butlast_last_id list.distinct(1))
  have p: "p = last (FakeHead # xs)" by (simp add: as)
  obtain e s1 where c: "chain_blocks p bs s = (e, s1)" by fastforce
  define q' where "q' = q\<lparr>blocks_store := set_prev FakeTail (Some e) (set_next e (Some FakeTail) s1),
      num_free_blocks := num_free_blocks q + int (length bs)\<rparr>"
  have run: "append_n bs q = (Inr (), q')"
    using False queue_of_tail[OF assms(1)] c
    by (simp add: append_n_def Let_def s_def[symmetric] q'_def p)
  have "linked s (as @ p # FakeTail # [])" using q(4) as by (metis append.assoc append_Cons append_Nil)
  moreover have d: "distinct (as @ p # bs @ FakeTail # [])"
  proof -
    have "distinct ((FakeHead # xs) @ bs @ [FakeTail])" using q(1-3) assms(2-4) by (auto simp: sentinels_def)
    then show ?thesis by (simp only: as) simp
  qed
  ultimately have "linked (blocks_store q') (as @ p # bs @ FakeTail # [])"
    using splice_linked[OF _ _ c] by (simp add: q'_def)
  then have ln: "linked (blocks_store q') (FakeHead # (xs @ bs) @ [FakeTail])"
    using as by (metis append.assoc append_Cons append_Nil)
  have dp: "distinct (p # bs)" using d by auto
  note ch = chain_blocks_spec[OF c dp]
  have e: "e \<in> set bs" using False ch(1) by simp
  have pin: "p \<in> set xs \<union> {FakeHead}" using p by (metis Un_iff empty_iff insert_iff last_in_set list.distinct(1) list.set(2))
  have off: "b \<notin> set bs \<Longrightarrow> b \<notin> set xs \<Longrightarrow> b \<noteq> FakeHead \<Longrightarrow> next_free_block (s1 b) = next_free_block (s b)"
    for b
    using ch(3)[of b] in_set_butlastD[of b "p # bs"] pin by auto
  have "queue_of q' (xs @ bs)"
    unfolding queue_of_def
    using q assms(2-4) ln e pin off ch(4)
    by (auto simp: q'_def chain_def sentinels_def)
  moreover have "same_payload q q'" using ch(5) by (simp add: same_payload_def q'_def s_def)
  ultimately show ?thesis using run by blast
qed

lemma append_block_eq:
  "append_block b q = (case append_n [b] q of (Inl e, q') \<Rightarrow> (Inl RuntimeError, q') | r \<Rightarrow> r)
   \<or> b = FakeTail \<or> prev_free_block (blocks_store q FakeTail) = Some b"
  by (auto simp: append_block_def append_n_def Let_def set_prev_def set_next_def fun_eq_iff
      split: option.splits)

lemma append_block_snoc:
  assumes "queue_of q xs" and "b \<notin> set xs" and "b \<notin> sentinels"
  shows "\<exists>q'. append_block b q = (Inr (), q') \<and> queue_of q' (xs @ [b]) \<and> same_payload q q'"
proof -
  have "prev_free_block (blocks_store q FakeTail) \<noteq> Some b"
    using queue_of_tail[OF assms(1)] assms(2,3) by (auto simp: sentinels_def split: if_splits)
  with append_n_snoc[OF assms(1), of "[b]"] append_block_eq[of b q] assms(2,3)
  show ?thesis by (auto simp: sentinels_def)
qed

lemma prepend_n_front:
  assumes "queue_of q xs" and "distinct bs" and "set bs \<inter> set xs = {}" and "set bs \<inter> sentinels = {}"
  shows "\<exists>q'. prepend_n bs q = (Inr (), q') \<and> queue_of q' (bs @ xs) \<and> same_payload q q'"
proof (cases "bs = []")
  case True
  with assms(1) show ?thesis by (simp add: prepend_n_def)
next
  case False
  define s where "s = blocks_store q"
  note q = queue_ofD[OF assms(1), folded s_def]
  obtain n cs where cs: "xs @ [FakeTail] = n # cs" by (cases xs) auto
  obtain e s1 where c: "chain_blocks FakeHead bs s = (e, s1)" by fastforce
  define q' where "q' = q\<lparr>blocks_store := set_prev n (Some e) (set_next e (Some n) s1),
      num_free_blocks := num_free_blocks q + int (length bs)\<rparr>"
  have run: "prepend_n bs q = (Inr (), q')"
    using False queue_of_head[OF assms(1)] c
    by (simp add: prepend_n_def Let_def s_def[symmetric] q'_def cs)
  have d: "distinct ([] @ FakeHead # bs @ n # cs)"
  proof -
    have "distinct (FakeHead # bs @ xs @ [FakeTail])" using q(1-3) assms(2-4) by (auto simp: sentinels_def)
    then show ?thesis by (simp only: cs) simp
  qed
  have "linked s ([] @ FakeHead # n # cs)" using q(4) cs by simp
  from splice_linked[OF this d c]
  have ln: "linked (blocks_store q') (FakeHead # (bs @ xs) @ [FakeTail])" by (simp add: q'_def cs)
  have dp: "distinct (FakeHead # bs)" using d by auto
  note ch = chain_blocks_spec[OF c dp]
  have e: "e \<in> set bs" using False ch(1) by simp
  have nin: "n \<in> set xs \<union> {FakeTail}" using cs by (cases xs) auto
  have off: "b \<notin> set bs \<Longrightarrow> b \<noteq> FakeHead \<Longrightarrow> next_free_block (s1 b) = next_free_block (s b)" for b
    using ch(3)[of b] in_set_butlastD[of b "FakeHead # bs"] by auto
  have "queue_of q' (bs @ xs)"
    unfolding queue_of_def
    using q assms(2-4) ln e nin off ch(4)
    by (auto simp: q'_def chain_def sentinels_def)
  moreover have "same_payload q q'" using ch(5) by (simp add: same_payload_def q'_def s_def)
  ultimately show ?thesis using run by blast
qed


section \<open>Traversals and construction\<close>

lemma free_blocks_loop_linked:
  assumes "linked s (xs @ [FakeTail])" and "next_free_block (s FakeTail) = None"
  shows "free_blocks_loop s (hd (xs @ [FakeTail])) ret = Some (ret @ xs)"
  using assms
proof (induction xs arbitrary: ret)
  case Nil
  then show ?case by (simp add: free_blocks_loop.simps)
next
  case (Cons x xs)
  then have "next_free_block (s x) = Some (hd (xs @ [FakeTail]))" "linked s (xs @ [FakeTail])"
    by (cases xs; auto)+
  with Cons show ?case by (simp add: free_blocks_loop.simps[of s x])
qed

lemma iter_loop_linked:
  assumes "linked s (xs @ [FakeTail])" and "FakeTail \<notin> set xs"
  shows "iter_loop s (Some (hd (xs @ [FakeTail]))) ret = Some (ret @ xs)"
  using assms
proof (induction xs arbitrary: ret)
  case Nil
  then show ?case by (simp add: iter_loop.simps)
next
  case (Cons x xs)
  then have "next_free_block (s x) = Some (hd (xs @ [FakeTail]))" "linked s (xs @ [FakeTail])"
    by (cases xs; auto)+
  with Cons show ?case by (auto simp: iter_loop.simps[of s "Some x"])
qed

lemma linked_suffix: "linked s (as @ bs) \<Longrightarrow> linked s bs"
  by (induction as) (auto elim: linked.elims)

lemma get_all_free_blocks_eq:
  assumes "queue_of q xs" shows "get_all_free_blocks q = Some (Inr xs)"
  using queue_of_head[OF assms] free_blocks_loop_linked[of "blocks_store q" xs "[]"]
    linked_suffix[of "blocks_store q" "[FakeHead]" "xs @ [FakeTail]"] queue_ofD(4,6)[OF assms]
  by (simp add: get_all_free_blocks_def)

lemma iter_blocks_after_None:
  assumes "queue_of q xs" shows "iter_blocks_after None q = Some xs"
  using queue_of_head[OF assms] iter_loop_linked[of "blocks_store q" xs "[]"]
    linked_suffix[of "blocks_store q" "[FakeHead]" "xs @ [FakeTail]"] queue_ofD(3,4)[OF assms]
  by (simp add: iter_blocks_after_def)

lemma iter_blocks_after_Some:
  assumes "queue_of q (as @ c # cs)" shows "iter_blocks_after (Some c) q = Some cs"
proof -
  have l: "linked (blocks_store q) ((FakeHead # as) @ c # cs @ [FakeTail])"
    using queue_ofD(4)[OF assms] by simp
  then have l1: "linked (blocks_store q) (c # cs @ [FakeTail])" by (rule linked_suffix)
  then have l2: "linked (blocks_store q) (cs @ [FakeTail])"
    using linked_suffix[of _ "[c]" "cs @ [FakeTail]"] by simp
  have "next_free_block (blocks_store q c) = Some (hd (cs @ [FakeTail]))"
    using l1 by (cases cs) auto
  with iter_loop_linked[OF l2, of "[]"] queue_ofD(3)[OF assms] show ?thesis
    by (simp add: iter_blocks_after_def)
qed

lemma linked_iff_nth:
  "linked s ns \<longleftrightarrow> (\<forall>i. Suc i < length ns \<longrightarrow>
     next_free_block (s (ns ! i)) = Some (ns ! Suc i) \<and> prev_free_block (s (ns ! Suc i)) = Some (ns ! i))"
proof (induction s ns rule: linked.induct)
  case (1 s a b ns)
  show ?case
  proof (intro iffI allI impI)
    fix i assume "linked s (a # b # ns)" "Suc i < length (a # b # ns)"
    then show "next_free_block (s ((a # b # ns) ! i)) = Some ((a # b # ns) ! Suc i) \<and>
        prev_free_block (s ((a # b # ns) ! Suc i)) = Some ((a # b # ns) ! i)"
      using 1 by (cases i) auto
  next
    assume r: "\<forall>i. Suc i < length (a # b # ns) \<longrightarrow>
        next_free_block (s ((a # b # ns) ! i)) = Some ((a # b # ns) ! Suc i) \<and>
        prev_free_block (s ((a # b # ns) ! Suc i)) = Some ((a # b # ns) ! i)"
    show "linked s (a # b # ns)"
      using r[rule_format, of 0] r[rule_format, of "Suc i" for i] 1 by auto
  qed
qed auto

lemma link_blocks_links:
  assumes "distinct bs" and "i + k = length bs"
  shows "(\<forall>j. i \<le> j \<and> 0 < j \<and> j < length bs \<longrightarrow>
            prev_free_block (link_blocks bs i k s (bs ! j)) = Some (bs ! (j - 1))) \<and>
         (\<forall>j. i \<le> j \<and> Suc j < length bs \<longrightarrow>
            next_free_block (link_blocks bs i k s (bs ! j)) = Some (bs ! Suc j)) \<and>
         (\<forall>a. a \<notin> set (drop i bs) \<longrightarrow> link_blocks bs i k s a = s a) \<and>
         (\<forall>a. payload (link_blocks bs i k s a) = payload (s a))"
  using assms(2)
proof (induction k arbitrary: i s)
  case 0
  then show ?case by auto
next
  case (Suc k)
  define s1 where "s1 = (if i > 0 then set_prev (bs ! i) (Some (bs ! (i - 1))) s else s)"
  define s2 where "s2 = (if i < length bs - 1 then set_next (bs ! i) (Some (bs ! (i + 1))) s1 else s1)"
  define t where "t = link_blocks bs (Suc i) k s2"
  have run: "link_blocks bs i (Suc k) s = t"
    by (simp add: s1_def s2_def t_def Let_def)
  have ik: "Suc i + k = length bs" "i < length bs" using Suc.prems by auto
  note IH = Suc.IH[OF ik(1), of s2, folded t_def]
  have di: "drop i bs = bs ! i # drop (Suc i) bs" using ik(2) by (simp add: Cons_nth_drop_Suc)
  have out: "bs ! i \<notin> set (drop (Suc i) bs)"
    using assms(1) di by (metis distinct.simps(2) distinct_drop)
  note keep = IH[THEN conjunct2, THEN conjunct2, THEN conjunct1, rule_format]
  have ti: "t (bs ! i) = s2 (bs ! i)" using keep[OF out] .
  have "prev_free_block (t (bs ! j)) = Some (bs ! (j - 1))" if "i \<le> j" "0 < j" "j < length bs" for j
    using that IH ti by (cases "j = i") (auto simp: s2_def s1_def)
  moreover have "next_free_block (t (bs ! j)) = Some (bs ! Suc j)" if "i \<le> j" "Suc j < length bs" for j
    using that IH ti by (cases "j = i") (auto simp: s2_def)
  moreover have "t a = s a" if "a \<notin> set (drop i bs)" for a
  proof -
    from that have "a \<noteq> bs ! i" "t a = s2 a" using keep[of a] by (simp_all add: di)
    then show ?thesis by (simp add: s1_def s2_def set_prev_def set_next_def)
  qed
  moreover have "payload (t a) = payload (s a)" for a
    using IH by (simp add: s1_def s2_def)
  ultimately show ?case unfolding run by blast
qed

lemma init_queue_of:
  assumes "distinct bs" and "set bs \<inter> sentinels = {}"
    and "\<And>b. b \<notin> set bs \<Longrightarrow> b \<notin> sentinels \<Longrightarrow> prev_free_block (s b) = None \<and> next_free_block (s b) = None"
  shows "queue_of (init_queue bs s) bs"
proof (cases "bs = []")
  case True
  with assms(3) show ?thesis
    by (auto simp: queue_of_def init_queue_def chain_def sentinels_def KVCacheBlock_def)
next
  case False
  define t where "t = link_blocks bs 0 (length bs) s"
  define u where "u = blocks_store (init_queue bs s)"
  note L = link_blocks_links[OF assms(1), of 0 "length bs" s, folded t_def, simplified]
  note keep = L[THEN conjunct2, THEN conjunct2, THEN conjunct1, rule_format]
  have u: "u = set_next (last bs) (Some FakeTail) (set_prev FakeTail (Some (last bs))
      (set_prev (hd bs) (Some FakeHead) (set_next FakeHead (Some (hd bs))
        (t(FakeHead := KVCacheBlock (-1), FakeTail := KVCacheBlock (-1))))))"
    using False by (simp add: u_def init_queue_def t_def Let_def)
  have ns: "FakeHead \<notin> set bs" "FakeTail \<notin> set bs" using assms(2) by (auto simp: sentinels_def)
  have hl: "hd bs = bs ! 0" "last bs = bs ! (length bs - 1)" "hd bs \<in> set bs" "last bs \<in> set bs"
    using False by (auto simp: hd_conv_nth last_conv_nth)
  have inj: "bs ! i = bs ! j \<longleftrightarrow> i = j" if "i < length bs" "j < length bs" for i j
    using that assms(1) by (simp add: nth_eq_iff_index_eq)
  have mid: "bs ! i \<noteq> FakeHead" "bs ! i \<noteq> FakeTail" if "i < length bs" for i
    using that ns nth_mem by metis+
  have lb: "linked u bs"
  proof (subst linked_iff_nth, intro allI impI)
    fix i assume i: "Suc i < length bs"
    have "bs ! i \<noteq> last bs" "bs ! Suc i \<noteq> hd bs"
      using inj[of i "length bs - 1"] inj[of "Suc i" 0] i hl False by (auto simp: not_less)
    then show "next_free_block (u (bs ! i)) = Some (bs ! Suc i) \<and>
          prev_free_block (u (bs ! Suc i)) = Some (bs ! i)"
      using L i mid[of i] mid[of "Suc i"] by (simp add: u fun_upd_apply)
  qed
  obtain as where as: "bs = as @ [last bs]" using False by (metis append_butlast_last_id)
  have ends: "next_free_block (u (last bs)) = Some FakeTail" "prev_free_block (u FakeTail) = Some (last bs)"
    "next_free_block (u FakeHead) = Some (hd bs)" "prev_free_block (u (hd bs)) = Some FakeHead"
    using ns hl by (auto simp: u)
  have lt: "linked u (bs @ [FakeTail])"
  proof -
    have "linked u (as @ [last bs])" "linked u [last bs, FakeTail]"
      using lb ends(1,2) by (simp_all only: as[symmetric]) simp
    then have "linked u (as @ last bs # [FakeTail])" by (simp only: linked_append[of u as "last bs" "[FakeTail]"])
    moreover have "as @ last bs # [FakeTail] = bs @ [FakeTail]"
      by (metis as append.assoc append_Cons append_Nil)
    ultimately show ?thesis by simp
  qed
  obtain b cs where bs: "bs = b # cs" using False by (cases bs) auto
  have "linked u (FakeHead # bs @ [FakeTail])" using lt ends(3,4) by (simp add: bs)
  moreover have "prev_free_block (u b) = None \<and> next_free_block (u b) = None"
    if "b \<notin> set bs" "b \<notin> sentinels" for b
    using that hl(3,4) keep[of b] assms(3)[of b] by (auto simp: u sentinels_def)
  moreover have "prev_free_block (u FakeHead) = None" "next_free_block (u FakeTail) = None"
    using ns hl(3,4) by (auto simp: u KVCacheBlock_def)
  ultimately show ?thesis
    using assms(1,2) by (simp add: queue_of_def chain_def u_def[symmetric]) (simp add: init_queue_def Let_def)
qed

section \<open>The queue's contract\<close>

text \<open>
  What the block pool relies on: taking from the front, giving back at either end, and taking a
  particular free block out, each described by the list of free blocks alone. The eviction order
  of the class comment is proved from the contract.
\<close>

locale eviction_queue =
  fixes contents :: "'q \<Rightarrow> 'b list \<Rightarrow> bool"
    and block :: "'b \<Rightarrow> bool"
    and take_n :: "int \<Rightarrow> 'q \<Rightarrow> 'b list res \<times> 'q"
    and give_back :: "'b list \<Rightarrow> 'q \<Rightarrow> unit res \<times> 'q"
    and give_front :: "'b list \<Rightarrow> 'q \<Rightarrow> unit res \<times> 'q"
    and take_one :: "'b \<Rightarrow> 'q \<Rightarrow> unit res \<times> 'q"
  assumes contents_unique: "contents q xs \<Longrightarrow> contents q ys \<Longrightarrow> xs = ys"
    and contents_set: "contents q xs \<Longrightarrow> distinct xs \<and> (\<forall>b \<in> set xs. block b)"
    and take_enough: "contents q xs \<Longrightarrow> 0 \<le> n \<Longrightarrow> n \<le> int (length xs) \<Longrightarrow>
      \<exists>q'. take_n n q = (Inr (take (nat n) xs), q') \<and> contents q' (drop (nat n) xs)"
    and take_short: "contents q xs \<Longrightarrow> int (length xs) < n \<Longrightarrow> take_n n q = (Inl AssertionError, q)"
    and law_back: "contents q xs \<Longrightarrow> distinct bs \<Longrightarrow> set bs \<inter> set xs = {} \<Longrightarrow> \<forall>b \<in> set bs. block b \<Longrightarrow>
      \<exists>q'. give_back bs q = (Inr (), q') \<and> contents q' (xs @ bs)"
    and law_front: "contents q xs \<Longrightarrow> distinct bs \<Longrightarrow> set bs \<inter> set xs = {} \<Longrightarrow> \<forall>b \<in> set bs. block b \<Longrightarrow>
      \<exists>q'. give_front bs q = (Inr (), q') \<and> contents q' (bs @ xs)"
    and law_one: "contents q (as @ b # cs) \<Longrightarrow>
      \<exists>q'. take_one b q = (Inr (), q') \<and> contents q' (as @ cs)"
    and law_absent: "contents q xs \<Longrightarrow> b \<notin> set xs \<Longrightarrow> block b \<Longrightarrow>
      take_one b q = (Inl RuntimeError, q)"
begin

text \<open>Least recently used first: blocks given back are handed out after every older free block.\<close>

lemma lru_order:
  assumes "contents q xs" and "distinct bs" and "set bs \<inter> set xs = {}" and "\<forall>b \<in> set bs. block b"
    and "k \<le> length bs"
  shows "\<exists>q1 q2. give_back bs q = (Inr (), q1) \<and>
     take_n (int (length xs + k)) q1 = (Inr (xs @ take k bs), q2) \<and> contents q2 (drop k bs)"
proof -
  obtain q1 where q1: "give_back bs q = (Inr (), q1)" "contents q1 (xs @ bs)"
    using law_back[OF assms(1-4)] by blast
  then show ?thesis
    using take_enough[OF q1(2), of "int (length xs + k)"] assms(5) by (auto simp: nat_int_add)
qed

text \<open>Blocks given to the front are the next ones out.\<close>

lemma front_first:
  assumes "contents q xs" and "distinct bs" and "set bs \<inter> set xs = {}" and "\<forall>b \<in> set bs. block b"
  shows "\<exists>q1 q2. give_front bs q = (Inr (), q1) \<and>
     take_n (int (length bs)) q1 = (Inr bs, q2) \<and> contents q2 xs"
proof -
  obtain q1 where q1: "give_front bs q = (Inr (), q1)" "contents q1 (bs @ xs)"
    using law_front[OF assms] by blast
  then show ?thesis using take_enough[OF q1(2), of "int (length bs)"] by auto
qed

text \<open>A block taken out by a cache hit is not evicted: no later allocation returns it.\<close>

lemma hit_not_evicted:
  assumes "contents q xs" and "b \<in> set xs" and "0 \<le> n" and "n < int (length xs)"
  shows "\<exists>q1 ys q2. take_one b q = (Inr (), q1) \<and> take_n n q1 = (Inr ys, q2) \<and>
     b \<notin> set ys \<and> contents q2 (drop (nat n) (remove1 b xs)) \<and> ys = take (nat n) (remove1 b xs)"
proof -
  obtain as cs where xs: "xs = as @ b # cs" "b \<notin> set as"
    using assms(2) by (meson split_list_first)
  have r: "remove1 b xs = as @ cs" using xs by (simp add: remove1_append)
  obtain q1 where q1: "take_one b q = (Inr (), q1)" "contents q1 (as @ cs)"
    using law_one assms(1) xs(1) by blast
  have "n \<le> int (length (as @ cs))" using assms(4) xs by simp
  then obtain q2 where "take_n n q1 = (Inr (take (nat n) (as @ cs)), q2)"
    "contents q2 (drop (nat n) (as @ cs))"
    using take_enough[OF q1(2) assms(3)] by blast
  moreover have "b \<notin> set (take (nat n) (as @ cs))"
    using contents_set[OF assms(1)] xs by (auto dest: in_set_takeD)
  ultimately show ?thesis unfolding r using q1 by blast
qed

text \<open>Taking a block twice is caught the second time.\<close>

lemma double_take:
  assumes "contents q (as @ b # cs)"
  shows "\<exists>q1. take_one b q = (Inr (), q1) \<and> take_one b q1 = (Inl RuntimeError, q1)"
proof -
  obtain q1 where q1: "take_one b q = (Inr (), q1)" "contents q1 (as @ cs)"
    using law_one[OF assms] by blast
  moreover have "b \<notin> set (as @ cs)" "block b" using contents_set[OF assms] by auto
  ultimately show ?thesis using law_absent by blast
qed

end

interpretation free_list: eviction_queue queue_of "\<lambda>b. b \<notin> sentinels" popleft_n append_n prepend_n remove
proof unfold_locales
  fix q xs ys assume "queue_of q xs" "queue_of q ys"
  then show "xs = ys" by (rule queue_of_unique)
next
  fix q xs assume "queue_of q xs"
  then show "distinct xs \<and> (\<forall>b \<in> set xs. b \<notin> sentinels)" by (auto simp: queue_of_def)
next
  fix q xs and n :: int assume "queue_of q xs" "0 \<le> n" "n \<le> int (length xs)"
  then show "\<exists>q'. popleft_n n q = (Inr (take (nat n) xs), q') \<and> queue_of q' (drop (nat n) xs)"
    using popleft_n_take by blast
next
  fix q xs bs
  assume "queue_of q xs" "distinct bs" "set bs \<inter> set xs = {}" and b: "\<forall>b \<in> set bs. b \<notin> sentinels"
  moreover have "set bs \<inter> sentinels = {}" using b by blast
  ultimately show "\<exists>q'. append_n bs q = (Inr (), q') \<and> queue_of q' (xs @ bs)"
    and "\<exists>q'. prepend_n bs q = (Inr (), q') \<and> queue_of q' (bs @ xs)"
    using append_n_snoc prepend_n_front by blast+
next
  fix q as b cs assume "queue_of q (as @ b # cs)"
  then show "\<exists>q'. remove b q = (Inr (), q') \<and> queue_of q' (as @ cs)"
    using remove_mid by blast
qed (simp_all add: popleft_n_short remove_absent)

section \<open>Runs of the pool\<close>

text \<open>
  A pool of blocks \<open>P\<close> as its user sees it: the queue and the set of blocks handed out. A step is
  one call of the queue's interface that returns normally, with the caller's obligation as its
  guard: only blocks held are given back, each once, and only blocks of the pool are taken out by
  a cache hit (the queue itself decides whether the block was free).
\<close>

inductive pool_step :: "addr set \<Rightarrow> free_queue \<times> addr set \<Rightarrow> free_queue \<times> addr set \<Rightarrow> bool"
  for P where
  alloc_one: "popleft q = (Inr b, q') \<Longrightarrow> pool_step P (q, held) (q', insert b held)"
| alloc: "0 \<le> n \<Longrightarrow> popleft_n n q = (Inr bs, q') \<Longrightarrow> pool_step P (q, held) (q', held \<union> set bs)"
| free_one: "b \<in> held \<Longrightarrow> append_block b q = (Inr (), q') \<Longrightarrow> pool_step P (q, held) (q', held - {b})"
| free_back: "distinct bs \<Longrightarrow> set bs \<subseteq> held \<Longrightarrow> append_n bs q = (Inr (), q') \<Longrightarrow>
    pool_step P (q, held) (q', held - set bs)"
| free_front: "distinct bs \<Longrightarrow> set bs \<subseteq> held \<Longrightarrow> prepend_n bs q = (Inr (), q') \<Longrightarrow>
    pool_step P (q, held) (q', held - set bs)"
| cache_hit: "b \<in> P \<Longrightarrow> remove b q = (Inr (), q') \<Longrightarrow> pool_step P (q, held) (q', insert b held)"

inductive pool_reachable :: "addr list \<Rightarrow> store \<Rightarrow> free_queue \<times> addr set \<Rightarrow> bool" for bs s where
  pool_start: "pool_reachable bs s (init_queue bs s, {})"
| pool_next: "pool_reachable bs s c \<Longrightarrow> pool_step (set bs) c c' \<Longrightarrow> pool_reachable bs s c'"

definition pool_inv :: "addr set \<Rightarrow> free_queue \<times> addr set \<Rightarrow> bool" where
  "pool_inv P c \<longleftrightarrow> P \<inter> sentinels = {} \<and>
     (\<exists>xs. queue_of (fst c) xs \<and> set xs \<inter> snd c = {} \<and> set xs \<union> snd c = P)"

lemma pool_invI:
  "P \<inter> sentinels = {} \<Longrightarrow> queue_of q xs \<Longrightarrow> set xs \<inter> held = {} \<Longrightarrow> set xs \<union> held = P \<Longrightarrow>
     pool_inv P (q, held)"
  by (auto simp: pool_inv_def)

lemma pool_step_inv:
  assumes "pool_step P c c'" and "pool_inv P c"
  shows "pool_inv P c'"
proof -
  from assms(2) obtain q held xs where c: "c = (q, held)" and P: "P \<inter> sentinels = {}"
    and q: "queue_of q xs" and d: "set xs \<inter> held = {}" and u: "set xs \<union> held = P"
    by (cases c) (auto simp: pool_inv_def)
  have dx: "distinct xs" using q by (simp add: queue_of_def)
  from assms(1) show ?thesis
  proof (cases rule: pool_step.cases)
    case (alloc_one _ b q')
    with c obtain ys where "xs = b # ys" "queue_of q' ys"
      using popleft_Nil popleft_Cons q by (cases xs) fastforce+
    with c alloc_one P d u dx show ?thesis by (auto intro!: pool_invI[of _ q' ys])
  next
    case (alloc n _ bs q')
    have n: "n \<le> int (length xs)" using c alloc popleft_n_short[OF q, of n] by (cases "n \<le> int (length xs)") auto
    have "bs = take (nat n) xs \<and> queue_of q' (drop (nat n) xs)"
      using popleft_n_take[OF q \<open>0 \<le> n\<close> n] c alloc by auto
    moreover have "set (take (nat n) xs) \<union> set (drop (nat n) xs) = set xs"
      by (metis append_take_drop_id set_append)
    moreover have "set (take (nat n) xs) \<inter> set (drop (nat n) xs) = {}"
      using dx by (metis append_take_drop_id distinct_append)
    ultimately show ?thesis using c alloc P d u by (auto intro!: pool_invI[of _ q' "drop (nat n) xs"])
  next
    case (free_one b _ _ q')
    have "b \<notin> set xs" "b \<notin> sentinels" using c free_one P d u by auto
    from append_block_snoc[OF q this] c free_one have "queue_of q' (xs @ [b])" by auto
    with c free_one P d u show ?thesis by (auto intro!: pool_invI[of _ q' "xs @ [b]"])
  next
    case (free_back bs _ _ q')
    have "queue_of q' (xs @ bs)"
      using append_n_snoc[OF q, of bs] c free_back P d u by (auto simp: disjoint_iff)
    with c free_back P d u show ?thesis by (auto intro!: pool_invI[of _ q' "xs @ bs"])
  next
    case (free_front bs _ _ q')
    have "queue_of q' (bs @ xs)"
      using prepend_n_front[OF q, of bs] c free_front P d u by (auto simp: disjoint_iff)
    with c free_front P d u show ?thesis by (auto intro!: pool_invI[of _ q' "bs @ xs"])
  next
    case (cache_hit b _ q')
    have "b \<in> set xs" using remove_absent[OF q, of b] c cache_hit P by auto
    with c obtain as cs where xs: "xs = as @ b # cs" by (meson split_list)
    have "queue_of q' (as @ cs)" using remove_mid[of q as b cs] q c cache_hit by (auto simp: xs)
    with c cache_hit P d u dx show ?thesis by (auto intro!: pool_invI[of _ q' "as @ cs"] simp: xs)
  qed
qed

definition detached_outside :: "addr list \<Rightarrow> store \<Rightarrow> bool" where
  "detached_outside bs s \<longleftrightarrow> (\<forall>b. b \<notin> set bs \<longrightarrow> b \<notin> sentinels \<longrightarrow>
     prev_free_block (s b) = None \<and> next_free_block (s b) = None)"

lemma pool_reachable_inv:
  assumes "pool_reachable bs s c" and "distinct bs" and "set bs \<inter> sentinels = {}"
    and "detached_outside bs s"
  shows "pool_inv (set bs) c"
  using assms(1)
proof induction
  case pool_start
  have "queue_of (init_queue bs s) bs"
    using assms(2-4) by (auto intro!: init_queue_of simp: detached_outside_def)
  with assms(3) show ?case by (auto intro: pool_invI)
next
  case (pool_next c c')
  then show ?case by (blast intro: pool_step_inv)
qed

section \<open>Properties\<close>

text \<open>A pool whose blocks carry no links yet, for concrete runs.\<close>

definition fresh_store :: store where
  "fresh_store = (\<lambda>a. KVCacheBlock (case a of Blk i \<Rightarrow> int i | _ \<Rightarrow> -1))"

lemma fresh_store_links:
  "prev_free_block (fresh_store b) = None \<and> next_free_block (fresh_store b) = None"
  by (simp add: fresh_store_def KVCacheBlock_def)

lemma fresh_queue:
  "distinct bs \<Longrightarrow> set bs \<inter> sentinels = {} \<Longrightarrow> queue_of (init_queue bs fresh_store) bs"
  by (rule init_queue_of) (simp_all add: fresh_store_links)

text \<open>
  C1. Whatever sequence of allocations, releases at either end and cache hits a pool goes
  through, its blocks stay partitioned: the traversal of the free list ends and returns each free
  block exactly once, no block is both free and handed out, none is lost, and the counter
  \<open>num_free_blocks\<close> is the number of free blocks.
\<close>
theorem pool_partition:
  assumes "pool_reachable bs s (q, held)" and "distinct bs" and "set bs \<inter> sentinels = {}"
    and "detached_outside bs s"
  shows "\<exists>xs. get_all_free_blocks q = Some (Inr xs) \<and> distinct xs \<and> set xs \<inter> held = {} \<and>
     set xs \<union> held = set bs \<and> num_free_blocks q = int (length xs)"
proof -
  have "pool_inv (set bs) (q, held)" by (rule pool_reachable_inv[OF assms])
  then obtain xs where xs: "queue_of q xs" "set xs \<inter> held = {}" "set xs \<union> held = set bs"
    by (auto simp: pool_inv_def)
  with get_all_free_blocks_eq[OF xs(1)] queue_ofD(1,7)[OF xs(1)] show ?thesis by blast
qed

text \<open>A run that allocates two of three blocks and gives one back.\<close>

lemma pool_run_example:
  "\<exists>q. pool_reachable [Blk 0, Blk 1, Blk 2] fresh_store (q, {Blk 1})"
proof -
  let ?bs = "[Blk 0, Blk 1, Blk 2]"
  have q0: "queue_of (init_queue ?bs fresh_store) ?bs" by (rule fresh_queue) (auto simp: sentinels_def)
  obtain q1 where q1: "popleft_n 2 (init_queue ?bs fresh_store) = (Inr [Blk 0, Blk 1], q1)"
      "queue_of q1 [Blk 2]"
    using popleft_n_take[OF q0, of 2] by (auto simp: numeral_2_eq_2)
  obtain q2 where q2: "append_n [Blk 0] q1 = (Inr (), q2)"
    using append_n_snoc[OF q1(2), of "[Blk 0]"] by (auto simp: sentinels_def)
  have "pool_reachable ?bs fresh_store (q1, {} \<union> set [Blk 0, Blk 1])"
    by (rule pool_next[OF pool_start], rule pool_step.alloc[OF _ q1(1)]) simp
  then have "pool_reachable ?bs fresh_store (q2, {} \<union> set [Blk 0, Blk 1] - set [Blk 0])"
    by (rule pool_next, intro pool_step.free_back[OF _ _ q2]) auto
  moreover have "{} \<union> set [Blk 0, Blk 1] - set [Blk 0] = {Blk 1}" by auto
  ultimately show ?thesis by metis
qed

theorem pool_partition_witness:
  "\<exists>q xs. pool_reachable [Blk 0, Blk 1, Blk 2] fresh_store (q, {Blk 1}) \<and>
     get_all_free_blocks q = Some (Inr xs) \<and> num_free_blocks q = int (length xs)"
proof -
  obtain q where q: "pool_reachable [Blk 0, Blk 1, Blk 2] fresh_store (q, {Blk 1})"
    using pool_run_example by blast
  show ?thesis using q pool_partition[OF q] by (auto simp: sentinels_def fresh_store_links detached_outside_def)
qed

text \<open>
  C3. On a well-formed queue \<open>popleft\<close> and \<open>popleft_n\<close> return the oldest free blocks in order,
  detached, and leave the rest; on an empty queue \<open>popleft\<close> raises \<open>ValueError\<close>, and a request for
  more blocks than there are fails its assertion, both without touching the queue.
\<close>
theorem pop_refines_list:
  assumes "queue_of q xs" and "0 \<le> n"
  shows "(case xs of
       [] \<Rightarrow> popleft q = (Inl ValueError, q)
     | x # ys \<Rightarrow> \<exists>q'. popleft q = (Inr x, q') \<and> queue_of q' ys \<and> same_payload q q') \<and>
    (if n \<le> int (length xs)
     then \<exists>q'. popleft_n n q = (Inr (take (nat n) xs), q') \<and> queue_of q' (drop (nat n) xs) \<and>
            same_payload q q'
     else popleft_n n q = (Inl AssertionError, q))"
proof (rule conjI)
  show "case xs of
       [] \<Rightarrow> popleft q = (Inl ValueError, q)
     | x # ys \<Rightarrow> \<exists>q'. popleft q = (Inr x, q') \<and> queue_of q' ys \<and> same_payload q q'"
    using assms(1) popleft_Cons popleft_Nil by (cases xs) auto
  show "if n \<le> int (length xs)
     then \<exists>q'. popleft_n n q = (Inr (take (nat n) xs), q') \<and> queue_of q' (drop (nat n) xs) \<and>
            same_payload q q'
     else popleft_n n q = (Inl AssertionError, q)"
    using popleft_n_take[OF assms] popleft_n_short[OF assms(1), of n] by simp
qed

theorem pop_refines_list_witness:
  "popleft (init_queue [] fresh_store) = (Inl ValueError, init_queue [] fresh_store) \<and>
   popleft_n 5 (init_queue [] fresh_store) = (Inl AssertionError, init_queue [] fresh_store)"
  using pop_refines_list[OF fresh_queue[of "[]"], of 5] by simp

text \<open>
  C2. Eviction is least recently used first: after \<open>append_n\<close> gives blocks back to a queue holding
  \<open>xs\<close>, the next \<open>length xs + k\<close> blocks handed out are \<open>xs\<close> and then the first \<open>k\<close> of the blocks
  given back, in the order they were given.
\<close>
theorem lru_eviction:
  assumes "queue_of q xs" and "distinct bs" and "set bs \<inter> set xs = {}"
    and "\<forall>b \<in> set bs. b \<notin> sentinels" and "k \<le> length bs"
  shows "\<exists>q1 q2. append_n bs q = (Inr (), q1) \<and>
     popleft_n (int (length xs + k)) q1 = (Inr (xs @ take k bs), q2) \<and> queue_of q2 (drop k bs)"
  using assms by (rule free_list.lru_order)

theorem lru_eviction_witness:
  "\<exists>q1 q2. append_n [Blk 7, Blk 3] (init_queue [Blk 5] fresh_store) = (Inr (), q1) \<and>
     popleft_n 2 q1 = (Inr [Blk 5, Blk 7], q2) \<and> queue_of q2 [Blk 3]"
proof -
  have "queue_of (init_queue [Blk 5] fresh_store) [Blk 5]" by (rule fresh_queue) (auto simp: sentinels_def)
  from lru_eviction[OF this, of "[Blk 7, Blk 3]" 1] show ?thesis by (simp add: sentinels_def)
qed

text \<open>
  A free block taken out by a cache hit leaves the order of the others as it was, is not
  returned by any later allocation of the remaining blocks, and a second removal of it raises
  \<open>RuntimeError\<close> and changes nothing.
\<close>
lemma cache_hit_removal:
  assumes "queue_of q xs" and "b \<in> set xs" and "0 \<le> n" and "n < int (length xs)"
  shows "\<exists>q1 q2. remove b q = (Inr (), q1) \<and> queue_of q1 (remove1 b xs) \<and>
     remove b q1 = (Inl RuntimeError, q1) \<and>
     popleft_n n q1 = (Inr (take (nat n) (remove1 b xs)), q2) \<and> b \<notin> set (take (nat n) (remove1 b xs))"
proof -
  obtain as cs where xs: "xs = as @ b # cs" "b \<notin> set as" using assms(2) by (meson split_list_first)
  obtain q1 where q1: "remove b q = (Inr (), q1)" "queue_of q1 (as @ cs)"
    using remove_mid assms(1) xs(1) by blast
  have "remove1 b xs = as @ cs" using xs by (simp add: remove1_append)
  moreover have "remove b q1 = (Inl RuntimeError, q1)"
    using free_list.double_take[of q as b cs] q1(1) assms(1) by (auto simp: xs)
  ultimately show ?thesis
    using free_list.hit_not_evicted[OF assms] q1 by fastforce
qed

theorem cache_hit_removal_witness:
  "\<exists>q1. remove (Blk 1) (init_queue [Blk 0, Blk 1, Blk 2] fresh_store) = (Inr (), q1) \<and>
     queue_of q1 [Blk 0, Blk 2] \<and> remove (Blk 1) q1 = (Inl RuntimeError, q1)"
proof -
  have "queue_of (init_queue [Blk 0, Blk 1, Blk 2] fresh_store) [Blk 0, Blk 1, Blk 2]"
    by (rule fresh_queue) (auto simp: sentinels_def)
  from cache_hit_removal[OF this, of "Blk 1" 0] show ?thesis by auto
qed

text \<open>
  C4. \<open>iter_blocks_after\<close> ends on every well-formed queue, the empty one included: without a
  cursor it yields the whole queue in eviction order, and with any block of the queue as the
  cursor exactly the blocks behind that one, in the same order.
\<close>
theorem iteration_resumes:
  assumes "queue_of q xs"
  shows "iter_blocks_after None q = Some xs \<and>
    (\<forall>n < length xs. iter_blocks_after (Some (xs ! n)) q = Some (drop (Suc n) xs))"
proof (intro conjI allI impI)
  show "iter_blocks_after None q = Some xs" by (rule iter_blocks_after_None[OF assms])
next
  fix n assume n: "n < length xs"
  then have "xs = take n xs @ xs ! n # drop (Suc n) xs" by (rule id_take_nth_drop)
  with assms have "queue_of q (take n xs @ xs ! n # drop (Suc n) xs)" by simp
  then show "iter_blocks_after (Some (xs ! n)) q = Some (drop (Suc n) xs)"
    by (rule iter_blocks_after_Some)
qed

theorem iteration_resumes_witness:
  "iter_blocks_after None (init_queue [] fresh_store) = Some [] \<and>
   iter_blocks_after None (init_queue [Blk 9, Blk 4, Blk 2] fresh_store) = Some [Blk 9, Blk 4, Blk 2] \<and>
   iter_blocks_after (Some (Blk 4)) (init_queue [Blk 9, Blk 4, Blk 2] fresh_store) = Some [Blk 2]"
proof -
  have "queue_of (init_queue [Blk 9, Blk 4, Blk 2] fresh_store) [Blk 9, Blk 4, Blk 2]"
    by (rule fresh_queue) (auto simp: sentinels_def)
  note all = iteration_resumes[OF this]
  have
    "iter_blocks_after None (init_queue [Blk 9, Blk 4, Blk 2] fresh_store) = Some [Blk 9, Blk 4, Blk 2]"
    "iter_blocks_after (Some ([Blk 9, Blk 4, Blk 2] ! 1)) (init_queue [Blk 9, Blk 4, Blk 2] fresh_store) =
       Some (drop (Suc 1) [Blk 9, Blk 4, Blk 2])"
    by (rule all[THEN conjunct1], rule all[THEN conjunct2, rule_format], simp)
  moreover have "iter_blocks_after None (init_queue [] fresh_store) = Some []"
    using iteration_resumes[OF fresh_queue[of "[]"]] by simp
  ultimately show ?thesis by simp
qed


end
