(* ===== verification/Block_Hashing.thy ===== *)
theory Block_Hashing
  imports Runtime_Base "HOL-Library.Countable"
begin

text \<open>
  Prefix-cache block hashing (\<^verbatim>\<open>kv_cache_utils.py\<close>): the packing of a block hash and a group id
  into one key, the seed of the hash chain, the extra keys of a block (multi-modal inputs, LoRA
  name, cache salt, prompt embeddings), the hasher that extends a request's list of block hashes,
  and the view of those hashes at a coarser block size. The hash function is a parameter; where a
  property needs it to be collision free or never to return the empty string, that is a named
  hypothesis. The main results: the extra keys are exactly the inputs overlapping the block,
  hashing in increments gives the same hashes as hashing at once, and a block hash identifies the
  whole prefix.
\<close>


section \<open>Keys of hash and group id\<close>

text \<open>\<open>int.to_bytes(n, "big", signed=False)\<close> and \<open>int.from_bytes(bs, "big", signed=False)\<close>.\<close>

fun be_bytes :: "nat \<Rightarrow> nat \<Rightarrow> bytes" where
  "be_bytes 0 v = []"
| "be_bytes (Suc n) v = be_bytes n (v div 256) @ [v mod 256]"

definition to_bytes_be :: "nat \<Rightarrow> int \<Rightarrow> bytes res" where
  "to_bytes_be n v =
     (if 0 \<le> v \<and> v < 256 ^ n then Inr (be_bytes n (nat v)) else Inl OverflowError)"

definition from_bytes_be :: "bytes \<Rightarrow> int" where
  "from_bytes_be bs = int (foldl (\<lambda>a b. a * 256 + b) 0 bs)"

definition make_block_hash_with_group_id :: "bytes \<Rightarrow> int \<Rightarrow> bytes res" where
  "make_block_hash_with_group_id block_hash group_id =
     rbind (to_bytes_be 4 group_id) (\<lambda>g. Inr (block_hash @ g))"

definition get_block_hash :: "bytes \<Rightarrow> bytes" where
  "get_block_hash key = take (length key - 4) key"

definition get_group_id :: "bytes \<Rightarrow> int" where
  "get_group_id key = from_bytes_be (drop (length key - 4) key)"

datatype external_hash = HashBytes bytes | HashInt int

definition maybe_convert_block_hash :: "bool \<Rightarrow> bytes \<Rightarrow> external_hash" where
  "maybe_convert_block_hash use_int_hashes hash_bytes =
     (if \<not> use_int_hashes then HashBytes hash_bytes
      else HashInt (from_bytes_be hash_bytes mod 2 ^ 64))"

lemma length_be_bytes [simp]: "length (be_bytes n v) = n"
  by (induction n arbitrary: v) auto

lemma be_bytes_value:
  "v < 256 ^ n \<Longrightarrow> foldl (\<lambda>a b. a * 256 + b) 0 (be_bytes n v) = v"
  by (induction n arbitrary: v) (auto simp: less_mult_imp_div_less mult.commute)

lemma from_to_bytes: "to_bytes_be n v = Inr bs \<Longrightarrow> from_bytes_be bs = v \<and> length bs = n"
  by (auto simp: to_bytes_be_def from_bytes_be_def be_bytes_value nat_less_iff split: if_splits)

section \<open>The seed of the chain\<close>

text \<open>What the hash function is applied to: the seed string, or one block with its parent.\<close>

datatype extra_key = KStr string | KMm string int | KBytes bytes

datatype hash_input =
    SeedInput string
  | BlockInput bytes "int list" "extra_key list option"

instance extra_key :: countable by countable_datatype
instance hash_input :: countable by countable_datatype

type_synonym hash_fn = "hash_input \<Rightarrow> bytes"

record hash_globals =
  NONE_HASH :: "bytes option"
  NONE_HASH_SEED :: "string option"

definition DEFAULT_NONE_HASH_SEED :: string where
  "DEFAULT_NONE_HASH_SEED = ''vllm-none-hash''"

text \<open>
  \<open>hash_seed_env\<close> is the environment variable \<open>PYTHONHASHSEED\<close>, \<open>non_crypto\<close> whether the
  algorithm is one of the two that are not collision resistant, \<open>urandom_hex\<close> the fresh random
  seed.
\<close>

definition resolve_none_hash_seed :: "string option \<Rightarrow> bool \<Rightarrow> string \<Rightarrow> string" where
  "resolve_none_hash_seed hash_seed_env non_crypto urandom_hex =
     (case hash_seed_env of
        Some s \<Rightarrow> s
      | None \<Rightarrow> if non_crypto then urandom_hex else DEFAULT_NONE_HASH_SEED)"

definition get_none_hash_seed :: "hash_globals \<Rightarrow> string" where
  "get_none_hash_seed g =
     (case NONE_HASH_SEED g of None \<Rightarrow> DEFAULT_NONE_HASH_SEED | Some s \<Rightarrow> s)"

definition init_none_hash ::
    "string option \<Rightarrow> bool \<Rightarrow> string \<Rightarrow> hash_fn \<Rightarrow> hash_globals \<Rightarrow> hash_globals" where
  "init_none_hash hash_seed_env non_crypto urandom_hex h g =
     (let seed = resolve_none_hash_seed hash_seed_env non_crypto urandom_hex
      in g\<lparr>NONE_HASH_SEED := Some seed, NONE_HASH := Some (h (SeedInput seed))\<rparr>)"

section \<open>Extra keys of a block\<close>

record mm_feature =
  mm_identifier :: "string option"
  mm_offset :: int
  mm_length :: int

text \<open>
  The parts of a request the hasher reads, and the memo of per-block embedding hashes it keeps on
  the request. Prompt embeddings are a list of rows.
\<close>

record request =
  all_token_ids :: "int list"
  num_tokens :: int
  block_hashes :: "bytes list"
  mm_features :: "mm_feature list"
  lora_name :: "string option"
  cache_salt :: "string option"
  prompt_embeds :: "bytes list option"
  embeds_memo :: "int \<times> int \<Rightarrow> bytes option"

text \<open>Python's \<open>xs[i:j]\<close> for non-negative bounds.\<close>

definition slice :: "'a list \<Rightarrow> int \<Rightarrow> int \<Rightarrow> 'a list" where
  "slice xs i j = take (nat j - nat i) (drop (nat i) xs)"

text \<open>
  The loop over the multi-modal inputs, from index \<open>i\<close>. The key is the input's identifier with its
  offset relative to the block.
\<close>

function mm_loop ::
    "mm_feature list \<Rightarrow> int \<Rightarrow> int \<Rightarrow> nat \<Rightarrow> extra_key list \<Rightarrow> (extra_key list \<times> int) res" where
  "mm_loop fs start_idx end_idx i keys =
     (if i < length fs then
        (case mm_identifier (fs ! i) of
           None \<Rightarrow> Inl AssertionError
         | Some ident \<Rightarrow>
             let off = mm_offset (fs ! i); len = mm_length (fs ! i) in
             if end_idx > off then
               if start_idx \<ge> off + len then mm_loop fs start_idx end_idx (Suc i) keys
               else let keys = keys @ [KMm ident (off - start_idx)] in
                 if end_idx \<ge> off + len then mm_loop fs start_idx end_idx (Suc i) keys
                 else Inr (keys, int i)
             else Inr (keys, int i))
      else Inr (keys, int i))"
  by pat_completeness auto
termination
  by (relation "measure (\<lambda>(fs, s, e, i, keys). length fs - i)") auto

declare mm_loop.simps [simp del]

definition gen_mm_extra_hash_keys ::
    "request \<Rightarrow> int \<Rightarrow> int \<Rightarrow> int \<Rightarrow> (extra_key list \<times> int) res" where
  "gen_mm_extra_hash_keys r start_token_idx end_token_idx start_mm_idx =
     (let fs = mm_features r in
      if fs = [] then Inr ([], start_mm_idx)
      else if mm_offset (last fs) + mm_length (last fs) \<le> start_token_idx
      then Inr ([], start_mm_idx)
      else if start_mm_idx < 0 then
        rbind (rassert (- start_mm_idx \<le> int (length fs))) (\<lambda>_.
          mm_loop fs start_token_idx end_token_idx (nat (int (length fs) + start_mm_idx)) [])
      else mm_loop fs start_token_idx end_token_idx (nat start_mm_idx) [])"

definition gen_lora_extra_hash_keys :: "request \<Rightarrow> extra_key list" where
  "gen_lora_extra_hash_keys r = (case lora_name r of None \<Rightarrow> [] | Some n \<Rightarrow> [KStr n])"

text \<open>\<open>sha256\<close> stands for \<open>hashlib.sha256(tensor_data(...)).digest()\<close> of the rows of the block.\<close>

definition gen_prompt_embeds_extra_hash_keys ::
    "(bytes list \<Rightarrow> bytes) \<Rightarrow> request \<Rightarrow> int \<Rightarrow> int \<Rightarrow> extra_key list \<times> request" where
  "gen_prompt_embeds_extra_hash_keys sha256 r start_token_idx end_token_idx =
     (case prompt_embeds r of
        None \<Rightarrow> ([], r)
      | Some rows \<Rightarrow>
          (let block_range = (start_token_idx, end_token_idx) in
           case embeds_memo r block_range of
             Some h \<Rightarrow> ([KBytes h], r)
           | None \<Rightarrow>
               let h = sha256 (slice rows start_token_idx end_token_idx)
               in ([KBytes h], r\<lparr>embeds_memo := (embeds_memo r)(block_range \<mapsto> h)\<rparr>)))"

definition cache_salt_keys :: "request \<Rightarrow> int \<Rightarrow> extra_key list" where
  "cache_salt_keys r start_token_idx =
     (case cache_salt r of
        Some s \<Rightarrow> if start_token_idx = 0 \<and> s \<noteq> [] then [KStr s] else []
      | None \<Rightarrow> [])"

definition generate_block_hash_extra_keys ::
    "(bytes list \<Rightarrow> bytes) \<Rightarrow> request \<Rightarrow> int \<Rightarrow> int \<Rightarrow> int \<Rightarrow>
       (extra_key list option \<times> int) res \<times> request" where
  "generate_block_hash_extra_keys sha256 r start_token_idx end_token_idx start_mm_idx =
     (case gen_mm_extra_hash_keys r start_token_idx end_token_idx start_mm_idx of
        Inl e \<Rightarrow> (Inl e, r)
      | Inr (mm_keys, new_start_mm_idx) \<Rightarrow>
          let (embeds_keys, r') =
                gen_prompt_embeds_extra_hash_keys sha256 r start_token_idx end_token_idx;
              extra_keys = gen_lora_extra_hash_keys r @ mm_keys @
                cache_salt_keys r start_token_idx @ embeds_keys
          in (Inr (if extra_keys = [] then None else Some extra_keys, new_start_mm_idx), r'))"

section \<open>The hasher\<close>

definition hash_block_tokens ::
    "hash_fn \<Rightarrow> bytes \<Rightarrow> bytes option \<Rightarrow> int list \<Rightarrow> extra_key list option \<Rightarrow> bytes" where
  "hash_block_tokens h none_hash parent toks extra_keys =
     (let parent = (case parent of None \<Rightarrow> none_hash
                    | Some p \<Rightarrow> if p = [] then none_hash else p)
      in h (BlockInput parent toks extra_keys))"

text \<open>
  The \<open>while True\<close> loop of \<open>request_block_hasher\<close>; with a block size of zero it would not return,
  which is \<open>None\<close>.
\<close>

partial_function (option) hasher_loop ::
    "(bytes list \<Rightarrow> bytes) \<Rightarrow> hash_fn \<Rightarrow> bytes \<Rightarrow> int \<Rightarrow> int \<Rightarrow> int \<Rightarrow> bytes option \<Rightarrow>
       bytes list \<Rightarrow> request \<Rightarrow> (bytes list res \<times> request) option" where
  "hasher_loop sha256 h none_hash hash_block_size start_token_idx cur_mm_idx prev new_hashes r =
     (let end_token_idx = start_token_idx + hash_block_size in
      if end_token_idx > num_tokens r then Some (Inr new_hashes, r)
      else case generate_block_hash_extra_keys sha256 r start_token_idx end_token_idx cur_mm_idx of
        (Inl e, r) \<Rightarrow> Some (Inl e, r)
      | (Inr (extra_keys, cur_mm_idx), r) \<Rightarrow>
          let toks = slice (all_token_ids r) start_token_idx end_token_idx;
              bh = hash_block_tokens h none_hash prev toks extra_keys
          in hasher_loop sha256 h none_hash hash_block_size (start_token_idx + hash_block_size) cur_mm_idx (Some bh)
               (new_hashes @ [bh]) r)"

definition request_block_hasher ::
    "(bytes list \<Rightarrow> bytes) \<Rightarrow> hash_fn \<Rightarrow> bytes \<Rightarrow> int \<Rightarrow> request \<Rightarrow> (bytes list res \<times> request) option" where
  "request_block_hasher sha256 h none_hash hash_block_size r =
     (let start_token_idx = int (length (block_hashes r)) * hash_block_size in
      if start_token_idx + hash_block_size > num_tokens r then Some (Inr [], r)
      else
        let cur_mm_idx = (if start_token_idx > 0 then -1 else 0);
            prev = (if block_hashes r = [] then None else Some (last (block_hashes r)))
        in hasher_loop sha256 h none_hash hash_block_size start_token_idx cur_mm_idx prev [] r)"

section \<open>Coarser views\<close>

record hash_view =
  view_hashes :: "bytes list"
  scale_factor :: int

definition BlockHashListWithBlockSize :: "bytes list \<Rightarrow> int \<Rightarrow> int \<Rightarrow> hash_view res" where
  "BlockHashListWithBlockSize hs hash_block_size target_block_size =
     (if hash_block_size = 0 then Inl ZeroDivisionError
      else rbind (rassert (target_block_size mod hash_block_size = 0)) (\<lambda>_.
        Inr \<lparr>view_hashes = hs, scale_factor = target_block_size div hash_block_size\<rparr>))"

definition view_len :: "hash_view \<Rightarrow> int" where
  "view_len v = int (length (view_hashes v)) div scale_factor v"

text \<open>Python's list indexing, negative indices included.\<close>

definition py_get :: "'a list \<Rightarrow> int \<Rightarrow> 'a res" where
  "py_get xs i =
     (let n = int (length xs); j = (if i < 0 then i + n else i)
      in if 0 \<le> j \<and> j < n then Inr (xs ! nat j) else Inl IndexError)"

definition get_value_at :: "hash_view \<Rightarrow> int \<Rightarrow> bytes res" where
  "get_value_at v idx = py_get (view_hashes v) ((idx + 1) * scale_factor v - 1)"

definition view_iter :: "hash_view \<Rightarrow> bytes list res" where
  "view_iter v = rmap (get_value_at v) (map int [0..<nat (view_len v)])"

text \<open>\<open>v[start:stop:step]\<close>, with \<open>indices\<close> the standard library's \<open>slice.indices\<close> of the bounds.\<close>

definition view_slice :: "hash_view \<Rightarrow> int list \<Rightarrow> bytes list res" where
  "view_slice v indices = rmap (get_value_at v) indices"

datatype block_hash_list = RawHashes "bytes list" | ViewHashes hash_view

definition resolve_block_hashes ::
    "block_hash_list \<Rightarrow> int \<Rightarrow> int \<Rightarrow> bool \<Rightarrow> int option \<Rightarrow> block_hash_list res" where
  "resolve_block_hashes bh hash_block_size block_size fine_grained alignment_tokens =
     (if block_size = hash_block_size then Inr bh
      else case bh of
        ViewHashes v \<Rightarrow>
          if hash_block_size = 0 then Inl ZeroDivisionError
          else rbind (rassert (scale_factor v = block_size div hash_block_size)) (\<lambda>_. Inr bh)
      | RawHashes hs \<Rightarrow>
          let coarse = (if hash_block_size = 0 then Inl ZeroDivisionError
            else rbind (rassert (block_size mod hash_block_size = 0)) (\<lambda>_.
              rbind (BlockHashListWithBlockSize hs hash_block_size block_size)
                (\<lambda>v. Inr (ViewHashes v))))
          in case alignment_tokens of
               None \<Rightarrow> coarse
             | Some a \<Rightarrow>
                 if \<not> fine_grained then coarse
                 else if \<not> a < block_size then coarse
                 else if a = 0 then Inl ZeroDivisionError
                 else if block_size mod a = 0 then Inr bh else coarse)"

section \<open>What the keys and the chain stand for\<close>

text \<open>
  The inputs of a block are those whose placeholder range meets the block. The inputs are assumed
  to be identified, sorted by offset and not overlapping, as the code's comments assume.
\<close>

definition mm_overlap :: "int \<Rightarrow> int \<Rightarrow> mm_feature \<Rightarrow> bool" where
  "mm_overlap s e f \<longleftrightarrow> mm_offset f < e \<and> s < mm_offset f + mm_length f"

definition mm_block_keys :: "mm_feature list \<Rightarrow> int \<Rightarrow> int \<Rightarrow> extra_key list" where
  "mm_block_keys fs s e =
     map (\<lambda>f. KMm (the (mm_identifier f)) (mm_offset f - s)) (filter (mm_overlap s e) fs)"

definition mm_sorted :: "mm_feature list \<Rightarrow> bool" where
  "mm_sorted fs \<longleftrightarrow>
     (\<forall>f \<in> set fs. mm_identifier f \<noteq> None \<and> 0 \<le> mm_length f) \<and>
     sorted_wrt (\<lambda>f g. mm_offset f + mm_length f \<le> mm_offset g) fs"

definition mm_passed :: "mm_feature list \<Rightarrow> int \<Rightarrow> int \<Rightarrow> bool" where
  "mm_passed fs i s \<longleftrightarrow>
     0 \<le> i \<and> i \<le> int (length fs) \<and> (\<forall>f \<in> set (take (nat i) fs). mm_offset f + mm_length f \<le> s)"

lemma mm_passed_mono: "mm_passed fs i s \<Longrightarrow> s \<le> s' \<Longrightarrow> mm_passed fs i s'"
  by (fastforce simp: mm_passed_def)

lemma mm_sorted_drop_Cons:
  assumes "mm_sorted fs" and "i < length fs"
  shows "\<And>g. g \<in> set (drop (Suc i) fs) \<Longrightarrow>
           mm_offset (fs ! i) + mm_length (fs ! i) \<le> mm_offset g"
    and "0 \<le> mm_length (fs ! i)" and "mm_identifier (fs ! i) \<noteq> None"
proof -
  fix g assume "g \<in> set (drop (Suc i) fs)"
  then obtain k where "k < length fs - Suc i" and "g = fs ! (Suc i + k)"
    by (auto simp: in_set_conv_nth)
  with assms show "mm_offset (fs ! i) + mm_length (fs ! i) \<le> mm_offset g"
    by (auto simp: mm_sorted_def intro: sorted_wrt_nth_less)
next
  show "0 \<le> mm_length (fs ! i)" "mm_identifier (fs ! i) \<noteq> None"
    using assms by (auto simp: mm_sorted_def)
qed

lemma mm_block_keys_later:
  assumes "mm_sorted fs" and "i < length fs" and "e \<le> mm_offset (fs ! i) + mm_length (fs ! i)"
  shows "mm_block_keys (drop (Suc i) fs) s e = []"
  using mm_sorted_drop_Cons(1)[OF assms(1,2)] assms(3)
  by (force simp: mm_block_keys_def mm_overlap_def filter_empty_conv)

lemma mm_block_keys_passed:
  assumes "mm_passed fs i s"
  shows "mm_block_keys fs s e = mm_block_keys (drop (nat i) fs) s e"
proof -
  have "mm_block_keys (take (nat i) fs) s e = []"
    using assms by (force simp: mm_block_keys_def mm_passed_def mm_overlap_def filter_empty_conv)
  moreover have "mm_block_keys fs s e =
      mm_block_keys (take (nat i) fs) s e @ mm_block_keys (drop (nat i) fs) s e"
    unfolding mm_block_keys_def map_append[symmetric] filter_append[symmetric] append_take_drop_id ..
  ultimately show ?thesis by simp
qed

lemma mm_block_keys_Cons:
  "mm_block_keys (f # fs) s e =
     (if mm_overlap s e f then [KMm (the (mm_identifier f)) (mm_offset f - s)] else []) @
     mm_block_keys fs s e"
  by (simp add: mm_block_keys_def)

lemma take_Suc_passed:
  assumes "i < length fs" and "mm_passed fs (int i) s" and "mm_offset (fs ! i) + mm_length (fs ! i) \<le> s"
  shows "mm_passed fs (int (Suc i)) s"
  using assms by (auto simp: mm_passed_def take_Suc_conv_app_nth nat_add_distrib)

lemma mm_loop_keys:
  assumes "mm_sorted fs" and "s \<le> e" and "mm_passed fs (int i) e" and "i \<le> length fs"
  shows "\<exists>i'. mm_loop fs s e i keys = Inr (keys @ mm_block_keys (drop i fs) s e, i') \<and>
           mm_passed fs i' e"
  using assms
proof (induction fs s e i keys rule: mm_loop.induct)
  case (1 fs s e i keys)
  let ?off = "mm_offset (fs ! i)" and ?len = "mm_length (fs ! i)"
  show ?case
  proof (cases "i < length fs")
    case False
    with "1.prems" show ?thesis
      by (subst mm_loop.simps) (simp add: mm_block_keys_def)
  next
    case i: True
    note srt = mm_sorted_drop_Cons[OF "1.prems"(1) i]
    obtain ident where ident: "mm_identifier (fs ! i) = Some ident" using srt(3) by auto
    have d: "drop i fs = fs ! i # drop (Suc i) fs" using i by (simp add: Cons_nth_drop_Suc)
    note later = mm_block_keys_later[OF "1.prems"(1) i]
    consider (past) "e > ?off" "s \<ge> ?off + ?len"
      | (ends) "e > ?off" "s < ?off + ?len" "e \<ge> ?off + ?len"
      | (spans) "e > ?off" "s < ?off + ?len" "e < ?off + ?len"
      | (ahead) "e \<le> ?off" by linarith
    then show ?thesis
    proof cases
      case past
      have "mm_passed fs (int (Suc i)) e"
        using past "1.prems" i by (intro take_Suc_passed) auto
      from "1.IH"(1)[OF i ident refl refl] past "1.prems" i this
      show ?thesis
        by (subst mm_loop.simps) (simp add: ident d mm_block_keys_Cons mm_overlap_def)
    next
      case ends
      have "mm_passed fs (int (Suc i)) e"
        using ends "1.prems" i by (intro take_Suc_passed) auto
      from "1.IH"(2)[OF i ident refl refl _ _ refl] ends "1.prems" i this
      show ?thesis
        by (subst mm_loop.simps) (simp add: ident d mm_block_keys_Cons mm_overlap_def Let_def)
    next
      case spans
      with later "1.prems" i show ?thesis
        by (subst mm_loop.simps) (simp add: ident d mm_block_keys_Cons mm_overlap_def Let_def)
    next
      case ahead
      have "mm_block_keys (drop (Suc i) fs) s e = []"
        using ahead srt(2) by (intro later) linarith
      with ahead "1.prems" i show ?thesis
        by (subst mm_loop.simps) (simp add: ident d mm_block_keys_Cons mm_overlap_def Let_def)
    qed
  qed
qed

text \<open>The index a caller may start from: one all of whose predecessors end before the block, or -1 for the last input.\<close>

definition mm_start_ok :: "mm_feature list \<Rightarrow> int \<Rightarrow> int \<Rightarrow> bool" where
  "mm_start_ok fs i s \<longleftrightarrow>
     fs = [] \<or> mm_passed fs (if i = -1 then int (length fs) - 1 else i) s"

lemma mm_all_passed:
  assumes "mm_sorted fs" and "fs \<noteq> []" and "mm_offset (last fs) + mm_length (last fs) \<le> s"
  shows "\<forall>f \<in> set fs. mm_offset f + mm_length f \<le> s"
proof
  fix f assume "f \<in> set fs"
  then obtain k where k: "k < length fs" "f = fs ! k" by (auto simp: in_set_conv_nth)
  let ?n = "length fs - 1"
  have ln: "last fs = fs ! ?n" using assms(2) by (simp add: last_conv_nth)
  show "mm_offset f + mm_length f \<le> s"
  proof (cases "k = ?n")
    case True then show ?thesis using assms(3) k ln by simp
  next
    case False
    then have "mm_offset (fs ! k) + mm_length (fs ! k) \<le> mm_offset (fs ! ?n)"
      using assms(1) k by (auto simp: mm_sorted_def intro: sorted_wrt_nth_less)
    moreover have "0 \<le> mm_length (fs ! ?n)" using assms(1,2) by (auto simp: mm_sorted_def)
    ultimately show ?thesis using assms(3) k ln by simp
  qed
qed

lemma gen_mm_keys:
  assumes srt: "mm_sorted (mm_features r)" and se: "s \<le> e" and ok: "mm_start_ok (mm_features r) i s"
  shows "\<exists>i'. gen_mm_extra_hash_keys r s e i = Inr (mm_block_keys (mm_features r) s e, i') \<and>
           mm_start_ok (mm_features r) i' e"
proof -
  let ?fs = "mm_features r"
  consider (none) "?fs = []"
    | (over) "?fs \<noteq> []" "mm_offset (last ?fs) + mm_length (last ?fs) \<le> s"
    | (loop) "?fs \<noteq> []" "\<not> mm_offset (last ?fs) + mm_length (last ?fs) \<le> s" by blast
  then show ?thesis
  proof cases
    case none
    then show ?thesis
      by (simp add: gen_mm_extra_hash_keys_def mm_block_keys_def mm_start_ok_def)
  next
    case over
    have "mm_block_keys ?fs s e = []"
      using mm_all_passed[OF srt over] by (force simp: mm_block_keys_def mm_overlap_def filter_empty_conv)
    then show ?thesis
      using over ok se mm_passed_mono[of ?fs _ s e]
      by (auto simp: gen_mm_extra_hash_keys_def mm_start_ok_def Let_def)
  next
    case loop
    define k where "k = (if i = -1 then int (length ?fs) - 1 else i)"
    have k: "mm_passed ?fs k s" using ok loop(1) by (simp add: mm_start_ok_def k_def)
    then have k0: "0 \<le> k" "k \<le> int (length ?fs)" by (auto simp: mm_passed_def)
    then have i: "i = -1 \<or> 0 \<le> i" by (auto simp: k_def split: if_splits)
    have g: "gen_mm_extra_hash_keys r s e i = mm_loop ?fs s e (nat k) []"
      using loop i by (auto simp: gen_mm_extra_hash_keys_def k_def Let_def Suc_le_eq)
    obtain i' where "mm_loop ?fs s e (nat k) [] = Inr ([] @ mm_block_keys (drop (nat k) ?fs) s e, i')"
      and i': "mm_passed ?fs i' e"
      using mm_loop_keys[OF srt se, of "nat k" "[]"] mm_passed_mono[OF k se] k0 by (auto simp: nat_le_iff)
    then have "gen_mm_extra_hash_keys r s e i = Inr (mm_block_keys ?fs s e, i')"
      by (simp add: g mm_block_keys_passed[OF k])
    moreover have "mm_start_ok ?fs i' e"
      using i' by (auto simp: mm_start_ok_def mm_passed_def)
    ultimately show ?thesis by blast
  qed
qed

text \<open>
  The keys of a block and the chain of hashes, stated on the request alone: no running index, no
  memo, no list of earlier hashes.
\<close>

definition memo_ok :: "(bytes list \<Rightarrow> bytes) \<Rightarrow> request \<Rightarrow> bool" where
  "memo_ok sha256 r \<longleftrightarrow> (\<forall>s e v. embeds_memo r (s, e) = Some v \<longrightarrow>
     (\<exists>rows. prompt_embeds r = Some rows \<and> v = sha256 (slice rows s e)))"

definition block_keys :: "(bytes list \<Rightarrow> bytes) \<Rightarrow> request \<Rightarrow> int \<Rightarrow> int \<Rightarrow> extra_key list option" where
  "block_keys sha256 r s e =
     (let ks = gen_lora_extra_hash_keys r @ mm_block_keys (mm_features r) s e @
            cache_salt_keys r s @
            (case prompt_embeds r of None \<Rightarrow> [] | Some rows \<Rightarrow> [KBytes (sha256 (slice rows s e))])
      in if ks = [] then None else Some ks)"

primrec chain_hash ::
    "(bytes list \<Rightarrow> bytes) \<Rightarrow> hash_fn \<Rightarrow> bytes \<Rightarrow> int \<Rightarrow> request \<Rightarrow> nat \<Rightarrow> bytes" where
  "chain_hash sha256 h none_hash B r 0 =
     h (BlockInput none_hash (slice (all_token_ids r) 0 B) (block_keys sha256 r 0 B))"
| "chain_hash sha256 h none_hash B r (Suc k) =
     h (BlockInput (chain_hash sha256 h none_hash B r k)
          (slice (all_token_ids r) (int (Suc k) * B) (int (Suc k) * B + B))
          (block_keys sha256 r (int (Suc k) * B) (int (Suc k) * B + B)))"

definition chain_input ::
    "(bytes list \<Rightarrow> bytes) \<Rightarrow> bytes \<Rightarrow> int \<Rightarrow> request \<Rightarrow> nat \<Rightarrow> hash_input" where
  "chain_input sha256 p B r k =
     BlockInput p (slice (all_token_ids r) (int k * B) (int k * B + B))
       (block_keys sha256 r (int k * B) (int k * B + B))"

text \<open>Two requests that may differ in the memo only.\<close>

definition same_request :: "request \<Rightarrow> request \<Rightarrow> bool" where
  "same_request r r' \<longleftrightarrow> r' = r\<lparr>embeds_memo := embeds_memo r'\<rparr>"

lemma same_request_refl [simp, intro]: "same_request r r"
  by (simp add: same_request_def)

lemma same_request_trans [trans]: "same_request r r' \<Longrightarrow> same_request r' r'' \<Longrightarrow> same_request r r''"
  unfolding same_request_def by (metis request.update_convs(8) request.surjective request.ext_inject)

lemma same_request_fields:
  assumes "same_request r r'"
  shows "all_token_ids r' = all_token_ids r" "num_tokens r' = num_tokens r"
    "mm_features r' = mm_features r" "block_keys sha256 r' s e = block_keys sha256 r s e"
    "block_hashes r' = block_hashes r" "chain_hash sha256 h nh B r' k = chain_hash sha256 h nh B r k"
proof -
  obtain m where m: "r' = r\<lparr>embeds_memo := m\<rparr>" using assms by (auto simp: same_request_def)
  show "all_token_ids r' = all_token_ids r" "num_tokens r' = num_tokens r"
    "mm_features r' = mm_features r" "block_hashes r' = block_hashes r"
    by (simp_all add: m)
  show bk: "block_keys sha256 r' s e = block_keys sha256 r s e" for s e
    by (simp add: m block_keys_def gen_lora_extra_hash_keys_def cache_salt_keys_def)
  show "chain_hash sha256 h nh B r' k = chain_hash sha256 h nh B r k"
    by (induction k) (simp_all add: bk, simp_all add: m)
qed

lemma extra_keys_block:
  assumes "mm_sorted (mm_features r)" and "s \<le> e" and "mm_start_ok (mm_features r) i s"
    and "memo_ok sha256 r"
  shows "\<exists>i' r'. generate_block_hash_extra_keys sha256 r s e i = (Inr (block_keys sha256 r s e, i'), r') \<and>
           mm_start_ok (mm_features r) i' e \<and> same_request r r' \<and> memo_ok sha256 r'"
proof -
  obtain i' where g: "gen_mm_extra_hash_keys r s e i = Inr (mm_block_keys (mm_features r) s e, i')"
    and i': "mm_start_ok (mm_features r) i' e"
    using gen_mm_keys[OF assms(1,2,3)] by blast
  show ?thesis
  proof (cases "prompt_embeds r")
    case None
    with g i' assms(4) show ?thesis
      by (simp add: generate_block_hash_extra_keys_def gen_prompt_embeds_extra_hash_keys_def
          block_keys_def Let_def)
  next
    case (Some rows)
    show ?thesis
    proof (cases "embeds_memo r (s, e)")
      case None
      let ?r = "r\<lparr>embeds_memo := (embeds_memo r)((s, e) \<mapsto> sha256 (slice rows s e))\<rparr>"
      have "memo_ok sha256 ?r" using assms(4) Some by (auto simp: memo_ok_def)
      moreover have "same_request r ?r" by (simp add: same_request_def)
      ultimately show ?thesis using g i' Some None
        by (simp add: generate_block_hash_extra_keys_def gen_prompt_embeds_extra_hash_keys_def
            block_keys_def Let_def)
    next
      case (Some v)
      moreover have "v = sha256 (slice rows s e)"
        using Some assms(4) \<open>prompt_embeds r = Some rows\<close> by (auto simp: memo_ok_def)
      ultimately show ?thesis using g i' assms(4) \<open>prompt_embeds r = Some rows\<close>
        by (simp add: generate_block_hash_extra_keys_def gen_prompt_embeds_extra_hash_keys_def
            block_keys_def Let_def)
    qed
  qed
qed

section \<open>The hasher computes the chain\<close>

text \<open>
  What a request must satisfy when the hasher is called: its lengths agree, its multi-modal inputs
  are as assumed, its memo holds hashes of its own rows, its hashes so far are the chain's, and,
  when it already has some, every input but the last ends before the first new block.
\<close>

definition hasher_ready ::
    "(bytes list \<Rightarrow> bytes) \<Rightarrow> hash_fn \<Rightarrow> bytes \<Rightarrow> int \<Rightarrow> request \<Rightarrow> bool" where
  "hasher_ready sha256 h none_hash B r \<longleftrightarrow>
     num_tokens r = int (length (all_token_ids r)) \<and> mm_sorted (mm_features r) \<and>
     memo_ok sha256 r \<and>
     block_hashes r = map (chain_hash sha256 h none_hash B r) [0..<length (block_hashes r)] \<and>
     (block_hashes r \<noteq> [] \<longrightarrow> (\<forall>f \<in> set (butlast (mm_features r)).
        mm_offset f + mm_length f \<le> int (length (block_hashes r)) * B))"

definition nonempty_hash :: "hash_fn \<Rightarrow> bool" where
  "nonempty_hash h \<longleftrightarrow> (\<forall>x. h x \<noteq> [])"

definition prev_hash ::
    "(bytes list \<Rightarrow> bytes) \<Rightarrow> hash_fn \<Rightarrow> bytes \<Rightarrow> int \<Rightarrow> request \<Rightarrow> nat \<Rightarrow> bytes option" where
  "prev_hash sha256 h none_hash B r k =
     (case k of 0 \<Rightarrow> None | Suc j \<Rightarrow> Some (chain_hash sha256 h none_hash B r j))"

lemma chain_hash_step:
  assumes "\<And>x. h x \<noteq> []"
  shows "hash_block_tokens h nh (prev_hash sha256 h nh B r k)
           (slice (all_token_ids r) (int k * B) (int k * B + B))
           (block_keys sha256 r (int k * B) (int k * B + B)) = chain_hash sha256 h nh B r k"
proof (cases k)
  case 0 then show ?thesis by (simp add: prev_hash_def hash_block_tokens_def)
next
  case (Suc j)
  have "chain_hash sha256 h nh B r j \<noteq> []"
    by (cases j) (simp_all only: chain_hash.simps assms not_False_eq_True)
  then show ?thesis by (simp add: Suc prev_hash_def hash_block_tokens_def)
qed

lemma block_fits_iff:
  assumes "0 < (B::int)" and "0 \<le> n"
  shows "int k * B + B \<le> n \<longleftrightarrow> k < nat (n div B)"
proof -
  have "int k * B + B = (int k + 1) * B" by (simp add: algebra_simps)
  then have "int k * B + B \<le> n \<longleftrightarrow> int k + 1 \<le> n div B"
    using le_div_iff_int[OF assms(1), of "int k + 1" n] by simp
  moreover have "0 \<le> n div B" using assms by (simp add: pos_imp_zdiv_nonneg_iff)
  ultimately show ?thesis by linarith
qed

lemma hasher_loop_chain:
  assumes B: "0 < B" and h: "\<And>x. h x \<noteq> []" and n: "0 \<le> num_tokens r"
    and "mm_sorted (mm_features r)" and "memo_ok sha256 r"
    and "mm_start_ok (mm_features r) i (int k * B)" and "k \<le> nat (num_tokens r div B)"
  shows "\<exists>r'. hasher_loop sha256 h nh B (int k * B) i (prev_hash sha256 h nh B r k) acc r =
           Some (Inr (acc @ map (chain_hash sha256 h nh B r) [k..<nat (num_tokens r div B)]), r') \<and>
           same_request r r' \<and> memo_ok sha256 r'"
  using assms(3-7)
proof (induction "nat (num_tokens r div B) - k" arbitrary: k i acc r)
  case 0
  then have "\<not> int k * B + B \<le> num_tokens r" using block_fits_iff[OF B, of "num_tokens r" k] by simp
  with 0 show ?case by (subst hasher_loop.simps) (simp add: Let_def)
next
  case (Suc d)
  let ?e = "int k * B + B"
  have k: "k < nat (num_tokens r div B)" using Suc.hyps(2) by linarith
  then have fits: "?e \<le> num_tokens r" using block_fits_iff[OF B] Suc.prems(1) by simp
  have se: "int k * B \<le> ?e" using B by simp
  have e: "?e = int (Suc k) * B" by (simp add: algebra_simps)
  obtain i' r' where keys: "generate_block_hash_extra_keys sha256 r (int k * B) ?e i =
      (Inr (block_keys sha256 r (int k * B) ?e, i'), r')"
    and i': "mm_start_ok (mm_features r) i' ?e" and r': "same_request r r'" "memo_ok sha256 r'"
    using extra_keys_block[OF Suc.prems(2) se Suc.prems(4,3)] by blast
  note same = same_request_fields[OF r'(1)]
  have chain: "chain_hash sha256 h nh B r' = chain_hash sha256 h nh B r" by (rule ext) (rule same(6))
  have prev: "prev_hash sha256 h nh B r' = prev_hash sha256 h nh B r"
    by (rule ext) (simp add: prev_hash_def chain split: nat.split)
  let ?c = "chain_hash sha256 h nh B r k"
  have "hasher_loop sha256 h nh B (int k * B) i (prev_hash sha256 h nh B r k) acc r =
      hasher_loop sha256 h nh B (int (Suc k) * B) i' (prev_hash sha256 h nh B r' (Suc k)) (acc @ [?c]) r'"
    using fits by (subst hasher_loop.simps)
      (simp add: keys Let_def chain_hash_step[OF h] same(1) prev, simp add: e prev_hash_def)
  moreover have "\<exists>r''. hasher_loop sha256 h nh B (int (Suc k) * B) i' (prev_hash sha256 h nh B r' (Suc k))
      (acc @ [?c]) r' =
      Some (Inr ((acc @ [?c]) @ map (chain_hash sha256 h nh B r') [Suc k..<nat (num_tokens r' div B)]), r'') \<and>
      same_request r' r'' \<and> memo_ok sha256 r''"
    using Suc.hyps(2) Suc.prems r' i' k
    by (intro Suc.hyps(1)) (auto simp: same e)
  ultimately show ?case
    using r'(1) k by (auto simp: chain same upt_conv_Cons intro: same_request_trans)
qed

lemma hasher_extends:
  assumes B: "0 < B" and nonempty: "nonempty_hash h" and ready: "hasher_ready sha256 h nh B r"
  shows "\<exists>r'. request_block_hasher sha256 h nh B r =
           Some (Inr (map (chain_hash sha256 h nh B r)
             [length (block_hashes r)..<nat (num_tokens r div B)]), r') \<and>
           same_request r r' \<and> memo_ok sha256 r'"
proof -
  let ?k = "length (block_hashes r)" and ?fs = "mm_features r"
  have h: "\<And>x. h x \<noteq> []" using nonempty by (simp add: nonempty_hash_def)
  have n: "0 \<le> num_tokens r" using ready by (simp add: hasher_ready_def)
  show ?thesis
  proof (cases "int ?k * B + B \<le> num_tokens r")
    case False
    then show ?thesis using block_fits_iff[OF B n, of ?k] ready
      by (auto simp: request_block_hasher_def Let_def hasher_ready_def)
  next
    case True
    then have k: "?k \<le> nat (num_tokens r div B)" using block_fits_iff[OF B n, of ?k] by simp
    have prev: "prev_hash sha256 h nh B r ?k =
        (if block_hashes r = [] then None else Some (last (block_hashes r)))"
    proof (cases "block_hashes r" rule: rev_cases)
      case Nil then show ?thesis by (simp add: prev_hash_def)
    next
      case (snoc xs x)
      have "block_hashes r ! length xs = chain_hash sha256 h nh B r (length xs)"
        using ready snoc by (auto simp: hasher_ready_def)
      then show ?thesis by (simp add: prev_hash_def snoc)
    qed
    define i :: int where "i = (if 0 < int ?k * B then -1 else 0)"
    have "mm_start_ok ?fs i (int ?k * B)"
    proof (cases "block_hashes r = []")
      case True
      then show ?thesis by (simp add: mm_start_ok_def mm_passed_def i_def)
    next
      case False
      have "nat (int (length ?fs) - 1) = length ?fs - 1" by linarith
      then show ?thesis using False B ready
        by (auto simp: mm_start_ok_def mm_passed_def i_def hasher_ready_def butlast_conv_take Suc_le_eq)
    qed
    from hasher_loop_chain[where h=h and ?sha256.0=sha256 and nh=nh and acc="[]", OF B h n _ _ this k] ready True
    show ?thesis
      by (auto simp: request_block_hasher_def Let_def prev i_def hasher_ready_def)
  qed
qed

lemma chain_hash_cong:
  assumes "\<And>j. j \<le> k \<Longrightarrow> chain_input sha256 [] B r j = chain_input sha256 [] B r' j"
  shows "chain_hash sha256 h nh B r k = chain_hash sha256 h nh B r' k"
  using assms
proof (induction k)
  case 0 then show ?case by (simp add: chain_input_def)
next
  case (Suc k)
  then have "chain_hash sha256 h nh B r k = chain_hash sha256 h nh B r' k" by simp
  moreover have "chain_input sha256 [] B r (Suc k) = chain_input sha256 [] B r' (Suc k)"
    using Suc.prems by simp
  ultimately show ?case by (simp add: chain_input_def del: of_nat_Suc)
qed

lemma slice_append:
  "0 \<le> i \<Longrightarrow> i \<le> j \<Longrightarrow> j \<le> int (length xs) \<Longrightarrow> slice (xs @ ys) i j = slice xs i j"
  by (auto simp: slice_def nat_le_iff)

definition grow :: "request \<Rightarrow> int list \<Rightarrow> bytes list \<Rightarrow> request" where
  "grow r new hs = r\<lparr>all_token_ids := all_token_ids r @ new,
     num_tokens := num_tokens r + int (length new), block_hashes := hs\<rparr>"

lemma grow_fields:
  "all_token_ids (grow r new hs) = all_token_ids r @ new" "mm_features (grow r new hs) = mm_features r"
  "num_tokens (grow r new hs) = num_tokens r + int (length new)" "block_hashes (grow r new hs) = hs"
  "embeds_memo (grow r new hs) = embeds_memo r" "prompt_embeds (grow r new hs) = prompt_embeds r"
  by (simp_all add: grow_def)

lemma block_keys_grow [simp]: "block_keys sha256 (grow r new hs) = block_keys sha256 r"
  by (intro ext) (simp add: block_keys_def grow_def gen_lora_extra_hash_keys_def cache_salt_keys_def)

lemma chain_hash_grow:
  assumes "0 < B" and "num_tokens r = int (length (all_token_ids r))" and "k < nat (num_tokens r div B)"
  shows "chain_hash sha256 h nh B (grow r new hs) k = chain_hash sha256 h nh B r k"
proof (rule chain_hash_cong)
  fix j assume "j \<le> k"
  then have "int j * B + B \<le> num_tokens r"
    using block_fits_iff[OF assms(1), of "num_tokens r" j] assms(2,3) by simp
  then show "chain_input sha256 [] B (grow r new hs) j = chain_input sha256 [] B r j"
    using assms by (simp add: chain_input_def) (simp add: grow_def slice_append)
qed

lemma chain_hash_grow_same:
  assumes "same_request r r1"
  shows "chain_hash sha256 h nh B (grow r1 new hs) k = chain_hash sha256 h nh B (grow r new hs') k"
proof -
  obtain m where m: "r1 = r\<lparr>embeds_memo := m\<rparr>" using assms by (auto simp: same_request_def)
  show ?thesis
    by (rule chain_hash_cong) (simp add: m chain_input_def,
      simp add: grow_def block_keys_def gen_lora_extra_hash_keys_def cache_salt_keys_def)
qed

lemma hasher_ready_grow:
  assumes "num_tokens r = int (length (all_token_ids r))" and "mm_sorted (mm_features r)"
    and "memo_ok sha256 r" and "hs = map (chain_hash sha256 h nh B (grow r new hs)) [0..<length hs]"
    and "hs \<noteq> [] \<Longrightarrow> \<forall>f \<in> set (butlast (mm_features r)).
      mm_offset f + mm_length f \<le> int (length hs) * B"
  shows "hasher_ready sha256 h nh B (grow r new hs)"
  unfolding hasher_ready_def grow_fields using assms by (simp add: memo_ok_def grow_fields)

section \<open>Properties\<close>

definition fresh_request :: "request \<Rightarrow> bool" where
  "fresh_request r \<longleftrightarrow> num_tokens r = int (length (all_token_ids r)) \<and> mm_sorted (mm_features r) \<and>
     block_hashes r = [] \<and> embeds_memo r = (\<lambda>_. None)"

lemma fresh_ready: "fresh_request r \<Longrightarrow> hasher_ready sha256 h nh B r"
  by (simp add: fresh_request_def hasher_ready_def memo_ok_def)

text \<open>
  The hasher on any request it may be called on (nothing hashed yet, or some hashes and then
  generated tokens) returns, raises nothing, and yields exactly the hashes of the full blocks that
  had none: block \<open>k\<close> is the hash of its parent's hash, its tokens and the keys of every input that
  meets it. The request's state changes in the memo only, which stays sound.
\<close>
lemma hasher_extends_chain:
  assumes "0 < B" and "nonempty_hash h" and "hasher_ready sha256 h nh B r"
  shows "\<exists>r'. request_block_hasher sha256 h nh B r =
           Some (Inr (map (chain_hash sha256 h nh B r)
             [length (block_hashes r)..<nat (num_tokens r div B)]), r') \<and>
           same_request r r' \<and> memo_ok sha256 r'"
  using assms by (rule hasher_extends)

text \<open>
  C6. Hashing in increments: a fresh request is hashed, grows by generated tokens, and is hashed
  again from the hashes it has. If every multi-modal input but the last ends before the first new
  block, both calls return, and the hashes of the two calls together are the hashes a fresh request
  with all the tokens gets in one call.
\<close>
theorem incremental_hashing:
  assumes "0 < B" and "nonempty_hash h" and "fresh_request r"
    and "\<forall>f \<in> set (butlast (mm_features r)).
      mm_offset f + mm_length f \<le> num_tokens r div B * B"
  shows "\<exists>hs r1 hs' r2 r3.
    request_block_hasher sha256 h nh B r = Some (Inr hs, r1) \<and>
    request_block_hasher sha256 h nh B (grow r1 new hs) = Some (Inr hs', r2) \<and>
    request_block_hasher sha256 h nh B (grow r new []) = Some (Inr (hs @ hs'), r3) \<and>
    int (length (hs @ hs')) = (num_tokens r + int (length new)) div B"
proof -
  let ?chain = "chain_hash sha256 h nh B" and ?k = "nat (num_tokens r div B)"
  let ?n = "num_tokens r + int (length new)" and ?m = "nat ((num_tokens r + int (length new)) div B)"
  have n: "num_tokens r = int (length (all_token_ids r))" and nil: "block_hashes r = []"
    using assms(3) by (auto simp: fresh_request_def)
  have k0: "0 \<le> num_tokens r div B" and m0: "0 \<le> ?n div B"
    using assms(1) n by (auto simp: pos_imp_zdiv_nonneg_iff)
  have km: "?k \<le> ?m" using assms(1) by (intro nat_mono zdiv_mono1) auto
  obtain r1 where 1: "request_block_hasher sha256 h nh B r = Some (Inr (map (?chain r) [0..<?k]), r1)"
    and r1: "same_request r r1" "memo_ok sha256 r1"
    using hasher_extends[where ?sha256.0=sha256, OF assms(1,2) fresh_ready[OF assms(3)]] nil by auto
  let ?hs = "map (?chain r) [0..<?k]"
  have g: "?chain (grow r1 new ?hs) j = ?chain (grow r new []) j" for j
    by (rule chain_hash_grow_same[OF r1(1)])
  have old: "?chain (grow r new []) j = ?chain r j" if "j < ?k" for j
    by (rule chain_hash_grow[OF assms(1) n that])
  have kB: "int (length ?hs) * B = num_tokens r div B * B" using k0 by simp
  have hs: "?hs = map (?chain (grow r1 new ?hs)) [0..<length ?hs]" by (simp add: g old)
  have "hasher_ready sha256 h nh B (grow r1 new ?hs)"
    by (rule hasher_ready_grow[OF _ _ r1(2) hs])
      (use assms(3,4) kB in \<open>simp_all add: fresh_request_def same_request_fields[OF r1(1)]\<close>)
  from hasher_extends[OF assms(1,2) this] obtain r2 where
    2: "request_block_hasher sha256 h nh B (grow r1 new ?hs) =
      Some (Inr (map (?chain (grow r new [])) [?k..<?m]), r2)"
    by (auto simp: g[abs_def] grow_fields same_request_fields[OF r1(1)])
  have "hasher_ready sha256 h nh B (grow r new [])"
    using assms(3) by (auto simp: hasher_ready_def grow_def fresh_request_def memo_ok_def)
  from hasher_extends[OF assms(1,2) this] obtain r3 where
    3: "request_block_hasher sha256 h nh B (grow r new []) =
      Some (Inr (map (?chain (grow r new [])) [0..<?m]), r3)"
    by (auto simp: grow_def)
  have "[0..<?m] = [0..<?k] @ [?k..<?m]"
    using upt_add_eq_append[of 0 ?k "?m - ?k"] km by simp
  then have "map (?chain (grow r new [])) [0..<?m] = ?hs @ map (?chain (grow r new [])) [?k..<?m]"
    by (simp add: old)
  moreover have "int (length (?hs @ map (?chain (grow r new [])) [?k..<?m])) = ?n div B"
    using km m0 by simp
  ultimately show ?thesis using 1 2 3 by metis
qed

lemma chain_hash_not_seed:
  assumes "inj h"
  shows "chain_hash sha256 h nh B r k \<noteq> h (SeedInput seed)"
    and "h (SeedInput seed) \<noteq> chain_hash sha256 h nh B r k"
proof -
  show "chain_hash sha256 h nh B r k \<noteq> h (SeedInput seed)"
    by (cases k) (auto dest!: injD[OF assms])
  then show "h (SeedInput seed) \<noteq> chain_hash sha256 h nh B r k" by metis
qed

lemma chain_hash_inj:
  assumes "inj h" and "nh = h (SeedInput seed)"
    and "chain_hash sha256 h nh B r i = chain_hash sha256 h nh B r' j"
  shows "i = j \<and> (\<forall>k \<le> i. chain_input sha256 [] B r k = chain_input sha256 [] B r' k)"
  using assms(3)
proof (induction i arbitrary: j)
  case 0
  then show ?case using chain_hash_not_seed[OF assms(1)]
    by (cases j) (auto simp: chain_input_def assms(2) dest!: injD[OF assms(1)])
next
  case (Suc i)
  obtain j' where j: "j = Suc j'" using Suc.prems chain_hash_not_seed[OF assms(1)]
    by (cases j) (auto simp: assms(2) dest!: injD[OF assms(1)])
  have "chain_hash sha256 h nh B r i = chain_hash sha256 h nh B r' j'"
    and same: "slice (all_token_ids r) (int (Suc i) * B) (int (Suc i) * B + B) =
        slice (all_token_ids r') (int (Suc j') * B) (int (Suc j') * B + B)"
      "block_keys sha256 r (int (Suc i) * B) (int (Suc i) * B + B) =
        block_keys sha256 r' (int (Suc j') * B) (int (Suc j') * B + B)"
    using Suc.prems unfolding j chain_hash.simps by (auto dest!: injD[OF assms(1)])
  then have "i = j'" and "\<forall>k \<le> i. chain_input sha256 [] B r k = chain_input sha256 [] B r' k"
    using Suc.IH[of j'] by auto
  with same show ?case by (auto simp: j le_Suc_eq chain_input_def simp del: of_nat_Suc)
qed

lemma slice_prefix:
  "0 \<le> B \<Longrightarrow> take (nat (int k * B)) xs @ slice xs (int k * B) (int k * B + B) = take (nat (int k * B + B)) xs"
  by (simp add: slice_def take_add[symmetric] nat_add_distrib del: of_nat_Suc)

lemma chain_input_prefix:
  assumes "0 < B" and "\<And>k. k \<le> i \<Longrightarrow> chain_input sha256 [] B r k = chain_input sha256 [] B r' k"
  shows "take (nat (int i * B + B)) (all_token_ids r) = take (nat (int i * B + B)) (all_token_ids r')"
  using assms(2)
proof (induction i)
  case 0 then show ?case by (auto simp: chain_input_def slice_def)
next
  case (Suc i)
  have e: "int (Suc i) * B = int i * B + B" by (simp add: algebra_simps)
  have "take (nat (int i * B + B)) (all_token_ids r) = take (nat (int i * B + B)) (all_token_ids r')"
    and "slice (all_token_ids r) (int (Suc i) * B) (int (Suc i) * B + B) =
         slice (all_token_ids r') (int (Suc i) * B) (int (Suc i) * B + B)"
    using Suc.IH Suc.prems(1)[of "Suc i"] Suc.prems(1) by (auto simp: chain_input_def)
  then show ?case
    using slice_prefix[of B "Suc i" "all_token_ids r"] slice_prefix[of B "Suc i" "all_token_ids r'"] assms(1)
    unfolding e by (metis less_imp_le)
qed

text \<open>
  The extra keys of a block tell its parts apart by their kind: the multi-modal inputs and, under a
  collision-free hash of the embeddings, the rows of embeddings. The adapter's name and the salt
  are both plain strings, and only their number tells them apart.
\<close>
definition block_embeds :: "request \<Rightarrow> int \<Rightarrow> int \<Rightarrow> bytes list option" where
  "block_embeds r s e = map_option (\<lambda>rows. slice rows s e) (prompt_embeds r)"

lemma block_keys_list:
  "(case block_keys sha256 r s e of None \<Rightarrow> [] | Some ks \<Rightarrow> ks) =
     gen_lora_extra_hash_keys r @ mm_block_keys (mm_features r) s e @ cache_salt_keys r s @
     (case prompt_embeds r of None \<Rightarrow> [] | Some rows \<Rightarrow> [KBytes (sha256 (slice rows s e))])"
  by (simp add: block_keys_def Let_def)

fun key_is_string :: "extra_key \<Rightarrow> bool" where
  "key_is_string (KStr _) = True" | "key_is_string _ = False"

fun key_is_input :: "extra_key \<Rightarrow> bool" where
  "key_is_input (KMm _ _) = True" | "key_is_input _ = False"

fun key_is_embeds :: "extra_key \<Rightarrow> bool" where
  "key_is_embeds (KBytes _) = True" | "key_is_embeds _ = False"

lemma filter_mm_block_keys [simp]:
  "filter key_is_input (mm_block_keys fs s e) = mm_block_keys fs s e"
  "filter key_is_string (mm_block_keys fs s e) = []"
  "filter key_is_embeds (mm_block_keys fs s e) = []"
  by (auto simp: mm_block_keys_def filter_id_conv filter_empty_conv)

lemma filter_string_keys [simp]:
  "filter key_is_input (gen_lora_extra_hash_keys r) = []"
  "filter key_is_embeds (gen_lora_extra_hash_keys r) = []"
  "filter key_is_string (gen_lora_extra_hash_keys r) = gen_lora_extra_hash_keys r"
  "filter key_is_input (cache_salt_keys r s) = []"
  "filter key_is_embeds (cache_salt_keys r s) = []"
  "filter key_is_string (cache_salt_keys r s) = cache_salt_keys r s"
  by (auto simp: gen_lora_extra_hash_keys_def cache_salt_keys_def split: option.splits)

lemma filter_block_keys:
  fixes r s e sha256
  defines "ks \<equiv> (case block_keys sha256 r s e of None \<Rightarrow> [] | Some ks \<Rightarrow> ks)"
  shows "filter key_is_input ks = mm_block_keys (mm_features r) s e"
    and "filter key_is_string ks = gen_lora_extra_hash_keys r @ cache_salt_keys r s"
    and "filter key_is_embeds ks =
      (case block_embeds r s e of None \<Rightarrow> [] | Some rows \<Rightarrow> [KBytes (sha256 rows)])"
  unfolding ks_def block_keys_list by (auto simp: block_embeds_def split: option.splits)

lemma block_keys_content:
  assumes "inj sha256" and eq: "block_keys sha256 r s e = block_keys sha256 r' s e"
  shows "mm_block_keys (mm_features r) s e = mm_block_keys (mm_features r') s e"
    and "block_embeds r s e = block_embeds r' s e"
    and "gen_lora_extra_hash_keys r @ cache_salt_keys r s =
      gen_lora_extra_hash_keys r' @ cache_salt_keys r' s"
proof -
  note f = filter_block_keys[of sha256 r s e, unfolded eq]
  note f' = filter_block_keys[of sha256 r' s e]
  show "mm_block_keys (mm_features r) s e = mm_block_keys (mm_features r') s e"
    using f(1) f'(1) by simp
  show "gen_lora_extra_hash_keys r @ cache_salt_keys r s =
      gen_lora_extra_hash_keys r' @ cache_salt_keys r' s"
    using f(2) f'(2) by simp
  have "(case block_embeds r s e of None \<Rightarrow> [] | Some rows \<Rightarrow> [KBytes (sha256 rows)]) =
      (case block_embeds r' s e of None \<Rightarrow> [] | Some rows \<Rightarrow> [KBytes (sha256 rows)])"
    using f(3) f'(3) by simp
  then show "block_embeds r s e = block_embeds r' s e"
    by (auto split: option.splits dest: injD[OF assms(1)])
qed

lemma adapter_and_salt:
  assumes "gen_lora_extra_hash_keys r @ cache_salt_keys r s =
      gen_lora_extra_hash_keys r' @ cache_salt_keys r' s"
    and "lora_name r = None \<longleftrightarrow> lora_name r' = None"
  shows "lora_name r = lora_name r' \<and> cache_salt_keys r s = cache_salt_keys r' s"
  using assms by (auto simp: gen_lora_extra_hash_keys_def split: option.splits)

text \<open>
  C5. With collision-free hashes, a block hash identifies the prefix: if the \<open>i\<close>-th hash of one fresh
  request equals the \<open>j\<close>-th of another, then \<open>i = j\<close>, the requests agree on all the tokens up to the
  end of that block, on the extra keys of every block up to it, and so, block by block, on the
  identifiers and positions of the multi-modal inputs and on the rows of prompt embeddings. When
  both requests or neither name an adapter, the adapter's name and the cache salt agree too; that
  condition is needed, since an adapter's name alone and an equal cache salt alone give the same
  hashes (\<open>lora_salt_collision\<close>).
\<close>
theorem block_hash_identifies_prefix:
  assumes "0 < B" and "inj h" and "nonempty_hash h" and "nh = h (SeedInput seed)"
    and "fresh_request r" and "fresh_request r'"
    and "request_block_hasher sha256 h nh B r = Some (Inr hs, r1)"
    and "request_block_hasher sha256 h nh B r' = Some (Inr hs', r1')"
    and "i < length hs" and "j < length hs'" and "hs ! i = hs' ! j" and "inj sha256"
  shows "i = j \<and>
    take (nat (int i * B + B)) (all_token_ids r) = take (nat (int i * B + B)) (all_token_ids r') \<and>
    (\<forall>k \<le> i. block_keys sha256 r (int k * B) (int k * B + B) =
        block_keys sha256 r' (int k * B) (int k * B + B) \<and>
      mm_block_keys (mm_features r) (int k * B) (int k * B + B) =
        mm_block_keys (mm_features r') (int k * B) (int k * B + B) \<and>
      block_embeds r (int k * B) (int k * B + B) = block_embeds r' (int k * B) (int k * B + B)) \<and>
    ((lora_name r = None \<longleftrightarrow> lora_name r' = None) \<longrightarrow>
      lora_name r = lora_name r' \<and> cache_salt_keys r 0 = cache_salt_keys r' 0)"
proof -
  have "chain_hash sha256 h nh B r i = chain_hash sha256 h nh B r' j"
    using hasher_extends[where ?sha256.0=sha256 and nh=nh, OF assms(1,3) fresh_ready[OF assms(5)]]
      hasher_extends[where ?sha256.0=sha256 and nh=nh, OF assms(1,3) fresh_ready[OF assms(6)]] assms(5-11)
    by (auto simp: fresh_request_def)
  from chain_hash_inj[OF assms(2,4) this]
  have ij: "i = j" and same: "\<And>k. k \<le> i \<Longrightarrow> chain_input sha256 [] B r k = chain_input sha256 [] B r' k"
    by auto
  have keys: "block_keys sha256 r (int k * B) (int k * B + B) =
      block_keys sha256 r' (int k * B) (int k * B + B)" if "k \<le> i" for k
    using same[OF that] by (simp add: chain_input_def)
  have "block_keys sha256 r 0 B = block_keys sha256 r' 0 B" using keys[of 0] by simp
  note first = adapter_and_salt[OF block_keys_content(3)[OF assms(12) this]]
  show ?thesis
    using ij chain_input_prefix[OF assms(1) same] first keys
      block_keys_content(1,2)[OF assms(12) keys] by simp
qed

text \<open>
  Keys of hash and group id: packing raises \<open>OverflowError\<close> exactly outside the 32-bit range, and
  otherwise the two getters give back the hash and the group.
\<close>
lemma group_key_roundtrip:
  "case make_block_hash_with_group_id bh g of
     Inr key \<Rightarrow> 0 \<le> g \<and> g < 2 ^ 32 \<and> get_block_hash key = bh \<and> get_group_id key = g
   | Inl e \<Rightarrow> e = OverflowError \<and> (g < 0 \<or> 2 ^ 32 \<le> g)"
proof (cases "to_bytes_be 4 g")
  case (Inl e)
  then show ?thesis
    by (auto simp: make_block_hash_with_group_id_def to_bytes_be_def split: if_splits)
next
  case (Inr bs)
  then have "0 \<le> g \<and> g < 2 ^ 32" by (auto simp: to_bytes_be_def split: if_splits)
  then show ?thesis using from_to_bytes[OF Inr]
    by (simp add: make_block_hash_with_group_id_def Inr get_block_hash_def get_group_id_def)
qed

text \<open>
  The extra keys of a block name every multi-modal input that meets it, each with its offset
  relative to the block, in order, and nothing else, whatever admissible index the caller starts
  from; and the index returned is admissible for the next block.
\<close>
lemma mm_keys_complete:
  assumes "mm_sorted (mm_features r)" and "s \<le> e" and "mm_start_ok (mm_features r) i s"
  shows "\<exists>i'. gen_mm_extra_hash_keys r s e i =
           Inr (map (\<lambda>f. KMm (the (mm_identifier f)) (mm_offset f - s))
             (filter (\<lambda>f. mm_offset f < e \<and> s < mm_offset f + mm_length f) (mm_features r)), i') \<and>
           mm_start_ok (mm_features r) i' e"
  using gen_mm_keys[OF assms] by (simp add: mm_block_keys_def mm_overlap_def[abs_def])

lemma view_get:
  assumes "v = \<lparr>view_hashes = hs, scale_factor = k\<rparr>" and "0 < k" and "0 \<le> i" and "i < view_len v"
  shows "get_value_at v i = Inr (hs ! nat ((i + 1) * k - 1))"
proof -
  have "i + 1 \<le> int (length hs) div k" using assms by (simp add: view_len_def)
  then have "(i + 1) * k \<le> int (length hs)" using le_div_iff_int[OF assms(2)] by blast
  moreover have "0 < (i + 1) * k" using assms by (intro mult_pos_pos) auto
  ultimately show ?thesis using assms(1) by (simp add: get_value_at_def py_get_def)
qed

text \<open>
  The coarse view of a request's hashes: when the coarse block is a multiple of the fine one,
  the view of the hashes of a fresh request lists, for each full coarse block, the chained hash of
  its last fine block, hence the fingerprint of the prefix that ends with it.
\<close>
lemma coarse_view_fingerprints:
  assumes "0 < B" and "0 < k" and "nonempty_hash h" and "fresh_request r"
    and "request_block_hasher sha256 h nh B r = Some (Inr hs, r')"
  shows "rbind (BlockHashListWithBlockSize hs B (k * B)) view_iter =
     Inr (map (\<lambda>i. chain_hash sha256 h nh B r (nat ((int i + 1) * k - 1)))
       [0..<nat (num_tokens r div (k * B))])"
proof -
  let ?n = "num_tokens r div B" and ?v = "\<lparr>view_hashes = hs, scale_factor = k\<rparr>"
  have n: "0 \<le> ?n" using assms(1,4) by (simp add: fresh_request_def pos_imp_zdiv_nonneg_iff)
  have hs: "hs = map (chain_hash sha256 h nh B r) [0..<nat ?n]"
    using hasher_extends[where ?sha256.0=sha256 and nh=nh, OF assms(1,3) fresh_ready[OF assms(4)]] assms(4,5)
    by (auto simp: fresh_request_def)
  have len: "view_len ?v = num_tokens r div (k * B)"
    using n assms(2) by (simp add: view_len_def hs zdiv_zmult2_eq mult.commute[of k])
  have step: "get_value_at ?v (int i) = Inr (chain_hash sha256 h nh B r (nat ((int i + 1) * k - 1)))"
    if i: "i < nat (view_len ?v)" for i
  proof -
    have "int i + 1 \<le> ?n div k" using i n by (simp add: view_len_def hs)
    then have "(int i + 1) * k \<le> ?n" using le_div_iff_int[OF assms(2)] by blast
    moreover have "0 < (int i + 1) * k" using assms(2) by (intro mult_pos_pos) auto
    ultimately have "nat ((int i + 1) * k - 1) < nat ?n" by linarith
    then show ?thesis
      using view_get[OF refl assms(2), of "int i" hs] i by (simp add: hs)
  qed
  have "rmap (get_value_at ?v) (map int [0..<nat (view_len ?v)]) =
      Inr (map (\<lambda>i. chain_hash sha256 h nh B r (nat ((int i + 1) * k - 1))) [0..<nat (view_len ?v)])"
    by (auto simp: rmap_Inr_iff list_all2_conv_all_nth step)
  then show ?thesis using assms(1)
    by (simp add: BlockHashListWithBlockSize_def view_iter_def len)
qed

text \<open>
  A LoRA name and a cache salt are told apart by their position only: for a request without
  multi-modal inputs, the extra keys of the first block for the adapter named \<open>s\<close> without a salt are
  those for the base model with the salt \<open>s\<close>, so equal first blocks get equal hashes.
\<close>
lemma lora_salt_collision:
  assumes "s \<noteq> []" and "mm_features r = []"
  shows "fst (generate_block_hash_extra_keys sha256 (r\<lparr>lora_name := Some s, cache_salt := None\<rparr>) 0 e i) =
    fst (generate_block_hash_extra_keys sha256 (r\<lparr>lora_name := None, cache_salt := Some s\<rparr>) 0 e i)"
  using assms by (simp add: generate_block_hash_extra_keys_def gen_lora_extra_hash_keys_def
      cache_salt_keys_def gen_mm_extra_hash_keys_def gen_prompt_embeds_extra_hash_keys_def Let_def
      split: option.split)

text \<open>A prompt of six tokens whose last two, in the second block, are two inputs of one token each.\<close>

definition two_images :: "string \<Rightarrow> request" where
  "two_images ident = \<lparr>all_token_ids = [1, 2, 3, 4, 7, 7], num_tokens = 6, block_hashes = [],
     mm_features = [\<lparr>mm_identifier = Some ident, mm_offset = 4, mm_length = 1\<rparr>,
       \<lparr>mm_identifier = Some ''b'', mm_offset = 5, mm_length = 1\<rparr>],
     lora_name = None, cache_salt = None, prompt_embeds = None, embeds_memo = (\<lambda>_. None)\<rparr>"

text \<open>
  The condition on the inputs in the incremental properties is needed: when two inputs lie in
  the block the prompt leaves unfinished, the block, completed by generated tokens, is hashed with
  the last input only, although both meet it; so its hash does not depend on the first input.
\<close>
lemma unfinished_block_forgets_input:
  "map_option fst (request_block_hasher sha256 h nh 4 (grow (two_images ident) [8, 9] [x # p])) =
     Some (Inr [h (BlockInput (x # p) [7, 7, 8, 9] (Some [KMm ''b'' 1]))]) \<and>
   mm_block_keys (mm_features (two_images ident)) 4 8 = [KMm ident 0, KMm ''b'' 1]"
proof
  have "generate_block_hash_extra_keys sha256 (grow (two_images ident) [8, 9] [x # p]) 4 8 (-1) =
      (Inr (Some [KMm ''b'' 1], 2), grow (two_images ident) [8, 9] [x # p])"
    by (simp add: generate_block_hash_extra_keys_def gen_mm_extra_hash_keys_def grow_def two_images_def
        mm_loop.simps gen_prompt_embeds_extra_hash_keys_def gen_lora_extra_hash_keys_def
        cache_salt_keys_def)
  then show "map_option fst (request_block_hasher sha256 h nh 4 (grow (two_images ident) [8, 9] [x # p])) =
     Some (Inr [h (BlockInput (x # p) [7, 7, 8, 9] (Some [KMm ''b'' 1]))])"
    by (simp add: request_block_hasher_def grow_fields hasher_loop.simps hash_block_tokens_def Let_def)
      (simp add: two_images_def slice_def hasher_loop.simps grow_fields)
  show "mm_block_keys (mm_features (two_images ident)) 4 8 = [KMm ident 0, KMm ''b'' 1]"
    by (simp add: mm_block_keys_def mm_overlap_def two_images_def)
qed

text \<open>Indexing the view by -1 gives the last fine hash, whether or not a coarse block ends there.\<close>

lemma view_last_is_raw:
  assumes "hs \<noteq> []"
  shows "get_value_at \<lparr>view_hashes = hs, scale_factor = k\<rparr> (-1) = Inr (last hs)"
  using assms by (simp add: get_value_at_def py_get_def last_conv_nth nat_diff_distrib Suc_le_eq)

section \<open>Witnesses\<close>

text \<open>A collision-free hash, and requests the properties apply to.\<close>

definition demo_hash :: hash_fn where
  "demo_hash x = [to_nat x]"

definition demo_request :: "int list \<Rightarrow> request" where
  "demo_request toks = \<lparr>all_token_ids = toks, num_tokens = int (length toks), block_hashes = [],
     mm_features = [\<lparr>mm_identifier = Some ''a'', mm_offset = 1, mm_length = 2\<rparr>],
     lora_name = None, cache_salt = Some ''s'', prompt_embeds = None, embeds_memo = (\<lambda>_. None)\<rparr>"

lemma demo_hash_nonempty: "nonempty_hash demo_hash"
  by (simp add: nonempty_hash_def demo_hash_def)

lemma demo_hash_inj: "inj demo_hash"
  by (simp add: inj_def demo_hash_def)

lemma demo_request_fresh: "fresh_request (demo_request toks)"
  by (simp add: fresh_request_def demo_request_def mm_sorted_def)

lemma demo_request_fields:
  "num_tokens (demo_request toks) = int (length toks)" "block_hashes (demo_request toks) = []"
  "mm_features (demo_request toks) = [\<lparr>mm_identifier = Some ''a'', mm_offset = 1, mm_length = 2\<rparr>]"
  "all_token_ids (demo_request toks) = toks"
  by (simp_all add: demo_request_def)

lemma hasher_extends_chain_witness:
  "\<exists>r'. request_block_hasher (\<lambda>_. []) demo_hash [0] 2 (demo_request [5, 6, 7, 8, 9]) =
     Some (Inr (map (chain_hash (\<lambda>_. []) demo_hash [0] 2 (demo_request [5, 6, 7, 8, 9])) [0..<2]), r') \<and>
     same_request (demo_request [5, 6, 7, 8, 9]) r' \<and> memo_ok (\<lambda>_. []) r'"
  using hasher_extends_chain[OF _ demo_hash_nonempty fresh_ready[OF demo_request_fresh],
      of 2 "\<lambda>_. []" "[0]" "[5, 6, 7, 8, 9]"]
  by (simp add: demo_request_fields)

lemma incremental_hashing_witness:
  "\<exists>hs r1 hs' r2 r3.
    request_block_hasher (\<lambda>_. []) demo_hash [0] 2 (demo_request [5, 6, 7]) = Some (Inr hs, r1) \<and>
    request_block_hasher (\<lambda>_. []) demo_hash [0] 2 (grow r1 [8, 9, 10] hs) = Some (Inr hs', r2) \<and>
    request_block_hasher (\<lambda>_. []) demo_hash [0] 2 (grow (demo_request [5, 6, 7]) [8, 9, 10] []) =
      Some (Inr (hs @ hs'), r3) \<and> int (length (hs @ hs')) = 3"
  using incremental_hashing[OF _ demo_hash_nonempty demo_request_fresh,
      of 2 "[5, 6, 7]" "\<lambda>_. []" "[0]" "[8, 9, 10]"]
  by (simp add: demo_request_fields)

lemma all_nat_le_one: "(\<forall>k \<le> 1. P (k::nat)) \<longleftrightarrow> P 0 \<and> P 1"
  by (auto simp: le_Suc_eq)

text \<open>A request with an adapter, a salt and prompt embeddings beside its multi-modal input.\<close>

definition demo_full_request :: "int list \<Rightarrow> bytes list \<Rightarrow> request" where
  "demo_full_request toks rows = (demo_request toks)\<lparr>lora_name := Some ''l'', prompt_embeds := Some rows\<rparr>"

definition demo_sha256 :: "bytes list \<Rightarrow> bytes" where
  "demo_sha256 rows = [to_nat rows]"

lemma demo_sha256_inj: "inj demo_sha256"
  by (simp add: inj_def demo_sha256_def)

lemma demo_full_request_fresh: "fresh_request (demo_full_request toks rows)"
  by (simp add: fresh_request_def demo_full_request_def demo_request_def mm_sorted_def)

lemma demo_full_request_fields:
  "num_tokens (demo_full_request toks rows) = int (length toks)"
  "block_hashes (demo_full_request toks rows) = []"
  "all_token_ids (demo_full_request toks rows) = toks"
  "lora_name (demo_full_request toks rows) = Some ''l''"
  by (simp_all add: demo_full_request_def demo_request_def)

lemma block_hash_identifies_prefix_witness:
  "take 4 (all_token_ids (demo_full_request [5, 6, 7, 8, 9] [[1], [2], [3], [4], [5]])) =
     take 4 (all_token_ids (demo_full_request [5, 6, 7, 8, 3, 4] [[1], [2], [3], [4], [6], [7]])) \<and>
   block_keys demo_sha256 (demo_full_request [5, 6, 7, 8, 9] [[1], [2], [3], [4], [5]]) 2 4 =
     block_keys demo_sha256 (demo_full_request [5, 6, 7, 8, 3, 4] [[1], [2], [3], [4], [6], [7]]) 2 4 \<and>
   block_embeds (demo_full_request [5, 6, 7, 8, 9] [[1], [2], [3], [4], [5]]) 2 4 =
     block_embeds (demo_full_request [5, 6, 7, 8, 3, 4] [[1], [2], [3], [4], [6], [7]]) 2 4 \<and>
   cache_salt_keys (demo_full_request [5, 6, 7, 8, 9] [[1], [2], [3], [4], [5]]) 0 =
     cache_salt_keys (demo_full_request [5, 6, 7, 8, 3, 4] [[1], [2], [3], [4], [6], [7]]) 0"
proof -
  let ?r = "demo_full_request [5, 6, 7, 8, 9] [[1], [2], [3], [4], [5]]"
  let ?r' = "demo_full_request [5, 6, 7, 8, 3, 4] [[1], [2], [3], [4], [6], [7]]"
  let ?nh = "demo_hash (SeedInput DEFAULT_NONE_HASH_SEED)"
  let ?c = "chain_hash demo_sha256 demo_hash ?nh 2"
  obtain r1 where r1: "request_block_hasher demo_sha256 demo_hash ?nh 2 ?r = Some (Inr (map (?c ?r) [0..<2]), r1)"
    using hasher_extends[OF _ demo_hash_nonempty fresh_ready[OF demo_full_request_fresh],
        of 2 demo_sha256 ?nh "[5, 6, 7, 8, 9]" "[[1], [2], [3], [4], [5]]"]
    by (auto simp: demo_full_request_fields)
  obtain r1' where r1': "request_block_hasher demo_sha256 demo_hash ?nh 2 ?r' = Some (Inr (map (?c ?r') [0..<3]), r1')"
    using hasher_extends[OF _ demo_hash_nonempty fresh_ready[OF demo_full_request_fresh],
        of 2 demo_sha256 ?nh "[5, 6, 7, 8, 3, 4]" "[[1], [2], [3], [4], [6], [7]]"]
    by (auto simp: demo_full_request_fields)
  have "?c ?r 1 = ?c ?r' 1"
    by (rule chain_hash_cong)
      (auto simp: chain_input_def block_keys_def gen_lora_extra_hash_keys_def cache_salt_keys_def
        demo_full_request_def demo_request_def slice_def le_Suc_eq)
  then have "map (?c ?r) [0..<2] ! 1 = map (?c ?r') [0..<3] ! 1" by simp
  from block_hash_identifies_prefix[OF _ demo_hash_inj demo_hash_nonempty refl
      demo_full_request_fresh demo_full_request_fresh r1 r1' _ _ this demo_sha256_inj]
  show ?thesis by (auto simp: all_nat_le_one demo_full_request_fields)
qed

lemma mm_keys_complete_witness:
  "\<exists>i'. gen_mm_extra_hash_keys (two_images ''a'') 4 8 0 = Inr ([KMm ''a'' 0, KMm ''b'' 1], i') \<and>
     mm_start_ok (mm_features (two_images ''a'')) i' 8"
  using mm_keys_complete[of "two_images ''a''" 4 8 0]
  by (simp add: two_images_def mm_sorted_def mm_start_ok_def mm_passed_def)

lemma coarse_view_fingerprints_witness:
  "\<exists>hs r'. request_block_hasher (\<lambda>_. []) demo_hash [0] 2 (demo_request [5, 6, 7, 8, 9, 10, 11]) = Some (Inr hs, r') \<and>
     rbind (BlockHashListWithBlockSize hs 2 4) view_iter =
     Inr [chain_hash (\<lambda>_. []) demo_hash [0] 2 (demo_request [5, 6, 7, 8, 9, 10, 11]) 1]"
proof -
  obtain hs r' where r: "request_block_hasher (\<lambda>_. []) demo_hash [0] 2 (demo_request [5, 6, 7, 8, 9, 10, 11]) = Some (Inr hs, r')"
    using hasher_extends[OF _ demo_hash_nonempty fresh_ready[OF demo_request_fresh],
        of 2 "\<lambda>_. []" "[0]" "[5, 6, 7, 8, 9, 10, 11]"] by auto
  from coarse_view_fingerprints[OF _ _ demo_hash_nonempty demo_request_fresh r, of 2]
  have "rbind (BlockHashListWithBlockSize hs 2 4) view_iter =
     Inr [chain_hash (\<lambda>_. []) demo_hash [0] 2 (demo_request [5, 6, 7, 8, 9, 10, 11]) 1]"
    by (simp add: demo_request_fields)
  with r show ?thesis by blast
qed

lemma lora_salt_collision_witness:
  "fst (generate_block_hash_extra_keys (\<lambda>_. [])
     ((two_images ''a'')\<lparr>mm_features := [], lora_name := Some ''x'', cache_salt := None\<rparr>) 0 4 0) =
   fst (generate_block_hash_extra_keys (\<lambda>_. [])
     ((two_images ''a'')\<lparr>mm_features := [], lora_name := None, cache_salt := Some ''x''\<rparr>) 0 4 0)"
  using lora_salt_collision[of "''x''" "(two_images ''a'')\<lparr>mm_features := []\<rparr>" "\<lambda>_. []" 4 0]
  by (simp add: two_images_def)

end
