(* ===== verification/Vocab_Shards.thy ===== *)
theory Vocab_Shards
  imports Runtime_Base "HOL-Library.Multiset"
begin

text \<open>
  The vocabulary-parallel embedding (\<^verbatim>\<open>vocab_parallel_embedding.py\<close>): padding of the vocabulary,
  the index ranges of a rank's shard, the masking of token ids, the weight loader, the forward pass
  over all ranks, and the mapping that puts gathered logits back in token order. The main results:
  every token has exactly one owner and the slots of a shard do not collide, the constructor raises
  nothing on sensible sizes, the mapping is a permutation that undoes the sharding, and loading the
  checkpoint into the shards and summing the masked lookups is the plain table lookup.
\<close>

section \<open>Sizes\<close>

definition DEFAULT_VOCAB_PADDING_SIZE :: int where
  "DEFAULT_VOCAB_PADDING_SIZE = 64"

definition pad_vocab_size :: "int \<Rightarrow> int \<Rightarrow> int res" where
  "pad_vocab_size vocab_size pad_to =
     (if pad_to = 0 then Inl ZeroDivisionError
      else Inr (((vocab_size + pad_to - 1) div pad_to) * pad_to))"

definition vocab_range_from_per_partition_vocab_size :: "int \<Rightarrow> int \<Rightarrow> int \<Rightarrow> int \<times> int" where
  "vocab_range_from_per_partition_vocab_size per_partition rank offset =
     (let index_f = rank * per_partition; index_l = index_f + per_partition
      in (index_f + offset, index_l + offset))"

text \<open>
  \<open>divide_exact\<close> is vLLM's exact division, a parameter: what the code relies on is that it raises
  \<open>AssertionError\<close> unless the division is exact.
\<close>

definition exact_division :: "(int \<Rightarrow> int \<Rightarrow> int res) \<Rightarrow> bool" where
  "exact_division divide_exact \<longleftrightarrow> (\<forall>a b. 0 < b \<longrightarrow>
     divide_exact a b = (if a mod b = 0 then Inr (a div b) else Inl AssertionError))"

definition vocab_range_from_global_vocab_size ::
    "(int \<Rightarrow> int \<Rightarrow> int res) \<Rightarrow> int \<Rightarrow> int \<Rightarrow> int \<Rightarrow> int \<Rightarrow> (int \<times> int) res" where
  "vocab_range_from_global_vocab_size divide_exact global_vocab_size rank world_size offset =
     rbind (divide_exact global_vocab_size world_size) (\<lambda>p.
       Inr (vocab_range_from_per_partition_vocab_size p rank offset))"

section \<open>A rank's shard\<close>

record VocabParallelEmbeddingShardIndices =
  padded_org_vocab_start_index :: int
  padded_org_vocab_end_index :: int
  padded_added_vocab_start_index :: int
  padded_added_vocab_end_index :: int
  org_vocab_start_index :: int
  org_vocab_end_index :: int
  added_vocab_start_index :: int
  added_vocab_end_index :: int

type_synonym shard = VocabParallelEmbeddingShardIndices

definition num_org_elements :: "shard \<Rightarrow> int" where
  "num_org_elements s = org_vocab_end_index s - org_vocab_start_index s"

definition num_added_elements :: "shard \<Rightarrow> int" where
  "num_added_elements s = added_vocab_end_index s - added_vocab_start_index s"

definition num_org_elements_padded :: "shard \<Rightarrow> int" where
  "num_org_elements_padded s = padded_org_vocab_end_index s - padded_org_vocab_start_index s"

definition num_added_elements_padded :: "shard \<Rightarrow> int" where
  "num_added_elements_padded s = padded_added_vocab_end_index s - padded_added_vocab_start_index s"

definition num_org_vocab_padding :: "shard \<Rightarrow> int" where
  "num_org_vocab_padding s = num_org_elements_padded s - num_org_elements s"

definition num_added_vocab_padding :: "shard \<Rightarrow> int" where
  "num_added_vocab_padding s = num_added_elements_padded s - num_added_elements s"

definition num_elements_padded :: "shard \<Rightarrow> int" where
  "num_elements_padded s = num_org_elements_padded s + num_added_elements_padded s"

text \<open>\<open>__post_init__\<close>: the sanity checks of the constructor.\<close>

definition post_init :: "shard \<Rightarrow> shard res" where
  "post_init s =
     rbind (rassert (padded_org_vocab_start_index s \<le> padded_org_vocab_end_index s)) (\<lambda>_.
     rbind (rassert (padded_added_vocab_start_index s \<le> padded_added_vocab_end_index s)) (\<lambda>_.
     rbind (rassert (org_vocab_start_index s \<le> org_vocab_end_index s)) (\<lambda>_.
     rbind (rassert (added_vocab_start_index s \<le> added_vocab_end_index s)) (\<lambda>_.
     rbind (rassert (org_vocab_start_index s \<le> padded_org_vocab_start_index s)) (\<lambda>_.
     rbind (rassert (added_vocab_start_index s \<le> padded_added_vocab_start_index s)) (\<lambda>_.
     rbind (rassert (org_vocab_end_index s \<le> padded_org_vocab_end_index s)) (\<lambda>_.
     rbind (rassert (added_vocab_end_index s \<le> padded_added_vocab_end_index s)) (\<lambda>_.
     rbind (rassert (num_org_elements s \<le> num_org_elements_padded s)) (\<lambda>_.
     rbind (rassert (num_added_elements s \<le> num_added_elements_padded s)) (\<lambda>_.
     Inr s))))))))))"

definition get_indices ::
    "(int \<Rightarrow> int \<Rightarrow> int res) \<Rightarrow> int \<Rightarrow> int \<Rightarrow> int \<Rightarrow> int \<Rightarrow> int \<Rightarrow> int \<Rightarrow> shard res" where
  "get_indices divide_exact vocab_size_padded org_vocab_size_padded vocab_size org_vocab_size tp_rank tp_size =
     (let num_added_embeddings_padded = vocab_size_padded - org_vocab_size_padded in
      rbind (vocab_range_from_global_vocab_size divide_exact org_vocab_size_padded tp_rank tp_size 0)
        (\<lambda>(padded_org_start, padded_org_end).
      rbind (vocab_range_from_global_vocab_size divide_exact num_added_embeddings_padded tp_rank tp_size
          org_vocab_size) (\<lambda>(padded_added_start, padded_added_end).
      post_init \<lparr>padded_org_vocab_start_index = padded_org_start,
        padded_org_vocab_end_index = padded_org_end,
        padded_added_vocab_start_index = padded_added_start,
        padded_added_vocab_end_index = padded_added_end,
        org_vocab_start_index = min padded_org_start org_vocab_size,
        org_vocab_end_index = min padded_org_end org_vocab_size,
        added_vocab_start_index = min padded_added_start vocab_size,
        added_vocab_end_index = min padded_added_end vocab_size\<rparr>)))"

text \<open>The masking of one token id: the index in the shard, and whether the id is not this rank's.\<close>

definition get_masked_input_and_mask ::
    "int \<Rightarrow> int \<Rightarrow> int \<Rightarrow> int \<Rightarrow> int \<Rightarrow> int \<Rightarrow> int \<times> bool" where
  "get_masked_input_and_mask input org_start org_end num_org_padding added_start added_end =
     (let org_vocab_mask = (org_start \<le> input \<and> input < org_end);
          added_vocab_mask = (added_start \<le> input \<and> input < added_end);
          added_offset = added_start - (org_end - org_start) - num_org_padding;
          valid_offset = org_start * of_bool org_vocab_mask + added_offset * of_bool added_vocab_mask;
          vocab_mask = (org_vocab_mask \<or> added_vocab_mask)
      in (of_bool vocab_mask * (input - valid_offset), \<not> vocab_mask))"

section \<open>The layer\<close>

record VocabParallelEmbedding =
  tp_rank :: int
  tp_size :: int
  num_embeddings :: int
  padding_size :: int
  org_vocab_size :: int
  org_vocab_size_padded :: int
  num_embeddings_padded :: int
  shard_indices :: shard
  num_added_embeddings :: int
  num_embeddings_per_partition :: int
  num_org_embeddings_per_partition :: int
  num_added_embeddings_per_partition :: int
  use_fused_embedding :: bool

text \<open>
  The constructor. \<open>world_rank\<close> and \<open>world_size\<close> are the tensor-parallel group's; \<open>is_embedding\<close> says
  that the layer is not a \<open>ParallelLMHead\<close>, \<open>implements_embedding\<close> and \<open>unquantized\<close> describe the
  quantization method chosen for it, \<open>is_cuda\<close> the platform. Creating the weight tensors is left to
  the quantization method.
\<close>

definition vpe_init ::
    "(int \<Rightarrow> int \<Rightarrow> int res) \<Rightarrow> int \<Rightarrow> int \<Rightarrow> bool \<Rightarrow> bool \<Rightarrow> bool \<Rightarrow> bool \<Rightarrow>
       int \<Rightarrow> int option \<Rightarrow> int \<Rightarrow> bool \<Rightarrow> VocabParallelEmbedding res" where
  "vpe_init divide_exact world_rank world_size is_cuda is_embedding implements_embedding unquantized
       num org_num padding disable_tp =
     (let (rank, tps) = (if disable_tp then (0, 1) else (world_rank, world_size));
          padding = (if tps > 1 \<and> padding mod tps \<noteq> 0
            then padding * tps div gcd padding tps else padding);
          org = (case org_num of None \<Rightarrow> num | Some n \<Rightarrow> if n = 0 then num else n);
          num_added = num - org in
      rbind (pad_vocab_size org padding) (\<lambda>org_padded.
      rbind (pad_vocab_size (org_padded + num_added) padding) (\<lambda>num_padded.
      rbind (rassert (org_padded \<le> num_padded)) (\<lambda>_.
      rbind (get_indices divide_exact num_padded org_padded num org rank tps) (\<lambda>s.
      rbind (if is_embedding \<and> \<not> implements_embedding then Inl NotImplementedError else Inr ()) (\<lambda>_.
      rbind (divide_exact num_padded tps) (\<lambda>per_partition.
      rbind (rassert (num_elements_padded s = per_partition)) (\<lambda>_.
        Inr \<lparr>tp_rank = rank, tp_size = tps, num_embeddings = num, padding_size = padding,
          org_vocab_size = org, org_vocab_size_padded = org_padded,
          num_embeddings_padded = num_padded, shard_indices = s,
          num_added_embeddings = num - org, num_embeddings_per_partition = per_partition,
          num_org_embeddings_per_partition = org_vocab_end_index s - org_vocab_start_index s,
          num_added_embeddings_per_partition = added_vocab_end_index s - added_vocab_start_index s,
          use_fused_embedding = (tps > 1 \<and> is_cuda \<and> unquantized)\<rparr>))))))))"

text \<open>\<open>range(a, b)\<close>.\<close>

definition py_range :: "int \<Rightarrow> int \<Rightarrow> int list" where
  "py_range a b = [a..b - 1]"

text \<open>The loop over the ranks, from rank \<open>r\<close> with \<open>n\<close> ranks to go.\<close>

fun mapping_loop ::
    "(int \<Rightarrow> int \<Rightarrow> int res) \<Rightarrow> VocabParallelEmbedding \<Rightarrow> nat \<Rightarrow> int \<Rightarrow>
       int list \<Rightarrow> int list \<Rightarrow> int list \<Rightarrow> (int list \<times> int list \<times> int list) res" where
  "mapping_loop divide_exact v 0 r base added padding = Inr (base, added, padding)"
| "mapping_loop divide_exact v (Suc n) r base added padding =
     rbind (get_indices divide_exact (num_embeddings_padded v) (org_vocab_size_padded v) (num_embeddings v)
         (org_vocab_size v) r (tp_size v)) (\<lambda>s.
       let range_start = num_embeddings_per_partition v * r;
           range_end = num_embeddings_per_partition v * (r + 1);
           org_end = range_start + num_org_elements s;
           org_pad_end = range_start + num_org_elements_padded s;
           added_end = org_pad_end + num_added_elements s;
           added_pad_end = org_pad_end + num_added_elements_padded s in
       rbind (rassert (added_pad_end = range_end)) (\<lambda>_.
         mapping_loop divide_exact v n (r + 1)
           (base @ py_range range_start org_end)
           (added @ py_range org_pad_end added_end)
           (padding @ py_range org_end org_pad_end @ py_range added_end added_pad_end)))"

definition get_sharded_to_full_mapping ::
    "(int \<Rightarrow> int \<Rightarrow> int res) \<Rightarrow> VocabParallelEmbedding \<Rightarrow> int list option res" where
  "get_sharded_to_full_mapping divide_exact v =
     (if tp_size v < 2 then Inr None
      else rbind (mapping_loop divide_exact v (nat (tp_size v)) 0 [] [] []) (\<lambda>(base, added, padding).
        let ret = base @ added @ padding in
        rbind (rassert (int (length ret) = num_embeddings_padded v)) (\<lambda>_. Inr (Some ret))))"

section \<open>The weights and the forward pass\<close>

text \<open>
  A tensor is its shape and its rows along dimension 0, the dimension the layer's parameters are
  sharded on. \<open>tensor_narrow\<close> and \<open>tensor_copy_head\<close> are \<open>loaded.narrow(0, start, n)\<close> and
  \<open>param[:n].copy_(rows)\<close>, which broadcasts a single row over no rows.
\<close>

record 'r tensor =
  dims :: "int list"
  tensor_rows :: "'r list"

definition tensor_narrow :: "'r list \<Rightarrow> int \<Rightarrow> int \<Rightarrow> 'r list res" where
  "tensor_narrow rows start n =
     (if 0 \<le> start \<and> 0 \<le> n \<and> start + n \<le> int (length rows)
      then Inr (take (nat n) (drop (nat start) rows)) else Inl RuntimeError)"

definition tensor_copy_head :: "'r list \<Rightarrow> 'r list \<Rightarrow> 'r list res" where
  "tensor_copy_head param rows =
     (if length rows \<le> length param \<or> length rows = 1
      then Inr (take (length param) rows @ drop (length rows) param) else Inl RuntimeError)"

definition weight_loader ::
    "VocabParallelEmbedding \<Rightarrow> nat option \<Rightarrow> nat option \<Rightarrow> int \<Rightarrow>
       'r::zero tensor \<Rightarrow> 'r tensor \<Rightarrow> 'r tensor res" where
  "weight_loader v output_dim packed_dim packed_factor param loaded =
     (case output_dim of
        None \<Rightarrow>
          let shape = (if dims loaded = [] \<and> length (dims param) = 1 \<and> prod_list (dims param) = 1
            then [1] else dims loaded) in
          rbind (rassert (dims param = shape)) (\<lambda>_. Inr (param\<lparr>tensor_rows := tensor_rows loaded\<rparr>))
      | Some d \<Rightarrow>
          let start_idx = org_vocab_start_index (shard_indices v);
              shard_size = org_vocab_end_index (shard_indices v) - start_idx;
              n = int (length (tensor_rows loaded)) in
          rbind (if packed_dim \<noteq> None \<and> packed_dim = output_dim then
              if packed_factor = 0 then Inl ZeroDivisionError
              else rbind (rassert (n = org_vocab_size v div packed_factor)) (\<lambda>_.
                Inr (start_idx div packed_factor, shard_size div packed_factor))
            else rbind (rassert (n = org_vocab_size v)) (\<lambda>_. Inr (start_idx, shard_size)))
          (\<lambda>(start_idx, shard_size).
          rbind (tensor_narrow (tensor_rows loaded) start_idx shard_size) (\<lambda>chunk.
          rbind (tensor_copy_head (tensor_rows param) chunk) (\<lambda>rows.
            Inr (param\<lparr>tensor_rows := take (length chunk) rows @
              map (\<lambda>_. 0) (drop (length chunk) rows)\<rparr>)))))"

text \<open>\<open>UnquantizedEmbeddingMethod.embedding\<close>: the row of one id.\<close>

definition embedding :: "'r list \<Rightarrow> int \<Rightarrow> 'r res" where
  "embedding weight i =
     (if 0 \<le> i \<and> i < int (length weight) then Inr (weight ! nat i) else Inl IndexError)"

definition shard_mask :: "shard \<Rightarrow> int \<Rightarrow> int \<times> bool" where
  "shard_mask s input =
     get_masked_input_and_mask input (org_vocab_start_index s) (org_vocab_end_index s)
       (num_org_vocab_padding s) (added_vocab_start_index s) (added_vocab_end_index s)"

text \<open>
  \<open>forward\<close> for one token id, over the group: \<open>vs\<close> and \<open>ws\<close> are the layers and weights by rank,
  \<open>me\<close> the rank it runs on. The fused kernel, the all-reduce (on rows and on their bytes) and the
  reinterpretation of an FP8 row as bytes are parameters.
\<close>

definition vpe_forward ::
    "('r::zero list \<Rightarrow> int \<Rightarrow> int \<Rightarrow> int \<Rightarrow> int \<Rightarrow> int \<Rightarrow> int \<Rightarrow> 'r res) \<Rightarrow> ('r list \<Rightarrow> 'r) \<Rightarrow>
       ('b::zero list \<Rightarrow> 'b) \<Rightarrow> bool \<Rightarrow> ('r \<Rightarrow> 'b) \<Rightarrow> ('b \<Rightarrow> 'r) \<Rightarrow>
       VocabParallelEmbedding list \<Rightarrow> 'r list list \<Rightarrow> nat \<Rightarrow> int \<Rightarrow> 'r res" where
  "vpe_forward fused all_reduce all_reduce8 fp8 to8 from8 vs ws me input =
     (if tp_size (vs ! me) = 1 then embedding (ws ! me) input
      else if use_fused_embedding (vs ! me) then
        rbind (rmap (\<lambda>(v, w). let s = shard_indices v in
            fused w input (org_vocab_start_index s) (org_vocab_end_index s) (num_org_vocab_padding s)
              (added_vocab_start_index s) (added_vocab_end_index s)) (zip vs ws)) (\<lambda>rows.
          Inr (all_reduce rows))
      else
        rbind (rmap (\<lambda>(v, w). let (i, mask) = shard_mask (shard_indices v) input in
            rbind (embedding w i) (\<lambda>row. Inr (row, mask))) (zip vs ws)) (\<lambda>parts.
          if fp8 then Inr (from8 (all_reduce8 (map (\<lambda>(row, mask). if mask then 0 else to8 row) parts)))
          else Inr (all_reduce (map (\<lambda>(row, mask). if mask then 0 else row) parts))))"

section \<open>The layout of the shards\<close>

text \<open>Rank \<open>r\<close>'s shard when a rank holds \<open>P\<close> base slots and \<open>A\<close> added slots.\<close>

definition shard_at :: "int \<Rightarrow> int \<Rightarrow> int \<Rightarrow> int \<Rightarrow> int \<Rightarrow> shard" where
  "shard_at P A org V r = \<lparr>padded_org_vocab_start_index = r * P,
     padded_org_vocab_end_index = r * P + P,
     padded_added_vocab_start_index = r * A + org,
     padded_added_vocab_end_index = r * A + A + org,
     org_vocab_start_index = min (r * P) org,
     org_vocab_end_index = min (r * P + P) org,
     added_vocab_start_index = min (r * A + org) V,
     added_vocab_end_index = min (r * A + A + org) V\<rparr>"

text \<open>The sizes a layer ends up with: \<open>tp\<close> ranks, enough slots for the base and the added ids.\<close>

definition layout_ok :: "int \<Rightarrow> int \<Rightarrow> int \<Rightarrow> int \<Rightarrow> int \<Rightarrow> bool" where
  "layout_ok tp P A org V \<longleftrightarrow>
     0 < tp \<and> 0 \<le> P \<and> 0 \<le> A \<and> 0 \<le> org \<and> org \<le> V \<and> org \<le> tp * P \<and> V - org \<le> tp * A"

lemma layout_okD:
  assumes "layout_ok tp P A org V"
  shows "0 < tp" "0 \<le> P" "0 \<le> A" "0 \<le> org" "org \<le> V" "org \<le> tp * P" "V - org \<le> tp * A"
  using assms by (auto simp: layout_ok_def)

lemma get_indices_eq:
  assumes d: "exact_division divide_exact" and ok: "layout_ok tp P A org V"
  shows "get_indices divide_exact (tp * P + tp * A) (tp * P) V org r tp = Inr (shard_at P A org V r)"
proof -
  have "divide_exact (tp * P) tp = Inr P" "divide_exact (tp * A) tp = Inr A"
    using d ok by (simp_all add: exact_division_def layout_ok_def)
  then show ?thesis using ok
    by (simp add: get_indices_def vocab_range_from_global_vocab_size_def Let_def
        vocab_range_from_per_partition_vocab_size_def post_init_def shard_at_def layout_ok_def
        num_org_elements_def num_added_elements_def num_org_elements_padded_def
        num_added_elements_padded_def min_def)
qed

lemma clip_interval:
  assumes "0 \<le> (u::int)" and "u < n" and "0 < P"
  shows "min (r * P) n \<le> u \<and> u < min (r * P + P) n \<longleftrightarrow> r = u div P"
proof -
  have "min (r * P) n \<le> u \<longleftrightarrow> r \<le> u div P"
    using assms le_div_iff_int[OF assms(3), of r u] by (auto simp: min_def)
  moreover have "u < min (r * P + P) n \<longleftrightarrow> \<not> r + 1 \<le> u div P"
    using assms le_div_iff_int[OF assms(3), of "r + 1" u] by (auto simp: algebra_simps)
  ultimately show ?thesis by linarith
qed

text \<open>The rank that owns an id, and the id's slot in that rank's shard.\<close>

definition owner :: "int \<Rightarrow> int \<Rightarrow> int \<Rightarrow> int \<Rightarrow> int" where
  "owner P A org t = (if t < org then t div P else (t - org) div A)"

definition slot :: "int \<Rightarrow> int \<Rightarrow> int \<Rightarrow> int \<Rightarrow> int" where
  "slot P A org t = (if t < org then t mod P else P + (t - org) mod A)"

lemma base_slots_pos:
  assumes "layout_ok tp P A org V" and "0 \<le> t" and "t < org"
  shows "0 < P"
proof -
  have "0 < tp * P" using layout_okD(6)[OF assms(1)] assms(2,3) by linarith
  then show ?thesis using layout_okD(1)[OF assms(1)] by (simp add: zero_less_mult_iff)
qed

lemma added_slots_pos:
  assumes "layout_ok tp P A org V" and "org \<le> t" and "t < V"
  shows "0 < A"
proof -
  have "0 < tp * A" using layout_okD(7)[OF assms(1)] assms(2,3) by linarith
  then show ?thesis using layout_okD(1)[OF assms(1)] by (simp add: zero_less_mult_iff)
qed

text \<open>The mask with the two starting offsets of a rank's padded ranges as \<open>p\<close> and \<open>a\<close>.\<close>

lemma shard_mask_offsets:
  assumes "p = r * P" and "a = r * A"
  shows "shard_mask (shard_at P A org V r) t =
    (let base = min p org \<le> t \<and> t < min (p + P) org;
         added = min (a + org) V \<le> t \<and> t < min (a + A + org) V
     in (of_bool (base \<or> added) * (t - (min p org * of_bool base + (min (a + org) V - P) * of_bool added)),
         \<not> (base \<or> added)))"
  unfolding shard_mask_def get_masked_input_and_mask_def shard_at_def Let_def assms[symmetric]
    num_org_vocab_padding_def num_org_elements_padded_def num_org_elements_def
  by (simp add: algebra_simps)

lemma shard_mask_at:
  assumes ok: "layout_ok tp P A org V" and r: "0 \<le> r" and t: "0 \<le> t" "t < V"
  shows "shard_mask (shard_at P A org V r) t =
           (if r = owner P A org t then (slot P A org t, False) else (0, True))"
proof -
  define p a where "p = r * P" and "a = r * A"
  note l = layout_okD(3-5)[OF ok]
  have a0: "0 \<le> a" using r l by (simp add: a_def)
  note mask = shard_mask_offsets[OF p_def a_def, of org V t]
  show ?thesis
  proof (cases "t < org")
    case True
    have "\<not> min (a + org) V \<le> t" using a0 True l by simp
    moreover have "min p org \<le> t \<and> t < min (p + P) org \<longleftrightarrow> r = t div P"
      unfolding p_def by (rule clip_interval[OF t(1) True base_slots_pos[OF ok t(1) True]])
    moreover have "t - min p org = t mod P" if "min p org \<le> t" "r = t div P"
      using that True by (simp add: p_def min_def minus_div_mult_eq_mod split: if_splits)
    ultimately show ?thesis
      unfolding mask owner_def slot_def using True by (cases "r = t div P") (simp_all add: Let_def)
  next
    case False
    have A: "0 < A" using False t by (intro added_slots_pos[OF ok]) auto
    have "min a (V - org) \<le> t - org \<and> t - org < min (a + A) (V - org) \<longleftrightarrow> r = (t - org) div A"
      unfolding a_def using clip_interval[of "t - org" "V - org" A r] A False t by simp
    then have added: "min (a + org) V \<le> t \<and> t < min (a + A + org) V \<longleftrightarrow> r = (t - org) div A"
      by linarith
    have base: "\<not> t < min (p + P) org" using False by simp
    have "t - (min (a + org) V - P) = P + (t - org) mod A" if "min (a + org) V \<le> t" "r = (t - org) div A"
    proof -
      have "min (a + org) V = a + org" using that(1) t by linarith
      moreover have "t - org - a = (t - org) mod A"
        unfolding a_def that(2) by (rule minus_div_mult_eq_mod)
      ultimately show ?thesis by linarith
    qed
    with added base show ?thesis
      unfolding mask owner_def slot_def using False
      by (cases "r = (t - org) div A") (simp_all add: Let_def)
  qed
qed

lemma shard_mask_outside:
  assumes ok: "layout_ok tp P A org V" and r: "0 \<le> r" and t: "t < 0 \<or> V \<le> t"
  shows "shard_mask (shard_at P A org V r) t = (0, True)"
proof -
  define p a where "p = r * P" and "a = r * A"
  note l = layout_okD(2-5)[OF ok]
  have "0 \<le> a" "0 \<le> p" using r l by (simp_all add: a_def p_def)
  then have "(min p org \<le> t \<and> t < min (p + P) org) = False"
    and "(min (a + org) V \<le> t \<and> t < min (a + A + org) V) = False"
    using l t by (simp_all only: eq_False de_Morgan_conj not_le not_less, linarith+)
  then show ?thesis
    unfolding shard_mask_offsets[OF p_def a_def, of org V t] Let_def by (simp only:) simp
qed

lemma div_range:
  assumes "0 \<le> (u::int)" and "u < tp * x" and "0 < x"
  shows "0 \<le> u div x \<and> u div x < tp"
proof -
  have "\<not> tp \<le> u div x" using le_div_iff_int[OF assms(3), of tp u] assms(2) by simp
  then show ?thesis using assms by (simp add: pos_imp_zdiv_nonneg_iff)
qed

lemma owner_slot_range:
  assumes ok: "layout_ok tp P A org V" and t: "0 \<le> t" "t < V"
  shows "0 \<le> owner P A org t \<and> owner P A org t < tp \<and> 0 \<le> slot P A org t \<and> slot P A org t < P + A"
proof (cases "t < org")
  case True
  have P: "0 < P" by (rule base_slots_pos[OF ok t(1) True])
  have "t < tp * P" using layout_okD(6)[OF ok] True by simp
  moreover have "t mod P < P + A" using P layout_okD(3)[OF ok] pos_mod_bound[OF P, of t] by linarith
  ultimately show ?thesis using div_range[OF t(1) _ P] P True
    by (simp add: owner_def slot_def)
next
  case False
  have A: "0 < A" using False t by (intro added_slots_pos[OF ok]) auto
  have "t - org < tp * A" using layout_okD(7)[OF ok] t by simp
  then show ?thesis using div_range[of "t - org" tp A] A layout_okD(2)[OF ok] False
    by (simp add: owner_def slot_def)
qed

lemma owner_slot_inj:
  assumes ok: "layout_ok tp P A org V" and t: "0 \<le> t" "t < V" and u: "0 \<le> u" "u < V"
    and "owner P A org t = owner P A org u" and "slot P A org t = slot P A org u"
  shows "t = u"
proof -
  have base: "slot P A org x < P" if "0 \<le> x" "x < org" for x
    using base_slots_pos[OF ok that] that by (simp add: slot_def)
  have added: "P \<le> slot P A org x" if "org \<le> x" "x < V" for x
    using added_slots_pos[OF ok that] that by (simp add: slot_def)
  consider "t < org" "u < org" | "\<not> t < org" "\<not> u < org"
    using base[of t] base[of u] added[of t] added[of u] assms(7) t u by fastforce
  then show ?thesis
  proof cases
    case 1
    then have "t div P = u div P" "t mod P = u mod P" using assms(6,7) by (auto simp: owner_def slot_def)
    then show ?thesis by (metis div_mult_mod_eq)
  next
    case 2
    then have "(t - org) div A = (u - org) div A" "(t - org) mod A = (u - org) mod A"
      using assms(6,7) by (auto simp: owner_def slot_def)
    then have "t - org = u - org" by (metis div_mult_mod_eq)
    then show ?thesis by simp
  qed
qed

section \<open>The constructor\<close>

text \<open>The layer agrees with a layout of \<open>P\<close> base and \<open>A\<close> added slots per rank.\<close>

definition vpe_layout :: "VocabParallelEmbedding \<Rightarrow> int \<Rightarrow> int \<Rightarrow> bool" where
  "vpe_layout v P A \<longleftrightarrow>
     layout_ok (tp_size v) P A (org_vocab_size v) (num_embeddings v) \<and>
     0 \<le> tp_rank v \<and> tp_rank v < tp_size v \<and>
     org_vocab_size_padded v = tp_size v * P \<and>
     num_embeddings_padded v = tp_size v * P + tp_size v * A \<and>
     num_embeddings_per_partition v = P + A \<and>
     shard_indices v = shard_at P A (org_vocab_size v) (num_embeddings v) (tp_rank v)"

lemma pad_vocab_size_eq: "0 < p \<Longrightarrow> pad_vocab_size n p = Inr (cdiv n p * p)"
proof -
  assume p: "0 < p"
  have "(n + p - 1) div p = cdiv n p"
  proof (rule antisym)
    have "n + p - 1 < (cdiv n p + 1) * p"
      using cdiv_bounds(1)[OF p, of n] by (simp add: algebra_simps)
    then show "(n + p - 1) div p \<le> cdiv n p"
      using le_div_iff_int[OF p, of "cdiv n p + 1" "n + p - 1"] by linarith
    show "cdiv n p \<le> (n + p - 1) div p"
      using le_div_iff_int[OF p, of "cdiv n p" "n + p - 1"] cdiv_bounds(2)[OF p, of n] by linarith
  qed
  then show ?thesis using p by (simp add: pad_vocab_size_def)
qed

lemma cdiv_add_multiple: "0 < b \<Longrightarrow> cdiv (k * b + a) b = k + cdiv a b"
proof -
  assume b: "0 < b"
  have "- (k * b + a) = - a + - k * b" by simp
  then have "(- (k * b + a)) div b = - k + (- a) div b" using b by (simp only: div_mult_self1)
  then show ?thesis by (simp add: cdiv_def)
qed

definition padding_for :: "int \<Rightarrow> int \<Rightarrow> int" where
  "padding_for padding tps =
     (if tps > 1 \<and> padding mod tps \<noteq> 0 then padding * tps div gcd padding tps else padding)"

lemma padding_for:
  assumes "0 < padding" and "1 \<le> tps"
  shows "0 < padding_for padding tps" "tps dvd padding_for padding tps" "padding dvd padding_for padding tps"
proof -
  have l: "padding * tps div gcd padding tps = lcm padding tps"
    using assms by (simp add: lcm_altdef_int)
  have "0 < lcm padding tps" using assms by (simp add: lcm_pos_int)
  then show "0 < padding_for padding tps" "tps dvd padding_for padding tps"
    "padding dvd padding_for padding tps"
    using assms unfolding padding_for_def l by (auto simp: mod_eq_0_iff_dvd)
qed

lemma vpe_init_layout:
  assumes d: "exact_division divide_exact" and r: "0 \<le> rank" "rank < tps" and pad: "0 < padding"
    and org: "org = (case org_num of None \<Rightarrow> num | Some n \<Rightarrow> if n = 0 then num else n)"
      "0 \<le> org" "org \<le> num"
    and emb: "is_embedding \<Longrightarrow> implements_embedding" and tp: "dtp \<Longrightarrow> rank = 0 \<and> tps = 1"
      "\<not> dtp \<Longrightarrow> world_rank = rank \<and> world_size = tps"
  shows "\<exists>v P A. vpe_init divide_exact world_rank world_size is_cuda is_embedding implements_embedding
      unquantized num org_num padding dtp = Inr v \<and> vpe_layout v P A \<and>
      tp_rank v = rank \<and> tp_size v = tps \<and> num_embeddings v = num \<and> org_vocab_size v = org \<and>
      padding dvd num_embeddings_padded v \<and> use_fused_embedding v = (tps > 1 \<and> is_cuda \<and> unquantized)"
proof -
  let ?pad = "padding_for padding tps"
  have tps: "1 \<le> tps" using r by simp
  note p = padding_for[OF pad tps]
  define k where "k = ?pad div tps"
  have k: "?pad = tps * k" "0 < k"
    using p tps by (auto simp: k_def pos_imp_zdiv_pos_iff zdvd_imp_le)
  define P A where "P = cdiv org ?pad * k" and "A = cdiv (num - org) ?pad * k"
  have orgp: "cdiv org ?pad * ?pad = tps * P" by (simp add: P_def k(1))
  have nump: "cdiv (tps * P + (num - org)) ?pad * ?pad = tps * P + tps * A"
    unfolding orgp[symmetric] cdiv_add_multiple[OF p(1)] by (simp add: A_def k(1) algebra_simps)
  have ok: "layout_ok tps P A org num"
    using org tps k(2) cdiv_bounds(1)[OF p(1), of org] cdiv_bounds(1)[OF p(1), of "num - org"]
      cdiv_nonneg[OF p(1), of org] cdiv_nonneg[OF p(1), of "num - org"]
    by (auto simp: layout_ok_def orgp) (auto simp: P_def A_def k(1) algebra_simps)
  have "tps * P + tps * A = tps * (P + A)" by (simp add: algebra_simps)
  then have div: "divide_exact (tps * P + tps * A) tps = Inr (P + A)"
    using d tps by (simp add: exact_division_def)
  have dv: "padding dvd tps * P + tps * A"
    using p(3) unfolding nump[symmetric] by simp
  have A0: "0 \<le> tps * A" using layout_okD[OF ok] by simp
  have pad_eq: "(if tps > 1 \<and> padding mod tps \<noteq> 0 then padding * tps div gcd padding tps else padding) = ?pad"
    by (simp add: padding_for_def)
  have rs: "(if dtp then (0, 1) else (world_rank, world_size)) = (rank, tps)" using tp by auto
  show ?thesis
    unfolding vpe_init_def rs Let_def prod.case pad_eq org(1)[symmetric] pad_vocab_size_eq[OF p(1)]
      rbind_simps orgp nump get_indices_eq[OF d ok] div
    using A0 ok r emb dv by (auto simp: vpe_layout_def num_elements_padded_def shard_at_def
        num_org_elements_padded_def num_added_elements_padded_def intro!: exI[of _ P] exI[of _ A])
qed

section \<open>The mapping of gathered logits\<close>

lemma py_range_split: "a \<le> b \<Longrightarrow> b \<le> c \<Longrightarrow> py_range a c = py_range a b @ py_range b c"
proof -
  assume "a \<le> b" "b \<le> c"
  then show ?thesis
    by (cases "b = c") (simp_all add: py_range_def upto_split1)
qed

lemma py_range_shift: "py_range (s + a) (s + b) = map ((+) s) (py_range a b)"
proof (rule nth_equalityI)
  show "length (py_range (s + a) (s + b)) = length (map ((+) s) (py_range a b))"
    by (simp add: py_range_def)
  fix i assume "i < length (py_range (s + a) (s + b))"
  then show "py_range (s + a) (s + b) ! i = map ((+) s) (py_range a b) ! i"
    by (simp add: py_range_def nth_upto)
qed

lemma py_range_self [simp]: "py_range a a = []"
  by (simp add: py_range_def)

lemma set_py_range [simp]: "set (py_range a b) = {a..<b}"
  by (auto simp: py_range_def)

lemma length_py_range [simp]: "length (py_range a b) = nat (b - a)"
  by (simp add: py_range_def)

lemma distinct_py_range [simp]: "distinct (py_range a b)"
  by (simp add: py_range_def)

text \<open>Where an id's logit stands in the gathered tensor.\<close>

definition gathered_index :: "int \<Rightarrow> int \<Rightarrow> int \<Rightarrow> int \<Rightarrow> int" where
  "gathered_index P A org t = (P + A) * owner P A org t + slot P A org t"

lemma base_range:
  assumes ok: "layout_ok tp P A org V" and r: "0 \<le> r"
  shows "py_range ((P + A) * r) ((P + A) * r + num_org_elements (shard_at P A org V r)) =
    map (gathered_index P A org) (py_range (min (r * P) org) (min (r * P + P) org))"
proof -
  let ?lo = "min (r * P) org" and ?hi = "min (r * P + P) org"
  have "py_range ((P + A) * r) ((P + A) * r + (?hi - ?lo)) =
      map ((+) ((P + A) * r - ?lo)) (py_range ?lo ?hi)"
    using py_range_shift[of "(P + A) * r - ?lo" ?lo ?hi] by (simp add: algebra_simps)
  also have "\<dots> = map (gathered_index P A org) (py_range ?lo ?hi)"
  proof (rule map_cong[OF refl])
    fix t assume "t \<in> set (py_range ?lo ?hi)"
    then have t: "?lo \<le> t" "t < ?hi" by auto
    have "0 \<le> r * P" using r layout_okD[OF ok] by simp
    then have t0: "0 \<le> t" and to: "t < org" using t layout_okD[OF ok] by auto
    have "r = t div P" using clip_interval[OF t0 to base_slots_pos[OF ok t0 to], of r] t by blast
    moreover have "?lo = r * P" using t to by (simp add: min_def split: if_splits)
    ultimately show "(P + A) * r - ?lo + t = gathered_index P A org t"
      using to by (simp add: gathered_index_def owner_def slot_def minus_div_mult_eq_mod[symmetric])
  qed
  finally show ?thesis by (simp add: num_org_elements_def shard_at_def)
qed

lemma added_range:
  assumes ok: "layout_ok tp P A org V" and r: "0 \<le> r"
  shows "py_range ((P + A) * r + P) ((P + A) * r + P + num_added_elements (shard_at P A org V r)) =
    map (gathered_index P A org) (py_range (min (r * A + org) V) (min (r * A + A + org) V))"
proof -
  let ?lo = "min (r * A + org) V" and ?hi = "min (r * A + A + org) V"
  have "py_range ((P + A) * r + P) ((P + A) * r + P + (?hi - ?lo)) =
      map ((+) ((P + A) * r + P - ?lo)) (py_range ?lo ?hi)"
    using py_range_shift[of "(P + A) * r + P - ?lo" ?lo ?hi] by (simp add: algebra_simps)
  also have "\<dots> = map (gathered_index P A org) (py_range ?lo ?hi)"
  proof (rule map_cong[OF refl])
    fix t assume "t \<in> set (py_range ?lo ?hi)"
    then have t: "?lo \<le> t" "t < ?hi" by auto
    have "0 \<le> r * A" using r layout_okD[OF ok] by simp
    then have to: "org \<le> t" and tV: "t < V" using t layout_okD[OF ok] by auto
    have "r = (t - org) div A"
      using clip_interval[of "t - org" "V - org" A r] added_slots_pos[OF ok to tV] to tV t by linarith
    moreover have "?lo = r * A + org" using t tV by linarith
    ultimately show "(P + A) * r + P - ?lo + t = gathered_index P A org t"
      using to minus_div_mult_eq_mod[of "t - org" A]
      by (simp add: gathered_index_def owner_def slot_def)
  qed
  finally show ?thesis by (simp add: num_added_elements_def shard_at_def)
qed

lemma num_elements_at:
  assumes "layout_ok tp P A org V"
  shows "num_org_elements_padded (shard_at P A org V r) = P"
    "num_added_elements_padded (shard_at P A org V r) = A"
    "0 \<le> num_org_elements (shard_at P A org V r)" "num_org_elements (shard_at P A org V r) \<le> P"
    "0 \<le> num_added_elements (shard_at P A org V r)" "num_added_elements (shard_at P A org V r) \<le> A"
proof -
  define p a where "p = r * P" and "a = r * A"
  show "num_org_elements_padded (shard_at P A org V r) = P"
    "num_added_elements_padded (shard_at P A org V r) = A"
    by (simp_all add: shard_at_def num_org_elements_padded_def num_added_elements_padded_def)
  show "0 \<le> num_org_elements (shard_at P A org V r)" "num_org_elements (shard_at P A org V r) \<le> P"
    "0 \<le> num_added_elements (shard_at P A org V r)" "num_added_elements (shard_at P A org V r) \<le> A"
    unfolding num_org_elements_def num_added_elements_def shard_at_def
    using layout_okD(2,3)[OF assms] by simp_all
qed

lemma mapping_loop_eq:
  assumes d: "exact_division divide_exact" and v: "vpe_layout v P A" and r: "0 \<le> r"
  defines "org \<equiv> org_vocab_size v" and "V \<equiv> num_embeddings v"
  shows "\<exists>pad. mapping_loop divide_exact v n r base added padding =
      Inr (base @ map (gathered_index P A org) (py_range (min (r * P) org) (min ((r + int n) * P) org)),
           added @ map (gathered_index P A org)
             (py_range (min (r * A + org) V) (min ((r + int n) * A + org) V)),
           padding @ pad) \<and>
      mset (map (gathered_index P A org) (py_range (min (r * P) org) (min ((r + int n) * P) org))) +
      mset (map (gathered_index P A org)
             (py_range (min (r * A + org) V) (min ((r + int n) * A + org) V))) +
      mset pad = mset (py_range ((P + A) * r) ((P + A) * (r + int n)))"
  using r
proof (induction n arbitrary: r base added padding)
  case 0
  then show ?case by simp
next
  case (Suc n)
  let ?s = "shard_at P A org V r" and ?S = "(P + A) * r" and ?f = "gathered_index P A org"
  have ok: "layout_ok (tp_size v) P A org V" using v by (simp add: vpe_layout_def org_def V_def)
  note l = layout_okD[OF ok]
  note ne = num_elements_at[OF ok, of r]
  let ?p1 = "py_range (?S + num_org_elements ?s) (?S + P)"
  let ?p2 = "py_range (?S + P + num_added_elements ?s) (?S + P + A)"
  have get: "get_indices divide_exact (num_embeddings_padded v) (org_vocab_size_padded v) V org r (tp_size v) = Inr ?s"
    using get_indices_eq[OF d ok] v by (simp add: vpe_layout_def)
  have per: "num_embeddings_per_partition v = P + A" using v by (simp add: vpe_layout_def)
  have step: "mapping_loop divide_exact v (Suc n) r base added padding =
      mapping_loop divide_exact v n (r + 1)
        (base @ map ?f (py_range (min (r * P) org) (min (r * P + P) org)))
        (added @ map ?f (py_range (min (r * A + org) V) (min (r * A + A + org) V)))
        (padding @ ?p1 @ ?p2)"
    unfolding mapping_loop.simps get[unfolded org_def V_def] rbind_simps Let_def per ne(1,2)[unfolded org_def V_def]
      base_range[OF ok Suc.prems, symmetric] added_range[OF ok Suc.prems, symmetric]
    by (simp add: algebra_simps org_def V_def)
  obtain pad where pad: "mapping_loop divide_exact v n (r + 1)
        (base @ map ?f (py_range (min (r * P) org) (min (r * P + P) org)))
        (added @ map ?f (py_range (min (r * A + org) V) (min (r * A + A + org) V)))
        (padding @ ?p1 @ ?p2) =
      Inr ((base @ map ?f (py_range (min (r * P) org) (min (r * P + P) org))) @
             map ?f (py_range (min ((r + 1) * P) org) (min ((r + 1 + int n) * P) org)),
           (added @ map ?f (py_range (min (r * A + org) V) (min (r * A + A + org) V))) @
             map ?f (py_range (min ((r + 1) * A + org) V) (min ((r + 1 + int n) * A + org) V)),
           (padding @ ?p1 @ ?p2) @ pad)"
    and ms: "mset (map ?f (py_range (min ((r + 1) * P) org) (min ((r + 1 + int n) * P) org))) +
      mset (map ?f (py_range (min ((r + 1) * A + org) V) (min ((r + 1 + int n) * A + org) V))) +
      mset pad = mset (py_range ((P + A) * (r + 1)) ((P + A) * (r + 1 + int n)))"
    using Suc.IH[of "r + 1"] Suc.prems by fastforce
  have e: "(r + 1) * x = r * x + x" "r + int (Suc n) = r + 1 + int n" for x :: int
    by (simp_all add: algebra_simps)
  have m1: "r * x \<le> r * x + x" "r * x + x \<le> (r + 1 + int n) * x" if "0 \<le> x" for x
    using that Suc.prems by (simp_all add: algebra_simps)
  have joinP: "py_range (min (r * P) org) (min ((r + 1 + int n) * P) org) =
      py_range (min (r * P) org) (min (r * P + P) org) @
      py_range (min (r * P + P) org) (min ((r + 1 + int n) * P) org)"
    using m1[OF l(2)] by (intro py_range_split min.mono) auto
  have joinA: "py_range (min (r * A + org) V) (min ((r + 1 + int n) * A + org) V) =
      py_range (min (r * A + org) V) (min (r * A + A + org) V) @
      py_range (min (r * A + A + org) V) (min ((r + 1 + int n) * A + org) V)"
    using m1[OF l(3)] by (intro py_range_split min.mono) auto
  have whole: "py_range ?S ((P + A) * (r + 1 + int n)) =
      (map ?f (py_range (min (r * P) org) (min (r * P + P) org)) @ ?p1) @
      (map ?f (py_range (min (r * A + org) V) (min (r * A + A + org) V)) @ ?p2) @
      py_range (?S + P + A) ((P + A) * (r + 1 + int n))"
    unfolding base_range[OF ok Suc.prems, symmetric] added_range[OF ok Suc.prems, symmetric]
    using ne(3-6) l(2,3) m1(2)[of "P + A"]
    by (simp add: py_range_split[symmetric] mult.commute)
  show ?case
    unfolding step pad e joinP joinA whole
    using ms by (auto simp: e algebra_simps intro!: exI[of _ "?p1 @ ?p2 @ pad"])
qed

section \<open>The forward pass\<close>

text \<open>The layers of a whole group: one per rank, all of the same sizes.\<close>

definition vpe_group :: "VocabParallelEmbedding list \<Rightarrow> int \<Rightarrow> int \<Rightarrow> bool" where
  "vpe_group vs P A \<longleftrightarrow> vs \<noteq> [] \<and> (\<forall>r < length vs. vpe_layout (vs ! r) P A \<and>
     tp_rank (vs ! r) = int r \<and> tp_size (vs ! r) = int (length vs) \<and>
     num_embeddings (vs ! r) = num_embeddings (hd vs) \<and>
     org_vocab_size (vs ! r) = org_vocab_size (hd vs) \<and>
     use_fused_embedding (vs ! r) = use_fused_embedding (hd vs))"

lemma vpe_groupD:
  assumes "vpe_group vs P A" and "r < length vs"
  shows "layout_ok (int (length vs)) P A (org_vocab_size (hd vs)) (num_embeddings (hd vs))"
    and "shard_indices (vs ! r) = shard_at P A (org_vocab_size (hd vs)) (num_embeddings (hd vs)) (int r)"
    and "tp_size (vs ! r) = int (length vs)" and "use_fused_embedding (vs ! r) = use_fused_embedding (hd vs)"
    and "org_vocab_size (vs ! r) = org_vocab_size (hd vs)"
  using assms unfolding vpe_group_def vpe_layout_def by metis+

text \<open>
  What the forward pass relies on: the all-reduce sums the ranks' parts, FP8 bytes read back are
  the row they were, and the fused kernel masks, shifts and gathers.
\<close>

definition reduces_by_sum :: "('a::comm_monoid_add list \<Rightarrow> 'a) \<Rightarrow> bool" where
  "reduces_by_sum f \<longleftrightarrow> (\<forall>xs. f xs = sum_list xs)"

definition fused_gathers ::
    "('r::zero list \<Rightarrow> int \<Rightarrow> int \<Rightarrow> int \<Rightarrow> int \<Rightarrow> int \<Rightarrow> int \<Rightarrow> 'r res) \<Rightarrow> bool" where
  "fused_gathers fused \<longleftrightarrow> (\<forall>w t a b c d e. fused w t a b c d e =
     (let (i, mask) = get_masked_input_and_mask t a b c d e in
      rbind (embedding w i) (\<lambda>row. Inr (if mask then 0 else row))))"

lemma sum_list_single:
  fixes xs :: "'a::comm_monoid_add list"
  assumes "k < length xs" and "\<And>i. i < length xs \<Longrightarrow> i \<noteq> k \<Longrightarrow> xs ! i = 0"
  shows "sum_list xs = xs ! k"
proof -
  have "sum_list xs = (\<Sum>i = 0..<length xs. xs ! i)" by (rule sum_list_sum_nth)
  also have "\<dots> = (\<Sum>i \<in> {k}. xs ! i)"
    using assms by (intro sum.mono_neutral_right) auto
  finally show ?thesis by simp
qed

lemma rmap_zip_Inr:
  assumes "length xs = length ys" and "\<And>i. i < length xs \<Longrightarrow> f (xs ! i, ys ! i) = Inr (g i)"
  shows "rmap f (zip xs ys) = Inr (map g [0..<length xs])"
  using assms by (auto simp: rmap_Inr_iff list_all2_conv_all_nth)

lemma parts_of_group:
  assumes g: "vpe_group vs P A" and w: "length ws = length vs"
    and rows: "\<And>r. r < length ws \<Longrightarrow> int (length (ws ! r)) = P + A"
    and t: "0 \<le> t" "t < num_embeddings (hd vs)" and r: "r < length vs"
  defines "o' \<equiv> owner P A (org_vocab_size (hd vs)) t" and "l \<equiv> slot P A (org_vocab_size (hd vs)) t"
  shows "shard_mask (shard_indices (vs ! r)) t = (if int r = o' then (l, False) else (0, True))"
    and "embedding (ws ! r) (if int r = o' then l else 0) =
           Inr (ws ! r ! (if int r = o' then nat l else 0))"
proof -
  note D = vpe_groupD[OF g r]
  show "shard_mask (shard_indices (vs ! r)) t = (if int r = o' then (l, False) else (0, True))"
    unfolding D(2) o'_def l_def by (rule shard_mask_at[OF D(1) _ t]) simp
  show "embedding (ws ! r) (if int r = o' then l else 0) =
           Inr (ws ! r ! (if int r = o' then nat l else 0))"
    using owner_slot_range[OF D(1) t] rows[of r] r w by (auto simp: embedding_def l_def)
qed

lemma forward_gathers:
  assumes g: "vpe_group vs P A" and w: "length ws = length vs"
    and rows: "\<And>r. r < length ws \<Longrightarrow> int (length (ws ! r)) = P + A"
    and t: "0 \<le> t" "t < num_embeddings (hd vs)" and me: "me < length vs"
    and sum: "reduces_by_sum all_reduce" "reduces_by_sum all_reduce8"
    and fp8: "\<And>x. from8 (to8 x) = x" and fused: "fused_gathers fused"
    and base: "length vs = 1 \<Longrightarrow> t < org_vocab_size (hd vs)"
  shows "vpe_forward fused all_reduce all_reduce8 fp8 to8 from8 vs ws me t =
     Inr (ws ! nat (owner P A (org_vocab_size (hd vs)) t) ! nat (slot P A (org_vocab_size (hd vs)) t))"
proof -
  let ?org = "org_vocab_size (hd vs)"
  define o' l where "o' = owner P A ?org t" and "l = slot P A ?org t"
  have mask: "shard_mask (shard_indices (vs ! r)) t = (if int r = o' then (l, False) else (0, True))"
    and emb: "embedding (ws ! r) (if int r = o' then l else 0) = Inr (ws ! r ! (if int r = o' then nat l else 0))"
    if "r < length vs" for r
    using parts_of_group[OF g w rows t that] by (simp_all only: o'_def l_def)
  note D = vpe_groupD[OF g me]
  have o: "0 \<le> o'" "o' < int (length vs)" "0 \<le> l" "l < P + A"
    using owner_slot_range[OF D(1) t] by (auto simp: o'_def l_def)
  let ?row = "\<lambda>r. ws ! r ! (if int r = o' then nat l else 0)" and ?k = "nat o'"
  have pick: "sum_list (map (\<lambda>r. if int r \<noteq> o' then 0 else x) [0..<length vs]) = x"
    for x :: "'c::comm_monoid_add"
    using o by (subst sum_list_single[where k = ?k]) (auto simp: nat_less_iff)
  have pick': "sum_list (map (\<lambda>r. if int r \<noteq> o' then 0 else f (?row r)) [0..<length vs]) = f (ws ! ?k ! nat l)"
    for f :: "'a \<Rightarrow> 'c::comm_monoid_add"
    using o by (subst sum_list_single[where k = ?k]) (auto simp: nat_less_iff)
  have look: "rmap (\<lambda>(v, w). let (i, mask) = shard_mask (shard_indices v) t in
            rbind (embedding w i) (\<lambda>row. Inr (row, mask))) (zip vs ws) =
          Inr (map (\<lambda>r. (?row r, int r \<noteq> o')) [0..<length vs])"
  proof (rule rmap_zip_Inr[OF w[symmetric]])
    fix i assume "i < length vs"
    with mask[of i] emb[of i] show "(case (vs ! i, ws ! i) of (v, w) \<Rightarrow>
        let (j, mask) = shard_mask (shard_indices v) t in
          rbind (embedding w j) (\<lambda>row. Inr (row, mask))) = Inr (?row i, int i \<noteq> o')"
      by (cases "int i = o'") simp_all
  qed
  have fuse: "rmap (\<lambda>(v, w). let s = shard_indices v in
            fused w t (org_vocab_start_index s) (org_vocab_end_index s) (num_org_vocab_padding s)
              (added_vocab_start_index s) (added_vocab_end_index s)) (zip vs ws) =
          Inr (map (\<lambda>r. if int r \<noteq> o' then 0 else ?row r) [0..<length vs])"
  proof (rule rmap_zip_Inr[OF w[symmetric]])
    fix i assume "i < length vs"
    with mask[of i] emb[of i] fused show "(case (vs ! i, ws ! i) of (v, w) \<Rightarrow> let s = shard_indices v in
        fused w t (org_vocab_start_index s) (org_vocab_end_index s) (num_org_vocab_padding s)
          (added_vocab_start_index s) (added_vocab_end_index s)) =
        Inr (if int i \<noteq> o' then 0 else ?row i)"
      by (cases "int i = o'") (simp_all add: Let_def fused_gathers_def shard_mask_def[symmetric])
  qed
  show ?thesis
  proof (cases "tp_size (vs ! me) = 1")
    case True
    then have "length vs = 1" using D(3) by simp
    then have o0: "o' = 0" and me0: "me = 0" and to: "t < ?org" using o me base by auto
    have "l = t" using t(1) to o0 minus_div_mult_eq_mod[of t P] by (simp add: l_def o'_def owner_def slot_def)
    then show ?thesis using True emb[of 0] o0 me0 me
      by (simp add: vpe_forward_def o'_def[symmetric] l_def[symmetric])
  next
    case False
    then show ?thesis
      unfolding vpe_forward_def look fuse rbind_simps map_map comp_def prod.case
      using sum pick'[of "\<lambda>x. x"] pick'[of to8] fp8
      by (simp add: reduces_by_sum_def o'_def[symmetric] l_def[symmetric])
  qed
qed

section \<open>Loading a checkpoint\<close>

lemma weight_loader_rows:
  assumes v: "vpe_layout v P A" and dim: "packed_dim \<noteq> Some 0"
    and n: "int (length (tensor_rows loaded)) = org_vocab_size v"
    and m: "int (length (tensor_rows param)) = P + A"
  shows "\<exists>out. weight_loader v (Some 0) packed_dim pf param loaded = Inr out \<and>
    int (length (tensor_rows out)) = P + A \<and>
    (\<forall>t. 0 \<le> t \<and> t < org_vocab_size v \<and> owner P A (org_vocab_size v) t = tp_rank v \<longrightarrow>
      tensor_rows out ! nat (slot P A (org_vocab_size v) t) = tensor_rows loaded ! nat t)"
proof -
  define p where "p = tp_rank v * P"
  let ?org = "org_vocab_size v" and ?W = "tensor_rows loaded"
  let ?lo = "min p ?org" and ?hi = "min (p + P) ?org"
  have ok: "layout_ok (tp_size v) P A ?org (num_embeddings v)" and r: "0 \<le> tp_rank v"
    and s: "shard_indices v = shard_at P A ?org (num_embeddings v) (tp_rank v)"
    using v by (auto simp: vpe_layout_def)
  note l = layout_okD[OF ok]
  have p0: "0 \<le> p" using r l by (simp add: p_def)
  have lh: "0 \<le> ?lo" "?lo \<le> ?hi" "?hi \<le> ?org" "?hi - ?lo \<le> P" using p0 l by auto
  define chunk where "chunk = take (nat (?hi - ?lo)) (drop (nat ?lo) ?W)"
  have len: "int (length chunk) = ?hi - ?lo" using lh n by (simp add: chunk_def nat_le_iff)
  have se: "org_vocab_start_index (shard_indices v) = ?lo" "org_vocab_end_index (shard_indices v) = ?hi"
    by (simp_all add: s shard_at_def p_def)
  have narrow: "tensor_narrow ?W ?lo (?hi - ?lo) = Inr chunk"
    unfolding tensor_narrow_def chunk_def using lh n by (simp only: if_True) simp
  have fits: "length chunk \<le> length (tensor_rows param)" using len lh m l by linarith
  let ?out = "param\<lparr>tensor_rows := chunk @ map (\<lambda>_. 0) (drop (length chunk) (tensor_rows param))\<rparr>"
  have copy: "tensor_copy_head (tensor_rows param) chunk =
      Inr (chunk @ drop (length chunk) (tensor_rows param))"
    using fits by (simp add: tensor_copy_head_def)
  have "weight_loader v (Some 0) packed_dim pf param loaded = Inr ?out"
    unfolding weight_loader_def Let_def option.case se n using dim by (simp add: narrow copy)
  moreover have "int (length (tensor_rows ?out)) = P + A" using fits m by simp
  moreover have "tensor_rows ?out ! nat (slot P A ?org t) = ?W ! nat t"
    if t: "0 \<le> t" "t < ?org" and o: "owner P A ?org t = tp_rank v" for t
  proof -
    have P: "0 < P" by (rule base_slots_pos[OF ok t])
    have pt: "tp_rank v = t div P" using o t by (simp add: owner_def)
    have "p \<le> t" "t < p + P"
      using clip_interval[OF t P, of "tp_rank v"] t by (auto simp: pt p_def)
    then have lo: "?lo = p" and tl: "t - p < ?hi - ?lo" using t by auto
    have sl: "slot P A ?org t = t - p"
      using t by (simp add: slot_def p_def pt minus_div_mult_eq_mod)
    have tc: "nat (t - p) < length chunk" using tl len \<open>p \<le> t\<close> by linarith
    then have "tensor_rows ?out ! nat (t - p) = chunk ! nat (t - p)"
      by (simp add: nth_append)
    also have "\<dots> = ?W ! (nat p + nat (t - p))"
    proof -
      have "nat p \<le> length ?W" using lo n lh(1,2,3) p0 by linarith
      then show ?thesis using tc unfolding chunk_def lo by simp
    qed
    also have "nat p + nat (t - p) = nat t" using p0 \<open>p \<le> t\<close> by simp
    finally show ?thesis by (simp only: sl)
  qed
  ultimately show ?thesis by blast
qed

text \<open>Every rank loads its shard of one checkpoint into its parameter.\<close>

definition load_group ::
    "VocabParallelEmbedding list \<Rightarrow> 'r::zero tensor list \<Rightarrow> 'r tensor \<Rightarrow> 'r tensor list res" where
  "load_group vs params loaded =
     rmap (\<lambda>(v, param). weight_loader v (Some 0) None 1 param loaded) (zip vs params)"

section \<open>Properties\<close>

text \<open>
  The constructor raises nothing on sensible sizes (a positive padding, a rank of the group, at
  most as many base ids as ids, an embedding method where one is needed), whatever the group's
  size: it raises the padding to a multiple of the group's size, so that the padded vocabulary
  splits evenly, its layout has a slot for every id, and the shard passes every sanity check.
\<close>
lemma vpe_init_total:
  assumes "exact_division divide_exact" and "0 \<le> rank" and "rank < tps" and "0 < padding"
    and "0 \<le> org" and "org \<le> num" and "is_embedding \<longrightarrow> implements_embedding"
  shows "\<exists>v P A. vpe_init divide_exact rank tps is_cuda is_embedding implements_embedding
      unquantized num (Some org) padding False = Inr v \<and> vpe_layout v P A \<and>
      tp_rank v = rank \<and> tp_size v = tps \<and> num_embeddings v = num \<and>
      org_vocab_size v = (if org = 0 then num else org) \<and>
      padding dvd num_embeddings_padded v \<and> tps dvd num_embeddings_padded v"
proof -
  have "\<exists>v P A. vpe_init divide_exact rank tps is_cuda is_embedding implements_embedding
      unquantized num (Some org) padding False = Inr v \<and> vpe_layout v P A \<and> tp_rank v = rank \<and>
      tp_size v = tps \<and> num_embeddings v = num \<and> org_vocab_size v = (if org = 0 then num else org) \<and>
      padding dvd num_embeddings_padded v \<and> use_fused_embedding v = (tps > 1 \<and> is_cuda \<and> unquantized)"
    by (rule vpe_init_layout[OF assms(1-4)]) (use assms(5-7) in auto)
  then obtain v P A where "vpe_init divide_exact rank tps is_cuda is_embedding implements_embedding
      unquantized num (Some org) padding False = Inr v" and "vpe_layout v P A" and
      "tp_rank v = rank \<and> tp_size v = tps \<and> num_embeddings v = num \<and>
      org_vocab_size v = (if org = 0 then num else org) \<and> padding dvd num_embeddings_padded v"
    by blast
  moreover from this have "tps dvd num_embeddings_padded v" by (simp add: vpe_layout_def)
  ultimately show ?thesis by blast
qed

text \<open>
  Every id of the vocabulary, base or added, has exactly one owner among the ranks: all others
  mask it and look up row 0. On its owner the masked index is inside the shard, and two different
  ids never share a slot of a rank.
\<close>
lemma tokens_have_one_owner:
  assumes "vpe_group vs P A" and "0 \<le> t" and "t < num_embeddings (hd vs)"
  shows "(\<exists>!r. r < length vs \<and> \<not> snd (shard_mask (shard_indices (vs ! r)) t)) \<and>
    (\<forall>r < length vs. 0 \<le> fst (shard_mask (shard_indices (vs ! r)) t) \<and>
      fst (shard_mask (shard_indices (vs ! r)) t) < max 1 (num_embeddings_per_partition (vs ! r)) \<and>
      (\<forall>u. 0 \<le> u \<and> u < num_embeddings (hd vs) \<and> \<not> snd (shard_mask (shard_indices (vs ! r)) t) \<and>
        shard_mask (shard_indices (vs ! r)) t = shard_mask (shard_indices (vs ! r)) u \<longrightarrow> t = u))"
proof -
  let ?V = "num_embeddings (hd vs)" and ?org = "org_vocab_size (hd vs)"
  have ok: "layout_ok (int (length vs)) P A ?org ?V" and nz: "vs \<noteq> []"
    using vpe_groupD(1)[OF assms(1), of 0] assms(1) by (auto simp: vpe_group_def)
  have per: "num_embeddings_per_partition (vs ! r) = P + A" if "r < length vs" for r
    using assms(1) that by (simp add: vpe_group_def vpe_layout_def)
  have mask: "shard_mask (shard_indices (vs ! r)) u =
      (if int r = owner P A ?org u then (slot P A ?org u, False) else (0, True))"
    if "r < length vs" "0 \<le> u" "u < ?V" for r u
    unfolding vpe_groupD(2)[OF assms(1) that(1)] using shard_mask_at[OF ok _ that(2,3)] by simp
  note os = owner_slot_range[OF ok assms(2,3)]
  have mine: "(r < length vs \<and> \<not> snd (shard_mask (shard_indices (vs ! r)) t)) \<longleftrightarrow>
      r = nat (owner P A ?org t)" for r
    using mask[OF _ assms(2,3), of r] os by (auto split: if_splits)
  have one: "\<exists>!r. r < length vs \<and> \<not> snd (shard_mask (shard_indices (vs ! r)) t)"
    unfolding mine by simp
  have inj: "t = u" if "r < length vs" "0 \<le> u" "u < ?V" "\<not> snd (shard_mask (shard_indices (vs ! r)) t)"
    "shard_mask (shard_indices (vs ! r)) t = shard_mask (shard_indices (vs ! r)) u" for r u
  proof -
    have o: "int r = owner P A ?org t"
      using that(4) mask[OF that(1) assms(2,3)] by (simp split: if_split_asm)
    then have "int r = owner P A ?org u \<and> slot P A ?org t = slot P A ?org u"
      using that(5) mask[OF that(1) assms(2,3)] mask[OF that(1-3)] by (simp split: if_split_asm)
    then show ?thesis using owner_slot_inj[OF ok assms(2,3) that(2,3)] o by metis
  qed
  have "0 \<le> fst (shard_mask (shard_indices (vs ! r)) t) \<and>
      fst (shard_mask (shard_indices (vs ! r)) t) < max 1 (num_embeddings_per_partition (vs ! r))"
    if "r < length vs" for r
    using os unfolding mask[OF that assms(2,3)] per[OF that] by auto
  with one inj show ?thesis by blast
qed

text \<open>
  With several ranks, the mapping of gathered logits exists and is a permutation of the gathered
  positions; its entry for an id is the position of that id's logit, the owner's block plus the
  slot the owner looks the id up in. So reindexing by it puts every logit at its id.
\<close>
lemma mapping_restores_order:
  assumes "exact_division divide_exact" and "vpe_group vs P A" and "2 \<le> length vs" and "me < length vs"
  shows "\<exists>m. get_sharded_to_full_mapping divide_exact (vs ! me) = Inr (Some m) \<and>
    distinct m \<and> set m = {0..<num_embeddings_padded (vs ! me)} \<and>
    (\<forall>r t. r < length vs \<and> 0 \<le> t \<and> t < num_embeddings (hd vs) \<and>
        \<not> snd (shard_mask (shard_indices (vs ! r)) t) \<longrightarrow>
      m ! nat t = num_embeddings_per_partition (vs ! me) * int r +
        fst (shard_mask (shard_indices (vs ! r)) t))"
proof -
  let ?v = "vs ! me" and ?V = "num_embeddings (hd vs)" and ?org = "org_vocab_size (hd vs)"
  let ?f = "gathered_index P A ?org" and ?tp = "int (length vs)"
  have ok: "layout_ok ?tp P A ?org ?V" by (rule vpe_groupD(1)[OF assms(2,4)])
  have v: "vpe_layout ?v P A" "num_embeddings ?v = ?V" "org_vocab_size ?v = ?org" "tp_size ?v = ?tp"
    using assms(2,4) by (auto simp: vpe_group_def)
  have np: "num_embeddings_padded ?v = (P + A) * ?tp" and per: "num_embeddings_per_partition ?v = P + A"
    using v by (auto simp: vpe_layout_def algebra_simps)
  note l = layout_okD[OF ok]
  obtain pad where loop: "mapping_loop divide_exact ?v (nat ?tp) 0 [] [] [] =
      Inr (map ?f (py_range 0 ?org), map ?f (py_range ?org ?V), pad)"
    and ms: "mset (map ?f (py_range 0 ?org)) + mset (map ?f (py_range ?org ?V)) + mset pad =
      mset (py_range 0 ((P + A) * ?tp))"
  proof -
    have "min (0 * P) ?org = 0" "min ((0 + int (nat ?tp)) * P) ?org = ?org"
      "min (0 * A + ?org) ?V = ?org" "min ((0 + int (nat ?tp)) * A + ?org) ?V = ?V"
      using l by (simp_all add: mult.commute)
    from mapping_loop_eq[OF assms(1) v(1), of 0 "nat ?tp" "[]" "[]" "[]", unfolded v(2-4) this]
    show ?thesis using that by auto
  qed
  let ?m = "map ?f (py_range 0 ?org) @ map ?f (py_range ?org ?V) @ pad"
  have perm: "mset ?m = mset (py_range 0 ((P + A) * ?tp))" using ms by (simp add: add.assoc)
  have "0 \<le> (P + A) * ?tp" using l by simp
  then have "int (length ?m) = num_embeddings_padded ?v"
    using mset_eq_length[OF perm] np by simp
  then have get: "get_sharded_to_full_mapping divide_exact ?v = Inr (Some ?m)"
    using loop assms(3) v(4) by (simp add: get_sharded_to_full_mapping_def Let_def)
  have dist: "distinct ?m" using mset_eq_imp_distinct_iff[OF perm] by simp
  have set: "set ?m = {0..<num_embeddings_padded ?v}" using mset_eq_setD[OF perm] np by simp
  have ids: "?m = map ?f (py_range 0 ?V) @ pad" using l by (simp add: py_range_split[of 0 ?org ?V])
  have "?m ! nat t = num_embeddings_per_partition ?v * int r + fst (shard_mask (shard_indices (vs ! r)) t)"
    if r: "r < length vs" and t: "0 \<le> t" "t < ?V" and m: "\<not> snd (shard_mask (shard_indices (vs ! r)) t)" for r t
  proof -
    have "shard_mask (shard_indices (vs ! r)) t =
        (if int r = owner P A ?org t then (slot P A ?org t, False) else (0, True))"
      unfolding vpe_groupD(2)[OF assms(2) r] using shard_mask_at[OF ok _ t] by simp
    with m have "int r = owner P A ?org t \<and> fst (shard_mask (shard_indices (vs ! r)) t) = slot P A ?org t"
      by (simp split: if_split_asm)
    moreover have "?m ! nat t = ?f t"
      unfolding ids using t by (simp add: nth_append) (simp add: py_range_def nth_upto)
    ultimately show ?thesis by (simp add: per gathered_index_def)
  qed
  with get dist set show ?thesis by blast
qed

text \<open>
  C7. The sharded embedding is the embedding: when every rank has loaded its shard of a checkpoint
  with a row per base id, the forward pass on any rank, for any base id, in any of its variants
  (one rank, fused kernel, FP8 bytes, plain rows), gives the id's row of the checkpoint.
\<close>
theorem sharded_embedding_is_lookup:
  assumes "vpe_group vs P A" and "length params = length vs"
    and "\<forall>p \<in> set params. int (length (tensor_rows p)) = P + A"
    and "int (length (tensor_rows W)) = org_vocab_size (hd vs)"
    and "reduces_by_sum all_reduce" and "reduces_by_sum all_reduce8"
    and "\<forall>x. from8 (to8 x) = x" and "fused_gathers fused"
    and "me < length vs" and "0 \<le> t" and "t < org_vocab_size (hd vs)"
  shows "\<exists>ps. load_group vs params W = Inr ps \<and>
    vpe_forward fused all_reduce all_reduce8 fp8 to8 from8 vs (map tensor_rows ps) me t =
      Inr (tensor_rows W ! nat t)"
proof -
  let ?org = "org_vocab_size (hd vs)"
  let ?good = "\<lambda>r out. int (length (tensor_rows out)) = P + A \<and>
    (owner P A ?org t = int r \<longrightarrow> tensor_rows out ! nat (slot P A ?org t) = tensor_rows W ! nat t)"
  have "\<exists>out. weight_loader (vs ! r) (Some 0) None 1 (params ! r) W = Inr out \<and> ?good r out"
    if r: "r < length vs" for r
  proof -
    have v: "vpe_layout (vs ! r) P A" "org_vocab_size (vs ! r) = ?org" "tp_rank (vs ! r) = int r"
      using assms(1) r by (auto simp: vpe_group_def)
    show ?thesis
      using weight_loader_rows[OF v(1) _ _ , of None W "params ! r" 1] assms(2-4,10,11) r v by auto
  qed
  then obtain out where out: "\<And>r. r < length vs \<Longrightarrow>
      weight_loader (vs ! r) (Some 0) None 1 (params ! r) W = Inr (out r) \<and> ?good r (out r)"
    by metis
  let ?ps = "map out [0..<length vs]"
  have load: "load_group vs params W = Inr ?ps"
    unfolding load_group_def using assms(2) out by (intro rmap_zip_Inr) auto
  have ok: "layout_ok (int (length vs)) P A ?org (num_embeddings (hd vs))"
    by (rule vpe_groupD(1)[OF assms(1,9)])
  have tV: "t < num_embeddings (hd vs)" using layout_okD(5)[OF ok] assms(11) by simp
  note os = owner_slot_range[OF ok assms(10) tV]
  have rows: "int (length (map tensor_rows ?ps ! r)) = P + A" if "r < length (map tensor_rows ?ps)" for r
    using out[of r] that by simp
  have "vpe_forward fused all_reduce all_reduce8 fp8 to8 from8 vs (map tensor_rows ?ps) me t =
      Inr (map tensor_rows ?ps ! nat (owner P A ?org t) ! nat (slot P A ?org t))"
    using assms(5-9,11) by (intro forward_gathers[OF assms(1) _ rows assms(10) tV]) auto
  also have "map tensor_rows ?ps ! nat (owner P A ?org t) ! nat (slot P A ?org t) = tensor_rows W ! nat t"
    using out[of "nat (owner P A ?org t)"] os by (auto simp: nat_less_iff)
  finally show ?thesis using load by blast
qed

text \<open>
  On a single rank the forward pass looks an id up at its own number, but an added id's slot in
  the shard, the one the index mapping and the layer's documented layout give it, lies after the
  base padding: when the base vocabulary is padded, the two differ.
\<close>
lemma single_rank_added_id:
  assumes "vpe_layout v P A" and "tp_size v = 1"
    and "org_vocab_size v \<le> t" and "t < num_embeddings v"
  shows "vpe_forward fused all_reduce all_reduce8 fp8 to8 from8 [v] [w] 0 t = embedding w t \<and>
    shard_mask (shard_indices v) t = (org_vocab_size_padded v + (t - org_vocab_size v), False)"
proof -
  let ?org = "org_vocab_size v"
  have r0: "tp_rank v = 0" using assms(1,2) by (simp add: vpe_layout_def)
  have ok: "layout_ok 1 P A ?org (num_embeddings v)"
    and s: "shard_indices v = shard_at P A ?org (num_embeddings v) 0" and P: "org_vocab_size_padded v = P"
    using assms(1,2) by (simp_all add: vpe_layout_def r0)
  have t0: "0 \<le> t" using layout_okD(4)[OF ok] assms(3) by simp
  have A: "t - ?org < A" using layout_okD(7)[OF ok] assms(4) by simp
  have "shard_mask (shard_indices v) t = (P + (t - ?org), False)"
    unfolding s using shard_mask_at[OF ok _ t0 assms(4), of 0] assms(3) A
    by (simp add: owner_def slot_def div_pos_pos_trivial mod_pos_pos_trivial)
  then show ?thesis using assms(2) P by (simp add: vpe_forward_def)
qed

section \<open>Witnesses\<close>

text \<open>An exact division, and the group of three ranks a vocabulary of 10 base and 3 added ids gives.\<close>

definition divide_demo :: "int \<Rightarrow> int \<Rightarrow> int res" where
  "divide_demo a b = (if a mod b = 0 then Inr (a div b) else Inl AssertionError)"

lemma divide_demo_exact: "exact_division divide_demo"
  by (simp add: exact_division_def divide_demo_def)

lemma gcd_4_3: "gcd 4 (3::int) = 1"
  by code_simp

definition demo_layer :: "int \<Rightarrow> int \<Rightarrow> VocabParallelEmbedding" where
  "demo_layer n r = (case vpe_init divide_demo r n True True True False 13 (Some 10) 4 False of Inr v \<Rightarrow> v)"

definition demo_group :: "VocabParallelEmbedding list" where
  "demo_group = [demo_layer 3 0, demo_layer 3 1, demo_layer 3 2]"

lemma demo_init:
  assumes "r \<in> {0, 1, 2}"
  shows "vpe_init divide_demo r 3 True True True False 13 (Some 10) 4 False = Inr (demo_layer 3 r)"
    "tp_rank (demo_layer 3 r) = r" "tp_size (demo_layer 3 r) = 3" "num_embeddings (demo_layer 3 r) = 13"
    "org_vocab_size (demo_layer 3 r) = 10" "org_vocab_size_padded (demo_layer 3 r) = 12"
    "num_embeddings_padded (demo_layer 3 r) = 24" "num_embeddings_per_partition (demo_layer 3 r) = 8"
    "\<not> use_fused_embedding (demo_layer 3 r)" "shard_indices (demo_layer 3 r) = shard_at 4 4 10 13 r"
  using assms by (auto simp: demo_layer_def vpe_init_def pad_vocab_size_def get_indices_def
      vocab_range_from_global_vocab_size_def vocab_range_from_per_partition_vocab_size_def
      divide_demo_def post_init_def num_elements_padded_def num_org_elements_def num_added_elements_def
      num_org_elements_padded_def num_added_elements_padded_def shard_at_def gcd_4_3 Let_def)

lemma demo_group_ok: "vpe_group demo_group 4 4"
  by (auto simp: vpe_group_def demo_group_def vpe_layout_def layout_ok_def demo_init less_Suc_eq numeral_3_eq_3)

lemma demo_mask:
  "shard_mask (shard_indices (demo_group ! 1)) 7 = (3, False)"
  "shard_mask (shard_indices (demo_group ! 0)) 11 = (5, False)"
  "shard_mask (shard_indices (demo_group ! 0)) 7 = (0, True)"
  "shard_mask (shard_indices (demo_group ! 2)) 7 = (0, True)"
  by (simp_all add: demo_group_def demo_init shard_mask_def get_masked_input_and_mask_def shard_at_def
      num_org_vocab_padding_def num_org_elements_padded_def num_org_elements_def numeral_2_eq_2)

lemma vpe_init_total_witness:
  "\<exists>v P A. vpe_init divide_demo 1 3 True True True True 129280 (Some 0) 64 False = Inr v \<and>
     vpe_layout v P A \<and> tp_rank v = 1 \<and> tp_size v = 3 \<and> num_embeddings v = 129280 \<and>
     64 dvd num_embeddings_padded v \<and> 3 dvd num_embeddings_padded v"
  using vpe_init_total[OF divide_demo_exact, of 1 3 64 0 129280 True True True True] by auto

lemma tokens_have_one_owner_witness:
  "(\<exists>!r. r < length demo_group \<and> \<not> snd (shard_mask (shard_indices (demo_group ! r)) 7)) \<and>
   fst (shard_mask (shard_indices (demo_group ! 1)) 7) < 8"
  using tokens_have_one_owner[OF demo_group_ok, of 7]
  by (auto simp: demo_mask) (auto simp: demo_group_def demo_init)

lemma mapping_restores_order_witness:
  "\<exists>m. get_sharded_to_full_mapping divide_demo (demo_group ! 0) = Inr (Some m) \<and> distinct m \<and>
     set m = {0..<24} \<and> m ! 7 = 11 \<and> m ! 11 = 5"
proof -
  have g: "length demo_group = 3" "num_embeddings (hd demo_group) = 13"
    "num_embeddings_padded (demo_group ! 0) = 24" "num_embeddings_per_partition (demo_group ! 0) = 8"
    by (simp_all add: demo_group_def demo_init)
  obtain m where m: "get_sharded_to_full_mapping divide_demo (demo_group ! 0) = Inr (Some m)"
    "distinct m" "set m = {0..<num_embeddings_padded (demo_group ! 0)}"
    and at: "\<forall>r t. r < length demo_group \<and> 0 \<le> t \<and> t < num_embeddings (hd demo_group) \<and>
        \<not> snd (shard_mask (shard_indices (demo_group ! r)) t) \<longrightarrow>
      m ! nat t = num_embeddings_per_partition (demo_group ! 0) * int r +
        fst (shard_mask (shard_indices (demo_group ! r)) t)"
    using mapping_restores_order[OF divide_demo_exact demo_group_ok, of 0] g by auto
  have "m ! 7 = 11" using at[rule_format, of 1 7] demo_mask(1) g by simp
  moreover have "m ! 11 = 5" using at[rule_format, of 0 11] demo_mask(2) g by simp
  ultimately show ?thesis using m g by auto
qed

lemma sharded_embedding_is_lookup_witness:
  "\<exists>ps. load_group demo_group (replicate 3 \<lparr>dims = [8], tensor_rows = replicate 8 (9::int)\<rparr>)
      \<lparr>dims = [10], tensor_rows = [10, 11, 12, 13, 14, 15, 16, 17, 18, 19]\<rparr> = Inr ps \<and>
    vpe_forward (\<lambda>w t a b c d e. (let (i, mask) = get_masked_input_and_mask t a b c d e in
        rbind (embedding w i) (\<lambda>row. Inr (if mask then 0 else row)))) sum_list sum_list True (\<lambda>x. x) (\<lambda>x. x)
      demo_group (map tensor_rows ps) 2 7 = Inr 17"
proof -
  have "fused_gathers (\<lambda>w t a b c d e. (let (i, mask) = get_masked_input_and_mask t a b c d e in
        rbind (embedding w i) (\<lambda>row. Inr (if mask then 0 else (row::int)))))"
    by (simp add: fused_gathers_def)
  moreover have "length demo_group = 3" "org_vocab_size (hd demo_group) = 10"
    by (simp_all add: demo_group_def demo_init)
  ultimately show ?thesis
    using sharded_embedding_is_lookup[OF demo_group_ok, where
        params = "replicate 3 \<lparr>dims = [8], tensor_rows = replicate 8 (9::int)\<rparr>" and
        W = "\<lparr>dims = [10], tensor_rows = [10, 11, 12, 13, 14, 15, 16, 17, 18, 19]\<rparr>" and
        all_reduce = sum_list and ?all_reduce8.0 = sum_list and ?to8.0 = "\<lambda>x. x" and ?from8.0 = "\<lambda>x. x" and
        me = 2 and t = 7 and ?fp8.0 = True] by (simp add: reduces_by_sum_def)
qed

lemma single_rank_added_id_witness:
  "vpe_forward (\<lambda>_ _ _ _ _ _ _. Inl RuntimeError) sum_list sum_list False (\<lambda>x. x) (\<lambda>x. x)
     [demo_layer 1 0] [[1, 2, 3, 4, 5, 6, 7, 8, 9, 10, 0, 0, 21, 22, 23, 0 :: int]] 0 10 = Inr 0 \<and>
   shard_mask (shard_indices (demo_layer 1 0)) 10 = (12, False)"
proof -
  have "vpe_layout (demo_layer 1 0) 12 4 \<and> tp_size (demo_layer 1 0) = 1 \<and> org_vocab_size (demo_layer 1 0) = 10 \<and>
      num_embeddings (demo_layer 1 0) = 13 \<and> org_vocab_size_padded (demo_layer 1 0) = 12"
    by (simp add: demo_layer_def vpe_init_def pad_vocab_size_def get_indices_def vpe_layout_def layout_ok_def
      vocab_range_from_global_vocab_size_def vocab_range_from_per_partition_vocab_size_def
      divide_demo_def post_init_def num_elements_padded_def num_org_elements_def num_added_elements_def
      num_org_elements_padded_def num_added_elements_padded_def shard_at_def Let_def)
  then show ?thesis
    using single_rank_added_id[of "demo_layer 1 0" 12 4 10 "\<lambda>_ _ _ _ _ _ _. Inl RuntimeError" sum_list sum_list
        False "\<lambda>x. x" "\<lambda>x. x" "[1, 2, 3, 4, 5, 6, 7, 8, 9, 10, 0, 0, 21, 22, 23, 0 :: int]"]
    by (simp add: embedding_def)
qed

end
