(* ===== verification/Kv_Specs.thy ===== *)
theory Kv_Specs
  imports Runtime_Base
begin

text \<open>
  What \<^verbatim>\<open>kv_cache_utils.py\<close> knows of vLLM's classes. The cache-spec classes, the engine
  configuration's methods and the layout arithmetic live in the vllm package, so a layer's spec is
  an opaque value and what the code asks of it is a record of functions, the argument \<open>api\<close> of every
  operation; the attributes the code reads and writes are here. A group's spec is one layer spec, or
  a \<open>UniformTypeKVCacheSpecs\<close> with a block size and its layers' specs. The theory also holds the two
  operations every later theory uses: the spec of one layer of a group, and the recognition of the
  GLM-5.3-Flash layout.
\<close>

section \<open>Interfaces\<close>

text \<open>The classes the code tests specs against.\<close>

datatype spec_class =
    AttentionSpec
  | FullAttentionSpec
  | MLAAttentionSpec
  | SlidingWindowSpec
  | SlidingWindowMLASpec
  | ChunkedLocalAttentionSpec
  | MambaSpec
  | KpoolTailSpec
  | CircularBufferSpec
  | HiddenStateCacheSpec

record kv_layout =
  is_block_compact :: bool
  is_layer_compact :: bool
  is_block_outermost :: bool

record speculative_config =
  use_eagle :: bool
  use_eagle_block_drop :: bool
  use_multi_module_mtp :: bool
  num_speculative_tokens :: int

text \<open>
  The parts of \<open>VllmConfig\<close> the code reads, the one it changes (\<open>max_model_len\<close>), and the environment
  variable \<open>DSV41_KV_GROUPING\<close>.
\<close>

record vllm_config =
  max_model_len :: int
  original_max_model_len :: int
  decode_context_parallel_size :: int
  pipeline_parallel_size :: int
  total_num_hidden_layers :: int
  cache_block_size :: int
  enable_prefix_caching :: bool
  has_kv_transfer_config :: bool
  prefix_match_unit :: "int option"
  num_gpu_blocks_override :: "int option"
  prefix_cache_retention_interval :: "int option"
  resolved_kv_cache_layout :: kv_layout
  disable_hybrid_kv_cache_manager :: bool
  speculative :: "speculative_config option"
  hf_model_type :: "string option"
  kv_grouping_env :: string

text \<open>\<open>UniformTypeKVCacheSpecs\<close>: its block size and its layers' specs by name.\<close>

datatype 's group_spec =
    LayerSpec 's
  | UniformSpecs int "(string, 's) dict"

text \<open>
  The functions of the vllm package on specs: attributes, \<open>isinstance\<close> and exact-type tests, \<open>merge\<close>,
  \<open>dataclasses.replace\<close> of one field, the class methods and methods of \<open>UniformTypeKVCacheSpecs\<close>,
  \<open>iter_layer_specs\<close>, \<open>replace_as\<close>, and \<open>compute_layout_strides\<close>. Attributes the code reads of a
  group's spec take the group spec.
\<close>

record 's spec_api =
  isa :: "'s \<Rightarrow> spec_class \<Rightarrow> bool"
  exactly_mla :: "'s \<Rightarrow> bool"
  spec_mro :: "'s \<Rightarrow> spec_class list"
  block_size :: "'s \<Rightarrow> int"
  page_size_bytes :: "'s \<Rightarrow> int"
  unpadded_page_size_bytes :: "'s \<Rightarrow> int"
  real_page_size_bytes :: "'s \<Rightarrow> int"
  page_size_padded :: "'s \<Rightarrow> int option"
  tokens_per_state :: "'s \<Rightarrow> int option"
  prefix_cacheable :: "'s \<Rightarrow> bool"
  mamba_mode_align :: "'s \<Rightarrow> bool"
  non_causal_multi_token_decode :: "'s \<Rightarrow> bool"
  bytes_per_token :: "'s \<Rightarrow> int"
  with_block_size :: "'s \<Rightarrow> int \<Rightarrow> 's"
  with_page_size_padded :: "'s \<Rightarrow> int \<Rightarrow> 's"
  with_block_and_padding :: "'s \<Rightarrow> int \<Rightarrow> int \<Rightarrow> 's"
  with_extra_retained_tokens :: "'s \<Rightarrow> int \<Rightarrow> 's"
  replace_as :: "'s \<Rightarrow> spec_class \<Rightarrow> int \<Rightarrow> int option \<Rightarrow> 's"
  merge :: "'s list \<Rightarrow> 's res"
  max_memory_usage_bytes :: "'s group_spec \<Rightarrow> vllm_config \<Rightarrow> int"
  max_memory_usage_pages :: "(string, 's) dict \<Rightarrow> vllm_config \<Rightarrow> int"
  uniform_page_size_bytes :: "int \<Rightarrow> (string, 's) dict \<Rightarrow> int"
  uniform_prefix_cacheable :: "int \<Rightarrow> (string, 's) dict \<Rightarrow> bool"
  is_uniform_type :: "(string, 's) dict \<Rightarrow> bool"
  uniform_from_specs :: "(string, 's) dict \<Rightarrow> 's group_spec option"
  get_max_layers_per_page_size :: "(string, 's) dict \<Rightarrow> int"
  first_spec :: "(string, 's) dict \<Rightarrow> 's"
  iter_layer_specs :: "'s group_spec \<Rightarrow> 's list"
  compute_layout_strides :: "'s \<Rightarrow> int \<Rightarrow> int \<Rightarrow> kv_layout \<Rightarrow> int option \<Rightarrow> int \<times> int"
  get_pp_indices :: "int \<Rightarrow> int \<Rightarrow> int \<Rightarrow> int \<times> int"
  extract_layer_index :: "string \<Rightarrow> int"

text \<open>
  What the code relies on of the uniform-spec functions: a uniform spec keeps its layers, a layer
  list that is not empty has a page size with a layer, no spec is both a Mamba and a tail spec, and
  a group's layer specs are its own.
\<close>

definition api_uniform :: "'s spec_api \<Rightarrow> bool" where
  "api_uniform api \<longleftrightarrow>
     (\<forall>d g. uniform_from_specs api d = Some g \<longrightarrow> (\<exists>b. g = UniformSpecs b d)) \<and>
     (\<forall>d. is_uniform_type api d = (uniform_from_specs api d \<noteq> None)) \<and>
     (\<forall>d. d \<noteq> [] \<longrightarrow> 0 < get_max_layers_per_page_size api d) \<and>
     (\<forall>s. \<not> (isa api s MambaSpec \<and> isa api s KpoolTailSpec)) \<and>
     (\<forall>s. iter_layer_specs api (LayerSpec s) = [s]) \<and>
     (\<forall>b d. iter_layer_specs api (UniformSpecs b d) = map snd d)"

text \<open>The attributes of a group's spec; a \<open>UniformTypeKVCacheSpecs\<close> is of none of the classes above.\<close>

fun group_block_size :: "'s spec_api \<Rightarrow> 's group_spec \<Rightarrow> int" where
  "group_block_size api (LayerSpec s) = block_size api s"
| "group_block_size api (UniformSpecs b d) = b"

fun group_page_size_bytes :: "'s spec_api \<Rightarrow> 's group_spec \<Rightarrow> int" where
  "group_page_size_bytes api (LayerSpec s) = page_size_bytes api s"
| "group_page_size_bytes api (UniformSpecs b d) = uniform_page_size_bytes api b d"

fun group_prefix_cacheable :: "'s spec_api \<Rightarrow> 's group_spec \<Rightarrow> bool" where
  "group_prefix_cacheable api (LayerSpec s) = prefix_cacheable api s"
| "group_prefix_cacheable api (UniformSpecs b d) = uniform_prefix_cacheable api b d"

fun group_isa :: "'s spec_api \<Rightarrow> 's group_spec \<Rightarrow> spec_class \<Rightarrow> bool" where
  "group_isa api (LayerSpec s) c = isa api s c"
| "group_isa api (UniformSpecs b d) c = False"

section \<open>Groups\<close>

record 's kv_group =
  layer_names :: "string list"
  kv_cache_spec :: "'s group_spec"
  is_eagle_group :: bool

definition KVCacheGroupSpec :: "string list \<Rightarrow> 's group_spec \<Rightarrow> 's kv_group" where
  "KVCacheGroupSpec names spec = \<lparr>layer_names = names, kv_cache_spec = spec, is_eagle_group = False\<rparr>"

text \<open>A fold over a list whose step may raise.\<close>

fun rfold :: "('a \<Rightarrow> 'b \<Rightarrow> 'b res) \<Rightarrow> 'a list \<Rightarrow> 'b \<Rightarrow> 'b res" where
  "rfold f [] b = Inr b"
| "rfold f (x # xs) b = rbind (f x b) (rfold f xs)"

definition get_per_layer_spec :: "'s kv_group \<Rightarrow> string \<Rightarrow> 's res" where
  "get_per_layer_spec g layer_name =
     (case kv_cache_spec g of
        UniformSpecs b d \<Rightarrow> dict_get d layer_name
      | LayerSpec s \<Rightarrow> Inr s)"

section \<open>The GLM-5.3-Flash layout\<close>

record 's glm5_layout =
  attn_group :: "'s kv_group"
  mamba_groups :: "'s kv_group list"
  mla_names :: "string list"
  idx_names :: "string list"
  mla_page :: int
  idx_page :: int
  tail_names :: "string list"
  tail_page :: int

text \<open>The scan of the uniform groups for the attention and the tail group; the last of each wins.\<close>

fun scan_uniform ::
    "'s spec_api \<Rightarrow> 's kv_group list \<Rightarrow> 's kv_group option \<Rightarrow> 's kv_group option \<Rightarrow>
       's kv_group option \<times> 's kv_group option" where
  "scan_uniform api [] attn tail = (attn, tail)"
| "scan_uniform api (g # gs) attn tail =
     (case kv_cache_spec g of
        UniformSpecs b inner \<Rightarrow>
          if list_all (\<lambda>(_, s). exactly_mla api s) inner then scan_uniform api gs (Some g) tail
          else if list_all (\<lambda>(_, s). isa api s KpoolTailSpec) inner
          then scan_uniform api gs attn (Some g)
          else scan_uniform api gs attn tail
      | LayerSpec _ \<Rightarrow> scan_uniform api gs attn tail)"

fun group_layers :: "'s group_spec \<Rightarrow> (string, 's) dict" where
  "group_layers (UniformSpecs b d) = d"
| "group_layers (LayerSpec s) = []"

definition is_uniform_group :: "'s kv_group \<Rightarrow> bool" where
  "is_uniform_group g = (case kv_cache_spec g of UniformSpecs _ _ \<Rightarrow> True | LayerSpec _ \<Rightarrow> False)"

text \<open>
  \<open>tokens_per_state == 1\<close> and \<open>> 1\<close> of the layers of a dictionary, by name; a missing name raises.
\<close>

definition names_where ::
    "'s spec_api \<Rightarrow> (int \<Rightarrow> bool) \<Rightarrow> (string, 's) dict \<Rightarrow> string list \<Rightarrow> string list res" where
  "names_where api p inner names =
     rbind (rmap (\<lambda>n. rbind (dict_get inner n) (\<lambda>s.
         Inr (n, case tokens_per_state api s of None \<Rightarrow> False | Some k \<Rightarrow> p k))) names)
       (\<lambda>xs. Inr (map fst (filter snd xs)))"

text \<open>The only element of the set of pages, if it has just one.\<close>

definition single_page :: "int list \<Rightarrow> int option" where
  "single_page ps = (case remdups ps of [p] \<Rightarrow> Some p | _ \<Rightarrow> None)"

text \<open>An early \<open>return None\<close> when the value is missing.\<close>

definition or_none :: "'a option \<Rightarrow> ('a \<Rightarrow> 'b option res) \<Rightarrow> 'b option res" where
  "or_none x f = (case x of None \<Rightarrow> Inr None | Some y \<Rightarrow> f y)"

lemma or_none_Some_iff [res_simps]: "or_none x f = Inr (Some z) \<longleftrightarrow> (\<exists>y. x = Some y \<and> f y = Inr (Some z))"
  by (simp add: or_none_def split: option.split)

definition layer_pages :: "'s spec_api \<Rightarrow> (string, 's) dict \<Rightarrow> string list \<Rightarrow> int list res" where
  "layer_pages api inner names =
     rmap (\<lambda>n. rbind (dict_get inner n) (\<lambda>s. Inr (page_size_bytes api s))) names"

definition glm5_next_tensor_layout ::
    "'s spec_api \<Rightarrow> 's kv_group list \<Rightarrow> 's glm5_layout option res" where
  "glm5_next_tensor_layout api groups =
     (let uniform = filter is_uniform_group groups;
          mamba = filter (\<lambda>g. group_isa api (kv_cache_spec g) MambaSpec) groups;
          (attn, tail) = scan_uniform api uniform None None
      in or_none attn (\<lambda>attn_g.
          if mamba = [] then Inr None
          else if length uniform + length mamba \<noteq> length groups then Inr None
          else
            let inner = group_layers (kv_cache_spec attn_g) in
            if \<not> list_all (\<lambda>(_, s). exactly_mla api s \<and> page_size_padded api s = None) inner
            then Inr None
            else
              rbind (names_where api (\<lambda>k. k = 1) inner (layer_names attn_g)) (\<lambda>mla_ns.
              rbind (names_where api (\<lambda>k. k > 1) inner (layer_names attn_g)) (\<lambda>idx_ns.
              rbind (layer_pages api inner mla_ns) (\<lambda>mla_ps.
              rbind (layer_pages api inner idx_ns) (\<lambda>idx_ps.
              or_none (single_page mla_ps) (\<lambda>mla_p.
              or_none (single_page idx_ps) (\<lambda>idx_p.
                if list_ex (\<lambda>g. group_page_size_bytes api (kv_cache_spec g) \<noteq> mla_p) mamba then Inr None
                else
                  let found = \<lambda>tail_ns tail_p. \<lparr>attn_group = attn_g, mamba_groups = mamba,
                    mla_names = mla_ns, idx_names = idx_ns, mla_page = mla_p, idx_page = idx_p,
                    tail_names = tail_ns, tail_page = tail_p\<rparr>
                  in case tail of
                      None \<Rightarrow> Inr (Some (found [] 0))
                    | Some tail_g \<Rightarrow>
                        or_none (single_page (map (\<lambda>(_, s). unpadded_page_size_bytes api s)
                            (group_layers (kv_cache_spec tail_g)))) (\<lambda>tail_p.
                          if length (layer_names tail_g) \<noteq> length idx_ns then Inr None
                          else if tail_p > idx_p then Inr None
                          else Inr (Some (found (layer_names tail_g) tail_p)))))))))))"

section \<open>Bytes of a block\<close>

text \<open>The bytes one block of a group takes: its layers' pages.\<close>

definition group_bytes :: "'s spec_api \<Rightarrow> 's kv_group \<Rightarrow> int res" where
  "group_bytes api g =
     rbind (rmap (\<lambda>n. rbind (get_per_layer_spec g n) (\<lambda>s. Inr (page_size_bytes api s))) (layer_names g))
       (\<lambda>ps. Inr (sum_list ps))"

definition get_kv_cache_bytes_per_block :: "'s spec_api \<Rightarrow> 's kv_group list \<Rightarrow> int res" where
  "get_kv_cache_bytes_per_block api groups =
     rbind (glm5_next_tensor_layout api groups) (\<lambda>l.
     case l of
       Some l \<Rightarrow> Inr (int (length (mla_names l)) * mla_page l + int (length (idx_names l)) * idx_page l)
     | None \<Rightarrow>
         rbind (rmap (group_bytes api) groups) (\<lambda>bs.
         rbind (py_max bs) (\<lambda>bytes_per_block.
         rbind (rassert (bytes_per_block > 0)) (\<lambda>_. Inr bytes_per_block))))"

definition pool_bytes_per_block :: "'s spec_api \<Rightarrow> 's kv_group list \<Rightarrow> int res" where
  "pool_bytes_per_block api groups = get_kv_cache_bytes_per_block api groups"

definition validate_kv_cache_layout ::
    "'s spec_api \<Rightarrow> kv_layout \<Rightarrow> 's kv_group list \<Rightarrow> unit res" where
  "validate_kv_cache_layout api layout groups =
     rbind (rmap (\<lambda>g. rmap (\<lambda>n. rbind (get_per_layer_spec g n) (\<lambda>s. Inr (page_size_bytes api s)))
         (layer_names g)) groups) (\<lambda>pss.
       if length (remdups (concat pss)) = 1 then Inr ()
       else if \<not> is_block_compact layout \<or> (length groups > 1 \<and> is_layer_compact layout)
       then Inl ValueError else Inr ())"

definition get_uniform_page_size :: "'s spec_api \<Rightarrow> 's group_spec list \<Rightarrow> int res" where
  "get_uniform_page_size api specs =
     (case single_page (map (group_page_size_bytes api) specs) of
        Some p \<Rightarrow> Inr p | None \<Rightarrow> Inl AssertionError)"

lemma rfold_Inr_Cons: "rfold f (x # xs) b = Inr c \<longleftrightarrow> (\<exists>b'. f x b = Inr b' \<and> rfold f xs b' = Inr c)"
  by (simp add: rbind_Inr_iff)

lemma single_page_set: "single_page ps = Some p \<Longrightarrow> set ps = {p}"
  by (auto simp: single_page_def split: list.splits dest: arg_cong[where f = set])

lemma group_bytes_pure:
  assumes "group_bytes api g = Inr b"
  shows "\<exists>ss. rmap (get_per_layer_spec g) (layer_names g) = Inr ss \<and> b = sum_list (map (page_size_bytes api) ss)"
proof -
  have "rmap (\<lambda>n. rbind (get_per_layer_spec g n) (\<lambda>s. Inr (page_size_bytes api s))) ns = Inr ps \<Longrightarrow>
      \<exists>ss. rmap (get_per_layer_spec g) ns = Inr ss \<and> ps = map (page_size_bytes api) ss" for ns ps
    by (induction ns arbitrary: ps) (auto simp: rbind_Inr_iff)
  with assms show ?thesis by (auto simp: group_bytes_def rbind_Inr_iff)
qed

lemma bytes_per_block_bound:
  assumes "get_kv_cache_bytes_per_block api groups = Inr b"
    and "glm5_next_tensor_layout api groups = Inr None" and "g \<in> set groups"
  shows "\<exists>gb. group_bytes api g = Inr gb \<and> gb \<le> b \<and> 0 < b"
proof -
  obtain bs where bs: "rmap (group_bytes api) groups = Inr bs" "py_max bs = Inr b" "0 < b"
    using assms(1,2) by (auto simp: get_kv_cache_bytes_per_block_def rbind_Inr_iff rassert_Inr_iff)
  obtain i where i: "i < length groups" "groups ! i = g" using assms(3) by (auto simp: in_set_conv_nth)
  have "group_bytes api g = Inr (bs ! i)" and "bs ! i \<in> set bs"
    using bs(1) i by (auto simp: rmap_Inr_iff list_all2_conv_all_nth)
  with py_max_Inr[OF bs(2)] bs(3) show ?thesis by blast
qed

end
