(* ===== verification/Kv_Demo.thy ===== *)
theory Kv_Demo
  imports Kv_Specs
begin

text \<open>
  A small instance of the spec interface, on which the properties of the KV-cache theories are shown
  to apply: specs of a class with a block size, bytes per token and an optional padded page; memory
  is the pages that hold \<open>max_model_len\<close> tokens; specs merge when equal, and are of uniform type when
  their classes and block sizes agree.
\<close>

record demo_spec =
  demo_class :: spec_class
  demo_block :: int
  demo_token_bytes :: int
  demo_padded :: "int option"
  demo_tokens_per_state :: int

definition demo_page :: "demo_spec \<Rightarrow> int" where
  "demo_page s = max 1 (case demo_padded s of Some p \<Rightarrow> p | None \<Rightarrow> demo_block s * demo_token_bytes s)"

definition demo_pages :: "vllm_config \<Rightarrow> demo_spec \<Rightarrow> int" where
  "demo_pages cfg s = cdiv (max_model_len cfg) (max 1 (demo_block s))"

definition demo_isa :: "demo_spec \<Rightarrow> spec_class \<Rightarrow> bool" where
  "demo_isa s c \<longleftrightarrow> demo_class s = c \<or>
     c = AttentionSpec \<and> demo_class s \<in> {FullAttentionSpec, MLAAttentionSpec, SlidingWindowSpec} \<or>
     c = FullAttentionSpec \<and> demo_class s = MLAAttentionSpec"

definition demo_uniform :: "(string, demo_spec) dict \<Rightarrow> bool" where
  "demo_uniform d \<longleftrightarrow> d \<noteq> [] \<and> list_all (\<lambda>(_, s). demo_class s = demo_class (snd (hd d)) \<and>
     demo_block s = demo_block (snd (hd d))) d"

definition demo_api :: "demo_spec spec_api" where
  "demo_api = \<lparr>
     isa = demo_isa,
     exactly_mla = (\<lambda>s. demo_class s = MLAAttentionSpec),
     spec_mro = (\<lambda>s. [demo_class s]),
     block_size = demo_block,
     page_size_bytes = demo_page,
     unpadded_page_size_bytes = (\<lambda>s. demo_block s * demo_token_bytes s),
     real_page_size_bytes = (\<lambda>s. demo_block s * demo_token_bytes s),
     page_size_padded = demo_padded,
     tokens_per_state = (\<lambda>s. Some (demo_tokens_per_state s)),
     prefix_cacheable = (\<lambda>s. demo_class s \<noteq> KpoolTailSpec),
     mamba_mode_align = (\<lambda>s. True),
     non_causal_multi_token_decode = (\<lambda>s. False),
     bytes_per_token = demo_token_bytes,
     with_block_size = (\<lambda>s b. s\<lparr>demo_block := b\<rparr>),
     with_page_size_padded = (\<lambda>s p. s\<lparr>demo_padded := Some p\<rparr>),
     with_block_and_padding = (\<lambda>s b p. s\<lparr>demo_block := b, demo_padded := Some p\<rparr>),
     with_extra_retained_tokens = (\<lambda>s n. s),
     replace_as = (\<lambda>s c b p. s\<lparr>demo_class := c, demo_block := b, demo_padded := p\<rparr>),
     merge = (\<lambda>ss. case ss of [] \<Rightarrow> Inl AssertionError
       | s # _ \<Rightarrow> if list_all (\<lambda>s'. s' = s) ss then Inr s else Inl AssertionError),
     max_memory_usage_bytes = (\<lambda>g cfg. case g of
         LayerSpec s \<Rightarrow> demo_page s * demo_pages cfg s
       | UniformSpecs b d \<Rightarrow> sum_list (map (\<lambda>(_, s). demo_page s * demo_pages cfg s) d)),
     max_memory_usage_pages = (\<lambda>d cfg. case d of [] \<Rightarrow> 0 | (_, s) # _ \<Rightarrow> demo_pages cfg s),
     uniform_page_size_bytes = (\<lambda>b d. max 1 (sum_list (map (\<lambda>(_, s). demo_page s) d))),
     uniform_prefix_cacheable = (\<lambda>b d. True),
     is_uniform_type = demo_uniform,
     uniform_from_specs = (\<lambda>d. if demo_uniform d then Some (UniformSpecs (demo_block (snd (hd d))) d) else None),
     get_max_layers_per_page_size = (\<lambda>d. foldr max (map (\<lambda>(_, s).
       int (length (filter (\<lambda>(_, s'). demo_page s' = demo_page s) d))) d) 0),
     first_spec = (\<lambda>d. snd (hd d)),
     iter_layer_specs = (\<lambda>g. case g of LayerSpec s \<Rightarrow> [s] | UniformSpecs b d \<Rightarrow> map snd d),
     compute_layout_strides = (\<lambda>s n k l b. case b of
         None \<Rightarrow> (demo_page s * n, demo_page s) | Some bs \<Rightarrow> (demo_page s, bs)),
     get_pp_indices = (\<lambda>total rank n. (rank * (total div n), (rank + 1) * (total div n))),
     extract_layer_index = (\<lambda>name. int (length name))\<rparr>"

lemma demo_api_fields [simp]:
  "isa demo_api = demo_isa"
  "exactly_mla demo_api = (\<lambda>s. demo_class s = MLAAttentionSpec)"
  "spec_mro demo_api = (\<lambda>s. [demo_class s])"
  "block_size demo_api = demo_block"
  "page_size_bytes demo_api = demo_page"
  "unpadded_page_size_bytes demo_api = (\<lambda>s. demo_block s * demo_token_bytes s)"
  "real_page_size_bytes demo_api = (\<lambda>s. demo_block s * demo_token_bytes s)"
  "page_size_padded demo_api = demo_padded"
  "tokens_per_state demo_api = (\<lambda>s. Some (demo_tokens_per_state s))"
  "prefix_cacheable demo_api = (\<lambda>s. demo_class s \<noteq> KpoolTailSpec)"
  "mamba_mode_align demo_api = (\<lambda>s. True)"
  "non_causal_multi_token_decode demo_api = (\<lambda>s. False)"
  "bytes_per_token demo_api = demo_token_bytes"
  "with_block_size demo_api = (\<lambda>s b. s\<lparr>demo_block := b\<rparr>)"
  "with_page_size_padded demo_api = (\<lambda>s p. s\<lparr>demo_padded := Some p\<rparr>)"
  "with_block_and_padding demo_api = (\<lambda>s b p. s\<lparr>demo_block := b, demo_padded := Some p\<rparr>)"
  "with_extra_retained_tokens demo_api = (\<lambda>s n. s)"
  "replace_as demo_api = (\<lambda>s c b p. s\<lparr>demo_class := c, demo_block := b, demo_padded := p\<rparr>)"
  "merge demo_api = (\<lambda>ss. case ss of [] \<Rightarrow> Inl AssertionError | s # _ \<Rightarrow> if list_all (\<lambda>s'. s' = s) ss then Inr s else Inl AssertionError)"
  "max_memory_usage_bytes demo_api = (\<lambda>g cfg. case g of LayerSpec s \<Rightarrow> demo_page s * demo_pages cfg s | UniformSpecs b d \<Rightarrow> sum_list (map (\<lambda>(_, s). demo_page s * demo_pages cfg s) d))"
  "max_memory_usage_pages demo_api = (\<lambda>d cfg. case d of [] \<Rightarrow> 0 | (_, s) # _ \<Rightarrow> demo_pages cfg s)"
  "uniform_page_size_bytes demo_api = (\<lambda>b d. max 1 (sum_list (map (\<lambda>(_, s). demo_page s) d)))"
  "uniform_prefix_cacheable demo_api = (\<lambda>b d. True)"
  "is_uniform_type demo_api = demo_uniform"
  "uniform_from_specs demo_api = (\<lambda>d. if demo_uniform d then Some (UniformSpecs (demo_block (snd (hd d))) d) else None)"
  "get_max_layers_per_page_size demo_api = (\<lambda>d. foldr max (map (\<lambda>(_, s). int (length (filter (\<lambda>(_, s'). demo_page s' = demo_page s) d))) d) 0)"
  "first_spec demo_api = (\<lambda>d. snd (hd d))"
  "iter_layer_specs demo_api = (\<lambda>g. case g of LayerSpec s \<Rightarrow> [s] | UniformSpecs b d \<Rightarrow> map snd d)"
  "compute_layout_strides demo_api = (\<lambda>s n k l b. case b of None \<Rightarrow> (demo_page s * n, demo_page s) | Some bs \<Rightarrow> (demo_page s, bs))"
  "get_pp_indices demo_api = (\<lambda>total rank n. (rank * (total div n), (rank + 1) * (total div n)))"
  "extract_layer_index demo_api = (\<lambda>name. int (length name))"
  by (simp_all add: demo_api_def)

lemma foldr_max_pos: "\<exists>x \<in> set xs. 0 < x \<Longrightarrow> 0 < foldr max xs (0 :: int)"
  by (induction xs) (auto simp: less_max_iff_disj)

lemma demo_api_uniform: "api_uniform demo_api"
proof -
  have "0 < get_max_layers_per_page_size demo_api d" if d: "d \<noteq> []" for d
  proof -
    obtain n s d' where "d = (n, s) # d'" using d by (cases d) auto
    then show ?thesis by (auto intro!: foldr_max_pos)
  qed
  then show ?thesis by (auto simp: api_uniform_def demo_isa_def)
qed

text \<open>A configuration of one worker without speculative decoding, of block-outermost layout.\<close>

definition demo_config :: "int \<Rightarrow> vllm_config" where
  "demo_config len = \<lparr>max_model_len = len, original_max_model_len = -1,
     decode_context_parallel_size = 1, pipeline_parallel_size = 1, total_num_hidden_layers = 4,
     cache_block_size = 16, enable_prefix_caching = True, has_kv_transfer_config = False,
     prefix_match_unit = None, num_gpu_blocks_override = None, prefix_cache_retention_interval = None,
     resolved_kv_cache_layout = \<lparr>is_block_compact = True, is_layer_compact = False, is_block_outermost = True\<rparr>,
     disable_hybrid_kv_cache_manager = False, speculative = None, hf_model_type = None,
     kv_grouping_env = ''''\<rparr>"

definition full_spec :: "int \<Rightarrow> demo_spec" where
  "full_spec b = \<lparr>demo_class = FullAttentionSpec, demo_block = b, demo_token_bytes = 2,
     demo_padded = None, demo_tokens_per_state = 1\<rparr>"

definition window_spec :: "int \<Rightarrow> demo_spec" where
  "window_spec b = \<lparr>demo_class = SlidingWindowSpec, demo_block = b, demo_token_bytes = 2,
     demo_padded = None, demo_tokens_per_state = 1\<rparr>"

text \<open>Two groups, of two full-attention layers and of one sliding-window layer with wider blocks.\<close>

definition demo_groups :: "demo_spec kv_group list" where
  "demo_groups = [KVCacheGroupSpec [''f0'', ''f1''] (LayerSpec (full_spec 16)),
     KVCacheGroupSpec [''w0''] (LayerSpec (window_spec 32))]"

end
