(* ===== verification/Kv_Sizing.thy ===== *)
theory Kv_Sizing
  imports Kv_Demo Block_Hashing
begin

text \<open>
  The sizes of the KV cache (\<^verbatim>\<open>kv_cache_utils.py\<close>): block sizes under decode-context parallelism,
  the scheduler's and the hashing granularity, the memory a request needs, the admission check, the
  binary searches for the longest model length that fits, and the automatic choice of that length.
  The main results: the hashing granularity divides every block size it must, the searches find the
  longest length that fits and leave the configuration as they found it, and the automatic choice is
  the largest length all workers can serve.
\<close>

section \<open>Block sizes\<close>

definition resolve_dcp_kv_block_size :: "'s spec_api \<Rightarrow> 's group_spec \<Rightarrow> int \<Rightarrow> int" where
  "resolve_dcp_kv_block_size api spec dcp_world_size =
     (let layer_specs = iter_layer_specs api spec in
      if layer_specs \<noteq> [] \<and> list_all (\<lambda>s. isa api s AttentionSpec) layer_specs
      then group_block_size api spec * dcp_world_size
      else group_block_size api spec)"

definition resolve_dcp_layer_spec :: "'s spec_api \<Rightarrow> int \<Rightarrow> 's \<Rightarrow> 's" where
  "resolve_dcp_layer_spec api dcp_world_size s =
     (let b = resolve_dcp_kv_block_size api (LayerSpec s) dcp_world_size in
      if b = block_size api s then s else with_block_size api s b)"

definition resolve_dcp_kv_cache_spec :: "'s spec_api \<Rightarrow> 's group_spec \<Rightarrow> int \<Rightarrow> 's group_spec" where
  "resolve_dcp_kv_cache_spec api spec dcp_world_size =
     (let b = resolve_dcp_kv_block_size api spec dcp_world_size in
      if b = group_block_size api spec then spec
      else case spec of
        UniformSpecs _ d \<Rightarrow>
          UniformSpecs b (map (\<lambda>(n, s). (n, resolve_dcp_layer_spec api dcp_world_size s)) d)
      | LayerSpec s \<Rightarrow> LayerSpec (with_block_size api s b))"

definition dcp_world_size_for_kv_cache_spec :: "'s spec_api \<Rightarrow> 's group_spec \<Rightarrow> int \<Rightarrow> int res" where
  "dcp_world_size_for_kv_cache_spec api spec dcp_world_size =
     (if dcp_world_size \<le> 1 then Inr 1
      else rbind (case spec of
          UniformSpecs _ d \<Rightarrow> (case d of [] \<Rightarrow> Inl StopIteration | (_, s) # _ \<Rightarrow> Inr s)
        | LayerSpec s \<Rightarrow> Inr s) (\<lambda>inner.
          Inr (if isa api inner FullAttentionSpec then dcp_world_size else 1)))"

definition resolve_kv_cache_block_sizes ::
    "'s spec_api \<Rightarrow> 's kv_group list \<Rightarrow> vllm_config \<Rightarrow> (int \<times> int) res" where
  "resolve_kv_cache_block_sizes api groups cfg =
     (let dcp = decode_context_parallel_size cfg in
      if length groups \<le> 1 then
        let bs = cache_block_size cfg * dcp in Inr (bs, bs)
      else
        let sizes = map (\<lambda>g. resolve_dcp_kv_block_size api (kv_cache_spec g) dcp) groups;
            scheduler_block_size = py_lcm sizes in
        if \<not> (enable_prefix_caching cfg \<or> has_kv_transfer_config cfg)
        then Inr (scheduler_block_size, scheduler_block_size)
        else if list_ex (\<lambda>g. list_ex (\<lambda>s. isa api s MambaSpec \<and> \<not> mamba_mode_align api s)
            (iter_layer_specs api (kv_cache_spec g))) groups
        then Inr (scheduler_block_size, scheduler_block_size)
        else
          let cacheable = map snd (filter (\<lambda>(g, b). group_prefix_cacheable api (kv_cache_spec g))
                (zip groups sizes));
              hashing_sizes = (if cacheable = [] then sizes else cacheable);
              hash_block_size = (case prefix_match_unit cfg of
                Some u \<Rightarrow> u | None \<Rightarrow> py_gcd hashing_sizes) in
          if hash_block_size = 0 then Inl ZeroDivisionError
          else if list_ex (\<lambda>b. b mod hash_block_size \<noteq> 0) hashing_sizes then Inl ValueError
          else
            let alignments = concat (map (\<lambda>g. concat (map (\<lambda>s.
                  case tokens_per_state api s of
                    Some k \<Rightarrow> if prefix_cacheable api s \<and> k > 1 then [k] else []
                  | None \<Rightarrow> []) (iter_layer_specs api (kv_cache_spec g)))) groups);
                has_partial_mamba_group = list_ex (\<lambda>(g, b). list_ex (\<lambda>s.
                  isa api s MambaSpec \<and> mamba_mode_align api s \<and>
                  ((dcp = 1 \<and> b > hash_block_size) \<or> (dcp > 1 \<and> b \<ge> hash_block_size)))
                  (iter_layer_specs api (kv_cache_spec g))) (zip groups sizes);
                cache_hit_alignment =
                  (if has_partial_mamba_group then hash_block_size else scheduler_block_size) in
            if list_ex (\<lambda>a. cache_hit_alignment mod a \<noteq> 0) alignments then Inl ValueError
            else Inr (scheduler_block_size, hash_block_size))"

section \<open>Memory of a request\<close>

definition specs_max_memory_usage_bytes :: "'s spec_api \<Rightarrow> vllm_config \<Rightarrow> 's list \<Rightarrow> int" where
  "specs_max_memory_usage_bytes api cfg specs =
     sum_list (map (\<lambda>s. max_memory_usage_bytes api (LayerSpec s) cfg) specs)"

definition group_request_blocks :: "'s spec_api \<Rightarrow> vllm_config \<Rightarrow> 's group_spec \<Rightarrow> int res" where
  "group_request_blocks api cfg spec =
     py_cdiv (max_memory_usage_bytes api spec cfg) (group_page_size_bytes api spec)"

text \<open>The blocks a request at \<open>max_model_len\<close> takes, the divisor of the maximum concurrency.\<close>

definition num_blocks_per_request :: "'s spec_api \<Rightarrow> vllm_config \<Rightarrow> 's kv_group list \<Rightarrow> int res" where
  "num_blocks_per_request api cfg groups =
     rbind (rmap (\<lambda>g. group_request_blocks api cfg (kv_cache_spec g)) groups) (\<lambda>ns. Inr (sum_list ns))"

definition may_override_num_blocks :: "vllm_config \<Rightarrow> int \<Rightarrow> int" where
  "may_override_num_blocks cfg num_blocks =
     (case num_gpu_blocks_override cfg of Some n \<Rightarrow> n | None \<Rightarrow> num_blocks)"

definition max_memory_usage_bytes_from_groups ::
    "'s spec_api \<Rightarrow> 's kv_group list \<Rightarrow> vllm_config \<Rightarrow> int res" where
  "max_memory_usage_bytes_from_groups api groups cfg =
     (if groups = [] then Inr 0
      else rbind (glm5_next_tensor_layout api groups) (\<lambda>l. case l of
        Some l \<Rightarrow>
          let pages = max_memory_usage_pages api (group_layers (kv_cache_spec (attn_group l))) cfg in
          rbind (rmap (\<lambda>g. group_request_blocks api cfg (kv_cache_spec g)) (mamba_groups l)) (\<lambda>ns.
          let total_blocks = pages + sum_list ns + (if tail_names l \<noteq> [] then 1 else 0) in
          Inr (total_blocks *
            (int (length (mla_names l)) * mla_page l + int (length (idx_names l)) * idx_page l)))
      | None \<Rightarrow>
          rbind (pool_bytes_per_block api groups) (\<lambda>bytes_per_block.
          rbind (rmap (\<lambda>g. case kv_cache_spec g of
              UniformSpecs _ d \<Rightarrow> Inr (max_memory_usage_pages api d cfg)
            | LayerSpec s \<Rightarrow> group_request_blocks api cfg (LayerSpec s)) groups) (\<lambda>ns.
          Inr (bytes_per_block * sum_list ns)))))"

section \<open>The search for the longest length\<close>

text \<open>
  Both searches set the configuration's \<open>max_model_len\<close> for each trial and restore it in a
  \<open>finally\<close>; \<open>mem\<close> is the memory they compare with the limit.
\<close>

definition fits_memory ::
    "(vllm_config \<Rightarrow> int res) \<Rightarrow> int \<Rightarrow> int \<Rightarrow> vllm_config \<Rightarrow> (vllm_config, bool) outcome" where
  "fits_memory mem available_memory model_len cfg =
     (let cfg = cfg\<lparr>max_model_len := model_len\<rparr>
      in (rbind (mem cfg) (\<lambda>m. Inr (m \<le> available_memory)), cfg))"

function search_loop ::
    "(vllm_config \<Rightarrow> int res) \<Rightarrow> int \<Rightarrow> int \<Rightarrow> int \<Rightarrow> int \<Rightarrow> vllm_config \<Rightarrow> (vllm_config, int) outcome" where
  "search_loop mem available_memory left right result cfg =
     (if left \<le> right then
        let mid = (left + right) div 2 in
        case fits_memory mem available_memory mid cfg of
          (Inl e, cfg) \<Rightarrow> (Inl e, cfg)
        | (Inr ok, cfg) \<Rightarrow>
            if ok then search_loop mem available_memory (mid + 1) right mid cfg
            else search_loop mem available_memory left (mid - 1) result cfg
      else (Inr result, cfg))"
  by pat_completeness auto
termination
  by (relation "measure (\<lambda>(mem, a, left, right, result, cfg). nat (right - left + 1))") auto

declare search_loop.simps [simp del]

definition search_max_model_len ::
    "(vllm_config \<Rightarrow> int res) \<Rightarrow> int \<Rightarrow> vllm_config \<Rightarrow> (vllm_config, int) outcome" where
  "search_max_model_len mem available_memory cfg =
     (let original_max = max_model_len cfg;
          (r, cfg) = (case fits_memory mem available_memory 1 cfg of
             (Inl e, cfg) \<Rightarrow> (Inl e, cfg)
           | (Inr ok, cfg) \<Rightarrow>
               if \<not> ok then (Inr 0, cfg)
               else search_loop mem available_memory 1 original_max 1 cfg)
      in (r, cfg\<lparr>max_model_len := original_max\<rparr>))"

definition estimate_max_model_len ::
    "'s spec_api \<Rightarrow> vllm_config \<Rightarrow> (string, 's) dict \<Rightarrow> int \<Rightarrow> (vllm_config, int) outcome" where
  "estimate_max_model_len api cfg specs available_memory =
     search_max_model_len (\<lambda>cfg. Inr (specs_max_memory_usage_bytes api cfg (map snd specs)))
       available_memory cfg"

definition estimate_max_model_len_from_groups ::
    "'s spec_api \<Rightarrow> vllm_config \<Rightarrow> 's kv_group list \<Rightarrow> int \<Rightarrow> (vllm_config, int) outcome" where
  "estimate_max_model_len_from_groups api cfg groups available_memory =
     search_max_model_len (max_memory_usage_bytes_from_groups api groups) available_memory cfg"

text \<open>
  The admission check: the needed memory is computed by \<open>needed\<close>, and the length in the message by
  \<open>estimate\<close>.
\<close>

definition check_enough_memory ::
    "int \<Rightarrow> (vllm_config \<Rightarrow> int res) \<Rightarrow> (vllm_config \<Rightarrow> int \<Rightarrow> (vllm_config, int) outcome) \<Rightarrow>
       vllm_config \<Rightarrow> (vllm_config, unit) outcome" where
  "check_enough_memory available_memory needed estimate cfg =
     (if available_memory \<le> 0 then (Inl ValueError, cfg)
      else case needed cfg of
        Inl e \<Rightarrow> (Inl e, cfg)
      | Inr needed_memory \<Rightarrow>
          if needed_memory > available_memory then
            (case estimate cfg available_memory of
               (Inl e, cfg) \<Rightarrow> (Inl e, cfg)
             | (Inr _, cfg) \<Rightarrow> (Inl ValueError, cfg))
          else (Inr (), cfg))"

text \<open>The loop over the workers that have groups, with the smallest length so far.\<close>

fun auto_fit_loop ::
    "'s spec_api \<Rightarrow> ('s kv_group list \<times> int) list \<Rightarrow> int \<Rightarrow> vllm_config \<Rightarrow> (vllm_config, int) outcome" where
  "auto_fit_loop api [] auto_fit_max cfg = (Inr auto_fit_max, cfg)"
| "auto_fit_loop api ((groups, avail_mem) # ws) auto_fit_max cfg =
     (if groups = [] then auto_fit_loop api ws auto_fit_max cfg
      else case estimate_max_model_len_from_groups api cfg groups avail_mem of
        (Inl e, cfg) \<Rightarrow> (Inl e, cfg)
      | (Inr worker_max, cfg) \<Rightarrow>
          auto_fit_loop api ws (if worker_max < auto_fit_max then worker_max else auto_fit_max) cfg)"

definition auto_fit_max_model_len ::
    "'s spec_api \<Rightarrow> vllm_config \<Rightarrow> 's kv_group list list \<Rightarrow> int list \<Rightarrow> (vllm_config, unit) outcome" where
  "auto_fit_max_model_len api cfg projected available_memory =
     (let original_max = max_model_len cfg in
      if list_all (\<lambda>gs. gs = []) projected then (Inr (), cfg)
      else if available_memory = [] then (Inl IndexError, cfg)
      else case auto_fit_loop api (zip projected available_memory) original_max cfg of
        (Inl e, cfg) \<Rightarrow> (Inl e, cfg)
      | (Inr auto_fit_max, cfg) \<Rightarrow>
          if auto_fit_max \<le> 0 then (Inl ValueError, cfg)
          else if auto_fit_max \<ge> original_max then (Inr (), cfg)
          else (Inr (), cfg\<lparr>max_model_len := auto_fit_max\<rparr>))"

section \<open>Chunk sizes\<close>

text \<open>The total padding of the values at chunk \<open>d\<close>, and the scan over the candidates.\<close>

definition total_padding :: "int list \<Rightarrow> int \<Rightarrow> int" where
  "total_padding vals d = sum_list (map (\<lambda>x. (d - (x mod d)) mod d) vals)"

fun best_chunk :: "int list \<Rightarrow> int list \<Rightarrow> int \<Rightarrow> int option \<Rightarrow> int" where
  "best_chunk vals [] best_d best_pad = best_d"
| "best_chunk vals (d # ds) best_d best_pad =
     (let pad = total_padding vals d in
      if (case best_pad of None \<Rightarrow> True | Some b \<Rightarrow> pad < b \<or> (pad = b \<and> d > best_d))
      then best_chunk vals ds d (Some pad)
      else best_chunk vals ds best_d best_pad)"

definition approximate_gcd :: "int list \<Rightarrow> int option \<Rightarrow> int res" where
  "approximate_gcd vals lower_bound =
     (if vals = [] then Inl ValueError
      else if list_ex (\<lambda>x. x \<le> 0) vals then Inl ValueError
      else
        let min_d = max 1 (case lower_bound of None \<Rightarrow> 1 | Some b \<Rightarrow> b) in
        rbind (py_max vals) (\<lambda>max_d.
          if min_d > max_d then Inr min_d
          else Inr (best_chunk vals [min_d..max_d] min_d None)))"

function divisor_loop :: "int \<Rightarrow> int \<Rightarrow> int" where
  "divisor_loop value candidate =
     (if candidate \<le> 0 then 1
      else if value mod candidate = 0 then candidate
      else divisor_loop value (candidate - 1))"
  by pat_completeness auto
termination
  by (relation "measure (\<lambda>(value, c). nat c)") auto

declare divisor_loop.simps [simp del]

definition largest_divisor_at_most :: "int \<Rightarrow> int \<Rightarrow> int" where
  "largest_divisor_at_most value limit = divisor_loop value (min value limit)"

section \<open>The searches are right\<close>

definition mem_at :: "(vllm_config \<Rightarrow> int res) \<Rightarrow> vllm_config \<Rightarrow> int \<Rightarrow> int res" where
  "mem_at mem cfg n = mem (cfg\<lparr>max_model_len := n\<rparr>)"

definition len_fits :: "(vllm_config \<Rightarrow> int res) \<Rightarrow> int \<Rightarrow> vllm_config \<Rightarrow> int \<Rightarrow> bool" where
  "len_fits mem avail cfg n \<longleftrightarrow> (\<exists>m. mem_at mem cfg n = Inr m \<and> m \<le> avail)"

text \<open>Up to a length, the memory is computed without an exception and grows with the length.\<close>

definition memory_grows :: "(vllm_config \<Rightarrow> int res) \<Rightarrow> vllm_config \<Rightarrow> int \<Rightarrow> bool" where
  "memory_grows mem cfg hi \<longleftrightarrow> (\<forall>m n. 1 \<le> m \<and> m \<le> n \<and> n \<le> hi \<longrightarrow>
     (\<exists>a b. mem_at mem cfg m = Inr a \<and> mem_at mem cfg n = Inr b \<and> a \<le> b))"

lemma memory_growsD:
  assumes "memory_grows mem cfg hi" and "1 \<le> m" and "m \<le> n" and "n \<le> hi"
  shows "len_fits mem avail cfg n \<Longrightarrow> len_fits mem avail cfg m"
    and "\<exists>b. mem_at mem cfg n = Inr b"
proof -
  from assms obtain a b where "mem_at mem cfg m = Inr a" "mem_at mem cfg n = Inr b" "a \<le> b"
    unfolding memory_grows_def by blast
  then show "len_fits mem avail cfg n \<Longrightarrow> len_fits mem avail cfg m"
    and "\<exists>b. mem_at mem cfg n = Inr b" by (auto simp: len_fits_def)
qed

lemma fits_memory_at:
  assumes "mem_at mem cfg n = Inr b"
  shows "fits_memory mem avail n (cfg\<lparr>max_model_len := x\<rparr>) =
    (Inr (len_fits mem avail cfg n), cfg\<lparr>max_model_len := n\<rparr>)"
  using assms by (simp add: fits_memory_def mem_at_def len_fits_def Let_def)

lemma search_loop_largest:
  assumes "memory_grows mem cfg hi" and "1 \<le> left" and "right \<le> hi" and "left \<le> right + 1"
    and "result = max 1 (left - 1)" and "result \<le> hi" and "len_fits mem avail cfg result"
    and "\<forall>n. right < n \<and> n \<le> hi \<longrightarrow> \<not> len_fits mem avail cfg n"
  shows "\<exists>k y. search_loop mem avail left right result (cfg\<lparr>max_model_len := x\<rparr>) =
      (Inr k, cfg\<lparr>max_model_len := y\<rparr>) \<and> 1 \<le> k \<and> k \<le> hi \<and> len_fits mem avail cfg k \<and>
      (\<forall>n. k < n \<and> n \<le> hi \<longrightarrow> \<not> len_fits mem avail cfg n)"
  using assms(2-8)
proof (induction "nat (right - left + 1)" arbitrary: left right result x rule: less_induct)
  case less
  show ?case
  proof (cases "left \<le> right")
    case False
    then have "right = left - 1" using less.prems(3) by simp
    with False less.prems show ?thesis by (subst search_loop.simps) (auto simp: max_def)
  next
    case True
    let ?mid = "(left + right) div 2"
    have mid: "left \<le> ?mid" "?mid \<le> right" using True by auto
    obtain b where b: "mem_at mem cfg ?mid = Inr b"
      using memory_growsD(2)[OF assms(1), of "?mid" "?mid"] mid less.prems by auto
    note step = fits_memory_at[OF b, of avail x]
    show ?thesis
    proof (cases "len_fits mem avail cfg ?mid")
      case fits: True
      have "\<exists>k y. search_loop mem avail (?mid + 1) right ?mid (cfg\<lparr>max_model_len := ?mid\<rparr>) =
          (Inr k, cfg\<lparr>max_model_len := y\<rparr>) \<and> 1 \<le> k \<and> k \<le> hi \<and> len_fits mem avail cfg k \<and>
          (\<forall>n. k < n \<and> n \<le> hi \<longrightarrow> \<not> len_fits mem avail cfg n)"
        by (rule less.hyps) (use mid less.prems fits in auto)
      then show ?thesis using True step fits by (subst search_loop.simps) (simp add: Let_def)
    next
      case nofit: False
      have over: "\<not> len_fits mem avail cfg n" if "?mid \<le> n" "n \<le> hi" for n
        using memory_growsD(1)[OF assms(1) _ that] nofit mid less.prems(1) by force
      have "\<exists>k y. search_loop mem avail left (?mid - 1) result (cfg\<lparr>max_model_len := ?mid\<rparr>) =
          (Inr k, cfg\<lparr>max_model_len := y\<rparr>) \<and> 1 \<le> k \<and> k \<le> hi \<and> len_fits mem avail cfg k \<and>
          (\<forall>n. k < n \<and> n \<le> hi \<longrightarrow> \<not> len_fits mem avail cfg n)"
        by (rule less.hyps) (use mid less.prems over in auto)
      then show ?thesis using True step nofit by (subst search_loop.simps) (simp add: Let_def)
    qed
  qed
qed

text \<open>What a search returns: the longest length that fits, or 0.\<close>

definition longest_fit :: "(vllm_config \<Rightarrow> int res) \<Rightarrow> int \<Rightarrow> vllm_config \<Rightarrow> int \<Rightarrow> bool" where
  "longest_fit mem avail cfg k \<longleftrightarrow> 0 \<le> k \<and> k \<le> max_model_len cfg \<and>
     (k = 0 \<or> len_fits mem avail cfg k) \<and>
     (\<forall>n. k < n \<and> n \<le> max_model_len cfg \<longrightarrow> \<not> len_fits mem avail cfg n)"

lemma restore_config: "(cfg\<lparr>max_model_len := x\<rparr>)\<lparr>max_model_len := max_model_len cfg\<rparr> = cfg"
  by simp

lemma search_longest:
  assumes g: "memory_grows mem cfg (max_model_len cfg)" and one: "1 \<le> max_model_len cfg"
  shows "\<exists>k. search_max_model_len mem avail cfg = (Inr k, cfg) \<and> longest_fit mem avail cfg k"
proof -
  let ?hi = "max_model_len cfg"
  obtain b where b: "mem_at mem cfg 1 = Inr b" using memory_growsD(2)[OF g, of 1 1] one by auto
  have step: "fits_memory mem avail 1 cfg = (Inr (len_fits mem avail cfg 1), cfg\<lparr>max_model_len := 1\<rparr>)"
    using fits_memory_at[OF b, of avail ?hi] by simp
  show ?thesis
  proof (cases "len_fits mem avail cfg 1")
    case False
    then have "\<not> len_fits mem avail cfg n" if "0 < n" "n \<le> ?hi" for n
      using memory_growsD(1)[OF g, of 1 n] that by auto
    with False one step show ?thesis
      by (auto simp: search_max_model_len_def longest_fit_def Let_def)
  next
    case True
    obtain k y where k: "search_loop mem avail 1 ?hi 1 (cfg\<lparr>max_model_len := 1\<rparr>) =
        (Inr k, cfg\<lparr>max_model_len := y\<rparr>)" "1 \<le> k" "k \<le> ?hi" "len_fits mem avail cfg k"
        "\<forall>n. k < n \<and> n \<le> ?hi \<longrightarrow> \<not> len_fits mem avail cfg n"
    proof -
      have "\<exists>k y. search_loop mem avail 1 ?hi 1 (cfg\<lparr>max_model_len := 1\<rparr>) = (Inr k, cfg\<lparr>max_model_len := y\<rparr>) \<and>
          1 \<le> k \<and> k \<le> ?hi \<and> len_fits mem avail cfg k \<and>
          (\<forall>n. k < n \<and> n \<le> ?hi \<longrightarrow> \<not> len_fits mem avail cfg n)"
        by (rule search_loop_largest[OF g]) (use True one in auto)
      then show ?thesis using that by blast
    qed
    then show ?thesis using True step
      by (auto simp: search_max_model_len_def longest_fit_def Let_def restore_config)
  qed
qed

lemma search_loop_config:
  "\<exists>y. snd (search_loop mem avail left right result (cfg\<lparr>max_model_len := x\<rparr>)) = cfg\<lparr>max_model_len := y\<rparr>"
proof (induction "nat (right - left + 1)" arbitrary: left right result x rule: less_induct)
  case less
  let ?mid = "(left + right) div 2" and ?c = "cfg\<lparr>max_model_len := x\<rparr>"
  show ?case
  proof (cases "left \<le> right")
    case False
    then show ?thesis by (subst search_loop.simps) auto
  next
    case True
    obtain r where step: "fits_memory mem avail ?mid ?c = (r, cfg\<lparr>max_model_len := ?mid\<rparr>)"
      by (simp add: fits_memory_def Let_def)
    have "\<exists>y. snd (search_loop mem avail (?mid + 1) right ?mid (cfg\<lparr>max_model_len := ?mid\<rparr>)) =
        cfg\<lparr>max_model_len := y\<rparr>"
      and "\<exists>y. snd (search_loop mem avail left (?mid - 1) result (cfg\<lparr>max_model_len := ?mid\<rparr>)) =
        cfg\<lparr>max_model_len := y\<rparr>"
      by (rule less.hyps, use True in auto)+
    then show ?thesis using True step
      by (subst search_loop.simps) (auto simp: Let_def split: sum.split)
  qed
qed

lemma search_restores: "snd (search_max_model_len mem avail cfg) = cfg"
proof -
  obtain r where step: "fits_memory mem avail 1 cfg = (r, cfg\<lparr>max_model_len := 1\<rparr>)"
    by (simp add: fits_memory_def Let_def)
  obtain y where "snd (search_loop mem avail 1 (max_model_len cfg) 1 (cfg\<lparr>max_model_len := 1\<rparr>)) =
      cfg\<lparr>max_model_len := y\<rparr>"
    using search_loop_config by blast
  then show ?thesis
    by (auto simp: search_max_model_len_def step Let_def restore_config case_prod_beta split: sum.split)
qed

section \<open>Memory grows with the length\<close>

text \<open>
  What the search relies on of the spec classes: pages are not empty, and a longer maximum length
  never needs less memory.
\<close>

definition spec_memory_law :: "'s spec_api \<Rightarrow> bool" where
  "spec_memory_law api \<longleftrightarrow>
     (\<forall>s. 0 < page_size_bytes api s) \<and> (\<forall>b d. 0 < uniform_page_size_bytes api b d) \<and>
     (\<forall>g cfg m n. m \<le> n \<longrightarrow> max_memory_usage_bytes api g (cfg\<lparr>max_model_len := m\<rparr>) \<le>
        max_memory_usage_bytes api g (cfg\<lparr>max_model_len := n\<rparr>)) \<and>
     (\<forall>d cfg m n. m \<le> n \<longrightarrow> max_memory_usage_pages api d (cfg\<lparr>max_model_len := m\<rparr>) \<le>
        max_memory_usage_pages api d (cfg\<lparr>max_model_len := n\<rparr>))"

lemma spec_memory_page_pos:
  assumes "spec_memory_law api"
  shows "0 < group_page_size_bytes api g"
  using assms by (cases g) (auto simp: spec_memory_law_def)

lemma group_request_blocks_law:
  assumes "spec_memory_law api"
  shows "group_request_blocks api cfg g =
      Inr (cdiv (max_memory_usage_bytes api g cfg) (group_page_size_bytes api g))"
    and "m \<le> n \<Longrightarrow>
      cdiv (max_memory_usage_bytes api g (cfg\<lparr>max_model_len := m\<rparr>)) (group_page_size_bytes api g) \<le>
      cdiv (max_memory_usage_bytes api g (cfg\<lparr>max_model_len := n\<rparr>)) (group_page_size_bytes api g)"
proof -
  note pos = spec_memory_page_pos[OF assms, of g]
  show "group_request_blocks api cfg g =
      Inr (cdiv (max_memory_usage_bytes api g cfg) (group_page_size_bytes api g))"
    using pos by (simp add: group_request_blocks_def py_cdiv_def)
  assume "m \<le> n"
  then show "cdiv (max_memory_usage_bytes api g (cfg\<lparr>max_model_len := m\<rparr>)) (group_page_size_bytes api g) \<le>
      cdiv (max_memory_usage_bytes api g (cfg\<lparr>max_model_len := n\<rparr>)) (group_page_size_bytes api g)"
    using assms by (intro cdiv_mono[OF pos]) (auto simp: spec_memory_law_def)
qed

lemma sum_list_map_mono:
  "(\<And>x. x \<in> set xs \<Longrightarrow> f x \<le> g x) \<Longrightarrow> sum_list (map f xs) \<le> sum_list (map (g :: 'a \<Rightarrow> int) xs)"
  by (induction xs) (auto intro: add_mono)

lemma glm5_pages_pos:
  assumes "spec_memory_law api" and "glm5_next_tensor_layout api groups = Inr (Some l)"
  shows "0 < mla_page l" and "0 < idx_page l"
proof -
  have page: "0 < p" if "layer_pages api inner ns = Inr ps"
    and "single_page ps = Some p" for inner ns ps p
  proof -
    have "\<forall>q \<in> set ps. 0 < q"
      using that(1) assms(1) unfolding layer_pages_def
      by (induction ns arbitrary: ps) (auto simp: rbind_Inr_iff spec_memory_law_def)
    then show ?thesis using single_page_set[OF that(2)] by simp
  qed
  have "\<exists>inner mla_ns idx_ns mla_ps idx_ps.
      layer_pages api inner mla_ns = Inr mla_ps \<and>
      layer_pages api inner idx_ns = Inr idx_ps \<and>
      single_page mla_ps = Some (mla_page l) \<and> single_page idx_ps = Some (idx_page l)"
    using assms(2) unfolding glm5_next_tensor_layout_def Let_def
    by (auto simp: res_simps rbind_Inr_iff split: prod.split_asm option.split_asm if_split_asm) blast+
  then show "0 < mla_page l" and "0 < idx_page l" by (auto dest: page)
qed

lemma groups_memory_grows:
  assumes law: "spec_memory_law api" and ok: "max_memory_usage_bytes_from_groups api groups cfg0 = Inr m0"
  shows "memory_grows (max_memory_usage_bytes_from_groups api groups) cfg hi"
  unfolding memory_grows_def
proof (intro allI impI)
  fix m n :: int assume mn: "1 \<le> m \<and> m \<le> n \<and> n \<le> hi"
  note blocks = group_request_blocks_law[OF law]
  show "\<exists>a b. mem_at (max_memory_usage_bytes_from_groups api groups) cfg m = Inr a \<and>
      mem_at (max_memory_usage_bytes_from_groups api groups) cfg n = Inr b \<and> a \<le> b"
  proof (cases "groups = []")
    case True
    then show ?thesis by (simp add: mem_at_def max_memory_usage_bytes_from_groups_def)
  next
    case ne: False
    obtain l where l: "glm5_next_tensor_layout api groups = Inr l"
      using ok ne by (auto simp: max_memory_usage_bytes_from_groups_def rbind_Inr_iff)
    show ?thesis
    proof (cases l)
      case (Some x)
      note pos = glm5_pages_pos[OF law l[unfolded Some]]
      show ?thesis using ne mn law
        by (auto simp: mem_at_def max_memory_usage_bytes_from_groups_def l Some blocks(1) Let_def
            spec_memory_law_def intro!: mult_right_mono add_mono add_nonneg_nonneg sum_list_map_mono
            mult_nonneg_nonneg blocks(2) less_imp_le[OF pos(1)] less_imp_le[OF pos(2)])
    next
      case None
      obtain bpb where bpb: "pool_bytes_per_block api groups = Inr bpb"
        using ok ne l by (auto simp: max_memory_usage_bytes_from_groups_def rbind_Inr_iff None)
      then have pos: "0 < bpb"
        using l by (auto simp: pool_bytes_per_block_def get_kv_cache_bytes_per_block_def None rbind_Inr_iff
            rassert_Inr_iff)
      let ?f = "\<lambda>k g. case kv_cache_spec g of
            UniformSpecs _ d \<Rightarrow> max_memory_usage_pages api d (cfg\<lparr>max_model_len := k\<rparr>)
          | LayerSpec s \<Rightarrow> cdiv (max_memory_usage_bytes api (LayerSpec s) (cfg\<lparr>max_model_len := k\<rparr>))
              (group_page_size_bytes api (LayerSpec s))"
      have f: "(\<lambda>g. case kv_cache_spec g of
              UniformSpecs _ d \<Rightarrow> Inr (max_memory_usage_pages api d (cfg\<lparr>max_model_len := k\<rparr>))
            | LayerSpec s \<Rightarrow> group_request_blocks api (cfg\<lparr>max_model_len := k\<rparr>) (LayerSpec s)) =
          (\<lambda>g. Inr (?f k g))" for k
        by (rule ext) (simp add: blocks(1) split: group_spec.split)
      have at: "mem_at (max_memory_usage_bytes_from_groups api groups) cfg k =
          Inr (bpb * sum_list (map (?f k) groups))" for k
        using ne by (simp add: mem_at_def max_memory_usage_bytes_from_groups_def l None bpb f)
      have "?f m g \<le> ?f n g" for g
        using mn law blocks(2)[of m n "kv_cache_spec g" cfg]
        by (auto simp: spec_memory_law_def split: group_spec.split)
      then have "sum_list (map (?f m) groups) \<le> sum_list (map (?f n) groups)"
        by (intro sum_list_map_mono)
      then show ?thesis using pos unfolding at by (auto intro: mult_left_mono)
    qed
  qed
qed

section \<open>Automatic choice of the length\<close>

text \<open>Every worker with groups can serve length \<open>n\<close>.\<close>

definition all_fit ::
    "'s spec_api \<Rightarrow> ('s kv_group list \<times> int) list \<Rightarrow> vllm_config \<Rightarrow> int \<Rightarrow> bool" where
  "all_fit api ws cfg n \<longleftrightarrow> (\<forall>(groups, avail) \<in> set ws. groups = [] \<or>
     len_fits (max_memory_usage_bytes_from_groups api groups) avail cfg n)"

text \<open>The groups a worker has can be priced: no missing names, no empty group set.\<close>

definition groups_priced :: "'s spec_api \<Rightarrow> 's kv_group list \<Rightarrow> bool" where
  "groups_priced api groups \<longleftrightarrow> (\<exists>cfg m. max_memory_usage_bytes_from_groups api groups cfg = Inr m)"

lemma estimate_longest:
  assumes "spec_memory_law api" and "groups_priced api groups" and "1 \<le> max_model_len cfg"
  shows "\<exists>k. estimate_max_model_len_from_groups api cfg groups avail = (Inr k, cfg) \<and>
    longest_fit (max_memory_usage_bytes_from_groups api groups) avail cfg k"
proof -
  from assms(2) obtain cfg0 m0 where "max_memory_usage_bytes_from_groups api groups cfg0 = Inr m0"
    by (auto simp: groups_priced_def)
  from search_longest[OF groups_memory_grows[OF assms(1) this] assms(3)]
  show ?thesis by (simp add: estimate_max_model_len_from_groups_def)
qed

lemma longest_fit_iff:
  assumes "longest_fit mem avail cfg k" and "memory_grows mem cfg (max_model_len cfg)"
    and "1 \<le> n" and "n \<le> max_model_len cfg"
  shows "len_fits mem avail cfg n \<longleftrightarrow> n \<le> k"
proof (cases "n \<le> k")
  case True
  then show ?thesis using assms memory_growsD(1)[OF assms(2,3), of k avail]
    by (auto simp: longest_fit_def)
next
  case False
  then show ?thesis using assms by (auto simp: longest_fit_def)
qed

lemma auto_fit_loop_min:
  assumes "spec_memory_law api" and "\<forall>(groups, avail) \<in> set ws. groups_priced api groups"
    and "1 \<le> max_model_len cfg" and "0 \<le> acc"
  shows "\<exists>k. auto_fit_loop api ws acc cfg = (Inr k, cfg) \<and> 0 \<le> k \<and> k \<le> acc \<and>
    (\<forall>n. 1 \<le> n \<and> n \<le> acc \<and> n \<le> max_model_len cfg \<longrightarrow> (all_fit api ws cfg n \<longleftrightarrow> n \<le> k))"
  using assms(2,4)
proof (induction ws arbitrary: acc)
  case Nil
  then show ?case by (simp add: all_fit_def)
next
  case (Cons w ws)
  obtain groups avail where w: "w = (groups, avail)" by (cases w)
  show ?case
  proof (cases "groups = []")
    case True
    then show ?thesis using Cons by (simp add: w all_fit_def)
  next
    case False
    let ?mem = "max_memory_usage_bytes_from_groups api groups"
    have p: "groups_priced api groups" using Cons.prems(1) by (simp add: w)
    then have g: "memory_grows ?mem cfg (max_model_len cfg)"
      using groups_memory_grows[OF assms(1)] by (auto simp: groups_priced_def)
    obtain k where k: "estimate_max_model_len_from_groups api cfg groups avail = (Inr k, cfg)"
      and best: "longest_fit ?mem avail cfg k"
      using estimate_longest[OF assms(1) p assms(3)] by blast
    define acc' where "acc' = (if k < acc then k else acc)"
    have "0 \<le> acc'" using best Cons.prems(2) by (simp add: acc'_def longest_fit_def)
    then obtain j where j: "auto_fit_loop api ws acc' cfg = (Inr j, cfg)" "0 \<le> j" "j \<le> acc'"
      "\<forall>n. 1 \<le> n \<and> n \<le> acc' \<and> n \<le> max_model_len cfg \<longrightarrow> (all_fit api ws cfg n \<longleftrightarrow> n \<le> j)"
      using Cons.IH[of acc'] Cons.prems(1) by auto
    have "all_fit api (w # ws) cfg n \<longleftrightarrow> n \<le> j" if n: "1 \<le> n" "n \<le> acc" "n \<le> max_model_len cfg" for n
    proof -
      have "all_fit api (w # ws) cfg n \<longleftrightarrow> n \<le> k \<and> all_fit api ws cfg n"
        using longest_fit_iff[OF best g n(1,3)] False by (simp add: all_fit_def w)
      also have "\<dots> \<longleftrightarrow> n \<le> j"
      proof (cases "n \<le> k")
        case True
        then have "n \<le> acc'" using n by (simp add: acc'_def)
        then show ?thesis using j(4) n True by blast
      next
        case False
        then show ?thesis using j(3) by (auto simp: acc'_def split: if_splits)
      qed
      finally show ?thesis .
    qed
    moreover have "auto_fit_loop api (w # ws) acc cfg = (Inr j, cfg)"
      using False k j(1) by (simp add: w acc'_def)
    moreover have "j \<le> acc" using j(3) by (auto simp: acc'_def split: if_splits)
    ultimately show ?thesis using j(2) by blast
  qed
qed

section \<open>Chunk sizes are right\<close>

lemma divisor_loop_largest:
  assumes "1 \<le> value" and "0 \<le> c"
  shows "1 \<le> divisor_loop value c \<and> divisor_loop value c dvd value \<and>
    (divisor_loop value c \<le> c \<or> divisor_loop value c = 1) \<and>
    (\<forall>d. 1 \<le> d \<and> d \<le> c \<and> d dvd value \<longrightarrow> d \<le> divisor_loop value c)"
  using assms(2)
proof (induction "nat c" arbitrary: c)
  case 0
  then show ?case by (subst divisor_loop.simps) (auto simp: divisor_loop.simps)
next
  case (Suc n)
  then have c: "0 < c" by linarith
  show ?case
  proof (cases "value mod c = 0")
    case True
    have "divisor_loop value c = c" using c True by (subst divisor_loop.simps) simp
    then show ?thesis using c True by (auto simp: mod_eq_0_iff_dvd)
  next
    case False
    have e: "divisor_loop value c = divisor_loop value (c - 1)"
      using c False by (subst divisor_loop.simps) simp
    have "d \<le> c - 1" if "d \<le> c" "d dvd value" for d
      using that False by (cases "d = c") (auto simp: mod_eq_0_iff_dvd)
    then show ?thesis using Suc(1)[of "c - 1"] Suc(2) c unfolding e by fastforce
  qed
qed

lemma best_chunk_least:
  assumes "sorted_wrt (<) ds" and "\<forall>d \<in> set ds. best_d < d"
    and "best_pad = total_padding vals best_d"
  shows "best_chunk vals ds best_d (Some best_pad) \<in> set (best_d # ds) \<and>
    (\<forall>d \<in> set (best_d # ds).
       total_padding vals (best_chunk vals ds best_d (Some best_pad)) < total_padding vals d \<or>
       total_padding vals (best_chunk vals ds best_d (Some best_pad)) = total_padding vals d \<and>
         d \<le> best_chunk vals ds best_d (Some best_pad))"
  using assms
proof (induction ds arbitrary: best_d best_pad)
  case (Cons d ds)
  let ?p = "total_padding vals"
  show ?case
  proof (cases "?p d \<le> best_pad")
    case True
    have e: "best_chunk vals (d # ds) best_d (Some best_pad) = best_chunk vals ds d (Some (?p d))"
      using True Cons.prems by (auto simp: Let_def)
    have IH: "best_chunk vals ds d (Some (?p d)) \<in> set (d # ds) \<and>
      (\<forall>x \<in> set (d # ds). ?p (best_chunk vals ds d (Some (?p d))) < ?p x \<or>
        ?p (best_chunk vals ds d (Some (?p d))) = ?p x \<and> x \<le> best_chunk vals ds d (Some (?p d)))"
      by (rule Cons.IH) (use Cons.prems in auto)
    then have "?p (best_chunk vals ds d (Some (?p d))) \<le> ?p d" by fastforce
    moreover have "best_d < best_chunk vals ds d (Some (?p d))" using IH Cons.prems(2) by auto
    ultimately show ?thesis unfolding e using IH True Cons.prems(3) by auto
  next
    case False
    have e: "best_chunk vals (d # ds) best_d (Some best_pad) = best_chunk vals ds best_d (Some best_pad)"
      using False by (auto simp: Let_def)
    have IH: "best_chunk vals ds best_d (Some best_pad) \<in> set (best_d # ds) \<and>
      (\<forall>x \<in> set (best_d # ds). ?p (best_chunk vals ds best_d (Some best_pad)) < ?p x \<or>
        ?p (best_chunk vals ds best_d (Some best_pad)) = ?p x \<and> x \<le> best_chunk vals ds best_d (Some best_pad))"
      by (rule Cons.IH) (use Cons.prems in auto)
    then have "?p (best_chunk vals ds best_d (Some best_pad)) \<le> ?p best_d" by fastforce
    then show ?thesis unfolding e using IH False Cons.prems(3) by auto
  qed
qed simp

section \<open>Properties\<close>

text \<open>
  C8. The binary search over a worker's groups: when pages are not empty and memory grows with the
  length, it returns the longest length up to the configured maximum whose request fits the memory
  (0 when a single token does not), and the configuration is the one it started from.
\<close>
theorem longest_model_len:
  assumes "spec_memory_law api" and "groups_priced api groups" and "1 \<le> max_model_len cfg"
  shows "\<exists>k. estimate_max_model_len_from_groups api cfg groups avail = (Inr k, cfg) \<and>
    0 \<le> k \<and> k \<le> max_model_len cfg \<and>
    (\<forall>n. 1 \<le> n \<and> n \<le> max_model_len cfg \<longrightarrow>
      ((\<exists>m. max_memory_usage_bytes_from_groups api groups (cfg\<lparr>max_model_len := n\<rparr>) = Inr m \<and> m \<le> avail)
        \<longleftrightarrow> n \<le> k))"
proof -
  obtain k where k: "estimate_max_model_len_from_groups api cfg groups avail = (Inr k, cfg)"
    and best: "longest_fit (max_memory_usage_bytes_from_groups api groups) avail cfg k"
    using estimate_longest[OF assms] by blast
  have "memory_grows (max_memory_usage_bytes_from_groups api groups) cfg (max_model_len cfg)"
    using groups_memory_grows[OF assms(1)] assms(2) by (auto simp: groups_priced_def)
  from longest_fit_iff[OF best this] k best show ?thesis
    by (auto simp: len_fits_def mem_at_def longest_fit_def)
qed

text \<open>
  Estimating has no side effect: both searches leave the configuration as they found it, also
  when pricing a trial raises.
\<close>
lemma estimate_restores_config:
  "snd (estimate_max_model_len_from_groups api cfg groups avail) = cfg \<and>
   snd (estimate_max_model_len api cfg specs avail) = cfg"
  by (simp add: estimate_max_model_len_from_groups_def estimate_max_model_len_def search_restores)

text \<open>
  The automatic choice of the model length, over all workers that have groups: it raises
  \<open>ValueError\<close> and changes nothing exactly when some worker cannot serve a single token; otherwise it
  sets the largest length, up to the model's own, that every worker can serve, and nothing else.
\<close>
lemma auto_fit_is_largest:
  assumes "spec_memory_law api" and "\<forall>groups \<in> set projected. groups_priced api groups"
    and "1 \<le> max_model_len cfg" and "length mems = length projected" and "mems \<noteq> []"
  shows "case auto_fit_max_model_len api cfg projected mems of
      (Inl e, cfg') \<Rightarrow> e = ValueError \<and> cfg' = cfg \<and> \<not> all_fit api (zip projected mems) cfg 1
    | (Inr _, cfg') \<Rightarrow> (\<exists>L. cfg' = cfg\<lparr>max_model_len := L\<rparr> \<and> 1 \<le> L \<and> L \<le> max_model_len cfg \<and>
        (\<forall>n. 1 \<le> n \<and> n \<le> max_model_len cfg \<longrightarrow> (all_fit api (zip projected mems) cfg n \<longleftrightarrow> n \<le> L)))"
proof (cases "list_all (\<lambda>gs. gs = []) projected")
  case True
  then have "all_fit api (zip projected mems) cfg n" for n
    by (auto simp: all_fit_def list_all_iff dest: set_zip_leftD)
  with True assms(3) show ?thesis
    by (auto simp: auto_fit_max_model_len_def intro!: exI[of _ "max_model_len cfg"])
next
  case False
  have "\<forall>(groups, avail) \<in> set (zip projected mems). groups_priced api groups"
    using assms(2) by (auto dest: set_zip_leftD)
  from auto_fit_loop_min[OF assms(1) this assms(3), of "max_model_len cfg"] assms(3)
  obtain k where k: "auto_fit_loop api (zip projected mems) (max_model_len cfg) cfg = (Inr k, cfg)"
    "0 \<le> k" "k \<le> max_model_len cfg"
    "\<forall>n. 1 \<le> n \<and> n \<le> max_model_len cfg \<longrightarrow> (all_fit api (zip projected mems) cfg n \<longleftrightarrow> n \<le> k)"
    by auto
  have run: "auto_fit_max_model_len api cfg projected mems =
      (if k \<le> 0 then (Inl ValueError, cfg) else if k \<ge> max_model_len cfg then (Inr (), cfg)
       else (Inr (), cfg\<lparr>max_model_len := k\<rparr>))"
    using False assms(5) k(1) by (simp add: auto_fit_max_model_len_def)
  have cfg: "cfg = cfg\<lparr>max_model_len := max_model_len cfg\<rparr>" by simp
  consider "k \<le> 0" | "1 \<le> k" "k \<ge> max_model_len cfg" | "1 \<le> k" "k < max_model_len cfg" by linarith
  then show ?thesis
  proof cases
    case 1
    then show ?thesis using k(4) assms(3) by (simp add: run)
  next
    case 2
    then have "auto_fit_max_model_len api cfg projected mems = (Inr (), cfg\<lparr>max_model_len := k\<rparr>)"
      using k(3) cfg by (simp add: run)
    then show ?thesis using 2 k by auto
  next
    case 3
    then show ?thesis using k by (auto simp: run)
  qed
qed

lemma filter_zip_map: "map snd (filter (\<lambda>(x, y). P x) (zip xs (map f xs))) = map f (filter P xs)"
  by (induction xs) auto

lemma hash_size_divides:
  assumes "resolve_kv_cache_block_sizes api groups cfg = Inr (sb, hb)" and "2 \<le> length groups"
  defines "bs \<equiv> \<lambda>g. resolve_dcp_kv_block_size api (kv_cache_spec g) (decode_context_parallel_size cfg)"
  shows "hb dvd sb \<and> (\<forall>g \<in> set groups. bs g dvd sb) \<and>
    (hb = sb \<or> hb \<noteq> 0 \<and> (\<forall>g \<in> set groups. group_prefix_cacheable api (kv_cache_spec g) \<longrightarrow> hb dvd bs g))"
proof -
  let ?sizes = "map bs groups"
  let ?cached = "filter (\<lambda>g. group_prefix_cacheable api (kv_cache_spec g)) groups"
  have sb: "sb = py_lcm ?sizes"
    using assms(1,2) unfolding resolve_kv_cache_block_sizes_def bs_def Let_def
    by (auto split: if_splits option.splits)
  then have lcm: "\<forall>g \<in> set groups. bs g dvd sb" by (auto intro!: dvd_py_lcm)
  have "hb = sb \<or> hb \<noteq> 0 \<and>
      (\<forall>b \<in> set (if map bs ?cached = [] then ?sizes else map bs ?cached). hb dvd b)"
    using assms(1,2) unfolding resolve_kv_cache_block_sizes_def bs_def[symmetric] Let_def sb filter_zip_map
    by (auto simp: list_ex_iff mod_eq_0_iff_dvd split: if_split_asm option.split_asm)
  then consider "hb = sb" | "hb \<noteq> 0" "?cached = []" "\<forall>g \<in> set groups. hb dvd bs g"
    | "hb \<noteq> 0" "?cached \<noteq> []" "\<forall>g \<in> set ?cached. hb dvd bs g"
    by (cases "?cached = []") auto
  then show ?thesis
  proof cases
    case 1 then show ?thesis using lcm by simp
  next
    case 2
    have "hd groups \<in> set groups" using assms(2) by (cases groups) auto
    then have "hb dvd sb" using 2(3) lcm by (meson dvd_trans)
    then show ?thesis using lcm 2 by blast
  next
    case 3
    have "hd ?cached \<in> set ?cached" using 3(2) by (rule hd_in_set)
    then have "hd ?cached \<in> set groups" and "hb dvd bs (hd ?cached)" using 3(3) by auto
    then have "hb dvd sb" using lcm by (meson dvd_trans)
    then show ?thesis using lcm 3 by auto
  qed
qed

text \<open>
  C9. With several groups, the resolved sizes fit together: every group's block size divides the
  scheduler's, the hashing size divides the scheduler's, and either hashing is at the scheduler's
  granularity or the hashing size divides the block size of every prefix-cacheable group, so that
  the coarse view of a request's hashes at that group's block size is built without an exception.
\<close>
theorem block_sizes_fit:
  assumes "resolve_kv_cache_block_sizes api groups cfg = Inr (sb, hb)" and "2 \<le> length groups"
  shows "hb dvd sb \<and> (\<forall>g \<in> set groups.
      resolve_dcp_kv_block_size api (kv_cache_spec g) (decode_context_parallel_size cfg) dvd sb) \<and>
    (hb = sb \<or> (\<forall>g \<in> set groups. group_prefix_cacheable api (kv_cache_spec g) \<longrightarrow>
      (\<exists>v. BlockHashListWithBlockSize hs hb
        (resolve_dcp_kv_block_size api (kv_cache_spec g) (decode_context_parallel_size cfg)) = Inr v)))"
  using hash_size_divides[OF assms] by (auto simp: BlockHashListWithBlockSize_def mod_eq_0_iff_dvd)

lemma approximate_gcd_best:
  assumes "vals \<noteq> []" and "\<forall>x \<in> set vals. 0 < x"
  shows "\<exists>d. approximate_gcd vals lb = Inr d \<and> max 1 (case lb of None \<Rightarrow> 1 | Some b \<Rightarrow> b) \<le> d \<and>
    (\<forall>c. max 1 (case lb of None \<Rightarrow> 1 | Some b \<Rightarrow> b) \<le> c \<and> (\<exists>x \<in> set vals. c \<le> x) \<longrightarrow>
      total_padding vals d < total_padding vals c \<or>
      total_padding vals d = total_padding vals c \<and> c \<le> d)"
proof -
  define lo where "lo = max 1 (case lb of None \<Rightarrow> 1 | Some b \<Rightarrow> b)"
  have nonpos: "\<not> list_ex (\<lambda>x. x \<le> 0) vals" using assms(2) by (auto simp: list_ex_iff)
  obtain m where m: "py_max vals = Inr m" using assms(1) by (cases vals) (auto simp: py_max_def)
  note mx = py_max_Inr[OF m]
  have run: "approximate_gcd vals lb = Inr (if lo > m then lo else best_chunk vals [lo..m] lo None)"
    using m assms(1) nonpos by (simp add: approximate_gcd_def lo_def[symmetric] Let_def)
  show ?thesis
  proof (cases "lo > m")
    case True
    then have none: "\<not> (lo \<le> c \<and> (\<exists>x \<in> set vals. c \<le> x))" for c using mx by force
    have "approximate_gcd vals lb = Inr lo" using run True by simp
    then show ?thesis using none unfolding lo_def[symmetric] by blast
  next
    case False
    let ?ds = "[lo + 1..m]"
    let ?d = "best_chunk vals ?ds lo (Some (total_padding vals lo))"
    have up: "[lo..m] = lo # ?ds" using False upto.simps[of lo m] by (simp only: not_less if_True)
    have d: "approximate_gcd vals lb = Inr ?d" using run False by (simp add: up)
    have best: "?d \<in> set (lo # ?ds) \<and> (\<forall>c \<in> set (lo # ?ds).
        total_padding vals ?d < total_padding vals c \<or>
        total_padding vals ?d = total_padding vals c \<and> c \<le> ?d)"
      by (rule best_chunk_least) auto
    have "c \<in> set (lo # ?ds)" if "lo \<le> c" "x \<in> set vals" "c \<le> x" for c x
    proof -
      have "c \<le> m" using that mx by force
      then show ?thesis using that by auto
    qed
    then have all: "\<forall>c. lo \<le> c \<and> (\<exists>x \<in> set vals. c \<le> x) \<longrightarrow>
        total_padding vals ?d < total_padding vals c \<or>
        total_padding vals ?d = total_padding vals c \<and> c \<le> ?d" using best by blast
    have "lo \<le> ?d" using best by auto
    then show ?thesis unfolding lo_def[symmetric] using d all by blast
  qed
qed

text \<open>
  The chunk size minimises the total padding over all candidates from the lower bound to the
  largest value, and is the largest among those that do; on positive values nothing is raised, and
  a lower bound above every value is returned itself.
\<close>
lemma approximate_gcd_minimal:
  assumes "vals \<noteq> []" and "\<forall>x \<in> set vals. 0 < x"
  shows "\<exists>d. approximate_gcd vals lb = Inr d \<and> max 1 (case lb of None \<Rightarrow> 1 | Some b \<Rightarrow> b) \<le> d \<and>
    (\<forall>c. max 1 (case lb of None \<Rightarrow> 1 | Some b \<Rightarrow> b) \<le> c \<and> (\<exists>x \<in> set vals. c \<le> x) \<longrightarrow>
      total_padding vals d < total_padding vals c \<or>
      total_padding vals d = total_padding vals c \<and> c \<le> d)"
  using assms by (rule approximate_gcd_best)

section \<open>Witnesses\<close>

lemma demo_memory_law: "spec_memory_law demo_api"
proof -
  have "demo_pages (cfg\<lparr>max_model_len := m\<rparr>) s \<le> demo_pages (cfg\<lparr>max_model_len := n\<rparr>) s" if "m \<le> n" for cfg m n s
    using that by (auto simp: demo_pages_def intro: cdiv_mono)
  then show ?thesis
    by (auto simp: spec_memory_law_def demo_page_def split: group_spec.split list.split
        intro!: sum_list_map_mono mult_left_mono)
qed

lemma demo_groups_priced:
  "max_memory_usage_bytes_from_groups demo_api demo_groups cfg =
     Inr (64 * (cdiv (max_model_len cfg) 16 + cdiv (max_model_len cfg) 32))"
proof -
  have c: "cdiv (x * n) x = n" if "0 < x" for x n
  proof -
    have "- (x * n) = - n * x" by simp
    then show ?thesis using that by (simp only: cdiv_def nonzero_mult_div_cancel_right)
  qed
  have glm5: "glm5_next_tensor_layout demo_api demo_groups = Inr None"
    by (simp add: glm5_next_tensor_layout_def demo_groups_def is_uniform_group_def KVCacheGroupSpec_def or_none_def)
  have "pool_bytes_per_block demo_api demo_groups = Inr 64"
    unfolding pool_bytes_per_block_def get_kv_cache_bytes_per_block_def glm5 rbind_simps option.case
    by (simp add: demo_groups_def KVCacheGroupSpec_def group_bytes_def get_per_layer_spec_def py_max_def
      demo_page_def full_spec_def window_spec_def)
  then show ?thesis
    unfolding max_memory_usage_bytes_from_groups_def glm5 rbind_simps option.case
    by (simp add: demo_groups_def KVCacheGroupSpec_def group_request_blocks_def py_cdiv_def
      demo_page_def demo_pages_def full_spec_def window_spec_def c)
qed

lemma demo_priced: "groups_priced demo_api demo_groups"
  unfolding groups_priced_def demo_groups_priced by blast

lemma longest_model_len_witness:
  "\<exists>k. estimate_max_model_len_from_groups demo_api (demo_config 100) demo_groups 200 = (Inr k, demo_config 100) \<and>
     32 \<le> k \<and> k < 33"
proof -
  have len: "max_model_len (demo_config 100) = 100" by (simp add: demo_config_def)
  obtain k where "estimate_max_model_len_from_groups demo_api (demo_config 100) demo_groups 200 = (Inr k, demo_config 100)"
    and "\<forall>n. 1 \<le> n \<and> n \<le> 100 \<longrightarrow> ((\<exists>m. max_memory_usage_bytes_from_groups demo_api demo_groups
        ((demo_config 100)\<lparr>max_model_len := n\<rparr>) = Inr m \<and> m \<le> 200) \<longleftrightarrow> n \<le> k)"
    using longest_model_len[OF demo_memory_law demo_priced, of "demo_config 100" 200] len by auto
  from this(1) this(2)[rule_format, of 32] this(2)[rule_format, of 33] show ?thesis
    by (simp add: demo_groups_priced cdiv_def)
qed

lemma auto_fit_is_largest_witness:
  "\<exists>L. snd (auto_fit_max_model_len demo_api (demo_config 100) [demo_groups, []] [200, 5]) =
     (demo_config 100)\<lparr>max_model_len := L\<rparr> \<and> 32 \<le> L \<and> L < 33"
proof -
  have len: "max_model_len (demo_config 100) = 100" by (simp add: demo_config_def)
  have none: "groups_priced demo_api []"
    by (simp add: groups_priced_def max_memory_usage_bytes_from_groups_def)
  have C: "case auto_fit_max_model_len demo_api (demo_config 100) [demo_groups, []] [200, 5] of
      (Inl e, cfg') \<Rightarrow> e = ValueError \<and> cfg' = demo_config 100 \<and>
        \<not> all_fit demo_api (zip [demo_groups, []] [200, 5]) (demo_config 100) 1
    | (Inr _, cfg') \<Rightarrow> (\<exists>L. cfg' = (demo_config 100)\<lparr>max_model_len := L\<rparr> \<and> 1 \<le> L \<and> L \<le> 100 \<and>
        (\<forall>n. 1 \<le> n \<and> n \<le> 100 \<longrightarrow>
          (all_fit demo_api (zip [demo_groups, []] [200, 5]) (demo_config 100) n \<longleftrightarrow> n \<le> L)))"
    by (rule auto_fit_is_largest[OF demo_memory_law, of "[demo_groups, []]" "demo_config 100" "[200, 5]",
        unfolded len]) (use demo_priced none in simp_all)
  have fit: "all_fit demo_api (zip [demo_groups, []] [200, 5]) (demo_config 100) n \<longleftrightarrow>
      64 * (cdiv n 16 + cdiv n 32) \<le> 200" for n
    by (simp add: all_fit_def len_fits_def mem_at_def demo_groups_priced)
      (simp add: demo_groups_def)
  obtain r c where run: "auto_fit_max_model_len demo_api (demo_config 100) [demo_groups, []] [200, 5] = (r, c)"
    by (cases "auto_fit_max_model_len demo_api (demo_config 100) [demo_groups, []] [200, 5]")
  have "all_fit demo_api (zip [demo_groups, []] [200, 5]) (demo_config 100) 1"
    unfolding fit by (simp add: cdiv_def)
  then obtain L where L: "c = (demo_config 100)\<lparr>max_model_len := L\<rparr>"
    and best: "\<forall>n. 1 \<le> n \<and> n \<le> 100 \<longrightarrow> (64 * (cdiv n 16 + cdiv n 32) \<le> 200 \<longleftrightarrow> n \<le> L)"
    using C unfolding run fit by (auto split: sum.split_asm)
  from best[rule_format, of 32] best[rule_format, of 33] have "32 \<le> L \<and> L < 33" by (simp add: cdiv_def)
  with L show ?thesis by (auto simp: run)
qed

lemma lcm_16_32: "lcm 16 32 = (32::int)"
  by code_simp

lemma gcd_16_32: "gcd 16 32 = (16::int)"
  by code_simp

lemma block_sizes_fit_witness:
  "resolve_kv_cache_block_sizes demo_api demo_groups (demo_config 100) = Inr (32, 16) \<and> (16::int) dvd 32"
proof -
  have r: "resolve_kv_cache_block_sizes demo_api demo_groups (demo_config 100) = Inr (32, 16)"
    by (simp add: resolve_kv_cache_block_sizes_def demo_groups_def KVCacheGroupSpec_def demo_config_def
      resolve_dcp_kv_block_size_def demo_isa_def full_spec_def window_spec_def py_lcm_def py_gcd_def
      lcm_16_32 gcd_16_32 Let_def)
  moreover have "(16::int) dvd 32"
    using block_sizes_fit[OF r, of "[]"] by (simp add: demo_groups_def)
  ultimately show ?thesis by blast
qed

lemma approximate_gcd_minimal_witness:
  "\<exists>d. approximate_gcd [6, 9, 4] (Some 2) = Inr d \<and> 2 \<le> d \<and>
     (total_padding [6, 9, 4] d < total_padding [6, 9, 4] 3 \<or>
      total_padding [6, 9, 4] d = total_padding [6, 9, 4] 3 \<and> 3 \<le> d)"
proof -
  obtain d where d: "approximate_gcd [6, 9, 4] (Some 2) = Inr d" "2 \<le> d"
    "\<forall>c. max 1 2 \<le> c \<and> (\<exists>x \<in> set [6, 9, 4]. c \<le> x) \<longrightarrow>
      total_padding [6, 9, 4] d < total_padding [6, 9, 4] c \<or>
      total_padding [6, 9, 4] d = total_padding [6, 9, 4] c \<and> c \<le> d"
    using approximate_gcd_minimal[of "[6, 9, 4]" "Some 2"] by auto
  from d(3)[rule_format, of 3] d(1,2) show ?thesis by auto
qed

end
