(* ===== verification/Kv_Groups.thy ===== *)
theory Kv_Groups
  imports Kv_Sizing "HOL-Library.Multiset"
begin

text \<open>
  How layers are put into cache groups (\<^verbatim>\<open>kv_cache_utils.py\<close>): merging of the specs of a group,
  the unification of page sizes, the grouping of hybrid models with one page size, the packed
  grouping of models with several, the GLM-5.3-Flash grouping, the promotion of local attention, the
  eagle flags, and the choice between them. The ways of splitting the layers of a kind over several
  groups share one interface, interpreted on the strided and the dealt split. The main results: the
  groups hold every layer once, unified specs have one page size, and an unbalanced bucket of state
  layers can lose layers.
\<close>

section \<open>Merging\<close>

definition create_kv_cache_group_specs ::
    "'s spec_api \<Rightarrow> (string, 's) dict \<Rightarrow> string list list \<Rightarrow> 's kv_group list res" where
  "create_kv_cache_group_specs api specs grouped_layer_names =
     rmap (\<lambda>names.
       rbind (rmap (dict_get specs) names) (\<lambda>layer_specs.
       rbind (if layer_specs = [] then Inl IndexError else merge api layer_specs) (\<lambda>merged.
         Inr (KVCacheGroupSpec names (LayerSpec merged))))) grouped_layer_names"

definition is_kv_cache_spec_uniform :: "'s spec_api \<Rightarrow> (string, 's) dict \<Rightarrow> bool res" where
  "is_kv_cache_spec_uniform api specs =
     (if specs = [] then Inr True
      else case merge api (map snd specs) of
        Inr _ \<Rightarrow> Inr True
      | Inl e \<Rightarrow> if e = AssertionError then Inr False else Inl e)"

definition is_kv_cache_type_attention_free :: "(string, 's) dict \<Rightarrow> bool" where
  "is_kv_cache_type_attention_free specs \<longleftrightarrow> specs = []"

definition groups_uniform_spec :: "'s spec_api \<Rightarrow> (string, 's) dict \<Rightarrow> 's kv_group list res" where
  "groups_uniform_spec api specs = create_kv_cache_group_specs api specs [map fst specs]"

definition groups_uniform_type :: "'s group_spec \<Rightarrow> 's kv_group list" where
  "groups_uniform_type spec = [KVCacheGroupSpec (map fst (group_layers spec)) spec]"

section \<open>Splitting layers over groups\<close>

text \<open>\<open>xs[i::n]\<close> for \<open>0 <= i < n\<close>, and the list of all of them.\<close>

definition strided :: "nat \<Rightarrow> nat \<Rightarrow> 'a list \<Rightarrow> 'a list" where
  "strided i n xs = map snd (filter (\<lambda>(j, x). j mod n = i) (enumerate 0 xs))"

definition stride_split :: "nat \<Rightarrow> 'a list \<Rightarrow> 'a list list" where
  "stride_split n xs = map (\<lambda>i. strided i n xs) [0..<n]"

text \<open>\<open>groups[index % n].append(x)\<close> over the enumerated list.\<close>

definition deal :: "nat \<Rightarrow> 'a list \<Rightarrow> 'a list list" where
  "deal n xs = foldl (\<lambda>gs (j, x). gs[j mod n := gs ! (j mod n) @ [x]]) (replicate n []) (enumerate 0 xs)"

section \<open>GLM-5.3-Flash groups\<close>

fun pp_rank_loop ::
    "'s spec_api \<Rightarrow> int \<Rightarrow> int \<Rightarrow> int list \<Rightarrow> int list \<Rightarrow> int list \<Rightarrow> int \<Rightarrow> int option res" where
  "pp_rank_loop api total_layers pp mamba_idx mla_idx [] num_groups = Inr (Some num_groups)"
| "pp_rank_loop api total_layers pp mamba_idx mla_idx (rank # ranks) num_groups =
     (let (start, stop) = get_pp_indices api total_layers rank pp;
          num_mamba = int (length (filter (\<lambda>i. start \<le> i \<and> i < stop) mamba_idx));
          num_mla = int (length (filter (\<lambda>i. start \<le> i \<and> i < stop) mla_idx)) in
      if num_mamba = 0 then pp_rank_loop api total_layers pp mamba_idx mla_idx ranks num_groups
      else if num_mla = 0 then Inr None
      else pp_rank_loop api total_layers pp mamba_idx mla_idx ranks (max num_groups (cdiv num_mamba num_mla)))"

definition pp_balanced_mamba_group_count ::
    "'s spec_api \<Rightarrow> vllm_config \<Rightarrow> string list \<Rightarrow> string list \<Rightarrow> int option res" where
  "pp_balanced_mamba_group_count api cfg mamba_layer_names mla_layer_names =
     rbind (py_cdiv (int (length mamba_layer_names)) (int (length mla_layer_names))) (\<lambda>num_groups.
       let pp_size = pipeline_parallel_size cfg in
       if pp_size = 1 then Inr (Some num_groups)
       else pp_rank_loop api (total_num_hidden_layers cfg) pp_size
         (map (extract_layer_index api) mamba_layer_names)
         (map (extract_layer_index api) mla_layer_names) [0..pp_size - 1] num_groups)"

definition state_tokens :: "'s spec_api \<Rightarrow> (int \<Rightarrow> bool) \<Rightarrow> 's \<Rightarrow> bool" where
  "state_tokens api p s = (case tokens_per_state api s of None \<Rightarrow> False | Some k \<Rightarrow> p k)"

text \<open>The tail layers are padded to the indexer's page and share one group.\<close>

definition glm5_tail_group :: "'s spec_api \<Rightarrow> int \<Rightarrow> (string, 's) dict \<Rightarrow> 's kv_group list res" where
  "glm5_tail_group api idx_p tails =
     (if tails = [] then Inr []
      else
        let padded = map (\<lambda>(n, s). (n, with_page_size_padded api s idx_p)) tails in
        rbind (some_or AssertionError (uniform_from_specs api padded)) (\<lambda>tail_uniform.
          Inr [KVCacheGroupSpec (map fst padded) tail_uniform]))"

definition groups_glm5_next ::
    "'s spec_api \<Rightarrow> vllm_config \<Rightarrow> (string, 's) dict \<Rightarrow> 's kv_group list option res" where
  "groups_glm5_next api cfg specs =
     (let mamba = filter (\<lambda>(_, s). isa api s MambaSpec) specs;
          tails = filter (\<lambda>(_, s). isa api s KpoolTailSpec) specs;
          attn = filter (\<lambda>(_, s). \<not> isa api s MambaSpec \<and> \<not> isa api s KpoolTailSpec) specs in
      if mamba = [] \<or> \<not> list_all (\<lambda>(_, s). exactly_mla api s) attn then Inr None
      else
        let idx_pages = map (\<lambda>(_, s). page_size_bytes api s)
              (filter (\<lambda>(_, s). state_tokens api (\<lambda>k. k > 1) s) attn) in
        if idx_pages = [] then Inr None
        else
          let mla = filter (\<lambda>(_, s). state_tokens api (\<lambda>k. k = 1) s) attn;
              any_mamba = snd (hd mamba) in
          rbind (rassert (list_all (\<lambda>(_, s). page_size_padded api s = None) attn)) (\<lambda>_.
          rbind (some_or AssertionError (single_page idx_pages)) (\<lambda>idx_p.
          rbind (some_or AssertionError (single_page (map (\<lambda>(_, s). page_size_bytes api s) mla))) (\<lambda>mla_p.
          rbind (some_or AssertionError (uniform_from_specs api attn)) (\<lambda>uniform_spec.
          rbind (glm5_tail_group api idx_p tails) (\<lambda>tail_group.
          rbind (rassert (list_all (\<lambda>(_, s). s = any_mamba) mamba)) (\<lambda>_.
          rbind (if real_page_size_bytes api any_mamba > mla_p then Inl ValueError else Inr ()) (\<lambda>_.
          rbind (pp_balanced_mamba_group_count api cfg (map fst mamba) (map fst mla)) (\<lambda>num.
          rbind (some_or ValueError num) (\<lambda>num_groups.
          rbind (create_kv_cache_group_specs api
              (map (\<lambda>(n, _). (n, with_page_size_padded api any_mamba mla_p)) mamba)
              (deal (nat num_groups) (map fst mamba))) (\<lambda>mamba_gs.
            Inr (Some ([KVCacheGroupSpec (map fst attn) uniform_spec] @ tail_group @ mamba_gs)))))))))))))"

section \<open>One page size\<close>

definition unify_kv_cache_spec_page_size ::
    "'s spec_api \<Rightarrow> (string, 's) dict \<Rightarrow> (string, 's) dict res" where
  "unify_kv_cache_spec_page_size api specs =
     (let pages = map (\<lambda>(_, s). page_size_bytes api s) specs in
      if length (remdups pages) \<le> 1 then Inr specs
      else rbind (py_max pages) (\<lambda>max_page_size.
        rmap (\<lambda>(n, s).
          if page_size_bytes api s = max_page_size then Inr (n, s)
          else
            rbind (if isa api s MambaSpec then Inr (with_page_size_padded api s max_page_size)
                else rbind (py_mod max_page_size (page_size_bytes api s)) (\<lambda>r.
                  if r = 0 then
                    Inr (with_block_size api s (block_size api s * (max_page_size div page_size_bytes api s)))
                  else if isa api s AttentionSpec \<and> \<not> isa api s MLAAttentionSpec
                  then Inr (with_page_size_padded api s max_page_size)
                  else Inl NotImplementedError)) (\<lambda>new_spec.
            rbind (rassert (page_size_bytes api new_spec = max_page_size)) (\<lambda>_. Inr (n, new_spec)))) specs))"

text \<open>The first bucket whose specs merge with the new spec takes its layers; or a new bucket.\<close>

fun add_to_bucket ::
    "'s spec_api \<Rightarrow> 's \<Rightarrow> string list \<Rightarrow> (string list \<times> 's list) list \<Rightarrow> (string list \<times> 's list) list res" where
  "add_to_bucket api s names [] = Inr [(names, [s])]"
| "add_to_bucket api s names ((ns, ss) # bs) =
     (case merge api (ss @ [s]) of
        Inr _ \<Rightarrow> Inr ((ns @ names, ss @ [s]) # bs)
      | Inl e \<Rightarrow>
          if e = AssertionError \<or> e = ValueError
          then rbind (add_to_bucket api s names bs) (\<lambda>bs'. Inr ((ns, ss) # bs'))
          else Inl e)"

definition same_type_layers :: "(string, 's) dict \<Rightarrow> ('s, string list) dict" where
  "same_type_layers specs = foldl (\<lambda>d (n, s). dict_push s n d) [] specs"

definition split_bucket :: "int \<Rightarrow> string list \<Rightarrow> string list list res" where
  "split_bucket group_size layers =
     rbind (py_cdiv (int (length layers)) group_size) (\<lambda>num_groups.
       Inr (stride_split (nat num_groups) layers))"

definition groups_uniform_page_size :: "'s spec_api \<Rightarrow> (string, 's) dict \<Rightarrow> 's kv_group list res" where
  "groups_uniform_page_size api specs =
     rbind (rfold (\<lambda>(s, names). add_to_bucket api s names) (same_type_layers specs) []) (\<lambda>buckets.
     let layer_buckets = map fst buckets;
         lens = map (\<lambda>ls. int (length ls)) layer_buckets in
     rbind (py_min lens) (\<lambda>min_num_layers.
     rbind (py_max lens) (\<lambda>max_num_layers.
     let group_size = (if 2 * max_num_layers < 3 * min_num_layers then max_num_layers else min_num_layers) in
     rbind (rmap (split_bucket group_size) layer_buckets) (\<lambda>grouped.
       create_kv_cache_group_specs api specs (concat grouped)))))"

section \<open>Promotion of local attention\<close>

definition promotions :: "spec_class \<Rightarrow> spec_class option" where
  "promotions c = (case c of
     SlidingWindowMLASpec \<Rightarrow> Some MLAAttentionSpec
   | SlidingWindowSpec \<Rightarrow> Some FullAttentionSpec
   | ChunkedLocalAttentionSpec \<Rightarrow> Some FullAttentionSpec
   | _ \<Rightarrow> None)"

fun first_promotion :: "spec_class list \<Rightarrow> spec_class option" where
  "first_promotion [] = None"
| "first_promotion (c # cs) = (case promotions c of Some t \<Rightarrow> Some t | None \<Rightarrow> first_promotion cs)"

definition promoted_page_size_padded :: "'s spec_api \<Rightarrow> 's \<Rightarrow> int \<Rightarrow> int option res" where
  "promoted_page_size_padded api s b =
     (case page_size_padded api s of
        None \<Rightarrow> Inr None
      | Some p \<Rightarrow> rbind (py_div (unpadded_page_size_bytes api s * b) (block_size api s)) (\<lambda>u.
          Inr (Some (max p u))))"

definition uniform_or_uniform_type :: "'s spec_api \<Rightarrow> (string, 's) dict \<Rightarrow> bool res" where
  "uniform_or_uniform_type api specs =
     rbind (is_kv_cache_spec_uniform api specs) (\<lambda>u. Inr (u \<or> is_uniform_type api specs))"

definition promote_local_kv_cache_specs :: "'s spec_api \<Rightarrow> (string, 's) dict \<Rightarrow> (string, 's) dict res" where
  "promote_local_kv_cache_specs api specs =
     rbind (uniform_or_uniform_type api specs) (\<lambda>done.
     if done then Inr specs
     else
       let has = \<lambda>c. list_ex (\<lambda>(_, s). isa api s c) specs;
           full_blocks = remdups (map (\<lambda>(_, s). block_size api s)
             (filter (\<lambda>(_, s). isa api s FullAttentionSpec) specs));
           full_block = (case full_blocks of [b] \<Rightarrow> Some b | _ \<Rightarrow> None) in
       rbind (if has FullAttentionSpec \<and> (has SlidingWindowSpec \<or> has ChunkedLocalAttentionSpec) then
           rmap (\<lambda>(n, s). case first_promotion (spec_mro api s) of
               None \<Rightarrow> Inr (n, s)
             | Some target \<Rightarrow>
                 rbind (rassert (isa api s AttentionSpec)) (\<lambda>_.
                 let b = (case full_block of Some b \<Rightarrow> if b = 0 then block_size api s else b
                          | None \<Rightarrow> block_size api s) in
                 rbind (promoted_page_size_padded api s b) (\<lambda>p.
                   Inr (n, replace_as api s target b p)))) specs
         else Inr specs) (\<lambda>promoted.
       rbind (uniform_or_uniform_type api promoted) (\<lambda>ok.
         if ok then Inr promoted else Inl ValueError)))"

definition try_full_allocation_fallback_groups ::
    "'s spec_api \<Rightarrow> (string, 's) dict \<Rightarrow> 's kv_group list option res" where
  "try_full_allocation_fallback_groups api specs =
     (let has = \<lambda>c. list_ex (\<lambda>(_, s). isa api s c) specs in
      if has HiddenStateCacheSpec then Inr None
      else if has SlidingWindowMLASpec \<or> has ChunkedLocalAttentionSpec then Inr None
      else if \<not> (has MLAAttentionSpec \<and> has SlidingWindowSpec) then Inr None
      else case promote_local_kv_cache_specs api specs of
        Inl e \<Rightarrow> if e = ValueError then Inr None else Inl e
      | Inr promoted \<Rightarrow>
          (case uniform_from_specs api promoted of
             None \<Rightarrow> Inr None
           | Some u \<Rightarrow> Inr (Some (groups_uniform_type u))))"

text \<open>\<open>kv_cache_spec.update(...)\<close> on the caller's dictionary.\<close>

definition dict_update :: "('k, 'v) dict \<Rightarrow> ('k, 'v) dict \<Rightarrow> ('k, 'v) dict" where
  "dict_update d d' = foldl (\<lambda>acc (k, v). dict_set k v acc) d d'"

definition unify_hybrid_kv_cache_specs ::
    "'s spec_api \<Rightarrow> (string, 's) dict \<Rightarrow> ((string, 's) dict, unit) outcome" where
  "unify_hybrid_kv_cache_specs api specs =
     (case uniform_or_uniform_type api specs of
        Inl e \<Rightarrow> (Inl e, specs)
      | Inr True \<Rightarrow> (Inr (), specs)
      | Inr False \<Rightarrow>
          (case promote_local_kv_cache_specs api specs of
             Inl e \<Rightarrow> (Inl e, specs)
           | Inr promoted \<Rightarrow> (Inr (), dict_update specs promoted)))"

section \<open>Eagle groups\<close>

fun flag_first :: "string \<Rightarrow> 's kv_group list \<Rightarrow> 's kv_group list" where
  "flag_first n [] = []"
| "flag_first n (g # gs) =
     (if n \<in> set (layer_names g) then g\<lparr>is_eagle_group := True\<rparr> # gs else g # flag_first n gs)"

definition annotate_eagle_groups ::
    "'s spec_api \<Rightarrow> vllm_config \<Rightarrow> (string, 's) dict \<Rightarrow> bool \<Rightarrow> 's kv_group list \<Rightarrow> 's kv_group list res" where
  "annotate_eagle_groups api cfg specs use_deepseek_v4_fallback groups =
     (case speculative cfg of
        None \<Rightarrow> Inr groups
      | Some sc \<Rightarrow>
          if \<not> use_eagle_block_drop sc then Inr groups
          else
            let groups = map (\<lambda>g.
                  if list_ex (non_causal_multi_token_decode api) (iter_layer_specs api (kv_cache_spec g))
                  then g\<lparr>is_eagle_group := True\<rparr> else g) groups in
            if \<not> use_deepseek_v4_fallback then Inr groups
            else if specs = [] then Inl StopIteration
            else Inr (flag_first (fst (last specs)) groups))"

definition is_deepseek_v4_eagle :: "vllm_config \<Rightarrow> bool" where
  "is_deepseek_v4_eagle cfg =
     (case speculative cfg of
        None \<Rightarrow> False
      | Some sc \<Rightarrow> use_eagle sc \<and>
          (hf_model_type cfg = Some ''deepseek_v4'' \<or> hf_model_type cfg = Some ''deepseek_v41''))"

section \<open>Packed groups\<close>

fun add_to_uniform_bucket ::
    "'s spec_api \<Rightarrow> string \<Rightarrow> 's \<Rightarrow> (string, 's) dict list \<Rightarrow> (string, 's) dict list" where
  "add_to_uniform_bucket api n s [] = [[(n, s)]]"
| "add_to_uniform_bucket api n s (b # bs) =
     (if is_uniform_type api (dict_set n s b) then dict_set n s b # bs
      else b # add_to_uniform_bucket api n s bs)"

definition uniform_buckets :: "'s spec_api \<Rightarrow> (string, 's) dict \<Rightarrow> (string, 's) dict list" where
  "uniform_buckets api specs = foldl (\<lambda>bs (n, s). add_to_uniform_bucket api n s bs) [] specs"

text \<open>
  A bucket with its layers by page size; it is balanced when every page size has as many layers.
\<close>

type_synonym 's bucket = "'s group_spec \<times> (int, string list) dict"

definition bucket_layers :: "'s bucket \<Rightarrow> (string, 's) dict" where
  "bucket_layers b = group_layers (fst b)"

definition page_size_layers :: "'s spec_api \<Rightarrow> (string, 's) dict \<Rightarrow> (int, string list) dict" where
  "page_size_layers api d = foldl (\<lambda>acc (n, s). dict_push (page_size_bytes api s) n acc) [] d"

definition balanced :: "(int, string list) dict \<Rightarrow> bool" where
  "balanced psl \<longleftrightarrow> length (remdups (map (\<lambda>(_, ns). length ns) psl)) = 1"

definition make_bucket :: "'s spec_api \<Rightarrow> (string, 's) dict \<Rightarrow> 's bucket res" where
  "make_bucket api d =
     rbind (some_or AssertionError (uniform_from_specs api d)) (\<lambda>u.
       Inr (u, page_size_layers api d))"

definition min_repeats :: "'s spec_api \<Rightarrow> 's bucket list \<Rightarrow> int" where
  "min_repeats api buckets =
     (case py_max (map (\<lambda>b. get_max_layers_per_page_size api (bucket_layers b))
         (filter (\<lambda>(_, psl). balanced psl \<and> length psl > 1) buckets)) of
        Inl _ \<Rightarrow> 0 | Inr m \<Rightarrow> m)"

definition repeats_per_group :: "'s spec_api \<Rightarrow> vllm_config \<Rightarrow> 's bucket list \<Rightarrow> int option res" where
  "repeats_per_group api cfg buckets =
     (let floor = min_repeats api buckets in
      if floor = 0 then Inr None
      else rbind (approximate_gcd
          (map (\<lambda>b. get_max_layers_per_page_size api (bucket_layers b)) (filter (\<lambda>(_, psl). balanced psl) buckets))
          (Some (if kv_grouping_env cfg = ''fine'' then 1 else floor)))
        (\<lambda>r. Inr (Some r)))"

definition num_groups_for :: "'s spec_api \<Rightarrow> int option \<Rightarrow> 's bucket \<Rightarrow> int res" where
  "num_groups_for api repeats b =
     (case repeats of
        Some r \<Rightarrow> if balanced (snd b) then py_cdiv (get_max_layers_per_page_size api (bucket_layers b)) r else Inr 1
      | None \<Rightarrow> Inr 1)"

definition widest_group_bytes :: "(int, string list) dict \<Rightarrow> int \<Rightarrow> int res" where
  "widest_group_bytes psl n =
     rbind (rmap (\<lambda>(page, names). rbind (py_cdiv (int (length names)) n) (\<lambda>k. Inr (k * page))) psl)
       (\<lambda>bs. Inr (sum_list bs))"

definition is_state_bucket :: "'s spec_api \<Rightarrow> int option \<Rightarrow> 's bucket \<Rightarrow> bool" where
  "is_state_bucket api repeats b =
     (let s = first_spec api (bucket_layers b) in
      if isa api s MambaSpec \<or> isa api s CircularBufferSpec then True
      else repeats = None \<and> isa api s SlidingWindowSpec)"

definition anchor_bytes :: "'s spec_api \<Rightarrow> int option \<Rightarrow> 's bucket list \<Rightarrow> int res" where
  "anchor_bytes api repeats buckets =
     rbind (rmap (\<lambda>b.
         rbind (if is_state_bucket api repeats b then Inr (int (length (bucket_layers b)))
             else num_groups_for api repeats b) (\<lambda>n.
           widest_group_bytes (snd b) n)) buckets) (\<lambda>bs.
       Inr (case py_max bs of Inl _ \<Rightarrow> 0 | Inr m \<Rightarrow> m))"

text \<open>\<open>zip(*lists)\<close>: one tuple per position, up to the shortest list.\<close>

definition zip_lists :: "'a list list \<Rightarrow> 'a list list" where
  "zip_lists xss =
     (case py_min (map (\<lambda>xs. int (length xs)) xss) of
        Inl _ \<Rightarrow> [] | Inr n \<Rightarrow> map (\<lambda>i. map (\<lambda>xs. xs ! i) xss) [0..<nat n])"

definition bucket_num_groups :: "'s spec_api \<Rightarrow> int option \<Rightarrow> int \<Rightarrow> 's bucket \<Rightarrow> int res" where
  "bucket_num_groups api repeats anchor b =
     rbind (num_groups_for api repeats b) (\<lambda>num_groups.
     if anchor \<noteq> 0 \<and> is_state_bucket api repeats b then
       rbind (py_div anchor (page_size_bytes api (first_spec api (bucket_layers b)))) (\<lambda>q.
       rbind (py_cdiv (int (length (bucket_layers b))) (max q 1)) (\<lambda>n. Inr (max num_groups n)))
     else Inr num_groups)"

text \<open>The group of some of a bucket's pattern repeats.\<close>

definition repeats_group :: "'s spec_api \<Rightarrow> 's bucket \<Rightarrow> string list list \<Rightarrow> 's kv_group res" where
  "repeats_group api b repeats_i =
     (let names = concat repeats_i in
      rbind (rmap (\<lambda>n. rbind (dict_get (bucket_layers b) n) (\<lambda>s. Inr (n, s))) names) (\<lambda>layer_specs.
      rbind (some_or AssertionError (uniform_from_specs api layer_specs)) (\<lambda>u.
        Inr (KVCacheGroupSpec names u))))"

definition bucket_groups ::
    "'s spec_api \<Rightarrow> int option \<Rightarrow> int \<Rightarrow> 's bucket \<Rightarrow> 's kv_group list res" where
  "bucket_groups api repeats anchor b =
     rbind (bucket_num_groups api repeats anchor b) (\<lambda>num_groups.
     if num_groups = 1 then Inr [KVCacheGroupSpec (map fst (bucket_layers b)) (fst b)]
     else rmap (repeats_group api b) (stride_split (nat num_groups) (zip_lists (map snd (snd b)))))"

definition packed_kv_cache_groups ::
    "'s spec_api \<Rightarrow> vllm_config \<Rightarrow> (string, 's) dict \<Rightarrow> 's kv_group list option res" where
  "packed_kv_cache_groups api cfg specs =
     (if \<not> is_block_outermost (resolved_kv_cache_layout cfg) \<or>
         length (remdups (map (\<lambda>(_, s). page_size_bytes api s) specs)) \<le> 1
      then Inr None
      else
        rbind (rmap (make_bucket api) (uniform_buckets api specs)) (\<lambda>buckets.
        rbind (repeats_per_group api cfg buckets) (\<lambda>repeats.
        rbind (anchor_bytes api repeats buckets) (\<lambda>anchor.
        rbind (rmap (bucket_groups api repeats anchor) buckets) (\<lambda>gss.
        rbind (annotate_eagle_groups api cfg specs (is_deepseek_v4_eagle cfg) (concat gss)) (\<lambda>groups.
          Inr (Some groups)))))))"

section \<open>The choice of the grouping\<close>

text \<open>A hidden-state layer's group, its block shrunk and its page padded to the common page.\<close>

definition hidden_group ::
    "'s spec_api \<Rightarrow> int \<Rightarrow> int \<Rightarrow> string \<times> 's \<Rightarrow> 's kv_group res" where
  "hidden_group api common_page common_block layer =
     (let (n, s) = layer in
      rbind (py_div common_page (bytes_per_token api s)) (\<lambda>q.
      let new_bs = largest_divisor_at_most common_block (max q 1) in
      rbind (if common_page = 0 then Inl ZeroDivisionError else Inr ()) (\<lambda>_.
        Inr (KVCacheGroupSpec [n]
          (LayerSpec (with_block_and_padding api s new_bs common_page))))))"

text \<open>The hidden-state layers are added back behind the other groups, each in a group of its own.\<close>

definition hidden_groups ::
    "'s spec_api \<Rightarrow> 's kv_group list \<Rightarrow> (string, 's) dict \<Rightarrow> 's kv_group list res" where
  "hidden_groups api groups hidden =
     (if hidden = [] then Inr []
      else rbind (get_uniform_page_size api (map kv_cache_spec groups)) (\<lambda>common_page.
        rmap (hidden_group api common_page
          (py_gcd (map (\<lambda>g. group_block_size api (kv_cache_spec g)) groups))) hidden))"

text \<open>One page size for all layers, or the full-allocation fallback when there is none.\<close>

definition one_page_size_groups ::
    "'s spec_api \<Rightarrow> vllm_config \<Rightarrow> (string, 's) dict \<Rightarrow> (string, 's) dict \<Rightarrow> (string, 's) dict
      \<Rightarrow> 's kv_group list res" where
  "one_page_size_groups api cfg specs hidden filtered =
     (case unify_kv_cache_spec_page_size api filtered of
        Inl e \<Rightarrow>
          if e = NotImplementedError then
            rbind (try_full_allocation_fallback_groups api specs) (some_or NotImplementedError)
          else Inl e
      | Inr unified \<Rightarrow>
          rbind (groups_uniform_page_size api unified) (\<lambda>groups.
          rbind (hidden_groups api groups hidden) (\<lambda>hidden_gs.
            annotate_eagle_groups api cfg specs False (groups @ hidden_gs))))"

definition mixed_groups ::
    "'s spec_api \<Rightarrow> vllm_config \<Rightarrow> (string, 's) dict \<Rightarrow> 's kv_group list res" where
  "mixed_groups api cfg specs =
     (let hidden = filter (\<lambda>(_, s). isa api s HiddenStateCacheSpec) specs;
          filtered = filter (\<lambda>(_, s). \<not> isa api s HiddenStateCacheSpec) specs in
      rbind (packed_kv_cache_groups api cfg filtered) (\<lambda>packed.
      case packed of
        Some (g # gs) \<Rightarrow> Inr ((g # gs) @ map (\<lambda>(n, s). KVCacheGroupSpec [n] (LayerSpec s)) hidden)
      | _ \<Rightarrow> one_page_size_groups api cfg specs hidden filtered))"

definition groups_of_specs ::
    "'s spec_api \<Rightarrow> vllm_config \<Rightarrow> (string, 's) dict \<Rightarrow> 's kv_group list res" where
  "groups_of_specs api cfg specs =
     (if is_kv_cache_type_attention_free specs then Inr []
      else rbind (is_kv_cache_spec_uniform api specs) (\<lambda>uniform.
        if uniform then groups_uniform_spec api specs
        else case uniform_from_specs api specs of
          Some u \<Rightarrow> Inr (groups_uniform_type u)
        | None \<Rightarrow>
            rbind (groups_glm5_next api cfg specs) (\<lambda>glm5.
            case glm5 of
              Some (g # gs) \<Rightarrow> Inr (g # gs)
            | _ \<Rightarrow> mixed_groups api cfg specs)))"

definition get_kv_cache_groups ::
    "'s spec_api \<Rightarrow> vllm_config \<Rightarrow> (string, 's) dict \<Rightarrow> ((string, 's) dict, 's kv_group list) outcome" where
  "get_kv_cache_groups api cfg specs =
     (let (r, specs) = (if disable_hybrid_kv_cache_manager cfg
          then unify_hybrid_kv_cache_specs api specs else (Inr (), specs))
      in (rbind r (\<lambda>_. groups_of_specs api cfg specs), specs))"

section \<open>Splits\<close>

text \<open>
  The interface of a split: into \<open>n\<close> lists, over which the elements are distributed, none more than
  one longer than another.
\<close>

locale splitter =
  fixes split_over :: "nat \<Rightarrow> 'a list \<Rightarrow> 'a list list"
  assumes parts: "length (split_over n xs) = n"
    and covers: "0 < n \<Longrightarrow> mset (concat (split_over n xs)) = mset xs"
    and even: "0 < n \<Longrightarrow> ys \<in> set (split_over n xs) \<Longrightarrow>
      length xs div n \<le> length ys \<and> length ys \<le> Suc ((length xs - 1) div n)"
begin

lemma nonempty_parts:
  assumes "0 < n" and "n \<le> length xs" and "ys \<in> set (split_over n xs)"
  shows "ys \<noteq> []"
proof -
  have "1 \<le> length xs div n" using assms(1,2) by (simp add: div_greater_zero_iff Suc_le_eq)
  then show ?thesis using even[OF assms(1,3)] by auto
qed

lemma parts_within:
  assumes "0 < n" and "length xs \<le> n * k" and "ys \<in> set (split_over n xs)"
  shows "length ys \<le> k"
proof (cases xs)
  case Nil
  have "mset (concat (split_over n xs)) = {#}" using covers[OF assms(1), of xs] Nil by simp
  then have "concat (split_over n xs) = []" by simp
  then show ?thesis using assms(3) by auto
next
  case (Cons x xs')
  then have "length xs - 1 < n * k" using assms(2) by simp
  then have "(length xs - 1) div n < k" by (simp add: assms(1) div_less_iff_less_mult mult.commute)
  then show ?thesis using even[OF assms(1,3)] by simp
qed

lemma concat_covers:
  assumes "\<And>x. x \<in> set xss \<Longrightarrow> 0 < n x"
  shows "mset (concat (concat (map (\<lambda>xs. split_over (n xs) xs) xss))) = mset (concat xss)"
  using assms by (induction xss) (auto simp: covers)

end

lemma strided_filter_sum:
  "mset (concat (map (\<lambda>i. map snd (filter (\<lambda>(j, x). f j = i) js)) [0..<n])) =
   mset (map snd (filter (\<lambda>(j, x). f j < (n::nat)) js))"
proof (induction n)
  case (Suc n)
  have "mset (map snd (filter (\<lambda>(j, x). f j < n) js)) + mset (map snd (filter (\<lambda>(j, x). f j = n) js)) =
      mset (map snd (filter (\<lambda>(j, x). f j < Suc n) js))"
    by (induction js) (auto simp: less_Suc_eq)
  then show ?case using Suc by simp
qed simp

lemma strided_snoc:
  "strided i n (xs @ [x]) = strided i n xs @ (if length xs mod n = i then [x] else [])"
  by (simp add: strided_def enumerate_append_eq)

lemma length_strided:
  assumes "i < n"
  shows "length (strided i n xs) = length xs div n + (if i < length xs mod n then 1 else 0)"
proof (induction xs rule: rev_induct)
  case Nil
  then show ?case by (simp add: strided_def)
next
  case (snoc x xs)
  show ?case
  proof (cases "Suc (length xs mod n) = n")
    case True
    then show ?thesis using snoc assms by (auto simp: strided_snoc div_Suc mod_Suc)
  next
    case False
    then show ?thesis using snoc assms by (auto simp: strided_snoc div_Suc mod_Suc)
  qed
qed

lemma stride_split_covers: "0 < n \<Longrightarrow> mset (concat (stride_split n xs)) = mset xs"
  using strided_filter_sum[of "\<lambda>j. j mod n" "enumerate 0 xs" n]
  by (simp add: stride_split_def strided_def case_prod_beta')

lemma stride_split_even:
  assumes "0 < n" and "ys \<in> set (stride_split n xs)"
  shows "length xs div n \<le> length ys \<and> length ys \<le> Suc ((length xs - 1) div n)"
proof -
  obtain i where i: "i < n" "ys = strided i n xs" using assms(2) by (auto simp: stride_split_def)
  have len: "length ys = length xs div n + (if i < length xs mod n then 1 else 0)"
    unfolding i(2) by (rule length_strided[OF i(1)])
  show ?thesis
  proof (cases "length xs mod n = 0")
    case True
    then show ?thesis using len assms(1) by (cases "length xs") (auto simp: div_Suc)
  next
    case False
    then have "(length xs - 1) div n = length xs div n"
      by (cases "length xs") (auto simp: div_Suc mod_Suc split: if_splits)
    then show ?thesis using len by auto
  qed
qed

lemma length_stride_split: "length (stride_split n xs) = n"
  by (simp add: stride_split_def)

interpretation strides: splitter stride_split
  by (unfold_locales; (rule length_stride_split stride_split_covers | drule stride_split_even); assumption?)

lemma deal_stride: "0 < n \<Longrightarrow> deal n xs = stride_split n xs"
proof (induction xs rule: rev_induct)
  case Nil
  then show ?case
    by (simp add: deal_def stride_split_def strided_def map_replicate_const)
next
  case (snoc x xs)
  have "deal n (xs @ [x]) = (deal n xs)[length xs mod n := deal n xs ! (length xs mod n) @ [x]]"
    by (simp add: deal_def enumerate_append_eq)
  also have "\<dots> = stride_split n (xs @ [x])"
    using snoc by (intro nth_equalityI) (auto simp: stride_split_def strided_snoc nth_list_update)
  finally show ?case .
qed

lemma deal_parts: "length (deal n xs) = n"
  by (induction xs rule: rev_induct) (simp_all add: deal_def enumerate_append_eq)

interpretation deals: splitter deal
  by unfold_locales (auto simp: deal_parts deal_stride strides.covers dest: stride_split_even)

section \<open>The groups partition the layers\<close>

text \<open>Every layer is in exactly one place of one group.\<close>

definition partitions :: "'s kv_group list \<Rightarrow> (string, 's) dict \<Rightarrow> bool" where
  "partitions groups specs \<longleftrightarrow> mset (concat (map layer_names groups)) = mset (map fst specs)"

lemma api_uniformD:
  assumes "api_uniform api"
  shows "uniform_from_specs api d = Some g \<Longrightarrow> group_layers g = d"
    and "d \<noteq> [] \<Longrightarrow> 0 < get_max_layers_per_page_size api d"
    and "is_uniform_type api d = (uniform_from_specs api d \<noteq> None)"
  using assms unfolding api_uniform_def by fastforce+

lemma create_groups_names:
  assumes "create_kv_cache_group_specs api specs names = Inr gs"
  shows "map layer_names gs = names"
  using assms unfolding create_kv_cache_group_specs_def
  by (induction names arbitrary: gs) (auto simp: rbind_Inr_iff KVCacheGroupSpec_def)

lemma push_covers: "mset (concat (map snd (dict_push k x d))) = add_mset x (mset (concat (map snd d)))"
  by (induction d) auto

lemma push_fold_covers:
  "mset (concat (map snd (foldl (\<lambda>d (n, s). dict_push (f s) n d) acc specs))) =
     mset (concat (map snd acc)) + mset (map fst specs)"
  by (induction specs arbitrary: acc) (auto simp: push_covers)

lemma same_type_covers: "mset (concat (map snd (same_type_layers specs))) = mset (map fst specs)"
  using push_fold_covers[of "\<lambda>s. s" "[]" specs] by (simp add: same_type_layers_def)

lemma page_layers_cover: "mset (concat (map snd (page_size_layers api d))) = mset (map fst d)"
  using push_fold_covers[of "page_size_bytes api" "[]" d] by (simp add: page_size_layers_def)

lemma push_nonempty: "[] \<notin> set (map snd d) \<Longrightarrow> [] \<notin> set (map snd (dict_push k x d))"
proof (induction d)
  case (Cons p d)
  obtain a b where p: "p = (a, b)" by (cases p)
  show ?case using Cons by (cases "a = k") (simp_all add: p)
qed simp

lemma same_type_nonempty: "[] \<notin> set (map snd (same_type_layers specs))"
proof -
  have "[] \<notin> set (map snd acc) \<Longrightarrow>
      [] \<notin> set (map snd (foldl (\<lambda>d (n, s). dict_push s n d) acc specs))" for acc
  proof (induction specs arbitrary: acc)
    case (Cons x specs)
    from Cons.IH[OF push_nonempty[OF Cons.prems]] show ?case by (simp add: case_prod_beta)
  qed simp
  then show ?thesis by (simp add: same_type_layers_def)
qed

lemma add_to_bucket_covers:
  assumes "add_to_bucket api s names bs = Inr bs'"
  shows "mset (concat (map fst bs')) = mset names + mset (concat (map fst bs)) \<and>
    (names \<noteq> [] \<and> [] \<notin> set (map fst bs) \<longrightarrow> [] \<notin> set (map fst bs'))"
  using assms
proof (induction bs arbitrary: bs')
  case (Cons b bs)
  obtain ns ss where b: "b = (ns, ss)" by (cases b)
  show ?case
  proof (cases "merge api (ss @ [s])")
    case (Inr x)
    then show ?thesis using Cons.prems by (auto simp: b)
  next
    case (Inl e)
    then obtain bs'' where "add_to_bucket api s names bs = Inr bs''" "bs' = b # bs''"
      using Cons.prems by (auto simp: b rbind_Inr_iff split: if_split_asm)
    then show ?thesis using Cons.IH by (auto simp: b)
  qed
qed auto

lemma bucket_fold_covers:
  assumes "rfold (\<lambda>(s, names). add_to_bucket api s names) typed acc = Inr bs"
    and "[] \<notin> set (map snd typed)" and "[] \<notin> set (map fst acc)"
  shows "mset (concat (map fst bs)) = mset (concat (map snd typed)) + mset (concat (map fst acc)) \<and>
    [] \<notin> set (map fst bs)"
  using assms
proof (induction typed arbitrary: acc)
  case (Cons t typed)
  obtain s names where t: "t = (s, names)" by (cases t)
  then obtain acc' where a: "add_to_bucket api s names acc = Inr acc'"
    and r: "rfold (\<lambda>(s, names). add_to_bucket api s names) typed acc' = Inr bs"
    using Cons.prems(1) by (auto simp: rbind_Inr_iff)
  note covers = add_to_bucket_covers[OF a]
  have ne: "[] \<notin> set (map fst acc')" using covers Cons.prems(2,3) by (auto simp: t)
  from Cons.IH[OF r _ ne] Cons.prems(2) covers show ?case by (simp add: t)
qed simp

lemma split_buckets_cover:
  assumes "rmap (split_bucket k) layers = Inr grouped" and "0 < k" and "\<forall>ls \<in> set layers. ls \<noteq> []"
  shows "mset (concat (concat grouped)) = mset (concat layers)"
  using assms(1,3)
proof (induction layers arbitrary: grouped)
  case (Cons ls layers)
  have "0 < cdiv (int (length ls)) k" using Cons.prems(2) assms(2) by (intro cdiv_pos) auto
  then have "0 < nat (cdiv (int (length ls)) k)" by simp
  from strides.covers[OF this, of ls] Cons show ?case
    using assms(2) by (auto simp: rbind_Inr_iff split_bucket_def py_cdiv_def)
qed simp

lemma uniform_page_groups_partition:
  assumes "groups_uniform_page_size api specs = Inr gs"
  shows "partitions gs specs"
proof -
  from assms obtain bs mn mx grouped where
    bs: "rfold (\<lambda>(s, names). add_to_bucket api s names) (same_type_layers specs) [] = Inr bs"
    and mn: "py_min (map (\<lambda>ls. int (length ls)) (map fst bs)) = Inr mn"
    and mx: "py_max (map (\<lambda>ls. int (length ls)) (map fst bs)) = Inr mx"
    and gr: "rmap (split_bucket (if 2 * mx < 3 * mn then mx else mn)) (map fst bs) = Inr grouped"
    and gs: "create_kv_cache_group_specs api specs (concat grouped) = Inr gs"
    by (auto simp: groups_uniform_page_size_def rbind_Inr_iff Let_def)
  have cov: "mset (concat (map fst bs)) = mset (map fst specs)" and ne: "[] \<notin> set (map fst bs)"
    using bucket_fold_covers[OF bs same_type_nonempty] same_type_covers[of specs] by auto
  have ne': "\<forall>ls \<in> set (map fst bs). ls \<noteq> []" using ne by metis
  have pos: "0 < x" if "x \<in> set (map (\<lambda>ls. int (length ls)) (map fst bs))" for x
    using that ne' by force
  have "0 < mn" "0 < mx" using pos py_min_Inr[OF mn] py_max_Inr[OF mx] by blast+
  then have "mset (concat (concat grouped)) = mset (concat (map fst bs))"
    using split_buckets_cover[OF gr _ ne'] by simp
  with create_groups_names[OF gs] cov show ?thesis by (simp add: partitions_def)
qed

text \<open>The packed grouping: buckets, then the groups of each bucket.\<close>

lemma bucket_add_covers:
  assumes "n \<notin> set (map fst (concat bs))"
  shows "mset (map fst (concat (add_to_uniform_bucket api n s bs))) = add_mset n (mset (map fst (concat bs)))"
    and "[] \<notin> set bs \<Longrightarrow> [] \<notin> set (add_to_uniform_bucket api n s bs)"
proof -
  have set: "map fst (dict_set n s b) = map fst b @ [n]" if "n \<notin> set (map fst b)" for b
    using that by (simp add: keys_dict_set)
  have "[] \<noteq> dict_set n s b" for b
    by (cases b) (auto split: if_split_asm)
  then show "[] \<notin> set bs \<Longrightarrow> [] \<notin> set (add_to_uniform_bucket api n s bs)"
    by (induction bs) auto
  show "mset (map fst (concat (add_to_uniform_bucket api n s bs))) = add_mset n (mset (map fst (concat bs)))"
    using assms
  proof (induction bs)
    case (Cons b bs)
    have "mset (map fst (dict_set n s b)) = add_mset n (mset (map fst b))"
      using set[of b] Cons.prems by simp
    then show ?case using Cons by simp
  qed simp
qed

lemma uniform_buckets_cover:
  assumes "dict_ok specs"
  shows "mset (map fst (concat (uniform_buckets api specs))) = mset (map fst specs) \<and>
    [] \<notin> set (uniform_buckets api specs)"
proof -
  have "mset (map fst (concat (foldl (\<lambda>bs (n, s). add_to_uniform_bucket api n s bs) acc xs))) =
      mset (map fst (concat acc)) + mset (map fst xs) \<and>
      [] \<notin> set (foldl (\<lambda>bs (n, s). add_to_uniform_bucket api n s bs) acc xs)"
    if "distinct (map fst xs)" "set (map fst xs) \<inter> set (map fst (concat acc)) = {}" "[] \<notin> set acc" for xs acc
    using that
  proof (induction xs arbitrary: acc)
    case (Cons x xs)
    obtain n s where x: "x = (n, s)" by (cases x)
    let ?acc = "add_to_uniform_bucket api n s acc"
    have fresh: "n \<notin> set (map fst (concat acc))" using Cons.prems(2) by (auto simp: x)
    note cov = bucket_add_covers(1)[OF fresh, of api s]
    have "set (map fst (concat ?acc)) = insert n (set (map fst (concat acc)))"
      using arg_cong[OF cov, of set_mset] by simp
    then have "set (map fst xs) \<inter> set (map fst (concat ?acc)) = {}" using Cons.prems(1,2) by (auto simp: x)
    from Cons.IH[OF _ this bucket_add_covers(2)[OF fresh Cons.prems(3)]] Cons.prems(1) cov
    show ?case by (simp add: x)
  qed simp
  from this[of specs "[]"] assms show ?thesis by (simp add: uniform_buckets_def dict_ok_def)
qed

lemma make_bucket_Inr:
  assumes "api_uniform api" and "make_bucket api d = Inr b"
  shows "bucket_layers b = d" and "snd b = page_size_layers api d" and "uniform_from_specs api d = Some (fst b)"
  using assms api_uniformD(1)[OF assms(1)]
  by (auto simp: make_bucket_def rbind_Inr_iff some_or_Inr_iff bucket_layers_def)

lemma zip_lists_balanced:
  assumes "\<forall>xs \<in> set xss. length xs = n" and "xss \<noteq> []"
  shows "mset (concat (zip_lists xss)) = mset (concat xss)"
proof -
  obtain k where k: "py_min (map (\<lambda>xs. int (length xs)) xss) = Inr k"
    using assms(2) by (cases xss) (auto simp: py_min_def)
  have kn: "k = int n" using py_min_Inr[OF k] assms(1) by auto
  have "mset (concat (map (\<lambda>i. map (\<lambda>xs. xs ! i) xss) [0..<m])) = mset (concat (map (take m) xss))"
    if "m \<le> n" for m
    using that
  proof (induction m)
    case (Suc m)
    have "mset (concat (map (take (Suc m)) yss)) = mset (concat (map (take m) yss)) + mset (map (\<lambda>xs. xs ! m) yss)"
      if "\<forall>xs \<in> set yss. length xs = n" for yss
      using that Suc.prems by (induction yss) (auto simp: take_Suc_conv_app_nth)
    from this[OF assms(1)] Suc show ?case by simp
  qed (simp add: concat_eq_Nil_conv[THEN iffD2])
  from this[of n] have "mset (concat (zip_lists xss)) = mset (concat (map (take n) xss))"
    by (simp add: zip_lists_def k kn)
  also have "map (take n) xss = xss" using assms(1) by (intro map_idI) auto
  finally show ?thesis .
qed

text \<open>A bucket that may be split over its states: its layers must pair up by page size.\<close>

definition state_class :: "'s spec_api \<Rightarrow> (string, 's) dict \<Rightarrow> bool" where
  "state_class api d \<longleftrightarrow> isa api (first_spec api d) MambaSpec \<or>
     isa api (first_spec api d) CircularBufferSpec \<or> isa api (first_spec api d) SlidingWindowSpec"

definition buckets_balanced :: "'s spec_api \<Rightarrow> (string, 's) dict \<Rightarrow> bool" where
  "buckets_balanced api specs \<longleftrightarrow>
     (\<forall>d \<in> set (uniform_buckets api specs). state_class api d \<longrightarrow> balanced (page_size_layers api d))"

lemma approximate_gcd_pos: "approximate_gcd vs lb = Inr d \<Longrightarrow> 0 < d"
proof -
  assume d: "approximate_gcd vs lb = Inr d"
  then have "vs \<noteq> []" "\<forall>x \<in> set vs. 0 < x"
    by (auto simp: approximate_gcd_def list_ex_iff split: if_splits)
  from approximate_gcd_best[OF this, of lb] d show ?thesis by auto
qed

lemma mset_concat_cong:
  assumes "mset xss = mset yss"
  shows "mset (concat xss) = mset (concat yss)"
proof -
  have "mset (map mset xss) = mset (map mset yss)" using assms by simp
  then have "sum_list (map mset xss) = sum_list (map mset yss)" by (metis sum_mset_sum_list)
  then show ?thesis by (simp add: mset_concat)
qed

lemma num_groups_for_pos:
  assumes "api_uniform api" and "bucket_layers b \<noteq> []" and "\<And>r. repeats = Some r \<Longrightarrow> 0 < r"
    and "num_groups_for api repeats b = Inr n"
  shows "0 < n \<and> (n = 1 \<or> balanced (snd b))"
proof -
  have "0 < cdiv (get_max_layers_per_page_size api (bucket_layers b)) r" if "0 < r" for r
    using cdiv_pos[OF that] api_uniformD(2)[OF assms(1,2)] by simp
  with assms(3,4) show ?thesis
    by (auto simp: num_groups_for_def py_cdiv_def split: option.split_asm if_split_asm)
qed

lemma balanced_lengths:
  assumes "balanced psl"
  shows "psl \<noteq> [] \<and> (\<exists>n. \<forall>xs \<in> set (map snd psl). length xs = n)"
proof -
  have "length (remdups (map (\<lambda>(_, ns). length ns) psl)) = 1" using assms by (simp add: balanced_def)
  then obtain n where "remdups (map (\<lambda>(_, ns). length ns) psl) = [n]" by (auto simp: length_Suc_conv)
  from arg_cong[OF this, of set] have s: "(\<lambda>(_, ns). length ns) ` set psl = {n}" by simp
  then have "\<forall>p \<in> set psl. length (snd p) = n" by (force simp: case_prod_beta)
  with s show ?thesis by auto
qed

lemma bucket_num_groups_pos:
  assumes api: "api_uniform api" and mk: "make_bucket api d = Inr b" and d: "d \<noteq> []"
    and rep: "\<And>r. repeats = Some r \<Longrightarrow> 0 < r"
    and bal: "state_class api d \<Longrightarrow> balanced (page_size_layers api d)"
    and n: "bucket_num_groups api repeats anchor b = Inr n"
  shows "0 < n \<and> (n = 1 \<or> balanced (page_size_layers api d))"
proof -
  note b = make_bucket_Inr[OF api mk]
  obtain n0 where n0: "num_groups_for api repeats b = Inr n0"
    using n by (auto simp: bucket_num_groups_def rbind_Inr_iff)
  note pos = num_groups_for_pos[OF api _ rep n0, unfolded b, OF d]
  show ?thesis
  proof (cases "anchor \<noteq> 0 \<and> is_state_bucket api repeats b")
    case True
    then have "state_class api d"
      by (auto simp: is_state_bucket_def state_class_def b Let_def split: if_split_asm)
    moreover have "n0 \<le> n"
      using n n0 True by (auto simp: bucket_num_groups_def rbind_Inr_iff)
    ultimately show ?thesis using pos bal by simp
  next
    case False
    then have "n = n0" using n n0 by (auto simp: bucket_num_groups_def)
    then show ?thesis using pos by simp
  qed
qed

lemma repeats_group_names: "repeats_group api b ri = Inr g \<Longrightarrow> layer_names g = concat ri"
  by (auto simp: repeats_group_def Let_def rbind_Inr_iff KVCacheGroupSpec_def)

lemma rmap_names:
  assumes "rmap f xs = Inr gs" and "\<And>x g. f x = Inr g \<Longrightarrow> layer_names g = h x"
  shows "map layer_names gs = map h xs"
  using assms(1) by (induction xs arbitrary: gs) (auto simp: rbind_Inr_iff assms(2))

lemma mset_concat_map_concat: "mset (concat (map concat xsss)) = mset (concat (concat xsss))"
  by (induction xsss) simp_all

lemma bucket_groups_cover:
  assumes api: "api_uniform api" and mk: "make_bucket api d = Inr b" and d: "d \<noteq> []"
    and rep: "\<And>r. repeats = Some r \<Longrightarrow> 0 < r"
    and bal: "state_class api d \<Longrightarrow> balanced (page_size_layers api d)"
    and gs: "bucket_groups api repeats anchor b = Inr gs"
  shows "mset (concat (map layer_names gs)) = mset (map fst d)"
proof -
  note b = make_bucket_Inr[OF api mk]
  obtain n where num: "bucket_num_groups api repeats anchor b = Inr n"
    using gs by (auto simp: bucket_groups_def rbind_Inr_iff)
  note n = bucket_num_groups_pos[OF api mk d rep bal num]
  show ?thesis
  proof (cases "n = 1")
    case True
    then show ?thesis using gs num by (auto simp: bucket_groups_def KVCacheGroupSpec_def b)
  next
    case False
    let ?zs = "zip_lists (map snd (page_size_layers api d))"
    have bl: "balanced (page_size_layers api d)" using n False by simp
    obtain k where k: "page_size_layers api d \<noteq> []"
      "\<forall>xs \<in> set (map snd (page_size_layers api d)). length xs = k"
      using balanced_lengths[OF bl] by blast
    have "rmap (repeats_group api b) (stride_split (nat n) ?zs) = Inr gs"
      using gs num False by (simp add: bucket_groups_def b)
    from rmap_names[OF this repeats_group_names]
    have "mset (concat (map layer_names gs)) = mset (concat (concat (stride_split (nat n) ?zs)))"
      by (simp add: mset_concat_map_concat)
    also have "\<dots> = mset (concat ?zs)"
      using n by (intro mset_concat_cong strides.covers) simp
    also have "\<dots> = mset (map fst d)"
      using zip_lists_balanced[OF k(2)] k(1) page_layers_cover[of api d] by simp
    finally show ?thesis .
  qed
qed

lemma annotate_names:
  assumes "annotate_eagle_groups api cfg specs fb gs = Inr gs'"
  shows "map layer_names gs' = map layer_names gs"
proof -
  have "map layer_names (flag_first n hs) = map layer_names hs" for n and hs :: "'a kv_group list"
    by (induction hs) auto
  then show ?thesis using assms
    by (auto simp: annotate_eagle_groups_def Let_def comp_def split: option.split_asm if_split_asm)
qed

lemma packed_groups_partition:
  assumes api: "api_uniform api" and ok: "dict_ok specs" and bal: "buckets_balanced api specs"
    and gs: "packed_kv_cache_groups api cfg specs = Inr (Some gs)"
  shows "partitions gs specs"
proof -
  from gs obtain buckets repeats anchor gss where
    b: "rmap (make_bucket api) (uniform_buckets api specs) = Inr buckets"
    and r: "repeats_per_group api cfg buckets = Inr repeats"
    and g: "rmap (bucket_groups api repeats anchor) buckets = Inr gss"
    and a: "annotate_eagle_groups api cfg specs (is_deepseek_v4_eagle cfg) (concat gss) = Inr gs"
    by (auto simp: packed_kv_cache_groups_def rbind_Inr_iff split: if_split_asm)
  have rep: "0 < x" if "repeats = Some x" for x
    using r that by (auto simp: repeats_per_group_def rbind_Inr_iff Let_def split: if_split_asm
        dest: approximate_gcd_pos)
  note cov = uniform_buckets_cover[OF ok, of api]
  have "mset (concat (map layer_names (concat hss))) = mset (map fst (concat ds))"
    if "rmap (make_bucket api) ds = Inr bs" "rmap (bucket_groups api repeats anchor) bs = Inr hss"
      "[] \<notin> set ds" "\<forall>d \<in> set ds. state_class api d \<longrightarrow> balanced (page_size_layers api d)" for ds bs hss
    using that
  proof (induction ds arbitrary: bs hss)
    case (Cons d ds)
    from Cons.prems(1) obtain b bs' where bs: "make_bucket api d = Inr b" "rmap (make_bucket api) ds = Inr bs'" "bs = b # bs'"
      by (auto simp: rbind_Inr_iff)
    with Cons.prems(2) obtain hs hss' where hs: "bucket_groups api repeats anchor b = Inr hs"
      "rmap (bucket_groups api repeats anchor) bs' = Inr hss'" "hss = hs # hss'"
      by (auto simp: rbind_Inr_iff)
    have "mset (concat (map layer_names hs)) = mset (map fst d)"
      by (rule bucket_groups_cover[OF api bs(1) _ rep _ hs(1)]) (use Cons.prems in auto)
    then show ?case using Cons.IH[OF bs(2) hs(2)] Cons.prems(3,4) by (simp add: hs(3))
  qed simp
  from this[OF b g] cov bal have "mset (concat (map layer_names (concat gss))) = mset (map fst specs)"
    by (simp add: buckets_balanced_def)
  then show ?thesis using annotate_names[OF a] by (simp add: partitions_def)
qed

lemma uniform_type_groups_partition:
  assumes "api_uniform api" and "uniform_from_specs api d = Some u" and "map fst d = map fst specs"
  shows "partitions (groups_uniform_type u) specs"
  using api_uniformD(1)[OF assms(1,2)] assms(3)
  by (simp add: groups_uniform_type_def partitions_def KVCacheGroupSpec_def)

lemma rmap_keys:
  assumes "rmap f d = Inr d'" and "\<And>n s y. f (n, s) = Inr y \<Longrightarrow> fst y = n"
  shows "map fst d' = map fst d"
  using assms(1)
proof (induction d arbitrary: d')
  case (Cons p d)
  obtain n s where p: "p = (n, s)" by (cases p)
  with Cons.prems obtain y ys where "f (n, s) = Inr y" "rmap f d = Inr ys" "d' = y # ys"
    by (auto simp: rbind_Inr_iff)
  then show ?case using Cons.IH assms(2) by (simp add: p)
qed simp

lemma promote_keys:
  assumes "promote_local_kv_cache_specs api specs = Inr promoted"
  shows "map fst promoted = map fst specs"
proof -
  have keys: "map fst d' = map fst specs"
    if "rmap (\<lambda>(n, s). case first_promotion (spec_mro api s) of
               None \<Rightarrow> Inr (n, s)
             | Some target \<Rightarrow>
                 rbind (rassert (isa api s AttentionSpec)) (\<lambda>_.
                 let b = f s in
                 rbind (promoted_page_size_padded api s b) (\<lambda>p.
                   Inr (n, replace_as api s target b p)))) specs = Inr d'" for f d'
    by (rule rmap_keys[OF that]) (auto simp: rbind_Inr_iff Let_def split: option.split_asm)
  show ?thesis using assms
    by (auto simp: promote_local_kv_cache_specs_def rbind_Inr_iff Let_def dest: keys split: if_split_asm)
qed

lemma unify_keys:
  assumes "unify_kv_cache_spec_page_size api specs = Inr unified"
  shows "map fst unified = map fst specs"
proof (cases "length (remdups (map (\<lambda>(_, s). page_size_bytes api s) specs)) \<le> 1")
  case True
  then show ?thesis using assms by (simp add: unify_kv_cache_spec_page_size_def)
next
  case False
  then show ?thesis using assms unfolding unify_kv_cache_spec_page_size_def Let_def
    by (auto simp: rbind_Inr_iff intro!: rmap_keys split: if_split_asm)
qed

lemma fallback_partition:
  assumes "api_uniform api" and "try_full_allocation_fallback_groups api specs = Inr (Some gs)"
  shows "partitions gs specs"
proof -
  from assms(2) obtain promoted u where "promote_local_kv_cache_specs api specs = Inr promoted"
    and "uniform_from_specs api promoted = Some u" and "gs = groups_uniform_type u"
    by (auto simp: try_full_allocation_fallback_groups_def Let_def
        split: if_split_asm sum.split_asm option.split_asm)
  then show ?thesis using uniform_type_groups_partition[OF assms(1)] promote_keys by blast
qed

lemma pp_rank_loop_ge:
  "pp_rank_loop api t pp mi li ranks n = Inr (Some m) \<Longrightarrow> n \<le> m"
proof (induction ranks arbitrary: n)
  case (Cons r ranks)
  then show ?case by (fastforce simp: Let_def split: prod.split_asm if_split_asm)
qed simp

lemma glm5_groups_partition:
  assumes api: "api_uniform api" and gs: "groups_glm5_next api cfg specs = Inr (Some gs)"
  shows "partitions gs specs"
proof -
  let ?mamba = "filter (\<lambda>(_, s). isa api s MambaSpec) specs"
  let ?tails = "filter (\<lambda>(_, s). isa api s KpoolTailSpec) specs"
  let ?attn = "filter (\<lambda>(_, s). \<not> isa api s MambaSpec \<and> \<not> isa api s KpoolTailSpec) specs"
  let ?mla = "filter (\<lambda>(_, s). state_tokens api (\<lambda>k. k = 1) s) ?attn"
  obtain u idx_p mla_p tail_group n padded mamba_gs where
    ne: "?mamba \<noteq> []" and mla: "single_page (map (\<lambda>(_, s). page_size_bytes api s) ?mla) = Some mla_p"
    and tg: "glm5_tail_group api idx_p ?tails = Inr tail_group"
    and num: "pp_balanced_mamba_group_count api cfg (map fst ?mamba) (map fst ?mla) = Inr (Some n)"
    and mg: "create_kv_cache_group_specs api padded (deal (nat n) (map fst ?mamba)) = Inr mamba_gs"
    and gs': "gs = [KVCacheGroupSpec (map fst ?attn) u] @ tail_group @ mamba_gs"
    using gs unfolding groups_glm5_next_def Let_def
    by (auto simp: rbind_Inr_iff some_or_Inr_iff split: if_split_asm)
  have "?mla \<noteq> []"
    using single_page_set[OF mla] by (metis empty_set insert_not_empty list.map(1))
  then have "0 < cdiv (int (length (map fst ?mamba))) (int (length (map fst ?mla)))"
    using ne by (intro cdiv_pos) auto
  then have n: "0 < n"
    using num pp_rank_loop_ge
    by (fastforce simp: pp_balanced_mamba_group_count_def py_cdiv_def rbind_Inr_iff Let_def split: if_split_asm)
  have tn: "concat (map layer_names tail_group) = map fst ?tails"
    using tg by (auto simp: glm5_tail_group_def rbind_Inr_iff KVCacheGroupSpec_def Let_def case_prod_beta comp_def
        split: if_split_asm)
  have mn: "mset (concat (map layer_names mamba_gs)) = mset (map fst ?mamba)"
    unfolding create_groups_names[OF mg] using n by (intro deals.covers) simp
  have excl: "\<not> (isa api s MambaSpec \<and> isa api s KpoolTailSpec)" for s
    using api by (simp add: api_uniform_def)
  have "mset (map fst ?attn) + mset (map fst ?tails) + mset (map fst ?mamba) = mset (map fst specs)"
    by (induction specs) (use excl in \<open>auto simp: case_prod_beta\<close>)
  then show ?thesis using tn mn
    by (simp add: partitions_def gs' KVCacheGroupSpec_def add.assoc)
qed

lemma partitions_split:
  assumes "partitions gs (filter (\<lambda>(_, s). \<not> P s) specs)"
    and "map layer_names hs = map (\<lambda>(n, _). [n]) (filter (\<lambda>(_, s). P s) specs)"
  shows "partitions (gs @ hs) specs"
proof -
  have singles: "concat (map (\<lambda>(n, _). [n]) xs) = map fst xs" for xs :: "(string \<times> 'b) list"
    by (induction xs) auto
  have "concat (map layer_names hs) = map fst (filter (\<lambda>(_, s). P s) specs)"
    unfolding assms(2) by (rule singles)
  moreover have "mset (map fst (filter (\<lambda>(_, s). \<not> P s) specs)) + mset (map fst (filter (\<lambda>(_, s). P s) specs)) =
      mset (map fst specs)"
    by (induction specs) auto
  ultimately show ?thesis using assms by (simp add: partitions_def)
qed

lemma dict_ok_filter: "dict_ok d \<Longrightarrow> dict_ok (filter P d)"
  by (simp add: dict_ok_def distinct_map_filter)

lemma one_page_size_groups_partition:
  assumes api: "api_uniform api"
    and gs: "one_page_size_groups api cfg specs (filter (\<lambda>(_, s). P s) specs)
      (filter (\<lambda>(_, s). \<not> P s) specs) = Inr gs"
  shows "partitions gs specs"
proof (cases "unify_kv_cache_spec_page_size api (filter (\<lambda>(_, s). \<not> P s) specs)")
  case (Inl e)
  with gs have "try_full_allocation_fallback_groups api specs = Inr (Some gs)"
    by (auto simp: one_page_size_groups_def rbind_Inr_iff some_or_Inr_iff split: if_split_asm)
  then show ?thesis by (rule fallback_partition[OF api])
next
  case (Inr unified)
  from gs[unfolded one_page_size_groups_def Inr sum.case] obtain ugs hgs
    where ugs: "groups_uniform_page_size api unified = Inr ugs"
      and hgs: "hidden_groups api ugs (filter (\<lambda>(_, s). P s) specs) = Inr hgs"
      and gs': "annotate_eagle_groups api cfg specs False (ugs @ hgs) = Inr gs"
    by (auto simp: rbind_Inr_iff)
  have u: "partitions ugs (filter (\<lambda>(_, s). \<not> P s) specs)"
    using uniform_page_groups_partition[OF ugs] unify_keys[OF Inr] by (simp add: partitions_def)
  have hidden_name: "layer_names g = [fst x]" if "hidden_group api cp cb x = Inr g" for cp cb x g
    using that by (auto simp: hidden_group_def Let_def rbind_Inr_iff KVCacheGroupSpec_def split: prod.split_asm)
  have "map layer_names hgs = map (\<lambda>(n, _). [n]) (filter (\<lambda>(_, s). P s) specs)"
  proof (cases "filter (\<lambda>(_, s). P s) specs = []")
    case True with hgs show ?thesis by (simp add: hidden_groups_def)
  next
    case False
    with hgs obtain cp cb where "rmap (hidden_group api cp cb) (filter (\<lambda>(_, s). P s) specs) = Inr hgs"
      unfolding hidden_groups_def by (auto simp: rbind_Inr_iff simp del: filter_empty_conv)
    from rmap_names[OF this hidden_name] show ?thesis by (simp add: case_prod_beta')
  qed
  from partitions_split[OF u this] show ?thesis
    using annotate_names[OF gs'] by (simp add: partitions_def)
qed

lemma mixed_groups_partition:
  assumes api: "api_uniform api" and ok: "dict_ok specs"
    and bal: "buckets_balanced api (filter (\<lambda>(_, s). \<not> isa api s HiddenStateCacheSpec) specs)"
    and gs: "mixed_groups api cfg specs = Inr gs"
  shows "partitions gs specs"
proof -
  let ?hidden = "filter (\<lambda>(_, s). isa api s HiddenStateCacheSpec) specs"
  let ?filtered = "filter (\<lambda>(_, s). \<not> isa api s HiddenStateCacheSpec) specs"
  obtain packed where packed: "packed_kv_cache_groups api cfg ?filtered = Inr packed"
    using gs by (auto simp: mixed_groups_def Let_def rbind_Inr_iff)
  consider ps where "packed = Some ps" "ps \<noteq> []" | "packed = None \<or> packed = Some []"
    by (cases packed) auto
  then show ?thesis
  proof cases
    case 1
    then have gs': "gs = ps @ map (\<lambda>(n, s). KVCacheGroupSpec [n] (LayerSpec s)) ?hidden"
      using gs packed by (cases ps) (simp_all add: mixed_groups_def)
    have "map layer_names (map (\<lambda>(n, s). KVCacheGroupSpec [n] (LayerSpec s)) ?hidden) =
        map (\<lambda>(n, _). [n]) ?hidden"
      by (simp add: KVCacheGroupSpec_def case_prod_beta comp_def)
    from partitions_split[OF packed_groups_partition[OF api dict_ok_filter[OF ok] bal packed[unfolded 1(1)]] this]
    show ?thesis unfolding gs' .
  next
    case 2
    then have "one_page_size_groups api cfg specs ?hidden ?filtered = Inr gs"
      using gs packed by (auto simp: mixed_groups_def)
    then show ?thesis by (rule one_page_size_groups_partition[OF api])
  qed
qed

lemma groups_of_specs_partition:
  assumes api: "api_uniform api" and ok: "dict_ok specs"
    and bal: "buckets_balanced api (filter (\<lambda>(_, s). \<not> isa api s HiddenStateCacheSpec) specs)"
    and gs: "groups_of_specs api cfg specs = Inr gs"
  shows "partitions gs specs"
proof -
  note gs = gs[unfolded groups_of_specs_def is_kv_cache_type_attention_free_def]
  show ?thesis
  proof (cases "specs = []")
    case True then show ?thesis using gs by (simp add: partitions_def)
  next
    case False
    with gs obtain uniform where uni: "is_kv_cache_spec_uniform api specs = Inr uniform"
      by (auto simp: rbind_Inr_iff)
    note gs = gs[unfolded uni rbind_simps if_not_P[OF False]]
    show ?thesis
    proof (cases uniform)
      case True
      then have "groups_uniform_spec api specs = Inr gs" using gs by simp
      from create_groups_names[OF this[unfolded groups_uniform_spec_def]] show ?thesis
        by (simp add: partitions_def)
    next
      case not_uniform: False
      note gs = gs[unfolded if_not_P[OF not_uniform]]
      show ?thesis
      proof (cases "uniform_from_specs api specs")
        case (Some u)
        with gs show ?thesis using uniform_type_groups_partition[OF api Some] by simp
      next
        case None
        note gs = gs[unfolded None option.case]
        then obtain glm5 where glm5: "groups_glm5_next api cfg specs = Inr glm5"
          by (auto simp: rbind_Inr_iff)
        note gs = gs[unfolded glm5 rbind_simps]
        show ?thesis
        proof (cases "glm5 = None \<or> glm5 = Some []")
          case True
          then have "mixed_groups api cfg specs = Inr gs" using gs by auto
          then show ?thesis by (rule mixed_groups_partition[OF api ok bal])
        next
          case False
          then have "glm5 = Some gs" using gs by (auto split: option.split_asm list.split_asm)
          with glm5 show ?thesis by (intro glm5_groups_partition[OF api]) simp
        qed
      qed
    qed
  qed
qed

section \<open>Every layer in one group\<close>

lemma dict_update_keys:
  assumes "set (map fst d') \<subseteq> set (map fst d)"
  shows "map fst (dict_update d d') = map fst d"
  unfolding dict_update_def using assms
proof (induction d' arbitrary: d)
  case (Cons p d')
  obtain k v where p: "p = (k, v)" by (cases p)
  then have "k \<in> fst ` set d" using Cons.prems by auto
  then have k: "map fst (dict_set k v d) = map fst d" by (simp only: keys_dict_set if_True)
  have "set (map fst d') \<subseteq> set (map fst (dict_set k v d))"
    unfolding k using Cons.prems by (simp add: p)
  from Cons.IH[OF this] have "map fst (foldl (\<lambda>acc (k, v). dict_set k v acc) (dict_set k v d) d') = map fst d"
    unfolding k .
  then show ?case by (simp add: p)
qed simp

lemma unify_hybrid_keys:
  assumes "unify_hybrid_kv_cache_specs api specs = (r, specs')"
  shows "map fst specs' = map fst specs"
proof (cases "uniform_or_uniform_type api specs")
  case (Inr uniform)
  show ?thesis
  proof (cases "uniform \<or> (\<exists>e. promote_local_kv_cache_specs api specs = Inl e)")
    case True
    then show ?thesis using assms Inr by (cases uniform) (auto simp: unify_hybrid_kv_cache_specs_def)
  next
    case False
    then obtain promoted where promoted: "promote_local_kv_cache_specs api specs = Inr promoted" and "\<not> uniform"
      by (cases "promote_local_kv_cache_specs api specs") auto
    then have "specs' = dict_update specs promoted"
      using assms by (simp add: unify_hybrid_kv_cache_specs_def Inr)
    then show ?thesis using dict_update_keys[of promoted specs] promote_keys[OF promoted] by simp
  qed
qed (use assms in \<open>simp add: unify_hybrid_kv_cache_specs_def\<close>)

lemma one_value_list:
  assumes "length (remdups xs) \<le> 1" and "x \<in> set xs"
  shows "set xs = {x}"
proof -
  from assms have "remdups xs = [x]"
    by (cases "remdups xs") (auto simp flip: set_remdups[of xs])
  then show ?thesis by (metis empty_set list.simps(15) set_remdups)
qed

text \<open>
  C10. Whichever grouping the configuration leads to, the groups hold every layer exactly once and the
  specs keep their layers: for uniform, mixed, packed, GLM-5 or promoted specs, hidden-state layers
  included, provided that the state layers of one bucket have as many layers of each page size.
\<close>

theorem groups_hold_each_layer_once:
  assumes "api_uniform api" and "dict_ok specs"
    and "get_kv_cache_groups api cfg specs = (Inr groups, specs')"
    and "buckets_balanced api (filter (\<lambda>(_, s). \<not> isa api s HiddenStateCacheSpec) specs')"
  shows "mset (concat (map layer_names groups)) = mset (map fst specs) \<and> map fst specs' = map fst specs"
proof -
  obtain r where "(r, specs') = (if disable_hybrid_kv_cache_manager cfg
      then unify_hybrid_kv_cache_specs api specs else (Inr (), specs))"
    and gs: "groups_of_specs api cfg specs' = Inr groups"
    using assms(3) by (auto simp: get_kv_cache_groups_def Let_def rbind_Inr_iff split: prod.split_asm)
  then have keys: "map fst specs' = map fst specs"
    by (metis unify_hybrid_keys prod.inject)
  then have "dict_ok specs'" using assms(2) by (simp add: dict_ok_def)
  from groups_of_specs_partition[OF assms(1) this assms(4) gs] keys show ?thesis
    by (simp add: partitions_def)
qed

text \<open>A bucket of sliding-window layers beside full-attention layers, of another page size.\<close>

definition mixed_specs :: "(string, demo_spec) dict" where
  "mixed_specs = [(''w0'', window_spec 32), (''f0'', full_spec 16), (''w1'', window_spec 32),
     (''w2'', window_spec 32)]"

lemma groups_hold_each_layer_once_witness:
  "mset (concat (map layer_names (case get_kv_cache_groups demo_api (demo_config 64) mixed_specs of
     (Inr gs, _) \<Rightarrow> gs | _ \<Rightarrow> []))) = {#''w0'', ''f0'', ''w1'', ''w2''#}"
proof -
  have run: "get_kv_cache_groups demo_api (demo_config 64) mixed_specs =
      (Inr (case get_kv_cache_groups demo_api (demo_config 64) mixed_specs of
        (Inr gs, _) \<Rightarrow> gs | _ \<Rightarrow> []), mixed_specs)"
    by code_simp
  have ok: "dict_ok mixed_specs" by code_simp
  have "buckets_balanced demo_api (filter (\<lambda>(_, s). \<not> isa demo_api s HiddenStateCacheSpec) mixed_specs)"
    by code_simp
  from groups_hold_each_layer_once[OF demo_api_uniform ok run this] show ?thesis
    by (simp add: mixed_specs_def)
qed

text \<open>
  Unifying the page sizes keeps every layer and gives all layers the largest page size.
\<close>

lemma unified_page_size:
  assumes "unify_kv_cache_spec_page_size api specs = Inr unified" and "specs \<noteq> []"
  shows "map fst unified = map fst specs \<and>
    page_size_bytes api ` snd ` set unified = {Max (page_size_bytes api ` snd ` set specs)}"
proof (cases "length (remdups (map (\<lambda>(_, s). page_size_bytes api s) specs)) \<le> 1")
  case True
  then have "unified = specs" using assms(1) by (simp add: unify_kv_cache_spec_page_size_def)
  moreover have "set (map (\<lambda>(_, s). page_size_bytes api s) specs) = {page_size_bytes api (snd (hd specs))}"
    by (rule one_value_list[OF True]) (use assms(2) in \<open>cases specs; auto\<close>)
  then have "page_size_bytes api ` snd ` set specs = {page_size_bytes api (snd (hd specs))}"
    by (simp add: case_prod_beta image_image)
  ultimately show ?thesis by simp
next
  case False
  let ?pages = "map (\<lambda>(_, s). page_size_bytes api s) specs"
  have pages: "set ?pages = page_size_bytes api ` snd ` set specs" by (auto simp: image_image case_prod_beta)
  define f where "f p = (\<lambda>(n :: string, s).
      if page_size_bytes api s = p then Inr (n, s)
      else
        rbind (if isa api s MambaSpec then Inr (with_page_size_padded api s p)
            else rbind (py_mod p (page_size_bytes api s)) (\<lambda>r.
              if r = 0 then
                Inr (with_block_size api s (block_size api s * (p div page_size_bytes api s)))
              else if isa api s AttentionSpec \<and> \<not> isa api s MLAAttentionSpec
              then Inr (with_page_size_padded api s p)
              else Inl NotImplementedError)) (\<lambda>new_spec.
        rbind (rassert (page_size_bytes api new_spec = p)) (\<lambda>_. Inr (n, new_spec))))" for p
  obtain p where p: "py_max ?pages = Inr p" and f: "rmap (f p) specs = Inr unified"
    using assms(1) False unfolding unify_kv_cache_spec_page_size_def Let_def f_def
    by (auto simp: rbind_Inr_iff)
  have page: "page_size_bytes api (snd y) = p" if "f p x = Inr y" for x y
    using that by (auto simp: f_def rbind_Inr_iff res_simps split: prod.split_asm if_split_asm)
  have "page_size_bytes api ` snd ` set ys \<subseteq> {p}" if "rmap (f p) xs = Inr ys" for xs ys
    using that
  proof (induction xs arbitrary: ys)
    case (Cons x xs)
    then obtain y ys' where y: "f p x = Inr y" and ys': "rmap (f p) xs = Inr ys'" "ys = y # ys'"
      by (auto simp: rbind_Inr_iff)
    then show ?case using Cons.IH[OF ys'(1)] page[OF y] by simp
  qed simp
  from this[OF f] unify_keys[OF assms(1)] assms(2)
  have "page_size_bytes api ` snd ` set unified = {p}" by (cases unified) auto
  moreover have "p = Max (page_size_bytes api ` snd ` set specs)"
    using py_max_Inr[OF p] pages by (intro Max_eqI[symmetric]) auto
  ultimately show ?thesis using unify_keys[OF assms(1)] by simp
qed

lemma unified_page_size_witness:
  "page_size_bytes demo_api ` snd ` set (case unify_kv_cache_spec_page_size demo_api mixed_specs of
     Inr u \<Rightarrow> u | _ \<Rightarrow> []) = {64}"
proof -
  have "unify_kv_cache_spec_page_size demo_api mixed_specs =
      Inr (case unify_kv_cache_spec_page_size demo_api mixed_specs of Inr u \<Rightarrow> u | _ \<Rightarrow> [])"
    by code_simp
  moreover have "mixed_specs \<noteq> []" by (simp add: mixed_specs_def)
  moreover have "Max (page_size_bytes demo_api ` snd ` set mixed_specs) = 64" by code_simp
  ultimately show ?thesis using unified_page_size[of demo_api mixed_specs] by metis
qed

text \<open>Five state layers of page size 4 and three of page size 8, beside a full-attention layer.\<close>

definition unbalanced_specs :: "(string, demo_spec) dict" where
  "unbalanced_specs =
     (let mamba = \<lambda>w. \<lparr>demo_class = MambaSpec, demo_block = 1, demo_token_bytes = w,
            demo_padded = None, demo_tokens_per_state = 1\<rparr> in
      map (\<lambda>n. (n, mamba 4)) [''a1'', ''a2'', ''a3'', ''a4'', ''a5''] @
      map (\<lambda>n. (n, mamba 8)) [''b1'', ''b2'', ''b3''] @ [(''f'', full_spec 1)])"

text \<open>
  A bucket of state layers with unequal counts per page size is not emitted whole, as the packed
  grouping announces: its split zips the page sizes, and the layers beyond the shortest list end up
  in no group.
\<close>

lemma unbalanced_state_layers_dropped:
  "map_sum id (map layer_names) (fst (get_kv_cache_groups demo_api (demo_config 64) unbalanced_specs)) =
     Inr [[''a1'', ''b1''], [''a2'', ''b2''], [''a3'', ''b3''], [''f'']]"
  by code_simp

end
