(* ===== verification/Kv_Config.thy ===== *)
theory Kv_Config
  imports Kv_Groups
begin

text \<open>
  From groups to tensors (\<^verbatim>\<open>kv_cache_utils.py\<close>): the plan of the cache tensors of one worker, the
  projection of the model's groups on a worker's layers, the plan for all workers with its memory
  checks and the levelling of the number of blocks, and the scheduler's configuration. The main
  results: the workers agree on the number of blocks and stay within their memory, every layer has
  one tensor, and the pages of the layers of a group are disjoint and lie inside the pool.
\<close>

section \<open>Tensors\<close>

record kv_cache_tensor =
  tensor_size :: int
  tensor_layers :: "string list"
  layer_stride :: int
  block_stride :: int
  tensor_offset :: int

record 's kv_cache_config =
  num_blocks :: int
  kv_cache_tensors :: "kv_cache_tensor list"
  kv_cache_groups :: "'s kv_group list"
  retention_interval :: "int option"

text \<open>The layers of a spec that is used as a uniform one.\<close>

fun uniform_layers :: "'s group_spec \<Rightarrow> (string, 's) dict res" where
  "uniform_layers (UniformSpecs b d) = Inr d"
| "uniform_layers (LayerSpec s) = Inl AttributeError"

text \<open>A tensor of one layer, with its own page as block stride.\<close>

definition add_tensor :: "int \<Rightarrow> int \<Rightarrow> string \<Rightarrow> int \<Rightarrow> int \<Rightarrow> kv_cache_tensor" where
  "add_tensor total_size blocks layer_name page offset =
     \<lparr>tensor_size = total_size, tensor_layers = [layer_name], layer_stride = page * blocks,
      block_stride = page, tensor_offset = offset\<rparr>"

text \<open>The slot of the MLA layer at an index, and the Mamba layers that share it.\<close>

definition mla_slot ::
    "'s spec_api \<Rightarrow> 's glm5_layout \<Rightarrow> (string, 's) dict \<Rightarrow> int \<Rightarrow> int \<Rightarrow> nat \<times> string \<Rightarrow> kv_cache_tensor list res" where
  "mla_slot api l attn_specs total_size blocks slot =
     (let (index, mla_name) = slot;
          offset = int index * mla_page l * blocks in
      rbind (dict_get attn_specs mla_name) (\<lambda>s.
        Inr (add_tensor total_size blocks mla_name (page_size_bytes api s) offset #
          map (\<lambda>g. add_tensor total_size blocks (layer_names g ! index)
              (group_page_size_bytes api (kv_cache_spec g)) offset)
            (filter (\<lambda>g. index < length (layer_names g)) (mamba_groups l)))))"

text \<open>The slot of the indexer layer at an index, and the tail layer that shares it.\<close>

definition tail_tensor ::
    "'s spec_api \<Rightarrow> 's kv_group list \<Rightarrow> 's glm5_layout \<Rightarrow> int \<Rightarrow> int \<Rightarrow> nat \<Rightarrow> int \<Rightarrow> kv_cache_tensor list res" where
  "tail_tensor api groups l total_size blocks index offset =
     (if tail_names l = [] then Inr []
      else if length (tail_names l) \<le> index then Inl IndexError
      else
        let tail_name = tail_names l ! index in
        rbind (some_or StopIteration (find (\<lambda>g. tail_name \<in> set (layer_names g)) groups)) (\<lambda>tail_group.
        rbind (uniform_layers (kv_cache_spec tail_group)) (\<lambda>tail_specs.
        rbind (dict_get tail_specs tail_name) (\<lambda>s.
          Inr [add_tensor total_size blocks tail_name (page_size_bytes api s) offset]))))"

definition idx_slot ::
    "'s spec_api \<Rightarrow> 's kv_group list \<Rightarrow> 's glm5_layout \<Rightarrow> (string, 's) dict \<Rightarrow> int \<Rightarrow> int \<Rightarrow> nat \<times> string
      \<Rightarrow> kv_cache_tensor list res" where
  "idx_slot api groups l attn_specs total_size blocks slot =
     (let (index, idx_name) = slot;
          idx_base = int (length (mla_names l)) * mla_page l * blocks;
          offset = idx_base + int index * idx_page l * blocks in
      rbind (dict_get attn_specs idx_name) (\<lambda>s.
      rbind (tail_tensor api groups l total_size blocks index offset) (\<lambda>tail.
        Inr (add_tensor total_size blocks idx_name (page_size_bytes api s) offset # tail))))"

definition glm5_config ::
    "'s spec_api \<Rightarrow> vllm_config \<Rightarrow> 's kv_group list \<Rightarrow> int \<Rightarrow> 's glm5_layout \<Rightarrow> 's kv_cache_config res" where
  "glm5_config api cfg groups available_memory l =
     (let bytes_per_block = int (length (mla_names l)) * mla_page l + int (length (idx_names l)) * idx_page l in
      rbind (py_div available_memory bytes_per_block) (\<lambda>q.
      let blocks = may_override_num_blocks cfg q;
          total_size = bytes_per_block * blocks in
      rbind (uniform_layers (kv_cache_spec (attn_group l))) (\<lambda>attn_specs.
      rbind (rmap (mla_slot api l attn_specs total_size blocks) (enumerate 0 (mla_names l))) (\<lambda>mla_tensors.
      rbind (rmap (idx_slot api groups l attn_specs total_size blocks) (enumerate 0 (idx_names l))) (\<lambda>idx_tensors.
        Inr \<lparr>num_blocks = blocks, kv_cache_tensors = concat mla_tensors @ concat idx_tensors,
          kv_cache_groups = groups, retention_interval = prefix_cache_retention_interval cfg\<rparr>)))))"

text \<open>The layers of a group by spec, in the order of the first layer of each.\<close>

definition layers_by_spec :: "'s kv_group \<Rightarrow> ('s, string list) dict" where
  "layers_by_spec g =
     (case kv_cache_spec g of
        UniformSpecs b d \<Rightarrow> foldl (\<lambda>acc (n, s). dict_push s n acc) [] d
      | LayerSpec s \<Rightarrow> if layer_names g = [] then [] else [(s, layer_names g)])"

text \<open>The tensors of a group, one per spec, from a byte offset on.\<close>

fun group_tensors ::
    "'s spec_api \<Rightarrow> kv_layout \<Rightarrow> int option \<Rightarrow> int \<Rightarrow> int \<Rightarrow> ('s, string list) dict \<Rightarrow> int \<Rightarrow> kv_cache_tensor list res" where
  "group_tensors api layout interleaved total_size blocks [] byte_offset = Inr []"
| "group_tensors api layout interleaved total_size blocks ((s, names) # rest) byte_offset =
     (let (l_stride, b_stride) =
            compute_layout_strides api s blocks (int (length names)) layout interleaved in
      rbind (py_div (byte_offset * max l_stride (page_size_bytes api s)) (page_size_bytes api s)) (\<lambda>offset.
      rbind (group_tensors api layout interleaved total_size blocks rest
          (byte_offset + int (length names) * page_size_bytes api s)) (\<lambda>ts.
        Inr (\<lparr>tensor_size = total_size, tensor_layers = names, layer_stride = l_stride,
            block_stride = b_stride, tensor_offset = offset\<rparr> # ts))))"

definition packed_config ::
    "'s spec_api \<Rightarrow> vllm_config \<Rightarrow> 's kv_group list \<Rightarrow> int \<Rightarrow> 's kv_cache_config res" where
  "packed_config api cfg groups available_memory =
     (let layout = resolved_kv_cache_layout cfg in
      rbind (validate_kv_cache_layout api layout groups) (\<lambda>_.
      rbind (get_kv_cache_bytes_per_block api groups) (\<lambda>bytes_per_block.
      let interleaved = (if is_block_outermost layout then Some bytes_per_block else None) in
      rbind (py_div available_memory bytes_per_block) (\<lambda>q.
      let blocks = may_override_num_blocks cfg q;
          total_size = bytes_per_block * blocks in
      rbind (rmap (\<lambda>g. group_tensors api layout interleaved total_size blocks (layers_by_spec g) 0) groups) (\<lambda>tss.
        Inr \<lparr>num_blocks = blocks, kv_cache_tensors = concat tss,
          kv_cache_groups = groups, retention_interval = prefix_cache_retention_interval cfg\<rparr>)))))"

definition get_kv_cache_config_from_groups ::
    "'s spec_api \<Rightarrow> vllm_config \<Rightarrow> 's kv_group list \<Rightarrow> int \<Rightarrow> 's kv_cache_config res" where
  "get_kv_cache_config_from_groups api cfg groups available_memory =
     (if groups = [] then
        Inr \<lparr>num_blocks = 1, kv_cache_tensors = [], kv_cache_groups = groups,
          retention_interval = prefix_cache_retention_interval cfg\<rparr>
      else
        rbind (glm5_next_tensor_layout api groups) (\<lambda>l.
        case l of
          Some l \<Rightarrow> glm5_config api cfg groups available_memory l
        | None \<Rightarrow> packed_config api cfg groups available_memory))"

section \<open>Workers\<close>

definition dict_of :: "('k \<times> 'v) list \<Rightarrow> ('k, 'v) dict" where
  "dict_of kvs = foldl (\<lambda>d (k, v). dict_set k v d) [] kvs"

definition project_group :: "(string, 's) dict \<Rightarrow> 's kv_group \<Rightarrow> 's kv_group res" where
  "project_group worker_spec g =
     (let names = filter (\<lambda>n. n \<in> fst ` set worker_spec) (layer_names g) in
      rbind (case kv_cache_spec g of
          UniformSpecs b d \<Rightarrow>
            if names = [] then Inr (UniformSpecs b d)
            else rbind (rmap (\<lambda>n. rbind (dict_get d n) (\<lambda>s. Inr (n, s))) names) (\<lambda>kvs.
              Inr (UniformSpecs b (dict_of kvs)))
        | LayerSpec s \<Rightarrow> Inr (LayerSpec s)) (\<lambda>spec.
        Inr \<lparr>layer_names = names, kv_cache_spec = spec,
          is_eagle_group = (is_eagle_group g \<and> names \<noteq> [])\<rparr>))"

definition project_kv_cache_groups_to_worker ::
    "'s kv_group list \<Rightarrow> (string, 's) dict \<Rightarrow> 's kv_group list res" where
  "project_kv_cache_groups_to_worker groups worker_spec = rmap (project_group worker_spec) groups"

text \<open>The specs of all workers in one dictionary; a layer on several workers has one spec.\<close>

definition merge_worker :: "(string, 's) dict \<Rightarrow> (string, 's) dict \<Rightarrow> (string, 's) dict res" where
  "merge_worker worker merged =
     rfold (\<lambda>(n, s) m. case map_of m n of
         None \<Rightarrow> Inr (dict_set n s m)
       | Some s' \<Rightarrow> rbind (rassert (s' = s)) (\<lambda>_. Inr m)) worker merged"

definition merge_workers :: "(string, 's) dict list \<Rightarrow> (string, 's) dict res" where
  "merge_workers specs = rfold merge_worker specs []"

definition extra_retained_tokens :: "vllm_config \<Rightarrow> int" where
  "extra_retained_tokens cfg =
     (case speculative cfg of
        Some sc \<Rightarrow> if use_multi_module_mtp sc then num_speculative_tokens sc - 1 else 0
      | None \<Rightarrow> 0)"

definition retain_window_tokens :: "'s spec_api \<Rightarrow> vllm_config \<Rightarrow> (string, 's) dict \<Rightarrow> (string, 's) dict" where
  "retain_window_tokens api cfg specs =
     map (\<lambda>(n, s). (n, if isa api s SlidingWindowSpec
         then with_extra_retained_tokens api s (extra_retained_tokens cfg) else s)) specs"

text \<open>The memory the plan counts on: the override decides it when there is one.\<close>

definition effective_memory ::
    "'s spec_api \<Rightarrow> vllm_config \<Rightarrow> ('s kv_group list \<times> int) list \<Rightarrow> int list \<Rightarrow> int list res" where
  "effective_memory api cfg workers available_memory =
     (case num_gpu_blocks_override cfg of
        None \<Rightarrow> Inr available_memory
      | Some override \<Rightarrow>
          rmap (\<lambda>(groups, avail).
            if groups = [] then Inr avail
            else rbind (pool_bytes_per_block api groups) (\<lambda>b.
              rbind (py_div avail b) (\<lambda>_. Inr (override * b)))) workers)"

definition usable_memory :: "'s spec_api \<Rightarrow> ('s kv_group list \<times> int) list \<Rightarrow> int list res" where
  "usable_memory api workers =
     rmap (\<lambda>(groups, avail).
       if groups = [] then Inr avail
       else rbind (pool_bytes_per_block api groups) (\<lambda>b. Inr (avail - b))) workers"

text \<open>
  The first steps: the projected groups, the effective memory and the usable memory of each worker.
  The check of the spec registry belongs to vllm.
\<close>

definition plan_workers ::
    "'s spec_api \<Rightarrow> ((string, 's) dict \<Rightarrow> unit res) \<Rightarrow> vllm_config \<Rightarrow> (string, 's) dict list \<Rightarrow> int list \<Rightarrow>
       ('s kv_group list list \<times> int list \<times> int list) res" where
  "plan_workers api check_registry cfg specs available_memory =
     rbind (merge_workers specs) (\<lambda>merged.
     rbind (check_registry merged) (\<lambda>_.
     rbind (fst (get_kv_cache_groups api cfg (retain_window_tokens api cfg merged))) (\<lambda>groups.
     rbind (rmap (project_kv_cache_groups_to_worker groups) specs) (\<lambda>projected.
     rbind (effective_memory api cfg (zip projected available_memory) available_memory) (\<lambda>memory.
     rbind (usable_memory api (zip projected memory)) (\<lambda>usable.
       Inr (projected, memory, usable)))))))"

fun check_workers ::
    "'s spec_api \<Rightarrow> ('s kv_group list \<times> int) list \<Rightarrow> vllm_config \<Rightarrow> (vllm_config, unit) outcome" where
  "check_workers api [] cfg = (Inr (), cfg)"
| "check_workers api ((groups, avail) # ws) cfg =
     (if groups = [] then check_workers api ws cfg
      else case check_enough_memory avail (max_memory_usage_bytes_from_groups api groups)
          (\<lambda>cfg. estimate_max_model_len_from_groups api cfg groups) cfg of
        (Inl e, cfg) \<Rightarrow> (Inl e, cfg)
      | (Inr _, cfg) \<Rightarrow> check_workers api ws cfg)"

definition worker_config ::
    "'s spec_api \<Rightarrow> vllm_config \<Rightarrow> 's kv_group list \<times> (string, 's) dict \<times> int \<Rightarrow> 's kv_cache_config res" where
  "worker_config api cfg w =
     (let (groups, spec, avail) = w in
      rbind (rassert (sum_list (map (\<lambda>g. length (layer_names g)) groups) = length spec)) (\<lambda>_.
        get_kv_cache_config_from_groups api cfg groups avail))"

text \<open>Every worker is planned again with the blocks of the smallest.\<close>

definition level_config :: "'s spec_api \<Rightarrow> vllm_config \<Rightarrow> int \<Rightarrow> 's kv_cache_config \<Rightarrow> 's kv_cache_config res" where
  "level_config api cfg min_num_blocks c =
     (if num_blocks c = min_num_blocks then Inr c
      else rbind (pool_bytes_per_block api (kv_cache_groups c)) (\<lambda>b.
        get_kv_cache_config_from_groups api cfg (kv_cache_groups c) (min_num_blocks * b)))"

definition build_configs ::
    "'s spec_api \<Rightarrow> vllm_config \<Rightarrow> 's kv_group list list \<Rightarrow> (string, 's) dict list \<Rightarrow> int list \<Rightarrow>
       's kv_cache_config list res" where
  "build_configs api cfg projected specs memory =
     rbind (rmap (worker_config api cfg) (zip projected (zip specs memory))) (\<lambda>configs.
     rbind (py_min (map num_blocks configs)) (\<lambda>min_num_blocks.
       rmap (level_config api cfg min_num_blocks) configs))"

definition get_kv_cache_configs ::
    "'s spec_api \<Rightarrow> ((string, 's) dict \<Rightarrow> unit res) \<Rightarrow> vllm_config \<Rightarrow> (string, 's) dict list \<Rightarrow> int list \<Rightarrow>
       (vllm_config, 's kv_cache_config list) outcome" where
  "get_kv_cache_configs api check_registry cfg specs available_memory =
     (case plan_workers api check_registry cfg specs available_memory of
        Inl e \<Rightarrow> (Inl e, cfg)
      | Inr (projected, memory, usable) \<Rightarrow>
          (case if original_max_model_len cfg = -1 then auto_fit_max_model_len api cfg projected usable
               else (Inr (), cfg) of
             (Inl e, cfg) \<Rightarrow> (Inl e, cfg)
           | (Inr _, cfg) \<Rightarrow>
               (case check_workers api (zip projected usable) cfg of
                  (Inl e, cfg) \<Rightarrow> (Inl e, cfg)
                | (Inr _, cfg) \<Rightarrow> (build_configs api cfg projected specs memory, cfg))))"

text \<open>
  The check of a worker's own specs, which prices the layers one by one; the grouping works on a copy
  of the specs.
\<close>

definition check_enough_kv_cache_memory ::
    "'s spec_api \<Rightarrow> vllm_config \<Rightarrow> (string, 's) dict \<Rightarrow> int \<Rightarrow> (vllm_config, unit) outcome" where
  "check_enough_kv_cache_memory api cfg specs available_memory =
     (if specs = [] then (Inr (), cfg)
      else case rbind (fst (get_kv_cache_groups api cfg specs)) (\<lambda>groups.
          if groups = [] then Inr available_memory
          else rbind (pool_bytes_per_block api groups) (\<lambda>b. Inr (available_memory - b))) of
        Inl e \<Rightarrow> (Inl e, cfg)
      | Inr check_memory \<Rightarrow>
          check_enough_memory check_memory
            (\<lambda>cfg. Inr (specs_max_memory_usage_bytes api cfg (map snd specs)))
            (\<lambda>cfg. estimate_max_model_len api cfg specs) cfg)"

section \<open>The scheduler\<close>

definition scheduler_group :: "'s kv_group \<Rightarrow> 's kv_group res" where
  "scheduler_group g =
     (case kv_cache_spec g of
        UniformSpecs b [] \<Rightarrow> Inl StopIteration
      | UniformSpecs b ((_, s) # _) \<Rightarrow> Inr (g\<lparr>kv_cache_spec := LayerSpec s\<rparr>)
      | LayerSpec s \<Rightarrow> Inr g)"

definition generate_scheduler_kv_cache_config :: "'s kv_cache_config list \<Rightarrow> 's kv_cache_config res" where
  "generate_scheduler_kv_cache_config configs =
     (case configs of
        [] \<Rightarrow> Inl IndexError
      | c # _ \<Rightarrow>
          rbind (rassert (list_all (\<lambda>c'. num_blocks c' = num_blocks c) configs)) (\<lambda>_.
          rbind (rmap scheduler_group (kv_cache_groups c)) (\<lambda>groups.
            Inr (c\<lparr>kv_cache_groups := groups\<rparr>))))"

section \<open>Agreement of the workers\<close>

lemma outcome_Inr:
  "(case m of (Inl e, c) \<Rightarrow> (Inl e, c) | (Inr x, c) \<Rightarrow> f x c) = (Inr y, c') \<longleftrightarrow>
     (\<exists>x c1. m = (Inr x, c1) \<and> f x c1 = (Inr y, c'))"
  by (cases m; cases "fst m") auto

lemma scan_uniform_members:
  assumes "scan_uniform api gs a0 t0 = (a, t)" and "list_all is_uniform_group gs"
  shows "(a = a0 \<or> (\<exists>g \<in> set gs. a = Some g)) \<and> (t = t0 \<or> (\<exists>g \<in> set gs. t = Some g))"
  using assms
  by (induction gs arbitrary: a0 t0) (force simp: is_uniform_group_def split: group_spec.split_asm if_split_asm)+

text \<open>What a recognised layout is.\<close>

lemma glm5_layoutE:
  assumes "glm5_next_tensor_layout api groups = Inr (Some l)"
  obtains b inner where "attn_group l \<in> set groups" and "kv_cache_spec (attn_group l) = UniformSpecs b inner"
    and "names_where api (\<lambda>k. k = 1) inner (layer_names (attn_group l)) = Inr (mla_names l)"
    and "names_where api (\<lambda>k. k > 1) inner (layer_names (attn_group l)) = Inr (idx_names l)"
    and "\<exists>ps. layer_pages api inner (mla_names l) = Inr ps \<and> single_page ps = Some (mla_page l)"
    and "\<exists>ps. layer_pages api inner (idx_names l) = Inr ps \<and> single_page ps = Some (idx_page l)"
    and "mamba_groups l = filter (\<lambda>g. group_isa api (kv_cache_spec g) MambaSpec) groups"
    and "\<forall>g \<in> set (mamba_groups l). group_page_size_bytes api (kv_cache_spec g) = mla_page l"
    and "tail_names l = [] \<or> length (tail_names l) = length (idx_names l) \<and>
      (\<exists>g \<in> set groups. is_uniform_group g \<and> tail_names l = layer_names g)"
proof -
  let ?uniform = "filter is_uniform_group groups"
  obtain a t where scan: "scan_uniform api ?uniform None None = (a, t)" by (metis surj_pair)
  have mem: "(a = None \<or> (\<exists>g \<in> set ?uniform. a = Some g)) \<and> (t = None \<or> (\<exists>g \<in> set ?uniform. t = Some g))"
    using scan_uniform_members[OF scan] by (simp add: list_all_iff)
  obtain attn_g where a: "a = Some attn_g"
  proof (cases a)
    case None
    with assms show ?thesis by (simp add: glm5_next_tensor_layout_def scan or_none_def)
  qed
  with mem have attn: "attn_g \<in> set groups" "is_uniform_group attn_g" by auto
  then obtain b inner where inner: "kv_cache_spec attn_g = UniformSpecs b inner"
    by (auto simp: is_uniform_group_def split: group_spec.split_asm)
  have tails: "tail_g \<in> set groups \<and> is_uniform_group tail_g" if "t = Some tail_g" for tail_g
    using mem that by auto
  note unfolded = assms[unfolded glm5_next_tensor_layout_def Let_def scan prod.case a or_none_Some_iff]
  then obtain mla_ns idx_ns mla_ps idx_ps mla_p idx_p tail_ns tail_p where
    "names_where api (\<lambda>k. k = 1) inner (layer_names attn_g) = Inr mla_ns"
    "names_where api (\<lambda>k. k > 1) inner (layer_names attn_g) = Inr idx_ns"
    "layer_pages api inner mla_ns = Inr mla_ps" "layer_pages api inner idx_ns = Inr idx_ps"
    "single_page mla_ps = Some mla_p" "single_page idx_ps = Some idx_p"
    and mamba: "\<forall>g \<in> set groups. group_isa api (kv_cache_spec g) MambaSpec \<longrightarrow>
      group_page_size_bytes api (kv_cache_spec g) = mla_p"
    and l: "l = \<lparr>attn_group = attn_g,
      mamba_groups = filter (\<lambda>g. group_isa api (kv_cache_spec g) MambaSpec) groups,
      mla_names = mla_ns, idx_names = idx_ns, mla_page = mla_p, idx_page = idx_p,
      tail_names = tail_ns, tail_page = tail_p\<rparr>"
    and "tail_ns = [] \<or> length tail_ns = length idx_ns \<and>
      (\<exists>g \<in> set groups. is_uniform_group g \<and> tail_ns = layer_names g)"
    using tails
    by (auto simp: inner rbind_Inr_iff or_none_Some_iff list_ex_iff
        split: if_split_asm option.split_asm) blast
  then show thesis using attn inner that[of b inner] by (simp add: l)
qed

lemma glm5_names_nonempty:
  assumes "glm5_next_tensor_layout api groups = Inr (Some l)"
  shows "mla_names l \<noteq> []"
proof (rule glm5_layoutE[OF assms])
  fix inner assume "\<exists>ps. layer_pages api inner (mla_names l) = Inr ps \<and> single_page ps = Some (mla_page l)"
  then show ?thesis by (auto simp: layer_pages_def dest: single_page_set)
qed

lemma bytes_per_block_pos:
  assumes "spec_memory_law api" and "get_kv_cache_bytes_per_block api groups = Inr b"
  shows "0 < b"
proof -
  obtain l where l: "glm5_next_tensor_layout api groups = Inr l"
    using assms(2) by (auto simp: get_kv_cache_bytes_per_block_def rbind_Inr_iff)
  show ?thesis
  proof (cases l)
    case None
    with l assms(2) show ?thesis
      by (auto simp: get_kv_cache_bytes_per_block_def rbind_Inr_iff rassert_Inr_iff)
  next
    case (Some x)
    note pos = glm5_pages_pos[OF assms(1) l[unfolded Some]]
    have "0 < int (length (mla_names x)) * mla_page x"
      using pos glm5_names_nonempty[OF l[unfolded Some]] by simp
    moreover have "0 \<le> int (length (idx_names x)) * idx_page x" using pos by simp
    ultimately show ?thesis
      using assms(2) l Some by (auto simp: get_kv_cache_bytes_per_block_def)
  qed
qed

lemma concat_rmap_all:
  assumes "rmap f xs = Inr yss" and "\<And>x ys. x \<in> set xs \<Longrightarrow> f x = Inr ys \<Longrightarrow> \<forall>y \<in> set ys. P y"
  shows "\<forall>y \<in> set (concat yss). P y"
  using assms by (induction xs arbitrary: yss) (fastforce simp: rbind_Inr_iff)+

lemma group_tensors_size:
  assumes "group_tensors api layout il total_size blocks d off = Inr ts"
  shows "\<forall>t \<in> set ts. tensor_size t = total_size"
  using assms by (induction d arbitrary: off ts) (auto simp: rbind_Inr_iff Let_def split: prod.split_asm)

lemma config_shape:
  assumes "get_kv_cache_config_from_groups api cfg groups avail = Inr c" and "groups \<noteq> []"
  obtains b where "pool_bytes_per_block api groups = Inr b" and "b \<noteq> 0"
    and "num_blocks c = may_override_num_blocks cfg (avail div b)" and "kv_cache_groups c = groups"
    and "\<forall>t \<in> set (kv_cache_tensors c). tensor_size t = b * num_blocks c"
proof -
  obtain l where l: "glm5_next_tensor_layout api groups = Inr l"
    using assms by (auto simp: get_kv_cache_config_from_groups_def rbind_Inr_iff)
  show thesis
  proof (cases l)
    case None
    then have "packed_config api cfg groups avail = Inr c"
      using assms l by (simp add: get_kv_cache_config_from_groups_def)
    then obtain b tss where b: "get_kv_cache_bytes_per_block api groups = Inr b" "b \<noteq> 0"
      and nb: "num_blocks c = may_override_num_blocks cfg (avail div b)" "kv_cache_groups c = groups"
        "kv_cache_tensors c = concat tss"
      and tss: "rmap (\<lambda>g. group_tensors api (resolved_kv_cache_layout cfg)
          (if is_block_outermost (resolved_kv_cache_layout cfg) then Some b else None)
          (b * num_blocks c) (num_blocks c) (layers_by_spec g) 0) groups = Inr tss"
      by (auto simp: packed_config_def Let_def rbind_Inr_iff py_div_def split: if_split_asm)
    have "\<forall>t \<in> set (kv_cache_tensors c). tensor_size t = b * num_blocks c"
      unfolding nb(3) by (rule concat_rmap_all[OF tss group_tensors_size])
    then show thesis using that b nb by (simp add: pool_bytes_per_block_def)
  next
    case (Some x)
    then have "glm5_config api cfg groups avail x = Inr c"
      using assms l by (simp add: get_kv_cache_config_from_groups_def)
    moreover have b: "get_kv_cache_bytes_per_block api groups =
        Inr (int (length (mla_names x)) * mla_page x + int (length (idx_names x)) * idx_page x)"
      using l Some by (simp add: get_kv_cache_bytes_per_block_def)
    ultimately obtain attn mts its where nb:
        "int (length (mla_names x)) * mla_page x + int (length (idx_names x)) * idx_page x \<noteq> 0"
        "num_blocks c = may_override_num_blocks cfg (avail div
          (int (length (mla_names x)) * mla_page x + int (length (idx_names x)) * idx_page x))"
        "kv_cache_groups c = groups" "kv_cache_tensors c = concat mts @ concat its"
      and mts: "rmap (mla_slot api x attn ((int (length (mla_names x)) * mla_page x +
          int (length (idx_names x)) * idx_page x) * num_blocks c) (num_blocks c)) (enumerate 0 (mla_names x)) = Inr mts"
      and its: "rmap (idx_slot api groups x attn ((int (length (mla_names x)) * mla_page x +
          int (length (idx_names x)) * idx_page x) * num_blocks c) (num_blocks c)) (enumerate 0 (idx_names x)) = Inr its"
      by (auto simp: glm5_config_def Let_def rbind_Inr_iff py_div_def split: if_split_asm)
    let ?size = "(int (length (mla_names x)) * mla_page x + int (length (idx_names x)) * idx_page x) * num_blocks c"
    have "\<forall>t \<in> set (concat mts). tensor_size t = ?size"
      by (rule concat_rmap_all[OF mts])
        (auto simp: mla_slot_def Let_def rbind_Inr_iff add_tensor_def split: prod.split_asm)
    moreover have "\<forall>t \<in> set (concat its). tensor_size t = ?size"
      by (rule concat_rmap_all[OF its])
        (auto simp: idx_slot_def tail_tensor_def Let_def rbind_Inr_iff add_tensor_def
          split: prod.split_asm if_split_asm)
    ultimately have "\<forall>t \<in> set (kv_cache_tensors c). tensor_size t = ?size"
      using nb(4) by auto
    then show thesis using that b nb by (simp add: pool_bytes_per_block_def)
  qed
qed

lemma estimate_keeps_config:
  "estimate_max_model_len_from_groups api cfg groups avail = (r, cfg') \<Longrightarrow> cfg' = cfg"
  using search_restores[of "max_memory_usage_bytes_from_groups api groups" avail cfg]
  by (simp add: estimate_max_model_len_from_groups_def)

lemma auto_fit_loop_keeps_config: "auto_fit_loop api ws m cfg = (r, cfg') \<Longrightarrow> cfg' = cfg"
  by (induction api ws m cfg rule: auto_fit_loop.induct)
    (auto split: if_split_asm prod.split_asm sum.split_asm dest: estimate_keeps_config)

lemma auto_fit_config:
  assumes "auto_fit_max_model_len api cfg projected usable = (r, cfg')"
  shows "\<exists>m. cfg' = cfg\<lparr>max_model_len := m\<rparr>"
proof -
  have "cfg' = cfg \<or> (\<exists>m. cfg' = cfg\<lparr>max_model_len := m\<rparr>)"
    using assms by (auto simp: auto_fit_max_model_len_def Let_def
        split: if_split_asm prod.split_asm sum.split_asm dest!: auto_fit_loop_keeps_config)
  then show ?thesis by (metis vllm_config.surjective vllm_config.update_convs(1))
qed

lemma check_enough_memory_ok:
  assumes "check_enough_memory avail needed est cfg = (Inr u, cfg')"
  shows "cfg' = cfg \<and> (\<exists>m. needed cfg = Inr m \<and> m \<le> avail)"
  using assms by (auto simp: check_enough_memory_def split: if_split_asm sum.split_asm prod.split_asm)

lemma check_workers_ok:
  assumes "check_workers api ws cfg = (Inr u, cfg')"
  shows "cfg' = cfg \<and> (\<forall>(groups, avail) \<in> set ws. groups \<noteq> [] \<longrightarrow>
    (\<exists>m. max_memory_usage_bytes_from_groups api groups cfg = Inr m \<and> m \<le> avail))"
  using assms
proof (induction ws)
  case (Cons w ws)
  obtain groups avail where w: "w = (groups, avail)" by (cases w)
  show ?case
  proof (cases "groups = []")
    case True with Cons w show ?thesis by simp
  next
    case False
    with Cons.prems w obtain v c1 where c1: "check_enough_memory avail (max_memory_usage_bytes_from_groups api groups)
          (\<lambda>cfg. estimate_max_model_len_from_groups api cfg groups) cfg = (Inr v, c1)"
      and rest: "check_workers api ws c1 = (Inr u, cfg')"
      by (auto simp: outcome_Inr)
    from check_enough_memory_ok[OF c1] Cons.IH rest w show ?thesis by auto
  qed
qed simp

text \<open>The plans depend on the length only through the checks.\<close>

lemma config_from_groups_length:
  "get_kv_cache_config_from_groups api (cfg\<lparr>max_model_len := m\<rparr>) groups avail =
     get_kv_cache_config_from_groups api cfg groups avail"
proof -
  have "glm5_config api (cfg\<lparr>max_model_len := m\<rparr>) = glm5_config api cfg"
    and "packed_config api (cfg\<lparr>max_model_len := m\<rparr>) = packed_config api cfg"
    by (intro ext, simp add: glm5_config_def packed_config_def may_override_num_blocks_def)+
  then show ?thesis by (simp add: get_kv_cache_config_from_groups_def)
qed

text \<open>The configuration of one worker after the levelling, within the memory of its plan.\<close>

lemma level_config_shape:
  assumes law: "spec_memory_law api"
    and c0: "get_kv_cache_config_from_groups api cfg groups avail = Inr c0"
    and least: "n \<le> num_blocks c0" and ne: "groups \<noteq> []"
    and mem: "case num_gpu_blocks_override cfg of None \<Rightarrow> True
      | Some k \<Rightarrow> n = k \<and> (\<exists>b. pool_bytes_per_block api groups = Inr b \<and> avail = k * b)"
    and c: "level_config api cfg n c0 = Inr c"
  shows "num_blocks c = n \<and> kv_cache_groups c = groups \<and> (\<forall>t \<in> set (kv_cache_tensors c). tensor_size t \<le> avail)"
proof -
  obtain b where b: "pool_bytes_per_block api groups = Inr b"
    and nb: "num_blocks c0 = may_override_num_blocks cfg (avail div b)" "kv_cache_groups c0 = groups"
      "\<forall>t \<in> set (kv_cache_tensors c0). tensor_size t = b * num_blocks c0"
    using config_shape[OF c0 ne] by metis
  have pos: "0 < b" using bytes_per_block_pos[OF law b[unfolded pool_bytes_per_block_def]] .
  have fits: "b * num_blocks c0 \<le> avail"
  proof (cases "num_gpu_blocks_override cfg")
    case None
    then show ?thesis using nb(1) le_div_iff_int[OF pos, of "avail div b" avail]
      by (simp add: may_override_num_blocks_def mult.commute)
  next
    case (Some k)
    then show ?thesis using nb(1) mem b by (simp add: may_override_num_blocks_def mult.commute)
  qed
  show ?thesis
  proof (cases "num_blocks c0 = n")
    case True
    then have "c = c0" using c by (simp add: level_config_def)
    with True nb fits show ?thesis by simp
  next
    case False
    then have "get_kv_cache_config_from_groups api cfg groups (n * b) = Inr c"
      using c nb(2) b by (simp add: level_config_def)
    then obtain b' where b': "pool_bytes_per_block api groups = Inr b'"
      and nb': "num_blocks c = may_override_num_blocks cfg (n * b div b')" "kv_cache_groups c = groups"
        "\<forall>t \<in> set (kv_cache_tensors c). tensor_size t = b' * num_blocks c"
      using config_shape ne by metis
    have "b' = b" using b b' by simp
    then have "num_blocks c = n"
      using nb'(1) pos mem False by (auto simp: may_override_num_blocks_def split: option.split_asm)
    moreover have "b * n \<le> avail" using fits least pos by (smt (verit) mult_left_mono)
    ultimately show ?thesis using nb' \<open>b' = b\<close> by simp
  qed
qed

text \<open>The memory a worker's plan counts on, given the bytes of its blocks.\<close>

definition planned_memory :: "vllm_config \<Rightarrow> int \<Rightarrow> int \<Rightarrow> int" where
  "planned_memory cfg avail b = (case num_gpu_blocks_override cfg of None \<Rightarrow> avail | Some k \<Rightarrow> k * b)"

text \<open>
  The groups of the whole model: those \<open>get_kv_cache_groups\<close> makes of the specs of all workers, put
  together and with the windows that keep their tokens.
\<close>

definition model_groups ::
    "'s spec_api \<Rightarrow> vllm_config \<Rightarrow> (string, 's) dict list \<Rightarrow> 's kv_group list \<Rightarrow> bool" where
  "model_groups api cfg specs groups \<longleftrightarrow>
     rbind (merge_workers specs) (\<lambda>merged. fst (get_kv_cache_groups api cfg (retain_window_tokens api cfg merged))) =
       Inr groups"

lemma plan_workers_nth:
  assumes "plan_workers api reg cfg specs mem = Inr (projected, memory, usable)" and "length mem = length specs"
  shows "length projected = length specs" and "length memory = length specs" and "length usable = length specs"
    and "\<exists>groups. model_groups api cfg specs groups \<and>
      rmap (project_kv_cache_groups_to_worker groups) specs = Inr projected"
    and "\<And>i. i < length specs \<Longrightarrow> projected ! i \<noteq> [] \<Longrightarrow>
      \<exists>b. pool_bytes_per_block api (projected ! i) = Inr b \<and> memory ! i = planned_memory cfg (mem ! i) b \<and>
        usable ! i = memory ! i - b"
proof -
  obtain groups where gs: "model_groups api cfg specs groups"
    and pr: "rmap (project_kv_cache_groups_to_worker groups) specs = Inr projected"
    and em: "effective_memory api cfg (zip projected mem) mem = Inr memory"
    and us: "usable_memory api (zip projected memory) = Inr usable"
    using assms(1) by (auto simp: plan_workers_def rbind_Inr_iff model_groups_def)
  show p: "length projected = length specs" using rmap_length[OF pr] .
  show m: "length memory = length specs"
    using em assms(2) p by (auto simp: effective_memory_def split: option.split_asm dest!: rmap_length)
  show u: "length usable = length specs" using rmap_length[OF us[unfolded usable_memory_def]] p m by simp
  show "\<exists>groups. model_groups api cfg specs groups \<and>
      rmap (project_kv_cache_groups_to_worker groups) specs = Inr projected" using gs pr by blast
  fix i assume i: "i < length specs" and ne: "projected ! i \<noteq> []"
  from rmap_nth[OF us[unfolded usable_memory_def], of i] i p m ne
  obtain b where b: "pool_bytes_per_block api (projected ! i) = Inr b" "memory ! i - b = usable ! i"
    by (auto simp: rbind_Inr_iff)
  have "memory ! i = planned_memory cfg (mem ! i) b"
  proof (cases "num_gpu_blocks_override cfg")
    case None with em show ?thesis by (simp add: effective_memory_def planned_memory_def)
  next
    case (Some k)
    from rmap_nth[OF em[unfolded effective_memory_def Some option.case], of i] i p assms(2) ne b(1)
    show ?thesis by (auto simp: rbind_Inr_iff planned_memory_def Some)
  qed
  with b b(2)[symmetric] show "\<exists>b. pool_bytes_per_block api (projected ! i) = Inr b \<and> memory ! i = planned_memory cfg (mem ! i) b \<and>
        usable ! i = memory ! i - b" by blast
qed

lemma build_configs_nth:
  assumes "build_configs api cfg projected specs memory = Inr cs"
    and "length projected = length specs" and "length memory = length specs"
  obtains n c0s where "length cs = length specs" and "length c0s = length specs"
    and "\<And>i. i < length specs \<Longrightarrow> get_kv_cache_config_from_groups api cfg (projected ! i) (memory ! i) = Inr (c0s ! i)"
    and "\<And>i. i < length specs \<Longrightarrow> level_config api cfg n (c0s ! i) = Inr (cs ! i) \<and> n \<le> num_blocks (c0s ! i)"
    and "\<And>i. i < length specs \<Longrightarrow> sum_list (map (\<lambda>g. length (layer_names g)) (projected ! i)) = length (specs ! i)"
    and "\<exists>i < length specs. num_blocks (c0s ! i) = n"
proof -
  obtain c0s n where c0s: "rmap (worker_config api cfg) (zip projected (zip specs memory)) = Inr c0s"
    and n: "py_min (map num_blocks c0s) = Inr n" and cs: "rmap (level_config api cfg n) c0s = Inr cs"
    using assms(1) by (auto simp: build_configs_def rbind_Inr_iff)
  have len: "length c0s = length specs" using rmap_length[OF c0s] assms(2,3) by simp
  have w: "worker_config api cfg (projected ! i, specs ! i, memory ! i) = Inr (c0s ! i)" if "i < length specs" for i
    using rmap_nth[OF c0s, of i] that assms(2,3) by simp
  show thesis
  proof (rule that[of c0s n])
    show "length cs = length specs" using rmap_length[OF cs] len by simp
    show "length c0s = length specs" by (rule len)
    fix i assume i: "i < length specs"
    show "get_kv_cache_config_from_groups api cfg (projected ! i) (memory ! i) = Inr (c0s ! i)"
      and "sum_list (map (\<lambda>g. length (layer_names g)) (projected ! i)) = length (specs ! i)"
      using w[OF i] by (auto simp: worker_config_def rbind_Inr_iff rassert_Inr_iff)
    show "level_config api cfg n (c0s ! i) = Inr (cs ! i) \<and> n \<le> num_blocks (c0s ! i)"
      using rmap_nth[OF cs, of i] py_min_Inr[OF n] i len by simp
  next
    show "\<exists>i < length specs. num_blocks (c0s ! i) = n"
      using py_min_Inr[OF n] len by (auto simp: in_set_conv_nth)
  qed
qed

lemma configs_agree:
  assumes law: "spec_memory_law api" and len: "length mem = length specs"
    and run: "get_kv_cache_configs api reg cfg specs mem = (Inr cs, cfg')"
  shows "length cs = length specs \<and>
    (\<exists>groups n. model_groups api cfg specs groups \<and> (\<forall>i < length specs.
      project_kv_cache_groups_to_worker groups (specs ! i) = Inr (kv_cache_groups (cs ! i)) \<and>
      num_blocks (cs ! i) = n \<and>
      (kv_cache_groups (cs ! i) \<noteq> [] \<longrightarrow>
        (\<exists>b m. pool_bytes_per_block api (kv_cache_groups (cs ! i)) = Inr b \<and>
          max_memory_usage_bytes_from_groups api (kv_cache_groups (cs ! i)) cfg' = Inr m \<and>
          m + b \<le> planned_memory cfg (mem ! i) b \<and>
          (\<forall>t \<in> set (kv_cache_tensors (cs ! i)). tensor_size t \<le> planned_memory cfg (mem ! i) b)))))"
proof -
  obtain projected memory usable where plan: "plan_workers api reg cfg specs mem = Inr (projected, memory, usable)"
    using run by (cases "plan_workers api reg cfg specs mem") (auto simp: get_kv_cache_configs_def)
  note rest = run[unfolded get_kv_cache_configs_def plan sum.case prod.case outcome_Inr]
  then obtain u c1 c2 where fit: "(if original_max_model_len cfg = -1 then auto_fit_max_model_len api cfg projected usable
      else (Inr (), cfg)) = (Inr u, c1)"
    and check: "check_workers api (zip projected usable) c1 = (Inr (), c2)"
    and build: "build_configs api c2 projected specs memory = Inr cs" "cfg' = c2" by auto
  note p = plan_workers_nth[OF plan len]
  have "\<exists>m. c1 = cfg\<lparr>max_model_len := m\<rparr>"
    using fit auto_fit_config by (cases "original_max_model_len cfg = -1") (auto intro: exI[of _ "max_model_len cfg"])
  moreover note ok = check_workers_ok[OF check]
  ultimately obtain ml where cfg': "cfg' = cfg\<lparr>max_model_len := ml\<rparr>" using build(2) by auto
  obtain n c0s where lens: "length cs = length specs" "length c0s = length specs"
    and c0: "\<And>i. i < length specs \<Longrightarrow> get_kv_cache_config_from_groups api c2 (projected ! i) (memory ! i) = Inr (c0s ! i)"
    and lv: "\<And>i. i < length specs \<Longrightarrow> level_config api c2 n (c0s ! i) = Inr (cs ! i) \<and> n \<le> num_blocks (c0s ! i)"
    and at: "\<exists>i < length specs. num_blocks (c0s ! i) = n"
    using build_configs_nth[OF build(1) p(1,2)] by metis
  obtain groups where gs: "model_groups api cfg specs groups"
    and pr: "rmap (project_kv_cache_groups_to_worker groups) specs = Inr projected" using p(4) by blast
  have pj: "project_kv_cache_groups_to_worker groups (specs ! i) = Inr (projected ! i)" if "i < length specs" for i
    using rmap_nth[OF pr that] .
  have empty_iff: "projected ! i = [] \<longleftrightarrow> groups = []" if "i < length specs" for i
    using rmap_length[OF pj[OF that, unfolded project_kv_cache_groups_to_worker_def]] by auto
  have worker: "kv_cache_groups (cs ! i) = projected ! i \<and> num_blocks (cs ! i) = n \<and>
      (projected ! i \<noteq> [] \<longrightarrow>
        (\<exists>b m. pool_bytes_per_block api (projected ! i) = Inr b \<and>
          max_memory_usage_bytes_from_groups api (projected ! i) cfg' = Inr m \<and>
          m + b \<le> planned_memory cfg (mem ! i) b \<and>
          (\<forall>t \<in> set (kv_cache_tensors (cs ! i)). tensor_size t \<le> planned_memory cfg (mem ! i) b)))"
    if i: "i < length specs" for i
  proof (cases "groups = []")
    case True
    then have one: "projected ! j = [] \<and> num_blocks (c0s ! j) = 1 \<and> kv_cache_groups (c0s ! j) = []"
      if "j < length specs" for j
      using c0[OF that, symmetric] empty_iff[OF that] by (auto simp: get_kv_cache_config_from_groups_def)
    then have "n = 1" using at by auto
    then have "cs ! i = c0s ! i" using lv[OF i] one[OF i] by (simp add: level_config_def)
    then show ?thesis using one[OF i] \<open>n = 1\<close> by simp
  next
    case False
    then have ne: "projected ! i \<noteq> []" using empty_iff[OF i] by simp
    obtain b where b: "pool_bytes_per_block api (projected ! i) = Inr b"
      "memory ! i = planned_memory cfg (mem ! i) b" "usable ! i = memory ! i - b" using p(5)[OF i ne] by blast
    have "(projected ! i, usable ! i) \<in> set (zip projected usable)"
      using i p(1,3) by (auto simp: set_zip)
    then obtain m where m: "max_memory_usage_bytes_from_groups api (projected ! i) cfg' = Inr m" "m \<le> usable ! i"
      using ok ne build(2) by blast
    have override: "case num_gpu_blocks_override c2 of None \<Rightarrow> True
      | Some k \<Rightarrow> n = k \<and> (\<exists>b. pool_bytes_per_block api (projected ! i) = Inr b \<and> memory ! i = k * b)"
    proof (cases "num_gpu_blocks_override c2")
      case (Some k)
      from at obtain j where j: "j < length specs" "num_blocks (c0s ! j) = n" by blast
      have "projected ! j \<noteq> []" using False empty_iff[OF j(1)] by simp
      from config_shape[OF c0[OF j(1)] this] have "n = k"
        using j(2) Some by (metis may_override_num_blocks_def option.simps(5))
      moreover have "memory ! i = k * b" using b(2) Some cfg' build(2) by (simp add: planned_memory_def)
      ultimately show ?thesis using Some b(1) by simp
    qed simp
    from level_config_shape[OF law c0[OF i] _ ne override] lv[OF i]
    have "num_blocks (cs ! i) = n \<and> kv_cache_groups (cs ! i) = projected ! i \<and>
        (\<forall>t \<in> set (kv_cache_tensors (cs ! i)). tensor_size t \<le> memory ! i)" by blast
    then show ?thesis using b m by auto
  qed
  show ?thesis
  proof (intro conjI exI[of _ groups] exI[of _ n])
    show "length cs = length specs" and "model_groups api cfg specs groups" by (fact lens(1), fact gs)
    show "\<forall>i < length specs.
      project_kv_cache_groups_to_worker groups (specs ! i) = Inr (kv_cache_groups (cs ! i)) \<and>
      num_blocks (cs ! i) = n \<and>
      (kv_cache_groups (cs ! i) \<noteq> [] \<longrightarrow>
        (\<exists>b m. pool_bytes_per_block api (kv_cache_groups (cs ! i)) = Inr b \<and>
          max_memory_usage_bytes_from_groups api (kv_cache_groups (cs ! i)) cfg' = Inr m \<and>
          m + b \<le> planned_memory cfg (mem ! i) b \<and>
          (\<forall>t \<in> set (kv_cache_tensors (cs ! i)). tensor_size t \<le> planned_memory cfg (mem ! i) b)))"
      using worker pj by simp
  qed
qed

section \<open>Disjoint pages\<close>

text \<open>
  Where a layer's pages lie: from the layer's position inside a group's block, its page size and the
  block's number to the first byte in the pool. The interface promises that pages lie inside the pool
  and that positions apart, or blocks apart, give pages apart.
\<close>

definition apart :: "int \<times> int \<Rightarrow> int \<times> int \<Rightarrow> bool" where
  "apart p q \<longleftrightarrow> fst p + snd p \<le> fst q \<or> fst q + snd q \<le> fst p"

definition pages_apart :: "int \<Rightarrow> (int \<times> int) list \<Rightarrow> bool" where
  "pages_apart total_size pages \<longleftrightarrow>
     list_all (\<lambda>(a, n). 0 \<le> a \<and> a + n \<le> total_size) pages \<and> sorted_wrt apart pages"

text \<open>Layers of positions that follow each other, up to a limit.\<close>

fun stacked :: "int \<Rightarrow> int \<Rightarrow> (int \<times> int) list \<Rightarrow> bool" where
  "stacked lo room [] \<longleftrightarrow> lo \<le> room"
| "stacked lo room ((pos, page) # layers) \<longleftrightarrow> lo \<le> pos \<and> 0 < page \<and> stacked (pos + page) room layers"

lemma stacked_member:
  "stacked lo room layers \<Longrightarrow> (pos, page) \<in> set layers \<Longrightarrow> lo \<le> pos \<and> 0 < page \<and> pos + page \<le> room"
proof (induction layers arbitrary: lo)
  case (Cons l layers)
  have "lo' \<le> room" if "stacked lo' room layers" for lo'
    using that by (induction layers arbitrary: lo') fastforce+
  with Cons show ?case by (cases l) fastforce
qed simp

lemma stacked_append:
  "stacked lo room (xs @ ys) \<longleftrightarrow> (\<exists>mid. stacked lo mid xs \<and> stacked mid room ys)"
proof (induction xs arbitrary: lo)
  case Nil
  have "\<exists>mid. lo \<le> mid \<and> stacked mid room ys" if "stacked lo room ys" using that by blast
  moreover have "stacked lo room ys" if "lo \<le> mid" "stacked mid room ys" for mid
    using that by (cases ys) fastforce+
  ultimately show ?case by auto
next
  case (Cons l xs)
  then show ?case by (cases l) auto
qed

locale paged_pool =
  fixes place :: "int \<Rightarrow> int \<Rightarrow> int \<Rightarrow> int" and room :: int and blocks :: int
  assumes inside: "0 \<le> pos \<Longrightarrow> 0 < page \<Longrightarrow> pos + page \<le> room \<Longrightarrow> 0 \<le> i \<Longrightarrow> i < blocks \<Longrightarrow>
      0 \<le> place pos page i \<and> place pos page i + page \<le> room * blocks"
    and apart_layers: "0 \<le> pos \<Longrightarrow> 0 < page \<Longrightarrow> pos + page \<le> pos' \<Longrightarrow> 0 < page' \<Longrightarrow> pos' + page' \<le> room \<Longrightarrow>
      0 \<le> i \<Longrightarrow> i < blocks \<Longrightarrow> 0 \<le> i' \<Longrightarrow> i' < blocks \<Longrightarrow> apart (place pos page i, page) (place pos' page' i', page')"
    and apart_blocks: "0 \<le> pos \<Longrightarrow> 0 < page \<Longrightarrow> pos + page \<le> room \<Longrightarrow>
      0 \<le> i \<Longrightarrow> i < i' \<Longrightarrow> i' < blocks \<Longrightarrow> apart (place pos page i, page) (place pos page i', page)"
begin

definition layer_pages_of :: "int \<times> int \<Rightarrow> (int \<times> int) list" where
  "layer_pages_of l = map (\<lambda>i. (place (fst l) (snd l) (int i), snd l)) [0..<nat blocks]"

lemma stacked_apart:
  "0 \<le> lo \<Longrightarrow> stacked lo room layers \<Longrightarrow> pages_apart (room * blocks) (concat (map layer_pages_of layers))"
proof (induction layers arbitrary: lo)
  case (Cons l layers)
  obtain pos page where l: "l = (pos, page)" by (cases l)
  have fits: "0 \<le> pos" "0 < page" "pos + page \<le> room"
    using stacked_member[OF Cons.prems(2), of pos page] Cons.prems(1) by (auto simp: l)
  have rest: "stacked (pos + page) room layers" using Cons.prems by (simp add: l)
  have IH: "pages_apart (room * blocks) (concat (map layer_pages_of layers))"
    using Cons.IH[OF _ rest] fits by simp
  have "sorted_wrt apart (layer_pages_of l)"
    unfolding layer_pages_of_def sorted_wrt_map l
    by (rule sorted_wrt_mono_rel[OF _ strict_sorted_iff[THEN iffD2]]) (auto intro!: apart_blocks fits)
  moreover have "list_all (\<lambda>(a, n). 0 \<le> a \<and> a + n \<le> room * blocks) (layer_pages_of l)"
    using inside[OF fits] by (auto simp: list_all_iff layer_pages_of_def l zless_nat_eq_int_zless)
  moreover have "apart p q" if "p \<in> set (layer_pages_of l)" "q \<in> set (concat (map layer_pages_of layers))" for p q
  proof -
    from that(2) obtain pos' page' i' where "(pos', page') \<in> set layers" "i' < nat blocks"
      and q: "q = (place pos' page' (int i'), page')" by (auto simp: layer_pages_of_def)
    moreover from that(1) obtain i where "i < nat blocks" "p = (place pos page (int i), page)"
      by (auto simp: layer_pages_of_def l)
    ultimately show ?thesis
      using stacked_member[OF rest] fits by (auto intro!: apart_layers)
  qed
  ultimately show ?case using IH by (auto simp: pages_apart_def sorted_wrt_append)
qed (simp add: pages_apart_def)

end

text \<open>Block-outermost pools interleave the blocks; in the others each layer's blocks are adjacent.\<close>

definition interleaved_place :: "int \<Rightarrow> int \<Rightarrow> int \<Rightarrow> int \<Rightarrow> int" where
  "interleaved_place room pos page i = pos + i * room"

definition layered_place :: "int \<Rightarrow> int \<Rightarrow> int \<Rightarrow> int \<Rightarrow> int" where
  "layered_place blocks pos page i = pos * blocks + i * page"

interpretation interleaved: paged_pool "interleaved_place room" room blocks for room blocks
proof
  fix pos page i :: int
  assume a: "0 \<le> pos" "0 < page" "pos + page \<le> room" "0 \<le> i" "i < blocks"
  then have "(i + 1) * room \<le> blocks * room" by (intro mult_right_mono) auto
  with a show "0 \<le> interleaved_place room pos page i \<and> interleaved_place room pos page i + page \<le> room * blocks" by (simp add: interleaved_place_def algebra_simps)
next
  fix pos page pos' page' i i' :: int
  assume a: "0 \<le> pos" "0 < page" "pos + page \<le> pos'" "0 < page'" "pos' + page' \<le> room"
  consider "i' = i" | "i < i'" | "i' < i" by linarith
  then show "apart (interleaved_place room pos page i, page) (interleaved_place room pos' page' i', page')"
  proof cases
    case 2
    then have "(i + 1) * room \<le> i' * room" using a by (intro mult_right_mono) auto
    with a show ?thesis by (simp add: apart_def interleaved_place_def algebra_simps)
  next
    case 3
    then have "(i' + 1) * room \<le> i * room" using a by (intro mult_right_mono) auto
    with a show ?thesis by (simp add: apart_def interleaved_place_def algebra_simps)
  qed (use a in \<open>simp add: apart_def interleaved_place_def\<close>)
next
  fix pos page i i' :: int
  assume a: "0 \<le> pos" "0 < page" "pos + page \<le> room" "i < i'"
  then have "(i + 1) * room \<le> i' * room" by (intro mult_right_mono) auto
  with a show "apart (interleaved_place room pos page i, page) (interleaved_place room pos page i', page)" by (simp add: apart_def interleaved_place_def algebra_simps)
qed

interpretation layered: paged_pool "layered_place blocks" room blocks for room blocks
proof
  fix pos page i :: int
  assume a: "0 \<le> pos" "0 < page" "pos + page \<le> room" "0 \<le> i" "i < blocks"
  then have "(i + 1) * page \<le> blocks * page" "(pos + page) * blocks \<le> room * blocks"
    by (intro mult_right_mono; simp)+
  with a show "0 \<le> layered_place blocks pos page i \<and> layered_place blocks pos page i + page \<le> room * blocks"
    by (simp add: layered_place_def algebra_simps)
next
  fix pos page pos' page' i i' :: int
  assume a: "0 \<le> pos" "0 < page" "pos + page \<le> pos'" "0 < page'" "0 \<le> i" "i < blocks" "0 \<le> i'"
  then have "(i + 1) * page \<le> blocks * page" "(pos + page) * blocks \<le> pos' * blocks" "0 \<le> i' * page'"
    by (auto intro!: mult_right_mono)
  then show "apart (layered_place blocks pos page i, page) (layered_place blocks pos' page' i', page')"
    by (simp add: apart_def layered_place_def algebra_simps)
next
  fix pos page i i' :: int
  assume a: "0 < page" "i < i'"
  then have "(i + 1) * page \<le> i' * page" by (intro mult_right_mono) auto
  then show "apart (layered_place blocks pos page i, page) (layered_place blocks pos page i', page)"
    by (simp add: apart_def layered_place_def algebra_simps)
qed

text \<open>
  The bytes of a tensor whose layers have one page size, and of a group's tensors: the pages of its
  layers, where a page is in one piece. A layout whose layer stride is below the page size splits the
  pages of a block's layers and mixes their pieces; there the bytes are, for every block, the room
  of all the tensor's layers together.
\<close>

definition tensor_pages :: "int \<Rightarrow> int \<Rightarrow> kv_cache_tensor \<Rightarrow> (int \<times> int) list" where
  "tensor_pages page blocks t =
     (if layer_stride t < page then
        (if tensor_layers t = [] then []
         else map (\<lambda>i. (tensor_offset t + int i * block_stride t, int (length (tensor_layers t)) * page))
           [0..<nat blocks])
      else concat (map (\<lambda>j. map (\<lambda>i. (tensor_offset t + int j * layer_stride t + int i * block_stride t, page))
       [0..<nat blocks]) [0..<length (tensor_layers t)]))"

definition group_pages :: "'s spec_api \<Rightarrow> int \<Rightarrow> 's kv_group \<Rightarrow> kv_cache_tensor list \<Rightarrow> (int \<times> int) list" where
  "group_pages api blocks g ts =
     concat (map (\<lambda>((s, names), t). tensor_pages (page_size_bytes api s) blocks t) (zip (layers_by_spec g) ts))"

text \<open>
  What the plan relies on of \<open>compute_layout_strides\<close>. Given the stride of a block, it keeps it, and
  the layers of a block are at most one page apart, exactly one page when the layout is
  block-compact (each page one contiguous chunk of its block, as the comment of
  \<open>validate_kv_cache_layout\<close> has it). Without a stride, each layer has its blocks in a row, one
  page apart. Layouts without the block dimension outermost that split the pages of a layer do not
  keep this last law and are left out.
\<close>

definition strides_law :: "'s spec_api \<Rightarrow> kv_layout \<Rightarrow> bool" where
  "strides_law api layout \<longleftrightarrow>
     (\<forall>s blocks n stride. case compute_layout_strides api s blocks n layout (Some stride) of (l, b) \<Rightarrow>
        l \<le> page_size_bytes api s \<and> b = stride \<and>
        (is_block_compact layout \<longrightarrow> l = page_size_bytes api s)) \<and>
     (\<forall>s blocks n. compute_layout_strides api s blocks n layout None =
        (page_size_bytes api s * blocks, page_size_bytes api s))"

text \<open>
  The positions of the layers of a group, from a byte offset on, with their sizes; layers whose pages
  are split have one position together.
\<close>

fun layer_positions ::
    "'s spec_api \<Rightarrow> ('s \<Rightarrow> nat \<Rightarrow> bool) \<Rightarrow> ('s, string list) dict \<Rightarrow> int \<Rightarrow> (int \<times> int) list" where
  "layer_positions api split [] off = []"
| "layer_positions api split ((s, names) # d) off =
     (if split s (length names) then
        (if names = [] then [] else [(off, int (length names) * page_size_bytes api s)])
      else map (\<lambda>j. (off + int j * page_size_bytes api s, page_size_bytes api s)) [0..<length names]) @
     layer_positions api split d (off + int (length names) * page_size_bytes api s)"

definition dict_bytes :: "'s spec_api \<Rightarrow> ('s, string list) dict \<Rightarrow> int" where
  "dict_bytes api d = sum_list (map (\<lambda>(s, names). int (length names) * page_size_bytes api s) d)"

lemma stacked_run:
  "0 < page \<Longrightarrow> stacked lo (lo + int n * page) (map (\<lambda>j. (lo + int j * page, page)) [0..<n])"
proof (induction n)
  case (Suc n)
  then have "stacked lo (lo + int n * page) (map (\<lambda>j. (lo + int j * page, page)) [0..<n])" by simp
  moreover have "stacked (lo + int n * page) (lo + int (Suc n) * page) [(lo + int n * page, page)]"
    using Suc.prems by (simp add: algebra_simps)
  ultimately show ?case unfolding upt_Suc_append[OF le0] map_append stacked_append by auto
qed simp

lemma positions_stacked:
  assumes "\<forall>s. 0 < page_size_bytes api s" and "off + dict_bytes api d \<le> room"
  shows "stacked off room (layer_positions api split d off)"
  using assms(2)
proof (induction d arbitrary: off)
  case (Cons e d)
  obtain s names where e: "e = (s, names)" by (cases e)
  let ?mid = "off + int (length names) * page_size_bytes api s"
  have "stacked off ?mid (map (\<lambda>j. (off + int j * page_size_bytes api s, page_size_bytes api s)) [0..<length names])"
    using assms(1) by (intro stacked_run) simp
  moreover have "stacked off ?mid (if names = [] then [] else [(off, int (length names) * page_size_bytes api s)])"
    using assms(1) by simp
  moreover have "stacked ?mid room (layer_positions api split d ?mid)"
    using Cons by (simp add: e dict_bytes_def)
  ultimately show ?case by (auto simp: e stacked_append)
qed (simp add: dict_bytes_def)

definition pages_split :: "'s spec_api \<Rightarrow> kv_layout \<Rightarrow> int option \<Rightarrow> int \<Rightarrow> 's \<Rightarrow> nat \<Rightarrow> bool" where
  "pages_split api layout il blocks s n \<longleftrightarrow>
     fst (compute_layout_strides api s blocks (int n) layout il) < page_size_bytes api s"

text \<open>The bytes of one tensor are those of its layers' positions.\<close>

lemma one_tensor_pages:
  assumes law: "strides_law api layout" and p: "0 < page_size_bytes api s" and blocks: "0 < blocks"
    and strides: "compute_layout_strides api s blocks (int (length names)) layout il = (l, b)"
    and off: "py_div (off * max l (page_size_bytes api s)) (page_size_bytes api s) = Inr offset"
  shows "tensor_pages (page_size_bytes api s) blocks
      \<lparr>tensor_size = total_size, tensor_layers = names, layer_stride = l, block_stride = b, tensor_offset = offset\<rparr> =
    concat (map (case il of
          Some room \<Rightarrow> interleaved.layer_pages_of room blocks
        | None \<Rightarrow> layered.layer_pages_of blocks)
      (if pages_split api layout il blocks s (length names) then
         (if names = [] then [] else [(off, int (length names) * page_size_bytes api s)])
       else map (\<lambda>j. (off + int j * page_size_bytes api s, page_size_bytes api s)) [0..<length names]))"
proof (cases il)
  case None
  let ?p = "page_size_bytes api s"
  have l: "l = ?p * blocks" and b: "b = ?p" using law strides by (auto simp: strides_law_def None)
  have le: "?p \<le> ?p * blocks" using p blocks by simp
  then have "offset = off * blocks"
    using p off by (simp add: l py_div_def max_absorb1 mult.left_commute[of off])
  moreover have "\<not> pages_split api layout il blocks s (length names)"
    using strides le by (simp add: pages_split_def l)
  ultimately show ?thesis
    using le by (simp add: tensor_pages_def None l b comp_def layered.layer_pages_of_def
        layered_place_def algebra_simps)
next
  case (Some room)
  let ?p = "page_size_bytes api s"
  have l: "l \<le> ?p" and b: "b = room"
    using law[unfolded strides_law_def, THEN conjunct1, rule_format, of s room blocks "int (length names)"]
      strides by (simp_all add: Some)
  have "offset = off" using p l off by (simp add: py_div_def)
  moreover have "pages_split api layout il blocks s (length names) \<longleftrightarrow> l < ?p"
    using strides by (simp add: pages_split_def)
  moreover have "l < ?p \<or> l = ?p" using l by linarith
  ultimately show ?thesis
    by (elim disjE) (simp_all add: tensor_pages_def Some b comp_def interleaved.layer_pages_of_def
        interleaved_place_def algebra_simps)
qed

lemma group_tensors_pages:
  assumes law: "strides_law api layout" and pos: "\<forall>s. 0 < page_size_bytes api s" and "0 < blocks"
    and "group_tensors api layout il total_size blocks d off = Inr ts"
  shows "concat (map (\<lambda>((s, names), t). tensor_pages (page_size_bytes api s) blocks t) (zip d ts)) =
      concat (map (case il of
          Some room \<Rightarrow> interleaved.layer_pages_of room blocks
        | None \<Rightarrow> layered.layer_pages_of blocks)
        (layer_positions api (pages_split api layout il blocks) d off)) \<and>
    concat (map tensor_layers ts) = concat (map snd d)"
  using assms(4)
proof (induction d arbitrary: off ts)
  case (Cons e d)
  obtain s names where e: "e = (s, names)" by (cases e)
  obtain l b where strides: "compute_layout_strides api s blocks (int (length names)) layout il = (l, b)"
    by fastforce
  let ?p = "page_size_bytes api s"
  have p: "0 < ?p" using pos by simp
  from Cons.prems obtain offset ts' where o: "py_div (off * max l ?p) ?p = Inr offset"
    and rest: "group_tensors api layout il total_size blocks d (off + int (length names) * ?p) = Inr ts'"
    and ts: "ts = \<lparr>tensor_size = total_size, tensor_layers = names, layer_stride = l,
      block_stride = b, tensor_offset = offset\<rparr> # ts'"
    by (auto simp: e strides rbind_Inr_iff)
  show ?case using Cons.IH[OF rest] one_tensor_pages[OF law p assms(3) strides o]
    by (simp add: e ts del: upt_Suc)
qed simp

text \<open>Where the layout keeps pages in one piece, the tensors' layers are a page or more apart.\<close>

definition whole_pages :: "'s spec_api \<Rightarrow> 's kv_group \<Rightarrow> kv_cache_tensor list \<Rightarrow> bool" where
  "whole_pages api g ts \<longleftrightarrow>
     list_all2 (\<lambda>(s, names) t. page_size_bytes api s \<le> layer_stride t) (layers_by_spec g) ts"

lemma group_tensors_whole:
  assumes law: "strides_law api layout" and pos: "\<forall>s. 0 < page_size_bytes api s" and "0 < blocks"
    and "is_block_compact layout \<or> il = None"
    and "group_tensors api layout il total_size blocks d off = Inr ts"
  shows "list_all2 (\<lambda>(s, names) t. page_size_bytes api s \<le> layer_stride t) d ts"
  using assms(5)
proof (induction d arbitrary: off ts)
  case (Cons e d)
  obtain s names where e: "e = (s, names)" by (cases e)
  obtain l b where strides: "compute_layout_strides api s blocks (int (length names)) layout il = (l, b)"
    by fastforce
  have p: "0 < page_size_bytes api s" using pos by simp
  have "page_size_bytes api s \<le> l"
  proof (cases il)
    case None
    then have "l = page_size_bytes api s * blocks" using law strides by (auto simp: strides_law_def)
    then show ?thesis using p \<open>0 < blocks\<close> by simp
  next
    case (Some room)
    then show ?thesis
      using law[unfolded strides_law_def, THEN conjunct1, rule_format, of s room blocks "int (length names)"]
        strides assms(4) by simp
  qed
  moreover from Cons.prems obtain t ts' off' where "ts = t # ts'" "layer_stride t = l"
    and "group_tensors api layout il total_size blocks d off' = Inr ts'"
    by (auto simp: e strides rbind_Inr_iff)
  ultimately show ?case using Cons.IH by (simp add: e)
qed simp

section \<open>Every layer has its pages\<close>

text \<open>A group whose spec, when it is a uniform one, lists the group's layers.\<close>

definition group_wf :: "'s kv_group \<Rightarrow> bool" where
  "group_wf g = (case kv_cache_spec g of
     UniformSpecs b d \<Rightarrow> map fst d = layer_names g \<and> distinct (layer_names g)
   | LayerSpec s \<Rightarrow> True)"

lemma dict_push_bytes:
  "dict_bytes api (dict_push s n acc) = dict_bytes api acc + page_size_bytes api s"
  by (induction acc) (auto simp: dict_bytes_def algebra_simps)

lemma dict_push_names: "mset (concat (map snd (dict_push s n acc))) = add_mset n (mset (concat (map snd acc)))"
  by (induction acc) auto

lemma layers_by_spec_fold:
  "dict_bytes api (foldl (\<lambda>acc (n, s). dict_push s n acc) acc d) =
     dict_bytes api acc + sum_list (map (\<lambda>(n, s). page_size_bytes api s) d) \<and>
   mset (concat (map snd (foldl (\<lambda>acc (n, s). dict_push s n acc) acc d))) =
     mset (concat (map snd acc)) + mset (map fst d)"
  by (induction d arbitrary: acc) (auto simp: dict_push_bytes dict_push_names)

lemma layers_by_spec_bytes:
  assumes wf: "group_wf g" and b: "group_bytes api g = Inr b"
  shows "dict_bytes api (layers_by_spec g) = b"
    and "mset (concat (map snd (layers_by_spec g))) = mset (layer_names g)"
proof -
  obtain ss where ss: "rmap (get_per_layer_spec g) (layer_names g) = Inr ss"
    and b': "b = sum_list (map (page_size_bytes api) ss)"
    using group_bytes_pure[OF b] by blast
  have "dict_bytes api (layers_by_spec g) = b \<and>
      mset (concat (map snd (layers_by_spec g))) = mset (layer_names g)"
  proof (cases "kv_cache_spec g")
    case (LayerSpec s)
    then have "get_per_layer_spec g = (\<lambda>_. Inr s)" by (auto simp: get_per_layer_spec_def)
    then have "ss = map (\<lambda>_. s) (layer_names g)" using ss by simp
    then show ?thesis
      by (simp add: layers_by_spec_def LayerSpec dict_bytes_def b' comp_def sum_list_triv)
  next
    case (UniformSpecs bs d)
    then have names: "map fst d = layer_names g" "distinct (map fst d)" using wf by (auto simp: group_wf_def)
    have "rmap (get_per_layer_spec g) (map fst d) = Inr (map snd d)"
      unfolding rmap_Inr_iff list_all2_map1 list_all2_map2
      using names(2) by (auto simp: list_all2_same get_per_layer_spec_def UniformSpecs dict_get_Inr_iff)
    then have "ss = map snd d" using ss names by simp
    then have "b = sum_list (map (\<lambda>(n, s). page_size_bytes api s) d)"
      by (simp add: b' comp_def case_prod_unfold)
    then show ?thesis
      using layers_by_spec_fold[of api "[]" d] names by (simp add: layers_by_spec_def UniformSpecs dict_bytes_def)
  qed
  then show "dict_bytes api (layers_by_spec g) = b"
    and "mset (concat (map snd (layers_by_spec g))) = mset (layer_names g)" by simp_all
qed

lemma group_tensors_apart:
  assumes law: "strides_law api layout" and pos: "\<forall>s. 0 < page_size_bytes api s" and blocks: "0 < blocks"
    and ts: "group_tensors api layout (if is_block_outermost layout then Some room else None) total_size blocks
      (layers_by_spec g) 0 = Inr ts"
    and wf: "group_wf g" and b: "group_bytes api g = Inr gb" and fits: "gb \<le> room"
  shows "pages_apart (room * blocks) (group_pages api blocks g ts) \<and>
    mset (concat (map tensor_layers ts)) = mset (layer_names g)"
proof -
  note pages = group_tensors_pages[OF law pos blocks ts]
  have "stacked 0 room (layer_positions api split (layers_by_spec g) 0)" for split
    by (rule positions_stacked[OF pos]) (use layers_by_spec_bytes(1)[OF wf b] fits in simp)
  then have "pages_apart (room * blocks) (group_pages api blocks g ts)"
    using pages interleaved.stacked_apart[of 0 room] layered.stacked_apart[of 0 room]
    by (cases "is_block_outermost layout") (simp_all add: group_pages_def)
  then show ?thesis using pages layers_by_spec_bytes(2)[OF wf b] by simp
qed


lemma demo_strides_law: "strides_law demo_api layout"
  by (simp add: strides_law_def)


section \<open>The plan of all workers\<close>

text \<open>
  C11. With one memory size per worker, and specs whose pages are not empty and that never need less
  memory for a longer maximum length: when planning succeeds, all workers have the same number of blocks, their groups are the
  projections on their layers of the groups \<open>get_kv_cache_groups\<close> returns for the layers of all workers
  put together, no tensor is larger than the worker's memory (which an override of
  the number of blocks decides), and a request of the final maximum length fits beside the null block.
\<close>

theorem worker_configs_agree:
  assumes "spec_memory_law api" and "length mem = length specs"
    and "get_kv_cache_configs api check_registry cfg specs mem = (Inr cs, cfg')"
  shows "length cs = length specs \<and>
    (\<exists>groups n. model_groups api cfg specs groups \<and> (\<forall>i < length specs.
      project_kv_cache_groups_to_worker groups (specs ! i) = Inr (kv_cache_groups (cs ! i)) \<and>
      num_blocks (cs ! i) = n \<and>
      (kv_cache_groups (cs ! i) \<noteq> [] \<longrightarrow>
        (\<exists>b m. pool_bytes_per_block api (kv_cache_groups (cs ! i)) = Inr b \<and>
          max_memory_usage_bytes_from_groups api (kv_cache_groups (cs ! i)) cfg' = Inr m \<and>
          m + b \<le> planned_memory cfg (mem ! i) b \<and>
          (\<forall>t \<in> set (kv_cache_tensors (cs ! i)). tensor_size t \<le> planned_memory cfg (mem ! i) b)))))"
  by (rule configs_agree[OF assms])

text \<open>Two pipeline stages of two layers each, with different memory.\<close>

definition demo_workers :: "(string, demo_spec) dict list" where
  "demo_workers = [[(''f0'', full_spec 16), (''w0'', window_spec 32)], [(''f1'', full_spec 16), (''w1'', window_spec 32)]]"

definition demo_plan :: "(vllm_config, demo_spec kv_cache_config list) outcome" where
  "demo_plan = get_kv_cache_configs demo_api (\<lambda>_. Inr ()) (demo_config 64) demo_workers [1000, 900]"

definition plan_result :: "demo_spec kv_cache_config list" where
  "plan_result = (case fst demo_plan of Inr cs \<Rightarrow> cs | Inl _ \<Rightarrow> [])"

lemma demo_plan_result: "demo_plan = (Inr plan_result, demo_config 64)"
  by code_simp

lemma worker_configs_agree_witness:
  "length plan_result = 2 \<and> num_blocks (plan_result ! 0) = num_blocks (plan_result ! 1) \<and>
     map tensor_size (kv_cache_tensors (plan_result ! 0)) \<noteq> []"
proof -
  have "length plan_result = 2 \<and> (\<exists>n. num_blocks (plan_result ! 0) = n \<and> num_blocks (plan_result ! 1) = n)"
    using worker_configs_agree[OF demo_memory_law _ demo_plan_result[unfolded demo_plan_def]]
    by (auto simp: demo_workers_def less_Suc_eq numeral_2_eq_2)
  moreover have "map tensor_size (kv_cache_tensors (plan_result ! 0)) \<noteq> []" by code_simp
  ultimately show ?thesis by auto
qed

lemma scheduler_group_plain:
  assumes "scheduler_group g = Inr g'"
  shows "\<not> is_uniform_group g' \<and> layer_names g' = layer_names g \<and>
    (case kv_cache_spec g of
        LayerSpec s \<Rightarrow> g' = g
      | UniformSpecs b d \<Rightarrow> \<exists>n s d'. d = (n, s) # d' \<and> g' = g\<lparr>kv_cache_spec := LayerSpec s\<rparr>)"
  using assms by (cases "kv_cache_spec g")
    (auto simp: scheduler_group_def is_uniform_group_def split: list.split_asm group_spec.split)

lemma scheduler_groups_plain:
  assumes "rmap scheduler_group gs = Inr gs'"
  shows "list_all (\<lambda>g. \<not> is_uniform_group g) gs'"
    and "map layer_names gs' = map layer_names gs"
    and "list_all2 (\<lambda>g g'. case kv_cache_spec g of
        LayerSpec s \<Rightarrow> g' = g
      | UniformSpecs b d \<Rightarrow> \<exists>n s d'. d = (n, s) # d' \<and> g' = g\<lparr>kv_cache_spec := LayerSpec s\<rparr>) gs gs'"
proof -
  have "list_all2 (\<lambda>g g'. scheduler_group g = Inr g') gs gs'" using assms by (simp add: rmap_Inr_iff)
  then have "list_all (\<lambda>g. \<not> is_uniform_group g) gs' \<and> map layer_names gs' = map layer_names gs \<and>
    list_all2 (\<lambda>g g'. case kv_cache_spec g of
        LayerSpec s \<Rightarrow> g' = g
      | UniformSpecs b d \<Rightarrow> \<exists>n s d'. d = (n, s) # d' \<and> g' = g\<lparr>kv_cache_spec := LayerSpec s\<rparr>) gs gs'"
    by (induction rule: list_all2_induct) (simp_all add: scheduler_group_plain)
  then show "list_all (\<lambda>g. \<not> is_uniform_group g) gs'"
    and "map layer_names gs' = map layer_names gs"
    and "list_all2 (\<lambda>g g'. case kv_cache_spec g of
        LayerSpec s \<Rightarrow> g' = g
      | UniformSpecs b d \<Rightarrow> \<exists>n s d'. d = (n, s) # d' \<and> g' = g\<lparr>kv_cache_spec := LayerSpec s\<rparr>) gs gs'"
    by blast+
qed

lemma scheduler_groups_exist:
  assumes "list_all (\<lambda>g. kv_cache_spec g \<noteq> UniformSpecs (group_block_size api (kv_cache_spec g)) []) gs"
  shows "\<exists>gs'. rmap scheduler_group gs = Inr gs'"
proof -
  have "\<exists>g'. scheduler_group g = Inr g'"
    if "kv_cache_spec g \<noteq> UniformSpecs (group_block_size api (kv_cache_spec g)) []" for g
    using that by (cases "kv_cache_spec g") (auto simp: scheduler_group_def neq_Nil_conv)
  note one = this
  show ?thesis using assms
  proof (induction gs)
    case (Cons g gs)
    then show ?case using one[of g] by auto
  qed simp
qed

text \<open>
  C13. For a plan of at least one worker, under the conditions of the agreement of the workers (a memory
  size for each, pages that are not empty, no less memory for a longer maximum length):
  the scheduler's configuration made from the workers' plans is that of the first worker, with
  every group kept in its place under its names: a plain group as it is, a group with a uniform spec
  with the spec of the first of its own layers in place of the uniform one. It exists as soon as no
  uniform spec is empty.
\<close>

theorem scheduler_has_plain_specs:
  assumes "spec_memory_law api" and "length mem = length specs" and "specs \<noteq> []"
    and "get_kv_cache_configs api check_registry cfg specs mem = (Inr cs, cfg')"
    and "list_all (\<lambda>g. kv_cache_spec g \<noteq> UniformSpecs (group_block_size api (kv_cache_spec g)) [])
      (kv_cache_groups (hd cs))"
  shows "\<exists>c. generate_scheduler_kv_cache_config cs = Inr c \<and>
    list_all (\<lambda>g. \<not> is_uniform_group g) (kv_cache_groups c) \<and>
    map layer_names (kv_cache_groups c) = map layer_names (kv_cache_groups (hd cs)) \<and>
    num_blocks c = num_blocks (hd cs) \<and> kv_cache_tensors c = kv_cache_tensors (hd cs) \<and>
    list_all2 (\<lambda>g g'. case kv_cache_spec g of
        LayerSpec s \<Rightarrow> g' = g
      | UniformSpecs b d \<Rightarrow> \<exists>n s d'. d = (n, s) # d' \<and> g' = g\<lparr>kv_cache_spec := LayerSpec s\<rparr>)
      (kv_cache_groups (hd cs)) (kv_cache_groups c)"
proof -
  from configs_agree[OF assms(1,2,4)] obtain n where len: "length cs = length specs"
    and n: "\<forall>i < length specs. num_blocks (cs ! i) = n" by blast
  then obtain c0 rest where cs: "cs = c0 # rest" using assms(3) by (cases cs) auto
  have n0: "num_blocks c0 = n" using n[rule_format, of 0] len by (simp add: cs flip: len)
  have same: "list_all (\<lambda>c'. num_blocks c' = num_blocks c0) cs"
    using n len by (simp add: list_all_length n0)
  obtain gs' where gs': "rmap scheduler_group (kv_cache_groups c0) = Inr gs'"
    using scheduler_groups_exist[OF assms(5)] by (auto simp: cs)
  note plain = scheduler_groups_plain[OF gs']
  show ?thesis
    using gs' same plain by (auto simp: generate_scheduler_kv_cache_config_def cs)
qed

text \<open>A worker whose two layers share a group with a uniform spec, as their heads differ.\<close>

definition wide_spec :: demo_spec where
  "wide_spec = (full_spec 16)\<lparr>demo_token_bytes := 4\<rparr>"

definition uniform_workers :: "(string, demo_spec) dict list" where
  "uniform_workers = [[(''f0'', wide_spec), (''f1'', full_spec 16)]]"

definition uniform_plan :: "(vllm_config, demo_spec kv_cache_config list) outcome" where
  "uniform_plan = get_kv_cache_configs demo_api (\<lambda>_. Inr ()) (demo_config 64) uniform_workers [1000]"

definition uniform_result :: "demo_spec kv_cache_config list" where
  "uniform_result = (case fst uniform_plan of Inr cs \<Rightarrow> cs | Inl _ \<Rightarrow> [])"

lemma uniform_plan_result: "uniform_plan = (Inr uniform_result, demo_config 64)"
  by code_simp

lemma scheduler_has_plain_specs_witness:
  "map is_uniform_group (kv_cache_groups (hd uniform_result)) = [True] \<and>
   (case generate_scheduler_kv_cache_config uniform_result of
     Inr c \<Rightarrow> kv_cache_groups c =
       [(hd (kv_cache_groups (hd uniform_result)))\<lparr>kv_cache_spec := LayerSpec wide_spec\<rparr>] \<and>
       list_all (\<lambda>g. \<not> is_uniform_group g) (kv_cache_groups c)
   | Inl _ \<Rightarrow> False)"
proof -
  have ne: "list_all (\<lambda>g. kv_cache_spec g \<noteq> UniformSpecs (group_block_size demo_api (kv_cache_spec g)) [])
      (kv_cache_groups (hd uniform_result))" by code_simp
  have gs: "map kv_cache_spec (kv_cache_groups (hd uniform_result)) =
      [UniformSpecs 16 [(''f0'', wide_spec), (''f1'', full_spec 16)]]" by code_simp
  then obtain g where g: "kv_cache_groups (hd uniform_result) = [g]"
    "kv_cache_spec g = UniformSpecs 16 [(''f0'', wide_spec), (''f1'', full_spec 16)]" by auto
  obtain c where "generate_scheduler_kv_cache_config uniform_result = Inr c"
    and "list_all (\<lambda>g. \<not> is_uniform_group g) (kv_cache_groups c)"
    and "list_all2 (\<lambda>g g'. case kv_cache_spec g of
        LayerSpec s \<Rightarrow> g' = g
      | UniformSpecs b d \<Rightarrow> \<exists>n s d'. d = (n, s) # d' \<and> g' = g\<lparr>kv_cache_spec := LayerSpec s\<rparr>)
      (kv_cache_groups (hd uniform_result)) (kv_cache_groups c)"
    using scheduler_has_plain_specs[OF demo_memory_law _ _ uniform_plan_result[unfolded uniform_plan_def] ne]
    by (auto simp: uniform_workers_def)
  then show ?thesis by (simp add: g is_uniform_group_def list_all2_Cons1)
qed

end
