(* ===== verification/Engram_Layout.thy ===== *)
theory Engram_Layout
  imports Runtime_Base "HOL-Library.Word"
begin

text \<open>
  The layout of the n-gram hash tables (\<^verbatim>\<open>engram.py\<close>): the Miller-Rabin test, the search for unused
  primes, the compressed token map, the hash multipliers and \<open>EngramLayout\<close>. The main results: the
  test accepts every prime but 61 and rejects what has a small divisor, so the search for the next
  prime returns; the layout exists and its bucket ranges do not overlap; tokens share a compressed id exactly when they normalise alike; and
  products of compressed ids and multipliers stay below \<open>2 ^ 63\<close>.
\<close>

section \<open>Primality\<close>

text \<open>\<open>n - 1\<close> without its factors of two, and their number.\<close>

function strip_twos :: "int \<Rightarrow> nat \<Rightarrow> int \<times> nat" where
  "strip_twos d r = (if 0 < d \<and> d mod 2 = 0 then strip_twos (d div 2) (r + 1) else (d, r))"
  by pat_completeness auto
termination by (relation "measure (\<lambda>(d, r). nat d)") auto

declare strip_twos.simps [simp del]

text \<open>The squarings of one base, up to the first \<open>n - 1\<close>.\<close>

fun square_loop :: "nat \<Rightarrow> int \<Rightarrow> int \<Rightarrow> bool" where
  "square_loop 0 x n = False"
| "square_loop (Suc k) x n = (let x = x * x mod n in if x = n - 1 then True else square_loop k x n)"

definition base_passes :: "int \<Rightarrow> nat \<Rightarrow> int \<Rightarrow> int \<Rightarrow> bool" where
  "base_passes d r n a =
     (let x = a ^ nat d mod n in x = 1 \<or> x = n - 1 \<or> square_loop (r - 1) x n)"

definition small_primes :: "int list" where
  "small_primes = [2, 3, 5, 7, 11, 13, 17, 19, 23, 29, 31, 37]"

definition is_prime :: "int \<Rightarrow> bool" where
  "is_prime n =
     (if n < 2 then False
      else case find (\<lambda>p. n mod p = 0) small_primes of
        Some p \<Rightarrow> n = p
      | None \<Rightarrow>
          let (d, r) = strip_twos (n - 1) 0 in
          list_all (base_passes d r n) [2, 7, 61])"

text \<open>The search may not end, so not returning is \<open>None\<close>.\<close>

partial_function (option) find_next_prime_from :: "int \<Rightarrow> int list \<Rightarrow> int option" where
  "find_next_prime_from candidate seen_primes =
     (if \<not> is_prime candidate \<or> candidate \<in> set seen_primes
      then find_next_prime_from (candidate + 1) seen_primes else Some candidate)"

declare find_next_prime_from.simps [code]

definition find_next_prime :: "int \<Rightarrow> int list \<Rightarrow> int option" where
  "find_next_prime start seen_primes = find_next_prime_from (start + 1) seen_primes"

section \<open>The compressed token map\<close>

text \<open>
  The tokenizer's \<open>decode\<close> and \<open>id_to_token\<close> and the normaliser belong to other packages; an empty
  normalised text falls back to the decoded one, and a text with the replacement character to the
  raw token.
\<close>

definition token_key ::
    "(int \<Rightarrow> 'a list) \<Rightarrow> (int \<Rightarrow> 'a list) \<Rightarrow> ('a list \<Rightarrow> 'a list) \<Rightarrow> 'a \<Rightarrow> int \<Rightarrow> 'a list" where
  "token_key decode id_to_token normalize_str replacement token_id =
     (let text = decode token_id in
      if replacement \<in> set text then id_to_token token_id
      else let normalized = normalize_str text in if normalized \<noteq> [] then normalized else text)"

fun compress_loop ::
    "(int \<Rightarrow> 'k) \<Rightarrow> int list \<Rightarrow> ('k, int) dict \<Rightarrow> int list \<Rightarrow> int list \<times> ('k, int) dict" where
  "compress_loop key [] key_to_new lookup = (lookup, key_to_new)"
| "compress_loop key (token_id # ids) key_to_new lookup =
     (case map_of key_to_new (key token_id) of
        None \<Rightarrow>
          let new_id = int (length key_to_new) in
          compress_loop key ids (dict_set (key token_id) new_id key_to_new) (lookup[nat token_id := new_id])
      | Some new_id \<Rightarrow> compress_loop key ids key_to_new (lookup[nat token_id := new_id]))"

definition build_compressed_token_map ::
    "(int \<Rightarrow> 'a list) \<Rightarrow> (int \<Rightarrow> 'a list) \<Rightarrow> ('a list \<Rightarrow> 'a list) \<Rightarrow> 'a \<Rightarrow> nat \<Rightarrow> int list \<times> int" where
  "build_compressed_token_map decode id_to_token normalize_str replacement vocab =
     (let (lookup, key_to_new) = compress_loop (token_key decode id_to_token normalize_str replacement)
            (map int [0..<vocab]) [] (replicate vocab 0)
      in (lookup, int (length key_to_new)))"

section \<open>Hash multipliers\<close>

definition max_long :: int where "max_long = 2 ^ 63 - 1"

text \<open>
  \<open>integers seed bound n\<close> is what the NumPy generator draws: \<open>n\<close> integers from \<open>0\<close> below \<open>bound\<close>.
\<close>

definition compute_hash_multipliers ::
    "(int \<Rightarrow> int \<Rightarrow> nat \<Rightarrow> int list) \<Rightarrow> int list \<Rightarrow> nat \<Rightarrow> int \<Rightarrow> int list list res" where
  "compute_hash_multipliers integers layer_ids max_ngram_size compressed_vocab_size =
     rbind (py_div max_long compressed_vocab_size) (\<lambda>q.
       let multiplier_bound = max 1 (q div 2) in
       if layer_ids = [] then Inl RuntimeError
       else Inr (map (\<lambda>layer_id. map (\<lambda>v. v * 2 + 1) (integers (10007 * layer_id) multiplier_bound max_ngram_size))
         layer_ids))"

section \<open>The layout\<close>

record engram_config =
  engram_layer_ids :: "int list"
  engram_num_embeddings :: "int list"
  engram_max_ngram_size :: int
  engram_n_heads :: int
  engram_head_dim :: int
  engram_compressed_vocab_size :: int
  engram_pad_token_id :: int
  engram_vocab_size :: int

record EngramLayout =
  layer_ids :: "int list"
  num_embeddings :: "int list"
  max_ngram_size :: int
  n_heads :: int
  head_dim :: int
  compressed_vocab_size :: int
  pad_token_id :: int
  primes :: "int list list list"
  n_hash_cols :: int
  offsets :: "int list list"

text \<open>The primes of the heads of one n-gram size, of the n-gram sizes of a layer, and of the layers.\<close>

fun draw_heads :: "nat \<Rightarrow> int \<Rightarrow> int list \<Rightarrow> (int list \<times> int list) option" where
  "draw_heads 0 current seen = Some ([], seen)"
| "draw_heads (Suc n) current seen =
     (case find_next_prime current seen of
        None \<Rightarrow> None
      | Some p \<Rightarrow> map_option (\<lambda>(sizes, seen). (p # sizes, seen)) (draw_heads n p (p # seen)))"

fun draw_orders :: "nat \<Rightarrow> nat \<Rightarrow> int \<Rightarrow> int list \<Rightarrow> (int list list \<times> int list) option" where
  "draw_orders 0 heads start seen = Some ([], seen)"
| "draw_orders (Suc n) heads start seen =
     (case draw_heads heads start seen of
        None \<Rightarrow> None
      | Some (sizes, seen) \<Rightarrow> map_option (\<lambda>(orders, seen). (sizes # orders, seen)) (draw_orders n heads start seen))"

fun draw_layers :: "nat \<Rightarrow> nat \<Rightarrow> nat \<Rightarrow> int \<Rightarrow> int list \<Rightarrow> (int list list list \<times> int list) option" where
  "draw_layers 0 orders heads start seen = Some ([], seen)"
| "draw_layers (Suc n) orders heads start seen =
     (case draw_orders orders heads start seen of
        None \<Rightarrow> None
      | Some (per_ngram, seen) \<Rightarrow>
          map_option (\<lambda>(layers, seen). (per_ngram # layers, seen)) (draw_layers n orders heads start seen))"

text \<open>\<open>np.cumsum\<close>.\<close>

fun cumsum :: "int \<Rightarrow> int list \<Rightarrow> int list" where
  "cumsum acc [] = []"
| "cumsum acc (x # xs) = (acc + x) # cumsum (acc + x) xs"

definition bucket_offsets :: "int list list \<Rightarrow> int list" where
  "bucket_offsets per_ngram = cumsum 0 (0 # butlast (concat per_ngram))"

text \<open>The constructor: no value while it runs, then a layout or an exception.\<close>

definition engram_layout :: "engram_config \<Rightarrow> EngramLayout res option" where
  "engram_layout config =
     (if length (engram_layer_ids config) \<noteq> length (engram_num_embeddings config)
      then Some (Inl AssertionError)
      else map_option (\<lambda>(ps, _). Inr
        \<lparr>layer_ids = engram_layer_ids config, num_embeddings = engram_num_embeddings config,
         max_ngram_size = engram_max_ngram_size config, n_heads = engram_n_heads config,
         head_dim = engram_head_dim config,
         compressed_vocab_size = engram_compressed_vocab_size config,
         pad_token_id = engram_pad_token_id config, primes = ps,
         n_hash_cols = (engram_max_ngram_size config - 1) * engram_n_heads config,
         offsets = map bucket_offsets ps\<rparr>)
        (draw_layers (length (engram_layer_ids config)) (nat (engram_max_ngram_size config - 1))
          (nat (engram_n_heads config)) (engram_vocab_size config - 1) []))"

definition layout_from_config :: "engram_config \<Rightarrow> EngramLayout option res option" where
  "layout_from_config config =
     (if engram_layer_ids config = [] then Some (Inr None)
      else map_option (\<lambda>r. rbind r (\<lambda>l. Inr (Some l))) (engram_layout config))"

section \<open>Primes pass the test\<close>

definition prime_int :: "int \<Rightarrow> bool" where
  "prime_int p \<longleftrightarrow> 1 < p \<and> (\<forall>d > 0. d dvd p \<longrightarrow> d = 1 \<or> d = p)"

lemma prime_int_coprime:
  assumes "prime_int p" and "\<not> p dvd a"
  shows "coprime p a"
proof -
  have "gcd p a dvd p" and "0 < gcd p a" using assms(1) by (auto simp: prime_int_def)
  then have "gcd p a = 1 \<or> gcd p a = p" using assms(1) by (auto simp: prime_int_def)
  moreover have "gcd p a \<noteq> p" using assms(2) by (metis gcd_dvd2)
  ultimately show ?thesis by (simp add: coprime_iff_gcd_eq_1)
qed

lemma prime_int_dvd_mult:
  assumes "prime_int p" and "p dvd a * b"
  shows "p dvd a \<or> p dvd b"
  using prime_int_coprime[OF assms(1)] assms(2) by (metis coprime_dvd_mult_right_iff)

lemma fermat_little:
  assumes p: "prime_int p" and a: "\<not> p dvd a"
  shows "a ^ nat (p - 1) mod p = 1"
proof -
  let ?S = "{1..<p}"
  let ?f = "\<lambda>i. a * i mod p"
  have p1: "1 < p" using p by (simp add: prime_int_def)
  have notdvd: "\<not> p dvd i" if "i \<in> ?S" for i using that by (auto dest: zdvd_imp_le)
  have into: "?f ` ?S \<subseteq> ?S"
  proof
    fix y assume "y \<in> ?f ` ?S"
    then obtain i where i: "i \<in> ?S" "y = ?f i" by blast
    have "\<not> p dvd a * i" using prime_int_dvd_mult[OF p] a notdvd[OF i(1)] by blast
    then have "y \<noteq> 0" using i(2) by (simp add: dvd_eq_mod_eq_0)
    moreover have "0 \<le> y" "y < p" using i(2) p1 by simp_all
    ultimately show "y \<in> ?S" by simp
  qed
  have inj: "inj_on ?f ?S"
  proof (rule inj_onI)
    fix i j assume ij: "i \<in> ?S" "j \<in> ?S" "?f i = ?f j"
    then have "p dvd a * (i - j)" by (simp add: mod_eq_dvd_iff right_diff_distrib)
    then have "p dvd i - j" using prime_int_dvd_mult[OF p] a by blast
    then have "i mod p = j mod p" by (simp add: mod_eq_dvd_iff)
    then show "i = j" using ij by simp
  qed
  have img: "?f ` ?S = ?S" by (rule endo_inj_surj[OF _ into inj]) simp
  let ?F = "\<Prod>i \<in> ?S. i"
  have "(\<Prod>i \<in> ?S. ?f i) = ?F"
    using prod.reindex[OF inj, of "\<lambda>i. i"] img by (simp add: comp_def)
  moreover have "(\<Prod>i \<in> ?S. ?f i) mod p = (a ^ nat (p - 1) * ?F) mod p"
    by (simp add: mod_prod_eq prod.distrib)
  ultimately have "(a ^ nat (p - 1) * ?F) mod p = ?F mod p" by simp
  then have "p dvd a ^ nat (p - 1) * ?F - ?F" by (simp only: mod_eq_dvd_iff)
  then have "p dvd (a ^ nat (p - 1) - 1) * ?F" by (simp add: left_diff_distrib)
  moreover have "\<not> p dvd ?F"
  proof -
    have "\<not> p dvd (\<Prod>i \<in> T. i)" if "finite T" "T \<subseteq> ?S" for T
      using that
    proof (induction T rule: finite_induct)
      case empty then show ?case using p1 by simp
    next
      case (insert x T)
      then show ?case using prime_int_dvd_mult[OF p, of x "\<Prod>i \<in> T. i"] notdvd by auto
    qed
    then show ?thesis by simp
  qed
  ultimately have "p dvd a ^ nat (p - 1) - 1" using prime_int_dvd_mult[OF p] by blast
  then have "a ^ nat (p - 1) mod p = 1 mod p" by (simp add: mod_eq_dvd_iff)
  then show ?thesis using p1 by simp
qed

lemma strip_twos_spec:
  "0 < d \<Longrightarrow> strip_twos d r = (e, s) \<Longrightarrow>
     0 < e \<and> e mod 2 = 1 \<and> r \<le> s \<and> d = e * 2 ^ (s - r) \<and> (d mod 2 = 0 \<longrightarrow> r < s)"
proof (induction d r arbitrary: e s rule: strip_twos.induct)
  case (1 d r)
  show ?case
  proof (cases "d mod 2 = 0")
    case True
    then have "strip_twos (d div 2) (r + 1) = (e, s)"
      using "1.prems" strip_twos.simps[of d r] by simp
    moreover have "0 < d div 2" using "1.prems"(1) True by auto
    ultimately have IH: "0 < e" "e mod 2 = 1" "Suc r \<le> s" "d div 2 = e * 2 ^ (s - Suc r)"
      using "1.IH"[OF _ , of e s] "1.prems"(1) True by simp_all
    have "d = 2 * (d div 2)" using True by presburger
    also have "\<dots> = e * 2 ^ Suc (s - Suc r)" using IH(4) by simp
    also have "Suc (s - Suc r) = s - r" using IH(3) by simp
    finally show ?thesis using IH by simp
  next
    case False
    then have "(e, s) = (d, r)" using "1.prems" strip_twos.simps[of d r] by simp
    then show ?thesis using "1.prems" False by simp
  qed
qed

lemma square_root_of_one:
  assumes p: "prime_int p" and x: "0 \<le> x" "x < p" and "x * x mod p = 1"
  shows "x = 1 \<or> x = p - 1"
proof -
  have p1: "1 < p" using p by (simp add: prime_int_def)
  have "x * x mod p = 1 mod p" using assms(4) p1 by simp
  then have "p dvd x * x - 1" by (simp only: mod_eq_dvd_iff)
  then have "p dvd (x - 1) * (x + 1)" by (simp add: algebra_simps)
  then have "p dvd x - 1 \<or> p dvd x + 1" by (rule prime_int_dvd_mult[OF p])
  then show ?thesis
  proof
    assume "p dvd x - 1"
    moreover have "\<bar>x - 1\<bar> < p" using x p1 by linarith
    ultimately have "x - 1 = 0" by (metis dvd_imp_le_int abs_of_pos p1 linorder_not_less order_less_trans zero_less_one)
    then show ?thesis by simp
  next
    assume "p dvd x + 1"
    then have "p \<le> x + 1" using x by (intro zdvd_imp_le) simp_all
    then show ?thesis using x by simp
  qed
qed

lemma square_loop_prime:
  assumes p: "prime_int p"
  shows "0 \<le> x \<Longrightarrow> x < p \<Longrightarrow> x ^ (2 ^ Suc k) mod p = 1 \<Longrightarrow> x \<noteq> 1 \<Longrightarrow> x \<noteq> p - 1 \<Longrightarrow> square_loop k x p"
proof (induction k arbitrary: x)
  case 0
  then show ?case using square_root_of_one[OF p, of x] by (simp add: power2_eq_square)
next
  case (Suc k)
  have p1: "1 < p" using p by (simp add: prime_int_def)
  let ?y = "x * x mod p"
  have "?y ^ (2 ^ Suc k) mod p = (x * x) ^ (2 ^ Suc k) mod p" by (simp add: power_mod)
  also have "(x * x) ^ (2 ^ Suc k) = x ^ (2 ^ Suc (Suc k))"
    by (simp add: power_mult_distrib power_add[symmetric] mult_2)
  finally have "?y ^ (2 ^ Suc k) mod p = 1" using Suc.prems(3) by simp
  moreover have "?y \<noteq> 1" using square_root_of_one[OF p Suc.prems(1,2)] Suc.prems(4,5) by blast
  ultimately show ?case using Suc.IH[of ?y] p1 by (simp add: Let_def)
qed

lemma prime_base_passes:
  assumes p: "prime_int p" and a: "\<not> p dvd a" and dr: "p - 1 = d * 2 ^ r" and d: "0 < d" and r: "0 < r"
  shows "base_passes d r p a"
proof -
  have p1: "1 < p" using p by (simp add: prime_int_def)
  let ?x = "a ^ nat d mod p"
  have "?x ^ (2 ^ r) mod p = (a ^ nat d) ^ (2 ^ r) mod p" by (simp add: power_mod)
  also have "(a ^ nat d) ^ (2 ^ r) = a ^ nat (p - 1)"
    using d by (simp add: dr power_mult[symmetric] nat_mult_distrib nat_power_eq)
  finally have one: "?x ^ (2 ^ Suc (r - 1)) mod p = 1" using fermat_little[OF p a] r by simp
  show ?thesis
    using square_loop_prime[OF p _ _ one] p1 by (auto simp: base_passes_def Let_def)
qed

lemma divisor_61: "1 < p \<Longrightarrow> p dvd 61 \<Longrightarrow> p = (61 :: int)"
proof (rule ccontr)
  assume p: "1 < p" "p dvd 61" "p \<noteq> 61"
  have "p \<le> 61" using p(2) by (intro zdvd_imp_le) simp_all
  with p have "p \<in> set [2..60]" by (simp only: set_upto atLeastAtMost_iff) linarith
  moreover have "list_all (\<lambda>q. \<not> q dvd 61) [2..60 :: int]" by code_simp
  ultimately show False using p(2) by (auto simp only: list_all_iff)
qed

lemma divisor_7: "1 < p \<Longrightarrow> p dvd 7 \<Longrightarrow> p = (7 :: int)"
proof (rule ccontr)
  assume p: "1 < p" "p dvd 7" "p \<noteq> 7"
  have "p \<le> 7" using p(2) by (intro zdvd_imp_le) simp_all
  with p have "p \<in> set [2..6]" by (simp only: set_upto atLeastAtMost_iff) linarith
  moreover have "list_all (\<lambda>q. \<not> q dvd 7) [2..6 :: int]" by code_simp
  ultimately show False using p(2) by (auto simp only: list_all_iff)
qed

lemma prime_is_prime:
  assumes p: "prime_int p" and "p \<noteq> 61"
  shows "is_prime p"
proof -
  have p1: "1 < p" using p by (simp add: prime_int_def)
  have small: "p = q" if "q dvd p" "1 < q" for q
    using p that unfolding prime_int_def by (metis less_irrefl order_less_trans zero_less_one)
  show ?thesis
  proof (cases "find (\<lambda>q. p mod q = 0) small_primes")
    case (Some q)
    then have "q \<in> set small_primes" "p mod q = 0" by (auto simp: find_Some_iff)
    moreover from this(1) have "1 < q" by (auto simp: small_primes_def)
    ultimately show ?thesis using small[of q] p1 Some by (auto simp: is_prime_def)
  next
    case None
    then have none: "\<forall>q \<in> set small_primes. p mod q \<noteq> 0" by (simp add: find_None_iff)
    then have "p mod 2 \<noteq> 0" by (simp add: small_primes_def)
    then have odd: "(p - 1) mod 2 = 0" by presburger
    obtain d r where dr: "strip_twos (p - 1) 0 = (d, r)" by (cases "strip_twos (p - 1) 0")
    from strip_twos_spec[OF _ dr] p1 odd
    have *: "0 < d" "p - 1 = d * 2 ^ r" "0 < r" by simp_all
    have "base_passes d r p a" if a: "a \<in> {2, 7, 61}" for a
    proof (rule prime_base_passes[OF p _ *(2) *(1,3)])
      show "\<not> p dvd a"
      proof
        assume dvd: "p dvd a"
        have "p \<noteq> 2" "p \<noteq> 7" using none by (auto simp: small_primes_def)
        then show False
          using a dvd p1 assms(2) divisor_61[OF p1] divisor_7[OF p1] zdvd_imp_le[of p 2] by auto
      qed
    qed
    then show ?thesis using p1 None dr by (simp add: is_prime_def)
  qed
qed

text \<open>Above every number there is a prime.\<close>

lemma prime_above: "\<exists>p > N. prime_int p"
proof -
  define m :: int where "m = fact (nat \<bar>N\<bar>) + 1"
  define P where "P d \<longleftrightarrow> 1 < d \<and> int d dvd m" for d :: nat
  have "1 < m" by (simp add: m_def)
  then have "P (nat m)" by (simp add: P_def)
  define q where "q = (LEAST d. P d)"
  have q: "P q" and least: "\<And>d. P d \<Longrightarrow> q \<le> d"
    unfolding q_def using \<open>P (nat m)\<close> by (auto intro: LeastI Least_le)
  have "prime_int (int q)"
    unfolding prime_int_def
  proof (intro conjI allI impI)
    show "1 < int q" using q by (simp add: P_def)
    fix d :: int assume d: "0 < d" "d dvd int q"
    show "d = 1 \<or> d = int q"
    proof (rule ccontr)
      assume "\<not> (d = 1 \<or> d = int q)"
      then have "P (nat d)" using d q by (auto simp: P_def intro: dvd_trans)
      from least[OF this] have "int q \<le> d" using d(1) by simp
      moreover have "d \<le> int q" using d q by (intro zdvd_imp_le) (simp_all add: P_def)
      ultimately show False using \<open>\<not> (d = 1 \<or> d = int q)\<close> by simp
    qed
  qed
  moreover have "N < int q"
  proof (rule ccontr)
    assume "\<not> N < int q"
    then have "q \<le> nat \<bar>N\<bar>" by linarith
    then have "q dvd fact (nat \<bar>N\<bar>)" using q by (intro dvd_fact) (simp_all add: P_def)
    then have "int q dvd fact (nat \<bar>N\<bar>)" by (metis of_nat_dvd_iff of_nat_fact)
    then have "int q dvd 1" using q by (simp add: P_def m_def dvd_add_right_iff)
    then show False using q by (simp add: P_def)
  qed
  ultimately show ?thesis by blast
qed

lemma find_from_returns:
  assumes "is_prime q" and "q \<notin> set seen" and "c \<le> q"
  shows "\<exists>p. find_next_prime_from c seen = Some p \<and> c \<le> p \<and> is_prime p \<and> p \<notin> set seen \<and>
    (\<forall>m. c \<le> m \<and> m < p \<longrightarrow> \<not> is_prime m \<or> m \<in> set seen)"
  using assms(3)
proof (induction "nat (q - c)" arbitrary: c rule: less_induct)
  case less
  show ?case
  proof (cases "\<not> is_prime c \<or> c \<in> set seen")
    case True
    then have "c \<noteq> q" using assms by auto
    then have "c + 1 \<le> q" "nat (q - (c + 1)) < nat (q - c)" using less.prems by auto
    from less.hyps[OF this(2,1)] obtain p where
      p: "find_next_prime_from (c + 1) seen = Some p" "c + 1 \<le> p" "is_prime p" "p \<notin> set seen"
        "\<forall>m. c + 1 \<le> m \<and> m < p \<longrightarrow> \<not> is_prime m \<or> m \<in> set seen" by blast
    have "\<not> is_prime m \<or> m \<in> set seen" if "c \<le> m" "m < p" for m
      using that True p(5) by (cases "m = c") auto
    then show ?thesis using p True by (auto simp: find_next_prime_from.simps[of c])
  next
    case False
    then show ?thesis by (auto simp: find_next_prime_from.simps[of c])
  qed
qed

lemma find_next_prime_returns:
  "\<exists>p. find_next_prime start seen = Some p \<and> start < p \<and> is_prime p \<and> p \<notin> set seen \<and>
    (\<forall>m. start < m \<and> m < p \<longrightarrow> \<not> is_prime m \<or> m \<in> set seen)"
proof -
  obtain q where q: "foldr max (start # 61 # seen) 0 < q" "prime_int q" using prime_above by blast
  have "m \<le> foldr max ms 0" if "m \<in> set ms" for m :: int and ms
    using that by (induction ms) (auto simp: le_max_iff_disj)
  then have "\<forall>m \<in> set (start # 61 # seen). m < q" using q(1) by (meson order.strict_trans1)
  then have "q \<notin> set seen" "start + 1 \<le> q" "q \<noteq> 61" by auto
  from find_from_returns[OF prime_is_prime[OF q(2) this(3)] this(1,2)] show ?thesis
    by (simp add: find_next_prime_def add1_zle_eq)
qed

section \<open>Properties\<close>

text \<open>
  The primality test accepts every prime except 61: its base 61 is not reduced, so 61 fails its
  own round.
\<close>

lemma primes_but_61_accepted:
  assumes "prime_int p"
  shows "is_prime p \<longleftrightarrow> p \<noteq> 61"
proof -
  have "\<not> is_prime 61" by code_simp
  then show ?thesis using prime_is_prime[OF assms] by auto
qed

lemma primes_but_61_accepted_witness: "prime_int 61 \<and> \<not> is_prime 61"
proof -
  have "prime_int 61" using divisor_61 by (auto simp: prime_int_def) (metis int_one_le_iff_zero_less le_less)
  with primes_but_61_accepted[OF this] show ?thesis by simp
qed

text \<open>
  The search for the next prime returns from every start and for every set of used primes, with
  the smallest number above the start that passes the test and is unused.
\<close>

lemma next_prime_found:
  "\<exists>p. find_next_prime start seen = Some p \<and> start < p \<and> is_prime p \<and> p \<notin> set seen \<and>
     {m. start < m \<and> m < p \<and> is_prime m} \<subseteq> set seen"
  using find_next_prime_returns[of start seen] by blast

section \<open>What the test guarantees of the numbers it accepts\<close>

text \<open>
  A number that passes has no prime up to 37 as a divisor but itself, and beyond these primes it
  meets Fermat's condition for the bases of the test. Below the square of 41 that makes it a prime.
\<close>

definition probable_prime :: "int \<Rightarrow> bool" where
  "probable_prime p \<longleftrightarrow> 1 < p \<and> (\<forall>q \<in> set small_primes. q dvd p \<longrightarrow> p = q) \<and>
     (p \<notin> set small_primes \<longrightarrow> (\<forall>a \<in> {2, 7, 61}. a ^ nat (p - 1) mod p = 1))"

lemma minus_one_even_power:
  assumes "1 < (n :: int)" and "y mod n = n - 1"
  shows "y ^ (2 ^ Suc k) mod n = 1"
proof -
  have "n dvd y * y - 1"
  proof -
    have "y mod n = (- 1) mod n" using assms by (simp add: zmod_minus1)
    then have "n dvd y + 1" by (simp add: mod_eq_dvd_iff)
    then have "n dvd (y + 1) * (y - 1)" by simp
    then show ?thesis by (simp add: algebra_simps)
  qed
  then have "y * y mod n = 1 mod n" by (simp only: mod_eq_dvd_iff)
  then have "(y * y) ^ (2 ^ k) mod n = 1 ^ (2 ^ k) mod n" by (metis power_mod)
  then show ?thesis using assms(1) by (simp add: power_mult_distrib power_add[symmetric] mult_2)
qed

lemma square_loop_fermat:
  "1 < n \<Longrightarrow> square_loop k x n \<Longrightarrow> x ^ (2 ^ Suc k) mod n = 1"
proof (induction k arbitrary: x)
  case (Suc k)
  let ?y = "x * x mod n"
  have "x ^ (2 ^ Suc (Suc k)) = (x * x) ^ (2 ^ Suc k)"
    by (simp add: power_mult_distrib power_add[symmetric] mult_2)
  then have "x ^ (2 ^ Suc (Suc k)) mod n = ?y ^ (2 ^ Suc k) mod n" by (simp add: power_mod)
  also have "\<dots> = 1"
  proof (cases "?y = n - 1")
    case True
    then show ?thesis using Suc.prems(1)
      by (intro minus_one_even_power) (simp_all add: zmod_minus1)
  next
    case False
    then show ?thesis using Suc.IH[of ?y] Suc.prems by (simp add: Let_def)
  qed
  finally show ?case .
qed simp

lemma base_passes_fermat:
  assumes n: "1 < n" and dr: "n - 1 = d * 2 ^ r" and d: "0 < d" and r: "0 < r" and "base_passes d r n a"
  shows "a ^ nat (n - 1) mod n = 1"
proof -
  let ?x = "a ^ nat d mod n"
  have r': "Suc (r - 1) = r" using r by simp
  have "a ^ nat (n - 1) = (a ^ nat d) ^ (2 ^ r)"
    using d by (simp add: dr power_mult[symmetric] nat_mult_distrib nat_power_eq)
  then have "a ^ nat (n - 1) mod n = ?x ^ (2 ^ Suc (r - 1)) mod n" unfolding r' by (simp add: power_mod)
  moreover consider "?x = 1" | "?x = n - 1" | "square_loop (r - 1) ?x n"
    using assms(5) by (auto simp: base_passes_def Let_def)
  then have "?x ^ (2 ^ Suc (r - 1)) mod n = 1"
  proof cases
    case 1 then show ?thesis using n by simp
  next
    case 2 then show ?thesis using n by (intro minus_one_even_power) (simp_all add: zmod_minus1)
  next
    case 3 then show ?thesis by (rule square_loop_fermat[OF n])
  qed
  ultimately show ?thesis by simp
qed

lemma is_prime_probable:
  assumes "is_prime p"
  shows "probable_prime p"
proof -
  have p1: "1 < p" using assms by (simp add: is_prime_def split: if_split_asm)
  show ?thesis
  proof (cases "find (\<lambda>q. p mod q = 0) small_primes")
    case (Some q)
    then have pq: "p = q" using assms by (simp add: is_prime_def split: if_split_asm)
    from Some have q: "q \<in> set small_primes" by (auto simp: find_Some_iff)
    have "list_all (\<lambda>q. list_all (\<lambda>q'. q' dvd q \<longrightarrow> q = q') small_primes) small_primes" by code_simp
    then have "\<forall>q' \<in> set small_primes. q' dvd p \<longrightarrow> p = q'" using q unfolding list_all_iff pq by blast
    then show ?thesis using p1 q pq by (simp add: probable_prime_def)
  next
    case None
    then have none: "\<forall>q \<in> set small_primes. \<not> q dvd p" by (simp add: find_None_iff dvd_eq_mod_eq_0)
    then have "\<not> 2 dvd p" by (simp add: small_primes_def)
    then have even: "(p - 1) mod 2 = 0" by presburger
    obtain d r where dr: "strip_twos (p - 1) 0 = (d, r)" by (cases "strip_twos (p - 1) 0")
    from strip_twos_spec[OF _ dr] p1 even
    have *: "0 < d" "p - 1 = d * 2 ^ r" "0 < r" by simp_all
    have "list_all (base_passes d r p) [2, 7, 61]"
      using assms p1 None by (simp add: is_prime_def dr)
    then have "\<forall>a \<in> {2, 7, 61}. a ^ nat (p - 1) mod p = 1"
      using base_passes_fermat[OF p1 *(2,1,3)] by simp
    then show ?thesis using p1 none by (simp add: probable_prime_def)
  qed
qed

lemma probable_prime_small:
  assumes "probable_prime p" and "p < 41 * 41"
  shows "prime_int p"
  unfolding prime_int_def
proof (intro conjI allI impI)
  show p1: "1 < p" using assms(1) by (simp add: probable_prime_def)
  fix d :: int assume d: "0 < d" "d dvd p"
  show "d = 1 \<or> d = p"
  proof (rule ccontr)
    assume no: "\<not> (d = 1 \<or> d = p)"
    obtain e where e: "p = d * e" using d(2) by (rule dvdE)
    have "e \<noteq> 1" using e no by auto
    have "0 < e" using p1 e d(1) zero_less_mult_pos[of d e] by linarith
    have "min d e \<in> set [2..40]"
    proof -
      have "min d e * min d e \<le> d * e" using d(1) \<open>0 < e\<close> by (intro mult_mono) auto
      then have "min d e * min d e < 41 * 41" using assms(2) e by simp
      then have "min d e < 41" using mult_mono[of 41 "min d e" 41 "min d e"] by linarith
      moreover have "2 \<le> min d e" using d(1) no \<open>0 < e\<close> \<open>e \<noteq> 1\<close> by (simp add: min_def)
      ultimately show ?thesis unfolding set_upto atLeastAtMost_iff by linarith
    qed
    moreover have "list_all (\<lambda>m. list_ex (\<lambda>q. q dvd m) small_primes) [2..40 :: int]" by code_simp
    ultimately obtain q where q: "q \<in> set small_primes" "q dvd min d e"
      by (auto simp only: list_all_iff list_ex_iff)
    have "min d e dvd p" using e by (simp add: min_def)
    with q assms(1) have "p = q" by (auto simp: probable_prime_def dest: dvd_trans)
    moreover have "q \<le> min d e" using q(2) d(1) \<open>0 < e\<close> by (intro zdvd_imp_le) simp_all
    ultimately have "p \<le> min d e" by simp
    then have "p \<le> d" by simp
    moreover have "d \<le> p" using d p1 by (intro zdvd_imp_le) simp_all
    ultimately show False using no by simp
  qed
qed

section \<open>The layout exists and its buckets are disjoint\<close>

text \<open>The numbers drawn are accepted, new, above the start, and leave no accepted number out.\<close>

definition drawn_from :: "int \<Rightarrow> int list \<Rightarrow> int list \<Rightarrow> bool" where
  "drawn_from start seen sizes \<longleftrightarrow> distinct sizes \<and> set sizes \<inter> set seen = {} \<and>
     (\<forall>p \<in> set sizes. start < p \<and> is_prime p \<and>
        (\<forall>m. start < m \<and> m < p \<and> is_prime m \<longrightarrow> m \<in> set seen \<union> set sizes))"

lemma drawn_from_Nil [simp]: "drawn_from start seen []"
  by (simp add: drawn_from_def)

lemma drawn_from_append:
  assumes "drawn_from start seen xs" and "drawn_from start seen1 ys" and "set seen1 = set xs \<union> set seen"
  shows "drawn_from start seen (xs @ ys)"
  using assms unfolding drawn_from_def by (auto simp: disjoint_iff)

lemma draw_heads_ok:
  "\<exists>sizes seen'. draw_heads n current seen = Some (sizes, seen') \<and> length sizes = n \<and>
     set seen' = set sizes \<union> set seen \<and> drawn_from current seen sizes"
proof (induction n arbitrary: current seen)
  case (Suc n)
  obtain p where p: "find_next_prime current seen = Some p" "current < p" "is_prime p" "p \<notin> set seen"
    "\<forall>m. current < m \<and> m < p \<longrightarrow> \<not> is_prime m \<or> m \<in> set seen"
    using find_next_prime_returns by blast
  obtain sizes seen' where s: "draw_heads n p (p # seen) = Some (sizes, seen')" "length sizes = n"
    "set seen' = set sizes \<union> set (p # seen)" "drawn_from p (p # seen) sizes" using Suc.IH by blast
  have "drawn_from current seen (p # sizes)"
    unfolding drawn_from_def
  proof (intro conjI ballI allI impI)
    show "distinct (p # sizes)" "set (p # sizes) \<inter> set seen = {}"
      using s(4) p(4) by (auto simp: drawn_from_def)
  next
    fix q assume q: "q \<in> set (p # sizes)"
    show "current < q" "is_prime q" using q p(2,3) s(4) by (auto simp: drawn_from_def)
    fix m assume m: "current < m \<and> m < q \<and> is_prime m"
    consider "m < p" | "m = p" | "p < m" by linarith
    then show "m \<in> set seen \<union> set (p # sizes)"
    proof cases
      case 1 then show ?thesis using p(5) m by blast
    next
      case 3 then show ?thesis using q m s(4) by (auto simp: drawn_from_def)
    qed simp
  qed
  with s(1-3) p(1) show ?case by simp
qed simp

lemma draw_orders_ok:
  "\<exists>orders seen'. draw_orders n heads start seen = Some (orders, seen') \<and> length orders = n \<and>
     list_all (\<lambda>sizes. length sizes = heads) orders \<and>
     set seen' = set (concat orders) \<union> set seen \<and> drawn_from start seen (concat orders)"
proof (induction n arbitrary: seen)
  case (Suc n)
  obtain sizes seen1 where s: "draw_heads heads start seen = Some (sizes, seen1)" "length sizes = heads"
    "set seen1 = set sizes \<union> set seen" "drawn_from start seen sizes" using draw_heads_ok by blast
  obtain orders seen2 where o: "draw_orders n heads start seen1 = Some (orders, seen2)" "length orders = n"
    "list_all (\<lambda>sizes. length sizes = heads) orders"
    "set seen2 = set (concat orders) \<union> set seen1" "drawn_from start seen1 (concat orders)"
    using Suc.IH[of seen1] by blast
  have "drawn_from start seen (concat (sizes # orders))"
    using drawn_from_append[OF s(4) o(5) s(3)] by simp
  with s(1-3) o(1-4) show ?case by (intro exI[of _ "sizes # orders"] exI[of _ seen2]) auto
qed simp

definition layer_sizes :: "int list list list \<Rightarrow> int list list" where
  "layer_sizes ps = map concat ps"

lemma draw_layers_ok:
  "\<exists>ps seen'. draw_layers n orders heads start seen = Some (ps, seen') \<and> length ps = n \<and>
     list_all (\<lambda>per_ngram. length per_ngram = orders \<and> list_all (\<lambda>sizes. length sizes = heads) per_ngram) ps \<and>
     drawn_from start seen (concat (layer_sizes ps))"
proof (induction n arbitrary: seen)
  case 0 show ?case by (simp add: layer_sizes_def)
next
  case (Suc n)
  obtain per seen1 where s: "draw_orders orders heads start seen = Some (per, seen1)" "length per = orders"
    "list_all (\<lambda>sizes. length sizes = heads) per"
    "set seen1 = set (concat per) \<union> set seen" "drawn_from start seen (concat per)" using draw_orders_ok by blast
  obtain ps seen2 where o: "draw_layers n orders heads start seen1 = Some (ps, seen2)" "length ps = n"
    "list_all (\<lambda>per_ngram. length per_ngram = orders \<and> list_all (\<lambda>sizes. length sizes = heads) per_ngram) ps"
    "drawn_from start seen1 (concat (layer_sizes ps))"
    using Suc.IH[of seen1] by blast
  have "drawn_from start seen (concat (layer_sizes (per # ps)))"
    using drawn_from_append[OF s(5) o(4) s(4)] by (simp add: layer_sizes_def)
  with s(1-3) o(1-3) show ?case by (intro exI[of _ "per # ps"] exI[of _ seen2]) simp
qed

lemma cumsum_nth: "c < length xs \<Longrightarrow> cumsum acc xs ! c = acc + sum_list (take (Suc c) xs)"
  by (induction xs arbitrary: acc c) (auto simp: nth_Cons split: nat.split)

lemma length_cumsum [simp]: "length (cumsum acc xs) = length xs"
  by (induction xs arbitrary: acc) auto

text \<open>Every row number below the total size lies in the bucket range of exactly one column.\<close>

definition tiled :: "int list \<Rightarrow> int list \<Rightarrow> bool" where
  "tiled sizes offs \<longleftrightarrow> length offs = length sizes \<and>
     (\<forall>c < length sizes. 0 \<le> offs ! c \<and> offs ! c + sizes ! c \<le> sum_list sizes) \<and>
     (\<forall>row. 0 \<le> row \<and> row < sum_list sizes \<longrightarrow>
        (\<exists>!c. c < length sizes \<and> offs ! c \<le> row \<and> row < offs ! c + sizes ! c))"

lemma take_sum_mono:
  assumes "\<forall>x \<in> set xs. 0 < (x :: int)" and "a \<le> b"
  shows "sum_list (take a xs) \<le> sum_list (take b xs)"
proof -
  have "take b xs = take a xs @ take (b - a) (drop a xs)" using assms(2) by (metis le_add_diff_inverse take_add)
  moreover have "0 \<le> sum_list (take (b - a) (drop a xs))"
    by (intro sum_list_nonneg) (use assms(1) in \<open>auto dest!: in_set_takeD in_set_dropD less_imp_le\<close>)
  ultimately show ?thesis by simp
qed

lemma prefix_sums_tile:
  assumes pos: "\<forall>x \<in> set sizes. 0 < x" and len: "length offs = length sizes"
    and off: "\<And>c. c < length sizes \<Longrightarrow> offs ! c = sum_list (take c sizes)"
  shows "tiled sizes offs"
proof -
  have next_off: "offs ! c + sizes ! c = sum_list (take (Suc c) sizes)" if "c < length sizes" for c
    using off[OF that] that by (simp add: take_Suc_conv_app_nth)
  have total: "sum_list (take c sizes) \<le> sum_list sizes" for c
    using take_sum_mono[OF pos, of c "max c (length sizes)"] by simp
  have one: "\<exists>!c. c < length sizes \<and> offs ! c \<le> row \<and> row < offs ! c + sizes ! c"
    if row: "0 \<le> row" "row < sum_list sizes" for row
  proof -
    define k where "k = (LEAST k. row < sum_list (take k sizes))"
    have k: "row < sum_list (take k sizes)" unfolding k_def by (rule LeastI[of _ "length sizes"]) (simp add: row)
    have least: "\<not> row < sum_list (take j sizes)" if "j < k" for j using that not_less_Least k_def by blast
    have "k \<noteq> 0" using k row by (cases k) auto
    then obtain c where c: "k = Suc c" by (cases k) auto
    have "c < length sizes"
    proof (rule ccontr)
      assume "\<not> c < length sizes"
      then have "row < sum_list (take c sizes)" using row by simp
      then show False using least[of c] c by simp
    qed
    moreover have "offs ! c \<le> row" using least[of c] c off[OF calculation] by simp
    moreover have "row < offs ! c + sizes ! c" using next_off[OF calculation(1)] k c by simp
    moreover have "c' = c" if c': "c' < length sizes" "offs ! c' \<le> row" "row < offs ! c' + sizes ! c'" for c'
    proof (rule ccontr)
      assume "c' \<noteq> c"
      then consider "Suc c' \<le> c" | "Suc c \<le> c'" by linarith
      then show False
      proof cases
        case 1 then show False
          using take_sum_mono[OF pos 1] next_off[OF c'(1)] c'(3) off[OF \<open>c < length sizes\<close>] \<open>offs ! c \<le> row\<close> by simp
      next
        case 2 then show False
          using take_sum_mono[OF pos 2] next_off[OF \<open>c < length sizes\<close>] c'(2) off[OF c'(1)]
            \<open>row < offs ! c + sizes ! c\<close> by simp
      qed
    qed
    ultimately show ?thesis by blast
  qed
  have "0 \<le> offs ! c \<and> offs ! c + sizes ! c \<le> sum_list sizes" if "c < length sizes" for c
    using take_sum_mono[OF pos, of 0 c] off[OF that] next_off[OF that] total[of "Suc c"] by simp
  then show ?thesis using one len by (simp add: tiled_def)
qed

lemma bucket_offsets_tile:
  assumes "\<forall>x \<in> set (concat per_ngram). 0 < x" and "concat per_ngram \<noteq> []"
  shows "tiled (concat per_ngram) (bucket_offsets per_ngram)"
proof (rule prefix_sums_tile[OF assms(1)])
  let ?s = "concat per_ngram"
  show "length (bucket_offsets per_ngram) = length ?s"
    using assms(2) by (cases ?s rule: rev_cases) (simp_all add: bucket_offsets_def)
  fix c assume c: "c < length ?s"
  have "take (Suc c) (0 # butlast ?s) = 0 # take c ?s"
    using c by (simp add: take_butlast)
  then show "bucket_offsets per_ngram ! c = sum_list (take c ?s)"
    using c cumsum_nth[of c "0 # butlast ?s" 0]
    by (simp add: bucket_offsets_def del: take_Suc_Cons cumsum.simps)
qed

text \<open>
  C14. For a configuration with one table size per layer, n-grams of two tokens at least, at least
  one head and a positive table size per head, the constructor returns a layout with one bucket range
  per layer, n-gram size and head; in every layer the ranges tile the rows from zero on. No size
  is used twice; every size is at least \<open>engram_vocab_size\<close> and passes as a prime: it has no prime
  divisor up to 37 but itself, beyond these primes it meets Fermat's condition for 2, 7 and 61, and
  below 1681 it is a prime. No prime from \<open>engram_vocab_size\<close> on is left out below a used
  size, except 61, which the test rejects.
\<close>

theorem layout_buckets_disjoint:
  assumes "length (engram_layer_ids config) = length (engram_num_embeddings config)"
    and "1 < engram_max_ngram_size config" and "0 < engram_n_heads config" and "0 < engram_vocab_size config"
  shows "\<exists>l. engram_layout config = Some (Inr l) \<and> length (primes l) = length (layer_ids l) \<and>
    list_all (\<lambda>per_ngram. int (length (concat per_ngram)) = n_hash_cols l) (primes l) \<and>
    distinct (concat (map concat (primes l))) \<and>
    list_all2 (\<lambda>per_ngram offs. tiled (concat per_ngram) offs) (primes l) (offsets l) \<and>
    (\<forall>p \<in> set (concat (map concat (primes l))). engram_vocab_size config \<le> p \<and> probable_prime p \<and>
      (p < 1681 \<longrightarrow> prime_int p) \<and>
      (\<forall>q. engram_vocab_size config \<le> q \<and> q < p \<and> prime_int q \<and> q \<noteq> 61 \<longrightarrow>
        q \<in> set (concat (map concat (primes l)))))"
proof -
  let ?orders = "nat (engram_max_ngram_size config - 1)" and ?heads = "nat (engram_n_heads config)"
  obtain ps seen where draw: "draw_layers (length (engram_layer_ids config)) ?orders ?heads
      (engram_vocab_size config - 1) [] = Some (ps, seen)"
    and len: "length ps = length (engram_layer_ids config)"
    and shape: "list_all (\<lambda>per_ngram. length per_ngram = ?orders \<and>
      list_all (\<lambda>sizes. length sizes = ?heads) per_ngram) ps"
    and drawn: "drawn_from (engram_vocab_size config - 1) [] (concat (layer_sizes ps))"
    using draw_layers_ok by blast
  have big: "\<forall>p \<in> set (concat (layer_sizes ps)). engram_vocab_size config - 1 < p \<and> is_prime p"
    and dist: "distinct (concat (layer_sizes ps))" using drawn by (simp_all add: drawn_from_def)
  have sizes: "\<forall>p \<in> set (concat (layer_sizes ps)). engram_vocab_size config \<le> p \<and> probable_prime p \<and>
      (p < 1681 \<longrightarrow> prime_int p) \<and>
      (\<forall>q. engram_vocab_size config \<le> q \<and> q < p \<and> prime_int q \<and> q \<noteq> 61 \<longrightarrow>
        q \<in> set (concat (layer_sizes ps)))"
  proof (intro ballI conjI allI impI)
    fix p assume p: "p \<in> set (concat (layer_sizes ps))"
    from bspec[OF big p] show "engram_vocab_size config \<le> p" and "probable_prime p"
      by (linarith, simp add: is_prime_probable)
    then show "prime_int p" if "p < 1681" using that by (intro probable_prime_small) simp_all
    fix q assume q: "engram_vocab_size config \<le> q \<and> q < p \<and> prime_int q \<and> q \<noteq> 61"
    then have "engram_vocab_size config - 1 < q \<and> q < p \<and> is_prime q" by (simp add: prime_is_prime)
    moreover have "\<forall>m. engram_vocab_size config - 1 < m \<and> m < p \<and> is_prime m \<longrightarrow>
        m \<in> set [] \<union> set (concat (layer_sizes ps))"
      using drawn p unfolding drawn_from_def by blast
    ultimately show "q \<in> set (concat (layer_sizes ps))" by simp
  qed
  have cols: "length (concat per) = ?orders * ?heads" if "per \<in> set ps" for per
  proof -
    have "length (concat xss) = length xss * ?heads" if "list_all (\<lambda>sizes. length sizes = ?heads) xss"
      for xss :: "int list list" using that by (induction xss) auto
    then show ?thesis using shape that by (auto simp: list_all_iff)
  qed
  have "tiled (concat per) (bucket_offsets per)" if "per \<in> set ps" for per
  proof (rule bucket_offsets_tile)
    show "\<forall>x \<in> set (concat per). 0 < x" using big that assms(4) by (fastforce simp: layer_sizes_def)
    have "0 < ?orders * ?heads" using assms(2,3) by simp
    then show "concat per \<noteq> []" using cols[OF that] by (metis less_irrefl list.size(3))
  qed
  then have "list_all2 (\<lambda>per offs. tiled (concat per) offs) ps (map bucket_offsets ps)"
    by (simp add: list_all2_map2 list_all2_same)
  moreover have "list_all (\<lambda>per. int (length (concat per)) =
      (engram_max_ngram_size config - 1) * engram_n_heads config) ps"
    using cols assms(2,3) by (simp add: list_all_iff)
  moreover obtain l where run: "engram_layout config = Some (Inr l)"
    and l: "primes l = ps" "layer_ids l = engram_layer_ids config" "offsets l = map bucket_offsets ps"
      "n_hash_cols l = (engram_max_ngram_size config - 1) * engram_n_heads config"
    using assms(1) draw by (simp add: engram_layout_def)
  ultimately show ?thesis
    using run len dist sizes unfolding layer_sizes_def by (intro exI[of _ l] conjI) (simp_all only: l)
qed

definition demo_engram :: engram_config where
  "demo_engram = \<lparr>engram_layer_ids = [1, 4], engram_num_embeddings = [100, 120], engram_max_ngram_size = 3,
     engram_n_heads = 2, engram_head_dim = 4, engram_compressed_vocab_size = 10, engram_pad_token_id = 0,
     engram_vocab_size = 8\<rparr>"

lemma layout_buckets_disjoint_witness:
  "\<exists>l. engram_layout demo_engram = Some (Inr l) \<and> distinct (concat (map concat (primes l))) \<and>
     list_all probable_prime (concat (map concat (primes l)))"
  using layout_buckets_disjoint[of demo_engram] by (auto simp: demo_engram_def list_all_iff)

section \<open>The token map\<close>

lemma compress_loop_ok:
  assumes "compress_loop key ids d lookup = (lookup', d')"
    and "dict_ok d" and "map snd d = map int [0..<length d]"
    and "distinct ids" and "\<forall>t \<in> set ids. 0 \<le> t \<and> nat t < length lookup"
  shows "\<exists>ext. d' = d @ ext \<and> dict_ok d' \<and> map snd d' = map int [0..<length d'] \<and>
    fst ` set d' = fst ` set d \<union> key ` set ids \<and> length lookup' = length lookup \<and>
    (\<forall>t \<in> set ids. map_of d' (key t) = Some (lookup' ! nat t)) \<and>
    (\<forall>i. int i \<notin> set ids \<longrightarrow> lookup' ! i = lookup ! i)"
  using assms
proof (induction ids arbitrary: d lookup)
  case (Cons t ids)
  show ?case
  proof (cases "map_of d (key t)")
    case (Some v)
    then have run: "compress_loop key ids d (lookup[nat t := v]) = (lookup', d')" using Cons.prems(1) by simp
    have "\<forall>u \<in> set ids. 0 \<le> u \<and> nat u < length (lookup[nat t := v])" using Cons.prems(5) by simp
    from Cons.IH[OF run Cons.prems(2,3) _ this] Cons.prems(4) obtain ext where
      ext: "d' = d @ ext" "dict_ok d'" "map snd d' = map int [0..<length d']"
        "fst ` set d' = fst ` set d \<union> key ` set ids" "length lookup' = length lookup"
        "\<forall>u \<in> set ids. map_of d' (key u) = Some (lookup' ! nat u)"
        "\<forall>i. int i \<notin> set ids \<longrightarrow> lookup' ! i = lookup[nat t := v] ! i" by auto
    have t: "0 \<le> t" "nat t < length lookup" "t \<notin> set ids" using Cons.prems(4,5) by auto
    then have "lookup' ! nat t = v" using ext(7) by simp
    moreover have "map_of d' (key t) = Some v" using Some ext(1) by (simp add: map_add_def)
    moreover have "key t \<in> fst ` set d" using Some by (force dest: map_of_SomeD)
    moreover have "lookup' ! i = lookup ! i" if "int i \<notin> set (t # ids)" for i
      using ext(7) that t(1) by (auto simp: nth_list_update)
    ultimately show ?thesis using ext by (intro exI[of _ ext]) auto
  next
    case None
    let ?v = "int (length d)"
    have fresh: "key t \<notin> fst ` set d" using None by (simp add: map_of_eq_None_iff)
    have "dict_set k v d = d @ [(k, v)]" if "k \<notin> fst ` set d" for k :: 'a and v
      using that by (induction d) auto
    from this[OF fresh] have set: "dict_set (key t) ?v d = d @ [(key t, ?v)]" .
    have run: "compress_loop key ids (d @ [(key t, ?v)]) (lookup[nat t := ?v]) = (lookup', d')"
      using Cons.prems(1) None set by (simp add: Let_def)
    have ok: "dict_ok (d @ [(key t, ?v)])" using Cons.prems(2) fresh by (simp add: dict_ok_def)
    have "\<forall>u \<in> set ids. 0 \<le> u \<and> nat u < length (lookup[nat t := ?v])" using Cons.prems(5) by simp
    from Cons.IH[OF run ok _ _ this] Cons.prems(3,4) obtain ext where
      ext: "d' = (d @ [(key t, ?v)]) @ ext" "dict_ok d'" "map snd d' = map int [0..<length d']"
        "fst ` set d' = fst ` set (d @ [(key t, ?v)]) \<union> key ` set ids" "length lookup' = length lookup"
        "\<forall>u \<in> set ids. map_of d' (key u) = Some (lookup' ! nat u)"
        "\<forall>i. int i \<notin> set ids \<longrightarrow> lookup' ! i = lookup[nat t := ?v] ! i" by auto
    have t: "0 \<le> t" "nat t < length lookup" "t \<notin> set ids" using Cons.prems(4,5) by auto
    then have "lookup' ! nat t = ?v" using ext(7) by simp
    moreover have "map_of d' (key t) = Some ?v"
      using dict_get_member[OF ext(2), of "key t" ?v] ext(1) by (simp add: dict_get_Inr_iff)
    moreover have "lookup' ! i = lookup ! i" if "int i \<notin> set (t # ids)" for i
      using ext(7) that t(1) by (auto simp: nth_list_update)
    ultimately show ?thesis using ext by (intro exI[of _ "(key t, ?v) # ext"]) auto
  qed
qed simp

text \<open>
  The token map gives tokens the same compressed id exactly when they have the same key, and the
  compressed ids are the numbers below the compressed size.
\<close>

lemma token_map_collapses_keys:
  "\<exists>lookup count f. build_compressed_token_map decode id_to_token normalize_str replacement vocab = (lookup, count) \<and>
     lookup = map (\<lambda>i. f (token_key decode id_to_token normalize_str replacement (int i))) [0..<vocab] \<and>
     bij_betw f (token_key decode id_to_token normalize_str replacement ` int ` {..<vocab}) {0..<count}"
proof -
  let ?key = "token_key decode id_to_token normalize_str replacement"
  obtain lookup d where run: "compress_loop ?key (map int [0..<vocab]) [] (replicate vocab 0) = (lookup, d)"
    by (metis surj_pair)
  from compress_loop_ok[OF run] have ok: "dict_ok d" "map snd d = map int [0..<length d]"
    "fst ` set d = ?key ` int ` {..<vocab}" "length lookup = vocab"
    "\<forall>i < vocab. map_of d (?key (int i)) = Some (lookup ! i)"
    by (auto simp: dict_ok_def distinct_map atLeast0LessThan)
  define f where "f k = the (map_of d k)" for k
  have "lookup = map (\<lambda>i. f (?key (int i))) [0..<vocab]"
    by (rule nth_equalityI) (use ok(4,5) in \<open>auto simp: f_def\<close>)
  moreover have "bij_betw f (?key ` int ` {..<vocab}) {0..<int (length d)}"
  proof -
    have "map f (map fst d) = map snd d"
      using ok(1) by (auto simp: f_def dict_ok_def)
    then have "f ` set (map fst d) = set (map snd d)" "distinct (map f (map fst d))"
      using ok(2) by (metis list.set_map, simp add: distinct_map)
    moreover have "set (map snd d) = {0..<int (length d)}"
      unfolding ok(2) by (auto simp: image_int_atLeastLessThan atLeast0LessThan[symmetric])
    ultimately show ?thesis
      using ok(3) inj_on_imageI[of f fst "set d"] by (simp add: bij_betw_def distinct_map)
  qed
  moreover have "build_compressed_token_map decode id_to_token normalize_str replacement vocab = (lookup, int (length d))"
    by (simp add: build_compressed_token_map_def run)
  ultimately show ?thesis by blast
qed

section \<open>Multipliers do not overflow\<close>

text \<open>What the code relies on of the generator.\<close>

definition generator_law :: "(int \<Rightarrow> int \<Rightarrow> nat \<Rightarrow> int list) \<Rightarrow> bool" where
  "generator_law integers \<longleftrightarrow> (\<forall>seed bound n. 0 < bound \<longrightarrow> length (integers seed bound n) = n \<and>
     (\<forall>v \<in> set (integers seed bound n). 0 \<le> v \<and> v < bound))"

lemma multiplier_bound:
  assumes "0 < V" and "V \<le> max_long" and "0 \<le> v" and "v < max 1 (max_long div V div 2)" and "0 \<le> t" and "t < V"
  shows "0 \<le> t * (v * 2 + 1) \<and> t * (v * 2 + 1) \<le> max_long"
proof -
  have "1 \<le> max_long div V" using assms(1,2) by (simp add: le_div_iff_int)
  then have "v * 2 + 1 \<le> max_long div V" using assms(3,4) by (auto simp: max_def split: if_split_asm)
  then have "t * (v * 2 + 1) \<le> V * (max_long div V)" using assms by (intro mult_mono) auto
  also have "\<dots> \<le> max_long" using assms(1) by (simp add: minus_mod_eq_mult_div[symmetric])
  finally show ?thesis using assms by simp
qed

text \<open>
  Every multiplier is odd, there is one per layer and lookback, and the product of a compressed id
  and a multiplier does not overflow a signed 64-bit word.
\<close>

lemma multipliers_do_not_overflow:
  assumes "generator_law integers" and "0 < V" and "V \<le> max_long" and "ids \<noteq> []"
  shows "\<exists>rows. compute_hash_multipliers integers ids n V = Inr rows \<and>
    length rows = length ids \<and> (\<forall>row \<in> set rows. length row = n \<and> (\<forall>m \<in> set row. odd m \<and>
      (\<forall>t. 0 \<le> t \<and> t < V \<longrightarrow> sint (word_of_int t * word_of_int m :: 64 word) = t * m)))"
proof -
  define b where "b = max 1 (max_long div V div 2)"
  have sint: "sint (word_of_int t * word_of_int (v * 2 + 1) :: 64 word) = t * (v * 2 + 1)"
    if "0 \<le> v" "v < b" "0 \<le> t" "t < V" for t v
  proof -
    from multiplier_bound[OF assms(2,3) that(1) that(2)[unfolded b_def] that(3,4)]
    have "0 \<le> t * (v * 2 + 1)" "t * (v * 2 + 1) < 2 ^ 63" by (simp_all add: max_long_def)
    then show ?thesis
      by (simp only: wi_hom_mult signed_of_int) (simp add: signed_take_bit_int_eq_self)
  qed
  have "0 < b" by (simp add: b_def)
  then have draw: "length (integers s b n) = n" "v \<in> set (integers s b n) \<Longrightarrow> 0 \<le> v \<and> v < b" for s v
    using assms(1) by (auto simp: generator_law_def)
  let ?rows = "map (\<lambda>layer_id. map (\<lambda>v. v * 2 + 1) (integers (10007 * layer_id) b n)) ids"
  have "compute_hash_multipliers integers ids n V = Inr ?rows"
    using assms(2,4) by (simp add: compute_hash_multipliers_def py_div_def b_def[symmetric])
  moreover have "length row = n \<and> (\<forall>m \<in> set row. odd m \<and>
      (\<forall>t. 0 \<le> t \<and> t < V \<longrightarrow> sint (word_of_int t * word_of_int m :: 64 word) = t * m))"
    if row: "row \<in> set ?rows" for row
  proof -
    from row obtain s where "row = map (\<lambda>v. v * 2 + 1) (integers s b n)" by auto
    moreover have "odd m \<and> (\<forall>t. 0 \<le> t \<and> t < V \<longrightarrow> sint (word_of_int t * word_of_int m :: 64 word) = t * m)"
      if "m \<in> (\<lambda>v. v * 2 + 1) ` set (integers s b n)" for m
    proof -
      from that obtain v where v: "v \<in> set (integers s b n)" "m = v * 2 + 1" by blast
      show ?thesis using sint[of v] draw(2)[OF v(1)] unfolding v(2) by simp
    qed
    ultimately show ?thesis using draw(1) by simp
  qed
  ultimately show ?thesis by (intro exI[of _ ?rows]) simp
qed

lemma multipliers_do_not_overflow_witness:
  "\<exists>rows. compute_hash_multipliers (\<lambda>seed bound n. replicate n (seed mod bound)) [1, 4] 3 1000 = Inr rows \<and>
     length rows = 2"
proof -
  have "generator_law (\<lambda>seed bound n. replicate n (seed mod bound))" by (auto simp: generator_law_def)
  from multipliers_do_not_overflow[OF this, of 1000 "[1, 4]" 3] show ?thesis by (auto simp: max_long_def)
qed

end
