(* ===== verification/Engram_Hash.thy ===== *)
theory Engram_Hash
  imports Engram_Layout
begin

unbundle bit_operations_syntax

text \<open>
  The n-gram hash of every position (\<^verbatim>\<open>engram.py\<close>): the kernel that writes the slot cache, the hash
  kernel with its search for a token's request, its three sources of earlier tokens and its 64-bit
  rolling hash, and \<open>NgramHashState\<close>. The kernels run one program per block of lanes; a lane's result
  does not depend on the other lanes, so the model is the program of one lane. Index arithmetic is on
  unbounded integers, the rolling hash on 64-bit words, and results are stored as 32-bit integers.
  The main results: hashes do not depend on how a request is cut into chunks, and every stored id
  lies in the bucket range of its column.
\<close>

definition DEAD_ID :: int where "DEAD_ID = -1"

text \<open>A masked load; outside the mask nothing is read.\<close>

definition tl_load :: "'a list \<Rightarrow> int \<Rightarrow> bool \<Rightarrow> 'a \<Rightarrow> 'a" where
  "tl_load xs i active other = (if active then xs ! nat i else other)"

text \<open>The compressed id of a token, or \<open>DEAD_ID\<close>.\<close>

definition token_source :: "int list \<Rightarrow> int \<Rightarrow> bool \<Rightarrow> int" where
  "token_source token_map token dead = (if dead then DEAD_ID else token_map ! nat token)"

section \<open>The slot cache\<close>

text \<open>The stores of the tokens that have a slot; of two stores to one slot the later one stays.\<close>

fun write_hash_cache :: "int list \<Rightarrow> (int \<times> bool \<times> int) list \<Rightarrow> int list \<Rightarrow> int list" where
  "write_hash_cache token_map [] cache = cache"
| "write_hash_cache token_map ((token, dead, slot) # ts) cache =
     write_hash_cache token_map ts
       (if slot \<ge> 0 then cache[nat slot := token_source token_map token dead] else cache)"

section \<open>The hash kernel\<close>

record hash_inputs =
  input_ids :: "int list"
  token_map :: "int list"
  dead_mask :: "bool list"
  positions :: "int list"
  block_table :: "int list list"
  query_start_loc :: "int list"
  multipliers :: "int list list"
  hash_primes :: "int list list list"
  hash_offsets :: "int list list"
  slot_cache :: "int list option"
  lookback_token_ids :: "int list list"
  lookback_dead_mask :: "bool list list"
  lookback_depth :: int
  pad_id :: int
  cache_block_size :: int
  max_ngram :: nat
  num_heads :: nat

text \<open>The binary search for the first request whose tokens end after the given one.\<close>

function request_search :: "int list \<Rightarrow> int \<Rightarrow> int \<Rightarrow> int \<Rightarrow> int" where
  "request_search qsl token lo hi =
     (if lo < hi then
        let mid = (lo + hi) div 2 in
        if token \<ge> qsl ! nat (mid + 1) then request_search qsl token (mid + 1) hi
        else request_search qsl token lo mid
      else lo)"
  by pat_completeness auto
termination by (relation "measure (\<lambda>(qsl, token, lo, hi). nat (hi - lo))") auto

declare request_search.simps [simp del]

definition num_query_rows :: "hash_inputs \<Rightarrow> int" where
  "num_query_rows inp = int (length (query_start_loc inp)) - 1"

definition request_of :: "hash_inputs \<Rightarrow> int \<Rightarrow> int" where
  "request_of inp token =
     min (request_search (query_start_loc inp) token 0 (num_query_rows inp)) (num_query_rows inp - 1)"

definition chunk_start_of :: "hash_inputs \<Rightarrow> int \<Rightarrow> int" where
  "chunk_start_of inp req =
     (let chunk_idx = min (query_start_loc inp ! nat req) (int (length (input_ids inp)) - 1)
      in positions inp ! nat chunk_idx)"

text \<open>The value in the cache slot of a position, through the request's row of the block table.\<close>

definition cached_source :: "hash_inputs \<Rightarrow> int list \<Rightarrow> int \<Rightarrow> int \<Rightarrow> int" where
  "cached_source inp cache req lookback =
     (let max_blocks = (case block_table inp of [] \<Rightarrow> 0 | row # _ \<Rightarrow> int (length row));
          num_table_rows = int (length (block_table inp));
          size = cache_block_size inp;
          clamped = min (max lookback 0) (max_blocks * size - 1);
          block_row = min req (num_table_rows - 1);
          block = block_table inp ! nat block_row ! nat (clamped div size);
          slot = min (max (block * size + clamped mod size) 0) (int (length cache) - 1)
      in cache ! nat slot)"

text \<open>The compressed id at a lookback: from the batch, else from the window, else the fallback.\<close>

definition lookback_source :: "hash_inputs \<Rightarrow> int \<Rightarrow> int \<Rightarrow> int \<Rightarrow> int \<Rightarrow> nat \<Rightarrow> int" where
  "lookback_source inp req chunk_start position token shift =
     (let lookback = position - int shift;
          in_batch = lookback \<ge> chunk_start;
          batch_idx = max (token - int shift) 0;
          batch_token = tl_load (input_ids inp) batch_idx in_batch 0;
          batch_dead = tl_load (dead_mask inp) batch_idx in_batch False;
          batch_source = (if batch_dead then DEAD_ID else tl_load (token_map inp) batch_token in_batch 0);
          col = chunk_start - 1 - lookback;
          in_window = \<not> in_batch \<and> col \<ge> 0 \<and> col < lookback_depth inp;
          col = min (max col 0) (lookback_depth inp - 1);
          window_token = (if in_window then lookback_token_ids inp ! nat req ! nat col else -1);
          known = in_window \<and> window_token \<ge> 0;
          window_dead = (known \<and> lookback_dead_mask inp ! nat req ! nat col);
          window_source = (if window_dead then DEAD_ID else tl_load (token_map inp) window_token known 0);
          fallback = (case slot_cache inp of
              Some cache \<Rightarrow> if \<not> in_batch \<and> \<not> known then cached_source inp cache req lookback else 0
            | None \<Rightarrow> pad_id inp)
      in if in_batch then batch_source else if known then window_source else fallback)"

text \<open>The rolling hash after each shift; once blocked, the pad id stands for every earlier token.\<close>

fun rolling_hashes :: "(nat \<Rightarrow> int) \<Rightarrow> int \<Rightarrow> int \<Rightarrow> int list \<Rightarrow> nat \<Rightarrow> nat \<Rightarrow> bool \<Rightarrow> 64 word \<Rightarrow> 64 word list" where
  "rolling_hashes source position pad mults shift 0 blocked rolling = []"
| "rolling_hashes source position pad mults shift (Suc n) blocked rolling =
     (let blocked = (blocked \<or> position - int shift < 0 \<or> source shift = DEAD_ID);
          value = (if blocked then pad else source shift);
          rolling = rolling XOR (word_of_int value * word_of_int (mults ! shift))
      in rolling # rolling_hashes source position pad mults (Suc shift) n blocked rolling)"

text \<open>The remainder of signed words takes the sign of the dividend.\<close>

definition srem :: "int \<Rightarrow> int \<Rightarrow> int" where
  "srem a b = sgn a * (\<bar>a\<bar> mod \<bar>b\<bar>)"

definition store_int32 :: "int \<Rightarrow> int" where
  "store_int32 x = sint (word_of_int x :: 32 word)"

definition bucket_ids :: "hash_inputs \<Rightarrow> nat \<Rightarrow> 64 word list \<Rightarrow> int list" where
  "bucket_ids inp layer rollings =
     concat (map (\<lambda>shift. map (\<lambda>head.
         let col = (shift - 1) * num_heads inp + head;
             prime = concat (hash_primes inp ! layer) ! col;
             offset = hash_offsets inp ! layer ! col
         in store_int32 (srem (sint (rollings ! shift)) prime + offset))
       [0..<num_heads inp]) [1..<max_ngram inp])"

definition hash_row :: "hash_inputs \<Rightarrow> nat \<Rightarrow> nat \<Rightarrow> int list" where
  "hash_row inp layer token =
     (let req = request_of inp (int token);
          chunk_start = chunk_start_of inp req;
          position = positions inp ! token
      in bucket_ids inp layer
           (rolling_hashes (lookback_source inp req chunk_start position (int token)) position (pad_id inp)
             (multipliers inp ! layer) 0 (max_ngram inp) False 0))"

definition hash_ids :: "hash_inputs \<Rightarrow> int list list list" where
  "hash_ids inp =
     map (\<lambda>token. map (\<lambda>layer. hash_row inp layer token) [0..<length (multipliers inp)])
       [0..<length (input_ids inp)]"

section \<open>The hash state\<close>

text \<open>
  The state of the module. The bound sliding-window cache is an identity (what the weak reference
  compares), its number of elements and its first dimension.
\<close>

record bound_cache =
  cache_identity :: int
  cache_numel :: nat
  cache_blocks :: nat

record NgramHashState =
  state_token_map :: "int list"
  state_pad_id :: int
  state_multipliers :: "int list list"
  state_primes :: "int list list list"
  state_offsets :: "int list list"
  block_size :: nat
  use_slot_cache :: bool
  hash_cache :: "int list option"
  kv_cache_ref :: "int option"

definition ngram_hash_state ::
    "(int \<Rightarrow> int \<Rightarrow> nat \<Rightarrow> int list) \<Rightarrow> int list \<times> int \<Rightarrow> EngramLayout \<Rightarrow> nat \<Rightarrow> bool \<Rightarrow> NgramHashState res" where
  "ngram_hash_state integers built layout swa_block_size use_v2_model_runner =
     (let (tmap, vocab_size) = built in
      if vocab_size \<noteq> compressed_vocab_size layout then Inl ValueError
      else
        let k = (if pad_token_id layout < 0 then pad_token_id layout + int (length tmap) else pad_token_id layout) in
        rbind (if 0 \<le> k \<and> k < int (length tmap) then Inr (tmap ! nat k) else Inl IndexError) (\<lambda>pad.
        rbind (compute_hash_multipliers integers (layer_ids layout) (nat (max_ngram_size layout)) vocab_size) (\<lambda>ms.
          Inr \<lparr>state_token_map = tmap, state_pad_id = pad, state_multipliers = ms,
            state_primes = primes layout, state_offsets = offsets layout, block_size = swa_block_size,
            use_slot_cache = (\<not> use_v2_model_runner), hash_cache = None, kv_cache_ref = None\<rparr>)))"

definition ensure_cache :: "bound_cache \<Rightarrow> NgramHashState \<Rightarrow> NgramHashState \<times> bool" where
  "ensure_cache kv st =
     (if cache_numel kv = 0 then (st\<lparr>hash_cache := None, kv_cache_ref := None\<rparr>, False)
      else if \<not> use_slot_cache st then (st, True)
      else if kv_cache_ref st = Some (cache_identity kv) then (st, True)
      else (st\<lparr>hash_cache := Some (replicate (cache_blocks kv * block_size st) 0),
               kv_cache_ref := Some (cache_identity kv)\<rparr>, True))"

text \<open>One batch: token ids, positions, request boundaries, dead tokens, and the lookback window.\<close>

record hash_batch =
  batch_ids :: "int list"
  batch_positions :: "int list"
  batch_starts :: "int list"
  batch_dead :: "bool list"
  window_ids :: "int list list"
  window_dead :: "bool list list"
  window_depth :: int
  slot_mapping :: "int list option"
  batch_block_table :: "int list list option"

definition kernel_inputs :: "NgramHashState \<Rightarrow> hash_batch \<Rightarrow> int list option \<Rightarrow> hash_inputs" where
  "kernel_inputs st b cache =
     \<lparr>input_ids = batch_ids b, token_map = state_token_map st, dead_mask = batch_dead b,
      positions = batch_positions b,
      block_table = (case batch_block_table b of None \<Rightarrow> [] | Some t \<Rightarrow> t),
      query_start_loc = batch_starts b, multipliers = state_multipliers st,
      hash_primes = state_primes st, hash_offsets = state_offsets st, slot_cache = cache,
      lookback_token_ids = window_ids b, lookback_dead_mask = window_dead b,
      lookback_depth = window_depth b, pad_id = state_pad_id st,
      cache_block_size = int (block_size st),
      max_ngram = length (hd (state_multipliers st)), num_heads = length (hd (hd (state_primes st)))\<rparr>"

definition ngram_hash_forward :: "hash_batch \<Rightarrow> NgramHashState \<Rightarrow> (NgramHashState, int list list list) outcome" where
  "ngram_hash_forward b st =
     (if batch_ids b = [] then (Inr [], st)
      else if \<not> use_slot_cache st then (Inr (hash_ids (kernel_inputs st b None)), st)
      else case (hash_cache st, slot_mapping b, batch_block_table b) of
          (Some cache, Some slots, Some table) \<Rightarrow>
            let cache = write_hash_cache (state_token_map st)
                  (zip (batch_ids b) (zip (batch_dead b) slots)) cache
            in (Inr (hash_ids (kernel_inputs st b (Some cache))), st\<lparr>hash_cache := Some cache\<rparr>)
        | _ \<Rightarrow> (Inl AssertionError, st))"

section \<open>The hash of a position\<close>

text \<open>
  The reference: the n-gram hash at a position of a request is a function of the request's compressed
  ids alone.
\<close>

definition ngram_value :: "int list \<Rightarrow> int \<Rightarrow> nat \<Rightarrow> nat \<Rightarrow> int" where
  "ngram_value hist pad p s =
     (if list_ex (\<lambda>k. p < k \<or> hist ! (p - k) = DEAD_ID) [0..<Suc s] then pad else hist ! (p - s))"

fun ngram_hash :: "int list \<Rightarrow> int \<Rightarrow> int list \<Rightarrow> nat \<Rightarrow> nat \<Rightarrow> 64 word" where
  "ngram_hash hist pad mults p 0 = word_of_int (ngram_value hist pad p 0) * word_of_int (mults ! 0)"
| "ngram_hash hist pad mults p (Suc s) =
     ngram_hash hist pad mults p s XOR (word_of_int (ngram_value hist pad p (Suc s)) * word_of_int (mults ! Suc s))"

text \<open>
  A batch holds a chunk of request \<open>r\<close>: its compressed history is \<open>hist\<close>, the chunk starts at position
  \<open>start\<close>, and the lookback window holds the tokens just before it.
\<close>

definition window_source_at :: "hash_inputs \<Rightarrow> nat \<Rightarrow> nat \<Rightarrow> int" where
  "window_source_at inp r c =
     token_source (token_map inp) (lookback_token_ids inp ! r ! c) (lookback_dead_mask inp ! r ! c)"

definition request_chunk :: "hash_inputs \<Rightarrow> nat \<Rightarrow> int list \<Rightarrow> nat \<Rightarrow> bool" where
  "request_chunk inp r hist start \<longleftrightarrow>
     (let qsl = query_start_loc inp in
      r + 1 < length qsl \<and> sorted qsl \<and> 0 \<le> qsl ! r \<and> qsl ! (r + 1) \<le> int (length (input_ids inp)) \<and>
      int (max_ngram inp) \<le> lookback_depth inp + 1 \<and>
      (\<forall>k < length (input_ids inp). qsl ! r \<le> int k \<and> int k < qsl ! (r + 1) \<longrightarrow>
         positions inp ! k = int start + (int k - qsl ! r) \<and> start + (k - nat (qsl ! r)) < length hist \<and>
         token_source (token_map inp) (input_ids inp ! k) (dead_mask inp ! k) = hist ! (start + (k - nat (qsl ! r)))) \<and>
      (\<forall>c < start. int c < lookback_depth inp \<longrightarrow>
         0 \<le> lookback_token_ids inp ! r ! c \<and> window_source_at inp r c = hist ! (start - 1 - c)))"

lemma request_search_spec:
  assumes "0 \<le> lo" and "lo \<le> hi" and "hi < int (length qsl)"
    and "\<forall>j. 0 \<le> j \<and> j < lo \<longrightarrow> qsl ! nat (j + 1) \<le> token"
    and "\<forall>j. hi \<le> j \<and> j + 1 < int (length qsl) \<longrightarrow> token < qsl ! nat (j + 1)"
    and "sorted qsl"
  shows "\<exists>s. request_search qsl token lo hi = s \<and> lo \<le> s \<and> s \<le> hi \<and>
    (\<forall>j. 0 \<le> j \<and> j < s \<longrightarrow> qsl ! nat (j + 1) \<le> token) \<and>
    (\<forall>j. s \<le> j \<and> j + 1 < int (length qsl) \<longrightarrow> token < qsl ! nat (j + 1))"
  using assms
proof (induction qsl token lo hi rule: request_search.induct)
  case (1 qsl token lo hi)
  show ?case
  proof (cases "lo < hi")
    case False
    then have "request_search qsl token lo hi = lo" by (subst request_search.simps) simp
    then show ?thesis using False "1.prems" by (intro exI[of _ lo]) auto
  next
    case True
    define m where "m = (lo + hi) div 2"
    have m: "lo \<le> m" "m < hi" using True by (auto simp: m_def)
    show ?thesis
    proof (cases "qsl ! nat (m + 1) \<le> token")
      case le: True
      have "qsl ! nat (j + 1) \<le> token" if j: "0 \<le> j" "j < m + 1" for j
        using sorted_nth_mono[OF "1.prems"(6), of "nat (j + 1)" "nat (m + 1)"] le j m "1.prems"(3)
        by linarith
      then have "\<exists>s. request_search qsl token (m + 1) hi = s \<and> m + 1 \<le> s \<and> s \<le> hi \<and>
          (\<forall>j. 0 \<le> j \<and> j < s \<longrightarrow> qsl ! nat (j + 1) \<le> token) \<and>
          (\<forall>j. s \<le> j \<and> j + 1 < int (length qsl) \<longrightarrow> token < qsl ! nat (j + 1))"
        using "1.IH"(1)[OF True m_def] le m "1.prems" by simp
      moreover have "request_search qsl token lo hi = request_search qsl token (m + 1) hi"
        using True le by (subst request_search.simps) (simp add: m_def Let_def)
      ultimately show ?thesis using m by auto
    next
      case gt: False
      have "token < qsl ! nat (j + 1)" if j: "m \<le> j" "j + 1 < int (length qsl)" for j
        using sorted_nth_mono[OF "1.prems"(6), of "nat (m + 1)" "nat (j + 1)"] gt j m "1.prems"(1)
        by linarith
      then have "\<exists>s. request_search qsl token lo m = s \<and> lo \<le> s \<and> s \<le> m \<and>
          (\<forall>j. 0 \<le> j \<and> j < s \<longrightarrow> qsl ! nat (j + 1) \<le> token) \<and>
          (\<forall>j. s \<le> j \<and> j + 1 < int (length qsl) \<longrightarrow> token < qsl ! nat (j + 1))"
        using "1.IH"(2)[OF True m_def] gt m "1.prems" by simp
      moreover have "request_search qsl token lo hi = request_search qsl token lo m"
        using True gt by (subst request_search.simps) (simp add: m_def Let_def)
      ultimately show ?thesis using m by auto
    qed
  qed
qed

lemma request_of_chunk:
  assumes chunk: "request_chunk inp r hist start"
    and k: "query_start_loc inp ! r \<le> int k" "int k < query_start_loc inp ! (r + 1)"
  shows "request_of inp (int k) = int r"
proof -
  let ?q = "query_start_loc inp"
  have q: "r + 1 < length ?q" "sorted ?q" using chunk by (auto simp: request_chunk_def Let_def)
  obtain s where s: "request_search ?q (int k) 0 (num_query_rows inp) = s" "0 \<le> s" "s \<le> num_query_rows inp"
    "\<forall>j. 0 \<le> j \<and> j < s \<longrightarrow> ?q ! nat (j + 1) \<le> int k"
    "\<forall>j. s \<le> j \<and> j + 1 < int (length ?q) \<longrightarrow> int k < ?q ! nat (j + 1)"
  proof -
    have "0 \<le> num_query_rows inp" "num_query_rows inp < int (length ?q)" using q(1) by (auto simp: num_query_rows_def)
    from request_search_spec[of 0 "num_query_rows inp" ?q "int k"] this q(2) that show ?thesis
      by (auto simp: num_query_rows_def)
  qed
  have "s \<le> int r"
  proof (rule ccontr)
    assume "\<not> s \<le> int r"
    then have "?q ! nat (int r + 1) \<le> int k" using s(4) by simp
    then show False using k(2) by (simp add: nat_add_distrib)
  qed
  moreover have "int r \<le> s"
  proof (rule ccontr)
    assume "\<not> int r \<le> s"
    then have "int k < ?q ! nat (s + 1)" using s(2,5) q(1) by simp
    also have "\<dots> \<le> ?q ! r"
      using sorted_nth_mono[OF q(2), of "nat (s + 1)" r] \<open>\<not> int r \<le> s\<close> q(1) s(2) by linarith
    finally show False using k(1) by simp
  qed
  ultimately show ?thesis using q(1) s(1) by (simp add: request_of_def num_query_rows_def)
qed

lemma lookback_source_history:
  assumes chunk: "request_chunk inp r hist start"
    and k: "query_start_loc inp ! r \<le> int k" "int k < query_start_loc inp ! (r + 1)"
    and p: "p = start + (k - nat (query_start_loc inp ! r))" and s: "s \<le> p" "s < max_ngram inp"
  shows "lookback_source inp (int r) (int start) (int p) (int k) s = hist ! (p - s)"
proof -
  let ?q = "query_start_loc inp ! r"
  have q: "0 \<le> ?q" "query_start_loc inp ! (r + 1) \<le> int (length (input_ids inp))"
    and depth: "int (max_ngram inp) \<le> lookback_depth inp + 1"
    and batch: "\<And>j. j < length (input_ids inp) \<Longrightarrow> ?q \<le> int j \<Longrightarrow> int j < query_start_loc inp ! (r + 1) \<Longrightarrow>
      token_source (token_map inp) (input_ids inp ! j) (dead_mask inp ! j) = hist ! (start + (j - nat ?q))"
    and window: "\<And>c. c < start \<Longrightarrow> int c < lookback_depth inp \<Longrightarrow>
      0 \<le> lookback_token_ids inp ! r ! c \<and> window_source_at inp r c = hist ! (start - 1 - c)"
    using chunk by (auto simp: request_chunk_def Let_def)
  show ?thesis
  proof (cases "start \<le> p - s")
    case True
    then have "s \<le> k - nat ?q" using p s(1) by linarith
    then have j: "s \<le> k" "?q \<le> int (k - s)" using q(1) k(1) by linarith+
    then have "token_source (token_map inp) (input_ids inp ! (k - s)) (dead_mask inp ! (k - s)) = hist ! (p - s)"
      using batch[of "k - s"] k q True p by (simp add: algebra_simps)
    moreover have "int p - int s \<ge> int start" using True s(1) by linarith
    moreover have "nat (max (int k - int s) 0) = k - s" using j(1) by linarith
    ultimately show ?thesis
      using j(1) by (simp add: lookback_source_def Let_def tl_load_def token_source_def split: if_split_asm)
  next
    case False
    define c where "c = start - 1 - (p - s)"
    have c: "c < start" "start - 1 - c = p - s" using False by (auto simp: c_def)
    have "start \<le> p" using p by simp
    then have "int c < int s" using False s(1) by (simp add: c_def)
    then have cd: "int c < lookback_depth inp" using s(2) depth by linarith
    have col: "int start - 1 - (int p - int s) = int c" using False s(1) by (simp add: c_def of_nat_diff)
    have nb: "\<not> int start \<le> int p - int s" using False s(1) by linarith
    from window[OF c(1) cd] have w: "0 \<le> lookback_token_ids inp ! r ! c"
      "window_source_at inp r c = hist ! (p - s)" using c(2) by simp_all
    have "min (max (int c) 0) (lookback_depth inp - 1) = int c" using cd by simp
    then show ?thesis
      using nb cd w by (simp add: lookback_source_def Let_def tl_load_def col window_source_at_def token_source_def
          split: if_split_asm)
  qed
qed

text \<open>The rolling hashes are those of the reference.\<close>

lemma rolling_hashes_ngram:
  assumes src: "\<And>s. s \<le> p \<Longrightarrow> s < N \<Longrightarrow> source s = hist ! (p - s)" and "shift + n \<le> N"
    and "blocked = list_ex (\<lambda>k. p < k \<or> hist ! (p - k) = DEAD_ID) [0..<shift]"
    and "rolling = (if shift = 0 then 0 else ngram_hash hist pad mults p (shift - 1))"
  shows "rolling_hashes source (int p) pad mults shift n blocked rolling =
    map (ngram_hash hist pad mults p) [shift..<shift + n]"
  using assms(2-4)
proof (induction n arbitrary: shift blocked rolling)
  case (Suc n)
  let ?b = "blocked \<or> int p - int shift < 0 \<or> source shift = DEAD_ID"
  have b: "?b = list_ex (\<lambda>k. p < k \<or> hist ! (p - k) = DEAD_ID) [0..<Suc shift]"
    using Suc.prems(1,2) src[of shift] by (cases "shift \<le> p") (simp_all add: disj_commute)
  have v: "(if ?b then pad else source shift) = ngram_value hist pad p shift"
    using b Suc.prems(1) src[of shift] by (cases "shift \<le> p") (auto simp: ngram_value_def)
  have r: "rolling XOR (word_of_int (ngram_value hist pad p shift) * word_of_int (mults ! shift)) =
      ngram_hash hist pad mults p shift"
    using Suc.prems(3) by (cases shift) simp_all
  have "rolling_hashes source (int p) pad mults (Suc shift) n ?b (ngram_hash hist pad mults p shift) =
      map (ngram_hash hist pad mults p) [Suc shift..<Suc shift + n]"
    using Suc.prems(1) b by (intro Suc.IH) simp_all
  moreover have "[shift..<shift + Suc n] = shift # [Suc shift..<Suc shift + n]" by (simp add: upt_conv_Cons)
  ultimately show ?case by (simp only: rolling_hashes.simps Let_def v r list.map)
qed simp

text \<open>
  C15. The hashes of a token do not depend on how its request is cut into chunks: when a batch holds a
  chunk of a request and the window the tokens before it, the hash ids of every token of the chunk
  are those of the request's compressed history at the token's position.
\<close>

theorem hashes_independent_of_chunking:
  assumes "request_chunk inp r hist start"
    and "query_start_loc inp ! r \<le> int k" and "int k < query_start_loc inp ! (r + 1)"
  shows "hash_row inp layer k = bucket_ids inp layer
    (map (ngram_hash hist (pad_id inp) (multipliers inp ! layer) (start + (k - nat (query_start_loc inp ! r))))
      [0..<max_ngram inp])"
proof -
  let ?q = "query_start_loc inp" and ?p = "start + (k - nat (query_start_loc inp ! r))"
  have q: "0 \<le> ?q ! r" "?q ! (r + 1) \<le> int (length (input_ids inp))"
    and batch: "\<And>j. j < length (input_ids inp) \<Longrightarrow> ?q ! r \<le> int j \<Longrightarrow> int j < ?q ! (r + 1) \<Longrightarrow>
      positions inp ! j = int start + (int j - ?q ! r)"
    using assms(1) by (auto simp: request_chunk_def Let_def)
  have req: "request_of inp (int k) = int r" by (rule request_of_chunk[OF assms])
  have "?q ! r < int (length (input_ids inp))" using assms(2,3) q(2) by linarith
  then have "min (?q ! r) (int (length (input_ids inp)) - 1) = ?q ! r" by simp
  moreover have "positions inp ! nat (?q ! r) = int start"
    using batch[of "nat (?q ! r)"] q assms(2,3) by simp
  ultimately have cs: "chunk_start_of inp (int r) = int start" by (simp add: chunk_start_of_def Let_def)
  have pos: "positions inp ! k = int ?p" using batch[of k] assms(2,3) q by simp
  have "rolling_hashes (lookback_source inp (int r) (int start) (int ?p) (int k)) (int ?p) (pad_id inp)
      (multipliers inp ! layer) 0 (max_ngram inp) False 0 =
    map (ngram_hash hist (pad_id inp) (multipliers inp ! layer) ?p) [0..<0 + max_ngram inp]"
    by (rule rolling_hashes_ngram[where N = "max_ngram inp"])
      (use lookback_source_history[OF assms refl] in simp_all)
  then show ?thesis by (simp add: hash_row_def req cs pos)
qed

section \<open>Stored ids lie in their buckets\<close>

lemma xor_nonneg_word:
  fixes x y :: "64 word"
  assumes "0 \<le> sint x" and "0 \<le> sint y"
  shows "0 \<le> sint (x XOR y)"
  using assms bit_last_iff[of x] bit_last_iff[of y] bit_last_iff[of "x XOR y"]
  by (simp add: bit_simps not_less)

text \<open>Ids and the pad are compressed ids below \<open>V\<close>, and products with the multipliers do not overflow.\<close>

definition products_fit :: "int \<Rightarrow> int list \<Rightarrow> bool" where
  "products_fit V mults \<longleftrightarrow> (\<forall>m \<in> set mults. \<forall>t. 0 \<le> t \<and> t < V \<longrightarrow>
     sint (word_of_int t * word_of_int m :: 64 word) = t * m \<and> 0 \<le> m)"

lemma ngram_hash_nonneg:
  assumes "products_fit V mults" and "0 \<le> pad" and "pad < V"
    and "\<forall>x \<in> set hist. x = DEAD_ID \<or> 0 \<le> x \<and> x < V" and "p < length hist" and "s < length mults"
  shows "0 \<le> sint (ngram_hash hist pad mults p s)"
proof -
  have bounded: "0 \<le> ngram_value hist pad p j \<and> ngram_value hist pad p j < V" for j
  proof (cases "list_ex (\<lambda>k. p < k \<or> hist ! (p - k) = DEAD_ID) [0..<Suc j]")
    case True then show ?thesis using assms(2,3) by (simp add: ngram_value_def)
  next
    case False
    then have "hist ! (p - j) \<noteq> DEAD_ID" by (auto simp: list_ex_iff)
    moreover have "hist ! (p - j) \<in> set hist" using assms(5) by (intro nth_mem) simp
    ultimately show ?thesis using assms(4) False by (auto simp: ngram_value_def)
  qed
  have "0 \<le> sint (word_of_int (ngram_value hist pad p j) * word_of_int (mults ! j) :: 64 word)"
    if "j < length mults" for j
    using assms(1) nth_mem[OF that] bounded[of j] by (auto simp: products_fit_def)
  then show ?thesis using assms(6)
    by (induction s) (auto intro: xor_nonneg_word)
qed

lemma srem_nonneg: "0 \<le> a \<Longrightarrow> 0 < b \<Longrightarrow> 0 \<le> srem a b \<and> srem a b < b"
  by (cases "a = 0") (simp_all add: srem_def)

lemma store_int32_small: "0 \<le> x \<Longrightarrow> x < 2 ^ 31 \<Longrightarrow> store_int32 x = x"
  unfolding store_int32_def by (simp only: signed_of_int) (simp add: signed_take_bit_int_eq_self)

lemma list_all2_chunks:
  assumes "length ys = n * h" and "\<And>shift head. a \<le> shift \<Longrightarrow> shift < a + n \<Longrightarrow> head < h \<Longrightarrow>
    P (f shift head) (ys ! ((shift - a) * h + head))"
  shows "list_all2 P (concat (map (\<lambda>shift. map (f shift) [0..<h]) [a..<a + n])) ys"
  using assms
proof (induction n arbitrary: a ys)
  case (Suc n)
  have len: "length (take h ys) = h" "length (drop h ys) = n * h" using Suc.prems(1) by simp_all
  have "list_all2 P (map (f a) [0..<h]) (take h ys)"
    by (rule list_all2_all_nthI) (use Suc.prems(2)[of a] len in simp_all)
  moreover have "list_all2 P (concat (map (\<lambda>shift. map (f shift) [0..<h]) [Suc a..<Suc a + n])) (drop h ys)"
  proof (rule Suc.IH[OF len(2)])
    fix shift head assume s: "Suc a \<le> shift" "shift < Suc a + n" "head < h"
    have "shift - a = Suc (shift - Suc a)" using s(1) by simp
    then have "(shift - a) * h + head = h + ((shift - Suc a) * h + head)" by simp
    then show "P (f shift head) (drop h ys ! ((shift - Suc a) * h + head))"
      using Suc.prems(2)[of shift head] s len Suc.prems(1) by (simp add: ac_simps)
  qed
  ultimately have "list_all2 P (map (f a) [0..<h] @ concat (map (\<lambda>shift. map (f shift) [0..<h]) [Suc a..<Suc a + n]))
      (take h ys @ drop h ys)" by (rule list_all2_appendI)
  moreover have "[a..<a + Suc n] = a # [Suc a..<Suc a + n]" by (simp add: upt_conv_Cons del: upt_Suc)
  ultimately show ?case by (simp only: list.map concat.simps append_take_drop_id)
qed simp

lemma column_bound:
  assumes "1 \<le> shift" and "shift < n" and "head < h"
  shows "(shift - 1) * h + head < (n - 1) * (h :: nat)"
proof -
  have "(shift - 1) * h + head < (shift - 1) * h + h" using assms(3) by simp
  also have "\<dots> = shift * h" using assms(1) by (cases shift) simp_all
  also have "\<dots> \<le> (n - 1) * h" using assms(2) by (intro mult_le_mono1) simp
  finally show ?thesis .
qed

text \<open>
  C16. When the multipliers do not overflow and a layer has fewer than \<open>2 ^ 31\<close> rows, every id the hash
  of a position stores lies in the bucket range of its column, so that no two columns share a row.
\<close>

theorem hash_ids_in_buckets:
  assumes "products_fit V mults" and "length mults = max_ngram inp" and "0 \<le> pad" and "pad < V"
    and "\<forall>x \<in> set hist. x = DEAD_ID \<or> 0 \<le> x \<and> x < V" and "p < length hist"
    and "\<forall>x \<in> set (concat (hash_primes inp ! layer)). 0 < x"
    and "tiled (concat (hash_primes inp ! layer)) (hash_offsets inp ! layer)"
    and "length (concat (hash_primes inp ! layer)) = (max_ngram inp - 1) * num_heads inp"
    and "sum_list (concat (hash_primes inp ! layer)) < 2 ^ 31"
  shows "list_all2 (\<lambda>id (offset, prime). offset \<le> id \<and> id < offset + prime)
    (bucket_ids inp layer (map (ngram_hash hist pad mults p) [0..<max_ngram inp]))
    (zip (hash_offsets inp ! layer) (concat (hash_primes inp ! layer)))"
proof -
  let ?sizes = "concat (hash_primes inp ! layer)" and ?offs = "hash_offsets inp ! layer" and ?H = "num_heads inp"
  let ?roll = "map (ngram_hash hist pad mults p) [0..<max_ngram inp]"
  let ?id = "\<lambda>shift head. let col = (shift - 1) * ?H + head in
      store_int32 (srem (sint (?roll ! shift)) (?sizes ! col) + ?offs ! col)"
  have ids: "bucket_ids inp layer ?roll = concat (map (\<lambda>shift. map (?id shift) [0..<?H]) [1..<max_ngram inp])"
    by (simp add: bucket_ids_def Let_def)
  have good: "?offs ! col \<le> ?id shift head \<and> ?id shift head < ?offs ! col + ?sizes ! col"
    if "1 \<le> shift" "shift < max_ngram inp" "head < ?H" and col: "col = (shift - 1) * ?H + head" for shift head col
  proof -
    have c: "col < length ?sizes" using column_bound[OF that(1-3)] assms(9) col by simp
    have "0 < ?sizes ! col" using assms(7) nth_mem[OF c] by blast
    moreover have "0 \<le> ?offs ! col" "?offs ! col + ?sizes ! col \<le> sum_list ?sizes"
      using assms(8) c by (auto simp: tiled_def)
    moreover have "0 \<le> sint (?roll ! shift)"
      using ngram_hash_nonneg[OF assms(1,3-6)] that(2) assms(2) by simp
    ultimately show ?thesis
      using srem_nonneg[of "sint (?roll ! shift)" "?sizes ! col"] assms(10) col
      by (simp add: store_int32_small Let_def)
  qed
  have "list_all2 (\<lambda>id (offset, prime). offset \<le> id \<and> id < offset + prime)
      (concat (map (\<lambda>shift. map (?id shift) [0..<?H]) [1..<1 + (max_ngram inp - 1)])) (zip ?offs ?sizes)"
  proof (rule list_all2_chunks)
    show "length (zip ?offs ?sizes) = (max_ngram inp - 1) * ?H" using assms(8,9) by (simp add: tiled_def)
    fix shift head assume s: "1 \<le> shift" "shift < 1 + (max_ngram inp - 1)" "head < ?H"
    have s2: "shift < max_ngram inp" using s(1,2) by arith
    have "(shift - 1) * ?H + head < length ?sizes" using column_bound[OF s(1) s2 s(3)] assms(9) by simp
    then show "case zip ?offs ?sizes ! ((shift - 1) * ?H + head) of (offset, prime) \<Rightarrow>
        offset \<le> ?id shift head \<and> ?id shift head < offset + prime"
      using good[OF s(1) s2 s(3) refl] assms(8) by (simp add: tiled_def)
  qed
  moreover have "[1..<1 + (max_ngram inp - 1)] = [1..<max_ngram inp]"
    by (cases "max_ngram inp") (simp_all del: upt_Suc)
  ultimately show ?thesis unfolding ids by (simp only:)
qed

text \<open>
  Two requests in one batch, on a layer with bigrams and trigrams of two heads: a first chunk of three
  tokens, one of them dead, and a second chunk of two tokens behind two earlier ones.
\<close>

definition demo_inputs :: hash_inputs where
  "demo_inputs = \<lparr>input_ids = [5, 6, 7, 8, 9], token_map = [0, 1, 2, 3, 4, 1, 2, 3, 4, 1],
     dead_mask = [False, True, False, False, False], positions = [0, 1, 2, 2, 3], block_table = [],
     query_start_loc = [0, 3, 5], multipliers = [[3, 5, 7]], hash_primes = [[[11, 13], [17, 19]]],
     hash_offsets = [[0, 11, 24, 41]], slot_cache = None, lookback_token_ids = [[-1, -1], [4, 3]],
     lookback_dead_mask = [[False, False], [False, False]], lookback_depth = 2, pad_id = 0,
     cache_block_size = 64, max_ngram = 3, num_heads = 2\<rparr>"

lemma demo_chunk: "request_chunk demo_inputs 1 [3, 4, 4, 1] 2"
  by (simp add: request_chunk_def demo_inputs_def token_source_def window_source_at_def
      less_Suc_eq numeral_eq_Suc All_less_Suc)

lemma hashes_independent_of_chunking_witness:
  "hash_row demo_inputs 0 4 = bucket_ids demo_inputs 0 (map (ngram_hash [3, 4, 4, 1] 0 [3, 5, 7] 3) [0..<3])"
proof -
  have k: "query_start_loc demo_inputs ! 1 \<le> int 4" "int 4 < query_start_loc demo_inputs ! (1 + 1)"
    by (simp_all add: demo_inputs_def)
  have "2 + (4 - nat (query_start_loc demo_inputs ! 1)) = 3" "pad_id demo_inputs = 0"
    "multipliers demo_inputs ! 0 = [3, 5, 7]" "max_ngram demo_inputs = 3"
    by (simp_all add: demo_inputs_def)
  with hashes_independent_of_chunking[OF demo_chunk k, of 0] show ?thesis by (simp only:)
qed

lemma hash_ids_in_buckets_witness:
  "list_all2 (\<lambda>id (offset, prime). offset \<le> id \<and> id < offset + prime)
     (bucket_ids demo_inputs 0 (map (ngram_hash [3, 4, 4, 1] 0 [3, 5, 7] 3) [0..<max_ngram demo_inputs]))
     (zip [0, 11, 24, 41] [11, 13, 17, 19])"
proof -
  have sint: "sint (word_of_int t * word_of_int m :: 64 word) = t * m" if "0 \<le> t" "t < 10" "0 \<le> m" "m < 10" for t m
  proof -
    have "t * m \<le> 10 * 10" using that by (intro mult_mono) auto
    moreover have "0 \<le> t * m" using that by simp
    ultimately show ?thesis
      by (simp only: wi_hom_mult signed_of_int) (simp add: signed_take_bit_int_eq_self)
  qed
  have small: "0 \<le> m \<and> m < 10" if "m \<in> set [3, 5, 7]" for m :: int using that by auto
  have fit: "products_fit 10 [3, 5, 7]"
    unfolding products_fit_def by (intro ballI allI impI conjI; use sint small in blast)
  have tiled: "tiled (concat (hash_primes demo_inputs ! 0)) (hash_offsets demo_inputs ! 0)"
    by (rule prefix_sums_tile) (auto simp: demo_inputs_def less_Suc_eq numeral_eq_Suc)
  from hash_ids_in_buckets[OF fit, of demo_inputs 0 "[3, 4, 4, 1]" 3 0, OF _ _ _ _ _ _ tiled] show ?thesis
    by (simp add: demo_inputs_def)
qed

end
