(* ===== verification/Engram_Table.thy ===== *)
theory Engram_Table
  imports Engram_Layout "HOL-Library.Multiset"
begin

text \<open>
  The n-gram hash table, sharded by heads over tensor-parallel ranks (\<^verbatim>\<open>engram.py\<close>): the shard of a
  rank, its weight loader, the lookup kernel with its persistent grid, the gather over ranks with and
  without sequence parallelism, and the disk-backed table with its positional reads on a pool. Rows of
  the table are opaque; what a weight row and a scale row dequantize to is a parameter. The main
  results: the ranks together look up the whole table, the disk-backed lookup equals the kernel's, and
  the reads fill the buffers whatever the order the pool runs them in.
\<close>

section \<open>Shards\<close>

record engram_embedding =
  embed_cols :: nat
  part_cols :: nat
  head_start :: nat
  vocab_start :: int
  vocab_end :: int

definition parallel_embedding ::
    "nat \<Rightarrow> nat \<Rightarrow> int \<Rightarrow> int list \<Rightarrow> bool \<Rightarrow> bool \<Rightarrow> bool \<Rightarrow> engram_embedding res" where
  "parallel_embedding tp_size tp_rank rows_total head_sizes cpu_offload disk uva_available =
     (let cpu_offload = (cpu_offload \<and> \<not> disk) in
      rbind (rassert (head_sizes \<noteq> [] \<and> list_all (\<lambda>s. s > 0) head_sizes)) (\<lambda>_.
      rbind (rassert (sum_list head_sizes \<le> rows_total)) (\<lambda>_.
      if cpu_offload \<and> \<not> uva_available then Inl RuntimeError
      else
        let cols = length head_sizes;
            part = nat (cdiv (int cols) (int tp_size));
            start = tp_rank * part;
            head_end = start + part
        in Inr \<lparr>embed_cols = cols, part_cols = part, head_start = start,
             vocab_start = sum_list (take start head_sizes),
             vocab_end = sum_list (take head_end head_sizes)\<rparr>)))"

definition part_num_embeddings :: "engram_embedding \<Rightarrow> int" where
  "part_num_embeddings emb = vocab_end emb - vocab_start emb"

text \<open>The rows of the checkpoint a rank keeps.\<close>

definition head_shard_weight_loader :: "engram_embedding \<Rightarrow> 'w list \<Rightarrow> 'w list res" where
  "head_shard_weight_loader emb loaded =
     (let part_rows = nat (part_num_embeddings emb); start = nat (vocab_start emb) in
      if length loaded < start + part_rows then Inl RuntimeError
      else Inr (take part_rows (drop start loaded)))"

section \<open>The lookup kernel\<close>

text \<open>\<open>range(lo, hi, step)\<close>, for a positive step.\<close>

function range_step :: "nat \<Rightarrow> nat \<Rightarrow> nat \<Rightarrow> nat list" where
  "range_step lo hi step = (if step = 0 \<or> hi \<le> lo then [] else lo # range_step (lo + step) hi step)"
  by pat_completeness auto
termination by (relation "measure (\<lambda>(lo, hi, step). hi - lo)") auto

declare range_step.simps [simp del]

text \<open>The rows one program of the persistent grid handles, in tiles of 16.\<close>

definition program_rows :: "nat \<Rightarrow> nat \<Rightarrow> nat \<Rightarrow> nat list" where
  "program_rows pid grid num_rows =
     concat (map (\<lambda>base. filter (\<lambda>row. row < num_rows) [base..<base + 16])
       (range_step (pid * 16) num_rows (grid * 16)))"

text \<open>The value of one row: of a local head of a token.\<close>

definition lookup_lane ::
    "engram_embedding \<Rightarrow> (nat \<Rightarrow> 'v) \<Rightarrow> 'v \<Rightarrow> int list list \<Rightarrow> nat \<Rightarrow> 'v" where
  "lookup_lane emb row_value zero ids row =
     (let head = head_start emb + row mod part_cols emb;
          token = row div part_cols emb;
          index = (if head < embed_cols emb then ids ! token ! head else -1);
          owned = (head < embed_cols emb \<and> index \<ge> vocab_start emb \<and> index < vocab_end emb)
      in if owned then row_value (nat (index - vocab_start emb)) else zero)"

definition lookup ::
    "engram_embedding \<Rightarrow> nat \<Rightarrow> (nat \<Rightarrow> 'v) \<Rightarrow> 'v \<Rightarrow> int list list \<Rightarrow> 'v list \<Rightarrow> 'v list" where
  "lookup emb num_sms row_value zero ids out =
     (let rows = length ids * part_cols emb in
      if rows = 0 then out
      else
        let grid = min (nat (cdiv (int rows) 16)) num_sms in
        foldl (\<lambda>out row. out[row := lookup_lane emb row_value zero ids row]) out
          (concat (map (\<lambda>pid. program_rows pid grid rows) [0..<grid])))"

text \<open>A flat buffer of \<open>width\<close> entries per token, as one list per token.\<close>

definition by_token :: "nat \<Rightarrow> nat \<Rightarrow> 'v list \<Rightarrow> 'v list list" where
  "by_token tokens width flat = map (\<lambda>t. take width (drop (t * width) flat)) [0..<tokens]"

text \<open>The gather over the ranks along the head dimension, cut to the columns that exist.\<close>

definition gathered_lookup :: "nat \<Rightarrow> nat \<Rightarrow> 'v list list list \<Rightarrow> 'v list list" where
  "gathered_lookup tp_size cols outs =
     (if tp_size > 1
      then map (\<lambda>t. take cols (concat (map (\<lambda>out. out ! t) outs))) [0..<length (hd outs)]
      else hd outs)"

section \<open>Sequence parallelism\<close>

text \<open>
  One element of a rank's rows, from the rows of all ranks gathered along the token dimension: the
  flat buffer holds one rank's tokens after the other's.
\<close>

definition sp_rows_lane :: "'v list \<Rightarrow> 'v \<Rightarrow> nat \<Rightarrow> nat \<Rightarrow> nat \<Rightarrow> nat \<Rightarrow> nat \<Rightarrow> 'v" where
  "sp_rows_lane gathered zero num_tokens token_start local_width width offset =
     (let token = token_start + offset div width;
          col = offset mod width;
          source = (col div local_width * num_tokens + token) * local_width + col mod local_width
      in if token < num_tokens then gathered ! source else zero)"

definition sp_rows :: "'v list \<Rightarrow> 'v \<Rightarrow> nat \<Rightarrow> nat \<Rightarrow> nat \<Rightarrow> nat \<Rightarrow> nat \<Rightarrow> 'v list" where
  "sp_rows gathered zero num_tokens tp_size tp_rank local_width width =
     (let chunk = (num_tokens + tp_size - 1) div tp_size
      in map (sp_rows_lane gathered zero num_tokens (tp_rank * chunk) local_width width) [0..<chunk * width])"

section \<open>Reads from the disk\<close>

text \<open>
  \<open>preadv\<close> is an argument: from an offset and a number of wanted bytes to the bytes it read, none at
  the end of the file.
\<close>

function pread_loop :: "(nat \<Rightarrow> nat \<Rightarrow> bytes) \<Rightarrow> nat \<Rightarrow> nat \<Rightarrow> bytes \<Rightarrow> bytes res" where
  "pread_loop preadv off row_bytes view =
     (if length view < row_bytes then
        let chunk = preadv (off + length view) (row_bytes - length view) in
        if chunk = [] then Inl OSError else pread_loop preadv off row_bytes (view @ chunk)
      else Inr view)"
  by pat_completeness auto
termination by (relation "measure (\<lambda>(preadv, off, row_bytes, view). row_bytes - length view)")
  (auto simp: Let_def simp flip: length_greater_0_conv)

declare pread_loop.simps [simp del]

record read_job =
  job_file :: "nat \<Rightarrow> nat \<Rightarrow> bytes"
  job_base :: nat
  job_rows :: "nat list"
  job_row_bytes :: nat

definition read_row :: "read_job \<Rightarrow> nat \<Rightarrow> bytes res" where
  "read_row job i =
     pread_loop (job_file job) (job_base job + job_rows job ! i * job_row_bytes job) (job_row_bytes job) []"

text \<open>One task of the pool: some rows of a job, into the job's buffer.\<close>

definition pread_rows :: "read_job list \<Rightarrow> nat \<Rightarrow> nat \<Rightarrow> nat \<Rightarrow> (nat \<times> nat) list" where
  "pread_rows jobs j lo hi = map (\<lambda>i. (j, i)) [lo..<hi]"

text \<open>The tasks of a batch of jobs, as the rows each reads.\<close>

definition read_tasks :: "nat \<Rightarrow> nat \<Rightarrow> read_job list \<Rightarrow> (nat \<times> nat) list list" where
  "read_tasks threads max_chunk jobs =
     (let total = sum_list (map (\<lambda>job. length (job_rows job)) jobs) in
      if total = 0 then []
      else if total = 1 then map (\<lambda>j. pread_rows jobs j 0 (length (job_rows (jobs ! j)))) [0..<length jobs]
      else
        let chunk = max 1 (min max_chunk (nat (cdiv (int total) (int threads)))) in
        concat (map (\<lambda>j.
            let n = length (job_rows (jobs ! j)) in
            map (\<lambda>lo. pread_rows jobs j lo (min (lo + chunk) n)) (range_step 0 n chunk))
          [0..<length jobs]))"

text \<open>The reads of rows in the order the pool happens to run them; a failed read raises.\<close>

fun run_reads :: "read_job list \<Rightarrow> (nat \<times> nat) list \<Rightarrow> bytes list list \<Rightarrow> bytes list list res" where
  "run_reads jobs [] bufs = Inr bufs"
| "run_reads jobs ((j, i) # reads) bufs =
     rbind (read_row (jobs ! j) i) (\<lambda>row. run_reads jobs reads (bufs[j := (bufs ! j)[i := row]]))"

definition empty_buffers :: "read_job list \<Rightarrow> bytes list list" where
  "empty_buffers jobs = map (\<lambda>job. replicate (length (job_rows job)) []) jobs"

section \<open>The disk-backed table\<close>

text \<open>
  \<open>manifest\<close> is the row range the node-local copy holds, if its file can be read and names the layer.
\<close>

definition engram_local_dir :: "string \<Rightarrow> string \<Rightarrow> (int \<times> int) option \<Rightarrow> int \<Rightarrow> int option \<Rightarrow> string" where
  "engram_local_dir model_dir local_dir manifest row_start num_rows =
     (if local_dir = [] then model_dir
      else case manifest of
        None \<Rightarrow> model_dir
      | Some (lo, hi) \<Rightarrow>
          (case num_rows of
             None \<Rightarrow> model_dir
           | Some n \<Rightarrow> if lo \<le> row_start \<and> row_start + n \<le> hi then local_dir else model_dir))"

text \<open>A little-endian number, as \<open>struct.unpack("<Q", ...)\<close> reads it.\<close>

fun from_le :: "bytes \<Rightarrow> nat" where
  "from_le [] = 0"
| "from_le (b # bs) = b + 256 * from_le bs"

text \<open>
  The offset of a tensor's data in a safetensors file and its shape; the header's JSON is read by
  \<open>json_header\<close>, which gives the first data offset and the shape of each tensor.
\<close>

definition open_tensor ::
    "(bytes \<Rightarrow> (string, nat \<times> nat list) dict) \<Rightarrow> bytes \<Rightarrow> string \<Rightarrow> (nat \<times> nat list) res" where
  "open_tensor json_header file tname =
     (if length file < 8 then Inl ValueError
      else
        let n = from_le (take 8 file);
            hdr = json_header (take n (drop 8 file))
        in rbind (dict_get hdr tname) (\<lambda>(start, shape). Inr (8 + n + start, shape)))"

record disk_table =
  w_off :: nat
  s_off :: nat
  row_dim :: nat
  scale_dim :: nat
  row_start :: nat
  num_rows :: int

definition disk_engram_table ::
    "(bytes \<Rightarrow> (string, nat \<times> nat list) dict) \<Rightarrow> bytes \<Rightarrow> bytes \<Rightarrow> string \<Rightarrow> string \<Rightarrow>
       nat \<Rightarrow> nat \<Rightarrow> nat \<Rightarrow> nat option \<Rightarrow> disk_table res" where
  "disk_engram_table json_header w_file s_file wname sname dim block start rows =
     rbind (open_tensor json_header w_file wname) (\<lambda>(w, w_shape).
     rbind (open_tensor json_header s_file sname) (\<lambda>(s, s_shape).
     let sb = dim div block in
     if length w_shape \<noteq> 2 \<or> length s_shape \<noteq> 2 then Inl IndexError
     else
       rbind (rassert (w_shape ! 1 = dim)) (\<lambda>_.
       rbind (rassert (s_shape ! 1 = sb)) (\<lambda>_.
       rbind (rassert (s_shape ! 0 = w_shape ! 0)) (\<lambda>_.
       let n = (case rows of Some n \<Rightarrow> int n | None \<Rightarrow> int (w_shape ! 0) - int start) in
       rbind (rassert (int start + n \<le> int (w_shape ! 0))) (\<lambda>_.
         Inr \<lparr>w_off = w + start * dim, s_off = s + start * sb, row_dim = dim, scale_dim = sb,
           row_start = start, num_rows = n\<rparr>))))))"

definition read_jobs ::
    "(nat \<Rightarrow> nat \<Rightarrow> bytes) \<Rightarrow> (nat \<Rightarrow> nat \<Rightarrow> bytes) \<Rightarrow> disk_table \<Rightarrow> nat list \<Rightarrow> read_job list" where
  "read_jobs w_pread s_pread t rel =
     [\<lparr>job_file = w_pread, job_base = w_off t, job_rows = rel, job_row_bytes = row_dim t\<rparr>,
      \<lparr>job_file = s_pread, job_base = s_off t, job_rows = rel, job_row_bytes = scale_dim t\<rparr>]"

text \<open>The rank-local row and ownership of every local head of every token, padded heads included.\<close>

definition disk_rel_owned :: "engram_embedding \<Rightarrow> int list list \<Rightarrow> (nat \<times> bool) list" where
  "disk_rel_owned emb local =
     map (\<lambda>row. let owned = vocab_start emb \<le> row \<and> row < vocab_end emb
           in (if owned then nat (row - vocab_start emb) else 0, owned))
       (concat (map (\<lambda>ids. ids @ replicate (part_cols emb - length ids) (-1)) local))"

text \<open>\<open>torch.unique(..., return_inverse=True)\<close>.\<close>

definition unique_rows :: "nat list \<Rightarrow> nat list" where
  "unique_rows rel = sorted_list_of_set (set rel)"

definition inverse_of :: "nat list \<Rightarrow> nat \<Rightarrow> nat" where
  "inverse_of uniq r = length (takeWhile (\<lambda>u. u \<noteq> r) uniq)"

text \<open>
  The gather of a batch of requests, each a table with its two files, rows and ownership; \<open>order\<close> is
  the order in which the pool runs the reads.
\<close>

type_synonym gather_request = "((nat \<Rightarrow> nat \<Rightarrow> bytes) \<times> (nat \<Rightarrow> nat \<Rightarrow> bytes) \<times> disk_table) \<times> (nat \<times> bool) list"

definition request_jobs :: "gather_request list \<Rightarrow> read_job list" where
  "request_jobs requests =
     concat (map (\<lambda>((w_pread, s_pread, t), rel). read_jobs w_pread s_pread t (unique_rows (map fst rel))) requests)"

definition gather_dequant_many ::
    "(bytes \<Rightarrow> bytes \<Rightarrow> 'v) \<Rightarrow> 'v \<Rightarrow> ((nat \<times> nat) list list \<Rightarrow> (nat \<times> nat) list) \<Rightarrow> nat \<Rightarrow> nat \<Rightarrow>
       gather_request list \<Rightarrow> 'v list list res" where
  "gather_dequant_many dequant zero order threads max_chunk requests =
     (let jobs = request_jobs requests in
      rbind (run_reads jobs (order (read_tasks threads max_chunk jobs)) (empty_buffers jobs)) (\<lambda>bufs.
        Inr (map (\<lambda>(k, (_, rel)).
            let uniq = unique_rows (map fst rel);
                deq = map2 dequant (bufs ! (2 * k)) (bufs ! (2 * k + 1))
            in map (\<lambda>(r, owned). if owned then deq ! inverse_of uniq r else zero) rel)
          (enumerate 0 requests))))"

definition disk_lookup ::
    "(bytes \<Rightarrow> bytes \<Rightarrow> 'v) \<Rightarrow> 'v \<Rightarrow> ((nat \<times> nat) list list \<Rightarrow> (nat \<times> nat) list) \<Rightarrow> nat \<Rightarrow> nat \<Rightarrow>
       (nat \<Rightarrow> nat \<Rightarrow> bytes) \<times> (nat \<Rightarrow> nat \<Rightarrow> bytes) \<times> disk_table \<Rightarrow> engram_embedding \<Rightarrow> bool \<Rightarrow>
       int list list \<Rightarrow> 'v list res" where
  "disk_lookup dequant zero order threads max_chunk table emb capturing ids =
     (if capturing then Inl RuntimeError
      else
        let head_end = min (head_start emb + part_cols emb) (embed_cols emb);
            local = map (\<lambda>row. drop (head_start emb) (take head_end row)) ids in
        rbind (gather_dequant_many dequant zero order threads max_chunk [(table, disk_rel_owned emb local)])
          (\<lambda>outs. Inr (hd outs)))"

section \<open>Every row is looked up once\<close>

lemma range_step_set: "0 < step \<Longrightarrow> set (range_step lo hi step) = {x. \<exists>k. x = lo + k * step \<and> x < hi}"
proof (induction lo hi step rule: range_step.induct)
  case (1 lo hi step)
  show ?case
  proof (cases "hi \<le> lo")
    case True then show ?thesis by (auto simp: range_step.simps[of lo hi step])
  next
    case False
    have "(\<exists>k. x = lo + k * step) \<longleftrightarrow> x = lo \<or> (\<exists>k. x = lo + step + k * step)" for x
    proof
      assume "\<exists>k. x = lo + k * step"
      then obtain k where "x = lo + k * step" by blast
      then show "x = lo \<or> (\<exists>k. x = lo + step + k * step)" by (cases k) auto
    next
      assume "x = lo \<or> (\<exists>k. x = lo + step + k * step)"
      then show "\<exists>k. x = lo + k * step" by (metis add.assoc add_0_right mult_0 mult_Suc)
    qed
    then show ?thesis using 1 False by (auto simp: range_step.simps[of lo hi step])
  qed
qed

lemma program_rows_cover:
  assumes "row < n" and "0 < grid"
  shows "\<exists>pid < grid. row \<in> set (program_rows pid grid n)"
proof -
  define pid where "pid = row div 16 mod grid"
  define base where "base = row div 16 * 16"
  have "base = pid * 16 + row div 16 div grid * (grid * 16)"
    unfolding base_def pid_def by (metis add.commute distrib_right div_mod_decomp mult.assoc)
  moreover have base: "base \<le> row" "row < base + 16" unfolding base_def by simp_all
  ultimately have "base \<in> set (range_step (pid * 16) n (grid * 16))"
    using assms by (subst range_step_set) auto
  moreover have "pid < grid" using assms(2) by (simp add: pid_def)
  ultimately show ?thesis using base assms(1) by (auto simp: program_rows_def)
qed

lemma foldl_update:
  "length (foldl (\<lambda>out row. out[row := f row]) out rows) = length out \<and>
   (\<forall>r < length out. foldl (\<lambda>out row. out[row := f row]) out rows ! r = (if r \<in> set rows then f r else out ! r))"
  by (induction rows arbitrary: out) (auto simp: nth_list_update)

lemma grid_covers:
  "0 < grid \<Longrightarrow> r < n \<Longrightarrow> r \<in> set (concat (map (\<lambda>pid. program_rows pid grid n) [0..<grid]))"
  using program_rows_cover[of r n grid] by (auto simp del: upt_Suc)

lemma lookup_is_map:
  assumes "length out = length ids * part_cols emb" and "0 < num_sms"
  shows "lookup emb num_sms row_value zero ids out =
    map (lookup_lane emb row_value zero ids) [0..<length ids * part_cols emb]"
proof -
  define n where "n = length ids * part_cols emb"
  show ?thesis
  proof (cases "n = 0")
    case True
    then have "lookup emb num_sms row_value zero ids out = out" by (simp add: lookup_def n_def)
    moreover have "out = []" using True assms(1) n_def by (metis length_0_conv)
    ultimately show ?thesis using True by (simp add: n_def)
  next
    case False
    define grid where "grid = min (nat (cdiv (int n) 16)) num_sms"
    define rows where "rows = concat (map (\<lambda>pid. program_rows pid grid n) [0..<grid])"
    have "0 < grid" using False assms(2) cdiv_pos[of 16 "int n"] by (simp add: grid_def)
    then have "r \<in> set rows" if "r < n" for r unfolding rows_def by (rule grid_covers) (rule that)
    moreover have "lookup emb num_sms row_value zero ids out =
        foldl (\<lambda>out row. out[row := lookup_lane emb row_value zero ids row]) out rows"
      using False unfolding lookup_def Let_def n_def[symmetric] grid_def rows_def by (simp only: if_False)
    ultimately show ?thesis
      using assms(1) foldl_update[of "lookup_lane emb row_value zero ids" out rows]
      unfolding n_def[symmetric] by (intro nth_equalityI) simp_all
  qed
qed

lemma concat_blocks: "concat (map (\<lambda>r. map f [r * L..<r * L + L]) [0..<n]) = map f [0..<n * L]"
proof (induction n)
  case (Suc n)
  have "[0..<Suc n * L] = [0..<n * L] @ [n * L..<n * L + L]"
    using upt_add_eq_append[of 0 "n * L" L] by (simp add: add.commute)
  with Suc show ?case by simp
qed simp

lemma take_sum_split: "a \<le> b \<Longrightarrow> sum_list (take b xs) = sum_list (take a xs) + sum_list (take (b - a) (drop a xs))"
  by (metis le_add_diff_inverse sum_list.append take_add)

text \<open>Every id of a batch lies in the bucket range of its column.\<close>

definition ids_in_buckets :: "int list \<Rightarrow> int list list \<Rightarrow> bool" where
  "ids_in_buckets sizes ids \<longleftrightarrow> list_all (\<lambda>row. length row = length sizes \<and>
     (\<forall>h < length sizes. sum_list (take h sizes) \<le> row ! h \<and> row ! h < sum_list (take (Suc h) sizes))) ids"

lemma shard_fields:
  assumes "parallel_embedding tp rank rows_total sizes cpu disk uva = Inr emb"
  shows "embed_cols emb = length sizes" and "part_cols emb = nat (cdiv (int (length sizes)) (int tp))"
    and "head_start emb = rank * part_cols emb"
    and "vocab_start emb = sum_list (take (rank * part_cols emb) sizes)"
    and "vocab_end emb = sum_list (take (rank * part_cols emb + part_cols emb) sizes)"
    and "\<forall>x \<in> set sizes. 0 < x"
proof -
  define part where "part = nat (cdiv (int (length sizes)) (int tp))"
  have "emb = \<lparr>embed_cols = length sizes, part_cols = part, head_start = rank * part,
      vocab_start = sum_list (take (rank * part) sizes), vocab_end = sum_list (take (rank * part + part) sizes)\<rparr> \<and>
    (\<forall>x \<in> set sizes. 0 < x)"
    using assms by (auto simp: parallel_embedding_def Let_def rbind_Inr_iff rassert_Inr_iff list_all_iff
        part_def[symmetric] split: if_split_asm)
  then show "embed_cols emb = length sizes" and "part_cols emb = nat (cdiv (int (length sizes)) (int tp))"
    and "head_start emb = rank * part_cols emb"
    and "vocab_start emb = sum_list (take (rank * part_cols emb) sizes)"
    and "vocab_end emb = sum_list (take (rank * part_cols emb + part_cols emb) sizes)"
    and "\<forall>x \<in> set sizes. 0 < x"
    by (simp_all add: part_def)
qed

lemma lane_owned:
  assumes emb: "parallel_embedding tp rank rows_total sizes cpu disk uva = Inr emb"
    and ids: "ids_in_buckets sizes ids" and t: "t < length ids" and j: "j < part_cols emb"
    and load: "head_shard_weight_loader emb table = Inr shard"
  shows "lookup_lane emb (\<lambda>r. row_value (shard ! r)) zero ids (t * part_cols emb + j) =
    (let h = rank * part_cols emb + j in
     if h < length sizes then row_value (table ! nat (ids ! t ! h)) else zero)"
proof -
  note e = shard_fields[OF emb]
  have rc: "(t * part_cols emb + j) mod part_cols emb = j" "(t * part_cols emb + j) div part_cols emb = t"
    using j by simp_all
  let ?h = "rank * part_cols emb + j"
  have lane: "lookup_lane emb (\<lambda>r. row_value (shard ! r)) zero ids (t * part_cols emb + j) =
      (let index = (if ?h < length sizes then ids ! t ! ?h else -1) in
       if ?h < length sizes \<and> index \<ge> vocab_start emb \<and> index < vocab_end emb
       then row_value (shard ! nat (index - vocab_start emb)) else zero)"
    unfolding lookup_lane_def Let_def e(1,3) rc ..
  show ?thesis
  proof (cases "?h < length sizes")
    case True
    define x where "x = ids ! t ! ?h"
    have "sum_list (take ?h sizes) \<le> x" "x < sum_list (take (Suc ?h) sizes)"
      using ids t True by (auto simp: ids_in_buckets_def list_all_length x_def)
    moreover have "sum_list (take (rank * part_cols emb) sizes) \<le> sum_list (take ?h sizes)"
      by (rule take_sum_mono[OF e(6)]) simp
    moreover have "sum_list (take (Suc ?h) sizes) \<le> sum_list (take (rank * part_cols emb + part_cols emb) sizes)"
      by (rule take_sum_mono[OF e(6)]) (use j in simp)
    ultimately have x: "vocab_start emb \<le> x" "x < vocab_end emb" using e(4,5) by linarith+
    have start: "0 \<le> vocab_start emb" using take_sum_mono[OF e(6), of 0 "rank * part_cols emb"] e(4) by simp
    from load have s: "shard = take (nat (part_num_embeddings emb)) (drop (nat (vocab_start emb)) table)"
      "nat (vocab_start emb) + nat (part_num_embeddings emb) \<le> length table"
      by (auto simp: head_shard_weight_loader_def Let_def split: if_split_asm)
    have "nat (x - vocab_start emb) < nat (part_num_embeddings emb)" using x by (simp add: part_num_embeddings_def)
    moreover have "nat (vocab_start emb) + nat (x - vocab_start emb) = nat x" using x start by simp
    ultimately have "shard ! nat (x - vocab_start emb) = table ! nat x" using s by simp
    then show ?thesis using True x by (simp add: lane Let_def x_def)
  next
    case False then show ?thesis by (simp add: lane)
  qed
qed

lemma part_cols_cover:
  assumes "parallel_embedding tp rank rows_total sizes cpu disk uva = Inr emb" and "0 < tp"
  shows "length sizes \<le> tp * part_cols emb"
proof -
  have "int (length sizes) \<le> cdiv (int (length sizes)) (int tp) * int tp"
    using cdiv_bounds(1)[of "int tp"] assms(2) by simp
  moreover have "0 \<le> cdiv (int (length sizes)) (int tp)" using assms(2) by (intro cdiv_nonneg) simp_all
  ultimately have "int (length sizes) \<le> int (tp * part_cols emb)"
    by (simp add: shard_fields(2)[OF assms(1)] mult.commute)
  then show ?thesis by linarith
qed

lemma by_token_lanes:
  "t < T \<Longrightarrow> by_token T L (map f [0..<T * L]) ! t = map f [t * L..<t * L + L]"
proof -
  assume t: "t < T"
  then have "t * L + L \<le> T * L" by (metis Suc_leI add.commute mult_Suc mult_le_mono1)
  then have "take L (drop (t * L) [0..<T * L]) = [t * L..<t * L + L]" by (simp add: take_upt)
  then show ?thesis using t by (simp add: by_token_def take_map drop_map)
qed

lemma concat_ranks:
  assumes "cols \<le> tp * L"
  shows "take cols (concat (map (\<lambda>rank. map (\<lambda>j. let h = rank * L + j in if h < cols then f h else z) [0..<L]) [0..<tp])) =
    map f [0..<cols]"
proof -
  let ?g = "\<lambda>h. if h < cols then f h else z"
  have "map (\<lambda>j. let h = rank * L + j in ?g h) [0..<L] = map ?g [rank * L..<rank * L + L]" for rank
    by (rule nth_equalityI) simp_all
  then have "concat (map (\<lambda>rank. map (\<lambda>j. let h = rank * L + j in ?g h) [0..<L]) [0..<tp]) = map ?g [0..<tp * L]"
    by (simp only: concat_blocks)
  moreover have "take cols [0..<tp * L] = [0..<cols]" using assms by (simp add: take_upt)
  ultimately show ?thesis by (simp add: take_map)
qed

text \<open>
  C17. For ids that lie in the bucket ranges of their columns, the ranks' lookups, gathered along the
  head dimension, give every token the rows of the whole table that its ids name, for every number of
  ranks and whatever the output buffers held before.
\<close>

theorem sharded_lookup_is_table:
  assumes "0 < tp" and "0 < num_sms"
    and "\<And>rank. rank < tp \<Longrightarrow> parallel_embedding tp rank rows_total sizes cpu disk uva = Inr (emb rank)"
    and "\<And>rank. rank < tp \<Longrightarrow> head_shard_weight_loader (emb rank) table = Inr (shard rank)"
    and "\<And>rank. rank < tp \<Longrightarrow> length (out rank) = length ids * part_cols (emb rank)"
    and "ids_in_buckets sizes ids"
  shows "gathered_lookup tp (length sizes) (map (\<lambda>rank. by_token (length ids) (part_cols (emb rank))
      (lookup (emb rank) num_sms (\<lambda>r. row_value (shard rank ! r)) zero ids (out rank))) [0..<tp]) =
    map (map (\<lambda>id. row_value (table ! nat id))) ids"
proof -
  define L where "L = part_cols (emb 0)"
  have part: "part_cols (emb rank) = L" if "rank < tp" for rank
    using shard_fields(2)[OF assms(3)[OF that]] shard_fields(2)[OF assms(3)[OF assms(1)]] by (simp add: L_def)
  have cover: "length sizes \<le> tp * L"
    using part_cols_cover[OF assms(3)[OF assms(1)] assms(1)] by (simp add: L_def)
  define G where "G rank = by_token (length ids) (part_cols (emb rank))
      (lookup (emb rank) num_sms (\<lambda>r. row_value (shard rank ! r)) zero ids (out rank))" for rank
  have G: "G rank ! t = map (\<lambda>j. let h = rank * L + j in
      if h < length sizes then row_value (table ! nat (ids ! t ! h)) else zero) [0..<L]"
    if rank: "rank < tp" and t: "t < length ids" for rank t
  proof -
    have "G rank ! t = map (lookup_lane (emb rank) (\<lambda>r. row_value (shard rank ! r)) zero ids) [t * L..<t * L + L]"
      using lookup_is_map[OF assms(5)[OF rank] assms(2)] by_token_lanes[OF t] by (simp add: G_def part[OF rank])
    then show ?thesis
      using lane_owned[OF assms(3)[OF rank] assms(6) t _ assms(4)[OF rank]]
      by (intro nth_equalityI) (simp_all add: part[OF rank])
  qed
  have len: "length (G rank) = length ids" for rank by (simp add: G_def by_token_def)
  have token: "take (length sizes) (concat (map (\<lambda>rank. G rank ! t) [0..<tp])) =
      map (\<lambda>id. row_value (table ! nat id)) (ids ! t)" if t: "t < length ids" for t
  proof -
    have "map (\<lambda>rank. G rank ! t) [0..<tp] = map (\<lambda>rank. map (\<lambda>j. let h = rank * L + j in
        if h < length sizes then row_value (table ! nat (ids ! t ! h)) else zero) [0..<L]) [0..<tp]"
      using G[OF _ t] by simp
    then have "take (length sizes) (concat (map (\<lambda>rank. G rank ! t) [0..<tp])) =
        map (\<lambda>h. row_value (table ! nat (ids ! t ! h))) [0..<length sizes]"
      by (simp only: concat_ranks[OF cover])
    moreover have "length (ids ! t) = length sizes" using assms(6) t by (simp add: ids_in_buckets_def list_all_length)
    ultimately show ?thesis by (intro nth_equalityI) simp_all
  qed
  have "gathered_lookup tp (length sizes) (map G [0..<tp]) = map (map (\<lambda>id. row_value (table ! nat id))) ids"
  proof (cases "1 < tp")
    case True
    have "length (hd (map G [0..<tp])) = length ids" using assms(1) len by (simp add: hd_map)
    then show ?thesis using True token by (intro nth_equalityI) (simp_all add: gathered_lookup_def comp_def)
  next
    case False
    then have tp: "tp = 1" using assms(1) by simp
    have "G 0 ! t = map (\<lambda>id. row_value (table ! nat id)) (ids ! t)" if t: "t < length ids" for t
    proof -
      have "length (G 0 ! t) = L" using G[OF assms(1) t] by simp
      moreover have "L = length sizes"
        using shard_fields(2)[OF assms(3)[OF assms(1)]] by (simp add: L_def tp cdiv_def)
      ultimately show ?thesis using token[OF t] by (simp add: tp)
    qed
    then show ?thesis using len by (intro nth_equalityI) (simp_all add: gathered_lookup_def tp)
  qed
  then show ?thesis by (simp only: G_def[abs_def])
qed

section \<open>The reads fill the buffers in any order\<close>

text \<open>
  What \<open>preadv\<close> promises of a file: it returns a prefix of the wanted bytes, and a non-empty one while
  there are bytes to read.
\<close>

definition preads :: "bytes \<Rightarrow> (nat \<Rightarrow> nat \<Rightarrow> bytes) \<Rightarrow> bool" where
  "preads file preadv \<longleftrightarrow> (\<forall>off n. (\<exists>k \<le> n. preadv off n = take k (drop off file)) \<and>
     (off < length file \<and> 0 < n \<longrightarrow> preadv off n \<noteq> []))"

text \<open>The bytes of a row of a file.\<close>

definition row_slice :: "bytes \<Rightarrow> nat \<Rightarrow> nat \<Rightarrow> nat \<Rightarrow> bytes" where
  "row_slice file base row_bytes r = take row_bytes (drop (base + r * row_bytes) file)"

definition readable :: "bytes \<Rightarrow> read_job \<Rightarrow> bool" where
  "readable file job \<longleftrightarrow> preads file (job_file job) \<and>
     (\<forall>r \<in> set (job_rows job). job_base job + Suc r * job_row_bytes job \<le> length file)"

lemma preads_at_most: "preads file preadv \<Longrightarrow> length (preadv off n) \<le> n"
proof -
  assume "preads file preadv"
  then obtain k where "k \<le> n" "preadv off n = take k (drop off file)" by (auto simp: preads_def)
  then show ?thesis by simp
qed

lemma pread_loop_slice:
  "preads file preadv \<Longrightarrow> off + row_bytes \<le> length file \<Longrightarrow> length view \<le> row_bytes \<Longrightarrow>
   view = take (length view) (drop off file) \<Longrightarrow>
   pread_loop preadv off row_bytes view = Inr (take row_bytes (drop off file))"
proof (induction preadv off row_bytes view rule: pread_loop.induct)
  case (1 preadv off row_bytes view)
  show ?case
  proof (cases "length view < row_bytes")
    case False
    then have "length view = row_bytes" using 1(4) by simp
    then show ?thesis using 1(5) False by (subst pread_loop.simps) simp
  next
    case True
    define chunk where "chunk = preadv (off + length view) (row_bytes - length view)"
    obtain k where k: "k \<le> row_bytes - length view" "chunk = take k (drop (off + length view) file)"
      using 1(2) by (auto simp: preads_def chunk_def)
    have ne: "chunk \<noteq> []" using 1(2,3) True by (auto simp: preads_def chunk_def)
    have len: "length (view @ chunk) = length view + k" using k 1(3) True by simp
    have "view @ chunk = take (length view + k) (drop off file)"
      using k(2) 1(5) by (metis add.commute drop_drop take_add)
    then have "view @ chunk = take (length (view @ chunk)) (drop off file)" "length (view @ chunk) \<le> row_bytes"
      unfolding len using k(1) True by simp_all
    then have "pread_loop preadv off row_bytes (view @ chunk) = Inr (take row_bytes (drop off file))"
      using 1(1)[OF True chunk_def ne 1(2,3)] by blast
    then show ?thesis
      using True ne by (simp add: pread_loop.simps[of preadv off row_bytes view] Let_def flip: chunk_def)
  qed
qed

lemma read_row_slice:
  assumes "readable file job" and "i < length (job_rows job)"
  shows "read_row job i = Inr (row_slice file (job_base job) (job_row_bytes job) (job_rows job ! i))"
  unfolding read_row_def row_slice_def
  by (rule pread_loop_slice) (use assms in \<open>auto simp: readable_def add.commute add.left_commute\<close>)

lemma chunk_of: "i < n \<Longrightarrow> 0 < chunk \<Longrightarrow>
  \<exists>lo \<in> set (range_step 0 n chunk). lo \<le> i \<and> i < min (lo + chunk) n"
proof -
  assume "i < n" "0 < chunk"
  then have "i div chunk * chunk \<in> set (range_step 0 n chunk)" "i < i div chunk * chunk + chunk"
    "i div chunk * chunk \<le> i"
    using dividend_less_div_times[of chunk i]
    by (auto simp: range_step_set add.commute intro: le_less_trans[OF _ \<open>i < n\<close>])
  with \<open>i < n\<close> show ?thesis by (intro bexI[of _ "i div chunk * chunk"]) simp_all
qed

lemma read_tasks_set:
  "set (concat (read_tasks threads max_chunk jobs)) = {(j, i). j < length jobs \<and> i < length (job_rows (jobs ! j))}"
proof -
  define rows where "rows j = length (job_rows (jobs ! j))" for j
  define ts where "ts = sum_list (map (\<lambda>job. length (job_rows job)) jobs)"
  define chunk where "chunk = max 1 (min max_chunk (nat (cdiv (int ts) (int threads))))"
  have chunk: "0 < chunk" by (simp add: chunk_def)
  have rows_le: "rows j \<le> ts" if "j < length jobs" for j
    using that member_le_sum_list[of "rows j" "map (\<lambda>job. length (job_rows job)) jobs"]
    by (simp add: rows_def ts_def image_iff) (metis nth_mem)
  consider "ts = 0" | "ts = 1" | "ts \<noteq> 0" "ts \<noteq> 1" by blast
  then show ?thesis
  proof cases
    case 1
    then have "rows j = 0" if "j < length jobs" for j using rows_le[OF that] by simp
    then show ?thesis using 1 by (auto simp: read_tasks_def ts_def[symmetric] rows_def)
  next
    case 2
    then show ?thesis by (auto simp: read_tasks_def ts_def[symmetric] pread_rows_def)
  next
    case 3
    have "read_tasks threads max_chunk jobs = concat (map (\<lambda>j.
        map (\<lambda>lo. pread_rows jobs j lo (min (lo + chunk) (rows j))) (range_step 0 (rows j) chunk)) [0..<length jobs])"
      using 3 unfolding read_tasks_def Let_def ts_def[symmetric] chunk_def[symmetric] rows_def by simp
    then have tasks: "set (concat (read_tasks threads max_chunk jobs)) = (\<Union>j \<in> {..<length jobs}.
        \<Union>lo \<in> set (range_step 0 (rows j) chunk). set (pread_rows jobs j lo (min (lo + chunk) (rows j))))"
      by (simp add: lessThan_atLeast0)
    have "(\<exists>lo \<in> set (range_step 0 n chunk). lo \<le> i \<and> i < min (lo + chunk) n) \<longleftrightarrow> i < n" for i n
      using chunk_of[OF _ chunk] by auto
    then have "(\<Union>lo \<in> set (range_step 0 (rows j) chunk). set (pread_rows jobs j lo (min (lo + chunk) (rows j)))) =
        {(j, i) |i. i < rows j}" for j
      unfolding pread_rows_def by (auto simp del: min_less_iff_conj) (metis atLeastLessThan_iff image_iff)+
    then show ?thesis unfolding tasks by (auto simp: rows_def)
  qed
qed

lemma run_reads_fill:
  assumes "\<And>j i. (j, i) \<in> set reads \<Longrightarrow> read_row (jobs ! j) i = Inr (row j i)"
  shows "\<exists>bufs'. run_reads jobs reads bufs = Inr bufs' \<and> length bufs' = length bufs \<and>
    (\<forall>j < length bufs. length (bufs' ! j) = length (bufs ! j) \<and>
      (\<forall>i < length (bufs ! j). bufs' ! j ! i = (if (j, i) \<in> set reads then row j i else bufs ! j ! i)))"
  using assms
proof (induction reads arbitrary: bufs)
  case (Cons r reads)
  obtain j i where r: "r = (j, i)" by (cases r)
  define mid where "mid = bufs[j := (bufs ! j)[i := row j i]]"
  have mid: "length mid = length bufs" "\<And>j'. length (mid ! j') = length (bufs ! j')"
    "\<And>j' i'. j' < length bufs \<Longrightarrow> i' < length (bufs ! j') \<Longrightarrow>
       mid ! j' ! i' = (if (j', i') = (j, i) then row j i else bufs ! j' ! i')"
  proof -
    show "length mid = length bufs" by (simp add: mid_def)
    show "length (mid ! j') = length (bufs ! j')" for j'
      unfolding mid_def by (metis length_list_update nth_list_update_eq nth_list_update_neq list_update_beyond not_le)
    show "mid ! j' ! i' = (if (j', i') = (j, i) then row j i else bufs ! j' ! i')"
      if "j' < length bufs" "i' < length (bufs ! j')" for j' i'
      using that by (cases "j' = j"; cases "i' = i") (simp_all add: mid_def)
  qed
  obtain bufs' where "run_reads jobs reads mid = Inr bufs'" "length bufs' = length mid"
    "\<forall>j < length mid. length (bufs' ! j) = length (mid ! j) \<and>
      (\<forall>i < length (mid ! j). bufs' ! j ! i = (if (j, i) \<in> set reads then row j i else mid ! j ! i))"
    using Cons.IH[of mid] Cons.prems by (metis list.set_intros(2))
  moreover have "run_reads jobs (r # reads) bufs = run_reads jobs reads mid"
    using Cons.prems[of j i] by (simp add: r mid_def)
  ultimately show ?case using mid by (auto simp: r)
qed simp

lemma reads_fill_buffers:
  assumes "length files = length jobs" and "\<And>j. j < length jobs \<Longrightarrow> readable (files ! j) (jobs ! j)"
    and "mset schedule = mset (concat (read_tasks threads max_chunk jobs))"
  shows "run_reads jobs schedule (empty_buffers jobs) =
    Inr (map2 (\<lambda>file job. map (row_slice file (job_base job) (job_row_bytes job)) (job_rows job)) files jobs)"
proof -
  define row where "row j i = row_slice (files ! j) (job_base (jobs ! j)) (job_row_bytes (jobs ! j))
    (job_rows (jobs ! j) ! i)" for j i
  have set: "set schedule = {(j, i). j < length jobs \<and> i < length (job_rows (jobs ! j))}"
    using mset_eq_setD[OF assms(3)] read_tasks_set by simp
  have "read_row (jobs ! j) i = Inr (row j i)" if "(j, i) \<in> set schedule" for j i
    using that assms(2) read_row_slice unfolding set row_def by auto
  from run_reads_fill[of schedule jobs row "empty_buffers jobs", OF this]
  obtain bufs where bufs: "run_reads jobs schedule (empty_buffers jobs) = Inr bufs"
    "length bufs = length jobs"
    "\<forall>j < length jobs. length (bufs ! j) = length (job_rows (jobs ! j)) \<and>
      (\<forall>i < length (job_rows (jobs ! j)). bufs ! j ! i = (if (j, i) \<in> set schedule then row j i else empty_buffers jobs ! j ! i))"
    by (auto simp: empty_buffers_def)
  have "bufs = map2 (\<lambda>file job. map (row_slice file (job_base job) (job_row_bytes job)) (job_rows job)) files jobs"
    using bufs(2,3) assms(1) by (intro nth_equalityI) (auto simp: set row_def intro!: nth_equalityI)
  then show ?thesis using bufs(1) by simp
qed

text \<open>
  Whatever order the pool runs the reads of a batch in, and however short the single reads are,
  every buffer ends up with exactly the rows of its file that its job names, each row once per entry.
\<close>

lemma pool_reads_fill_buffers:
  assumes "length files = length jobs" and "\<And>j. j < length jobs \<Longrightarrow> readable (files ! j) (jobs ! j)"
    and "mset schedule = mset (concat (read_tasks threads max_chunk jobs))"
  shows "run_reads jobs schedule (empty_buffers jobs) =
    Inr (map2 (\<lambda>file job. map (row_slice file (job_base job) (job_row_bytes job)) (job_rows job)) files jobs)"
  using assms by (rule reads_fill_buffers)

section \<open>The disk-backed lookup is the kernel's\<close>

text \<open>The rows an opened table reads are the tensor's, from the first row of the shard on.\<close>

lemma opened_rows:
  assumes "disk_engram_table json_header w_file s_file wname sname dim block start rows = Inr t"
    and "open_tensor json_header w_file wname = Inr (w, w_shape)"
    and "open_tensor json_header s_file sname = Inr (s, s_shape)"
  shows "row_slice w_file (w_off t) (row_dim t) r = row_slice w_file w dim (start + r)"
    and "row_slice s_file (s_off t) (scale_dim t) r = row_slice s_file s (dim div block) (start + r)"
proof -
  have "w_off t = w + start * dim" "s_off t = s + start * (dim div block)" "row_dim t = dim" "scale_dim t = dim div block"
    using assms(1) by (auto simp: disk_engram_table_def assms(2,3) Let_def rbind_Inr_iff split: if_split_asm)
  then show "row_slice w_file (w_off t) (row_dim t) r = row_slice w_file w dim (start + r)"
    and "row_slice s_file (s_off t) (scale_dim t) r = row_slice s_file s (dim div block) (start + r)"
    by (simp_all add: row_slice_def add_mult_distrib add.assoc)
qed

text \<open>The id a row of the output looks up: of a local head of a token, or none past the last head.\<close>

definition lane_id :: "engram_embedding \<Rightarrow> int list list \<Rightarrow> nat \<Rightarrow> int" where
  "lane_id emb ids x = (let h = head_start emb + x mod part_cols emb in
     if h < embed_cols emb then ids ! (x div part_cols emb) ! h else -1)"

lemma lookup_lane_id:
  assumes "0 \<le> vocab_start emb"
  shows "lookup_lane emb row_value zero ids x = (let id = lane_id emb ids x in
    if vocab_start emb \<le> id \<and> id < vocab_end emb then row_value (nat (id - vocab_start emb)) else zero)"
  using assms by (simp add: lookup_lane_def lane_id_def Let_def)

lemma padded_row:
  assumes "length row = embed_cols emb"
  shows "(let local = drop (head_start emb) (take (min (head_start emb + part_cols emb) (embed_cols emb)) row)
      in local @ replicate (part_cols emb - length local) (-1)) =
    map (\<lambda>j. let h = head_start emb + j in if h < embed_cols emb then row ! h else -1) [0..<part_cols emb]"
  using assms by (intro nth_equalityI) (auto simp: nth_append Let_def min_def split: if_splits)

lemma padded_rows:
  assumes "list_all (\<lambda>row. length row = embed_cols emb) ids"
  shows "concat (map (\<lambda>l. l @ replicate (part_cols emb - length l) (-1))
      (map (\<lambda>row. drop (head_start emb) (take (min (head_start emb + part_cols emb) (embed_cols emb)) row)) ids)) =
    map (lane_id emb ids) [0..<length ids * part_cols emb]"
proof -
  define L where "L = part_cols emb"
  define pad where "pad row = (let local = drop (head_start emb) (take (min (head_start emb + L) (embed_cols emb)) row)
      in local @ replicate (L - length local) (-1 :: int))" for row
  have block: "pad (ids ! t) = map (lane_id emb ids) [t * L..<t * L + L]" if "t < length ids" for t
  proof -
    have "pad (ids ! t) = map (\<lambda>j. let h = head_start emb + j in if h < embed_cols emb then ids ! t ! h else -1) [0..<L]"
      unfolding pad_def L_def by (rule padded_row) (use assms that in \<open>simp add: list_all_length\<close>)
    also have "\<dots> = map (lane_id emb ids) [t * L..<t * L + L]"
    proof (rule nth_equalityI)
      fix j assume "j < length (map (\<lambda>j. let h = head_start emb + j in if h < embed_cols emb then ids ! t ! h else -1) [0..<L])"
      then have "j < L" by simp
      then have "(t * L + j) mod L = j" "(t * L + j) div L = t" by simp_all
      then show "map (\<lambda>j. let h = head_start emb + j in if h < embed_cols emb then ids ! t ! h else -1) [0..<L] ! j =
          map (lane_id emb ids) [t * L..<t * L + L] ! j"
        using \<open>j < L\<close> by (auto simp: lane_id_def Let_def simp flip: L_def)
    qed simp
    finally show ?thesis .
  qed
  have "map pad ids = map (\<lambda>t. map (lane_id emb ids) [t * L..<t * L + L]) [0..<length ids]"
    using block by (intro nth_equalityI) simp_all
  moreover have "concat (map (\<lambda>l. l @ replicate (part_cols emb - length l) (-1))
      (map (\<lambda>row. drop (head_start emb) (take (min (head_start emb + part_cols emb) (embed_cols emb)) row)) ids)) =
    concat (map pad ids)"
    unfolding pad_def[abs_def] L_def Let_def map_map comp_def ..
  ultimately show ?thesis by (simp only: concat_blocks L_def)
qed

lemma inverse_of_nth:
  assumes "r \<in> set uniq"
  shows "inverse_of uniq r < length uniq" and "uniq ! inverse_of uniq r = r"
proof -
  show lt: "inverse_of uniq r < length uniq"
    unfolding inverse_of_def using assms by (induction uniq) auto
  then show "uniq ! inverse_of uniq r = r"
    unfolding inverse_of_def using nth_length_takeWhile[of "\<lambda>u. u \<noteq> r" uniq] by simp
qed

lemma gather_dequant_one:
  assumes files: "preads w_file w_pread" "preads s_file s_pread"
    and rows: "\<And>r. r \<in> fst ` set rel \<Longrightarrow>
      w_off t + Suc r * row_dim t \<le> length w_file \<and> s_off t + Suc r * scale_dim t \<le> length s_file"
    and order: "\<And>tasks. mset (order tasks) = mset (concat tasks)"
  shows "gather_dequant_many dequant zero order threads max_chunk [((w_pread, s_pread, t), rel)] =
    Inr [map (\<lambda>(r, owned). if owned
        then dequant (row_slice w_file (w_off t) (row_dim t) r) (row_slice s_file (s_off t) (scale_dim t) r)
        else zero) rel]"
proof -
  define uniq where "uniq = unique_rows (map fst rel)"
  have uniq: "set uniq = fst ` set rel" by (simp add: uniq_def unique_rows_def)
  let ?w = "row_slice w_file (w_off t) (row_dim t)" and ?s = "row_slice s_file (s_off t) (scale_dim t)"
  let ?jobs = "read_jobs w_pread s_pread t uniq"
  have reads: "run_reads ?jobs (order (read_tasks threads max_chunk ?jobs)) (empty_buffers ?jobs) =
      Inr [map ?w uniq, map ?s uniq]"
    using files rows by (subst reads_fill_buffers[of "[w_file, s_file]", OF _ _ order])
      (auto simp: read_jobs_def readable_def uniq less_Suc_eq numeral_2_eq_2)
  have row: "map2 dequant (map ?w uniq) (map ?s uniq) ! inverse_of uniq r = dequant (?w r) (?s r)"
    if "r \<in> fst ` set rel" for r
    using inverse_of_nth[of r uniq] that by (simp add: uniq)
  have jobs: "request_jobs [((w_pread, s_pread, t), rel)] = ?jobs" by (simp add: request_jobs_def uniq_def)
  show ?thesis
    unfolding gather_dequant_many_def Let_def jobs reads
    using row by (force simp: image_iff simp flip: uniq_def)
qed

text \<open>
  C18. The lookup of a table that stays on the disk returns exactly what the kernel returns for the same
  shard held in memory, for every batch of ids, whatever order the pool runs the reads in and however
  they are split; of the files it needs only the rows of the shard, or one row if it has none.
\<close>

theorem disk_lookup_is_kernel_lookup:
  assumes "parallel_embedding tp rank rows_total sizes cpu disk uva = Inr emb"
    and "list_all (\<lambda>row. length row = length sizes) ids"
    and "preads w_file w_pread" and "preads s_file s_pread"
    and "w_off t + max 1 (nat (part_num_embeddings emb)) * row_dim t \<le> length w_file"
    and "s_off t + max 1 (nat (part_num_embeddings emb)) * scale_dim t \<le> length s_file"
    and "\<And>tasks. mset (order tasks) = mset (concat tasks)"
    and "length out = length ids * part_cols emb" and "0 < num_sms"
  shows "disk_lookup dequant zero order threads max_chunk (w_pread, s_pread, t) emb False ids =
    Inr (lookup emb num_sms (\<lambda>r. dequant (row_slice w_file (w_off t) (row_dim t) r)
      (row_slice s_file (s_off t) (scale_dim t) r)) zero ids out)"
proof -
  note e = shard_fields[OF assms(1)]
  have start: "0 \<le> vocab_start emb" using take_sum_mono[OF e(6), of 0 "rank * part_cols emb"] e(4) by simp
  define n where "n = max 1 (nat (part_num_embeddings emb))"
  define own where "own id = (let owned = vocab_start emb \<le> id \<and> id < vocab_end emb
      in (if owned then nat (id - vocab_start emb) else 0, owned))" for id
  define local where "local = map (\<lambda>row. drop (head_start emb)
      (take (min (head_start emb + part_cols emb) (embed_cols emb)) row)) ids"
  have rel: "disk_rel_owned emb local = map (\<lambda>x. own (lane_id emb ids x)) [0..<length ids * part_cols emb]"
    unfolding disk_rel_owned_def local_def own_def[symmetric]
    by (subst padded_rows) (use assms(2) e(1) in \<open>simp_all add: comp_def\<close>)
  have bound: "Suc (fst (own id)) \<le> n" for id
    by (auto simp: own_def Let_def n_def part_num_embeddings_def)
  have "w_off t + Suc r * row_dim t \<le> length w_file \<and> s_off t + Suc r * scale_dim t \<le> length s_file"
    if "r \<in> fst ` set (disk_rel_owned emb local)" for r
  proof -
    have "Suc r \<le> n" using that bound by (auto simp: rel)
    then have "Suc r * row_dim t \<le> n * row_dim t" "Suc r * scale_dim t \<le> n * scale_dim t"
      by (simp_all only: mult_le_mono1)
    then show ?thesis using assms(5,6) unfolding n_def[symmetric] by linarith
  qed
  from gather_dequant_one[OF assms(3,4) this assms(7), of "disk_rel_owned emb local", where dequant = dequant and zero = zero and threads = threads and max_chunk = max_chunk]
  have gather: "gather_dequant_many dequant zero order threads max_chunk
      [((w_pread, s_pread, t), disk_rel_owned emb local)] =
    Inr [map (\<lambda>(r, owned). if owned
        then dequant (row_slice w_file (w_off t) (row_dim t) r) (row_slice s_file (s_off t) (scale_dim t) r)
        else zero) (disk_rel_owned emb local)]" by blast
  show ?thesis unfolding disk_lookup_def Let_def if_False local_def[symmetric] gather
    by (simp add: lookup_is_map[OF assms(8,9)] rel lookup_lane_id[OF start] comp_def own_def Let_def)
qed

text \<open>Two ranks, three heads of 2, 3 and 2 buckets (the second rank has a padded head), two tokens.\<close>

definition demo_shard :: "nat \<Rightarrow> engram_embedding" where
  "demo_shard rank = (if rank = 0
     then \<lparr>embed_cols = 3, part_cols = 2, head_start = 0, vocab_start = 0, vocab_end = 5\<rparr>
     else \<lparr>embed_cols = 3, part_cols = 2, head_start = 2, vocab_start = 5, vocab_end = 7\<rparr>)"

lemma demo_shard_ranks:
  "rank < 2 \<Longrightarrow> parallel_embedding 2 rank 7 [2, 3, 2] False False True = Inr (demo_shard rank)"
proof -
  assume "rank < 2"
  then consider "rank = 0" | "rank = 1" by (auto simp: less_2_cases_iff)
  then show ?thesis
  proof cases
    case 1
    have "parallel_embedding 2 0 7 [2, 3, 2] False False True = Inr (demo_shard 0)" by code_simp
    then show ?thesis by (simp only: 1)
  next
    case 2
    have "parallel_embedding 2 1 7 [2, 3, 2] False False True = Inr (demo_shard 1)" by code_simp
    then show ?thesis by (simp only: 2)
  qed
qed

definition demo_ids :: "int list list" where
  "demo_ids = [[1, 2, 5], [0, 4, 6]]"

definition demo_table :: "nat list" where
  "demo_table = [10, 11, 12, 13, 14, 15, 16]"

definition demo_part :: "nat \<Rightarrow> nat list" where
  "demo_part rank = (if rank = 0 then take 5 demo_table else drop 5 demo_table)"

theorem sharded_lookup_is_table_witness:
  "gathered_lookup 2 (length [2, 3, 2 :: int]) (map (\<lambda>rank. by_token (length demo_ids) (part_cols (demo_shard rank))
      (lookup (demo_shard rank) 2 (\<lambda>r. Suc (demo_part rank ! r)) 0 demo_ids [9, 9, 9, 9])) [0..<2]) =
    map (map (\<lambda>i. Suc (demo_table ! nat i))) demo_ids"
proof (rule sharded_lookup_is_table[where rows_total = 7 and cpu = False and disk = False and uva = True])
  show "parallel_embedding 2 rank 7 [2, 3, 2] False False True = Inr (demo_shard rank)" if "rank < 2" for rank
    using that by (rule demo_shard_ranks)
  show "head_shard_weight_loader (demo_shard rank) demo_table = Inr (demo_part rank)" if "rank < 2" for rank
    by (simp add: demo_shard_def demo_part_def demo_table_def head_shard_weight_loader_def part_num_embeddings_def
        Let_def)
  show "length [9, 9, 9, 9] = length demo_ids * part_cols (demo_shard rank)" for rank
    by (simp add: demo_shard_def demo_ids_def)
  show "ids_in_buckets [2, 3, 2] demo_ids" by code_simp
qed simp_all

text \<open>A file read at most two bytes at a time, and a pool that runs the last task first.\<close>

definition demo_file :: bytes where
  "demo_file = [1, 2, 3, 4, 5, 6, 7, 8, 9]"

definition demo_pread :: "nat \<Rightarrow> nat \<Rightarrow> bytes" where
  "demo_pread off n = take (min 2 n) (drop off demo_file)"

lemma demo_preads: "preads demo_file demo_pread"
  unfolding preads_def demo_pread_def
  by (intro allI conjI impI exI[of _ "min 2 _"]) auto

definition demo_jobs :: "read_job list" where
  "demo_jobs = [\<lparr>job_file = demo_pread, job_base = 0, job_rows = [2, 0], job_row_bytes = 3\<rparr>,
     \<lparr>job_file = demo_pread, job_base = 1, job_rows = [1], job_row_bytes = 2\<rparr>]"

theorem pool_reads_fill_buffers_witness:
  "run_reads demo_jobs [(1, 0), (0, 1), (0, 0)] (empty_buffers demo_jobs) =
    Inr (map2 (\<lambda>file job. map (row_slice file (job_base job) (job_row_bytes job)) (job_rows job))
      [demo_file, demo_file] demo_jobs)"
proof (rule pool_reads_fill_buffers[where threads = 2 and max_chunk = 8])
  show "readable ([demo_file, demo_file] ! j) (demo_jobs ! j)" if "j < length demo_jobs" for j
    using that demo_preads by (auto simp: demo_jobs_def readable_def demo_file_def less_Suc_eq)
  have "concat (read_tasks 2 8 demo_jobs) = [(0, 0), (0, 1), (1, 0)]" by code_simp
  then show "mset [(1, 0), (0, 1), (0, 0)] = mset (concat (read_tasks 2 8 demo_jobs))" by simp
qed (simp add: demo_jobs_def)

theorem disk_lookup_is_kernel_lookup_witness:
  "disk_lookup (\<lambda>w s. sum_list w * sum_list s) 0 (\<lambda>tasks. rev (concat tasks)) 2 8
      (demo_pread, demo_pread, \<lparr>w_off = 0, s_off = 3, row_dim = 2, scale_dim = 1, row_start = 5, num_rows = 2\<rparr>)
      (demo_shard 1) False demo_ids =
    Inr (lookup (demo_shard 1) 2 (\<lambda>r. sum_list (row_slice demo_file 0 2 r) * sum_list (row_slice demo_file 3 1 r)) 0
      demo_ids [9, 9, 9, 9])"
  using disk_lookup_is_kernel_lookup[of 2 1 7 "[2, 3, 2]" False False True "demo_shard 1" demo_ids
      demo_file demo_pread demo_file demo_pread
      "\<lparr>w_off = 0, s_off = 3, row_dim = 2, scale_dim = 1, row_start = 5, num_rows = 2\<rparr>"
      "\<lambda>tasks. rev (concat tasks)" "[9, 9, 9, 9]" 2 "\<lambda>w s. sum_list w * sum_list s" 0 2 8]
    demo_shard_ranks[of 1] demo_preads
  by (simp add: demo_shard_def part_num_embeddings_def demo_file_def demo_ids_def)

end
