(* ===== verification/Serving_Text.thy ===== *)
theory Serving_Text
  imports Runtime_Base
begin

text \<open>
  The text the server of \<^verbatim>\<open>cuda-gb10-exllamav3-dsv41/server\<close> writes: Python strings as lists of code points,
  the values it serialises with \<open>json.dumps\<close> (\<open>ensure_ascii\<close> on, the default separators), and the frames
  of a server-sent event stream (\<open>_sse\<close> of \<^verbatim>\<open>app.py\<close>). The main results: serialised values hold no line
  break, so that a client that cuts the stream at blank lines gets back the serialised values one by
  one, and a client that undoes the escapes of a string gets back the string.
\<close>

section \<open>Strings and values\<close>

type_synonym pystr = "nat list"

definition str :: "string \<Rightarrow> pystr" where
  "str s = map of_char s"

lemma str_simps [simp]: "str [] = []" "str (c # s) = of_char c # str s"
  by (simp_all add: str_def)

text \<open>The values the server serialises.\<close>

datatype json =
    JNull
  | JBool bool
  | JInt int
  | JStr pystr
  | JList "json list"
  | JObj "(pystr \<times> json) list"

section \<open>json.dumps\<close>

definition hex_digit :: "nat \<Rightarrow> nat" where
  "hex_digit d = (if d < 10 then 48 + d else 87 + d)"

text \<open>\<open>'\\u{0:04x}'.format(n)\<close>, for numbers below \<open>65536\<close>.\<close>

definition u_escape :: "nat \<Rightarrow> pystr" where
  "u_escape n = [92, 117, hex_digit (n div 4096 mod 16), hex_digit (n div 256 mod 16),
     hex_digit (n div 16 mod 16), hex_digit (n mod 16)]"

definition escape_char :: "nat \<Rightarrow> pystr" where
  "escape_char c =
     (if c = 34 then [92, 34]
      else if c = 92 then [92, 92]
      else if c = 10 then [92, 110]
      else if c = 13 then [92, 114]
      else if c = 9 then [92, 116]
      else if c = 12 then [92, 102]
      else if c = 8 then [92, 98]
      else if 32 \<le> c \<and> c \<le> 126 then [c]
      else if c < 65536 then u_escape c
      else u_escape (55296 + (c - 65536) div 1024 mod 1024) @ u_escape (56320 + (c - 65536) mod 1024))"

definition escape :: "pystr \<Rightarrow> pystr" where
  "escape s = concat (map escape_char s)"

definition dumps_str :: "pystr \<Rightarrow> pystr" where
  "dumps_str s = 34 # escape s @ [34]"

fun digits :: "nat \<Rightarrow> pystr" where
  "digits n = (if n < 10 then [48 + n] else digits (n div 10) @ [48 + n mod 10])"

declare digits.simps [simp del]

definition dumps_int :: "int \<Rightarrow> pystr" where
  "dumps_int n = (if n < 0 then 45 # digits (nat (- n)) else digits (nat n))"

text \<open>\<open>', '.join(...)\<close>.\<close>

fun joined :: "pystr list \<Rightarrow> pystr" where
  "joined [] = []"
| "joined [x] = x"
| "joined (x # y # xs) = x @ str '', '' @ joined (y # xs)"

fun dumps :: "json \<Rightarrow> pystr"
  and dumps_list :: "json list \<Rightarrow> pystr list"
  and dumps_items :: "(pystr \<times> json) list \<Rightarrow> pystr list" where
  "dumps JNull = str ''null''"
| "dumps (JBool b) = (if b then str ''true'' else str ''false'')"
| "dumps (JInt n) = dumps_int n"
| "dumps (JStr s) = dumps_str s"
| "dumps (JList xs) = 91 # joined (dumps_list xs) @ [93]"
| "dumps (JObj items) = 123 # joined (dumps_items items) @ [125]"
| "dumps_list [] = []"
| "dumps_list (x # xs) = dumps x # dumps_list xs"
| "dumps_items [] = []"
| "dumps_items ((k, v) # items) = (dumps_str k @ str '': '' @ dumps v) # dumps_items items"

text \<open>One event; an event name is written before it when there is one.\<close>

definition sse :: "json \<Rightarrow> pystr option \<Rightarrow> pystr" where
  "sse payload event =
     (let line = str ''data: '' @ dumps payload @ [10, 10] in
      case event of
        Some e \<Rightarrow> if e \<noteq> [] then str ''event: '' @ e @ [10] @ line else line
      | None \<Rightarrow> line)"

section \<open>No line break in a serialised value\<close>

definition printable :: "pystr \<Rightarrow> bool" where
  "printable s \<longleftrightarrow> list_all (\<lambda>c. 32 \<le> c \<and> c \<le> 126) s"

lemma printable_simps [simp]:
  "printable []" "printable (c # s) \<longleftrightarrow> 32 \<le> c \<and> c \<le> 126 \<and> printable s"
  "printable (s @ t) \<longleftrightarrow> printable s \<and> printable t"
  by (auto simp: printable_def)

lemma hex_digit_printable: "d < 16 \<Longrightarrow> 32 \<le> hex_digit d \<and> hex_digit d \<le> 126"
  by (simp add: hex_digit_def)

lemma u_escape_printable: "printable (u_escape n)"
  by (simp add: u_escape_def hex_digit_printable)

lemma escape_printable: "printable (escape s)"
  by (induction s) (simp_all add: escape_def escape_char_def u_escape_printable)

lemma digits_printable: "printable (digits n)"
proof (induction n rule: digits.induct)
  case (1 n)
  have "n mod 10 \<le> 78" using mod_less_divisor[of 10 n] by linarith
  with 1 show ?case by (subst digits.simps) simp
qed

lemma joined_printable: "list_all printable xs \<Longrightarrow> printable (joined xs)"
  by (induction xs rule: joined.induct) auto

lemma dumps_printable:
  "printable (dumps j)" "list_all printable (dumps_list xs)" "list_all printable (dumps_items items)"
  by (induction j and xs and items rule: dumps_dumps_list_dumps_items.induct)
    (auto simp: dumps_str_def dumps_int_def escape_printable digits_printable joined_printable)

lemma printable_no_newline: "printable s \<Longrightarrow> 10 \<notin> set s"
  by (induction s) auto

section \<open>What a client reads\<close>

text \<open>A client cuts the stream at the blank lines.\<close>

fun frames :: "pystr \<Rightarrow> pystr \<Rightarrow> pystr list" where
  "frames acc [] = (if acc = [] then [] else [acc])"
| "frames acc [c] = [acc @ [c]]"
| "frames acc (c # d # s) =
     (if c = 10 \<and> d = 10 then acc # frames [] s else frames (acc @ [c]) (d # s))"

lemma frames_line: "10 \<notin> set x \<Longrightarrow> frames acc (x @ 10 # 10 # s) = (acc @ x) # frames [] s"
proof (induction x arbitrary: acc)
  case (Cons c x)
  then show ?case by (cases "x @ 10 # 10 # s") (auto split: if_splits)
qed simp

text \<open>The line of an event without a name.\<close>

definition data_line :: "json \<Rightarrow> pystr" where
  "data_line payload = str ''data: '' @ dumps payload"

lemma frames_sse: "frames [] (sse payload None @ s) = data_line payload # frames [] s"
  using frames_line[of "data_line payload" "[]" s] printable_no_newline[OF dumps_printable(1)[of payload]]
  by (simp add: sse_def data_line_def)

lemma frames_stream:
  "frames [] (concat (map (\<lambda>p. sse p None) payloads) @ s) = map data_line payloads @ frames [] s"
  by (induction payloads) (simp_all add: frames_sse)

text \<open>Reading a string: first its UTF-16 units, then the characters.\<close>

definition from_hex :: "nat \<Rightarrow> nat" where
  "from_hex c = (if c < 58 then c - 48 else c - 87)"

definition simple_escape :: "nat \<Rightarrow> nat" where
  "simple_escape e = (if e = 110 then 10 else if e = 114 then 13 else if e = 116 then 9
     else if e = 102 then 12 else if e = 98 then 8 else e)"

fun units :: "pystr \<Rightarrow> nat list" where
  "units [] = []"
| "units (c # s) =
     (if c = 92 then
        (case s of
           [] \<Rightarrow> []
         | e # t \<Rightarrow>
             if e = 117 then
               (case t of
                  h1 # h2 # h3 # h4 # u \<Rightarrow>
                    (from_hex h1 * 4096 + from_hex h2 * 256 + from_hex h3 * 16 + from_hex h4) # units u
                | _ \<Rightarrow> [])
             else simple_escape e # units t)
      else c # units s)"

fun join_units :: "nat list \<Rightarrow> pystr" where
  "join_units [] = []"
| "join_units [u] = [u]"
| "join_units (u # v # us) =
     (if 55296 \<le> u \<and> u < 56320 \<and> 56320 \<le> v \<and> v < 57344
      then (65536 + (u - 55296) * 1024 + (v - 56320)) # join_units us
      else u # join_units (v # us))"

definition unescape :: "pystr \<Rightarrow> pystr" where
  "unescape s = join_units (units s)"

text \<open>A character that is not half of a surrogate pair.\<close>

definition scalar :: "nat \<Rightarrow> bool" where
  "scalar c \<longleftrightarrow> c < 1114112 \<and> \<not> (55296 \<le> c \<and> c < 57344)"

definition char_units :: "nat \<Rightarrow> nat list" where
  "char_units c = (if c < 65536 then [c]
     else [55296 + (c - 65536) div 1024 mod 1024, 56320 + (c - 65536) mod 1024])"

lemma from_hex_digit: "d < 16 \<Longrightarrow> from_hex (hex_digit d) = d"
  by (auto simp: from_hex_def hex_digit_def)

lemma hex_digits_value:
  "n < 65536 \<Longrightarrow> n div 4096 mod 16 * 4096 + n div 256 mod 16 * 256 + n div 16 mod 16 * 16 + n mod 16 = (n :: nat)"
proof -
  assume n: "n < 65536"
  define a b c where "a = n div 16" and "b = a div 16" and "c = b div 16"
  have "n div 256 = b" "n div 4096 = c" unfolding a_def b_def c_def by (simp_all flip: div_mult2_eq)
  moreover have "c < 16" using n by (simp add: a_def b_def c_def less_mult_imp_div_less flip: div_mult2_eq)
  moreover have "n = a * 16 + n mod 16" "a = b * 16 + a mod 16" "b = c * 16 + b mod 16"
    unfolding c_def b_def a_def by (simp_all only: div_mult_mod_eq)
  ultimately show ?thesis unfolding a_def[symmetric] by (simp only: mod_less)
qed

lemma units_u_escape: "n < 65536 \<Longrightarrow> units (u_escape n @ s) = n # units s"
proof -
  assume n: "n < 65536"
  have "units (u_escape n @ s) =
      (n div 4096 mod 16 * 4096 + n div 256 mod 16 * 256 + n div 16 mod 16 * 16 + n mod 16) # units s"
    by (simp add: u_escape_def from_hex_digit)
  then show ?thesis by (simp only: hex_digits_value[OF n])
qed

lemma units_escape_char: "units (escape_char c @ s) = char_units c @ units s"
proof -
  consider "c < 65536" | "65536 \<le> c" by linarith
  then show ?thesis
  proof cases
    case 1
    then show ?thesis
      by (simp add: escape_char_def simple_escape_def char_units_def units_u_escape)
  next
    case 2
    then show ?thesis by (simp add: escape_char_def char_units_def units_u_escape)
  qed
qed

lemma units_escape: "units (escape s) = concat (map char_units s)"
  by (induction s) (simp_all add: escape_def units_escape_char)

lemma join_units_plain:
  "scalar c \<Longrightarrow> c < 65536 \<Longrightarrow> join_units (c # us) = c # join_units us"
  by (cases us) (auto simp: scalar_def)

lemma unescape_escape: "list_all scalar s \<Longrightarrow> unescape (escape s) = s"
proof (induction s)
  case Nil then show ?case by (simp add: unescape_def escape_def)
next
  case (Cons c s)
  have IH: "join_units (concat (map char_units s)) = s"
    using Cons by (simp add: unescape_def units_escape)
  show ?case
  proof (cases "c < 65536")
    case True
    then show ?thesis
      using Cons.prems IH by (simp add: unescape_def units_escape char_units_def join_units_plain)
  next
    case False
    define d where "d = c - 65536"
    have d: "c = 65536 + d" "d < 1048576" using Cons.prems False by (auto simp: d_def scalar_def)
    then have "d div 1024 < 1024" by (simp add: less_mult_imp_div_less)
    moreover have "d div 1024 * 1024 + d mod 1024 = d" by simp
    ultimately show ?thesis
      using IH d(1) by (simp add: unescape_def units_escape char_units_def)
  qed
qed

end
