(* ===== verification/Serving_Engine.thy ===== *)
theory Serving_Engine
  imports Serving_Text Py_Text Complex_Main
begin

text \<open>
  The engine of the native server (\<^verbatim>\<open>server/engine.py\<close>): its settings, the load with its reported
  states, and generation behind one lock. exllamav3 is an argument, a record of the calls the code
  makes. The load thread and the requests run concurrently: they are the steps of a transition
  relation on the state they share. The main results: at most one request drives the generator, and
  only when the model is there; readiness is never lost; every completed request got its own text if
  no stream was abandoned; and the text of an abandoned stream goes to the next one.
\<close>

section \<open>The library\<close>

text \<open>A failure is the class of the exception and its message.\<close>

type_synonym failure = "pystr \<times> pystr"
type_synonym 'a lib = "failure + 'a"

definition lbind :: "'a lib \<Rightarrow> ('a \<Rightarrow> 'b lib) \<Rightarrow> 'b lib" where
  "lbind m f = (case m of Inl e \<Rightarrow> Inl e | Inr x \<Rightarrow> f x)"

lemma lbind_simps [simp]: "lbind (Inl e) f = Inl e" "lbind (Inr x) f = f x"
  by (simp_all add: lbind_def)

lemma lbind_Inr_iff [res_simps]: "lbind m f = Inr y \<longleftrightarrow> (\<exists>x. m = Inr x \<and> f x = Inr y)"
  by (cases m) auto

text \<open>What \<open>encode\<close> returns: a tensor, with a shape, or a plain list.\<close>

datatype encoded = Tensor (tensor_shape: "nat list") (tensor_ids: "int list") | Plain "int list"

record sampler =
  sampler_temperature :: real
  sampler_top_p :: real
  temperature_last :: bool

record job =
  job_input :: encoded
  job_max_new_tokens :: int
  job_stop :: "int list"
  job_sampler :: sampler
  job_identifier :: nat

record generate_call =
  call_prompt :: pystr
  call_stop :: "int list"
  call_max_new_tokens :: int
  call_sampler :: sampler
  call_completion_only :: bool
  call_add_bos :: bool

record ('m, 'k, 't) generator_args =
  arg_model :: 'm
  arg_cache :: 'k
  arg_tokenizer :: 't
  arg_draft_model :: "'m option"
  arg_draft_cache :: "'k option"
  arg_draft_tokens :: "int option"
  arg_dynamic_draft :: bool
  arg_draft_confidence :: real

text \<open>One result of \<open>iterate\<close>: \<open>result.get("identifier")\<close> and \<open>result.get("text", "")\<close>.\<close>

record gen_result =
  result_identifier :: "nat option"
  result_text :: pystr

record ('c, 'm, 'k, 't, 'g) exllama =
  config_from_directory :: "pystr \<Rightarrow> 'c lib"
  model_from_config :: "'c \<Rightarrow> pystr option \<Rightarrow> 'm lib"
  new_cache :: "'m \<Rightarrow> int \<Rightarrow> int option \<Rightarrow> int option \<Rightarrow> 'k lib"
  load_model :: "'m \<Rightarrow> pystr \<Rightarrow> 'm lib"
  default_draft_size :: "'m \<Rightarrow> int option"
  tokenizer_from_config :: "'c \<Rightarrow> 't lib"
  new_generator :: "('m, 'k, 't) generator_args \<Rightarrow> 'g lib"
  encode :: "'t \<Rightarrow> pystr \<Rightarrow> bool \<Rightarrow> encoded lib"
  eos_token_id :: "'t \<Rightarrow> int"
  enqueue :: "'g \<Rightarrow> job \<Rightarrow> 'g"
  num_remaining_jobs :: "'g \<Rightarrow> nat"
  iterate :: "'g \<Rightarrow> (gen_result list \<times> 'g) lib"
  lib_generate :: "'g \<Rightarrow> generate_call \<Rightarrow> (pystr \<times> 'g) lib"

section \<open>The engine\<close>

datatype load_state = Idle | Loading | Ready | Failed

record ('m, 'k, 't, 'g) engine =
  model_dir :: pystr
  draft_model_dir :: pystr
  device :: pystr
  cache_tokens :: int
  max_batch :: int
  mtp_draft :: bool
  draft_tokens :: "int option"
  dynamic_draft :: bool
  draft_confidence :: real
  engine_state :: load_state
  engine_error :: pystr
  model_name :: pystr
  engine_model :: "'m option"
  engine_cache :: "'k option"
  engine_tokenizer :: "'t option"
  engine_generator :: "'g option"

definition from_env ::
    "(string \<Rightarrow> real option) \<Rightarrow> (string \<Rightarrow> string option) \<Rightarrow> ('m, 'k, 't, 'g) engine res" where
  "from_env py_float env =
     rbind (env_int env ''EXL3_CACHE_TOKENS'' 32768) (\<lambda>cache.
     rbind (env_int env ''EXL3_MAX_BATCH'' 1) (\<lambda>batch.
     rbind (let d = env_or env ''EXL3_DRAFT_TOKENS'' '''' in
            if d \<noteq> [] then rbind (py_int d) (\<lambda>n. Inr (Some n)) else Inr None) (\<lambda>draft.
     rbind (case env ''EXL3_DRAFT_CONF'' of None \<Rightarrow> Inr (2 / 5) | Some v \<Rightarrow> some_or ValueError (py_float v)) (\<lambda>conf.
       Inr \<lparr>model_dir = str (env_or env ''EXL3_MODEL_DIR'' ''/models''),
         draft_model_dir = str (env_or env ''EXL3_DRAFT_MODEL_DIR'' ''''),
         device = str (env_or env ''EXL3_DEVICE'' ''cuda:0''),
         cache_tokens = cache, max_batch = batch,
         mtp_draft = (env_or env ''EXL3_MTP'' ''0'' = ''1''),
         draft_tokens = draft,
         dynamic_draft = (env_or env ''EXL3_DYNAMIC_DRAFT'' ''0'' = ''1''),
         draft_confidence = conf, engine_state = Idle, engine_error = [], model_name = [],
         engine_model = None, engine_cache = None, engine_tokenizer = None, engine_generator = None\<rparr>))))"

section \<open>Loading\<close>

text \<open>The drafter of a directory of its own, or none.\<close>

definition load_drafter ::
    "('c, 'm, 'k, 't, 'g) exllama \<Rightarrow> ('m, 'k, 't, 'g) engine \<Rightarrow> ('m \<times> 'k) option lib" where
  "load_drafter lib e =
     (if draft_model_dir e = [] then Inr None
      else
        lbind (config_from_directory lib (draft_model_dir e)) (\<lambda>c.
        lbind (model_from_config lib c None) (\<lambda>m.
        lbind (new_cache lib m (cache_tokens e) None None) (\<lambda>k.
        lbind (load_model lib m (device e)) (\<lambda>m. Inr (Some (m, k)))))))"

text \<open>The drafter that is a component of the main checkpoint, unless there is one already.\<close>

definition mtp_drafter ::
    "('c, 'm, 'k, 't, 'g) exllama \<Rightarrow> ('m, 'k, 't, 'g) engine \<Rightarrow> 'c \<Rightarrow> ('m \<times> 'k) option \<Rightarrow> ('m \<times> 'k) option lib" where
  "mtp_drafter lib e config draft =
     (if mtp_draft e \<and> draft = None then
        lbind (model_from_config lib config (Some (str ''mtp''))) (\<lambda>m.
        lbind (new_cache lib m (cache_tokens e) (Some (max_batch e)) None) (\<lambda>k.
        lbind (load_model lib m (device e)) (\<lambda>m. Inr (Some (m, k)))))
      else Inr draft)"

definition rstrip_slash :: "pystr \<Rightarrow> pystr" where
  "rstrip_slash s = rev (dropWhile (\<lambda>c. c = 47) (rev s))"

definition basename :: "pystr \<Rightarrow> pystr" where
  "basename s = rev (takeWhile (\<lambda>c. c \<noteq> 47) (rev s))"

text \<open>The message about a missing directory is given without the path.\<close>

definition load_locked ::
    "('c, 'm, 'k, 't, 'g) exllama \<Rightarrow> (pystr \<Rightarrow> bool) \<Rightarrow> ('m, 'k, 't, 'g) engine \<Rightarrow> ('m, 'k, 't, 'g) engine lib" where
  "load_locked lib isdir e =
     (if model_dir e = [] \<or> \<not> isdir (model_dir e)
      then Inl (str ''EngineError'', str ''model directory not found'')
      else
        lbind (load_drafter lib e) (\<lambda>draft.
        lbind (config_from_directory lib (model_dir e)) (\<lambda>config.
        lbind (model_from_config lib config None) (\<lambda>model.
        lbind (mtp_drafter lib e config draft) (\<lambda>draft.
        lbind (new_cache lib model (cache_tokens e) (Some (max_batch e))
            (Some (case draft of
                None \<Rightarrow> 0
              | Some (m, _) \<Rightarrow> (case default_draft_size lib m of None \<Rightarrow> 4 | Some n \<Rightarrow> n)))) (\<lambda>cache.
        lbind (load_model lib model (device e)) (\<lambda>model.
        lbind (tokenizer_from_config lib config) (\<lambda>tokenizer.
        lbind (new_generator lib
            \<lparr>arg_model = model, arg_cache = cache, arg_tokenizer = tokenizer,
             arg_draft_model = map_option fst draft, arg_draft_cache = map_option snd draft,
             arg_draft_tokens = draft_tokens e, arg_dynamic_draft = dynamic_draft e,
             arg_draft_confidence = draft_confidence e\<rparr>) (\<lambda>generator.
          Inr (e\<lparr>engine_model := Some model, engine_cache := Some cache, engine_tokenizer := Some tokenizer,
            engine_generator := Some generator,
            model_name := (let b = basename (rstrip_slash (model_dir e)) in
              if b = [] then str ''exllamav3'' else b)\<rparr>))))))))))"

text \<open>The critical sections of \<open>load\<close>: the start, unless the model is ready, and the two ends.\<close>

definition begin_load :: "('m, 'k, 't, 'g) engine \<Rightarrow> ('m, 'k, 't, 'g) engine option" where
  "begin_load e = (if engine_state e = Ready then None else Some (e\<lparr>engine_state := Loading, engine_error := []\<rparr>))"

definition fail_load :: "failure \<Rightarrow> ('m, 'k, 't, 'g) engine \<Rightarrow> ('m, 'k, 't, 'g) engine" where
  "fail_load f e = e\<lparr>engine_state := Failed, engine_error := fst f @ str '': '' @ snd f\<rparr>"

definition finish_load :: "('m, 'k, 't, 'g) engine \<Rightarrow> ('m, 'k, 't, 'g) engine" where
  "finish_load e = e\<lparr>engine_state := Ready\<rparr>"

text \<open>The whole load; the flag says whether it raises.\<close>

definition load ::
    "('c, 'm, 'k, 't, 'g) exllama \<Rightarrow> (pystr \<Rightarrow> bool) \<Rightarrow> bool \<Rightarrow> ('m, 'k, 't, 'g) engine \<Rightarrow>
       ('m, 'k, 't, 'g) engine \<times> bool" where
  "load lib isdir require_model e =
     (case begin_load e of
        None \<Rightarrow> (e, False)
      | Some e \<Rightarrow>
          (case load_locked lib isdir e of
             Inl f \<Rightarrow> (fail_load f e, require_model)
           | Inr e \<Rightarrow> (finish_load e, False)))"

section \<open>Introspection\<close>

definition is_ready :: "('m, 'k, 't, 'g) engine \<Rightarrow> bool" where
  "is_ready e \<longleftrightarrow> engine_state e = Ready"

definition state_name :: "load_state \<Rightarrow> pystr" where
  "state_name s = (case s of Idle \<Rightarrow> str ''idle'' | Loading \<Rightarrow> str ''loading'' | Ready \<Rightarrow> str ''ready'' | Failed \<Rightarrow> str ''failed'')"

definition snapshot :: "('m, 'k, 't, 'g) engine \<Rightarrow> (pystr \<times> json) list" where
  "snapshot e =
     [(str ''status'', JStr (state_name (engine_state e))),
      (str ''model_loaded'', JBool (engine_state e = Ready)),
      (str ''model'', JStr (model_name e)),
      (str ''model_dir'', JStr (model_dir e)),
      (str ''draft_model_dir'', JStr (draft_model_dir e)),
      (str ''error'', JStr (engine_error e))]"

definition count_tokens ::
    "('c, 'm, 'k, 't, 'g) exllama \<Rightarrow> ('m, 'k, 't, 'g) engine \<Rightarrow> pystr \<Rightarrow> bool \<Rightarrow> nat lib" where
  "count_tokens lib e text add_bos =
     (case engine_tokenizer e of
        None \<Rightarrow> Inr 0
      | Some t \<Rightarrow>
          if text = [] then Inr 0
          else lbind (encode lib t text add_bos) (\<lambda>ids. case ids of
              Tensor shape _ \<Rightarrow> if shape = [] then Inl (str ''IndexError'', str ''tuple index out of range'') else Inr (last shape)
            | Plain xs \<Rightarrow> Inr (length xs)))"

section \<open>Generation\<close>

record request =
  req_prompt :: pystr
  req_max_tokens :: int
  req_temperature :: real
  req_top_p :: real
  req_stream :: bool

text \<open>The identifier of every job: the server leaves \<open>stream\<close>'s default.\<close>

definition default_identifier :: nat where "default_identifier = 0"

definition make_sampler :: "real \<Rightarrow> real \<Rightarrow> sampler" where
  "make_sampler temperature top_p =
     \<lparr>sampler_temperature = temperature, sampler_top_p = top_p, temperature_last = True\<rparr>"

definition no_attribute :: failure where
  "no_attribute = (str ''AttributeError'', str ''NoneType'')"

definition generate_text ::
    "('c, 'm, 'k, 't, 'g) exllama \<Rightarrow> ('m, 'k, 't, 'g) engine \<Rightarrow> request \<Rightarrow> (pystr \<times> ('m, 'k, 't, 'g) engine) lib" where
  "generate_text lib e q =
     (case (engine_tokenizer e, engine_generator e) of
        (Some t, Some g) \<Rightarrow>
          lbind (lib_generate lib g
            \<lparr>call_prompt = req_prompt q, call_stop = [eos_token_id lib t], call_max_new_tokens = req_max_tokens q,
             call_sampler = make_sampler (req_temperature q) (req_top_p q), call_completion_only = True,
             call_add_bos = True\<rparr>) (\<lambda>(text, g). Inr (text, e\<lparr>engine_generator := Some g\<rparr>))
      | _ \<Rightarrow> Inl no_attribute)"

definition stream_job :: "('c, 'm, 'k, 't, 'g) exllama \<Rightarrow> 't \<Rightarrow> request \<Rightarrow> encoded \<Rightarrow> job" where
  "stream_job lib t q ids =
     \<lparr>job_input = ids, job_max_new_tokens = req_max_tokens q, job_stop = [eos_token_id lib t],
      job_sampler = make_sampler (req_temperature q) (req_top_p q), job_identifier = default_identifier\<rparr>"

text \<open>The three parts of \<open>stream\<close> under the lock: up to the loop, its condition, and one call of \<open>iterate\<close>.\<close>

definition stream_begin ::
    "('c, 'm, 'k, 't, 'g) exllama \<Rightarrow> ('m, 'k, 't, 'g) engine \<Rightarrow> request \<Rightarrow> ('m, 'k, 't, 'g) engine lib" where
  "stream_begin lib e q =
     (case engine_tokenizer e of
        None \<Rightarrow> Inl no_attribute
      | Some t \<Rightarrow>
          lbind (encode lib t (req_prompt q) True) (\<lambda>ids.
            case engine_generator e of
              None \<Rightarrow> Inl no_attribute
            | Some g \<Rightarrow> Inr (e\<lparr>engine_generator := Some (enqueue lib g (stream_job lib t q ids))\<rparr>)))"

definition stream_more :: "('c, 'm, 'k, 't, 'g) exllama \<Rightarrow> ('m, 'k, 't, 'g) engine \<Rightarrow> bool" where
  "stream_more lib e = (case engine_generator e of None \<Rightarrow> False | Some g \<Rightarrow> num_remaining_jobs lib g \<noteq> 0)"

definition stream_iterate ::
    "('c, 'm, 'k, 't, 'g) exllama \<Rightarrow> ('m, 'k, 't, 'g) engine \<Rightarrow> (gen_result list \<times> ('m, 'k, 't, 'g) engine) lib" where
  "stream_iterate lib e =
     (case engine_generator e of
        None \<Rightarrow> Inl no_attribute
      | Some g \<Rightarrow> lbind (iterate lib g) (\<lambda>(rs, g). Inr (rs, e\<lparr>engine_generator := Some g\<rparr>)))"

section \<open>The load thread and the requests side by side\<close>

text \<open>
  A request that was let in holds a generator function that has not run, is inside it (the results
  still to look at, and whether it is suspended at a \<open>yield\<close>), or is over.
\<close>

datatype phase =
    Absent
  | Refused
  | Accepted
  | Streaming "gen_result list" bool
  | Completed
  | Broken failure
  | Abandoned

datatype loader = Unstarted | In_load | Load_done | Load_raised

record ('m, 'k, 't, 'g) server =
  eng :: "('m, 'k, 't, 'g) engine"
  load_thread :: loader
  generate_lock :: "nat option"
  requests :: "nat \<Rightarrow> request"
  phases :: "nat \<Rightarrow> phase"
  sent :: "nat \<Rightarrow> pystr list"

datatype action =
    Start_load
  | End_load bool
  | Arrive nat request
  | Begin nat
  | Resume nat
  | Abandon nat

definition start_load :: "('m, 'k, 't, 'g) server \<Rightarrow> ('m, 'k, 't, 'g) server option" where
  "start_load s =
     (if load_thread s = Unstarted
      then Some (case begin_load (eng s) of
          None \<Rightarrow> s\<lparr>load_thread := Load_done\<rparr>
        | Some e \<Rightarrow> s\<lparr>eng := e, load_thread := In_load\<rparr>)
      else None)"

text \<open>The end of the load; with \<open>EXL3_REQUIRE_MODEL\<close> a failed load raises in its thread, which ends the thread.\<close>

definition end_load ::
    "('c, 'm, 'k, 't, 'g) exllama \<Rightarrow> (pystr \<Rightarrow> bool) \<Rightarrow> bool \<Rightarrow> ('m, 'k, 't, 'g) server \<Rightarrow> ('m, 'k, 't, 'g) server option" where
  "end_load lib isdir require_model s =
     (if load_thread s = In_load
      then Some (case load_locked lib isdir (eng s) of
          Inl f \<Rightarrow> s\<lparr>eng := fail_load f (eng s), load_thread := (if require_model then Load_raised else Load_done)\<rparr>
        | Inr e \<Rightarrow> s\<lparr>eng := finish_load e, load_thread := Load_done\<rparr>)
      else None)"

definition set_phase :: "nat \<Rightarrow> phase \<Rightarrow> ('m, 'k, 't, 'g) server \<Rightarrow> ('m, 'k, 't, 'g) server" where
  "set_phase r p s = s\<lparr>phases := (phases s)(r := p)\<rparr>"

text \<open>A request that is over has left the lock's block.\<close>

definition leave :: "nat \<Rightarrow> phase \<Rightarrow> ('m, 'k, 't, 'g) server \<Rightarrow> ('m, 'k, 't, 'g) server" where
  "leave r p s = (set_phase r p s)\<lparr>generate_lock := None\<rparr>"

definition arrive :: "nat \<Rightarrow> request \<Rightarrow> ('m, 'k, 't, 'g) server \<Rightarrow> ('m, 'k, 't, 'g) server option" where
  "arrive r q s =
     (if phases s r = Absent
      then Some (set_phase r (if is_ready (eng s) then Accepted else Refused) (s\<lparr>requests := (requests s)(r := q)\<rparr>))
      else None)"

text \<open>
  An accepted request runs up to its first suspension: it is refused by the second readiness check,
  waits while the lock is taken, completes in one go, or enters the loop of \<open>stream\<close>.
\<close>

definition begin_request ::
    "('c, 'm, 'k, 't, 'g) exllama \<Rightarrow> nat \<Rightarrow> ('m, 'k, 't, 'g) server \<Rightarrow> ('m, 'k, 't, 'g) server option" where
  "begin_request lib r s =
     (if phases s r \<noteq> Accepted then None
      else if \<not> is_ready (eng s) then Some (set_phase r (Broken (str ''EngineError'', str ''model not ready'')) s)
      else if generate_lock s \<noteq> None then None
      else if req_stream (requests s r) then
        Some (case stream_begin lib (eng s) (requests s r) of
            Inl f \<Rightarrow> leave r (Broken f) s
          | Inr e \<Rightarrow> (set_phase r (Streaming [] False) s)\<lparr>eng := e, generate_lock := Some r\<rparr>)
      else
        Some (case generate_text lib (eng s) (requests s r) of
            Inl f \<Rightarrow> leave r (Broken f) s
          | Inr (text, e) \<Rightarrow> (leave r Completed s)\<lparr>eng := e, sent := (sent s)(r := [text])\<rparr>))"

text \<open>The loop of \<open>stream\<close>: the next result of the batch, or the next batch, or the end.\<close>

definition resume ::
    "('c, 'm, 'k, 't, 'g) exllama \<Rightarrow> nat \<Rightarrow> ('m, 'k, 't, 'g) server \<Rightarrow> ('m, 'k, 't, 'g) server option" where
  "resume lib r s =
     (case phases s r of
        Streaming (x # rs) _ \<Rightarrow>
          (if result_identifier x \<noteq> Some default_identifier \<or> result_text x = []
           then Some (set_phase r (Streaming rs False) s)
           else Some ((set_phase r (Streaming rs True) s)\<lparr>sent := (sent s)(r := sent s r @ [result_text x])\<rparr>))
      | Streaming [] _ \<Rightarrow>
          (if stream_more lib (eng s) then
             (case stream_iterate lib (eng s) of
                Inl f \<Rightarrow> Some (leave r (Broken f) s)
              | Inr (rs, e) \<Rightarrow> Some ((set_phase r (Streaming rs False) s)\<lparr>eng := e\<rparr>))
           else Some (leave r Completed s))
      | _ \<Rightarrow> None)"

text \<open>A client that goes away closes the generator function, where it is suspended or before it ran.\<close>

definition abandon :: "nat \<Rightarrow> ('m, 'k, 't, 'g) server \<Rightarrow> ('m, 'k, 't, 'g) server option" where
  "abandon r s =
     (case phases s r of
        Streaming rs True \<Rightarrow> Some (leave r Abandoned s)
      | Accepted \<Rightarrow> Some (set_phase r Abandoned s)
      | _ \<Rightarrow> None)"

fun act ::
    "('c, 'm, 'k, 't, 'g) exllama \<Rightarrow> (pystr \<Rightarrow> bool) \<Rightarrow> action \<Rightarrow> ('m, 'k, 't, 'g) server \<Rightarrow> ('m, 'k, 't, 'g) server option" where
  "act lib isdir Start_load s = start_load s"
| "act lib isdir (End_load require_model) s = end_load lib isdir require_model s"
| "act lib isdir (Arrive r q) s = arrive r q s"
| "act lib isdir (Begin r) s = begin_request lib r s"
| "act lib isdir (Resume r) s = resume lib r s"
| "act lib isdir (Abandon r) s = abandon r s"

text \<open>A server that has just been started, and the states it can reach.\<close>

definition fresh :: "('m, 'k, 't, 'g) server \<Rightarrow> bool" where
  "fresh s \<longleftrightarrow> load_thread s = Unstarted \<and> generate_lock s = None \<and> engine_state (eng s) = Idle \<and>
     engine_generator (eng s) = None \<and> engine_tokenizer (eng s) = None \<and>
     (\<forall>r. phases s r = Absent \<and> sent s r = [])"

inductive reachable ::
    "('c, 'm, 'k, 't, 'g) exllama \<Rightarrow> (pystr \<Rightarrow> bool) \<Rightarrow> ('m, 'k, 't, 'g) server \<Rightarrow> bool"
  for lib isdir where
  start: "fresh s \<Longrightarrow> reachable lib isdir s"
| action: "reachable lib isdir s \<Longrightarrow> act lib isdir a s = Some s' \<Longrightarrow> reachable lib isdir s'"

fun run ::
    "('c, 'm, 'k, 't, 'g) exllama \<Rightarrow> (pystr \<Rightarrow> bool) \<Rightarrow> action list \<Rightarrow> ('m, 'k, 't, 'g) server \<Rightarrow> ('m, 'k, 't, 'g) server option" where
  "run lib isdir [] s = Some s"
| "run lib isdir (a # as) s = Option.bind (act lib isdir a s) (run lib isdir as)"

lemma run_reachable: "reachable lib isdir s \<Longrightarrow> run lib isdir as s = Some s' \<Longrightarrow> reachable lib isdir s'"
  by (induction as arbitrary: s) (auto simp: bind_eq_Some_conv intro: reachable.action)

section \<open>One stream at a time, and only when the model is there\<close>

fun streaming :: "phase \<Rightarrow> bool" where
  "streaming (Streaming _ _) = True"
| "streaming _ = False"

text \<open>The request passed the readiness check.\<close>

definition let_in :: "phase \<Rightarrow> bool" where
  "let_in p \<longleftrightarrow> p \<noteq> Absent \<and> p \<noteq> Refused"

definition loaded :: "('m, 'k, 't, 'g) engine \<Rightarrow> bool" where
  "loaded e \<longleftrightarrow> engine_model e \<noteq> None \<and> engine_cache e \<noteq> None \<and> engine_tokenizer e \<noteq> None \<and> engine_generator e \<noteq> None"

definition serving_inv :: "('m, 'k, 't, 'g) server \<Rightarrow> bool" where
  "serving_inv s \<longleftrightarrow> (\<forall>r. streaming (phases s r) \<longleftrightarrow> generate_lock s = Some r) \<and>
     (is_ready (eng s) \<longrightarrow> load_thread s = Load_done \<and> loaded (eng s)) \<and>
     (\<forall>r. let_in (phases s r) \<longrightarrow> is_ready (eng s))"

lemma load_locked_loads:
  assumes "load_locked lib isdir e = Inr e'"
  obtains m k t args g n where "e' = e\<lparr>engine_model := Some m, engine_cache := Some k, engine_tokenizer := Some t,
      engine_generator := Some g, model_name := n\<rparr>" "new_generator lib args = Inr g"
  using assms by (auto simp: load_locked_def lbind_Inr_iff split: if_split_asm)

lemma stream_begin_Inr:
  "stream_begin lib e q = Inr e' \<longleftrightarrow> (\<exists>t ids g. engine_tokenizer e = Some t \<and> encode lib t (req_prompt q) True = Inr ids \<and>
     engine_generator e = Some g \<and> e' = e\<lparr>engine_generator := Some (enqueue lib g (stream_job lib t q ids))\<rparr>)"
  by (auto simp: stream_begin_def lbind_Inr_iff split: option.splits)

lemma stream_iterate_Inr:
  "stream_iterate lib e = Inr (rs, e') \<longleftrightarrow> (\<exists>g g'. engine_generator e = Some g \<and> iterate lib g = Inr (rs, g') \<and>
     e' = e\<lparr>engine_generator := Some g'\<rparr>)"
  by (auto simp: stream_iterate_def lbind_Inr_iff split: option.splits)

lemma generate_text_Inr:
  "generate_text lib e q = Inr (text, e') \<Longrightarrow> \<exists>c g g'. engine_generator e = Some g \<and>
     lib_generate lib g c = Inr (text, g') \<and> e' = e\<lparr>engine_generator := Some g'\<rparr>"
  by (auto simp: generate_text_def lbind_Inr_iff split: option.splits)

text \<open>What an action of a request does to the engine: nothing, or a new state of its generator.\<close>

definition same_engine :: "('m, 'k, 't, 'g) engine \<Rightarrow> ('m, 'k, 't, 'g) engine \<Rightarrow> bool" where
  "same_engine e e' \<longleftrightarrow> e' = e \<or> (\<exists>g. e' = e\<lparr>engine_generator := Some g\<rparr>)"

lemma same_engine_ready:
  "same_engine e e' \<Longrightarrow> is_ready e' = is_ready e"
  "same_engine e e' \<Longrightarrow> loaded e \<Longrightarrow> loaded e'"
  "same_engine e e' \<Longrightarrow> engine_tokenizer e' = engine_tokenizer e"
  by (auto simp: same_engine_def is_ready_def loaded_def)

lemma begin_requestE:
  assumes "begin_request lib r s = Some s'"
  obtains (not_ready) f where "phases s r = Accepted" "\<not> is_ready (eng s)" "s' = set_phase r (Broken f) s"
  | (failed) f where "phases s r = Accepted" "is_ready (eng s)" "generate_lock s = None" "s' = leave r (Broken f) s"
  | (stream) e where "phases s r = Accepted" "is_ready (eng s)" "generate_lock s = None" "req_stream (requests s r)"
      "stream_begin lib (eng s) (requests s r) = Inr e"
      "s' = (set_phase r (Streaming [] False) s)\<lparr>eng := e, generate_lock := Some r\<rparr>"
  | (whole) out e where "phases s r = Accepted" "is_ready (eng s)" "generate_lock s = None" "\<not> req_stream (requests s r)"
      "generate_text lib (eng s) (requests s r) = Inr (out, e)"
      "s' = (leave r Completed s)\<lparr>eng := e, sent := (sent s)(r := [out])\<rparr>"
  using assms unfolding begin_request_def
  by (cases "stream_begin lib (eng s) (requests s r)"; cases "generate_text lib (eng s) (requests s r)")
    (auto split: if_split_asm prod.split_asm)

lemma resumeE:
  assumes "resume lib r s = Some s'"
  obtains (skip) x rs b where "phases s r = Streaming (x # rs) b"
      "result_identifier x \<noteq> Some default_identifier \<or> result_text x = []" "s' = set_phase r (Streaming rs False) s"
  | (yield) x rs b where "phases s r = Streaming (x # rs) b"
      "result_identifier x = Some default_identifier" "result_text x \<noteq> []"
      "s' = (set_phase r (Streaming rs True) s)\<lparr>sent := (sent s)(r := sent s r @ [result_text x])\<rparr>"
  | (failed) b f where "phases s r = Streaming [] b" "s' = leave r (Broken f) s"
  | (iterated) b rs e where "phases s r = Streaming [] b" "stream_more lib (eng s)" "stream_iterate lib (eng s) = Inr (rs, e)"
      "s' = (set_phase r (Streaming rs False) s)\<lparr>eng := e\<rparr>"
  | (over) b where "phases s r = Streaming [] b" "\<not> stream_more lib (eng s)" "s' = leave r Completed s"
proof (cases "phases s r")
  case (Streaming rs b)
  show ?thesis
  proof (cases rs)
    case Nil
    then show ?thesis using assms Streaming that(3,4,5) unfolding resume_def
      by (cases "stream_iterate lib (eng s)") (auto split: if_split_asm prod.split_asm)
  next
    case (Cons x rs')
    then show ?thesis using assms Streaming that(1,2) unfolding resume_def by (auto split: if_split_asm)
  qed
qed (use assms in \<open>simp_all add: resume_def\<close>)

lemma phase_simps [simp]:
  "eng (set_phase r p s) = eng s" "load_thread (set_phase r p s) = load_thread s"
  "generate_lock (set_phase r p s) = generate_lock s" "requests (set_phase r p s) = requests s"
  "sent (set_phase r p s) = sent s" "phases (set_phase r p s) = (phases s)(r := p)"
  "eng (leave r p s) = eng s" "load_thread (leave r p s) = load_thread s"
  "generate_lock (leave r p s) = None" "requests (leave r p s) = requests s"
  "sent (leave r p s) = sent s" "phases (leave r p s) = (phases s)(r := p)"
  by (simp_all add: set_phase_def leave_def)

lemma begin_request_engine: "begin_request lib r s = Some s' \<Longrightarrow> same_engine (eng s) (eng s') \<and> load_thread s' = load_thread s"
  by (erule begin_requestE) (auto simp: same_engine_def stream_begin_Inr dest!: generate_text_Inr)

lemma resume_engine: "resume lib r s = Some s' \<Longrightarrow> same_engine (eng s) (eng s') \<and> load_thread s' = load_thread s"
  by (erule resumeE) (auto simp: same_engine_def stream_iterate_Inr)

lemma abandonE:
  assumes "abandon r s = Some s'"
  obtains (suspended) rs where "phases s r = Streaming rs True" "s' = leave r Abandoned s"
  | (not_begun) "phases s r = Accepted" "s' = set_phase r Abandoned s"
  using assms by (auto simp: abandon_def split: phase.splits bool.splits)

lemma abandon_engine: "abandon r s = Some s' \<Longrightarrow> same_engine (eng s) (eng s') \<and> load_thread s' = load_thread s"
  by (erule abandonE) (simp_all add: same_engine_def)

lemma arriveE:
  assumes "arrive r q s = Some s'"
  obtains "phases s r = Absent"
    "s' = set_phase r (if is_ready (eng s) then Accepted else Refused) (s\<lparr>requests := (requests s)(r := q)\<rparr>)"
  using assms by (simp add: arrive_def split: if_split_asm)

lemma start_load_inv: "serving_inv s \<Longrightarrow> start_load s = Some s' \<Longrightarrow> serving_inv s'"
  by (auto simp: serving_inv_def start_load_def begin_load_def is_ready_def let_in_def split: if_split_asm)

lemma end_load_inv: "serving_inv s \<Longrightarrow> end_load lib isdir rm s = Some s' \<Longrightarrow> serving_inv s'"
proof -
  assume inv: "serving_inv s" and act: "end_load lib isdir rm s = Some s'"
  then have In_load: "load_thread s = In_load" by (simp add: end_load_def split: if_split_asm)
  then have "\<not> is_ready (eng s)" using inv by (simp add: serving_inv_def)
  then have out: "\<not> let_in (phases s r)" for r using inv by (auto simp: serving_inv_def)
  show "serving_inv s'"
  proof (cases "load_locked lib isdir (eng s)")
    case (Inl f)
    then show ?thesis using inv act In_load out
      by (auto simp: serving_inv_def end_load_def is_ready_def fail_load_def)
  next
    case (Inr e)
    then have "loaded (finish_load e)" by (rule load_locked_loads) (simp add: loaded_def finish_load_def)
    then show ?thesis using inv act In_load Inr out by (auto simp: serving_inv_def end_load_def)
  qed
qed

lemma inv_engine:
  assumes "serving_inv s" and "same_engine (eng s) (eng s') \<and> load_thread s' = load_thread s"
    and "\<And>r. streaming (phases s' r) \<longleftrightarrow> generate_lock s' = Some r"
    and "\<And>r. let_in (phases s' r) \<Longrightarrow> is_ready (eng s)"
  shows "serving_inv s'"
  using assms same_engine_ready[of "eng s" "eng s'"] by (auto simp: serving_inv_def)

lemma let_in_ready: "serving_inv s \<Longrightarrow> let_in (phases s r) \<Longrightarrow> is_ready (eng s)"
  by (simp add: serving_inv_def) blast

lemma lock_holder: "serving_inv s \<Longrightarrow> streaming (phases s r) \<longleftrightarrow> generate_lock s = Some r"
  by (simp add: serving_inv_def)

lemma begin_request_inv: "serving_inv s \<Longrightarrow> begin_request lib r s = Some s' \<Longrightarrow> serving_inv s'"
proof (rule inv_engine[OF _ begin_request_engine])
  assume inv: "serving_inv s" and act: "begin_request lib r s = Some s'"
  then have acc: "phases s r = Accepted" by (auto elim: begin_requestE)
  then show ready: "is_ready (eng s)" using let_in_ready[OF inv, of r] by (simp add: let_in_def)
  from act show "streaming (phases s' x) \<longleftrightarrow> generate_lock s' = Some x" for x
    by (rule begin_requestE) (use ready lock_holder[OF inv] in auto)
qed

lemma resume_inv: "serving_inv s \<Longrightarrow> resume lib r s = Some s' \<Longrightarrow> serving_inv s'"
proof (rule inv_engine[OF _ resume_engine])
  assume inv: "serving_inv s" and act: "resume lib r s = Some s'"
  have str: "streaming (phases s r)" using act by (rule resumeE) simp_all
  then have "let_in (phases s r)" by (cases "phases s r") (simp_all add: let_in_def)
  then show "is_ready (eng s)" by (rule let_in_ready[OF inv])
  have lock: "generate_lock s = Some r" using str lock_holder[OF inv] by simp
  from act show "streaming (phases s' x) \<longleftrightarrow> generate_lock s' = Some x" for x
    by (rule resumeE) (use lock lock_holder[OF inv, of x] in auto)
qed

lemma abandon_inv: "serving_inv s \<Longrightarrow> abandon r s = Some s' \<Longrightarrow> serving_inv s'"
proof (rule inv_engine[OF _ abandon_engine])
  assume inv: "serving_inv s" and act: "abandon r s = Some s'"
  have "let_in (phases s r)" using act by (rule abandonE) (simp_all add: let_in_def)
  then show "is_ready (eng s)" by (rule let_in_ready[OF inv])
  from act show "streaming (phases s' x) \<longleftrightarrow> generate_lock s' = Some x" for x
    by (rule abandonE) (use lock_holder[OF inv, of x] lock_holder[OF inv, of r] in auto)
qed

lemma arrive_inv: "serving_inv s \<Longrightarrow> arrive r q s = Some s' \<Longrightarrow> serving_inv s'"
proof -
  assume inv: "serving_inv s" and act: "arrive r q s = Some s'"
  have "streaming (phases s' x) \<longleftrightarrow> generate_lock s' = Some x" for x
    using act by (rule arriveE) (use lock_holder[OF inv, of x] in auto)
  moreover have "let_in (phases s' x) \<longrightarrow> is_ready (eng s)" for x
    using act by (rule arriveE) (use let_in_ready[OF inv, of x] in \<open>auto simp: let_in_def\<close>)
  moreover have "eng s' = eng s" "load_thread s' = load_thread s" using act by (auto elim: arriveE)
  ultimately show ?thesis using inv by (simp add: serving_inv_def)
qed

lemma reachable_inv: "reachable lib isdir s \<Longrightarrow> serving_inv s"
proof (induction rule: reachable.induct)
  case (start s)
  then show ?case by (auto simp: fresh_def serving_inv_def is_ready_def let_in_def)
next
  case (action s a s')
  then show ?case
    by (cases a) (auto intro: start_load_inv end_load_inv begin_request_inv resume_inv abandon_inv arrive_inv)
qed

lemma ready_kept: "serving_inv s \<Longrightarrow> act lib isdir a s = Some s' \<Longrightarrow> is_ready (eng s) \<Longrightarrow> is_ready (eng s')"
proof -
  assume inv: "serving_inv s" and act: "act lib isdir a s = Some s'" and ready: "is_ready (eng s)"
  then have "load_thread s = Load_done" by (simp add: serving_inv_def)
  then show ?thesis
    using act ready by (cases a) (auto simp: start_load_def end_load_def elim!: arriveE
      dest!: begin_request_engine resume_engine abandon_engine simp: same_engine_ready(1))
qed

lemma lock_holder_proceeds:
  assumes "serving_inv s" and "generate_lock s = Some r"
  shows "\<exists>s'. resume lib r s = Some s'"
proof -
  obtain rs b where "phases s r = Streaming rs b" using assms lock_holder by (metis streaming.elims(2))
  then show ?thesis by (cases rs) (auto simp: resume_def split: sum.split prod.split)
qed

text \<open>
  C20. Whatever the order in which the load thread, the requests and their clients act: at most one
  streaming request is inside the generator; it and no other holds the lock, and it can always go
  on; a request is let in only once model, cache, tokenizer and generator are there; and readiness, once reached, is never lost.
\<close>

theorem one_stream_at_a_time:
  assumes "reachable lib isdir s"
  shows "(\<forall>r r'. streaming (phases s r) \<and> streaming (phases s r') \<longrightarrow> r = r') \<and>
    (\<forall>r. streaming (phases s r) \<longleftrightarrow> generate_lock s = Some r) \<and>
    (\<forall>r. streaming (phases s r) \<longrightarrow> (\<exists>s'. act lib isdir (Resume r) s = Some s')) \<and>
    (\<forall>r. let_in (phases s r) \<longrightarrow> is_ready (eng s) \<and> loaded (eng s)) \<and>
    (\<forall>a s'. act lib isdir a s = Some s' \<and> is_ready (eng s) \<longrightarrow> is_ready (eng s'))"
proof -
  note inv = reachable_inv[OF assms]
  have "r = r'" if "streaming (phases s r)" "streaming (phases s r')" for r r'
    using that lock_holder[OF inv] by simp
  moreover have "loaded (eng s)" if "is_ready (eng s)" using that inv by (simp add: serving_inv_def)
  ultimately show ?thesis
    using lock_holder_proceeds[OF inv] lock_holder[OF inv] let_in_ready[OF inv] ready_kept[OF inv] by auto
qed

section \<open>Every stream gets its own text\<close>

text \<open>
  What the generator is taken to do: it holds the texts still to come of its jobs, a new one holds
  none, a job adds the text \<open>output\<close> describes, \<open>iterate\<close> hands out part of the text of the job it
  holds if it holds one, under the job's identifier, and \<open>generate\<close> leaves nothing behind.
\<close>

definition hands_out :: "(nat \<times> pystr) list \<Rightarrow> gen_result list \<Rightarrow> (nat \<times> pystr) list \<Rightarrow> bool" where
  "hands_out before rs after \<longleftrightarrow> (\<forall>i t. before = [(i, t)] \<longrightarrow>
     (\<exists>rest. t = concat (map result_text rs) @ rest \<and> list_all (\<lambda>x. result_identifier x = Some i) rs \<and>
       (after = [(i, rest)] \<or> rest = [] \<and> after = [])))"

definition generator_law ::
    "('c, 'm, 'k, 't, 'g) exllama \<Rightarrow> ('g \<Rightarrow> (nat \<times> pystr) list) \<Rightarrow> (job \<Rightarrow> pystr) \<Rightarrow> bool" where
  "generator_law lib pending output \<longleftrightarrow>
     (\<forall>args g. new_generator lib args = Inr g \<longrightarrow> pending g = []) \<and>
     (\<forall>g. num_remaining_jobs lib g = length (pending g)) \<and>
     (\<forall>g j. pending (enqueue lib g j) = pending g @ [(job_identifier j, output j)]) \<and>
     (\<forall>g rs g'. iterate lib g = Inr (rs, g') \<longrightarrow> hands_out (pending g) rs (pending g')) \<and>
     (\<forall>g c t g'. lib_generate lib g c = Inr (t, g') \<longrightarrow> pending g = [] \<longrightarrow> pending g' = [])"

text \<open>The request got the text of the job made of it.\<close>

definition own_text ::
    "('c, 'm, 'k, 't, 'g) exllama \<Rightarrow> (job \<Rightarrow> pystr) \<Rightarrow> ('m, 'k, 't, 'g) server \<Rightarrow> nat \<Rightarrow> pystr \<Rightarrow> bool" where
  "own_text lib output s r rest \<longleftrightarrow> (\<exists>t ids. engine_tokenizer (eng s) = Some t \<and>
     encode lib t (req_prompt (requests s r)) True = Inr ids \<and>
     output (stream_job lib t (requests s r) ids) = concat (sent s r) @ rest)"

definition ended_badly :: "phase \<Rightarrow> bool" where
  "ended_badly p \<longleftrightarrow> p = Abandoned \<or> (\<exists>f. p = Broken f)"

definition stream_inv ::
    "('c, 'm, 'k, 't, 'g) exllama \<Rightarrow> ('g \<Rightarrow> (nat \<times> pystr) list) \<Rightarrow> (job \<Rightarrow> pystr) \<Rightarrow> ('m, 'k, 't, 'g) server \<Rightarrow> nat \<Rightarrow>
       gen_result list \<Rightarrow> bool" where
  "stream_inv lib pending output s r rs \<longleftrightarrow> (\<exists>g rest. engine_generator (eng s) = Some g \<and>
     own_text lib output s r (concat (map result_text rs) @ rest) \<and>
     list_all (\<lambda>x. result_identifier x = Some default_identifier) rs \<and>
     (pending g = [(default_identifier, rest)] \<or> rest = [] \<and> pending g = []))"

definition text_inv ::
    "('c, 'm, 'k, 't, 'g) exllama \<Rightarrow> ('g \<Rightarrow> (nat \<times> pystr) list) \<Rightarrow> (job \<Rightarrow> pystr) \<Rightarrow> ('m, 'k, 't, 'g) server \<Rightarrow> bool" where
  "text_inv lib pending output s \<longleftrightarrow>
     (generate_lock s = None \<longrightarrow> (\<forall>g. engine_generator (eng s) = Some g \<longrightarrow> pending g = [])) \<and>
     (\<forall>r rs b. phases s r = Streaming rs b \<longrightarrow> stream_inv lib pending output s r rs) \<and>
     (\<forall>r. phases s r = Completed \<and> req_stream (requests s r) \<longrightarrow> own_text lib output s r []) \<and>
     (\<forall>r. phases s r \<in> {Absent, Refused, Accepted} \<longrightarrow> sent s r = [])"

lemma own_text_cong:
  "engine_tokenizer (eng s') = engine_tokenizer (eng s) \<Longrightarrow> requests s' r = requests s r \<Longrightarrow> sent s' r = sent s r \<Longrightarrow>
   own_text lib output s' r rest = own_text lib output s r rest"
  by (simp add: own_text_def)

text \<open>
  An action of one request keeps the invariant if it keeps it of that request; the others are not
  streaming.
\<close>

lemma text_inv_request:
  assumes inv: "serving_inv s" "text_inv lib pending output s"
    and frame: "engine_tokenizer (eng s') = engine_tokenizer (eng s)"
      "\<And>x. x \<noteq> r \<Longrightarrow> requests s' x = requests s x \<and> sent s' x = sent s x \<and> phases s' x = phases s x"
    and quiet: "\<And>x. x \<noteq> r \<Longrightarrow> \<not> streaming (phases s x) \<or> engine_generator (eng s') = engine_generator (eng s)"
    and free: "\<And>g. generate_lock s' = None \<Longrightarrow> engine_generator (eng s') = Some g \<Longrightarrow> pending g = []"
    and str: "\<And>rs b. phases s' r = Streaming rs b \<Longrightarrow> stream_inv lib pending output s' r rs"
    and comp: "phases s' r = Completed \<Longrightarrow> req_stream (requests s' r) \<Longrightarrow> own_text lib output s' r []"
    and none: "phases s' r \<in> {Absent, Refused, Accepted} \<Longrightarrow> sent s' r = []"
  shows "text_inv lib pending output s'"
proof -
  have "stream_inv lib pending output s' x rs" if x: "phases s' x = Streaming rs b" for x rs b
  proof (cases "x = r")
    case True then show ?thesis using str x by simp
  next
    case False
    then have s: "phases s x = Streaming rs b" using frame(2) x by simp
    then have "stream_inv lib pending output s x rs" using inv(2) by (simp add: text_inv_def)
    moreover have "engine_generator (eng s') = engine_generator (eng s)" using quiet[OF False] s by simp
    ultimately show ?thesis
      using own_text_cong[OF frame(1), where r = x and lib = lib] frame(2)[OF False] by (simp add: stream_inv_def)
  qed
  moreover have "own_text lib output s' x []" if "phases s' x = Completed" "req_stream (requests s' x)" for x
    using that comp inv(2) own_text_cong[OF frame(1), where r = x and lib = lib] frame(2)[of x] by (cases "x = r") (auto simp: text_inv_def)
  moreover have "sent s' x = []" if "phases s' x \<in> {Absent, Refused, Accepted}" for x
    using that none inv(2) frame(2)[of x] unfolding text_inv_def by (cases "x = r") metis+
  ultimately show ?thesis using free by (simp add: text_inv_def)
qed

lemma text_inv_loading:
  assumes inv: "serving_inv s" "text_inv lib pending output s" and off: "\<not> is_ready (eng s)"
    and frame: "requests s' = requests s" "sent s' = sent s" "phases s' = phases s" "generate_lock s' = generate_lock s"
    and free: "\<And>g. engine_generator (eng s') = Some g \<Longrightarrow> pending g = []"
  shows "text_inv lib pending output s'"
proof -
  have out: "phases s r = Absent \<or> phases s r = Refused" for r
    using let_in_ready[OF inv(1), of r] off by (auto simp: let_in_def)
  then have "phases s r \<noteq> Streaming rs b" "phases s r \<noteq> Completed" for r rs b by (metis phase.distinct)+
  then show ?thesis using inv(2) free by (simp add: text_inv_def frame)
qed

lemma not_ready_quiet: "serving_inv s \<Longrightarrow> \<not> is_ready (eng s) \<Longrightarrow> generate_lock s = None"
proof (rule ccontr)
  assume inv: "serving_inv s" and off: "\<not> is_ready (eng s)" and "generate_lock s \<noteq> None"
  then obtain r where "streaming (phases s r)" using lock_holder[OF inv] by auto
  then have "let_in (phases s r)" by (cases "phases s r") (simp_all add: let_in_def)
  then show False using let_in_ready[OF inv] off by blast
qed

lemma end_load_text:
  assumes law: "generator_law lib pending output" and inv: "serving_inv s" "text_inv lib pending output s"
    and act: "end_load lib isdir rm s = Some s'"
  shows "text_inv lib pending output s'"
proof -
  have thread: "load_thread s = In_load" using act by (simp add: end_load_def split: if_split_asm)
  have off: "\<not> is_ready (eng s)" using inv(1) thread by (auto simp: serving_inv_def)
  then have lock: "generate_lock s = None" by (rule not_ready_quiet[OF inv(1)])
  then have old: "pending g = []" if "engine_generator (eng s) = Some g" for g
    using inv(2) that by (simp add: text_inv_def)
  show ?thesis
  proof (rule text_inv_loading[OF inv off])
    show "pending g = []" if g: "engine_generator (eng s') = Some g" for g
    proof (cases "load_locked lib isdir (eng s)")
      case (Inl f)
      then show ?thesis using act thread g old by (auto simp: end_load_def fail_load_def)
    next
      case (Inr e)
      then obtain args where "new_generator lib args = Inr g"
        using act thread g by (auto simp: end_load_def finish_load_def elim!: load_locked_loads)
      then show ?thesis using law by (auto simp: generator_law_def)
    qed
  qed (use act thread in \<open>auto simp: end_load_def split: sum.splits\<close>)
qed

lemma begin_request_text:
  assumes law: "generator_law lib pending output" and inv: "serving_inv s" "text_inv lib pending output s"
    and act: "begin_request lib r s = Some s'" and good: "\<not> ended_badly (phases s' r)"
  shows "text_inv lib pending output s'"
  using act
proof (cases rule: begin_requestE)
  case (stream e)
  then obtain t ids g where e: "engine_tokenizer (eng s) = Some t" "encode lib t (req_prompt (requests s r)) True = Inr ids"
    "engine_generator (eng s) = Some g"
    "e = (eng s)\<lparr>engine_generator := Some (enqueue lib g (stream_job lib t (requests s r) ids))\<rparr>"
    by (auto simp: stream_begin_Inr)
  have "pending g = []" using inv(2) stream(3) e(3) by (simp add: text_inv_def)
  then have "pending (enqueue lib g (stream_job lib t (requests s r) ids)) =
      [(default_identifier, output (stream_job lib t (requests s r) ids))]"
    using law by (simp add: generator_law_def stream_job_def)
  moreover have "sent s r = []" using inv(2) stream(1) by (simp add: text_inv_def)
  ultimately have "stream_inv lib pending output s' r []"
    using stream(6) e by (simp add: stream_inv_def own_text_def)
  moreover have "\<not> streaming (phases s x)" for x using lock_holder[OF inv(1)] stream(3) by simp
  ultimately show ?thesis
    using stream(6) e(4) by (intro text_inv_request[OF inv, of s' r]) auto
next
  case (whole out e)
  then obtain c g g' where e: "engine_generator (eng s) = Some g" "lib_generate lib g c = Inr (out, g')"
    "e = (eng s)\<lparr>engine_generator := Some g'\<rparr>" by (auto dest!: generate_text_Inr)
  have "pending g = []" using inv(2) whole(3) e(1) by (simp add: text_inv_def)
  then have "pending g' = []" using law e(2) by (auto simp: generator_law_def)
  moreover have "\<not> streaming (phases s x)" for x using lock_holder[OF inv(1)] whole(3) by simp
  ultimately show ?thesis
    using whole(4,6) e(3) by (intro text_inv_request[OF inv, of s' r]) auto
qed (use good in \<open>simp_all add: ended_badly_def\<close>)

lemma resume_text:
  assumes law: "generator_law lib pending output" and inv: "serving_inv s" "text_inv lib pending output s"
    and act: "resume lib r s = Some s'" and good: "\<not> ended_badly (phases s' r)"
  shows "text_inv lib pending output s'"
proof -
  have held: "generate_lock s = Some r" if "phases s r = Streaming rs b" for rs b
    using that lock_holder[OF inv(1), of r] by simp
  have quiet: "\<not> streaming (phases s x)" if "x \<noteq> r" "generate_lock s = Some r" for x
    using that lock_holder[OF inv(1), of x] by simp
  have str: "stream_inv lib pending output s r rs" if "phases s r = Streaming rs b" for rs b
    using that inv(2) by (simp add: text_inv_def)
  show ?thesis
    using act
  proof (cases rule: resumeE)
    case (skip x rs b)
    have "stream_inv lib pending output s' r rs"
      using str[OF skip(1)] skip(2,3) by (auto simp: stream_inv_def own_text_def)
    then show ?thesis using skip held[OF skip(1)] by (intro text_inv_request[OF inv, of s' r]) auto
  next
    case (yield x rs b)
    have "stream_inv lib pending output s' r rs"
      using str[OF yield(1)] yield(4) by (auto simp: stream_inv_def own_text_def)
    then show ?thesis using yield held[OF yield(1)] by (intro text_inv_request[OF inv, of s' r]) auto
  next
    case (failed b f)
    then show ?thesis using good by (simp add: ended_badly_def)
  next
    case (iterated b rs e)
    obtain g rest where g: "engine_generator (eng s) = Some g" "own_text lib output s r rest"
      "pending g = [(default_identifier, rest)] \<or> rest = [] \<and> pending g = []"
      using str[OF iterated(1)] by (auto simp: stream_inv_def)
    obtain g' where g': "iterate lib g = Inr (rs, g')" "e = (eng s)\<lparr>engine_generator := Some g'\<rparr>"
      using iterated(3) g(1) by (auto simp: stream_iterate_Inr)
    have "pending g \<noteq> []" using law iterated(2) g(1) by (simp add: stream_more_def generator_law_def)
    then have "pending g = [(default_identifier, rest)]" using g(3) by simp
    moreover have "hands_out (pending g) rs (pending g')" using law g'(1) by (simp add: generator_law_def)
    ultimately obtain rest' where "rest = concat (map result_text rs) @ rest'"
      "list_all (\<lambda>x. result_identifier x = Some default_identifier) rs"
      "pending g' = [(default_identifier, rest')] \<or> rest' = [] \<and> pending g' = []"
      by (auto simp: hands_out_def)
    then have "stream_inv lib pending output s' r rs"
      using iterated(4) g(2) g'(2) by (auto simp: stream_inv_def own_text_def)
    then show ?thesis using iterated g'(2) quiet held[OF iterated(1)]
      by (intro text_inv_request[OF inv, of s' r]) auto
  next
    case (over b)
    obtain g rest where g: "engine_generator (eng s) = Some g" "own_text lib output s r rest"
      "pending g = [(default_identifier, rest)] \<or> rest = [] \<and> pending g = []"
      using str[OF over(1)] by (auto simp: stream_inv_def)
    moreover have "pending g = []" using law over(2) g(1) by (simp add: stream_more_def generator_law_def)
    ultimately have "own_text lib output s r []" "pending g = []" by auto
    then show ?thesis using over g(1) quiet held[OF over(1)]
      by (intro text_inv_request[OF inv, of s' r]) (auto simp: own_text_def)
  qed
qed

lemma ended_badly_stays:
  "act lib isdir a s = Some s' \<Longrightarrow> ended_badly (phases s r) \<Longrightarrow> phases s' r = phases s r"
  by (cases a)
    (auto simp: ended_badly_def start_load_def end_load_def split: if_split_asm option.splits sum.splits
      elim!: begin_requestE resumeE abandonE arriveE)

lemma act_text:
  assumes law: "generator_law lib pending output" and inv: "serving_inv s" "text_inv lib pending output s"
    and act: "act lib isdir a s = Some s'" and good: "\<And>r. \<not> ended_badly (phases s' r)"
  shows "text_inv lib pending output s'"
proof (cases a)
  case Start_load
  then have "load_thread s = Unstarted" using act by (simp add: start_load_def split: if_split_asm)
  then have off: "\<not> is_ready (eng s)" using inv(1) by (auto simp: serving_inv_def)
  then have "generate_lock s = None" by (rule not_ready_quiet[OF inv(1)])
  then have "pending g = []" if "engine_generator (eng s) = Some g" for g using inv(2) that by (simp add: text_inv_def)
  then show ?thesis
    using act Start_load by (intro text_inv_loading[OF inv off])
      (auto simp: start_load_def begin_load_def split: if_split_asm)
next
  case (End_load rm) then show ?thesis using end_load_text[OF law inv] act by simp
next
  case (Arrive r q)
  then have "arrive r q s = Some s'" using act by simp
  then show ?thesis
  proof (rule arriveE)
    assume r: "phases s r = Absent"
      "s' = set_phase r (if is_ready (eng s) then Accepted else Refused) (s\<lparr>requests := (requests s)(r := q)\<rparr>)"
    have "sent s r = []" using inv(2) r(1) by (simp add: text_inv_def)
    moreover have "generate_lock s = None \<Longrightarrow> engine_generator (eng s) = Some g \<Longrightarrow> pending g = []" for g
      using inv(2) by (simp add: text_inv_def)
    ultimately show ?thesis using r by (intro text_inv_request[OF inv, of s' r]) (auto split: if_split_asm)
  qed
next
  case (Begin r) then show ?thesis using begin_request_text[OF law inv] act good by simp
next
  case (Resume r) then show ?thesis using resume_text[OF law inv] act good by simp
next
  case (Abandon r)
  then have "ended_badly (phases s' r)" using act by (auto simp: ended_badly_def elim: abandonE)
  then show ?thesis using good by simp
qed

lemma reachable_text:
  assumes "generator_law lib pending output"
  shows "reachable lib isdir s \<Longrightarrow> (\<And>r. \<not> ended_badly (phases s r)) \<Longrightarrow> text_inv lib pending output s"
proof (induction rule: reachable.induct)
  case (start s)
  then show ?case by (simp add: fresh_def text_inv_def)
next
  case (action s a s')
  have "\<not> ended_badly (phases s r)" for r using ended_badly_stays[OF action(2), of r] action(4)[of r] by metis
  then show ?case using act_text[OF assms reachable_inv[OF action(1)] action(3) action(2,4)] by blast
qed

section \<open>Abandoned streams\<close>

text \<open>A generator that echoes its prompts, one character at a time, job after job.\<close>

type_synonym echo = "(nat \<times> pystr list) list"

fun echo_iterate :: "echo \<Rightarrow> gen_result list \<times> echo" where
  "echo_iterate [] = ([], [])"
| "echo_iterate ((i, []) # js) = ([], js)"
| "echo_iterate ((i, [p]) # js) = ([\<lparr>result_identifier = Some i, result_text = p\<rparr>], js)"
| "echo_iterate ((i, p # ps) # js) = ([\<lparr>result_identifier = Some i, result_text = p\<rparr>], (i, ps) # js)"

definition echo_pieces :: "job \<Rightarrow> pystr list" where
  "echo_pieces j = map (\<lambda>id. [nat id]) (tensor_ids (job_input j))"

definition echo_lib :: "(unit, unit, unit, unit, echo) exllama" where
  "echo_lib = \<lparr>config_from_directory = (\<lambda>dir. Inr ()), model_from_config = (\<lambda>c part. Inr ()),
     new_cache = (\<lambda>m n b h. Inr ()), load_model = (\<lambda>m dev. Inr ()), default_draft_size = (\<lambda>m. None),
     tokenizer_from_config = (\<lambda>c. Inr ()), new_generator = (\<lambda>args. Inr []),
     encode = (\<lambda>t text bos. Inr (Tensor [1, length text] (map int text))), eos_token_id = (\<lambda>t. 0),
     enqueue = (\<lambda>g j. g @ [(job_identifier j, echo_pieces j)]),
     num_remaining_jobs = length, iterate = (\<lambda>g. Inr (echo_iterate g)),
     lib_generate = (\<lambda>g c. Inr (call_prompt c, g))\<rparr>"

definition echo_pending :: "echo \<Rightarrow> (nat \<times> pystr) list" where
  "echo_pending g = map (\<lambda>(i, ps). (i, concat ps)) g"

lemma echo_hands_out: "hands_out (echo_pending g) (fst (echo_iterate g)) (echo_pending (snd (echo_iterate g)))"
  by (cases g rule: echo_iterate.cases) (auto simp: hands_out_def echo_pending_def)

lemma echo_law: "generator_law echo_lib echo_pending (\<lambda>j. concat (echo_pieces j))"
  using echo_hands_out
  by (fastforce simp: generator_law_def echo_lib_def echo_pending_def prod_eq_iff)

definition demo_server :: "(unit, unit, unit, echo) server" where
  "demo_server = \<lparr>eng = \<lparr>model_dir = str ''/models/demo'', draft_model_dir = [], device = str ''cuda:0'',
       cache_tokens = 32768, max_batch = 1, mtp_draft = False, draft_tokens = None, dynamic_draft = False,
       draft_confidence = 0, engine_state = Idle, engine_error = [], model_name = [],
       engine_model = None, engine_cache = None, engine_tokenizer = None, engine_generator = None\<rparr>,
     load_thread = Unstarted, generate_lock = None,
     requests = (\<lambda>r. \<lparr>req_prompt = [], req_max_tokens = 1, req_temperature = 0, req_top_p = 0, req_stream = True\<rparr>),
     phases = (\<lambda>r. Absent), sent = (\<lambda>r. [])\<rparr>"

definition demo_request :: "string \<Rightarrow> request" where
  "demo_request prompt =
     \<lparr>req_prompt = str prompt, req_max_tokens = 16, req_temperature = 0, req_top_p = 1, req_stream = True\<rparr>"

lemma demo_server_reachable: "reachable echo_lib (\<lambda>dir. True) demo_server"
  by (rule reachable.start) (simp add: fresh_def demo_server_def)

lemma demo_run_reachable:
  "run echo_lib (\<lambda>dir. True) as demo_server \<noteq> None \<Longrightarrow>
   reachable echo_lib (\<lambda>dir. True) (the (run echo_lib (\<lambda>dir. True) as demo_server))"
  using run_reachable[OF demo_server_reachable] by auto

definition demo_actions :: "action list" where
  "demo_actions = [Start_load, End_load True, Arrive 0 (demo_request ''ab''), Arrive 1 (demo_request ''xy''), Begin 0,
     Resume 0, Resume 0, Resume 0, Resume 0, Resume 0, Begin 1, Resume 1]"

text \<open>Two requests one after the other: the second waits for the first.\<close>

definition demo_state :: "(unit, unit, unit, echo) server" where
  "demo_state = the (run echo_lib (\<lambda>dir. True) demo_actions demo_server)"

lemma demo_run: "run echo_lib (\<lambda>dir. True) demo_actions demo_server = Some demo_state"
proof -
  have "run echo_lib (\<lambda>dir. True) demo_actions demo_server \<noteq> None" by code_simp
  then show ?thesis by (auto simp: demo_state_def)
qed

lemma demo_state_reachable: "reachable echo_lib (\<lambda>dir. True) demo_state"
  by (rule run_reachable[OF demo_server_reachable demo_run])

fun target :: "action \<Rightarrow> nat option" where
  "target (Arrive r q) = Some r"
| "target (Begin r) = Some r"
| "target (Resume r) = Some r"
| "target (Abandon r) = Some r"
| "target _ = None"

lemma act_target: "act lib isdir a s = Some s' \<Longrightarrow> target a \<noteq> Some r \<Longrightarrow> phases s' r = phases s r"
  by (cases a)
    (auto simp: start_load_def end_load_def split: if_split_asm option.splits sum.splits
      elim!: begin_requestE resumeE abandonE arriveE)

lemma run_target:
  "run lib isdir as s = Some s' \<Longrightarrow> list_all (\<lambda>a. target a \<noteq> Some r) as \<Longrightarrow> phases s' r = phases s r"
  by (induction as arbitrary: s) (auto simp: bind_eq_Some_conv act_target)

lemma demo_state_clean: "\<not> ended_badly (phases demo_state r)"
proof -
  consider "r = 0" | "r = 1" | "1 < r" by linarith
  then show ?thesis
  proof cases
    case 1
    have "phases demo_state 0 = Completed" by code_simp
    then show ?thesis using 1 by (simp add: ended_badly_def)
  next
    case 2
    have "streaming (phases demo_state 1)" by code_simp
    then show ?thesis using 2 by (auto simp: ended_badly_def)
  next
    case 3
    have "phases demo_state r = phases demo_server r"
      by (rule run_target[OF demo_run]) (use 3 in \<open>simp add: demo_actions_def\<close>)
    then show ?thesis by (simp add: demo_server_def ended_badly_def)
  qed
qed

fun requested :: "nat \<Rightarrow> action list \<Rightarrow> request \<Rightarrow> request" where
  "requested r [] q = q"
| "requested r (Arrive r' q' # as) q = requested r as (if r' = r then q' else q)"
| "requested r (a # as) q = requested r as q"

lemma run_requests: "run lib isdir as s = Some s' \<Longrightarrow> requests s' r = requested r as (requests s r)"
proof (induction as arbitrary: s)
  case (Cons a as)
  obtain s1 where s1: "act lib isdir a s = Some s1" "run lib isdir as s1 = Some s'"
    using Cons.prems by (auto simp: bind_eq_Some_conv)
  have "requested r as (requests s1 r) = requested r (a # as) (requests s r)"
    using s1(1) by (cases a)
      (auto simp: start_load_def end_load_def split: if_split_asm option.splits sum.splits
        elim!: begin_requestE resumeE abandonE arriveE)
  then show ?case using Cons.IH[OF s1(2)] by simp
qed simp

lemma demo_state_request: "requests demo_state 0 = demo_request ''ab''"
  using run_requests[OF demo_run, of 0] by (simp add: demo_actions_def)

theorem one_stream_at_a_time_witness:
  "\<not> streaming (phases demo_state 0) \<and> generate_lock demo_state = Some 1 \<and> (\<exists>s'. act echo_lib (\<lambda>dir. True) (Resume 1) demo_state = Some s') \<and>
    is_ready (eng demo_state) \<and> loaded (eng demo_state)"
proof -
  have "streaming (phases demo_state 1)" by code_simp
  moreover from this have "let_in (phases demo_state 1)" by (cases "phases demo_state 1") (simp_all add: let_in_def)
  ultimately show ?thesis using one_stream_at_a_time[OF demo_state_reachable] by (metis zero_neq_one)
qed

text \<open>
  With one job at a time in a batch, the generator works its jobs off in the order they were added:
  the texts \<open>iterate\<close> hands out continue what is still to come of all jobs, in their order, under
  the identifiers of these jobs.
\<close>

definition in_order_law :: "('c, 'm, 'k, 't, 'g) exllama \<Rightarrow> ('g \<Rightarrow> (nat \<times> pystr) list) \<Rightarrow> bool" where
  "in_order_law lib pending \<longleftrightarrow> (\<forall>g rs g'. iterate lib g = Inr (rs, g') \<longrightarrow>
     concat (map snd (pending g)) = concat (map result_text rs) @ concat (map snd (pending g')) \<and>
     (\<forall>x \<in> set rs. \<exists>i \<in> fst ` set (pending g). result_identifier x = Some i) \<and>
     fst ` set (pending g') \<subseteq> fst ` set (pending g))"

lemma echo_iterate_in_order:
  "concat (map snd (echo_pending g)) =
      concat (map result_text (fst (echo_iterate g))) @ concat (map snd (echo_pending (snd (echo_iterate g)))) \<and>
     (\<forall>x \<in> set (fst (echo_iterate g)). \<exists>i \<in> fst ` set (echo_pending g). result_identifier x = Some i) \<and>
     fst ` set (echo_pending (snd (echo_iterate g))) \<subseteq> fst ` set (echo_pending g)"
  by (cases g rule: echo_iterate.cases) (auto simp: echo_pending_def)

lemma echo_in_order: "in_order_law echo_lib echo_pending"
  unfolding in_order_law_def
proof (intro allI impI)
  fix g rs g' assume "iterate echo_lib g = Inr (rs, g')"
  then have "rs = fst (echo_iterate g)" "g' = snd (echo_iterate g)" by (simp_all add: echo_lib_def)
  then show "concat (map snd (echo_pending g)) = concat (map result_text rs) @ concat (map snd (echo_pending g')) \<and>
     (\<forall>x \<in> set rs. \<exists>i \<in> fst ` set (echo_pending g). result_identifier x = Some i) \<and>
     fst ` set (echo_pending g') \<subseteq> fst ` set (echo_pending g)"
    using echo_iterate_in_order[of g] by blast
qed

text \<open>
  What a request has got, will get of the results it holds, and of the jobs in the generator: together
  a given text.
\<close>

definition collects ::
    "('g \<Rightarrow> (nat \<times> pystr) list) \<Rightarrow> nat \<Rightarrow> pystr \<Rightarrow> ('m, 'k, 't, 'g) server \<Rightarrow> bool" where
  "collects pending r whole s \<longleftrightarrow> phases s r \<notin> {Absent, Refused, Accepted} \<and>
     (phases s r = Completed \<longrightarrow> concat (sent s r) = whole) \<and>
     (\<forall>rs b. phases s r = Streaming rs b \<longrightarrow> (\<exists>g. engine_generator (eng s) = Some g \<and>
        fst ` set (pending g) \<subseteq> {default_identifier} \<and>
        list_all (\<lambda>x. result_identifier x = Some default_identifier) rs \<and>
        whole = concat (sent s r) @ concat (map result_text rs) @ concat (map snd (pending g))))"

lemma resume_collects:
  assumes law: "generator_law lib pending output" "in_order_law lib pending"
    and col: "collects pending r whole s" and act: "resume lib r s = Some s'"
  shows "collects pending r whole s'"
  using act
proof (cases rule: resumeE)
  case (skip x rs b)
  with col show ?thesis by (auto simp: collects_def)
next
  case (yield x rs b)
  with col show ?thesis by (auto simp: collects_def)
next
  case (failed b f)
  then show ?thesis by (simp add: collects_def)
next
  case (iterated b rs e)
  from col iterated(1) obtain g where g: "engine_generator (eng s) = Some g"
    "fst ` set (pending g) \<subseteq> {default_identifier}" "whole = concat (sent s r) @ concat (map snd (pending g))"
    by (auto simp: collects_def)
  obtain g' where g': "iterate lib g = Inr (rs, g')" "e = (eng s)\<lparr>engine_generator := Some g'\<rparr>"
    using iterated(3) g(1) by (auto simp: stream_iterate_Inr)
  have "concat (map snd (pending g)) = concat (map result_text rs) @ concat (map snd (pending g'))"
    "\<forall>x \<in> set rs. \<exists>i \<in> fst ` set (pending g). result_identifier x = Some i"
    "fst ` set (pending g') \<subseteq> fst ` set (pending g)"
    using law(2) g'(1) unfolding in_order_law_def by blast+
  moreover from this(2) g(2) have "\<forall>x \<in> set rs. result_identifier x = Some default_identifier" by fastforce
  ultimately show ?thesis using iterated(4) g g'(2) by (auto simp: collects_def list_all_iff)
next
  case (over b)
  from col over(1) obtain g where g: "engine_generator (eng s) = Some g"
    "whole = concat (sent s r) @ concat (map snd (pending g))" by (auto simp: collects_def)
  moreover have "pending g = []" using law(1) over(2) g(1) by (simp add: stream_more_def generator_law_def)
  ultimately show ?thesis using over(3) by (simp add: collects_def)
qed

lemma act_collects:
  assumes law: "generator_law lib pending output" "in_order_law lib pending"
    and inv: "serving_inv s" and col: "collects pending r whole s" and act: "act lib isdir a s = Some s'"
  shows "collects pending r whole s'"
proof (cases "a = Resume r")
  case True
  then show ?thesis using resume_collects[OF law col] act by simp
next
  case False
  have "let_in (phases s r)" using col by (auto simp: collects_def let_in_def)
  then have ready: "is_ready (eng s)" by (rule let_in_ready[OF inv])
  then have ld: "load_thread s = Load_done" using inv by (simp add: serving_inv_def)
  have lock: "streaming (phases s x) \<longleftrightarrow> generate_lock s = Some x" for x by (rule lock_holder[OF inv])
  have keep: "collects pending r whole s'"
    if "phases s' r = phases s r" "sent s' r = sent s r"
      "streaming (phases s r) \<Longrightarrow> engine_generator (eng s') = engine_generator (eng s)"
    using col that by (auto simp: collects_def)
  have not_acc: "phases s r \<noteq> Accepted" "phases s r \<noteq> Absent" using col by (auto simp: collects_def)
  show ?thesis
  proof (cases a)
    case Start_load then show ?thesis using act ld by (simp add: start_load_def)
  next
    case (End_load rm) then show ?thesis using act ld by (simp add: end_load_def)
  next
    case (Arrive x q)
    then have "arrive x q s = Some s'" using act by simp
    then show ?thesis using not_acc by (elim arriveE) (intro keep; auto)
  next
    case (Begin x)
    then have "begin_request lib x s = Some s'" using act by simp
    then show ?thesis using not_acc lock[of r] ready by (elim begin_requestE) (intro keep; auto)+
  next
    case (Resume x)
    then have x: "x \<noteq> r" "resume lib x s = Some s'" using False act by auto
    from x(2) have "streaming (phases s x)" by (elim resumeE) simp_all
    then have "\<not> streaming (phases s r)" using lock[of r] lock[of x] x(1) by simp
    with x show ?thesis by (elim resumeE) (intro keep; auto)+
  next
    case (Abandon x)
    then have "abandon x s = Some s'" using act by simp
    then show ?thesis
    proof (cases rule: abandonE)
      case (suspended rs)
      then show ?thesis using not_acc by (cases "x = r") (simp add: collects_def, intro keep, auto)
    next
      case not_begun
      then show ?thesis using not_acc by (intro keep) auto
    qed
  qed
qed

lemma run_collects:
  assumes "generator_law lib pending output" "in_order_law lib pending"
  shows "reachable lib isdir s \<Longrightarrow> collects pending r whole s \<Longrightarrow> run lib isdir as s = Some s' \<Longrightarrow>
    collects pending r whole s'"
proof (induction as arbitrary: s)
  case (Cons a as)
  obtain s1 where s1: "act lib isdir a s = Some s1" "run lib isdir as s1 = Some s'"
    using Cons.prems(3) by (auto simp: bind_eq_Some_conv)
  show ?case
    by (rule Cons.IH[OF reachable.action[OF Cons.prems(1) s1(1)]
        act_collects[OF assms reachable_inv[OF Cons.prems(1)] Cons.prems(2) s1(1)] s1(2)])
qed simp

lemma begin_collects:
  assumes law: "generator_law lib pending output"
    and bg: "begin_request lib r s = Some s'" and str: "streaming (phases s' r)" and "sent s r = []"
    and g: "engine_generator (eng s) = Some g" "fst ` set (pending g) \<subseteq> {default_identifier}"
  obtains t ids where "engine_tokenizer (eng s) = Some t" and "encode lib t (req_prompt (requests s r)) True = Inr ids"
    and "collects pending r (concat (map snd (pending g)) @ output (stream_job lib t (requests s r) ids)) s'"
  using bg
proof (cases rule: begin_requestE)
  case (stream e)
  then obtain t ids where e: "engine_tokenizer (eng s) = Some t" "encode lib t (req_prompt (requests s r)) True = Inr ids"
    "e = (eng s)\<lparr>engine_generator := Some (enqueue lib g (stream_job lib t (requests s r) ids))\<rparr>"
    using g(1) by (auto simp: stream_begin_Inr)
  have "pending (enqueue lib g (stream_job lib t (requests s r) ids)) =
      pending g @ [(default_identifier, output (stream_job lib t (requests s r) ids))]"
    using law by (simp add: generator_law_def stream_job_def)
  then show ?thesis using that[OF e(1,2)] stream(6) e(3) g(2) assms(4) by (simp add: collects_def)
qed (use str in simp_all)

text \<open>
  C21. A client that goes away in the middle of its stream leaves its job in the generator, and all jobs
  have one identifier. Take any generator that keeps its contract and works its jobs off in order, and
  a server no stream of which ended badly so far: when the stream of \<open>r\<close> is abandoned and the next
  request let in, \<open>r'\<close>, begins to stream and completes, whatever else happens meanwhile, the client
  of \<open>r'\<close> gets everything that was still to come of the job of \<open>r\<close>, and then its own text.
\<close>

theorem abandoned_text_leaks:
  assumes "generator_law lib pending output" and "in_order_law lib pending"
    and "reachable lib isdir s" and "\<And>x. \<not> ended_badly (phases s x)"
    and "phases s r = Streaming rs b" and "act lib isdir (Abandon r) s = Some s1"
    and "act lib isdir (Begin r') s1 = Some s2" and "streaming (phases s2 r')"
    and "run lib isdir as s2 = Some s3" and "phases s3 r' = Completed"
  shows "\<exists>t ids ids' rest. engine_tokenizer (eng s) = Some t \<and>
    encode lib t (req_prompt (requests s r)) True = Inr ids \<and>
    encode lib t (req_prompt (requests s r')) True = Inr ids' \<and>
    output (stream_job lib t (requests s r) ids) = concat (sent s r) @ concat (map result_text rs) @ rest \<and>
    concat (sent s3 r') = rest @ output (stream_job lib t (requests s r') ids')"
proof -
  have inv: "text_inv lib pending output s" by (rule reachable_text[OF assms(1,3,4)])
  then have "stream_inv lib pending output s r rs" using assms(5) by (simp add: text_inv_def)
  then obtain g rest t ids where g: "engine_generator (eng s) = Some g"
    and t: "engine_tokenizer (eng s) = Some t" "encode lib t (req_prompt (requests s r)) True = Inr ids"
      "output (stream_job lib t (requests s r) ids) = concat (sent s r) @ concat (map result_text rs) @ rest"
    and p: "pending g = [(default_identifier, rest)] \<or> rest = [] \<and> pending g = []"
    by (auto simp: stream_inv_def own_text_def)
  have s1: "s1 = leave r Abandoned s" using assms(5,6) by (auto elim: abandonE)
  have bg: "begin_request lib r' s1 = Some s2" using assms(7) by simp
  have r': "phases s1 r' = Accepted" using bg by (rule begin_requestE) simp_all
  then have "phases s r' = Accepted" "r' \<noteq> r" using s1 by (auto split: if_split_asm)
  then have "sent s1 r' = []" using inv s1 by (simp add: text_inv_def)
  moreover have "engine_generator (eng s1) = Some g" "fst ` set (pending g) \<subseteq> {default_identifier}"
    using g s1 p by auto
  ultimately obtain t' ids' where t': "engine_tokenizer (eng s1) = Some t'"
    "encode lib t' (req_prompt (requests s1 r')) True = Inr ids'"
    and col: "collects pending r' (concat (map snd (pending g)) @ output (stream_job lib t' (requests s1 r') ids')) s2"
    using begin_collects[OF assms(1) bg assms(8)] by metis
  have "reachable lib isdir s2" using assms(3,6,7) by (blast intro: reachable.action)
  from run_collects[OF assms(1,2) this col assms(9)] assms(10)
  have "concat (sent s3 r') = rest @ output (stream_job lib t' (requests s1 r') ids')"
    using p by (auto simp: collects_def)
  then show ?thesis using t t' s1 by auto
qed

text \<open>The first client goes away after its first character; the second request runs to the end.\<close>

definition leaky_state :: "(unit, unit, unit, echo) server" where
  "leaky_state = the (run echo_lib (\<lambda>dir. True)
     [Start_load, End_load True, Arrive 0 (demo_request ''ab''), Arrive 1 (demo_request ''xy''),
      Begin 0, Resume 0, Resume 0] demo_server)"

lemma leaky_state_run:
  "run echo_lib (\<lambda>dir. True)
     [Start_load, End_load True, Arrive 0 (demo_request ''ab''), Arrive 1 (demo_request ''xy''),
      Begin 0, Resume 0, Resume 0] demo_server = Some leaky_state"
proof -
  have "run echo_lib (\<lambda>dir. True)
     [Start_load, End_load True, Arrive 0 (demo_request ''ab''), Arrive 1 (demo_request ''xy''),
      Begin 0, Resume 0, Resume 0] demo_server \<noteq> None" by code_simp
  then show ?thesis by (auto simp: leaky_state_def)
qed

lemma leaky_state_clean: "\<not> ended_badly (phases leaky_state r)"
proof -
  consider "r = 0" | "r = 1" | "1 < r" by linarith
  then show ?thesis
  proof cases
    case 1
    have "streaming (phases leaky_state 0)" by code_simp
    then show ?thesis using 1 by (auto simp: ended_badly_def)
  next
    case 2
    have "phases leaky_state 1 = Accepted" by code_simp
    then show ?thesis using 2 by (simp add: ended_badly_def)
  next
    case 3
    have "phases leaky_state r = phases demo_server r"
      by (rule run_target[OF leaky_state_run]) (use 3 in simp)
    then show ?thesis by (simp add: demo_server_def ended_badly_def)
  qed
qed

definition abandoned_state :: "(unit, unit, unit, echo) server" where
  "abandoned_state = the (act echo_lib (\<lambda>dir. True) (Abandon 0) leaky_state)"

definition begun_state :: "(unit, unit, unit, echo) server" where
  "begun_state = the (act echo_lib (\<lambda>dir. True) (Begin 1) abandoned_state)"

definition resumes :: "action list" where
  "resumes = [Resume 1, Resume 1, Resume 1, Resume 1, Resume 1, Resume 1, Resume 1]"

definition leaked_state :: "(unit, unit, unit, echo) server" where
  "leaked_state = the (run echo_lib (\<lambda>dir. True) resumes begun_state)"

lemma leak_steps:
  "act echo_lib (\<lambda>dir. True) (Abandon 0) leaky_state = Some abandoned_state"
  "act echo_lib (\<lambda>dir. True) (Begin 1) abandoned_state = Some begun_state"
  "run echo_lib (\<lambda>dir. True) resumes begun_state = Some leaked_state"
proof -
  have "act echo_lib (\<lambda>dir. True) (Abandon 0) leaky_state \<noteq> None"
    "act echo_lib (\<lambda>dir. True) (Begin 1) abandoned_state \<noteq> None"
    "run echo_lib (\<lambda>dir. True) resumes begun_state \<noteq> None" by code_simp+
  then show "act echo_lib (\<lambda>dir. True) (Abandon 0) leaky_state = Some abandoned_state"
    "act echo_lib (\<lambda>dir. True) (Begin 1) abandoned_state = Some begun_state"
    "run echo_lib (\<lambda>dir. True) resumes begun_state = Some leaked_state"
    by (auto simp: abandoned_state_def begun_state_def leaked_state_def)
qed

lemma abandoned_text_leaks_witness:
  "phases leaked_state 1 = Completed \<and> concat (sent leaked_state 1) = str ''b'' @ str ''xy''"
proof -
  have str: "phases leaky_state 0 = Streaming [] True" "concat (sent leaky_state 0) = str ''a''"
    "streaming (phases begun_state 1)" "phases leaked_state 1 = Completed"
    "engine_tokenizer (eng leaky_state) = Some ()"
    "req_prompt (requests leaky_state 0) = str ''ab''" "req_prompt (requests leaky_state 1) = str ''xy''"
    "concat (echo_pieces (stream_job echo_lib () (requests leaky_state 0) (Tensor [1, 2] (map int (str ''ab''))))) = str ''ab''"
    "concat (echo_pieces (stream_job echo_lib () (requests leaky_state 1) (Tensor [1, 2] (map int (str ''xy''))))) = str ''xy''"
    by code_simp+
  have two: "length (str ''ab'') = 2" "length (str ''xy'') = 2" "str ''ab'' = str ''a'' @ str ''b''" by code_simp+
  from abandoned_text_leaks[OF echo_law echo_in_order
      run_reachable[OF demo_server_reachable leaky_state_run] leaky_state_clean str(1)
      leak_steps(1,2) str(3) leak_steps(3) str(4)]
  obtain t ids ids' rest where *: "encode echo_lib t (req_prompt (requests leaky_state 0)) True = Inr ids"
    "encode echo_lib t (req_prompt (requests leaky_state 1)) True = Inr ids'"
    "concat (echo_pieces (stream_job echo_lib t (requests leaky_state 0) ids)) = concat (sent leaky_state 0) @ rest"
    "concat (sent leaked_state 1) = rest @ concat (echo_pieces (stream_job echo_lib t (requests leaky_state 1) ids'))"
    by auto
  have enc: "encode echo_lib t p True = Inr (Tensor [1, length p] (map int p))" for t p
    by (simp add: echo_lib_def)
  have "ids = Tensor [1, 2] (map int (str ''ab''))" "ids' = Tensor [1, 2] (map int (str ''xy''))"
    using *(1,2) unfolding str(6,7) enc two(1,2) by (blast dest: sum.inject(2)[THEN iffD1])+
  with *(3,4) str have "rest = str ''b''" "concat (sent leaked_state 1) = rest @ str ''xy''"
    using two(3) by simp_all
  then show ?thesis using str(4) by simp
qed

end
