(* ===== verification/Serving_App.thy ===== *)
theory Serving_App
  imports Serving_Engine
begin

text \<open>
  The HTTP side of the native server (\<^verbatim>\<open>server/chat.py\<close>, \<^verbatim>\<open>server/app.py\<close>): choosing and rendering the chat
  template, the health endpoints, and the two completion endpoints with their streams of events. The
  jinja compiler and renderer, the file system, clocks and fresh ids are arguments. The main results:
  what a client reads off a stream, the status code of every refusal, and what a failed load with
  \<open>EXL3_REQUIRE_MODEL\<close> leaves running.
\<close>

declare str_simps [simp del]

section \<open>Chat templates\<close>

definition BOS :: pystr where "BOS = str ''<'' @ [65372] @ str ''begin_of_sentence'' @ [65372] @ str ''>''"
definition EOS :: pystr where "EOS = str ''<'' @ [65372] @ str ''end_of_sentence'' @ [65372] @ str ''>''"
definition USER :: pystr where "USER = str ''<'' @ [65372] @ str ''User'' @ [65372] @ str ''>''"
definition ASSISTANT :: pystr where "ASSISTANT = str ''<'' @ [65372] @ str ''Assistant'' @ [65372] @ str ''>''"
definition THINK :: pystr where "THINK = str '' thinking''"

record message =
  role :: pystr
  content :: pystr

text \<open>Python's truth value.\<close>

fun truthy :: "json \<Rightarrow> bool" where
  "truthy JNull = False"
| "truthy (JBool b) = b"
| "truthy (JInt n) = (n \<noteq> 0)"
| "truthy (JStr s) = (s \<noteq> [])"
| "truthy (JList xs) = (xs \<noteq> [])"
| "truthy (JObj items) = (items \<noteq> [])"

text \<open>The built-in template.\<close>

definition fallback_message :: "message \<Rightarrow> pystr" where
  "fallback_message m =
     (if role m = str ''system'' then BOS @ content m
      else if role m = str ''user'' then USER @ content m @ EOS
      else if role m = str ''assistant'' then ASSISTANT @ content m @ EOS
      else [])"

definition fallback_template :: "message list \<Rightarrow> bool \<Rightarrow> json \<Rightarrow> pystr" where
  "fallback_template messages add_generation_prompt enable_thinking =
     concat (map fallback_message messages) @
     (if add_generation_prompt then ASSISTANT @ (if truthy enable_thinking then THINK else []) else [])"

text \<open>The characters \<open>str.strip\<close> removes.\<close>

definition space :: "nat \<Rightarrow> bool" where
  "space c \<longleftrightarrow> c \<in> {9, 10, 11, 12, 13, 28, 29, 30, 31, 32, 133, 160, 5760, 8192, 8193, 8194, 8195, 8196, 8197,
     8198, 8199, 8200, 8201, 8202, 8232, 8233, 8239, 8287, 12288}"

text \<open>
  The pack's template: the jinja file if there is one, else the entry of \<^verbatim>\<open>tokenizer_config.json\<close>. A
  file that is there is its text; for the configuration, what \<open>json.loads\<close> gives, if it parses.
\<close>

definition load_chat_template :: "pystr option \<Rightarrow> json option option \<Rightarrow> pystr option res" where
  "load_chat_template jinja_file config_file =
     (case jinja_file of
        Some text \<Rightarrow> Inr (Some text)
      | None \<Rightarrow>
          (case config_file of
             None \<Rightarrow> Inr None
           | Some data \<Rightarrow>
               (case (case data of None \<Rightarrow> JObj [] | Some d \<Rightarrow> d) of
                  JObj items \<Rightarrow>
                    (case map_of items (str ''chat_template'') of
                       Some (JStr template) \<Rightarrow> Inr (if \<exists>c \<in> set template. \<not> space c then Some template else None)
                     | _ \<Rightarrow> Inr None)
                | _ \<Rightarrow> Inl AttributeError)))"

datatype template = Fallback | Pack pystr

record chat_renderer =
  template_of :: template
  thinking :: bool

text \<open>What goes wrong with a template: the server's own \<open>ChatTemplateError\<close>, or another exception.\<close>

datatype template_error = Chat_template_error pystr | Other_error exc

text \<open>
  How rendering a pack's template fails: with jinja's \<open>TemplateError\<close>, by the \<open>raise_exception\<close> the
  environment offers to templates, or with another exception.
\<close>

datatype jinja_error = Template_error pystr | Raise_exception pystr | Jinja_other exc

definition new_renderer ::
    "(pystr \<Rightarrow> pystr option) \<Rightarrow> pystr option \<Rightarrow> json option option \<Rightarrow> bool \<Rightarrow> template_error + chat_renderer" where
  "new_renderer compile_error jinja_file config_file think =
     (case load_chat_template jinja_file config_file of
        Inl e \<Rightarrow> Inl (Other_error e)
      | Inr None \<Rightarrow> Inr \<lparr>template_of = Fallback, thinking = think\<rparr>
      | Inr (Some source) \<Rightarrow>
          (case compile_error source of
             Some m \<Rightarrow> Inl (Chat_template_error (str ''chat template did not compile: '' @ m))
           | None \<Rightarrow> Inr \<lparr>template_of = Pack source, thinking = think\<rparr>))"

text \<open>\<open>d.update(...)\<close> on the keyword arguments.\<close>

definition kw_update :: "(pystr \<times> json) list \<Rightarrow> (pystr \<times> json) list \<Rightarrow> (pystr \<times> json) list" where
  "kw_update d new = foldl (\<lambda>d (k, v).
     if k \<in> fst ` set d then map (\<lambda>(k', v'). (k', if k' = k then v else v')) d else d @ [(k, v)]) d new"

text \<open>The names \<open>render\<close> passes itself; one of them among the keyword arguments is a \<open>TypeError\<close>.\<close>

definition reserved_kwargs :: "pystr list" where
  "reserved_kwargs = map str [''self'', ''messages'', ''add_generation_prompt'', ''bos_token'', ''eos_token'']"

definition render ::
    "(pystr \<Rightarrow> message list \<Rightarrow> bool \<Rightarrow> (pystr \<times> json) list \<Rightarrow> jinja_error + pystr) \<Rightarrow> chat_renderer \<Rightarrow> message list \<Rightarrow> bool \<Rightarrow>
       (pystr \<times> json) list option \<Rightarrow> template_error + pystr" where
  "render jinja rd messages add_generation_prompt template_kwargs =
     (let kwargs = kw_update [(str ''enable_thinking'', JBool (thinking rd))]
            (case template_kwargs of None \<Rightarrow> [] | Some kw \<Rightarrow> kw)
      in if \<exists>k \<in> set reserved_kwargs. k \<in> fst ` set kwargs then Inl (Other_error TypeError)
         else case template_of rd of
             Fallback \<Rightarrow> Inr (fallback_template messages add_generation_prompt (the (map_of kwargs (str ''enable_thinking''))))
           | Pack source \<Rightarrow>
               (case jinja source messages add_generation_prompt kwargs of
                  Inl (Template_error m) \<Rightarrow> Inl (Chat_template_error (str ''chat template failed to render: '' @ m))
                | Inl (Raise_exception m) \<Rightarrow> Inl (Chat_template_error m)
                | Inl (Jinja_other x) \<Rightarrow> Inl (Other_error x)
                | Inr out \<Rightarrow> Inr out))"

text \<open>The renderer is built once; a failed attempt is not kept.\<close>

definition get_renderer ::
    "template_error + chat_renderer \<Rightarrow> chat_renderer option \<Rightarrow> (template_error + chat_renderer) \<times> chat_renderer option" where
  "get_renderer built cached =
     (case cached of
        Some rd \<Rightarrow> (Inr rd, cached)
      | None \<Rightarrow> (case built of Inl e \<Rightarrow> (Inl e, None) | Inr rd \<Rightarrow> (Inr rd, Some rd)))"

text \<open>The load thread; the flag says whether it ends with an exception.\<close>

definition load_and_warm ::
    "('c, 'm, 'k, 't, 'g) exllama \<Rightarrow> (pystr \<Rightarrow> bool) \<Rightarrow> bool \<Rightarrow> template_error + chat_renderer \<Rightarrow>
       ('m, 'k, 't, 'g) engine \<Rightarrow> chat_renderer option \<Rightarrow> ('m, 'k, 't, 'g) engine \<times> chat_renderer option \<times> bool" where
  "load_and_warm lib isdir require_model built e cached =
     (let (e, raised) = load lib isdir require_model e in
      if raised then (e, cached, True)
      else if is_ready e then
        (case get_renderer built cached of
           (Inl (Other_error x), cached) \<Rightarrow> (e, cached, True)
         | (_, cached) \<Rightarrow> (e, cached, False))
      else (e, cached, False))"

section \<open>Requests and responses\<close>

datatype prompt_arg = One pystr | Many "pystr list"

record body =
  body_model :: "pystr option"
  max_tokens :: int
  temperature :: real
  top_p :: real
  body_stream :: bool
  include_usage :: "bool option"

record completion_body = body +
  prompt :: prompt_arg

record chat_body = body +
  messages :: "message list"
  chat_template_kwargs :: "(pystr \<times> json) list option"

text \<open>The declared ranges; a body outside them is answered with 422 before a handler runs.\<close>

definition in_range :: "'z body_scheme \<Rightarrow> bool" where
  "in_range b \<longleftrightarrow> 1 \<le> max_tokens b \<and> max_tokens b \<le> 32768 \<and> 0 \<le> temperature b \<and> temperature b \<le> 5 \<and>
     0 < top_p b \<and> top_p b \<le> 1"

definition wants_usage :: "'z body_scheme \<Rightarrow> bool" where
  "wants_usage b \<longleftrightarrow> include_usage b = Some True"

text \<open>A refusal, a value, a value with a status of its own, a stream of events, or an uncaught exception.\<close>

datatype response =
    Http_exception int pystr
  | Value json
  | Coded int json
  | Events "pystr list"
  | Uncaught

definition status_code :: "response \<Rightarrow> int" where
  "status_code resp = (case resp of
     Http_exception code _ \<Rightarrow> code | Value _ \<Rightarrow> 200 | Coded code _ \<Rightarrow> code | Events _ \<Rightarrow> 200 | Uncaught \<Rightarrow> 500)"

section \<open>Health\<close>

definition require_ready :: "('m, 'k, 't, 'g) engine \<Rightarrow> response option" where
  "require_ready e =
     (if is_ready e then None
      else Some (Http_exception 503 (str ''model not ready: status='' @ state_name (engine_state e) @ str '' error='' @
        (if engine_error e = [] then str ''none'' else engine_error e))))"

definition health :: "('m, 'k, 't, 'g) engine \<Rightarrow> response" where
  "health e = Value (JObj ((str ''server_ready'', JBool True) # snapshot e))"

definition ready_endpoint :: "('m, 'k, 't, 'g) engine \<Rightarrow> response" where
  "ready_endpoint e = Coded (if engine_state e = Ready then 200 else 503) (JObj (snapshot e))"

definition models :: "int \<Rightarrow> ('m, 'k, 't, 'g) engine \<Rightarrow> response" where
  "models now e = Value (JObj [(str ''object'', JStr (str ''list'')),
     (str ''data'', JList (if is_ready e
        then [JObj [(str ''id'', JStr (model_name e)), (str ''object'', JStr (str ''model'')),
          (str ''created'', JInt now), (str ''owned_by'', JStr (str ''llmkube''))]]
        else []))])"

section \<open>The completion endpoints\<close>

definition single_prompt :: "prompt_arg \<Rightarrow> response + pystr" where
  "single_prompt p = (case p of
     One t \<Rightarrow> Inr t
   | Many ps \<Rightarrow>
       if length ps \<noteq> 1
       then Inl (Http_exception 400 (str ''multiple prompts per request are not supported; send one prompt at a time''))
       else Inr (ps ! 0))"

definition usage ::
    "('c, 'm, 'k, 't, 'g) exllama \<Rightarrow> ('m, 'k, 't, 'g) engine \<Rightarrow> pystr \<Rightarrow> pystr \<Rightarrow> json lib" where
  "usage lib e prompt_text completion =
     lbind (count_tokens lib e prompt_text True) (\<lambda>prompt_tokens.
     lbind (count_tokens lib e completion False) (\<lambda>completion_tokens.
       Inr (JObj [(str ''prompt_tokens'', JInt (int prompt_tokens)),
         (str ''completion_tokens'', JInt (int completion_tokens)),
         (str ''total_tokens'', JInt (int prompt_tokens + int completion_tokens))])))"

text \<open>The identity of a response: its id, when it was created, and the model's name.\<close>

record reply_id =
  cid :: pystr
  created :: int
  reply_model :: pystr

definition id_items :: "reply_id \<Rightarrow> string \<Rightarrow> (pystr \<times> json) list" where
  "id_items i obj = [(str ''id'', JStr (cid i)), (str ''object'', JStr (str obj)), (str ''created'', JInt (created i)),
     (str ''model'', JStr (reply_model i))]"

definition model_or :: "'z body_scheme \<Rightarrow> ('m, 'k, 't, 'g) engine \<Rightarrow> pystr" where
  "model_or b e = (case body_model b of None \<Rightarrow> model_name e | Some n \<Rightarrow> if n = [] then model_name e else n)"

text \<open>The events of the chunks: the first one also names the response.\<close>

definition chunk_events :: "reply_id \<Rightarrow> string \<Rightarrow> (pystr \<Rightarrow> json) \<Rightarrow> pystr list \<Rightarrow> json list" where
  "chunk_events i obj choice chunks =
     map (\<lambda>(n, chunk). JObj ((str ''choices'', JList [choice chunk]) # (if n = 0 then id_items i obj else [])))
       (enumerate 0 chunks)"

definition text_choice :: "pystr \<Rightarrow> json" where
  "text_choice chunk = JObj [(str ''index'', JInt 0), (str ''text'', JStr chunk)]"

definition delta_choice :: "pystr \<Rightarrow> json" where
  "delta_choice chunk = JObj [(str ''index'', JInt 0), (str ''delta'', JObj [(str ''content'', JStr chunk)])]"

definition error_event :: "pystr \<Rightarrow> json" where
  "error_event m = JObj [(str ''error'', JObj [(str ''message'', JStr m), (str ''type'', JStr (str ''engine_error''))])]"

definition usage_event :: "reply_id \<Rightarrow> string \<Rightarrow> json \<Rightarrow> json" where
  "usage_event i obj u = JObj (id_items i obj @ [(str ''choices'', JList []), (str ''usage'', u)])"

definition final_event :: "reply_id \<Rightarrow> string \<Rightarrow> json \<Rightarrow> json" where
  "final_event i obj choice = JObj (id_items i obj @ [(str ''choices'', JList [choice])])"

definition text_stop :: json where
  "text_stop = JObj [(str ''index'', JInt 0), (str ''text'', JStr []), (str ''finish_reason'', JStr (str ''stop''))]"

definition delta_stop :: json where
  "delta_stop = JObj [(str ''index'', JInt 0), (str ''delta'', JObj []), (str ''finish_reason'', JStr (str ''stop''))]"

text \<open>How the engine's stream ended: normally, with an \<open>EngineError\<close>, or with another exception, which cuts the events off.\<close>

datatype stream_end = Finished | Engine_error pystr | Crashed

definition done_line :: pystr where
  "done_line = str ''data: [DONE]'' @ [10, 10]"

definition stream_body ::
    "reply_id \<Rightarrow> string \<Rightarrow> (pystr \<Rightarrow> json) \<Rightarrow> json \<Rightarrow> pystr list \<Rightarrow> stream_end \<Rightarrow> json lib option \<Rightarrow> pystr list" where
  "stream_body i obj choice stop chunks outcome want =
     map (\<lambda>p. sse p None) (chunk_events i obj choice chunks) @
     (if outcome = Crashed then []
      else
        (case outcome of Engine_error m \<Rightarrow> [sse (error_event m) None] | _ \<Rightarrow> []) @
        (case want of
           Some (Inl f) \<Rightarrow> []
         | Some (Inr u) \<Rightarrow> [sse (usage_event i obj u) None, sse (final_event i obj stop) None, done_line]
         | None \<Rightarrow> [sse (final_event i obj stop) None, done_line]))"

definition completion_gen ::
    "('c, 'm, 'k, 't, 'g) exllama \<Rightarrow> ('m, 'k, 't, 'g) engine \<Rightarrow> reply_id \<Rightarrow> bool \<Rightarrow> pystr \<Rightarrow> pystr list \<Rightarrow> stream_end \<Rightarrow> pystr list" where
  "completion_gen lib e i want_usage prompt_text chunks outcome =
     stream_body i ''text_completion'' text_choice text_stop chunks outcome
       (if want_usage then Some (usage lib e prompt_text (concat chunks)) else None)"

definition chat_gen ::
    "('c, 'm, 'k, 't, 'g) exllama \<Rightarrow> ('m, 'k, 't, 'g) engine \<Rightarrow> reply_id \<Rightarrow> bool \<Rightarrow> pystr \<Rightarrow> pystr list \<Rightarrow> stream_end \<Rightarrow> pystr list" where
  "chat_gen lib e i want_usage prompt_text chunks outcome =
     stream_body i ''chat.completion.chunk'' delta_choice delta_stop chunks outcome
       (if want_usage then Some (usage lib e prompt_text (concat chunks)) else None)"

text \<open>The request the engine gets, and what a server's stream of a request has sent so far.\<close>

definition engine_request :: "'z body_scheme \<Rightarrow> pystr \<Rightarrow> request" where
  "engine_request b prompt_text = \<lparr>req_prompt = prompt_text, req_max_tokens = max_tokens b,
     req_temperature = temperature b, req_top_p = top_p b, req_stream = body_stream b\<rparr>"

definition whole_reply ::
    "('c, 'm, 'k, 't, 'g) exllama \<Rightarrow> ('m, 'k, 't, 'g) engine \<Rightarrow> request \<Rightarrow> (pystr \<Rightarrow> json \<Rightarrow> json) \<Rightarrow> response" where
  "whole_reply lib e q reply =
     (case generate_text lib e q of
        Inl (cls, m) \<Rightarrow> if cls = str ''EngineError'' then Http_exception 503 m else Uncaught
      | Inr (out, e) \<Rightarrow>
          (case usage lib e (req_prompt q) out of Inl f \<Rightarrow> Uncaught | Inr u \<Rightarrow> Value (reply out u)))"

text \<open>
  The two handlers. \<open>streamed\<close> is what the engine's stream of this request gives: its chunks and its end.
\<close>

definition completions ::
    "('c, 'm, 'k, 't, 'g) exllama \<Rightarrow> ('m, 'k, 't, 'g) engine \<Rightarrow> completion_body \<Rightarrow> pystr \<Rightarrow> int \<Rightarrow> pystr list \<times> stream_end \<Rightarrow> response" where
  "completions lib e b uuid now streamed =
     (case require_ready e of
        Some refusal \<Rightarrow> refusal
      | None \<Rightarrow>
          (case single_prompt (prompt b) of
             Inl refusal \<Rightarrow> refusal
           | Inr p \<Rightarrow>
               let i = \<lparr>cid = str ''cmpl-'' @ uuid, created = now, reply_model = model_or b e\<rparr> in
               if body_stream b then Events (completion_gen lib e i (wants_usage b) p (fst streamed) (snd streamed))
               else whole_reply lib e (engine_request b p) (\<lambda>out u.
                   JObj (id_items i ''text_completion'' @
                     [(str ''choices'', JList [JObj [(str ''index'', JInt 0), (str ''text'', JStr out),
                        (str ''finish_reason'', JStr (str ''stop''))]]), (str ''usage'', u)]))))"

definition chat_completions ::
    "('c, 'm, 'k, 't, 'g) exllama \<Rightarrow> (pystr \<Rightarrow> message list \<Rightarrow> bool \<Rightarrow> (pystr \<times> json) list \<Rightarrow> jinja_error + pystr) \<Rightarrow>
       template_error + chat_renderer \<Rightarrow> ('m, 'k, 't, 'g) engine \<Rightarrow> chat_body \<Rightarrow> pystr \<Rightarrow> int \<Rightarrow> pystr list \<times> stream_end \<Rightarrow> response" where
  "chat_completions lib jinja renderer e b uuid now streamed =
     (case require_ready e of
        Some refusal \<Rightarrow> refusal
      | None \<Rightarrow>
          (case renderer of
             Inl (Chat_template_error m) \<Rightarrow> Http_exception 500 (str ''chat template unavailable: '' @ m)
           | Inl (Other_error x) \<Rightarrow> Uncaught
           | Inr rd \<Rightarrow>
               (case render jinja rd (messages b) True (chat_template_kwargs b) of
                  Inl (Chat_template_error m) \<Rightarrow> Http_exception 400 m
                | Inl (Other_error x) \<Rightarrow> Uncaught
                | Inr p \<Rightarrow>
                    let i = \<lparr>cid = str ''chatcmpl-'' @ uuid, created = now, reply_model = model_or b e\<rparr> in
                    if body_stream b then Events (chat_gen lib e i (wants_usage b) p (fst streamed) (snd streamed))
                    else whole_reply lib e (engine_request b p) (\<lambda>out u.
                        JObj (id_items i ''chat.completion'' @
                          [(str ''choices'', JList [JObj [(str ''index'', JInt 0),
                             (str ''message'', JObj [(str ''role'', JStr (str ''assistant'')), (str ''content'', JStr out)]),
                             (str ''finish_reason'', JStr (str ''stop''))]]), (str ''usage'', u)])))))"

section \<open>What a client reads off a stream\<close>

text \<open>The text of a string up to its closing quote.\<close>

fun take_string :: "pystr \<Rightarrow> pystr" where
  "take_string [] = []"
| "take_string (c # s) =
     (if c = 34 then []
      else if c = 92 then (case s of [] \<Rightarrow> [c] | e # t \<Rightarrow> c # e # take_string t)
      else c # take_string s)"

lemma take_string_escape_char: "take_string (escape_char c @ s) = escape_char c @ take_string s"
proof -
  have u: "take_string (u_escape n @ t) = u_escape n @ take_string t" for n t
    by (simp add: u_escape_def hex_digit_def)
  consider "c < 65536" | "65536 \<le> c" by linarith
  then show ?thesis by cases (simp_all add: escape_char_def u)
qed

lemma take_string_escape: "take_string (escape s @ 34 # t) = escape s"
  by (induction s) (simp_all add: escape_def take_string_escape_char)

text \<open>A client of \<^verbatim>\<open>/v1/completions\<close> reads the text of a chunk.\<close>

definition chunk_prefix :: pystr where
  "chunk_prefix = str ''data: {'' @ dumps_str (str ''choices'') @ str '': [{'' @ dumps_str (str ''index'') @ str '': 0, '' @
     dumps_str (str ''text'') @ str '': '' @ [34]"

definition read_text :: "pystr \<Rightarrow> pystr" where
  "read_text frame = unescape (take_string (drop (length chunk_prefix) frame))"

lemma joined_append: "\<exists>t. joined (x # xs) = x @ t"
  by (cases xs) auto

lemma chunk_line:
  "\<exists>t. data_line (JObj ((str ''choices'', JList [text_choice chunk]) # rest)) = chunk_prefix @ escape chunk @ 34 # t"
proof -
  have zero: "dumps_int 0 = str ''0''" by (simp add: dumps_int_def digits.simps str_simps)
  obtain t where t: "joined (dumps_items ((str ''choices'', JList [text_choice chunk]) # rest)) =
      (dumps_str (str ''choices'') @ str '': '' @ dumps (JList [text_choice chunk])) @ t"
    unfolding dumps_items.simps using joined_append by blast
  have "data_line (JObj ((str ''choices'', JList [text_choice chunk]) # rest)) =
      str ''data: '' @ 123 # ((dumps_str (str ''choices'') @ str '': '' @ dumps (JList [text_choice chunk])) @ t) @ [125]"
    by (simp only: data_line_def dumps.simps(6) t)
  also have "dumps (JList [text_choice chunk]) =
      91 # 123 # dumps_str (str ''index'') @ str '': 0, '' @ dumps_str (str ''text'') @ str '': '' @ dumps_str chunk @ [125, 93]"
    by (simp add: text_choice_def zero) (simp add: str_simps)
  finally show ?thesis by (simp add: chunk_prefix_def dumps_str_def) (simp add: str_simps)
qed

lemma read_chunk:
  assumes "list_all scalar chunk"
  shows "read_text (data_line (JObj ((str ''choices'', JList [text_choice chunk]) # rest))) = chunk"
proof -
  obtain t where "data_line (JObj ((str ''choices'', JList [text_choice chunk]) # rest)) =
      chunk_prefix @ escape chunk @ 34 # t" using chunk_line by blast
  then show ?thesis by (simp add: read_text_def take_string_escape unescape_escape[OF assms])
qed

lemma read_chunks:
  assumes "list_all (list_all scalar) chunks"
  shows "map read_text (map data_line (chunk_events i obj text_choice chunks)) = chunks"
  using assms by (intro nth_equalityI) (simp_all add: chunk_events_def nth_enumerate_eq read_chunk list_all_length[of _ chunks])

lemma stream_frames:
  assumes "outcome \<noteq> Crashed" and "\<And>f. want \<noteq> Some (Inl f)"
  shows "frames [] (concat (stream_body i obj choice stop chunks outcome want)) =
    map data_line (chunk_events i obj choice chunks @
      (case outcome of Engine_error m \<Rightarrow> [error_event m] | _ \<Rightarrow> []) @
      (case want of Some (Inr u) \<Rightarrow> [usage_event i obj u] | _ \<Rightarrow> []) @ [final_event i obj stop]) @
    [str ''data: [DONE]'']"
proof -
  define ps where "ps = chunk_events i obj choice chunks @ (case outcome of Engine_error m \<Rightarrow> [error_event m] | _ \<Rightarrow> []) @
      (case want of Some (Inr u) \<Rightarrow> [usage_event i obj u] | _ \<Rightarrow> []) @ [final_event i obj stop]"
  have "stream_body i obj choice stop chunks outcome want = map (\<lambda>p. sse p None) ps @ [done_line]"
    using assms by (cases outcome; cases want) (auto simp: stream_body_def ps_def split: sum.split)
  moreover have "frames [] done_line = [str ''data: [DONE]'']" by code_simp
  ultimately show ?thesis using frames_stream[of ps done_line] by (simp add: ps_def)
qed

text \<open>
  C19. Take a streamed request of \<^verbatim>\<open>/v1/completions\<close> with a single prompt and without
  \<open>include_usage\<close> (with it a failing token count cuts the stream before the \<open>[DONE]\<close> mark) that has
  completed, on a server where no stream was abandoned or failed, whose pieces are made of Unicode
  scalar values (no lone surrogates). A client that cuts the events at blank lines, reads the text
  fields of the chunk events and undoes the escapes gets, put together, exactly the text the generator
  makes of the prompt, and the stream ends with the \<open>[DONE]\<close> mark.
\<close>

theorem streamed_completion_is_the_output:
  assumes "generator_law lib pending output" and "reachable lib isdir s"
    and "\<And>r. \<not> ended_badly (phases s r)"
    and "phases s r = Completed" and "requests s r = engine_request b p"
    and "body_stream b" and "prompt b = One p" and "\<not> wants_usage b"
    and "list_all (list_all scalar) (sent s r)"
  shows "\<exists>es t ids. completions lib (eng s) b uuid now (sent s r, Finished) = Events es \<and>
    engine_tokenizer (eng s) = Some t \<and> encode lib t p True = Inr ids \<and>
    concat (map read_text (take (length (sent s r)) (frames [] (concat es)))) =
      output (stream_job lib t (engine_request b p) ids) \<and>
    last (frames [] (concat es)) = str ''data: [DONE]''"
proof -
  have "let_in (phases s r)" using assms(4) by (simp add: let_in_def)
  then have ready: "is_ready (eng s)" by (rule let_in_ready[OF reachable_inv[OF assms(2)]])
  obtain t ids where own: "engine_tokenizer (eng s) = Some t" "encode lib t p True = Inr ids"
    "concat (sent s r) = output (stream_job lib t (engine_request b p) ids)"
    using reachable_text[OF assms(1,2,3)] assms(4,5,6)
    by (auto simp: text_inv_def own_text_def engine_request_def)
  define i where "i = \<lparr>cid = str ''cmpl-'' @ uuid, created = now, reply_model = model_or b (eng s)\<rparr>"
  define es where "es = completion_gen lib (eng s) i False p (sent s r) Finished"
  have es: "completions lib (eng s) b uuid now (sent s r, Finished) = Events es"
    using ready assms(6,7,8)
    by (simp add: completions_def require_ready_def single_prompt_def Let_def es_def i_def)
  have frames: "frames [] (concat es) = map data_line (chunk_events i ''text_completion'' text_choice (sent s r)) @
      [data_line (final_event i ''text_completion'' text_stop), str ''data: [DONE]'']"
    unfolding es_def completion_gen_def by (subst stream_frames) (simp_all)
  have "length (chunk_events i ''text_completion'' text_choice (sent s r)) = length (sent s r)"
    by (simp add: chunk_events_def)
  then have "map read_text (take (length (sent s r)) (frames [] (concat es))) = sent s r"
    unfolding frames using read_chunks[OF assms(9), of i "''text_completion''"] by simp
  then show ?thesis using es own frames by (simp)
qed

section \<open>Refusals\<close>

text \<open>
  The status of every answer of the chat endpoint, and when a request is at fault: without a ready
  model 503; a template that cannot be built 500; a template that fails on the messages 400; but a
  request whose template arguments name one of the renderer's own arguments crashes the handler.
\<close>

lemma chat_refusals:
  "(\<not> is_ready e \<longrightarrow> status_code (chat_completions lib jinja built e b uuid now streamed) = 503) \<and>
   (is_ready e \<and> built = Inl (Chat_template_error m) \<longrightarrow>
      status_code (chat_completions lib jinja built e b uuid now streamed) = 500) \<and>
   (is_ready e \<and> built = Inr \<lparr>template_of = Pack source, thinking = think\<rparr> \<and> chat_template_kwargs b = None \<and>
      jinja source (messages b) True [(str ''enable_thinking'', JBool think)] \<in> {Inl (Template_error m), Inl (Raise_exception m)} \<longrightarrow>
      status_code (chat_completions lib jinja built e b uuid now streamed) = 400) \<and>
   (is_ready e \<and> built = Inr rd \<and> chat_template_kwargs b = Some kw \<and> k \<in> fst ` set kw \<and> k \<in> set reserved_kwargs \<longrightarrow>
      chat_completions lib jinja built e b uuid now streamed = Uncaught)"
proof -
  have keys: "fst ` set (kw_update d new) = fst ` set d \<union> fst ` set new" for d new
    by (induction new arbitrary: d) (force simp: kw_update_def image_iff split: prod.splits)+
  have plain: "\<not> (\<exists>k \<in> set reserved_kwargs. k = str ''enable_thinking'')" by code_simp
  have "render jinja rd ms True (Some kw) = Inl (Other_error TypeError)"
    if "k \<in> fst ` set kw" "k \<in> set reserved_kwargs" for rd ms
    using that keys by (auto simp: render_def Let_def)
  moreover have "status_code (chat_completions lib jinja (Inr \<lparr>template_of = Pack source, thinking = think\<rparr>) e b uuid now streamed) = 400"
    if ready: "is_ready e" and none: "chat_template_kwargs b = None" and bad:
      "jinja source (messages b) True [(str ''enable_thinking'', JBool think)] \<in> {Inl (Template_error m), Inl (Raise_exception m)}"
  proof -
    obtain m' where "render jinja \<lparr>template_of = Pack source, thinking = think\<rparr> (messages b) True None = Inl (Chat_template_error m')"
      using bad plain by (auto simp: render_def kw_update_def Let_def)
    then show ?thesis using ready none by (simp add: chat_completions_def require_ready_def status_code_def)
  qed
  ultimately show ?thesis
    by (auto simp: chat_completions_def require_ready_def status_code_def)
qed

section \<open>A failed load that was required\<close>

lemma load_by_steps:
  assumes "fresh s"
  shows "\<exists>s'. run lib isdir [Start_load, End_load rm] s = Some s' \<and> eng s' = fst (load lib isdir rm (eng s)) \<and>
    (load_thread s' = Load_raised) = snd (load lib isdir rm (eng s)) \<and> phases s' = phases s"
  using assms
  by (auto simp: fresh_def load_def start_load_def end_load_def begin_load_def split: sum.splits)

text \<open>Once the load thread is over and the model is not there, nothing changes the engine's state any more.\<close>

lemma dead_engine_stays:
  "run lib isdir as s = Some s' \<Longrightarrow> load_thread s \<in> {Load_done, Load_raised} \<Longrightarrow> engine_state (eng s) = Failed \<Longrightarrow>
   load_thread s' = load_thread s \<and> engine_state (eng s') = Failed"
proof (induction as arbitrary: s)
  case (Cons a as)
  obtain s1 where s1: "act lib isdir a s = Some s1" "run lib isdir as s1 = Some s'"
    using Cons.prems(1) by (auto simp: bind_eq_Some_conv)
  have same: "same_engine (eng s) e \<Longrightarrow> engine_state e = engine_state (eng s)" for e by (auto simp: same_engine_def)
  have "load_thread s1 = load_thread s \<and> engine_state (eng s1) = Failed"
    using s1(1) Cons.prems(2,3) same
    by (cases a) (auto simp: start_load_def end_load_def elim!: arriveE
      dest!: begin_request_engine resume_engine abandon_engine)
  then show ?case using Cons.IH[OF s1(2)] Cons.prems(2) by simp
qed simp

text \<open>
  C22. With \<open>EXL3_REQUIRE_MODEL\<close> set, a load that fails ends the load thread with an exception, and no
  more: the server goes on in whatever way its clients act, its liveness endpoint answers 200 and its
  readiness endpoint 503 for ever.
\<close>

theorem required_load_failure_is_not_fatal:
  assumes "fresh s" and "load_locked lib isdir ((eng s)\<lparr>engine_state := Loading, engine_error := []\<rparr>) = Inl f"
  shows "\<exists>s'. run lib isdir [Start_load, End_load True] s = Some s' \<and> load_thread s' = Load_raised \<and>
    (\<forall>as s''. run lib isdir as s' = Some s'' \<longrightarrow>
       status_code (health (eng s'')) = 200 \<and> status_code (ready_endpoint (eng s'')) = 503)"
proof -
  obtain s' where s': "run lib isdir [Start_load, End_load True] s = Some s'"
    "eng s' = fst (load lib isdir True (eng s))" "(load_thread s' = Load_raised) = snd (load lib isdir True (eng s))"
    using load_by_steps[OF assms(1)] by blast
  have "engine_state (eng s) = Idle" using assms(1) by (simp add: fresh_def)
  then have "load lib isdir True (eng s) = (fail_load f ((eng s)\<lparr>engine_state := Loading, engine_error := []\<rparr>), True)"
    using assms(2) by (simp add: load_def begin_load_def)
  then have raised: "load_thread s' = Load_raised" "engine_state (eng s') = Failed" using s' by (simp_all add: fail_load_def)
  have "engine_state (eng s'') = Failed" if "run lib isdir as s' = Some s''" for as s''
    using dead_engine_stays[OF that] raised by simp
  then show ?thesis using s'(1) raised(1)
    by (intro exI[of _ s']) (auto simp: status_code_def health_def ready_endpoint_def)
qed

section \<open>Concrete cases\<close>

definition demo_body :: completion_body where
  "demo_body = \<lparr>body_model = None, max_tokens = 16, temperature = 0, top_p = 1, body_stream = True, include_usage = None,
     prompt = One (str ''ab'')\<rparr>"

theorem streamed_completion_is_the_output_witness:
  "\<exists>es t ids. completions echo_lib (eng demo_state) demo_body (str ''0a'') 1700000000 (sent demo_state 0, Finished) = Events es \<and>
    engine_tokenizer (eng demo_state) = Some t \<and> encode echo_lib t (str ''ab'') True = Inr ids \<and>
    concat (map read_text (take (length (sent demo_state 0)) (frames [] (concat es)))) =
      concat (echo_pieces (stream_job echo_lib t (engine_request demo_body (str ''ab'')) ids)) \<and>
    last (frames [] (concat es)) = str ''data: [DONE]''"
proof (rule streamed_completion_is_the_output[OF echo_law demo_state_reachable demo_state_clean])
  show "phases demo_state 0 = Completed" by code_simp
  have "requests demo_state 0 = demo_request ''ab''" by (rule demo_state_request)
  then show "requests demo_state 0 = engine_request demo_body (str ''ab'')"
    by (simp add: demo_request_def engine_request_def demo_body_def)
  have "sent demo_state 0 = [str ''a'', str ''b'']" by code_simp
  then show "list_all (list_all scalar) (sent demo_state 0)" by (simp add: scalar_def str_simps)
qed (simp_all add: demo_body_def wants_usage_def)

definition demo_chat :: "(pystr \<times> json) list option \<Rightarrow> chat_body" where
  "demo_chat kw = \<lparr>body_model = None, max_tokens = 16, temperature = 0, top_p = 1, body_stream = False, include_usage = None,
     messages = [\<lparr>role = str ''user'', content = str ''hi''\<rparr>], chat_template_kwargs = kw\<rparr>"

theorem chat_refusals_witness:
  "status_code (chat_completions echo_lib (\<lambda>src ms g kw. Inl (Template_error (str ''bad''))) (Inr \<lparr>template_of = Fallback, thinking = False\<rparr>)
      (eng demo_server) (demo_chat None) [] 0 ([], Finished)) = 503 \<and>
   status_code (chat_completions echo_lib (\<lambda>src ms g kw. Inl (Template_error (str ''bad''))) (Inr \<lparr>template_of = Pack [], thinking = False\<rparr>)
      (eng demo_state) (demo_chat None) [] 0 ([], Finished)) = 400 \<and>
   chat_completions echo_lib (\<lambda>src ms g kw. Inl (Template_error (str ''bad''))) (Inr \<lparr>template_of = Fallback, thinking = False\<rparr>)
      (eng demo_state) (demo_chat (Some [(str ''bos_token'', JNull)])) [] 0 ([], Finished) = Uncaught"
proof -
  have "\<not> is_ready (eng demo_server)" "is_ready (eng demo_state)" by code_simp+
  moreover have "str ''bos_token'' \<in> set reserved_kwargs" by code_simp
  ultimately show ?thesis
    using chat_refusals[where k = "str ''bos_token''" and rd = "\<lparr>template_of = Fallback, thinking = False\<rparr>"
        and built = "Inr \<lparr>template_of = Fallback, thinking = False\<rparr>" and kw = "[(str ''bos_token'', JNull)]"
        and b = "demo_chat (Some [(str ''bos_token'', JNull)])" and e = "eng demo_state"]
    by (simp add: chat_refusals demo_chat_def)
qed

theorem required_load_failure_is_not_fatal_witness:
  "\<exists>s'. run echo_lib (\<lambda>dir. False) [Start_load, End_load True] demo_server = Some s' \<and> load_thread s' = Load_raised \<and>
     status_code (health (eng s')) = 200 \<and> status_code (ready_endpoint (eng s')) = 503"
proof -
  have "fresh demo_server" by (simp add: fresh_def demo_server_def)
  moreover have "load_locked echo_lib (\<lambda>dir. False) ((eng demo_server)\<lparr>engine_state := Loading, engine_error := []\<rparr>) =
      Inl (str ''EngineError'', str ''model directory not found'')"
    by (simp add: load_locked_def)
  ultimately obtain s' where s': "run echo_lib (\<lambda>dir. False) [Start_load, End_load True] demo_server = Some s'"
    "load_thread s' = Load_raised" "\<forall>as s''. run echo_lib (\<lambda>dir. False) as s' = Some s'' \<longrightarrow>
       status_code (health (eng s'')) = 200 \<and> status_code (ready_endpoint (eng s'')) = 503"
    using required_load_failure_is_not_fatal by blast
  then show ?thesis using s'(3)[rule_format, of "[]" s'] by auto
qed

end
