(* ===== verification/Gate_Overlay.thy ===== *)
theory Gate_Overlay
  imports Py_Text
begin

text \<open>
  The two build steps that lay the vendored patch files over the base image
  (\<^verbatim>\<open>cuda-gb10-vllm-dsv41-exl3/build\<close>): the drift gate, which refuses a base whose files are not the
  ones the patch set was written against, and \<open>apply_patches\<close>, which copies the files and verifies
  them. MD5 is an argument. The main result: when both succeed, the files that changed are the planned
  ones, they hold the recorded contents, and what the baseline names was what it records.
\<close>

section \<open>Paths and files\<close>

text \<open>A path is whether it is absolute and its components, as \<open>pathlib\<close> reads it.\<close>

type_synonym path = "bool \<times> string list"

definition to_path :: "string \<Rightarrow> path" where
  "to_path s = (starts_with ''/'' s, filter (\<lambda>c. c \<noteq> [] \<and> c \<noteq> ''.'') (split_on (CHR ''/'') s))"

definition join_path :: "path \<Rightarrow> string \<Rightarrow> path" where
  "join_path p s = (let q = to_path s in if fst q then q else (fst p, snd p @ snd q))"

definition name_of :: "path \<Rightarrow> string" where
  "name_of p = (if snd p = [] then [] else last (snd p))"

definition parent_of :: "path \<Rightarrow> path" where
  "parent_of p = (fst p, butlast (snd p))"

definition path_text :: "path \<Rightarrow> string" where
  "path_text p = (if fst p then ''/'' @ join_with ''/'' (snd p) else if snd p = [] then ''.'' else join_with ''/'' (snd p))"

text \<open>The file system: the contents of the files, and the directories.\<close>

record fs =
  file_at :: "path \<Rightarrow> string option"
  dir_at :: "path \<Rightarrow> bool"

definition exists_at :: "fs \<Rightarrow> path \<Rightarrow> bool" where
  "exists_at fs p \<longleftrightarrow> file_at fs p \<noteq> None \<or> dir_at fs p"

definition read_file :: "fs \<Rightarrow> path \<Rightarrow> string res" where
  "read_file fs p = (case file_at fs p of Some t \<Rightarrow> Inr t | None \<Rightarrow> Inl (if dir_at fs p then OSError else FileNotFoundError))"

definition md5_prefix :: "(string \<Rightarrow> string) \<Rightarrow> fs \<Rightarrow> path \<Rightarrow> string res" where
  "md5_prefix md5 fs p = rbind (read_file fs p) (\<lambda>t. Inr (take 8 (md5 t)))"

text \<open>\<open>a, b = xs\<close>.\<close>

definition pair_of :: "string list \<Rightarrow> (string \<times> string) res" where
  "pair_of ws = (case ws of [a, b] \<Rightarrow> Inr (a, b) | _ \<Rightarrow> Inl ValueError)"

section \<open>The drift gate\<close>

fun load_baseline :: "string list \<Rightarrow> (string, string) dict \<Rightarrow> (string, string) dict res" where
  "load_baseline [] out = Inr out"
| "load_baseline (line # lines) out =
     (let l = strip line in
      if l = [] \<or> starts_with ''#'' l then load_baseline lines out
      else rbind (pair_of (split_blank l)) (\<lambda>(want, rel). load_baseline lines (dict_set rel want out)))"

fun drift_errors :: "(string \<Rightarrow> string) \<Rightarrow> fs \<Rightarrow> path \<Rightarrow> (string, string) dict \<Rightarrow> string list res" where
  "drift_errors md5 fs site [] = Inr []"
| "drift_errors md5 fs site ((rel, want) # baseline) =
     (let p = join_path site rel in
      if want = ''ABSENT'' then
        rbind (drift_errors md5 fs site baseline) (\<lambda>errors.
          Inr (if exists_at fs p then (rel @ '': expected ABSENT in the base image, but it exists'') # errors else errors))
      else if \<not> exists_at fs p then
        rbind (drift_errors md5 fs site baseline) (\<lambda>errors. Inr ((rel @ '': missing from the base image'') # errors))
      else
        rbind (md5_prefix md5 fs p) (\<lambda>got.
        rbind (drift_errors md5 fs site baseline) (\<lambda>errors.
          Inr (if got \<noteq> want
            then (rel @ '': base has '' @ got @ '', baseline expects '' @ want @
              '' (base image drifted; re-derive the patch set)'') # errors
            else errors))))"

definition drift_check :: "(string \<Rightarrow> string) \<Rightarrow> fs \<Rightarrow> path \<Rightarrow> (string, string) dict \<Rightarrow> string list res" where
  "drift_check md5 fs site baseline =
     (if \<not> dir_at fs site
      then Inr [path_text site @ '': not a directory (is the base image's dist-packages path still /usr/local/lib/python3.12?)'']
      else drift_errors md5 fs site baseline)"

text \<open>The exit code.\<close>

definition drift_main :: "(string \<Rightarrow> string) \<Rightarrow> fs \<Rightarrow> string list \<Rightarrow> int res" where
  "drift_main md5 fs argv =
     (if length argv \<noteq> 3 then Inr 2
      else
        rbind (read_file fs (to_path (argv ! 2))) (\<lambda>text.
        rbind (load_baseline (splitlines text) []) (\<lambda>baseline.
        rbind (drift_check md5 fs (to_path (argv ! 1)) baseline) (\<lambda>errors.
          Inr (if errors \<noteq> [] then 1 else 0)))))"

section \<open>Applying the patch files\<close>

definition EXL3_ABS_PREFIX :: string where
  "EXL3_ABS_PREFIX = ''/usr/local/lib/python3.12/dist-packages/cuda_exl3/''"

definition resolve :: "string \<Rightarrow> path \<Rightarrow> path \<Rightarrow> path res" where
  "resolve dest site exl3_site =
     (if starts_with EXL3_ABS_PREFIX dest then Inr (join_path exl3_site (drop (length EXL3_ABS_PREFIX) dest))
      else if starts_with ''/'' dest then Inl ValueError
      else Inr (join_path site dest))"

text \<open>The pairs of a file with two words on each line that is not blank.\<close>

fun line_pairs :: "string list \<Rightarrow> (string \<times> string) list res" where
  "line_pairs [] = Inr []"
| "line_pairs (line # lines) =
     (if strip line = [] then line_pairs lines
      else rbind (pair_of (split_blank line)) (\<lambda>p. rbind (line_pairs lines) (\<lambda>ps. Inr (p # ps))))"

definition mounts :: "fs \<Rightarrow> path \<Rightarrow> (string \<times> string) list res" where
  "mounts fs patch_dir =
     rbind (read_file fs (join_path patch_dir ''mounts.txt'')) (\<lambda>text. line_pairs (splitlines text))"

definition plan_of :: "fs \<Rightarrow> path \<Rightarrow> path \<Rightarrow> path \<Rightarrow> (string, string \<times> string) dict \<Rightarrow> (path \<times> path) list res" where
  "plan_of fs patch_dir site exl3_site extra =
     rbind (mounts fs patch_dir) (\<lambda>ms.
     rbind (rmap (\<lambda>(src, dest). rbind (resolve dest site exl3_site) (\<lambda>dst. Inr (join_path patch_dir src, dst))) ms) (\<lambda>plan.
       Inr (plan @ map (\<lambda>(src, (rel, want)). (join_path patch_dir src, join_path site rel)) extra)))"

text \<open>\<open>shutil.copyfile\<close>.\<close>

definition copyfile :: "path \<Rightarrow> path \<Rightarrow> fs \<Rightarrow> (fs, unit) outcome" where
  "copyfile src dst fs =
     (case read_file fs src of
        Inl e \<Rightarrow> (Inl e, fs)
      | Inr t \<Rightarrow> if src = dst \<or> dir_at fs dst then (Inl OSError, fs)
          else (Inr (), fs\<lparr>file_at := (file_at fs)(dst \<mapsto> t)\<rparr>))"

text \<open>Files copied before a failure stay.\<close>

fun copy_all :: "(path \<times> path) list \<Rightarrow> fs \<Rightarrow> (fs, unit) outcome" where
  "copy_all [] fs = (Inr (), fs)"
| "copy_all ((src, dst) # plan) fs =
     (if \<not> dir_at fs (parent_of dst) then (Inl FileNotFoundError, fs)
      else case copyfile src dst fs of
          (Inl e, fs) \<Rightarrow> (Inl e, fs)
        | (Inr _, fs) \<Rightarrow> copy_all plan fs)"

definition apply_patches ::
    "path \<Rightarrow> path \<Rightarrow> path \<Rightarrow> (string, string \<times> string) dict \<Rightarrow> fs \<Rightarrow> (fs, (path \<times> path) list) outcome" where
  "apply_patches patch_dir site exl3_site extra fs =
     (case plan_of fs patch_dir site exl3_site extra of
        Inl e \<Rightarrow> (Inl e, fs)
      | Inr plan \<Rightarrow> (case copy_all plan fs of (Inl e, fs) \<Rightarrow> (Inl e, fs) | (Inr _, fs) \<Rightarrow> (Inr plan, fs)))"

definition wanted :: "fs \<Rightarrow> path \<Rightarrow> (string, string \<times> string) dict \<Rightarrow> (string, string) dict res" where
  "wanted fs patch_dir extra =
     rbind (read_file fs (join_path patch_dir ''MD5SUMS.txt'')) (\<lambda>text.
     rbind (line_pairs (splitlines text)) (\<lambda>ps.
       Inr (foldl (\<lambda>d (src, (rel, prefix)). dict_set src prefix d)
         (foldl (\<lambda>d (prefix, name). dict_set name prefix d) [] ps) extra)))"

fun verify_copies :: "(string \<Rightarrow> string) \<Rightarrow> fs \<Rightarrow> (string, string) dict \<Rightarrow> (path \<times> path) list \<Rightarrow> string list res" where
  "verify_copies md5 fs want [] = Inr []"
| "verify_copies md5 fs want ((src, dst) # copies) =
     (case map_of want (name_of src) of
        None \<Rightarrow> rbind (verify_copies md5 fs want copies) (\<lambda>errors.
          Inr ((name_of src @ '': no expected MD5 prefix recorded'') # errors))
      | Some expected \<Rightarrow>
          rbind (md5_prefix md5 fs dst) (\<lambda>got.
          rbind (verify_copies md5 fs want copies) (\<lambda>errors.
            Inr (if got \<noteq> expected
              then (name_of src @ '' -> '' @ path_text dst @ '': has '' @ got @ '', expected '' @ expected) # errors
              else errors))))"

definition verify ::
    "(string \<Rightarrow> string) \<Rightarrow> fs \<Rightarrow> path \<Rightarrow> (path \<times> path) list \<Rightarrow> (string, string \<times> string) dict \<Rightarrow> string list res" where
  "verify md5 fs patch_dir copies extra = rbind (wanted fs patch_dir extra) (\<lambda>want. verify_copies md5 fs want copies)"

text \<open>\<open>s.split(c, 1)\<close> and \<open>s.rsplit(c, 1)\<close> taken apart into two strings.\<close>

definition split_first :: "char \<Rightarrow> string \<Rightarrow> (string \<times> string) res" where
  "split_first c s = (if c \<in> set s then Inr (takeWhile (\<lambda>x. x \<noteq> c) s, tl (dropWhile (\<lambda>x. x \<noteq> c) s)) else Inl ValueError)"

definition split_last :: "char \<Rightarrow> string \<Rightarrow> (string \<times> string) res" where
  "split_last c s = rbind (split_first c (rev s)) (\<lambda>(b, a). Inr (rev a, rev b))"

fun parse_extras :: "string list \<Rightarrow> (string, string \<times> string) dict \<Rightarrow> (string, string \<times> string) dict res" where
  "parse_extras [] extra = Inr extra"
| "parse_extras (e # es) extra =
     rbind (split_first (CHR ''='') e) (\<lambda>(src, rest).
     rbind (split_last (CHR '':'') rest) (\<lambda>(rel, prefix).
       parse_extras es (dict_set src (rel, prefix) extra)))"

definition apply_main :: "(string \<Rightarrow> string) \<Rightarrow> string list \<Rightarrow> fs \<Rightarrow> (fs, int) outcome" where
  "apply_main md5 argv fs =
     (let args = filter (\<lambda>a. \<not> starts_with ''--extra'' a) (tl argv);
          extras = map (drop (length ''--extra='')) (filter (starts_with ''--extra='') (tl argv))
      in if length args \<noteq> 3 then (Inr 2, fs)
         else case parse_extras extras [] of
             Inl e \<Rightarrow> (Inl e, fs)
           | Inr extra \<Rightarrow>
               (case apply_patches (to_path (args ! 0)) (to_path (args ! 1)) (to_path (args ! 2)) extra fs of
                  (Inl e, fs) \<Rightarrow> (Inl e, fs)
                | (Inr copies, fs) \<Rightarrow>
                    (case verify md5 fs (to_path (args ! 0)) copies extra of
                       Inl e \<Rightarrow> (Inl e, fs)
                     | Inr errors \<Rightarrow> (Inr (if errors \<noteq> [] then 1 else 0), fs))))"

section \<open>What the two steps guarantee\<close>

text \<open>The file is there and its MD5 starts as recorded.\<close>

definition holds :: "(string \<Rightarrow> string) \<Rightarrow> fs \<Rightarrow> path \<Rightarrow> string \<Rightarrow> bool" where
  "holds md5 fs p prefix \<longleftrightarrow> (\<exists>t. file_at fs p = Some t \<and> take 8 (md5 t) = prefix)"

lemma md5_prefix_Inr: "md5_prefix md5 fs p = Inr h \<longleftrightarrow> holds md5 fs p h"
  by (auto simp: md5_prefix_def read_file_def holds_def rbind_Inr_iff split: option.splits)

definition base_entry_ok :: "(string \<Rightarrow> string) \<Rightarrow> fs \<Rightarrow> path \<Rightarrow> string \<times> string \<Rightarrow> bool" where
  "base_entry_ok md5 fs site entry \<longleftrightarrow> (let p = join_path site (fst entry) in
     if snd entry = ''ABSENT'' then \<not> exists_at fs p else holds md5 fs p (snd entry))"

lemma base_entry_ok_pair:
  "base_entry_ok md5 fs site (rel, want) \<longleftrightarrow>
    (if want = ''ABSENT'' then \<not> exists_at fs (join_path site rel) else holds md5 fs (join_path site rel) want)"
  by (simp add: base_entry_ok_def)

lemma drift_errors_nil: "drift_errors md5 fs site baseline = Inr [] \<Longrightarrow> list_all (base_entry_ok md5 fs site) baseline"
proof (induction baseline)
  case (Cons entry baseline)
  obtain rel want where entry: "entry = (rel, want)" by (cases entry)
  show ?case
    using Cons unfolding entry
    by (cases "want = ''ABSENT''"; cases "exists_at fs (join_path site rel)")
      (auto simp: Let_def rbind_Inr_iff base_entry_ok_pair md5_prefix_Inr split: if_split_asm)
qed simp

lemma copyfile_Inr:
  assumes "copyfile src dst fs = (Inr u, fs')"
  shows "\<exists>t. file_at fs src = Some t \<and> fs' = fs\<lparr>file_at := (file_at fs)(dst \<mapsto> t)\<rparr>"
  using assms by (auto simp: copyfile_def read_file_def split: option.splits if_split_asm)

lemma copy_all_frame:
  "copy_all plan fs = (Inr u, fs') \<Longrightarrow> p \<notin> snd ` set plan \<Longrightarrow> file_at fs' p = file_at fs p"
proof (induction plan fs rule: copy_all.induct)
  case (2 src dst plan fs)
  then obtain fs1 where fs1: "copyfile src dst fs = (Inr (), fs1)" "copy_all plan fs1 = (Inr u, fs')"
    "dir_at fs (parent_of dst)"
    by (auto split: if_split_asm prod.splits sum.splits)
  then have "file_at fs1 p = file_at fs p" using copyfile_Inr[OF fs1(1)] 2(3) by auto
  then show ?case using 2(1)[OF _ fs1(1)[symmetric]] fs1(2,3) 2(3) by simp
qed simp

lemma copy_all_copies:
  "copy_all plan fs = (Inr u, fs') \<Longrightarrow> distinct (map snd plan) \<Longrightarrow> fst ` set plan \<inter> snd ` set plan = {} \<Longrightarrow>
   (src, dst) \<in> set plan \<Longrightarrow> file_at fs src \<noteq> None \<and> file_at fs' dst = file_at fs src"
proof (induction plan fs rule: copy_all.induct)
  case (2 s d plan fs)
  then obtain fs1 where fs1: "copyfile s d fs = (Inr (), fs1)" "copy_all plan fs1 = (Inr u, fs')"
    "dir_at fs (parent_of d)"
    by (auto split: if_split_asm prod.splits sum.splits)
  obtain t where t: "file_at fs s = Some t" "fs1 = fs\<lparr>file_at := (file_at fs)(d \<mapsto> t)\<rparr>"
    using copyfile_Inr[OF fs1(1)] by blast
  show ?case
  proof (cases "(src, dst) = (s, d)")
    case True
    have "file_at fs' d = file_at fs1 d" using copy_all_frame[OF fs1(2)] 2(3) by (auto simp: image_iff)
    then show ?thesis using True t by simp
  next
    case False
    then have mem: "(src, dst) \<in> set plan" using 2(5) by auto
    moreover have "fst ` set plan \<inter> snd ` set plan = {}" "distinct (map snd plan)" using 2(3,4) by auto
    ultimately have "file_at fs1 src \<noteq> None \<and> file_at fs' dst = file_at fs1 src"
      using 2(1)[OF _ fs1(1)[symmetric]] fs1(2,3) by simp
    moreover have "src \<noteq> d" using mem 2(4) by force
    ultimately show ?thesis using t(2) by simp
  qed
qed simp

lemma verify_copies_nil:
  "verify_copies md5 fs want copies = Inr [] \<Longrightarrow>
   list_all (\<lambda>(src, dst). \<exists>prefix. map_of want (name_of src) = Some prefix \<and> holds md5 fs dst prefix) copies"
proof (induction copies)
  case (Cons c copies)
  obtain src dst where c: "c = (src, dst)" by (cases c)
  show ?case using Cons unfolding c
    by (cases "map_of want (name_of src)") (auto simp: rbind_Inr_iff md5_prefix_Inr split: if_split_asm)
qed simp

lemma apply_main_zero:
  assumes "apply_main md5 argv fs = (Inr 0, fs')"
    and "filter (\<lambda>a. \<not> starts_with ''--extra'' a) (tl argv) = [patch_dir, site, exl3_site]"
  obtains extra plan want where
    "parse_extras (map (drop (length ''--extra='')) (filter (starts_with ''--extra='') (tl argv))) [] = Inr extra"
    "plan_of fs (to_path patch_dir) (to_path site) (to_path exl3_site) extra = Inr plan"
    "copy_all plan fs = (Inr (), fs')" "wanted fs' (to_path patch_dir) extra = Inr want"
    "verify_copies md5 fs' want plan = Inr []"
proof -
  obtain extra copies where
    e: "parse_extras (map (drop (length ''--extra='')) (filter (starts_with ''--extra='') (tl argv))) [] = Inr extra" and
    a: "apply_patches (to_path patch_dir) (to_path site) (to_path exl3_site) extra fs = (Inr copies, fs')"
    "verify md5 fs' (to_path patch_dir) copies extra = Inr []"
    using assms(1) unfolding apply_main_def assms(2) Let_def
    by (auto split: sum.splits prod.splits if_split_asm)
  moreover from a(1) have "plan_of fs (to_path patch_dir) (to_path site) (to_path exl3_site) extra = Inr copies"
    "copy_all copies fs = (Inr (), fs')"
    by (auto simp: apply_patches_def split: sum.splits prod.splits)
  ultimately show ?thesis using that[OF e] by (auto simp: verify_def rbind_Inr_iff)
qed

text \<open>
  C23. When the drift gate passes and the patch files are applied and verified, then every file the
  baseline names was in the base what it records; every planned destination now holds a file whose
  MD5 is the recorded one, and it is its patch file if no destination is written twice or is itself a
  patch file; and no other file has changed.
\<close>

theorem overlay_replaces_only_known_files:
  assumes "drift_main md5 fs [prog, site, base] = Inr 0" and "apply_main md5 argv fs = (Inr 0, fs')"
    and "filter (\<lambda>a. \<not> starts_with ''--extra'' a) (tl argv) = [patch_dir, site, exl3_site]"
  shows "\<exists>content baseline extra plan want. file_at fs (to_path base) = Some content \<and>
    load_baseline (splitlines content) [] = Inr baseline \<and> list_all (base_entry_ok md5 fs (to_path site)) baseline \<and>
    parse_extras (map (drop (length ''--extra='')) (filter (starts_with ''--extra='') (tl argv))) [] = Inr extra \<and>
    plan_of fs (to_path patch_dir) (to_path site) (to_path exl3_site) extra = Inr plan \<and>
    wanted fs' (to_path patch_dir) extra = Inr want \<and>
    (\<forall>(src, dst) \<in> set plan. (\<exists>prefix. map_of want (name_of src) = Some prefix \<and> holds md5 fs' dst prefix) \<and>
      (distinct (map snd plan) \<and> fst ` set plan \<inter> snd ` set plan = {} \<longrightarrow> file_at fs' dst = file_at fs src)) \<and>
    (\<forall>p. p \<notin> snd ` set plan \<longrightarrow> file_at fs' p = file_at fs p)"
proof -
  obtain content baseline where base: "file_at fs (to_path base) = Some content" "load_baseline (splitlines content) [] = Inr baseline"
    "drift_check md5 fs (to_path site) baseline = Inr []"
    using assms(1) by (auto simp: drift_main_def rbind_Inr_iff read_file_def split: option.splits if_split_asm)
  then have ok: "list_all (base_entry_ok md5 fs (to_path site)) baseline"
    by (auto simp: drift_check_def intro: drift_errors_nil split: if_split_asm)
  obtain extra plan want where
    extra: "parse_extras (map (drop (length ''--extra='')) (filter (starts_with ''--extra='') (tl argv))) [] = Inr extra" and
    plan: "plan_of fs (to_path patch_dir) (to_path site) (to_path exl3_site) extra = Inr plan"
    "copy_all plan fs = (Inr (), fs')" "wanted fs' (to_path patch_dir) extra = Inr want"
    "verify_copies md5 fs' want plan = Inr []"
    using apply_main_zero[OF assms(2,3)] .
  have "\<exists>prefix. map_of want (name_of src) = Some prefix \<and> holds md5 fs' dst prefix" if "(src, dst) \<in> set plan" for src dst
    using verify_copies_nil[OF plan(4)] that unfolding list_all_iff by blast
  moreover have "file_at fs' dst = file_at fs src"
    if "(src, dst) \<in> set plan" "distinct (map snd plan)" "fst ` set plan \<inter> snd ` set plan = {}" for src dst
    using copy_all_copies[OF plan(2) that(2,3,1)] by blast
  moreover have "file_at fs' p = file_at fs p" if "p \<notin> snd ` set plan" for p
    using copy_all_frame[OF plan(2) that] .
  ultimately show ?thesis using base(1,2) ok extra plan(1,3) by (intro exI conjI) (assumption | blast)+
qed

text \<open>A base with one file to replace; the digest is the text itself.\<close>

definition demo_base :: fs where
  "demo_base = \<lparr>file_at = map_of
       [(to_path ''/p/mounts.txt'', ''a.py models/a.py''), (to_path ''/p/MD5SUMS.txt'', ''newa a.py''),
        (to_path ''/p/a.py'', ''newa''), (to_path ''/b.txt'', ''olda models/a.py''), (to_path ''/s/models/a.py'', ''olda'')],
     dir_at = (\<lambda>p. p \<in> set [to_path ''/s'', to_path ''/s/models'', to_path ''/x''])\<rparr>"

definition demo_argv :: "string list" where
  "demo_argv = [''apply_patches.py'', ''/p'', ''/s'', ''/x'']"

theorem overlay_replaces_only_known_files_witness:
  "holds (\<lambda>t. t) (snd (apply_main (\<lambda>t. t) demo_argv demo_base)) (to_path ''/s/models/a.py'') ''newa'' \<and>
   file_at (snd (apply_main (\<lambda>t. t) demo_argv demo_base)) (to_path ''/b.txt'') = Some ''olda models/a.py''"
proof -
  let ?fs = "snd (apply_main (\<lambda>t. t) demo_argv demo_base)"
  have drift: "drift_main (\<lambda>t. t) demo_base [''drift_gate.py'', ''/s'', ''/b.txt''] = Inr 0" by code_simp
  have "fst (apply_main (\<lambda>t. t) demo_argv demo_base) = Inr 0" by code_simp
  then have main: "apply_main (\<lambda>t. t) demo_argv demo_base = (Inr 0, ?fs)" by (simp add: prod_eq_iff)
  have args: "filter (\<lambda>a. \<not> starts_with ''--extra'' a) (tl demo_argv) = [''/p'', ''/s'', ''/x'']" by code_simp
  have extras: "parse_extras (map (drop (length ''--extra='')) (filter (starts_with ''--extra='') (tl demo_argv))) [] = Inr []"
    by code_simp
  have plan: "plan_of demo_base (to_path ''/p'') (to_path ''/s'') (to_path ''/x'') [] =
      Inr [(to_path ''/p/a.py'', to_path ''/s/models/a.py'')]" by code_simp
  obtain want where w: "\<exists>prefix. map_of want (name_of (to_path ''/p/a.py'')) = Some prefix \<and>
      holds (\<lambda>t. t) ?fs (to_path ''/s/models/a.py'') prefix"
    "file_at ?fs (to_path ''/s/models/a.py'') = file_at demo_base (to_path ''/p/a.py'')"
    "\<forall>p. p \<noteq> to_path ''/s/models/a.py'' \<longrightarrow> file_at ?fs p = file_at demo_base p"
    using overlay_replaces_only_known_files[OF drift main args] extras plan by (auto simp: to_path_def)
  have "file_at demo_base (to_path ''/p/a.py'') = Some ''newa''" by code_simp
  moreover have "file_at demo_base (to_path ''/b.txt'') = Some ''olda models/a.py''" by code_simp
  moreover have "to_path ''/b.txt'' \<noteq> to_path ''/s/models/a.py''" by code_simp
  ultimately show ?thesis using w(2) w(3)[rule_format, of "to_path ''/b.txt''"] by (simp add: holds_def)
qed

end
