(* ===== verification/Gate_Pins.thy ===== *)
theory Gate_Pins
  imports Gate_Overlay "HOL-Library.List_Lexorder" "HOL-Library.Char_ord"
begin

text \<open>
  The pins gate (\<^verbatim>\<open>cuda-gb10-vllm-dsv41-kk/build/pins_gate.py\<close>): the image is what its pin files say, or
  the build fails. Git, the digests, the environment and the list of installed distributions are
  arguments. An error is the pin it names and a short reason; the rest of the message is left out. The
  main results: what holds of an image that passes, and how the output of \<open>git status -z\<close> is read.
\<close>

section \<open>Tables\<close>

definition COMMIT_ENV :: "(string \<times> string) list" where
  "COMMIT_ENV = [(''vllm'', ''VLLM_FORK_COMMIT''), (''b12x'', ''B12X_COMMIT''), (''nccl'', ''NCCL_COMMIT'')]"

definition REQUIRED_COMMITS :: "string list" where "REQUIRED_COMMITS = [''vllm'', ''b12x'', ''nccl'']"
definition NATIVE :: "(string \<times> string) list" where "NATIVE = [(''nccl'', ''nvidia/nccl/lib/libnccl.so.2'')]"
definition REQUIRED_DISTS :: "string list" where "REQUIRED_DISTS = [''torch'', ''flashinfer-python'', ''b12x'']"

definition hex_string :: "nat \<Rightarrow> string \<Rightarrow> bool" where
  "hex_string n s \<longleftrightarrow> length s = n \<and> list_all (\<lambda>c. c \<in> set ''0123456789abcdef'') s"

type_synonym pin_error = "string \<times> string"

definition rows_of :: "string \<Rightarrow> string list list" where
  "rows_of text = map split_blank (filter (\<lambda>line. strip line \<noteq> [] \<and> \<not> starts_with ''#'' (lstrip line)) (splitlines text))"

section \<open>The outside world\<close>

text \<open>
  Running git in a checkout: its output or its error. The temporary copy of a checkout is opaque: it
  is made, git resets it and reverses patches in it, and reports its status.
\<close>

type_synonym 'a git = "string + 'a"

record 'w world =
  world_fs :: fs
  children :: "path \<Rightarrow> string list"
  getenv :: "string \<Rightarrow> string option"
  sha256 :: "string \<Rightarrow> string"
  md5_hex :: "string \<Rightarrow> string"
  distributions :: "path \<Rightarrow> (string option \<times> string) list"
  git_run :: "path \<Rightarrow> string list \<Rightarrow> string git"
  copy_tree :: "path \<Rightarrow> 'w"
  copy_reset :: "'w \<Rightarrow> 'w git"
  copy_reverse :: "'w \<Rightarrow> path \<Rightarrow> 'w git"
  copy_status :: "'w \<Rightarrow> string git"

definition git_out :: "'w world \<Rightarrow> path \<Rightarrow> string list \<Rightarrow> string git" where
  "git_out w repo args = (case git_run w repo args of Inl e \<Rightarrow> Inl e | Inr out \<Rightarrow> Inr (strip out))"

definition rstrip_char :: "char \<Rightarrow> string \<Rightarrow> string" where
  "rstrip_char c s = rev (dropWhile (\<lambda>x. x = c) (rev s))"

definition origin_matches :: "string \<Rightarrow> string \<Rightarrow> bool" where
  "origin_matches origin repo =
     (let o1 = rstrip_char (CHR ''/'') (strip origin);
          o2 = (if ends_with ''.git'' o1 then take (length o1 - 4) o1 else o1)
      in case filter (\<lambda>p. starts_with p o2) [''https://github.com/'', ''git@github.com:'', ''ssh://git@github.com/''] of
           [] \<Rightarrow> False
         | p # _ \<Rightarrow> lower (drop (length p) o2) = lower repo)"

definition installed :: "'w world \<Rightarrow> path \<Rightarrow> string \<Rightarrow> string list" where
  "installed w site dist = map snd (filter (\<lambda>(n, v). norm_name (case n of None \<Rightarrow> [] | Some n \<Rightarrow> n) = norm_name dist)
     (distributions w site))"

section \<open>Reading git's status\<close>

text \<open>The NUL-separated entries: a rename or copy in the index is followed by the path it came from.\<close>

fun status_entries :: "string list \<Rightarrow> string list" where
  "status_entries [] = []"
| "status_entries (entry # entries) =
     (if length entry > 3
      then drop 3 entry # (if entry ! 0 \<in> set ''RC'' then status_entries (tl entries) else status_entries entries)
      else status_entries entries)"

definition status_paths_of :: "string \<Rightarrow> string list" where
  "status_paths_of out = status_entries (split_on (CHR 0x00) out)"

definition status_paths :: "'w world \<Rightarrow> path \<Rightarrow> string list res" where
  "status_paths w repo =
     (case git_run w repo [''status'', ''--porcelain'', ''-z'', ''--untracked-files=all''] of
        Inl e \<Rightarrow> Inl RuntimeError
      | Inr out \<Rightarrow> Inr (status_paths_of out))"

section \<open>Carried patches\<close>

text \<open>The rows of \<^verbatim>\<open>APPLIED.md\<close>, by patch file: upstream, marker and digest.\<close>

record applied_row =
  upstream :: string
  marker :: string
  row_sha :: string

definition strip_char :: "char \<Rightarrow> string \<Rightarrow> string" where
  "strip_char c s = rstrip_char c (dropWhile (\<lambda>x. x = c) s)"

fun applied_rows_of :: "string list \<Rightarrow> (string, applied_row) dict \<Rightarrow> (string, applied_row) dict" where
  "applied_rows_of [] out = out"
| "applied_rows_of (line # lines) out =
     (let cells = map strip (split_on (CHR ''|'') (strip_char (CHR ''|'') (strip line))) in
      if length cells \<noteq> 8 \<or> \<not> ends_with ''.patch'' (cells ! 0) then applied_rows_of lines out
      else applied_rows_of lines
        (dict_set (cells ! 0) \<lparr>upstream = cells ! 1, marker = cells ! 6, row_sha = cells ! 7\<rparr> out))"

definition applied_rows :: "'w world \<Rightarrow> path \<Rightarrow> (string, applied_row) dict" where
  "applied_rows w p = (case file_at (world_fs w) p of None \<Rightarrow> [] | Some text \<Rightarrow> applied_rows_of (splitlines text) [])"

definition series_names :: "string \<Rightarrow> string list" where
  "series_names text = filter (\<lambda>n. n \<noteq> []) (map (\<lambda>line. strip (takeWhile (\<lambda>c. c \<noteq> CHR ''#'') line)) (splitlines text))"

definition patch_files :: "'w world \<Rightarrow> path \<Rightarrow> string list" where
  "patch_files w dir = sort (filter (ends_with ''.patch'') (children w dir))"

definition series_dirs :: "'w world \<Rightarrow> path \<Rightarrow> string list" where
  "series_dirs w pdir = sort (filter (\<lambda>d. exists_at (world_fs w) (join_path (join_path pdir d) ''series'')) (children w pdir))"

definition is_file :: "'w world \<Rightarrow> path \<Rightarrow> bool" where
  "is_file w p \<longleftrightarrow> file_at (world_fs w) p \<noteq> None"

text \<open>The errors and the patches of one series directory.\<close>

definition series_errors :: "'w world \<Rightarrow> string \<Rightarrow> path \<Rightarrow> string list \<Rightarrow> pin_error list" where
  "series_errors w name sdir names =
     map (\<lambda>n. (name, ''listed more than once'')) (filter (\<lambda>n. count_list names n > 1) (remdups names)) @
     map (\<lambda>p. (name, ''not listed'')) (filter (\<lambda>p. p \<notin> set names) (patch_files w sdir)) @
     map (\<lambda>n. (name, ''listed, but not there'')) (filter (\<lambda>n. \<not> is_file w (join_path sdir n)) (remdups names))"

definition series_patches :: "'w world \<Rightarrow> path \<Rightarrow> string list \<Rightarrow> path list" where
  "series_patches w sdir names =
     map (join_path sdir) (filter (\<lambda>n. is_file w (join_path sdir n)) (rev (remdups (rev names))))"

definition carried_patches :: "'w world \<Rightarrow> string \<Rightarrow> path \<Rightarrow> (pin_error list \<times> path list) res" where
  "carried_patches w name pdir =
     rbind (rmap (\<lambda>d. rbind (read_file (world_fs w) (join_path (join_path pdir d) ''series'')) (\<lambda>text.
         Inr (series_errors w name (join_path pdir d) (series_names text),
              series_patches w (join_path pdir d) (series_names text)))) (series_dirs w pdir)) (\<lambda>parts.
       Inr (concat (map fst parts), map (join_path pdir) (patch_files w pdir) @ concat (map snd parts)))"

text \<open>The second path of every line \<^verbatim>\<open>diff --git a/... b/...\<close>.\<close>

definition diff_target :: "string \<Rightarrow> string option" where
  "diff_target line =
     (let ws = split_on (CHR '' '') line in
      if length ws = 4 \<and> ws ! 0 = ''diff'' \<and> ws ! 1 = ''--git'' \<and>
         starts_with ''a/'' (ws ! 2) \<and> length (ws ! 2) > 2 \<and> starts_with ''b/'' (ws ! 3) \<and> length (ws ! 3) > 2 \<and>
         list_all (\<lambda>c. \<not> blank c) (ws ! 2 @ ws ! 3)
      then Some (drop 2 (ws ! 3)) else None)"

definition diff_targets :: "string \<Rightarrow> string list" where
  "diff_targets text = List.map_filter diff_target (split_on (CHR 0x0A) text)"

text \<open>What the patches record: errors, touched files, markers and digests.\<close>

type_synonym patch_facts = "pin_error list \<times> string list \<times> string list \<times> string list"

fun patch_loop :: "'w world \<Rightarrow> string \<Rightarrow> path list \<Rightarrow> patch_facts \<Rightarrow> patch_facts res" where
  "patch_loop w name [] facts = Inr facts"
| "patch_loop w name (p # ps) (errors, touched, markers, shas) =
     (case map_of (applied_rows w (join_path (parent_of p) ''APPLIED.md'')) (name_of p) of
        None \<Rightarrow> patch_loop w name ps (errors @ [(name, ''no row in APPLIED.md'')], touched, markers, shas)
      | Some row \<Rightarrow>
          rbind (read_file (world_fs w) p) (\<lambda>text.
            let got = sha256 w text;
                errors = (if got \<noteq> row_sha row then errors @ [(name, ''sha256'')] else errors)
            in patch_loop w name ps
                 (errors, foldl (\<lambda>ts b. if b \<in> set ts then ts else ts @ [b]) touched (diff_targets (universal_newlines text)),
                  markers @ [marker row], shas @ [got])))"

text \<open>The copy of the checkout with the patches taken off again.\<close>

fun reverse_all :: "'w world \<Rightarrow> path list \<Rightarrow> 'w \<Rightarrow> 'w git" where
  "reverse_all w [] c = Inr c"
| "reverse_all w (p # ps) c = (case copy_reverse w c p of Inl e \<Rightarrow> Inl e | Inr c \<Rightarrow> reverse_all w ps c)"

definition left_after_reversal :: "'w world \<Rightarrow> path \<Rightarrow> path list \<Rightarrow> string list git" where
  "left_after_reversal w checkout patches =
     (case copy_reset w (copy_tree w checkout) of
        Inl e \<Rightarrow> Inl e
      | Inr c \<Rightarrow>
          (case reverse_all w (rev patches) c of
             Inl e \<Rightarrow> Inl e
           | Inr c \<Rightarrow> (case copy_status w c of Inl e \<Rightarrow> Inl e | Inr out \<Rightarrow> Inr (status_paths_of out))))"

definition check_patches :: "'w world \<Rightarrow> string \<Rightarrow> path \<Rightarrow> path \<Rightarrow> patch_facts res" where
  "check_patches w name pdir checkout =
     rbind (carried_patches w name pdir) (\<lambda>(errors, patches).
     rbind (patch_loop w name patches (errors, [], [], [])) (\<lambda>(errors, touched, markers, shas).
     rbind (status_paths w checkout) (\<lambda>changed.
       Inr (errors @
         map (\<lambda>p. (name, ''changed, but no carried patch touches it'')) (filter (\<lambda>p. p \<notin> set touched) (remdups changed)) @
         map (\<lambda>p. (name, ''not carried'')) (filter (\<lambda>p. p \<notin> set changed) touched) @
         (case left_after_reversal w checkout patches of
            Inl e \<Rightarrow> [(name, ''reversing does not restore the pin'')]
          | Inr left \<Rightarrow> if left \<noteq> [] then [(name, ''still differ from the pin'')] else []),
         touched, markers, shas))))"

section \<open>The checks\<close>

text \<open>The build record of a native pin: each line a field and the rest of the line.\<close>

definition field_of :: "string \<Rightarrow> (string \<times> string) option" where
  "field_of line =
     (let l = lstrip line; k = takeWhile (\<lambda>c. \<not> blank c) l; v = lstrip (dropWhile (\<lambda>c. \<not> blank c) l)
      in if k \<noteq> [] \<and> v \<noteq> [] then Some (k, v) else None)"

definition build_fields :: "string \<Rightarrow> (string, string) dict" where
  "build_fields text = foldl (\<lambda>d (k, v). dict_set k v d) [] (List.map_filter field_of (splitlines text))"

definition check_native_build :: "'w world \<Rightarrow> path \<Rightarrow> path \<Rightarrow> string \<Rightarrow> string \<Rightarrow> string list \<Rightarrow> pin_error list" where
  "check_native_build w root site name commit shas =
     (case file_at (world_fs w) (join_path root (name @ ''-build.txt'')) of
        None \<Rightarrow> [(name, ''build record missing'')]
      | Some text \<Rightarrow>
          (let fields = build_fields text;
               want = (if join_with '','' shas = [] then ''none'' else join_with '','' shas);
               errors = (if map_of fields ''commit'' \<noteq> Some commit then [(name, ''build commit'')] else []) @
                 (if map_of fields ''patches'' \<noteq> Some want then [(name, ''build patches'')] else []);
               lib_sha = (case map_of fields ''lib'' of None \<Rightarrow> [] | Some s \<Rightarrow> s)
           in if \<not> hex_string 64 lib_sha then errors @ [(name, ''no lib sha256'')]
              else
                (case file_at (world_fs w) (join_path site (case map_of NATIVE name of None \<Rightarrow> [] | Some f \<Rightarrow> f)) of
                   None \<Rightarrow> errors @ [(name, ''library not installed'')]
                 | Some lib \<Rightarrow> if sha256 w lib \<noteq> lib_sha then errors @ [(name, ''other library'')] else errors)))"

definition env_errors :: "'w world \<Rightarrow> string \<Rightarrow> string \<Rightarrow> pin_error list" where
  "env_errors w name commit =
     (case map_of COMMIT_ENV name of
        None \<Rightarrow> []
      | Some env \<Rightarrow>
          (case getenv w env of
             None \<Rightarrow> []
           | Some v \<Rightarrow> if v \<noteq> [] \<and> v \<noteq> commit then [(name, ''build ARG'')] else []))"

text \<open>The four questions to a checkout: head, origin, changed tracked files, tracked Python files.\<close>

definition checkout_state :: "'w world \<Rightarrow> string \<Rightarrow> path \<Rightarrow> (string \<times> string \<times> string \<times> string list) git" where
  "checkout_state w name checkout =
     (case git_out w checkout [''rev-parse'', ''HEAD''] of Inl e \<Rightarrow> Inl e | Inr head \<Rightarrow>
     (case git_out w checkout [''remote'', ''get-url'', ''origin''] of Inl e \<Rightarrow> Inl e | Inr origin \<Rightarrow>
     (case git_out w checkout [''status'', ''--porcelain'', ''--untracked-files=no''] of Inl e \<Rightarrow> Inl e | Inr dirty \<Rightarrow>
     (case git_out w checkout [''ls-files'', ''-z'', ''--'', name @ ''/*.py''] of Inl e \<Rightarrow> Inl e | Inr tracked \<Rightarrow>
        Inr (head, origin, dirty, split_on (CHR 0x00) tracked)))))"

definition has_marker :: "'w world \<Rightarrow> path \<Rightarrow> string list \<Rightarrow> string \<Rightarrow> bool" where
  "has_marker w dir files m \<longleftrightarrow> list_ex (\<lambda>f. case file_at (world_fs w) (join_path dir f) of
     None \<Rightarrow> False | Some text \<Rightarrow> occurs_in m (universal_newlines text)) files"

text \<open>An installed file against its checkout; a file the checkout lacks is left to \<open>check_patches\<close>.\<close>

definition installed_errors :: "'w world \<Rightarrow> string \<Rightarrow> path \<Rightarrow> path \<Rightarrow> string \<Rightarrow> pin_error list" where
  "installed_errors w name checkout site rel =
     (case file_at (world_fs w) (join_path checkout rel) of
        None \<Rightarrow> []
      | Some text \<Rightarrow>
          (case file_at (world_fs w) (join_path site rel) of
             None \<Rightarrow> [(name, ''not installed'')]
           | Some got \<Rightarrow> if got \<noteq> text then [(name, ''installed file differs'')] else []))"

definition package_files :: "string \<Rightarrow> string list \<Rightarrow> string list \<Rightarrow> string list" where
  "package_files name tracked patched =
     sort (remdups (filter (\<lambda>t. t \<noteq> []) tracked @ filter (starts_with (name @ ''/'')) patched))"

text \<open>The carried patches of a pin, if it has any.\<close>

definition has_patches :: "'w world \<Rightarrow> path \<Rightarrow> bool" where
  "has_patches w pdir \<longleftrightarrow> dir_at (world_fs w) pdir \<and> (patch_files w pdir \<noteq> [] \<or> series_dirs w pdir \<noteq> [])"

definition pin_patches :: "'w world \<Rightarrow> string \<Rightarrow> path \<Rightarrow> path \<Rightarrow> string \<Rightarrow> patch_facts res" where
  "pin_patches w name pdir checkout dirty =
     (if has_patches w pdir then check_patches w name pdir checkout
      else Inr (if dirty \<noteq> [] then [(name, ''modified tracked files'')] else [], [], [], []))"

definition check_package :: "'w world \<Rightarrow> path \<Rightarrow> path \<Rightarrow> string \<Rightarrow> string \<Rightarrow> path \<Rightarrow> string list \<Rightarrow> patch_facts \<Rightarrow> pin_error list" where
  "check_package w root site name commit checkout tracked facts =
     (let (perrors, patched, markers, shas) = facts in
      perrors @
      (if name \<in> fst ` set NATIVE then
         map (\<lambda>m. (name, ''marker'')) (filter (\<lambda>m. \<not> has_marker w checkout patched m) markers) @
         check_native_build w root site name commit shas
       else
         (let files = package_files name tracked patched in
          (if files = [] then [(name, ''no tracked files'')] else []) @
          concat (map (installed_errors w name checkout site) files) @
          map (\<lambda>m. (name, ''marker'')) (filter (\<lambda>m. \<not> has_marker w site patched m) markers))))"

text \<open>One line of \<^verbatim>\<open>UPSTREAM_COMMITS.txt\<close>: its errors, and the pin it makes.\<close>

definition check_commit_row :: "'w world \<Rightarrow> path \<Rightarrow> path \<Rightarrow> path \<Rightarrow> string list \<Rightarrow> (pin_error list \<times> (string \<times> string) option) res" where
  "check_commit_row w root src site row =
     (if length row \<noteq> 3 \<or> \<not> hex_string 40 (row ! 2) then Inr ([(row ! 0, ''malformed line'')], None)
      else
        (let name = row ! 0; repo = row ! 1; commit = row ! 2; checkout = join_path src name;
             errors = env_errors w name commit
         in case checkout_state w name checkout of
              Inl e \<Rightarrow> Inr (errors @ [(name, ''not a usable git checkout'')], Some (name, commit))
            | Inr (head, origin, dirty, tracked) \<Rightarrow>
                if head \<noteq> commit then Inr (errors @ [(name, ''other commit'')], Some (name, commit))
                else
                  (let errors = errors @ (if \<not> origin_matches origin repo then [(name, ''other origin'')] else []) in
                   rbind (pin_patches w name (join_path (join_path root ''patches'') name) checkout dirty) (\<lambda>facts.
                     Inr (errors @ check_package w root site name commit checkout tracked facts, Some (name, commit))))))"

definition check_commits :: "'w world \<Rightarrow> path \<Rightarrow> path \<Rightarrow> path \<Rightarrow> (pin_error list \<times> (string, string) dict) res" where
  "check_commits w root src site =
     rbind (read_file (world_fs w) (join_path root ''patches/UPSTREAM_COMMITS.txt'')) (\<lambda>text.
     rbind (rmap (check_commit_row w root src site) (rows_of text)) (\<lambda>parts.
       let pins = foldl (\<lambda>d (n, c). dict_set n c d) [] (List.map_filter snd parts) in
       Inr (concat (map fst parts) @
         map (\<lambda>n. (n, ''no entry'')) (filter (\<lambda>n. n \<notin> fst ` set pins) REQUIRED_COMMITS), pins)))"

definition check_dist_row :: "'w world \<Rightarrow> path \<Rightarrow> string list \<Rightarrow> pin_error list" where
  "check_dist_row w site row =
     (if (length row \<noteq> 2 \<and> length row \<noteq> 4) \<or> (length row = 4 \<and> \<not> hex_string 64 (row ! 2))
      then [(row ! 0, ''malformed line'')]
      else
        (let got = installed w site (row ! 0) in
         if length got \<noteq> 1 then [(row ! 0, ''not installed once'')]
         else if got ! 0 \<noteq> row ! 1 then [(row ! 0, ''other version'')] else []))"

definition check_dists :: "'w world \<Rightarrow> path \<Rightarrow> path \<Rightarrow> pin_error list res" where
  "check_dists w root site =
     rbind (read_file (world_fs w) (join_path root ''patches/PINNED_DISTS.txt'')) (\<lambda>text.
       let rows = rows_of text; names = map (\<lambda>r. norm_name (r ! 0)) rows in
       Inr (map (\<lambda>d. (d, ''no entry'')) (filter (\<lambda>d. norm_name d \<notin> set names) REQUIRED_DISTS) @
         concat (map (check_dist_row w site) rows)))"

definition env_text :: "'w world \<Rightarrow> string \<Rightarrow> string" where
  "env_text w name = (case getenv w name of None \<Rightarrow> [] | Some v \<Rightarrow> v)"

definition check_vllm_install :: "'w world \<Rightarrow> path \<Rightarrow> path \<Rightarrow> path \<Rightarrow> string \<Rightarrow> pin_error list" where
  "check_vllm_install w root src site commit =
     (case file_at (world_fs w) (join_path root ''vllm-install.txt'') of
        None \<Rightarrow> [(''vllm'', ''install record missing'')]
      | Some text \<Rightarrow>
          (let fields = split_blank text in
           if length fields \<noteq> 3 \<or> fields ! 0 \<notin> {''source'', ''wheel''} \<or> \<not> hex_string 64 (fields ! 1)
           then [(''vllm'', ''malformed install record'')]
           else
             (let mode = fields ! 0; sha = fields ! 1; origin = fields ! 2;
                  want_url = env_text w ''VLLM_WHEEL_URL''; want_sha = env_text w ''VLLM_WHEEL_SHA256'';
                  versions = installed w site ''vllm''
              in (if (want_url \<noteq> [] \<or> want_sha \<noteq> []) \<and> mode \<noteq> ''wheel'' then [(''vllm'', ''not a wheel'')] else []) @
                 (if mode = ''wheel'' \<and> want_sha \<noteq> [] \<and> sha \<noteq> want_sha then [(''vllm'', ''wheel sha256'')] else []) @
                 (if mode = ''wheel'' \<and> want_url \<noteq> [] \<and> origin \<noteq> want_url then [(''vllm'', ''wheel url'')] else []) @
                 (if length versions \<noteq> 1 then [(''vllm'', ''not installed once'')]
                  else if \<not> occurs_in (CHR ''g'' # take 7 commit) (versions ! 0) then
                    (case git_out w (join_path src ''vllm'') [''describe'', ''--tags'', ''--exact-match'', ''HEAD''] of
                       Inr tag \<Rightarrow> if tag \<noteq> [] then [] else [(''vllm'', ''version without the commit'')]
                     | Inl e \<Rightarrow> [(''vllm'', ''version without the commit'')])
                  else []))))"

definition check_md5_row :: "'w world \<Rightarrow> path \<Rightarrow> string list \<Rightarrow> pin_error list" where
  "check_md5_row w root row =
     (if length row \<noteq> 2 then [(''MD5SUMS'', ''malformed line'')]
      else case file_at (world_fs w) (join_path (join_path root ''patches'') (row ! 1)) of
          None \<Rightarrow> [(row ! 1, ''missing'')]
        | Some text \<Rightarrow> if \<not> starts_with (row ! 0) (md5_hex w text) then [(row ! 1, ''md5'')] else [])"

definition check_md5 :: "'w world \<Rightarrow> path \<Rightarrow> (pin_error list \<times> nat) res" where
  "check_md5 w root =
     rbind (read_file (world_fs w) (join_path root ''patches/MD5SUMS.txt'')) (\<lambda>text.
       Inr (concat (map (check_md5_row w root) (rows_of text)), length (rows_of text)))"

text \<open>The exit code, with the errors printed.\<close>

definition pins_main :: "'w world \<Rightarrow> path \<Rightarrow> path \<Rightarrow> path \<Rightarrow> (int \<times> pin_error list) res" where
  "pins_main w root src site =
     rbind (check_commits w root src site) (\<lambda>(errors, pins).
     rbind (check_dists w root site) (\<lambda>dist_errors.
     rbind (check_md5 w root) (\<lambda>(md5_errors, vendored).
       let errors = errors @ dist_errors @
             (case map_of pins ''vllm'' of None \<Rightarrow> [] | Some c \<Rightarrow> check_vllm_install w root src site c) @ md5_errors
       in Inr (if errors \<noteq> [] then 1 else 0, errors))))"

section \<open>How a status is read\<close>

text \<open>A record of \<open>git status --porcelain -z\<close>: two status letters, a path, and the path it came from.\<close>

record status_record =
  index_letter :: char
  tree_letter :: char
  status_path :: string
  status_source :: "string option"

definition render_status :: "status_record \<Rightarrow> string" where
  "render_status r = [index_letter r, tree_letter r, CHR '' ''] @ status_path r @ [CHR 0x00] @
     (case status_source r of None \<Rightarrow> [] | Some p \<Rightarrow> p @ [CHR 0x00])"

definition plain_path :: "string \<Rightarrow> bool" where
  "plain_path p \<longleftrightarrow> p \<noteq> [] \<and> CHR 0x00 \<notin> set p"

definition record_ok :: "status_record \<Rightarrow> bool" where
  "record_ok r \<longleftrightarrow> plain_path (status_path r) \<and> index_letter r \<noteq> CHR 0x00 \<and> tree_letter r \<noteq> CHR 0x00 \<and>
     (case status_source r of None \<Rightarrow> True | Some p \<Rightarrow> plain_path p)"

lemma status_step:
  "record_ok r \<Longrightarrow> split_on (CHR 0x00) (render_status r @ out) =
    ([index_letter r, tree_letter r, CHR '' ''] @ status_path r) #
    (case status_source r of None \<Rightarrow> split_on (CHR 0x00) out | Some p \<Rightarrow> p # split_on (CHR 0x00) out)"
  using split_on_no_sep[of "CHR 0x00" "[index_letter r, tree_letter r, CHR '' ''] @ status_path r"
      "case status_source r of None \<Rightarrow> out | Some p \<Rightarrow> p @ CHR 0x00 # out"]
    split_on_no_sep[of "CHR 0x00" _ out]
  by (auto simp: render_status_def record_ok_def plain_path_def split: option.splits)

lemma status_paths_read:
  assumes "list_all record_ok rs" and "list_all (\<lambda>r. (index_letter r \<in> set ''RC'') = (status_source r \<noteq> None)) rs"
  shows "status_paths_of (concat (map render_status rs)) = map status_path rs"
  using assms
proof (induction rs)
  case Nil
  then show ?case by (simp add: status_paths_of_def)
next
  case (Cons r rs)
  have len: "length ([index_letter r, tree_letter r, CHR '' ''] @ status_path r) > 3"
    using Cons.prems by (simp add: record_ok_def plain_path_def)
  have "status_paths_of (concat (map render_status (r # rs))) =
      status_path r # status_paths_of (concat (map render_status rs))"
    using Cons.prems len status_step[of r "concat (map render_status rs)"]
    by (cases "status_source r") (simp_all add: status_paths_of_def)
  then show ?case using Cons by simp
qed

text \<open>
  Of any status whose renames and copies are in the index, the gate reads exactly the paths that
  differ, one per record, and no source path. A rename in the work tree, which git reports for a file
  moved onto one added with \<^verbatim>\<open>git add -N\<close>, is read as two paths: the new one, and the old one with its
  first three characters cut off.
\<close>

lemma status_paths_are_the_changed_paths:
  "(list_all record_ok rs \<and> list_all (\<lambda>r. (index_letter r \<in> set ''RC'') = (status_source r \<noteq> None)) rs \<longrightarrow>
      status_paths_of (concat (map render_status rs)) = map status_path rs) \<and>
   (plain_path new \<and> plain_path old \<and> 3 < length old \<longrightarrow>
      status_paths_of (render_status \<lparr>index_letter = CHR '' '', tree_letter = CHR ''R'', status_path = new, status_source = Some old\<rparr>) =
      [new, drop 3 old])"
proof -
  have "status_paths_of (render_status \<lparr>index_letter = CHR '' '', tree_letter = CHR ''R'', status_path = new, status_source = Some old\<rparr>) =
      [new, drop 3 old]" if "plain_path new" "plain_path old" "3 < length old"
    using that status_step[of "\<lparr>index_letter = CHR '' '', tree_letter = CHR ''R'', status_path = new, status_source = Some old\<rparr>" "[]"]
    by (simp add: status_paths_of_def record_ok_def plain_path_def)
  then show ?thesis using status_paths_read by blast
qed

section \<open>What passing means\<close>

lemma installed_errors_nil:
  "installed_errors w name checkout site rel = [] \<longleftrightarrow>
    (\<forall>t. file_at (world_fs w) (join_path checkout rel) = Some t \<longrightarrow> file_at (world_fs w) (join_path site rel) = Some t)"
  by (auto simp: installed_errors_def split: option.splits)

text \<open>A patch with its text: recorded beside it under the digest of the text.\<close>

definition recorded_patch :: "'w world \<Rightarrow> path \<Rightarrow> string \<Rightarrow> bool" where
  "recorded_patch w p text \<longleftrightarrow> read_file (world_fs w) p = Inr text \<and>
     (\<exists>row. map_of (applied_rows w (join_path (parent_of p) ''APPLIED.md'')) (name_of p) = Some row \<and>
        row_sha row = sha256 w text)"

definition patch_targets :: "string list \<Rightarrow> string set" where
  "patch_targets texts = (\<Union>text \<in> set texts. set (diff_targets (universal_newlines text)))"

lemma set_add_targets: "set (foldl (\<lambda>ts b. if b \<in> set ts then ts else ts @ [b]) ts bs) = set ts \<union> set bs"
  by (induction bs arbitrary: ts) auto

lemma patch_loop_keeps:
  "patch_loop w name ps (errors, touched, markers, shas) = Inr ([], touched', facts) \<Longrightarrow> errors = [] \<and>
     (\<exists>texts. list_all2 (recorded_patch w) ps texts \<and> set touched' = set touched \<union> patch_targets texts)"
proof (induction ps arbitrary: errors touched markers shas)
  case Nil
  then show ?case by (simp add: patch_targets_def)
next
  case (Cons p ps)
  show ?case
  proof (cases "map_of (applied_rows w (join_path (parent_of p) ''APPLIED.md'')) (name_of p)")
    case None
    then show ?thesis using Cons.IH Cons.prems by fastforce
  next
    case (Some row)
    then obtain t where t: "read_file (world_fs w) p = Inr t" using Cons.prems by (auto simp: rbind_Inr_iff)
    let ?errors = "if sha256 w t \<noteq> row_sha row then errors @ [(name, ''sha256'')] else errors"
    let ?touched = "foldl (\<lambda>ts b. if b \<in> set ts then ts else ts @ [b]) touched (diff_targets (universal_newlines t))"
    have "patch_loop w name ps (?errors, ?touched, markers @ [marker row], shas @ [sha256 w t]) = Inr ([], touched', facts)"
      using Cons.prems Some t by (simp add: Let_def)
    from Cons.IH[OF this] obtain texts where e: "?errors = []"
      and texts: "list_all2 (recorded_patch w) ps texts" "set touched' = set ?touched \<union> patch_targets texts" by blast
    have ok: "errors = []" "row_sha row = sha256 w t" using e by (simp_all split: if_split_asm)
    then have "recorded_patch w p t" using t Some by (simp add: recorded_patch_def)
    then have "list_all2 (recorded_patch w) (p # ps) (t # texts)" using texts(1) by simp
    moreover have "set touched' = set touched \<union> patch_targets (t # texts)"
      using texts(2) by (auto simp: set_add_targets patch_targets_def)
    ultimately show ?thesis using ok(1) by blast
  qed
qed

text \<open>
  A checkout that is the pin and exactly the carried patches: every carried patch is recorded with its
  digest, the changed paths are the targets of the patches, and with the patches taken off nothing is
  left that differs from the pin.
\<close>

definition carries_exactly :: "'w world \<Rightarrow> string \<Rightarrow> path \<Rightarrow> path \<Rightarrow> string list \<Rightarrow> bool" where
  "carries_exactly w name pdir checkout touched \<longleftrightarrow> (\<exists>patches texts changed.
     carried_patches w name pdir = Inr ([], patches) \<and> list_all2 (recorded_patch w) patches texts \<and>
     set touched = patch_targets texts \<and>
     status_paths w checkout = Inr changed \<and> set changed = patch_targets texts \<and>
     left_after_reversal w checkout patches = Inr [])"

lemma check_patches_ok:
  assumes "check_patches w name pdir checkout = Inr ([], touched, markers, shas)"
  shows "carries_exactly w name pdir checkout touched"
proof -
  obtain errors patches errors' changed where
    c: "carried_patches w name pdir = Inr (errors, patches)"
    "patch_loop w name patches (errors, [], [], []) = Inr (errors', touched, markers, shas)"
    "status_paths w checkout = Inr changed" and
    e: "errors' @ map (\<lambda>p. (name, ''changed, but no carried patch touches it'')) (filter (\<lambda>p. p \<notin> set touched) (remdups changed)) @
         map (\<lambda>p. (name, ''not carried'')) (filter (\<lambda>p. p \<notin> set changed) touched) @
         (case left_after_reversal w checkout patches of
            Inl e \<Rightarrow> [(name, ''reversing does not restore the pin'')]
          | Inr left \<Rightarrow> if left \<noteq> [] then [(name, ''still differ from the pin'')] else []) = []"
    using assms by (fastforce simp: check_patches_def rbind_Inr_iff)
  have "patch_loop w name patches (errors, [], [], []) = Inr ([], touched, markers, shas)"
    using c(2) e by simp
  from patch_loop_keeps[OF this] obtain texts where "errors = []"
    "list_all2 (recorded_patch w) patches texts" "set touched = patch_targets texts" by auto
  moreover have "left_after_reversal w checkout patches = Inr []"
    using e by (cases "left_after_reversal w checkout patches") (auto split: if_split_asm)
  moreover have "set changed = set touched" using e by (auto simp: filter_empty_conv)
  ultimately show ?thesis using c(1,3) by (auto simp: carries_exactly_def)
qed

text \<open>What holds of one line of the commits: the checkout is the pin, and what is installed is the checkout.\<close>

definition commit_row_ok :: "'w world \<Rightarrow> path \<Rightarrow> path \<Rightarrow> path \<Rightarrow> string list \<Rightarrow> bool" where
  "commit_row_ok w root src site row \<longleftrightarrow> (\<exists>name repo commit origin dirty tracked patched.
     row = [name, repo, commit] \<and> hex_string 40 commit \<and>
     checkout_state w name (join_path src name) = Inr (commit, origin, dirty, tracked) \<and> origin_matches origin repo \<and>
     (if has_patches w (join_path (join_path root ''patches'') name)
      then carries_exactly w name (join_path (join_path root ''patches'') name) (join_path src name) patched
      else dirty = [] \<and> patched = []) \<and>
     (name \<notin> fst ` set NATIVE \<longrightarrow> package_files name tracked patched \<noteq> [] \<and>
        list_all (\<lambda>rel. \<forall>t. file_at (world_fs w) (join_path (join_path src name) rel) = Some t \<longrightarrow>
          file_at (world_fs w) (join_path site rel) = Some t) (package_files name tracked patched)))"

lemma check_commit_row_ok:
  assumes "check_commit_row w root src site row = Inr ([], pin)" and "row \<noteq> []"
  shows "commit_row_ok w root src site row \<and> pin = Some (row ! 0, row ! 2)"
proof -
  have shape: "length row = 3" "hex_string 40 (row ! 2)"
    using assms(1) by (auto simp: check_commit_row_def Let_def split: if_split_asm sum.splits)
  obtain name repo commit where row: "row = [name, repo, commit]"
    using shape(1) by (auto simp: length_Suc_conv numeral_3_eq_3)
  let ?pdir = "join_path (join_path root ''patches'') name" and ?checkout = "join_path src name"
  obtain origin dirty tracked where state: "checkout_state w name ?checkout = Inr (commit, origin, dirty, tracked)"
    using assms(1) shape(2) by (auto simp: check_commit_row_def Let_def row split: if_split_asm sum.splits)
  then obtain facts where facts: "pin_patches w name ?pdir ?checkout dirty = Inr facts"
    "check_package w root site name commit ?checkout tracked facts = []" "origin_matches origin repo"
    and pin: "pin = Some (name, commit)"
    using assms(1) shape(2) by (auto simp: check_commit_row_def Let_def row rbind_Inr_iff split: if_split_asm)
  obtain perrors patched markers shas where f: "facts = (perrors, patched, markers, shas)" by (cases facts)
  have none: "perrors = []" using facts(2) by (simp add: check_package_def f)
  have pat: "if has_patches w ?pdir then carries_exactly w name ?pdir ?checkout patched else dirty = [] \<and> patched = []"
    using facts(1) by (auto simp: pin_patches_def f none dest: check_patches_ok split: if_split_asm)
  have "package_files name tracked patched \<noteq> [] \<and> list_all (\<lambda>rel. installed_errors w name ?checkout site rel = [])
      (package_files name tracked patched)" if "name \<notin> fst ` set NATIVE"
    using facts(2) that by (auto simp: check_package_def f Let_def list_all_iff split: if_split_asm)
  then show ?thesis
    using state facts(3) pat shape(2) pin unfolding commit_row_ok_def row installed_errors_nil by auto
qed

text \<open>One line of the distributions.\<close>

definition dist_row_ok :: "'w world \<Rightarrow> path \<Rightarrow> string list \<Rightarrow> bool" where
  "dist_row_ok w site row \<longleftrightarrow> (length row = 2 \<or> length row = 4) \<and> installed w site (row ! 0) = [row ! 1]"

lemma check_dist_row_ok: "check_dist_row w site row = [] \<Longrightarrow> dist_row_ok w site row"
  by (auto simp: check_dist_row_def dist_row_ok_def Let_def length_Suc_conv split: if_split_asm)

lemma rows_nonempty: "row \<in> set (rows_of t) \<Longrightarrow> row \<noteq> []"
proof -
  assume "row \<in> set (rows_of t)"
  then obtain line where line: "row = split_blank line" "strip line \<noteq> []" by (auto simp: rows_of_def)
  have "dropWhile blank line \<noteq> []"
  proof
    assume "dropWhile blank line = []"
    then show False using line(2) by (simp only: strip_def rstrip_def lstrip_def rev.simps dropWhile.simps)
  qed
  then show ?thesis by (simp add: line(1) split_blank.simps[of line] Let_def)
qed

lemma keys_of_pins: "fst ` set (foldl (\<lambda>d (n, c). dict_set n c d) d ps) = fst ` set d \<union> fst ` set ps"
proof (induction ps arbitrary: d)
  case (Cons p ps)
  have "fst ` set (dict_set n c d) = insert n (fst ` set d)" for n c
    using keys_dict_set[of n c d] by (metis (no_types, lifting) insert_absorb image_set list.simps(15) list.set_map
        rotate1.simps(2) set_rotate1)
  then show ?case using Cons by (cases p) auto
qed simp

text \<open>
  C24. An image that passes. Every line of the pinned commits is a checkout at that commit, from the
  pinned repository. Where patches are carried for it, each is recorded with its digest, the paths git
  reports as changed are exactly the targets of the patches' diffs, and with the patches taken off the
  copy is the pin; where none are carried, no tracked file is modified (untracked files are not looked
  at there). Of every pin that is not built natively, the Python files git lists as tracked below the
  package's directory and the patches' targets below it are, as far as the checkout has them, installed
  byte for byte, and there is at least one. Every pinned distribution is installed once, at its
  version; and vllm, b12x and nccl, torch and flashinfer-python are among the pins.
\<close>

theorem passing_image_is_pinned:
  assumes "pins_main w root src site = Inr (0, errors)"
  shows "errors = [] \<and> (\<exists>commits dists.
    file_at (world_fs w) (join_path root ''patches/UPSTREAM_COMMITS.txt'') = Some commits \<and>
    list_all (commit_row_ok w root src site) (rows_of commits) \<and>
    set REQUIRED_COMMITS \<subseteq> (\<lambda>row. row ! 0) ` set (rows_of commits) \<and>
    file_at (world_fs w) (join_path root ''patches/PINNED_DISTS.txt'') = Some dists \<and>
    list_all (dist_row_ok w site) (rows_of dists) \<and>
    norm_name ` set REQUIRED_DISTS \<subseteq> (\<lambda>row. norm_name (row ! 0)) ` set (rows_of dists))"
proof -
  obtain cerrors pins derrors merrors n where c: "check_commits w root src site = Inr (cerrors, pins)"
    "check_dists w root site = Inr derrors" "check_md5 w root = Inr (merrors, n)" and none: "errors = []" "cerrors = []" "derrors = []"
    using assms by (auto simp: pins_main_def rbind_Inr_iff Let_def split: if_split_asm)
  obtain commits parts where commits: "file_at (world_fs w) (join_path root ''patches/UPSTREAM_COMMITS.txt'') = Some commits"
    "rmap (check_commit_row w root src site) (rows_of commits) = Inr parts"
    "concat (map fst parts) = []"
    "filter (\<lambda>n. n \<notin> fst ` set (foldl (\<lambda>d (n, c). dict_set n c d) [] (List.map_filter snd parts))) REQUIRED_COMMITS = []"
    using c(1) none(2) by (auto simp: check_commits_def rbind_Inr_iff read_file_def Let_def split: option.splits)
  have row: "commit_row_ok w root src site r \<and> snd p = Some (r ! 0, r ! 2)"
    if "(r, p) \<in> set (zip (rows_of commits) parts)" for r p
  proof -
    have "check_commit_row w root src site r = Inr p"
      using commits(2) that by (auto simp: rmap_Inr_iff list_all2_iff)
    moreover have "fst p = []" using commits(3) that by (auto dest: set_zip_rightD)
    moreover have "r \<noteq> []" using rows_nonempty[OF set_zip_leftD[OF that]] .
    ultimately show ?thesis using check_commit_row_ok[of w root src site r "snd p"] by (metis prod.collapse)
  qed
  have len: "length parts = length (rows_of commits)" using commits(2) by (rule rmap_length)
  have "commit_row_ok w root src site (rows_of commits ! i)" if "i < length (rows_of commits)" for i
  proof -
    have "(rows_of commits ! i, parts ! i) \<in> set (zip (rows_of commits) parts)"
      using that len by (auto simp: set_zip)
    then show ?thesis using row by blast
  qed
  then have "list_all (commit_row_ok w root src site) (rows_of commits)" by (simp add: list_all_length)
  moreover have "n \<in> (\<lambda>row. row ! 0) ` set (rows_of commits)" if "n \<in> set REQUIRED_COMMITS" for n
  proof -
    have "n \<in> fst ` set (List.map_filter snd parts)"
      using commits(4) that by (simp add: filter_empty_conv keys_of_pins)
    then obtain p c where p: "p \<in> set parts" "snd p = Some (n, c)" by (auto simp: List.map_filter_def)
    then obtain i where i: "i < length parts" "parts ! i = p" by (metis in_set_conv_nth)
    then have "(rows_of commits ! i, p) \<in> set (zip (rows_of commits) parts)" using len by (auto simp: set_zip)
    then have "n = rows_of commits ! i ! 0" using row p(2) by fastforce
    then show ?thesis using i len by auto
  qed
  moreover obtain dists where "file_at (world_fs w) (join_path root ''patches/PINNED_DISTS.txt'') = Some dists"
    "concat (map (check_dist_row w site) (rows_of dists)) = []"
    "filter (\<lambda>d. norm_name d \<notin> set (map (\<lambda>r. norm_name (r ! 0)) (rows_of dists))) REQUIRED_DISTS = []"
    using c(2) none(3) by (auto simp: check_dists_def rbind_Inr_iff read_file_def Let_def split: option.splits)
  moreover from this have "list_all (dist_row_ok w site) (rows_of dists)"
    by (auto simp: list_all_iff intro: check_dist_row_ok)
  ultimately show ?thesis using none(1) commits(1) by (auto simp: filter_empty_conv)
qed

section \<open>Concrete cases\<close>

theorem status_paths_are_the_changed_paths_witness:
  "status_paths_of (concat (map render_status
      [\<lparr>index_letter = CHR ''R'', tree_letter = CHR '' '', status_path = ''new.py'', status_source = Some ''old.py''\<rparr>,
       \<lparr>index_letter = CHR ''?'', tree_letter = CHR ''?'', status_path = ''x'', status_source = None\<rparr>])) = [''new.py'', ''x''] \<and>
   status_paths_of (render_status \<lparr>index_letter = CHR '' '', tree_letter = CHR ''R'', status_path = ''new.py'', status_source = Some ''old.py''\<rparr>) =
     [''new.py'', ''.py'']"
  using status_paths_are_the_changed_paths[of
      "[\<lparr>index_letter = CHR ''R'', tree_letter = CHR '' '', status_path = ''new.py'', status_source = Some ''old.py''\<rparr>,
        \<lparr>index_letter = CHR ''?'', tree_letter = CHR ''?'', status_path = ''x'', status_source = None\<rparr>]" "''new.py''" "''old.py''"]
  by (simp add: record_ok_def plain_path_def)

text \<open>An image with three pins, none of them patched.\<close>

definition demo_commit :: string where "demo_commit = replicate 40 (CHR ''a'')"

definition demo_file :: "string \<Rightarrow> string option" where
  "demo_file = map_of
     [(''patches/UPSTREAM_COMMITS.txt'', ''vllm a/vllm '' @ demo_commit @ [CHR 0x0A] @ ''b12x a/b12x '' @ demo_commit @
         [CHR 0x0A] @ ''nccl a/nccl '' @ demo_commit),
      (''patches/PINNED_DISTS.txt'', ''torch 2'' @ [CHR 0x0A] @ ''flashinfer-python 1'' @ [CHR 0x0A] @ ''b12x 3''),
      (''patches/MD5SUMS.txt'', []),
      (''nccl-build.txt'', ''commit '' @ demo_commit @ [CHR 0x0A] @ ''patches none'' @ [CHR 0x0A] @ ''lib '' @ replicate 64 (CHR ''b'')),
      (''vllm-install.txt'', ''source '' @ replicate 64 (CHR ''b'') @ '' x''),
      (''src/vllm/vllm/x.py'', ''code''), (''site/vllm/x.py'', ''code''),
      (''src/b12x/b12x/x.py'', ''more''), (''site/b12x/x.py'', ''more''),
      (''site/nvidia/nccl/lib/libnccl.so.2'', ''elf'')]"

definition demo_git :: "path \<Rightarrow> string list \<Rightarrow> string git" where
  "demo_git repo args =
     (if args ! 0 = ''rev-parse'' then Inr demo_commit
      else if args ! 0 = ''remote'' then Inr (''https://github.com/a/'' @ name_of repo @ ''.git'')
      else if args ! 0 = ''ls-files'' then Inr (name_of repo @ ''/x.py'' @ [CHR 0x00])
      else Inr [])"

definition demo_world :: "unit world" where
  "demo_world = \<lparr>world_fs = \<lparr>file_at = (\<lambda>p. demo_file (join_with ''/'' (snd p))), dir_at = (\<lambda>p. False)\<rparr>,
     children = (\<lambda>p. []), getenv = (\<lambda>v. None), sha256 = (\<lambda>t. replicate 64 (CHR ''b'')), md5_hex = (\<lambda>t. []),
     distributions = (\<lambda>p. [(Some ''torch'', ''2''), (Some ''flashinfer_python'', ''1''), (Some ''b12x'', ''3''),
       (Some ''vllm'', ''1+gaaaaaaa'')]),
     git_run = demo_git, copy_tree = (\<lambda>p. ()), copy_reset = (\<lambda>c. Inr ()), copy_reverse = (\<lambda>c p. Inr ()),
     copy_status = (\<lambda>c. Inr [])\<rparr>"

theorem passing_image_is_pinned_witness:
  "\<exists>commits. demo_file ''patches/UPSTREAM_COMMITS.txt'' = Some commits \<and>
     list_all (commit_row_ok demo_world (True, []) (True, [''src'']) (True, [''site''])) (rows_of commits)"
proof -
  have "pins_main demo_world (True, []) (True, [''src'']) (True, [''site'']) = Inr (0, [])" by code_simp
  moreover have "join_path (True, []) ''patches/UPSTREAM_COMMITS.txt'' = (True, [''patches'', ''UPSTREAM_COMMITS.txt''])"
    by code_simp
  ultimately show ?thesis
    using passing_image_is_pinned[of demo_world "(True, [])" "(True, [''src''])" "(True, [''site''])" "[]"]
    by (auto simp: demo_world_def)
qed

end
