(* ===== verification/Gate_Checks.thy ===== *)
theory Gate_Checks
  imports Py_Text
begin

text \<open>
  The dependency gate (\<^verbatim>\<open>cuda-gb10-vllm-dsv41-kk/build/deps_gate.py\<close>): it sorts the conflicts
  \<^verbatim>\<open>pip check\<close> reports into fatal and tolerated ones, and looks for AGPL licenses among the installed
  distributions. Matching a line against a pattern of the allow file is an argument; the patterns of
  the code itself are written out. The main result: a conflict that touches an owned package is fatal
  however its name is spelled.
\<close>

section \<open>Rows and owned names\<close>

definition file_rows :: "string option \<Rightarrow> string list" where
  "file_rows file = (case file of
     None \<Rightarrow> []
   | Some text \<Rightarrow> map strip (filter (\<lambda>l. strip l \<noteq> [] \<and> \<not> starts_with ''#'' (lstrip l)) (splitlines text)))"

definition owned_names :: "string option \<Rightarrow> string list" where
  "owned_names pinned = map norm_name [''vllm'', ''b12x''] @ map (\<lambda>r. norm_name (hd (split_blank r))) (file_rows pinned)"

section \<open>Conflicts\<close>

definition dist_char :: "char \<Rightarrow> bool" where
  "dist_char c \<longleftrightarrow> c \<in> set ''ABCDEFGHIJKLMNOPQRSTUVWXYZabcdefghijklmnopqrstuvwxyz0123456789._-''"

text \<open>The two names of a conflict: the package, then a word, then one of the two verbs, then the dependency.\<close>

definition after_verb :: "string \<Rightarrow> string option" where
  "after_verb s =
     (if starts_with ''has requirement '' s then Some (drop (length ''has requirement '') s)
      else if starts_with ''requires '' s then Some (drop (length ''requires '') s)
      else None)"

definition match_line :: "string \<Rightarrow> (string \<times> string) option" where
  "match_line line =
     (let pkg = takeWhile dist_char line; s1 = dropWhile dist_char line in
      case s1 of
        [] \<Rightarrow> None
      | c1 # s2 \<Rightarrow>
          (let version = takeWhile (\<lambda>c. c \<noteq> CHR '' '') s2; s3 = dropWhile (\<lambda>c. c \<noteq> CHR '' '') s2 in
           if pkg = [] \<or> c1 \<noteq> CHR '' '' \<or> version = [] \<or> s3 = [] then None
           else
             (case after_verb (tl s3) of
                None \<Rightarrow> None
              | Some s4 \<Rightarrow> let dep = takeWhile dist_char s4 in if dep = [] then None else Some (pkg, dep))))"

definition touches_owned :: "string list \<Rightarrow> string \<Rightarrow> bool" where
  "touches_owned owned line \<longleftrightarrow> (case match_line line of
     None \<Rightarrow> True | Some (pkg, dep) \<Rightarrow> norm_name pkg \<in> set owned \<or> norm_name dep \<in> set owned)"

definition reported :: "string \<Rightarrow> bool" where
  "reported line \<longleftrightarrow> line \<noteq> [] \<and> \<not> starts_with ''No broken requirements'' line"

text \<open>The fatal and the tolerated lines.\<close>

fun classify :: "(string \<Rightarrow> string \<Rightarrow> bool) \<Rightarrow> string list \<Rightarrow> string list \<Rightarrow> string list \<Rightarrow> string list \<times> string list" where
  "classify re_search owned allow [] = ([], [])"
| "classify re_search owned allow (line # lines) =
     (let (fatal, tolerated) = classify re_search owned allow lines in
      if \<not> reported line then (fatal, tolerated)
      else if list_ex (\<lambda>a. re_search a line) allow then (fatal, line # tolerated)
      else if touches_owned owned line then (line # fatal, tolerated)
      else (fatal, line # tolerated))"

definition classify_pip_check ::
    "(string \<Rightarrow> string \<Rightarrow> bool) \<Rightarrow> string \<Rightarrow> string list \<Rightarrow> string list \<Rightarrow> string list \<times> string list" where
  "classify_pip_check re_search text owned allow = classify re_search owned allow (map strip (splitlines text))"

section \<open>Licenses\<close>

definition word_char :: "char \<Rightarrow> bool" where
  "word_char c \<longleftrightarrow> c \<in> set ''ABCDEFGHIJKLMNOPQRSTUVWXYZabcdefghijklmnopqrstuvwxyz0123456789_'' \<or>
     (let n = of_char c :: nat in n \<ge> 192 \<and> n \<noteq> 215 \<and> n \<noteq> 247 \<or> n \<in> {170, 178, 179, 181, 185, 186, 188, 189, 190})"

text \<open>\<open>re.search(r"\\bAGPL|Affero", s, re.I)\<close>; the flag says whether the character before is a word character.\<close>

fun agpl_search :: "bool \<Rightarrow> string \<Rightarrow> bool" where
  "agpl_search after_word [] = False"
| "agpl_search after_word (c # s) =
     ((\<not> after_word \<and> starts_with ''agpl'' (lower (c # s))) \<or> starts_with ''affero'' (lower (c # s)) \<or>
      agpl_search (word_char c) s)"

text \<open>Words at the start of a text, blanks between them and before the first.\<close>

fun starts_with_words :: "string list \<Rightarrow> string \<Rightarrow> bool" where
  "starts_with_words [] s = True"
| "starts_with_words (w # ws) s =
     (starts_with w s \<and> (ws = [] \<or> (let t = drop (length w) s in t \<noteq> [] \<and> blank (hd t) \<and> starts_with_words ws (lstrip t))))"

definition agpl_title :: "string \<Rightarrow> bool" where
  "agpl_title text = starts_with_words [''gnu'', ''affero'', ''general'', ''public'', ''license''] (lower (lstrip text))"

definition is_agpl :: "string \<Rightarrow> string list \<Rightarrow> string \<Rightarrow> bool" where
  "is_agpl expr classifiers license_field =
     (if agpl_search False expr \<or> list_ex (agpl_search False) classifiers then True
      else if length license_field \<le> 200 then agpl_search False license_field
      else agpl_title license_field)"

record dist_meta =
  meta_name :: string
  meta_version :: string
  license_expression :: "string option"
  meta_classifiers :: "string list"
  license_text :: "string option"

definition opt_text :: "string option \<Rightarrow> string" where
  "opt_text s = (case s of None \<Rightarrow> [] | Some t \<Rightarrow> t)"

text \<open>The distributions that are hits; the report names them.\<close>

definition agpl_hits :: "dist_meta list \<Rightarrow> dist_meta list" where
  "agpl_hits dists = filter (\<lambda>d. is_agpl (opt_text (license_expression d))
     (filter (starts_with ''License'') (meta_classifiers d)) (opt_text (license_text d))) dists"

text \<open>The exit code, from the exit code and the output of \<^verbatim>\<open>pip check\<close>.\<close>

definition deps_main ::
    "(string \<Rightarrow> string \<Rightarrow> bool) \<Rightarrow> string option \<Rightarrow> string option \<Rightarrow> int \<Rightarrow> string \<Rightarrow> dist_meta list \<Rightarrow> int" where
  "deps_main re_search pinned allow_file pip_code pip_output dists =
     (if pip_code \<notin> {0, 1} \<or> (pip_code = 1 \<and> strip pip_output = []) then 1
      else
        (let (fatal, tolerated) = classify_pip_check re_search pip_output (owned_names pinned) (file_rows allow_file) in
         if fatal \<noteq> [] \<or> agpl_hits dists \<noteq> [] then 1 else 0))"

section \<open>A conflict on an owned package is fatal\<close>

lemma classify_filter:
  "classify re_search owned allow lines =
    (filter (\<lambda>l. reported l \<and> \<not> list_ex (\<lambda>a. re_search a l) allow \<and> touches_owned owned l) lines,
     filter (\<lambda>l. reported l \<and> (list_ex (\<lambda>a. re_search a l) allow \<or> \<not> touches_owned owned l)) lines)"
  by (induction lines) simp_all

text \<open>The line \<^verbatim>\<open>pip check\<close> writes for a conflict.\<close>

definition conflict_line :: "string \<Rightarrow> string \<Rightarrow> bool \<Rightarrow> string \<Rightarrow> string \<Rightarrow> string" where
  "conflict_line pkg version missing dep rest =
     pkg @ '' '' @ version @ '' '' @ (if missing then ''requires '' else ''has requirement '') @ dep @ rest"

lemma takeWhile_prefix: "list_all P xs \<Longrightarrow> ys = [] \<or> \<not> P (hd ys) \<Longrightarrow>
  takeWhile P (xs @ ys) = xs \<and> dropWhile P (xs @ ys) = ys"
proof (induction xs)
  case Nil then show ?case by (cases ys) auto
next
  case (Cons x xs) then show ?case by simp
qed

lemma match_conflict_line:
  assumes "pkg \<noteq> []" "list_all dist_char pkg" "version \<noteq> []" "CHR '' '' \<notin> set version"
    and "dep \<noteq> []" "list_all dist_char dep" "rest = [] \<or> \<not> dist_char (hd rest)"
  shows "match_line (conflict_line pkg version missing dep rest) = Some (pkg, dep)"
proof -
  have blank: "\<not> dist_char (CHR '' '')" by (simp add: dist_char_def)
  have ver: "list_all (\<lambda>c. c \<noteq> CHR '' '') version" using assms(4) by (auto simp: list_all_iff)
  have one: "takeWhile dist_char (pkg @ CHR '' '' # s) = pkg \<and> dropWhile dist_char (pkg @ CHR '' '' # s) = CHR '' '' # s" for s
    using takeWhile_prefix[OF assms(2), of "CHR '' '' # s"] blank by simp
  have two: "takeWhile (\<lambda>c. c \<noteq> CHR '' '') (version @ CHR '' '' # s) = version \<and>
      dropWhile (\<lambda>c. c \<noteq> CHR '' '') (version @ CHR '' '' # s) = CHR '' '' # s" for s
    using takeWhile_prefix[OF ver, of "CHR '' '' # s"] by simp
  have three: "takeWhile dist_char (dep @ rest) = dep" using takeWhile_prefix[OF assms(6,7)] by simp
  have verb: "after_verb ((if missing then ''requires '' else ''has requirement '') @ dep @ rest) = Some (dep @ rest)"
    by (simp add: after_verb_def starts_with_def)
  have line: "conflict_line pkg version missing dep rest = pkg @ CHR '' '' # version @ CHR '' '' #
      ((if missing then ''requires '' else ''has requirement '') @ dep @ rest)"
    by (simp add: conflict_line_def)
  show ?thesis unfolding match_line_def Let_def line using one two three verb assms(1,3,5) by (simp del: append.simps)
qed

text \<open>
  A conflict between two packages is fatal exactly when no pattern of the allow file matches it and
  the package or its dependency is owned, whatever mix of case, dots, dashes and underscores its name
  is written with; every other reported conflict is tolerated, and printed.
\<close>

lemma owned_conflicts_are_fatal:
  assumes "pkg \<noteq> []" "list_all dist_char pkg" "version \<noteq> []" "CHR '' '' \<notin> set version"
    and "dep \<noteq> []" "list_all dist_char dep" "rest = [] \<or> \<not> dist_char (hd rest)"
    and "line = conflict_line pkg version missing dep rest" and "reported line"
    and "line \<in> set (map strip (splitlines text))"
  shows "(line \<in> set (fst (classify_pip_check re_search text owned allow)) \<longleftrightarrow>
      \<not> list_ex (\<lambda>a. re_search a line) allow \<and> (norm_name pkg \<in> set owned \<or> norm_name dep \<in> set owned)) \<and>
    (line \<in> set (fst (classify_pip_check re_search text owned allow)) \<longleftrightarrow>
      line \<notin> set (snd (classify_pip_check re_search text owned allow)))"
proof -
  have "touches_owned owned line \<longleftrightarrow> norm_name pkg \<in> set owned \<or> norm_name dep \<in> set owned"
    using match_conflict_line[OF assms(1-7)] assms(8) by (simp add: touches_owned_def)
  then show ?thesis using assms(9,10) by (simp add: classify_pip_check_def classify_filter)
qed

theorem owned_conflicts_are_fatal_witness:
  "''Flash.Attn 2.0 has requirement torch==2, but you have torch 3.'' \<in>
     set (fst (classify_pip_check (\<lambda>a l. a = l) ''Flash.Attn 2.0 has requirement torch==2, but you have torch 3.'' [''flash-attn''] []))"
proof -
  let ?line = "''Flash.Attn 2.0 has requirement torch==2, but you have torch 3.''"
  have "?line = conflict_line ''Flash.Attn'' ''2.0'' False ''torch'' ''==2, but you have torch 3.''"
    by (simp add: conflict_line_def)
  moreover have "reported ?line" by code_simp
  moreover have "?line \<in> set (map strip (splitlines ?line))" by code_simp
  moreover have "norm_name ''Flash.Attn'' \<in> set [''flash-attn'']" by code_simp
  moreover have "list_all dist_char ''Flash.Attn''" "list_all dist_char ''torch''" "\<not> dist_char (CHR ''='')" by code_simp+
  ultimately show ?thesis
    using owned_conflicts_are_fatal[of "''Flash.Attn''" "''2.0''" "''torch''" "''==2, but you have torch 3.''" ?line False ?line
        "\<lambda>a l. a = l" "[''flash-attn'']" "[]"]
    by simp
qed

end
