(* ===== verification/Gate_Dockerfile.thy ===== *)
theory Gate_Dockerfile
  imports Py_Text
begin

text \<open>
  The Dockerfile checker (\<^verbatim>\<open>scripts/dockerfile-parse-check.py\<close>): it follows an instruction through its
  continuation lines and the heredocs it opens, and reports a line that would start an instruction and
  does not, or a heredoc that is never closed. The result: it reports nothing exactly for the files a
  declarative grammar of such lines derives.
\<close>

section \<open>Lines\<close>

definition INSTRUCTIONS :: "string list" where
  "INSTRUCTIONS = [''FROM'', ''RUN'', ''CMD'', ''LABEL'', ''MAINTAINER'', ''EXPOSE'', ''ENV'', ''ADD'', ''COPY'',
     ''ENTRYPOINT'', ''VOLUME'', ''USER'', ''WORKDIR'', ''ARG'', ''ONBUILD'', ''STOPSIGNAL'', ''HEALTHCHECK'', ''SHELL'']"

definition upper_char :: "char \<Rightarrow> char" where
  "upper_char c = (let n = of_char c :: nat in
     if (97 \<le> n \<and> n \<le> 122) \<or> (224 \<le> n \<and> n \<le> 254 \<and> n \<noteq> 247) then char_of (n - 32) else c)"

definition head_word :: "string \<Rightarrow> string" where
  "head_word line = map upper_char (takeWhile (\<lambda>c. \<not> blank c) (lstrip line))"

definition comment :: "string \<Rightarrow> bool" where
  "comment line \<longleftrightarrow> starts_with ''#'' (strip line)"

definition continues :: "string \<Rightarrow> bool" where
  "continues line \<longleftrightarrow> ends_with [CHR 0x5C] (rstrip line)"

definition name_start :: "char \<Rightarrow> bool" where
  "name_start c \<longleftrightarrow> c \<in> set ''ABCDEFGHIJKLMNOPQRSTUVWXYZabcdefghijklmnopqrstuvwxyz_''"

definition name_char :: "char \<Rightarrow> bool" where
  "name_char c \<longleftrightarrow> name_start c \<or> c \<in> set ''0123456789''"

text \<open>
  A heredoc that opens where the text starts: its delimiter, whether it is dashed, and what follows.
\<close>

definition heredoc_at :: "string \<Rightarrow> ((string \<times> bool) \<times> string) option" where
  "heredoc_at s =
     (if \<not> starts_with ''<<'' s then None
      else
        (let s1 = drop 2 s;
             dashed = starts_with ''-'' s1;
             s2 = lstrip (drop (if dashed then 1 else 0) s1);
             quote = (if s2 \<noteq> [] \<and> hd s2 \<in> {CHR 0x27, CHR 0x22} then [hd s2] else []);
             s3 = drop (length quote) s2;
             word = takeWhile name_char s3;
             s4 = drop (length word) s3
         in if word = [] \<or> \<not> name_start (hd word) \<or> \<not> starts_with quote s4 then None
            else Some ((word, dashed), drop (length quote) s4)))"

lemma heredoc_shorter: "heredoc_at s = Some (d, t) \<Longrightarrow> length t < length s"
proof -
  assume h: "heredoc_at s = Some (d, t)"
  then have start: "starts_with ''<<'' s" by (simp add: heredoc_at_def split: if_split_asm)
  then have "take 2 s = ''<<''" by (simp add: starts_with_def numeral_2_eq_2)
  then have "length (take 2 s) = length ''<<''" by (rule arg_cong)
  then have two: "length s \<ge> 2" by simp
  define s2 where "s2 = lstrip (drop (if starts_with ''-'' (drop 2 s) then 1 else 0) (drop 2 s))"
  define quote where "quote = (if s2 \<noteq> [] \<and> hd s2 \<in> {CHR 0x27, CHR 0x22} then [hd s2] else [])"
  define word where "word = takeWhile name_char (drop (length quote) s2)"
  have "heredoc_at s = (if word = [] \<or> \<not> name_start (hd word) \<or> \<not> starts_with quote (drop (length word) (drop (length quote) s2))
      then None else Some ((word, starts_with ''-'' (drop 2 s)), drop (length quote) (drop (length word) (drop (length quote) s2))))"
    unfolding heredoc_at_def Let_def word_def quote_def s2_def using start by (simp only: if_False not_True_eq_False)
  then have "t = drop (length quote) (drop (length word) (drop (length quote) s2))" using h by (simp split: if_split_asm)
  then have "length t \<le> length s2" by simp
  also have "\<dots> \<le> length (drop (if starts_with ''-'' (drop 2 s) then 1 else 0) (drop 2 s))"
    unfolding s2_def lstrip_def by (rule length_dropWhile_le)
  also have "\<dots> \<le> length s - 2" by simp
  finally show ?thesis using two by simp
qed

text \<open>All heredocs of a line.\<close>

function heredocs :: "string \<Rightarrow> (string \<times> bool) list" where
  "heredocs s =
     (case s of
        [] \<Rightarrow> []
      | c # s' \<Rightarrow> (case heredoc_at s of Some (d, t) \<Rightarrow> d # heredocs t | None \<Rightarrow> heredocs s'))"
  by pat_completeness auto
termination by (relation "measure length") (auto dest: heredoc_shorter)

declare heredocs.simps [simp del]

section \<open>The checker\<close>

definition closes :: "string \<times> bool \<Rightarrow> string \<Rightarrow> bool" where
  "closes d line \<longleftrightarrow> rstrip (if snd d then dropWhile (\<lambda>c. c = CHR 0x09) line else line) = fst d"

text \<open>The lines after the body of a heredoc, if it is closed.\<close>

fun take_body :: "string \<times> bool \<Rightarrow> string list \<Rightarrow> string list option" where
  "take_body d [] = None"
| "take_body d (l # ls) = (if closes d l then Some ls else take_body d ls)"

lemma take_body_shorter: "take_body d ls = Some rest \<Longrightarrow> length rest < length ls"
  by (induction d ls rule: take_body.induct) (auto split: if_split_asm)

text \<open>The lines after an instruction, or the delimiter of a heredoc that is not closed.\<close>

function consume :: "(string \<times> bool) list \<Rightarrow> bool \<Rightarrow> string list \<Rightarrow> string + string list" where
  "consume (d # ds) cont ls = (case take_body d ls of None \<Rightarrow> Inl (fst d) | Some rest \<Rightarrow> consume ds False rest)"
| "consume [] cont [] = Inr []"
| "consume [] cont (l # ls) =
     (if \<not> cont then Inr (l # ls)
      else if comment l then consume [] True ls
      else consume (heredocs l) (continues l) ls)"
  by pat_completeness auto
termination by (relation "measure (\<lambda>(ds, cont, ls). length ls)") (auto dest: take_body_shorter)

datatype problem = Bad_instruction nat string | Unclosed string

lemma consume_shorter: "consume ds cont ls = Inr rest \<Longrightarrow> length rest \<le> length ls"
proof (induction ds cont ls rule: consume.induct)
  case (1 d ds cont ls)
  then show ?case using take_body_shorter by (fastforce split: option.splits)
next
  case (3 cont l ls)
  then show ?case by (fastforce split: if_split_asm)
qed simp

function check_lines :: "nat \<Rightarrow> string list \<Rightarrow> problem list" where
  "check_lines i [] = []"
| "check_lines i (l # ls) =
     (if strip l = [] \<or> comment l then check_lines (Suc i) ls
      else if head_word l \<notin> set INSTRUCTIONS then Bad_instruction i (head_word l) # check_lines (Suc i) ls
      else case consume (heredocs l) (continues l) ls of
          Inl d \<Rightarrow> [Unclosed d]
        | Inr rest \<Rightarrow> check_lines (i + Suc (length ls) - length rest) rest)"
  by pat_completeness auto
termination
  by (relation "measure (\<lambda>(i, ls). length ls)") (auto dest!: consume_shorter)

declare consume.simps [simp del] and check_lines.simps [simp del]

definition check :: "string \<Rightarrow> problem list" where
  "check text = check_lines 1 (splitlines text)"

section \<open>The grammar\<close>

text \<open>The bodies of some heredocs, one after the other, and the lines that follow.\<close>

inductive bodies :: "(string \<times> bool) list \<Rightarrow> string list \<Rightarrow> string list \<Rightarrow> bool" where
  no_body: "bodies [] ls ls"
| body: "list_all (\<lambda>l. \<not> closes d l) body \<Longrightarrow> closes d l \<Longrightarrow> bodies ds ls rest \<Longrightarrow> bodies (d # ds) (body @ l # ls) rest"

text \<open>
  The lines that follow an instruction that has come as far as the given line: its last line, a line
  that opens heredocs, or one that is continued, with comments in between.
\<close>

inductive instruction :: "string \<Rightarrow> string list \<Rightarrow> string list \<Rightarrow> bool" where
  last_line: "heredocs l = [] \<Longrightarrow> \<not> continues l \<Longrightarrow> instruction l ls ls"
| opens: "heredocs l \<noteq> [] \<Longrightarrow> bodies (heredocs l) ls rest \<Longrightarrow> instruction l ls rest"
| ends: "heredocs l = [] \<Longrightarrow> continues l \<Longrightarrow> list_all comment cs \<Longrightarrow> instruction l cs []"
| continued: "heredocs l = [] \<Longrightarrow> continues l \<Longrightarrow> list_all comment cs \<Longrightarrow> \<not> comment l' \<Longrightarrow> instruction l' ls rest \<Longrightarrow>
    instruction l (cs @ l' # ls) rest"

inductive dockerfile :: "string list \<Rightarrow> bool" where
  no_lines: "dockerfile []"
| skipped: "strip l = [] \<or> comment l \<Longrightarrow> dockerfile ls \<Longrightarrow> dockerfile (l # ls)"
| instr: "strip l \<noteq> [] \<Longrightarrow> \<not> comment l \<Longrightarrow> head_word l \<in> set INSTRUCTIONS \<Longrightarrow> instruction l ls rest \<Longrightarrow> dockerfile rest \<Longrightarrow>
    dockerfile (l # ls)"

inductive_cases bodies_nilE: "bodies [] ls rest"
inductive_cases bodies_consE: "bodies (d # ds) ls rest"
inductive_cases dockerfile_consE: "dockerfile (l # ls)"

lemma take_body_split: "take_body d ls = Some rest \<longleftrightarrow> (\<exists>body l. ls = body @ l # rest \<and> list_all (\<lambda>l. \<not> closes d l) body \<and> closes d l)"
proof (induction ls)
  case (Cons x ls)
  show ?case
  proof (cases "closes d x")
    case True
    then show ?thesis by (auto simp: Cons_eq_append_conv)
  next
    case False
    then show ?thesis using Cons by (auto simp: Cons_eq_append_conv)
  qed
qed simp

lemma bodies_iff: "bodies ds ls rest \<longleftrightarrow> consume ds False ls = Inr rest"
proof (induction ds arbitrary: ls)
  case Nil
  have "consume [] False ls = Inr ls" by (cases ls) (simp_all add: consume.simps)
  then show ?case by (auto intro: bodies.no_body elim: bodies_nilE)
next
  case (Cons d ds)
  have "bodies (d # ds) ls rest \<longleftrightarrow> (\<exists>mid. take_body d ls = Some mid \<and> bodies ds mid rest)"
    unfolding take_body_split by (blast intro: bodies.body elim: bodies_consE)
  then show ?case using Cons by (auto simp: consume.simps(1) split: option.split)
qed

lemma consume_open: "ds \<noteq> [] \<Longrightarrow> consume ds cont ls = Inr rest \<longleftrightarrow> bodies ds ls rest"
  unfolding bodies_iff by (cases ds) (simp_all add: consume.simps(1))

lemma consume_comments: "list_all comment cs \<Longrightarrow> consume [] True (cs @ ls) = consume [] True ls"
  by (induction cs) (simp_all add: consume.simps)

lemma instruction_consumes: "instruction l ls rest \<Longrightarrow> consume (heredocs l) (continues l) ls = Inr rest"
proof (induction rule: instruction.induct)
  case (last_line l ls) then show ?case by (cases ls) (simp_all add: consume.simps)
next
  case (opens l ls rest) then show ?case by (simp add: consume_open)
next
  case (ends l cs) then show ?case using consume_comments[of cs "[]"] by (simp add: consume.simps)
next
  case (continued l cs l' ls rest) then show ?case by (simp add: consume_comments consume.simps(3))
qed

lemma consumed_instruction:
  "consume ds cont ls = Inr rest \<Longrightarrow> ds = heredocs l \<Longrightarrow> cont = continues l \<Longrightarrow> instruction l ls rest"
proof (induction "length ls" arbitrary: ds cont ls l rule: less_induct)
  case less
  show ?case
  proof (cases "heredocs l = []")
    case False
    then show ?thesis using less.prems by (auto simp: consume_open intro: instruction.opens)
  next
    case True
    show ?thesis
    proof (cases "continues l")
      case False
      then show ?thesis using less.prems True by (cases ls) (auto simp: consume.simps intro: instruction.last_line)
    next
      case cont: True
      define cs where "cs = takeWhile comment ls"
      define more where "more = dropWhile comment ls"
      have ls: "ls = cs @ more" and cs: "list_all comment cs"
        by (auto simp: cs_def more_def list_all_iff dest: set_takeWhileD)
      have run: "consume [] True more = Inr rest"
        using less.prems True cont consume_comments[OF cs, of more] ls by simp
      show ?thesis
      proof (cases more)
        case Nil
        then show ?thesis using run ls cs True cont by (auto simp: consume.simps intro: instruction.ends)
      next
        case (Cons l' ls')
        have "\<not> comment (hd more)" unfolding more_def by (rule hd_dropWhile) (use Cons in \<open>simp add: more_def\<close>)
        then have "\<not> comment l'" by (simp add: Cons)
        moreover from this have "consume (heredocs l') (continues l') ls' = Inr rest"
          using run Cons by (simp add: consume.simps)
        then have "instruction l' ls' rest" using less.hyps[of ls'] ls Cons by simp
        ultimately show ?thesis using instruction.continued[OF True cont cs] ls Cons by blast
      qed
    qed
  qed
qed

text \<open>
  C25. The checker reports nothing exactly when the grammar derives the lines of the file: blank lines,
  comments, and instructions that begin with one of the known words and end where their
  continuations and heredocs do.
\<close>

theorem check_accepts_the_grammar: "check text = [] \<longleftrightarrow> dockerfile (splitlines text)"
proof -
  have "check_lines i ls = [] \<longleftrightarrow> dockerfile ls" for i ls
  proof (induction i ls rule: check_lines.induct)
    case (1 i) then show ?case by (simp add: check_lines.simps dockerfile.no_lines)
  next
    case (2 i l ls)
    show ?case
    proof (cases "strip l = [] \<or> comment l")
      case True
      then show ?thesis using 2(1) by (auto simp: check_lines.simps intro: dockerfile.skipped elim: dockerfile_consE)
    next
      case False
      show ?thesis
      proof (cases "head_word l \<in> set INSTRUCTIONS")
        case bad: False
        then show ?thesis using False by (auto simp: check_lines.simps elim: dockerfile_consE)
      next
        case head: True
        show ?thesis
        proof (cases "consume (heredocs l) (continues l) ls")
          case (Inl d)
          then show ?thesis using False head
            by (auto simp: check_lines.simps elim!: dockerfile_consE dest: instruction_consumes)
        next
          case (Inr rest)
          then have "check_lines i (l # ls) = [] \<longleftrightarrow> dockerfile rest"
            using 2(3)[OF False _ Inr] False head by (simp add: check_lines.simps)
          moreover have ins: "instruction l ls rest" by (rule consumed_instruction[OF Inr]) simp_all
          moreover have "dockerfile (l # ls) \<longleftrightarrow> dockerfile rest"
            using False head Inr dockerfile.instr[OF _ _ head ins]
            by (auto elim!: dockerfile_consE dest!: instruction_consumes)
          ultimately show ?thesis by simp
        qed
      qed
    qed
  qed
  then show ?thesis by (simp add: check_def)
qed

text \<open>
  The word after a here-string's three angle brackets is taken for a heredoc's delimiter, so an
  instruction with a here-string is reported.
\<close>

lemma here_string_is_reported: "check ''RUN cat <<< word'' = [Unclosed ''word'']"
  by code_simp

end
