(* ===== verification/Spec2Isabelle.thy ===== *)
theory Spec2Isabelle
  imports Virtual_Heads Indexer_Workspace Grammar_Backport Overlay_Rules Moe_Load Swa_Build Expert_Counters Kv_Block_Queue
    Block_Hashing Vocab_Shards Kv_Config Engram_Hash Engram_Table Serving_App Gate_Overlay Gate_Pins Gate_Checks Gate_Dockerfile
begin

text \<open>
  A verification development for \<open>llmkube-runtimes\<close>, the build of inference images for LLMKube. The repository
  has no program of its own around which everything turns: an image takes a pinned upstream (vLLM, exllamav3 or
  llama.cpp), replaces or edits some of its Python files, adds a server or kernels, and passes gates. This
  development models the Python code that carries the logic of those images.

  \<^bold>\<open>The parts and how they meet.\<close> The image \<open>cuda-gb10-vllm-dsv41-exl3\<close> (DeepSeek V4.1) lays the files of \<open>patches/\<close>
  over vLLM, guarded by \<open>build/drift_gate.py\<close> and \<open>build/apply_patches.py\<close>. When vLLM starts, \<open>weight_utils.py\<close>
  reads the checkpoint, \<open>exl3_config.py\<close> names the quantized modules, and \<open>exl3_moe.py\<close>,
  \<open>vocab_parallel_embedding.py\<close>, \<open>engram.py\<close> and \<open>virtual_heads.py\<close> load them on the ranks. \<open>kv_cache_utils.py\<close>
  sizes the cache, groups its layers and lays out its tensors; at run time it hashes the blocks of prompts and keeps
  the free blocks, and \<open>sparse_swa.py\<close> makes the attention metadata of every step. The image
  \<open>cuda-gb10-vllm-glm53-exl3\<close> (GLM-5.3-Flash) runs the experts of \<open>overlay/exl3.py\<close> and edits vLLM by the scripts
  \<open>overlay/patch_*.py\<close>. The image \<open>cuda-gb10-exllamav3-dsv41\<close> has a server of its own in \<open>server/\<close>. The gates of
  \<open>cuda-gb10-vllm-dsv41-kk/build\<close> and \<open>scripts/dockerfile-parse-check.py\<close> guard the builds.

  \<^bold>\<open>Conventions.\<close> \<open>Runtime_Base\<close> has the exceptions and results (a sum of an exception and a value; an \<open>outcome\<close>
  also keeps the state an operation leaves behind when it raises), dictionaries in insertion order and Python's
  integer division; \<open>Py_Text\<close> has the string methods, on characters below 256. Python's integers are \<open>int\<close>, or \<open>nat\<close>
  where the code only has counts and indices; the 64-bit products of the Engram hash and its 32-bit stores are
  written with words. A record field keeps the source's name. Numbers that the code holds in floating point are
  exact here: the order of roundings in a kernel is not modelled. What lies outside the repository (vLLM's
  configuration and cache-spec classes, torch, exllamav3, xgrammar, the tokenizer, the file system, git, hashes) is an
  argument of the definitions that use it, and the facts relied on are hypotheses over that argument
  (\<open>api_uniform\<close>, \<open>matcher_ok\<close>, \<open>swa_pages\<close> and the like), each met by a concrete instance in a witness; the
  theories ending in \<open>_Demo\<close> hold the larger instances.
\<close>

text \<open>
  \<^bold>\<open>The theories, with the source they model.\<close>

  \<^item> \<open>Kv_Block_Queue\<close> (\<open>kv_cache_utils.py\<close>, \<open>KVCacheBlock\<close> and \<open>FreeKVCacheBlockQueue\<close>): the doubly linked free
    list on an explicit store. The pool is partitioned into free and taken blocks by every operation, the queue
    refines a list with removal in the middle, eviction is least recently used, and an iteration ends and resumes.
    The laws of the queue are the locale \<open>eviction_queue\<close>, interpreted on the linked list.
  \<^item> \<open>Block_Hashing\<close> (same file, from \<open>hash_block_tokens\<close> to the request hasher): equal block hashes mean equal
    prefixes, but for the mix-up of an adapter's name and a cache salt (\<open>lora_salt_collision\<close>), and hashing in
    several calls is hashing in one. The hash is an argument that is injective.
  \<^item> \<open>Kv_Specs\<close>, \<open>Kv_Sizing\<close>, \<open>Kv_Groups\<close>, \<open>Kv_Config\<close> (same file): block sizes and the longest model length by
    binary search; every way of grouping layers, each layer in one group (locale \<open>splitter\<close>, interpreted on
    both ways of splitting); the tensors of one worker, in which no two layers' pages overlap (locale
    \<open>paged_pool\<close>, interpreted on both layouts; strides that split a page outside block-outermost layouts
    are left out), and the plans of all workers, which agree and project the model's groups.
  \<^item> \<open>Vocab_Shards\<close> (\<open>vocab_parallel_embedding.py\<close>): the sharded lookup is the lookup in the whole table.
  \<^item> \<open>Engram_Layout\<close>, \<open>Engram_Hash\<close>, \<open>Engram_Table\<close> (\<open>engram.py\<close>): primes and bucket ranges, the rolling
    hashes with their slot cache, the table split by heads, on the device and on disk. Buckets do not overlap
    and have sizes that pass the code's primality test (primes below 1681, probable primes beyond),
    hashes do not depend on how a prompt is cut into chunks, and the shards together are the table.
  \<^item> \<open>Weight_Files\<close>, \<open>Weight_Streams\<close> (\<open>weight_utils.py\<close>): order and choice of files, mounts, prefetch and the
    names of scales and experts; the generators of tensors, the numpy cache, the atomic writer and the loaders.
    Shards come in the order of their numbers, Engram tables stay on disk, a cached checkpoint is the
    checkpoint, a write is all or nothing.
  \<^item> \<open>Virtual_Heads\<close> (\<open>virtual_heads.py\<close>): padding with zero columns leaves the output projection as it was.
  \<^item> \<open>Exl3_Names\<close> (\<open>exl3_config.py\<close>): the tables of the quantized modules, their resolution and the choice of
    a method. \<open>Packed_Tensors\<close> and \<open>Moe_Load\<close> (\<open>exl3_moe.py\<close>): the uneven split over ranks and both loading
    protocols; shared experts stay with the base format, and the ranks together hold the checkpoint.
  \<^item> \<open>Swa_Indices\<close>, \<open>Swa_Chunks\<close>, \<open>Swa_Build\<close> (\<open>sparse_swa.py\<close>): the kernels as programs per token, the chunk
    plan, and the builder; the rows of a prefill are the positions its tokens see, and builds write
    into the buffers of the constructor in place and show nothing of earlier steps. Buffers are values: their
    addresses appear as what stays behind the written rows.
  \<^item> \<open>Expert_Tiers\<close>, \<open>Expert_Routing\<close>, \<open>Expert_Tables\<close>, \<open>Expert_Apply\<close>, \<open>Expert_Agree\<close>, \<open>Expert_Layer\<close>,
    \<open>Expert_Counters\<close>, \<open>Exl3_Load\<close> (\<open>overlay/exl3.py\<close>, \<open>exl3_fat_gemm.cu\<close>, \<open>exl3_fat_moe.cu\<close>): tiers, tables,
    kernels and loops. All paths compute the routed sum, the tier that is reported is the one that ran, and the
    diagnostic counters balance in every reachable state of the process, without a gap as long as no call raised.
  \<^item> \<open>Text_Patches\<close>, \<open>Indexer_Workspace\<close>, \<open>Grammar_Backport\<close>, \<open>Overlay_Rules\<close> (\<open>overlay/patch_*.py\<close>): how an
    edit recognises its file, and what the edited code does: chunks as with the stock workspace, batches of
    tokens as sequences, the drafter's pages, the tail's slots, prefill beside decode.
  \<^item> \<open>Serving_Text\<close>, \<open>Serving_Engine\<close>, \<open>Serving_App\<close> (\<open>cuda-gb10-exllamav3-dsv41/server\<close>): the event text, the
    engine with its lock, and the endpoints. The load thread and the requests are steps of one relation; at most
    one stream runs in every reachable state, a streamed completion is the output it was made from, and an
    abandoned stream's text goes to the next client of a generator that works its jobs off in order.
  \<^item> \<open>Gate_Overlay\<close>, \<open>Gate_Pins\<close>, \<open>Gate_Checks\<close>, \<open>Gate_Dockerfile\<close>: the build gates; an overlay replaces known
    files only, an image that passes is the pinned one, and the Dockerfile checker accepts its grammar.

  \<^bold>\<open>Termination and bounds.\<close> Loops are structural recursions or have a measure: the length of what is left to
  read, the interval of a binary search, the distance to a bound. There is no fuel. Four loops end only for
  inputs that make sense and are partial functions, None where they do not return: the two walks along the free
  list (\<open>free_blocks_loop\<close>, \<open>iter_loop\<close>), which return on every store that satisfies the invariant; the loop of the
  request hasher (\<open>hasher_loop\<close>), which returns for a positive block size; and the search for the next prime
  (\<open>find_next_prime_from\<close>), which returns since the accepted numbers have no bound. The slots of a sliding-window
  row are stored in tiles of 1024 lanes (\<open>TRITON_BLOCK_SIZE\<close>), as many as cover the row.
\<close>

text \<open>
  \<^bold>\<open>Not modelled.\<close>

  \<^item> The attention and model code of the DeepSeek image (\<open>attention.py\<close>, \<open>sparse_attn_indexer.py\<close>,
    \<open>flashinfer_sparse.py\<close>, \<open>nvidia_model.py\<close>, \<open>dsv4_nvidia_model.py\<close>, \<open>vl_model.py\<close>, \<open>model_state.py\<close>): module
    graphs that call kernels of torch, Triton, FlashInfer and DeepGEMM, whose meaning is theirs.
  \<^item> In \<open>engram.py\<close> the fused projection after the lookup, the disk stager and pinned memory; in \<open>exl3_moe.py\<close>
    the forward pass, a chain of calls into a compiled extension; in \<open>kv_cache_utils.py\<close> the floating-point
    ratios that are only logged; in \<open>weight_utils.py\<close> downloads, dummy weights and streams of other libraries.
  \<^item> In \<open>overlay/\<close> the speculator and draft model (\<open>dflash2_speculator.py\<close>, \<open>qwen3_dflash2.py\<close>), and the
    patches whose text is only inserted into code of vLLM that is not here (\<open>patch_hybrid_prefix_hit.py\<close>,
    \<open>patch_suppress_stops_in_reasoning.py\<close>, \<open>patch_dflash2.py\<close>, \<open>patch_glm_eagle3.py\<close> and others).
  \<^item> The gates of \<open>cuda-gb10-vllm-dsv41-b12x/build\<close>, earlier copies of those modelled here; the prewarm scripts,
    which import modules for their side effects; tests; patches of other projects; the Go programs under \<open>cmd\<close>
    and \<open>internal\<close>; shell scripts, Dockerfiles and workflows.
\<close>

end
